(* ===== verification/Lcfg_Prelude.thy ===== *)
theory Lcfg_Prelude
  imports Main "HOL-Library.Word" "HOL-Library.Multiset"
begin

text \<open>
  Shared ground of the development: C strings and the parts of the C library
  the sources call (character classes of the C locale, \<open>strcmp\<close>,
  \<open>strcasecmp\<close>, \<open>strchr\<close>), the status and change codes and option bits of
  \<open>include/common.h\<close>, the contract of a three-way comparison function and
  the bubble sort that two of the list types use.

  A \<open>char *\<close> is \<open>string option\<close>: \<open>None\<close> is \<open>NULL\<close> and \<open>Some s\<close> is a string
  whose characters before the terminating nul are \<open>s\<close>.
\<close>

unbundle bit_operations_syntax

named_theorems lcfg_chr "definitions of the character classes"
named_theorems lcfg_flag "values of the option and rule bits"
named_theorems lcfg_attr "characterisations of attribute setters and tests"

section \<open>C strings\<close>

type_synonym cstr = "string option"

definition isempty :: "cstr \<Rightarrow> bool" where
  "isempty s \<longleftrightarrow> (case s of None \<Rightarrow> True | Some t \<Rightarrow> t = [])"

definition or_default :: "cstr \<Rightarrow> string \<Rightarrow> string" where
  "or_default s d = (case s of None \<Rightarrow> d | Some t \<Rightarrow> if t = [] then d else t)"

lemma isempty_simps [simp]:
  "isempty None" "isempty (Some t) \<longleftrightarrow> t = []"
  by (simp_all add: isempty_def)

lemma not_isemptyE:
  assumes "\<not> isempty s"
  obtains t where "s = Some t" "t \<noteq> []"
  using assms by (cases s) auto

lemma or_default_simps [simp]:
  "or_default None d = d" "or_default (Some []) d = d"
  "t \<noteq> [] \<Longrightarrow> or_default (Some t) d = t"
  by (simp_all add: or_default_def)

lemma or_default_empty: "or_default s d = (if isempty s then d else the s)"
  by (cases s) (auto simp: or_default_def)

text \<open>\<open>*ptr\<close> at the start of a string: the terminating nul when nothing is left.\<close>

definition nul :: char where "nul = CHR 0x00"

definition cur :: "string \<Rightarrow> char" where
  "cur s = (case s of [] \<Rightarrow> nul | c # _ \<Rightarrow> c)"

lemma cur_simps [simp]: "cur [] = nul" "cur (c # s) = c"
  by (simp_all add: cur_def)

text \<open>\<open>strchr(set, c) != NULL\<close>: the terminator of the set is found as well.\<close>

definition strchr_in :: "string \<Rightarrow> char \<Rightarrow> bool" where
  "strchr_in s c \<longleftrightarrow> c \<in> set s \<or> c = nul"

definition byte :: "char \<Rightarrow> int" where "byte c = of_char c"

text \<open>The value of a plain \<open>char\<close> where it is signed (as on x86).\<close>

definition sbyte :: "char \<Rightarrow> int" where
  "sbyte c = (if byte c < 128 then byte c else byte c - 256)"

lemma byte_mod: "byte c mod 256 = byte c"
  by (simp add: byte_def)

lemma byte_bounds [simp]: "0 \<le> byte c" "byte c < 256"
  using pos_mod_bound [of 256 "byte c"] pos_mod_sign [of 256 "byte c"]
  by (simp_all add: byte_mod)

lemma byte_eq_iff [simp]: "byte c = byte d \<longleftrightarrow> c = d"
  by (simp add: byte_def)

section \<open>Character classes of the C locale\<close>

definition isdigit :: "char \<Rightarrow> bool" where
  [lcfg_chr]: "isdigit c \<longleftrightarrow> 48 \<le> byte c \<and> byte c \<le> 57"

definition isupper :: "char \<Rightarrow> bool" where
  [lcfg_chr]: "isupper c \<longleftrightarrow> 65 \<le> byte c \<and> byte c \<le> 90"

definition islower :: "char \<Rightarrow> bool" where
  [lcfg_chr]: "islower c \<longleftrightarrow> 97 \<le> byte c \<and> byte c \<le> 122"

definition isalpha :: "char \<Rightarrow> bool" where
  [lcfg_chr]: "isalpha c \<longleftrightarrow> isupper c \<or> islower c"

definition isalnum :: "char \<Rightarrow> bool" where
  [lcfg_chr]: "isalnum c \<longleftrightarrow> isalpha c \<or> isdigit c"

definition isspace :: "char \<Rightarrow> bool" where
  [lcfg_chr]: "isspace c \<longleftrightarrow> byte c = 32 \<or> (9 \<le> byte c \<and> byte c \<le> 13)"

text \<open>The macro \<open>isword\<close> of \<open>include/common.h\<close>.\<close>

definition isword :: "char \<Rightarrow> bool" where
  [lcfg_chr]: "isword c \<longleftrightarrow> isalnum c \<or> c = CHR ''_''"

definition tolower :: "char \<Rightarrow> int" where
  "tolower c = (if isupper c then byte c + 32 else byte c)"

lemma isalnum_isword: "isalnum c \<Longrightarrow> isword c"
  by (simp add: isword_def)

lemma isword_not_isspace: "isword c \<Longrightarrow> \<not> isspace c"
  by (auto simp: lcfg_chr byte_def)

text \<open>
  The loops \<open>while (isspace(*p)) p++\<close> and
  \<open>while (len > 0 && isspace(*(p + len - 1))) len--\<close>.
\<close>

definition skip_space :: "string \<Rightarrow> string" where
  "skip_space s = dropWhile isspace s"

definition trim_end :: "string \<Rightarrow> string" where
  "trim_end s = rev (dropWhile isspace (rev s))"

lemma skip_space_simps [simp]:
  "skip_space [] = []"
  "isspace c \<Longrightarrow> skip_space (c # s) = skip_space s"
  "\<not> isspace c \<Longrightarrow> skip_space (c # s) = c # s"
  by (simp_all add: skip_space_def)

lemma trim_end_Nil [simp]: "trim_end [] = []"
  by (simp add: trim_end_def)

lemma trim_end_snoc [simp]:
  "trim_end (s @ [c]) = (if isspace c then trim_end s else s @ [c])"
  by (simp add: trim_end_def)

lemma trim_end_id: "s = [] \<or> \<not> isspace (last s) \<Longrightarrow> trim_end s = s"
  by (cases s rule: rev_cases) auto

lemma skip_space_id: "s = [] \<or> \<not> isspace (hd s) \<Longrightarrow> skip_space s = s"
  by (cases s) auto

lemma skip_space_hd: "skip_space s = [] \<or> \<not> isspace (hd (skip_space s))"
  unfolding skip_space_def using hd_dropWhile by blast

lemma skip_space_suffix: "\<exists>w. s = w @ skip_space s \<and> (\<forall>c\<in>set w. isspace c)"
  unfolding skip_space_def
  by (metis set_takeWhileD takeWhile_dropWhile_id)

lemma trim_end_last: "trim_end s = [] \<or> \<not> isspace (last (trim_end s))"
  by (induction s rule: rev_induct) auto

lemma trim_end_prefix: "\<exists>w. s = trim_end s @ w \<and> (\<forall>c\<in>set w. isspace c)"
proof -
  have "rev s = takeWhile isspace (rev s) @ dropWhile isspace (rev s)" by simp
  then have "rev (rev s) = rev (dropWhile isspace (rev s)) @ rev (takeWhile isspace (rev s))"
    by (metis rev_append)
  then show ?thesis unfolding trim_end_def
    by (intro exI [of _ "rev (takeWhile isspace (rev s))"]) (auto dest: set_takeWhileD)
qed

section \<open>Three-way comparison\<close>

text \<open>
  What the callers of a comparison function rely on: swapping the arguments swaps
  the sign, and \<open>\<le>\<close> is transitive. Every comparison function of the model
  interprets this locale, and the sorting lemmas need nothing else.
\<close>

locale comparator =
  fixes cmp :: "'a \<Rightarrow> 'a \<Rightarrow> int"
  assumes cmp_flip: "sgn (cmp y x) = - sgn (cmp x y)"
    and cmp_le_trans: "cmp x y \<le> 0 \<Longrightarrow> cmp y z \<le> 0 \<Longrightarrow> cmp x z \<le> 0"
begin

lemma cmp_refl [simp]: "cmp x x = 0"
  using cmp_flip [of x x] by (simp add: sgn_if split: if_splits)

lemma cmp_gt_iff: "0 < cmp x y \<longleftrightarrow> cmp y x < 0"
  using cmp_flip [of x y] by (auto simp: sgn_if split: if_splits)

lemma cmp_le_iff: "0 \<le> cmp x y \<longleftrightarrow> cmp y x \<le> 0"
  using cmp_flip [of x y] by (auto simp: sgn_if split: if_splits)

lemma cmp_eq_iff: "cmp x y = 0 \<longleftrightarrow> cmp y x = 0"
  using cmp_flip [of x y] by (auto simp: sgn_if split: if_splits)

lemma cmp_eq_trans: "cmp x y = 0 \<Longrightarrow> cmp y z = 0 \<Longrightarrow> cmp x z = 0"
  using cmp_le_trans [of x y z] cmp_le_trans [of z y x] cmp_eq_iff [of x y] cmp_eq_iff [of y z]
    cmp_le_iff [of x z]
  by linarith

lemma cmp_less_le_trans: "cmp x y < 0 \<Longrightarrow> cmp y z \<le> 0 \<Longrightarrow> cmp x z < 0"
  using cmp_le_trans [of x y z] cmp_le_trans [of y z x] cmp_gt_iff [of y x] cmp_le_iff [of x z]
  by linarith

lemma cmp_le_less_trans: "cmp x y \<le> 0 \<Longrightarrow> cmp y z < 0 \<Longrightarrow> cmp x z < 0"
  using cmp_le_trans [of x y z] cmp_le_trans [of z x y] cmp_gt_iff [of z y] cmp_le_iff [of x z]
  by linarith

lemma cmp_eq_left: "cmp x y = 0 \<Longrightarrow> sgn (cmp x z) = sgn (cmp y z)"
proof -
  assume eq: "cmp x y = 0"
  then have eq': "cmp y x = 0" using cmp_eq_iff by blast
  have "cmp x z \<le> 0 \<longleftrightarrow> cmp y z \<le> 0" "cmp x z < 0 \<longleftrightarrow> cmp y z < 0"
    using eq eq' cmp_le_trans [of x y z] cmp_le_trans [of y x z]
      cmp_le_less_trans [of x y z] cmp_le_less_trans [of y x z] by auto
  then show ?thesis by (auto simp: sgn_if)
qed

lemma comparator_image: "comparator (\<lambda>a b. cmp (f a) (f b))"
  by unfold_locales (auto intro: cmp_flip cmp_le_trans)

lemma comparator_sgn: "comparator (\<lambda>a b. sgn (cmp a b))"
proof unfold_locales
  show "sgn (sgn (cmp y x)) = - sgn (sgn (cmp x y))" for x y
    by (simp add: cmp_flip [of y x])
  have le: "sgn i \<le> 0 \<longleftrightarrow> i \<le> 0" for i :: int by (simp add: sgn_if)
  show "sgn (cmp x y) \<le> 0 \<Longrightarrow> sgn (cmp y z) \<le> 0 \<Longrightarrow> sgn (cmp x z) \<le> 0" for x y z
    unfolding le by (rule cmp_le_trans)
qed

end

text \<open>Comparing by one criterion and, where it does not decide, by the next.\<close>

lemma comparator_then:
  assumes "comparator f" and "comparator g"
  shows "comparator (\<lambda>a b. if f a b = 0 then g a b else f a b)"
proof -
  note f = comparator.cmp_eq_iff [OF assms(1)] comparator.cmp_flip [OF assms(1)]
    comparator.cmp_eq_trans [OF assms(1)] comparator.cmp_less_le_trans [OF assms(1)]
    comparator.cmp_le_less_trans [OF assms(1)] comparator.cmp_le_trans [OF assms(1)]
  show ?thesis
  proof unfold_locales
    fix x y
    show "sgn (if f y x = 0 then g y x else f y x) = - sgn (if f x y = 0 then g x y else f x y)"
      using f(1) [of x y] f(2) [of y x] comparator.cmp_flip [OF assms(2), of y x] by auto
  next
    fix x y z
    assume xy: "(if f x y = 0 then g x y else f x y) \<le> 0"
      and yz: "(if f y z = 0 then g y z else f y z) \<le> 0"
    show "(if f x z = 0 then g x z else f x z) \<le> 0"
    proof (cases "f x y = 0 \<and> f y z = 0")
      case True
      then have "f x z = 0" using f(3) by blast
      with True xy yz show ?thesis using comparator.cmp_le_trans [OF assms(2)] by auto
    next
      case False
      with xy yz have "f x z < 0"
        using f(4) [of x y z] f(5) [of x y z] by (auto split: if_splits)
      then show ?thesis by simp
    qed
  qed
qed

text \<open>A comparison with the signs of another one on keys.\<close>

lemma comparator_by_key:
  assumes "comparator g" and sgn: "\<And>x y. sgn (f x y) = sgn (g (k x) (k y) :: int)"
  shows "comparator f"
proof unfold_locales
  show "sgn (f y x) = - sgn (f x y)" for x y
    unfolding sgn by (rule comparator.cmp_flip [OF assms(1)])
  have le: "f x y \<le> 0 \<longleftrightarrow> g (k x) (k y) \<le> 0" for x y
    using sgn [of x y] by (auto simp: sgn_if split: if_splits)
  show "f x y \<le> 0 \<Longrightarrow> f y z \<le> 0 \<Longrightarrow> f x z \<le> 0" for x y z
    unfolding le by (rule comparator.cmp_le_trans [OF assms(1)])
qed

lemma comparator_diff: "comparator (\<lambda>x y. f x - f y :: int)"
  by unfold_locales (auto simp: sgn_if)

section \<open>String comparison\<close>

text \<open>
  \<open>strcmp\<close> and \<open>strcasecmp\<close> as the difference of the first characters that differ,
  up to the terminating nul, which counts as 0. Only the sign is fixed by the C
  standard; the one caller that looks at the magnitude takes the function as a
  parameter (\<open>lcfgcontext_combine_expressions\<close>).
\<close>

fun lexcmp :: "(char \<Rightarrow> int) \<Rightarrow> string \<Rightarrow> string \<Rightarrow> int" where
  "lexcmp f [] [] = 0"
| "lexcmp f [] (b # bs) = - f b"
| "lexcmp f (a # as) [] = f a"
| "lexcmp f (a # as) (b # bs) =
     (if f a \<noteq> f b then f a - f b else if f a = 0 then 0 else lexcmp f as bs)"

definition strcmp :: "string \<Rightarrow> string \<Rightarrow> int" where
  "strcmp a b = lexcmp byte a b"

definition strcasecmp :: "string \<Rightarrow> string \<Rightarrow> int" where
  "strcasecmp a b = lexcmp tolower a b"

lemma lexcmp_flip: "lexcmp f b a = - lexcmp f a b"
  by (induction f a b rule: lexcmp.induct) auto

lemma lexcmp_le_trans:
  assumes "\<And>c. 0 \<le> f c" and "lexcmp f a b \<le> 0" and "lexcmp f b c \<le> 0"
  shows "lexcmp f a c \<le> 0"
  using assms(2,3)
proof (induction a arbitrary: b c)
  case Nil
  then show ?case by (cases c) (auto simp: assms(1))
next
  case (Cons x a)
  show ?case
  proof (cases b)
    case Nil
    with Cons.prems assms(1) [of x] show ?thesis by (cases c) auto
  next
    case b: (Cons y b')
    show ?thesis
    proof (cases c)
      case Nil
      with Cons.prems b assms(1) [of x] assms(1) [of y] show ?thesis by (auto split: if_splits)
    next
      case c: (Cons z c')
      show ?thesis
        using Cons.prems b c Cons.IH [of b' c'] by (auto split: if_splits)
    qed
  qed
qed

lemma tolower_nonneg: "0 \<le> tolower c"
  by (simp add: tolower_def add_nonneg_nonneg)

lemma comparator_lexcmp: "(\<And>c. 0 \<le> f c) \<Longrightarrow> comparator (lexcmp f)"
proof unfold_locales
  show "sgn (lexcmp f y x) = - sgn (lexcmp f x y)" for x y
    by (simp add: lexcmp_flip [of f y x] sgn_minus)
qed (rule lexcmp_le_trans)

interpretation str_order: comparator strcmp
  unfolding strcmp_def by (rule comparator_lexcmp) simp

interpretation case_order: comparator strcasecmp
  unfolding strcasecmp_def by (rule comparator_lexcmp) (rule tolower_nonneg)

text \<open>A string of C holds no nul before its end.\<close>

definition no_nul :: "string \<Rightarrow> bool" where
  "no_nul s \<longleftrightarrow> nul \<notin> set s"

lemma no_nul_simps [simp]:
  "no_nul []" "no_nul (c # s) \<longleftrightarrow> c \<noteq> nul \<and> no_nul s"
  "no_nul (s @ t) \<longleftrightarrow> no_nul s \<and> no_nul t"
  by (auto simp: no_nul_def)

lemma byte_nul_iff: "byte c = 0 \<longleftrightarrow> c = nul"
proof -
  have "byte nul = 0" by (simp add: nul_def byte_def)
  then show ?thesis by (metis byte_eq_iff)
qed

lemma strcmp_eq_0: "no_nul a \<Longrightarrow> no_nul b \<Longrightarrow> strcmp a b = 0 \<longleftrightarrow> a = b"
  unfolding strcmp_def
  by (induction byte a b rule: lexcmp.induct) (auto simp: byte_nul_iff)

section \<open>Status codes, change codes and option bits\<close>

text \<open>The enumerations of \<open>include/common.h\<close>.\<close>

datatype LCFGStatus = LCFG_STATUS_ERROR | LCFG_STATUS_WARN | LCFG_STATUS_OK

datatype LCFGChange =
    LCFG_CHANGE_ERROR | LCFG_CHANGE_NONE | LCFG_CHANGE_MODIFIED
  | LCFG_CHANGE_ADDED | LCFG_CHANGE_REPLACED | LCFG_CHANGE_REMOVED

definition LCFGChangeOK :: "LCFGChange \<Rightarrow> bool" where
  "LCFGChangeOK change \<longleftrightarrow> change \<noteq> LCFG_CHANGE_ERROR"

definition LCFGChangeError :: "LCFGChange \<Rightarrow> bool" where
  "LCFGChangeError change \<longleftrightarrow> change = LCFG_CHANGE_ERROR"

lemma change_tests [simp]:
  "LCFGChangeOK c \<longleftrightarrow> c \<noteq> LCFG_CHANGE_ERROR"
  "LCFGChangeError c \<longleftrightarrow> c = LCFG_CHANGE_ERROR"
  by (simp_all add: LCFGChangeOK_def LCFGChangeError_def)

type_synonym bits = "32 word"

definition has_bit :: "bits \<Rightarrow> bits \<Rightarrow> bool" where
  [lcfg_flag]: "has_bit opts b \<longleftrightarrow> opts AND b \<noteq> 0"

definition LCFG_OPT_NONE :: bits where [lcfg_flag]: "LCFG_OPT_NONE = 0"
definition LCFG_OPT_NOCONTEXT :: bits where [lcfg_flag]: "LCFG_OPT_NOCONTEXT = 1"
definition LCFG_OPT_NOPREFIX :: bits where [lcfg_flag]: "LCFG_OPT_NOPREFIX = 2"
definition LCFG_OPT_NEWLINE :: bits where [lcfg_flag]: "LCFG_OPT_NEWLINE = 4"
definition LCFG_OPT_NOVALUE :: bits where [lcfg_flag]: "LCFG_OPT_NOVALUE = 8"
definition LCFG_OPT_NOTEMPLATES :: bits where [lcfg_flag]: "LCFG_OPT_NOTEMPLATES = 16"
definition LCFG_OPT_ALLOW_NOEXIST :: bits where [lcfg_flag]: "LCFG_OPT_ALLOW_NOEXIST = 32"
definition LCFG_OPT_ENCODE :: bits where [lcfg_flag]: "LCFG_OPT_ENCODE = 64"
definition LCFG_OPT_ALL_CONTEXTS :: bits where [lcfg_flag]: "LCFG_OPT_ALL_CONTEXTS = 128"
definition LCFG_OPT_USE_META :: bits where [lcfg_flag]: "LCFG_OPT_USE_META = 512"
definition LCFG_OPT_COMPAT :: bits where [lcfg_flag]: "LCFG_OPT_COMPAT = 2048"
definition LCFG_OPT_NEW :: bits where [lcfg_flag]: "LCFG_OPT_NEW = 8192"

definition LCFG_MERGE_RULE_NONE :: bits where [lcfg_flag]: "LCFG_MERGE_RULE_NONE = 0"
definition LCFG_MERGE_RULE_KEEP_ALL :: bits where [lcfg_flag]: "LCFG_MERGE_RULE_KEEP_ALL = 1"
definition LCFG_MERGE_RULE_SQUASH_IDENTICAL :: bits where
  [lcfg_flag]: "LCFG_MERGE_RULE_SQUASH_IDENTICAL = 2"
definition LCFG_MERGE_RULE_USE_PRIORITY :: bits where
  [lcfg_flag]: "LCFG_MERGE_RULE_USE_PRIORITY = 4"
definition LCFG_MERGE_RULE_USE_PREFIX :: bits where [lcfg_flag]: "LCFG_MERGE_RULE_USE_PREFIX = 8"
definition LCFG_MERGE_RULE_REPLACE :: bits where [lcfg_flag]: "LCFG_MERGE_RULE_REPLACE = 16"

end
