(* ===== verification/Lcfg_Utils.thy ===== *)
theory Lcfg_Utils
  imports Lcfg_Prelude
begin

text \<open>
  The string functions of \<open>utils/utils.c\<close>. A function that writes into a
  freshly allocated buffer is modelled by the string the buffer holds; where the
  code computes the size of the buffer in a separate pass, that pass is a
  definition of its own. Loops that advance by the length of an argument do not end when
  it is empty: they are \<^theory_text>\<open>partial_function (option)\<close>, and \<open>None\<close> is
  the loop that never returns.
\<close>

section \<open>The C library functions the code uses\<close>

text \<open>\<open>strstr\<close> as the offset of the first match.\<close>

definition starts_with :: "string \<Rightarrow> string \<Rightarrow> bool" where
  "starts_with s pre \<longleftrightarrow> take (length pre) s = pre"

fun strstr :: "string \<Rightarrow> string \<Rightarrow> nat option" where
  "strstr [] n = (if n = [] then Some 0 else None)"
| "strstr (c # h) n = (if starts_with (c # h) n then Some 0 else map_option Suc (strstr h n))"

text \<open>\<open>strrchr\<close>: the string before and after the last occurrence.\<close>

fun strrchr_split :: "string \<Rightarrow> char \<Rightarrow> (string \<times> string) option" where
  "strrchr_split [] c = None"
| "strrchr_split (x # s) c =
     (case strrchr_split s c of
        Some (a, b) \<Rightarrow> Some (x # a, b)
      | None \<Rightarrow> if x = c then Some ([], s) else None)"

fun strchr_split :: "string \<Rightarrow> char \<Rightarrow> (string \<times> string) option" where
  "strchr_split [] c = None"
| "strchr_split (x # s) c =
     (if x = c then Some ([], s) else map_option (\<lambda>(a, b). (x # a, b)) (strchr_split s c))"

lemma strchr_split_Some: "strchr_split s c = Some (a, b) \<Longrightarrow> s = a @ c # b \<and> c \<notin> set a"
  by (induction s arbitrary: a) (auto split: if_splits)

lemma strchr_split_None: "strchr_split s c = None \<longleftrightarrow> c \<notin> set s"
  by (induction s) auto

lemma strchr_split_app: "c \<notin> set a \<Longrightarrow> strchr_split (a @ c # b) c = Some (a, b)"
  by (induction a) auto

text \<open>
  \<open>strtoul\<close> on a machine whose \<open>unsigned long\<close> has 64 bits: leading white space, an
  optional sign, the prefix of base 0, the digits; \<open>ULONG_MAX\<close> on overflow, a negative
  number wraps, and with no digit at all the result is 0 and the end pointer is the start.
\<close>

definition digit_val :: "char \<Rightarrow> nat" where
  "digit_val c =
     (if isdigit c then nat (byte c - 48)
      else if isalpha c then nat (tolower c - 87) else 99)"

fun read_digits :: "nat \<Rightarrow> nat \<Rightarrow> string \<Rightarrow> nat \<times> string" where
  "read_digits base acc [] = (acc, [])"
| "read_digits base acc (c # s) =
     (if digit_val c < base then read_digits base (acc * base + digit_val c) s
      else (acc, c # s))"

definition strtoul_start :: "string \<Rightarrow> nat \<Rightarrow> bool \<times> nat \<times> string" where
  "strtoul_start str base =
     (let s = skip_space str;
          s1 = (if cur s = CHR ''-'' \<or> cur s = CHR ''+'' then tl s else s);
          hex = ((base = 0 \<or> base = 16) \<and> cur s1 = CHR ''0'' \<and>
                 (cur (tl s1) = CHR ''x'' \<or> cur (tl s1) = CHR ''X'') \<and>
                 digit_val (cur (tl (tl s1))) < 16);
          b = (if base \<noteq> 0 then base else if hex then 16
               else if cur s1 = CHR ''0'' then 8 else 10)
      in (cur s = CHR ''-'', b, if hex then tl (tl s1) else s1))"

definition strtoul :: "string \<Rightarrow> nat \<Rightarrow> 64 word \<times> string" where
  "strtoul str base =
     (case strtoul_start str base of (neg, b, s) \<Rightarrow>
        if b \<le> digit_val (cur s) then (0, str)
        else case read_digits b 0 s of (n, rest) \<Rightarrow>
          if 2 ^ 64 \<le> n then (- 1, rest)
          else ((if neg then - of_nat n else of_nat n), rest))"

section \<open>String functions\<close>

definition lcfgutils_string_join :: "cstr \<Rightarrow> cstr \<Rightarrow> cstr \<Rightarrow> string" where
  "lcfgutils_string_join sep str1 str2 =
     (let s1 = (case str1 of None \<Rightarrow> [] | Some s \<Rightarrow> s);
          s2 = (case str2 of None \<Rightarrow> [] | Some s \<Rightarrow> s);
          sp = (case sep of None \<Rightarrow> [] | Some s \<Rightarrow> s)
      in s1 @ sp @ s2)"

text \<open>The loop stops on the first character, which is never removed.\<close>

definition is_eol :: "char \<Rightarrow> bool" where
  "is_eol c \<longleftrightarrow> c = CHR 0x0D \<or> c = CHR 0x0A"

definition lcfgutils_string_chomp :: "string \<Rightarrow> string" where
  "lcfgutils_string_chomp str =
     (case str of [] \<Rightarrow> [] | c # t \<Rightarrow> c # rev (dropWhile is_eol (rev t)))"

definition lcfgutils_string_trim :: "string \<Rightarrow> string" where
  "lcfgutils_string_trim str =
     (case skip_space str of [] \<Rightarrow> [] | c # t \<Rightarrow> c # rev (dropWhile isspace (rev t)))"

text \<open>
  The search loop of \<open>lcfgutils_string_finditem\<close>; \<open>m\<close> is the offset of
  the current match. A failed match is skipped by its whole length.
\<close>

definition item_at :: "string \<Rightarrow> string \<Rightarrow> string \<Rightarrow> nat \<Rightarrow> bool" where
  "item_at haystack needle separator m \<longleftrightarrow>
     (m = 0 \<or> strchr_in separator (haystack ! (m - 1))) \<and>
     (drop (m + length needle) haystack = [] \<or>
      strchr_in separator (cur (drop (m + length needle) haystack)))"

partial_function (option) finditem_loop ::
    "string \<Rightarrow> string \<Rightarrow> string \<Rightarrow> nat option \<Rightarrow> nat option option" where
  "finditem_loop haystack needle separator match =
     (if match = None then Some None
      else if item_at haystack needle separator (the match) then Some match
      else finditem_loop haystack needle separator
             (map_option ((+) (the match + length needle))
                (strstr (drop (the match + length needle) haystack) needle)))"

definition lcfgutils_string_finditem ::
    "cstr \<Rightarrow> string \<Rightarrow> cstr \<Rightarrow> nat option option" where
  "lcfgutils_string_finditem haystack needle separator =
     (if isempty haystack then Some None
      else let h = or_default haystack [];  match = strstr h needle
           in if isempty separator then Some match
              else finditem_loop h needle (or_default separator []) match)"

definition lcfgutils_string_hasitem :: "cstr \<Rightarrow> string \<Rightarrow> cstr \<Rightarrow> bool option" where
  "lcfgutils_string_hasitem haystack needle separator =
     map_option (\<lambda>r. r \<noteq> None) (lcfgutils_string_finditem haystack needle separator)"

definition strip_slashes :: "string \<Rightarrow> string" where
  "strip_slashes d = rev (dropWhile (\<lambda>c. c = CHR ''/'') (rev d))"

definition lcfgutils_catfile :: "cstr \<Rightarrow> cstr \<Rightarrow> cstr" where
  "lcfgutils_catfile dir file =
     (case file of
        None \<Rightarrow> None
      | Some f \<Rightarrow>
          (case dir of
             None \<Rightarrow> Some f
           | Some d \<Rightarrow>
               if d = [] then Some f
               else let d' = strip_slashes d;
                        needs_slash = (cur f \<noteq> CHR ''/'' \<and> (d' = [] \<or> last d' \<noteq> CHR ''/''))
                    in Some (d' @ (if needs_slash then ''/'' else []) @ f)))"

definition lcfgutils_string_endswith :: "cstr \<Rightarrow> cstr \<Rightarrow> bool" where
  "lcfgutils_string_endswith str suffix =
     (if isempty str \<or> isempty suffix then False
      else let s = or_default str []; x = or_default suffix []
           in length x \<le> length s \<and> drop (length s - length x) s = x)"

text \<open>
  \<open>lcfgutils_basename\<close>: trailing slashes are left out of the length, but the suffix
  test looks at the rest of the whole path; the length is a \<open>size_t\<close> and wraps when
  the suffix is longer than the base.
\<close>

definition drop_end_slashes :: "string \<Rightarrow> string" where
  "drop_end_slashes p =
     (case p of [] \<Rightarrow> [] | c # t \<Rightarrow> c # rev (dropWhile (\<lambda>x. x = CHR ''/'') (rev t)))"

fun back_to_slash :: "string \<Rightarrow> nat \<Rightarrow> nat" where
  "back_to_slash s 0 = 0"
| "back_to_slash s (Suc i) = (if s ! Suc i = CHR ''/'' then Suc i else back_to_slash s i)"

definition lcfgutils_basename :: "cstr \<Rightarrow> cstr \<Rightarrow> cstr" where
  "lcfgutils_basename path suffix =
     (if isempty path then None
      else let p = or_default path [];
               e = length (drop_end_slashes p) - 1;
               i = back_to_slash p e;
               start = (if e = 0 then 0 else if p ! i = CHR ''/'' then i + 1 else i);
               rest = drop start p;
               len = (of_nat (e - start + 1) :: 64 word);
               len' = (if suffix \<noteq> None \<and> lcfgutils_string_endswith (Some rest) suffix
                       then len - of_nat (length (or_default suffix [])) else len)
           in Some (take (unat len') rest))"

definition lcfgutils_dirname :: "cstr \<Rightarrow> cstr" where
  "lcfgutils_dirname path =
     (if isempty path then None
      else let p = or_default path [];
               e = length (drop_end_slashes p) - 1;
               i = back_to_slash p e;
               e' = (if i \<noteq> 0 then i - 1 else i)
           in if e' = 0 \<and> cur p \<noteq> CHR ''/'' then Some ''.'' else Some (take (e' + 1) p))"

text \<open>
  \<open>lcfgutils_string_replace\<close>: one pass adds up the size of the result, the next one
  builds it.
\<close>

partial_function (option) replace_size_loop ::
    "string \<Rightarrow> int \<Rightarrow> string \<Rightarrow> int \<Rightarrow> int option" where
  "replace_size_loop match len_diff p new_len =
     (if strstr p match = None then Some new_len
      else replace_size_loop match len_diff
             (drop (the (strstr p match) + length match) p) (new_len + len_diff))"

partial_function (option) replace_loop ::
    "string \<Rightarrow> string \<Rightarrow> string \<Rightarrow> string \<Rightarrow> string option" where
  "replace_loop match replacement start to =
     (if strstr start match = None then Some (to @ start)
      else replace_loop match replacement
             (drop (the (strstr start match) + length match) start)
             (to @ take (the (strstr start match)) start @ replacement))"

definition replace_size :: "string \<Rightarrow> string \<Rightarrow> cstr \<Rightarrow> int option" where
  "replace_size input match replacement =
     replace_size_loop match
       (int (length (or_default replacement [])) - int (length match)) input (int (length input))"

definition lcfgutils_string_replace :: "string \<Rightarrow> string \<Rightarrow> cstr \<Rightarrow> string option" where
  "lcfgutils_string_replace input match replacement =
     (case replace_size input match replacement of
        None \<Rightarrow> None
      | Some n \<Rightarrow> replace_loop match (or_default replacement []) input [])"

text \<open>\<open>hash = ((hash << 5) + hash) + *p\<close> on an \<open>unsigned long\<close>, for each string up to the \<open>NULL\<close>.\<close>

definition djb_step :: "64 word \<Rightarrow> char \<Rightarrow> 64 word" where
  "djb_step hash c = (push_bit 5 hash + hash) + word_of_int (sbyte c)"

definition lcfgutils_string_djbhash :: "string \<Rightarrow> cstr list \<Rightarrow> 64 word" where
  "lcfgutils_string_djbhash str extra =
     foldl (\<lambda>h e. foldl djb_step h (or_default e []))
       (foldl djb_step 5381 str) (takeWhile (\<lambda>e. e \<noteq> None) extra)"

text \<open>
  \<open>lcfgutils_string_split\<close>: the count that sizes the array, then the tokens. The
  inner \<open>None\<close> of the result is the \<open>NULL\<close> returned for an empty string.
\<close>

partial_function (option) split_count_loop :: "string \<Rightarrow> string \<Rightarrow> nat \<Rightarrow> nat option" where
  "split_count_loop delimiter ptr cnt =
     (if strstr ptr delimiter = None then Some cnt
      else split_count_loop delimiter (drop (the (strstr ptr delimiter) + length delimiter) ptr)
             (if drop (the (strstr ptr delimiter) + length delimiter) ptr = [] then cnt
              else cnt + 1))"

definition INT_MAX :: nat where "INT_MAX = 2147483647"

definition split_size :: "string \<Rightarrow> string \<Rightarrow> nat \<Rightarrow> nat option" where
  "split_size str delimiter max_tokens =
     map_option (\<lambda>cnt. min (if max_tokens = 0 then INT_MAX else max_tokens) cnt + 1)
       (split_count_loop delimiter str 1)"

function split_loop :: "string \<Rightarrow> nat \<Rightarrow> nat \<Rightarrow> string \<Rightarrow> string list" where
  "split_loop delimiter max_tokens n remainder =
     (if n + 1 < max_tokens then
        (case strstr remainder delimiter of
           Some i \<Rightarrow> take i remainder #
             split_loop delimiter max_tokens (n + 1) (drop (i + length delimiter) remainder)
         | None \<Rightarrow> if remainder = [] then [] else [remainder])
      else if remainder = [] then [] else [remainder])"
  by pat_completeness auto
termination by (relation "measure (\<lambda>(d, mx, n, r). mx - n)") auto

declare split_loop.simps [simp del]

definition lcfgutils_string_split ::
    "cstr \<Rightarrow> string \<Rightarrow> nat \<Rightarrow> string list option option" where
  "lcfgutils_string_split str delimiter max_tokens =
     (if isempty str then Some None
      else let s = or_default str [] in
        map_option (\<lambda>size. Some (split_loop delimiter
            (if max_tokens = 0 then INT_MAX else max_tokens) 0 s))
          (split_size s delimiter max_tokens))"

section \<open>Line markers of the C preprocessor\<close>

text \<open>
  \<open>lcfgutils_parse_cpp_derivation\<close>: \<open># line "file" flags\<close>. The result is the new
  file, line number and flags; \<open>None\<close> leaves the outputs alone.
\<close>

lemma read_digits_length: "length (snd (read_digits b acc s)) \<le> length s"
  by (induction b acc s rule: read_digits.induct) auto

lemma length_skip_space: "length (skip_space s) \<le> length s"
  by (simp add: skip_space_def length_dropWhile_le)

lemma cur_tl_nonempty: "digit_val (cur s) < b \<Longrightarrow> b \<le> 36 \<Longrightarrow> s \<noteq> []"
  by (auto simp: digit_val_def lcfg_chr nul_def byte_def)

lemma strtoul_start_length:
  "strtoul_start str base = (neg, b, s) \<Longrightarrow> base \<le> 36 \<Longrightarrow> b \<le> 36 \<and> length s \<le> length str"
  using length_skip_space [of str]
  by (auto simp: strtoul_start_def Let_def split: if_splits)

lemma strtoul_progress:
  assumes "strtoul str base = (v, rest)" and "v \<noteq> 0 \<or> rest \<noteq> str" and "base \<le> 36"
  shows "length rest < length str"
proof -
  obtain neg b s where start: "strtoul_start str base = (neg, b, s)"
    by (cases "strtoul_start str base") auto
  note bounds = strtoul_start_length [OF start assms(3)]
  from assms(1,2) start have digit: "digit_val (cur s) < b"
    by (auto simp: strtoul_def split: if_splits)
  with bounds have "s \<noteq> []" using cur_tl_nonempty by blast
  then obtain c t where s: "s = c # t" by (cases s) auto
  have "rest = snd (read_digits b 0 s)"
    using assms(1) start digit by (auto simp: strtoul_def not_le split: prod.splits if_splits)
  then have "length rest \<le> length t"
    using s digit read_digits_length [of b "digit_val c" t] by simp
  with s bounds show ?thesis by simp
qed

definition LCFG_CPP_FLAG_ENTRY :: bits where [lcfg_flag]: "LCFG_CPP_FLAG_ENTRY = 1"
definition LCFG_CPP_FLAG_RETURN :: bits where [lcfg_flag]: "LCFG_CPP_FLAG_RETURN = 2"
definition LCFG_CPP_FLAG_SYSHDR :: bits where [lcfg_flag]: "LCFG_CPP_FLAG_SYSHDR = 4"
definition LCFG_CPP_FLAG_EXTERN :: bits where [lcfg_flag]: "LCFG_CPP_FLAG_EXTERN = 8"

definition cpp_flag_bit :: "bits \<Rightarrow> bits" where
  "cpp_flag_bit flag =
     (if flag = 1 then LCFG_CPP_FLAG_ENTRY else if flag = 2 then LCFG_CPP_FLAG_RETURN
      else if flag = 3 then LCFG_CPP_FLAG_SYSHDR else if flag = 4 then LCFG_CPP_FLAG_EXTERN else 0)"

function cpp_flags_loop :: "string \<Rightarrow> bits \<Rightarrow> bits" where
  "cpp_flags_loop flags_start new_flags =
     (let (v, rest) = strtoul flags_start 0; flag = (ucast v :: bits)
      in if flag = 0 then new_flags
         else cpp_flags_loop rest (new_flags OR cpp_flag_bit flag))"
  by pat_completeness auto
termination
proof (relation "measure (length \<circ> fst)", goal_cases)
  case (2 flags_start new_flags x v rest flag)
  then have "v \<noteq> 0" by auto
  with 2 show ?case using strtoul_progress [of flags_start 0 v rest] by simp
qed simp

declare cpp_flags_loop.simps [simp del]

definition lcfgutils_parse_cpp_derivation ::
    "string \<Rightarrow> cstr \<Rightarrow> (cstr \<times> bits \<times> bits) option" where
  "lcfgutils_parse_cpp_derivation line file =
     (if \<not> starts_with line ''# '' \<or> \<not> isdigit (cur (drop 2 line)) then None
      else let (v, file_start) = strtoul (drop 2 line) 0 in
        if \<not> starts_with file_start [CHR '' '', CHR 0x22] then None
        else case strrchr_split (drop 2 file_start) CHR 0x22 of
          None \<Rightarrow> None
        | Some (name, after) \<Rightarrow>
            let flags = (if starts_with after '' '' \<and> isdigit (cur (drop 1 after))
                         then cpp_flags_loop (drop 1 after) 0 else 0);
                keep = (\<not> isempty file \<and>
                        take (length name) (or_default file []) = name)
            in Some (if keep then file else Some name, ucast v, flags))"

section \<open>Facts about searching\<close>

lemma strstr_SomeD:
  "strstr h n = Some i \<Longrightarrow>
     i \<le> length h \<and> starts_with (drop i h) n \<and> (\<forall>j<i. \<not> starts_with (drop j h) n)"
proof (induction h n arbitrary: i rule: strstr.induct)
  case (1 n)
  then show ?case by (auto simp: starts_with_def split: if_splits)
next
  case (2 c h n)
  show ?case
  proof (cases "starts_with (c # h) n")
    case True
    with 2 show ?thesis by auto
  next
    case False
    with "2.prems" obtain k where k: "strstr h n = Some k" "i = Suc k" by auto
    have "\<not> starts_with (drop j (c # h)) n" if "j < i" for j
      using that False "2.IH" [OF False k(1)] k(2) by (cases j) auto
    with "2.IH" [OF False k(1)] k(2) show ?thesis by auto
  qed
qed

lemma strstr_NoneD: "strstr h n = None \<Longrightarrow> j \<le> length h \<Longrightarrow> \<not> starts_with (drop j h) n"
proof (induction h n arbitrary: j rule: strstr.induct)
  case (1 n)
  then show ?case by (auto simp: starts_with_def split: if_splits)
next
  case (2 c h n)
  then show ?case by (cases j) (auto split: if_splits)
qed

lemma starts_with_iff: "starts_with s n \<longleftrightarrow> (\<exists>t. s = n @ t)"
  unfolding starts_with_def
  by (metis append_eq_conv_conj append_take_drop_id)

lemma strstr_split:
  assumes "strstr h n = Some i"
  shows "h = take i h @ n @ drop (i + length n) h" and "i + length n \<le> length h"
proof -
  from strstr_SomeD [OF assms] obtain t where t: "drop i h = n @ t" and i: "i \<le> length h"
    by (auto simp: starts_with_iff)
  then have "drop (i + length n) h = t" by (metis append_eq_conv_conj add.commute drop_drop)
  with t show "h = take i h @ n @ drop (i + length n) h" by (metis append_take_drop_id)
  from t have "length (drop i h) = length n + length t" by simp
  with i show "i + length n \<le> length h" by simp
qed

lemma strstr_drop_less:
  "strstr h n = Some i \<Longrightarrow> n \<noteq> [] \<Longrightarrow> length (drop (i + length n) h) < length h"
  using strstr_split(2) [of h n i] by (cases n) auto

section \<open>Trimming\<close>

lemma dropWhile_rev_split:
  "\<exists>w. t = rev (dropWhile P (rev t)) @ w \<and> (\<forall>c\<in>set w. P c)"
proof -
  have "rev (rev t) = rev (dropWhile P (rev t)) @ rev (takeWhile P (rev t))"
    by (metis rev_append takeWhile_dropWhile_id)
  then show ?thesis by (intro exI [of _ "rev (takeWhile P (rev t))"]) (auto dest: set_takeWhileD)
qed

lemma rev_dropWhile_last:
  "rev (dropWhile P (rev t)) = [] \<or> \<not> P (last (rev (dropWhile P (rev t))))"
  by (metis hd_dropWhile last_rev rev_is_Nil_conv)

lemma string_trim_middle:
  assumes "\<forall>c\<in>set w1 \<union> set w2. isspace c" and "m = [] \<or> \<not> isspace (hd m) \<and> \<not> isspace (last m)"
  shows "lcfgutils_string_trim (w1 @ m @ w2) = m"
proof (cases m)
  case Nil
  have "skip_space (w1 @ w2) = []" using assms(1) by (auto simp: skip_space_def)
  with Nil show ?thesis by (simp add: lcfgutils_string_trim_def)
next
  case (Cons c t)
  have w1: "skip_space (w1 @ m @ w2) = m @ w2"
    using assms Cons unfolding skip_space_def by (induction w1) auto
  have "rev (dropWhile isspace (rev (t @ w2))) = t"
  proof -
    have *: "dropWhile isspace (rev w2 @ u) = dropWhile isspace u" for u
      using assms(1) by (auto simp: dropWhile_append)
    show ?thesis
      using assms(2) Cons * [of "rev t"] by (cases t rule: rev_cases) (auto simp: assms(1))
  qed
  with w1 Cons show ?thesis by (simp add: lcfgutils_string_trim_def)
qed

text \<open>
  C40: \<open>lcfgutils_string_trim\<close> removes exactly the white space at both ends.
\<close>

theorem string_trim_spec:
  "(\<exists>w1 w2. s = w1 @ lcfgutils_string_trim s @ w2 \<and> (\<forall>c\<in>set w1 \<union> set w2. isspace c)) \<and>
   (lcfgutils_string_trim s = [] \<or>
    \<not> isspace (hd (lcfgutils_string_trim s)) \<and> \<not> isspace (last (lcfgutils_string_trim s)))"
proof -
  obtain w1 where w1: "s = w1 @ skip_space s" "\<forall>c\<in>set w1. isspace c"
    using skip_space_suffix by blast
  show ?thesis
  proof (cases "skip_space s")
    case Nil
    then have t: "lcfgutils_string_trim s = []" by (simp add: lcfgutils_string_trim_def)
    from Nil w1(1) have "s = w1" by (metis append_Nil2)
    with w1(2) t have "s = w1 @ lcfgutils_string_trim s @ [] \<and> (\<forall>c\<in>set w1 \<union> set []. isspace c)"
      by simp
    with t show ?thesis by blast
  next
    case (Cons c t)
    obtain w2 where w2: "t = rev (dropWhile isspace (rev t)) @ w2" "\<forall>c\<in>set w2. isspace c"
      using dropWhile_rev_split [of t isspace] by blast
    have trim: "lcfgutils_string_trim s = c # rev (dropWhile isspace (rev t))"
      using Cons by (simp add: lcfgutils_string_trim_def)
    have "\<not> isspace c" using skip_space_hd [of s] Cons by simp
    then have "\<not> isspace (last (lcfgutils_string_trim s))"
      using rev_dropWhile_last [of isspace t] trim by auto
    moreover have "s = w1 @ lcfgutils_string_trim s @ w2"
      by (metis append_Cons append.assoc w1(1) w2(1) Cons trim)
    ultimately show ?thesis using w1(2) w2(2) trim \<open>\<not> isspace c\<close> by auto
  qed
qed

theorem string_trim_spec_witness:
  "\<exists>w1 w2. '' a b '' = w1 @ lcfgutils_string_trim '' a b '' @ w2"
  using string_trim_spec [of "'' a b ''"] by blast

section \<open>Replacing\<close>

text \<open>
  The reference: read the input once, from the left, and replace every match that
  starts at the current position.
\<close>

function replace_ref :: "string \<Rightarrow> string \<Rightarrow> string \<Rightarrow> string" where
  "replace_ref m r s =
     (if s = [] \<or> m = [] then s
      else if starts_with s m then r @ replace_ref m r (drop (length m) s)
      else hd s # replace_ref m r (tl s))"
  by pat_completeness auto
termination
  by (relation "measure (\<lambda>(m, r, s). length s)") (auto simp: neq_Nil_conv)

declare replace_ref.simps [simp del]

lemma replace_ref_none:
  "strstr s m = None \<Longrightarrow> replace_ref m r s = s"
proof (induction s)
  case (Cons c s)
  then show ?case by (subst replace_ref.simps) (auto split: if_splits)
qed (subst replace_ref.simps, simp)

lemma replace_ref_some:
  "strstr s m = Some i \<Longrightarrow> m \<noteq> [] \<Longrightarrow>
     replace_ref m r s = take i s @ r @ replace_ref m r (drop (i + length m) s)"
proof (induction s arbitrary: i)
  case (Cons c s)
  show ?case
  proof (cases "starts_with (c # s) m")
    case True
    with Cons.prems show ?thesis by (subst replace_ref.simps) auto
  next
    case False
    with Cons.prems obtain k where "strstr s m = Some k" "i = Suc k" by auto
    with Cons.IH [of k] Cons.prems False show ?thesis by (subst replace_ref.simps) auto
  qed
qed auto

lemma replace_loop_ref:
  assumes "m \<noteq> []"
  shows "replace_loop m r s to = Some (to @ replace_ref m r s)"
proof (induction s arbitrary: to rule: measure_induct_rule [of length])
  case (less s)
  show ?case
  proof (cases "strstr s m")
    case None
    then show ?thesis by (simp add: replace_loop.simps replace_ref_none)
  next
    case (Some i)
    with less [of "drop (i + length m) s"] strstr_drop_less [OF Some assms] assms show ?thesis
      by (simp add: replace_loop.simps [of m r s] replace_ref_some)
  qed
qed

lemma replace_size_loop_ref:
  assumes "m \<noteq> []"
  shows "replace_size_loop m (int (length r) - int (length m)) s n =
           Some (n + int (length (replace_ref m r s)) - int (length s))"
proof (induction s arbitrary: n rule: measure_induct_rule [of length])
  case (less s)
  show ?case
  proof (cases "strstr s m")
    case None
    then show ?thesis by (simp add: replace_size_loop.simps replace_ref_none)
  next
    case (Some i)
    let ?r = "drop (i + length m) s"
    have len: "i + length m \<le> length s" by (rule strstr_split(2) [OF Some])
    have "replace_size_loop m (int (length r) - int (length m)) s n =
            replace_size_loop m (int (length r) - int (length m)) ?r
              (n + (int (length r) - int (length m)))"
      using Some by (subst replace_size_loop.simps) simp
    then show ?thesis
      using less [OF strstr_drop_less [OF Some assms]] len
      by (simp add: replace_ref_some [OF Some assms])
  qed
qed

text \<open>
  C35: with a non-empty pattern \<open>lcfgutils_string_replace\<close> returns, its result is the
  left-to-right replacement, and the size computed by the first pass is the length of
  the string the second pass writes (so the buffer is never overrun).
\<close>

theorem string_replace_correct:
  assumes "pat \<noteq> []"
  shows "lcfgutils_string_replace input pat replacement =
           Some (replace_ref pat (or_default replacement []) input) \<and>
         replace_size input pat replacement =
           Some (int (length (replace_ref pat (or_default replacement []) input)))"
  using assms
  by (simp add: lcfgutils_string_replace_def replace_size_def replace_loop_ref
      replace_size_loop_ref)

theorem string_replace_correct_witness:
  "lcfgutils_string_replace ''a-b-c'' ''-'' (Some ''::'') = Some ''a::b::c''"
  using string_replace_correct [of "''-''" "''a-b-c''" "Some ''::''"]
  by (simp add: replace_ref.simps starts_with_def)

section \<open>Splitting\<close>

fun rejoin :: "string \<Rightarrow> string list \<Rightarrow> string" where
  "rejoin d [] = []"
| "rejoin d [t] = t"
| "rejoin d (t # ts) = t @ d @ rejoin d ts"

lemma split_loop_rejoin:
  assumes "d \<noteq> []"
  shows "rejoin d (split_loop d mx n s) = s \<or> rejoin d (split_loop d mx n s) @ d = s"
proof (induction s arbitrary: n rule: measure_induct_rule [of length])
  case (less s)
  show ?case
  proof (cases "n + 1 < mx \<and> strstr s d \<noteq> None")
    case True
    then obtain i where i: "strstr s d = Some i" by auto
    let ?r = "drop (i + length d) s"
    have unfold: "split_loop d mx n s = take i s # split_loop d mx (n + 1) ?r"
      using True i by (subst split_loop.simps) simp
    have s: "s = take i s @ d @ ?r" by (rule strstr_split(1) [OF i])
    show ?thesis
    proof (cases "split_loop d mx (n + 1) ?r")
      case Nil
      then have "?r = []"
        by (subst (asm) split_loop.simps) (auto split: if_splits option.splits)
      with Nil unfold s show ?thesis by (metis append_Nil2 rejoin.simps(2))
    next
      case (Cons t ts)
      with less [OF strstr_drop_less [OF i assms], of "n + 1"] unfold s show ?thesis
        by (metis append.assoc rejoin.simps(3))
    qed
  next
    case False
    then have "split_loop d mx n s = (if s = [] then [] else [s])"
      by (subst split_loop.simps) auto
    then show ?thesis by simp
  qed
qed

lemma split_loop_length: "n < mx \<Longrightarrow> length (split_loop d mx n s) \<le> mx - n"
proof (induction d mx n s rule: split_loop.induct)
  case (1 d mx n s)
  show ?case
    using 1 by (subst split_loop.simps) (force split: option.splits)
qed

lemma split_count_loop_bound:
  assumes "d \<noteq> []"
  shows "\<exists>cnt. split_count_loop d s c = Some cnt \<and>
           length (split_loop d mx n s) + c \<le> cnt + (if s = [] then 0 else 1)"
proof (induction s arbitrary: n c rule: measure_induct_rule [of length])
  case (less s)
  show ?case
  proof (cases "strstr s d")
    case None
    then show ?thesis
      by (subst split_count_loop.simps, subst split_loop.simps) auto
  next
    case (Some i)
    let ?r = "drop (i + length d) s"
    have s: "s \<noteq> []" using strstr_split(2) [OF Some] assms by auto
    from less [OF strstr_drop_less [OF Some assms], of "if ?r = [] then c else c + 1" "n + 1"]
    obtain cnt where cnt: "split_count_loop d ?r (if ?r = [] then c else c + 1) = Some cnt"
      "length (split_loop d mx (n + 1) ?r) + (if ?r = [] then c else c + 1)
         \<le> cnt + (if ?r = [] then 0 else 1)" by blast
    have "split_count_loop d s c = Some cnt"
      using Some cnt(1) by (subst split_count_loop.simps) simp
    moreover have "length (split_loop d mx n s) \<le> Suc (length (split_loop d mx (n + 1) ?r))"
      using Some s by (subst split_loop.simps) auto
    ultimately show ?thesis using cnt(2) s by (auto split: if_splits)
  qed
qed

text \<open>
  C37: \<open>lcfgutils_string_split\<close> with a non-empty delimiter returns at most
  \<open>max_tokens\<close> tokens, fewer than the slots of the array it allocated (the last
  one stays \<open>NULL\<close>), and joining the tokens gives the input back, up to one
  delimiter at the very end.
\<close>

theorem string_split_correct:
  assumes "str \<noteq> []" and "delimiter \<noteq> []"
  shows "\<exists>toks size. lcfgutils_string_split (Some str) delimiter max_tokens = Some (Some toks) \<and>
           split_size str delimiter max_tokens = Some size \<and> length toks < size \<and>
           (0 < max_tokens \<longrightarrow> length toks \<le> max_tokens) \<and>
           (rejoin delimiter toks = str \<or> rejoin delimiter toks @ delimiter = str)"
proof -
  let ?mx = "if max_tokens = 0 then INT_MAX else max_tokens"
  let ?toks = "split_loop delimiter ?mx 0 str"
  obtain cnt where cnt: "split_count_loop delimiter str 1 = Some cnt"
    "length ?toks + 1 \<le> cnt + 1"
    using split_count_loop_bound [OF assms(2), of str 1 ?mx 0] assms(1) by auto
  have mx: "length ?toks \<le> ?mx"
    using split_loop_length [of 0 ?mx delimiter str] by (auto simp: INT_MAX_def)
  show ?thesis
    using assms(1) cnt mx split_loop_rejoin [OF assms(2), of ?mx 0 str]
    by (auto simp: lcfgutils_string_split_def split_size_def)
qed

theorem string_split_correct_witness:
  "lcfgutils_string_split (Some ''a b c'') '' '' 2 = Some (Some [''a'', ''b c''])"
proof -
  obtain toks where t: "lcfgutils_string_split (Some ''a b c'') '' '' 2 = Some (Some toks)"
    using string_split_correct [of "''a b c''" "'' ''" 2] by auto
  have "toks = [''a'', ''b c'']"
    using t by (auto simp: lcfgutils_string_split_def split_size_def split_loop.simps starts_with_def)
  with t show ?thesis by simp
qed

section \<open>Items of a separated list\<close>

text \<open>The reference: the needle stands in the haystack between separators or ends.\<close>

definition is_item :: "string \<Rightarrow> string \<Rightarrow> string \<Rightarrow> bool" where
  "is_item h n sep \<longleftrightarrow>
     (\<exists>a b. h = a @ n @ b \<and> (a = [] \<or> last a \<in> set sep) \<and> (b = [] \<or> hd b \<in> set sep))"

lemma last_take_nth: "0 < m \<Longrightarrow> m \<le> length h \<Longrightarrow> last (take m h) = h ! (m - 1)"
  by (subst last_conv_nth) (auto simp: min_def)

lemma item_at_iff:
  assumes "no_nul h" and "starts_with (drop m h) n" and "m \<le> length h"
  shows "item_at h n sep m \<longleftrightarrow>
     (take m h = [] \<or> last (take m h) \<in> set sep) \<and>
     (drop (m + length n) h = [] \<or> hd (drop (m + length n) h) \<in> set sep)"
proof -
  have "h ! (m - 1) \<noteq> nul" if "0 < m"
  proof -
    have "m - 1 < length h" using assms(3) that by simp
    then have "h ! (m - 1) \<in> set h" by (rule nth_mem)
    with assms(1) show ?thesis by (auto simp: no_nul_def)
  qed
  moreover have "last (take m h) = h ! (m - 1)" if "0 < m"
    using assms(3) that by (simp add: last_take_nth del: One_nat_def)
  moreover have "drop (m + length n) h = nul # l \<Longrightarrow> False" for l
    using assms(1) by (metis list.set_intros(1) in_set_dropD no_nul_def)
  ultimately show ?thesis
    using assms(3) unfolding item_at_def strchr_in_def
    by (cases "drop (m + length n) h") (auto simp: neq_Nil_conv)
qed

text \<open>The result is the first offset, from \<open>i\<close> on, where the needle is an item.\<close>

definition first_from :: "(nat \<Rightarrow> bool) \<Rightarrow> nat \<Rightarrow> nat \<Rightarrow> nat option \<Rightarrow> bool" where
  "first_from P i n r \<longleftrightarrow>
     (case r of
        None \<Rightarrow> \<forall>m. i \<le> m \<and> m \<le> n \<longrightarrow> \<not> P m
      | Some m \<Rightarrow> i \<le> m \<and> m \<le> n \<and> P m \<and> (\<forall>k. i \<le> k \<and> k < m \<longrightarrow> \<not> P k))"

lemma first_from_later:
  assumes "first_from P j n r" and "i \<le> j" and "\<And>m. i \<le> m \<Longrightarrow> m \<le> n \<Longrightarrow> P m \<Longrightarrow> j \<le> m"
  shows "first_from P i n r"
proof (cases r)
  case None
  with assms(1) have "\<not> P m" if "j \<le> m" "m \<le> n" for m using that by (simp add: first_from_def)
  with None assms(3) show ?thesis unfolding first_from_def by (simp, blast)
next
  case (Some m)
  have "\<not> P k" if "i \<le> k" "k < m" for k
  proof
    assume P: "P k"
    have "k \<le> n" using that assms(1) Some by (simp add: first_from_def)
    from assms(3) [OF that(1) this P] that(2) P assms(1) Some show False by (auto simp: first_from_def)
  qed
  with Some assms(1,2) show ?thesis by (simp add: first_from_def)
qed

definition needle_at :: "string \<Rightarrow> string \<Rightarrow> string \<Rightarrow> nat \<Rightarrow> bool" where
  "needle_at h n sep m \<longleftrightarrow> starts_with (drop m h) n \<and> item_at h n sep m"

lemma finditem_loop_first:
  assumes "no_nul h" and "n \<noteq> []" and "set n \<inter> set sep = {}"
  shows "i \<le> length h \<Longrightarrow> finditem_loop h n sep (map_option ((+) i) (strstr (drop i h) n)) =
     Some r \<Longrightarrow> first_from (needle_at h n sep) i (length h) r"
proof (induction "length h - i" arbitrary: i rule: less_induct)
  case less
  show ?case
  proof (cases "strstr (drop i h) n")
    case None
    then have "\<not> starts_with (drop m h) n" if "i \<le> m" "m \<le> length h" for m
      using strstr_NoneD [OF None, of "m - i"] that by simp
    with None less.prems show ?thesis by (auto simp: finditem_loop.simps first_from_def needle_at_def)
  next
    case (Some k)
    let ?m = "i + k"
    have at: "starts_with (drop ?m h) n" and m: "?m + length n \<le> length h"
      using strstr_SomeD [OF Some] strstr_split(2) [OF Some] less.prems(1)
      by (simp_all add: add.commute)
    have before: "\<not> starts_with (drop m h) n" if "i \<le> m" "m < ?m" for m
      using strstr_SomeD [OF Some] that by (metis add_diff_inverse_nat drop_drop add.commute
          less_diff_conv2 linorder_not_le)
    show ?thesis
    proof (cases "item_at h n sep ?m")
      case True
      with less.prems(2) Some have "r = Some ?m" by (simp add: finditem_loop.simps)
      moreover have "i \<le> ?m" "?m \<le> length h" using m by simp_all
      ultimately show ?thesis using True at before by (auto simp: first_from_def needle_at_def)
    next
      case False
      let ?j = "?m + length n"
      have loop: "finditem_loop h n sep (map_option ((+) ?j) (strstr (drop ?j h) n)) = Some r"
        using less.prems Some False by (simp add: finditem_loop.simps [of h n sep "Some ?m"])
      have IH: "first_from (needle_at h n sep) ?j (length h) r"
        using less.hyps [OF _ m loop] less.prems(1) m assms(2) by (cases n) auto
      have inside: "\<not> item_at h n sep m"
        if "?m < m" "m < ?j" "m \<le> length h" "starts_with (drop m h) n" for m
      proof -
        have "h ! (m - 1) \<in> set n"
        proof -
          obtain t where t: "drop ?m h = n @ t" using at by (auto simp: starts_with_iff)
          have "h ! (m - 1) = drop ?m h ! (m - 1 - ?m)" using that m by simp
          also have "\<dots> = n ! (m - 1 - ?m)" using t that by (auto simp: nth_append)
          finally show ?thesis using that by simp
        qed
        then have "h ! (m - 1) \<notin> set sep" using assms(3) by blast
        moreover have "last (take m h) = h ! (m - 1)" "take m h \<noteq> []"
          using that by (auto simp: last_take_nth)
        ultimately show ?thesis using item_at_iff [OF assms(1) that(4,3)] by auto
      qed
      have "?j \<le> m" if "i \<le> m" "m \<le> length h" "needle_at h n sep m" for m
        using before [of m] inside [of m] False that unfolding needle_at_def
        by (cases m ?m rule: linorder_cases) (auto simp: not_less [symmetric])
      then show ?thesis using first_from_later [OF IH] by simp
    qed
  qed
qed

lemma finditem_loop_correct:
  assumes "no_nul h" and "n \<noteq> []" and "set n \<inter> set sep = {}" and "i \<le> length h"
    and "finditem_loop h n sep (map_option ((+) i) (strstr (drop i h) n)) = Some r"
  shows "r \<noteq> None \<longleftrightarrow> (\<exists>m\<ge>i. m \<le> length h \<and> starts_with (drop m h) n \<and> item_at h n sep m)"
  using finditem_loop_first [OF assms] by (cases r) (auto simp: first_from_def needle_at_def)

lemma finditem_loop_total:
  assumes "n \<noteq> []"
  shows "i \<le> length h \<Longrightarrow>
     \<exists>r. finditem_loop h n sep (map_option ((+) i) (strstr (drop i h) n)) = Some r"
proof (induction "length h - i" arbitrary: i rule: less_induct)
  case less
  show ?case
  proof (cases "strstr (drop i h) n")
    case None
    then show ?thesis by (simp add: finditem_loop.simps)
  next
    case (Some k)
    have m: "i + k + length n \<le> length h"
      using strstr_split(2) [OF Some] less.prems by simp
    let ?j = "i + k + length n"
    have "length h - ?j < length h - i" using m assms by (cases n) auto
    from less.hyps [OF this m]
    obtain r where "finditem_loop h n sep (map_option ((+) ?j) (strstr (drop ?j h) n)) = Some r"
      by blast
    with Some show ?thesis
      by (cases "item_at h n sep (i + k)")
        (simp_all add: finditem_loop.simps [of h n sep "Some (i + k)"])
  qed
qed

text \<open>
  C38: for a non-empty needle without separator characters
  \<open>lcfgutils_string_hasitem\<close> returns, and answers whether the needle is an item of
  the separated list.
\<close>

theorem string_hasitem_correct:
  assumes "needle \<noteq> []" and "h \<noteq> []" and "sep \<noteq> []" and "no_nul h"
    and "set needle \<inter> set sep = {}"
  shows "lcfgutils_string_hasitem (Some h) needle (Some sep) = Some (is_item h needle sep)"
proof -
  obtain r where r: "finditem_loop h needle sep (map_option ((+) 0) (strstr (drop 0 h) needle)) = Some r"
    using finditem_loop_total [OF assms(1), of 0 h sep] by blast
  have r': "r \<noteq> None \<longleftrightarrow>
      (\<exists>m. m \<le> length h \<and> starts_with (drop m h) needle \<and> item_at h needle sep m)"
    using finditem_loop_correct [OF assms(4,1,5) _ r] by simp
  have "\<dots> \<longleftrightarrow> is_item h needle sep"
  proof
    assume "\<exists>m. m \<le> length h \<and> starts_with (drop m h) needle \<and> item_at h needle sep m"
    then obtain m where m: "m \<le> length h" "starts_with (drop m h) needle"
      "item_at h needle sep m" by blast
    have "h = take m h @ needle @ drop (m + length needle) h"
      using m(2) by (metis starts_with_iff append_eq_conv_conj append_take_drop_id drop_drop add.commute)
    with item_at_iff [OF assms(4) m(2,1), of sep] m(3) show "is_item h needle sep"
      unfolding is_item_def by blast
  next
    assume "is_item h needle sep"
    then obtain a b where h: "h = a @ needle @ b" "a = [] \<or> last a \<in> set sep"
      "b = [] \<or> hd b \<in> set sep" unfolding is_item_def by blast
    then have "starts_with (drop (length a) h) needle" by (auto simp: starts_with_iff)
    with h item_at_iff [OF assms(4), of "length a" needle sep]
    show "\<exists>m. m \<le> length h \<and> starts_with (drop m h) needle \<and> item_at h needle sep m"
      by (intro exI [of _ "length a"]) auto
  qed
  moreover have "map_option ((+) 0) x = x" for x :: "nat option" by (cases x) simp_all
  ultimately show ?thesis using r r' assms(2,3)
    by (simp add: lcfgutils_string_hasitem_def lcfgutils_string_finditem_def)
qed

theorem string_hasitem_correct_witness:
  "lcfgutils_string_hasitem (Some ''foo bar baz'') ''bar'' (Some '' '') = Some True"
proof -
  have "is_item ''foo bar baz'' ''bar'' '' ''"
    unfolding is_item_def by (intro exI [of _ "''foo ''"] exI [of _ "'' baz''"]) simp
  then show ?thesis
    using string_hasitem_correct [of "''bar''" "''foo bar baz''" "'' ''"]
    by (simp add: nul_def)
qed

section \<open>Tokens\<close>

text \<open>The tokens of \<open>strtok_r\<close>: the non-empty runs between characters of the set.\<close>

function strtok :: "(char \<Rightarrow> bool) \<Rightarrow> string \<Rightarrow> string list" where
  "strtok sep s =
     (let t = dropWhile sep s in
      if t = [] then [] else takeWhile (\<lambda>c. \<not> sep c) t # strtok sep (dropWhile (\<lambda>c. \<not> sep c) t))"
  by pat_completeness auto
termination
proof (relation "measure (length \<circ> snd)", goal_cases)
  case (2 sep s t)
  have "\<not> sep (hd t)" using 2 hd_dropWhile by metis
  then have "length (dropWhile (\<lambda>c. \<not> sep c) t) < length t"
    using 2(2) length_dropWhile_le [of "\<lambda>c. \<not> sep c" "tl t"] by (cases t) auto
  moreover have "length t \<le> length s" using 2(1) by (simp add: length_dropWhile_le)
  ultimately show ?case by simp
qed simp

declare strtok.simps [simp del]

text \<open>Texts joined by spaces.\<close>

fun join_texts :: "string list \<Rightarrow> string" where
  "join_texts [] = []"
| "join_texts [t] = t"
| "join_texts (t # ts) = t @ '' '' @ join_texts ts"

lemma strtok_token:
  assumes "t \<noteq> []" and "\<forall>c\<in>set t. \<not> sep c" and "r = [] \<or> sep (hd r)"
  shows "strtok sep (t @ r) = t # strtok sep r"
proof -
  have "dropWhile sep (t @ r) = t @ r" using assms(1,2) by (cases t) auto
  moreover have "takeWhile (\<lambda>c. \<not> sep c) (t @ r) = t" "dropWhile (\<lambda>c. \<not> sep c) (t @ r) = r"
    using assms(2,3) by (auto simp: takeWhile_append dropWhile_append takeWhile_eq_Nil_iff
      dropWhile_eq_self_iff)
  ultimately show ?thesis using assms(1) by (subst strtok.simps) (simp add: Let_def)
qed

lemma strtok_space: "sep c \<Longrightarrow> strtok sep (c # r) = strtok sep r"
  by (subst (1 2) strtok.simps) simp

lemma strtok_join:
  assumes "\<forall>t\<in>set ts. t \<noteq> [] \<and> (\<forall>c\<in>set t. \<not> sep c)" and "sep (CHR '' '')" and "strtok sep e = []"
    and "e = [] \<or> sep (hd e)"
  shows "strtok sep (join_texts ts @ e) = ts"
  using assms(1)
proof (induction ts rule: join_texts.induct)
  case 1
  then show ?case using assms(3) by simp
next
  case (2 t)
  then show ?case using strtok_token [of t sep e] assms(3,4) by simp
next
  case (3 t t2 ts)
  then show ?case
    using strtok_token [of t sep "'' '' @ join_texts (t2 # ts) @ e"] assms(2)
    by (simp add: strtok_space)
qed

text \<open>Tokens of texts that are joined at a separator.\<close>

lemma strtok_nil [simp]: "strtok sep [] = []"
  by (simp add: strtok.simps)

lemma strtok_skip: "list_all sep a \<Longrightarrow> strtok sep (a @ b) = strtok sep b"
  by (induction a) (simp_all add: strtok_space)

lemma strtok_append:
  assumes "a = [] \<or> sep (last a) \<or> b = [] \<or> sep (hd b)"
  shows "strtok sep (a @ b) = strtok sep a @ strtok sep b"
  using assms
proof (induction "length a" arbitrary: a rule: less_induct)
  case less
  let ?w = "takeWhile sep a" and ?t = "dropWhile sep a"
  have a: "a = ?w @ ?t" "list_all sep ?w" by (auto simp: list_all_iff dest: set_takeWhileD)
  show ?case
  proof (cases "?t = []")
    case True
    then have "list_all sep a" by (simp add: dropWhile_eq_Nil_conv list_all_iff)
    from strtok_skip [OF this] strtok_skip [OF this, of "[]"] show ?thesis by simp
  next
    case False
    let ?u = "takeWhile (\<lambda>c. \<not> sep c) ?t" and ?r = "dropWhile (\<lambda>c. \<not> sep c) ?t"
    have t: "?t = ?u @ ?r" "\<forall>c\<in>set ?u. \<not> sep c" by (auto dest: set_takeWhileD)
    have u: "?u \<noteq> []" using hd_dropWhile [OF False] False by (cases ?t) auto
    have r: "?r = [] \<or> sep (hd ?r)"
      using hd_dropWhile [of "\<lambda>c. \<not> sep c" "?t"] by blast
    have left: "strtok sep a = ?u # strtok sep ?r"
      using strtok_skip [OF a(2), of ?t] strtok_token [OF u t(2) r] a(1) t(1) by metis
    have right: "strtok sep (a @ b) = strtok sep (?u @ ?r @ b)"
      using strtok_skip [OF a(2), of "?t @ b"] a(1) t(1) by (metis append_assoc)
    show ?thesis
    proof (cases "?r = []")
      case True
      then have "\<not> sep (last a)" using t u a(1) by (metis append_Nil2 last_appendR last_in_set)
      with less.prems a(1) False have "b = [] \<or> sep (hd b)" by auto
      from strtok_token [OF u t(2) this] show ?thesis using left right True by simp
    next
      case False
      have "length ?r < length a" using a(1) t(1) u by (metis add_gr_0 length_append length_greater_0_conv less_add_same_cancel2 trans_less_add2)
      moreover have "last ?r = last a" using False a(1) t(1) by (metis last_appendR append_is_Nil_conv)
      ultimately have "strtok sep (?r @ b) = strtok sep ?r @ strtok sep b"
        using less.hyps [of ?r] less.prems False by auto
      moreover have "sep (hd (?r @ b))" using r False hd_append2 [OF False, of b] by argo
      ultimately show ?thesis using strtok_token [OF u t(2), of "?r @ b"] left right by simp
    qed
  qed
qed

end
