(* ===== verification/Lcfg_SList.thy ===== *)
theory Lcfg_SList
  imports Lcfg_Prelude
begin

text \<open>
  The single-linked list of \<open>utils/slist.c\<close> and \<open>utils/utils.c\<close>, whose insert and
  remove operations the context, derivation and package lists repeat for their own
  item types, and the bubble sort shared by the context and package lists.

  The chain of nodes from \<open>head\<close> is the list \<open>nodes\<close> of the data pointers; a node
  pointer is \<open>None\<close> for \<open>NULL\<close> (which stands for the position before the head)
  or \<open>Some i\<close> for the node at position \<open>i\<close>; \<open>tail\<close> is the last node.
\<close>

record 'a slist =
  nodes :: "'a list"
  list_size :: nat

definition slist_ok :: "('a, 'b) slist_scheme \<Rightarrow> bool" where
  "slist_ok l \<longleftrightarrow> list_size l = length (nodes l)"

definition lcfgslist_is_empty :: "('a, 'b) slist_scheme \<Rightarrow> bool" where
  "lcfgslist_is_empty l \<longleftrightarrow> list_size l = 0"

definition lcfgslist_tail :: "('a, 'b) slist_scheme \<Rightarrow> nat option" where
  "lcfgslist_tail l = (if nodes l = [] then None else Some (length (nodes l) - 1))"

definition lcfgslist_insert_next ::
    "('a \<Rightarrow> bool) \<Rightarrow> ('a, 'b) slist_scheme \<Rightarrow> nat option \<Rightarrow> 'a \<Rightarrow>
     LCFGChange \<times> ('a, 'b) slist_scheme" where
  "lcfgslist_insert_next validate l node item =
     (if \<not> validate item then (LCFG_CHANGE_ERROR, l)
      else (LCFG_CHANGE_ADDED,
            l\<lparr>nodes := (case node of
                  None \<Rightarrow> item # nodes l
                | Some i \<Rightarrow> take (Suc i) (nodes l) @ item # drop (Suc i) (nodes l)),
              list_size := list_size l + 1\<rparr>))"

text \<open>The removed item is \<open>None\<close> where the code does not set it.\<close>

definition lcfgslist_remove_next ::
    "('a, 'b) slist_scheme \<Rightarrow> nat option \<Rightarrow> LCFGChange \<times> ('a, 'b) slist_scheme \<times> 'a option" where
  "lcfgslist_remove_next l node =
     (if lcfgslist_is_empty l then (LCFG_CHANGE_NONE, l, None)
      else case node of
        None \<Rightarrow>
          (LCFG_CHANGE_REMOVED,
           l\<lparr>nodes := tl (nodes l), list_size := list_size l - 1\<rparr>, Some (hd (nodes l)))
      | Some i \<Rightarrow>
          if length (nodes l) \<le> Suc i then (LCFG_CHANGE_ERROR, l, None)
          else (LCFG_CHANGE_REMOVED,
                l\<lparr>nodes := take (Suc i) (nodes l) @ drop (Suc (Suc i)) (nodes l),
                  list_size := list_size l - 1\<rparr>, Some (nodes l ! Suc i)))"

definition lcfgslist_append ::
    "('a \<Rightarrow> bool) \<Rightarrow> ('a, 'b) slist_scheme \<Rightarrow> 'a \<Rightarrow> LCFGChange \<times> ('a, 'b) slist_scheme" where
  "lcfgslist_append validate l item = lcfgslist_insert_next validate l (lcfgslist_tail l) item"

lemma slist_is_empty_iff [simp]: "slist_ok l \<Longrightarrow> lcfgslist_is_empty l \<longleftrightarrow> nodes l = []"
  by (simp add: slist_ok_def lcfgslist_is_empty_def)

lemma lcfgslist_append_simp:
  "lcfgslist_append validate l item =
     (if validate item
      then (LCFG_CHANGE_ADDED, l\<lparr>nodes := nodes l @ [item], list_size := list_size l + 1\<rparr>)
      else (LCFG_CHANGE_ERROR, l))"
  by (auto simp: lcfgslist_append_def lcfgslist_insert_next_def lcfgslist_tail_def)

lemma slist_ok_append:
  "slist_ok l \<Longrightarrow> lcfgslist_append validate l item = (c, l') \<Longrightarrow> slist_ok l'"
  by (auto simp: lcfgslist_append_simp slist_ok_def split: if_splits)

lemma slist_ok_insert_next:
  "slist_ok l \<Longrightarrow> lcfgslist_insert_next validate l node item = (c, l') \<Longrightarrow> slist_ok l'"
  by (auto simp: lcfgslist_insert_next_def slist_ok_def min_def split: if_splits option.splits)

lemma slist_ok_remove_next:
  assumes "slist_ok l" and "lcfgslist_remove_next l node = (c, l', item)"
  shows "slist_ok l'"
  using assms
  by (auto simp: lcfgslist_remove_next_def slist_ok_def min_def split: if_splits option.splits)

text \<open>Removing the node after position \<open>i - 1\<close> (the head for \<open>i = 0\<close>) takes out item \<open>i\<close>.\<close>

definition prev_of :: "nat \<Rightarrow> nat option" where
  "prev_of i = (if i = 0 then None else Some (i - 1))"

lemma lcfgslist_remove_at:
  assumes "slist_ok l" and "i < length (nodes l)"
  shows "lcfgslist_remove_next l (prev_of i) =
     (LCFG_CHANGE_REMOVED,
      l\<lparr>nodes := take i (nodes l) @ drop (Suc i) (nodes l), list_size := list_size l - 1\<rparr>,
      Some (nodes l ! i))"
proof (cases i)
  case 0
  with assms show ?thesis
    by (cases "nodes l") (auto simp: lcfgslist_remove_next_def prev_of_def)
next
  case (Suc k)
  with assms show ?thesis
    by (auto simp: lcfgslist_remove_next_def prev_of_def)
qed

section \<open>Bubble sort\<close>

text \<open>
  One pass of the inner loop over adjacent pairs (the flag is \<open>swapped\<close>), and the
  outer loop, which repeats the pass until nothing was swapped. Whether it ends depends
  on the comparison, so the outer loop is in the option monad.
\<close>

fun bubble_pass :: "('a \<Rightarrow> 'a \<Rightarrow> bool) \<Rightarrow> 'a list \<Rightarrow> 'a list \<times> bool" where
  "bubble_pass gt (x # y # zs) =
     (if gt x y then (y # fst (bubble_pass gt (x # zs)), True)
      else (x # fst (bubble_pass gt (y # zs)), snd (bubble_pass gt (y # zs))))"
| "bubble_pass gt xs = (xs, False)"

partial_function (option) bubble_loop :: "('a \<Rightarrow> 'a \<Rightarrow> bool) \<Rightarrow> 'a list \<Rightarrow> 'a list option" where
  "bubble_loop gt xs =
     (if snd (bubble_pass gt xs) then bubble_loop gt (fst (bubble_pass gt xs))
      else Some (fst (bubble_pass gt xs)))"

lemma bubble_pass_induct [case_names Swap Nil Single]:
  assumes "\<And>x y zs. (gt x y \<Longrightarrow> P (x # zs)) \<Longrightarrow> (\<not> gt x y \<Longrightarrow> P (y # zs)) \<Longrightarrow> P (x # y # zs)"
    and "P []" and "\<And>x. P [x]"
  shows "P xs"
  using bubble_pass.induct [where P = "\<lambda>g xs. g = gt \<longrightarrow> P xs", of gt xs] assms by blast

lemma mset_bubble_pass [simp]: "mset (fst (bubble_pass gt xs)) = mset xs"
  by (induction gt xs rule: bubble_pass.induct) auto

lemma bubble_pass_stuck:
  "\<not> snd (bubble_pass gt xs) \<Longrightarrow> fst (bubble_pass gt xs) = xs \<and> successively (\<lambda>x y. \<not> gt x y) xs"
  by (induction gt xs rule: bubble_pass.induct) (auto split: if_splits)

fun inversions :: "('a \<Rightarrow> 'a \<Rightarrow> bool) \<Rightarrow> 'a list \<Rightarrow> nat" where
  "inversions gt [] = 0"
| "inversions gt (x # xs) = size (filter_mset (gt x) (mset xs)) + inversions gt xs"

lemma bubble_pass_inversions:
  assumes "\<And>x y. gt x y \<Longrightarrow> \<not> gt y x"
  shows "inversions gt (fst (bubble_pass gt xs)) + (if snd (bubble_pass gt xs) then 1 else 0)
         \<le> inversions gt xs"
proof (induction xs rule: bubble_pass_induct [where gt = gt])
  case (Swap x y zs)
  then show ?case using assms [of x y] by (auto split: if_splits)
qed auto

lemma bubble_loop_total:
  assumes "\<And>x y. gt x y \<Longrightarrow> \<not> gt y x"
  shows "\<exists>ys. bubble_loop gt xs = Some ys"
proof (induction "inversions gt xs" arbitrary: xs rule: less_induct)
  case less
  show ?case
  proof (cases "snd (bubble_pass gt xs)")
    case True
    then have "inversions gt (fst (bubble_pass gt xs)) < inversions gt xs"
      using bubble_pass_inversions [of gt xs, OF assms] by simp
    from less [OF this] True show ?thesis by (subst bubble_loop.simps) simp
  next
    case False
    then show ?thesis by (subst bubble_loop.simps) simp
  qed
qed

lemma bubble_loop_induct:
  assumes "bubble_loop gt xs = Some ys"
    and "\<And>xs. P xs (fst (bubble_pass gt xs))"
    and "\<And>xs ys zs. P xs ys \<Longrightarrow> P ys zs \<Longrightarrow> P xs zs"
  shows "P xs ys"
proof (rule bubble_loop.raw_induct [where P = "\<lambda>g xs ys. g = gt \<longrightarrow> P xs ys", THEN mp, OF _ assms(1) refl])
  fix loop g xs ys
  assume IH: "\<And>g xs ys. loop g xs = Some ys \<Longrightarrow> g = gt \<longrightarrow> P xs ys"
    and eq: "(if snd (bubble_pass g xs) then loop g (fst (bubble_pass g xs))
              else Some (fst (bubble_pass g xs))) = Some ys"
  show "g = gt \<longrightarrow> P xs ys"
    using eq IH assms(2) [of xs] assms(3) by (auto split: if_splits)
qed

lemma mset_bubble_loop: "bubble_loop gt xs = Some ys \<Longrightarrow> mset ys = mset xs"
  by (rule bubble_loop_induct [where P = "\<lambda>xs ys. mset ys = mset xs"]) auto

lemma bubble_loop_successive:
  "bubble_loop gt xs = Some ys \<Longrightarrow> successively (\<lambda>x y. \<not> gt x y) ys"
proof (rule bubble_loop.raw_induct [where P = "\<lambda>g xs ys. successively (\<lambda>x y. \<not> g x y) ys"])
  fix loop g and xs ys :: "'a list"
  assume IH: "\<And>g xs ys. loop g xs = Some ys \<Longrightarrow> successively (\<lambda>x y. \<not> g x y) ys"
    and eq: "(if snd (bubble_pass g xs) then loop g (fst (bubble_pass g xs))
              else Some (fst (bubble_pass g xs))) = Some ys"
  show "successively (\<lambda>x y. \<not> g x y) ys"
    using eq IH bubble_pass_stuck [of g xs] by (auto split: if_splits)
qed

lemma bubble_pass_filter:
  assumes "\<And>x y. P x \<Longrightarrow> P y \<Longrightarrow> \<not> gt x y"
  shows "filter P (fst (bubble_pass gt xs)) = filter P xs"
proof (induction xs rule: bubble_pass_induct [where gt = gt])
  case (Swap x y zs)
  then show ?case using assms [of x y] by auto
qed auto

lemma bubble_loop_filter:
  assumes "\<And>x y. P x \<Longrightarrow> P y \<Longrightarrow> \<not> gt x y" and "bubble_loop gt xs = Some ys"
  shows "filter P ys = filter P xs"
  by (rule bubble_loop_induct [OF assms(2), where P = "\<lambda>xs ys. filter P ys = filter P xs"])
    (simp_all add: bubble_pass_filter [of P gt, OF assms(1)])

text \<open>
  With a lawful comparison the sort returns; the result is a permutation, in order, and
  items that compare equal keep their places relative to each other.
\<close>

context comparator
begin

lemma bubble_sort_total: "\<exists>ys. bubble_loop (\<lambda>x y. 0 < cmp x y) xs = Some ys"
proof (rule bubble_loop_total)
  fix x y
  assume "0 < cmp x y"
  then show "\<not> 0 < cmp y x" using cmp_gt_iff [of x y] by simp
qed

lemma bubble_sort_sorted:
  assumes "bubble_loop (\<lambda>x y. 0 < cmp x y) xs = Some ys"
  shows "sorted_wrt (\<lambda>x y. cmp x y \<le> 0) ys"
proof -
  have "successively (\<lambda>x y. cmp x y \<le> 0) ys"
    using bubble_loop_successive [OF assms] by (simp add: not_less)
  moreover have "transp (\<lambda>x y. cmp x y \<le> 0)" by (auto intro: transpI cmp_le_trans)
  ultimately show ?thesis by (simp add: successively_conv_sorted_wrt)
qed

lemma bubble_sort_stable:
  assumes "bubble_loop (\<lambda>x y. 0 < cmp x y) xs = Some ys"
  shows "filter (\<lambda>x. cmp k x = 0) ys = filter (\<lambda>x. cmp k x = 0) xs"
proof (rule bubble_loop_filter [OF _ assms])
  fix x y
  assume "cmp k x = 0" and "cmp k y = 0"
  then have "cmp x y = 0" using cmp_eq_trans [of x k y] cmp_eq_iff by blast
  then show "\<not> 0 < cmp x y" by simp
qed

lemmas bubble_sort = bubble_sort_total bubble_sort_sorted bubble_sort_stable

end

section \<open>Searching\<close>

text \<open>
  The search loop of the three \<open>find_node\<close> functions: the first node whose item
  passes the test.
\<close>

fun first_node :: "('a \<Rightarrow> bool) \<Rightarrow> 'a list \<Rightarrow> nat option" where
  "first_node P [] = None"
| "first_node P (x # xs) = (if P x then Some 0 else map_option Suc (first_node P xs))"

lemma first_node_SomeD:
  "first_node P xs = Some i \<Longrightarrow> i < length xs \<and> P (xs ! i) \<and> (\<forall>j<i. \<not> P (xs ! j))"
proof (induction xs arbitrary: i)
  case (Cons x xs)
  then show ?case by (auto split: if_splits simp: less_Suc_eq_0_disj)
qed simp

lemma first_node_None_iff: "first_node P xs = None \<longleftrightarrow> (\<forall>x\<in>set xs. \<not> P x)"
  by (induction xs) auto

lemma first_node_find: "map_option ((!) xs) (first_node P xs) = find P xs"
  by (induction xs) (auto simp: option.map_comp o_def)

lemma first_node_find_None: "first_node P xs = None \<longleftrightarrow> find P xs = None"
  by (simp add: first_node_find [symmetric])

lemma find_append: "find P (xs @ ys) = (case find P xs of None \<Rightarrow> find P ys | Some x \<Rightarrow> Some x)"
  by (induction xs) auto

lemma find_skip: "\<not> P x \<Longrightarrow> find P (xs @ x # ys) = find P (xs @ ys)"
  by (induction xs) auto

lemma find_SomeD: "find P xs = Some x \<Longrightarrow> x \<in> set xs \<and> P x"
  by (induction xs) (auto split: if_splits)

lemma find_NoneD: "find P xs = None \<Longrightarrow> x \<in> set xs \<Longrightarrow> \<not> P x"
  by (induction xs) (auto split: if_splits)

lemma find_None_iff_all: "find P xs = None \<longleftrightarrow> (\<forall>x\<in>set xs. \<not> P x)"
  by (induction xs) auto

text \<open>A symmetric relation between all items of a list does not depend on their order.\<close>

lemma sorted_wrt_perm:
  assumes sym: "\<And>x y. R x y \<Longrightarrow> R y x"
  shows "mset xs = mset ys \<Longrightarrow> sorted_wrt R xs \<Longrightarrow> sorted_wrt R ys"
proof (induction xs arbitrary: ys)
  case (Cons x xs)
  then have "x \<in> set ys" by (metis list.set_intros(1) mset_eq_setD)
  then obtain a b where ys: "ys = a @ x # b" by (meson split_list)
  with Cons.prems(1) have m: "mset xs = mset (a @ b)" by simp
  with Cons.IH Cons.prems(2) have "sorted_wrt R (a @ b)" by simp
  moreover have "set (a @ b) = set xs" using m by (metis mset_eq_setD)
  ultimately show ?case using Cons.prems(2) sym unfolding ys by (auto simp: sorted_wrt_append)
qed simp

text \<open>
  A list searched by a key: keys are compared by an equivalence (\<open>strcmp\<close> being 0).
  The list holds no two items of the same key when every addition goes through
  ``replace the one found or append'', and then behaves as a map from keys to items.
\<close>

locale keyed_list =
  fixes key :: "'a \<Rightarrow> 'k" and same :: "'k \<Rightarrow> 'k \<Rightarrow> bool"
  assumes same_refl [simp]: "same k k"
    and same_sym: "same j k \<Longrightarrow> same k j"
    and same_trans: "same i j \<Longrightarrow> same j k \<Longrightarrow> same i k"
begin

lemma same_left: "same i j \<Longrightarrow> same i k \<longleftrightarrow> same j k"
  using same_sym same_trans by blast

lemma same_right: "same i j \<Longrightarrow> same k i \<longleftrightarrow> same k j"
  using same_sym same_trans by blast

lemma unique_append:
  assumes "sorted_wrt (\<lambda>x y. \<not> same (key x) (key y)) xs"
    and "first_node (\<lambda>x. same (key x) (key y)) xs = None"
  shows "sorted_wrt (\<lambda>x y. \<not> same (key x) (key y)) (xs @ [y])"
  using assms by (auto simp: sorted_wrt_append first_node_None_iff)

lemma unique_update:
  assumes "sorted_wrt (\<lambda>x y. \<not> same (key x) (key y)) xs"
    and "i < length xs" and "same (key (xs ! i)) (key y)"
  shows "sorted_wrt (\<lambda>x y. \<not> same (key x) (key y)) (xs[i := y])"
  using assms
proof (induction xs arbitrary: i)
  case (Cons x xs)
  show ?case
  proof (cases i)
    case 0
    then have "same (key x) (key y)" using Cons.prems(3) by simp
    then have "same (key x) j \<longleftrightarrow> same (key y) j" for j by (rule same_left)
    with 0 Cons.prems(1) show ?thesis by simp
  next
    case (Suc n)
    then have n: "n < length xs" "same (key (xs ! n)) (key y)" using Cons.prems by auto
    have x: "\<forall>z\<in>set xs. \<not> same (key x) (key z)" using Cons.prems(1) by simp
    then have "\<not> same (key x) (key (xs ! n))" using n(1) by simp
    then have "\<not> same (key x) (key y)" using same_right [OF n(2)] by blast
    moreover have "set (xs[n := y]) \<subseteq> insert y (set xs)" by (rule set_update_subset_insert)
    ultimately show ?thesis using Suc Cons.IH [OF _ n] Cons.prems(1) x by auto
  qed
qed simp

lemma lookup_append:
  assumes "first_node (\<lambda>x. same (key x) (key y)) xs = None"
  shows "find (\<lambda>x. same (key x) k) (xs @ [y]) =
           (if same (key y) k then Some y else find (\<lambda>x. same (key x) k) xs)"
proof (cases "same (key y) k")
  case True
  then have "find (\<lambda>x. same (key x) k) xs = None"
    using assms same_right [OF True] unfolding first_node_None_iff find_None_iff_all by blast
  with True show ?thesis by (simp add: find_append)
next
  case False
  then show ?thesis by (auto simp: find_append split: option.splits)
qed

lemma lookup_update:
  assumes "sorted_wrt (\<lambda>x y. \<not> same (key x) (key y)) xs"
    and "i < length xs" and "same (key (xs ! i)) (key y)"
  shows "find (\<lambda>x. same (key x) k) (xs[i := y]) =
           (if same (key y) k then Some y else find (\<lambda>x. same (key x) k) xs)"
  using assms
proof (induction xs arbitrary: i)
  case (Cons x xs)
  show ?case
  proof (cases i)
    case 0
    then have "same (key x) (key y)" using Cons.prems(3) by simp
    then show ?thesis using same_left [of "key x" "key y" k] 0 by simp
  next
    case (Suc n)
    then have n: "n < length xs" "same (key (xs ! n)) (key y)" using Cons.prems by auto
    have "\<not> same (key x) (key (xs ! n))" using Cons.prems(1) n(1) by simp
    then have "\<not> same (key x) (key y)" using same_right [OF n(2)] by blast
    then have "same (key x) k \<Longrightarrow> \<not> same (key y) k"
      using same_right same_sym by blast
    with Suc Cons.IH [OF _ n] Cons.prems(1) show ?thesis by auto
  qed
qed simp

lemma unique_perm:
  assumes "mset xs = mset ys" and "sorted_wrt (\<lambda>x y. \<not> same (key x) (key y)) xs"
  shows "sorted_wrt (\<lambda>x y. \<not> same (key x) (key y)) ys"
  by (rule sorted_wrt_perm [OF _ assms]) (blast dest: same_sym)

lemma unique_eq:
  assumes "sorted_wrt (\<lambda>x y. \<not> same (key x) (key y)) xs"
    and "x \<in> set xs" and "y \<in> set xs" and "same (key x) (key y)"
  shows "x = y"
  using assms
proof (induction xs)
  case (Cons z zs)
  then show ?case using same_sym [OF Cons.prems(4)] by auto
qed simp

lemma lookup_perm:
  assumes "mset xs = mset ys" and "sorted_wrt (\<lambda>x y. \<not> same (key x) (key y)) xs"
  shows "find (\<lambda>x. same (key x) k) ys = find (\<lambda>x. same (key x) k) xs"
proof (cases "find (\<lambda>x. same (key x) k) xs")
  case None
  then have "find (\<lambda>x. same (key x) k) ys = None"
    using mset_eq_setD [OF assms(1)] unfolding find_None_iff_all by simp
  with None show ?thesis by simp
next
  case (Some x)
  then have x: "x \<in> set ys" "same (key x) k"
    using find_SomeD [OF Some] mset_eq_setD [OF assms(1)] by auto
  then obtain y where y: "find (\<lambda>x. same (key x) k) ys = Some y"
    using find_NoneD by fastforce
  then have "y \<in> set ys" "same (key y) k" using find_SomeD [OF y] by auto
  with x have "x = y" using unique_eq [OF unique_perm [OF assms]] same_sym same_trans by blast
  with Some y show ?thesis by simp
qed

lemma remove_facts:
  assumes "sorted_wrt (\<lambda>x y. \<not> same (key x) (key y)) xs"
    and "i < length xs" and "same (key (xs ! i)) (key y)"
  defines "ys \<equiv> take i xs @ drop (Suc i) xs"
  shows unique_remove: "sorted_wrt (\<lambda>x y. \<not> same (key x) (key y)) ys"
    and absent_remove: "first_node (\<lambda>x. same (key x) (key y)) ys = None"
    and lookup_remove: "find (\<lambda>x. same (key x) k) ys =
      (if same (key y) k then None else find (\<lambda>x. same (key x) k) xs)"
proof -
  let ?x = "xs ! i"
  have split: "xs = take i xs @ ?x # drop (Suc i) xs" using assms(2) by (rule id_take_nth_drop)
  have u: "sorted_wrt (\<lambda>x y. \<not> same (key x) (key y)) (take i xs @ ?x # drop (Suc i) xs)"
    using assms(1) split by simp
  then show "sorted_wrt (\<lambda>x y. \<not> same (key x) (key y)) ys" by (auto simp: ys_def sorted_wrt_append)
  have x: "\<forall>z\<in>set ys. \<not> same (key z) (key ?x)"
    using u same_sym by (auto simp: ys_def sorted_wrt_append)
  then have y: "\<forall>z\<in>set ys. \<not> same (key z) (key y)" using same_right [OF assms(3)] by blast
  then show "first_node (\<lambda>x. same (key x) (key y)) ys = None" by (simp add: first_node_None_iff)
  show "find (\<lambda>x. same (key x) k) ys = (if same (key y) k then None else find (\<lambda>x. same (key x) k) xs)"
  proof (cases "same (key y) k")
    case True
    have "\<forall>z\<in>set ys. \<not> same (key z) k" using y same_right [OF True] by blast
    then have "find (\<lambda>x. same (key x) k) ys = None" by (simp add: find_None_iff_all)
    with True show ?thesis by simp
  next
    case False
    then have "\<not> same (key ?x) k" using same_left [OF assms(3)] by blast
    then have "find (\<lambda>x. same (key x) k) (take i xs @ ?x # drop (Suc i) xs) = find (\<lambda>x. same (key x) k) ys"
      unfolding ys_def by (rule find_skip)
    from trans [OF arg_cong [OF split, of "find (\<lambda>x. same (key x) k)"] this] False show ?thesis by simp
  qed
qed

end

end
