(* ===== verification/Lcfg_Context.thy ===== *)
theory Lcfg_Context
  imports Lcfg_Utils Lcfg_SList
begin

text \<open>
  LCFG contexts and lists of contexts (\<open>common/context/context.c\<close>,
  \<open>common/context/list.c\<close>, \<open>include/context.h\<close>). A context is immutable once it is
  in a list, so lists hold contexts by value and the reference count is left out. A
  function that reports an error returns \<open>Inl\<close> of its message.
\<close>

section \<open>Contexts\<close>

record LCFGContext =
  ctx_name :: cstr
  ctx_value :: cstr
  ctx_priority :: int

definition lcfgcontext_new :: LCFGContext where
  "lcfgcontext_new = \<lparr>ctx_name = None, ctx_value = None, ctx_priority = 1\<rparr>"

definition invalid_context :: "string \<Rightarrow> string" where
  "invalid_context reason = ''Invalid context ('' @ reason @ '')''"

text \<open>The pointer of \<open>lcfgcontext_is_valid\<close> may be \<open>NULL\<close>.\<close>

definition lcfgcontext_is_valid :: "LCFGContext option \<Rightarrow> bool" where
  "lcfgcontext_is_valid ctx \<longleftrightarrow> (case ctx of None \<Rightarrow> False | Some c \<Rightarrow> \<not> isempty (ctx_name c))"

definition lcfgcontext_valid_name :: "cstr \<Rightarrow> bool" where
  "lcfgcontext_valid_name name \<longleftrightarrow>
     (case name of None \<Rightarrow> False | Some n \<Rightarrow>
        n \<noteq> [] \<and> isalpha (hd n) \<and> list_all isword (tl n))"

definition lcfgcontext_has_name :: "LCFGContext \<Rightarrow> bool" where
  "lcfgcontext_has_name ctx \<longleftrightarrow> \<not> isempty (ctx_name ctx)"

definition lcfgcontext_get_name :: "LCFGContext \<Rightarrow> cstr" where
  "lcfgcontext_get_name ctx = ctx_name ctx"

text \<open>A setter returns whether it accepted the value, and the context.\<close>

definition lcfgcontext_set_name :: "LCFGContext \<Rightarrow> cstr \<Rightarrow> bool \<times> LCFGContext" where
  "lcfgcontext_set_name ctx new_name =
     (if lcfgcontext_valid_name new_name then (True, ctx\<lparr>ctx_name := new_name\<rparr>)
      else (False, ctx))"

definition lcfgcontext_valid_value :: "cstr \<Rightarrow> bool" where
  "lcfgcontext_valid_value value \<longleftrightarrow> value \<noteq> None"

definition lcfgcontext_has_value :: "LCFGContext \<Rightarrow> bool" where
  "lcfgcontext_has_value ctx \<longleftrightarrow> \<not> isempty (ctx_value ctx)"

definition lcfgcontext_get_value :: "LCFGContext \<Rightarrow> cstr" where
  "lcfgcontext_get_value ctx = ctx_value ctx"

definition lcfgcontext_set_value :: "LCFGContext \<Rightarrow> cstr \<Rightarrow> bool \<times> LCFGContext" where
  "lcfgcontext_set_value ctx new_value =
     (if lcfgcontext_valid_value new_value then (True, ctx\<lparr>ctx_value := new_value\<rparr>)
      else (False, ctx))"

definition lcfgcontext_unset_value :: "LCFGContext \<Rightarrow> LCFGContext" where
  "lcfgcontext_unset_value ctx = ctx\<lparr>ctx_value := None\<rparr>"

definition valid_false_values :: "string list" where
  "valid_false_values = [''false'', ''no'', ''off'', ''0'', '''']"

definition lcfgcontext_is_false :: "LCFGContext option \<Rightarrow> bool" where
  "lcfgcontext_is_false ctx \<longleftrightarrow>
     (case ctx of None \<Rightarrow> True | Some c \<Rightarrow>
        isempty (ctx_value c) \<or>
        list_ex (\<lambda>v. strcasecmp (or_default (ctx_value c) []) v = 0) valid_false_values)"

definition lcfgcontext_is_true :: "LCFGContext option \<Rightarrow> bool" where
  "lcfgcontext_is_true ctx \<longleftrightarrow> \<not> lcfgcontext_is_false ctx"

definition lcfgcontext_get_priority :: "LCFGContext \<Rightarrow> int" where
  "lcfgcontext_get_priority ctx = ctx_priority ctx"

definition lcfgcontext_set_priority :: "LCFGContext \<Rightarrow> int \<Rightarrow> bool \<times> LCFGContext" where
  "lcfgcontext_set_priority ctx priority =
     (if 1 \<le> priority then (True, ctx\<lparr>ctx_priority := priority\<rparr>) else (False, ctx))"

text \<open>\<open>name = value\<close>; white space around both is ignored, and the value may be missing.\<close>

definition lcfgcontext_from_string :: "cstr \<Rightarrow> int \<Rightarrow> string + LCFGContext" where
  "lcfgcontext_from_string ctx_str priority =
     (if isempty ctx_str then Inl (invalid_context ''undefined value'')
      else let s = skip_space (or_default ctx_str []) in
        if s = [] then Inl (invalid_context ''empty string'')
        else case strchr_split s (CHR ''='') of
          None \<Rightarrow> Inl (invalid_context ''missing '' @ [CHR 0x27] @ ''='' @ [CHR 0x27] @
                       '' assignment character)'')
        | Some (before, value_str) \<Rightarrow>
            let name = trim_end before in
            if name = [] then Inl (invalid_context ''missing name'')
            else let (ok, ctx) = lcfgcontext_set_name lcfgcontext_new (Some name) in
              if \<not> ok then Inl (invalid_context ''bad name'')
              else let value = trim_end (skip_space value_str);
                       ctx' = (if value \<noteq> [] then snd (lcfgcontext_set_value ctx (Some value))
                               else ctx);
                       (prio_ok, ctx'') = lcfgcontext_set_priority ctx' priority
                   in if prio_ok then Inr ctx'' else Inl (invalid_context ''unknown error''))"

definition lcfgcontext_to_string :: "LCFGContext \<Rightarrow> bits \<Rightarrow> string option" where
  "lcfgcontext_to_string ctx options =
     (if \<not> lcfgcontext_is_valid (Some ctx) then None
      else Some (or_default (ctx_name ctx) [] @ ''='' @
                 (if lcfgcontext_has_value ctx then or_default (ctx_value ctx) [] else []) @
                 (if has_bit options LCFG_OPT_NEWLINE then [CHR 0x0A] else [])))"

definition lcfgcontext_same_name :: "LCFGContext \<Rightarrow> LCFGContext \<Rightarrow> bool" where
  "lcfgcontext_same_name c1 c2 \<longleftrightarrow>
     strcmp (or_default (ctx_name c1) []) (or_default (ctx_name c2) []) = 0"

definition lcfgcontext_same_value :: "LCFGContext \<Rightarrow> LCFGContext \<Rightarrow> bool" where
  "lcfgcontext_same_value c1 c2 \<longleftrightarrow>
     strcmp (or_default (ctx_value c1) []) (or_default (ctx_value c2) []) = 0"

definition lcfgcontext_equals :: "LCFGContext \<Rightarrow> LCFGContext \<Rightarrow> bool" where
  "lcfgcontext_equals c1 c2 \<longleftrightarrow> lcfgcontext_same_name c1 c2 \<and> lcfgcontext_same_value c1 c2"

definition lcfgcontext_identical :: "LCFGContext \<Rightarrow> LCFGContext \<Rightarrow> bool" where
  "lcfgcontext_identical c1 c2 \<longleftrightarrow>
     lcfgcontext_same_name c1 c2 \<and> lcfgcontext_same_value c1 c2 \<and>
     lcfgcontext_get_priority c1 = lcfgcontext_get_priority c2"

definition lcfgcontext_match :: "LCFGContext \<Rightarrow> string \<Rightarrow> bool" where
  "lcfgcontext_match ctx want_name \<longleftrightarrow> strcmp (or_default (ctx_name ctx) []) want_name = 0"

definition lcfgcontext_profile_path :: "LCFGContext \<Rightarrow> cstr \<Rightarrow> cstr \<Rightarrow> cstr" where
  "lcfgcontext_profile_path ctx basedir suffix =
     (if isempty (ctx_name ctx) \<or> isempty (ctx_value ctx) then None
      else let tail = or_default (ctx_name ctx) [] @ ''/'' @ or_default (ctx_value ctx) [] @
                      (case suffix of None \<Rightarrow> [] | Some x \<Rightarrow> x)
           in if isempty basedir then Some tail
              else Some (or_default basedir [] @ ''/'' @ tail))"

section \<open>Context lists\<close>

type_synonym LCFGContextList = "LCFGContext slist"

definition lcfgctxlist_new :: LCFGContextList where
  "lcfgctxlist_new = \<lparr>nodes = [], list_size = 0\<rparr>"

text \<open>\<open>lcfgctxlist_insert_next\<close> at the tail refuses a context without a name.\<close>

definition lcfgctxlist_append :: "LCFGContextList \<Rightarrow> LCFGContext \<Rightarrow> LCFGChange \<times> LCFGContextList" where
  "lcfgctxlist_append ctxlist ctx =
     lcfgslist_append (\<lambda>c. lcfgcontext_is_valid (Some c)) ctxlist ctx"

fun clone_loop :: "LCFGContext list \<Rightarrow> LCFGContextList \<Rightarrow> LCFGContextList option" where
  "clone_loop [] clone = Some clone"
| "clone_loop (ctx # rest) clone =
     (case lcfgctxlist_append clone ctx of
        (rc, clone') \<Rightarrow> if rc \<noteq> LCFG_CHANGE_ADDED then None else clone_loop rest clone')"

definition lcfgctxlist_clone :: "LCFGContextList \<Rightarrow> LCFGContextList option" where
  "lcfgctxlist_clone ctxlist = clone_loop (nodes ctxlist) lcfgctxlist_new"

text \<open>The position of the first valid context with the name. The list may be \<open>NULL\<close>.\<close>

definition lcfgctxlist_find_node :: "LCFGContextList option \<Rightarrow> string \<Rightarrow> nat option" where
  "lcfgctxlist_find_node ctxlist want_name =
     (case ctxlist of
        None \<Rightarrow> None
      | Some l \<Rightarrow> if lcfgslist_is_empty l then None else first_node (\<lambda>ctx. lcfgcontext_is_valid (Some ctx) \<and> lcfgcontext_match ctx want_name)
          (nodes l))"

definition lcfgctxlist_find_context :: "LCFGContextList option \<Rightarrow> string \<Rightarrow> LCFGContext option" where
  "lcfgctxlist_find_context ctxlist name =
     (case lcfgctxlist_find_node ctxlist name of
        None \<Rightarrow> None
      | Some i \<Rightarrow> map_option (\<lambda>l. nodes l ! i) ctxlist)"

definition lcfgctxlist_contains :: "LCFGContextList option \<Rightarrow> string \<Rightarrow> bool" where
  "lcfgctxlist_contains ctxlist name \<longleftrightarrow> lcfgctxlist_find_node ctxlist name \<noteq> None"

definition lcfgctxlist_update ::
    "LCFGContextList \<Rightarrow> LCFGContext \<Rightarrow> LCFGChange \<times> LCFGContextList" where
  "lcfgctxlist_update ctxlist new_ctx =
     (if \<not> lcfgcontext_is_valid (Some new_ctx) then (LCFG_CHANGE_ERROR, ctxlist)
      else case lcfgctxlist_find_node (Some ctxlist) (or_default (ctx_name new_ctx) []) of
        None \<Rightarrow> lcfgctxlist_append ctxlist new_ctx
      | Some i \<Rightarrow>
          if lcfgcontext_equals (nodes ctxlist ! i) new_ctx then (LCFG_CHANGE_NONE, ctxlist)
          else (LCFG_CHANGE_MODIFIED, ctxlist\<lparr>nodes := (nodes ctxlist)[i := new_ctx]\<rparr>))"

text \<open>
  Reading a context file: what \<open>fopen\<close> and \<open>stat\<close> report and the lines \<open>getline\<close>
  yields are the argument; the line number is the priority. On an error the number of
  the line and the reason are returned.
\<close>

datatype file_read = FileMissing | FileUnreadable | FileLines int "string list"

fun from_file_loop :: "string list \<Rightarrow> int \<Rightarrow> LCFGContextList \<Rightarrow> (int \<times> string) + LCFGContextList" where
  "from_file_loop [] linenum ctxlist = Inr ctxlist"
| "from_file_loop (line # rest) linenum ctxlist =
     (let ctx_str = skip_space line in
      if ctx_str = [] \<or> hd ctx_str = CHR ''#'' then from_file_loop rest (linenum + 1) ctxlist
      else case lcfgcontext_from_string (Some ctx_str) linenum of
        Inl parse_msg \<Rightarrow> Inl (linenum, parse_msg)
      | Inr ctx \<Rightarrow>
          (case lcfgctxlist_update ctxlist ctx of
             (rc, ctxlist') \<Rightarrow>
               if rc = LCFG_CHANGE_ERROR then Inl (linenum, ''Failed to store context'')
               else from_file_loop rest (linenum + 1) ctxlist'))"

definition lcfgctxlist_from_file ::
    "file_read \<Rightarrow> bits \<Rightarrow> (int \<times> string) + (LCFGContextList \<times> int)" where
  "lcfgctxlist_from_file file options =
     (case file of
        FileMissing \<Rightarrow>
          if has_bit options LCFG_OPT_ALLOW_NOEXIST then Inr (lcfgctxlist_new, 0)
          else Inl (0, ''does not exist'')
      | FileUnreadable \<Rightarrow> Inl (0, ''is not readable'')
      | FileLines mtime ls \<Rightarrow>
          (case from_file_loop ls 1 lcfgctxlist_new of
             Inl e \<Rightarrow> Inl e
           | Inr l \<Rightarrow> Inr (l, mtime)))"

text \<open>The lines written, one per context with a name and a value.\<close>

definition lcfgctxlist_print :: "LCFGContextList \<Rightarrow> string list" where
  "lcfgctxlist_print ctxlist =
     (if lcfgslist_is_empty ctxlist then []
      else map (\<lambda>ctx. the (lcfgcontext_to_string ctx LCFG_OPT_NEWLINE))
        (filter (\<lambda>ctx. lcfgcontext_is_valid (Some ctx) \<and> lcfgcontext_has_value ctx)
          (nodes ctxlist)))"

definition lcfgctxlist_max_priority :: "LCFGContextList \<Rightarrow> int" where
  "lcfgctxlist_max_priority ctxlist =
     foldl (\<lambda>m ctx. if m < lcfgcontext_get_priority ctx then lcfgcontext_get_priority ctx else m)
       0 (nodes ctxlist)"

definition ctx_priority_diff :: "LCFGContext \<Rightarrow> LCFGContext \<Rightarrow> int" where
  "ctx_priority_diff c1 c2 = lcfgcontext_get_priority c1 - lcfgcontext_get_priority c2"

definition lcfgctxlist_sort_by_priority :: "LCFGContextList \<Rightarrow> LCFGContextList option" where
  "lcfgctxlist_sort_by_priority ctxlist =
     (if list_size ctxlist < 2 then Some ctxlist
      else map_option (\<lambda>ns. ctxlist\<lparr>nodes := ns\<rparr>)
        (bubble_loop (\<lambda>c1 c2. lcfgcontext_get_priority c2 < lcfgcontext_get_priority c1)
          (nodes ctxlist)))"

text \<open>
  The modification time of a regular file, \<open>None\<close> when \<open>stat\<close> fails or it is not a
  regular file, is a parameter of the comparison of two lists.
\<close>

definition lcfgctxlist_diff ::
    "(string \<Rightarrow> int option) \<Rightarrow> LCFGContextList option \<Rightarrow> LCFGContextList option \<Rightarrow> cstr \<Rightarrow> int \<Rightarrow> bool"
  where
  "lcfgctxlist_diff stat_mtime ctxlist1 ctxlist2 ctx_profile_dir prevtime \<longleftrightarrow>
     (let nodes_of = (\<lambda>l. case l of None \<Rightarrow> [] | Some x \<Rightarrow> nodes x) in
      list_ex (\<lambda>cur_ctx. lcfgcontext_is_valid (Some cur_ctx) \<and>
          (case lcfgctxlist_find_context ctxlist2 (or_default (ctx_name cur_ctx) []) of
             None \<Rightarrow> True
           | Some other_ctx \<Rightarrow>
               \<not> lcfgcontext_identical cur_ctx other_ctx \<or>
               (ctx_profile_dir \<noteq> None \<and>
                (case lcfgcontext_profile_path cur_ctx ctx_profile_dir (Some ''.xml'') of
                   None \<Rightarrow> False
                 | Some path \<Rightarrow> (case stat_mtime path of None \<Rightarrow> False | Some t \<Rightarrow> prevtime < t)))))
        (nodes_of ctxlist1) \<or>
      list_ex (\<lambda>cur_ctx. lcfgcontext_is_valid (Some cur_ctx) \<and>
          lcfgctxlist_find_context ctxlist1 (or_default (ctx_name cur_ctx) []) = None)
        (nodes_of ctxlist2))"

datatype LCFGTest = LCFG_TEST_ISTRUE | LCFG_TEST_ISFALSE | LCFG_TEST_ISEQ | LCFG_TEST_ISNE

definition lcfgctxlist_simple_query ::
    "LCFGContextList option \<Rightarrow> string \<Rightarrow> cstr \<Rightarrow> LCFGTest \<Rightarrow> int" where
  "lcfgctxlist_simple_query ctxlist ctxq_name ctxq_val cmp =
     (let ctx = lcfgctxlist_find_context ctxlist ctxq_name;
          priority = (case ctx of None \<Rightarrow> 1 | Some c \<Rightarrow> lcfgcontext_get_priority c);
          ctx_val = (case ctx of None \<Rightarrow> None | Some c \<Rightarrow> lcfgcontext_get_value c);
          same_value = (if isempty ctxq_val \<or> isempty ctx_val
                        then isempty ctxq_val \<and> isempty ctx_val
                        else strcmp (or_default ctxq_val []) (or_default ctx_val []) = 0);
          query_is_true = (case cmp of
              LCFG_TEST_ISTRUE \<Rightarrow> lcfgcontext_is_true ctx
            | LCFG_TEST_ISFALSE \<Rightarrow> lcfgcontext_is_false ctx
            | LCFG_TEST_ISEQ \<Rightarrow> same_value
            | LCFG_TEST_ISNE \<Rightarrow> \<not> same_value)
      in if query_is_true then priority else - 1 * priority)"

section \<open>Parsing and printing one context\<close>

text \<open>What \<open>lcfgcontext_from_string\<close> produces.\<close>

definition trimmed :: "string \<Rightarrow> bool" where
  "trimmed v \<longleftrightarrow> v \<noteq> [] \<and> \<not> isspace (hd v) \<and> \<not> isspace (last v)"

definition ctx_ok :: "LCFGContext \<Rightarrow> bool" where
  "ctx_ok ctx \<longleftrightarrow>
     lcfgcontext_valid_name (ctx_name ctx) \<and>
     (case ctx_value ctx of None \<Rightarrow> True | Some v \<Rightarrow> trimmed v) \<and> 1 \<le> ctx_priority ctx"

lemma isword_facts: "isword c \<Longrightarrow> \<not> isspace c" "isword c \<Longrightarrow> c \<noteq> CHR ''=''"
  by (auto simp: lcfg_chr byte_def)

lemma valid_nameE:
  assumes "lcfgcontext_valid_name name"
  obtains n where "name = Some n" "n \<noteq> []" "\<And>c. c \<in> set n \<Longrightarrow> isword c"
    "\<not> isspace (hd n)" "\<not> isspace (last n)" "CHR ''='' \<notin> set n"
proof -
  obtain n where n: "name = Some n" "n \<noteq> []" "isalpha (hd n)" "list_all isword (tl n)"
    using assms by (auto simp: lcfgcontext_valid_name_def split: option.splits)
  have w: "isword c" if "c \<in> set n" for c
    using that n by (cases n) (auto simp: list_all_iff isword_def isalnum_def)
  show ?thesis
    by (rule that [OF n(1,2) w])
      (use n(2) w isword_facts in \<open>auto simp: hd_in_set last_in_set\<close>)
qed

lemma strchr_split_first: "c \<notin> set n \<Longrightarrow> strchr_split (n @ c # v) c = Some (n, v)"
  by (induction n) auto

lemma trimmed_trim:
  assumes "trimmed v"
  shows "skip_space (v @ w) = v @ w" and "trim_end v = v"
  using assms by (auto simp: trimmed_def intro: skip_space_id trim_end_id)

lemma trim_both_trimmed: "trim_end (skip_space s) \<noteq> [] \<Longrightarrow> trimmed (trim_end (skip_space s))"
proof -
  assume ne: "trim_end (skip_space s) \<noteq> []"
  obtain w where w: "skip_space s = trim_end (skip_space s) @ w" using trim_end_prefix by blast
  then have "skip_space s \<noteq> []" using ne by auto
  then have "\<not> isspace (hd (skip_space s))" using skip_space_hd by blast
  moreover have "hd (skip_space s) = hd (trim_end (skip_space s))"
    using w ne by (metis hd_append2)
  ultimately show ?thesis using ne trim_end_last unfolding trimmed_def by auto
qed

lemma from_string_to_string:
  assumes "ctx_ok ctx" and "set nl \<subseteq> {CHR 0x0A}"
  shows "lcfgcontext_from_string (Some (or_default (ctx_name ctx) [] @ ''='' @
           or_default (ctx_value ctx) [] @ nl)) prio =
         (if 1 \<le> prio then Inr (ctx\<lparr>ctx_priority := prio\<rparr>)
          else Inl (invalid_context ''unknown error''))"
proof -
  obtain n where n: "ctx_name ctx = Some n" "n \<noteq> []" "\<not> isspace (hd n)" "\<not> isspace (last n)"
      "CHR ''='' \<notin> set n"
    using assms(1) by (auto simp: ctx_ok_def elim: valid_nameE)
  have name: "lcfgcontext_valid_name (Some n)" using assms(1) n by (simp add: ctx_ok_def)
  have skip: "skip_space (n @ x) = n @ x" "trim_end n = n" for x
    using n by (auto intro: skip_space_id trim_end_id)
  have nl: "isspace c" if "c \<in> set nl" for c
    using assms(2) that by (auto simp: lcfg_chr byte_def)
  have tr: "trim_end (v @ nl) = trim_end v" for v
    using nl by (induction nl rule: rev_induct) (auto simp flip: append_assoc)
  have sk: "skip_space nl = []" using nl by (simp add: skip_space_def)
  show ?thesis
  proof (cases "ctx_value ctx")
    case None
    then show ?thesis using n sk assms
      by (cases ctx) (auto simp: lcfgcontext_from_string_def strchr_split_first skip name
        lcfgcontext_set_name_def lcfgcontext_set_value_def lcfgcontext_set_priority_def
        lcfgcontext_new_def lcfgcontext_valid_value_def)
  next
    case (Some v)
    then have v: "trimmed v" "v \<noteq> []" using assms(1) by (auto simp: ctx_ok_def trimmed_def)
    show ?thesis using n Some v assms
      by (cases ctx) (auto simp: lcfgcontext_from_string_def strchr_split_first skip name
        trimmed_trim tr lcfgcontext_set_name_def lcfgcontext_set_value_def
        lcfgcontext_set_priority_def lcfgcontext_new_def lcfgcontext_valid_value_def)
  qed
qed

lemma to_string_eq:
  assumes "ctx_ok ctx"
  shows "lcfgcontext_to_string ctx options =
    Some (or_default (ctx_name ctx) [] @ ''='' @ or_default (ctx_value ctx) [] @
          (if has_bit options LCFG_OPT_NEWLINE then [CHR 0x0A] else []))"
proof -
  have "lcfgcontext_is_valid (Some ctx)"
    using assms by (auto simp: ctx_ok_def lcfgcontext_is_valid_def elim: valid_nameE)
  then show ?thesis
    by (auto simp: lcfgcontext_to_string_def lcfgcontext_has_value_def or_default_empty)
qed

lemma from_string_ok: "lcfgcontext_from_string s prio = Inr ctx \<Longrightarrow> ctx_ok ctx \<and> ctx_priority ctx = prio"
  by (auto simp: lcfgcontext_from_string_def ctx_ok_def lcfgcontext_set_name_def
      lcfgcontext_set_value_def lcfgcontext_set_priority_def lcfgcontext_new_def Let_def
      lcfgcontext_valid_value_def trim_both_trimmed split: if_splits option.splits)

text \<open>
  C29: parsing inverts printing. What \<open>lcfgcontext_to_string\<close> prints for a context with a
  valid name and a trimmed value, with or without a newline, is read back by
  \<open>lcfgcontext_from_string\<close> as the same context; and every context that is read from
  any string at all is of that shape, so it survives being printed and read again.
\<close>
theorem context_string_roundtrip:
  "(ctx_ok ctx \<longrightarrow>
      lcfgcontext_from_string (lcfgcontext_to_string ctx options) (ctx_priority ctx) = Inr ctx) \<and>
   (lcfgcontext_from_string s prio = Inr ctx \<longrightarrow>
      ctx_ok ctx \<and> ctx_priority ctx = prio \<and>
      lcfgcontext_from_string (lcfgcontext_to_string ctx options) prio = Inr ctx)"
proof -
  have *: "lcfgcontext_from_string (lcfgcontext_to_string ctx options) (ctx_priority ctx) = Inr ctx"
    if "ctx_ok ctx"
    unfolding to_string_eq [OF that]
    by (subst from_string_to_string [OF that]) (use that in \<open>auto simp: ctx_ok_def\<close>)
  then show ?thesis using from_string_ok by blast
qed

theorem context_string_roundtrip_witness:
  "lcfgcontext_from_string (Some '' arch = i686 '') 3 =
     Inr \<lparr>ctx_name = Some ''arch'', ctx_value = Some ''i686'', ctx_priority = 3\<rparr> \<and>
   lcfgcontext_from_string (lcfgcontext_to_string
       \<lparr>ctx_name = Some ''arch'', ctx_value = Some ''i686'', ctx_priority = 3\<rparr> LCFG_OPT_NEWLINE) 3 =
     Inr \<lparr>ctx_name = Some ''arch'', ctx_value = Some ''i686'', ctx_priority = 3\<rparr>"
proof -
  let ?c = "\<lparr>ctx_name = Some ''arch'', ctx_value = Some ''i686'', ctx_priority = 3\<rparr>"
  have "lcfgcontext_from_string (Some '' arch = i686 '') 3 = Inr ?c"
    by (simp add: lcfgcontext_from_string_def lcfgcontext_set_name_def lcfgcontext_set_value_def
        lcfgcontext_set_priority_def lcfgcontext_new_def lcfgcontext_valid_value_def
        lcfgcontext_valid_name_def lcfg_chr byte_def skip_space_def trim_end_def)
  then show ?thesis
    using context_string_roundtrip [of ?c LCFG_OPT_NEWLINE "Some '' arch = i686 ''" 3] by blast
qed

section \<open>Context lists as maps\<close>

definition context_key :: "LCFGContext \<Rightarrow> string" where
  "context_key ctx = or_default (ctx_name ctx) []"

text \<open>The size field is right, every context has a name and no two have the same one.\<close>

definition ctxlist_ok :: "LCFGContextList \<Rightarrow> bool" where
  "ctxlist_ok l \<longleftrightarrow> slist_ok l \<and> (\<forall>c\<in>set (nodes l). lcfgcontext_is_valid (Some c)) \<and>
     sorted_wrt (\<lambda>x y. \<not> strcmp (context_key x) (context_key y) = 0) (nodes l)"

interpretation ctx_keys: keyed_list context_key "\<lambda>j k. strcmp j k = 0"
  by unfold_locales (auto simp: str_order.cmp_eq_iff intro: str_order.cmp_eq_trans)

lemma ctxlist_ok_new [simp]: "ctxlist_ok lcfgctxlist_new"
  by (simp add: ctxlist_ok_def lcfgctxlist_new_def slist_ok_def)

lemma find_node_eq:
  "ctxlist_ok l \<Longrightarrow> lcfgctxlist_find_node (Some l) n = first_node (\<lambda>c. strcmp (context_key c) n = 0) (nodes l)"
proof -
  assume ok: "ctxlist_ok l"
  have "first_node (\<lambda>c. lcfgcontext_is_valid (Some c) \<and> lcfgcontext_match c n) xs =
      first_node (\<lambda>c. strcmp (context_key c) n = 0) xs"
    if "\<forall>c\<in>set xs. lcfgcontext_is_valid (Some c)" for xs
    using that by (induction xs) (auto simp: lcfgcontext_match_def context_key_def)
  then show ?thesis using ok by (auto simp: lcfgctxlist_find_node_def ctxlist_ok_def)
qed

lemma find_context_eq:
  "ctxlist_ok l \<Longrightarrow> lcfgctxlist_find_context (Some l) n = find (\<lambda>c. strcmp (context_key c) n = 0) (nodes l)"
  by (auto simp: lcfgctxlist_find_context_def find_node_eq first_node_find [symmetric]
      split: option.splits)

lemma update_cases:
  assumes "ctxlist_ok l" and "lcfgcontext_is_valid (Some c)"
  obtains
    (Added) "first_node (\<lambda>x. strcmp (context_key x) (context_key c) = 0) (nodes l) = None"
      "lcfgctxlist_update l c =
         (LCFG_CHANGE_ADDED, l\<lparr>nodes := nodes l @ [c], list_size := list_size l + 1\<rparr>)"
  | (Same) i where "first_node (\<lambda>x. strcmp (context_key x) (context_key c) = 0) (nodes l) = Some i"
      "lcfgcontext_equals (nodes l ! i) c" "lcfgctxlist_update l c = (LCFG_CHANGE_NONE, l)"
  | (Modified) i where "first_node (\<lambda>x. strcmp (context_key x) (context_key c) = 0) (nodes l) = Some i"
      "\<not> lcfgcontext_equals (nodes l ! i) c"
      "lcfgctxlist_update l c = (LCFG_CHANGE_MODIFIED, l\<lparr>nodes := (nodes l)[i := c]\<rparr>)"
  using assms(2)
  by (cases "first_node (\<lambda>x. strcmp (context_key x) (context_key c) = 0) (nodes l)")
    (auto simp: lcfgctxlist_update_def find_node_eq [OF assms(1)] context_key_def [symmetric]
      lcfgctxlist_append_def lcfgslist_append_simp split: if_splits)

lemma update_result:
  assumes ok: "ctxlist_ok l" and v: "lcfgcontext_is_valid (Some c)"
    and up: "lcfgctxlist_update l c = (change, l')"
  shows "ctxlist_ok l'"
    and "change = LCFG_CHANGE_ADDED \<longleftrightarrow> lcfgctxlist_find_context (Some l) (context_key c) = None"
    and "change = LCFG_CHANGE_NONE \<longleftrightarrow>
      (\<exists>d. lcfgctxlist_find_context (Some l) (context_key c) = Some d \<and> lcfgcontext_equals d c)"
    and "change \<in> {LCFG_CHANGE_ADDED, LCFG_CHANGE_NONE, LCFG_CHANGE_MODIFIED}"
    and "lcfgctxlist_find_context (Some l') n =
      (if change \<noteq> LCFG_CHANGE_NONE \<and> strcmp (context_key c) n = 0 then Some c
       else lcfgctxlist_find_context (Some l) n)"
proof -
  note nodes_find = first_node_find [symmetric, of _ "nodes l"]
  from ok v show ok': "ctxlist_ok l'"
  proof (cases rule: update_cases)
    case Added
    with up ok v show ?thesis
      using ctx_keys.unique_append [of "nodes l" c] by (auto simp: ctxlist_ok_def slist_ok_def)
  next
    case (Modified i)
    then have "i < length (nodes l)" "strcmp (context_key (nodes l ! i)) (context_key c) = 0"
      using first_node_SomeD by fastforce+
    with Modified up ok v show ?thesis
      using ctx_keys.unique_update [of "nodes l" i c] set_update_subset_insert [of "nodes l" i c]
      by (auto simp: ctxlist_ok_def slist_ok_def)
  qed (use up ok in simp)
  from ok v show "change = LCFG_CHANGE_ADDED \<longleftrightarrow>
      lcfgctxlist_find_context (Some l) (context_key c) = None"
    by (cases rule: update_cases) (use up in \<open>auto simp: find_context_eq ok nodes_find\<close>)
  from ok v show "change = LCFG_CHANGE_NONE \<longleftrightarrow>
      (\<exists>d. lcfgctxlist_find_context (Some l) (context_key c) = Some d \<and> lcfgcontext_equals d c)"
    by (cases rule: update_cases) (use up in \<open>auto simp: find_context_eq ok nodes_find\<close>)
  from ok v show "change \<in> {LCFG_CHANGE_ADDED, LCFG_CHANGE_NONE, LCFG_CHANGE_MODIFIED}"
    by (cases rule: update_cases) (use up in auto)
  from ok v show "lcfgctxlist_find_context (Some l') n =
      (if change \<noteq> LCFG_CHANGE_NONE \<and> strcmp (context_key c) n = 0 then Some c
       else lcfgctxlist_find_context (Some l) n)"
  proof (cases rule: update_cases)
    case Added
    with up show ?thesis
      using ctx_keys.lookup_append [of c "nodes l" n] by (auto simp: find_context_eq ok ok')
  next
    case (Modified i)
    then have i: "i < length (nodes l)" "strcmp (context_key (nodes l ! i)) (context_key c) = 0"
      using first_node_SomeD by fastforce+
    have "sorted_wrt (\<lambda>x y. \<not> strcmp (context_key x) (context_key y) = 0) (nodes l)"
      using ok by (simp add: ctxlist_ok_def)
    from ctx_keys.lookup_update [OF this i, of n] Modified up show ?thesis
      unfolding find_context_eq [OF ok] find_context_eq [OF ok'] by auto
  qed (use up in simp)
qed

text \<open>
  C13: a context list is a map from names to contexts. \<open>lcfgctxlist_update\<close> with a named
  context keeps the invariant (right size, all named, no name twice); it reports ADDED
  exactly when the name was not there and NONE exactly when a context equal in name and
  value was; afterwards the name leads to the new context, unless nothing changed, and
  every other name to what it led to before. A nameless context is refused.
\<close>
theorem ctxlist_update_spec:
  assumes "ctxlist_ok l" and "lcfgctxlist_update l c = (change, l')"
  shows "(lcfgcontext_is_valid (Some c) \<longrightarrow> ctxlist_ok l' \<and>
      (change = LCFG_CHANGE_ADDED \<longleftrightarrow> lcfgctxlist_find_context (Some l) (context_key c) = None) \<and>
      (change = LCFG_CHANGE_NONE \<longleftrightarrow>
        (\<exists>d. lcfgctxlist_find_context (Some l) (context_key c) = Some d \<and> lcfgcontext_equals d c)) \<and>
      change \<in> {LCFG_CHANGE_ADDED, LCFG_CHANGE_NONE, LCFG_CHANGE_MODIFIED} \<and>
      lcfgctxlist_find_context (Some l') n =
        (if change \<noteq> LCFG_CHANGE_NONE \<and> strcmp (context_key c) n = 0 then Some c
         else lcfgctxlist_find_context (Some l) n)) \<and>
    (\<not> lcfgcontext_is_valid (Some c) \<longrightarrow> change = LCFG_CHANGE_ERROR \<and> l' = l)"
  using update_result [OF assms(1) _ assms(2)] assms(2)
  by (auto simp: lcfgctxlist_update_def)

theorem ctxlist_update_spec_witness:
  "\<exists>l'. lcfgctxlist_update lcfgctxlist_new \<lparr>ctx_name = Some ''x'', ctx_value = Some ''1'', ctx_priority = 2\<rparr>
      = (LCFG_CHANGE_ADDED, l') \<and>
    lcfgctxlist_find_context (Some l') ''x'' =
      Some \<lparr>ctx_name = Some ''x'', ctx_value = Some ''1'', ctx_priority = 2\<rparr>"
proof -
  let ?c = "\<lparr>ctx_name = Some ''x'', ctx_value = Some ''1'', ctx_priority = 2\<rparr>"
  have up: "lcfgctxlist_update lcfgctxlist_new ?c =
      (LCFG_CHANGE_ADDED, \<lparr>nodes = [?c], list_size = 1\<rparr>)"
    by (simp add: lcfgctxlist_update_def lcfgcontext_is_valid_def lcfgctxlist_find_node_def
        lcfgslist_is_empty_def lcfgctxlist_new_def lcfgctxlist_append_def lcfgslist_append_simp)
  have "lcfgcontext_is_valid (Some ?c)" "strcmp (context_key ?c) ''x'' = 0"
    by (simp_all add: lcfgcontext_is_valid_def context_key_def)
  with ctxlist_update_spec [OF ctxlist_ok_new up, of "''x''"] up show ?thesis by simp
qed

section \<open>Context files\<close>

text \<open>What one line of a context file holds: nothing, a context, or an error.\<close>

definition line_context :: "string \<Rightarrow> int \<Rightarrow> (string + LCFGContext) option" where
  "line_context line num =
     (let s = skip_space line in
      if s = [] \<or> hd s = CHR ''#'' then None else Some (lcfgcontext_from_string (Some s) num))"

fun file_contexts :: "string list \<Rightarrow> int \<Rightarrow> LCFGContext list" where
  "file_contexts [] num = []"
| "file_contexts (line # rest) num =
     (case line_context line num of Some (Inr ctx) \<Rightarrow> [ctx] | _ \<Rightarrow> []) @ file_contexts rest (num + 1)"

fun first_bad_line :: "string list \<Rightarrow> int \<Rightarrow> (int \<times> string) option" where
  "first_bad_line [] num = None"
| "first_bad_line (line # rest) num =
     (case line_context line num of Some (Inl msg) \<Rightarrow> Some (num, msg) | _ \<Rightarrow> first_bad_line rest (num + 1))"

lemma ctx_ok_valid: "ctx_ok c \<Longrightarrow> lcfgcontext_is_valid (Some c)"
  by (auto simp: ctx_ok_def lcfgcontext_is_valid_def elim: valid_nameE)

lemma from_file_loop_Cons:
  "from_file_loop (line # rest) num l =
     (case line_context line num of
        None \<Rightarrow> from_file_loop rest (num + 1) l
      | Some (Inl msg) \<Rightarrow> Inl (num, msg)
      | Some (Inr ctx) \<Rightarrow>
          (case lcfgctxlist_update l ctx of (rc, l') \<Rightarrow>
             if rc = LCFG_CHANGE_ERROR then Inl (num, ''Failed to store context'')
             else from_file_loop rest (num + 1) l'))"
  by (simp add: line_context_def Let_def split: sum.splits)

lemma line_context_ok: "line_context line num = Some (Inr c) \<Longrightarrow> ctx_ok c \<and> ctx_priority c = num"
  by (auto simp: line_context_def Let_def from_string_ok split: if_splits)

lemma equals_sym: "lcfgcontext_equals c d \<longleftrightarrow> lcfgcontext_equals d c"
  by (auto simp: lcfgcontext_equals_def lcfgcontext_same_name_def lcfgcontext_same_value_def
      str_order.cmp_eq_iff)

lemma equals_refl [simp]: "lcfgcontext_equals c c"
  by (simp add: lcfgcontext_equals_def lcfgcontext_same_name_def lcfgcontext_same_value_def)

lemma rel_equals_refl: "rel_option lcfgcontext_equals x x"
  by (cases x) auto

lemma equals_trans: "lcfgcontext_equals c d \<Longrightarrow> lcfgcontext_equals d e \<Longrightarrow> lcfgcontext_equals c e"
  by (auto simp: lcfgcontext_equals_def lcfgcontext_same_name_def lcfgcontext_same_value_def
      intro: str_order.cmp_eq_trans)

lemma rel_equals_trans:
  "rel_option lcfgcontext_equals x y \<Longrightarrow> rel_option lcfgcontext_equals y z \<Longrightarrow>
   rel_option lcfgcontext_equals x z"
  by (cases x; cases y; cases z) (auto intro: equals_trans)

lemma find_context_same:
  "strcmp m n = 0 \<Longrightarrow> ctxlist_ok l \<Longrightarrow>
   lcfgctxlist_find_context (Some l) m = lcfgctxlist_find_context (Some l) n"
  using ctx_keys.same_right [of m n] by (simp add: find_context_eq)

text \<open>After an update the name leads to a context equal to the new one, changed or not.\<close>

lemma update_lookup_equals:
  assumes ok: "ctxlist_ok l" and v: "lcfgcontext_is_valid (Some c)"
    and up: "lcfgctxlist_update l c = (change, l')"
  shows "rel_option lcfgcontext_equals (lcfgctxlist_find_context (Some l') n)
    (if strcmp (context_key c) n = 0 then Some c else lcfgctxlist_find_context (Some l) n)"
proof -
  note r = update_result [OF ok v up]
  show ?thesis
  proof (cases "change = LCFG_CHANGE_NONE \<and> strcmp (context_key c) n = 0")
    case True
    then obtain d where "lcfgctxlist_find_context (Some l) n = Some d" "lcfgcontext_equals d c"
      using r(3) find_context_same [OF _ ok] by auto
    with True r(5) [of n] show ?thesis by simp
  next
    case False
    then show ?thesis using r(5) [of n] rel_equals_refl by auto
  qed
qed

lemma from_file_loop_result:
  assumes "ctxlist_ok l"
  shows "(case from_file_loop ls num l of
      Inl e \<Rightarrow> first_bad_line ls num = Some e
    | Inr l' \<Rightarrow> first_bad_line ls num = None \<and> ctxlist_ok l' \<and>
        (\<forall>n. rel_option lcfgcontext_equals (lcfgctxlist_find_context (Some l') n)
           (case find (\<lambda>c. strcmp (context_key c) n = 0) (rev (file_contexts ls num)) of
              None \<Rightarrow> lcfgctxlist_find_context (Some l) n | Some c \<Rightarrow> Some c)))"
  using assms
proof (induction ls arbitrary: num l)
  case Nil
  then show ?case by (simp add: rel_equals_refl)
next
  case (Cons line rest)
  consider (Nothing) "line_context line num = None"
    | (Bad) msg where "line_context line num = Some (Inl msg)"
    | (Ctx) c where "line_context line num = Some (Inr c)"
    by (metis option.exhaust sumE)
  then show ?case
  proof cases
    case Nothing
    then show ?thesis using Cons.IH [OF Cons.prems, of "num + 1"]
      by (simp add: from_file_loop_Cons del: from_file_loop.simps(2) split: sum.splits)
  next
    case Bad
    then show ?thesis by (simp add: from_file_loop_Cons del: from_file_loop.simps(2))
  next
    case Ctx
    have v: "lcfgcontext_is_valid (Some c)" using line_context_ok [OF Ctx] ctx_ok_valid by blast
    obtain rc l1 where up: "lcfgctxlist_update l c = (rc, l1)" by fastforce
    note r = update_result [OF Cons.prems v up]
    have step: "from_file_loop (line # rest) num l = from_file_loop rest (num + 1) l1"
      using r(4) up Ctx by (auto simp: from_file_loop_Cons simp del: from_file_loop.simps(2))
    have lookup: "rel_option lcfgcontext_equals x
        (case find (\<lambda>c. strcmp (context_key c) n = 0) (rev (file_contexts rest (num + 1)) @ [c]) of
           None \<Rightarrow> lcfgctxlist_find_context (Some l) n | Some c \<Rightarrow> Some c)"
      if "rel_option lcfgcontext_equals x
        (case find (\<lambda>c. strcmp (context_key c) n = 0) (rev (file_contexts rest (num + 1))) of
           None \<Rightarrow> lcfgctxlist_find_context (Some l1) n | Some c \<Rightarrow> Some c)" for x n
      using that update_lookup_equals [OF Cons.prems v up, of n]
      by (simp add: find_append split: option.splits if_splits) (blast intro: rel_equals_trans)+
    show ?thesis
    proof (cases "from_file_loop rest (num + 1) l1")
      case (Inl e)
      then show ?thesis using Cons.IH [OF r(1), of "num + 1"] step by (simp add: Ctx)
    next
      case (Inr l')
      note ih = Cons.IH [OF r(1), of "num + 1", unfolded Inr, simplified]
      from ih have "first_bad_line (line # rest) num = None" "ctxlist_ok l'"
        by (simp_all add: Ctx)
      moreover from ih have "rel_option lcfgcontext_equals (lcfgctxlist_find_context (Some l') n)
        (case find (\<lambda>c. strcmp (context_key c) n = 0) (rev (file_contexts (line # rest) num)) of
           None \<Rightarrow> lcfgctxlist_find_context (Some l) n | Some c \<Rightarrow> Some c)" for n
        using lookup by (simp add: Ctx)
      ultimately show ?thesis unfolding step Inr by simp
    qed
  qed
qed

lemma lookup_new [simp]: "lcfgctxlist_find_context (Some lcfgctxlist_new) n = None"
  by (simp add: lcfgctxlist_find_context_def lcfgctxlist_find_node_def lcfgctxlist_new_def
      lcfgslist_is_empty_def)

text \<open>
  C7: \<open>lcfgctxlist_from_file\<close> on a readable file fails exactly when some line that is
  neither blank nor a comment does not parse, and then reports the first such line with
  the reason; otherwise the list satisfies the invariant, the file's time is passed on,
  and looking up a name gives a context equal in name and value to the one on the
  last line for that name, and nothing when no line has the name.
\<close>
theorem ctxlist_from_file_spec:
  "case lcfgctxlist_from_file (FileLines mtime ls) options of
     Inl e \<Rightarrow> first_bad_line ls 1 = Some e
   | Inr (l, t) \<Rightarrow> first_bad_line ls 1 = None \<and> ctxlist_ok l \<and> t = mtime \<and>
       (\<forall>n. rel_option lcfgcontext_equals (lcfgctxlist_find_context (Some l) n)
              (find (\<lambda>c. strcmp (context_key c) n = 0) (rev (file_contexts ls 1))))"
proof -
  have id: "(case x of None \<Rightarrow> None | Some c \<Rightarrow> Some c) = x" for x :: "LCFGContext option"
    by (cases x) auto
  show ?thesis
    using from_file_loop_result [OF ctxlist_ok_new, of ls 1]
    by (auto simp: lcfgctxlist_from_file_def id lookup_new cong: option.case_cong split: sum.splits)
qed

text \<open>Reading what was printed.\<close>

fun renumber :: "LCFGContext list \<Rightarrow> int \<Rightarrow> LCFGContext list" where
  "renumber [] n = []"
| "renumber (c # cs) n = c\<lparr>ctx_priority := n\<rparr> # renumber cs (n + 1)"

lemma length_renumber [simp]: "length (renumber cs n) = length cs"
  by (induction cs arbitrary: n) auto

lemma renumber_key: "c \<in> set (renumber cs n) \<Longrightarrow> \<exists>d\<in>set cs. context_key c = context_key d"
  by (induction cs arbitrary: n) (auto simp: context_key_def)

lemma print_line:
  assumes "ctx_ok c" and "1 \<le> num"
  shows "line_context (the (lcfgcontext_to_string c LCFG_OPT_NEWLINE)) num =
    Some (Inr (c\<lparr>ctx_priority := num\<rparr>))"
proof -
  obtain n where n: "ctx_name c = Some n" "n \<noteq> []" "\<And>c. c \<in> set n \<Longrightarrow> isword c" "\<not> isspace (hd n)"
    using assms(1) by (auto simp: ctx_ok_def elim: valid_nameE)
  have "isword (hd n)" using n by simp
  then have "hd n \<noteq> CHR ''#''" by (auto simp: lcfg_chr byte_def)
  moreover have "skip_space (n @ x) = n @ x" for x
    using n by (auto intro: skip_space_id)
  ultimately show ?thesis
    using n from_string_to_string [OF assms(1), of "[CHR 0x0A]" num] assms(2)
    by (simp add: to_string_eq [OF assms(1)] line_context_def has_bit_def LCFG_OPT_NEWLINE_def)
qed

lemma print_loop:
  assumes "\<forall>c\<in>set cs. ctx_ok c" and "ctxlist_ok l" and "1 \<le> num"
    and "sorted_wrt (\<lambda>x y. \<not> strcmp (context_key x) (context_key y) = 0) (nodes l @ cs)"
  shows "from_file_loop (map (\<lambda>c. the (lcfgcontext_to_string c LCFG_OPT_NEWLINE)) cs) num l =
    Inr (l\<lparr>nodes := nodes l @ renumber cs num, list_size := list_size l + length cs\<rparr>)"
  using assms
proof (induction cs arbitrary: num l)
  case (Cons c cs)
  let ?c = "c\<lparr>ctx_priority := num\<rparr>"
  let ?l = "l\<lparr>nodes := nodes l @ [?c], list_size := list_size l + 1\<rparr>"
  have key: "context_key ?c = context_key c" by (simp add: context_key_def)
  have v: "lcfgcontext_is_valid (Some ?c)"
    using Cons.prems(1) ctx_ok_valid [of c] by (simp add: lcfgcontext_is_valid_def)
  have none: "first_node (\<lambda>x. strcmp (context_key x) (context_key ?c) = 0) (nodes l) = None"
    using Cons.prems(4) by (auto simp: first_node_None_iff key sorted_wrt_append)
  from Cons.prems(2) v have up: "lcfgctxlist_update l ?c = (LCFG_CHANGE_ADDED, ?l)"
    by (cases rule: update_cases) (use none in auto)
  have ok: "ctxlist_ok ?l" using update_result(1) [OF Cons.prems(2) v up] .
  have "sorted_wrt (\<lambda>x y. \<not> strcmp (context_key x) (context_key y) = 0) (nodes ?l @ cs)"
    using Cons.prems(4) by (auto simp: sorted_wrt_append key)
  from Cons.IH [OF _ ok _ this, of "num + 1"] Cons.prems
  show ?case
    by (simp add: from_file_loop_Cons print_line up del: from_file_loop.simps(2))
qed simp

lemma renumber_nth: "i < length cs \<Longrightarrow> renumber cs n ! i = (cs ! i)\<lparr>ctx_priority := n + int i\<rparr>"
  by (induction cs arbitrary: n i) (auto simp: nth_Cons split: nat.splits)

text \<open>
  C30: reading back a printed context list. For a list of well-formed contexts, no two of
  one name, \<open>lcfgctxlist_from_file\<close> accepts the lines \<open>lcfgctxlist_print\<close> writes and
  yields the contexts that have a value, in the same order with the same names and
  values; the priority of each becomes its line number.
\<close>
theorem ctxlist_print_from_file:
  assumes "ctxlist_ok l" and "\<forall>c\<in>set (nodes l). ctx_ok c"
  shows "\<exists>l'. lcfgctxlist_from_file (FileLines mtime (lcfgctxlist_print l)) options = Inr (l', mtime) \<and>
    ctxlist_ok l' \<and>
    nodes l' = renumber (filter lcfgcontext_has_value (nodes l)) 1"
proof -
  let ?cs = "filter lcfgcontext_has_value (nodes l)"
  let ?l = "\<lparr>nodes = renumber ?cs 1, list_size = length ?cs\<rparr>"
  have "filter (\<lambda>c. lcfgcontext_is_valid (Some c) \<and> lcfgcontext_has_value c) (nodes l) = ?cs"
    using assms(1) by (auto simp: ctxlist_ok_def intro: filter_cong)
  then have print: "lcfgctxlist_print l =
      map (\<lambda>c. the (lcfgcontext_to_string c LCFG_OPT_NEWLINE)) ?cs"
    using assms(1) by (auto simp: lcfgctxlist_print_def ctxlist_ok_def)
  have "sorted_wrt (\<lambda>x y. \<not> strcmp (context_key x) (context_key y) = 0) ?cs"
    using assms(1) by (auto simp: ctxlist_ok_def intro: sorted_wrt_filter)
  with assms(2) have loop: "from_file_loop (lcfgctxlist_print l) 1 lcfgctxlist_new = Inr ?l"
    unfolding print by (subst print_loop) (auto simp: lcfgctxlist_new_def ctxlist_ok_def slist_ok_def)
  then have "ctxlist_ok ?l" using from_file_loop_result [OF ctxlist_ok_new, of "lcfgctxlist_print l" 1]
    by simp
  with loop show ?thesis by (auto simp: lcfgctxlist_from_file_def)
qed

theorem ctxlist_print_from_file_witness:
  "\<exists>l'. lcfgctxlist_from_file (FileLines 7 (lcfgctxlist_print
        \<lparr>nodes = [\<lparr>ctx_name = Some ''x'', ctx_value = Some ''1'', ctx_priority = 5\<rparr>], list_size = 1\<rparr>))
        LCFG_OPT_NONE = Inr (l', 7) \<and>
      nodes l' = [\<lparr>ctx_name = Some ''x'', ctx_value = Some ''1'', ctx_priority = 1\<rparr>]"
proof -
  let ?c = "\<lparr>ctx_name = Some ''x'', ctx_value = Some ''1'', ctx_priority = 5\<rparr>"
  have "ctx_ok ?c"
    by (simp add: ctx_ok_def lcfgcontext_valid_name_def trimmed_def lcfg_chr byte_def)
  then show ?thesis
    using ctxlist_print_from_file [of "\<lparr>nodes = [?c], list_size = 1\<rparr>" 7 LCFG_OPT_NONE]
    by (auto simp: ctxlist_ok_def slist_ok_def lcfgcontext_is_valid_def lcfgcontext_has_value_def)
qed

section \<open>Sorting and querying\<close>

interpretation ctx_priority: comparator ctx_priority_diff
  by unfold_locales (auto simp: ctx_priority_diff_def sgn_if)

text \<open>
  C31: \<open>lcfgctxlist_sort_by_priority\<close> always returns, with the same contexts ordered by
  ascending priority, contexts of equal priority in their old order; the invariant is
  kept and every name leads to the same context as before.
\<close>
theorem ctxlist_sort_spec:
  assumes "ctxlist_ok l"
  shows "\<exists>l'. lcfgctxlist_sort_by_priority l = Some l' \<and> ctxlist_ok l' \<and>
    mset (nodes l') = mset (nodes l) \<and>
    sorted_wrt (\<lambda>a b. ctx_priority a \<le> ctx_priority b) (nodes l') \<and>
    (\<forall>p. filter (\<lambda>c. ctx_priority c = p) (nodes l') = filter (\<lambda>c. ctx_priority c = p) (nodes l)) \<and>
    (\<forall>n. lcfgctxlist_find_context (Some l') n = lcfgctxlist_find_context (Some l) n)"
proof (cases "list_size l < 2")
  case True
  then have "length (nodes l) < 2" using assms by (simp add: ctxlist_ok_def slist_ok_def)
  then have "sorted_wrt (\<lambda>a b. ctx_priority a \<le> ctx_priority b) (nodes l)"
    by (cases "nodes l" rule: remdups_adj.cases) auto
  with True assms show ?thesis by (auto simp: lcfgctxlist_sort_by_priority_def)
next
  case False
  have gt: "(\<lambda>c1 c2. lcfgcontext_get_priority c2 < lcfgcontext_get_priority c1) =
      (\<lambda>c1 c2. 0 < ctx_priority_diff c1 c2)"
    by (simp add: ctx_priority_diff_def)
  obtain ns where ns: "bubble_loop (\<lambda>c1 c2. 0 < ctx_priority_diff c1 c2) (nodes l) = Some ns"
    using ctx_priority.bubble_sort_total by blast
  then have m: "mset ns = mset (nodes l)" by (rule mset_bubble_loop)
  let ?l = "l\<lparr>nodes := ns\<rparr>"
  have ok: "ctxlist_ok ?l"
    using assms ctx_keys.unique_perm [OF m [symmetric]] mset_eq_setD [OF m] mset_eq_length [OF m]
    by (auto simp: ctxlist_ok_def slist_ok_def)
  have "find (\<lambda>c. strcmp (context_key c) n = 0) ns =
      find (\<lambda>c. strcmp (context_key c) n = 0) (nodes l)" for n
    by (rule ctx_keys.lookup_perm [OF m [symmetric]]) (use assms in \<open>simp add: ctxlist_ok_def\<close>)
  then have "lcfgctxlist_find_context (Some ?l) n = lcfgctxlist_find_context (Some l) n" for n
    unfolding find_context_eq [OF ok] find_context_eq [OF assms] by simp
  moreover have "sorted_wrt (\<lambda>a b. ctx_priority a \<le> ctx_priority b) ns"
    using ctx_priority.bubble_sort_sorted [OF ns]
    by (simp add: ctx_priority_diff_def lcfgcontext_get_priority_def)
  moreover have "filter (\<lambda>c. ctx_priority c = p) ns = filter (\<lambda>c. ctx_priority c = p) (nodes l)" for p
  proof -
    let ?k = "\<lparr>ctx_name = None, ctx_value = None, ctx_priority = p\<rparr>"
    have "(\<lambda>c. ctx_priority_diff ?k c = 0) = (\<lambda>c. ctx_priority c = p)"
      by (rule ext) (simp add: ctx_priority_diff_def lcfgcontext_get_priority_def, linarith)
    then show ?thesis using ctx_priority.bubble_sort_stable [OF ns, of ?k] by simp
  qed
  moreover have "lcfgctxlist_sort_by_priority l = Some ?l"
    using False by (simp add: lcfgctxlist_sort_by_priority_def gt ns)
  ultimately show ?thesis
    using m ok by (intro exI [of _ ?l]) (simp add: slist.defs)
qed

theorem ctxlist_sort_spec_witness:
  "\<exists>l'. lcfgctxlist_sort_by_priority
      \<lparr>nodes = [\<lparr>ctx_name = Some ''a'', ctx_value = None, ctx_priority = 5\<rparr>,
                \<lparr>ctx_name = Some ''b'', ctx_value = None, ctx_priority = 3\<rparr>], list_size = 2\<rparr> = Some l' \<and>
    sorted_wrt (\<lambda>a b. ctx_priority a \<le> ctx_priority b) (nodes l')"
proof -
  let ?l = "\<lparr>nodes = [\<lparr>ctx_name = Some ''a'', ctx_value = None, ctx_priority = 5\<rparr>,
                \<lparr>ctx_name = Some ''b'', ctx_value = None, ctx_priority = 3\<rparr>], list_size = 2\<rparr>"
  have "ctxlist_ok ?l"
    by (simp add: ctxlist_ok_def slist_ok_def lcfgcontext_is_valid_def context_key_def
        strcmp_def)
  from ctxlist_sort_spec [OF this] show ?thesis by blast
qed

text \<open>
  What a query sees of a name: a missing context and one without a value both have the
  empty text; a missing one has priority 1.
\<close>

definition context_text :: "LCFGContextList \<Rightarrow> string \<Rightarrow> string" where
  "context_text l n =
     (case lcfgctxlist_find_context (Some l) n of None \<Rightarrow> [] | Some c \<Rightarrow> or_default (ctx_value c) [])"

definition context_true :: "LCFGContextList \<Rightarrow> string \<Rightarrow> bool" where
  "context_true l n = lcfgcontext_is_true (lcfgctxlist_find_context (Some l) n)"

definition context_prio :: "LCFGContextList \<Rightarrow> string \<Rightarrow> int" where
  "context_prio l n =
     (case lcfgctxlist_find_context (Some l) n of None \<Rightarrow> 1 | Some c \<Rightarrow> ctx_priority c)"

text \<open>Priorities are positive (all that are parsed are) and values are C strings.\<close>

definition ctxlist_sane :: "LCFGContextList \<Rightarrow> bool" where
  "ctxlist_sane l \<longleftrightarrow> ctxlist_ok l \<and>
     (\<forall>c\<in>set (nodes l). 1 \<le> ctx_priority c \<and> no_nul (or_default (ctx_value c) []))"

lemma ctxlist_sane_find:
  assumes "ctxlist_sane l" and "lcfgctxlist_find_context (Some l) n = Some c"
  shows "c \<in> set (nodes l) \<and> 1 \<le> ctx_priority c \<and> no_nul (or_default (ctx_value c) [])"
proof -
  have ok: "ctxlist_ok l" using assms(1) by (simp add: ctxlist_sane_def)
  have "c \<in> set (nodes l)"
    using assms(2) find_SomeD [of _ "nodes l" c] unfolding find_context_eq [OF ok] by blast
  with assms(1) show ?thesis by (simp add: ctxlist_sane_def)
qed

lemma context_prio_bounds:
  assumes "ctxlist_sane l"
  shows "1 \<le> context_prio l n" and "context_prio l n \<in> insert 1 (ctx_priority ` set (nodes l))"
  using ctxlist_sane_find [OF assms] by (auto simp: context_prio_def split: option.splits)

lemma simple_query_eq:
  assumes "ctxlist_sane l" and "no_nul (or_default v [])"
  shows "lcfgctxlist_simple_query (Some l) n v test =
    (if (case test of
           LCFG_TEST_ISTRUE \<Rightarrow> context_true l n
         | LCFG_TEST_ISFALSE \<Rightarrow> \<not> context_true l n
         | LCFG_TEST_ISEQ \<Rightarrow> or_default v [] = context_text l n
         | LCFG_TEST_ISNE \<Rightarrow> or_default v [] \<noteq> context_text l n)
     then context_prio l n else - context_prio l n)"
proof -
  let ?ctx = "lcfgctxlist_find_context (Some l) n"
  let ?val = "case ?ctx of None \<Rightarrow> None | Some c \<Rightarrow> ctx_value c"
  have nn: "no_nul (or_default ?val [])"
    using ctxlist_sane_find [OF assms(1)] by (auto split: option.splits)
  have val: "or_default ?val [] = context_text l n" by (auto simp: context_text_def split: option.splits)
  have iff: "(if isempty v \<or> isempty ?val then isempty v \<and> isempty ?val
       else strcmp (or_default v []) (or_default ?val []) = 0) \<longleftrightarrow> or_default v [] = context_text l n"
    unfolding strcmp_eq_0 [OF assms(2) nn] val [symmetric]
    by (auto simp: or_default_def isempty_def split: option.splits)
  show ?thesis
    unfolding lcfgctxlist_simple_query_def Let_def lcfgcontext_get_value_def
      lcfgcontext_get_priority_def iff context_prio_def context_true_def
    by (cases test) (simp_all add: lcfgcontext_is_true_def)
qed

text \<open>
  C32: a query of a context list. When every context has a positive priority (all that are
  parsed do), the value of \<open>lcfgctxlist_simple_query\<close> is never 0; its sign is the truth
  of the query, its magnitude the priority of the context asked for, 1 where there is
  none; \<open>!=\<close> is the negation of \<open>==\<close> and ``is false'' of ``is true''. A context without a
  value and one that is missing count as having the empty value.
\<close>
theorem ctxlist_simple_query_spec:
  assumes "ctxlist_sane l" and "no_nul (or_default v [])"
  shows "\<bar>lcfgctxlist_simple_query (Some l) n v test\<bar> = context_prio l n \<and>
    lcfgctxlist_simple_query (Some l) n v test \<noteq> 0 \<and>
    (0 < lcfgctxlist_simple_query (Some l) n v LCFG_TEST_ISEQ \<longleftrightarrow> or_default v [] = context_text l n) \<and>
    (0 < lcfgctxlist_simple_query (Some l) n v LCFG_TEST_ISTRUE \<longleftrightarrow> context_true l n) \<and>
    lcfgctxlist_simple_query (Some l) n v LCFG_TEST_ISNE =
      - lcfgctxlist_simple_query (Some l) n v LCFG_TEST_ISEQ \<and>
    lcfgctxlist_simple_query (Some l) n v LCFG_TEST_ISFALSE =
      - lcfgctxlist_simple_query (Some l) n v LCFG_TEST_ISTRUE"
  unfolding simple_query_eq [OF assms]
  using context_prio_bounds(1) [OF assms(1), of n] by (cases test) auto

theorem ctxlist_simple_query_spec_witness:
  "lcfgctxlist_simple_query (Some \<lparr>nodes = [\<lparr>ctx_name = Some ''a'', ctx_value = Some ''1'',
      ctx_priority = 5\<rparr>], list_size = 1\<rparr>) ''b'' None LCFG_TEST_ISNE < 0"
proof -
  let ?l = "\<lparr>nodes = [\<lparr>ctx_name = Some ''a'', ctx_value = Some ''1'', ctx_priority = 5\<rparr>],
      list_size = 1\<rparr>"
  have ok: "ctxlist_ok ?l"
    by (simp add: ctxlist_ok_def slist_ok_def lcfgcontext_is_valid_def)
  have "context_text ?l ''b'' = []"
    unfolding context_text_def find_context_eq [OF ok] by (simp add: context_key_def strcmp_def)
  moreover have "ctxlist_sane ?l" using ok by (simp add: ctxlist_sane_def nul_def)
  ultimately show ?thesis
    using ctxlist_simple_query_spec [of ?l None "''b''" LCFG_TEST_ISNE] by simp
qed

end
