(* ===== verification/Lcfg_Context_Expr.thy ===== *)
theory Lcfg_Context_Expr
  imports Lcfg_Context
begin

text \<open>
  The context query language: the lexer of \<open>common/context/lexer.l\<close>, the grammar and the
  semantic actions of \<open>common/context/parser.y\<close>, \<open>lcfgctxlist_eval_expression\<close> of
  \<open>common/context/scanner.c\<close> and the functions of \<open>common/context/context.c\<close> that work
  on expressions.

  Flex and Bison generate the automata, so the model follows their specification: the
  lexer takes the longest match and among equally long ones the first rule; the parser
  is the stack machine of the grammar, building a syntax tree whose evaluation is the
  semantic actions.
\<close>

section \<open>The lexer\<close>

datatype ctx_op = OP_OR | OP_XOR | OP_AND

datatype ctx_token =
    CTX_NAME string | VALUE_STRING string | VALUE_BOOL bool
  | CMP_EQ | CMP_NE | BINOP ctx_op | OP_NOT | PAREN_LEFT | PAREN_RIGHT
  | BAD_CHAR char

text \<open>
  A run of word characters is a Boolean (any case), a context name when it starts with a
  letter, a value otherwise.
\<close>

definition caseless_member :: "string \<Rightarrow> string list \<Rightarrow> bool" where
  "caseless_member w ws \<longleftrightarrow> list_ex (\<lambda>v. map tolower w = map byte v) ws"

definition word_token :: "string \<Rightarrow> ctx_token" where
  "word_token w =
     (if caseless_member w [''yes'', ''true'', ''on''] then VALUE_BOOL True
      else if caseless_member w [''no'', ''false'', ''off''] then VALUE_BOOL False
      else if isalpha (hd w) then CTX_NAME w else VALUE_STRING w)"

text \<open>
  The string states: a doubled quote stands for itself; \<open>None\<close> when the text or the line
  ends inside the string.
\<close>

fun quoted :: "char \<Rightarrow> string \<Rightarrow> (string \<times> string) option" where
  "quoted q [] = None"
| "quoted q (c # s) =
     (if c = q then
        (case s of
           [] \<Rightarrow> Some ([], [])
         | d # s' \<Rightarrow> if d = q then map_option (\<lambda>(v, r). (q # v, r)) (quoted q s') else Some ([], s))
      else if c = CHR 0x0A \<or> c = CHR 0x0D then None
      else map_option (\<lambda>(v, r). (c # v, r)) (quoted q s))"

definition lex_space :: "char \<Rightarrow> bool" where
  "lex_space c \<longleftrightarrow> c \<in> {CHR '' '', CHR 0x09, CHR 0x0A, CHR 0x0D, CHR 0x0C}"

definition invalid_character :: "char \<Rightarrow> string" where
  "invalid_character c = ''Invalid character '' @ [CHR 0x27, c, CHR 0x27]"

definition unterminated :: "char \<Rightarrow> string" where
  "unterminated q = ''unterminated '' @ (if q = CHR 0x22 then ''double'' else ''single'') @
     ''-quoted string''"

lemma quoted_length: "quoted q s = Some (v, r) \<Longrightarrow> length r < length s"
  by (induction q s arbitrary: v rule: quoted.induct) (fastforce split: if_splits list.splits)+

text \<open>The rules for a single character that no longer rule starts with.\<close>

definition operator :: "char \<Rightarrow> ctx_token option" where
  "operator c =
     (if c = CHR ''='' then Some CMP_EQ
      else if c = CHR ''|'' then Some (BINOP OP_OR)
      else if c = CHR ''^'' then Some (BINOP OP_XOR)
      else if c = CHR ''&'' then Some (BINOP OP_AND)
      else if c = CHR ''('' then Some PAREN_LEFT
      else if c = CHR '')'' then Some PAREN_RIGHT
      else None)"

text \<open>
  The tokens up to \<open>END\<close>, and the message recorded with \<open>END\<close> when the lexer made it up.
  A character the grammar does not know is returned as its own code; from 0x80 on that
  code is negative, which a Bison parser takes for the end of the input.
\<close>

definition add_token :: "ctx_token \<Rightarrow> ctx_token list \<times> string option \<Rightarrow> ctx_token list \<times> string option"
where
  "add_token t r = (t # fst r, snd r)"

function (sequential) lex :: "string \<Rightarrow> ctx_token list \<times> string option" where
  "lex [] = ([], None)"
| "lex (c # s) =
     (if isword c then add_token (word_token (c # takeWhile isword s)) (lex (dropWhile isword s))
      else if c = CHR ''!'' then
        (if s \<noteq> [] \<and> hd s = CHR ''='' then add_token CMP_NE (lex (tl s))
         else add_token OP_NOT (lex s))
      else if c = CHR 0x22 \<or> c = CHR 0x27 then
        (case quoted c s of
           None \<Rightarrow> ([], Some (unterminated c))
         | Some (v, r) \<Rightarrow> add_token (VALUE_STRING v) (lex r))
      else if lex_space c then lex s
      else case operator c of
          Some t \<Rightarrow> add_token t (lex s)
        | None \<Rightarrow>
            if sbyte c < 0 then ([], Some (invalid_character c))
            else add_token (BAD_CHAR c) (lex s))"
  by pat_completeness auto
termination
  by (relation "measure length")
    (simp_all add: less_Suc_eq_le length_dropWhile_le, metis quoted_length less_imp_le)

section \<open>The grammar\<close>

text \<open>
  A syntax tree has one constructor for each production of \<open>term\<close> and of \<open>expression\<close>
  (the productions \<open>name = value\<close> and \<open>name = name\<close> share one, with the token compared to).
\<close>

datatype ctx_expr =
    Paren ctx_expr
  | NotParen ctx_expr
  | IsTrue string
  | IsFalse string
  | Compare string bool ctx_token
  | Binary ctx_op ctx_expr ctx_expr

definition cmp_token :: "bool \<Rightarrow> ctx_token" where
  "cmp_token eq = (if eq then CMP_EQ else CMP_NE)"

fun is_value :: "ctx_token \<Rightarrow> bool" where
  "is_value (CTX_NAME s) = True"
| "is_value (VALUE_STRING s) = True"
| "is_value (VALUE_BOOL b) = True"
| "is_value _ = False"

text \<open>The productions of \<open>expression\<close> and \<open>term\<close>.\<close>

inductive expression :: "ctx_expr \<Rightarrow> ctx_token list \<Rightarrow> bool"
  and ctx_term :: "ctx_expr \<Rightarrow> ctx_token list \<Rightarrow> bool" where
  expr_binary: "expression e ts \<Longrightarrow> ctx_term t us \<Longrightarrow> expression (Binary p e t) (ts @ BINOP p # us)"
| expr_term: "ctx_term t ts \<Longrightarrow> expression t ts"
| term_paren: "expression e ts \<Longrightarrow> ctx_term (Paren e) (PAREN_LEFT # ts @ [PAREN_RIGHT])"
| term_not_paren:
    "expression e ts \<Longrightarrow> ctx_term (NotParen e) (OP_NOT # PAREN_LEFT # ts @ [PAREN_RIGHT])"
| term_name: "ctx_term (IsTrue n) [CTX_NAME n]"
| term_not_name: "ctx_term (IsFalse n) [OP_NOT, CTX_NAME n]"
| term_compare: "is_value v \<Longrightarrow> ctx_term (Compare n eq v) [CTX_NAME n, cmp_token eq, v]"

inductive_cases expression_BinaryE: "expression (Binary p e t) ts"
inductive_cases ctx_term_BinaryE: "ctx_term (Binary p e t) ts"

section \<open>The parser\<close>

text \<open>
  The parser's stack holds, for every open bracket, whether it was negated and what was
  waiting for its term: the left operand and the operator.
\<close>

type_synonym pending = "(ctx_expr \<times> ctx_op) option"

definition attach :: "pending \<Rightarrow> ctx_expr \<Rightarrow> ctx_expr" where
  "attach left t = (case left of None \<Rightarrow> t | Some (e, p) \<Rightarrow> Binary p e t)"

text \<open>
  \<open>parse_term\<close> expects a term, \<open>parse_rest\<close> has read an expression. On an error the
  tokens from the unexpected one on are returned (none when it is \<open>END\<close>).
\<close>

fun parse_term :: "(bool \<times> pending) list \<Rightarrow> pending \<Rightarrow> ctx_token list \<Rightarrow> ctx_token list + ctx_expr"
  and parse_rest :: "(bool \<times> pending) list \<Rightarrow> ctx_expr \<Rightarrow> ctx_token list \<Rightarrow> ctx_token list + ctx_expr"
where
  "parse_term stack left (PAREN_LEFT # ts) = parse_term ((False, left) # stack) None ts"
| "parse_term stack left (OP_NOT # PAREN_LEFT # ts) = parse_term ((True, left) # stack) None ts"
| "parse_term stack left (OP_NOT # CTX_NAME n # ts) = parse_rest stack (attach left (IsFalse n)) ts"
| "parse_term stack left (OP_NOT # ts) = Inl ts"
| "parse_term stack left (CTX_NAME n # CMP_EQ # v # ts) =
     (if is_value v then parse_rest stack (attach left (Compare n True v)) ts else Inl (v # ts))"
| "parse_term stack left (CTX_NAME n # CMP_NE # v # ts) =
     (if is_value v then parse_rest stack (attach left (Compare n False v)) ts else Inl (v # ts))"
| "parse_term stack left [CTX_NAME n, CMP_EQ] = Inl []"
| "parse_term stack left [CTX_NAME n, CMP_NE] = Inl []"
| "parse_term stack left (CTX_NAME n # ts) = parse_rest stack (attach left (IsTrue n)) ts"
| "parse_term stack left ts = Inl ts"
| "parse_rest [] e [] = Inr e"
| "parse_rest stack e (BINOP p # ts) = parse_term stack (Some (e, p)) ts"
| "parse_rest ((neg, left) # stack) e (PAREN_RIGHT # ts) =
     parse_rest stack (attach left (if neg then NotParen e else Paren e)) ts"
| "parse_rest stack e ts = Inl ts"

text \<open>The start symbol: an empty query is allowed.\<close>

definition parse_query :: "ctx_token list \<Rightarrow> ctx_token list + ctx_expr option" where
  "parse_query ts =
     (if ts = [] then Inr None
      else case parse_term [] None ts of Inl rest \<Rightarrow> Inl rest | Inr e \<Rightarrow> Inr (Some e))"

section \<open>Evaluation\<close>

definition greater :: "int \<Rightarrow> int \<Rightarrow> int" where
  "greater a b = (if b < a then a else b)"

definition lesser :: "int \<Rightarrow> int \<Rightarrow> int" where
  "lesser a b = (if a < b then a else b)"

fun eval_op :: "ctx_op \<Rightarrow> int \<Rightarrow> int \<Rightarrow> int" where
  "eval_op OP_OR a b = (if a < 0 \<and> b < 0 then lesser a b else greater a b)"
| "eval_op OP_XOR a b =
     (if a < 0 \<and> b < 0 then lesser a b
      else if 0 < a \<and> 0 < b then greater a b * - 1
      else greater a b)"
| "eval_op OP_AND a b = (if 0 < a \<and> 0 < b then greater a b else lesser a b)"

fun eval_compare :: "LCFGContextList option \<Rightarrow> string \<Rightarrow> bool \<Rightarrow> ctx_token \<Rightarrow> int" where
  "eval_compare l n eq (CTX_NAME v) =
     lcfgctxlist_simple_query l n (Some v) (if eq then LCFG_TEST_ISEQ else LCFG_TEST_ISNE)"
| "eval_compare l n eq (VALUE_STRING v) =
     lcfgctxlist_simple_query l n (Some v) (if eq then LCFG_TEST_ISEQ else LCFG_TEST_ISNE)"
| "eval_compare l n eq (VALUE_BOOL b) =
     lcfgctxlist_simple_query l n None (if b then LCFG_TEST_ISTRUE else LCFG_TEST_ISFALSE) *
       (if eq then 1 else - 1)"
| "eval_compare l n eq _ = 0"

fun eval_tree :: "LCFGContextList option \<Rightarrow> ctx_expr \<Rightarrow> int" where
  "eval_tree l (Paren e) = eval_tree l e"
| "eval_tree l (NotParen e) = - 1 * eval_tree l e"
| "eval_tree l (IsTrue n) = lcfgctxlist_simple_query l n None LCFG_TEST_ISTRUE"
| "eval_tree l (IsFalse n) = lcfgctxlist_simple_query l n None LCFG_TEST_ISFALSE"
| "eval_tree l (Compare n eq v) = eval_compare l n eq v"
| "eval_tree l (Binary p e t) = eval_op p (eval_tree l e) (eval_tree l t)"

definition parse_error :: "ctx_token list \<Rightarrow> string option \<Rightarrow> string" where
  "parse_error rest end_msg =
     (case rest of
        [] \<Rightarrow> (case end_msg of None \<Rightarrow> ''syntax error'' | Some m \<Rightarrow> m)
      | BAD_CHAR c # _ \<Rightarrow> invalid_character c
      | _ \<Rightarrow> ''syntax error'')"

definition lcfgctxlist_eval_expression :: "LCFGContextList option \<Rightarrow> string \<Rightarrow> string + int" where
  "lcfgctxlist_eval_expression ctxlist expr =
     (case parse_query (fst (lex expr)) of
        Inl rest \<Rightarrow> Inl (parse_error rest (snd (lex expr)))
      | Inr None \<Rightarrow> Inr 0
      | Inr (Some e) \<Rightarrow> Inr (eval_tree ctxlist e))"

definition lcfgcontext_valid_expression :: "cstr \<Rightarrow> bool" where
  "lcfgcontext_valid_expression expr \<longleftrightarrow>
     (case expr of
        None \<Rightarrow> False
      | Some e \<Rightarrow> e = [] \<or> (case lcfgctxlist_eval_expression None e of Inl _ \<Rightarrow> False | Inr _ \<Rightarrow> True))"

section \<open>Combining expressions\<close>

definition lcfgcontext_bracketify_expression :: "cstr \<Rightarrow> cstr" where
  "lcfgcontext_bracketify_expression expr =
     (case expr of
        None \<Rightarrow> None
      | Some e \<Rightarrow> if e = [] \<or> hd e = CHR ''('' then Some e else Some (''('' @ e @ '')''))"

text \<open>
  The order of the two operands depends on the very value of \<open>strcmp\<close>, of which C fixes
  the sign only, so the function is a parameter.
\<close>

definition lcfgcontext_combine_expressions ::
    "(string \<Rightarrow> string \<Rightarrow> int) \<Rightarrow> cstr \<Rightarrow> cstr \<Rightarrow> cstr" where
  "lcfgcontext_combine_expressions libc_strcmp expr1 expr2 =
     (if isempty expr1 then (if isempty expr2 then Some [] else expr2)
      else if isempty expr2 then expr1
      else if libc_strcmp (or_default expr1 []) (or_default expr2 []) = 0 then expr1
      else let ctx1_safe = or_default (lcfgcontext_bracketify_expression expr1) [];
               ctx2_safe = or_default (lcfgcontext_bracketify_expression expr2) [];
               cmp = libc_strcmp ctx1_safe ctx2_safe
           in if cmp = 0 then Some ctx1_safe
              else if cmp = - 1 then Some (lcfgutils_string_join (Some '' & '') (Some ctx1_safe) (Some ctx2_safe))
              else Some (lcfgutils_string_join (Some '' & '') (Some ctx2_safe) (Some ctx1_safe)))"

definition lcfgcontext_compare_expressions :: "cstr \<Rightarrow> cstr \<Rightarrow> int" where
  "lcfgcontext_compare_expressions ctx1 ctx2 =
     strcmp (case ctx1 of None \<Rightarrow> [] | Some s \<Rightarrow> s) (case ctx2 of None \<Rightarrow> [] | Some s \<Rightarrow> s)"

section \<open>The parser accepts the grammar\<close>

definition starts_cmp :: "ctx_token list \<Rightarrow> bool" where
  "starts_cmp ts \<longleftrightarrow> ts \<noteq> [] \<and> hd ts \<in> {CMP_EQ, CMP_NE}"

lemma parse_name: "\<not> starts_cmp ts \<Longrightarrow>
    parse_term stack left (CTX_NAME n # ts) = parse_rest stack (attach left (IsTrue n)) ts"
  by (cases ts; cases "hd ts") (auto simp: starts_cmp_def)

lemma starts_cmp_simps [simp]:
  "\<not> starts_cmp []" "\<not> starts_cmp (BINOP p # ts)" "\<not> starts_cmp (PAREN_RIGHT # ts)"
  by (auto simp: starts_cmp_def)

lemma parser_complete:
  "expression e ts \<Longrightarrow> \<not> starts_cmp rest \<Longrightarrow>
     parse_term stack None (ts @ rest) = parse_rest stack e rest"
  "ctx_term t us \<Longrightarrow> \<not> starts_cmp rest \<Longrightarrow>
     parse_term stack left (us @ rest) = parse_rest stack (attach left t) rest"
proof (induction arbitrary: stack rest and stack left rest rule: expression_ctx_term.inducts)
  case (term_compare v n eq)
  then show ?case by (cases eq) (auto simp: cmp_token_def)
qed (auto simp: parse_name attach_def)

text \<open>The tokens of a tree, and the trees the grammar generates.\<close>

fun tree_tokens :: "ctx_expr \<Rightarrow> ctx_token list" where
  "tree_tokens (Paren e) = PAREN_LEFT # tree_tokens e @ [PAREN_RIGHT]"
| "tree_tokens (NotParen e) = OP_NOT # PAREN_LEFT # tree_tokens e @ [PAREN_RIGHT]"
| "tree_tokens (IsTrue n) = [CTX_NAME n]"
| "tree_tokens (IsFalse n) = [OP_NOT, CTX_NAME n]"
| "tree_tokens (Compare n eq v) = [CTX_NAME n, cmp_token eq, v]"
| "tree_tokens (Binary p e t) = tree_tokens e @ BINOP p # tree_tokens t"

fun is_binary :: "ctx_expr \<Rightarrow> bool" where
  "is_binary (Binary p e t) = True"
| "is_binary _ = False"

fun tree_ok :: "ctx_expr \<Rightarrow> bool" where
  "tree_ok (Paren e) = tree_ok e"
| "tree_ok (NotParen e) = tree_ok e"
| "tree_ok (IsTrue n) = True"
| "tree_ok (IsFalse n) = True"
| "tree_ok (Compare n eq v) = is_value v"
| "tree_ok (Binary p e t) = (tree_ok e \<and> tree_ok t \<and> \<not> is_binary t)"

lemma derived_tree:
  "expression e ts \<Longrightarrow> tree_ok e \<and> ts = tree_tokens e"
  "ctx_term t us \<Longrightarrow> tree_ok t \<and> \<not> is_binary t \<and> us = tree_tokens t"
  by (induction rule: expression_ctx_term.inducts) auto

lemma tree_derived:
  "tree_ok e \<Longrightarrow> expression e (tree_tokens e) \<and> (\<not> is_binary e \<longrightarrow> ctx_term e (tree_tokens e))"
proof (induction e)
  case (Binary p e t)
  then show ?case by (auto intro: expr_binary)
qed (auto intro: expr_term term_paren term_not_paren term_name term_not_name term_compare)

lemma expression_iff: "expression e ts \<longleftrightarrow> tree_ok e \<and> ts = tree_tokens e"
  using derived_tree(1) tree_derived by blast

lemma ctx_term_iff: "ctx_term t ts \<longleftrightarrow> tree_ok t \<and> \<not> is_binary t \<and> ts = tree_tokens t"
  using derived_tree(2) tree_derived by blast

text \<open>What the stack and the pending operand have consumed.\<close>

fun left_tokens :: "pending \<Rightarrow> ctx_token list" where
  "left_tokens None = []"
| "left_tokens (Some (e, p)) = tree_tokens e @ [BINOP p]"

fun left_ok :: "pending \<Rightarrow> bool" where
  "left_ok None = True"
| "left_ok (Some (e, p)) = tree_ok e"

fun stack_tokens :: "(bool \<times> pending) list \<Rightarrow> ctx_token list" where
  "stack_tokens [] = []"
| "stack_tokens ((neg, left) # stack) =
     stack_tokens stack @ left_tokens left @ (if neg then [OP_NOT] else []) @ [PAREN_LEFT]"

lemma attach_tree:
  "left_ok left \<Longrightarrow> tree_ok t \<Longrightarrow> \<not> is_binary t \<Longrightarrow>
   tree_ok (attach left t) \<and> tree_tokens (attach left t) = left_tokens left @ tree_tokens t"
  by (cases left) (auto simp: attach_def)

lemma parser_sound:
  "parse_term stack left ts = Inr e \<Longrightarrow> list_all (left_ok \<circ> snd) stack \<Longrightarrow> left_ok left \<Longrightarrow>
     tree_ok e \<and> tree_tokens e = stack_tokens stack @ left_tokens left @ ts"
  "parse_rest stack e0 ts = Inr e \<Longrightarrow> list_all (left_ok \<circ> snd) stack \<Longrightarrow> tree_ok e0 \<Longrightarrow>
     tree_ok e \<and> tree_tokens e = stack_tokens stack @ tree_tokens e0 @ ts"
  by (induction stack left ts and stack e0 ts rule: parse_term_parse_rest.induct)
    (auto simp: attach_tree cmp_token_def split: if_splits)

lemma tree_tokens_nonempty [simp]: "tree_tokens e \<noteq> []" "[] \<noteq> tree_tokens e"
  by (cases e; simp)+

lemma parse_query_iff:
  "parse_query ts = Inr r \<longleftrightarrow> (case r of None \<Rightarrow> ts = [] | Some e \<Rightarrow> expression e ts)"
proof (cases "ts = []")
  case True
  then show ?thesis
    by (auto simp: parse_query_def expression_iff split: option.splits)
next
  case False
  have parse: "expression e ts \<longleftrightarrow> parse_term [] None ts = Inr e" for e
    using parser_complete(1) [of e ts "[]" "[]"] parser_sound(1) [of "[]" None ts e]
    by (auto simp: expression_iff)
  show ?thesis unfolding parse_query_def parse using False
    by (cases "parse_term [] None ts"; cases r) auto
qed

text \<open>
  C2: the expressions \<open>lcfgctxlist_eval_expression\<close> accepts are those whose tokens the
  grammar of \<open>parser.y\<close> derives, and the empty ones, which have the value 0; the
  derivation is unique, and the value is that of its syntax tree. Whether an expression
  is accepted does not depend on the context list, so \<open>lcfgcontext_valid_expression\<close>,
  which evaluates with no list at all, accepts just the same ones.
\<close>
theorem eval_expression_accepts:
  "(lcfgctxlist_eval_expression l s = Inr v \<longleftrightarrow>
     (fst (lex s) = [] \<and> v = 0) \<or> (\<exists>e. expression e (fst (lex s)) \<and> v = eval_tree l e)) \<and>
   (expression e ts \<longrightarrow> expression e' ts \<longrightarrow> e = e') \<and>
   (lcfgcontext_valid_expression (Some s) \<longleftrightarrow>
     (\<exists>v. lcfgctxlist_eval_expression l s = Inr v))"
proof -
  have accept: "lcfgctxlist_eval_expression l s = Inr v \<longleftrightarrow>
     (fst (lex s) = [] \<and> v = 0) \<or> (\<exists>e. expression e (fst (lex s)) \<and> v = eval_tree l e)" for l v
  proof (cases "parse_query (fst (lex s))")
    case (Inl rest)
    then show ?thesis
      using parse_query_iff [of "fst (lex s)" None] parse_query_iff [of "fst (lex s)" "Some _"]
      by (simp add: lcfgctxlist_eval_expression_def)
  next
    case (Inr r)
    have "expression e (fst (lex s)) \<longleftrightarrow> r = Some e" for e
      using parse_query_iff [of "fst (lex s)" "Some e"] Inr by simp
    moreover have "fst (lex s) = [] \<longleftrightarrow> r = None"
      using parse_query_iff [of "fst (lex s)" None] Inr by simp
    ultimately show ?thesis using Inr
      by (cases r) (auto simp: lcfgctxlist_eval_expression_def)
  qed
  have unique: "expression e ts \<Longrightarrow> expression e' ts \<Longrightarrow> e = e'" for e e' ts
    using parse_query_iff [of ts "Some e"] parse_query_iff [of ts "Some e'"] by simp
  have "(\<exists>v. lcfgctxlist_eval_expression l' s = Inr v) \<longleftrightarrow>
      fst (lex s) = [] \<or> (\<exists>e. expression e (fst (lex s)))" for l'
    unfolding accept by blast
  then have "(\<exists>v. lcfgctxlist_eval_expression l s = Inr v) \<longleftrightarrow>
      (\<exists>v. lcfgctxlist_eval_expression None s = Inr v)" by simp
  moreover have "\<exists>v. lcfgctxlist_eval_expression None [] = Inr v"
    by (simp add: lcfgctxlist_eval_expression_def parse_query_def)
  ultimately have "lcfgcontext_valid_expression (Some s) \<longleftrightarrow>
     (\<exists>v. lcfgctxlist_eval_expression l s = Inr v)"
    by (auto simp: lcfgcontext_valid_expression_def split: sum.splits)
  with accept unique show ?thesis by blast
qed

theorem eval_expression_accepts_witness:
  "expression (Binary OP_AND (IsTrue ''a'') (IsFalse ''b'')) (fst (lex ''a & !b'')) \<and>
   lcfgcontext_valid_expression (Some ''a & !b'')"
proof -
  have "fst (lex ''a & !b'') = [CTX_NAME ''a'', BINOP OP_AND, OP_NOT, CTX_NAME ''b'']"
    by (simp add: add_token_def word_token_def caseless_member_def lcfg_chr byte_def tolower_def
        lex_space_def operator_def)
  then have "expression (Binary OP_AND (IsTrue ''a'') (IsFalse ''b'')) (fst (lex ''a & !b''))"
    by (simp add: expression_iff)
  then show ?thesis
    using eval_expression_accepts [of None "''a & !b''" "eval_tree None (Binary OP_AND (IsTrue ''a'') (IsFalse ''b''))"
        "Binary OP_AND (IsTrue ''a'') (IsFalse ''b'')" "fst (lex ''a & !b'')"
        "Binary OP_AND (IsTrue ''a'') (IsFalse ''b'')"]
    by blast
qed

section \<open>The sign is the truth value\<close>

text \<open>The Boolean reading of an expression over a context list.\<close>

fun holds :: "LCFGContextList \<Rightarrow> ctx_expr \<Rightarrow> bool" where
  "holds l (Paren e) = holds l e"
| "holds l (NotParen e) = (\<not> holds l e)"
| "holds l (IsTrue n) = context_true l n"
| "holds l (IsFalse n) = (\<not> context_true l n)"
| "holds l (Compare n eq v) =
     ((case v of CTX_NAME s \<Rightarrow> context_text l n = s
       | VALUE_STRING s \<Rightarrow> context_text l n = s
       | VALUE_BOOL b \<Rightarrow> context_true l n = b
       | _ \<Rightarrow> False) = eq)"
| "holds l (Binary p e t) =
     (case p of OP_OR \<Rightarrow> holds l e \<or> holds l t
      | OP_XOR \<Rightarrow> holds l e \<noteq> holds l t
      | OP_AND \<Rightarrow> holds l e \<and> holds l t)"

fun token_no_nul :: "ctx_token \<Rightarrow> bool" where
  "token_no_nul (CTX_NAME s) = no_nul s"
| "token_no_nul (VALUE_STRING s) = no_nul s"
| "token_no_nul _ = True"

definition query_value :: "LCFGContextList \<Rightarrow> bool \<Rightarrow> int \<Rightarrow> bool" where
  "query_value l truth v \<longleftrightarrow>
     v \<noteq> 0 \<and> (0 < v \<longleftrightarrow> truth) \<and> \<bar>v\<bar> \<in> insert 1 (ctx_priority ` set (nodes l))"

lemma query_value_op:
  assumes "query_value l a x" and "query_value l b y"
  shows "query_value l (case p of OP_OR \<Rightarrow> a \<or> b | OP_XOR \<Rightarrow> a \<noteq> b | OP_AND \<Rightarrow> a \<and> b) (eval_op p x y)"
  using assms by (cases p) (auto simp: query_value_def greater_def lesser_def)

lemma query_value_neg: "query_value l a x \<Longrightarrow> query_value l (\<not> a) (- x)"
  by (auto simp: query_value_def)

lemma simple_query_value:
  assumes "ctxlist_sane l" and "no_nul (or_default v [])"
  shows "query_value l
    (case test of LCFG_TEST_ISTRUE \<Rightarrow> context_true l n
       | LCFG_TEST_ISFALSE \<Rightarrow> \<not> context_true l n
       | LCFG_TEST_ISEQ \<Rightarrow> or_default v [] = context_text l n
       | LCFG_TEST_ISNE \<Rightarrow> or_default v [] \<noteq> context_text l n)
    (lcfgctxlist_simple_query (Some l) n v test)"
  unfolding simple_query_eq [OF assms] query_value_def
  using context_prio_bounds [OF assms(1), of n] by auto

lemma eval_compare_value:
  assumes "ctxlist_sane l" and "is_value v" and "token_no_nul v"
  shows "query_value l (holds l (Compare n eq v)) (eval_compare (Some l) n eq v)"
proof (cases v)
  case (VALUE_BOOL b)
  have "query_value l (context_true l n = b)
      (lcfgctxlist_simple_query (Some l) n None (if b then LCFG_TEST_ISTRUE else LCFG_TEST_ISFALSE))"
    using simple_query_value [OF assms(1), of None n LCFG_TEST_ISTRUE]
      simple_query_value [OF assms(1), of None n LCFG_TEST_ISFALSE] by (cases b) auto
  from this query_value_neg [OF this] show ?thesis
    using VALUE_BOOL by (cases eq; cases b) (auto cong: if_cong)
next
  case (CTX_NAME s)
  then have "no_nul (or_default (Some s) [])" "or_default (Some s) [] = s"
    using assms(3) by (auto simp: or_default_def)
  with CTX_NAME show ?thesis
    using simple_query_value [OF assms(1), of "Some s" n LCFG_TEST_ISEQ]
      simple_query_value [OF assms(1), of "Some s" n LCFG_TEST_ISNE]
    by (cases eq) (auto simp: eq_commute)
next
  case (VALUE_STRING s)
  then have "no_nul (or_default (Some s) [])" "or_default (Some s) [] = s"
    using assms(3) by (auto simp: or_default_def)
  with VALUE_STRING show ?thesis
    using simple_query_value [OF assms(1), of "Some s" n LCFG_TEST_ISEQ]
      simple_query_value [OF assms(1), of "Some s" n LCFG_TEST_ISNE]
    by (cases eq) (auto simp: eq_commute)
qed (use assms(2) in auto)

lemma eval_tree_value:
  assumes "ctxlist_sane l"
  shows "tree_ok e \<Longrightarrow> list_all token_no_nul (tree_tokens e) \<Longrightarrow>
    query_value l (holds l e) (eval_tree (Some l) e)"
proof (induction e)
  case (IsTrue n)
  show ?case using simple_query_value [OF assms, of None n LCFG_TEST_ISTRUE] by simp
next
  case (IsFalse n)
  show ?case using simple_query_value [OF assms, of None n LCFG_TEST_ISFALSE] by simp
next
  case (Compare n eq v)
  then show ?case using eval_compare_value [OF assms, of v n eq] by simp
next
  case (Binary p e t)
  then show ?case using query_value_op [of l "holds l e" _ "holds l t" _ p] by simp
qed (auto dest: query_value_neg)

lemma quoted_set: "quoted q s = Some (v, r) \<Longrightarrow> set v \<union> set r \<subseteq> set s"
  by (induction q s arbitrary: v rule: quoted.induct) (fastforce split: if_splits list.splits)+

lemma fst_add_token [simp]: "fst (add_token t r) = t # fst r" "snd (add_token t r) = snd r"
  by (simp_all add: add_token_def)

lemma word_token_no_nul: "no_nul w \<Longrightarrow> token_no_nul (word_token w)"
  by (simp add: word_token_def)

lemma operator_no_nul: "operator c = Some t \<Longrightarrow> token_no_nul t"
  by (auto simp: operator_def split: if_splits)

lemma lex_no_nul: "no_nul s \<Longrightarrow> list_all token_no_nul (fst (lex s))"
proof (induction s rule: length_induct)
  case (1 s)
  show ?case
  proof (cases s)
    case (Cons c u)
    have u: "no_nul u" and c: "c \<noteq> nul" using "1.prems" Cons by auto
    have IH: "list_all token_no_nul (fst (lex t))" if "length t \<le> length u" "no_nul t" for t
      using "1.IH" that Cons by simp
    have w: "no_nul (takeWhile isword u)" "no_nul (dropWhile isword u)"
      using u by (auto simp: no_nul_def dest: set_takeWhileD set_dropWhileD)
    have tl: "no_nul (tl u)" using u by (cases u) auto
    have q: "no_nul v" "list_all token_no_nul (fst (lex r))" if "quoted c u = Some (v, r)" for v r
      using quoted_set [OF that] quoted_length [OF that] u IH [of r] by (auto simp: no_nul_def)
    have "list_all token_no_nul (fst (lex u))" "list_all token_no_nul (fst (lex (tl u)))"
      "list_all token_no_nul (fst (lex (dropWhile isword u)))"
      using IH u tl w length_dropWhile_le by auto
    with q show ?thesis unfolding Cons lex.simps(2)
      by (simp add: word_token_no_nul operator_no_nul w c del: lex.simps(2) split: option.split)
  qed simp
qed

text \<open>
  C1: the sign of an evaluated expression is its truth. For a context list that satisfies
  the invariant and has positive priorities, \<open>lcfgctxlist_eval_expression\<close> on an accepted
  expression that is not blank gives a number that is not 0, is positive exactly when the
  expression holds in the Boolean reading of its syntax tree, and is in magnitude 1 or
  the priority of a context of the list.
\<close>
theorem eval_expression_truth:
  assumes "ctxlist_sane l" and "no_nul s" and "expression e (fst (lex s))"
    and "lcfgctxlist_eval_expression (Some l) s = Inr v"
  shows "v \<noteq> 0 \<and> (0 < v \<longleftrightarrow> holds l e) \<and> \<bar>v\<bar> \<in> insert 1 (ctx_priority ` set (nodes l))"
proof -
  have "parse_query (fst (lex s)) = Inr (Some e)" using assms(3) by (simp add: parse_query_iff)
  then have v: "v = eval_tree (Some l) e" using assms(4) by (simp add: lcfgctxlist_eval_expression_def)
  have e: "tree_ok e" "fst (lex s) = tree_tokens e" using assms(3) by (simp_all add: expression_iff)
  have "query_value l (holds l e) v"
    unfolding v using eval_tree_value [OF assms(1) e(1)] lex_no_nul [OF assms(2)] e(2) by simp
  then show ?thesis by (simp add: query_value_def)
qed

lemmas lex_eval = operator_def add_token_def word_token_def caseless_member_def lcfg_chr byte_def tolower_def
  lex_space_def

theorem eval_expression_truth_witness:
  "lcfgctxlist_eval_expression (Some \<lparr>nodes = [\<lparr>ctx_name = Some ''a'', ctx_value = Some ''1'',
      ctx_priority = 5\<rparr>], list_size = 1\<rparr>) ''a=1|b'' = Inr 5 \<and>
   holds \<lparr>nodes = [\<lparr>ctx_name = Some ''a'', ctx_value = Some ''1'', ctx_priority = 5\<rparr>], list_size = 1\<rparr>
     (Binary OP_OR (Compare ''a'' True (VALUE_STRING ''1'')) (IsTrue ''b''))"
proof -
  let ?l = "\<lparr>nodes = [\<lparr>ctx_name = Some ''a'', ctx_value = Some ''1'', ctx_priority = 5\<rparr>], list_size = 1\<rparr>"
  let ?e = "Binary OP_OR (Compare ''a'' True (VALUE_STRING ''1'')) (IsTrue ''b'')"
  have sane: "ctxlist_sane ?l"
    by (simp add: ctxlist_sane_def ctxlist_ok_def slist_ok_def lcfgcontext_is_valid_def nul_def)
  have toks: "fst (lex ''a=1|b'') = tree_tokens ?e"
    by (simp add: lex_eval cmp_token_def)
  then have e: "expression ?e (fst (lex ''a=1|b''))" by (simp add: expression_iff)
  have find: "lcfgctxlist_find_context (Some ?l) ''a'' = Some \<lparr>ctx_name = Some ''a'', ctx_value = Some ''1'', ctx_priority = 5\<rparr>"
    "lcfgctxlist_find_context (Some ?l) ''b'' = None"
    by (simp_all add: lcfgctxlist_find_context_def lcfgctxlist_find_node_def lcfgslist_is_empty_def
        lcfgcontext_match_def lcfgcontext_is_valid_def strcmp_def)
  have pq: "parse_query (fst (lex ''a=1|b'')) = Inr (Some ?e)" using e by (simp only: parse_query_iff option.case)
  have v: "lcfgctxlist_eval_expression (Some ?l) ''a=1|b'' = Inr 5"
    unfolding lcfgctxlist_eval_expression_def pq
    by (simp add: find lcfgctxlist_simple_query_def greater_def lcfgcontext_get_value_def
        lcfgcontext_get_priority_def lcfgcontext_is_true_def lcfgcontext_is_false_def strcmp_def
        del: lex.simps One_nat_def)
  from eval_expression_truth [OF sane _ e v] v show ?thesis by (simp add: nul_def del: lex.simps)
qed

section \<open>The meaning of combined expressions\<close>

text \<open>
  Lexing a text that is followed by a character which can neither continue a word nor an
  operator nor reopen a string.
\<close>

definition separator :: "char \<Rightarrow> bool" where
  "separator c \<longleftrightarrow> \<not> isword c \<and> c \<noteq> CHR ''='' \<and> c \<noteq> CHR 0x22 \<and> c \<noteq> CHR 0x27"

lemma quoted_append:
  "quoted q s = Some (v, r) \<Longrightarrow> c \<noteq> q \<Longrightarrow> quoted q (s @ c # t) = Some (v, r @ c # t)"
  by (induction q s arbitrary: v rule: quoted.induct) (auto split: if_splits list.splits)

definition join_tokens :: "ctx_token list \<times> string option \<Rightarrow> ctx_token list \<times> string option \<Rightarrow>
    ctx_token list \<times> string option" where
  "join_tokens a b = (fst a @ fst b, snd b)"

lemma join_add_token [simp]: "join_tokens (add_token t a) b = add_token t (join_tokens a b)"
  by (simp add: join_tokens_def add_token_def)

lemma join_empty [simp]: "join_tokens ([], None) b = b"
  by (simp add: join_tokens_def)

lemma word_append: "separator c \<Longrightarrow> takeWhile isword (u @ c # t) = takeWhile isword u \<and>
    dropWhile isword (u @ c # t) = dropWhile isword u @ c # t"
  by (induction u) (auto simp: separator_def)

lemma lex_append:
  "snd (lex s) = None \<Longrightarrow> separator c \<Longrightarrow> lex (s @ c # t) = join_tokens (lex s) (lex (c # t))"
proof (induction s rule: length_induct)
  case (1 s)
  show ?case
  proof (cases s)
    case (Cons d u)
    have IH: "lex (w @ c # t) = join_tokens (lex w) (lex (c # t))"
      if "length w \<le> length u" "snd (lex w) = None" for w
      using "1.IH" that "1.prems"(2) Cons by simp
    have word: "lex (dropWhile isword u @ c # t) = join_tokens (lex (dropWhile isword u)) (lex (c # t))"
      if "snd (lex (dropWhile isword u)) = None"
      using IH [OF length_dropWhile_le that] .
    have ne: "lex (tl u @ c # t) = join_tokens (lex (tl u)) (lex (c # t))"
      if "snd (lex (tl u)) = None"
      using IH [OF _ that] by simp
    have q: "case quoted d u of None \<Rightarrow> True | Some (v, r) \<Rightarrow>
        quoted d (u @ c # t) = Some (v, r @ c # t) \<and>
        (snd (lex r) = None \<longrightarrow> lex (r @ c # t) = join_tokens (lex r) (lex (c # t)))"
      if "d = CHR 0x22 \<or> d = CHR 0x27"
      using that "1.prems"(2) quoted_append [of d u _ _ c t] quoted_length [of d u] IH
      by (auto simp: separator_def less_imp_le split: option.splits)
    have sep: "c \<noteq> CHR ''=''" using "1.prems"(2) by (simp add: separator_def)
    have hd: "u @ c # t \<noteq> []" "hd (u @ c # t) = CHR ''='' \<longleftrightarrow> u \<noteq> [] \<and> hd u = CHR ''=''"
      "u \<noteq> [] \<Longrightarrow> tl (u @ c # t) = tl u @ c # t"
      using sep by (cases u; simp)+
    have none: "snd (lex (d # u)) = None" using "1.prems"(1) Cons by simp
    note simps = lex.simps(2) [of d]
    consider (Word) "isword d" | (Bang) "\<not> isword d" "d = CHR ''!''"
      | (Quote) "\<not> isword d" "d \<noteq> CHR ''!''" "d = CHR 0x22 \<or> d = CHR 0x27"
      | (Other) "\<not> isword d" "d \<noteq> CHR ''!''" "\<not> (d = CHR 0x22 \<or> d = CHR 0x27)"
      by blast
    then have "lex (d # u @ c # t) = join_tokens (lex (d # u)) (lex (c # t))"
    proof cases
      case Word
      then show ?thesis using none word word_append [OF "1.prems"(2)] unfolding simps by simp
    next
      case Bang
      then show ?thesis
        using none ne IH [of u] hd(3) unfolding simps hd(2) by (auto simp del: lex.simps)
    next
      case Quote
      then show ?thesis
        using none q unfolding simps by (auto simp del: lex.simps split: option.splits)
    next
      case Other
      then show ?thesis
        using none IH [of u] unfolding simps
        by (auto simp del: lex.simps split: option.splits if_splits)
    qed
    then show ?thesis using Cons by (simp del: lex.simps)
  qed simp
qed

text \<open>A conjunction whose right operand is itself a chain of conjunctions.\<close>

fun and_chain :: "ctx_expr \<Rightarrow> bool" where
  "and_chain (Binary p e t) = (p = OP_AND \<and> and_chain e)"
| "and_chain _ = True"

fun conjoin :: "ctx_expr \<Rightarrow> ctx_expr \<Rightarrow> ctx_expr" where
  "conjoin d (Binary p e t) = Binary p (conjoin d e) t"
| "conjoin d e = Binary OP_AND d e"

lemma eval_and_assoc: "eval_op OP_AND (eval_op OP_AND a b) c = eval_op OP_AND a (eval_op OP_AND b c)"
  by (simp add: greater_def lesser_def)

lemma eval_and_commute: "eval_op OP_AND a b = eval_op OP_AND b a"
  by (simp add: greater_def lesser_def)

lemma eval_and_same [simp]: "eval_op OP_AND a a = a"
  by (simp add: greater_def lesser_def)

lemma conjoin_tree:
  assumes "tree_ok d" and "and_chain d"
  shows "tree_ok e \<Longrightarrow> and_chain e \<Longrightarrow> tree_ok (conjoin d e) \<and> and_chain (conjoin d e) \<and>
    tree_tokens (conjoin d e) = tree_tokens d @ BINOP OP_AND # tree_tokens e \<and>
    eval_tree l (conjoin d e) = eval_op OP_AND (eval_tree l d) (eval_tree l e)"
  using assms
proof (induction e)
  case (Binary p e t)
  then have p: "p = OP_AND" and IH: "tree_ok (conjoin d e) \<and> and_chain (conjoin d e) \<and>
      tree_tokens (conjoin d e) = tree_tokens d @ BINOP OP_AND # tree_tokens e \<and>
      eval_tree l (conjoin d e) = eval_op OP_AND (eval_tree l d) (eval_tree l e)" by auto
  have "eval_tree l (conjoin d (Binary p e t)) =
      eval_op OP_AND (eval_tree l d) (eval_tree l (Binary p e t))"
    using IH eval_and_assoc by (simp add: p del: eval_op.simps)
  with IH p Binary.prems show ?case by simp
qed auto

text \<open>
  The expressions that can be combined: \<open>e\<close> is the tree of the text \<open>s\<close>, no string is left
  open in it, and when it starts with a bracket (in which case it will not be put into
  brackets) its operators outside brackets are all \<open>&\<close>.
\<close>

definition combinable :: "string \<Rightarrow> ctx_expr \<Rightarrow> bool" where
  "combinable s e \<longleftrightarrow> s \<noteq> [] \<and> no_nul s \<and> lex s = (tree_tokens e, None) \<and> tree_ok e \<and>
     (hd s = CHR ''('' \<longrightarrow> and_chain e)"

definition bracket_tree :: "string \<Rightarrow> ctx_expr \<Rightarrow> ctx_expr" where
  "bracket_tree s e = (if hd s = CHR ''('' then e else Paren e)"

lemma separators: "separator (CHR ''('')" "separator (CHR '')'')" "separator (CHR '' '')"
  by (auto simp: separator_def lcfg_chr byte_def)

lemma lex_marks: "lex (CHR ''('' # s) = add_token PAREN_LEFT (lex s)"
    "lex (CHR '')'' # s) = add_token PAREN_RIGHT (lex s)" "lex (CHR '' '' # s) = lex s"
    "lex (CHR ''&'' # s) = add_token (BINOP OP_AND) (lex s)"
  by (simp_all add: lcfg_chr byte_def operator_def lex_space_def)

lemma bracketify_combinable:
  assumes "combinable s e"
  shows "\<exists>b. lcfgcontext_bracketify_expression (Some s) = Some b \<and> combinable b (bracket_tree s e) \<and>
    hd b = CHR ''('' \<and> eval_tree l (bracket_tree s e) = eval_tree l e"
proof (cases "hd s = CHR ''(''")
  case True
  with assms show ?thesis
    by (auto simp: lcfgcontext_bracketify_expression_def bracket_tree_def)
next
  case False
  have "lex (''('' @ s @ '')'') = add_token PAREN_LEFT (join_tokens (lex s) (lex '')''))"
    using lex_append [of s "CHR '')''" "[]"] separators assms
    by (simp add: lex_marks combinable_def del: lex.simps)
  also have "\<dots> = (tree_tokens (Paren e), None)"
    using assms lex_marks(2) [of "[]"]
    by (simp add: combinable_def join_tokens_def add_token_def del: lex.simps(2))
  finally have "combinable (''('' @ s @ '')'') (Paren e)"
    using assms by (simp add: combinable_def nul_def del: lex.simps)
  with False assms show ?thesis
    by (auto simp: lcfgcontext_bracketify_expression_def bracket_tree_def combinable_def
        simp del: lex.simps)
qed

lemma joined_combinable:
  assumes b: "combinable b d" "hd b = CHR ''(''" and c: "combinable c e" "hd c = CHR ''(''"
  shows "combinable (b @ '' & '' @ c) (conjoin d e)"
    and "eval_tree l (conjoin d e) = eval_op OP_AND (eval_tree l d) (eval_tree l e)"
proof -
  have d: "tree_ok d" "and_chain d" and e: "tree_ok e" "and_chain e"
    using b c by (simp_all add: combinable_def)
  note tree = conjoin_tree [OF d e]
  have "lex (b @ '' & '' @ c) = join_tokens (lex b) (add_token (BINOP OP_AND) (lex c))"
    using lex_append [of b "CHR '' ''" "''& '' @ c"] separators b(1)
    by (simp add: lex_marks combinable_def del: lex.simps)
  also have "\<dots> = (tree_tokens (conjoin d e), None)"
    using b c tree by (simp add: combinable_def join_tokens_def add_token_def del: lex.simps)
  finally show "combinable (b @ '' & '' @ c) (conjoin d e)"
    using b c tree by (simp add: combinable_def nul_def del: lex.simps)
  show "eval_tree l (conjoin d e) = eval_op OP_AND (eval_tree l d) (eval_tree l e)" using tree by blast
qed

lemma combinable_unique: "combinable s d \<Longrightarrow> combinable s e \<Longrightarrow> d = e"
proof -
  assume d: "combinable s d" and e: "combinable s e"
  then have "tree_tokens d = tree_tokens e" by (metis combinable_def prod.inject)
  with d e have "expression d (tree_tokens d)" "expression e (tree_tokens d)"
    by (simp_all add: combinable_def expression_iff)
  then have "parse_query (tree_tokens d) = Inr (Some d)" "parse_query (tree_tokens d) = Inr (Some e)"
    by (simp_all add: parse_query_iff)
  then show ?thesis by simp
qed

text \<open>The documented contract of \<open>strcmp\<close>: only the sign of its value is given.\<close>

locale libc_strcmp =
  fixes scmp :: "string \<Rightarrow> string \<Rightarrow> int"
  assumes scmp_sign: "no_nul a \<Longrightarrow> no_nul b \<Longrightarrow> sgn (scmp a b) = sgn (strcmp a b)"
begin

lemma scmp_eq_0: "no_nul a \<Longrightarrow> no_nul b \<Longrightarrow> scmp a b = 0 \<longleftrightarrow> a = b"
  using scmp_sign [of a b] strcmp_eq_0 [of a b] sgn_eq_0_iff by metis

lemma combine_and:
  assumes "combinable s1 e1" and "combinable s2 e2"
  shows "\<exists>r e. lcfgcontext_combine_expressions scmp (Some s1) (Some s2) = Some r \<and> combinable r e \<and>
    (\<forall>l. eval_tree l e = eval_op OP_AND (eval_tree l e1) (eval_tree l e2))"
proof -
  obtain b1 where b1: "lcfgcontext_bracketify_expression (Some s1) = Some b1"
      "combinable b1 (bracket_tree s1 e1)" "hd b1 = CHR ''(''"
      and v1: "eval_tree l (bracket_tree s1 e1) = eval_tree l e1" for l
    using bracketify_combinable [OF assms(1)] by (metis option.inject)
  obtain b2 where b2: "lcfgcontext_bracketify_expression (Some s2) = Some b2"
      "combinable b2 (bracket_tree s2 e2)" "hd b2 = CHR ''(''"
      and v2: "eval_tree l (bracket_tree s2 e2) = eval_tree l e2" for l
    using bracketify_combinable [OF assms(2)] by (metis option.inject)
  have ne: "s1 \<noteq> []" "s2 \<noteq> []" "b1 \<noteq> []" "b2 \<noteq> []" "no_nul s1" "no_nul s2" "no_nul b1" "no_nul b2"
    using assms b1 b2 by (auto simp: combinable_def)
  note join12 = joined_combinable [OF b1(2,3) b2(2,3)]
  note join21 = joined_combinable [OF b2(2,3) b1(2,3)]
  consider (Same) "s1 = s2" | (SameB) "s1 \<noteq> s2" "b1 = b2" | (Less) "s1 \<noteq> s2" "b1 \<noteq> b2" "scmp b1 b2 = - 1"
    | (Greater) "s1 \<noteq> s2" "b1 \<noteq> b2" "scmp b1 b2 \<noteq> - 1" by blast
  then show ?thesis
  proof cases
    case Same
    with combinable_unique [of s1 e1 e2] ne assms scmp_eq_0 show ?thesis
      by (auto simp: lcfgcontext_combine_expressions_def simp del: eval_op.simps)
  next
    case SameB
    have "bracket_tree s1 e1 = bracket_tree s2 e2"
      using combinable_unique b1(2) b2(2) SameB(2) by blast
    then have "eval_tree l e1 = eval_tree l e2" for l
      using v1 v2 by metis
    with SameB ne b1 b2 scmp_eq_0 v1 show ?thesis
      by (auto simp: lcfgcontext_combine_expressions_def simp del: eval_op.simps)
  next
    case Less
    then have "lcfgcontext_combine_expressions scmp (Some s1) (Some s2) = Some (b1 @ '' & '' @ b2)"
      using ne b1 b2 by (simp add: lcfgcontext_combine_expressions_def scmp_eq_0 lcfgutils_string_join_def)
    then show ?thesis using join12 v1 v2 by metis
  next
    case Greater
    then have "lcfgcontext_combine_expressions scmp (Some s1) (Some s2) = Some (b2 @ '' & '' @ b1)"
      using ne b1 b2 by (simp add: lcfgcontext_combine_expressions_def scmp_eq_0 lcfgutils_string_join_def)
    then show ?thesis using join21 v1 v2 eval_and_commute by metis
  qed
qed

end

interpretation byte_difference: libc_strcmp strcmp
  by unfold_locales simp

interpretation three_valued: libc_strcmp "\<lambda>a b. sgn (strcmp a b)"
  by unfold_locales simp

lemma combinable_eval: "combinable s e \<Longrightarrow> lcfgctxlist_eval_expression l s = Inr (eval_tree l e)"
proof -
  assume c: "combinable s e"
  then have "expression e (tree_tokens e)" by (simp add: combinable_def expression_iff)
  then have "parse_query (tree_tokens e) = Inr (Some e)" by (simp add: parse_query_iff)
  with c show ?thesis by (simp add: lcfgctxlist_eval_expression_def combinable_def)
qed



text \<open>
  C36: the order of the operands does not matter where \<open>strcmp\<close> returns only -1, 0 and 1:
  then \<open>lcfgcontext_combine_expressions\<close> makes the same text of both orders.
\<close>
theorem combine_expressions_commute:
  assumes "libc_strcmp scmp" and "\<forall>a b. scmp a b \<in> {- 1, 0, 1}"
    and "no_nul (or_default s1 [])" and "no_nul (or_default s2 [])"
  shows "or_default (lcfgcontext_combine_expressions scmp s1 s2) [] =
    or_default (lcfgcontext_combine_expressions scmp s2 s1) []"
proof -
  have flip: "scmp b a = - scmp a b" if "no_nul a" "no_nul b" for a b
  proof -
    have "sgn (scmp b a) = - sgn (scmp a b)"
      using libc_strcmp.scmp_sign [OF assms(1)] that str_order.cmp_flip by metis
    moreover have "sgn (scmp x y) = scmp x y" for x y using assms(2) [rule_format, of x y] by auto
    ultimately show ?thesis by simp
  qed
  note eq0 = libc_strcmp.scmp_eq_0 [OF assms(1)]
  show ?thesis
  proof (cases "isempty s1 \<or> isempty s2")
    case True
    then show ?thesis by (auto simp: lcfgcontext_combine_expressions_def or_default_empty)
  next
    case False
    then obtain a b where ab: "s1 = Some a" "s2 = Some b" "a \<noteq> []" "b \<noteq> []" "no_nul a" "no_nul b"
      using assms(3,4) by (auto elim!: not_isemptyE)
    let ?a = "or_default (lcfgcontext_bracketify_expression (Some a)) []"
    let ?b = "or_default (lcfgcontext_bracketify_expression (Some b)) []"
    have nn: "no_nul ?a" "no_nul ?b"
      using ab by (auto simp: lcfgcontext_bracketify_expression_def nul_def)
    have "scmp ?a ?b \<in> {- 1, 0, 1}" using assms(2) by blast
    then show ?thesis
      using ab eq0 [OF nn] eq0 [OF nn(2,1)] flip [OF nn] eq0 [OF ab(5,6)] eq0 [OF ab(6,5)]
      by (auto simp: lcfgcontext_combine_expressions_def Let_def)
  qed
qed

theorem combine_expressions_commute_witness:
  "or_default (lcfgcontext_combine_expressions (\<lambda>a b. sgn (strcmp a b)) (Some ''a'') (Some ''c'')) [] =
   or_default (lcfgcontext_combine_expressions (\<lambda>a b. sgn (strcmp a b)) (Some ''c'') (Some ''a'')) []"
  by (rule combine_expressions_commute [OF three_valued.libc_strcmp_axioms])
    (simp_all add: sgn_if nul_def)

text \<open>With a \<open>strcmp\<close> that returns the difference of two bytes the order does matter.\<close>

lemma combine_order_matters:
  "lcfgcontext_combine_expressions strcmp (Some ''a'') (Some ''c'') = Some ''(c) & (a)''"
  "lcfgcontext_combine_expressions strcmp (Some ''c'') (Some ''a'') = Some ''(a) & (c)''"
  by (simp_all add: lcfgcontext_combine_expressions_def lcfgcontext_bracketify_expression_def
      strcmp_def byte_def lcfgutils_string_join_def)

text \<open>
  An operand that starts with a bracket is taken to be one bracketed expression: the \<open>|\<close> in
  it ends up beside the \<open>&\<close>, and the parse is not the conjunction of the two.
\<close>

lemma combine_or_operand:
  "lcfgcontext_combine_expressions strcmp (Some ''(b) | (c)'') (Some ''a'') = Some ''(a) & (b) | (c)''"
  "expression (Binary OP_OR (Binary OP_AND (Paren (IsTrue ''a'')) (Paren (IsTrue ''b'')))
     (Paren (IsTrue ''c''))) (fst (lex ''(a) & (b) | (c)''))"
  by (simp_all add: lcfgcontext_combine_expressions_def lcfgcontext_bracketify_expression_def
      strcmp_def byte_def lcfgutils_string_join_def expression_iff lex_eval)

text \<open>A string left open ends the input, so what stands before it is evaluated.\<close>

lemma open_string_accepted:
  "lex [CHR ''a'', CHR '' '', CHR 0x22, CHR ''b''] = ([CTX_NAME ''a''], Some (unterminated (CHR 0x22)))"
  "lcfgctxlist_eval_expression l [CHR ''a'', CHR '' '', CHR 0x22, CHR ''b''] =
     Inr (lcfgctxlist_simple_query l ''a'' None LCFG_TEST_ISTRUE)"
proof -
  show lexed: "lex [CHR ''a'', CHR '' '', CHR 0x22, CHR ''b''] =
      ([CTX_NAME ''a''], Some (unterminated (CHR 0x22)))"
    by (simp add: lex_eval)
  show "lcfgctxlist_eval_expression l [CHR ''a'', CHR '' '', CHR 0x22, CHR ''b''] =
     Inr (lcfgctxlist_simple_query l ''a'' None LCFG_TEST_ISTRUE)"
    unfolding lcfgctxlist_eval_expression_def lexed by (simp add: parse_query_def attach_def)
qed

text \<open>Two true operands of \<open>^\<close> give the negated greater priority.\<close>

lemma eval_xor_both_true: "0 < a \<Longrightarrow> 0 < b \<Longrightarrow> eval_op OP_XOR a b = - greater a b"
  by simp

end
