(* ===== verification/Lcfg_Version.thy ===== *)
theory Lcfg_Version
  imports Lcfg_Utils "HOL-Library.List_Lexorder" "HOL-Library.Product_Lexorder"
begin

text \<open>
  Version comparison (\<open>packages/package.c\<close>): the epoch, the Debian algorithm \<open>debvercmp\<close>
  (the configuration without \<open>HAVE_RPMLIB\<close>) and \<open>compare_vstrings\<close>. The pointers of
  \<open>debvercmp\<close> are string suffixes; a step beyond the terminator is the value
  \<open>Overrun\<close> (\<open>None\<close> for the whole function).
\<close>

section \<open>The functions\<close>

text \<open>The epoch is valid only when a colon follows; the second result is where the version starts.\<close>

definition extract_epoch :: "string \<Rightarrow> 64 word \<times> string" where
  "extract_epoch version =
     (case strtoul version 10 of (epoch, endptr) \<Rightarrow>
        if endptr \<noteq> version \<and> cur endptr = CHR '':'' then (epoch, tl endptr)
        else (0, version))"

definition order :: "char \<Rightarrow> int" where
  "order c =
     (if isdigit c then 0
      else if isalpha c then byte c
      else if c = CHR ''~'' then - 1
      else if c \<noteq> nul then sbyte c + 256
      else 0)"

datatype text_step = Decided int | Continue string string | Overrun

definition in_text :: "string \<Rightarrow> bool" where
  "in_text s \<longleftrightarrow> cur s \<noteq> nul \<and> \<not> isdigit (cur s)"

text \<open>The loop over the characters that are not digits.\<close>

fun deb_text :: "string \<Rightarrow> string \<Rightarrow> text_step" where
  "deb_text a b =
     (if in_text a \<or> in_text b then
        (if order (cur a) \<noteq> order (cur b) then Decided (order (cur a) - order (cur b))
         else case a of [] \<Rightarrow> Overrun | _ # a' \<Rightarrow>
           (case b of [] \<Rightarrow> Overrun | _ # b' \<Rightarrow> deb_text a' b'))
      else Continue a b)"

declare deb_text.simps [simp del]

text \<open>The loop over the digits that both have, with the first difference.\<close>

fun deb_digits :: "string \<Rightarrow> string \<Rightarrow> int \<Rightarrow> string \<times> string \<times> int" where
  "deb_digits (x # a) (y # b) first_diff =
     (if isdigit x \<and> isdigit y
      then deb_digits a b (if first_diff = 0 then byte x - byte y else first_diff)
      else (x # a, y # b, first_diff))"
| "deb_digits a b first_diff = (a, b, first_diff)"

definition skip_zeros :: "string \<Rightarrow> string" where
  "skip_zeros s = dropWhile (\<lambda>c. c = CHR ''0'') s"

lemma deb_text_Continue:
  "deb_text a b = Continue a' b' \<Longrightarrow> \<not> in_text a' \<and> \<not> in_text b' \<and>
     length a' \<le> length a \<and> length b' \<le> length b \<and>
     (in_text a \<or> in_text b \<longrightarrow> length a' < length a)"
proof (induction a b rule: deb_text.induct)
  case (1 a b)
  show ?case
  proof (cases "in_text a \<or> in_text b")
    case True
    then obtain x a2 y b2 where ab: "a = x # a2" "b = y # b2" "deb_text a2 b2 = Continue a' b'"
      "order (cur a) = order (cur b)"
      using "1.prems" by (subst (asm) deb_text.simps) (auto split: if_splits list.splits)
    from "1.IH" [OF True _ ab(1,2,3)] ab show ?thesis by auto
  next
    case False
    with "1.prems" show ?thesis by (simp add: deb_text.simps [of a b])
  qed
qed

lemma not_digit_nul [simp]: "\<not> isdigit nul"
  by (simp add: lcfg_chr byte_def nul_def)

lemma deb_digits_length:
  "deb_digits a b f = (a', b', f') \<Longrightarrow> length a' \<le> length a \<and> length b' \<le> length b \<and>
     (isdigit (cur a) \<and> isdigit (cur b) \<longrightarrow> length a' < length a)"
proof (induction a b f rule: deb_digits.induct)
  case (1 x a y b f)
  then show ?case by (fastforce split: if_splits)
qed (auto simp: cur_def split: list.splits)

lemma skip_zeros_length: "length (skip_zeros s) \<le> length s"
  by (simp add: skip_zeros_def length_dropWhile_le)

lemma skip_zeros_shorter: "cur s = CHR ''0'' \<Longrightarrow> length (skip_zeros s) < length s"
  using length_dropWhile_le [of "\<lambda>c. c = CHR ''0''" "tl s"]
  by (cases s) (auto simp: skip_zeros_def nul_def)

lemma skip_zeros_id: "cur s \<noteq> CHR ''0'' \<Longrightarrow> skip_zeros s = s"
  by (cases s) (auto simp: skip_zeros_def)

text \<open>The outer loop: \<open>None\<close> if a pointer ever runs past the end of its string.\<close>

function debvercmp_loop :: "string \<Rightarrow> string \<Rightarrow> int option" where
  "debvercmp_loop a b =
     (if cur a = nul \<and> cur b = nul then Some 0
      else case deb_text a b of
        Overrun \<Rightarrow> None
      | Decided n \<Rightarrow> Some n
      | Continue a1 b1 \<Rightarrow>
          (case deb_digits (skip_zeros a1) (skip_zeros b1) 0 of (a2, b2, first_diff) \<Rightarrow>
             if isdigit (cur a2) then Some 1
             else if isdigit (cur b2) then Some (- 1)
             else if first_diff \<noteq> 0 then Some first_diff
             else debvercmp_loop a2 b2))"
  by pat_completeness auto

lemma debvercmp_progress:
  assumes "\<not> (cur a = nul \<and> cur b = nul)" and t: "deb_text a b = Continue a1 b1"
    and d: "deb_digits (skip_zeros a1) (skip_zeros b1) 0 = (a2, b2, f)"
    and n: "\<not> isdigit (cur a2)" "\<not> isdigit (cur b2)"
  shows "length a2 + length b2 < length a + length b"
proof -
  note T = deb_text_Continue [OF t] and D = deb_digits_length [OF d]
  note Z = skip_zeros_length [of a1] skip_zeros_length [of b1]
  show ?thesis
  proof (cases "in_text a \<or> in_text b")
    case True
    with T D Z show ?thesis by linarith
  next
    case False
    then have ab: "a1 = a" "b1 = b" using t by (simp_all add: deb_text.simps [of a b])
    have dig: "isdigit (cur a) \<or> isdigit (cur b)"
      using False assms(1) by (auto simp: in_text_def)
    show ?thesis
    proof (cases "length (skip_zeros a) < length a \<or> length (skip_zeros b) < length b")
      case True
      have "length a2 \<le> length (skip_zeros a)" "length b2 \<le> length (skip_zeros b)"
        using D ab by auto
      with True Z ab show ?thesis by auto
    next
      case False
      then have id: "skip_zeros a = a" "skip_zeros b = b"
        using skip_zeros_shorter skip_zeros_id by blast+
      have "isdigit (cur a) \<and> isdigit (cur b)"
      proof (rule ccontr)
        assume "\<not> ?thesis"
        then have "deb_digits a b 0 = (a, b, 0)" by (cases a; cases b) auto
        with d id ab n dig show False by simp
      qed
      then have "length a2 < length a" "length b2 \<le> length b" using D ab id by auto
      then show ?thesis by linarith
    qed
  qed
qed

termination debvercmp_loop
  by (relation "measure (\<lambda>(a, b). length a + length b)") (simp, metis debvercmp_progress in_measure case_prod_conv)

declare debvercmp_loop.simps [simp del]

definition debvercmp :: "cstr \<Rightarrow> cstr \<Rightarrow> int option" where
  "debvercmp a b =
     debvercmp_loop (case a of None \<Rightarrow> [] | Some s \<Rightarrow> s) (case b of None \<Rightarrow> [] | Some s \<Rightarrow> s)"

definition LCFG_PKG_WILDCARD :: string where "LCFG_PKG_WILDCARD = ''*''"

definition compare_vstrings :: "cstr \<Rightarrow> cstr \<Rightarrow> int" where
  "compare_vstrings v1 v2 =
     (let result =
        (if isempty v1 \<or> isempty v2 then
           (if isempty v1 then (if isempty v2 then 0 else - 1) else 1)
         else let v1_iswild = (strcmp (or_default v1 []) LCFG_PKG_WILDCARD = 0);
                  v2_iswild = (strcmp (or_default v2 []) LCFG_PKG_WILDCARD = 0)
              in if v1_iswild \<or> v2_iswild then
                   (if v1_iswild then (if v2_iswild then 0 else - 1) else 1)
                 else the (debvercmp v1 v2))
      in if 0 < result then 1 else if result < 0 then - 1 else 0)"

section \<open>No pointer overruns\<close>

lemma order_nul [simp]: "order nul = 0"
  by (simp add: order_def nul_def lcfg_chr byte_def)

lemma order_nonzero:
  assumes "\<not> isdigit c" and "c \<noteq> nul"
  shows "order c \<noteq> 0"
proof -
  have "isalpha c \<Longrightarrow> byte c \<noteq> 0" by (auto simp: lcfg_chr)
  moreover have "sbyte c + 256 > 0"
    unfolding sbyte_def using byte_bounds(1) [of c] by (simp only: split: if_split) linarith
  ultimately show ?thesis using assms by (auto simp: order_def)
qed

lemma order_zero_iff: "order c = 0 \<longleftrightarrow> isdigit c \<or> c = nul"
  using order_nonzero [of c] order_nul by (cases "c = nul") (auto simp: order_def)

lemma deb_text_no_overrun: "deb_text a b \<noteq> Overrun"
proof (induction a b rule: deb_text.induct)
  case (1 a b)
  show ?case
  proof (cases "(in_text a \<or> in_text b) \<and> order (cur a) = order (cur b)")
    case True
    then have "order (cur a) \<noteq> 0" "order (cur b) \<noteq> 0"
      unfolding order_zero_iff in_text_def by (metis order_zero_iff)+
    then obtain x a' y b' where "a = x # a'" "b = y # b'"
      unfolding order_zero_iff by (cases a; cases b) auto
    with True "1.IH" show ?thesis by (subst deb_text.simps) auto
  next
    case False
    then show ?thesis by (auto simp: deb_text.simps [of a b])
  qed
qed

lemma debvercmp_loop_total: "debvercmp_loop a b \<noteq> None"
proof (induction a b rule: debvercmp_loop.induct)
  case (1 a b)
  then show ?case
    using deb_text_no_overrun [of a b]
    by (subst debvercmp_loop.simps) (auto split: text_step.splits prod.splits)
qed

section \<open>The order\<close>

text \<open>
  What the code compares, as one sequence of numbers, lexicographically with zeros behind the
  shorter: the characters that are not digits by their order, and for every run of
  digits a 0 that ends the text before it, its length without leading zeros and its
  digits.
\<close>

function version_key :: "string \<Rightarrow> int list" where
  "version_key s =
     (if cur s = nul then []
      else if isdigit (cur s)
      then let t = skip_zeros s; ds = takeWhile isdigit t
           in 0 # int (length ds) # map byte ds @ version_key (drop (length ds) t)
      else order (cur s) # version_key (tl s))"
  by pat_completeness auto

lemma digits_shorter:
  assumes "isdigit (cur s)"
  shows "length (skip_zeros s) - length (takeWhile isdigit (skip_zeros s)) < length s"
proof (cases "cur s = CHR ''0''")
  case True
  with skip_zeros_shorter [OF True] show ?thesis by linarith
next
  case False
  from assms obtain c t where "s = c # t" "isdigit c" by (cases s) auto
  with False show ?thesis by (simp add: skip_zeros_id)
qed

termination version_key
proof (relation "measure length")
  fix s t ds assume "isdigit (cur s)" "t = skip_zeros s" "ds = takeWhile isdigit t"
  then show "(drop (length ds) t, s) \<in> measure length" using digits_shorter [of s] by simp
next
  fix s assume "cur s \<noteq> nul"
  then show "(tl s, s) \<in> measure length" by (cases s) auto
qed simp

declare version_key.simps [simp del]

definition hd0 :: "int list \<Rightarrow> int" where
  "hd0 xs = (case xs of [] \<Rightarrow> 0 | x # _ \<Rightarrow> x)"

lemma hd0_simps [simp]: "hd0 [] = 0" "hd0 (x # xs) = x"
  by (simp_all add: hd0_def)

function padcmp :: "int list \<Rightarrow> int list \<Rightarrow> int" where
  "padcmp xs ys =
     (if xs = [] \<and> ys = [] then 0
      else if hd0 xs \<noteq> hd0 ys then hd0 xs - hd0 ys else padcmp (tl xs) (tl ys))"
  by pat_completeness auto
termination padcmp
proof (relation "measure (\<lambda>(xs, ys). length xs + length ys)")
  fix xs ys :: "int list" assume "\<not> (xs = [] \<and> ys = [])"
  then show "((tl xs, tl ys), (xs, ys)) \<in> measure (\<lambda>(xs, ys). length xs + length ys)"
    by (cases xs; cases ys) auto
qed simp

declare padcmp.simps [simp del]

lemma padcmp_nil [simp]: "padcmp [] [] = 0"
  by (simp add: padcmp.simps)

lemma padcmp_step: "padcmp xs ys = (if hd0 xs \<noteq> hd0 ys then hd0 xs - hd0 ys else padcmp (tl xs) (tl ys))"
  by (subst padcmp.simps) auto

lemma padcmp_flip: "padcmp ys xs = - padcmp xs ys"
proof (induction xs ys rule: padcmp.induct)
  case (1 xs ys)
  then show ?case
    by (cases "xs = [] \<and> ys = []") (auto simp: padcmp_step [of xs ys] padcmp_step [of ys xs])
qed

lemma padcmp_le_trans: "padcmp xs ys \<le> 0 \<Longrightarrow> padcmp ys zs \<le> 0 \<Longrightarrow> padcmp xs zs \<le> 0"
proof (induction "length xs + length ys + length zs" arbitrary: xs ys zs rule: less_induct)
  case less
  show ?case
  proof (cases "xs = [] \<and> ys = [] \<and> zs = []")
    case False
    then have "length (tl xs) + length (tl ys) + length (tl zs) < length xs + length ys + length zs"
      by (cases xs; cases ys; cases zs) auto
    from less.hyps [OF this] less.prems show ?thesis
      by (simp add: padcmp_step [of xs ys] padcmp_step [of ys zs] padcmp_step [of xs zs]
          split: if_splits)
  qed simp
qed

lemma comparator_padcmp: "comparator padcmp"
proof unfold_locales
  show "sgn (padcmp y x) = - sgn (padcmp x y)" for x y
    by (simp add: padcmp_flip [of y x] sgn_minus)
qed (rule padcmp_le_trans)

text \<open>The steps of \<open>debvercmp\<close> on the keys.\<close>

lemma key_end: "cur s = nul \<Longrightarrow> version_key s = []"
  by (simp add: version_key.simps)

lemma key_text: "in_text s \<Longrightarrow> version_key s = order (cur s) # version_key (tl s)"
  by (subst version_key.simps) (simp add: in_text_def)

lemma key_not_text: "\<not> in_text s \<Longrightarrow> hd0 (version_key s) = 0"
  by (subst version_key.simps) (auto simp: in_text_def Let_def)

lemma hd0_key: "hd0 (version_key s) = order (cur s)"
proof (cases "in_text s")
  case False
  then have "order (cur s) = 0" by (auto simp: in_text_def order_zero_iff)
  with key_not_text [OF False] show ?thesis by simp
qed (simp add: key_text)

lemma deb_text_key:
  "case deb_text a b of
     Overrun \<Rightarrow> False
   | Decided n \<Rightarrow> padcmp (version_key a) (version_key b) = n
   | Continue a' b' \<Rightarrow> padcmp (version_key a) (version_key b) = padcmp (version_key a') (version_key b') \<and>
       \<not> in_text a' \<and> \<not> in_text b'"
proof (induction a b rule: deb_text.induct)
  case (1 a b)
  show ?case
  proof (cases "in_text a \<or> in_text b")
    case True
    show ?thesis
    proof (cases "order (cur a) = order (cur b)")
      case eq: True
      have "order (cur a) \<noteq> 0" "order (cur b) \<noteq> 0"
        using True eq unfolding order_zero_iff in_text_def by (metis order_zero_iff)+
      then have t: "in_text a" "in_text b" by (auto simp: order_zero_iff in_text_def)
      then obtain x a' y b' where ab: "a = x # a'" "b = y # b'"
        by (cases a; cases b) (auto simp: in_text_def)
      have step: "deb_text a b = deb_text a' b'"
        using True eq ab by (subst deb_text.simps) simp
      have "padcmp (version_key a) (version_key b) = padcmp (version_key a') (version_key b')"
        using t eq ab by (simp add: key_text padcmp_step [of "_ # _"])
      with "1.IH" [OF True _ ab] eq show ?thesis unfolding step by (simp split: text_step.splits)
    next
      case False
      then have "padcmp (version_key a) (version_key b) = order (cur a) - order (cur b)"
        by (subst padcmp_step) (simp add: hd0_key)
      with True False show ?thesis by (simp add: deb_text.simps [of a b])
    qed
  next
    case False
    then show ?thesis by (simp add: deb_text.simps [of a b])
  qed
qed

text \<open>A key of a number part, also where the number is missing.\<close>

definition number_key :: "string \<Rightarrow> int list" where
  "number_key s = int (length (takeWhile isdigit s)) # map byte (takeWhile isdigit s) @
     version_key (dropWhile isdigit s)"

lemma key_number:
  assumes "\<not> in_text s"
  shows "padcmp (version_key s) ys = padcmp (0 # number_key (skip_zeros s)) ys"
proof (cases "cur s = nul")
  case True
  then have "skip_zeros s = s" by (simp add: skip_zeros_id nul_def)
  moreover have "takeWhile isdigit s = []" "dropWhile isdigit s = s"
    using True by (cases s; simp)+
  ultimately have "number_key (skip_zeros s) = [0]"
    using True by (simp add: number_key_def key_end)
  moreover have "padcmp [] ys = padcmp [0, 0] ys"
    by (simp add: padcmp_step [of "[]" ys] padcmp_step [of "[0, 0]" ys]
        padcmp_step [of "[]" "tl ys"] padcmp_step [of "[0]" "tl ys"])
  ultimately show ?thesis using True by (simp add: key_end)
next
  case False
  then have "isdigit (cur s)" using assms by (simp add: in_text_def)
  with False show ?thesis
    by (subst version_key.simps) (simp add: number_key_def Let_def dropWhile_eq_drop)
qed

lemma deb_digits_spec:
  assumes "deb_digits a b f = (a2, b2, f2)"
  defines "da \<equiv> takeWhile isdigit a" and "db \<equiv> takeWhile isdigit b"
  shows "(length db < length da \<longrightarrow> isdigit (cur a2)) \<and>
    (length da < length db \<longrightarrow> \<not> isdigit (cur a2) \<and> isdigit (cur b2)) \<and>
    (length da = length db \<longrightarrow> \<not> isdigit (cur a2) \<and> \<not> isdigit (cur b2) \<and>
       a2 = dropWhile isdigit a \<and> b2 = dropWhile isdigit b \<and> (f \<noteq> 0 \<longrightarrow> f2 = f) \<and>
       (f = 0 \<longrightarrow> padcmp (map byte da @ u) (map byte db @ v) = (if f2 = 0 then padcmp u v else f2)))"
  using assms(1) unfolding da_def db_def
proof (induction a b f rule: deb_digits.induct)
  case (1 x a y b f)
  show ?case
  proof (cases "isdigit x \<and> isdigit y")
    case True
    let ?f = "if f = 0 then byte x - byte y else f"
    have "deb_digits a b ?f = (a2, b2, f2)" using "1.prems" True by simp
    from "1.IH" [OF True this] True show ?thesis
      by (auto simp: padcmp_step [of "_ # _"])
  next
    case False
    with "1.prems" show ?thesis by (auto split: if_splits)
  qed
qed (auto simp: cur_def split: list.splits if_splits)

lemma debvercmp_loop_key:
  "debvercmp_loop a b = Some n \<Longrightarrow> sgn n = sgn (padcmp (version_key a) (version_key b))"
proof (induction a b arbitrary: n rule: debvercmp_loop.induct)
  case (1 a b)
  show ?case
  proof (cases "cur a = nul \<and> cur b = nul")
    case True
    with "1.prems" show ?thesis by (simp add: debvercmp_loop.simps [of a b] key_end)
  next
    case False
    note K = deb_text_key [of a b]
    note loop = debvercmp_loop.simps [of a b, unfolded if_not_P [OF False]]
    show ?thesis
    proof (cases "deb_text a b")
      case Overrun
      with K show ?thesis by simp
    next
      case (Decided m)
      with K "1.prems" show ?thesis by (simp add: loop)
    next
      case (Continue a1 b1)
      obtain a2 b2 f where d: "deb_digits (skip_zeros a1) (skip_zeros b1) 0 = (a2, b2, f)"
        by (metis prod_cases3)
      let ?A = "skip_zeros a1" and ?B = "skip_zeros b1"
      let ?da = "takeWhile isdigit ?A" and ?db = "takeWhile isdigit ?B"
      note D = deb_digits_spec [OF d, of "version_key (dropWhile isdigit ?A)" "version_key (dropWhile isdigit ?B)"]
      have key: "padcmp (version_key a) (version_key b) = padcmp (number_key ?A) (number_key ?B)"
      proof -
        have nt: "\<not> in_text a1" "\<not> in_text b1"
          and "padcmp (version_key a) (version_key b) = padcmp (version_key a1) (version_key b1)"
          using K Continue by simp_all
        moreover have "padcmp (version_key a1) (version_key b1) = padcmp (0 # number_key ?A) (version_key b1)"
          by (rule key_number [OF nt(1)])
        moreover have "padcmp (0 # number_key ?A) (version_key b1) = padcmp (0 # number_key ?A) (0 # number_key ?B)"
          using key_number [OF nt(2)] padcmp_flip by metis
        ultimately show ?thesis by (simp add: padcmp_step [of "_ # _" "_ # _"])
      qed
      have num: "padcmp (number_key ?A) (number_key ?B) =
        (if length ?da \<noteq> length ?db then int (length ?da) - int (length ?db)
         else padcmp (map byte ?da @ version_key (dropWhile isdigit ?A))
           (map byte ?db @ version_key (dropWhile isdigit ?B)))"
        by (simp add: number_key_def padcmp_step [of "_ # _" "_ # _"])
      have step: "debvercmp_loop a b = (if isdigit (cur a2) then Some 1
             else if isdigit (cur b2) then Some (- 1)
             else if f \<noteq> 0 then Some f else debvercmp_loop a2 b2)"
        using Continue d by (simp add: loop)
      consider (Longer) "length ?db < length ?da" | (Shorter) "length ?da < length ?db"
        | (Equal) "length ?da = length ?db" by linarith
      then show ?thesis
      proof cases
        case Equal
        then have e: "\<not> isdigit (cur a2)" "\<not> isdigit (cur b2)" "a2 = dropWhile isdigit ?A" "b2 = dropWhile isdigit ?B"
          "padcmp (number_key ?A) (number_key ?B) = (if f = 0 then padcmp (version_key a2) (version_key b2) else f)"
          using D num by auto
        show ?thesis
        proof (cases "f = 0")
          case True
          with e step "1.prems" have "debvercmp_loop a2 b2 = Some n" by simp
          from "1.IH" [OF False Continue _ _ e(1,2) _ this] d True show ?thesis by (simp add: key e(5))
        next
          case False
          with e step "1.prems" show ?thesis by (simp add: key)
        qed
      qed (use D num step "1.prems" in \<open>simp_all add: key\<close>)
    qed
  qed
qed

text \<open>The text a version pointer stands for.\<close>

definition version_text :: "cstr \<Rightarrow> string" where
  "version_text v = (case v of None \<Rightarrow> [] | Some s \<Rightarrow> s)"

lemma debvercmp_result:
  obtains n where "debvercmp a b = Some n"
    "sgn n = sgn (padcmp (version_key (version_text a)) (version_key (version_text b)))"
proof -
  obtain n where n: "debvercmp a b = Some n"
    using debvercmp_loop_total by (auto simp: debvercmp_def)
  then show ?thesis
    using that debvercmp_loop_key by (simp add: debvercmp_def version_text_def)
qed

lemma debvercmp_sgn:
  "sgn (the (debvercmp a b)) = sgn (padcmp (version_key (version_text a)) (version_key (version_text b)))"
  by (rule debvercmp_result [of a b]) simp

interpretation deb_order: comparator "\<lambda>a b. the (debvercmp a b)"
  by (rule comparator_by_key [OF comparator_padcmp debvercmp_sgn])

section \<open>The order of Debian versions\<close>

text \<open>
  The reference, after the policy manual and without the code's \<open>order\<close>: a version is a sequence
  of pairs of a text without digits and a number. Texts are compared by their characters, where a
  tilde comes before the end of the text, the end before the letters and the letters before all
  other characters; numbers are compared by their value.
\<close>

datatype deb_char = Tilde | End_Of_Text | Letter int | Symbol int

fun deb_rank :: "deb_char \<Rightarrow> nat \<times> int" where
  "deb_rank Tilde = (0, 0)"
| "deb_rank End_Of_Text = (1, 0)"
| "deb_rank (Letter i) = (2, i)"
| "deb_rank (Symbol i) = (3, i)"

lemma deb_rank_inject: "deb_rank x = deb_rank y \<Longrightarrow> x = y"
  by (cases x; cases y) auto

instantiation deb_char :: linorder
begin

definition less_eq_deb_char :: "deb_char \<Rightarrow> deb_char \<Rightarrow> bool" where
  "x \<le> y \<longleftrightarrow> deb_rank x \<le> deb_rank y"

definition less_deb_char :: "deb_char \<Rightarrow> deb_char \<Rightarrow> bool" where
  "x < y \<longleftrightarrow> deb_rank x < deb_rank y"

instance
  by standard (auto simp: less_eq_deb_char_def less_deb_char_def dest: deb_rank_inject)

end

definition deb_char_of :: "char \<Rightarrow> deb_char" where
  "deb_char_of c = (if c = CHR ''~'' then Tilde else if isalpha c then Letter (byte c) else Symbol (sbyte c))"

definition digits_number :: "string \<Rightarrow> nat" where
  "digits_number ds = foldl (\<lambda>n d. 10 * n + nat (byte d - byte (CHR ''0''))) 0 ds"

definition is_text :: "char \<Rightarrow> bool" where
  "is_text c \<longleftrightarrow> c \<noteq> nul \<and> \<not> isdigit c"

type_synonym deb_part = "deb_char list \<times> nat"

function version_parts :: "string \<Rightarrow> deb_part list" where
  "version_parts s =
     (if cur s = nul then []
      else let rest = dropWhile is_text s
           in (map deb_char_of (takeWhile is_text s) @ [End_Of_Text], digits_number (takeWhile isdigit rest)) #
              version_parts (dropWhile isdigit rest))"
  by pat_completeness auto

lemma part_shorter:
  assumes "cur s \<noteq> nul"
  shows "length (dropWhile isdigit (dropWhile is_text s)) < length s"
proof (cases s)
  case (Cons c t)
  show ?thesis
  proof (cases "is_text c")
    case True
    with Cons length_dropWhile_le [of isdigit "dropWhile is_text t"] length_dropWhile_le [of is_text t] show ?thesis by simp
  next
    case False
    then have "isdigit c" using assms Cons by (simp add: is_text_def)
    with False Cons length_dropWhile_le [of isdigit t] show ?thesis by simp
  qed
qed (use assms in simp)

termination version_parts
  by (relation "measure length") (use part_shorter in auto)

declare version_parts.simps [simp del]

definition three_way :: "'a::linorder \<Rightarrow> 'a \<Rightarrow> int" where
  "three_way x y = (if x < y then - 1 else if x = y then 0 else 1)"

text \<open>A version that ends early has empty texts and zeros there.\<close>

definition hd_part :: "deb_part list \<Rightarrow> deb_part" where
  "hd_part ps = (case ps of [] \<Rightarrow> ([End_Of_Text], 0) | p # _ \<Rightarrow> p)"

function parts_cmp :: "deb_part list \<Rightarrow> deb_part list \<Rightarrow> int" where
  "parts_cmp ps qs =
     (if ps = [] \<and> qs = [] then 0
      else if hd_part ps \<noteq> hd_part qs then three_way (hd_part ps) (hd_part qs)
      else parts_cmp (tl ps) (tl qs))"
  by pat_completeness auto
termination parts_cmp
proof (relation "measure (\<lambda>(ps, qs). length ps + length qs)")
  fix ps qs :: "deb_part list" assume "\<not> (ps = [] \<and> qs = [])"
  then show "((tl ps, tl qs), (ps, qs)) \<in> measure (\<lambda>(ps, qs). length ps + length qs)" by (cases ps; cases qs) auto
qed simp

declare parts_cmp.simps [simp del]

text \<open>The code agrees, character by character and number by number.\<close>

lemma order_text:
  assumes "is_text c"
  shows "deb_char_of c = Tilde \<and> order c = - 1 \<or>
    deb_char_of c = Letter (order c) \<and> 0 < order c \<and> order c < 123 \<or> deb_char_of c = Symbol (order c - 256) \<and> 123 < order c"
proof -
  have "\<not> isalpha (CHR ''~'')" "\<not> isdigit (CHR ''~'')" by (simp_all add: lcfg_chr byte_def)
  moreover have "123 < sbyte c + 256"
    unfolding sbyte_def using byte_bounds(1) [of c] by (simp only: split: if_split) linarith
  moreover have "isalpha c \<Longrightarrow> 0 < byte c \<and> byte c < 123" by (auto simp: lcfg_chr)
  ultimately show ?thesis using assms by (auto simp: order_def deb_char_of_def is_text_def)
qed

lemma order_sgn:
  assumes "is_text c"
  shows "order c \<noteq> 0" and "sgn (order c) = three_way (deb_char_of c) End_Of_Text" and "deb_char_of c \<noteq> End_Of_Text"
    and "is_text d \<Longrightarrow> sgn (order c - order d) = three_way (deb_char_of c) (deb_char_of d)"
  using order_text [OF assms] order_text [of d]
  by (auto simp: three_way_def less_deb_char_def sgn_if)

lemma sbyte_inject: "sbyte c = sbyte d \<Longrightarrow> c = d"
proof -
  assume "sbyte c = sbyte d"
  then have "byte c = byte d"
    unfolding sbyte_def using byte_bounds [of c] byte_bounds [of d] by (simp only: split: if_split_asm)
  then show ?thesis by simp
qed

lemma deb_char_inject: "deb_char_of c = deb_char_of d \<Longrightarrow> c = d"
  by (auto simp: deb_char_of_def dest: sbyte_inject split: if_splits)

lemma three_way_simps [simp]: "three_way x x = 0" "three_way x y = 0 \<longleftrightarrow> x = y" "sgn (three_way x y) = three_way x y"
  by (auto simp: three_way_def)

lemma three_way_flip: "three_way y x = - three_way x y"
  by (auto simp: three_way_def)

lemma three_way_Cons: "three_way (x # xs) (y # ys) = (if x = y then three_way xs ys else three_way x y)"
  by (auto simp: three_way_def)

lemma three_way_Pair: "three_way (x, i) (y, j) = (if x = y then three_way i j else three_way x y)"
  by (auto simp: three_way_def)

abbreviation text_key :: "string \<Rightarrow> deb_char list" where
  "text_key s \<equiv> map deb_char_of s @ [End_Of_Text]"

lemma text_key_cmp:
  assumes "list_all is_text s" and "list_all is_text t"
  shows "sgn (padcmp (map order s @ 0 # xs) (map order t @ 0 # ys)) =
    (if s = t then sgn (padcmp xs ys) else three_way (text_key s) (text_key t)) \<and> (text_key s = text_key t \<longleftrightarrow> s = t)"
  using assms
proof (induction s arbitrary: t)
  case Nil
  then show ?case
    using order_sgn(1-3) order_sgn(3) [THEN not_sym]
    by (cases t) (auto simp: padcmp_step [of "_ # _" "_ # _"] three_way_Cons sgn_minus three_way_flip [of End_Of_Text])
next
  case (Cons c s)
  show ?case
  proof (cases t)
    case Nil
    then show ?thesis using Cons.prems order_sgn(1-3) [of c] by (simp add: padcmp_step [of "_ # _" "_ # _"] three_way_Cons)
  next
    case (Cons d t')
    with \<open>list_all is_text (c # s)\<close> \<open>list_all is_text t\<close> have "is_text c" "is_text d" by simp_all
    note o = order_sgn(4) [OF this]
    have "order c = order d \<longleftrightarrow> c = d"
    proof
      assume "order c = order d"
      with o show "c = d" by (auto dest: deb_char_inject)
    qed simp
    with Cons Cons.IH [of t'] Cons.prems o deb_char_inject [of c d] show ?thesis
      by (auto simp: padcmp_step [of "_ # _" "_ # _"] three_way_Cons)
  qed
qed

text \<open>Numbers.\<close>

abbreviation digit_value :: "char \<Rightarrow> nat" where
  "digit_value d \<equiv> nat (byte d - byte (CHR ''0''))"

lemma foldl_digits: "foldl (\<lambda>n d. 10 * n + digit_value d) a ds = a * 10 ^ length ds + digits_number ds"
proof (induction ds arbitrary: a)
  case (Cons d ds)
  show ?case
    using Cons [of "10 * a + digit_value d"] Cons [of "digit_value d"] by (simp add: digits_number_def algebra_simps)
qed (simp add: digits_number_def)

lemma digits_number_Cons: "digits_number (d # ds) = digit_value d * 10 ^ length ds + digits_number ds"
  using foldl_digits [of "digit_value d" ds] by (simp add: digits_number_def)

lemma digit_value_bounds:
  assumes "isdigit d"
  shows "digit_value d < 10 \<and> (d \<noteq> CHR ''0'' \<longrightarrow> 0 < digit_value d) \<and> int (digit_value d) = byte d - 48"
proof -
  have zero: "byte (CHR ''0'') = 48" by (simp add: byte_def)
  moreover have "48 \<le> byte d" "byte d \<le> 57" using assms by (simp_all add: isdigit_def)
  moreover have "d \<noteq> CHR ''0'' \<Longrightarrow> byte d \<noteq> 48" using byte_eq_iff [of d "CHR ''0''"] zero by simp
  ultimately show ?thesis by auto
qed

lemma digits_number_bound: "list_all isdigit ds \<Longrightarrow> digits_number ds < 10 ^ length ds"
proof (induction ds)
  case (Cons d ds)
  then have b: "digit_value d + 1 \<le> 10" "digits_number ds < 10 ^ length ds" using digit_value_bounds [of d] by auto
  then have "(digit_value d + 1) * 10 ^ length ds \<le> 10 * 10 ^ length ds" by (intro mult_le_mono1)
  moreover have "(digit_value d + 1) * 10 ^ length ds = digit_value d * 10 ^ length ds + 10 ^ length ds" by (simp only: add_mult_distrib mult_1)
  ultimately have "digit_value d * 10 ^ length ds + digits_number ds < 10 * 10 ^ length ds" using b(2) by linarith
  then show ?case by (simp only: digits_number_Cons list.size power_Suc add_Suc_right add_0_right Suc_eq_plus1 [symmetric])
qed (simp add: digits_number_def)

lemma digits_number_zeros: "digits_number (skip_zeros ds) = digits_number ds"
  by (induction ds) (auto simp: skip_zeros_def digits_number_Cons)

lemma more_digits:
  assumes "list_all isdigit ds" and "list_all isdigit es" and "cur es \<noteq> CHR ''0''" and "length ds < length es"
  shows "digits_number ds < digits_number es"
proof -
  from assms(4) obtain e es' where e: "es = e # es'" by (cases es) auto
  with assms(2,3) have "0 < digit_value e" using digit_value_bounds [of e] by simp
  then have "10 ^ length es' \<le> digit_value e * 10 ^ length es'" by simp
  then have "10 ^ length es' \<le> digits_number es" unfolding e digits_number_Cons by (rule trans_le_add1)
  moreover have "(10 :: nat) ^ length ds \<le> 10 ^ length es'" using assms(4) e by (intro power_increasing) auto
  ultimately show ?thesis using digits_number_bound [OF assms(1)] by linarith
qed

lemma same_digits:
  assumes "list_all isdigit ds" and "list_all isdigit es" and "length ds = length es"
  shows "sgn (padcmp (map byte ds @ xs) (map byte es @ ys)) =
    (if digits_number ds = digits_number es then sgn (padcmp xs ys) else three_way (digits_number ds) (digits_number es))"
  using assms(3,1,2)
proof (induction ds es rule: list_induct2)
  case (Cons d ds e es)
  note b = digits_number_bound [of ds] digits_number_bound [of es]
  note v = digit_value_bounds [of d] digit_value_bounds [of e]
  show ?case
  proof (cases "d = e")
    case True
    with Cons show ?thesis by (simp add: padcmp_step [of "_ # _" "_ # _"] digits_number_Cons three_way_def)
  next
    case False
    have lt: "digits_number (x # xs) < digits_number (y # ys)"
      if "digit_value x < digit_value y" "digits_number xs < 10 ^ length ys" "length xs = length ys" for x y xs ys
    proof -
      have "(digit_value x + 1) * 10 ^ length ys \<le> digit_value y * 10 ^ length ys" using that(1) by (intro mult_le_mono1) (simp only: Suc_eq_plus1 [symmetric] Suc_le_eq)
      with that(2,3) show ?thesis by (simp add: digits_number_Cons algebra_simps)
    qed
    have ints: "int (digit_value d) = byte d - 48" "int (digit_value e) = byte e - 48" using v Cons.prems by simp_all
    have bounds: "digits_number ds < 10 ^ length es" "digits_number es < 10 ^ length ds"
      using b Cons.prems Cons.hyps by simp_all
    have "byte d \<noteq> byte e" using False by simp
    then have step: "padcmp (map byte (d # ds) @ xs) (map byte (e # es) @ ys) = byte d - byte e"
      by (simp add: padcmp_step [of "_ # _" "_ # _"])
    from \<open>byte d \<noteq> byte e\<close> consider "byte d < byte e" | "byte e < byte d" by linarith
    then show ?thesis
    proof cases
      case 1
      then have "digit_value d < digit_value e" using ints by linarith
      from lt [OF this bounds(1) Cons.hyps] 1 show ?thesis unfolding step by (simp only: three_way_def) simp
    next
      case 2
      then have "digit_value e < digit_value d" using ints by linarith
      from lt [OF this bounds(2) Cons.hyps [symmetric]] 2 show ?thesis unfolding step by (simp only: three_way_def) simp
    qed
  qed
qed (simp add: digits_number_def)

lemma number_key_cmp:
  "sgn (padcmp (number_key (skip_zeros s)) (number_key (skip_zeros t))) =
     (if digits_number (takeWhile isdigit s) = digits_number (takeWhile isdigit t)
      then sgn (padcmp (version_key (dropWhile isdigit s)) (version_key (dropWhile isdigit t)))
      else three_way (digits_number (takeWhile isdigit s)) (digits_number (takeWhile isdigit t)))"
proof -
  have zero: "isdigit (CHR ''0'')" by (simp add: lcfg_chr byte_def)
  have take: "takeWhile isdigit (skip_zeros s) = skip_zeros (takeWhile isdigit s)" for s
    by (induction s) (simp_all add: skip_zeros_def zero)
  have drop: "dropWhile isdigit (skip_zeros s) = dropWhile isdigit s" for s
    by (induction s) (simp_all add: skip_zeros_def zero)
  let ?ds = "takeWhile isdigit (skip_zeros s)" and ?es = "takeWhile isdigit (skip_zeros t)"
  have num: "digits_number (takeWhile isdigit s) = digits_number (takeWhile isdigit (skip_zeros s))" for s
    by (simp add: take digits_number_zeros)
  have all: "list_all isdigit (takeWhile isdigit s)" for s by (auto simp: list_all_iff dest: set_takeWhileD)
  have "cur (dropWhile (\<lambda>c. c = CHR ''0'') s) \<noteq> CHR ''0''" for s :: string by (induction s) (simp_all add: nul_def)
  then have nz: "cur (takeWhile isdigit (skip_zeros s)) \<noteq> CHR ''0''" for s unfolding take by (simp add: skip_zeros_def)
  have key: "padcmp (number_key (skip_zeros s)) (number_key (skip_zeros t)) =
    (if length ?ds \<noteq> length ?es then int (length ?ds) - int (length ?es)
     else padcmp (map byte ?ds @ version_key (dropWhile isdigit s)) (map byte ?es @ version_key (dropWhile isdigit t)))"
    by (simp add: number_key_def padcmp_step [of "_ # _" "_ # _"] drop)
  note d = all [of "skip_zeros s"] all [of "skip_zeros t"] nz [of s] nz [of t]
  consider "length ?ds < length ?es" | "length ?es < length ?ds" | "length ?ds = length ?es" by linarith
  then show ?thesis
  proof cases
    case 1
    with more_digits [OF d(1,2,4)] show ?thesis unfolding key num [of s] num [of t] by (simp add: three_way_def)
  next
    case 2
    with more_digits [OF d(2,1,3)] show ?thesis unfolding key num [of s] num [of t] by (simp add: three_way_def)
  next
    case 3
    then show ?thesis using same_digits [OF d(1,2) 3] unfolding key num [of s] num [of t] by simp
  qed
qed

lemma version_key_text: "version_key s = map order (takeWhile is_text s) @ version_key (dropWhile is_text s)"
proof (induction s)
  case (Cons c s)
  show ?case
  proof (cases "is_text c")
    case True
    then have "in_text (c # s)" by (simp add: in_text_def is_text_def)
    with True Cons show ?thesis by (simp add: key_text)
  qed simp
qed simp

lemma padcmp_append: "(\<And>zs. padcmp xs zs = padcmp ys zs) \<Longrightarrow> padcmp (us @ xs) zs = padcmp (us @ ys) zs"
  by (induction us arbitrary: zs) (simp_all add: padcmp_step [of "_ # _"])

lemma version_key_part:
  "padcmp (version_key s) zs =
     padcmp (map order (takeWhile is_text s) @ 0 # number_key (skip_zeros (dropWhile is_text s))) zs"
proof -
  have "\<not> in_text (dropWhile is_text s)"
    by (induction s) (auto simp: in_text_def is_text_def)
  then show ?thesis
    by (subst version_key_text) (intro padcmp_append key_number)
qed

text \<open>A part, where a version that has ended goes on with empty parts.\<close>

lemma version_part:
  "hd_part (version_parts s) =
     (text_key (takeWhile is_text s), digits_number (takeWhile isdigit (dropWhile is_text s)))"
  "tl (version_parts s) = version_parts (dropWhile isdigit (dropWhile is_text s))"
proof -
  have "takeWhile is_text s = []" "dropWhile is_text s = s" "takeWhile isdigit s = []" "dropWhile isdigit s = s" if "cur s = nul"
    using that by (cases s; simp add: is_text_def)+
  then show "hd_part (version_parts s) =
     (text_key (takeWhile is_text s), digits_number (takeWhile isdigit (dropWhile is_text s)))"
    and "tl (version_parts s) = version_parts (dropWhile isdigit (dropWhile is_text s))"
    by (cases "cur s = nul"; simp add: version_parts.simps [of s] hd_part_def digits_number_def Let_def)+
qed

lemma version_parts_empty: "version_parts s = [] \<longleftrightarrow> cur s = nul"
  by (simp add: version_parts.simps [of s] Let_def)

lemma parts_cmp_key: "sgn (padcmp (version_key s) (version_key t)) = parts_cmp (version_parts s) (version_parts t)"
proof (induction "length s + length t" arbitrary: s t rule: less_induct)
  case less
  let ?s = "dropWhile is_text s" and ?t = "dropWhile is_text t"
  let ?rs = "dropWhile isdigit ?s" and ?rt = "dropWhile isdigit ?t"
  show ?case
  proof (cases "cur s = nul \<and> cur t = nul")
    case True
    then show ?thesis by (simp add: key_end version_parts.simps parts_cmp.simps)
  next
    case False
    have "length ?rs \<le> length s" "length ?rt \<le> length t"
      using length_dropWhile_le [of isdigit ?s] length_dropWhile_le [of is_text s]
        length_dropWhile_le [of isdigit ?t] length_dropWhile_le [of is_text t] by linarith+
    moreover have "length ?rs < length s \<or> length ?rt < length t" using False part_shorter by blast
    ultimately have IH: "sgn (padcmp (version_key ?rs) (version_key ?rt)) = parts_cmp (version_parts ?rs) (version_parts ?rt)"
      by (intro less) linarith
    have texts: "list_all is_text (takeWhile is_text s)" "list_all is_text (takeWhile is_text t)"
      by (auto simp: list_all_iff dest: set_takeWhileD)
    have "padcmp (version_key s) (version_key t) =
      padcmp (map order (takeWhile is_text s) @ 0 # number_key (skip_zeros ?s))
        (map order (takeWhile is_text t) @ 0 # number_key (skip_zeros ?t))"
      using version_key_part [of s] version_key_part [of t] padcmp_flip by metis
    then have "sgn (padcmp (version_key s) (version_key t)) =
      (if hd_part (version_parts s) \<noteq> hd_part (version_parts t)
       then three_way (hd_part (version_parts s)) (hd_part (version_parts t))
       else sgn (padcmp (version_key ?rs) (version_key ?rt)))"
      using text_key_cmp [OF texts, of "number_key (skip_zeros ?s)" "number_key (skip_zeros ?t)"]
      by (auto simp: version_part(1) three_way_Pair number_key_cmp)
    then show ?thesis
      using False IH version_parts_empty [of s] version_parts_empty [of t]
      by (subst parts_cmp.simps) (auto simp: version_part(2))
  qed
qed

text \<open>
  C4: \<open>debvercmp\<close> always returns and never moves a pointer past a terminator, and the sign of its
  value is that of the order of Debian versions: \<open>parts_cmp\<close> of the texts and numbers that the two
  versions consist of. So a tilde sorts before the end of the text, letters before other
  characters, and leading zeros of numbers do not count.
\<close>
theorem debvercmp_correct:
  "\<exists>n. debvercmp a b = Some n \<and> sgn n = parts_cmp (version_parts (version_text a)) (version_parts (version_text b))"
  by (rule debvercmp_result [of a b]) (simp add: parts_cmp_key)

text \<open>The classes of \<open>compare_vstrings\<close>: no version, the wildcard, any other.\<close>

definition version_class :: "cstr \<Rightarrow> int" where
  "version_class v = (if isempty v then 0 else if strcmp (or_default v []) LCFG_PKG_WILDCARD = 0 then 1 else 2)"

definition class_key :: "cstr \<Rightarrow> int list" where
  "class_key v = (if version_class v = 2 then version_key (version_text v) else [])"

definition vstring_order :: "cstr \<Rightarrow> cstr \<Rightarrow> int" where
  "vstring_order v w =
     (if version_class v - version_class w = 0 then padcmp (class_key v) (class_key w)
      else version_class v - version_class w)"

lemma comparator_vstring_order: "comparator vstring_order"
  unfolding vstring_order_def
  by (rule comparator_then [OF comparator_diff comparator.comparator_image [OF comparator_padcmp]])

lemma compare_vstrings_sgn: "compare_vstrings v w = sgn (vstring_order v w)"
proof -
  have "compare_vstrings v w = sgn (if version_class v = 2 \<and> version_class w = 2
      then the (debvercmp v w) else version_class v - version_class w)"
    by (auto simp: compare_vstrings_def version_class_def Let_def sgn_if)
  also have "\<dots> = sgn (vstring_order v w)"
    by (auto simp: vstring_order_def class_key_def debvercmp_sgn version_class_def)
  finally show ?thesis .
qed

interpretation vstring_order: comparator compare_vstrings
  by (rule comparator_by_key [OF comparator_vstring_order, of _ "\<lambda>v. v"])
    (simp add: compare_vstrings_sgn)

lemma compare_vstrings_range: "compare_vstrings v w \<in> {- 1, 0, 1}"
  by (auto simp: compare_vstrings_sgn sgn_if)

lemma compare_vstrings_same [simp]: "compare_vstrings v v = 0"
  by (rule vstring_order.cmp_refl)

end
