(* ===== verification/Lcfg_Derivation.thy ===== *)
theory Lcfg_Derivation
  imports Lcfg_Utils Lcfg_SList
begin

text \<open>
  Derivations and lists of derivations (\<open>common/derivation/derivation.c\<close>,
  \<open>common/derivation/list.c\<close>, \<open>include/derivation.h\<close>): which lines of which files a
  package or resource came from.

  A derivation in a list is only changed in place when no one else holds it, and cloned
  otherwise, so lists hold derivations by value and the reference counts are left out.
  The array of line numbers is a list; the capacity the code keeps for it is the function
  \<open>lines_capacity\<close>. The cached length is modelled: -1 forces recalculation.
\<close>

section \<open>Derivations\<close>

record LCFGDerivation =
  drv_file :: cstr
  drv_lines :: "32 word list"
  drv_length :: int

definition lcfgderivation_new :: LCFGDerivation where
  "lcfgderivation_new = \<lparr>drv_file = None, drv_lines = [], drv_length = - 1\<rparr>"

definition ResetLength :: "LCFGDerivation \<Rightarrow> LCFGDerivation" where
  "ResetLength drv = drv\<lparr>drv_length := - 1\<rparr>"

definition lcfgderivation_is_valid :: "LCFGDerivation \<Rightarrow> bool" where
  "lcfgderivation_is_valid drv \<longleftrightarrow> \<not> isempty (drv_file drv)"

definition lcfgderivation_has_file :: "LCFGDerivation \<Rightarrow> bool" where
  "lcfgderivation_has_file drv \<longleftrightarrow> \<not> isempty (drv_file drv)"

definition lcfgderivation_set_file :: "LCFGDerivation \<Rightarrow> cstr \<Rightarrow> bool \<times> LCFGDerivation" where
  "lcfgderivation_set_file drv new_value = (True, ResetLength (drv\<lparr>drv_file := new_value\<rparr>))"

definition lcfgderivation_get_file :: "LCFGDerivation \<Rightarrow> cstr" where
  "lcfgderivation_get_file drv = drv_file drv"

definition lcfgderivation_has_lines :: "LCFGDerivation option \<Rightarrow> bool" where
  "lcfgderivation_has_lines drv \<longleftrightarrow> (case drv of None \<Rightarrow> False | Some d \<Rightarrow> 0 < length (drv_lines d))"

definition lcfgderivation_has_line :: "LCFGDerivation option \<Rightarrow> 32 word \<Rightarrow> bool" where
  "lcfgderivation_has_line drv line \<longleftrightarrow>
     (case drv of None \<Rightarrow> False | Some d \<Rightarrow> list_ex (\<lambda>l. l = line) (drv_lines d))"

text \<open>
  The capacity of the array before a line is stored at index \<open>lines_count\<close>; a capacity of
  0 is the \<open>NULL\<close> array.
\<close>

definition DEFAULT_LINES_SIZE :: nat where "DEFAULT_LINES_SIZE = 4"

definition lines_capacity :: "nat \<Rightarrow> nat \<Rightarrow> nat" where
  "lines_capacity lines_count lines_size =
     (let new_size = (if lines_size = 0 then DEFAULT_LINES_SIZE
                      else if lines_size < lines_count + 1 then 2 * lines_size
                      else lines_count + 1)
      in if lines_size = 0 then new_size else if lines_size < new_size then new_size else lines_size)"

definition lcfgderivation_merge_line ::
    "LCFGDerivation \<Rightarrow> 32 word \<Rightarrow> LCFGChange \<times> LCFGDerivation" where
  "lcfgderivation_merge_line drv line =
     (if lcfgderivation_has_line (Some drv) line then (LCFG_CHANGE_NONE, drv)
      else (LCFG_CHANGE_ADDED, ResetLength (drv\<lparr>drv_lines := drv_lines drv @ [line]\<rparr>)))"

fun merge_lines_loop :: "32 word list \<Rightarrow> LCFGChange \<Rightarrow> LCFGDerivation \<Rightarrow> LCFGChange \<times> LCFGDerivation"
where
  "merge_lines_loop [] change drv = (change, drv)"
| "merge_lines_loop (line # rest) change drv =
     (if \<not> LCFGChangeOK change then (change, drv)
      else case lcfgderivation_merge_line drv line of
        (add_change, drv') \<Rightarrow>
          merge_lines_loop rest
            (if add_change = LCFG_CHANGE_ERROR then LCFG_CHANGE_ERROR
             else if add_change = LCFG_CHANGE_ADDED then LCFG_CHANGE_MODIFIED else change) drv')"

definition lcfgderivation_merge_lines ::
    "LCFGDerivation \<Rightarrow> LCFGDerivation option \<Rightarrow> LCFGChange \<times> LCFGDerivation" where
  "lcfgderivation_merge_lines drv1 drv2 =
     (if \<not> lcfgderivation_has_lines drv2 then (LCFG_CHANGE_NONE, drv1)
      else merge_lines_loop (drv_lines (the drv2)) LCFG_CHANGE_NONE drv1)"

definition lcfgderivation_clone :: "LCFGDerivation option \<Rightarrow> LCFGDerivation option" where
  "lcfgderivation_clone drv =
     (case drv of
        None \<Rightarrow> Some lcfgderivation_new
      | Some d \<Rightarrow>
          let (ok, clone) = (if \<not> isempty (drv_file d)
                             then lcfgderivation_set_file lcfgderivation_new (drv_file d)
                             else (True, lcfgderivation_new))
          in if \<not> ok then None
             else let (change, clone') = lcfgderivation_merge_lines clone drv
                  in if LCFGChangeOK change then Some clone' else None)"

text \<open>\<open>qsort\<close> with \<open>uint_compare\<close>: the order of the numbers.\<close>

definition lcfgderivation_sort_lines :: "LCFGDerivation \<Rightarrow> LCFGDerivation" where
  "lcfgderivation_sort_lines drv =
     (if lcfgderivation_has_lines (Some drv) then drv\<lparr>drv_lines := sort (drv_lines drv)\<rparr> else drv)"

text \<open>The number of digits of a line, and the text of \<open>%u\<close>.\<close>

fun digit_count :: "nat \<Rightarrow> nat" where
  "digit_count line = (if 9 < line then Suc (digit_count (line div 10)) else 1)"

definition digit_char :: "nat \<Rightarrow> char" where "digit_char d = ''0123456789'' ! d"

fun decimal :: "nat \<Rightarrow> string" where
  "decimal n = (if 9 < n then decimal (n div 10) @ [digit_char (n mod 10)] else [digit_char n])"

declare digit_count.simps [simp del] decimal.simps [simp del]

definition lcfgderivation_get_length :: "LCFGDerivation \<Rightarrow> int \<times> LCFGDerivation" where
  "lcfgderivation_get_length drv =
     (if \<not> lcfgderivation_is_valid drv then (- 1, drv)
      else if 0 \<le> drv_length drv then (drv_length drv, drv)
      else let len = int (length (or_default (drv_file drv) [])) +
             (if lcfgderivation_has_lines (Some drv)
              then 1 + (int (length (drv_lines drv)) - 1) +
                   sum_list (map (\<lambda>line. int (digit_count (unat line))) (drv_lines drv))
              else 0)
           in (len, drv\<lparr>drv_length := len\<rparr>))"

fun lines_text :: "32 word list \<Rightarrow> string" where
  "lines_text [] = []"
| "lines_text [line] = decimal (unat line)"
| "lines_text (line # rest) = decimal (unat line) @ '','' @ lines_text rest"

text \<open>The string, \<open>None\<close> for the return value -1, and the derivation with its cache.\<close>

definition lcfgderivation_to_string :: "LCFGDerivation \<Rightarrow> bits \<Rightarrow> string option \<times> LCFGDerivation" where
  "lcfgderivation_to_string drv options =
     (if \<not> lcfgderivation_is_valid drv then (None, drv)
      else (Some (or_default (drv_file drv) [] @
              (if lcfgderivation_has_lines (Some drv) then '':'' @ lines_text (drv_lines drv) else []) @
              (if has_bit options LCFG_OPT_NEWLINE then [CHR 0x0A] else [])),
            snd (lcfgderivation_get_length drv)))"

definition skip_commas :: "string \<Rightarrow> string" where
  "skip_commas s = dropWhile (\<lambda>c. c = CHR '','') s"

lemma skip_commas_length: "length (skip_commas s) \<le> length s"
  by (simp add: skip_commas_def length_dropWhile_le)

lemma parse_progress:
  "strtoul start 0 = (v, rest) \<Longrightarrow> rest \<noteq> start \<Longrightarrow> length (skip_commas rest) < length start"
  using strtoul_progress [of start 0 v rest] skip_commas_length [of rest] by simp

text \<open>The line numbers behind the colon: the text that is not a number is the error.\<close>

function parse_lines :: "string \<Rightarrow> LCFGDerivation \<Rightarrow> string + LCFGDerivation" where
  "parse_lines start drv =
     (if start = [] then Inr drv
      else case strtoul start 0 of (v, end) \<Rightarrow>
        if end = start then Inl start
        else case lcfgderivation_merge_line drv (ucast v) of (add_rc, drv') \<Rightarrow>
          if LCFGChangeError add_rc then Inl start
          else parse_lines (skip_commas end) drv')"
  by pat_completeness auto
termination
  by (relation "measure (length \<circ> fst)") (simp, metis parse_progress in_measure comp_apply fst_conv)

declare parse_lines.simps [simp del]

definition bad_line_number :: "string \<Rightarrow> string" where
  "bad_line_number start =
     ''Invalid derivation line number '' @ [CHR 0x27] @ start @ [CHR 0x27]"

definition lcfgderivation_from_string :: "cstr \<Rightarrow> string + LCFGDerivation" where
  "lcfgderivation_from_string input =
     (if isempty input then Inl ''Invalid derivation string''
      else let s = skip_space (or_default input []) in
        if s = [] then Inl ''Invalid derivation string''
        else case strrchr_split s (CHR '':'') of
          None \<Rightarrow> Inr (snd (lcfgderivation_set_file lcfgderivation_new (Some s)))
        | Some (file, after) \<Rightarrow>
            (case parse_lines (skip_commas after) lcfgderivation_new of
               Inl start \<Rightarrow> Inl (bad_line_number start)
             | Inr drv \<Rightarrow> Inr (snd (lcfgderivation_set_file drv (Some file)))))"

definition lcfgderivation_compare_files :: "LCFGDerivation \<Rightarrow> LCFGDerivation \<Rightarrow> int" where
  "lcfgderivation_compare_files drv1 drv2 =
     strcmp (or_default (drv_file drv1) []) (or_default (drv_file drv2) [])"

definition lcfgderivation_same_file :: "LCFGDerivation \<Rightarrow> LCFGDerivation \<Rightarrow> bool" where
  "lcfgderivation_same_file drv1 drv2 \<longleftrightarrow> lcfgderivation_compare_files drv1 drv2 = 0"

definition lcfgderivation_compare :: "LCFGDerivation \<Rightarrow> LCFGDerivation \<Rightarrow> int" where
  "lcfgderivation_compare drv1 drv2 = lcfgderivation_compare_files drv1 drv2"

definition lcfgderivation_match :: "LCFGDerivation \<Rightarrow> string \<Rightarrow> bool" where
  "lcfgderivation_match drv file \<longleftrightarrow> strcmp (or_default (drv_file drv) []) file = 0"

section \<open>Lists of derivations\<close>

record LCFGDerivationList = "LCFGDerivation slist" +
  drvlist_id :: "64 word"

definition lcfgderivlist_new :: LCFGDerivationList where
  "lcfgderivlist_new = \<lparr>nodes = [], list_size = 0, drvlist_id = 0\<rparr>"

text \<open>The list argument may be \<open>NULL\<close> where the code allows it.\<close>

definition drv_nodes :: "LCFGDerivationList option \<Rightarrow> LCFGDerivation list" where
  "drv_nodes drvlist = (case drvlist of None \<Rightarrow> [] | Some l \<Rightarrow> nodes l)"

definition lcfgderivlist_is_empty :: "LCFGDerivationList option \<Rightarrow> bool" where
  "lcfgderivlist_is_empty drvlist \<longleftrightarrow> (case drvlist of None \<Rightarrow> True | Some l \<Rightarrow> lcfgslist_is_empty l)"

definition lcfgderivlist_append ::
    "LCFGDerivationList \<Rightarrow> LCFGDerivation \<Rightarrow> LCFGChange \<times> LCFGDerivationList" where
  "lcfgderivlist_append drvlist drv = lcfgslist_append lcfgderivation_is_valid drvlist drv"

fun derivlist_clone_loop :: "LCFGDerivation list \<Rightarrow> LCFGDerivationList \<Rightarrow> LCFGDerivationList option" where
  "derivlist_clone_loop [] clone = Some clone"
| "derivlist_clone_loop (drv # rest) clone =
     (case lcfgderivlist_append clone drv of (rc, clone') \<Rightarrow>
        if rc \<noteq> LCFG_CHANGE_ADDED then None else derivlist_clone_loop rest clone')"

definition lcfgderivlist_clone :: "LCFGDerivationList option \<Rightarrow> LCFGDerivationList option" where
  "lcfgderivlist_clone drvlist = derivlist_clone_loop (drv_nodes drvlist) lcfgderivlist_new"

definition lcfgderivlist_find_node :: "LCFGDerivationList option \<Rightarrow> string \<Rightarrow> nat option" where
  "lcfgderivlist_find_node drvlist want_file =
     (if lcfgderivlist_is_empty drvlist then None
      else first_node (\<lambda>drv. lcfgderivation_is_valid drv \<and> lcfgderivation_match drv want_file)
        (drv_nodes drvlist))"

definition lcfgderivlist_find_derivation :: "LCFGDerivationList option \<Rightarrow> string \<Rightarrow> LCFGDerivation option"
where
  "lcfgderivlist_find_derivation drvlist want_file =
     map_option (\<lambda>i. drv_nodes drvlist ! i) (lcfgderivlist_find_node drvlist want_file)"

definition lcfgderivlist_contains :: "LCFGDerivationList option \<Rightarrow> string \<Rightarrow> bool" where
  "lcfgderivlist_contains drvlist want_file \<longleftrightarrow> lcfgderivlist_find_node drvlist want_file \<noteq> None"

text \<open>
  In place or through a clone, the node afterwards holds the old derivation with the
  lines of the new one merged in.
\<close>

definition lcfgderivlist_merge_derivation ::
    "LCFGDerivationList \<Rightarrow> LCFGDerivation \<Rightarrow> LCFGChange \<times> LCFGDerivationList" where
  "lcfgderivlist_merge_derivation drvlist new_drv =
     (if \<not> lcfgderivation_is_valid new_drv then (LCFG_CHANGE_ERROR, drvlist)
      else case lcfgderivlist_find_node (Some drvlist)
          (or_default (lcfgderivation_get_file new_drv) []) of
        None \<Rightarrow> lcfgderivlist_append drvlist new_drv
      | Some i \<Rightarrow>
          (case lcfgderivation_merge_lines (nodes drvlist ! i) (Some new_drv) of
             (change, drv) \<Rightarrow> (change, drvlist\<lparr>nodes := (nodes drvlist)[i := drv]\<rparr>)))"

definition lcfgderivlist_merge_file_line ::
    "LCFGDerivationList \<Rightarrow> cstr \<Rightarrow> int \<Rightarrow> LCFGChange \<times> LCFGDerivationList" where
  "lcfgderivlist_merge_file_line drvlist filename line =
     (if isempty filename then (LCFG_CHANGE_NONE, drvlist)
      else case lcfgderivlist_find_node (Some drvlist) (or_default filename []) of
        None \<Rightarrow>
          let (set_ok, new_drv) = lcfgderivation_set_file lcfgderivation_new filename in
          if \<not> set_ok then (LCFG_CHANGE_ERROR, drvlist)
          else let (change, drv) =
                 (if 0 \<le> line then lcfgderivation_merge_line new_drv (word_of_int line)
                  else (LCFG_CHANGE_NONE, new_drv))
               in if LCFGChangeOK change then lcfgderivlist_append drvlist drv else (change, drvlist)
      | Some i \<Rightarrow>
          if \<not> 0 \<le> line then (LCFG_CHANGE_NONE, drvlist)
          else if lcfgderivation_has_line (Some (nodes drvlist ! i)) (word_of_int line)
          then (LCFG_CHANGE_NONE, drvlist)
          else case lcfgderivation_merge_line (nodes drvlist ! i) (word_of_int line) of
            (change, drv) \<Rightarrow> (change, drvlist\<lparr>nodes := (nodes drvlist)[i := drv]\<rparr>))"

fun merge_list_loop ::
    "LCFGDerivation list \<Rightarrow> LCFGChange \<Rightarrow> LCFGDerivationList \<Rightarrow> LCFGChange \<times> LCFGDerivationList" where
  "merge_list_loop [] change drvlist = (change, drvlist)"
| "merge_list_loop (drv # rest) change drvlist =
     (if \<not> LCFGChangeOK change then (change, drvlist)
      else if \<not> lcfgderivation_is_valid drv then merge_list_loop rest change drvlist
      else case lcfgderivlist_merge_derivation drvlist drv of
        (merge_rc, drvlist') \<Rightarrow>
          merge_list_loop rest
            (if merge_rc = LCFG_CHANGE_ERROR then LCFG_CHANGE_ERROR
             else if merge_rc \<noteq> LCFG_CHANGE_NONE then LCFG_CHANGE_MODIFIED else change) drvlist')"

definition lcfgderivlist_merge_list ::
    "LCFGDerivationList \<Rightarrow> LCFGDerivationList option \<Rightarrow> LCFGChange \<times> LCFGDerivationList" where
  "lcfgderivlist_merge_list drvlist1 drvlist2 =
     (if lcfgderivlist_is_empty drvlist2 then (LCFG_CHANGE_NONE, drvlist1)
      else merge_list_loop (drv_nodes drvlist2) LCFG_CHANGE_NONE drvlist1)"

definition drv_space :: "char \<Rightarrow> bool" where
  "drv_space c \<longleftrightarrow> c \<in> {CHR '' '', CHR 0x0A, CHR 0x0D, CHR 0x09}"

definition derivlist_parse_error :: "string \<Rightarrow> string \<Rightarrow> string" where
  "derivlist_parse_error token parse_msg =
     ''Failed to parse derivation '' @ [CHR 0x27] @ token @ [CHR 0x27] @ '': '' @ parse_msg"

definition derivlist_add_error :: "string \<Rightarrow> string" where
  "derivlist_add_error token =
     ''Failed to add derivation '' @ [CHR 0x27] @ token @ [CHR 0x27] @ '' to list''"

fun derivlist_tokens :: "string list \<Rightarrow> LCFGDerivationList \<Rightarrow> string + LCFGDerivationList" where
  "derivlist_tokens [] drvlist = Inr drvlist"
| "derivlist_tokens (token # rest) drvlist =
     (case lcfgderivation_from_string (Some token) of
        Inl parse_msg \<Rightarrow> Inl (derivlist_parse_error token parse_msg)
      | Inr drv \<Rightarrow>
          (case lcfgderivlist_merge_derivation drvlist drv of
             (change, drvlist') \<Rightarrow>
               if LCFGChangeError change then Inl (derivlist_add_error token)
               else derivlist_tokens rest drvlist'))"

definition lcfgderivlist_from_string :: "cstr \<Rightarrow> string + LCFGDerivationList" where
  "lcfgderivlist_from_string input =
     (if isempty input then Inl ''Invalid derivation string''
      else let s = skip_space (or_default input []) in
        if s = [] then Inl ''Invalid derivation string''
        else derivlist_tokens (strtok drv_space s) lcfgderivlist_new)"

definition lcfgderivlist_merge_string_list ::
    "LCFGDerivationList \<Rightarrow> cstr \<Rightarrow> LCFGChange \<times> LCFGDerivationList" where
  "lcfgderivlist_merge_string_list drvlist input =
     (case lcfgderivlist_from_string input of
        Inl _ \<Rightarrow> (LCFG_CHANGE_ERROR, drvlist)
      | Inr extra_drvlist \<Rightarrow> lcfgderivlist_merge_list drvlist (Some extra_drvlist))"

text \<open>
  The length that sizes the output buffer, and the text; both update the caches, the text
  also sorts the lines.
\<close>

fun string_length_loop :: "LCFGDerivation list \<Rightarrow> int \<times> LCFGDerivation list" where
  "string_length_loop [] = (0, [])"
| "string_length_loop (drv # rest) =
     (case lcfgderivation_get_length drv of (drvlen, drv') \<Rightarrow>
        case string_length_loop rest of (len, rest') \<Rightarrow>
          ((if 0 < drvlen then drvlen + 1 else 0) + len, drv' # rest'))"

definition lcfgderivlist_get_string_length ::
    "LCFGDerivationList option \<Rightarrow> int \<times> LCFGDerivationList option" where
  "lcfgderivlist_get_string_length drvlist =
     (if lcfgderivlist_is_empty drvlist then (0, drvlist)
      else case string_length_loop (drv_nodes drvlist) of (len, ns) \<Rightarrow>
        (if 0 < len then len - 1 else len, map_option (\<lambda>l. l\<lparr>nodes := ns\<rparr>) drvlist))"

fun to_string_loop :: "LCFGDerivation list \<Rightarrow> bool \<Rightarrow> string \<times> LCFGDerivation list" where
  "to_string_loop [] first = ([], [])"
| "to_string_loop (drv # rest) first =
     (if \<not> lcfgderivation_is_valid drv
      then (case to_string_loop rest first of (s, rest') \<Rightarrow> (s, drv # rest'))
      else let drv1 = lcfgderivation_sort_lines drv;
               (drv_len, drv2) = lcfgderivation_get_length drv1
           in if 0 < drv_len then
                let (text, drv3) = lcfgderivation_to_string drv2 LCFG_OPT_NONE;
                    (s, rest') = to_string_loop rest False
                in ((if first then [] else '' '') @ the text @ s, drv3 # rest')
              else let (s, rest') = to_string_loop rest first in (s, drv2 # rest'))"

definition lcfgderivlist_to_string ::
    "LCFGDerivationList option \<Rightarrow> bits \<Rightarrow> string \<times> LCFGDerivationList option" where
  "lcfgderivlist_to_string drvlist options =
     (case lcfgderivlist_get_string_length drvlist of (_, l) \<Rightarrow>
        case to_string_loop (drv_nodes l) True of (s, ns) \<Rightarrow>
          (s @ (if has_bit options LCFG_OPT_NEWLINE then [CHR 0x0A] else []),
           map_option (\<lambda>l. l\<lparr>nodes := ns\<rparr>) l))"

fun derivlist_print_loop :: "LCFGDerivation list \<Rightarrow> bool \<Rightarrow> string" where
  "derivlist_print_loop [] first = []"
| "derivlist_print_loop (drv # rest) first =
     (if \<not> lcfgderivation_is_valid drv then derivlist_print_loop rest first
      else (if first then [] else '' '') @ the (fst (lcfgderivation_to_string drv LCFG_OPT_NONE)) @
           derivlist_print_loop rest False)"

definition lcfgderivlist_print :: "LCFGDerivationList \<Rightarrow> string" where
  "lcfgderivlist_print drvlist =
     (if lcfgslist_is_empty drvlist then []
      else derivlist_print_loop (nodes drvlist) True @ [CHR 0x0A])"

section \<open>The array of lines\<close>

text \<open>The slot written by \<open>lcfgderivation_merge_line\<close> is inside the array.\<close>

lemma merge_line_in_bounds:
  "lines_count \<le> lines_size \<Longrightarrow>
     lines_count < lines_capacity lines_count lines_size \<and> lines_size \<le> lines_capacity lines_count lines_size"
  by (auto simp: lines_capacity_def Let_def DEFAULT_LINES_SIZE_def)

lemma has_line_iff [simp]: "lcfgderivation_has_line (Some d) line \<longleftrightarrow> line \<in> set (drv_lines d)"
  by (simp add: lcfgderivation_has_line_def list_ex_iff)

lemma has_lines_iff [simp]: "lcfgderivation_has_lines (Some d) \<longleftrightarrow> drv_lines d \<noteq> []"
  by (simp add: lcfgderivation_has_lines_def)

section \<open>Numbers\<close>

lemma length_decimal: "length (decimal n) = digit_count n"
  by (induction n rule: decimal.induct) (simp add: decimal.simps digit_count.simps)

lemma digit_char_val:
  assumes "d < 10"
  shows "digit_val (digit_char d) = d" "isdigit (digit_char d)" "digit_char d = CHR ''0'' \<longleftrightarrow> d = 0"
proof -
  have "d \<in> {0, 1, 2, 3, 4, 5, 6, 7, 8, 9}" using assms by auto
  then have "digit_val (digit_char d) = d \<and> isdigit (digit_char d) \<and> (digit_char d = CHR ''0'' \<longleftrightarrow> d = 0)"
    by (elim insertE emptyE) (simp_all add: digit_char_def digit_val_def lcfg_chr byte_def)
  then show "digit_val (digit_char d) = d" "isdigit (digit_char d)" "digit_char d = CHR ''0'' \<longleftrightarrow> d = 0"
    by auto
qed

lemma read_digits_decimal:
  "read_digits 10 acc (decimal n @ r) = read_digits 10 (acc * 10 ^ length (decimal n) + n) r"
proof (induction n arbitrary: acc r rule: decimal.induct)
  case (1 n)
  show ?case
  proof (cases "9 < n")
    case True
    then have dec: "decimal n = decimal (n div 10) @ [digit_char (n mod 10)]"
      by (simp add: decimal.simps [of n])
    have "n = n div 10 * 10 + n mod 10" by simp
    then show ?thesis
      unfolding dec using "1.IH" [OF True] by (simp add: digit_char_val algebra_simps)
  next
    case False
    then show ?thesis by (simp add: decimal.simps [of n] digit_char_val)
  qed
qed

lemma decimal_digits: "c \<in> set (decimal n) \<Longrightarrow> isdigit c"
  by (induction n rule: decimal.induct) (subst (asm) (2) decimal.simps, auto simp: digit_char_val split: if_splits)

lemma decimal_hd: "decimal n \<noteq> [] \<and> (hd (decimal n) = CHR ''0'' \<longleftrightarrow> n = 0)"
proof (induction n rule: decimal.induct)
  case (1 n)
  then show ?case by (cases "9 < n") (auto simp: decimal.simps [of n] digit_char_val hd_append)
qed

lemma decimal_hd_digit: "isdigit (hd (decimal n))"
  by (rule decimal_digits [of _ n]) (simp add: decimal_hd)

definition number_ends :: "string \<Rightarrow> bool" where
  "number_ends r \<longleftrightarrow> (r = [] \<or> hd r = CHR '','')"

lemma strtoul_decimal:
  assumes "number_ends r" and "n < 2 ^ 64"
  shows "strtoul (decimal n @ r) 0 = (of_nat n, r)"
proof -
  let ?s = "decimal n @ r"
  have ne: "decimal n \<noteq> []" and z: "hd (decimal n) = CHR ''0'' \<longleftrightarrow> n = 0"
    using decimal_hd [of n] by auto
  then have cur: "cur ?s = hd (decimal n)" by (cases "decimal n") auto
  have dig: "isdigit (hd (decimal n))" by (rule decimal_hd_digit)
  have skip: "skip_space ?s = ?s" using ne dig
    by (cases "decimal n") (auto simp: skip_space_def lcfg_chr)
  have sign: "cur ?s \<noteq> CHR ''-''" "cur ?s \<noteq> CHR ''+''"
    using dig unfolding cur by (auto simp: lcfg_chr byte_def)
  have end_r: "read_digits b a r = (a, r)" if "b \<le> 36" for a b
    using assms(1) that by (cases r) (auto simp: number_ends_def digit_val_def lcfg_chr byte_def)
  show ?thesis
  proof (cases "n = 0")
    case True
    then have s: "?s = CHR ''0'' # r" by (simp add: decimal.simps digit_char_def)
    have "cur r \<noteq> CHR ''x''" "cur r \<noteq> CHR ''X''"
      using assms(1) by (cases r; auto simp: number_ends_def nul_def)+
    then have "strtoul_start ?s 0 = (False, 8, ?s)"
      using skip sign s by (simp add: strtoul_start_def Let_def)
    moreover have "read_digits 8 0 ?s = (0, r)"
      unfolding s using end_r by (simp add: digit_val_def lcfg_chr byte_def)
    moreover have "digit_val (cur ?s) = 0" unfolding s by (simp add: digit_val_def lcfg_chr byte_def)
    ultimately show ?thesis using True by (simp add: strtoul_def)
  next
    case False
    then have "cur ?s \<noteq> CHR ''0''" using z cur by simp
    then have "strtoul_start ?s 0 = (False, 10, ?s)"
      using skip sign by (simp add: strtoul_start_def Let_def)
    moreover have "digit_val (cur ?s) < 10"
      using dig unfolding cur by (auto simp: digit_val_def lcfg_chr)
    moreover have "read_digits 10 0 ?s = (n, r)"
      unfolding read_digits_decimal using end_r by simp
    ultimately show ?thesis using assms(2) by (simp add: strtoul_def)
  qed
qed

lemma line_number: "unat (line :: 32 word) < 2 ^ 64" "ucast (of_nat (unat line) :: 64 word) = line"
  "ucast (ucast line :: 64 word) = line"
proof -
  have "unat line < 2 ^ LENGTH(32)" by (rule unsigned_less)
  then show "unat line < 2 ^ 64" by simp
  show "ucast (of_nat (unat line) :: 64 word) = line"
    by transfer (simp add: take_bit_take_bit)
  then show "ucast (ucast line :: 64 word) = line" by simp
qed

lemma parse_line_step:
  assumes "number_ends r" and "line \<notin> set (drv_lines drv)"
  shows "parse_lines (decimal (unat line) @ r) drv =
    parse_lines (skip_commas r) (ResetLength (drv\<lparr>drv_lines := drv_lines drv @ [line]\<rparr>))"
proof -
  have "decimal (unat line) @ r \<noteq> []" "r \<noteq> decimal (unat line) @ r"
    using decimal_hd [of "unat line"] by auto
  then show ?thesis
    using assms strtoul_decimal [OF assms(1) line_number(1)]
    by (subst parse_lines.simps) (simp add: lcfgderivation_merge_line_def line_number(3))
qed

lemma skip_commas_decimal: "skip_commas ('','' @ decimal n @ r) = decimal n @ r"
proof -
  have "isdigit (hd (decimal n))" by (rule decimal_hd_digit)
  then have "hd (decimal n) \<noteq> CHR '',''" by (auto simp: lcfg_chr byte_def)
  then show ?thesis using decimal_hd [of n] by (cases "decimal n") (auto simp: skip_commas_def)
qed

lemma lines_text_starts: "ls \<noteq> [] \<Longrightarrow> \<exists>r. lines_text ls = decimal (unat (hd ls)) @ r"
  by (cases ls rule: lines_text.cases) auto

lemma parse_lines_text:
  assumes "distinct ls" and "set ls \<inter> set (drv_lines drv) = {}"
  shows "parse_lines (lines_text ls) drv =
    Inr (if ls = [] then drv else ResetLength (drv\<lparr>drv_lines := drv_lines drv @ ls\<rparr>))"
  using assms
proof (induction ls arbitrary: drv rule: lines_text.induct)
  case 1
  then show ?case by (simp add: parse_lines.simps)
next
  case (2 line)
  then show ?case using parse_line_step [of "[]" line drv]
    by (simp add: number_ends_def skip_commas_def parse_lines.simps)
next
  case (3 line l2 rest)
  let ?d = "ResetLength (drv\<lparr>drv_lines := drv_lines drv @ [line]\<rparr>)"
  obtain r where r: "lines_text (l2 # rest) = decimal (unat l2) @ r"
    using lines_text_starts [of "l2 # rest"] by auto
  have "parse_lines (lines_text (line # l2 # rest)) drv =
      parse_lines (skip_commas ('','' @ lines_text (l2 # rest))) ?d"
    using 3(2,3) parse_line_step [of "'','' @ lines_text (l2 # rest)" line drv]
    by (simp add: number_ends_def)
  also have "\<dots> = parse_lines (lines_text (l2 # rest)) ?d"
    unfolding r skip_commas_decimal ..
  also have "\<dots> = Inr (ResetLength (?d\<lparr>drv_lines := drv_lines ?d @ l2 # rest\<rparr>))"
    using "3.IH" [of ?d] 3(2,3) by (simp add: ResetLength_def)
  finally show ?case by (simp add: ResetLength_def)
qed

section \<open>Printing and parsing one derivation\<close>

text \<open>The text without a newline, and its length.\<close>

definition drv_text :: "LCFGDerivation \<Rightarrow> string" where
  "drv_text d = or_default (drv_file d) [] @ (if drv_lines d \<noteq> [] then '':'' @ lines_text (drv_lines d) else [])"

lemma length_lines_text:
  "ls \<noteq> [] \<Longrightarrow> int (length (lines_text ls)) =
     (int (length ls) - 1) + sum_list (map (\<lambda>line. int (digit_count (unat line))) ls)"
  by (induction ls rule: lines_text.induct) (auto simp: length_decimal)

text \<open>
  The invariant: a file name, no line twice, and the cached length is right where it is
  not reset.
\<close>

definition drv_ok :: "LCFGDerivation \<Rightarrow> bool" where
  "drv_ok d \<longleftrightarrow> lcfgderivation_is_valid d \<and> distinct (drv_lines d) \<and>
     (0 \<le> drv_length d \<longrightarrow> drv_length d = int (length (drv_text d)))"

lemma get_length_ok:
  assumes "drv_ok d"
  shows "lcfgderivation_get_length d = (int (length (drv_text d)), d\<lparr>drv_length := int (length (drv_text d))\<rparr>)"
proof (cases "0 \<le> drv_length d")
  case True
  then have "drv_length d = int (length (drv_text d))" using assms by (simp add: drv_ok_def)
  then show ?thesis using assms by (cases d) (simp add: lcfgderivation_get_length_def drv_ok_def)
next
  case False
  then show ?thesis using assms length_lines_text [of "drv_lines d"]
    by (auto simp: lcfgderivation_get_length_def drv_ok_def drv_text_def Let_def)
qed

lemma drv_text_cache [simp]: "drv_text (d\<lparr>drv_length := n\<rparr>) = drv_text d"
  by (simp add: drv_text_def)

lemma drv_ok_cache: "drv_ok d \<Longrightarrow> drv_ok (d\<lparr>drv_length := int (length (drv_text d))\<rparr>)"
  by (simp add: drv_ok_def lcfgderivation_is_valid_def)

lemma drv_text_nonempty: "drv_ok d \<Longrightarrow> drv_text d \<noteq> []"
  by (auto simp: drv_ok_def lcfgderivation_is_valid_def drv_text_def or_default_empty isempty_def
      split: option.splits)

lemma to_string_ok:
  "drv_ok d \<Longrightarrow> lcfgderivation_to_string d options =
     (Some (drv_text d @ (if has_bit options LCFG_OPT_NEWLINE then [CHR 0x0A] else [])),
      d\<lparr>drv_length := int (length (drv_text d))\<rparr>)"
  by (simp add: lcfgderivation_to_string_def get_length_ok) (simp add: drv_ok_def drv_text_def)

lemma sort_lines_text_length: "length (drv_text (lcfgderivation_sort_lines d)) = length (drv_text d)"
proof -
  have m: "mset (sort (drv_lines d)) = mset (drv_lines d)" by simp
  have ne: "sort (drv_lines d) = [] \<longleftrightarrow> drv_lines d = []" using m by (metis mset_zero_iff)
  have "sum_list (map f (sort (drv_lines d))) = sum_list (map f (drv_lines d))" for f :: "32 word \<Rightarrow> int"
    using m by (metis mset_map sum_mset_sum_list)
  then have "length (lines_text (sort (drv_lines d))) = length (lines_text (drv_lines d))"
    if "drv_lines d \<noteq> []"
    using that ne length_lines_text [of "drv_lines d"] length_lines_text [of "sort (drv_lines d)"]
    by (auto simp: m [THEN mset_eq_length])
  then show ?thesis using ne by (auto simp: lcfgderivation_sort_lines_def drv_text_def)
qed

lemma sort_lines_ok: "drv_ok d \<Longrightarrow> drv_ok (lcfgderivation_sort_lines d)"
proof -
  assume "drv_ok d"
  moreover have "drv_length (lcfgderivation_sort_lines d) = drv_length d"
    "lcfgderivation_is_valid (lcfgderivation_sort_lines d) = lcfgderivation_is_valid d"
    "distinct (drv_lines (lcfgderivation_sort_lines d)) = distinct (drv_lines d)"
    by (auto simp: lcfgderivation_sort_lines_def lcfgderivation_is_valid_def)
  ultimately show ?thesis by (simp add: drv_ok_def sort_lines_text_length)
qed

text \<open>A file name that survives: no white space and, without lines, no colon.\<close>

definition name_ok :: "LCFGDerivation \<Rightarrow> bool" where
  "name_ok d \<longleftrightarrow> (\<forall>c\<in>set (or_default (drv_file d) []). \<not> isspace c) \<and>
     (drv_lines d = [] \<longrightarrow> CHR '':'' \<notin> set (or_default (drv_file d) []))"

lemma strrchr_split_last: "c \<notin> set t \<Longrightarrow> strrchr_split (s @ c # t) c = Some (s, t)"
proof (induction s)
  case Nil
  have "c \<notin> set t \<Longrightarrow> strrchr_split t c = None" by (induction t) auto
  with Nil show ?case by simp
qed simp

lemma strrchr_split_none: "c \<notin> set t \<Longrightarrow> strrchr_split t c = None"
  by (induction t) auto

lemma lines_text_chars: "c \<in> set (lines_text ls) \<Longrightarrow> isdigit c \<or> c = CHR '',''"
  by (induction ls rule: lines_text.induct) (auto dest: decimal_digits)

lemma from_string_text:
  assumes "drv_ok d" and "name_ok d"
  shows "lcfgderivation_from_string (Some (drv_text d)) = Inr (ResetLength d)"
proof -
  obtain f where f: "drv_file d = Some f" "f \<noteq> []"
    using assms(1) by (auto simp: drv_ok_def lcfgderivation_is_valid_def elim: not_isemptyE)
  have "\<not> isspace (hd f)" using assms(2) f by (simp add: name_ok_def)
  then have skip: "skip_space (f @ x) = f @ x" for x using f(2) by (auto intro: skip_space_id)
  note simps = lcfgderivation_from_string_def lcfgderivation_set_file_def lcfgderivation_new_def
    ResetLength_def drv_text_def
  show ?thesis
  proof (cases "drv_lines d = []")
    case True
    then have "CHR '':'' \<notin> set f" using assms(2) f by (simp add: name_ok_def)
    with True f skip [of "[]"] show ?thesis by (cases d) (simp add: simps strrchr_split_none)
  next
    case False
    have colon: "CHR '':'' \<notin> set (lines_text (drv_lines d))"
      using lines_text_chars by (fastforce simp: lcfg_chr byte_def)
    obtain r where "lines_text (drv_lines d) = decimal (unat (hd (drv_lines d))) @ r"
      using lines_text_starts [OF False] by blast
    then have "skip_commas (lines_text (drv_lines d)) = lines_text (drv_lines d)"
      using decimal_hd_digit [of "unat (hd (drv_lines d))"] decimal_hd [of "unat (hd (drv_lines d))"]
      by (cases "decimal (unat (hd (drv_lines d)))") (auto simp: skip_commas_def lcfg_chr byte_def)
    moreover have "distinct (drv_lines d)" using assms(1) by (simp add: drv_ok_def)
    ultimately have "parse_lines (skip_commas (lines_text (drv_lines d))) lcfgderivation_new =
        Inr (ResetLength (lcfgderivation_new\<lparr>drv_lines := drv_lines d\<rparr>))"
      using parse_lines_text [of "drv_lines d" lcfgderivation_new] False
      by (simp add: lcfgderivation_new_def)
    with False f skip colon show ?thesis
      by (cases d) (simp add: simps strrchr_split_last)
  qed
qed

section \<open>Printing and parsing a list\<close>

definition drv_key :: "LCFGDerivation \<Rightarrow> string" where
  "drv_key d = or_default (drv_file d) []"

interpretation drv_keys: keyed_list drv_key "\<lambda>j k. strcmp j k = 0"
  by unfold_locales (auto simp: str_order.cmp_eq_iff intro: str_order.cmp_eq_trans)

definition drvlist_ok :: "LCFGDerivationList \<Rightarrow> bool" where
  "drvlist_ok l \<longleftrightarrow> slist_ok l \<and> (\<forall>d\<in>set (nodes l). drv_ok d) \<and>
     sorted_wrt (\<lambda>x y. \<not> strcmp (drv_key x) (drv_key y) = 0) (nodes l)"

text \<open>The derivation after printing: sorted lines and a filled cache.\<close>

definition printed :: "LCFGDerivation \<Rightarrow> LCFGDerivation" where
  "printed d = (lcfgderivation_sort_lines d)\<lparr>drv_length := int (length (drv_text (lcfgderivation_sort_lines d)))\<rparr>"

definition cached :: "LCFGDerivation \<Rightarrow> LCFGDerivation" where
  "cached d = d\<lparr>drv_length := int (length (drv_text d))\<rparr>"

lemma string_length_loop_ok:
  "\<forall>d\<in>set ds. drv_ok d \<Longrightarrow>
     string_length_loop ds = (sum_list (map (\<lambda>d. int (length (drv_text d)) + 1) ds), map cached ds)"
proof (induction ds)
  case (Cons d ds)
  then show ?case using drv_text_nonempty [of d]
    by (simp add: get_length_ok cached_def)
qed simp

lemma to_string_loop_ok:
  "\<forall>d\<in>set ds. drv_ok d \<Longrightarrow> to_string_loop ds first =
     ((if first \<or> ds = [] then [] else '' '') @ join_texts (map (\<lambda>d. drv_text (lcfgderivation_sort_lines d)) ds),
      map printed ds)"
proof (induction ds arbitrary: first)
  case (Cons d ds)
  let ?d = "lcfgderivation_sort_lines d"
  have ok: "drv_ok ?d" "lcfgderivation_is_valid d"
    using Cons.prems sort_lines_ok by (auto simp: drv_ok_def)
  have "0 < length (drv_text ?d)" using drv_text_nonempty [OF ok(1)] by simp
  then show ?case
    using Cons ok drv_ok_cache [OF ok(1)]
    by (cases ds) (auto simp: get_length_ok to_string_ok printed_def has_bit_def LCFG_OPT_NONE_def Let_def)
qed simp

lemma join_texts_length:
  "ds \<noteq> [] \<Longrightarrow> int (length (join_texts (map f ds))) = sum_list (map (\<lambda>d. int (length (f d)) + 1) ds) - 1"
proof (induction ds)
  case (Cons d ds)
  then show ?case by (cases ds) auto
qed simp

lemma derivlist_text_length:
  assumes "drvlist_ok l"
  shows "int (length (fst (lcfgderivlist_to_string (Some l) options))) =
    fst (lcfgderivlist_get_string_length (Some l)) +
    (if has_bit options LCFG_OPT_NEWLINE then 1 else 0)"
proof (cases "nodes l = []")
  case True
  then have "list_size l = 0" using assms by (simp add: drvlist_ok_def slist_ok_def)
  with True show ?thesis
    by (simp add: lcfgderivlist_to_string_def lcfgderivlist_get_string_length_def
        lcfgderivlist_is_empty_def lcfgslist_is_empty_def drv_nodes_def)
next
  case False
  let ?n = "sum_list (map (\<lambda>d. int (length (drv_text d)) + 1) (nodes l))"
  have ok: "\<forall>d\<in>set (nodes l). drv_ok d" using assms by (simp add: drvlist_ok_def)
  have ok': "\<forall>d\<in>set (map cached (nodes l)). drv_ok d"
    using ok drv_ok_cache by (auto simp: cached_def)
  have pos: "0 < ?n" using False ok drv_text_nonempty
    by (cases "nodes l") (auto intro!: add_pos_nonneg sum_list_nonneg)
  have "\<not> lcfgderivlist_is_empty (Some l)"
    using assms False by (simp add: lcfgderivlist_is_empty_def drvlist_ok_def)
  then have len: "lcfgderivlist_get_string_length (Some l) =
      (?n - 1, Some (l\<lparr>nodes := map cached (nodes l)\<rparr>))"
    using string_length_loop_ok [OF ok] pos
    by (simp add: lcfgderivlist_get_string_length_def drv_nodes_def)
  have "sum_list (map (\<lambda>d. int (length (drv_text (lcfgderivation_sort_lines d))) + 1) (map cached (nodes l))) = ?n"
    by (simp add: sort_lines_text_length cached_def comp_def)
  then show ?thesis
    unfolding lcfgderivlist_to_string_def len
    using False to_string_loop_ok [OF ok', of True]
      join_texts_length [of "map cached (nodes l)" "\<lambda>d. drv_text (lcfgderivation_sort_lines d)"]
    by (simp add: drv_nodes_def)
qed

text \<open>
  C34: the buffer of \<open>lcfgderivlist_to_string\<close> is exactly as long as its text: the length
  that \<open>lcfgderivlist_get_string_length\<close> computes beforehand, from cached lengths where
  there are any, is the number of characters written. (The code asserts it.)
\<close>
theorem derivlist_length_correct:
  assumes "drvlist_ok l"
  shows "int (length (fst (lcfgderivlist_to_string (Some l) options))) =
    fst (lcfgderivlist_get_string_length (Some l)) +
    (if has_bit options LCFG_OPT_NEWLINE then 1 else 0)"
  by (rule derivlist_text_length [OF assms])

text \<open>Asking for the length twice, or before printing, changes nothing.\<close>

lemma cached_cached [simp]: "cached (cached d) = cached d"
  by (simp add: cached_def)

lemma derivlist_length_again:
  assumes "drvlist_ok l"
  shows "\<exists>l'. snd (lcfgderivlist_get_string_length (Some l)) = Some l' \<and> drvlist_ok l' \<and>
    lcfgderivlist_is_empty (Some l') = lcfgderivlist_is_empty (Some l) \<and>
    lcfgderivlist_get_string_length (Some l') = (fst (lcfgderivlist_get_string_length (Some l)), Some l') \<and>
    lcfgderivlist_to_string (Some l') options = lcfgderivlist_to_string (Some l) options"
proof (cases "lcfgderivlist_is_empty (Some l)")
  case True
  then show ?thesis using assms by (simp add: lcfgderivlist_get_string_length_def)
next
  case False
  let ?l = "l\<lparr>nodes := map cached (nodes l)\<rparr>"
  have ok: "\<forall>d\<in>set (nodes l). drv_ok d" using assms by (simp add: drvlist_ok_def)
  then have ok': "\<forall>d\<in>set (nodes ?l). drv_ok d" using drv_ok_cache by (auto simp: cached_def)
  have key: "drv_key (cached d) = drv_key d" for d by (simp add: cached_def drv_key_def)
  have l': "drvlist_ok ?l" using assms ok' by (simp add: drvlist_ok_def slist_ok_def sorted_wrt_map key)
  have empty: "\<not> lcfgderivlist_is_empty (Some ?l)"
    using False by (simp add: lcfgderivlist_is_empty_def lcfgslist_is_empty_def)
  have len: "(\<Sum>d\<leftarrow>map cached (nodes l). int (length (drv_text d)) + 1) = (\<Sum>d\<leftarrow>nodes l. int (length (drv_text d)) + 1)"
    by (simp add: cached_def comp_def)
  have once: "snd (lcfgderivlist_get_string_length (Some l)) = Some ?l"
    using string_length_loop_ok [OF ok] False
    by (simp add: lcfgderivlist_get_string_length_def drv_nodes_def split_def)
  have twice: "lcfgderivlist_get_string_length (Some ?l) = (fst (lcfgderivlist_get_string_length (Some l)), Some ?l)"
    using string_length_loop_ok [OF ok] string_length_loop_ok [OF ok'] False empty len
    by (simp add: lcfgderivlist_get_string_length_def drv_nodes_def split_def comp_def)
  have "lcfgderivlist_to_string (Some ?l) options = lcfgderivlist_to_string (Some l) options"
    unfolding lcfgderivlist_to_string_def twice using once by (simp add: split_def)
  with once twice l' False empty show ?thesis by blast
qed

section \<open>Round trip of lists\<close>

lemma find_drv_node_eq:
  assumes "drvlist_ok l"
  shows "lcfgderivlist_find_node (Some l) f = first_node (\<lambda>d. strcmp (drv_key d) f = 0) (nodes l)"
proof -
  have "first_node (\<lambda>d. lcfgderivation_is_valid d \<and> lcfgderivation_match d f) ds =
      first_node (\<lambda>d. strcmp (drv_key d) f = 0) ds"
    if "\<forall>d\<in>set ds. drv_ok d" for ds
    using that by (induction ds) (auto simp: lcfgderivation_match_def drv_key_def drv_ok_def)
  with assms show ?thesis
    by (auto simp: lcfgderivlist_find_node_def lcfgderivlist_is_empty_def drvlist_ok_def drv_nodes_def)
qed

lemma drvlist_ok_new [simp]: "drvlist_ok lcfgderivlist_new"
  by (simp add: drvlist_ok_def slist_ok_def lcfgderivlist_new_def)

lemma drv_ok_reset: "drv_ok d \<Longrightarrow> drv_ok (ResetLength d)"
  by (simp add: drv_ok_def ResetLength_def lcfgderivation_is_valid_def)

lemma merge_absent:
  assumes "drvlist_ok l" and "drv_ok d" and "\<forall>x\<in>set (nodes l). \<not> strcmp (drv_key x) (drv_key d) = 0"
  shows "lcfgderivlist_merge_derivation l d =
      (LCFG_CHANGE_ADDED, l\<lparr>nodes := nodes l @ [d], list_size := list_size l + 1\<rparr>)"
    and "drvlist_ok (l\<lparr>nodes := nodes l @ [d], list_size := list_size l + 1\<rparr>)"
proof -
  have none: "first_node (\<lambda>x. strcmp (drv_key x) (drv_key d) = 0) (nodes l) = None"
    using assms(3) by (simp add: first_node_None_iff)
  then show "lcfgderivlist_merge_derivation l d =
      (LCFG_CHANGE_ADDED, l\<lparr>nodes := nodes l @ [d], list_size := list_size l + 1\<rparr>)"
    using assms(2) by (simp add: lcfgderivlist_merge_derivation_def find_drv_node_eq [OF assms(1)]
      drv_key_def [symmetric] lcfgderivation_get_file_def lcfgderivlist_append_def
      lcfgslist_append_simp drv_ok_def)
  show "drvlist_ok (l\<lparr>nodes := nodes l @ [d], list_size := list_size l + 1\<rparr>)"
    using assms(1,2) drv_keys.unique_append [OF _ none] by (auto simp: drvlist_ok_def slist_ok_def)
qed

lemma derivlist_tokens_texts:
  assumes "\<forall>d\<in>set ds. drv_ok d \<and> name_ok d" and "drvlist_ok l"
    and "sorted_wrt (\<lambda>x y. \<not> strcmp (drv_key x) (drv_key y) = 0) (nodes l @ ds)"
  shows "derivlist_tokens (map drv_text ds) l =
    Inr (l\<lparr>nodes := nodes l @ map ResetLength ds, list_size := list_size l + length ds\<rparr>)"
  using assms
proof (induction ds arbitrary: l)
  case (Cons d ds)
  let ?d = "ResetLength d"
  let ?l = "l\<lparr>nodes := nodes l @ [?d], list_size := list_size l + 1\<rparr>"
  have key: "drv_key ?d = drv_key d" by (simp add: drv_key_def ResetLength_def)
  have d: "drv_ok ?d" "lcfgderivation_from_string (Some (drv_text d)) = Inr ?d"
    using Cons.prems(1) from_string_text drv_ok_reset by auto
  have new: "\<forall>x\<in>set (nodes l). \<not> strcmp (drv_key x) (drv_key ?d) = 0"
    using Cons.prems(3) by (auto simp: key sorted_wrt_append)
  note m = merge_absent [OF Cons.prems(2) d(1) new]
  have "sorted_wrt (\<lambda>x y. \<not> strcmp (drv_key x) (drv_key y) = 0) (nodes ?l @ ds)"
    using Cons.prems(3) by (auto simp: key sorted_wrt_append)
  from Cons.IH [OF _ m(2) this] Cons.prems(1) show ?case by (simp add: d(2) m(1))
qed simp

lemma drv_text_no_space:
  assumes "drv_ok d" and "name_ok d" and "c \<in> set (drv_text d)"
  shows "\<not> isspace c"
proof -
  have "\<not> isspace c" if "isdigit c \<or> c = CHR '','' \<or> c = CHR '':''"
    using that by (auto simp: lcfg_chr byte_def)
  then show ?thesis
    using assms(2,3) lines_text_chars by (auto simp: drv_text_def name_ok_def split: if_splits)
qed

lemma drv_key_wrappers [simp]:
  "drv_key (lcfgderivation_sort_lines d) = drv_key d" "drv_key (cached d) = drv_key d"
  "drv_key (ResetLength d) = drv_key d"
  by (simp_all add: drv_key_def lcfgderivation_sort_lines_def cached_def ResetLength_def)

text \<open>
  C14: printing a list of derivations and reading the text back. For a non-empty list that
  satisfies the invariant, with file names free of white space (and of colons where a
  derivation has no lines), \<open>lcfgderivlist_from_string\<close> accepts what
  \<open>lcfgderivlist_to_string\<close> prints, and yields the same files in the same order, each with
  the same lines in ascending order.
\<close>
theorem derivlist_string_roundtrip:
  assumes "drvlist_ok l" and "nodes l \<noteq> []" and "\<forall>d\<in>set (nodes l). name_ok d"
  shows "\<exists>r. lcfgderivlist_from_string (Some (fst (lcfgderivlist_to_string (Some l) options))) = Inr r \<and>
    drvlist_ok r \<and>
    map (\<lambda>d. (drv_file d, drv_lines d)) (nodes r) = map (\<lambda>d. (drv_file d, sort (drv_lines d))) (nodes l)"
proof -
  let ?ds = "map (\<lambda>d. lcfgderivation_sort_lines (cached d)) (nodes l)"
  let ?nl = "if has_bit options LCFG_OPT_NEWLINE then [CHR 0x0A] else []"
  have sorted_sort: "sort ls = [] \<longleftrightarrow> ls = []" for ls :: "32 word list"
    by (metis mset_sort mset_zero_iff)
  have ok: "\<forall>d\<in>set (nodes l). drv_ok d" using assms(1) by (simp add: drvlist_ok_def)
  then have ok': "\<forall>d\<in>set (map cached (nodes l)). drv_ok d"
    using drv_ok_cache by (auto simp: cached_def)
  then have "\<forall>d\<in>set ?ds. drv_ok d" using sort_lines_ok by auto
  moreover have "\<forall>d\<in>set ?ds. name_ok d"
    using assms(3) sorted_sort by (auto simp: name_ok_def lcfgderivation_sort_lines_def cached_def)
  ultimately have okd: "\<forall>d\<in>set ?ds. drv_ok d \<and> name_ok d" by blast
  have "fst (lcfgderivlist_to_string (Some l) options) = join_texts (map drv_text ?ds) @ ?nl"
    using to_string_loop_ok [OF ok', of True] string_length_loop_ok [OF ok] assms(1,2)
    by (simp add: lcfgderivlist_to_string_def lcfgderivlist_get_string_length_def
        lcfgderivlist_is_empty_def drvlist_ok_def drv_nodes_def comp_def)
  moreover obtain d ds where ds: "?ds = d # ds" using assms(2) by (cases "nodes l") auto
  moreover have "skip_space (join_texts (map drv_text ?ds) @ ?nl) = join_texts (map drv_text ?ds) @ ?nl"
    and "join_texts (map drv_text ?ds) @ ?nl \<noteq> []"
  proof -
    have d: "drv_text d \<noteq> []" "\<not> isspace (hd (drv_text d))"
      using okd drv_text_nonempty [of d] drv_text_no_space [of d "hd (drv_text d)"] unfolding ds by auto
    obtain r where "join_texts (map drv_text ?ds) = drv_text d @ r"
      unfolding ds by (cases ds) auto
    then show "skip_space (join_texts (map drv_text ?ds) @ ?nl) = join_texts (map drv_text ?ds) @ ?nl"
      "join_texts (map drv_text ?ds) @ ?nl \<noteq> []" using d by (auto intro!: skip_space_id)
  qed
  moreover have "strtok drv_space (join_texts (map drv_text ?ds) @ ?nl) = map drv_text ?ds"
  proof (rule strtok_join)
    show "\<forall>t\<in>set (map drv_text ?ds). t \<noteq> [] \<and> (\<forall>c\<in>set t. \<not> drv_space c)"
      using okd drv_text_nonempty drv_text_no_space
      by (fastforce simp: drv_space_def lcfg_chr byte_def)
    show "strtok drv_space ?nl = []" "drv_space (CHR '' '')" "?nl = [] \<or> drv_space (hd ?nl)"
      by (auto simp: drv_space_def strtok.simps)
  qed
  moreover have sorted: "sorted_wrt (\<lambda>x y. \<not> strcmp (drv_key x) (drv_key y) = 0) ?ds"
    using assms(1) by (simp add: drvlist_ok_def sorted_wrt_map)
  moreover have "sorted_wrt (\<lambda>x y. \<not> strcmp (drv_key x) (drv_key y) = 0) (map ResetLength ?ds)"
    using sorted by (simp add: sorted_wrt_map)
  then have "drvlist_ok (lcfgderivlist_new\<lparr>nodes := map ResetLength ?ds, list_size := length ?ds\<rparr>)"
    using okd drv_ok_reset by (auto simp: drvlist_ok_def slist_ok_def)
  moreover have "derivlist_tokens (map drv_text ?ds) lcfgderivlist_new =
      Inr (lcfgderivlist_new\<lparr>nodes := map ResetLength ?ds, list_size := length ?ds\<rparr>)"
    using derivlist_tokens_texts [OF okd drvlist_ok_new] sorted by (simp add: lcfgderivlist_new_def)
  moreover have "map (\<lambda>d. (drv_file d, drv_lines d)) (map ResetLength ?ds) =
      map (\<lambda>d. (drv_file d, sort (drv_lines d))) (nodes l)"
    by (auto simp: ResetLength_def lcfgderivation_sort_lines_def cached_def)
  ultimately show ?thesis by (simp add: lcfgderivlist_from_string_def)
qed

theorem derivlist_string_roundtrip_witness:
  "\<exists>r. lcfgderivlist_from_string (Some (fst (lcfgderivlist_to_string
      (Some \<lparr>nodes = [\<lparr>drv_file = Some ''a'', drv_lines = [7, 3], drv_length = - 1\<rparr>], list_size = 1,
        drvlist_id = 0\<rparr>) LCFG_OPT_NONE))) = Inr r \<and>
    map (\<lambda>d. (drv_file d, drv_lines d)) (nodes r) = [(Some ''a'', [3, 7])]"
proof -
  let ?l = "\<lparr>nodes = [\<lparr>drv_file = Some ''a'', drv_lines = [7, 3 :: 32 word], drv_length = - 1\<rparr>],
    list_size = 1, drvlist_id = 0\<rparr>"
  have "drvlist_ok ?l" "\<forall>d\<in>set (nodes ?l). name_ok d"
    by (simp_all add: drvlist_ok_def slist_ok_def drv_ok_def lcfgderivation_is_valid_def name_ok_def
        lcfg_chr byte_def)
  from derivlist_string_roundtrip [OF this(1) _ this(2), of LCFG_OPT_NONE] show ?thesis by auto
qed

theorem derivlist_length_correct_witness:
  "int (length (fst (lcfgderivlist_to_string (Some lcfgderivlist_new) LCFG_OPT_NEWLINE))) =
    fst (lcfgderivlist_get_string_length (Some lcfgderivlist_new)) +
    (if has_bit LCFG_OPT_NEWLINE LCFG_OPT_NEWLINE then 1 else 0)"
  by (rule derivlist_length_correct [OF drvlist_ok_new])

section \<open>Merging\<close>

lemma merge_lines_loop_result:
  "change \<noteq> LCFG_CHANGE_ERROR \<Longrightarrow> merge_lines_loop ls change d = (c, d') \<Longrightarrow>
     set (drv_lines d') = set (drv_lines d) \<union> set ls \<and> drv_file d' = drv_file d \<and>
     (distinct (drv_lines d) \<longrightarrow> distinct (drv_lines d')) \<and> (d' = d \<or> drv_length d' = - 1) \<and>
     c = (if set ls \<subseteq> set (drv_lines d) then change else LCFG_CHANGE_MODIFIED)"
proof (induction ls arbitrary: change d)
  case (Cons line rest)
  show ?case
  proof (cases "line \<in> set (drv_lines d)")
    case True
    then have "lcfgderivation_merge_line d line = (LCFG_CHANGE_NONE, d)"
      by (simp add: lcfgderivation_merge_line_def)
    with Cons.prems have "merge_lines_loop rest change d = (c, d')" by simp
    from Cons.IH [OF Cons.prems(1) this] True show ?thesis by auto
  next
    case False
    let ?d = "ResetLength (d\<lparr>drv_lines := drv_lines d @ [line]\<rparr>)"
    have "lcfgderivation_merge_line d line = (LCFG_CHANGE_ADDED, ?d)"
      using False by (simp add: lcfgderivation_merge_line_def)
    with Cons.prems have "merge_lines_loop rest LCFG_CHANGE_MODIFIED ?d = (c, d')" by simp
    from Cons.IH [OF _ this] False show ?thesis by (auto simp: ResetLength_def)
  qed
qed simp

lemma merge_lines_result:
  assumes "drv_ok d" and "lcfgderivation_merge_lines d (Some e) = (c, d')"
  shows "drv_ok d'" "drv_key d' = drv_key d" "set (drv_lines d') = set (drv_lines d) \<union> set (drv_lines e)"
    "c = (if set (drv_lines e) \<subseteq> set (drv_lines d) then LCFG_CHANGE_NONE else LCFG_CHANGE_MODIFIED)"
proof -
  have "merge_lines_loop (drv_lines e) LCFG_CHANGE_NONE d = (c, d')"
    using assms(2) by (auto simp: lcfgderivation_merge_lines_def split: if_splits)
  from merge_lines_loop_result [OF _ this] assms(1)
  show "drv_ok d'" "drv_key d' = drv_key d" "set (drv_lines d') = set (drv_lines d) \<union> set (drv_lines e)"
    "c = (if set (drv_lines e) \<subseteq> set (drv_lines d) then LCFG_CHANGE_NONE else LCFG_CHANGE_MODIFIED)"
    by (auto simp: drv_ok_def drv_key_def lcfgderivation_is_valid_def)
qed

text \<open>The lines a list has for a file; nothing when it does not have the file.\<close>

definition lines_of :: "LCFGDerivation list \<Rightarrow> string \<Rightarrow> 32 word set option" where
  "lines_of ds f = map_option (\<lambda>d. set (drv_lines d)) (find (\<lambda>d. strcmp (drv_key d) f = 0) ds)"

definition union_lines :: "32 word set option \<Rightarrow> 32 word set option \<Rightarrow> 32 word set option" where
  "union_lines a b =
     (case a of None \<Rightarrow> b | Some s \<Rightarrow> (case b of None \<Rightarrow> a | Some t \<Rightarrow> Some (s \<union> t)))"

lemma lines_of_find:
  "drvlist_ok l \<Longrightarrow> lines_of (nodes l) f =
     map_option (\<lambda>d. set (drv_lines d)) (lcfgderivlist_find_derivation (Some l) f)"
  by (simp add: lines_of_def lcfgderivlist_find_derivation_def find_drv_node_eq first_node_find [symmetric]
      option.map_comp comp_def drv_nodes_def)

lemma merge_derivation_result:
  assumes ok: "drvlist_ok l" and d: "drv_ok d"
    and m: "lcfgderivlist_merge_derivation l d = (c, l')"
  shows "drvlist_ok l'" and "c \<in> {LCFG_CHANGE_ADDED, LCFG_CHANGE_NONE, LCFG_CHANGE_MODIFIED}"
    and "lines_of (nodes l') f = union_lines (lines_of (nodes l) f)
      (if strcmp (drv_key d) f = 0 then Some (set (drv_lines d)) else None)"
    and "c = LCFG_CHANGE_NONE \<longleftrightarrow>
      union_lines (lines_of (nodes l) (drv_key d)) (Some (set (drv_lines d))) = lines_of (nodes l) (drv_key d)"
proof -
  let ?P = "\<lambda>x. strcmp (drv_key x) (drv_key d) = 0"
  have uni: "sorted_wrt (\<lambda>x y. \<not> strcmp (drv_key x) (drv_key y) = 0) (nodes l)"
    using ok by (simp add: drvlist_ok_def)
  have node: "lcfgderivlist_find_node (Some l) (or_default (lcfgderivation_get_file d) []) = first_node ?P (nodes l)"
    using find_drv_node_eq [OF ok] by (simp add: drv_key_def lcfgderivation_get_file_def)
  have "drvlist_ok l' \<and> c \<in> {LCFG_CHANGE_ADDED, LCFG_CHANGE_NONE, LCFG_CHANGE_MODIFIED} \<and>
    (\<forall>f. lines_of (nodes l') f = union_lines (lines_of (nodes l) f)
      (if strcmp (drv_key d) f = 0 then Some (set (drv_lines d)) else None)) \<and>
    (c = LCFG_CHANGE_NONE \<longleftrightarrow>
      union_lines (lines_of (nodes l) (drv_key d)) (Some (set (drv_lines d))) = lines_of (nodes l) (drv_key d))"
  proof (cases "first_node ?P (nodes l)")
    case None
    then have new: "\<forall>x\<in>set (nodes l). \<not> ?P x" by (simp add: first_node_None_iff)
    note a = merge_absent [OF ok d new]
    from m a(1) have l': "c = LCFG_CHANGE_ADDED" "l' = l\<lparr>nodes := nodes l @ [d], list_size := list_size l + 1\<rparr>"
      by simp_all
    have none: "find ?P (nodes l) = None" using None by (simp add: first_node_find_None)
    have "find (\<lambda>x. strcmp (drv_key x) f = 0) (nodes l) = None" if "strcmp (drv_key d) f = 0" for f
      using none drv_keys.same_right [OF that] by simp
    then show ?thesis
      using a(2) l' none drv_keys.lookup_append [OF None]
      by (auto simp: lines_of_def union_lines_def split: option.splits)
  next
    case (Some i)
    let ?x = "nodes l ! i"
    have i: "i < length (nodes l)" "strcmp (drv_key ?x) (drv_key d) = 0"
      using first_node_SomeD [OF Some] by simp_all
    obtain c1 y where y: "lcfgderivation_merge_lines ?x (Some d) = (c1, y)" by fastforce
    have x: "drv_ok ?x" using ok i(1) by (simp add: drvlist_ok_def)
    note r = merge_lines_result [OF x y]
    have l': "c = c1" "l' = l\<lparr>nodes := (nodes l)[i := y]\<rparr>"
      using m d Some y by (auto simp: lcfgderivlist_merge_derivation_def node drv_ok_def)
    have key: "strcmp (drv_key ?x) (drv_key y) = 0" using r(2) by simp
    have found: "find (\<lambda>z. strcmp (drv_key z) f = 0) (nodes l) = Some ?x" if "strcmp (drv_key d) f = 0" for f
    proof -
      have "find ?P (nodes l) = Some ?x" using Some first_node_find [of "nodes l" ?P] by simp
      then show ?thesis using drv_keys.same_right [OF that] by simp
    qed
    have same: "strcmp (drv_key y) f = 0 \<longleftrightarrow> strcmp (drv_key d) f = 0" for f
      unfolding r(2) by (rule drv_keys.same_left [OF i(2)])
    have "drvlist_ok l'"
      using ok r(1) drv_keys.unique_update [OF uni i(1) key] set_update_subset_insert [of "nodes l" i y] l'(2)
      by (auto simp: drvlist_ok_def slist_ok_def)
    moreover have "lines_of (nodes l') f = union_lines (lines_of (nodes l) f)
        (if strcmp (drv_key d) f = 0 then Some (set (drv_lines d)) else None)" for f
      using drv_keys.lookup_update [OF uni i(1) key, of f] found [of f] same [of f] r(3)
      by (auto simp: lines_of_def union_lines_def l'(2) split: option.splits)
    ultimately show ?thesis
      using r(4) found [of "drv_key d"] by (auto simp: l'(1) lines_of_def union_lines_def)
  qed
  then show "drvlist_ok l'" "c \<in> {LCFG_CHANGE_ADDED, LCFG_CHANGE_NONE, LCFG_CHANGE_MODIFIED}"
    "lines_of (nodes l') f = union_lines (lines_of (nodes l) f)
      (if strcmp (drv_key d) f = 0 then Some (set (drv_lines d)) else None)"
    "c = LCFG_CHANGE_NONE \<longleftrightarrow>
      union_lines (lines_of (nodes l) (drv_key d)) (Some (set (drv_lines d))) = lines_of (nodes l) (drv_key d)"
    by blast+
qed

lemma union_lines_simps [simp]:
  "union_lines a None = a" "union_lines None b = b"
  by (cases a; simp add: union_lines_def)+

lemma union_lines_assoc: "union_lines (union_lines a b) c = union_lines a (union_lines b c)"
  by (cases a; cases b; cases c) (auto simp: union_lines_def)

lemma union_lines_absorb: "union_lines (union_lines a b) c = a \<Longrightarrow> union_lines a b = a"
  by (cases a; cases b; cases c) (auto simp: union_lines_def)

lemma lines_of_Cons:
  assumes "sorted_wrt (\<lambda>x y. \<not> strcmp (drv_key x) (drv_key y) = 0) (d # ds)"
  shows "lines_of (d # ds) f =
    union_lines (if strcmp (drv_key d) f = 0 then Some (set (drv_lines d)) else None) (lines_of ds f)"
proof (cases "strcmp (drv_key d) f = 0")
  case True
  then have "find (\<lambda>x. strcmp (drv_key x) f = 0) ds = None"
    using assms drv_keys.same_right [OF True] str_order.cmp_eq_iff by (auto simp: find_None_iff_all)
  with True show ?thesis by (simp add: lines_of_def)
qed (simp add: lines_of_def)

lemma merge_list_loop_result:
  assumes "\<forall>d\<in>set ds. drv_ok d" and "drvlist_ok l" and "change \<noteq> LCFG_CHANGE_ERROR"
    and "sorted_wrt (\<lambda>x y. \<not> strcmp (drv_key x) (drv_key y) = 0) ds"
    and "merge_list_loop ds change l = (c, l')"
  shows "drvlist_ok l' \<and> (\<forall>f. lines_of (nodes l') f = union_lines (lines_of (nodes l) f) (lines_of ds f)) \<and>
    (c = change \<and> (\<forall>f. lines_of (nodes l') f = lines_of (nodes l) f) \<or>
     c = LCFG_CHANGE_MODIFIED \<and> (\<exists>f. lines_of (nodes l') f \<noteq> lines_of (nodes l) f))"
  using assms
proof (induction ds arbitrary: change l)
  case Nil
  then show ?case by (simp add: lines_of_def)
next
  case (Cons d ds)
  have d: "drv_ok d" "lcfgderivation_is_valid d" using Cons.prems(1) by (simp_all add: drv_ok_def)
  obtain m l1 where m: "lcfgderivlist_merge_derivation l d = (m, l1)" by fastforce
  note r = merge_derivation_result [OF Cons.prems(2) d(1) m]
  let ?c = "if m \<noteq> LCFG_CHANGE_NONE then LCFG_CHANGE_MODIFIED else change"
  have step: "merge_list_loop ds ?c l1 = (c, l')"
    using Cons.prems(3,5) d(2) m r(2) by (auto split: if_splits)
  have c: "?c \<noteq> LCFG_CHANGE_ERROR" using Cons.prems(3) by simp
  have ds: "\<forall>d\<in>set ds. drv_ok d" "sorted_wrt (\<lambda>x y. \<not> strcmp (drv_key x) (drv_key y) = 0) ds"
    using Cons.prems(1,4) by auto
  note ih = Cons.IH [OF ds(1) r(1) c ds(2) step]
  have lines: "lines_of (nodes l') f = union_lines (lines_of (nodes l) f) (lines_of (d # ds) f)" for f
    unfolding lines_of_Cons [OF Cons.prems(4)] using ih r(3) [of f] by (simp add: union_lines_assoc)
  have same: "lines_of (nodes l') f = lines_of (nodes l) f \<Longrightarrow> lines_of (nodes l1) f = lines_of (nodes l) f" for f
    using ih r(3) [of f] union_lines_absorb by metis
  have dd: "strcmp (drv_key d) (drv_key d) = 0" by simp
  have none: "m = LCFG_CHANGE_NONE \<longleftrightarrow> (\<forall>f. lines_of (nodes l1) f = lines_of (nodes l) f)"
  proof
    assume m0: "m = LCFG_CHANGE_NONE"
    show "\<forall>f. lines_of (nodes l1) f = lines_of (nodes l) f"
    proof
      fix f
      show "lines_of (nodes l1) f = lines_of (nodes l) f"
      proof (cases "strcmp (drv_key d) f = 0")
        case True
        have "lines_of (nodes l) (drv_key d) = lines_of (nodes l) f"
          unfolding lines_of_def using drv_keys.same_right [OF True] by simp
        then show ?thesis using r(3) [of f] r(4) m0 True by simp
      next
        case False
        then show ?thesis using r(3) [of f] by simp
      qed
    qed
  next
    assume "\<forall>f. lines_of (nodes l1) f = lines_of (nodes l) f"
    then show "m = LCFG_CHANGE_NONE" using r(3) [of "drv_key d"] r(4) dd by simp
  qed
  show ?case
  proof (cases "m = LCFG_CHANGE_NONE")
    case True
    have "c = ?c \<and> (\<forall>f. lines_of (nodes l') f = lines_of (nodes l1) f) \<or>
        c = LCFG_CHANGE_MODIFIED \<and> (\<exists>f. lines_of (nodes l') f \<noteq> lines_of (nodes l1) f)"
      using ih by blast
    with none True have "c = change \<and> (\<forall>f. lines_of (nodes l') f = lines_of (nodes l) f) \<or>
        c = LCFG_CHANGE_MODIFIED \<and> (\<exists>f. lines_of (nodes l') f \<noteq> lines_of (nodes l) f)"
      by simp
    with ih lines show ?thesis by blast
  next
    case False
    then obtain f where "lines_of (nodes l1) f \<noteq> lines_of (nodes l) f" using none by blast
    then have "lines_of (nodes l') f \<noteq> lines_of (nodes l) f" using same by blast
    with ih lines False show ?thesis by auto
  qed
qed

text \<open>
  C3: \<open>lcfgderivlist_merge_list\<close> is the union of what the two lists say. For lists that
  satisfy the invariant the result does too; it names exactly the files that either names,
  each with the lines that either gives for it; and the change reported is NONE exactly
  when the first list already said it all, MODIFIED otherwise. It never fails.
\<close>
theorem derivlist_merge_list_union:
  assumes "drvlist_ok l1" and "drvlist_ok l2" and "lcfgderivlist_merge_list l1 (Some l2) = (change, l')"
  shows "drvlist_ok l' \<and>
    (\<forall>f. lines_of (nodes l') f = union_lines (lines_of (nodes l1) f) (lines_of (nodes l2) f)) \<and>
    (if \<forall>f. lines_of (nodes l') f = lines_of (nodes l1) f then change = LCFG_CHANGE_NONE
     else change = LCFG_CHANGE_MODIFIED)"
proof (cases "nodes l2 = []")
  case True
  then have "lcfgderivlist_is_empty (Some l2)"
    using assms(2) by (simp add: lcfgderivlist_is_empty_def drvlist_ok_def)
  with assms True show ?thesis by (auto simp: lcfgderivlist_merge_list_def lines_of_def)
next
  case False
  then have "merge_list_loop (nodes l2) LCFG_CHANGE_NONE l1 = (change, l')"
    using assms(2,3) by (simp add: lcfgderivlist_merge_list_def lcfgderivlist_is_empty_def
        drvlist_ok_def drv_nodes_def)
  from merge_list_loop_result [OF _ assms(1) _ _ this] assms(2) show ?thesis
    by (auto simp: drvlist_ok_def)
qed

theorem derivlist_merge_list_union_witness:
  "drvlist_ok (snd (lcfgderivlist_merge_list lcfgderivlist_new (Some \<lparr>nodes =
      [\<lparr>drv_file = Some ''a'', drv_lines = [7], drv_length = - 1\<rparr>], list_size = 1, drvlist_id = 0\<rparr>)))"
proof -
  let ?l = "\<lparr>nodes = [\<lparr>drv_file = Some ''a'', drv_lines = [7 :: 32 word], drv_length = - 1\<rparr>],
    list_size = 1, drvlist_id = 0\<rparr>"
  have "drvlist_ok ?l"
    by (simp add: drvlist_ok_def slist_ok_def drv_ok_def lcfgderivation_is_valid_def)
  from derivlist_merge_list_union [OF drvlist_ok_new this surjective_pairing] show ?thesis by blast
qed

section \<open>Every operation keeps the invariant\<close>

lemma parse_lines_ok:
  "parse_lines start d = Inr d' \<Longrightarrow> distinct (drv_lines d) \<and> drv_length d = - 1 \<Longrightarrow>
     distinct (drv_lines d') \<and> drv_length d' = - 1"
proof (induction start d rule: parse_lines.induct)
  case (1 start drv)
  show ?case
  proof (cases "start = []")
    case True
    with "1.prems" show ?thesis by (simp add: parse_lines.simps)
  next
    case False
    obtain v e where e: "strtoul start 0 = (v, e)" by fastforce
    obtain rc d1 where m: "lcfgderivation_merge_line drv (ucast v) = (rc, d1)" by fastforce
    have d1: "distinct (drv_lines d1) \<and> drv_length d1 = - 1"
      using m "1.prems"(2) by (auto simp: lcfgderivation_merge_line_def ResetLength_def split: if_splits)
    have "e \<noteq> start" "\<not> LCFGChangeError rc" "parse_lines (skip_commas e) d1 = Inr d'"
      using "1.prems"(1) False e m by (auto simp: parse_lines.simps [of start] split: if_splits)
    from "1.IH" [OF False e [symmetric] this(1) m [symmetric] this(2,3) d1] show ?thesis .
  qed
qed

lemma from_string_drv_ok:
  assumes "lcfgderivation_from_string input = Inr d" and "lcfgderivation_is_valid d"
  shows "drv_ok d"
proof -
  have "distinct (drv_lines d) \<and> drv_length d = - 1"
    using assms(1) parse_lines_ok [of _ lcfgderivation_new]
    by (fastforce simp: lcfgderivation_from_string_def lcfgderivation_set_file_def ResetLength_def
        lcfgderivation_new_def Let_def split: if_splits option.splits sum.splits)
  with assms(2) show ?thesis by (simp add: drv_ok_def)
qed

lemma merge_derivation_keeps_ok:
  assumes "drvlist_ok l" and "lcfgderivlist_merge_derivation l d = (c, l')"
    and "lcfgderivation_is_valid d \<Longrightarrow> drv_ok d"
  shows "drvlist_ok l'"
proof (cases "lcfgderivation_is_valid d")
  case True
  then show ?thesis using merge_derivation_result(1) [OF assms(1) assms(3) [OF True] assms(2)] by blast
next
  case False
  with assms(1,2) show ?thesis by (simp add: lcfgderivlist_merge_derivation_def)
qed

lemma derivlist_tokens_ok: "derivlist_tokens ts l = Inr l' \<Longrightarrow> drvlist_ok l \<Longrightarrow> drvlist_ok l'"
proof (induction ts arbitrary: l)
  case (Cons t ts)
  then obtain d c l1 where d: "lcfgderivation_from_string (Some t) = Inr d"
      and m: "lcfgderivlist_merge_derivation l d = (c, l1)" and rest: "derivlist_tokens ts l1 = Inr l'"
    by (auto split: sum.splits prod.splits if_splits)
  have "drvlist_ok l1"
    using merge_derivation_keeps_ok [OF Cons.prems(2) m] from_string_drv_ok [OF d] by blast
  with Cons.IH rest show ?case by blast
qed simp

lemma derivlist_from_string_ok: "lcfgderivlist_from_string input = Inr l \<Longrightarrow> drvlist_ok l"
  using derivlist_tokens_ok
  by (fastforce simp: lcfgderivlist_from_string_def Let_def split: if_splits)

lemma derivlist_clone_loop_ok:
  assumes "\<forall>d\<in>set ds. lcfgderivation_is_valid d"
  shows "derivlist_clone_loop ds l =
    Some (l\<lparr>nodes := nodes l @ ds, list_size := list_size l + length ds\<rparr>)"
  using assms
  by (induction ds arbitrary: l) (auto simp: lcfgderivlist_append_def lcfgslist_append_simp)

lemma derivlist_clone_ok:
  assumes "case l of None \<Rightarrow> True | Some x \<Rightarrow> drvlist_ok x"
  obtains c where "lcfgderivlist_clone l = Some c" "drvlist_ok c" "nodes c = drv_nodes l"
proof -
  have v: "\<forall>d\<in>set (drv_nodes l). lcfgderivation_is_valid d"
    using assms by (auto simp: drv_nodes_def drvlist_ok_def drv_ok_def split: option.splits)
  let ?c = "lcfgderivlist_new\<lparr>nodes := drv_nodes l, list_size := length (drv_nodes l)\<rparr>"
  have "lcfgderivlist_clone l = Some ?c"
    using derivlist_clone_loop_ok [OF v] by (simp add: lcfgderivlist_clone_def lcfgderivlist_new_def)
  moreover have "drvlist_ok ?c"
    using assms by (auto simp: drv_nodes_def drvlist_ok_def slist_ok_def split: option.splits)
  ultimately show ?thesis using that by simp
qed

lemma merge_file_line_ok:
  assumes "drvlist_ok l" and "lcfgderivlist_merge_file_line l f n = (c, l')"
  shows "drvlist_ok l'"
proof (cases "isempty f")
  case True
  with assms show ?thesis by (simp add: lcfgderivlist_merge_file_line_def)
next
  case False
  let ?f = "or_default f []"
  note node = find_drv_node_eq [OF assms(1), of ?f]
  show ?thesis
  proof (cases "first_node (\<lambda>d. strcmp (drv_key d) ?f = 0) (nodes l)")
    case None
    let ?new = "ResetLength (lcfgderivation_new\<lparr>drv_file := f\<rparr>)"
    define d where "d = (if 0 \<le> n then snd (lcfgderivation_merge_line ?new (word_of_int n)) else ?new)"
    have d: "drv_ok d" "drv_key d = ?f"
      using False by (auto simp: d_def drv_ok_def drv_key_def lcfgderivation_is_valid_def
          lcfgderivation_merge_line_def ResetLength_def lcfgderivation_new_def)
    have new: "\<forall>x\<in>set (nodes l). \<not> strcmp (drv_key x) (drv_key d) = 0"
      using None d(2) by (simp add: first_node_None_iff)
    have "l' = l\<lparr>nodes := nodes l @ [d], list_size := list_size l + 1\<rparr>"
      using assms(2) False None node d(1)
      by (auto simp: lcfgderivlist_merge_file_line_def lcfgderivation_set_file_def d_def
          lcfgderivation_merge_line_def lcfgderivlist_append_def lcfgslist_append_simp drv_ok_def
          split: if_splits)
    then show ?thesis using merge_absent(2) [OF assms(1) d(1) new] by simp
  next
    case (Some i)
    let ?x = "nodes l ! i"
    have i: "i < length (nodes l)" using first_node_SomeD [OF Some] by simp
    then have x: "drv_ok ?x" using assms(1) by (simp add: drvlist_ok_def)
    consider "l' = l" | y where "l' = l\<lparr>nodes := (nodes l)[i := y]\<rparr>" "drv_ok y" "drv_key y = drv_key ?x"
      using assms(2) False Some node x
      by (auto simp: lcfgderivlist_merge_file_line_def lcfgderivation_merge_line_def ResetLength_def
          drv_ok_def lcfgderivation_is_valid_def drv_key_def split: if_splits)
    then show ?thesis
    proof cases
      case 2
      have "sorted_wrt (\<lambda>x y. \<not> strcmp (drv_key x) (drv_key y) = 0) ((nodes l)[i := y])"
        using drv_keys.unique_update [OF _ i, of y] assms(1) 2(3) by (simp add: drvlist_ok_def)
      then show ?thesis
        using assms(1) 2 set_update_subset_insert [of "nodes l" i y]
        by (auto simp: drvlist_ok_def slist_ok_def)
    qed (use assms(1) in simp)
  qed
qed

lemma merge_list_keeps_ok:
  assumes "drvlist_ok l1" and "case l2 of None \<Rightarrow> True | Some x \<Rightarrow> drvlist_ok x"
    and "lcfgderivlist_merge_list l1 l2 = (c, l')"
  shows "drvlist_ok l' \<and> c \<noteq> LCFG_CHANGE_ERROR"
proof (cases "lcfgderivlist_is_empty l2")
  case True
  with assms show ?thesis by (simp add: lcfgderivlist_merge_list_def)
next
  case False
  then obtain x where x: "l2 = Some x" "drvlist_ok x"
    using assms(2) by (auto simp: lcfgderivlist_is_empty_def split: option.splits)
  then have "merge_list_loop (nodes x) LCFG_CHANGE_NONE l1 = (c, l')"
    using False assms(3) by (simp add: lcfgderivlist_merge_list_def drv_nodes_def)
  from merge_list_loop_result [OF _ assms(1) _ _ this] x(2) show ?thesis
    by (auto simp: drvlist_ok_def)
qed

section \<open>Printing keeps the invariant\<close>

lemma printed_keeps:
  assumes "drv_ok d"
  shows "drv_ok (printed d)" and "drv_key (printed d) = drv_key d"
  using drv_ok_cache [OF sort_lines_ok [OF assms]]
  by (simp_all add: printed_def drv_key_def lcfgderivation_sort_lines_def)

lemma to_string_keeps_ok:
  assumes "drvlist_ok l"
  shows "\<exists>l'. snd (lcfgderivlist_to_string (Some l) options) = Some l' \<and> drvlist_ok l'"
proof (cases "nodes l = []")
  case True
  with assms show ?thesis
    by (simp add: lcfgderivlist_to_string_def lcfgderivlist_get_string_length_def lcfgderivlist_is_empty_def
        lcfgslist_is_empty_def drvlist_ok_def slist_ok_def drv_nodes_def)
next
  case False
  have ok: "\<forall>d\<in>set (nodes l). drv_ok d" using assms by (simp add: drvlist_ok_def)
  then have ok': "\<forall>d\<in>set (map cached (nodes l)). drv_ok d"
    using drv_ok_cache by (auto simp: cached_def)
  let ?ns = "map printed (map cached (nodes l))"
  have to: "snd (lcfgderivlist_to_string (Some l) options) = Some (l\<lparr>nodes := ?ns\<rparr>)"
    using to_string_loop_ok [OF ok', of True] string_length_loop_ok [OF ok] assms False
    by (simp add: lcfgderivlist_to_string_def lcfgderivlist_get_string_length_def
        lcfgderivlist_is_empty_def drvlist_ok_def drv_nodes_def)
  have key: "drv_key (printed (cached d)) = drv_key d" if "d \<in> set (nodes l)" for d
    using printed_keeps(2) [of "cached d"] ok' that by auto
  have uniq: "sorted_wrt (\<lambda>x y. \<not> strcmp (drv_key x) (drv_key y) = 0) (nodes l)"
    using assms by (simp add: drvlist_ok_def)
  have "sorted_wrt (\<lambda>x y. \<not> strcmp (drv_key x) (drv_key y) = 0) ?ns"
    unfolding sorted_wrt_map
    by (rule sorted_wrt_mono_rel [OF _ uniq]) (simp add: key)
  then have "drvlist_ok (l\<lparr>nodes := ?ns\<rparr>)"
    using printed_keeps(1) ok' assms by (auto simp: drvlist_ok_def slist_ok_def)
  with to show ?thesis by blast
qed

end
