(* ===== verification/Lcfg_Package.thy ===== *)
theory Lcfg_Package
  imports Lcfg_Context_Expr Lcfg_Derivation Lcfg_Version
begin

text \<open>
  Packages (\<open>packages/package.c\<close>, \<open>include/packages.h\<close>): the record, the validators and
  setters of each attribute, the flags, and the comparison of packages. A setter returns
  whether it accepted the value, and the package; where the code hands over a string that
  is refused, the package is unchanged.
\<close>

section \<open>The record\<close>

record LCFGPackage =
  pkg_name :: cstr
  pkg_arch :: cstr
  pkg_version :: cstr
  pkg_release :: cstr
  pkg_flags :: cstr
  pkg_context :: cstr
  pkg_derivation :: "LCFGDerivationList option"
  pkg_category :: cstr
  pkg_prefix :: char
  pkg_priority :: int
  pkg_refcount :: nat

definition LCFG_PKG_PREFIX_NONE :: char where "LCFG_PKG_PREFIX_NONE = nul"
definition LCFG_PKG_PREFIX_ADD :: char where "LCFG_PKG_PREFIX_ADD = CHR ''+''"
definition LCFG_PKG_PREFIX_REMOVE :: char where "LCFG_PKG_PREFIX_REMOVE = CHR ''-''"
definition LCFG_PKG_PREFIX_UPDATE :: char where "LCFG_PKG_PREFIX_UPDATE = CHR ''?''"
definition LCFG_PKG_PREFIX_PIN :: char where "LCFG_PKG_PREFIX_PIN = CHR ''!''"
definition LCFG_PKG_PREFIX_ANY :: char where "LCFG_PKG_PREFIX_ANY = CHR ''~''"
definition LCFG_PKG_PREFIX_MIN :: char where "LCFG_PKG_PREFIX_MIN = CHR ''>''"

definition permitted_prefixes :: string where "permitted_prefixes = ''?+-!~>''"

definition isnamechr :: "char \<Rightarrow> bool" where
  "isnamechr c \<longleftrightarrow> isword c \<or> strchr_in ''-.+'' c"

definition isverchr :: "char \<Rightarrow> bool" where
  "isverchr c \<longleftrightarrow> isalnum c \<or> strchr_in ''.~_+-:*?'' c"

definition isrelchr :: "char \<Rightarrow> bool" where
  "isrelchr c \<longleftrightarrow> isalnum c \<or> strchr_in ''.~_+*?'' c"

definition lcfgpackage_new :: LCFGPackage where
  "lcfgpackage_new =
     \<lparr>pkg_name = None, pkg_arch = None, pkg_version = None, pkg_release = None, pkg_flags = None,
      pkg_context = None, pkg_derivation = None, pkg_category = None,
      pkg_prefix = LCFG_PKG_PREFIX_NONE, pkg_priority = 0, pkg_refcount = 1\<rparr>"

section \<open>Attributes\<close>

definition lcfgpackage_is_valid :: "LCFGPackage option \<Rightarrow> bool" where
  "lcfgpackage_is_valid pkg \<longleftrightarrow> (case pkg of None \<Rightarrow> False | Some p \<Rightarrow> \<not> isempty (pkg_name p))"

definition lcfgpackage_valid_name :: "cstr \<Rightarrow> bool" where
  "lcfgpackage_valid_name name \<longleftrightarrow>
     \<not> isempty name \<and> isalnum (cur (or_default name [])) \<and>
     list_all isnamechr (tl (or_default name []))"

definition lcfgpackage_has_name :: "LCFGPackage \<Rightarrow> bool" where
  "lcfgpackage_has_name pkg \<longleftrightarrow> \<not> isempty (pkg_name pkg)"

definition lcfgpackage_set_name :: "LCFGPackage \<Rightarrow> cstr \<Rightarrow> bool \<times> LCFGPackage" where
  "lcfgpackage_set_name pkg new_name =
     (if lcfgpackage_valid_name new_name then (True, pkg\<lparr>pkg_name := new_name\<rparr>) else (False, pkg))"

definition lcfgpackage_valid_arch :: "cstr \<Rightarrow> bool" where
  "lcfgpackage_valid_arch arch \<longleftrightarrow>
     \<not> isempty arch \<and> list_all (\<lambda>c. isword c \<or> c = CHR ''-'') (or_default arch [])"

definition lcfgpackage_has_arch :: "LCFGPackage \<Rightarrow> bool" where
  "lcfgpackage_has_arch pkg \<longleftrightarrow> \<not> isempty (pkg_arch pkg)"

definition lcfgpackage_set_arch :: "LCFGPackage \<Rightarrow> cstr \<Rightarrow> bool \<times> LCFGPackage" where
  "lcfgpackage_set_arch pkg new_arch =
     (if lcfgpackage_valid_arch new_arch then (True, pkg\<lparr>pkg_arch := new_arch\<rparr>) else (False, pkg))"

definition lcfgpackage_valid_version :: "cstr \<Rightarrow> bool" where
  "lcfgpackage_valid_version version \<longleftrightarrow>
     \<not> isempty version \<and> list_all isverchr (or_default version [])"

definition lcfgpackage_has_version :: "LCFGPackage \<Rightarrow> bool" where
  "lcfgpackage_has_version pkg \<longleftrightarrow> \<not> isempty (pkg_version pkg)"

definition lcfgpackage_has_epoch :: "LCFGPackage \<Rightarrow> bool" where
  "lcfgpackage_has_epoch pkg \<longleftrightarrow>
     \<not> isempty (pkg_version pkg) \<and> CHR '':'' \<in> set (or_default (pkg_version pkg) [])"

definition lcfgpackage_get_epoch :: "LCFGPackage \<Rightarrow> 64 word" where
  "lcfgpackage_get_epoch pkg =
     (if \<not> isempty (pkg_version pkg) then fst (extract_epoch (or_default (pkg_version pkg) [])) else 0)"

definition lcfgpackage_set_version :: "LCFGPackage \<Rightarrow> cstr \<Rightarrow> bool \<times> LCFGPackage" where
  "lcfgpackage_set_version pkg new_version =
     (if lcfgpackage_valid_version new_version then (True, pkg\<lparr>pkg_version := new_version\<rparr>)
      else (False, pkg))"

definition lcfgpackage_valid_release :: "cstr \<Rightarrow> bool" where
  "lcfgpackage_valid_release release \<longleftrightarrow>
     \<not> isempty release \<and> list_all isrelchr (or_default release [])"

definition lcfgpackage_has_release :: "LCFGPackage \<Rightarrow> bool" where
  "lcfgpackage_has_release pkg \<longleftrightarrow> \<not> isempty (pkg_release pkg)"

definition lcfgpackage_set_release :: "LCFGPackage \<Rightarrow> cstr \<Rightarrow> bool \<times> LCFGPackage" where
  "lcfgpackage_set_release pkg new_release =
     (if lcfgpackage_valid_release new_release then (True, pkg\<lparr>pkg_release := new_release\<rparr>)
      else (False, pkg))"

definition lcfgpackage_valid_prefix :: "char \<Rightarrow> bool" where
  "lcfgpackage_valid_prefix prefix \<longleftrightarrow> strchr_in permitted_prefixes prefix"

definition lcfgpackage_has_prefix :: "LCFGPackage \<Rightarrow> bool" where
  "lcfgpackage_has_prefix pkg \<longleftrightarrow> pkg_prefix pkg \<noteq> LCFG_PKG_PREFIX_NONE"

definition lcfgpackage_get_prefix :: "LCFGPackage \<Rightarrow> char" where
  "lcfgpackage_get_prefix pkg = pkg_prefix pkg"

definition lcfgpackage_clear_prefix :: "LCFGPackage \<Rightarrow> bool \<times> LCFGPackage" where
  "lcfgpackage_clear_prefix pkg = (True, pkg\<lparr>pkg_prefix := LCFG_PKG_PREFIX_NONE\<rparr>)"

definition lcfgpackage_set_prefix :: "LCFGPackage \<Rightarrow> char \<Rightarrow> bool \<times> LCFGPackage" where
  "lcfgpackage_set_prefix pkg new_prefix =
     (if lcfgpackage_valid_prefix new_prefix then (True, pkg\<lparr>pkg_prefix := new_prefix\<rparr>)
      else (False, pkg))"

definition lcfgpackage_valid_flag_chr :: "char \<Rightarrow> bool" where
  "lcfgpackage_valid_flag_chr flag \<longleftrightarrow> isalnum flag"

definition lcfgpackage_valid_flags :: "cstr \<Rightarrow> bool" where
  "lcfgpackage_valid_flags flags \<longleftrightarrow>
     \<not> isempty flags \<and> list_all lcfgpackage_valid_flag_chr (or_default flags [])"

definition lcfgpackage_has_flags :: "LCFGPackage \<Rightarrow> bool" where
  "lcfgpackage_has_flags pkg \<longleftrightarrow> \<not> isempty (pkg_flags pkg)"

definition lcfgpackage_has_flag :: "LCFGPackage \<Rightarrow> char \<Rightarrow> bool" where
  "lcfgpackage_has_flag pkg flag \<longleftrightarrow>
     \<not> isempty (pkg_flags pkg) \<and> strchr_in (or_default (pkg_flags pkg) []) flag"

definition lcfgpackage_set_flags :: "LCFGPackage \<Rightarrow> cstr \<Rightarrow> bool \<times> LCFGPackage" where
  "lcfgpackage_set_flags pkg new_flags =
     (if lcfgpackage_valid_flags new_flags then (True, pkg\<lparr>pkg_flags := new_flags\<rparr>)
      else (False, pkg))"

definition lcfgpackage_clear_flags :: "LCFGPackage \<Rightarrow> bool \<times> LCFGPackage" where
  "lcfgpackage_clear_flags pkg = (True, pkg\<lparr>pkg_flags := None\<rparr>)"

text \<open>
  \<open>lcfgpackage_add_flags\<close> with its array of Booleans. The index of a character may be
  outside the array: then the result is \<open>None\<close>.
\<close>

definition LCFG_PKG_FLAGS_MAXCHAR :: nat where "LCFG_PKG_FLAGS_MAXCHAR = 128"

fun mark_flags :: "string \<Rightarrow> bool list \<times> nat \<Rightarrow> (bool list \<times> nat) option" where
  "mark_flags [] st = Some st"
| "mark_flags (c # cs) (char_set, new_len) =
     (let val = sbyte c - 48 in
      if val < int LCFG_PKG_FLAGS_MAXCHAR then
        (if val < 0 then None
         else if \<not> char_set ! nat val
         then mark_flags cs (char_set[nat val := True], new_len + 1)
         else mark_flags cs (char_set, new_len))
      else mark_flags cs (char_set, new_len))"

definition flag_chars :: "bool list \<Rightarrow> string" where
  "flag_chars char_set =
     map (\<lambda>i. char_of (i + 48)) (filter (\<lambda>i. char_set ! i) [0..<LCFG_PKG_FLAGS_MAXCHAR])"

definition lcfgpackage_add_flags :: "LCFGPackage \<Rightarrow> cstr \<Rightarrow> (bool \<times> LCFGPackage) option" where
  "lcfgpackage_add_flags pkg extra_flags =
     (if isempty extra_flags then Some (True, pkg)
      else if \<not> lcfgpackage_valid_flags extra_flags then Some (False, pkg)
      else let cur_flags = or_default (pkg_flags pkg) [];
               cur_len = length cur_flags
           in case mark_flags cur_flags (replicate LCFG_PKG_FLAGS_MAXCHAR False, 0) of
                None \<Rightarrow> None
              | Some st \<Rightarrow>
                  (case mark_flags (or_default extra_flags []) st of
                     None \<Rightarrow> None
                   | Some (char_set, new_len) \<Rightarrow>
                       if new_len = cur_len then Some (True, pkg)
                       else Some (lcfgpackage_set_flags pkg (Some (flag_chars char_set)))))"

definition lcfgpackage_valid_context :: "cstr \<Rightarrow> bool" where
  "lcfgpackage_valid_context ctx \<longleftrightarrow> lcfgcontext_valid_expression ctx"

definition lcfgpackage_has_context :: "LCFGPackage \<Rightarrow> bool" where
  "lcfgpackage_has_context pkg \<longleftrightarrow> \<not> isempty (pkg_context pkg)"

definition lcfgpackage_set_context :: "LCFGPackage \<Rightarrow> cstr \<Rightarrow> bool \<times> LCFGPackage" where
  "lcfgpackage_set_context pkg new_ctx =
     (if lcfgpackage_valid_context new_ctx then (True, pkg\<lparr>pkg_context := new_ctx\<rparr>) else (False, pkg))"

definition lcfgpackage_add_context ::
    "(string \<Rightarrow> string \<Rightarrow> int) \<Rightarrow> LCFGPackage \<Rightarrow> cstr \<Rightarrow> bool \<times> LCFGPackage" where
  "lcfgpackage_add_context scmp pkg extra_context =
     (if isempty extra_context then (True, pkg)
      else lcfgpackage_set_context pkg
        (if isempty (pkg_context pkg) then extra_context
         else lcfgcontext_combine_expressions scmp (pkg_context pkg) extra_context))"

definition lcfgpackage_has_derivation :: "LCFGPackage \<Rightarrow> bool" where
  "lcfgpackage_has_derivation pkg \<longleftrightarrow>
     pkg_derivation pkg \<noteq> None \<and> \<not> lcfgderivlist_is_empty (pkg_derivation pkg)"

definition lcfgpackage_get_derivation :: "LCFGPackage \<Rightarrow> LCFGDerivationList option" where
  "lcfgpackage_get_derivation pkg = pkg_derivation pkg"

definition lcfgpackage_set_derivation :: "LCFGPackage \<Rightarrow> LCFGDerivationList option \<Rightarrow> bool \<times> LCFGPackage"
where
  "lcfgpackage_set_derivation pkg new_deriv = (True, pkg\<lparr>pkg_derivation := new_deriv\<rparr>)"

definition lcfgpackage_get_derivation_as_string ::
    "LCFGPackage \<Rightarrow> bits \<Rightarrow> string \<times> LCFGDerivationList option" where
  "lcfgpackage_get_derivation_as_string pkg options =
     lcfgderivlist_to_string (lcfgpackage_get_derivation pkg) options"

definition lcfgpackage_set_derivation_as_string :: "LCFGPackage \<Rightarrow> cstr \<Rightarrow> bool \<times> LCFGPackage" where
  "lcfgpackage_set_derivation_as_string pkg new_deriv =
     (case new_deriv of
        None \<Rightarrow> lcfgpackage_set_derivation pkg None
      | Some _ \<Rightarrow>
          (case lcfgderivlist_from_string new_deriv of
             Inl _ \<Rightarrow> (False, pkg)
           | Inr new_drvlist \<Rightarrow> lcfgpackage_set_derivation pkg (Some new_drvlist)))"

text \<open>The three ways to merge: the clone is kept only where it was modified.\<close>

definition lcfgpackage_merge_derivation :: "LCFGPackage \<Rightarrow> LCFGPackage option \<Rightarrow> bool \<times> LCFGPackage" where
  "lcfgpackage_merge_derivation pkg1 pkg2 =
     (case pkg2 of
        None \<Rightarrow> (True, pkg1)
      | Some p2 \<Rightarrow>
          if \<not> lcfgpackage_has_derivation p2 then (True, pkg1)
          else if lcfgderivlist_is_empty (lcfgpackage_get_derivation pkg1)
          then lcfgpackage_set_derivation pkg1 (lcfgpackage_get_derivation p2)
          else case lcfgderivlist_clone (lcfgpackage_get_derivation pkg1) of
            None \<Rightarrow> (False, pkg1)
          | Some clone \<Rightarrow>
              (case lcfgderivlist_merge_list clone (lcfgpackage_get_derivation p2) of
                 (merge_rc, clone') \<Rightarrow>
                   if \<not> LCFGChangeOK merge_rc then (False, pkg1)
                   else if merge_rc = LCFG_CHANGE_NONE then (True, pkg1)
                   else lcfgpackage_set_derivation pkg1 (Some clone')))"

definition lcfgpackage_add_derivation_string :: "LCFGPackage \<Rightarrow> cstr \<Rightarrow> bool \<times> LCFGPackage" where
  "lcfgpackage_add_derivation_string pkg extra_deriv =
     (if isempty extra_deriv then (True, pkg)
      else case lcfgderivlist_clone (lcfgpackage_get_derivation pkg) of
        None \<Rightarrow> (True, pkg)
      | Some clone \<Rightarrow>
          (case lcfgderivlist_merge_string_list clone extra_deriv of
             (merge_rc, clone') \<Rightarrow>
               if \<not> LCFGChangeOK merge_rc then (True, pkg)
               else if merge_rc = LCFG_CHANGE_NONE then (True, pkg)
               else lcfgpackage_set_derivation pkg (Some clone')))"

definition lcfgpackage_add_derivation_file_line :: "LCFGPackage \<Rightarrow> cstr \<Rightarrow> int \<Rightarrow> bool \<times> LCFGPackage"
where
  "lcfgpackage_add_derivation_file_line pkg filename line =
     (if isempty filename then (True, pkg)
      else case lcfgderivlist_clone (lcfgpackage_get_derivation pkg) of
        None \<Rightarrow> (True, pkg)
      | Some clone \<Rightarrow>
          (case lcfgderivlist_merge_file_line clone filename line of
             (merge_rc, clone') \<Rightarrow>
               if \<not> LCFGChangeOK merge_rc then (True, pkg)
               else if merge_rc = LCFG_CHANGE_NONE then (True, pkg)
               else lcfgpackage_set_derivation pkg (Some clone')))"

definition lcfgpackage_valid_category :: "cstr \<Rightarrow> bool" where
  "lcfgpackage_valid_category value \<longleftrightarrow>
     \<not> isempty value \<and> list_all (\<lambda>c. \<not> isspace c) (or_default value [])"

definition lcfgpackage_has_category :: "LCFGPackage \<Rightarrow> bool" where
  "lcfgpackage_has_category pkg \<longleftrightarrow> \<not> isempty (pkg_category pkg)"

definition lcfgpackage_set_category :: "LCFGPackage \<Rightarrow> cstr \<Rightarrow> bool \<times> LCFGPackage" where
  "lcfgpackage_set_category pkg new_value =
     (if lcfgpackage_valid_category new_value then (True, pkg\<lparr>pkg_category := new_value\<rparr>)
      else (False, pkg))"

definition lcfgpackage_get_priority :: "LCFGPackage \<Rightarrow> int" where
  "lcfgpackage_get_priority pkg = pkg_priority pkg"

definition lcfgpackage_set_priority :: "LCFGPackage \<Rightarrow> int \<Rightarrow> bool \<times> LCFGPackage" where
  "lcfgpackage_set_priority pkg new_prio = (True, pkg\<lparr>pkg_priority := new_prio\<rparr>)"

text \<open>The change, the package, and the message of an expression that does not evaluate.\<close>

definition lcfgpackage_eval_priority ::
    "LCFGPackage \<Rightarrow> LCFGContextList option \<Rightarrow> LCFGChange \<times> LCFGPackage \<times> cstr" where
  "lcfgpackage_eval_priority pkg ctxlist =
     (let evaluated = (if isempty (pkg_context pkg) then Inr 0
                       else lcfgctxlist_eval_expression ctxlist (or_default (pkg_context pkg) []))
      in case evaluated of
        Inl msg \<Rightarrow> (LCFG_CHANGE_ERROR, pkg, Some msg)
      | Inr new_priority \<Rightarrow>
          if new_priority = pkg_priority pkg then (LCFG_CHANGE_NONE, pkg, None)
          else let (ok, pkg') = lcfgpackage_set_priority pkg new_priority
               in if ok then (LCFG_CHANGE_MODIFIED, pkg', None) else (LCFG_CHANGE_ERROR, pkg', None))"

definition lcfgpackage_is_active :: "LCFGPackage \<Rightarrow> bool" where
  "lcfgpackage_is_active pkg \<longleftrightarrow> 0 \<le> pkg_priority pkg"

definition lcfgpackage_full_version :: "LCFGPackage \<Rightarrow> string" where
  "lcfgpackage_full_version pkg =
     (let v = or_default (pkg_version pkg) LCFG_PKG_WILDCARD in
      if \<not> isempty (pkg_release pkg)
      then lcfgutils_string_join (Some ''-'') (Some v) (pkg_release pkg) else v)"

definition lcfgpackage_id :: "LCFGPackage \<Rightarrow> cstr" where
  "lcfgpackage_id pkg =
     (if isempty (pkg_name pkg) then None
      else if isempty (pkg_arch pkg) then pkg_name pkg
      else Some (lcfgutils_string_join (Some ''.'') (pkg_name pkg) (pkg_arch pkg)))"

text \<open>
  \<open>lcfgpackage_clone\<close>: every attribute goes through its setter; \<open>None\<close> when one of them
  refuses the value, which the code says should never happen.
\<close>

definition clone_field ::
    "(LCFGPackage \<Rightarrow> cstr \<Rightarrow> bool \<times> LCFGPackage) \<Rightarrow> cstr \<Rightarrow> bool \<times> LCFGPackage \<Rightarrow> bool \<times> LCFGPackage" where
  "clone_field setter value st =
     (case st of (ok, clone) \<Rightarrow> if ok \<and> \<not> isempty value then setter clone value else (ok, clone))"

definition lcfgpackage_clone :: "LCFGPackage \<Rightarrow> LCFGPackage option" where
  "lcfgpackage_clone pkg =
     (let st1 = clone_field lcfgpackage_set_name (pkg_name pkg) (True, lcfgpackage_new);
          st2 = clone_field lcfgpackage_set_arch (pkg_arch pkg) st1;
          st3 = clone_field lcfgpackage_set_version (pkg_version pkg) st2;
          st4 = clone_field lcfgpackage_set_release (pkg_release pkg) st3;
          st5 = clone_field lcfgpackage_set_flags (pkg_flags pkg) st4;
          st6 = clone_field lcfgpackage_set_context (pkg_context pkg) st5;
          st7 = (if fst st6 \<and> lcfgpackage_has_derivation pkg
                 then lcfgpackage_set_derivation (snd st6) (lcfgpackage_get_derivation pkg) else st6);
          (ok, clone) = clone_field lcfgpackage_set_category (pkg_category pkg) st7
      in if ok then Some (clone\<lparr>pkg_prefix := pkg_prefix pkg, pkg_priority := pkg_priority pkg\<rparr>)
         else None)"

section \<open>Comparison\<close>

definition lcfgpackage_match :: "LCFGPackage \<Rightarrow> string \<Rightarrow> cstr \<Rightarrow> bool" where
  "lcfgpackage_match pkg name arch \<longleftrightarrow>
     (let want_arch = (case arch of None \<Rightarrow> [] | Some a \<Rightarrow> a) in
      strcmp (or_default (pkg_name pkg) []) name = 0 \<and>
      (strcmp want_arch LCFG_PKG_WILDCARD \<noteq> 0 \<longrightarrow>
         strcmp (or_default (pkg_arch pkg) []) want_arch = 0))"

definition lcfgpackage_compare_versions :: "LCFGPackage \<Rightarrow> LCFGPackage \<Rightarrow> int" where
  "lcfgpackage_compare_versions pkg1 pkg2 =
     (let (epoch1, v1) = (if isempty (pkg_version pkg1) then (0, pkg_version pkg1)
                          else map_prod id Some (extract_epoch (or_default (pkg_version pkg1) [])));
          (epoch2, v2) = (if isempty (pkg_version pkg2) then (0, pkg_version pkg2)
                          else map_prod id Some (extract_epoch (or_default (pkg_version pkg2) [])))
      in if epoch2 < epoch1 then 1
         else if epoch1 < epoch2 then - 1
         else let result = compare_vstrings v1 v2
              in if result = 0 then compare_vstrings (pkg_release pkg1) (pkg_release pkg2) else result)"

definition lcfgpackage_compare_names :: "LCFGPackage \<Rightarrow> LCFGPackage \<Rightarrow> int" where
  "lcfgpackage_compare_names pkg1 pkg2 =
     strcasecmp (or_default (pkg_name pkg1) []) (or_default (pkg_name pkg2) [])"

definition lcfgpackage_compare_archs :: "LCFGPackage \<Rightarrow> LCFGPackage \<Rightarrow> int" where
  "lcfgpackage_compare_archs pkg1 pkg2 =
     strcmp (or_default (pkg_arch pkg1) []) (or_default (pkg_arch pkg2) [])"

definition lcfgpackage_compare :: "LCFGPackage \<Rightarrow> LCFGPackage \<Rightarrow> int" where
  "lcfgpackage_compare pkg1 pkg2 =
     (let result = lcfgpackage_compare_names pkg1 pkg2;
          result' = (if result = 0 then lcfgpackage_compare_archs pkg1 pkg2 else result)
      in if result' = 0 then lcfgpackage_compare_versions pkg1 pkg2 else result')"

definition lcfgpackage_equals :: "LCFGPackage \<Rightarrow> LCFGPackage \<Rightarrow> bool" where
  "lcfgpackage_equals pkg1 pkg2 \<longleftrightarrow>
     lcfgpackage_compare_names pkg1 pkg2 = 0 \<and>
     lcfgpackage_compare_archs pkg1 pkg2 = 0 \<and>
     lcfgpackage_compare_versions pkg1 pkg2 = 0 \<and>
     strcmp (or_default (pkg_flags pkg1) []) (or_default (pkg_flags pkg2) []) = 0 \<and>
     strcmp (or_default (pkg_context pkg1) []) (or_default (pkg_context pkg2) []) = 0"

text \<open>The epoch and version of a package as the comparison sees them.\<close>

definition epoch_version :: "LCFGPackage \<Rightarrow> 64 word \<times> cstr" where
  "epoch_version pkg =
     (if isempty (pkg_version pkg) then (0, pkg_version pkg)
      else map_prod id Some (extract_epoch (or_default (pkg_version pkg) [])))"

definition epoch_diff :: "LCFGPackage \<Rightarrow> LCFGPackage \<Rightarrow> int" where
  "epoch_diff p q = uint (fst (epoch_version p)) - uint (fst (epoch_version q))"

lemma comparator_epoch: "comparator epoch_diff"
  unfolding epoch_diff_def by (rule comparator_diff)

lemma comparator_vstrings_by: "comparator (\<lambda>p q. compare_vstrings (f p) (f q))"
  by (rule comparator.comparator_image [OF vstring_order.comparator_axioms])

definition version_order :: "LCFGPackage \<Rightarrow> LCFGPackage \<Rightarrow> int" where
  "version_order p q =
     (if epoch_diff p q = 0
      then (if compare_vstrings (snd (epoch_version p)) (snd (epoch_version q)) = 0
            then compare_vstrings (pkg_release p) (pkg_release q)
            else compare_vstrings (snd (epoch_version p)) (snd (epoch_version q)))
      else epoch_diff p q)"

lemma compare_versions_sgn: "sgn (lcfgpackage_compare_versions p q) = sgn (version_order p q)"
proof -
  have eq: "lcfgpackage_compare_versions p q =
     (if fst (epoch_version q) < fst (epoch_version p) then 1
      else if fst (epoch_version p) < fst (epoch_version q) then - 1
      else if compare_vstrings (snd (epoch_version p)) (snd (epoch_version q)) = 0
           then compare_vstrings (pkg_release p) (pkg_release q)
           else compare_vstrings (snd (epoch_version p)) (snd (epoch_version q)))"
    unfolding lcfgpackage_compare_versions_def epoch_version_def [symmetric]
    by (simp add: Let_def split: prod.splits)
  have less: "fst (epoch_version q) < fst (epoch_version p) \<longleftrightarrow> 0 < epoch_diff p q"
    "fst (epoch_version p) < fst (epoch_version q) \<longleftrightarrow> epoch_diff p q < 0"
    by (simp_all add: epoch_diff_def word_less_def)
  show ?thesis unfolding eq less version_order_def by (simp add: sgn_if)
qed

lemma comparator_version_order: "comparator version_order"
  unfolding version_order_def
  by (rule comparator_then [OF comparator_epoch comparator_then [OF comparator_vstrings_by comparator_vstrings_by]])

interpretation versions: comparator lcfgpackage_compare_versions
  by (rule comparator_by_key [OF comparator_version_order, of _ "\<lambda>p. p"])
    (rule compare_versions_sgn)

interpretation names: comparator lcfgpackage_compare_names
  unfolding lcfgpackage_compare_names_def
  by (rule comparator.comparator_image [OF case_order.comparator_axioms])

interpretation archs: comparator lcfgpackage_compare_archs
  unfolding lcfgpackage_compare_archs_def
  by (rule comparator.comparator_image [OF str_order.comparator_axioms])

interpretation packages: comparator lcfgpackage_compare
proof -
  have "lcfgpackage_compare = (\<lambda>p q. if (if lcfgpackage_compare_names p q = 0
      then lcfgpackage_compare_archs p q else lcfgpackage_compare_names p q) = 0
      then lcfgpackage_compare_versions p q
      else (if lcfgpackage_compare_names p q = 0
        then lcfgpackage_compare_archs p q else lcfgpackage_compare_names p q))"
    by (intro ext) (simp add: lcfgpackage_compare_def Let_def)
  then show "comparator lcfgpackage_compare"
    using comparator_then [OF comparator_then [OF names.comparator_axioms archs.comparator_axioms]
      versions.comparator_axioms] by simp
qed

text \<open>
  C6: \<open>lcfgpackage_compare\<close> is a total preorder on all packages (reflexive, swapping the
  arguments swaps the sign, transitive), although the version comparison in it mixes the
  epoch, the wildcard, the Debian algorithm and the release; and packages that
  \<open>lcfgpackage_equals\<close> accepts compare as 0, with equality itself an equivalence.
\<close>
theorem package_compare_preorder:
  "lcfgpackage_compare p p = 0 \<and>
   sgn (lcfgpackage_compare q p) = - sgn (lcfgpackage_compare p q) \<and>
   (lcfgpackage_compare p q \<le> 0 \<longrightarrow> lcfgpackage_compare q r \<le> 0 \<longrightarrow> lcfgpackage_compare p r \<le> 0) \<and>
   (lcfgpackage_equals p q \<longrightarrow> lcfgpackage_compare p q = 0 \<and> lcfgpackage_equals q p) \<and>
   lcfgpackage_equals p p \<and>
   (lcfgpackage_equals p q \<longrightarrow> lcfgpackage_equals q r \<longrightarrow> lcfgpackage_equals p r)"
proof -
  have "lcfgpackage_equals p q \<longrightarrow> lcfgpackage_compare p q = 0"
    by (auto simp: lcfgpackage_equals_def lcfgpackage_compare_def)
  moreover have "lcfgpackage_equals p q \<longrightarrow> lcfgpackage_equals q p"
    unfolding lcfgpackage_equals_def
    using names.cmp_eq_iff archs.cmp_eq_iff versions.cmp_eq_iff str_order.cmp_eq_iff by metis
  moreover have "lcfgpackage_equals p q \<longrightarrow> lcfgpackage_equals q r \<longrightarrow> lcfgpackage_equals p r"
    unfolding lcfgpackage_equals_def
    using names.cmp_eq_trans archs.cmp_eq_trans versions.cmp_eq_trans str_order.cmp_eq_trans by metis
  moreover have "lcfgpackage_equals p p" by (simp add: lcfgpackage_equals_def)
  ultimately show ?thesis
    using packages.cmp_flip [of q p] packages.cmp_le_trans [of p q r] by simp
qed

theorem package_compare_preorder_witness:
  "lcfgpackage_compare (lcfgpackage_new\<lparr>pkg_name := Some ''a''\<rparr>) (lcfgpackage_new\<lparr>pkg_name := Some ''c''\<rparr>) \<le> 0"
proof -
  have "lcfgpackage_compare (lcfgpackage_new\<lparr>pkg_name := Some ''a''\<rparr>) (lcfgpackage_new\<lparr>pkg_name := Some ''B''\<rparr>) \<le> 0"
    "lcfgpackage_compare (lcfgpackage_new\<lparr>pkg_name := Some ''B''\<rparr>) (lcfgpackage_new\<lparr>pkg_name := Some ''c''\<rparr>) \<le> 0"
    by (simp_all add: lcfgpackage_compare_def lcfgpackage_compare_names_def strcasecmp_def tolower_def lcfg_chr
        byte_def)
  with package_compare_preorder show ?thesis by blast
qed

section \<open>Flags\<close>

definition flag_index :: "char \<Rightarrow> nat" where "flag_index c = nat (byte c - 48)"

lemma flag_index_valid:
  assumes "lcfgpackage_valid_flag_chr c"
  shows "sbyte c - 48 = int (flag_index c)" "flag_index c < 128" "char_of (flag_index c + 48) = c"
proof -
  have b: "48 \<le> byte c" "byte c \<le> 122"
    using assms by (auto simp: lcfgpackage_valid_flag_chr_def lcfg_chr)
  then show "sbyte c - 48 = int (flag_index c)" "flag_index c < 128"
    by (auto simp: sbyte_def flag_index_def)
  have "int (of_char c :: nat) = byte c" unfolding byte_def by (rule of_nat_of_char)
  then have "flag_index c + 48 = (of_char c :: nat)" using b by (simp add: flag_index_def)
  then show "char_of (flag_index c + 48) = c" by simp
qed

definition marked :: "bool list \<Rightarrow> nat set" where
  "marked char_set = {i. i < LCFG_PKG_FLAGS_MAXCHAR \<and> char_set ! i}"

lemma finite_marked [simp]: "finite (marked b)"
  by (simp add: marked_def)

lemma mark_flags_valid:
  assumes "list_all lcfgpackage_valid_flag_chr cs" and "length b = LCFG_PKG_FLAGS_MAXCHAR"
  shows "\<exists>b'. mark_flags cs (b, card (marked b)) = Some (b', card (marked b')) \<and>
    length b' = LCFG_PKG_FLAGS_MAXCHAR \<and> marked b' = marked b \<union> flag_index ` set cs"
  using assms
proof (induction cs arbitrary: b)
  case (Cons c cs)
  note i = flag_index_valid [of c]
  have c: "lcfgpackage_valid_flag_chr c" "list_all lcfgpackage_valid_flag_chr cs"
    using Cons.prems(1) by simp_all
  have idx: "sbyte c - 48 < int LCFG_PKG_FLAGS_MAXCHAR" "\<not> sbyte c - 48 < 0" "nat (sbyte c - 48) = flag_index c"
    using i(1,2) [OF c(1)] by (simp_all add: LCFG_PKG_FLAGS_MAXCHAR_def)
  show ?case
  proof (cases "b ! flag_index c")
    case True
    then have "flag_index c \<in> marked b"
      using i(2) [OF c(1)] by (simp add: marked_def LCFG_PKG_FLAGS_MAXCHAR_def)
    with Cons.IH [OF c(2) Cons.prems(2)] True idx show ?thesis by (auto simp: Let_def insert_absorb)
  next
    case False
    let ?b = "b[flag_index c := True]"
    have m: "marked ?b = insert (flag_index c) (marked b)"
      using i(2) [OF c(1)] Cons.prems(2)
      by (auto simp: marked_def LCFG_PKG_FLAGS_MAXCHAR_def nth_list_update split: if_splits)
    have "flag_index c \<notin> marked b" using False by (simp add: marked_def)
    then have "card (marked ?b) = card (marked b) + 1" by (simp add: m)
    with Cons.IH [OF c(2), of ?b] Cons.prems(2) False idx m show ?thesis by (auto simp: Let_def)
  qed
qed auto

lemma set_flag_chars: "set (flag_chars b) = (\<lambda>i. char_of (i + 48)) ` marked b"
  by (auto simp: flag_chars_def marked_def)

lemma flag_chars_sorted: "sorted_wrt (\<lambda>a b. byte a < byte b) (flag_chars b)"
proof -
  have v: "byte (char_of (i + 48)) = int i + 48" if "i < 128" for i
  proof -
    have "byte (char_of (i + 48)) = int (of_char (char_of (i + 48)) :: nat)"
      unfolding byte_def by (rule of_nat_of_char [symmetric])
    also have "\<dots> = int i + 48" using that by (simp add: of_char_of)
    finally show ?thesis .
  qed
  have "sorted_wrt (<) (filter (\<lambda>i. b ! i) [0..<LCFG_PKG_FLAGS_MAXCHAR])"
    by (intro sorted_wrt_filter sorted_wrt_upt)
  then show ?thesis
    unfolding flag_chars_def sorted_wrt_map
    by (rule sorted_wrt_mono_rel [rotated]) (simp add: v LCFG_PKG_FLAGS_MAXCHAR_def)
qed

text \<open>
  C18: \<open>lcfgpackage_add_flags\<close> with flags that are all alphanumeric, present and new, never
  leaves its array and succeeds. Unless the number of different flags equals the number of
  present ones (then nothing is changed), the flags become the union of both, once each and
  in ascending order; and when the present flags had no repetition, they always are that
  union afterwards.
\<close>
theorem add_flags_union:
  assumes "isempty (pkg_flags pkg) \<or> lcfgpackage_valid_flags (pkg_flags pkg)"
    and "lcfgpackage_valid_flags extra"
  defines "present \<equiv> or_default (pkg_flags pkg) []" and "new \<equiv> or_default extra []"
  shows "\<exists>pkg'. lcfgpackage_add_flags pkg extra = Some (True, pkg') \<and>
    lcfgpackage_valid_flags (pkg_flags pkg') \<and>
    (if card (set present \<union> set new) = length present then pkg' = pkg
     else \<exists>fs. pkg' = pkg\<lparr>pkg_flags := Some fs\<rparr> \<and> set fs = set present \<union> set new \<and>
       sorted_wrt (\<lambda>a b. byte a < byte b) fs) \<and>
    (distinct present \<longrightarrow> set (or_default (pkg_flags pkg') []) = set present \<union> set new)"
proof -
  have pv: "list_all lcfgpackage_valid_flag_chr present"
    using assms(1) by (auto simp: present_def lcfgpackage_valid_flags_def or_default_empty)
  have nv: "list_all lcfgpackage_valid_flag_chr new" "\<not> isempty extra"
    using assms(2) by (auto simp: new_def lcfgpackage_valid_flags_def)
  then have ne: "new \<noteq> []" by (auto simp: new_def or_default_empty isempty_def split: option.splits)
  let ?b0 = "replicate LCFG_PKG_FLAGS_MAXCHAR False"
  have m0: "marked ?b0 = {}" by (auto simp: marked_def)
  obtain b1 where b1: "mark_flags present (?b0, 0) = Some (b1, card (marked b1))"
      "length b1 = LCFG_PKG_FLAGS_MAXCHAR" "marked b1 = flag_index ` set present"
    using mark_flags_valid [OF pv, of ?b0] m0 by auto
  obtain b2 where b2: "mark_flags new (b1, card (marked b1)) = Some (b2, card (marked b2))"
      "marked b2 = flag_index ` (set present \<union> set new)"
    using mark_flags_valid [OF nv(1) b1(2)] b1(3) by (auto simp: image_Un)
  have all: "lcfgpackage_valid_flag_chr c" if "c \<in> set present \<union> set new" for c
    using pv nv(1) that by (auto simp: list_all_iff)
  have chars: "set (flag_chars b2) = set present \<union> set new"
    using all flag_index_valid(3) by (force simp: set_flag_chars b2(2) image_image)
  have inj: "inj_on flag_index (set present \<union> set new)"
    using all flag_index_valid(3) by (metis inj_onI)
  then have card: "card (marked b2) = card (set present \<union> set new)" by (simp add: b2(2) card_image)
  have ok: "lcfgpackage_valid_flags (Some (flag_chars b2))"
    using chars all ne by (cases "flag_chars b2") (auto simp: lcfgpackage_valid_flags_def list_all_iff)
  show ?thesis
  proof (cases "card (set present \<union> set new) = length present")
    case True
    then have result: "lcfgpackage_add_flags pkg extra = Some (True, pkg)"
      using assms(2) nv(2) b1(1) b2(1) card
      by (simp add: lcfgpackage_add_flags_def present_def [symmetric] new_def [symmetric] Let_def)
    have "present \<noteq> []" using True ne by auto
    then have "lcfgpackage_valid_flags (pkg_flags pkg)"
      using assms(1) by (auto simp: present_def or_default_empty)
    moreover have "set present \<union> set new = set present" if "distinct present"
      using True distinct_card [OF that] by (intro card_seteq [symmetric]) auto
    ultimately show ?thesis using result True by (auto simp: present_def [symmetric])
  next
    case False
    have "flag_chars b2 \<noteq> []" using chars ne by auto
    moreover have "lcfgpackage_add_flags pkg extra = Some (True, pkg\<lparr>pkg_flags := Some (flag_chars b2)\<rparr>)"
      using False assms(2) nv(2) b1(1) b2(1) card ok
      by (simp add: lcfgpackage_add_flags_def present_def [symmetric] new_def [symmetric] Let_def
          lcfgpackage_set_flags_def)
    ultimately show ?thesis using False ok chars flag_chars_sorted [of b2] by auto
  qed
qed

theorem add_flags_union_witness:
  "\<exists>pkg'. lcfgpackage_add_flags (lcfgpackage_new\<lparr>pkg_flags := Some ''r''\<rparr>) (Some ''ir'') = Some (True, pkg') \<and>
     set (or_default (pkg_flags pkg') []) = {CHR ''i'', CHR ''r''}"
proof -
  have "lcfgpackage_valid_flags (Some ''r'')" "lcfgpackage_valid_flags (Some ''ir'')"
    by (simp_all add: lcfgpackage_valid_flags_def lcfgpackage_valid_flag_chr_def lcfg_chr byte_def)
  from add_flags_union [OF _ this(2), of "lcfgpackage_new\<lparr>pkg_flags := Some ''r''\<rparr>"] this(1)
  show ?thesis by (auto simp: insert_commute)
qed

text \<open>A repeated flag can hide a new one.\<close>

lemma add_flags_repeated:
  "lcfgpackage_add_flags (lcfgpackage_new\<lparr>pkg_flags := Some ''aa''\<rparr>) (Some ''b'') =
     Some (True, lcfgpackage_new\<lparr>pkg_flags := Some ''aa''\<rparr>)"
  by (simp add: lcfgpackage_add_flags_def lcfgpackage_valid_flags_def lcfgpackage_valid_flag_chr_def
      lcfg_chr byte_def sbyte_def LCFG_PKG_FLAGS_MAXCHAR_def lcfgpackage_new_def Let_def)

section \<open>The invariant of packages\<close>

text \<open>Every attribute is missing or was accepted by its validator.\<close>

definition attr_ok :: "(cstr \<Rightarrow> bool) \<Rightarrow> cstr \<Rightarrow> bool" where
  "attr_ok valid v \<longleftrightarrow> isempty v \<or> valid v"

definition pkg_ok :: "LCFGPackage \<Rightarrow> bool" where
  "pkg_ok pkg \<longleftrightarrow>
     attr_ok lcfgpackage_valid_name (pkg_name pkg) \<and>
     attr_ok lcfgpackage_valid_arch (pkg_arch pkg) \<and>
     attr_ok lcfgpackage_valid_version (pkg_version pkg) \<and>
     attr_ok lcfgpackage_valid_release (pkg_release pkg) \<and>
     attr_ok lcfgpackage_valid_flags (pkg_flags pkg) \<and>
     attr_ok lcfgpackage_valid_context (pkg_context pkg) \<and>
     attr_ok lcfgpackage_valid_category (pkg_category pkg) \<and>
     (case pkg_derivation pkg of None \<Rightarrow> True | Some l \<Rightarrow> drvlist_ok l) \<and>
     lcfgpackage_valid_prefix (pkg_prefix pkg)"

lemmas pkg_setters = lcfgpackage_set_name_def lcfgpackage_set_arch_def lcfgpackage_set_version_def
  lcfgpackage_set_release_def lcfgpackage_set_flags_def lcfgpackage_set_context_def
  lcfgpackage_set_category_def lcfgpackage_set_prefix_def lcfgpackage_set_priority_def
  lcfgpackage_set_derivation_def lcfgpackage_clear_prefix_def lcfgpackage_clear_flags_def

lemma pkg_ok_new [simp]: "pkg_ok lcfgpackage_new"
  by (simp add: pkg_ok_def lcfgpackage_new_def attr_ok_def lcfgpackage_valid_prefix_def strchr_in_def
      LCFG_PKG_PREFIX_NONE_def)

lemma set_derivation_ok:
  "pkg_ok pkg \<Longrightarrow> (case l of None \<Rightarrow> True | Some x \<Rightarrow> drvlist_ok x) \<Longrightarrow>
     pkg_ok (snd (lcfgpackage_set_derivation pkg l))"
  by (simp add: pkg_ok_def lcfgpackage_set_derivation_def)

lemma pkg_ok_derivation: "pkg_ok pkg \<Longrightarrow> (case pkg_derivation pkg of None \<Rightarrow> True | Some l \<Rightarrow> drvlist_ok l)"
  by (simp add: pkg_ok_def)

lemma merge_derivation_ok:
  assumes "pkg_ok p" and "pkg_ok q"
  shows "pkg_ok (snd (lcfgpackage_merge_derivation p (Some q)))" (is ?ok)
    and "fst (lcfgpackage_merge_derivation p (Some q))" (is ?fst)
proof -
  obtain c where c: "lcfgderivlist_clone (pkg_derivation p) = Some c" "drvlist_ok c"
    using derivlist_clone_ok [OF pkg_ok_derivation [OF assms(1)]] by metis
  obtain rc c' where m: "lcfgderivlist_merge_list c (pkg_derivation q) = (rc, c')" by fastforce
  have "drvlist_ok c' \<and> rc \<noteq> LCFG_CHANGE_ERROR"
    using merge_list_keeps_ok [OF c(2) pkg_ok_derivation [OF assms(2)] m] .
  then show ?ok ?fst
    using assms set_derivation_ok [OF assms(1)] pkg_ok_derivation [OF assms(2)] c m
    by (auto simp: lcfgpackage_merge_derivation_def lcfgpackage_get_derivation_def
        lcfgpackage_set_derivation_def)
qed

lemma add_derivation_ok:
  assumes "pkg_ok p"
  shows "pkg_ok (snd (lcfgpackage_add_derivation_string p v))"
    and "pkg_ok (snd (lcfgpackage_add_derivation_file_line p v n))"
    and "pkg_ok (snd (lcfgpackage_set_derivation_as_string p v))"
proof -
  obtain c where c: "lcfgderivlist_clone (pkg_derivation p) = Some c" "drvlist_ok c"
    using derivlist_clone_ok [OF pkg_ok_derivation [OF assms]] by metis
  have set_ok: "pkg_ok (snd (lcfgpackage_set_derivation p (Some l)))" if "drvlist_ok l" for l
    using set_derivation_ok [OF assms] that by simp
  have "drvlist_ok (snd (lcfgderivlist_merge_file_line c v n))"
    using merge_file_line_ok [OF c(2)] by (metis prod.collapse)
  then show "pkg_ok (snd (lcfgpackage_add_derivation_file_line p v n))"
    using assms c set_ok
    by (auto simp: lcfgpackage_add_derivation_file_line_def lcfgpackage_get_derivation_def split: prod.splits)
  have "drvlist_ok (snd (lcfgderivlist_merge_string_list c v))"
    using c(2) merge_list_keeps_ok derivlist_from_string_ok
    by (auto simp: lcfgderivlist_merge_string_list_def split: sum.splits)
       (metis option.simps(5) prod.collapse)
  then show "pkg_ok (snd (lcfgpackage_add_derivation_string p v))"
    using assms c set_ok
    by (auto simp: lcfgpackage_add_derivation_string_def lcfgpackage_get_derivation_def split: prod.splits)
  show "pkg_ok (snd (lcfgpackage_set_derivation_as_string p v))"
    using assms set_ok derivlist_from_string_ok set_derivation_ok [OF assms, of None]
    by (auto simp: lcfgpackage_set_derivation_as_string_def split: option.splits sum.splits)
qed

text \<open>
  C15: every operation that changes a package keeps its invariant: starting from a package
  whose attributes are all missing or valid, no setter, no way of adding flags, a context
  or a derivation, no merge of derivations and no evaluation of the priority produces one
  with an attribute that its validator would refuse, whatever value is passed in.
\<close>
theorem package_operations_keep_ok:
  assumes "pkg_ok p" and "pkg_ok q"
  shows "pkg_ok (snd (lcfgpackage_set_name p v)) \<and> pkg_ok (snd (lcfgpackage_set_arch p v)) \<and>
    pkg_ok (snd (lcfgpackage_set_version p v)) \<and> pkg_ok (snd (lcfgpackage_set_release p v)) \<and>
    pkg_ok (snd (lcfgpackage_set_flags p v)) \<and> pkg_ok (snd (lcfgpackage_set_context p v)) \<and>
    pkg_ok (snd (lcfgpackage_set_category p v)) \<and> pkg_ok (snd (lcfgpackage_set_prefix p c)) \<and>
    pkg_ok (snd (lcfgpackage_clear_prefix p)) \<and> pkg_ok (snd (lcfgpackage_clear_flags p)) \<and>
    (case lcfgpackage_add_flags p v of None \<Rightarrow> True | Some r \<Rightarrow> pkg_ok (snd r)) \<and>
    pkg_ok (snd (lcfgpackage_add_context scmp p v)) \<and>
    pkg_ok (snd (lcfgpackage_set_derivation_as_string p v)) \<and>
    pkg_ok (snd (lcfgpackage_add_derivation_string p v)) \<and>
    pkg_ok (snd (lcfgpackage_add_derivation_file_line p v n)) \<and>
    pkg_ok (snd (lcfgpackage_merge_derivation p (Some q))) \<and>
    pkg_ok (fst (snd (lcfgpackage_eval_priority p l)))"
proof -
  have setters: "pkg_ok (snd (lcfgpackage_set_name p v))" "pkg_ok (snd (lcfgpackage_set_arch p v))"
    "pkg_ok (snd (lcfgpackage_set_version p v))" "pkg_ok (snd (lcfgpackage_set_release p v))"
    "pkg_ok (snd (lcfgpackage_set_flags p v))" "pkg_ok (snd (lcfgpackage_set_context p v))"
    "pkg_ok (snd (lcfgpackage_set_category p v))" "pkg_ok (snd (lcfgpackage_set_prefix p c))"
    "pkg_ok (snd (lcfgpackage_clear_prefix p))" "pkg_ok (snd (lcfgpackage_clear_flags p))" for v c
    using assms(1) pkg_ok_new by (auto simp: pkg_ok_def pkg_setters attr_ok_def lcfgpackage_new_def)
  have "case lcfgpackage_add_flags p v of None \<Rightarrow> True | Some r \<Rightarrow> pkg_ok (snd r)"
    using assms(1) setters(5)
    by (auto simp: lcfgpackage_add_flags_def Let_def split: option.splits prod.splits)
       (metis snd_conv)+
  moreover have "pkg_ok (snd (lcfgpackage_add_context scmp p v))"
    using assms(1) setters(6) by (auto simp: lcfgpackage_add_context_def)
  moreover have "pkg_ok (fst (snd (lcfgpackage_eval_priority p l)))"
    using assms(1) by (auto simp: lcfgpackage_eval_priority_def lcfgpackage_set_priority_def pkg_ok_def
        Let_def split: sum.splits)
  ultimately show ?thesis
    using setters add_derivation_ok [OF assms(1)] merge_derivation_ok(1) [OF assms] by blast
qed

theorem package_operations_keep_ok_witness:
  "pkg_ok (snd (lcfgpackage_set_name lcfgpackage_new (Some ''foo'')))"
  using package_operations_keep_ok [OF pkg_ok_new pkg_ok_new] by blast

text \<open>An attribute without its distinction of missing and empty.\<close>

definition attr_norm :: "cstr \<Rightarrow> cstr" where
  "attr_norm v = (if isempty v then None else v)"

lemma clone_steps:
  "attr_ok lcfgpackage_valid_name v \<Longrightarrow> clone_field lcfgpackage_set_name v (True, c) =
     (True, c\<lparr>pkg_name := if isempty v then pkg_name c else v\<rparr>)"
  "attr_ok lcfgpackage_valid_arch v \<Longrightarrow> clone_field lcfgpackage_set_arch v (True, c) =
     (True, c\<lparr>pkg_arch := if isempty v then pkg_arch c else v\<rparr>)"
  "attr_ok lcfgpackage_valid_version v \<Longrightarrow> clone_field lcfgpackage_set_version v (True, c) =
     (True, c\<lparr>pkg_version := if isempty v then pkg_version c else v\<rparr>)"
  "attr_ok lcfgpackage_valid_release v \<Longrightarrow> clone_field lcfgpackage_set_release v (True, c) =
     (True, c\<lparr>pkg_release := if isempty v then pkg_release c else v\<rparr>)"
  "attr_ok lcfgpackage_valid_flags v \<Longrightarrow> clone_field lcfgpackage_set_flags v (True, c) =
     (True, c\<lparr>pkg_flags := if isempty v then pkg_flags c else v\<rparr>)"
  "attr_ok lcfgpackage_valid_context v \<Longrightarrow> clone_field lcfgpackage_set_context v (True, c) =
     (True, c\<lparr>pkg_context := if isempty v then pkg_context c else v\<rparr>)"
  "attr_ok lcfgpackage_valid_category v \<Longrightarrow> clone_field lcfgpackage_set_category v (True, c) =
     (True, c\<lparr>pkg_category := if isempty v then pkg_category c else v\<rparr>)"
  by (auto simp: attr_ok_def clone_field_def pkg_setters)

lemma compare_vstrings_norm: "compare_vstrings v (attr_norm v) = 0"
  by (cases "isempty v") (auto simp: attr_norm_def compare_vstrings_def)

text \<open>
  cloning never fails on a package that satisfies the invariant, and the clone has the
  same attributes (an empty one becomes a missing one), the same prefix and priority, the
  derivation unless it was empty, and a reference count of 1; it equals the original.
\<close>
theorem package_clone_correct:
  assumes "pkg_ok pkg"
  shows "lcfgpackage_clone pkg =
      Some \<lparr>pkg_name = attr_norm (pkg_name pkg), pkg_arch = attr_norm (pkg_arch pkg),
        pkg_version = attr_norm (pkg_version pkg), pkg_release = attr_norm (pkg_release pkg),
        pkg_flags = attr_norm (pkg_flags pkg), pkg_context = attr_norm (pkg_context pkg),
        pkg_derivation = (if lcfgpackage_has_derivation pkg then pkg_derivation pkg else None),
        pkg_category = attr_norm (pkg_category pkg),
        pkg_prefix = pkg_prefix pkg, pkg_priority = pkg_priority pkg, pkg_refcount = 1\<rparr> \<and>
    lcfgpackage_equals pkg (the (lcfgpackage_clone pkg))"
proof -
  have clone: "lcfgpackage_clone pkg =
      Some \<lparr>pkg_name = attr_norm (pkg_name pkg), pkg_arch = attr_norm (pkg_arch pkg),
        pkg_version = attr_norm (pkg_version pkg), pkg_release = attr_norm (pkg_release pkg),
        pkg_flags = attr_norm (pkg_flags pkg), pkg_context = attr_norm (pkg_context pkg),
        pkg_derivation = (if lcfgpackage_has_derivation pkg then pkg_derivation pkg else None),
        pkg_category = attr_norm (pkg_category pkg),
        pkg_prefix = pkg_prefix pkg, pkg_priority = pkg_priority pkg, pkg_refcount = 1\<rparr>" (is "_ = Some ?c")
    using assms unfolding pkg_ok_def
    by (simp add: lcfgpackage_clone_def clone_steps lcfgpackage_new_def lcfgpackage_set_derivation_def
        lcfgpackage_get_derivation_def attr_norm_def Let_def)
  have norm: "or_default (attr_norm v) d = or_default v d" "isempty (attr_norm v) = isempty v" for v d
    by (auto simp: attr_norm_def or_default_empty)
  have "lcfgpackage_compare_versions pkg ?c = 0"
    by (cases "isempty (pkg_version pkg)")
      (simp_all add: lcfgpackage_compare_versions_def compare_vstrings_norm norm split: prod.splits)
  then have "lcfgpackage_equals pkg ?c"
    using names.cmp_refl [of pkg] archs.cmp_refl [of pkg]
    by (simp add: lcfgpackage_equals_def lcfgpackage_compare_names_def lcfgpackage_compare_archs_def norm)
  with clone show ?thesis by simp
qed

theorem package_clone_correct_witness:
  "lcfgpackage_clone lcfgpackage_new = Some lcfgpackage_new"
  using package_clone_correct [OF pkg_ok_new]
  by (simp add: lcfgpackage_new_def attr_norm_def lcfgpackage_has_derivation_def)

section \<open>Contexts and priorities\<close>

lemma eval_priority_cases:
  "lcfgpackage_eval_priority p l =
     (case (if isempty (pkg_context p) then Inr 0
            else lcfgctxlist_eval_expression l (or_default (pkg_context p) [])) of
        Inl msg \<Rightarrow> (LCFG_CHANGE_ERROR, p, Some msg)
      | Inr n \<Rightarrow> (if n = pkg_priority p then LCFG_CHANGE_NONE else LCFG_CHANGE_MODIFIED,
          p\<lparr>pkg_priority := n\<rparr>, None))"
  by (simp add: lcfgpackage_eval_priority_def lcfgpackage_set_priority_def Let_def
      split: sum.splits)

lemma priority_update_same [simp]: "p\<lparr>pkg_priority := n\<rparr> = p \<longleftrightarrow> n = pkg_priority p"
  by (cases p) auto

text \<open>
  C13: a package is active exactly in its contexts. When the priority of a package that has
  a well-formed, non-blank context expression is evaluated with
  \<open>lcfgpackage_eval_priority\<close> against a sane context list, no error is reported and
  \<open>lcfgpackage_is_active\<close> afterwards says whether the expression holds; a package without
  a context is always active, with priority 0.
\<close>
theorem package_active_iff_context:
  assumes "ctxlist_sane l" and "no_nul (or_default (pkg_context p) [])"
    and "\<not> isempty (pkg_context p) \<longrightarrow> expression e (fst (lex (or_default (pkg_context p) [])))"
  shows "case lcfgpackage_eval_priority p (Some l) of (change, p', msg) \<Rightarrow>
    change \<noteq> LCFG_CHANGE_ERROR \<and> msg = None \<and>
    (change = LCFG_CHANGE_NONE \<longleftrightarrow> p' = p) \<and>
    (if isempty (pkg_context p) then lcfgpackage_is_active p' \<and> pkg_priority p' = 0
     else pkg_priority p' \<noteq> 0 \<and> (lcfgpackage_is_active p' \<longleftrightarrow> holds l e))"
proof (cases "isempty (pkg_context p)")
  case True
  then show ?thesis by (auto simp: eval_priority_cases lcfgpackage_is_active_def)
next
  case False
  let ?s = "or_default (pkg_context p) []"
  have tree: "tree_ok e" "fst (lex ?s) = tree_tokens e"
    using assms(3) False by (simp_all add: expression_iff)
  have "expression e (fst (lex ?s))" using assms(3) False by blast
  then have "parse_query (fst (lex ?s)) = Inr (Some e)" by (simp add: parse_query_iff)
  then have v: "lcfgctxlist_eval_expression (Some l) ?s = Inr (eval_tree (Some l) e)"
    by (simp add: lcfgctxlist_eval_expression_def)
  have "query_value l (holds l e) (eval_tree (Some l) e)"
    using eval_tree_value [OF assms(1) tree(1)] lex_no_nul [OF assms(2)] tree(2) by simp
  then show ?thesis using False v
    by (auto simp: eval_priority_cases lcfgpackage_is_active_def query_value_def)
qed

theorem package_active_iff_context_witness:
  "case lcfgpackage_eval_priority (lcfgpackage_new\<lparr>pkg_context := Some ''!lab''\<rparr>) (Some lcfgctxlist_new) of
     (change, p', msg) \<Rightarrow> change \<noteq> LCFG_CHANGE_ERROR \<and> msg = None \<and>
       (change = LCFG_CHANGE_NONE \<longleftrightarrow> p' = lcfgpackage_new\<lparr>pkg_context := Some ''!lab''\<rparr>) \<and>
       (if isempty (pkg_context (lcfgpackage_new\<lparr>pkg_context := Some ''!lab''\<rparr>))
        then lcfgpackage_is_active p' \<and> pkg_priority p' = 0
        else pkg_priority p' \<noteq> 0 \<and> (lcfgpackage_is_active p' \<longleftrightarrow> holds lcfgctxlist_new (IsFalse ''lab'')))"
proof -
  let ?p = "lcfgpackage_new\<lparr>pkg_context := Some ''!lab''\<rparr>"
  have ctx: "or_default (pkg_context ?p) [] = ''!lab''" by simp
  have "fst (lex ''!lab'') = tree_tokens (IsFalse ''lab'')" by (simp add: lex_eval)
  then have "expression (IsFalse ''lab'') (fst (lex ''!lab''))" by (simp add: expression_iff)
  then have e: "\<not> isempty (pkg_context ?p) \<longrightarrow>
      expression (IsFalse ''lab'') (fst (lex (or_default (pkg_context ?p) [])))"
    unfolding ctx by blast
  have sane: "ctxlist_sane lcfgctxlist_new"
    by (simp add: ctxlist_sane_def) (simp add: lcfgctxlist_new_def)
  have "no_nul (or_default (pkg_context ?p) [])" unfolding ctx by (simp add: nul_def)
  from package_active_iff_context [OF sane this e] show ?thesis .
qed

text \<open>
  C14: adding a context narrows a package. For combinable expressions and any conforming
  \<open>strcmp\<close>, \<open>lcfgpackage_add_context\<close> succeeds and the package is afterwards active in
  exactly those context lists where both the old and the added expression hold.
\<close>
theorem add_context_narrows:
  assumes "libc_strcmp scmp" and "combinable s1 e1" and "combinable s2 e2"
    and "pkg_context p = Some s1" and "ctxlist_sane l"
  shows "\<exists>p'. lcfgpackage_add_context scmp p (Some s2) = (True, p') \<and>
    (lcfgpackage_is_active (fst (snd (lcfgpackage_eval_priority p' (Some l)))) \<longleftrightarrow> holds l e1 \<and> holds l e2)"
proof -
  obtain r e where r: "lcfgcontext_combine_expressions scmp (Some s1) (Some s2) = Some r" "combinable r e"
    and val: "\<And>l. eval_tree l e = eval_op OP_AND (eval_tree l e1) (eval_tree l e2)"
    using libc_strcmp.combine_and [OF assms(1-3)] by blast
  have ne: "s1 \<noteq> []" "s2 \<noteq> []" "r \<noteq> []" using assms(2,3) r(2) by (simp_all add: combinable_def)
  have valid: "lcfgpackage_valid_context (Some r)"
    using combinable_eval [OF r(2)] by (simp add: lcfgpackage_valid_context_def lcfgcontext_valid_expression_def)
  let ?p = "p\<lparr>pkg_context := Some r\<rparr>"
  have add: "lcfgpackage_add_context scmp p (Some s2) = (True, ?p)"
    using ne assms(4) r(1) valid by (simp add: lcfgpackage_add_context_def lcfgpackage_set_context_def)
  have q: "eval_tree (Some l) e' \<noteq> 0 \<and> (0 < eval_tree (Some l) e' \<longleftrightarrow> holds l e')"
    if "combinable s e'" for s e'
  proof -
    have "tree_ok e'" "list_all token_no_nul (tree_tokens e')"
      using that lex_no_nul [of s] by (simp_all add: combinable_def)
    from eval_tree_value [OF assms(5) this] show ?thesis by (simp add: query_value_def)
  qed
  have "0 \<le> eval_op OP_AND a b \<longleftrightarrow> 0 < a \<and> 0 < b" if "a \<noteq> 0" "b \<noteq> 0" for a b :: int
    using that by (auto simp: greater_def lesser_def)
  then have "0 \<le> eval_tree (Some l) e \<longleftrightarrow> holds l e1 \<and> holds l e2"
    unfolding val using q [OF assms(2)] q [OF assms(3)] by blast
  moreover have "pkg_priority (fst (snd (lcfgpackage_eval_priority ?p (Some l)))) = eval_tree (Some l) e"
    using ne combinable_eval [OF r(2)] by (simp add: eval_priority_cases)
  ultimately show ?thesis using add by (auto simp: lcfgpackage_is_active_def)
qed

theorem add_context_narrows_witness:
  "\<exists>p'. lcfgpackage_add_context strcmp (lcfgpackage_new\<lparr>pkg_context := Some ''a''\<rparr>) (Some ''b'') = (True, p') \<and>
    (lcfgpackage_is_active (fst (snd (lcfgpackage_eval_priority p' (Some lcfgctxlist_new)))) \<longleftrightarrow>
      holds lcfgctxlist_new (IsTrue ''a'') \<and> holds lcfgctxlist_new (IsTrue ''b''))"
proof -
  have "combinable ''a'' (IsTrue ''a'')" "combinable ''b'' (IsTrue ''b'')"
    by (simp_all add: combinable_def lex_eval nul_def)
  moreover have "ctxlist_sane lcfgctxlist_new"
    by (simp add: ctxlist_sane_def) (simp add: lcfgctxlist_new_def)
  ultimately show ?thesis
    using add_context_narrows [OF byte_difference.libc_strcmp_axioms, of "''a''" "IsTrue ''a''" "''b''" "IsTrue ''b''"
        "lcfgpackage_new\<lparr>pkg_context := Some ''a''\<rparr>" lcfgctxlist_new] by simp
qed

end
