(* ===== verification/Lcfg_Package_Spec.thy ===== *)
theory Lcfg_Package_Spec
  imports Lcfg_Package
begin

text \<open>
  Package specification strings (\<open>packages/package.c\<close>): the two field walkers,
  \<open>lcfgpackage_from_spec\<close> and \<open>lcfgpackage_to_spec\<close>. The C code moves a start pointer
  forwards and a length backwards over one string; here the start is a suffix of the
  string and the length a number.
\<close>

section \<open>Walking over fields\<close>

text \<open>\<open>strchr( stop, c )\<close> for a set that may be \<open>NULL\<close>.\<close>

definition stops :: "cstr \<Rightarrow> char \<Rightarrow> bool" where
  "stops stop c \<longleftrightarrow> (case stop of None \<Rightarrow> False | Some s \<Rightarrow> strchr_in s c)"

fun search_forwards :: "string \<Rightarrow> char \<Rightarrow> cstr \<Rightarrow> nat option" where
  "search_forwards [] sep stop = None"
| "search_forwards (c # s) sep stop =
     (if c = sep then Some 0
      else if stops stop c then None
      else map_option Suc (search_forwards s sep stop))"

text \<open>Whether the separator was found, the new start and the field.\<close>

definition walk_forwards_until :: "string \<Rightarrow> char \<Rightarrow> cstr \<Rightarrow> bool \<times> string \<times> cstr" where
  "walk_forwards_until start sep stop =
     (let begin_ptr = skip_space start in
      case search_forwards begin_ptr sep stop of
        None \<Rightarrow> (False, start, None)
      | Some i \<Rightarrow>
          let field = trim_end (take i begin_ptr)
          in (True, drop (i + 1) begin_ptr, if field = [] then None else Some field))"

definition char_at :: "string \<Rightarrow> nat \<Rightarrow> char" where
  "char_at s i = (if i < length s then s ! i else nul)"

fun search_backwards :: "string \<Rightarrow> nat \<Rightarrow> char \<Rightarrow> cstr \<Rightarrow> nat option" where
  "search_backwards input 0 sep stop =
     (if char_at input 0 = sep then Some 0 else None)"
| "search_backwards input (Suc i) sep stop =
     (if char_at input (Suc i) = sep then Some (Suc i)
      else if stops stop (char_at input (Suc i)) then None
      else search_backwards input i sep stop)"

text \<open>Whether the separator was found, the new length and the field.\<close>

definition walk_backwards_until :: "string \<Rightarrow> nat \<Rightarrow> char \<Rightarrow> cstr \<Rightarrow> bool \<times> nat \<times> cstr" where
  "walk_backwards_until input len sep stop =
     (let my_len = length (trim_end (take len input));
          end_pos = (if 0 < my_len then my_len - 1 else 0)
      in case search_backwards input end_pos sep stop of
           None \<Rightarrow> (False, len, None)
         | Some begin_pos \<Rightarrow>
             (True, begin_pos,
              if begin_pos = end_pos then None
              else Some (skip_space (take (end_pos - begin_pos) (drop (begin_pos + 1) input)))))"

section \<open>Parsing a specification\<close>

definition invalid_package :: "string \<Rightarrow> string" where
  "invalid_package reason = ''Invalid package ('' @ reason @ '')''"

definition bad_value :: "string \<Rightarrow> string \<Rightarrow> string" where
  "bad_value what value = invalid_package (''bad '' @ what @ '' '' @ [CHR 0x27] @ value @ [CHR 0x27])"

definition or_fail :: "'e + 'a \<Rightarrow> ('a \<Rightarrow> 'e + 'b) \<Rightarrow> 'e + 'b" where
  "or_fail r f = (case r of Inl e \<Rightarrow> Inl e | Inr x \<Rightarrow> f x)"

text \<open>A field that was found is stored through its setter.\<close>

definition store_field ::
    "(LCFGPackage \<Rightarrow> cstr \<Rightarrow> bool \<times> LCFGPackage) \<Rightarrow> string \<Rightarrow> cstr \<Rightarrow> LCFGPackage \<Rightarrow> string + LCFGPackage"
where
  "store_field setter what value pkg =
     (case value of
        None \<Rightarrow> Inr pkg
      | Some v \<Rightarrow> (case setter pkg value of (ok, pkg') \<Rightarrow>
          if ok then Inr pkg' else Inl (bad_value what v)))"

definition spec_prefix :: "string \<Rightarrow> LCFGPackage \<Rightarrow> string + (string \<times> LCFGPackage)" where
  "spec_prefix start pkg =
     (if \<not> isword (cur start)
      then (case lcfgpackage_set_prefix pkg (cur start) of (ok, pkg') \<Rightarrow>
        if ok then Inr (tl start, pkg') else Inl (bad_value ''prefix'' [cur start]))
      else Inr (start, pkg))"

definition spec_context :: "string \<Rightarrow> nat \<Rightarrow> LCFGPackage \<Rightarrow> string + (nat \<times> LCFGPackage)" where
  "spec_context start len pkg =
     (if char_at start (if 0 < len then len - 1 else 0) = CHR '']'' then
        (case walk_backwards_until start (len - 1) (CHR ''['') None of
           (found, ctx_len, the_context) \<Rightarrow>
             if found then or_fail (store_field lcfgpackage_set_context ''context'' the_context pkg)
               (\<lambda>pkg'. Inr (ctx_len, pkg'))
             else Inr (len, pkg))
      else Inr (len, pkg))"

definition spec_flags :: "string \<Rightarrow> nat \<Rightarrow> LCFGPackage \<Rightarrow> string + (nat \<times> LCFGPackage)" where
  "spec_flags start len pkg =
     (case walk_backwards_until start len (CHR '':'') (Some ''/-=.~_+-*?'') of
        (_, len', the_flags) \<Rightarrow>
          or_fail (store_field lcfgpackage_set_flags ''flags'' the_flags pkg) (\<lambda>pkg'. Inr (len', pkg')))"

definition spec_arch :: "string \<Rightarrow> nat \<Rightarrow> cstr \<Rightarrow> LCFGPackage \<Rightarrow> string + (nat \<times> LCFGPackage)" where
  "spec_arch start len the_arch pkg =
     (case walk_backwards_until start len (CHR ''/'') (Some ''-='') of
        (_, len', arch2) \<Rightarrow>
          or_fail (store_field lcfgpackage_set_arch ''architecture''
              (if the_arch = None then arch2 else the_arch) pkg)
            (\<lambda>pkg'. Inr (len', pkg')))"

text \<open>The version and release: \<open>name=version-release\<close>, else \<open>name-version-release\<close>.\<close>

definition spec_version_release :: "string \<Rightarrow> nat \<Rightarrow> string + (nat \<times> cstr \<times> cstr)" where
  "spec_version_release start len =
     (case walk_backwards_until start len (CHR ''='') None of
        (_, len', Some vr) \<Rightarrow>
          (case strrchr_split vr (CHR ''-'') of
             None \<Rightarrow> Inr (len', Some vr, None)
           | Some (the_version, rel_start) \<Rightarrow>
               Inr (len', Some the_version, if rel_start = [] then None else Some rel_start))
      | (_, len', None) \<Rightarrow>
          (case walk_backwards_until start len' (CHR ''-'') None of
             (_, _, None) \<Rightarrow> Inl (invalid_package ''failed to extract release'')
           | (_, len2, Some the_release) \<Rightarrow>
               (case walk_backwards_until start len2 (CHR ''-'') None of
                  (_, _, None) \<Rightarrow> Inl (invalid_package ''failed to extract version'')
                | (_, len3, Some the_version) \<Rightarrow> Inr (len3, Some the_version, Some the_release))))"

definition nonempty_field :: "cstr \<Rightarrow> cstr" where
  "nonempty_field v = (if isempty v then None else v)"

definition spec_name :: "string \<Rightarrow> nat \<Rightarrow> LCFGPackage \<Rightarrow> string + LCFGPackage" where
  "spec_name start len pkg =
     (if len = 0 then Inl (invalid_package ''failed to extract name'')
      else store_field lcfgpackage_set_name ''name'' (Some (take len start)) pkg)"

definition lcfgpackage_from_spec :: "cstr \<Rightarrow> string + LCFGPackage" where
  "lcfgpackage_from_spec input =
     (case input of
        None \<Rightarrow> Inl (invalid_package ''empty spec string'')
      | Some s \<Rightarrow>
        if skip_space s = [] then Inl (invalid_package ''empty spec string'')
        else or_fail (spec_prefix (skip_space s) lcfgpackage_new) (\<lambda>(start0, pkg0).
          case walk_forwards_until start0 (CHR ''/'') (Some ''-='') of (_, start, the_arch) \<Rightarrow>
          or_fail (spec_context start (length (trim_end start)) pkg0) (\<lambda>(len1, pkg1).
          or_fail (spec_flags start len1 pkg1) (\<lambda>(len2, pkg2).
          or_fail (spec_arch start len2 the_arch pkg2) (\<lambda>(len3, pkg3).
          or_fail (spec_version_release start len3) (\<lambda>(len4, the_version, the_release).
          or_fail (store_field lcfgpackage_set_version ''version'' (nonempty_field the_version) pkg3) (\<lambda>pkg4.
          or_fail (store_field lcfgpackage_set_release ''release'' (nonempty_field the_release) pkg4) (\<lambda>pkg5.
          spec_name start len4 pkg5))))))))"

section \<open>Writing a specification\<close>

definition lcfgpackage_to_spec :: "LCFGPackage \<Rightarrow> cstr \<Rightarrow> bits \<Rightarrow> string option" where
  "lcfgpackage_to_spec pkg defarch options =
     (if \<not> lcfgpackage_is_valid (Some pkg) then None
      else let pkgnam = or_default (pkg_name pkg) [];
               pkgver = or_default (pkg_version pkg) LCFG_PKG_WILDCARD;
               pkgrel = (if isempty (pkg_release pkg) \<and>
                            (lcfgpackage_has_epoch pkg \<or> \<not> has_bit options LCFG_OPT_NEW)
                         then Some LCFG_PKG_WILDCARD else pkg_release pkg);
               pkgpfx = (if \<not> has_bit options LCFG_OPT_NOPREFIX \<and> lcfgpackage_has_prefix pkg
                         then pkg_prefix pkg else LCFG_PKG_PREFIX_NONE);
               compat = (has_bit options LCFG_OPT_COMPAT \<and> \<not> has_bit options LCFG_OPT_NEW);
               pkgarch = (if lcfgpackage_has_arch pkg \<and>
                             (isempty defarch \<or> strcmp (or_default (pkg_arch pkg) []) (or_default defarch []) \<noteq> 0)
                          then Some (or_default (pkg_arch pkg) []) else None);
               arch_compat = (compat \<and> \<not> (pkgarch \<noteq> None \<and> strcmp (or_default (pkg_arch pkg) []) ''noarch'' = 0));
               pkgflgs = or_default (pkg_flags pkg) [];
               pkgctx = (if has_bit options LCFG_OPT_NOCONTEXT then [] else or_default (pkg_context pkg) [])
           in Some ((if pkgpfx \<noteq> LCFG_PKG_PREFIX_NONE then [pkgpfx] else []) @
                    (case pkgarch of Some a \<Rightarrow> if arch_compat then a @ ''/'' else [] | None \<Rightarrow> []) @
                    pkgnam @
                    (if has_bit options LCFG_OPT_NEW then ''='' else ''-'') @
                    pkgver @
                    (if \<not> isempty pkgrel then ''-'' @ or_default pkgrel [] else []) @
                    (case pkgarch of Some a \<Rightarrow> if \<not> arch_compat then ''/'' @ a else [] | None \<Rightarrow> []) @
                    (if pkgflgs \<noteq> [] then '':'' @ pkgflgs else []) @
                    (if pkgctx \<noteq> [] then ''['' @ pkgctx @ '']'' else []) @
                    (if has_bit options LCFG_OPT_NEWLINE then [CHR 0x0A] else [])))"

section \<open>What is parsed is valid\<close>

lemma or_fail_Inr [simp]: "or_fail r f = Inr y \<longleftrightarrow> (\<exists>x. r = Inr x \<and> f x = Inr y)"
  by (cases r) (auto simp: or_fail_def)

lemma or_fail_simps [simp]: "or_fail (Inr x) f = f x" "or_fail (Inl e) f = Inl e"
  by (simp_all add: or_fail_def)

text \<open>A package under construction: well-formed, with its first reference.\<close>

definition fresh_ok :: "LCFGPackage \<Rightarrow> bool" where
  "fresh_ok pkg \<longleftrightarrow> pkg_ok pkg \<and> pkg_refcount pkg = 1"

lemma fresh_ok_new [simp]: "fresh_ok lcfgpackage_new"
  by (simp add: fresh_ok_def) (simp add: lcfgpackage_new_def)

definition keeps_ok :: "(LCFGPackage \<Rightarrow> cstr \<Rightarrow> bool \<times> LCFGPackage) \<Rightarrow> bool" where
  "keeps_ok setter \<longleftrightarrow> (\<forall>pkg v. fresh_ok pkg \<longrightarrow> fresh_ok (snd (setter pkg v)))"

lemma setters_keep_ok [simp]:
  "keeps_ok lcfgpackage_set_name" "keeps_ok lcfgpackage_set_arch" "keeps_ok lcfgpackage_set_version"
  "keeps_ok lcfgpackage_set_release" "keeps_ok lcfgpackage_set_flags" "keeps_ok lcfgpackage_set_context"
  by (auto simp: keeps_ok_def pkg_setters fresh_ok_def pkg_ok_def attr_ok_def)

lemma store_field_ok: "store_field setter what v pkg = Inr pkg' \<Longrightarrow> keeps_ok setter \<Longrightarrow> fresh_ok pkg \<Longrightarrow> fresh_ok pkg'"
  by (auto simp: store_field_def keeps_ok_def split: option.splits prod.splits if_splits) (metis snd_conv)

lemma spec_steps_ok:
  "spec_prefix s p = Inr (s', p') \<Longrightarrow> fresh_ok p \<Longrightarrow> fresh_ok p'"
  "spec_context s n p = Inr (n', p') \<Longrightarrow> fresh_ok p \<Longrightarrow> fresh_ok p'"
  "spec_flags s n p = Inr (n', p') \<Longrightarrow> fresh_ok p \<Longrightarrow> fresh_ok p'"
  "spec_arch s n a p = Inr (n', p') \<Longrightarrow> fresh_ok p \<Longrightarrow> fresh_ok p'"
  "spec_name s n p = Inr p' \<Longrightarrow> fresh_ok p \<Longrightarrow> fresh_ok p'"
proof -
  show "spec_prefix s p = Inr (s', p') \<Longrightarrow> fresh_ok p \<Longrightarrow> fresh_ok p'"
    by (auto simp: spec_prefix_def lcfgpackage_set_prefix_def fresh_ok_def pkg_ok_def split: if_splits)
qed (auto simp: spec_context_def spec_flags_def spec_arch_def spec_name_def
    split: if_splits prod.splits dest: store_field_ok)

lemma spec_name_valid: "spec_name s n p = Inr p' \<Longrightarrow> lcfgpackage_is_valid (Some p')"
  by (auto simp: spec_name_def store_field_def lcfgpackage_set_name_def lcfgpackage_is_valid_def
      lcfgpackage_valid_name_def split: if_splits)

lemma from_spec_ok:
  assumes "lcfgpackage_from_spec input = Inr pkg"
  shows "pkg_ok pkg \<and> pkg_refcount pkg = 1 \<and> lcfgpackage_is_valid (Some pkg)"
proof (cases input)
  case (Some s)
  with assms obtain start0 p0 where p0: "spec_prefix (skip_space s) lcfgpackage_new = Inr (start0, p0)"
    by (auto simp: lcfgpackage_from_spec_def split: if_splits)
  obtain b start arch where w: "walk_forwards_until start0 (CHR ''/'') (Some ''-='') = (b, start, arch)"
    by (cases "walk_forwards_until start0 (CHR ''/'') (Some ''-='')") auto
  from assms Some p0 w obtain n1 p1 n2 p2 n3 p3 p4 v p5 r n where
    "spec_context start (length (trim_end start)) p0 = Inr (n1, p1)"
    "spec_flags start n1 p1 = Inr (n2, p2)" "spec_arch start n2 arch p2 = Inr (n3, p3)"
    "store_field lcfgpackage_set_version ''version'' v p3 = Inr p4"
    "store_field lcfgpackage_set_release ''release'' r p4 = Inr p5" "spec_name start n p5 = Inr pkg"
    by (auto simp: lcfgpackage_from_spec_def split: if_splits)
  with p0 show ?thesis
    using fresh_ok_new spec_steps_ok store_field_ok setters_keep_ok spec_name_valid unfolding fresh_ok_def by metis
qed (use assms in \<open>simp add: lcfgpackage_from_spec_def\<close>)

section \<open>Parsing what was printed\<close>

lemma search_backwards_found:
  "j \<le> i \<Longrightarrow> char_at s j = sep \<Longrightarrow>
   (\<And>k. j < k \<Longrightarrow> k \<le> i \<Longrightarrow> char_at s k \<noteq> sep \<and> \<not> stops stop (char_at s k)) \<Longrightarrow>
   search_backwards s i sep stop = Some j"
  by (induction s i sep stop rule: search_backwards.induct) (auto simp: le_Suc_eq)

lemma search_backwards_stop:
  "j \<le> i \<Longrightarrow> stops stop (char_at s j) \<or> j = 0 \<Longrightarrow>
   (\<And>k. j \<le> k \<Longrightarrow> k \<le> i \<Longrightarrow> char_at s k \<noteq> sep) \<Longrightarrow> search_backwards s i sep stop = None"
  by (induction s i sep stop rule: search_backwards.induct) (auto simp: le_Suc_eq)

lemma char_at_append: "char_at (u @ v) i = (if i < length u then u ! i else char_at v (i - length u))"
  by (auto simp: char_at_def nth_append)

text \<open>The three outcomes of a walk backwards over a prefix \<open>b\<close> of the string.\<close>

lemma walk_back_found:
  assumes "f \<noteq> []" "\<not> isspace (hd f)" "\<not> isspace (last f)" "sep \<notin> set f" "\<forall>c\<in>set f. \<not> stops stop c"
  shows "walk_backwards_until (u @ sep # f @ rest) (length u + Suc (length f)) sep stop =
    (True, length u, Some f)"
proof -
  let ?s = "u @ sep # f @ rest"
  have pre: "take (length u + Suc (length f)) ?s = u @ sep # f" by simp
  have trim: "trim_end (u @ sep # f) = u @ sep # f" using assms(1,3) by (intro trim_end_id) simp
  have "search_backwards ?s (length u + length f) sep stop = Some (length u)"
  proof (rule search_backwards_found)
    fix k assume k: "length u < k" "k \<le> length u + length f"
    define m where "m = k - Suc (length u)"
    have m: "k = length u + Suc m" "m < length f" using k by (auto simp: m_def)
    then have "char_at ?s k = f ! m" by (simp add: char_at_def nth_append)
    moreover have "f ! m \<in> set f" using m(2) by (rule nth_mem)
    ultimately show "char_at ?s k \<noteq> sep \<and> \<not> stops stop (char_at ?s k)" using assms(4,5) by auto
  qed (simp_all add: char_at_def)
  moreover have "skip_space f = f" using assms(1,2) by (intro skip_space_id) auto
  ultimately show ?thesis
    using assms(1) by (simp add: walk_backwards_until_def pre trim Let_def)
qed

definition guarded :: "char \<Rightarrow> cstr \<Rightarrow> string \<Rightarrow> bool" where
  "guarded sep stop b \<longleftrightarrow>
     (\<exists>u c f. b = u @ c # f \<and> (stops stop c \<or> u = []) \<and> sep \<notin> set (c # f) \<and> \<not> isspace (last (c # f)))"

lemma walk_back_guarded:
  assumes "guarded sep stop b"
  shows "walk_backwards_until (b @ rest) (length b) sep stop = (False, length b, None)"
proof -
  obtain u c f where b: "b = u @ c # f" and c: "stops stop c \<or> u = []"
    and f: "sep \<notin> set (c # f)" "\<not> isspace (last (c # f))"
    using assms unfolding guarded_def by blast
  have trim: "trim_end b = b" using b f(2) by (intro trim_end_id) simp
  have "search_backwards (b @ rest) (length u + length f) sep stop = None"
  proof (rule search_backwards_stop)
    fix k assume k: "length u \<le> k" "k \<le> length u + length f"
    define m where "m = k - length u"
    have m: "k = length u + m" "m < length (c # f)" using k by (auto simp: m_def)
    have "char_at (u @ (c # f) @ rest) (length u + m) = (c # f) ! m"
      using m(2) by (simp only: char_at_def nth_append) simp
    then have "char_at (b @ rest) k = (c # f) ! m" by (simp add: b m(1))
    moreover have "(c # f) ! m \<in> set (c # f)" using m(2) by (rule nth_mem)
    ultimately show "char_at (b @ rest) k \<noteq> sep" using f(1) by auto
  next
    show "stops stop (char_at (b @ rest) (length u)) \<or> length u = 0"
      using c by (auto simp: b char_at_def)
  qed simp
  then show ?thesis by (simp add: walk_backwards_until_def trim Let_def) (simp add: b)
qed

text \<open>A field and the mark before it, absent where the field is empty.\<close>

definition marked_field :: "char \<Rightarrow> string \<Rightarrow> string" where
  "marked_field c f = (if f = [] then [] else c # f)"

definition bracketed :: "string \<Rightarrow> string" where
  "bracketed ctx = (if ctx = [] then [] else ''['' @ ctx @ '']'')"

lemma field_chars:
  "isverchr c \<Longrightarrow> \<not> isspace c \<and> c \<noteq> CHR ''='' \<and> c \<noteq> CHR ''/'' \<and> c \<noteq> CHR '']''"
  "isrelchr c \<Longrightarrow> \<not> isspace c \<and> c \<noteq> CHR ''='' \<and> c \<noteq> CHR ''/'' \<and> c \<noteq> CHR '']'' \<and> c \<noteq> CHR ''-'' \<and> c \<noteq> CHR '':''"
  "isnamechr c \<Longrightarrow> \<not> isspace c \<and> c \<noteq> CHR ''='' \<and> c \<noteq> CHR ''/''"
  "isword c \<Longrightarrow> \<not> isspace c \<and> c \<noteq> CHR ''='' \<and> c \<noteq> CHR ''/'' \<and> c \<noteq> CHR '']'' \<and> c \<noteq> CHR ''-'' \<and> c \<noteq> CHR '':''"
  "isalnum c \<Longrightarrow> \<not> isspace c \<and> c \<noteq> CHR '':'' \<and> \<not> stops (Some ''/-=.~_+-*?'') c"
  "isword c \<Longrightarrow> \<not> stops (Some ''-='') c"
  by (auto simp: isverchr_def isrelchr_def isnamechr_def stops_def strchr_in_def lcfg_chr byte_def nul_def)

lemma guarded_field:
  assumes "stops stop c" "f \<noteq> []" "c \<noteq> sep" "sep \<notin> set f" "\<not> isspace (last f)"
  shows "guarded sep stop (u @ c # f)"
  unfolding guarded_def using assms by (intro exI [of _ u] exI [of _ c] exI [of _ f]) simp

lemma last_field: "f \<noteq> [] \<Longrightarrow> list_all P f \<Longrightarrow> P (last f) \<and> P (hd f)"
  by (auto simp: list_all_iff)

text \<open>Each step of the parser on text that ends with its field.\<close>

lemma spec_context_step:
  assumes "b \<noteq> []" "\<not> isspace (last b)" "last b \<noteq> CHR '']''" "\<forall>c\<in>set nl. isspace c"
    and "ctx \<noteq> [] \<Longrightarrow> \<not> isspace (hd ctx) \<and> \<not> isspace (last ctx) \<and> CHR ''['' \<notin> set ctx \<and>
      lcfgpackage_valid_context (Some ctx)"
  shows "spec_context (b @ bracketed ctx @ nl) (length (trim_end (b @ bracketed ctx @ nl))) p =
    Inr (length b, p\<lparr>pkg_context := if ctx = [] then pkg_context p else Some ctx\<rparr>)"
proof -
  have "\<not> isspace (last (b @ bracketed ctx))"
    using assms(1,2) by (auto simp: bracketed_def lcfg_chr byte_def)
  moreover have "dropWhile isspace (rev nl @ rev (b @ bracketed ctx)) = dropWhile isspace (rev (b @ bracketed ctx))"
    using assms(4) by (intro dropWhile_append2) auto
  ultimately have trim: "trim_end (b @ bracketed ctx @ nl) = b @ bracketed ctx"
    using trim_end_id [of "b @ bracketed ctx"] by (simp add: trim_end_def)
  show ?thesis
  proof (cases "ctx = []")
    case True
    have "char_at (b @ nl) (length b - 1) = last b"
      using assms(1) by (cases b) (simp_all add: char_at_def nth_append last_conv_nth)
    with True trim assms(1,3) show ?thesis by (simp add: spec_context_def bracketed_def)
  next
    case False
    note c = assms(5) [OF False]
    have end_char: "char_at (b @ ''['' @ ctx @ '']'' @ nl) (length b + Suc (length ctx)) = CHR '']''"
      by (simp add: char_at_def nth_append)
    have "walk_backwards_until (b @ CHR ''['' # ctx @ '']'' @ nl) (length b + Suc (length ctx)) (CHR ''['') None =
      (True, length b, Some ctx)"
      using False c by (intro walk_back_found) (auto simp: stops_def)
    with end_char trim False c show ?thesis
      by (simp add: spec_context_def bracketed_def store_field_def lcfgpackage_set_context_def)
  qed
qed

lemma spec_flags_step:
  assumes "flags \<noteq> [] \<Longrightarrow> list_all isalnum flags"
    and "flags = [] \<Longrightarrow> guarded (CHR '':'') (Some ''/-=.~_+-*?'') b"
  shows "spec_flags (b @ marked_field (CHR '':'') flags @ rest) (length (b @ marked_field (CHR '':'') flags)) p =
    Inr (length b, p\<lparr>pkg_flags := if flags = [] then pkg_flags p else Some flags\<rparr>)"
proof (cases "flags = []")
  case True
  with walk_back_guarded [OF assms(2) [OF True], of rest] show ?thesis
    by (simp add: spec_flags_def marked_field_def store_field_def)
next
  case False
  have "walk_backwards_until (b @ CHR '':'' # flags @ rest) (length b + Suc (length flags)) (CHR '':'')
      (Some ''/-=.~_+-*?'') = (True, length b, Some flags)"
  proof (rule walk_back_found)
    show "\<not> isspace (hd flags)" "\<not> isspace (last flags)"
      using last_field [OF False assms(1) [OF False]] field_chars(5) by blast+
    show "CHR '':'' \<notin> set flags" "\<forall>c\<in>set flags. \<not> stops (Some ''/-=.~_+-*?'') c"
      using assms(1) [OF False] field_chars(5) unfolding list_all_iff by blast+
  qed (rule False)
  with False assms(1) [OF False] show ?thesis
    by (simp add: spec_flags_def marked_field_def store_field_def lcfgpackage_set_flags_def
        lcfgpackage_valid_flags_def list_all_iff lcfgpackage_valid_flag_chr_def)
qed

lemma spec_arch_step:
  assumes "arch \<noteq> [] \<Longrightarrow> list_all isword arch" and "first_arch \<noteq> [] \<Longrightarrow> list_all isword first_arch"
    and "arch = [] \<Longrightarrow> guarded (CHR ''/'') (Some ''-='') b"
  shows "spec_arch (b @ marked_field (CHR ''/'') arch @ rest) (length (b @ marked_field (CHR ''/'') arch))
      (if first_arch = [] then None else Some first_arch) p =
    Inr (length b, p\<lparr>pkg_arch := if first_arch \<noteq> [] then Some first_arch
      else if arch \<noteq> [] then Some arch else pkg_arch p\<rparr>)"
proof -
  have "walk_backwards_until (b @ marked_field (CHR ''/'') arch @ rest)
      (length (b @ marked_field (CHR ''/'') arch)) (CHR ''/'') (Some ''-='') =
    (arch \<noteq> [], length b, if arch = [] then None else Some arch)"
  proof (cases "arch = []")
    case True
    with walk_back_guarded [OF assms(3) [OF True], of rest] show ?thesis by (simp add: marked_field_def)
  next
    case False
    have "walk_backwards_until (b @ CHR ''/'' # arch @ rest) (length b + Suc (length arch)) (CHR ''/'')
        (Some ''-='') = (True, length b, Some arch)"
    proof (rule walk_back_found)
      show "\<not> isspace (hd arch)" "\<not> isspace (last arch)"
        using last_field [OF False assms(1) [OF False]] field_chars(4) by blast+
      show "CHR ''/'' \<notin> set arch" "\<forall>c\<in>set arch. \<not> stops (Some ''-='') c"
        using assms(1) [OF False] field_chars(4,6) unfolding list_all_iff by blast+
    qed (rule False)
    with False show ?thesis by (simp add: marked_field_def)
  qed
  moreover have "lcfgpackage_valid_arch (Some a)" if "a \<noteq> []" "list_all isword a" for a
    using that by (simp add: lcfgpackage_valid_arch_def list_all_iff)
  ultimately show ?thesis
    using assms(1,2) by (auto simp: spec_arch_def store_field_def lcfgpackage_set_arch_def)
qed

lemma version_chars:
  assumes "list_all isverchr ver" "list_all isrelchr rel"
  shows "CHR ''='' \<notin> set ver" "CHR ''='' \<notin> set rel" "CHR ''-'' \<notin> set rel" "CHR '':'' \<notin> set rel"
    "CHR ''/'' \<notin> set ver" "CHR ''/'' \<notin> set rel"
  using assms field_chars(1,2) unfolding list_all_iff by blast+

lemma spec_version_new:
  assumes "ver \<noteq> []" "list_all isverchr ver" "list_all isrelchr rel" "rel = [] \<Longrightarrow> CHR ''-'' \<notin> set ver"
  shows "spec_version_release (name @ CHR ''='' # ver @ marked_field (CHR ''-'') rel @ rest)
      (length (name @ CHR ''='' # ver @ marked_field (CHR ''-'') rel)) =
    Inr (length name, Some ver, if rel = [] then None else Some rel)"
proof -
  let ?vr = "ver @ marked_field (CHR ''-'') rel"
  have "walk_backwards_until (name @ CHR ''='' # ?vr @ rest) (length name + Suc (length ?vr)) (CHR ''='') None =
    (True, length name, Some ?vr)"
  proof (rule walk_back_found)
    show "\<not> isspace (hd ?vr)" using last_field [OF assms(1,2)] field_chars(1) assms(1) by simp
    show "\<not> isspace (last ?vr)"
      using last_field [OF assms(1,2)] last_field [OF _ assms(3)] field_chars(1,2) assms(1)
      by (auto simp: marked_field_def)
    show "CHR ''='' \<notin> set ?vr" using version_chars(1,2) [OF assms(2,3)] by (simp add: marked_field_def)
  qed (use assms(1) in \<open>simp_all add: stops_def\<close>)
  moreover have "strrchr_split ?vr (CHR ''-'') = (if rel = [] then None else Some (ver, rel))"
    using strrchr_split_last [of "CHR ''-''" rel ver] strrchr_split_none [of "CHR ''-''" ver]
      version_chars(3) [OF assms(2,3)] assms(4)
    by (auto simp: marked_field_def)
  ultimately show ?thesis by (cases "rel = []") (simp_all add: spec_version_release_def marked_field_def)
qed

lemma spec_version_legacy:
  assumes "ver \<noteq> []" "rel \<noteq> []" "list_all isverchr ver" "list_all isrelchr rel" "CHR ''-'' \<notin> set ver"
    and "name \<noteq> []" "CHR ''='' \<notin> set name"
  shows "spec_version_release (name @ CHR ''-'' # ver @ CHR ''-'' # rel @ rest)
      (length (name @ CHR ''-'' # ver @ CHR ''-'' # rel)) =
    Inr (length name, Some ver, Some rel)"
proof -
  let ?nv = "name @ CHR ''-'' # ver"
  let ?b = "?nv @ CHR ''-'' # rel"
  have ends: "\<not> isspace (hd ver)" "\<not> isspace (last ver)" "\<not> isspace (hd rel)" "\<not> isspace (last rel)"
    using last_field [OF assms(1,3)] last_field [OF assms(2,4)] field_chars(1,2) by blast+
  have "guarded (CHR ''='') None ?b"
    unfolding guarded_def using assms(2,6,7) ends(4) version_chars(1,2) [OF assms(3,4)]
    by (intro exI [of _ "[]"] exI [of _ "hd name"] exI [of _ "tl name @ CHR ''-'' # ver @ CHR ''-'' # rel"])
      (cases name; simp)
  note no_equals = walk_back_guarded [OF this, of rest]
  have release: "walk_backwards_until (?nv @ CHR ''-'' # rel @ rest) (length ?nv + Suc (length rel)) (CHR ''-'') None =
      (True, length ?nv, Some rel)"
    using assms(2) ends version_chars(3) [OF assms(3,4)] by (intro walk_back_found) (simp_all add: stops_def)
  have version: "walk_backwards_until (name @ CHR ''-'' # ver @ CHR ''-'' # rel @ rest) (length name + Suc (length ver))
      (CHR ''-'') None = (True, length name, Some ver)"
    using assms(1,5) ends by (intro walk_back_found) (simp_all add: stops_def)
  show ?thesis using no_equals release version by (simp add: spec_version_release_def add.assoc)
qed

lemma spec_prefix_step:
  assumes "pfx = LCFG_PKG_PREFIX_NONE \<or> lcfgpackage_valid_prefix pfx" "s \<noteq> []" "isword (hd s)"
  shows "spec_prefix (skip_space ((if pfx = LCFG_PKG_PREFIX_NONE then [] else [pfx]) @ s)) lcfgpackage_new =
      Inr (s, lcfgpackage_new\<lparr>pkg_prefix := pfx\<rparr>)"
proof (cases "pfx = LCFG_PKG_PREFIX_NONE")
  case True
  have "skip_space s = s" using assms(2,3) by (intro skip_space_id) (auto dest: field_chars(4))
  with True assms(2,3) show ?thesis
    by (cases s) (auto simp: spec_prefix_def lcfgpackage_new_def)
next
  case False
  then have p: "pfx \<in> set ''?+-!~>''" "lcfgpackage_valid_prefix pfx"
    using assms(1) by (auto simp: lcfgpackage_valid_prefix_def strchr_in_def permitted_prefixes_def
        LCFG_PKG_PREFIX_NONE_def)
  then have "\<not> isspace pfx \<and> \<not> isword pfx" by (auto simp: lcfg_chr byte_def)
  with False p(2) show ?thesis by (simp add: spec_prefix_def lcfgpackage_set_prefix_def)
qed

text \<open>The first architecture, or that there is none.\<close>

lemma search_forwards_found:
  "sep \<notin> set f \<Longrightarrow> \<forall>c\<in>set f. \<not> stops stop c \<Longrightarrow> search_forwards (f @ sep # r) sep stop = Some (length f)"
  by (induction f) auto

lemma search_forwards_stop:
  "sep \<notin> set f \<Longrightarrow> c \<noteq> sep \<Longrightarrow> stops stop c \<Longrightarrow> search_forwards (f @ c # r) sep stop = None"
  by (induction f) auto

lemma walk_forwards_found:
  assumes "a \<noteq> []" "list_all isword a"
  shows "walk_forwards_until (a @ CHR ''/'' # s) (CHR ''/'') (Some ''-='') = (True, s, Some a)"
proof -
  have "skip_space (a @ CHR ''/'' # s) = a @ CHR ''/'' # s" "trim_end a = a"
    using last_field [OF assms] field_chars(4) assms(1)
    by (intro skip_space_id trim_end_id; simp)+
  moreover have "search_forwards (a @ CHR ''/'' # s) (CHR ''/'') (Some ''-='') = Some (length a)"
    using assms(2) field_chars(4,6) by (intro search_forwards_found) (auto simp: list_all_iff)
  ultimately show ?thesis using assms(1) by (simp add: walk_forwards_until_def)
qed

lemma walk_forwards_none:
  assumes "name \<noteq> []" "list_all isnamechr name" "c = CHR ''='' \<or> c = CHR ''-''"
  shows "walk_forwards_until (name @ c # s) (CHR ''/'') (Some ''-='') = (False, name @ c # s, None)"
proof -
  have "skip_space (name @ c # s) = name @ c # s"
    using last_field [OF assms(1,2)] field_chars(3) assms(1) by (intro skip_space_id) simp
  moreover have "CHR ''/'' \<notin> set name" using assms(2) field_chars(3) unfolding list_all_iff by blast
  then have "search_forwards (name @ c # s) (CHR ''/'') (Some ''-='') = None"
    using assms(3) by (intro search_forwards_stop) (auto simp: stops_def strchr_in_def)
  ultimately show ?thesis by (simp add: walk_forwards_until_def)
qed

text \<open>The parser on a specification put together from valid fields.\<close>

definition opt_field :: "string \<Rightarrow> cstr" where
  "opt_field f = (if f = [] then None else Some f)"

definition sep_char :: "bits \<Rightarrow> char" where
  "sep_char options = (if has_bit options LCFG_OPT_NEW then CHR ''='' else CHR ''-'')"

lemma version_guarded:
  assumes "ver \<noteq> []" "list_all isverchr ver" "list_all isrelchr rel" "sep \<in> {CHR '':'', CHR ''/''}"
    and "rel = [] \<Longrightarrow> sep \<notin> set ver" "stops stop (CHR ''-'')" "stops stop (CHR ''='')"
  shows "guarded sep stop (name @ sep_char options # ver @ marked_field (CHR ''-'') rel)"
proof (cases "rel = []")
  case True
  show ?thesis
    using True assms last_field [OF assms(1,2)] field_chars(1)
    by (simp add: marked_field_def sep_char_def) (auto intro!: guarded_field)
next
  case False
  have "guarded sep stop ((name @ sep_char options # ver) @ CHR ''-'' # rel)"
    using False assms last_field [OF False assms(3)] field_chars(2) version_chars(4,6) [OF assms(2,3)]
    by (intro guarded_field) auto
  with False show ?thesis by (simp add: marked_field_def)
qed

lemma from_spec_fields:
  assumes name: "lcfgpackage_valid_name (Some name)" and ver: "ver \<noteq> []" "list_all isverchr ver"
    and rel: "list_all isrelchr rel" "rel = [] \<Longrightarrow> CHR '':'' \<notin> set ver \<and> CHR ''-'' \<notin> set ver"
    and legacy: "\<not> has_bit options LCFG_OPT_NEW \<Longrightarrow> rel \<noteq> [] \<and> CHR ''-'' \<notin> set ver"
    and arch: "list_all isword a1" "list_all isword a2" "a1 = [] \<or> a2 = []"
    and flags: "list_all isalnum flags" and nl: "\<forall>c\<in>set nl. isspace c"
    and ctx: "ctx \<noteq> [] \<Longrightarrow> \<not> isspace (hd ctx) \<and> \<not> isspace (last ctx) \<and> CHR ''['' \<notin> set ctx \<and>
      lcfgpackage_valid_context (Some ctx)"
    and pfx: "pfx = LCFG_PKG_PREFIX_NONE \<or> lcfgpackage_valid_prefix pfx"
  shows "lcfgpackage_from_spec (Some ((if pfx = LCFG_PKG_PREFIX_NONE then [] else [pfx]) @
      (if a1 = [] then [] else a1 @ ''/'') @ name @ sep_char options # ver @ marked_field (CHR ''-'') rel @
      marked_field (CHR ''/'') a2 @ marked_field (CHR '':'') flags @ bracketed ctx @ nl)) =
    Inr (lcfgpackage_new\<lparr>pkg_name := Some name, pkg_arch := opt_field (a1 @ a2), pkg_version := Some ver,
      pkg_release := opt_field rel, pkg_flags := opt_field flags, pkg_context := opt_field ctx,
      pkg_prefix := pfx\<rparr>)"
proof -
  let ?b3 = "name @ sep_char options # ver @ marked_field (CHR ''-'') rel"
  let ?b2 = "?b3 @ marked_field (CHR ''/'') a2"
  let ?b1 = "?b2 @ marked_field (CHR '':'') flags"
  let ?start = "?b1 @ bracketed ctx @ nl"
  let ?s = "(if a1 = [] then [] else a1 @ ''/'') @ ?start"
  let ?pfx = "if pfx = LCFG_PKG_PREFIX_NONE then [] else [pfx]"
  have n: "name \<noteq> []" "isalnum (hd name)" "list_all isnamechr name"
    using name by (cases name; simp add: lcfgpackage_valid_name_def isnamechr_def lcfg_chr)+
  have hd: "?s \<noteq> []" "isword (hd ?s)"
    using n(1,2) last_field [OF _ arch(1)] by (auto simp: lcfg_chr)
  have prefix: "spec_prefix (skip_space (?pfx @ ?s)) lcfgpackage_new = Inr (?s, lcfgpackage_new\<lparr>pkg_prefix := pfx\<rparr>)"
    by (rule spec_prefix_step [OF pfx hd])
  have sep: "sep_char options = CHR ''='' \<or> sep_char options = CHR ''-''" by (simp add: sep_char_def)
  have "\<exists>b. walk_forwards_until ?s (CHR ''/'') (Some ''-='') = (b, ?start, opt_field a1)"
    using walk_forwards_found [OF _ arch(1)] walk_forwards_none [OF n(1,3) sep]
    by (cases "a1 = []") (auto simp: opt_field_def)
  then obtain w where forwards: "walk_forwards_until ?s (CHR ''/'') (Some ''-='') = (w, ?start, opt_field a1)" ..
  have last1: "\<not> isspace (last ?b1) \<and> last ?b1 \<noteq> CHR '']''"
    using last_field [OF ver] last_field [OF _ rel(1)] last_field [OF _ arch(2)] last_field [OF _ flags]
      field_chars(1,2,4,5) ver(1)
    by (auto simp: marked_field_def lcfg_chr byte_def)
  have ctx_step: "spec_context ?start (length (trim_end ?start)) p =
      Inr (length ?b1, p\<lparr>pkg_context := if ctx = [] then pkg_context p else Some ctx\<rparr>)" for p
    using last1 n(1) by (intro spec_context_step nl ctx) auto
  have flags_step: "spec_flags ?start (length ?b1) p =
      Inr (length ?b2, p\<lparr>pkg_flags := if flags = [] then pkg_flags p else Some flags\<rparr>)" for p
  proof -
    have "guarded (CHR '':'') (Some ''/-=.~_+-*?'') ?b2"
    proof (cases "a2 = []")
      case True
      then show ?thesis
        using version_guarded [OF ver rel(1), of "CHR '':''" "Some ''/-=.~_+-*?''"] rel(2)
        by (simp add: marked_field_def stops_def strchr_in_def)
    next
      case False
      have "CHR '':'' \<notin> set a2" using arch(2) field_chars(4) unfolding list_all_iff by blast
      then have "guarded (CHR '':'') (Some ''/-=.~_+-*?'') (?b3 @ CHR ''/'' # a2)"
        using False last_field [OF False arch(2)] field_chars(4)
        by (intro guarded_field) (auto simp: stops_def strchr_in_def)
      with False show ?thesis by (simp add: marked_field_def)
    qed
    from spec_flags_step [OF flags this, of "bracketed ctx @ nl" p] show ?thesis by simp
  qed
  have arch_step: "spec_arch ?start (length ?b2) (opt_field a1) p =
      Inr (length ?b3, p\<lparr>pkg_arch := if a1 \<noteq> [] then Some a1 else if a2 \<noteq> [] then Some a2 else pkg_arch p\<rparr>)" for p
  proof -
    have "CHR ''/'' \<notin> set ver" by (rule version_chars(5) [OF ver(2) rel(1)])
    then have "guarded (CHR ''/'') (Some ''-='') ?b3"
      using version_guarded [OF ver rel(1), of "CHR ''/''" "Some ''-=''"] by (simp add: stops_def strchr_in_def)
    from spec_arch_step [OF arch(2,1) this, of "marked_field (CHR '':'') flags @ bracketed ctx @ nl" p]
    show ?thesis by (simp add: opt_field_def)
  qed
  have version_step: "spec_version_release ?start (length ?b3) = Inr (length name, Some ver, opt_field rel)"
  proof (cases "has_bit options LCFG_OPT_NEW")
    case True
    then show ?thesis using spec_version_new [OF ver rel(1), of name] rel(2)
      by (simp add: sep_char_def opt_field_def)
  next
    case False
    have "CHR ''='' \<notin> set name" using n(3) field_chars(3) unfolding list_all_iff by blast
    with False show ?thesis using legacy [OF False] spec_version_legacy [OF ver(1) _ ver(2) rel(1) _ n(1)]
      by (simp add: sep_char_def opt_field_def marked_field_def)
  qed
  have set: "lcfgpackage_valid_version (Some ver)" "rel \<noteq> [] \<Longrightarrow> lcfgpackage_valid_release (Some rel)"
    using ver rel(1) by (simp_all add: lcfgpackage_valid_version_def lcfgpackage_valid_release_def)
  have "skip_space (?pfx @ ?s) \<noteq> []"
  proof
    assume "skip_space (?pfx @ ?s) = []"
    then have "\<forall>c\<in>set ?s. isspace c" by (auto simp: skip_space_def)
    moreover have "hd ?s \<in> set ?s" using hd(1) by (rule hd_in_set)
    ultimately show False using hd(2) field_chars(4) by blast
  qed
  then have "lcfgpackage_from_spec (Some (?pfx @ ?s)) =
    Inr (lcfgpackage_new\<lparr>pkg_name := Some name, pkg_arch := opt_field (a1 @ a2), pkg_version := Some ver,
      pkg_release := opt_field rel, pkg_flags := opt_field flags, pkg_context := opt_field ctx,
      pkg_prefix := pfx\<rparr>)"
    using n(1) name set ver(1) arch(3)
    by (simp only: lcfgpackage_from_spec_def option.case prefix or_fail_simps prod.case forwards ctx_step
        flags_step arch_step version_step if_False)
      (auto simp: store_field_def nonempty_field_def pkg_setters spec_name_def opt_field_def
        lcfgpackage_new_def)
  then show ?thesis by simp
qed

text \<open>What a specification says of a package, for a default architecture and options.\<close>

definition shown_arch :: "LCFGPackage \<Rightarrow> cstr \<Rightarrow> string" where
  "shown_arch pkg defarch =
     (if isempty defarch \<or> strcmp (or_default (pkg_arch pkg) []) (or_default defarch []) \<noteq> 0
      then or_default (pkg_arch pkg) [] else [])"

definition shown_release :: "LCFGPackage \<Rightarrow> bits \<Rightarrow> string" where
  "shown_release pkg options =
     or_default (pkg_release pkg)
       (if lcfgpackage_has_epoch pkg \<or> \<not> has_bit options LCFG_OPT_NEW then LCFG_PKG_WILDCARD else [])"

definition spec_view :: "LCFGPackage \<Rightarrow> cstr \<Rightarrow> bits \<Rightarrow> LCFGPackage" where
  "spec_view pkg defarch options =
     lcfgpackage_new\<lparr>pkg_name := pkg_name pkg,
       pkg_arch := opt_field (shown_arch pkg defarch),
       pkg_version := Some (or_default (pkg_version pkg) LCFG_PKG_WILDCARD),
       pkg_release := opt_field (shown_release pkg options),
       pkg_flags := attr_norm (pkg_flags pkg),
       pkg_context := (if has_bit options LCFG_OPT_NOCONTEXT then None else attr_norm (pkg_context pkg)),
       pkg_prefix := (if has_bit options LCFG_OPT_NOPREFIX then LCFG_PKG_PREFIX_NONE else pkg_prefix pkg)\<rparr>"

text \<open>A package whose specification is unambiguous.\<close>

definition spec_safe :: "LCFGPackage \<Rightarrow> bits \<Rightarrow> bool" where
  "spec_safe pkg options \<longleftrightarrow>
     CHR ''-'' \<notin> set (or_default (pkg_arch pkg) []) \<and>
     (CHR ''-'' \<in> set (or_default (pkg_version pkg) []) \<longrightarrow>
        has_bit options LCFG_OPT_NEW \<and> (lcfgpackage_has_release pkg \<or> lcfgpackage_has_epoch pkg)) \<and>
     (lcfgpackage_has_context pkg \<longrightarrow> trimmed (or_default (pkg_context pkg) [])) \<and> CHR ''['' \<notin> set (or_default (pkg_context pkg) [])"

lemma to_spec_fields:
  fixes pkg :: LCFGPackage and defarch :: cstr and options :: bits
  assumes "lcfgpackage_is_valid (Some pkg)"
  defines "a \<equiv> shown_arch pkg defarch"
    and "front \<equiv> has_bit options LCFG_OPT_COMPAT \<and> \<not> has_bit options LCFG_OPT_NEW \<and>
      strcmp (or_default (pkg_arch pkg) []) ''noarch'' \<noteq> 0"
    and "pfx \<equiv> (if has_bit options LCFG_OPT_NOPREFIX then LCFG_PKG_PREFIX_NONE else pkg_prefix pkg)"
  shows "lcfgpackage_to_spec pkg defarch options =
    Some ((if pfx = LCFG_PKG_PREFIX_NONE then [] else [pfx]) @
      (if (if front then a else []) = [] then [] else (if front then a else []) @ ''/'') @
      or_default (pkg_name pkg) [] @ sep_char options #
      or_default (pkg_version pkg) LCFG_PKG_WILDCARD @ marked_field (CHR ''-'') (shown_release pkg options) @
      marked_field (CHR ''/'') (if front then [] else a) @ marked_field (CHR '':'') (or_default (pkg_flags pkg) []) @
      bracketed (if has_bit options LCFG_OPT_NOCONTEXT then [] else or_default (pkg_context pkg) []) @
      (if has_bit options LCFG_OPT_NEWLINE then [CHR 0x0A] else []))"
proof -
  have rel: "(if \<not> isempty r then ''-'' @ or_default r [] else []) = marked_field (CHR ''-'') (or_default r [])" for r
    by (cases r) (auto simp: marked_field_def isempty_def or_default_def)
  have shown: "or_default (if isempty (pkg_release pkg) \<and> (lcfgpackage_has_epoch pkg \<or> \<not> has_bit options LCFG_OPT_NEW)
      then Some LCFG_PKG_WILDCARD else pkg_release pkg) [] = shown_release pkg options"
    by (auto simp: shown_release_def isempty_def or_default_def LCFG_PKG_WILDCARD_def split: option.splits)
  have empty: "lcfgpackage_has_arch pkg \<longleftrightarrow> or_default (pkg_arch pkg) [] \<noteq> []"
    by (auto simp: lcfgpackage_has_arch_def isempty_def or_default_def split: option.splits)
  show ?thesis
    using assms(1) unfolding lcfgpackage_to_spec_def Let_def rel shown a_def front_def pfx_def
    by (auto simp: shown_arch_def empty marked_field_def bracketed_def sep_char_def lcfgpackage_has_prefix_def)
qed

lemma attr_cases:
  assumes "attr_ok valid v"
  obtains "isempty v" "\<And>d. or_default v d = d"
    | t where "v = Some t" "t \<noteq> []" "\<And>d. or_default v d = t" "valid (Some t)"
  using assms by (cases v) (auto simp: attr_ok_def isempty_def or_default_def split: if_splits)

text \<open>
  C8: parsing inverts printing of package specifications. For a package that satisfies the
  invariant, has a name, and whose specification is unambiguous (no hyphen in the
  architecture, a hyphen in the version only in the modern style with a release, a trimmed
  context without an opening bracket), and for any options and default architecture,
  \<open>lcfgpackage_from_spec\<close> reads what \<open>lcfgpackage_to_spec\<close> writes, and gives the fields
  that the options show: the wildcard for a missing version or release, no architecture
  where it is the default one, and the other fields as they were.
\<close>
theorem spec_roundtrip:
  assumes "pkg_ok pkg" and "lcfgpackage_is_valid (Some pkg)" and "spec_safe pkg options"
  shows "\<exists>s. lcfgpackage_to_spec pkg defarch options = Some s \<and>
    lcfgpackage_from_spec (Some s) = Inr (spec_view pkg defarch options)"
proof -
  let ?name = "or_default (pkg_name pkg) []" and ?ver = "or_default (pkg_version pkg) LCFG_PKG_WILDCARD"
  let ?a = "shown_arch pkg defarch" and ?rel = "shown_release pkg options" and ?flags = "or_default (pkg_flags pkg) []"
  let ?ctx = "if has_bit options LCFG_OPT_NOCONTEXT then [] else or_default (pkg_context pkg) []"
  let ?pfx = "if has_bit options LCFG_OPT_NOPREFIX then LCFG_PKG_PREFIX_NONE else pkg_prefix pkg"
  let ?front = "has_bit options LCFG_OPT_COMPAT \<and> \<not> has_bit options LCFG_OPT_NEW \<and>
      strcmp (or_default (pkg_arch pkg) []) ''noarch'' \<noteq> 0"
  have ok: "attr_ok lcfgpackage_valid_name (pkg_name pkg)" "attr_ok lcfgpackage_valid_arch (pkg_arch pkg)"
    "attr_ok lcfgpackage_valid_version (pkg_version pkg)" "attr_ok lcfgpackage_valid_release (pkg_release pkg)"
    "attr_ok lcfgpackage_valid_flags (pkg_flags pkg)" "attr_ok lcfgpackage_valid_context (pkg_context pkg)"
    using assms(1) by (simp_all add: pkg_ok_def)
  have wild: "list_all isverchr LCFG_PKG_WILDCARD" "list_all isrelchr LCFG_PKG_WILDCARD" "LCFG_PKG_WILDCARD \<noteq> []"
    "CHR '':'' \<notin> set LCFG_PKG_WILDCARD" "CHR ''-'' \<notin> set LCFG_PKG_WILDCARD"
    by (simp_all add: LCFG_PKG_WILDCARD_def isverchr_def isrelchr_def strchr_in_def)
  have name: "lcfgpackage_valid_name (Some ?name) \<and> pkg_name pkg = Some ?name"
    using assms(2) by (cases rule: attr_cases [OF ok(1)]) (auto simp: lcfgpackage_is_valid_def)
  have ver: "?ver \<noteq> []" "list_all isverchr ?ver"
    using wild by (cases rule: attr_cases [OF ok(3)]; simp add: lcfgpackage_valid_version_def)+
  have rel: "list_all isrelchr ?rel"
    using wild by (cases rule: attr_cases [OF ok(4)]) (auto simp: lcfgpackage_valid_release_def shown_release_def)
  have rel_empty: "?rel = [] \<longleftrightarrow> isempty (pkg_release pkg) \<and> \<not> lcfgpackage_has_epoch pkg \<and> has_bit options LCFG_OPT_NEW"
    using wild by (cases rule: attr_cases [OF ok(4)]) (auto simp: shown_release_def)
  have hyphen: "CHR ''-'' \<notin> set ?ver \<or> has_bit options LCFG_OPT_NEW \<and> (lcfgpackage_has_release pkg \<or> lcfgpackage_has_epoch pkg)"
    using assms(3) wild by (cases rule: attr_cases [OF ok(3)]) (auto simp: spec_safe_def)
  have colon: "\<not> lcfgpackage_has_epoch pkg \<longrightarrow> CHR '':'' \<notin> set ?ver"
    using wild by (cases rule: attr_cases [OF ok(3)]) (auto simp: lcfgpackage_has_epoch_def)
  have arch: "list_all isword ?a"
    using assms(3) by (cases rule: attr_cases [OF ok(2)])
      (auto simp: shown_arch_def lcfgpackage_valid_arch_def spec_safe_def list_all_iff)
  have flags: "list_all isalnum ?flags"
    by (cases rule: attr_cases [OF ok(5)])
      (auto simp: lcfgpackage_valid_flags_def lcfgpackage_valid_flag_chr_def list_all_iff)
  have ctx: "?ctx \<noteq> [] \<Longrightarrow> \<not> isspace (hd ?ctx) \<and> \<not> isspace (last ?ctx) \<and> CHR ''['' \<notin> set ?ctx \<and>
      lcfgpackage_valid_context (Some ?ctx)"
    using assms(3) by (cases rule: attr_cases [OF ok(6)])
      (auto simp: spec_safe_def trimmed_def lcfgpackage_has_context_def split: if_splits)
  have pfx: "?pfx = LCFG_PKG_PREFIX_NONE \<or> lcfgpackage_valid_prefix ?pfx"
    using assms(1) by (simp add: pkg_ok_def)
  have norm: "opt_field (or_default v []) = attr_norm v" for v
    by (auto simp: opt_field_def attr_norm_def isempty_def or_default_def split: option.splits)
  have nl: "\<forall>c\<in>set (if has_bit options LCFG_OPT_NEWLINE then [CHR 0x0A] else []). isspace c"
    by (simp add: lcfg_chr byte_def)
  have r: "CHR '':'' \<notin> set ?ver \<and> CHR ''-'' \<notin> set ?ver" if "?rel = []"
    using that colon hyphen rel_empty by (auto simp: lcfgpackage_has_release_def)
  have legacy: "?rel \<noteq> [] \<and> CHR ''-'' \<notin> set ?ver" if "\<not> has_bit options LCFG_OPT_NEW"
    using that hyphen rel_empty by auto
  have archs: "list_all isword (if ?front then ?a else [])" "list_all isword (if ?front then [] else ?a)"
    "(if ?front then ?a else []) = [] \<or> (if ?front then [] else ?a) = []"
    using arch by simp_all
  note parse = from_spec_fields [OF conjunct1 [OF name] ver rel r legacy archs flags nl ctx pfx]
  have shown: "opt_field ((if ?front then ?a else []) @ (if ?front then [] else ?a)) = opt_field ?a"
    "opt_field ?ctx = (if has_bit options LCFG_OPT_NOCONTEXT then None else attr_norm (pkg_context pkg))"
    using norm opt_field_def [of "[]"] by (cases "has_bit options LCFG_OPT_NOCONTEXT"; simp)+
  from to_spec_fields [OF assms(2)] parse show ?thesis
    unfolding spec_view_def shown norm conjunct2 [OF name, symmetric] by blast
qed

text \<open>
  C26: what \<open>lcfgpackage_from_spec\<close> accepts, whatever the text, is a package that satisfies
  the invariant and has a name; and a specification of nothing but white space, or none
  at all, is refused.
\<close>
theorem from_spec_valid:
  assumes "lcfgpackage_from_spec input = Inr pkg"
  shows "pkg_ok pkg \<and> lcfgpackage_is_valid (Some pkg) \<and> (\<exists>s. input = Some s \<and> (\<exists>c\<in>set s. \<not> isspace c))"
proof -
  have "\<exists>s. input = Some s \<and> skip_space s \<noteq> []"
    using assms by (cases input) (auto simp: lcfgpackage_from_spec_def split: if_splits)
  then show ?thesis using from_spec_ok [OF assms] by (auto simp: skip_space_def dropWhile_eq_Nil_conv)
qed

definition sample_package :: LCFGPackage where
  "sample_package = lcfgpackage_new\<lparr>pkg_name := Some ''foo'', pkg_version := Some ''1.0'', pkg_release := Some ''2''\<rparr>"

lemma sample_package_facts:
  "pkg_ok sample_package" "lcfgpackage_is_valid (Some sample_package)" "spec_safe sample_package options"
  by (simp_all add: sample_package_def pkg_ok_def attr_ok_def lcfgpackage_new_def lcfgpackage_is_valid_def
      lcfgpackage_valid_name_def lcfgpackage_valid_version_def lcfgpackage_valid_release_def isnamechr_def
      isverchr_def isrelchr_def lcfg_chr byte_def strchr_in_def lcfgpackage_valid_prefix_def
      LCFG_PKG_PREFIX_NONE_def spec_safe_def lcfgpackage_has_context_def)

theorem spec_roundtrip_witness:
  "\<exists>s. lcfgpackage_to_spec sample_package None LCFG_OPT_NONE = Some s \<and>
    lcfgpackage_from_spec (Some s) = Inr (spec_view sample_package None LCFG_OPT_NONE)"
  by (rule spec_roundtrip [OF sample_package_facts])

lemma parse_sample:
  "lcfgpackage_from_spec (Some ''foo-1.0-2'') = Inr sample_package"
proof -
  have "lcfgpackage_from_spec (Some ((if LCFG_PKG_PREFIX_NONE = LCFG_PKG_PREFIX_NONE then [] else [LCFG_PKG_PREFIX_NONE]) @
      (if ([] :: string) = [] then [] else [] @ ''/'') @ ''foo'' @ sep_char LCFG_OPT_NONE # ''1.0'' @
      marked_field (CHR ''-'') ''2'' @ marked_field (CHR ''/'') [] @ marked_field (CHR '':'') [] @ bracketed [] @ [])) =
    Inr (lcfgpackage_new\<lparr>pkg_name := Some ''foo'', pkg_arch := opt_field ([] @ []), pkg_version := Some ''1.0'',
      pkg_release := opt_field ''2'', pkg_flags := opt_field [], pkg_context := opt_field [],
      pkg_prefix := LCFG_PKG_PREFIX_NONE\<rparr>)"
    by (rule from_spec_fields)
      (simp_all add: lcfgpackage_valid_name_def isnamechr_def isverchr_def isrelchr_def lcfg_chr byte_def strchr_in_def)
  then show ?thesis
    by (simp add: sep_char_def marked_field_def bracketed_def opt_field_def sample_package_def lcfgpackage_new_def
        lcfg_flag has_bit_def)
qed

theorem from_spec_valid_witness:
  "pkg_ok sample_package \<and> lcfgpackage_is_valid (Some sample_package) \<and>
    (\<exists>s. Some ''foo-1.0-2'' = Some s \<and> (\<exists>c\<in>set s. \<not> isspace c))"
  by (rule from_spec_valid [OF parse_sample])

end
