(* ===== verification/Lcfg_Package_List.thy ===== *)
theory Lcfg_Package_List
  imports Lcfg_Package_Spec
begin

text \<open>
  Package lists (\<open>packages/list.c\<close>). The nodes of a list hold pointers to packages that
  other lists may share, so packages live in a heap: a partial map from addresses, where an
  address is defined as long as the package there has not been destroyed. Operations that
  acquire, relinquish or change a package return the new heap.
\<close>

section \<open>The heap of packages\<close>

type_synonym pkg_heap = "nat \<rightharpoonup> LCFGPackage"

definition deref :: "pkg_heap \<Rightarrow> nat \<Rightarrow> LCFGPackage" where
  "deref h p = the (h p)"

definition lcfgpackage_acquire :: "LCFGPackage \<Rightarrow> LCFGPackage" where
  "lcfgpackage_acquire pkg = pkg\<lparr>pkg_refcount := pkg_refcount pkg + 1\<rparr>"

text \<open>The package is destroyed, and its address undefined, when the count reaches 0.\<close>

definition lcfgpackage_relinquish :: "LCFGPackage \<Rightarrow> LCFGPackage option" where
  "lcfgpackage_relinquish pkg =
     (let pkg' = (if 0 < pkg_refcount pkg then pkg\<lparr>pkg_refcount := pkg_refcount pkg - 1\<rparr> else pkg)
      in if pkg_refcount pkg' = 0 then None else Some pkg')"

definition acquire_at :: "nat \<Rightarrow> pkg_heap \<Rightarrow> pkg_heap" where
  "acquire_at p h = h(p \<mapsto> lcfgpackage_acquire (deref h p))"

definition relinquish_at :: "nat \<Rightarrow> pkg_heap \<Rightarrow> pkg_heap" where
  "relinquish_at p h = h(p := lcfgpackage_relinquish (deref h p))"

definition pkg_refs :: "pkg_heap \<Rightarrow> nat \<Rightarrow> nat" where
  "pkg_refs h p = (case h p of None \<Rightarrow> 0 | Some pkg \<Rightarrow> pkg_refcount pkg)"

section \<open>Messages\<close>

text \<open>
  \<open>lcfgpackage_build_message\<close> on the text that the format and its arguments make; the flag
  says whether the format ended with a newline (which is not part of the text then).
  Printing the derivation sorts its lines in place, so the package is returned as well.
\<close>

definition lcfgpackage_build_message :: "LCFGPackage option \<Rightarrow> string \<Rightarrow> bool \<Rightarrow> string \<times> LCFGPackage option"
where
  "lcfgpackage_build_message pkg msg_base add_newline =
     (let pkg_as_str = (if lcfgpackage_is_valid pkg
                        then lcfgpackage_to_spec (the pkg) None LCFG_OPT_NONE else None);
          msg_mid = (case pkg_as_str of
              Some s \<Rightarrow> ''for package '' @ [CHR 0x27] @ s @ [CHR 0x27] | None \<Rightarrow> ''for package'');
          (deriv_as_str, pkg') =
            (case pkg of
               None \<Rightarrow> ([], None)
             | Some p \<Rightarrow>
                 if lcfgpackage_has_derivation p
                 then (case lcfgpackage_get_derivation_as_string p LCFG_OPT_NONE of
                   (s, d) \<Rightarrow> (s, Some (p\<lparr>pkg_derivation := d\<rparr>)))
                 else ([], pkg));
          newline = (if add_newline then [CHR 0x0A] else [])
      in (msg_base @ '' '' @ msg_mid @ (if deriv_as_str \<noteq> [] then '' at '' @ deriv_as_str else []) @ newline,
          pkg'))"

definition message_at :: "nat option \<Rightarrow> string \<Rightarrow> pkg_heap \<Rightarrow> string \<times> pkg_heap" where
  "message_at p base h =
     (case p of
        None \<Rightarrow> (fst (lcfgpackage_build_message None base False), h)
      | Some a \<Rightarrow> (case lcfgpackage_build_message (h a) base False of (s, pkg') \<Rightarrow> (s, h(a := pkg'))))"

section \<open>Lists\<close>

definition LCFG_PKGLIST_PK_NAME :: bits where [lcfg_flag]: "LCFG_PKGLIST_PK_NAME = 1"
definition LCFG_PKGLIST_PK_ARCH :: bits where [lcfg_flag]: "LCFG_PKGLIST_PK_ARCH = 2"
definition LCFG_PKGLIST_PK_CTX :: bits where [lcfg_flag]: "LCFG_PKGLIST_PK_CTX = 4"

record LCFGPackageList = "nat slist" +
  pkl_primary_key :: bits
  pkl_merge_rules :: bits
  pkl_refcount :: nat

definition lcfgpkglist_new :: LCFGPackageList where
  "lcfgpkglist_new =
     \<lparr>nodes = [], list_size = 0, pkl_primary_key = LCFG_PKGLIST_PK_NAME OR LCFG_PKGLIST_PK_ARCH,
      pkl_merge_rules = LCFG_MERGE_RULE_NONE, pkl_refcount = 1\<rparr>"

definition lcfgpkglist_set_merge_rules :: "LCFGPackageList \<Rightarrow> bits \<Rightarrow> bool \<times> LCFGPackageList" where
  "lcfgpkglist_set_merge_rules pkglist new_rules = (True, pkglist\<lparr>pkl_merge_rules := new_rules\<rparr>)"

definition lcfgpkglist_get_merge_rules :: "LCFGPackageList \<Rightarrow> bits" where
  "lcfgpkglist_get_merge_rules pkglist = pkl_merge_rules pkglist"

definition lcfgpkglist_acquire :: "LCFGPackageList \<Rightarrow> LCFGPackageList" where
  "lcfgpkglist_acquire pkglist = pkglist\<lparr>pkl_refcount := pkl_refcount pkglist + 1\<rparr>"

definition lcfgpkglist_insert_next ::
    "pkg_heap \<Rightarrow> LCFGPackageList \<Rightarrow> nat option \<Rightarrow> nat \<Rightarrow> LCFGChange \<times> pkg_heap \<times> LCFGPackageList" where
  "lcfgpkglist_insert_next h pkglist node item =
     (case lcfgslist_insert_next (\<lambda>_. True) pkglist node item of
        (change, pkglist') \<Rightarrow> (change, acquire_at item h, pkglist'))"

definition lcfgpkglist_append :: "pkg_heap \<Rightarrow> LCFGPackageList \<Rightarrow> nat \<Rightarrow> LCFGChange \<times> pkg_heap \<times> LCFGPackageList"
where
  "lcfgpkglist_append h pkglist item = lcfgpkglist_insert_next h pkglist (lcfgslist_tail pkglist) item"

definition lcfgpkglist_remove_next ::
    "LCFGPackageList \<Rightarrow> nat option \<Rightarrow> LCFGChange \<times> LCFGPackageList \<times> nat option" where
  "lcfgpkglist_remove_next pkglist node = lcfgslist_remove_next pkglist node"

text \<open>Destroying a list relinquishes its packages from the head.\<close>

definition lcfgpkglist_destroy :: "pkg_heap \<Rightarrow> LCFGPackageList \<Rightarrow> pkg_heap" where
  "lcfgpkglist_destroy h pkglist = fold relinquish_at (take (list_size pkglist) (nodes pkglist)) h"

definition lcfgpkglist_relinquish ::
    "pkg_heap \<Rightarrow> LCFGPackageList option \<Rightarrow> pkg_heap \<times> LCFGPackageList option" where
  "lcfgpkglist_relinquish h pkglist =
     (case pkglist of
        None \<Rightarrow> (h, None)
      | Some l \<Rightarrow>
          let l' = (if 0 < pkl_refcount l then l\<lparr>pkl_refcount := pkl_refcount l - 1\<rparr> else l)
          in if pkl_refcount l' = 0 then (lcfgpkglist_destroy h l', None) else (h, Some l'))"

definition lcfgpkglist_find_node :: "pkg_heap \<Rightarrow> LCFGPackageList option \<Rightarrow> string \<Rightarrow> cstr \<Rightarrow> nat option" where
  "lcfgpkglist_find_node h pkglist name arch =
     (case pkglist of
        None \<Rightarrow> None
      | Some l \<Rightarrow>
          if lcfgslist_is_empty l then None
          else first_node (\<lambda>p. lcfgpackage_is_valid (h p) \<and> lcfgpackage_match (deref h p) name arch) (nodes l))"

definition lcfgpkglist_find_package :: "pkg_heap \<Rightarrow> LCFGPackageList option \<Rightarrow> string \<Rightarrow> cstr \<Rightarrow> nat option" where
  "lcfgpkglist_find_package h pkglist name arch =
     (case lcfgpkglist_find_node h pkglist name arch of
        None \<Rightarrow> None | Some i \<Rightarrow> Some (nodes (the pkglist) ! i))"

definition lcfgpkglist_has_package :: "pkg_heap \<Rightarrow> LCFGPackageList option \<Rightarrow> string \<Rightarrow> cstr \<Rightarrow> bool" where
  "lcfgpkglist_has_package h pkglist name arch \<longleftrightarrow> lcfgpkglist_find_node h pkglist name arch \<noteq> None"

definition lcfgpkglist_first_package :: "LCFGPackageList option \<Rightarrow> nat option" where
  "lcfgpkglist_first_package pkglist =
     (case pkglist of None \<Rightarrow> None | Some l \<Rightarrow> if nodes l = [] then None else Some (hd (nodes l)))"

section \<open>Merging a package\<close>

definition lcfgpackage_same_context :: "LCFGPackage \<Rightarrow> LCFGPackage \<Rightarrow> bool" where
  "lcfgpackage_same_context pkg1 pkg2 \<longleftrightarrow>
     lcfgcontext_compare_expressions (pkg_context pkg1) (pkg_context pkg2) = 0"

text \<open>The test that finds the package to merge with.\<close>

definition merge_match :: "bits \<Rightarrow> LCFGPackage \<Rightarrow> LCFGPackage \<Rightarrow> bool" where
  "merge_match primary_key new_pkg pkg \<longleftrightarrow>
     lcfgpackage_match pkg (or_default (pkg_name new_pkg) [])
       (if has_bit primary_key LCFG_PKGLIST_PK_ARCH then Some (or_default (pkg_arch new_pkg) [])
        else Some LCFG_PKG_WILDCARD) \<and>
     (has_bit primary_key LCFG_PKGLIST_PK_CTX \<longrightarrow> lcfgpackage_same_context pkg new_pkg)"

text \<open>The search: the current node, and the one before it as the code tracks it.\<close>

fun merge_search ::
    "(nat \<Rightarrow> bool) \<Rightarrow> (nat \<Rightarrow> bool) \<Rightarrow> nat list \<Rightarrow> nat \<Rightarrow> nat option \<Rightarrow> nat option \<times> nat option" where
  "merge_search valid matches [] i prev_node = (None, prev_node)"
| "merge_search valid matches (p # ps) i prev_node =
     (if \<not> valid p then merge_search valid matches ps (i + 1) prev_node
      else if matches p then (Some i, prev_node)
      else merge_search valid matches ps (i + 1) (Some i))"

text \<open>
  What is to be done: remove the old package, append the new one, accept the new one. The
  rules of the prefix come first; \<open>None\<close> for a prefix that is none of them.
\<close>

definition prefix_actions :: "LCFGPackage option \<Rightarrow> LCFGPackage \<Rightarrow> (bool \<times> bool \<times> bool) option" where
  "prefix_actions cur_pkg new_pkg =
     (let new_prefix = pkg_prefix new_pkg;
          cur_prefix = (case cur_pkg of None \<Rightarrow> LCFG_PKG_PREFIX_NONE | Some c \<Rightarrow> pkg_prefix c)
      in if new_prefix = LCFG_PKG_PREFIX_REMOVE then Some (True, False, True)
         else if new_prefix = LCFG_PKG_PREFIX_ADD \<or> new_prefix = LCFG_PKG_PREFIX_PIN then Some (True, True, True)
         else if new_prefix = LCFG_PKG_PREFIX_ANY then Some (False, cur_pkg = None, True)
         else if new_prefix = LCFG_PKG_PREFIX_UPDATE
         then (let change = (cur_pkg \<noteq> None \<and> cur_prefix \<noteq> LCFG_PKG_PREFIX_PIN) in Some (change, change, True))
         else if new_prefix = LCFG_PKG_PREFIX_MIN
         then (let change = (case cur_pkg of None \<Rightarrow> True
                 | Some c \<Rightarrow> 0 < lcfgpackage_compare_versions new_pkg c) in Some (change, change, True))
         else None)"

type_synonym merge_plan = "(bool \<times> bool \<times> bool) \<times> pkg_heap \<times> cstr"

definition prefix_plan :: "pkg_heap \<Rightarrow> nat \<Rightarrow> nat option \<Rightarrow> cstr \<Rightarrow> merge_plan" where
  "prefix_plan h new cur_pkg msg =
     (case prefix_actions (map_option (deref h) cur_pkg) (deref h new) of
        None \<Rightarrow>
          (case message_at (Some new) (''Invalid prefix '' @ [CHR 0x27, pkg_prefix (deref h new), CHR 0x27]) h of
             (s, h') \<Rightarrow> ((False, False, False), h', Some s))
      | Some (remove_old, append_new, accept) \<Rightarrow>
          (case cur_pkg of
             None \<Rightarrow> ((remove_old, append_new, accept), h, msg)
           | Some c \<Rightarrow>
               if remove_old \<and> pkg_prefix (deref h c) = LCFG_PKG_PREFIX_PIN
               then (case message_at cur_pkg ''Version is pinned'' h of
                 (s, h') \<Rightarrow> ((False, False, False), h', Some s))
               else if remove_old \<and> append_new
               then ((remove_old, append_new, accept),
                     h(new \<mapsto> snd (lcfgpackage_merge_derivation (deref h new) (Some (deref h c)))), msg)
               else ((remove_old, append_new, accept), h, msg)))"

definition merge_actions :: "pkg_heap \<Rightarrow> bits \<Rightarrow> nat \<Rightarrow> nat option \<Rightarrow> cstr \<Rightarrow> merge_plan" where
  "merge_actions h merge_rules new cur_pkg msg =
     (if cur_pkg = Some new then ((False, False, True), h, msg)
      else if has_bit merge_rules LCFG_MERGE_RULE_USE_PREFIX \<and> pkg_prefix (deref h new) \<noteq> LCFG_PKG_PREFIX_NONE
      then prefix_plan h new cur_pkg msg
      else case cur_pkg of
        None \<Rightarrow> ((False, True, True), h, msg)
      | Some c \<Rightarrow>
          if has_bit merge_rules LCFG_MERGE_RULE_SQUASH_IDENTICAL \<and> lcfgpackage_equals (deref h c) (deref h new)
          then ((True, True, True), h, msg)
          else if has_bit merge_rules LCFG_MERGE_RULE_KEEP_ALL then ((False, True, True), h, msg)
          else if has_bit merge_rules LCFG_MERGE_RULE_REPLACE then ((True, True, True), h, msg)
          else if has_bit merge_rules LCFG_MERGE_RULE_USE_PRIORITY
          then (let priority = pkg_priority (deref h new); opriority = pkg_priority (deref h c)
                in if opriority < priority then ((True, True, True), h, msg)
                   else if priority < opriority then ((False, False, True), h, msg)
                   else ((False, False, False), h, msg))
          else ((False, False, False), h, msg))"

definition merge_apply ::
    "merge_plan \<Rightarrow> LCFGPackageList \<Rightarrow> nat \<Rightarrow> nat option \<Rightarrow> nat option \<Rightarrow>
     LCFGChange \<times> pkg_heap \<times> LCFGPackageList \<times> cstr" where
  "merge_apply plan pkglist new prev_node cur_node =
     (case plan of ((remove_old, append_new, accept), h, msg) \<Rightarrow>
        if accept then
          (let (result, h1, l1, msg1) =
             (if remove_old \<and> cur_node \<noteq> None
              then (case lcfgpkglist_remove_next pkglist prev_node of (remove_rc, l, old_pkg) \<Rightarrow>
                if remove_rc = LCFG_CHANGE_REMOVED
                then (LCFG_CHANGE_REMOVED, relinquish_at (the old_pkg) h, l, msg)
                else (LCFG_CHANGE_ERROR, h, l, Some ''Failed to remove old package''))
              else (LCFG_CHANGE_NONE, h, pkglist, msg))
           in if append_new \<and> result \<noteq> LCFG_CHANGE_ERROR
              then (case lcfgpkglist_append h1 l1 new of (append_rc, h2, l2) \<Rightarrow>
                if append_rc = LCFG_CHANGE_ADDED
                then (if result = LCFG_CHANGE_REMOVED then LCFG_CHANGE_REPLACED else LCFG_CHANGE_ADDED, h2, l2, msg1)
                else (LCFG_CHANGE_ERROR, h2, l2, Some ''Failed to append new package''))
              else (result, h1, l1, msg1))
        else if msg = None
        then (case message_at (map_option ((!) (nodes pkglist)) cur_node) ''Version conflict'' h of
          (s, h') \<Rightarrow> (LCFG_CHANGE_ERROR, h', pkglist, Some s))
        else (LCFG_CHANGE_ERROR, h, pkglist, msg))"

definition lcfgpkglist_merge_package ::
    "pkg_heap \<Rightarrow> LCFGPackageList \<Rightarrow> nat \<Rightarrow> cstr \<Rightarrow> LCFGChange \<times> pkg_heap \<times> LCFGPackageList \<times> cstr" where
  "lcfgpkglist_merge_package h pkglist new msg =
     (if \<not> lcfgpackage_is_valid (h new) then (LCFG_CHANGE_ERROR, h, pkglist, Some ''Package is invalid'')
      else case merge_search (\<lambda>p. lcfgpackage_is_valid (h p))
          (\<lambda>p. merge_match (pkl_primary_key pkglist) (deref h new) (deref h p)) (nodes pkglist) 0 None of
        (cur_node, prev_node) \<Rightarrow>
          merge_apply
            (merge_actions h (lcfgpkglist_get_merge_rules pkglist) new (map_option ((!) (nodes pkglist)) cur_node) msg)
            pkglist new prev_node cur_node)"

fun pkglist_merge_loop ::
    "pkg_heap \<Rightarrow> LCFGPackageList \<Rightarrow> nat list \<Rightarrow> LCFGChange \<Rightarrow> cstr \<Rightarrow>
     LCFGChange \<times> pkg_heap \<times> LCFGPackageList \<times> cstr" where
  "pkglist_merge_loop h l1 [] change msg = (change, h, l1, msg)"
| "pkglist_merge_loop h l1 (p # ps) change msg =
     (if change = LCFG_CHANGE_ERROR then (change, h, l1, msg)
      else if \<not> lcfgpackage_is_valid (h p) then pkglist_merge_loop h l1 ps change msg
      else case lcfgpkglist_merge_package h l1 p None of (merge_rc, h', l1', merge_msg) \<Rightarrow>
        if merge_rc = LCFG_CHANGE_ERROR
        then (case message_at (Some p) (''Failed to merge package: '' @ or_default merge_msg ''(null)'') h' of
          (s, h'') \<Rightarrow> pkglist_merge_loop h'' l1' ps LCFG_CHANGE_ERROR (Some s))
        else pkglist_merge_loop h' l1' ps
          (if merge_rc \<noteq> LCFG_CHANGE_NONE then LCFG_CHANGE_MODIFIED else change) msg)"

definition lcfgpkglist_merge_list ::
    "pkg_heap \<Rightarrow> LCFGPackageList \<Rightarrow> LCFGPackageList option \<Rightarrow> cstr \<Rightarrow>
     LCFGChange \<times> pkg_heap \<times> LCFGPackageList \<times> cstr" where
  "lcfgpkglist_merge_list h pkglist1 pkglist2 msg =
     (case pkglist2 of
        None \<Rightarrow> (LCFG_CHANGE_NONE, h, pkglist1, msg)
      | Some l2 \<Rightarrow>
          if lcfgslist_is_empty l2 then (LCFG_CHANGE_NONE, h, pkglist1, msg)
          else pkglist_merge_loop h pkglist1 (nodes l2) LCFG_CHANGE_NONE msg)"

section \<open>Sorting, searching, priorities\<close>

definition lcfgpkglist_sort :: "pkg_heap \<Rightarrow> LCFGPackageList \<Rightarrow> LCFGPackageList option" where
  "lcfgpkglist_sort h pkglist =
     (if list_size pkglist < 2 then Some pkglist
      else map_option (\<lambda>ns. pkglist\<lparr>nodes := ns\<rparr>)
        (bubble_loop (\<lambda>p q. 0 < lcfgpackage_compare (deref h p) (deref h q)) (nodes pkglist)))"

text \<open>\<open>fnmatch\<close> of the C library is a parameter: pattern, string, whether they match.\<close>

definition field_matches :: "(string \<Rightarrow> string \<Rightarrow> bool) \<Rightarrow> cstr \<Rightarrow> cstr \<Rightarrow> bool" where
  "field_matches fnmatch pattern field \<longleftrightarrow>
     (isempty pattern \<or> \<not> isempty field \<and> fnmatch (or_default pattern []) (or_default field []))"

definition package_matches ::
    "(string \<Rightarrow> string \<Rightarrow> bool) \<Rightarrow> cstr \<Rightarrow> cstr \<Rightarrow> cstr \<Rightarrow> cstr \<Rightarrow> LCFGPackage \<Rightarrow> bool" where
  "package_matches fnmatch name arch ver rel pkg \<longleftrightarrow>
     field_matches fnmatch name (pkg_name pkg) \<and> field_matches fnmatch arch (pkg_arch pkg) \<and>
     field_matches fnmatch ver (pkg_version pkg) \<and> field_matches fnmatch rel (pkg_release pkg)"

fun match_loop :: "(LCFGPackage \<Rightarrow> bool) \<Rightarrow> nat list \<Rightarrow> pkg_heap \<Rightarrow> LCFGPackageList \<Rightarrow> bool \<times> pkg_heap \<times> LCFGPackageList"
where
  "match_loop matched [] h result = (True, h, result)"
| "match_loop matched (p # ps) h result =
     (if matched (deref h p)
      then (case lcfgpkglist_append h result p of (append_rc, h', result') \<Rightarrow>
        if append_rc = LCFG_CHANGE_ERROR then (False, h', result') else match_loop matched ps h' result')
      else match_loop matched ps h result)"

definition lcfgpkglist_match ::
    "(string \<Rightarrow> string \<Rightarrow> bool) \<Rightarrow> pkg_heap \<Rightarrow> LCFGPackageList \<Rightarrow> cstr \<Rightarrow> cstr \<Rightarrow> cstr \<Rightarrow> cstr \<Rightarrow>
     pkg_heap \<times> LCFGPackageList option" where
  "lcfgpkglist_match fnmatch h pkglist name arch ver rel =
     (if lcfgslist_is_empty pkglist then (h, Some lcfgpkglist_new)
      else case match_loop (package_matches fnmatch name arch ver rel) (nodes pkglist) h lcfgpkglist_new of
        (ok, h', result) \<Rightarrow> if ok then (h', Some result) else (lcfgpkglist_destroy h' result, None))"

fun eval_priority_loop ::
    "LCFGContextList option \<Rightarrow> nat list \<Rightarrow> pkg_heap \<Rightarrow> LCFGChange \<Rightarrow> cstr \<Rightarrow> LCFGChange \<times> pkg_heap \<times> cstr" where
  "eval_priority_loop ctxlist [] h result msg = (result, h, msg)"
| "eval_priority_loop ctxlist (p # ps) h result msg =
     (if \<not> LCFGChangeOK result then (result, h, msg)
      else case lcfgpackage_eval_priority (deref h p) ctxlist of (pkg_change, pkg', pkg_msg) \<Rightarrow>
        eval_priority_loop ctxlist ps (h(p \<mapsto> pkg'))
          (if pkg_change \<noteq> LCFG_CHANGE_NONE then pkg_change else result)
          (if pkg_msg = None then msg else pkg_msg))"

definition lcfgpkglist_eval_priority ::
    "pkg_heap \<Rightarrow> LCFGPackageList option \<Rightarrow> LCFGContextList option \<Rightarrow> cstr \<Rightarrow> LCFGChange \<times> pkg_heap \<times> cstr" where
  "lcfgpkglist_eval_priority h pkglist ctxlist msg =
     (case pkglist of
        None \<Rightarrow> (LCFG_CHANGE_NONE, h, msg)
      | Some l \<Rightarrow>
          if lcfgslist_is_empty l then (LCFG_CHANGE_NONE, h, msg)
          else eval_priority_loop ctxlist (nodes l) h LCFG_CHANGE_NONE msg)"

section \<open>What the steps change\<close>

text \<open>
  A package without its derivation and its reference count, which are all that merging
  changes; two heaps with the same packages up to those.
\<close>

definition core :: "LCFGPackage \<Rightarrow> LCFGPackage" where
  "core pkg = pkg\<lparr>pkg_derivation := None, pkg_refcount := 0\<rparr>"

lemma core_simps [simp]:
  "core (pkg\<lparr>pkg_derivation := d\<rparr>) = core pkg" "core (pkg\<lparr>pkg_refcount := n\<rparr>) = core pkg"
  "core (lcfgpackage_acquire pkg) = core pkg" "core (core pkg) = core pkg"
  by (simp_all add: core_def lcfgpackage_acquire_def)

lemma core_fields:
  assumes "core p = core q"
  shows "pkg_name p = pkg_name q" "pkg_arch p = pkg_arch q" "pkg_version p = pkg_version q"
    "pkg_release p = pkg_release q" "pkg_flags p = pkg_flags q" "pkg_context p = pkg_context q"
    "pkg_prefix p = pkg_prefix q" "pkg_priority p = pkg_priority q" "pkg_category p = pkg_category q"
  using arg_cong [OF assms, of pkg_name]
    arg_cong [OF assms, of pkg_arch]
    arg_cong [OF assms, of pkg_version]
    arg_cong [OF assms, of pkg_release]
    arg_cong [OF assms, of pkg_flags]
    arg_cong [OF assms, of pkg_context]
    arg_cong [OF assms, of pkg_prefix]
    arg_cong [OF assms, of pkg_priority]
    arg_cong [OF assms, of pkg_category]
  by (simp_all add: core_def)

lemma core_valid: "core p = core q \<Longrightarrow> lcfgpackage_is_valid (Some p) \<longleftrightarrow> lcfgpackage_is_valid (Some q)"
  using core_fields(1) [of p q] by (simp add: lcfgpackage_is_valid_def)

text \<open>A step that keeps the address, the core and the count of every package.\<close>

definition same_heap :: "pkg_heap \<Rightarrow> pkg_heap \<Rightarrow> bool" where
  "same_heap h h' \<longleftrightarrow>
     (\<forall>p. rel_option (\<lambda>a b. core a = core b \<and> pkg_refcount a = pkg_refcount b) (h p) (h' p))"

lemma same_heap_refl [simp]: "same_heap h h"
  by (simp add: same_heap_def option.rel_refl)

lemma same_heap_update:
  "h a = Some pkg \<Longrightarrow> core pkg' = core pkg \<Longrightarrow> pkg_refcount pkg' = pkg_refcount pkg \<Longrightarrow>
   same_heap h (h(a \<mapsto> pkg'))"
  by (simp add: same_heap_def option.rel_refl)

lemma same_heap_refs: "same_heap h h' \<Longrightarrow> pkg_refs h' p = pkg_refs h p"
  unfolding same_heap_def by (drule spec [of _ p]) (auto simp: pkg_refs_def rel_option_iff split: option.splits)

lemma same_heap_valid: "same_heap h h' \<Longrightarrow> lcfgpackage_is_valid (h' p) \<longleftrightarrow> lcfgpackage_is_valid (h p)"
  unfolding same_heap_def
  by (drule spec [of _ p]) (auto simp: rel_option_iff lcfgpackage_is_valid_def dest: core_fields split: option.splits)

lemma build_message_package:
  assumes "pkg_ok pkg"
  shows "\<exists>d. snd (lcfgpackage_build_message (Some pkg) base n) = Some (pkg\<lparr>pkg_derivation := d\<rparr>) \<and>
    pkg_ok (pkg\<lparr>pkg_derivation := d\<rparr>)"
proof (cases "lcfgpackage_has_derivation pkg")
  case True
  then obtain l where l: "pkg_derivation pkg = Some l" "drvlist_ok l"
    using assms by (auto simp: lcfgpackage_has_derivation_def pkg_ok_def)
  obtain l' where "snd (lcfgderivlist_to_string (Some l) LCFG_OPT_NONE) = Some l'" "drvlist_ok l'"
    using to_string_keeps_ok [OF l(2)] by blast
  with True l assms show ?thesis
    by (auto simp: lcfgpackage_build_message_def lcfgpackage_get_derivation_as_string_def
        lcfgpackage_get_derivation_def pkg_ok_def split: prod.splits)
next
  case False
  then have "snd (lcfgpackage_build_message (Some pkg) base n) = Some (pkg\<lparr>pkg_derivation := pkg_derivation pkg\<rparr>)"
    by (simp add: lcfgpackage_build_message_def)
  moreover have "pkg\<lparr>pkg_derivation := pkg_derivation pkg\<rparr> = pkg" by simp
  ultimately show ?thesis using assms by metis
qed

text \<open>All packages of the heap are counted and satisfy their invariant.\<close>

definition heap_ok :: "pkg_heap \<Rightarrow> bool" where
  "heap_ok h \<longleftrightarrow> (\<forall>p pkg. h p = Some pkg \<longrightarrow> 0 < pkg_refcount pkg \<and> pkg_ok pkg)"

lemma message_at_heap:
  assumes "heap_ok h" and "\<forall>a. p = Some a \<longrightarrow> h a \<noteq> None" and "message_at p base h = (s, h')"
  shows "same_heap h h' \<and> heap_ok h'"
proof (cases p)
  case (Some a)
  then obtain pkg where a: "h a = Some pkg" using assms(2) by auto
  then have ok: "pkg_ok pkg" using assms(1) by (simp add: heap_ok_def)
  obtain d where "snd (lcfgpackage_build_message (Some pkg) base False) = Some (pkg\<lparr>pkg_derivation := d\<rparr>)"
    "pkg_ok (pkg\<lparr>pkg_derivation := d\<rparr>)"
    using build_message_package [OF ok] by blast
  with assms Some a have "h' = h(a \<mapsto> pkg\<lparr>pkg_derivation := d\<rparr>)" "pkg_ok (pkg\<lparr>pkg_derivation := d\<rparr>)"
    by (auto simp: message_at_def split: prod.splits)
  with a assms(1) show ?thesis by (auto simp: heap_ok_def intro!: same_heap_update)
qed (use assms in \<open>simp add: message_at_def\<close>)

lemma merge_derivation_core:
  "core (snd (lcfgpackage_merge_derivation p q)) = core p"
  "pkg_refcount (snd (lcfgpackage_merge_derivation p q)) = pkg_refcount p"
  by (auto simp: lcfgpackage_merge_derivation_def lcfgpackage_set_derivation_def split: option.splits prod.splits)

text \<open>Every package that is still there is one that was there, with the same core.\<close>

definition heap_step :: "pkg_heap \<Rightarrow> pkg_heap \<Rightarrow> bool" where
  "heap_step h h' \<longleftrightarrow> (\<forall>p pkg'. h' p = Some pkg' \<longrightarrow> (\<exists>pkg. h p = Some pkg \<and> core pkg' = core pkg))"

lemma heap_step_refl [simp]: "heap_step h h"
  by (simp add: heap_step_def)

lemma heap_step_trans: "heap_step h h' \<Longrightarrow> heap_step h' h'' \<Longrightarrow> heap_step h h''"
  unfolding heap_step_def by (metis (no_types, lifting))

lemma same_heap_step: "same_heap h h' \<Longrightarrow> heap_step h h'"
  unfolding heap_step_def same_heap_def
proof (intro allI impI)
  fix p pkg'
  assume *: "\<forall>p. rel_option (\<lambda>a b. core a = core b \<and> pkg_refcount a = pkg_refcount b) (h p) (h' p)"
    "h' p = Some pkg'"
  from spec [OF *(1), of p] *(2) show "\<exists>pkg. h p = Some pkg \<and> core pkg' = core pkg"
    by (auto simp: option_rel_Some2)
qed

lemma acquire_at_facts:
  assumes "heap_ok h" and "h p \<noteq> None"
  shows "heap_ok (acquire_at p h)" and "heap_step h (acquire_at p h)"
    and "pkg_refs (acquire_at p h) q = pkg_refs h q + (if q = p then 1 else 0)"
    and "lcfgpackage_is_valid (acquire_at p h q) \<longleftrightarrow> lcfgpackage_is_valid (h q)"
  using assms
  by (auto simp: acquire_at_def deref_def lcfgpackage_acquire_def heap_ok_def heap_step_def pkg_refs_def pkg_ok_def
      lcfgpackage_is_valid_def)

lemma relinquish_at_facts:
  assumes "heap_ok h" and "h p \<noteq> None"
  shows "heap_ok (relinquish_at p h)" and "heap_step h (relinquish_at p h)"
    and "pkg_refs (relinquish_at p h) q = pkg_refs h q - (if q = p then 1 else 0)"
    and "pkg_refs (relinquish_at p h) q \<noteq> 0 \<Longrightarrow>
      lcfgpackage_is_valid (relinquish_at p h q) \<longleftrightarrow> lcfgpackage_is_valid (h q)"
  using assms
  by (auto simp: relinquish_at_def deref_def lcfgpackage_relinquish_def heap_ok_def heap_step_def pkg_refs_def
      pkg_ok_def lcfgpackage_is_valid_def Let_def)

lemma live_refs: "heap_ok h \<Longrightarrow> h p \<noteq> None \<longleftrightarrow> 0 < pkg_refs h p"
  by (cases "h p") (auto simp: heap_ok_def pkg_refs_def)

section \<open>The outcome of a merge\<close>

text \<open>
  The invariant of a list in its heap: the size is right, all its packages are there and
  have a name, and each is counted at least as often as it occurs in the list.
\<close>

definition pkglist_ok :: "pkg_heap \<Rightarrow> LCFGPackageList \<Rightarrow> bool" where
  "pkglist_ok h l \<longleftrightarrow> slist_ok l \<and> (\<forall>p\<in>set (nodes l). lcfgpackage_is_valid (h p)) \<and>
     (\<forall>p. count (mset (nodes l)) p \<le> pkg_refs h p)"

lemma valid_live: "lcfgpackage_is_valid (h p) \<Longrightarrow> h p \<noteq> None"
  by (auto simp: lcfgpackage_is_valid_def split: option.splits)

lemma merge_search_found:
  "\<forall>p\<in>set ps. valid p \<Longrightarrow> merge_search valid matches ps i (prev_of i) =
     (map_option ((+) i) (first_node matches ps),
      prev_of (i + (case first_node matches ps of None \<Rightarrow> length ps | Some k \<Rightarrow> k)))"
proof (induction ps arbitrary: i)
  case (Cons p ps)
  have "Some i = prev_of (i + 1)" by (simp add: prev_of_def)
  with Cons.IH [of "i + 1"] Cons.prems show ?case
    by (auto simp: option.map_comp o_def split: option.splits)
qed simp

lemma merge_actions_heap:
  assumes "heap_ok h" and "h new \<noteq> None" and "\<forall>c. cur_pkg = Some c \<longrightarrow> h c \<noteq> None"
    and "merge_actions h rules new cur_pkg msg = (flags, h', msg')"
  shows "same_heap h h' \<and> heap_ok h'"
proof (cases "h' = h")
  case False
  then have plan: "prefix_plan h new cur_pkg msg = (flags, h', msg')"
    using assms(4) by (auto simp: merge_actions_def Let_def split: if_splits option.splits)
  consider s where "message_at (Some new) s h = (the msg', h')"
    | s where "message_at cur_pkg s h = (the msg', h')"
    | c where "cur_pkg = Some c" "h' = h(new \<mapsto> snd (lcfgpackage_merge_derivation (deref h new) (Some (deref h c))))"
    using plan False by (auto simp: prefix_plan_def split: option.splits prod.splits if_splits)
  then show ?thesis
  proof cases
    case 3
    have "h new = Some (deref h new)" "h c = Some (deref h c)" using assms(2,3) 3(1) by (auto simp: deref_def)
    then show ?thesis
      using 3(2) assms(1) merge_derivation_core merge_derivation_ok(1)
      by (auto simp: heap_ok_def intro!: same_heap_update)
  qed (use assms(1-3) message_at_heap in blast)+
qed (use assms in simp)

definition outcome_nodes :: "nat option \<Rightarrow> bool \<times> bool \<times> bool \<Rightarrow> nat \<Rightarrow> nat list \<Rightarrow> nat list" where
  "outcome_nodes cur_node flags new ns =
     (case flags of (remove_old, append_new, accept) \<Rightarrow>
        if \<not> accept then ns
        else (case cur_node of Some i \<Rightarrow> if remove_old then take i ns @ drop (Suc i) ns else ns | None \<Rightarrow> ns) @
             (if append_new then [new] else []))"

definition outcome_change :: "nat option \<Rightarrow> bool \<times> bool \<times> bool \<Rightarrow> LCFGChange" where
  "outcome_change cur_node flags =
     (case flags of (remove_old, append_new, accept) \<Rightarrow>
        if \<not> accept then LCFG_CHANGE_ERROR
        else if remove_old \<and> cur_node \<noteq> None
        then (if append_new then LCFG_CHANGE_REPLACED else LCFG_CHANGE_REMOVED)
        else (if append_new then LCFG_CHANGE_ADDED else LCFG_CHANGE_NONE))"

definition merge_target :: "pkg_heap \<Rightarrow> LCFGPackageList \<Rightarrow> nat \<Rightarrow> nat option" where
  "merge_target h l new =
     first_node (\<lambda>p. merge_match (pkl_primary_key l) (deref h new) (deref h p)) (nodes l)"

definition merge_decision :: "pkg_heap \<Rightarrow> LCFGPackageList \<Rightarrow> nat \<Rightarrow> bool \<times> bool \<times> bool" where
  "merge_decision h l new =
     fst (merge_actions h (pkl_merge_rules l) new (map_option ((!) (nodes l)) (merge_target h l new)) None)"

lemma merge_decision_msg:
  "fst (merge_actions h rules new cur_pkg msg) = fst (merge_actions h rules new cur_pkg msg')"
  by (auto simp: merge_actions_def prefix_plan_def Let_def split: option.splits prod.splits)

text \<open>The removal and the append, on a list and heap that satisfy the invariant.\<close>

lemma remove_step:
  assumes "heap_ok h" and "pkglist_ok h l" and "i < length (nodes l)"
  defines "l' \<equiv> l\<lparr>nodes := take i (nodes l) @ drop (Suc i) (nodes l), list_size := list_size l - 1\<rparr>"
    and "h' \<equiv> relinquish_at (nodes l ! i) h"
  shows "lcfgpkglist_remove_next l (prev_of i) = (LCFG_CHANGE_REMOVED, l', Some (nodes l ! i))"
    and "heap_ok h'" and "heap_step h h'" and "pkglist_ok h' l'"
    and "pkg_refs h' p + count (mset (nodes l)) p = pkg_refs h p + count (mset (nodes l')) p"
proof -
  let ?c = "nodes l ! i"
  have split: "nodes l = take i (nodes l) @ ?c # drop (Suc i) (nodes l)"
    using assms(3) by (rule id_take_nth_drop)
  have live: "h ?c \<noteq> None" using assms(2,3) nth_mem [OF assms(3)] valid_live [of h ?c] by (auto simp: pkglist_ok_def)
  note facts = relinquish_at_facts [OF assms(1) live]
  have cnt: "count (mset (nodes l)) p = count (mset (nodes l')) p + (if p = ?c then 1 else 0)" for p
    using arg_cong [OF split, of "\<lambda>xs. count (mset xs) p"] by (simp add: l'_def)
  have refs: "count (mset (nodes l)) p \<le> pkg_refs h p" for p using assms(2) by (simp add: pkglist_ok_def)
  have eq: "pkg_refs h' p + count (mset (nodes l)) p = pkg_refs h p + count (mset (nodes l')) p" for p
    using facts(3) [of p] cnt [of p] refs [of p] by (auto simp: h'_def)
  have ok: "slist_ok l'" using assms(2,3) by (auto simp: pkglist_ok_def slist_ok_def l'_def)
  have "lcfgpackage_is_valid (h' p)" if "p \<in> set (nodes l')" for p
  proof -
    have "0 < count (mset (nodes l')) p" using that by simp
    then have "pkg_refs h' p \<noteq> 0" using eq [of p] refs [of p] by linarith
    moreover have "p \<in> set (nodes l)"
      using that in_set_takeD [of p i "nodes l"] in_set_dropD [of p "Suc i" "nodes l"] by (auto simp: l'_def)
    ultimately show ?thesis using facts(4) [of p] assms(2) by (simp add: h'_def pkglist_ok_def)
  qed
  moreover have "count (mset (nodes l')) p \<le> pkg_refs h' p" for p
    using eq [of p] cnt [of p] refs [of p] by linarith
  ultimately show "pkglist_ok h' l'" using ok by (simp add: pkglist_ok_def)
  show "lcfgpkglist_remove_next l (prev_of i) = (LCFG_CHANGE_REMOVED, l', Some ?c)"
    using lcfgslist_remove_at [of l i] assms(2,3) by (simp add: lcfgpkglist_remove_next_def pkglist_ok_def l'_def)
  show "heap_ok h'" "heap_step h h'" using facts(1,2) by (simp_all add: h'_def)
  show "pkg_refs h' p + count (mset (nodes l)) p = pkg_refs h p + count (mset (nodes l')) p" by (rule eq)
qed

lemma append_step:
  assumes "heap_ok h" and "pkglist_ok h l" and "lcfgpackage_is_valid (h new)"
  defines "l' \<equiv> l\<lparr>nodes := nodes l @ [new], list_size := list_size l + 1\<rparr>" and "h' \<equiv> acquire_at new h"
  shows "lcfgpkglist_append h l new = (LCFG_CHANGE_ADDED, h', l')"
    and "heap_ok h'" and "heap_step h h'" and "pkglist_ok h' l'"
    and "pkg_refs h' p + count (mset (nodes l)) p = pkg_refs h p + count (mset (nodes l')) p"
proof -
  note facts = acquire_at_facts [OF assms(1) valid_live [of h new, OF assms(3)]]
  have refs: "count (mset (nodes l)) p \<le> pkg_refs h p" for p using assms(2) by (simp add: pkglist_ok_def)
  have eq: "pkg_refs h' p + count (mset (nodes l)) p = pkg_refs h p + count (mset (nodes l')) p" for p
    using facts(3) [of p] by (simp add: h'_def l'_def)
  have "count (mset (nodes l')) p \<le> pkg_refs h' p" for p using eq [of p] refs [of p] by linarith
  then show "pkglist_ok h' l'"
    using assms(2,3) facts(4) by (auto simp: pkglist_ok_def l'_def h'_def slist_ok_def)
  show "lcfgpkglist_append h l new = (LCFG_CHANGE_ADDED, h', l')"
    using lcfgslist_append_simp [of "\<lambda>_. True" l new]
    by (simp add: lcfgpkglist_append_def lcfgpkglist_insert_next_def lcfgslist_append_def l'_def h'_def)
  show "heap_ok h'" "heap_step h h'" using facts(1,2) by (simp_all add: h'_def)
  show "pkg_refs h' p + count (mset (nodes l)) p = pkg_refs h p + count (mset (nodes l')) p" by (rule eq)
qed

lemma same_heap_pkglist: "same_heap h h' \<Longrightarrow> pkglist_ok h l \<Longrightarrow> pkglist_ok h' l"
  by (simp add: pkglist_ok_def same_heap_refs same_heap_valid)

lemma live_target:
  assumes "pkglist_ok h l" and "\<And>i. target = Some i \<Longrightarrow> i < length (nodes l)"
  shows "\<forall>c. map_option ((!) (nodes l)) target = Some c \<longrightarrow> h c \<noteq> None"
proof (intro allI impI)
  fix c assume "map_option ((!) (nodes l)) target = Some c"
  then obtain i where "target = Some i" "c = nodes l ! i" by auto
  with assms have "lcfgpackage_is_valid (h c)" by (simp add: pkglist_ok_def)
  then show "h c \<noteq> None" by (rule valid_live)
qed

lemma map_option_plus_0 [simp]: "map_option ((+) (0 :: nat)) x = x"
  by (cases x) auto

lemma refs_chain:
  fixes a b c :: nat
  shows "a1 + b0 = a0 + b1 \<Longrightarrow> a2 + b1 = a1 + b2 \<Longrightarrow> a2 + b0 = a0 + (b2 :: nat)"
  by linarith

lemma merge_package_result:
  assumes "heap_ok h" and "pkglist_ok h l" and "lcfgpackage_is_valid (h new)"
    and "count (mset (nodes l)) new < pkg_refs h new"
    and "lcfgpkglist_merge_package h l new msg = (change, h', l', msg')"
  defines "target \<equiv> merge_target h l new" and "flags \<equiv> merge_decision h l new"
  shows "change = outcome_change target flags"
    and "l' = l\<lparr>nodes := outcome_nodes target flags new (nodes l), list_size := length (nodes l')\<rparr>"
    and "heap_ok h'" and "heap_step h h'" and "pkglist_ok h' l'"
    and "pkg_refs h' p + count (mset (nodes l)) p = pkg_refs h p + count (mset (nodes l')) p"
proof -
  have valid: "\<forall>p\<in>set (nodes l). lcfgpackage_is_valid (h p)" using assms(2) by (simp add: pkglist_ok_def)
  have size: "list_size l = length (nodes l)" using assms(2) by (simp add: pkglist_ok_def slist_ok_def)
  have "prev_of 0 = None" by (simp add: prev_of_def)
  with merge_search_found [of "nodes l" "\<lambda>p. lcfgpackage_is_valid (h p)" _ 0] valid
  have search: "merge_search (\<lambda>p. lcfgpackage_is_valid (h p))
      (\<lambda>p. merge_match (pkl_primary_key l) (deref h new) (deref h p)) (nodes l) 0 None =
    (target, prev_of (case target of None \<Rightarrow> length (nodes l) | Some k \<Rightarrow> k))"
    by (simp add: target_def merge_target_def)
  obtain rem app acc h1 msg1 where plan:
    "merge_actions h (pkl_merge_rules l) new (map_option ((!) (nodes l)) target) msg = ((rem, app, acc), h1, msg1)"
    by (metis prod.exhaust)
  have flags: "flags = (rem, app, acc)"
    using arg_cong [OF plan, of fst]
      merge_decision_msg [of h "pkl_merge_rules l" new "map_option ((!) (nodes l)) target" None msg] by (simp add: flags_def merge_decision_def target_def)
  have bound: "i < length (nodes l)" if "target = Some i" for i
    using that first_node_SomeD by (fastforce simp: target_def merge_target_def)
  from merge_actions_heap [OF assms(1) valid_live [of h new, OF assms(3)] live_target [OF assms(2) bound] plan]
  have h1: "same_heap h h1" "heap_ok h1" by simp_all
  note l1 = same_heap_pkglist [OF h1(1) assms(2)]
  have new1: "lcfgpackage_is_valid (h1 new)" using same_heap_valid [OF h1(1)] assms(3) by simp
  have refs1: "pkg_refs h1 p = pkg_refs h p" for p by (rule same_heap_refs [OF h1(1)])
  have merge: "lcfgpkglist_merge_package h l new msg =
      merge_apply ((rem, app, acc), h1, msg1) l new (prev_of (case target of None \<Rightarrow> length (nodes l) | Some k \<Rightarrow> k)) target"
    using assms(3) search plan by (simp add: lcfgpkglist_merge_package_def lcfgpkglist_get_merge_rules_def)
  have goal: "change = outcome_change target flags \<and>
    l' = l\<lparr>nodes := outcome_nodes target flags new (nodes l), list_size := length (nodes l')\<rparr> \<and>
    heap_ok h' \<and> heap_step h h' \<and> pkglist_ok h' l' \<and>
    (\<forall>p. pkg_refs h' p + count (mset (nodes l)) p = pkg_refs h p + count (mset (nodes l')) p)"
  proof (cases acc)
    case False
    note live = live_target [OF l1 bound]
    have "l' = l \<and> change = LCFG_CHANGE_ERROR \<and> same_heap h1 h' \<and> heap_ok h'"
      using assms(5) False h1(2) message_at_heap [OF h1(2) live]
      unfolding merge by (auto simp: merge_apply_def split: if_splits prod.splits)
    moreover from this have "pkg_refs h' p = pkg_refs h p" for p using same_heap_refs [of h1 h' p] refs1 by metis
    ultimately show ?thesis
      using False flags size same_heap_pkglist [OF _ l1] heap_step_trans [OF same_heap_step [OF h1(1)] same_heap_step]
      by (auto simp: outcome_change_def outcome_nodes_def)
  next
    case True
    show ?thesis
    proof (cases "rem \<and> target \<noteq> None")
      case True
      then obtain i where i: "target = Some i" "i < length (nodes l)" using bound by blast
      note r = remove_step [OF h1(2) l1 i(2)]
      let ?h2 = "relinquish_at (nodes l ! i) h1"
      let ?l2 = "l\<lparr>nodes := take i (nodes l) @ drop (Suc i) (nodes l), list_size := list_size l - 1\<rparr>"
      have "count (mset (nodes ?l2)) new < pkg_refs ?h2 new"
        using r(5) [of new] assms(4) refs1 [of new] by linarith
      then have "?h2 new \<noteq> None" by (auto simp: pkg_refs_def split: option.splits)
      then have new2: "lcfgpackage_is_valid (?h2 new)"
        using relinquish_at_facts(4) [OF h1(2), of "nodes l ! i" new] valid_live [of h1] l1 i(2) new1 live_refs [OF r(2)]
        by (simp add: pkglist_ok_def del: not_None_eq)
      note a = append_step [OF r(2,4) new2]
      show ?thesis
      proof (cases app)
        case True
        with assms(5) \<open>acc\<close> \<open>rem \<and> target \<noteq> None\<close> i(1) r(1) a(1) flags size i(2)
        show ?thesis unfolding merge
          using a(2,4) heap_step_trans [OF heap_step_trans [OF same_heap_step [OF h1(1)] r(3)] a(3)]
            refs_chain [OF r(5) a(5)] refs1
          by (auto simp: merge_apply_def outcome_change_def outcome_nodes_def)
      next
        case False
        with assms(5) \<open>acc\<close> \<open>rem \<and> target \<noteq> None\<close> i(1) r(1) flags size i(2)
        show ?thesis unfolding merge
          using r(2,4,5) heap_step_trans [OF same_heap_step [OF h1(1)] r(3)] refs1
          by (auto simp: merge_apply_def outcome_change_def outcome_nodes_def)
      qed
    next
      case False
      note a = append_step [OF h1(2) l1 new1]
      show ?thesis
      proof (cases app)
        case True
        with assms(5) \<open>acc\<close> False a(1) flags size
        show ?thesis unfolding merge
          using a(2,4,5) heap_step_trans [OF same_heap_step [OF h1(1)] a(3)] refs1
          by (auto simp: merge_apply_def outcome_change_def outcome_nodes_def split: option.splits)
      next
        case app: False
        with assms(5) \<open>acc\<close> False flags size
        show ?thesis unfolding merge
          using h1 l1 refs1 same_heap_step [OF h1(1)]
          by (auto simp: merge_apply_def outcome_change_def outcome_nodes_def split: option.splits)
      qed
    qed
  qed
  show "change = outcome_change target flags"
    "l' = l\<lparr>nodes := outcome_nodes target flags new (nodes l), list_size := length (nodes l')\<rparr>"
    "heap_ok h'" "heap_step h h'" "pkglist_ok h' l'"
    "pkg_refs h' p + count (mset (nodes l)) p = pkg_refs h p + count (mset (nodes l')) p"
    using goal by blast+
qed

text \<open>
  C9: merging a package keeps the memory sound. In a heap where every count is positive and
  every package satisfies its invariant, and for a list that satisfies its own and a new
  package on which the caller holds a reference of its own, \<open>lcfgpkglist_merge_package\<close>
  keeps both invariants whatever the merge rules and prefixes: no node is left dangling,
  the count of every package changes by exactly the change of its occurrences in the list,
  no package appears and none changes more than its derivation and count, and an error
  leaves the list as it was.
\<close>
theorem pkglist_merge_package_memory:
  assumes "heap_ok h" and "pkglist_ok h l" and "lcfgpackage_is_valid (h new)"
    and "count (mset (nodes l)) new < pkg_refs h new"
    and "lcfgpkglist_merge_package h l new msg = (change, h', l', msg')"
  shows "heap_ok h' \<and> pkglist_ok h' l' \<and> heap_step h h' \<and>
    (\<forall>p. pkg_refs h' p + count (mset (nodes l)) p = pkg_refs h p + count (mset (nodes l')) p) \<and>
    (change = LCFG_CHANGE_ERROR \<longrightarrow> l' = l)"
proof -
  note r = merge_package_result [OF assms]
  have "l' = l" if "change = LCFG_CHANGE_ERROR"
  proof -
    have "nodes l' = nodes l"
      using arg_cong [OF r(2), of nodes] r(1) that
      by (auto simp: outcome_change_def outcome_nodes_def split: prod.splits if_splits)
    with r(2) assms(2) show ?thesis by (simp add: pkglist_ok_def slist_ok_def)
  qed
  with r(3-6) show ?thesis by blast
qed

definition sample_heap :: pkg_heap where
  "sample_heap = [0 \<mapsto> sample_package\<lparr>pkg_refcount := 2\<rparr>, 1 \<mapsto> sample_package\<lparr>pkg_version := Some ''1.1''\<rparr>]"

definition sample_list :: LCFGPackageList where
  "sample_list = lcfgpkglist_new\<lparr>nodes := [0], list_size := 1, pkl_merge_rules := LCFG_MERGE_RULE_REPLACE\<rparr>"

lemma sample_list_facts:
  "heap_ok sample_heap" "pkglist_ok sample_heap sample_list" "lcfgpackage_is_valid (sample_heap 1)"
  "count (mset (nodes sample_list)) 1 < pkg_refs sample_heap 1"
  using sample_package_facts(1,2)
  by (auto simp: heap_ok_def sample_heap_def sample_list_def pkglist_ok_def slist_ok_def pkg_refs_def
      lcfgpackage_is_valid_def pkg_ok_def sample_package_def lcfgpackage_new_def attr_ok_def
      lcfgpackage_valid_version_def isverchr_def lcfg_chr byte_def strchr_in_def)

theorem pkglist_merge_package_memory_witness:
  "\<exists>change h' l' msg'. lcfgpkglist_merge_package sample_heap sample_list 1 None = (change, h', l', msg') \<and>
    heap_ok h' \<and> pkglist_ok h' l'"
proof -
  obtain change h' l' msg' where m: "lcfgpkglist_merge_package sample_heap sample_list 1 None = (change, h', l', msg')"
    by (metis prod.exhaust)
  from pkglist_merge_package_memory [OF sample_list_facts m] m show ?thesis by blast
qed

section \<open>Lists as maps\<close>

text \<open>Two packages of the same primary key.\<close>

definition same_key :: "bits \<Rightarrow> LCFGPackage \<Rightarrow> LCFGPackage \<Rightarrow> bool" where
  "same_key pk p q \<longleftrightarrow>
     strcmp (or_default (pkg_name p) []) (or_default (pkg_name q) []) = 0 \<and>
     (has_bit pk LCFG_PKGLIST_PK_ARCH \<longrightarrow> strcmp (or_default (pkg_arch p) []) (or_default (pkg_arch q) []) = 0) \<and>
     (has_bit pk LCFG_PKGLIST_PK_CTX \<longrightarrow> lcfgpackage_same_context p q)"

interpretation pkg_keys: keyed_list "deref h" "same_key pk" for h pk
proof unfold_locales
  fix i j k
  show "same_key pk k k"
    by (simp add: same_key_def lcfgpackage_same_context_def lcfgcontext_compare_expressions_def)
  show "same_key pk j k \<Longrightarrow> same_key pk k j"
    using str_order.cmp_eq_iff
    by (simp add: same_key_def lcfgpackage_same_context_def lcfgcontext_compare_expressions_def)
  show "same_key pk i j \<Longrightarrow> same_key pk j k \<Longrightarrow> same_key pk i k"
    using str_order.cmp_eq_trans
    by (simp add: same_key_def lcfgpackage_same_context_def lcfgcontext_compare_expressions_def) blast
qed

lemma same_key_core:
  assumes "core p = core p'" and "core q = core q'"
  shows "same_key pk p q \<longleftrightarrow> same_key pk p' q'"
  using core_fields [OF assms(1)] core_fields [OF assms(2)]
  by (simp only: same_key_def lcfgpackage_same_context_def)

lemma arch_not_wild:
  assumes "pkg_ok pkg"
  shows "strcmp (or_default (pkg_arch pkg) []) LCFG_PKG_WILDCARD \<noteq> 0"
proof (cases "isempty (pkg_arch pkg)")
  case False
  then have "lcfgpackage_valid_arch (pkg_arch pkg)" using assms by (simp add: pkg_ok_def attr_ok_def)
  with False have "or_default (pkg_arch pkg) [] \<noteq> ''*''" "no_nul (or_default (pkg_arch pkg) [])"
    by (auto elim!: not_isemptyE simp: lcfgpackage_valid_arch_def list_all_iff no_nul_def lcfg_chr byte_def nul_def)
  then show ?thesis by (simp add: LCFG_PKG_WILDCARD_def strcmp_eq_0 nul_def)
qed (simp add: or_default_empty LCFG_PKG_WILDCARD_def strcmp_def byte_def)

lemma merge_match_key:
  assumes "pkg_ok new_pkg"
  shows "merge_match pk new_pkg pkg \<longleftrightarrow> same_key pk pkg new_pkg"
  using arch_not_wild [OF assms]
  by (auto simp: merge_match_def same_key_def lcfgpackage_match_def)

definition pkglist_unique :: "pkg_heap \<Rightarrow> LCFGPackageList \<Rightarrow> bool" where
  "pkglist_unique h l \<longleftrightarrow>
     sorted_wrt (\<lambda>p q. \<not> same_key (pkl_primary_key l) (deref h p) (deref h q)) (nodes l)"

text \<open>The package of a key.\<close>

definition pkg_lookup :: "pkg_heap \<Rightarrow> LCFGPackageList \<Rightarrow> LCFGPackage \<Rightarrow> nat option" where
  "pkg_lookup h l k = find (\<lambda>p. same_key (pkl_primary_key l) (deref h p) k) (nodes l)"

lemma heap_step_core: "heap_step h h' \<Longrightarrow> h' p \<noteq> None \<Longrightarrow> core (deref h' p) = core (deref h p)"
  by (force simp: heap_step_def deref_def)

lemma pkglist_live: "pkglist_ok h l \<Longrightarrow> p \<in> set (nodes l) \<Longrightarrow> h p \<noteq> None"
  using valid_live [of h p] by (simp add: pkglist_ok_def)

lemma heap_step_keys:
  assumes "heap_step h h'" and "\<forall>p\<in>set ns. h' p \<noteq> None"
  shows "sorted_wrt (\<lambda>p q. \<not> same_key pk (deref h' p) (deref h' q)) ns \<longleftrightarrow>
      sorted_wrt (\<lambda>p q. \<not> same_key pk (deref h p) (deref h q)) ns"
    and "find (\<lambda>p. same_key pk (deref h' p) k) ns = find (\<lambda>p. same_key pk (deref h p) k) ns"
proof -
  have c: "core (deref h' p) = core (deref h p)" if "p \<in> set ns" for p
    using heap_step_core [OF assms(1)] assms(2) that by blast
  show "sorted_wrt (\<lambda>p q. \<not> same_key pk (deref h' p) (deref h' q)) ns \<longleftrightarrow>
      sorted_wrt (\<lambda>p q. \<not> same_key pk (deref h p) (deref h q)) ns" (is "?l \<longleftrightarrow> ?r")
  proof
    show "?l \<Longrightarrow> ?r" by (erule sorted_wrt_mono_rel [rotated]) (metis c same_key_core)
    show "?r \<Longrightarrow> ?l" by (erule sorted_wrt_mono_rel [rotated]) (metis c same_key_core)
  qed
  show "find (\<lambda>p. same_key pk (deref h' p) k) ns = find (\<lambda>p. same_key pk (deref h p) k) ns"
    by (rule find_cong) (use same_key_core [OF c, of _ k k] in auto)
qed

lemma deref_ok: "heap_ok h \<Longrightarrow> h p \<noteq> None \<Longrightarrow> pkg_ok (deref h p)"
  by (auto simp: heap_ok_def deref_def)

lemma merge_target_key:
  assumes "heap_ok h" and "h new \<noteq> None"
  shows "merge_target h l new = first_node (\<lambda>p. same_key (pkl_primary_key l) (deref h p) (deref h new)) (nodes l)"
  using merge_match_key [OF deref_ok [OF assms]] by (simp add: merge_target_def)

text \<open>Nothing is appended beside the package of the same key, unless all are to be kept.\<close>

lemma merge_decision_no_duplicate:
  assumes "merge_decision h l new = (rem, True, True)" and "merge_target h l new = Some i"
    and "\<not> has_bit (pkl_merge_rules l) LCFG_MERGE_RULE_KEEP_ALL"
  shows rem
  using assms
  by (auto simp: merge_decision_def merge_actions_def prefix_plan_def prefix_actions_def Let_def
      split: if_splits option.splits prod.splits)

lemma merge_package_map:
  assumes "heap_ok h" and "pkglist_ok h l" and "lcfgpackage_is_valid (h new)"
    and "count (mset (nodes l)) new < pkg_refs h new"
    and "lcfgpkglist_merge_package h l new msg = (change, h', l', msg')"
    and "pkglist_unique h l" and "\<not> has_bit (pkl_merge_rules l) LCFG_MERGE_RULE_KEEP_ALL"
  shows "pkglist_unique h' l' \<and>
    (\<forall>k. pkg_lookup h' l' k =
       (if same_key (pkl_primary_key l) (deref h new) k
        then (if change \<in> {LCFG_CHANGE_ADDED, LCFG_CHANGE_REPLACED} then Some new
              else if change = LCFG_CHANGE_REMOVED then None else pkg_lookup h l k)
        else pkg_lookup h l k)) \<and>
    (change = LCFG_CHANGE_ADDED \<longrightarrow> pkg_lookup h l (deref h new) = None) \<and>
    (change \<in> {LCFG_CHANGE_REPLACED, LCFG_CHANGE_REMOVED} \<longrightarrow> pkg_lookup h l (deref h new) \<noteq> None)"
proof -
  let ?pk = "pkl_primary_key l" and ?same = "\<lambda>p. same_key (pkl_primary_key l) (deref h p) (deref h new)"
  define target where "target = first_node ?same (nodes l)"
  have mt: "merge_target h l new = target"
    using merge_target_key [OF assms(1) valid_live [of h, OF assms(3)]] by (simp add: target_def)
  note r = merge_package_result [OF assms(1-5), unfolded mt]
  obtain rem app acc where flags: "merge_decision h l new = (rem, app, acc)" by (metis prod.exhaust)
  have dup: "rem" if "app" "acc" "target \<noteq> None"
    using merge_decision_no_duplicate [of h l new rem] that flags assms(7) mt by auto
  have pk: "pkl_primary_key l' = ?pk" using arg_cong [OF r(2), of pkl_primary_key] by simp
  have ns: "nodes l' = outcome_nodes target (rem, app, acc) new (nodes l)"
    using arg_cong [OF r(2), of nodes] flags by simp
  have live: "\<forall>p\<in>set (nodes l'). h' p \<noteq> None" using pkglist_live [OF r(5)] by blast
  note keys = heap_step_keys [OF r(4) live]
  have u: "sorted_wrt (\<lambda>p q. \<not> same_key ?pk (deref h p) (deref h q)) (nodes l)"
    using assms(6) by (simp add: pkglist_unique_def)
  have found: "i < length (nodes l)" "same_key ?pk (deref h (nodes l ! i)) (deref h new)" if "target = Some i" for i
    using first_node_SomeD [of ?same "nodes l" i] that by (auto simp: target_def)
  have look: "pkg_lookup h l (deref h new) = None \<longleftrightarrow> target = None"
    by (simp add: pkg_lookup_def target_def first_node_find_None)
  have ch: "change = outcome_change target (rem, app, acc)" using r(1) flags by simp
  have main: "sorted_wrt (\<lambda>p q. \<not> same_key ?pk (deref h p) (deref h q)) (nodes l') \<and>
    (\<forall>k. find (\<lambda>p. same_key ?pk (deref h p) k) (nodes l') =
       (if same_key ?pk (deref h new) k
        then (if change \<in> {LCFG_CHANGE_ADDED, LCFG_CHANGE_REPLACED} then Some new
              else if change = LCFG_CHANGE_REMOVED then None
              else find (\<lambda>p. same_key ?pk (deref h p) k) (nodes l))
        else find (\<lambda>p. same_key ?pk (deref h p) k) (nodes l)))"
  proof (cases target)
    case None
    then have absent: "first_node ?same (nodes l) = None" by (simp add: target_def)
    show ?thesis
      using u None ch ns pkg_keys.unique_append [OF u absent] pkg_keys.lookup_append [OF absent]
      by (auto simp: outcome_nodes_def outcome_change_def)
  next
    case (Some i)
    note f = found [OF Some]
    let ?rest = "take i (nodes l) @ drop (Suc i) (nodes l)"
    note rest = pkg_keys.remove_facts [OF u f]
    have appended: "sorted_wrt (\<lambda>p q. \<not> same_key ?pk (deref h p) (deref h q)) (?rest @ [new])"
      "find (\<lambda>p. same_key ?pk (deref h p) k) (?rest @ [new]) =
        (if same_key ?pk (deref h new) k then Some new else find (\<lambda>p. same_key ?pk (deref h p) k) (nodes l))" for k
      using pkg_keys.unique_append [OF rest(1,2)] pkg_keys.lookup_append [OF rest(2), of k] rest(3) [of k]
      by (simp_all del: append_assoc)
    consider "nodes l' = nodes l" "change \<in> {LCFG_CHANGE_NONE, LCFG_CHANGE_ERROR}"
      | "nodes l' = ?rest @ [new]" "change = LCFG_CHANGE_REPLACED"
      | "nodes l' = ?rest" "change = LCFG_CHANGE_REMOVED"
      using dup Some ch ns by (cases acc; cases rem; cases app; simp add: outcome_nodes_def outcome_change_def)
    then show ?thesis
    proof cases
      case 1
      with u show ?thesis by auto
    next
      case 2
      show ?thesis unfolding 2 using appended(1) by (auto simp only: appended(2) simp_thms insert_iff if_True if_False)
    next
      case 3
      show ?thesis unfolding 3 using rest(1) by (simp only: rest(3)) simp
    qed
  qed
  have codes: "change = LCFG_CHANGE_ADDED \<longrightarrow> target = None"
    "change \<in> {LCFG_CHANGE_REPLACED, LCFG_CHANGE_REMOVED} \<longrightarrow> target \<noteq> None"
  proof -
    have "app \<and> acc \<and> target \<noteq> None \<longrightarrow> rem" using dup by blast
    then show "change = LCFG_CHANGE_ADDED \<longrightarrow> target = None"
      "change \<in> {LCFG_CHANGE_REPLACED, LCFG_CHANGE_REMOVED} \<longrightarrow> target \<noteq> None"
      unfolding ch by (cases "target = None"; cases acc; cases rem; cases app; simp add: outcome_change_def)+
  qed
  have "pkglist_unique h' l'" unfolding pkglist_unique_def pk keys(1) using main by (rule conjunct1)
  moreover have new_lookup: "pkg_lookup h' l' k = find (\<lambda>p. same_key ?pk (deref h p) k) (nodes l')" for k
    unfolding pkg_lookup_def pk keys(2) by (rule refl)
  have old_lookup: "pkg_lookup h l k = find (\<lambda>p. same_key ?pk (deref h p) k) (nodes l)" for k
    by (simp add: pkg_lookup_def)
  ultimately show ?thesis
    unfolding new_lookup old_lookup using conjunct2 [OF main] codes look [unfolded old_lookup]
    by (intro conjI) simp_all
qed

text \<open>
  C12: the change code tells the truth. A list in which no two packages have the same primary
  key, under rules that do not keep all, is a map from keys to packages, and stays one when
  a package is merged: after ADDED or REPLACED the key of the new package leads to the new
  package, after REMOVED to none, after NONE or ERROR to the old one; it was new exactly
  for ADDED, and there for REPLACED and REMOVED. Every other key leads where it led before.
\<close>
theorem pkglist_merge_package_map:
  assumes "heap_ok h" and "pkglist_ok h l" and "lcfgpackage_is_valid (h new)"
    and "count (mset (nodes l)) new < pkg_refs h new"
    and "lcfgpkglist_merge_package h l new msg = (change, h', l', msg')"
    and "pkglist_unique h l" and "\<not> has_bit (pkl_merge_rules l) LCFG_MERGE_RULE_KEEP_ALL"
  shows "pkglist_unique h' l' \<and>
    (\<forall>k. pkg_lookup h' l' k =
       (if same_key (pkl_primary_key l) (deref h new) k
        then (if change \<in> {LCFG_CHANGE_ADDED, LCFG_CHANGE_REPLACED} then Some new
              else if change = LCFG_CHANGE_REMOVED then None else pkg_lookup h l k)
        else pkg_lookup h l k)) \<and>
    (change = LCFG_CHANGE_ADDED \<longrightarrow> pkg_lookup h l (deref h new) = None) \<and>
    (change \<in> {LCFG_CHANGE_REPLACED, LCFG_CHANGE_REMOVED} \<longrightarrow> pkg_lookup h l (deref h new) \<noteq> None)"
  by (rule merge_package_map [OF assms])

theorem pkglist_merge_package_map_witness:
  "\<exists>change h' l' msg'. lcfgpkglist_merge_package sample_heap sample_list 1 None = (change, h', l', msg') \<and>
    pkglist_unique h' l'"
proof -
  obtain change h' l' msg' where m: "lcfgpkglist_merge_package sample_heap sample_list 1 None = (change, h', l', msg')"
    by (metis prod.exhaust)
  have "pkglist_unique sample_heap sample_list"
    "\<not> has_bit (pkl_merge_rules sample_list) LCFG_MERGE_RULE_KEEP_ALL"
    by (simp_all add: pkglist_unique_def sample_list_def lcfg_flag)
  from pkglist_merge_package_map [OF sample_list_facts m this] m show ?thesis by blast
qed

section \<open>Merging lists\<close>

lemma pkglist_merge_loop_result:
  assumes "heap_ok h" and "pkglist_ok h l" and "\<forall>p\<in>set ps. count (mset (nodes l)) p < pkg_refs h p"
    and "pkglist_merge_loop h l ps change msg = (change', h', l', msg')"
  shows "heap_ok h' \<and> pkglist_ok h' l' \<and> heap_step h h' \<and>
    (\<forall>p. pkg_refs h' p + count (mset (nodes l)) p = pkg_refs h p + count (mset (nodes l')) p)"
  using assms
proof (induction ps arbitrary: h l change msg)
  case (Cons p ps)
  show ?case
  proof (cases "change = LCFG_CHANGE_ERROR \<or> \<not> lcfgpackage_is_valid (h p)")
    case True
    then show ?thesis using Cons by (auto split: if_splits)
  next
    case False
    then have valid: "lcfgpackage_is_valid (h p)" by simp
    obtain rc h1 l1 m1 where m: "lcfgpkglist_merge_package h l p None = (rc, h1, l1, m1)" by (metis prod.exhaust)
    have "count (mset (nodes l)) p < pkg_refs h p" using Cons.prems(3) by simp
    note r = merge_package_result [OF Cons.prems(1,2) valid this m]
    have refs1: "\<forall>q\<in>set ps. count (mset (nodes l1)) q < pkg_refs h1 q"
    proof
      fix q assume "q \<in> set ps"
      then have "count (mset (nodes l)) q < pkg_refs h q" using Cons.prems(3) by simp
      then show "count (mset (nodes l1)) q < pkg_refs h1 q" using r(6) [of q] by linarith
    qed
    have goal: "heap_ok h' \<and> pkglist_ok h' l' \<and> heap_step h h' \<and>
      (\<forall>p. pkg_refs h' p + count (mset (nodes l)) p = pkg_refs h p + count (mset (nodes l')) p)"
      if loop: "pkglist_merge_loop h2 l1 ps change2 msg2 = (change', h', l', msg')" and
        h2: "same_heap h1 h2" "heap_ok h2" for h2 change2 msg2
    proof -
      have refs2: "\<forall>q\<in>set ps. count (mset (nodes l1)) q < pkg_refs h2 q"
        using refs1 same_heap_refs [OF h2(1)] by simp
      note IH = Cons.IH [OF h2(2) same_heap_pkglist [OF h2(1) r(5)] refs2 loop]
      have "pkg_refs h' q + count (mset (nodes l)) q = pkg_refs h q + count (mset (nodes l')) q" for q
      proof -
        have "pkg_refs h' q + count (mset (nodes l1)) q = pkg_refs h1 q + count (mset (nodes l')) q"
          using IH same_heap_refs [OF h2(1), of q] by simp
        with r(6) [of q] show ?thesis by linarith
      qed
      with IH heap_step_trans [OF r(4) heap_step_trans [OF same_heap_step [OF h2(1)]]] show ?thesis by blast
    qed
    show ?thesis
    proof (cases "rc = LCFG_CHANGE_ERROR")
      case True
      obtain s h2 where s: "message_at (Some p) (''Failed to merge package: '' @ or_default m1 ''(null)'') h1 = (s, h2)"
        by fastforce
      have "pkg_refs h1 p \<noteq> 0"
        using r(6) [of p] \<open>count (mset (nodes l)) p < pkg_refs h p\<close> by linarith
      then have "\<forall>a. Some p = Some a \<longrightarrow> h1 a \<noteq> None" by (auto simp: pkg_refs_def split: option.splits)
      from message_at_heap [OF r(3) this s] have "same_heap h1 h2" "heap_ok h2" by simp_all
      moreover have "pkglist_merge_loop h2 l1 ps LCFG_CHANGE_ERROR (Some s) = (change', h', l', msg')"
        using Cons.prems(4) False m s True by simp
      ultimately show ?thesis using goal by blast
    next
      case rc: False
      then have "pkglist_merge_loop h1 l1 ps (if rc \<noteq> LCFG_CHANGE_NONE then LCFG_CHANGE_MODIFIED else change) msg =
          (change', h', l', msg')"
        using Cons.prems(4) False m by simp
      with goal r(3) show ?thesis using same_heap_refl by blast
    qed
  qed
qed simp

lemma merge_list_result:
  assumes "heap_ok h" and "pkglist_ok h l1"
    and "\<forall>p. count (mset (nodes l1)) p + count (mset (nodes l2)) p \<le> pkg_refs h p"
    and "lcfgpkglist_merge_list h l1 (Some l2) msg = (change, h', l', msg')"
  shows "heap_ok h' \<and> pkglist_ok h' l' \<and> heap_step h h' \<and>
    (\<forall>p. pkg_refs h' p + count (mset (nodes l1)) p = pkg_refs h p + count (mset (nodes l')) p)"
proof -
  have "\<forall>p\<in>set (nodes l2). count (mset (nodes l1)) p < pkg_refs h p"
  proof
    fix p assume "p \<in> set (nodes l2)"
    then have "0 < count (mset (nodes l2)) p" by simp
    with assms(3) [rule_format, of p] show "count (mset (nodes l1)) p < pkg_refs h p" by linarith
  qed
  from pkglist_merge_loop_result [OF assms(1,2) this] assms show ?thesis
    by (auto simp: lcfgpkglist_merge_list_def split: if_splits)
qed

text \<open>The decision where packages are merged by their priority alone.\<close>

lemma merge_decision_priority:
  assumes "pkl_merge_rules l = LCFG_MERGE_RULE_USE_PRIORITY"
  shows "merge_decision h l new =
     (case merge_target h l new of
        None \<Rightarrow> (False, True, True)
      | Some i \<Rightarrow>
          let c = nodes l ! i; priority = pkg_priority (deref h new); opriority = pkg_priority (deref h c)
          in if c = new then (False, False, True)
             else if opriority < priority then (True, True, True)
             else (False, False, priority < opriority))"
  by (auto simp: merge_decision_def merge_actions_def assms lcfg_flag Let_def split: option.splits)

text \<open>
  For every package merged so far, the list holds one of the same key with a priority at
  least as high, and holds nothing else.
\<close>

definition best_of :: "pkg_heap \<Rightarrow> bits \<Rightarrow> nat set \<Rightarrow> nat set \<Rightarrow> bool" where
  "best_of h pk merged held \<longleftrightarrow> held \<subseteq> merged \<and>
     (\<forall>r\<in>merged. \<exists>q\<in>held. same_key pk (deref h r) (deref h q) \<and> pkg_priority (deref h r) \<le> pkg_priority (deref h q))"

definition distinct_priorities :: "pkg_heap \<Rightarrow> bits \<Rightarrow> nat set \<Rightarrow> bool" where
  "distinct_priorities h pk ps \<longleftrightarrow>
     (\<forall>p\<in>ps. \<forall>q\<in>ps. same_key pk (deref h p) (deref h q) \<longrightarrow> pkg_priority (deref h p) = pkg_priority (deref h q) \<longrightarrow> p = q)"

lemma priority_step:
  assumes "heap_ok h" and "pkglist_ok h l" and "lcfgpackage_is_valid (h new)"
    and "count (mset (nodes l)) new < pkg_refs h new"
    and "lcfgpkglist_merge_package h l new msg = (change, h', l', msg')"
    and "pkl_merge_rules l = LCFG_MERGE_RULE_USE_PRIORITY"
    and "best_of h (pkl_primary_key l) merged (set (nodes l))"
    and "distinct_priorities h (pkl_primary_key l) (insert new merged)"
  shows "change \<noteq> LCFG_CHANGE_ERROR" and "best_of h (pkl_primary_key l) (insert new merged) (set (nodes l'))"
proof -
  let ?pk = "pkl_primary_key l" and ?same = "\<lambda>p. same_key (pkl_primary_key l) (deref h p) (deref h new)"
  note r = merge_package_result [OF assms(1-5)]
  have ns: "nodes l' = outcome_nodes (merge_target h l new) (merge_decision h l new) new (nodes l)"
    using arg_cong [OF r(2), of nodes] by simp
  have t: "merge_target h l new = first_node ?same (nodes l)"
    by (rule merge_target_key [OF assms(1) valid_live [of h, OF assms(3)]])
  have held: "set (nodes l) \<subseteq> merged" and best: "\<And>r. r \<in> merged \<Longrightarrow>
      \<exists>q\<in>set (nodes l). same_key ?pk (deref h r) (deref h q) \<and> pkg_priority (deref h r) \<le> pkg_priority (deref h q)"
    using assms(7) by (auto simp: best_of_def)
  have "change \<noteq> LCFG_CHANGE_ERROR \<and> best_of h ?pk (insert new merged) (set (nodes l'))"
  proof (cases "merge_target h l new")
    case None
    then show ?thesis
      using r(1) ns assms(7) merge_decision_priority [OF assms(6), of h new]
      by (auto simp: outcome_change_def outcome_nodes_def best_of_def)
  next
    case (Some i)
    let ?c = "nodes l ! i"
    have i: "i < length (nodes l)" "same_key ?pk (deref h ?c) (deref h new)"
      using first_node_SomeD [of ?same "nodes l" i] Some t by auto
    have c: "?c \<in> set (nodes l)" "?c \<in> merged" using nth_mem [OF i(1)] held by auto
    have eq: "?c = new" if "pkg_priority (deref h ?c) = pkg_priority (deref h new)"
      using assms(8) i(2) c(2) that unfolding distinct_priorities_def by blast
    have up: "pkg_priority (deref h ?c) \<le> pkg_priority (deref h new) \<Longrightarrow> r \<in> merged \<Longrightarrow>
      \<exists>q\<in>insert new (set (nodes l) - {?c}). same_key ?pk (deref h r) (deref h q) \<and>
        pkg_priority (deref h r) \<le> pkg_priority (deref h q)" for r
      using best [of r] i(2) pkg_keys.same_trans by (metis Diff_iff insert_iff order_trans singletonD)
    let ?rest = "take i (nodes l) @ drop (Suc i) (nodes l)"
    have split: "nodes l = take i (nodes l) @ ?c # drop (Suc i) (nodes l)" using i(1) by (rule id_take_nth_drop)
    have rest: "set (nodes l) - {?c} \<subseteq> set ?rest" "set ?rest \<subseteq> set (nodes l)"
      using arg_cong [OF split, of set] by auto
    consider "?c = new" | "pkg_priority (deref h ?c) < pkg_priority (deref h new)" "?c \<noteq> new"
      | "pkg_priority (deref h new) < pkg_priority (deref h ?c)" "?c \<noteq> new"
      using eq by force
    then show ?thesis
    proof cases
      case 1
      then have "nodes l' = nodes l" "change = LCFG_CHANGE_NONE"
        using r(1) ns Some merge_decision_priority [OF assms(6), of h new]
        by (simp_all add: outcome_change_def outcome_nodes_def)
      with 1 c(2) assms(7) show ?thesis by (auto simp: insert_absorb)
    next
      case 2
      then have "nodes l' = ?rest @ [new]" "change = LCFG_CHANGE_REPLACED"
        using r(1) ns Some merge_decision_priority [OF assms(6), of h new]
        by (simp_all add: outcome_change_def outcome_nodes_def)
      moreover have "best_of h ?pk (insert new merged) (insert new (set ?rest))"
        unfolding best_of_def using rest held up 2(1) by fastforce
      ultimately show ?thesis by simp
    next
      case 3
      then have "nodes l' = nodes l" "change = LCFG_CHANGE_NONE"
        using r(1) ns Some merge_decision_priority [OF assms(6), of h new]
        by (simp_all add: outcome_change_def outcome_nodes_def)
      moreover have "same_key ?pk (deref h new) (deref h ?c)" by (rule pkg_keys.same_sym [OF i(2)])
      ultimately show ?thesis using 3(1) c assms(7) unfolding best_of_def by auto
    qed
  qed
  then show "change \<noteq> LCFG_CHANGE_ERROR" "best_of h ?pk (insert new merged) (set (nodes l'))" by simp_all
qed

lemma best_of_step:
  assumes "heap_step h h'" and "\<forall>p\<in>merged. h' p \<noteq> None"
  shows "best_of h pk merged held \<Longrightarrow> best_of h' pk merged held"
    and "distinct_priorities h pk merged \<Longrightarrow> distinct_priorities h' pk merged"
proof -
  have core_eq: "core (deref h' p) = core (deref h p)" if "p \<in> merged" for p
    using heap_step_core [OF assms(1)] assms(2) that by blast
  have keys: "same_key pk (deref h' p) (deref h' q) \<longleftrightarrow> same_key pk (deref h p) (deref h q)"
    and prio: "pkg_priority (deref h' p) = pkg_priority (deref h p)" if "p \<in> merged" "q \<in> merged" for p q
    using that core_eq same_key_core core_fields(8) by blast+
  show "best_of h pk merged held \<Longrightarrow> best_of h' pk merged held"
    unfolding best_of_def using keys prio by (metis subsetD)
  show "distinct_priorities h pk merged \<Longrightarrow> distinct_priorities h' pk merged"
    unfolding distinct_priorities_def using keys prio by metis
qed

lemma refs_live: "n < pkg_refs h p \<Longrightarrow> h p \<noteq> None"
  by (auto simp: pkg_refs_def split: option.splits)

lemma priority_loop:
  assumes "heap_ok h" and "pkglist_ok h l" and "pkl_merge_rules l = LCFG_MERGE_RULE_USE_PRIORITY"
    and "pkglist_unique h l" and "best_of h (pkl_primary_key l) merged (set (nodes l))"
    and "distinct_priorities h (pkl_primary_key l) (merged \<union> set ps)"
    and "\<forall>p\<in>merged \<union> set ps. count (mset (nodes l)) p < pkg_refs h p"
    and "\<forall>p\<in>set ps. lcfgpackage_is_valid (h p)" and "change \<noteq> LCFG_CHANGE_ERROR"
    and "pkglist_merge_loop h l ps change msg = (change', h', l', msg')"
  shows "change' \<noteq> LCFG_CHANGE_ERROR \<and> pkglist_unique h' l' \<and>
    best_of h' (pkl_primary_key l) (merged \<union> set ps) (set (nodes l')) \<and>
    pkl_primary_key l' = pkl_primary_key l"
  using assms
proof (induction ps arbitrary: h l change msg merged)
  case (Cons p ps)
  let ?pk = "pkl_primary_key l"
  have valid: "lcfgpackage_is_valid (h p)" using Cons.prems(8) by simp
  have count: "count (mset (nodes l)) p < pkg_refs h p" using Cons.prems(7) by simp
  obtain rc h1 l1 m1 where m: "lcfgpkglist_merge_package h l p None = (rc, h1, l1, m1)" by (metis prod.exhaust)
  note r = merge_package_result [OF Cons.prems(1,2) valid count m]
  have "distinct_priorities h ?pk (insert p merged)"
    using Cons.prems(6) by (auto simp: distinct_priorities_def)
  note step = priority_step [OF Cons.prems(1,2) valid count m Cons.prems(3,5) this]
  have same: "pkl_primary_key l1 = ?pk" "pkl_merge_rules l1 = pkl_merge_rules l"
    using arg_cong [OF r(2), of pkl_primary_key] arg_cong [OF r(2), of pkl_merge_rules] by simp_all
  have "\<not> has_bit (pkl_merge_rules l) LCFG_MERGE_RULE_KEEP_ALL" using Cons.prems(3) by (simp add: lcfg_flag)
  then have uniq: "pkglist_unique h1 l1"
    using merge_package_map [OF Cons.prems(1,2) valid count m Cons.prems(4)] by blast
  have refs: "count (mset (nodes l1)) q < pkg_refs h1 q" if "q \<in> insert p merged \<union> set ps" for q
  proof -
    have "count (mset (nodes l)) q < pkg_refs h q" using Cons.prems(7) that by auto
    with r(6) [of q] show ?thesis by linarith
  qed
  then have live: "\<forall>q\<in>insert p merged. h1 q \<noteq> None" "\<forall>q\<in>insert p merged \<union> set ps. h1 q \<noteq> None"
    using refs_live by blast+
  have dist: "distinct_priorities h1 ?pk (insert p merged \<union> set ps)"
    using best_of_step(2) [OF r(4) live(2)] Cons.prems(6) by simp
  have "lcfgpackage_is_valid (h1 q)" if "q \<in> set ps" for q
  proof -
    have "h1 q \<noteq> None" "lcfgpackage_is_valid (h q)" using live(2) that Cons.prems(8) by auto
    moreover from this heap_step_core [OF r(4), of q] have "core (deref h1 q) = core (deref h q)" by blast
    ultimately show ?thesis
      using core_valid [of "deref h1 q" "deref h q"] valid_live [of h q] by (auto simp: deref_def)
  qed
  moreover have "pkglist_merge_loop h1 l1 ps (if rc \<noteq> LCFG_CHANGE_NONE then LCFG_CHANGE_MODIFIED else change) msg =
      (change', h', l', msg')"
    using Cons.prems(9,10) valid m step(1) by simp
  moreover have "best_of h1 ?pk (insert p merged) (set (nodes l1))"
    by (rule best_of_step(1) [OF r(4) live(1) step(2)])
  ultimately have "change' \<noteq> LCFG_CHANGE_ERROR \<and> pkglist_unique h' l' \<and>
    best_of h' ?pk (insert p merged \<union> set ps) (set (nodes l')) \<and> pkl_primary_key l' = ?pk"
    using Cons.IH [of h1 l1 "insert p merged"] r(3,5) uniq dist refs Cons.prems(3,9) same by (auto split: if_splits)
  then show ?case by simp
qed simp

lemma best_of_maximal:
  assumes "best_of h pk merged held" and "distinct_priorities h pk merged"
    and "\<And>p q. p \<in> held \<Longrightarrow> q \<in> held \<Longrightarrow> same_key pk (deref h p) (deref h q) \<Longrightarrow> p = q"
  shows "held = {p \<in> merged. \<forall>q\<in>merged. same_key pk (deref h p) (deref h q) \<longrightarrow>
    pkg_priority (deref h q) \<le> pkg_priority (deref h p)}"
proof (intro equalityI subsetI)
  fix p assume p: "p \<in> held"
  have "pkg_priority (deref h q) \<le> pkg_priority (deref h p)"
    if q: "q \<in> merged" "same_key pk (deref h p) (deref h q)" for q
  proof -
    obtain r where r: "r \<in> held" "same_key pk (deref h q) (deref h r)"
      "pkg_priority (deref h q) \<le> pkg_priority (deref h r)"
      using assms(1) q(1) by (auto simp: best_of_def)
    have "p = r" using assms(3) [OF p r(1)] pkg_keys.same_trans [OF q(2) r(2)] by blast
    with r show ?thesis by simp
  qed
  with p assms(1) show "p \<in> {p \<in> merged. \<forall>q\<in>merged. same_key pk (deref h p) (deref h q) \<longrightarrow>
    pkg_priority (deref h q) \<le> pkg_priority (deref h p)}" by (auto simp: best_of_def)
next
  fix p assume "p \<in> {p \<in> merged. \<forall>q\<in>merged. same_key pk (deref h p) (deref h q) \<longrightarrow>
    pkg_priority (deref h q) \<le> pkg_priority (deref h p)}"
  then have p: "p \<in> merged" and max: "\<And>q. q \<in> merged \<Longrightarrow> same_key pk (deref h p) (deref h q) \<Longrightarrow>
    pkg_priority (deref h q) \<le> pkg_priority (deref h p)" by auto
  obtain r where r: "r \<in> held" "same_key pk (deref h p) (deref h r)"
    "pkg_priority (deref h p) \<le> pkg_priority (deref h r)"
    using assms(1) p by (auto simp: best_of_def)
  have "r \<in> merged" using r(1) assms(1) by (auto simp: best_of_def)
  with max [OF this r(2)] r(3) have "pkg_priority (deref h p) = pkg_priority (deref h r)" by simp
  with assms(2) p \<open>r \<in> merged\<close> r(2) have "p = r" unfolding distinct_priorities_def by blast
  with r(1) show "p \<in> held" by simp
qed


lemma merge_list_priority:
  assumes "heap_ok h" and "pkglist_ok h l1" and "nodes l1 = []"
    and "pkl_merge_rules l1 = LCFG_MERGE_RULE_USE_PRIORITY"
    and "slist_ok l2" and "\<forall>p\<in>set (nodes l2). lcfgpackage_is_valid (h p)"
    and "distinct_priorities h (pkl_primary_key l1) (set (nodes l2))"
    and "lcfgpkglist_merge_list h l1 (Some l2) msg = (change, h', l', msg')"
  shows "change \<noteq> LCFG_CHANGE_ERROR \<and>
    set (nodes l') = {p \<in> set (nodes l2). \<forall>q\<in>set (nodes l2).
      same_key (pkl_primary_key l1) (deref h p) (deref h q) \<longrightarrow>
      pkg_priority (deref h q) \<le> pkg_priority (deref h p)}"
proof -
  let ?pk = "pkl_primary_key l1" and ?ps = "nodes l2"
  have live: "\<forall>p\<in>set ?ps. 0 < pkg_refs h p"
  proof
    fix p assume "p \<in> set ?ps"
    then have "h p \<noteq> None" by (intro valid_live [of h]) (use assms(6) in simp)
    with live_refs [OF assms(1), of p] show "0 < pkg_refs h p" by simp
  qed
  have loop: "pkglist_merge_loop h l1 ?ps LCFG_CHANGE_NONE msg = (change, h', l', msg')"
    using assms(3,5,8) by (auto simp: lcfgpkglist_merge_list_def slist_ok_def split: if_splits)
  have refs: "\<forall>p\<in>set ?ps. count (mset (nodes l1)) p < pkg_refs h p" using live assms(3) by simp
  have result: "change \<noteq> LCFG_CHANGE_ERROR" "pkglist_unique h' l'" "best_of h' ?pk (set ?ps) (set (nodes l'))"
    "pkl_primary_key l' = ?pk"
    using priority_loop [of h l1 "{}" ?ps, OF assms(1,2,4) _ _ _ _ assms(6) _ loop] refs assms(3,7)
    by (auto simp: pkglist_unique_def best_of_def)
  have r: "heap_step h h'" "\<forall>p. pkg_refs h' p = pkg_refs h p + count (mset (nodes l')) p" "pkglist_ok h' l'"
    using pkglist_merge_loop_result [OF assms(1,2) refs loop] assms(3) by simp_all
  have live': "\<forall>p\<in>set ?ps. h' p \<noteq> None"
  proof
    fix p assume "p \<in> set ?ps"
    with live r(2) have "0 < pkg_refs h' p" by simp
    then show "h' p \<noteq> None" by (rule refs_live)
  qed
  have unique: "p = q" if "p \<in> set (nodes l')" "q \<in> set (nodes l')" "same_key ?pk (deref h' p) (deref h' q)" for p q
    using pkg_keys.unique_eq [of ?pk h' "nodes l'"] result(2,4) that by (simp add: pkglist_unique_def)
  have core_eq: "core (deref h' p) = core (deref h p)" if "p \<in> set ?ps" for p
    using heap_step_core [OF r(1), of p] live' that by blast
  have prio: "pkg_priority (deref h' p) = pkg_priority (deref h p)" if "p \<in> set ?ps" for p
    by (rule core_fields(8) [OF core_eq [OF that]])
  have keys: "same_key ?pk (deref h' p) (deref h' q) \<longleftrightarrow> same_key ?pk (deref h p) (deref h q)"
    if "p \<in> set ?ps" "q \<in> set ?ps" for p q
    by (rule same_key_core [OF core_eq [OF that(1)] core_eq [OF that(2)]])
  have "set (nodes l') = {p \<in> set ?ps. \<forall>q\<in>set ?ps. same_key ?pk (deref h' p) (deref h' q) \<longrightarrow>
      pkg_priority (deref h' q) \<le> pkg_priority (deref h' p)}"
    by (rule best_of_maximal [OF result(3) best_of_step(2) [OF r(1) live' assms(7)] unique])
  also have "\<dots> = {p \<in> set ?ps. \<forall>q\<in>set ?ps. same_key ?pk (deref h p) (deref h q) \<longrightarrow>
      pkg_priority (deref h q) \<le> pkg_priority (deref h p)}"
    by (rule Collect_cong) (simp add: keys prio cong: conj_cong ball_cong)
  finally have "set (nodes l') = \<dots>" .
  with result(1) show ?thesis by blast
qed


text \<open>
  C11: merging a list by priority keeps the best. When the packages of a list, of which no two
  different ones have both the same primary key and the same priority, are merged into an
  empty list whose only rule is USE_PRIORITY, no conflict is reported and the resulting list
  holds exactly the packages whose priority is the highest among those of their key -- for
  every order of the packages.
\<close>
theorem pkglist_merge_list_priority:
  assumes "heap_ok h" and "pkglist_ok h l1" and "nodes l1 = []"
    and "pkl_merge_rules l1 = LCFG_MERGE_RULE_USE_PRIORITY"
    and "slist_ok l2" and "\<forall>p\<in>set (nodes l2). lcfgpackage_is_valid (h p)"
    and "distinct_priorities h (pkl_primary_key l1) (set (nodes l2))"
    and "lcfgpkglist_merge_list h l1 (Some l2) msg = (change, h', l', msg')"
  shows "change \<noteq> LCFG_CHANGE_ERROR \<and>
    set (nodes l') = {p \<in> set (nodes l2). \<forall>q\<in>set (nodes l2).
      same_key (pkl_primary_key l1) (deref h p) (deref h q) \<longrightarrow>
      pkg_priority (deref h q) \<le> pkg_priority (deref h p)}"
  by (rule merge_list_priority [OF assms])

definition priority_heap :: pkg_heap where
  "priority_heap = [0 \<mapsto> sample_package\<lparr>pkg_priority := 1\<rparr>, 1 \<mapsto> sample_package\<lparr>pkg_priority := 5\<rparr>]"

definition priority_list :: LCFGPackageList where
  "priority_list = lcfgpkglist_new\<lparr>pkl_merge_rules := LCFG_MERGE_RULE_USE_PRIORITY\<rparr>"

lemma priority_list_facts:
  "heap_ok priority_heap" "pkglist_ok priority_heap priority_list"
  "distinct_priorities priority_heap (pkl_primary_key priority_list) {0, 1}"
  "\<forall>p\<in>{0, 1}. lcfgpackage_is_valid (priority_heap p)"
  using sample_package_facts(1,2)
  by (auto simp: heap_ok_def priority_heap_def priority_list_def pkglist_ok_def slist_ok_def pkg_refs_def
      lcfgpackage_is_valid_def pkg_ok_def sample_package_def lcfgpackage_new_def lcfgpkglist_new_def
      distinct_priorities_def deref_def)

theorem pkglist_merge_list_priority_witness:
  "\<exists>change h' l' msg'. lcfgpkglist_merge_list priority_heap priority_list
      (Some (lcfgpkglist_new\<lparr>nodes := [1, 0], list_size := 2\<rparr>)) None = (change, h', l', msg') \<and>
    change \<noteq> LCFG_CHANGE_ERROR \<and> set (nodes l') = {1}"
proof -
  let ?l2 = "lcfgpkglist_new\<lparr>nodes := [1, 0], list_size := 2\<rparr>"
  obtain change h' l' msg' where
    m: "lcfgpkglist_merge_list priority_heap priority_list (Some ?l2) None = (change, h', l', msg')"
    by (metis prod.exhaust)
  have "nodes priority_list = []" "pkl_merge_rules priority_list = LCFG_MERGE_RULE_USE_PRIORITY" "slist_ok ?l2"
    by (simp_all add: priority_list_def lcfgpkglist_new_def slist_ok_def)
  from pkglist_merge_list_priority [OF priority_list_facts(1,2) this _ _ m] priority_list_facts(3,4)
  have "change \<noteq> LCFG_CHANGE_ERROR \<and> set (nodes l') = {p \<in> {0, 1}. \<forall>q\<in>{0, 1}.
      same_key (pkl_primary_key priority_list) (deref priority_heap p) (deref priority_heap q) \<longrightarrow>
      pkg_priority (deref priority_heap q) \<le> pkg_priority (deref priority_heap p)}"
    by (simp add: insert_commute)
  also have "{p \<in> {0, 1}. \<forall>q\<in>{0, 1}.
      same_key (pkl_primary_key priority_list) (deref priority_heap p) (deref priority_heap q) \<longrightarrow>
      pkg_priority (deref priority_heap q) \<le> pkg_priority (deref priority_heap p)} = {1 :: nat}"
    by (auto simp: priority_heap_def deref_def same_key_def lcfgpackage_same_context_def
        lcfgcontext_compare_expressions_def sample_package_def lcfgpackage_new_def strcmp_def)
  finally show ?thesis using m by blast
qed

section \<open>Sorting and priorities\<close>

text \<open>
  C24: \<open>lcfgpkglist_sort\<close> always returns: the same nodes, none of which compares greater than
  a later one; packages that compare equal keep their order, and when the list holds each
  key once, every key leads to the same package as before.
\<close>
theorem pkglist_sort_spec:
  assumes "slist_ok l"
  shows "\<exists>l'. lcfgpkglist_sort h l = Some l' \<and> slist_ok l' \<and> mset (nodes l') = mset (nodes l) \<and>
    sorted_wrt (\<lambda>p q. lcfgpackage_compare (deref h p) (deref h q) \<le> 0) (nodes l') \<and>
    (\<forall>r. filter (\<lambda>p. lcfgpackage_compare (deref h r) (deref h p) = 0) (nodes l') =
         filter (\<lambda>p. lcfgpackage_compare (deref h r) (deref h p) = 0) (nodes l)) \<and>
    (pkglist_unique h l \<longrightarrow> (\<forall>k. pkg_lookup h l' k = pkg_lookup h l k))"
proof (cases "list_size l < 2")
  case True
  then have "length (nodes l) < 2" using assms by (simp add: slist_ok_def)
  then have "sorted_wrt (\<lambda>p q. lcfgpackage_compare (deref h p) (deref h q) \<le> 0) (nodes l)"
    by (cases "nodes l" rule: remdups_adj.cases) auto
  with True assms show ?thesis by (auto simp: lcfgpkglist_sort_def)
next
  case False
  note sort = comparator.bubble_sort [OF packages.comparator_image [of "deref h"]]
  obtain ns where ns:
    "bubble_loop (\<lambda>p q. 0 < lcfgpackage_compare (deref h p) (deref h q)) (nodes l) = Some ns"
    using sort(1) by blast
  have m: "mset ns = mset (nodes l)" by (rule mset_bubble_loop [OF ns])
  have "pkg_lookup h (l\<lparr>nodes := ns\<rparr>) k = pkg_lookup h l k" if "pkglist_unique h l" for k
    using pkg_keys.lookup_perm [OF m [symmetric], of "pkl_primary_key l" h k] that
    by (simp add: pkglist_unique_def pkg_lookup_def)
  moreover have "slist_ok (l\<lparr>nodes := ns\<rparr>)" using assms mset_eq_length [OF m] by (simp add: slist_ok_def)
  moreover have "lcfgpkglist_sort h l = Some (l\<lparr>nodes := ns\<rparr>)"
    using False ns by (simp add: lcfgpkglist_sort_def)
  ultimately show ?thesis using m sort(2) [OF ns] sort(3) [OF ns] by simp
qed

theorem pkglist_sort_spec_witness:
  "\<exists>l'. lcfgpkglist_sort sample_heap (lcfgpkglist_new\<lparr>nodes := [1, 0], list_size := 2\<rparr>) = Some l' \<and>
    sorted_wrt (\<lambda>p q. lcfgpackage_compare (deref sample_heap p) (deref sample_heap q) \<le> 0) (nodes l')"
proof -
  have "slist_ok (lcfgpkglist_new\<lparr>nodes := [1, 0], list_size := 2\<rparr>)" by (simp add: slist_ok_def)
  from pkglist_sort_spec [OF this, of sample_heap] show ?thesis by blast
qed

text \<open>Where a context expression puts a package.\<close>

definition in_context :: "LCFGContextList \<Rightarrow> string \<Rightarrow> bool" where
  "in_context c s \<longleftrightarrow> fst (lex s) = [] \<or> (\<exists>e. expression e (fst (lex s)) \<and> holds c e)"

lemma eval_in_context:
  assumes "ctxlist_sane c" and "no_nul s" and "lcfgcontext_valid_expression (Some s)"
  shows "\<exists>n. lcfgctxlist_eval_expression (Some c) s = Inr n \<and> (0 \<le> n \<longleftrightarrow> in_context c s)"
proof (cases "parse_query (fst (lex s))")
  case (Inl rest)
  then have "lcfgctxlist_eval_expression None s \<noteq> Inr v" for v
    by (simp add: lcfgctxlist_eval_expression_def)
  moreover have "s \<noteq> []" using Inl parse_query_iff [of "[]" None] by auto
  ultimately show ?thesis
    using assms(3) Inl by (auto simp: lcfgcontext_valid_expression_def lcfgctxlist_eval_expression_def split: sum.splits)
next
  case (Inr r)
  show ?thesis
  proof (cases r)
    case None
    with Inr have "fst (lex s) = []" using parse_query_iff [of "fst (lex s)" None] by simp
    with Inr None show ?thesis by (simp add: lcfgctxlist_eval_expression_def in_context_def)
  next
    case (Some e)
    then have e: "expression e' (fst (lex s)) \<longleftrightarrow> e' = e" for e'
      using Inr parse_query_iff [of "fst (lex s)" "Some e'"] by auto
    then have tree: "tree_ok e" "fst (lex s) = tree_tokens e" by (metis expression_iff)+
    have "fst (lex s) \<noteq> []" using parse_query_iff [of "fst (lex s)" None] Inr Some by auto
    moreover have "query_value c (holds c e) (eval_tree (Some c) e)"
      using eval_tree_value [OF assms(1) tree(1)] lex_no_nul [OF assms(2)] tree(2) by simp
    ultimately show ?thesis
      using Inr Some e by (auto simp: lcfgctxlist_eval_expression_def in_context_def query_value_def)
  qed
qed

text \<open>The priority of a context expression, and a package with its priority evaluated.\<close>

definition context_priority :: "LCFGContextList \<Rightarrow> string \<Rightarrow> int" where
  "context_priority c s = (case lcfgctxlist_eval_expression (Some c) s of Inl _ \<Rightarrow> 0 | Inr n \<Rightarrow> n)"

definition prioritised :: "LCFGContextList \<Rightarrow> LCFGPackage \<Rightarrow> LCFGPackage" where
  "prioritised c pkg = pkg\<lparr>pkg_priority := context_priority c (or_default (pkg_context pkg) [])\<rparr>"

lemma prioritised_simps [simp]:
  "prioritised c (prioritised c pkg) = prioritised c pkg" "pkg_context (prioritised c pkg) = pkg_context pkg"
  "pkg_ok (prioritised c pkg) \<longleftrightarrow> pkg_ok pkg"
  by (simp_all add: prioritised_def pkg_ok_def)

lemma eval_priority_package:
  assumes "pkg_ok pkg" and "ctxlist_sane c" and "no_nul (or_default (pkg_context pkg) [])"
  shows "lcfgpackage_eval_priority pkg (Some c) =
      (if prioritised c pkg = pkg then LCFG_CHANGE_NONE else LCFG_CHANGE_MODIFIED, prioritised c pkg, None)"
    and "lcfgpackage_is_active (prioritised c pkg) \<longleftrightarrow> in_context c (or_default (pkg_context pkg) [])"
proof -
  let ?s = "or_default (pkg_context pkg) []"
  have *: "(if isempty (pkg_context pkg) then Inr 0 else lcfgctxlist_eval_expression (Some c) ?s) =
      Inr (context_priority c ?s) \<and> (0 \<le> context_priority c ?s \<longleftrightarrow> in_context c ?s)"
  proof (cases "isempty (pkg_context pkg)")
    case True
    have "lcfgctxlist_eval_expression (Some c) [] = Inr 0"
      using parse_query_iff [of "[]" None] by (simp add: lcfgctxlist_eval_expression_def)
    with True show ?thesis by (simp add: or_default_empty in_context_def context_priority_def)
  next
    case False
    then obtain s where s: "pkg_context pkg = Some s" "lcfgcontext_valid_expression (Some s)"
      using assms(1) by (auto simp: pkg_ok_def attr_ok_def lcfgpackage_valid_context_def elim: not_isemptyE)
    have "?s = s" using s(1) False by (auto elim: not_isemptyE)
    with eval_in_context [OF assms(2) _ s(2)] assms(3) False show ?thesis
      by (auto simp: context_priority_def)
  qed
  then show "lcfgpackage_eval_priority pkg (Some c) =
      (if prioritised c pkg = pkg then LCFG_CHANGE_NONE else LCFG_CHANGE_MODIFIED, prioritised c pkg, None)"
    by (simp add: eval_priority_cases prioritised_def)
  from * show "lcfgpackage_is_active (prioritised c pkg) \<longleftrightarrow> in_context c ?s"
    by (simp add: lcfgpackage_is_active_def prioritised_def)
qed

text \<open>Packages whose priority can be evaluated.\<close>

definition evaluable :: "pkg_heap \<Rightarrow> nat \<Rightarrow> bool" where
  "evaluable h p \<longleftrightarrow> h p \<noteq> None \<and> pkg_ok (deref h p) \<and> no_nul (or_default (pkg_context (deref h p)) [])"

lemma eval_priority_loop_result:
  assumes "ctxlist_sane c" and "result \<noteq> LCFG_CHANGE_ERROR" and "\<forall>p\<in>set ps. evaluable h p"
    and "eval_priority_loop (Some c) ps h result msg = (change, h', msg')"
  shows "change \<in> {result, LCFG_CHANGE_MODIFIED} \<and> msg' = msg \<and>
    (result = LCFG_CHANGE_NONE \<longrightarrow> (change = LCFG_CHANGE_NONE \<longleftrightarrow> h' = h)) \<and>
    (\<forall>p. h' p = (if p \<in> set ps then Some (prioritised c (deref h p)) else h p))"
  using assms
proof (induction ps arbitrary: h result msg)
  case (Cons p ps)
  let ?pkg = "deref h p"
  define H where "H = h(p \<mapsto> prioritised c ?pkg)"
  define r where "r = (if prioritised c ?pkg = ?pkg then result else LCFG_CHANGE_MODIFIED)"
  have p: "h p = Some ?pkg" "pkg_ok ?pkg" "no_nul (or_default (pkg_context ?pkg) [])"
    using Cons.prems(3) by (auto simp: deref_def evaluable_def)
  have same: "H = h \<longleftrightarrow> prioritised c ?pkg = ?pkg" unfolding H_def using p(1) by (metis fun_upd_idem_iff option.inject)
  have d: "prioritised c (deref H q) = prioritised c (deref h q)" for q by (simp add: deref_def H_def)
  have ev: "\<forall>q\<in>set ps. evaluable H q"
  proof
    fix q assume "q \<in> set ps"
    then show "evaluable H q"
      using Cons.prems(3) by (cases "q = p") (simp_all add: evaluable_def deref_def H_def)
  qed
  have loop: "eval_priority_loop (Some c) ps H r msg = (change, h', msg')"
    using Cons.prems(2,4) eval_priority_package(1) [OF p(2) Cons.prems(1) p(3)]
    by (auto simp: LCFGChangeOK_def H_def r_def split: if_splits)
  have "r \<noteq> LCFG_CHANGE_ERROR" using Cons.prems(2) by (simp add: r_def)
  note IH = Cons.IH [OF Cons.prems(1) this ev loop]
  have heap: "h' q = (if q \<in> set ps then Some (prioritised c (deref h q)) else H q)" for q
    using IH d [of q] by metis
  have at: "h' q = (if q \<in> set (p # ps) then Some (prioritised c (deref h q)) else h q)" for q
    using heap [of q] by (cases "q = p") (simp_all add: H_def)
  have "change = LCFG_CHANGE_NONE \<longleftrightarrow> h' = h" if "result = LCFG_CHANGE_NONE"
  proof (cases "prioritised c ?pkg = ?pkg")
    case True
    then show ?thesis using IH iffD2 [OF same] that by (simp add: r_def)
  next
    case False
    then have "h' \<noteq> h" using at [of p] p(1) by auto
    with False IH show ?thesis by (simp add: r_def)
  qed
  moreover have "change \<in> {result, LCFG_CHANGE_MODIFIED}" "msg' = msg"
    using IH by (auto simp: r_def split: if_splits)
  ultimately show ?case using at by blast
qed auto

text \<open>
  C16: evaluating the priorities of a list against a sane context list never fails for packages
  that satisfy their invariant: it changes no package outside the list and of those in it
  only the priority, which is negative exactly when the package's context expression does
  not hold; the change is reported as NONE exactly when all priorities were up to date.
\<close>
theorem pkglist_eval_priority_spec:
  assumes "slist_ok l" and "\<forall>p\<in>set (nodes l). evaluable h p" and "ctxlist_sane c"
    and "lcfgpkglist_eval_priority h (Some l) (Some c) msg = (change, h', msg')"
  shows "change \<in> {LCFG_CHANGE_NONE, LCFG_CHANGE_MODIFIED} \<and> msg' = msg \<and>
    (change = LCFG_CHANGE_NONE \<longleftrightarrow> h' = h) \<and>
    (\<forall>p. p \<notin> set (nodes l) \<longrightarrow> h' p = h p) \<and>
    (\<forall>p\<in>set (nodes l). h' p = Some (prioritised c (deref h p)) \<and>
      (lcfgpackage_is_active (deref h' p) \<longleftrightarrow> in_context c (or_default (pkg_context (deref h p)) [])))"
proof -
  have "eval_priority_loop (Some c) (nodes l) h LCFG_CHANGE_NONE msg = (change, h', msg')"
    using assms(1,4) by (auto simp: lcfgpkglist_eval_priority_def slist_ok_def split: if_splits)
  from eval_priority_loop_result [OF assms(3) _ assms(2) this]
  have r: "change \<in> {LCFG_CHANGE_NONE, LCFG_CHANGE_MODIFIED}" "msg' = msg"
    "change = LCFG_CHANGE_NONE \<longleftrightarrow> h' = h"
    "\<And>p. h' p = (if p \<in> set (nodes l) then Some (prioritised c (deref h p)) else h p)" by auto
  have "lcfgpackage_is_active (deref h' p) \<longleftrightarrow> in_context c (or_default (pkg_context (deref h p)) [])"
    if "p \<in> set (nodes l)" for p
    using eval_priority_package(2) [of "deref h p" c] assms(2,3) that r(4) [of p]
    by (simp add: evaluable_def deref_def [of h'])
  with r show ?thesis by simp
qed

theorem pkglist_eval_priority_spec_witness:
  "\<exists>change h' msg'. lcfgpkglist_eval_priority
      [0 \<mapsto> sample_package\<lparr>pkg_context := Some ''!lab''\<rparr>, 1 \<mapsto> sample_package]
      (Some (lcfgpkglist_new\<lparr>nodes := [0], list_size := 1\<rparr>)) (Some lcfgctxlist_new) None = (change, h', msg') \<and>
    h' 1 = Some sample_package \<and> lcfgpackage_is_active (deref h' 0)"
proof -
  let ?p = "sample_package\<lparr>pkg_context := Some ''!lab''\<rparr>"
  let ?h = "[0 \<mapsto> ?p, 1 \<mapsto> sample_package]" and ?l = "lcfgpkglist_new\<lparr>nodes := [0], list_size := 1\<rparr>"
  have e: "expression (IsFalse ''lab'') (fst (lex ''!lab''))" by (simp add: expression_iff lex_eval)
  then have "lcfgcontext_valid_expression (Some ''!lab'')"
    using parse_query_iff [of "fst (lex ''!lab'')" "Some (IsFalse ''lab'')"]
    by (auto simp: lcfgcontext_valid_expression_def lcfgctxlist_eval_expression_def simp del: lex.simps)
  then have "pkg_ok ?p" using sample_package_facts(1)
    by (simp add: pkg_ok_def attr_ok_def lcfgpackage_valid_context_def)
  then have ev: "\<forall>p\<in>set (nodes ?l). evaluable ?h p" by (simp add: evaluable_def deref_def nul_def)
  have sane: "ctxlist_sane lcfgctxlist_new" by (simp add: ctxlist_sane_def) (simp add: lcfgctxlist_new_def)
  have "holds lcfgctxlist_new (IsFalse ''lab'')"
    by (simp add: context_true_def lcfgctxlist_find_context_def lcfgctxlist_find_node_def lcfgctxlist_new_def
        lcfgcontext_is_true_def lcfgcontext_is_false_def)
  with e have "in_context lcfgctxlist_new ''!lab''" unfolding in_context_def by blast
  obtain change h' msg' where
    m: "lcfgpkglist_eval_priority ?h (Some ?l) (Some lcfgctxlist_new) None = (change, h', msg')"
    by (metis prod.exhaust)
  have "slist_ok ?l" by (simp add: slist_ok_def)
  note r = pkglist_eval_priority_spec [OF this ev sane m]
  have "h' 1 = Some sample_package" using r by simp
  moreover have "lcfgpackage_is_active (deref h' 0) \<longleftrightarrow>
      in_context lcfgctxlist_new (or_default (pkg_context (deref ?h 0)) [])" using r by fastforce
  moreover have "or_default (pkg_context (deref ?h 0)) [] = ''!lab''" by (simp add: deref_def)
  ultimately show ?thesis using m \<open>in_context lcfgctxlist_new ''!lab''\<close> by metis
qed

end
