(* ===== verification/Lcfg_Probe.thy ===== *)
theory Lcfg_Probe
  imports Lcfg_Prelude
begin

text \<open>
  The hash tables of the libraries (package sets, derivation maps, component sets): arrays of
  buckets, a null pointer for a free one, searched from the bucket of the hash to the end
  and then from the start (open addressing with linear probing). The loops are shared by
  the three; the interface \<open>probing\<close> states what the table needs of hash and key.
\<close>

section \<open>The loops over the buckets\<close>

text \<open>\<open>for ( i = from; !done && i < to; i++ )\<close> with \<open>done\<close> set by a test of the bucket.\<close>

function slot_loop :: "('a option \<Rightarrow> bool) \<Rightarrow> 'a option list \<Rightarrow> nat \<Rightarrow> nat \<Rightarrow> nat option" where
  "slot_loop is_done xs i to =
     (if i < to then (if is_done (xs ! i) then Some i else slot_loop is_done xs (i + 1) to) else None)"
  by pat_completeness auto
termination slot_loop by (relation "measure (\<lambda>(_, _, i, to). to - i)") auto

declare slot_loop.simps [simp del]

definition find_slot :: "('a option \<Rightarrow> bool) \<Rightarrow> 'a option list \<Rightarrow> nat \<Rightarrow> nat option" where
  "find_slot is_done xs hash =
     (case slot_loop is_done xs hash (length xs) of
        Some i \<Rightarrow> Some i
      | None \<Rightarrow> slot_loop is_done xs 0 hash)"

text \<open>The lookup loops stop at a match and fail at a free bucket; the second starts as the first ended.\<close>

function entry_loop :: "('a \<Rightarrow> bool) \<Rightarrow> 'a option list \<Rightarrow> nat \<Rightarrow> nat \<Rightarrow> 'a option \<times> bool \<Rightarrow> 'a option \<times> bool" where
  "entry_loop matches xs i to (result, failed) =
     (if result = None \<and> \<not> failed \<and> i < to
      then entry_loop matches xs (i + 1) to
        (case xs ! i of
           None \<Rightarrow> (result, True)
         | Some a \<Rightarrow> if matches a then (Some a, failed) else (result, failed))
      else (result, failed))"
  by pat_completeness auto
termination entry_loop by (relation "measure (\<lambda>(_, _, i, to, _). to - i)") auto

declare entry_loop.simps [simp del]

definition find_entry :: "('a \<Rightarrow> bool) \<Rightarrow> 'a option list \<Rightarrow> nat \<Rightarrow> 'a option" where
  "find_entry matches xs hash =
     fst (entry_loop matches xs 0 hash (entry_loop matches xs hash (length xs) (None, False)))"

text \<open>
  The load factor test of the resize functions. They divide as doubles and compare with 0.7;
  for counts below 2 to the 48 this is the comparison of integers here, and \<open>entries / 0.5\<close> is
  exact.
\<close>

definition want_buckets :: "nat \<Rightarrow> nat \<Rightarrow> nat" where
  "want_buckets entries buckets = (if 7 * buckets \<le> 10 * entries then 2 * entries + 1 else buckets)"

section \<open>The order of the probes\<close>

definition probe_seq :: "nat \<Rightarrow> nat \<Rightarrow> nat list" where
  "probe_seq n hash = [hash..<n] @ [0..<hash]"

lemma set_probe_seq [simp]: "hash < n \<Longrightarrow> set (probe_seq n hash) = {..<n}"
  by (auto simp: probe_seq_def)

lemma distinct_probe_seq [simp]: "distinct (probe_seq n hash)"
  by (auto simp: probe_seq_def)

lemma slot_loop_find: "slot_loop P xs i to = find (\<lambda>j. P (xs ! j)) [i..<to]"
proof (induction "to - i" arbitrary: i)
  case 0
  then show ?case by (simp add: slot_loop.simps [of P xs i])
next
  case (Suc d)
  then have "i < to" "[i..<to] = i # [i + 1..<to]" by (simp_all add: upt_conv_Cons)
  with Suc(1) [of "i + 1"] Suc(2) show ?case by (simp add: slot_loop.simps [of P xs i])
qed

lemma find_either: "find P (xs @ ys) = (case find P xs of None \<Rightarrow> find P ys | Some x \<Rightarrow> Some x)"
  by (induction xs) auto

lemma find_slot_find: "find_slot P xs hash = find (\<lambda>j. P (xs ! j)) (probe_seq (length xs) hash)"
  by (simp add: find_slot_def slot_loop_find probe_seq_def find_either split: option.splits)

lemma entry_loop_done [simp]:
  "entry_loop matches xs i to (Some a, failed) = (Some a, failed)"
  "entry_loop matches xs i to (result, True) = (result, True)"
  by (simp_all add: entry_loop.simps)

text \<open>A lookup is the slot search, stopped at a free bucket or a match.\<close>

definition probe_ends :: "('a \<Rightarrow> bool) \<Rightarrow> 'a option \<Rightarrow> bool" where
  "probe_ends matches b \<longleftrightarrow> (case b of None \<Rightarrow> True | Some a \<Rightarrow> matches a)"

lemma entry_loop_find:
  "entry_loop matches xs i to (None, False) =
     (case find (\<lambda>j. probe_ends matches (xs ! j)) [i..<to] of
        None \<Rightarrow> (None, False) | Some j \<Rightarrow> (xs ! j, xs ! j = None))"
proof (induction "to - i" arbitrary: i)
  case 0
  then show ?case by (simp add: entry_loop.simps [of matches xs i])
next
  case (Suc d)
  then have "i < to" "[i..<to] = i # [i + 1..<to]" by (simp_all add: upt_conv_Cons)
  with Suc(1) [of "i + 1"] Suc(2) show ?case
    by (auto simp: entry_loop.simps [of matches xs i] probe_ends_def split: option.splits)
qed

lemma find_entry_slot:
  "find_entry matches xs hash =
     (case find_slot (probe_ends matches) xs hash of None \<Rightarrow> None | Some i \<Rightarrow> xs ! i)"
proof (cases "find (\<lambda>j. probe_ends matches (xs ! j)) [hash..<length xs]")
  case None
  then show ?thesis
    by (simp add: find_entry_def entry_loop_find find_slot_def slot_loop_find split: option.splits)
next
  case (Some i)
  then show ?thesis
    by (cases "xs ! i") (simp_all add: find_entry_def entry_loop_find find_slot_def slot_loop_find)
qed

lemma find_prefix:
  assumes "find P xs = Some x"
  shows "P x \<and> x \<in> set xs \<and> (\<forall>y\<in>set (takeWhile (\<lambda>z. z \<noteq> x) xs). \<not> P y)"
  using assms
proof (induction xs)
  case (Cons y ys)
  show ?case
  proof (cases "P y")
    case True
    with Cons.prems show ?thesis by simp
  next
    case False
    then have IH: "P x \<and> x \<in> set ys \<and> (\<forall>z\<in>set (takeWhile (\<lambda>z. z \<noteq> x) ys). \<not> P z)"
      using Cons by simp
    with False have "takeWhile (\<lambda>z. z \<noteq> x) (y # ys) = y # takeWhile (\<lambda>z. z \<noteq> x) ys" by auto
    with IH False show ?thesis by (simp del: takeWhile.simps)
  qed
qed simp

lemma find_first:
  assumes "x \<in> set xs" and "P x" and "\<forall>y\<in>set (takeWhile (\<lambda>z. z \<noteq> x) xs). \<not> P y"
  shows "find P xs = Some x"
  using assms
proof (induction xs)
  case (Cons y ys)
  then show ?case by (cases "y = x") auto
qed simp

section \<open>Counting the entries\<close>

definition used :: "'a option list \<Rightarrow> nat" where
  "used xs = length (filter (\<lambda>b. b \<noteq> None) xs)"

lemma used_simps [simp]: "used [] = 0" "used (b # xs) = (if b = None then 0 else 1) + used xs"
  by (auto simp: used_def)

lemma used_replicate [simp]: "used (replicate n None) = 0"
  by (induction n) auto

lemma used_update:
  "i < length xs \<Longrightarrow> used (xs[i := b]) + (if xs ! i = None then 0 else 1) = used xs + (if b = None then 0 else 1)"
proof (induction xs arbitrary: i)
  case (Cons x xs)
  then show ?case by (cases i) auto
qed simp

lemma used_le: "used xs \<le> length xs"
  by (simp add: used_def)

lemma used_free: "used xs < length xs \<Longrightarrow> None \<in> set xs"
proof (rule ccontr)
  assume "used xs < length xs" and "None \<notin> set xs"
  moreover have "filter (\<lambda>b. b \<noteq> None) xs = xs" if "None \<notin> set xs"
    using that by (intro filter_True ballI) (metis)
  ultimately show False unfolding used_def by (metis less_irrefl)
qed

text \<open>The entries in the order of their buckets.\<close>

fun entries_of :: "'a option list \<Rightarrow> 'a list" where
  "entries_of [] = []"
| "entries_of (b # bs) = (case b of None \<Rightarrow> entries_of bs | Some a \<Rightarrow> a # entries_of bs)"

lemma entries_of_facts [simp]: "set (entries_of xs) = {a. Some a \<in> set xs}" "length (entries_of xs) = used xs"
  by (induction xs) (auto split: option.splits)

lemma distinct_entries:
  "(\<And>i j a b. i < length xs \<Longrightarrow> j < length xs \<Longrightarrow> xs ! i = Some a \<Longrightarrow> xs ! j = Some b \<Longrightarrow> f a = f b \<Longrightarrow> i = j) \<Longrightarrow>
   distinct (map f (entries_of xs))"
proof (induction xs)
  case (Cons x xs)
  have "distinct (map f (entries_of xs))"
    by (rule Cons.IH) (use Cons.prems [of "Suc _" "Suc _"] in auto)
  moreover have "f a \<noteq> f b" if "x = Some a" "Some b \<in> set xs" for a b
  proof
    assume "f a = f b"
    obtain j where "j < length xs" "xs ! j = Some b" using \<open>Some b \<in> set xs\<close> by (auto simp: in_set_conv_nth)
    with Cons.prems [of 0 "Suc j" a b] \<open>f a = f b\<close> that(1) show False by simp
  qed
  ultimately show ?case by (auto split: option.splits)
qed simp

lemma find_slot_cong:
  assumes "\<And>b. b \<in> set xs \<Longrightarrow> P b \<longleftrightarrow> Q b" and "hash \<le> length xs"
  shows "find_slot P xs hash = find_slot Q xs hash"
proof -
  have "find (\<lambda>j. P (xs ! j)) (probe_seq (length xs) hash) = find (\<lambda>j. Q (xs ! j)) (probe_seq (length xs) hash)"
    by (rule find_cong) (use assms in \<open>auto simp: probe_seq_def\<close>)
  then show ?thesis by (simp add: find_slot_find)
qed

lemma find_entry_cong:
  assumes "\<And>a. Some a \<in> set xs \<Longrightarrow> P a \<longleftrightarrow> Q a" and "hash \<le> length xs"
  shows "find_entry P xs hash = find_entry Q xs hash"
proof -
  have "find_slot (probe_ends P) xs hash = find_slot (probe_ends Q) xs hash"
    by (rule find_slot_cong) (use assms in \<open>auto simp: probe_ends_def split: option.splits\<close>)
  then show ?thesis by (simp add: find_entry_slot)
qed

lemma set_update_some:
  assumes "i < length xs" and "xs ! i \<noteq> Some b"
  shows "Some b \<in> set (xs[i := Some a]) \<longleftrightarrow> b = a \<or> Some b \<in> set xs"
proof
  show "Some b \<in> set (xs[i := Some a]) \<Longrightarrow> b = a \<or> Some b \<in> set xs"
    using set_update_subset_insert [of xs i "Some a"] by auto
  assume "b = a \<or> Some b \<in> set xs"
  then show "Some b \<in> set (xs[i := Some a])"
  proof
    assume "Some b \<in> set xs"
    then obtain j where "j < length xs" "xs ! j = Some b" by (auto simp: in_set_conv_nth)
    moreover from this assms(2) have "j \<noteq> i" by auto
    ultimately have "j < length (xs[i := Some a])" "xs[i := Some a] ! j = Some b" by auto
    then show ?thesis using nth_mem by metis
  qed (use assms(1) in \<open>simp add: set_update_memI\<close>)
qed

section \<open>The table\<close>

text \<open>
  What a table is given: the bucket where the search for a key starts, which lies in the
  array, and the key of an entry.
\<close>

locale probing =
  fixes home :: "'k \<Rightarrow> nat \<Rightarrow> nat" and key :: "'a \<Rightarrow> 'k"
  assumes home_less: "0 < n \<Longrightarrow> home k n < n"
begin

definition stop_at :: "'k \<Rightarrow> 'a option \<Rightarrow> bool" where
  "stop_at k = probe_ends (\<lambda>a. key a = k)"

text \<open>
  Every key is in one bucket at most, and between the home of a key and its bucket no bucket
  is free.
\<close>

definition table_ok :: "'a option list \<Rightarrow> bool" where
  "table_ok xs \<longleftrightarrow> xs \<noteq> [] \<and>
     (\<forall>i j a b. i < length xs \<longrightarrow> j < length xs \<longrightarrow> xs ! i = Some a \<longrightarrow> xs ! j = Some b \<longrightarrow> key a = key b \<longrightarrow> i = j) \<and>
     (\<forall>j a. j < length xs \<longrightarrow> xs ! j = Some a \<longrightarrow>
        (\<forall>i\<in>set (takeWhile (\<lambda>i. i \<noteq> j) (probe_seq (length xs) (home (key a) (length xs)))). xs ! i \<noteq> None))"

definition slot_of :: "'a option list \<Rightarrow> 'k \<Rightarrow> nat option" where
  "slot_of xs k = find_slot (stop_at k) xs (home k (length xs))"

definition lookup :: "'a option list \<Rightarrow> 'k \<Rightarrow> 'a option" where
  "lookup xs k = find_entry (\<lambda>a. key a = k) xs (home k (length xs))"

lemma lookup_slot: "lookup xs k = (case slot_of xs k of None \<Rightarrow> None | Some i \<Rightarrow> xs ! i)"
  by (simp add: lookup_def slot_of_def find_entry_slot stop_at_def)

lemma slot_of_SomeD:
  assumes "slot_of xs k = Some i" and "xs \<noteq> []"
  shows "i < length xs" and "xs ! i = None \<or> (\<exists>a. xs ! i = Some a \<and> key a = k)"
    and "\<And>j. j \<in> set (takeWhile (\<lambda>j. j \<noteq> i) (probe_seq (length xs) (home k (length xs)))) \<Longrightarrow>
      xs ! j \<noteq> None \<and> (\<forall>a. xs ! j = Some a \<longrightarrow> key a \<noteq> k)"
proof -
  note f = find_prefix [OF assms(1) [unfolded slot_of_def find_slot_find]]
  have "home k (length xs) < length xs" using assms(2) by (simp add: home_less)
  with f show "i < length xs" by auto
  from f show "xs ! i = None \<or> (\<exists>a. xs ! i = Some a \<and> key a = k)"
    by (auto simp: stop_at_def probe_ends_def split: option.splits)
  fix j assume "j \<in> set (takeWhile (\<lambda>j. j \<noteq> i) (probe_seq (length xs) (home k (length xs))))"
  with f show "xs ! j \<noteq> None \<and> (\<forall>a. xs ! j = Some a \<longrightarrow> key a \<noteq> k)"
    by (auto simp: stop_at_def probe_ends_def split: option.splits)
qed

lemma slot_of_key:
  assumes "table_ok xs" and "i < length xs" and "xs ! i = Some a"
  shows "slot_of xs (key a) = Some i"
proof -
  let ?seq = "probe_seq (length xs) (home (key a) (length xs))"
  have "home (key a) (length xs) < length xs" using assms(2) by (intro home_less) (cases xs, auto)
  then have "i \<in> set ?seq" using assms(2) by simp
  moreover have "\<not> stop_at (key a) (xs ! j)" if "j \<in> set (takeWhile (\<lambda>j. j \<noteq> i) ?seq)" for j
  proof -
    have "xs ! j \<noteq> None" using assms that unfolding table_ok_def by blast
    moreover have "j \<noteq> i" "j \<in> set ?seq" using set_takeWhileD [OF that] by simp_all
    then have "j < length xs" using \<open>home (key a) (length xs) < length xs\<close> by simp
    ultimately show ?thesis
      using assms \<open>j \<noteq> i\<close> unfolding table_ok_def stop_at_def probe_ends_def
      by (fastforce split: option.splits)
  qed
  moreover have "stop_at (key a) (xs ! i)" using assms(3) by (simp add: stop_at_def probe_ends_def)
  ultimately show ?thesis
    unfolding slot_of_def find_slot_find by (intro find_first) blast+
qed

lemma lookup_iff:
  assumes "table_ok xs"
  shows "lookup xs k = Some a \<longleftrightarrow> Some a \<in> set xs \<and> key a = k"
proof
  assume "lookup xs k = Some a"
  then obtain i where i: "slot_of xs k = Some i" "xs ! i = Some a"
    by (auto simp: lookup_slot split: option.splits)
  have "xs \<noteq> []" using assms by (simp add: table_ok_def)
  from slot_of_SomeD(1,2) [OF i(1) this] i(2) show "Some a \<in> set xs \<and> key a = k"
    by (auto simp: in_set_conv_nth)
next
  assume "Some a \<in> set xs \<and> key a = k"
  then obtain i where "i < length xs" "xs ! i = Some a" "key a = k" by (auto simp: in_set_conv_nth)
  with slot_of_key [OF assms] show "lookup xs k = Some a" by (auto simp: lookup_slot)
qed

lemma table_empty: "0 < n \<Longrightarrow> table_ok (replicate n None)"
  by (simp add: table_ok_def)

lemma table_distinct: "table_ok xs \<Longrightarrow> distinct (map key (entries_of xs))"
  by (rule distinct_entries) (auto simp: table_ok_def)

text \<open>Only the keys of the entries matter.\<close>

lemma table_ok_cong:
  assumes "\<And>a. Some a \<in> set xs \<Longrightarrow> key' a = key a" and "table_ok xs"
  shows "probing.table_ok home key' xs"
proof -
  have key: "key' a = key a" if "i < length xs" "xs ! i = Some a" for i a
    using assms(1) [of a] nth_mem [OF that(1)] that(2) by simp
  show ?thesis
    using assms(2) unfolding table_ok_def probing.table_ok_def [OF probing_axioms] by (auto simp: key)
qed

text \<open>A key that is not there has a free slot, as long as any bucket is free.\<close>

lemma slot_of_free:
  assumes "table_ok xs" and "lookup xs k = None" and "None \<in> set xs"
  shows "\<exists>i. slot_of xs k = Some i \<and> i < length xs \<and> xs ! i = None"
proof -
  have ne: "xs \<noteq> []" using assms(1) by (simp add: table_ok_def)
  obtain j where j: "j < length xs" "xs ! j = None" using assms(3) by (auto simp: in_set_conv_nth)
  have "home k (length xs) < length xs" using ne by (simp add: home_less)
  then have "j \<in> set (probe_seq (length xs) (home k (length xs)))" using j(1) by simp
  then have "slot_of xs k \<noteq> None"
    using j(2) by (auto simp: slot_of_def find_slot_find find_None_iff stop_at_def probe_ends_def)
  then obtain i where i: "slot_of xs k = Some i" by blast
  with assms(2) slot_of_SomeD(1) [OF i ne] show ?thesis by (auto simp: lookup_slot)
qed

lemma table_insert:
  assumes "table_ok xs" and "slot_of xs (key a) = Some i" and "xs ! i = None"
  shows "table_ok (xs[i := Some a])" and "Some b \<in> set (xs[i := Some a]) \<longleftrightarrow> b = a \<or> Some b \<in> set xs"
    and "lookup xs (key a) = None"
proof -
  have ne: "xs \<noteq> []" using assms(1) by (simp add: table_ok_def)
  note s = slot_of_SomeD [OF assms(2) ne]
  show none: "lookup xs (key a) = None" using assms(2,3) by (simp add: lookup_slot)
  have absent: "key b \<noteq> key a" if "j < length xs" "xs ! j = Some b" for j b
    using lookup_iff [OF assms(1), of "key a" b] none that nth_mem [OF that(1)] by auto
  have "xs[i := Some a] ! k \<noteq> None"
    if "j < length xs" "xs[i := Some a] ! j = Some b"
      "k \<in> set (takeWhile (\<lambda>k. k \<noteq> j) (probe_seq (length xs) (home (key b) (length xs))))" for j b k
  proof (cases "j = i")
    case True
    then have "b = a" using that s(1) by simp
    with True s(3) [of k] that show ?thesis by (cases "k = i") (auto simp: s(1))
  next
    case False
    then have "xs ! k \<noteq> None" using assms(1) that by (auto simp: table_ok_def)
    then show ?thesis by (cases "k = i") (auto simp: s(1))
  qed
  moreover have "j = k"
    if "j < length xs" "k < length xs" "xs[i := Some a] ! j = Some b" "xs[i := Some a] ! k = Some c" "key b = key c"
    for j k b c
    using that absent assms(1) s(1) unfolding table_ok_def
    by (cases "j = i"; cases "k = i") (auto simp: nth_list_update)
  ultimately show "table_ok (xs[i := Some a])" using ne by (auto simp: table_ok_def)
  show "Some b \<in> set (xs[i := Some a]) \<longleftrightarrow> b = a \<or> Some b \<in> set xs"
    by (rule set_update_some [OF s(1)]) (simp add: assms(3))
qed

lemma table_replace:
  assumes "table_ok xs" and "i < length xs" and "xs ! i = Some a" and "key b = key a"
  shows "table_ok (xs[i := Some b])"
    and "Some c \<in> set (xs[i := Some b]) \<longleftrightarrow> c = b \<or> Some c \<in> set xs \<and> key c \<noteq> key a"
proof -
  let ?ys = "xs[i := Some b]"
  have keys: "map_option key (?ys ! j) = map_option key (xs ! j)" "?ys ! j = None \<longleftrightarrow> xs ! j = None" for j
    using assms(2-4) by (auto simp: nth_list_update)
  have "j = k" if "j < length xs" "k < length xs" "?ys ! j = Some c" "?ys ! k = Some d" "key c = key d" for j k c d
  proof -
    note at = that
    obtain c' where "xs ! j = Some c'" "key c' = key c" using keys(1) [of j] at(3) by (cases "xs ! j") auto
    moreover obtain d' where "xs ! k = Some d'" "key d' = key d"
      using keys(1) [of k] at(4) by (cases "xs ! k") auto
    ultimately show ?thesis using assms(1) at unfolding table_ok_def by metis
  qed
  moreover have "?ys ! k \<noteq> None"
    if "j < length xs" "?ys ! j = Some c"
      "k \<in> set (takeWhile (\<lambda>k. k \<noteq> j) (probe_seq (length xs) (home (key c) (length xs))))" for j c k
  proof -
    note at = that
    obtain c' where "xs ! j = Some c'" "key c' = key c" using keys(1) [of j] at(2) by (cases "xs ! j") auto
    with assms(1) at keys(2) [of k] show ?thesis unfolding table_ok_def by metis
  qed
  ultimately show "table_ok ?ys" using assms(1) unfolding table_ok_def by simp
  have one: "Some c \<in> set xs \<and> key c = key a \<longleftrightarrow> c = a" for c
    using assms(1-3) nth_mem [OF assms(2)] unfolding table_ok_def by (metis in_set_conv_nth option.inject)
  show "Some c \<in> set ?ys \<longleftrightarrow> c = b \<or> Some c \<in> set xs \<and> key c \<noteq> key a"
  proof (cases "c = a")
    case True
    have "Some a \<in> set ?ys \<Longrightarrow> a = b"
    proof -
      assume "Some a \<in> set ?ys"
      then obtain j where "j < length xs" "?ys ! j = Some a" by (auto simp: in_set_conv_nth)
      with assms(1-3) show "a = b" unfolding table_ok_def by (metis nth_list_update_eq nth_list_update_neq option.inject)
    qed
    with True assms(2) show ?thesis by (auto simp: set_update_memI)
  next
    case False
    with set_update_some [OF assms(2), of c b] assms(3) one [of c] show ?thesis by auto
  qed
qed

text \<open>Storing an entry at its slot, and filling a fresh table with the entries of another.\<close>

definition store :: "'a \<Rightarrow> 'a option list \<Rightarrow> 'a option list" where
  "store a xs = (case slot_of xs (key a) of None \<Rightarrow> xs | Some i \<Rightarrow> xs[i := Some a])"

lemma store_new:
  assumes "table_ok xs" and "\<forall>b. Some b \<in> set xs \<longrightarrow> key b \<noteq> key a" and "used xs < length xs"
  shows "table_ok (store a xs)" and "Some b \<in> set (store a xs) \<longleftrightarrow> b = a \<or> Some b \<in> set xs"
    and "used (store a xs) = used xs + 1" and "length (store a xs) = length xs"
proof -
  have "lookup xs (key a) = None"
    using lookup_iff [OF assms(1), of "key a"] assms(2) by (cases "lookup xs (key a)") auto
  then obtain i where i: "slot_of xs (key a) = Some i" "i < length xs" "xs ! i = None"
    using slot_of_free [OF assms(1) _ used_free [OF assms(3)]] by blast
  note t = table_insert [OF assms(1) i(1,3)]
  from t i used_update [OF i(2), of "Some a"]
  show "table_ok (store a xs)" "Some b \<in> set (store a xs) \<longleftrightarrow> b = a \<or> Some b \<in> set xs"
    "used (store a xs) = used xs + 1" "length (store a xs) = length xs"
    by (simp_all add: store_def)
qed

lemma fold_store:
  assumes "table_ok xs" and "distinct (map key as)" and "used xs + length as < length xs"
    and "\<forall>a\<in>set as. \<forall>b. Some b \<in> set xs \<longrightarrow> key b \<noteq> key a"
  shows "table_ok (fold store as xs) \<and> used (fold store as xs) = used xs + length as \<and>
    length (fold store as xs) = length xs \<and>
    (\<forall>b. Some b \<in> set (fold store as xs) \<longleftrightarrow> b \<in> set as \<or> Some b \<in> set xs)"
  using assms
proof (induction as arbitrary: xs)
  case (Cons a as)
  have s: "used xs < length xs" "\<forall>b. Some b \<in> set xs \<longrightarrow> key b \<noteq> key a" using Cons.prems(3,4) by auto
  note st = store_new [OF Cons.prems(1) s(2,1)]
  have "\<forall>c\<in>set as. \<forall>b. Some b \<in> set (store a xs) \<longrightarrow> key b \<noteq> key c"
    using Cons.prems(2,4) st(2) by force
  from Cons.IH [OF st(1) _ _ this] Cons.prems(2,3) st show ?case by auto
qed simp

end

end
