(* ===== verification/Lcfg_Package_Set.thy ===== *)
theory Lcfg_Package_Set
  imports Lcfg_Probe Lcfg_Package_List
begin

text \<open>
  Package sets (\<open>packages/set.c\<close>, \<open>packages/setiter.c\<close>, \<open>packages/iterator.c\<close>): a hash table
  of package lists, one list for each name, with the table of \<open>Lcfg_Probe\<close>. Lists belong to
  the set, so they are values in its buckets; packages stay in the heap of
  \<open>Lcfg_Package_List\<close>.
\<close>

section \<open>The set\<close>

text \<open>
  A bucket without a list is a null pointer, the null array that exists until the first
  resize the empty list; otherwise the array has as many elements as the set has buckets.
\<close>

record LCFGPackageSet =
  pks_packages :: "LCFGPackageList option list"
  pks_primary_key :: bits
  pks_merge_rules :: bits
  pks_buckets :: nat
  pks_entries :: nat
  pks_refcount :: nat

definition LCFG_PKGSET_DEFAULT_SIZE :: nat where "LCFG_PKGSET_DEFAULT_SIZE = 113"

text \<open>
  Resizing a set can end the process. The functions for merging and for resizing call each
  other; the model bounds the depth of nested resizes, and \<open>Depth_Bound\<close> is where the bound
  would be passed.
\<close>

datatype set_stop = Exit_Failure string | Depth_Bound

type_synonym 'a run = "set_stop + 'a"

definition lcfgpkgset_hash_string :: "LCFGPackageSet \<Rightarrow> string \<Rightarrow> nat" where
  "lcfgpkgset_hash_string pkgset str = unat (lcfgutils_string_djbhash str []) mod pks_buckets pkgset"

definition lcfgpkgset_acquire :: "LCFGPackageSet \<Rightarrow> LCFGPackageSet" where
  "lcfgpkgset_acquire pkgset = pkgset\<lparr>pks_refcount := pks_refcount pkgset + 1\<rparr>"

definition lcfgpkgset_destroy :: "pkg_heap \<Rightarrow> LCFGPackageSet \<Rightarrow> pkg_heap" where
  "lcfgpkgset_destroy h pkgset = fold (\<lambda>b h. fst (lcfgpkglist_relinquish h b)) (pks_packages pkgset) h"

definition lcfgpkgset_relinquish :: "pkg_heap \<Rightarrow> LCFGPackageSet option \<Rightarrow> pkg_heap \<times> LCFGPackageSet option" where
  "lcfgpkgset_relinquish h pkgset =
     (case pkgset of
        None \<Rightarrow> (h, None)
      | Some s \<Rightarrow>
          let s' = (if 0 < pks_refcount s then s\<lparr>pks_refcount := pks_refcount s - 1\<rparr> else s)
          in if pks_refcount s' = 0 then (lcfgpkgset_destroy h s', None) else (h, Some s'))"

definition bucket_size :: "LCFGPackageList option \<Rightarrow> nat" where
  "bucket_size b = (case b of None \<Rightarrow> 0 | Some l \<Rightarrow> list_size l)"

definition lcfgpkgset_size :: "LCFGPackageSet \<Rightarrow> nat" where
  "lcfgpkgset_size pkgset =
     (if pks_entries pkgset = 0 then 0 else sum_list (map bucket_size (pks_packages pkgset)))"

definition lcfgpkgset_is_empty :: "LCFGPackageSet option \<Rightarrow> bool" where
  "lcfgpkgset_is_empty pkgset \<longleftrightarrow> (case pkgset of None \<Rightarrow> True | Some s \<Rightarrow> lcfgpkgset_size s = 0)"

text \<open>The rules of each list in turn; the loop probe_ends when a list refuses them.\<close>

fun set_rules_loop :: "bits \<Rightarrow> LCFGPackageList option list \<Rightarrow> bool \<times> LCFGPackageList option list" where
  "set_rules_loop new_rules [] = (True, [])"
| "set_rules_loop new_rules (b # bs) =
     (case b of
        None \<Rightarrow> map_prod id ((#) None) (set_rules_loop new_rules bs)
      | Some l \<Rightarrow>
          (case lcfgpkglist_set_merge_rules l new_rules of (ok, l') \<Rightarrow>
             if ok then map_prod id ((#) (Some l')) (set_rules_loop new_rules bs) else (False, Some l' # bs)))"

definition lcfgpkgset_set_merge_rules :: "LCFGPackageSet \<Rightarrow> bits \<Rightarrow> bool \<times> LCFGPackageSet" where
  "lcfgpkgset_set_merge_rules pkgset new_rules =
     (case set_rules_loop new_rules (pks_packages pkgset) of (ok, packages) \<Rightarrow>
        (ok, pkgset\<lparr>pks_merge_rules := new_rules, pks_packages := packages\<rparr>))"

definition lcfgpkgset_get_merge_rules :: "LCFGPackageSet \<Rightarrow> bits" where
  "lcfgpkgset_get_merge_rules pkgset = pks_merge_rules pkgset"

section \<open>Merging and resizing\<close>

definition head_matches :: "pkg_heap \<Rightarrow> string \<Rightarrow> LCFGPackageList \<Rightarrow> bool" where
  "head_matches h name l \<longleftrightarrow>
     (case lcfgpkglist_first_package (Some l) of
        None \<Rightarrow> False
      | Some p \<Rightarrow> lcfgpackage_match (deref h p) name (Some LCFG_PKG_WILDCARD))"

definition slot_done :: "pkg_heap \<Rightarrow> string \<Rightarrow> LCFGPackageList option \<Rightarrow> bool" where
  "slot_done h name b \<longleftrightarrow>
     (case b of None \<Rightarrow> True | Some l \<Rightarrow> \<not> lcfgslist_is_empty l \<and> head_matches h name l)"

definition pkgset_new_list :: "LCFGPackageSet \<Rightarrow> LCFGPackageList" where
  "pkgset_new_list pkgset =
     lcfgpkglist_new\<lparr>pkl_merge_rules := pks_merge_rules pkgset, pkl_primary_key := pks_primary_key pkgset\<rparr>"

text \<open>\<open>lcfgpkgset_merge_package\<close>, with the function that resizes as an argument.\<close>

definition pkgset_merge_package ::
    "(pkg_heap \<Rightarrow> LCFGPackageSet \<Rightarrow> (pkg_heap \<times> LCFGPackageSet) run) \<Rightarrow>
     pkg_heap \<Rightarrow> LCFGPackageSet \<Rightarrow> nat \<Rightarrow> cstr \<Rightarrow> (LCFGChange \<times> pkg_heap \<times> LCFGPackageSet \<times> cstr) run" where
  "pkgset_merge_package resize h pkgset new msg =
     (if \<not> lcfgpackage_is_valid (h new) then Inr (LCFG_CHANGE_ERROR, h, pkgset, msg)
      else let new_name = or_default (pkg_name (deref h new)) [];
               hash = lcfgpkgset_hash_string pkgset new_name;
               packages = pks_packages pkgset
           in case find_slot (slot_done h new_name) packages hash of
        None \<Rightarrow> Inr (LCFG_CHANGE_ERROR, h, pkgset, Some ''No free space for new entries in package set'')
      | Some slot \<Rightarrow>
          (case packages ! slot of
             None \<Rightarrow>
               (case lcfgpkglist_merge_package h (pkgset_new_list pkgset) new msg of (change, h', pkglist, msg') \<Rightarrow>
                  if LCFGChangeOK change \<and> change \<noteq> LCFG_CHANGE_NONE
                  then (case resize h' (pkgset\<lparr>pks_packages := packages[slot := Some pkglist],
                                               pks_entries := pks_entries pkgset + 1\<rparr>) of
                     Inl stop \<Rightarrow> Inl stop
                   | Inr (h'', pkgset'') \<Rightarrow> Inr (change, h'', pkgset'', msg'))
                  else Inr (change, fst (lcfgpkglist_relinquish h' (Some pkglist)), pkgset, msg'))
           | Some l \<Rightarrow>
               (case lcfgpkglist_merge_package h l new msg of (change, h', pkglist, msg') \<Rightarrow>
                  if lcfgslist_is_empty pkglist
                  then Inr (change, fst (lcfgpkglist_relinquish h' (Some pkglist)),
                            pkgset\<lparr>pks_packages := packages[slot := None],
                                   pks_entries := pks_entries pkgset - 1\<rparr>, msg')
                  else Inr (change, h', pkgset\<lparr>pks_packages := packages[slot := Some pkglist]\<rparr>, msg'))))"

fun pkgset_merge_loop ::
    "(pkg_heap \<Rightarrow> LCFGPackageSet \<Rightarrow> nat \<Rightarrow> cstr \<Rightarrow> (LCFGChange \<times> pkg_heap \<times> LCFGPackageSet \<times> cstr) run) \<Rightarrow>
     pkg_heap \<Rightarrow> LCFGPackageSet \<Rightarrow> nat list \<Rightarrow> LCFGChange \<Rightarrow> cstr \<Rightarrow>
     (LCFGChange \<times> pkg_heap \<times> LCFGPackageSet \<times> cstr) run" where
  "pkgset_merge_loop merge h pkgset [] change msg = Inr (change, h, pkgset, msg)"
| "pkgset_merge_loop merge h pkgset (p # ps) change msg =
     (if change = LCFG_CHANGE_ERROR then Inr (change, h, pkgset, msg)
      else if \<not> lcfgpackage_is_valid (h p) then pkgset_merge_loop merge h pkgset ps change msg
      else case merge h pkgset p None of
        Inl stop \<Rightarrow> Inl stop
      | Inr (merge_rc, h', pkgset', merge_msg) \<Rightarrow>
          if merge_rc = LCFG_CHANGE_ERROR
          then (case message_at (Some p) (''Failed to merge package: '' @ or_default merge_msg ''(null)'') h' of
            (s, h'') \<Rightarrow> pkgset_merge_loop merge h'' pkgset' ps LCFG_CHANGE_ERROR (Some s))
          else pkgset_merge_loop merge h' pkgset' ps
            (if merge_rc \<noteq> LCFG_CHANGE_NONE then LCFG_CHANGE_MODIFIED else change) msg)"

definition pkgset_merge_list ::
    "(pkg_heap \<Rightarrow> LCFGPackageSet \<Rightarrow> nat \<Rightarrow> cstr \<Rightarrow> (LCFGChange \<times> pkg_heap \<times> LCFGPackageSet \<times> cstr) run) \<Rightarrow>
     pkg_heap \<Rightarrow> LCFGPackageSet \<Rightarrow> LCFGPackageList option \<Rightarrow> cstr \<Rightarrow>
     (LCFGChange \<times> pkg_heap \<times> LCFGPackageSet \<times> cstr) run" where
  "pkgset_merge_list merge h pkgset pkglist msg =
     (case pkglist of
        None \<Rightarrow> Inr (LCFG_CHANGE_NONE, h, pkgset, msg)
      | Some l \<Rightarrow>
          if lcfgslist_is_empty l then Inr (LCFG_CHANGE_NONE, h, pkgset, msg)
          else pkgset_merge_loop merge h pkgset (nodes l) LCFG_CHANGE_NONE msg)"

text \<open>The loop of a resize over the buckets of the old array.\<close>

fun rehash_loop ::
    "(pkg_heap \<Rightarrow> LCFGPackageSet \<Rightarrow> LCFGPackageList option \<Rightarrow> cstr \<Rightarrow>
       (LCFGChange \<times> pkg_heap \<times> LCFGPackageSet \<times> cstr) run) \<Rightarrow>
     LCFGPackageList option list \<Rightarrow> pkg_heap \<Rightarrow> LCFGPackageSet \<Rightarrow> (pkg_heap \<times> LCFGPackageSet) run" where
  "rehash_loop merge_list [] h pkgset = Inr (h, pkgset)"
| "rehash_loop merge_list (b # bs) h pkgset =
     (if b = None \<or> lcfgslist_is_empty (the b)
      then rehash_loop merge_list bs (fst (lcfgpkglist_relinquish h b)) pkgset
      else case merge_list h pkgset b None of
        Inl stop \<Rightarrow> Inl stop
      | Inr (merge_rc, h', pkgset', merge_msg) \<Rightarrow>
          if merge_rc = LCFG_CHANGE_ERROR
          then Inl (Exit_Failure (''Failed to resize package set: '' @ or_default merge_msg ''(null)'' @ [CHR 0x0A]))
          else rehash_loop merge_list bs (fst (lcfgpkglist_relinquish h' b)) pkgset')"

fun pkgset_resize :: "nat \<Rightarrow> pkg_heap \<Rightarrow> LCFGPackageSet \<Rightarrow> (pkg_heap \<times> LCFGPackageSet) run" where
  "pkgset_resize 0 h pkgset = Inl Depth_Bound"
| "pkgset_resize (Suc depth) h pkgset =
     (let want = want_buckets (pks_entries pkgset) (pks_buckets pkgset);
          cur_set = pks_packages pkgset
      in if cur_set \<noteq> [] \<and> want \<le> pks_buckets pkgset then Inr (h, pkgset)
         else rehash_loop (pkgset_merge_list (pkgset_merge_package (pkgset_resize depth))) cur_set h
           (pkgset\<lparr>pks_packages := replicate want None, pks_entries := 0, pks_buckets := want\<rparr>))"

text \<open>
  While a set is filled again its load stays below a half, so no resize within a resize has
  anything to do and a depth of 2 is enough (lemma \<open>resize_depth\<close>).
\<close>

definition lcfgpkgset_resize :: "pkg_heap \<Rightarrow> LCFGPackageSet \<Rightarrow> (pkg_heap \<times> LCFGPackageSet) run" where
  "lcfgpkgset_resize = pkgset_resize 2"

definition lcfgpkgset_new :: "LCFGPackageSet run" where
  "lcfgpkgset_new =
     map_sum id snd (lcfgpkgset_resize Map.empty
         \<lparr>pks_packages = [], pks_primary_key = LCFG_PKGLIST_PK_NAME OR LCFG_PKGLIST_PK_ARCH,
          pks_merge_rules = LCFG_MERGE_RULE_NONE, pks_buckets = LCFG_PKGSET_DEFAULT_SIZE,
          pks_entries = 0, pks_refcount = 1\<rparr>)"

definition lcfgpkgset_merge_package ::
    "pkg_heap \<Rightarrow> LCFGPackageSet \<Rightarrow> nat \<Rightarrow> cstr \<Rightarrow> (LCFGChange \<times> pkg_heap \<times> LCFGPackageSet \<times> cstr) run" where
  "lcfgpkgset_merge_package = pkgset_merge_package lcfgpkgset_resize"

definition lcfgpkgset_merge_list ::
    "pkg_heap \<Rightarrow> LCFGPackageSet \<Rightarrow> LCFGPackageList option \<Rightarrow> cstr \<Rightarrow>
     (LCFGChange \<times> pkg_heap \<times> LCFGPackageSet \<times> cstr) run" where
  "lcfgpkgset_merge_list = pkgset_merge_list lcfgpkgset_merge_package"

fun merge_set_loop ::
    "pkg_heap \<Rightarrow> LCFGPackageSet \<Rightarrow> LCFGPackageList option list \<Rightarrow> LCFGChange \<Rightarrow> cstr \<Rightarrow>
     (LCFGChange \<times> pkg_heap \<times> LCFGPackageSet \<times> cstr) run" where
  "merge_set_loop h pkgset1 [] change msg = Inr (change, h, pkgset1, msg)"
| "merge_set_loop h pkgset1 (b # bs) change msg =
     (if change = LCFG_CHANGE_ERROR then Inr (change, h, pkgset1, msg)
      else case b of
        None \<Rightarrow> merge_set_loop h pkgset1 bs change msg
      | Some l \<Rightarrow>
          (case lcfgpkgset_merge_list h pkgset1 (Some l) msg of
             Inl stop \<Rightarrow> Inl stop
           | Inr (merge_rc, h', pkgset', msg') \<Rightarrow>
               merge_set_loop h' pkgset' bs
                 (if LCFGChangeOK merge_rc \<and> merge_rc \<noteq> LCFG_CHANGE_NONE then LCFG_CHANGE_MODIFIED else change) msg'))"

definition lcfgpkgset_merge_set ::
    "pkg_heap \<Rightarrow> LCFGPackageSet \<Rightarrow> LCFGPackageSet option \<Rightarrow> cstr \<Rightarrow>
     (LCFGChange \<times> pkg_heap \<times> LCFGPackageSet \<times> cstr) run" where
  "lcfgpkgset_merge_set h pkgset1 pkgset2 msg =
     (if lcfgpkgset_is_empty pkgset2 then Inr (LCFG_CHANGE_NONE, h, pkgset1, msg)
      else merge_set_loop h pkgset1 (pks_packages (the pkgset2)) LCFG_CHANGE_NONE msg)"

section \<open>Finding\<close>

definition lcfgpkgset_find_list :: "pkg_heap \<Rightarrow> LCFGPackageSet option \<Rightarrow> string \<Rightarrow> LCFGPackageList option" where
  "lcfgpkgset_find_list h pkgset want_name =
     (if lcfgpkgset_is_empty pkgset then None
      else find_entry (head_matches h want_name) (pks_packages (the pkgset))
        (unat (lcfgutils_string_djbhash want_name []) mod pks_buckets (the pkgset)))"

definition lcfgpkgset_find_package :: "pkg_heap \<Rightarrow> LCFGPackageSet option \<Rightarrow> string \<Rightarrow> cstr \<Rightarrow> nat option" where
  "lcfgpkgset_find_package h pkgset want_name want_arch =
     (case lcfgpkgset_find_list h pkgset want_name of
        None \<Rightarrow> None
      | Some l \<Rightarrow> if lcfgslist_is_empty l then None else lcfgpkglist_find_package h (Some l) want_name want_arch)"

definition lcfgpkgset_has_package :: "pkg_heap \<Rightarrow> LCFGPackageSet option \<Rightarrow> string \<Rightarrow> cstr \<Rightarrow> bool" where
  "lcfgpkgset_has_package h pkgset want_name want_arch \<longleftrightarrow>
     lcfgpkgset_find_package h pkgset want_name want_arch \<noteq> None"

section \<open>The other operations\<close>

text \<open>
  The entries to print: of each list whose first package is valid, which is sorted in place,
  that package's name and the bucket, in the order \<open>qsort\<close> of the C library, a parameter,
  gives for the case-insensitive comparison of names.
\<close>

definition lcfgpkgset_entry_cmp :: "string \<times> nat \<Rightarrow> string \<times> nat \<Rightarrow> int" where
  "lcfgpkgset_entry_cmp a b = strcasecmp (fst a) (fst b)"

fun sorted_entries_loop ::
    "pkg_heap \<Rightarrow> LCFGPackageList option list \<Rightarrow> nat \<Rightarrow> (LCFGPackageList option list \<times> (string \<times> nat) list) option"
where
  "sorted_entries_loop h [] i = Some ([], [])"
| "sorted_entries_loop h (b # bs) i =
     (case b of
        None \<Rightarrow> map_option (map_prod ((#) None) id) (sorted_entries_loop h bs (i + 1))
      | Some l \<Rightarrow>
          (case lcfgpkglist_first_package (Some l) of
             None \<Rightarrow> map_option (map_prod ((#) (Some l)) id) (sorted_entries_loop h bs (i + 1))
           | Some p \<Rightarrow>
               if lcfgpackage_is_valid (h p)
               then (case lcfgpkglist_sort h l of
                  None \<Rightarrow> None
                | Some l' \<Rightarrow> map_option (map_prod ((#) (Some l')) ((#) (or_default (pkg_name (deref h p)) [], i)))
                    (sorted_entries_loop h bs (i + 1)))
               else map_option (map_prod ((#) (Some l)) id) (sorted_entries_loop h bs (i + 1))))"

definition lcfgpkgset_sorted_entries ::
    "((string \<times> nat \<Rightarrow> string \<times> nat \<Rightarrow> int) \<Rightarrow> (string \<times> nat) list \<Rightarrow> (string \<times> nat) list) \<Rightarrow>
     pkg_heap \<Rightarrow> LCFGPackageSet \<Rightarrow> (LCFGPackageSet \<times> (string \<times> nat) list) option" where
  "lcfgpkgset_sorted_entries qsort h pkgset =
     (case sorted_entries_loop h (pks_packages pkgset) 0 of
        None \<Rightarrow> None
      | Some (packages, entries) \<Rightarrow>
          Some (pkgset\<lparr>pks_packages := packages\<rparr>,
                if entries = [] then [] else qsort lcfgpkgset_entry_cmp entries))"

fun set_match_loop ::
    "(string \<Rightarrow> string \<Rightarrow> bool) \<Rightarrow> cstr \<Rightarrow> cstr \<Rightarrow> cstr \<Rightarrow> cstr \<Rightarrow> LCFGPackageList option list \<Rightarrow>
     pkg_heap \<Rightarrow> LCFGPackageSet \<Rightarrow> (bool \<times> pkg_heap \<times> LCFGPackageSet) run" where
  "set_match_loop fnmatch name arch ver rel [] h result = Inr (True, h, result)"
| "set_match_loop fnmatch name arch ver rel (b # bs) h result =
     (case b of
        None \<Rightarrow> set_match_loop fnmatch name arch ver rel bs h result
      | Some l \<Rightarrow>
          (case lcfgpkglist_first_package (Some l) of
             None \<Rightarrow> set_match_loop fnmatch name arch ver rel bs h result
           | Some p \<Rightarrow>
               if lcfgpackage_is_valid (h p) \<and>
                  (isempty name \<or> fnmatch (or_default name []) (or_default (pkg_name (deref h p)) []))
               then (case lcfgpkglist_match fnmatch h l name arch ver rel of (h1, matches) \<Rightarrow>
                 (case lcfgpkgset_merge_list h1 result matches None of
                    Inl stop \<Rightarrow> Inl stop
                  | Inr (merge_rc, h2, result', _) \<Rightarrow>
                      let h3 = fst (lcfgpkglist_relinquish h2 matches)
                      in if merge_rc = LCFG_CHANGE_ERROR then Inr (False, h3, result')
                         else set_match_loop fnmatch name arch ver rel bs h3 result'))
               else set_match_loop fnmatch name arch ver rel bs h result))"

definition lcfgpkgset_match ::
    "(string \<Rightarrow> string \<Rightarrow> bool) \<Rightarrow> pkg_heap \<Rightarrow> LCFGPackageSet \<Rightarrow> cstr \<Rightarrow> cstr \<Rightarrow> cstr \<Rightarrow> cstr \<Rightarrow>
     (pkg_heap \<times> LCFGPackageSet option) run" where
  "lcfgpkgset_match fnmatch h pkgset name arch ver rel =
     (case lcfgpkgset_new of
        Inl stop \<Rightarrow> Inl stop
      | Inr new \<Rightarrow>
          let result = new\<lparr>pks_primary_key := pks_primary_key pkgset,
                pks_merge_rules := LCFG_MERGE_RULE_SQUASH_IDENTICAL OR LCFG_MERGE_RULE_KEEP_ALL\<rparr>
          in if lcfgpkgset_is_empty (Some pkgset) then Inr (h, Some result)
             else case set_match_loop fnmatch name arch ver rel (pks_packages pkgset) h result of
               Inl stop \<Rightarrow> Inl stop
             | Inr (ok, h', result') \<Rightarrow>
                 if ok then Inr (h', Some result') else Inr (lcfgpkgset_destroy h' result', None))"

fun set_eval_loop ::
    "LCFGContextList option \<Rightarrow> LCFGPackageList option list \<Rightarrow> pkg_heap \<Rightarrow> LCFGChange \<Rightarrow> cstr \<Rightarrow>
     LCFGChange \<times> pkg_heap \<times> cstr" where
  "set_eval_loop ctxlist [] h result msg = (result, h, msg)"
| "set_eval_loop ctxlist (b # bs) h result msg =
     (if \<not> LCFGChangeOK result then (result, h, msg)
      else case b of
        None \<Rightarrow> set_eval_loop ctxlist bs h result msg
      | Some l \<Rightarrow>
          (case lcfgpkglist_eval_priority h (Some l) ctxlist msg of (list_change, h', msg') \<Rightarrow>
             set_eval_loop ctxlist bs h' (if list_change \<noteq> LCFG_CHANGE_NONE then list_change else result) msg'))"

definition lcfgpkgset_eval_priority ::
    "pkg_heap \<Rightarrow> LCFGPackageSet option \<Rightarrow> LCFGContextList option \<Rightarrow> cstr \<Rightarrow> LCFGChange \<times> pkg_heap \<times> cstr" where
  "lcfgpkgset_eval_priority h pkgset ctxlist msg =
     (if lcfgpkgset_is_empty pkgset then (LCFG_CHANGE_NONE, h, msg)
      else set_eval_loop ctxlist (pks_packages (the pkgset)) h LCFG_CHANGE_NONE msg)"


section \<open>The table of a set\<close>

definition list_name :: "pkg_heap \<Rightarrow> LCFGPackageList \<Rightarrow> string" where
  "list_name h l = or_default (pkg_name (deref h (hd (nodes l)))) []"

definition pkg_home :: "string \<Rightarrow> nat \<Rightarrow> nat" where
  "pkg_home name n = unat (lcfgutils_string_djbhash name []) mod n"

interpretation pkg_table: probing pkg_home "list_name h" for h
  by unfold_locales (simp add: pkg_home_def)

text \<open>
  A list in its bucket: not empty, owned by the set alone, with the rules and key of the set,
  of packages that are valid, have one name and different keys.
\<close>

definition bucket_ok :: "pkg_heap \<Rightarrow> bits \<Rightarrow> bits \<Rightarrow> LCFGPackageList \<Rightarrow> bool" where
  "bucket_ok h pk rules l \<longleftrightarrow> slist_ok l \<and> nodes l \<noteq> [] \<and> pkl_refcount l = 1 \<and>
     pkl_primary_key l = pk \<and> pkl_merge_rules l = rules \<and> pkglist_unique h l \<and> no_nul (list_name h l) \<and>
     (\<forall>p\<in>set (nodes l). lcfgpackage_is_valid (h p) \<and> or_default (pkg_name (deref h p)) [] = list_name h l)"

definition bucket_nodes :: "LCFGPackageList option \<Rightarrow> nat multiset" where
  "bucket_nodes b = (case b of None \<Rightarrow> {#} | Some l \<Rightarrow> mset (nodes l))"

definition set_nodes :: "LCFGPackageList option list \<Rightarrow> nat multiset" where
  "set_nodes xs = sum_list (map bucket_nodes xs)"

text \<open>The invariant of a set, without and with the bound on its load.\<close>

definition pkgset_sound :: "pkg_heap \<Rightarrow> LCFGPackageSet \<Rightarrow> bool" where
  "pkgset_sound h s \<longleftrightarrow>
     pks_buckets s = length (pks_packages s) \<and> pks_entries s = used (pks_packages s) \<and>
     pkg_table.table_ok h (pks_packages s) \<and>
     (\<forall>l. Some l \<in> set (pks_packages s) \<longrightarrow> bucket_ok h (pks_primary_key s) (pks_merge_rules s) l) \<and>
     (\<forall>p. count (set_nodes (pks_packages s)) p \<le> pkg_refs h p)"

definition pkgset_ok :: "pkg_heap \<Rightarrow> LCFGPackageSet \<Rightarrow> bool" where
  "pkgset_ok h s \<longleftrightarrow> pkgset_sound h s \<and> 10 * pks_entries s < 7 * pks_buckets s"

lemma set_nodes_simps [simp]:
  "set_nodes [] = {#}" "set_nodes (b # bs) = bucket_nodes b + set_nodes bs"
  "bucket_nodes None = {#}" "bucket_nodes (Some l) = mset (nodes l)"
  by (simp_all add: set_nodes_def bucket_nodes_def)

lemma set_nodes_update:
  "i < length xs \<Longrightarrow> set_nodes (xs[i := b]) + bucket_nodes (xs ! i) = set_nodes xs + bucket_nodes b"
proof (induction xs arbitrary: i)
  case (Cons x xs)
  then show ?case by (cases i) (simp_all add: ac_simps)
qed simp

lemma in_set_nodes: "p \<in># set_nodes xs \<longleftrightarrow> (\<exists>l. Some l \<in> set xs \<and> p \<in> set (nodes l))"
proof (induction xs)
  case (Cons x xs)
  then show ?case by (cases x) auto
qed simp

lemma bucket_subset: "Some l \<in> set xs \<Longrightarrow> mset (nodes l) \<subseteq># set_nodes xs"
proof (induction xs)
  case (Cons x xs)
  then show ?case by (auto intro: subset_mset.add_increasing)
qed simp

text \<open>Names are C strings, so \<open>strcmp\<close> decides their equality.\<close>

lemma head_matches_name:
  assumes "bucket_ok h pk rules l" and "no_nul name"
  shows "head_matches h name l \<longleftrightarrow> list_name h l = name"
proof -
  have l: "nodes l \<noteq> []" "no_nul (list_name h l)" using assms(1) by (simp_all add: bucket_ok_def)
  have "strcmp LCFG_PKG_WILDCARD LCFG_PKG_WILDCARD = 0"
    by (simp add: strcmp_eq_0 LCFG_PKG_WILDCARD_def nul_def)
  with l(1) have "head_matches h name l \<longleftrightarrow> strcmp (list_name h l) name = 0"
    by (simp add: head_matches_def lcfgpkglist_first_package_def lcfgpackage_match_def list_name_def)
  with l(2) assms(2) show ?thesis by (simp add: strcmp_eq_0)
qed

lemma slot_search:
  assumes "pks_buckets s = length (pks_packages s)" and "pks_packages s \<noteq> []"
    and "\<And>l. Some l \<in> set (pks_packages s) \<Longrightarrow> bucket_ok h pk rules l" and "no_nul name"
  shows "find_slot (slot_done h name) (pks_packages s) (lcfgpkgset_hash_string s name) =
    pkg_table.slot_of h (pks_packages s) name"
proof -
  have "slot_done h name b \<longleftrightarrow> pkg_table.stop_at h name b" if "b \<in> set (pks_packages s)" for b
  proof (cases b)
    case (Some l)
    with assms(3) that have l: "bucket_ok h pk rules l" by simp
    then have "\<not> lcfgslist_is_empty l" by (simp add: bucket_ok_def slist_ok_def)
    with Some head_matches_name [OF l assms(4)] show ?thesis
      by (simp add: slot_done_def pkg_table.stop_at_def probe_ends_def)
  qed (simp add: slot_done_def pkg_table.stop_at_def probe_ends_def)
  then show ?thesis
    unfolding pkg_table.slot_of_def lcfgpkgset_hash_string_def assms(1) pkg_home_def
    by (intro find_slot_cong) (use assms(2) in \<open>simp_all add: less_imp_le\<close>)
qed

lemma find_list_lookup:
  assumes "pkgset_sound h s" and "no_nul name"
  shows "lcfgpkgset_find_list h (Some s) name = pkg_table.lookup h (pks_packages s) name"
proof (cases "lcfgpkgset_is_empty (Some s)")
  case True
  have s: "pks_entries s = used (pks_packages s)" "pkg_table.table_ok h (pks_packages s)"
    "\<And>l. Some l \<in> set (pks_packages s) \<Longrightarrow> slist_ok l \<and> nodes l \<noteq> []"
    using assms(1) by (auto simp: pkgset_sound_def bucket_ok_def)
  have "Some l \<notin> set (pks_packages s)" for l
  proof
    assume l: "Some l \<in> set (pks_packages s)"
    then have "pks_entries s \<noteq> 0" using s(1) by (auto simp: used_def filter_empty_conv)
    moreover have "0 < bucket_size (Some l)" using s(3) [OF l] by (simp add: bucket_size_def slist_ok_def)
    then have "sum_list (map bucket_size (pks_packages s)) \<noteq> 0" using l by (auto simp: sum_list_eq_0_iff)
    ultimately show False using True by (simp add: lcfgpkgset_is_empty_def lcfgpkgset_size_def)
  qed
  then have "pkg_table.lookup h (pks_packages s) name = None"
    using pkg_table.lookup_iff [OF s(2)] by (metis not_None_eq)
  with True show ?thesis by (simp add: lcfgpkgset_find_list_def)
next
  case False
  have "pks_packages s \<noteq> []" using assms(1) by (simp add: pkgset_sound_def pkg_table.table_ok_def)
  moreover have "head_matches h name l \<longleftrightarrow> list_name h l = name" if "Some l \<in> set (pks_packages s)" for l
    using head_matches_name [OF _ assms(2)] assms(1) that by (auto simp: pkgset_sound_def)
  ultimately have "find_entry (head_matches h name) (pks_packages s) (pkg_home name (length (pks_packages s))) =
      find_entry (\<lambda>l. list_name h l = name) (pks_packages s) (pkg_home name (length (pks_packages s)))"
    by (intro find_entry_cong) (simp_all add: less_imp_le pkg_home_def)
  with False assms(1) show ?thesis
    by (simp add: lcfgpkgset_find_list_def pkg_table.lookup_def pkg_home_def pkgset_sound_def)
qed


section \<open>Filling a set again\<close>

text \<open>A heap whose packages have been acquired some more times.\<close>

definition bump :: "nat multiset \<Rightarrow> pkg_heap \<Rightarrow> pkg_heap" where
  "bump M h = (\<lambda>p. map_option (\<lambda>pkg. pkg\<lparr>pkg_refcount := pkg_refcount pkg + count M p\<rparr>) (h p))"

lemma bump_facts [simp]:
  "bump {#} h = h" "pkg_name (deref (bump M h) p) = pkg_name (deref h p)" "core (deref (bump M h) p) = core (deref h p)"
  "lcfgpackage_is_valid (bump M h p) \<longleftrightarrow> lcfgpackage_is_valid (h p)" "bump M h p = None \<longleftrightarrow> h p = None"
  "pkg_ok (deref (bump M h) p) \<longleftrightarrow> pkg_ok (deref h p)"
proof -
  show "bump {#} h = h" by (rule ext) (simp add: bump_def option.map_ident)
qed (cases "h p"; simp add: bump_def deref_def lcfgpackage_is_valid_def pkg_ok_def)+

lemma bump_acquire: "h p \<noteq> None \<Longrightarrow> acquire_at p (bump M h) = bump (add_mset p M) h"
  by (rule ext) (auto simp: acquire_at_def bump_def deref_def lcfgpackage_acquire_def)

lemma bump_relinquish:
  assumes "heap_ok h" and "h p \<noteq> None"
  shows "relinquish_at p (bump (add_mset p M) h) = bump M h"
proof
  fix q
  obtain pkg where "h p = Some pkg" "0 < pkg_refcount pkg" using assms by (auto simp: heap_ok_def)
  then show "relinquish_at p (bump (add_mset p M) h) q = bump M h q"
    by (auto simp: relinquish_at_def bump_def deref_def lcfgpackage_relinquish_def Let_def)
qed

lemma bump_destroy:
  assumes "heap_ok h" and "\<forall>p\<in>set ps. h p \<noteq> None"
  shows "fold relinquish_at ps (bump (mset ps + M) h) = bump M h"
  using assms by (induction ps) (simp_all add: bump_relinquish)

lemma relinquish_list:
  assumes "heap_ok h" and "bucket_ok h pk rules l"
  shows "fst (lcfgpkglist_relinquish (bump (mset (nodes l)) h) (Some l)) = h"
proof -
  have "\<forall>p\<in>set (nodes l). h p \<noteq> None" using assms(2) valid_live [of h] by (auto simp: bucket_ok_def)
  with bump_destroy [OF assms(1) this, of "{#}"] assms(2) show ?thesis
    by (simp add: lcfgpkglist_relinquish_def lcfgpkglist_destroy_def bucket_ok_def slist_ok_def)
qed

text \<open>A package of a new key is appended, unless prefixes have a say.\<close>

lemma merge_new_key:
  assumes "\<not> has_bit (pkl_merge_rules l) LCFG_MERGE_RULE_USE_PREFIX"
    and "\<forall>p\<in>set (nodes l). lcfgpackage_is_valid (h p)" and "lcfgpackage_is_valid (h new)"
    and "\<forall>p\<in>set (nodes l). \<not> merge_match (pkl_primary_key l) (deref h new) (deref h p)"
  shows "lcfgpkglist_merge_package h l new msg =
    (LCFG_CHANGE_ADDED, acquire_at new h, l\<lparr>nodes := nodes l @ [new], list_size := list_size l + 1\<rparr>, msg)"
proof -
  have "first_node (\<lambda>p. merge_match (pkl_primary_key l) (deref h new) (deref h p)) (nodes l) = None"
    using assms(4) by (simp add: first_node_None_iff)
  with merge_search_found [OF assms(2), of "\<lambda>p. merge_match (pkl_primary_key l) (deref h new) (deref h p)" 0]
  have "merge_search (\<lambda>p. lcfgpackage_is_valid (h p))
      (\<lambda>p. merge_match (pkl_primary_key l) (deref h new) (deref h p)) (nodes l) 0 None =
    (None, prev_of (length (nodes l)))" by (simp add: prev_of_def)
  then show ?thesis
    using assms(1,3) lcfgslist_append_simp [of "\<lambda>_. True" l new]
    by (simp add: lcfgpkglist_merge_package_def lcfgpkglist_get_merge_rules_def merge_actions_def merge_apply_def
        lcfgpkglist_append_def lcfgpkglist_insert_next_def lcfgslist_append_def)
qed

lemma bucket_prefix:
  assumes "bucket_ok h pk rules l" and "nodes l = ds @ ps" and "ds \<noteq> []"
  shows "bucket_ok h pk rules (l\<lparr>nodes := ds, list_size := length ds\<rparr>)"
    and "list_name h (l\<lparr>nodes := ds, list_size := length ds\<rparr>) = list_name h l"
proof -
  show n: "list_name h (l\<lparr>nodes := ds, list_size := length ds\<rparr>) = list_name h l"
    using assms(2,3) by (simp add: list_name_def)
  show "bucket_ok h pk rules (l\<lparr>nodes := ds, list_size := length ds\<rparr>)"
    using assms unfolding bucket_ok_def n
    by (auto simp: slist_ok_def pkglist_unique_def sorted_wrt_append)
qed

lemma bucket_new_key:
  assumes "heap_ok h" and "bucket_ok h pk rules l" and "nodes l = ds @ p # ps" and "q \<in> set ds"
  shows "\<not> merge_match pk (deref (bump M h) p) (deref (bump M h) q)"
proof -
  have "h p \<noteq> None" by (rule valid_live [of h]) (use assms(2,3) in \<open>simp add: bucket_ok_def\<close>)
  then have "pkg_ok (deref (bump M h) p)" using deref_ok [OF assms(1)] by simp
  moreover have "\<not> same_key pk (deref h q) (deref h p)"
    using assms(2-4) by (auto simp: bucket_ok_def pkglist_unique_def sorted_wrt_append)
  then have "\<not> same_key pk (deref (bump M h) q) (deref (bump M h) p)"
    using same_key_core [OF bump_facts(3) bump_facts(3), of pk M h q M h p] by simp
  ultimately show ?thesis by (simp add: merge_match_key)
qed

lemma slot_done_bump [simp]: "slot_done (bump M h) = slot_done h"
proof -
  have "lcfgpackage_match (deref (bump M h) p) name (Some LCFG_PKG_WILDCARD) \<longleftrightarrow>
      lcfgpackage_match (deref h p) name (Some LCFG_PKG_WILDCARD)" for p name
    by (simp add: lcfgpackage_match_def strcmp_eq_0 LCFG_PKG_WILDCARD_def nul_def)
  then show ?thesis by (intro ext) (simp add: slot_done_def head_matches_def cong: option.case_cong)
qed

text \<open>The packages of a list whose first ones are in their bucket already.\<close>

lemma remerge_rest:
  assumes "heap_ok h" and "bucket_ok h pk rules l" and "\<not> has_bit rules LCFG_MERGE_RULE_USE_PREFIX"
    and "nodes l = ds @ ps" and "ds \<noteq> []" and "change \<noteq> LCFG_CHANGE_ERROR"
    and "pks_buckets s = length (pks_packages s)" and "pkg_table.table_ok h (pks_packages s)"
    and "\<And>l. Some l \<in> set (pks_packages s) \<Longrightarrow> bucket_ok h pk rules l"
    and "i < length (pks_packages s)" and "pks_packages s ! i = Some (l\<lparr>nodes := ds, list_size := length ds\<rparr>)"
  shows "pkgset_merge_loop (pkgset_merge_package rz) (bump (mset ds) h) s ps change msg =
    Inr (if ps = [] then change else LCFG_CHANGE_MODIFIED, bump (mset (nodes l)) h,
      s\<lparr>pks_packages := (pks_packages s)[i := Some l]\<rparr>, msg)"
  using assms(4-11)
proof (induction ps arbitrary: ds s change)
  case Nil
  have "l\<lparr>nodes := ds, list_size := length ds\<rparr> = l"
    using Nil.prems(1) assms(2) by (simp add: bucket_ok_def slist_ok_def)
  with Nil.prems(1,8) have "(pks_packages s)[i := Some l] = pks_packages s" by (metis list_update_id)
  then show ?case using Nil.prems(1) by simp
next
  case (Cons p ps)
  let ?xs = "pks_packages s" and ?l = "l\<lparr>nodes := ds, list_size := length ds\<rparr>"
    and ?l' = "l\<lparr>nodes := ds @ [p], list_size := length (ds @ [p])\<rparr>"
  have valid: "\<forall>q\<in>set (nodes l). lcfgpackage_is_valid (h q)" using assms(2) by (simp add: bucket_ok_def)
  then have live: "h p \<noteq> None" by (intro valid_live [of h]) (simp add: Cons.prems(1))
  have name: "or_default (pkg_name (deref h p)) [] = list_name h l" "no_nul (list_name h l)"
    using assms(2) Cons.prems(1) by (auto simp: bucket_ok_def)
  have ne: "?xs \<noteq> []" using Cons.prems(7) by auto
  note part = bucket_prefix [OF assms(2) Cons.prems(1,2)]
  note part' = bucket_prefix [of h pk rules l "ds @ [p]" ps, OF assms(2)]
  have slot: "find_slot (slot_done h (list_name h l)) ?xs (lcfgpkgset_hash_string s (list_name h l)) = Some i"
    using slot_search [OF Cons.prems(4) ne Cons.prems(6) name(2)]
      pkg_table.slot_of_key [OF Cons.prems(5,7,8)] part(2) by simp
  have "lcfgpkglist_merge_package (bump (mset ds) h) ?l p None =
      (LCFG_CHANGE_ADDED, acquire_at p (bump (mset ds) h), ?l', None)"
    by (subst merge_new_key)
      (use assms(2,3) valid Cons.prems(1) bucket_new_key [OF assms(1,2) Cons.prems(1)] in
        \<open>auto simp: bucket_ok_def\<close>)
  then have merge: "pkgset_merge_package rz (bump (mset ds) h) s p None =
      Inr (LCFG_CHANGE_ADDED, bump (mset (ds @ [p])) h, s\<lparr>pks_packages := ?xs[i := Some ?l']\<rparr>, None)"
    using valid Cons.prems(1,8) slot live
    by (simp add: pkgset_merge_package_def name(1) bump_acquire lcfgslist_is_empty_def)
  let ?s = "s\<lparr>pks_packages := ?xs[i := Some ?l']\<rparr>"
  note tab = pkg_table.table_replace [OF Cons.prems(5,7,8), of ?l']
  have "pkgset_merge_loop (pkgset_merge_package rz) (bump (mset (ds @ [p])) h) ?s ps LCFG_CHANGE_MODIFIED msg =
    Inr (if ps = [] then LCFG_CHANGE_MODIFIED else LCFG_CHANGE_MODIFIED, bump (mset (nodes l)) h,
      ?s\<lparr>pks_packages := (pks_packages ?s)[i := Some l]\<rparr>, msg)"
  proof (rule Cons.IH)
    fix l2 assume "Some l2 \<in> set (pks_packages ?s)"
    then show "bucket_ok h pk rules l2"
      using tab(2) part' part(2) Cons.prems(1,6) by auto
  qed (use Cons.prems tab(1) part part' in auto)
  then show ?case using Cons.prems(3) valid Cons.prems(1) merge by simp
qed



text \<open>A whole list, put in a set that has room for it.\<close>

lemma no_resize:
  assumes "10 * pks_entries s < 7 * pks_buckets s" and "pks_packages s \<noteq> []"
  shows "pkgset_resize (Suc depth) h s = Inr (h, s)"
  using assms by (simp add: want_buckets_def)

lemma remerge_list:
  assumes "heap_ok h" and "bucket_ok h (pks_primary_key s) (pks_merge_rules s) l"
    and "\<not> has_bit (pks_merge_rules s) LCFG_MERGE_RULE_USE_PREFIX"
    and "pks_buckets s = length (pks_packages s)" and "pks_entries s = used (pks_packages s)"
    and "pkg_table.table_ok h (pks_packages s)"
    and "\<And>l. Some l \<in> set (pks_packages s) \<Longrightarrow> bucket_ok h (pks_primary_key s) (pks_merge_rules s) l"
    and "\<And>l'. Some l' \<in> set (pks_packages s) \<Longrightarrow> list_name h l' \<noteq> list_name h l"
    and "10 * (pks_entries s + 1) < 7 * pks_buckets s"
  shows "pkgset_merge_list (pkgset_merge_package (pkgset_resize (Suc depth))) h s (Some l) msg =
    Inr (LCFG_CHANGE_MODIFIED, bump (mset (nodes l)) h,
      s\<lparr>pks_packages := pkg_table.store h l (pks_packages s), pks_entries := pks_entries s + 1\<rparr>, msg)"
proof -
  let ?xs = "pks_packages s" and ?rules = "pks_merge_rules s" and ?pk = "pks_primary_key s"
  obtain p ps where ps: "nodes l = p # ps" using assms(2) by (cases "nodes l") (auto simp: bucket_ok_def)
  let ?l = "l\<lparr>nodes := [p], list_size := length [p]\<rparr>"
  have valid: "lcfgpackage_is_valid (h p)" "or_default (pkg_name (deref h p)) [] = list_name h l"
    "no_nul (list_name h l)" using assms(2) ps by (auto simp: bucket_ok_def)
  have live: "h p \<noteq> None" by (rule valid_live [of h, OF valid(1)])
  have ne: "?xs \<noteq> []" using assms(6) by (simp add: pkg_table.table_ok_def)
  have "used ?xs < length ?xs" using assms(9) unfolding assms(4,5) by simp
  then have free: "None \<in> set ?xs" by (rule used_free)
  have "pkg_table.lookup h ?xs (list_name h l) = None"
    using pkg_table.lookup_iff [OF assms(6)] assms(8) by (metis not_None_eq)
  then obtain i where i: "pkg_table.slot_of h ?xs (list_name h l) = Some i" "i < length ?xs" "?xs ! i = None"
    using pkg_table.slot_of_free [OF assms(6) _ free] by blast
  note part = bucket_prefix [OF assms(2), of "[p]" ps]
  have slot: "find_slot (slot_done h (list_name h l)) ?xs (lcfgpkgset_hash_string s (list_name h l)) = Some i"
    using slot_search [OF assms(4) ne assms(7) valid(3)] i(1) by simp
  have "pkgset_new_list s\<lparr>nodes := [p], list_size := 1\<rparr> = ?l"
    using assms(2) by (simp add: pkgset_new_list_def lcfgpkglist_new_def bucket_ok_def)
  moreover have "lcfgpkglist_merge_package h (pkgset_new_list s) p None =
      (LCFG_CHANGE_ADDED, acquire_at p h, pkgset_new_list s\<lparr>nodes := [p], list_size := 1\<rparr>, None)"
    by (subst merge_new_key) (use assms(3) valid(1) in \<open>simp_all add: pkgset_new_list_def lcfgpkglist_new_def\<close>)
  ultimately have list: "lcfgpkglist_merge_package h (pkgset_new_list s) p None =
      (LCFG_CHANGE_ADDED, bump (mset [p]) h, ?l, None)"
    using bump_acquire [of h p "{#}"] live by simp
  let ?s = "s\<lparr>pks_packages := ?xs[i := Some ?l], pks_entries := pks_entries s + 1\<rparr>"
  have "pkgset_resize (Suc depth) (bump (mset [p]) h) ?s = Inr (bump (mset [p]) h, ?s)"
    by (rule no_resize) (use assms(9) ne in simp_all)
  with list slot i(3) valid(1,2)
  have merge: "pkgset_merge_package (pkgset_resize (Suc depth)) h s p None =
      Inr (LCFG_CHANGE_ADDED, bump (mset [p]) h, ?s, None)"
    by (simp add: pkgset_merge_package_def LCFGChangeOK_def del: pkgset_resize.simps)
  have name: "list_name h ?l = list_name h l" using part(2) ps by simp
  note tab = pkg_table.table_insert [OF assms(6), of ?l i, unfolded name, OF i(1,3)]
  have "pkgset_merge_loop (pkgset_merge_package (pkgset_resize (Suc depth))) (bump (mset [p]) h) ?s ps
      LCFG_CHANGE_MODIFIED msg =
    Inr (if ps = [] then LCFG_CHANGE_MODIFIED else LCFG_CHANGE_MODIFIED, bump (mset (nodes l)) h,
      ?s\<lparr>pks_packages := (pks_packages ?s)[i := Some l]\<rparr>, msg)"
  proof (rule remerge_rest [OF assms(1,2,3)])
    fix l2 assume "Some l2 \<in> set (pks_packages ?s)"
    then show "bucket_ok h ?pk ?rules l2" using tab(2) part(1) ps assms(7) by auto
  qed (use assms(4) ps i(2) tab(1) in auto)
  moreover have "pkg_table.store h l ?xs = ?xs[i := Some l]" using i(1) by (simp add: pkg_table.store_def)
  moreover have "\<not> lcfgslist_is_empty l" using assms(2) by (simp add: bucket_ok_def slist_ok_def)
  ultimately show ?thesis
    using merge valid(1) ps by (simp add: pkgset_merge_list_def del: pkgset_resize.simps)
qed

lemma rehash_lists:
  assumes "heap_ok h" and "\<And>l. Some l \<in> set bs \<Longrightarrow> bucket_ok h (pks_primary_key s) (pks_merge_rules s) l"
    and "\<not> has_bit (pks_merge_rules s) LCFG_MERGE_RULE_USE_PREFIX"
    and "pks_buckets s = length (pks_packages s)" and "pks_entries s = used (pks_packages s)"
    and "pkg_table.table_ok h (pks_packages s)"
    and "\<And>l. Some l \<in> set (pks_packages s) \<Longrightarrow> bucket_ok h (pks_primary_key s) (pks_merge_rules s) l"
    and "\<And>l l'. Some l \<in> set bs \<Longrightarrow> Some l' \<in> set (pks_packages s) \<Longrightarrow> list_name h l' \<noteq> list_name h l"
    and "distinct (map (list_name h) (entries_of bs))"
    and "10 * (pks_entries s + used bs) < 7 * pks_buckets s"
  shows "rehash_loop (pkgset_merge_list (pkgset_merge_package (pkgset_resize (Suc depth)))) bs h s =
    Inr (h, s\<lparr>pks_packages := fold (pkg_table.store h) (entries_of bs) (pks_packages s),
              pks_entries := pks_entries s + used bs\<rparr>)"
  using assms(2-10)
proof (induction bs arbitrary: s)
  case (Cons b bs)
  show ?case
  proof (cases b)
    case None
    then show ?thesis using Cons.IH [of s] Cons.prems by (simp add: lcfgpkglist_relinquish_def)
  next
    case (Some l)
    let ?s = "s\<lparr>pks_packages := pkg_table.store h l (pks_packages s), pks_entries := pks_entries s + 1\<rparr>"
    have l: "bucket_ok h (pks_primary_key s) (pks_merge_rules s) l" using Cons.prems(1) Some by simp
    have new: "\<And>l'. Some l' \<in> set (pks_packages s) \<Longrightarrow> list_name h l' \<noteq> list_name h l"
      using Cons.prems(7) Some by simp
    have room: "10 * (pks_entries s + 1) < 7 * pks_buckets s" using Cons.prems(9) Some by simp
    have "used (pks_packages s) < length (pks_packages s)"
      using room unfolding Cons.prems(3,4) by simp
    note st = pkg_table.store_new [OF Cons.prems(5) _ this, of l]
    have ne: "\<not> lcfgslist_is_empty l" using l by (simp add: bucket_ok_def slist_ok_def)
    have "rehash_loop (pkgset_merge_list (pkgset_merge_package (pkgset_resize (Suc depth)))) bs h ?s =
      Inr (h, ?s\<lparr>pks_packages := fold (pkg_table.store h) (entries_of bs) (pks_packages ?s),
                 pks_entries := pks_entries ?s + used bs\<rparr>)"
    proof (rule Cons.IH)
      fix l1 l2 assume "Some l1 \<in> set bs" "Some l2 \<in> set (pks_packages ?s)"
      then show "list_name h l2 \<noteq> list_name h l1"
        using st(2) new Cons.prems(7,8) Some by auto
    qed (use Cons.prems st new l Some in auto)
    then show ?thesis
      using remerge_list [OF assms(1) l Cons.prems(2-6) new room, of depth None] Some ne
        relinquish_list [OF assms(1) l]
      by (simp del: pkgset_resize.simps)
  qed
qed simp


lemma set_nodes_entries: "set_nodes xs = sum_list (map (\<lambda>l. mset (nodes l)) (entries_of xs))"
  by (induction xs) (auto split: option.splits)

lemma set_nodes_same:
  assumes "distinct (entries_of xs)" and "distinct (entries_of ys)"
    and "\<And>l. Some l \<in> set xs \<longleftrightarrow> Some l \<in> set ys"
  shows "set_nodes xs = set_nodes ys"
proof -
  have "mset (entries_of xs) = mset (entries_of ys)"
    using assms by (simp add: set_eq_iff_mset_eq_distinct [symmetric])
  then have "mset (map (\<lambda>l. mset (nodes l)) (entries_of xs)) = mset (map (\<lambda>l. mset (nodes l)) (entries_of ys))"
    by simp
  then show ?thesis unfolding set_nodes_entries by (metis sum_mset_sum_list)
qed

text \<open>
  A resize keeps the heap and the lists, and brings the load below its bound; any depth from
  2 on does.
\<close>

lemma resize_depth:
  assumes "heap_ok h" and "pkgset_sound h s" and "\<not> has_bit (pks_merge_rules s) LCFG_MERGE_RULE_USE_PREFIX"
  shows "\<exists>s'. (\<forall>depth. pkgset_resize (Suc (Suc depth)) h s = Inr (h, s')) \<and> pkgset_ok h s' \<and>
    pks_merge_rules s' = pks_merge_rules s \<and> pks_primary_key s' = pks_primary_key s \<and>
    set_nodes (pks_packages s') = set_nodes (pks_packages s) \<and>
    (\<forall>l. Some l \<in> set (pks_packages s') \<longleftrightarrow> Some l \<in> set (pks_packages s))"
proof (cases "10 * pks_entries s < 7 * pks_buckets s")
  case True
  have "pks_packages s \<noteq> []" using assms(2) by (simp add: pkgset_sound_def pkg_table.table_ok_def)
  with True no_resize [OF True] assms(2) show ?thesis
    by (intro exI [of _ s]) (simp add: pkgset_ok_def del: pkgset_resize.simps)
next
  case False
  let ?xs = "pks_packages s" and ?n = "2 * pks_entries s + 1"
  let ?s = "s\<lparr>pks_packages := replicate ?n None, pks_entries := 0, pks_buckets := ?n\<rparr>"
  let ?ys = "fold (pkg_table.store h) (entries_of ?xs) (replicate ?n None)"
  have s: "pks_entries s = used ?xs" "pkg_table.table_ok h ?xs"
    "\<And>l. Some l \<in> set ?xs \<Longrightarrow> bucket_ok h (pks_primary_key s) (pks_merge_rules s) l"
    "\<And>p. count (set_nodes ?xs) p \<le> pkg_refs h p"
    using assms(2) by (simp_all add: pkgset_sound_def)
  note dist = pkg_table.table_distinct [OF s(2)]
  have tab0: "pkg_table.table_ok h (replicate ?n None)" by (rule pkg_table.table_empty) simp
  have "used (replicate ?n None) + length (entries_of ?xs) < length (replicate ?n None)"
    using s(1) by simp
  note st = pkg_table.fold_store [OF tab0 dist this]
  have ys: "pkg_table.table_ok h ?ys" "used ?ys = used ?xs" "length ?ys = ?n"
    "\<And>l. Some l \<in> set ?ys \<longleftrightarrow> Some l \<in> set ?xs"
    using st by auto
  have nodes: "set_nodes ?ys = set_nodes ?xs"
    by (rule set_nodes_same [OF _ _ ys(4)])
      (use pkg_table.table_distinct [OF ys(1)] dist in \<open>auto simp: distinct_map\<close>)
  let ?s' = "?s\<lparr>pks_packages := ?ys, pks_entries := used ?xs\<rparr>"
  have "rehash_loop (pkgset_merge_list (pkgset_merge_package (pkgset_resize (Suc depth)))) ?xs h ?s =
      Inr (h, ?s\<lparr>pks_packages := fold (pkg_table.store h) (entries_of ?xs) (pks_packages ?s),
              pks_entries := pks_entries ?s + used ?xs\<rparr>)" for depth
    by (rule rehash_lists [OF assms(1)]) (use s dist tab0 assms(3) in \<open>auto simp del: replicate.simps\<close>)
  moreover have "want_buckets (pks_entries s) (pks_buckets s) = ?n" "\<not> ?n \<le> pks_buckets s"
    using False by (simp_all add: want_buckets_def)
  ultimately have "pkgset_resize (Suc (Suc depth)) h s = Inr (h, ?s')" for depth
    by (subst pkgset_resize.simps) (simp add: Let_def del: pkgset_resize.simps replicate.simps)
  moreover have "pkgset_ok h ?s'"
    using s(1,3,4) ys nodes by (simp add: pkgset_ok_def pkgset_sound_def)
  ultimately show ?thesis using nodes ys(4) by (intro exI [of _ ?s']) simp
qed

section \<open>Merging a package into a set\<close>

lemma list_name_bump [simp]: "list_name (bump M h) = list_name h"
  by (rule ext) (simp add: list_name_def)

lemma bucket_ok_bump: "bucket_ok h pk rules l \<Longrightarrow> bucket_ok (bump M h) pk rules l"
  using same_key_core [OF bump_facts(3) bump_facts(3), of pk M h _ M h]
  by (auto simp: bucket_ok_def pkglist_unique_def)

lemma bucket_ok_step:
  assumes "bucket_ok h pk rules l" and "heap_step h h'" and "\<And>p. p \<in> set (nodes l) \<Longrightarrow> h' p \<noteq> None"
  shows "bucket_ok h' pk rules l" and "list_name h' l = list_name h l"
proof -
  have core: "core (deref h' p) = core (deref h p)" if "p \<in> set (nodes l)" for p
    by (rule heap_step_core [OF assms(2) assms(3) [OF that]])
  have name: "pkg_name (deref h' p) = pkg_name (deref h p)" if "p \<in> set (nodes l)" for p
    by (rule core_fields(1) [OF core [OF that]])
  have valid: "lcfgpackage_is_valid (h' p)" if "p \<in> set (nodes l)" for p
  proof -
    have "lcfgpackage_is_valid (h p)" using assms(1) that by (simp add: bucket_ok_def)
    then have "lcfgpackage_is_valid (Some (deref h p))" "h p \<noteq> None"
      by (auto simp: lcfgpackage_is_valid_def deref_def split: option.splits)
    with core_valid [OF core [OF that]] assms(3) [OF that] show ?thesis by (auto simp: deref_def)
  qed
  have hd: "hd (nodes l) \<in> set (nodes l)" using assms(1) by (simp add: bucket_ok_def)
  show n: "list_name h' l = list_name h l" unfolding list_name_def name [OF hd] ..
  have "pkglist_unique h' l"
    using heap_step_keys(1) [OF assms(2), of "nodes l" "pkl_primary_key l"] assms(1,3)
    by (auto simp: pkglist_unique_def bucket_ok_def)
  moreover have "or_default (pkg_name (deref h' p)) [] = list_name h l" if "p \<in> set (nodes l)" for p
    using assms(1) that name [OF that] by (simp add: bucket_ok_def)
  ultimately show "bucket_ok h' pk rules l" using assms(1) valid n by (simp add: bucket_ok_def)
qed

lemma lookup_unique:
  assumes "\<And>a. lookup = Some a \<longleftrightarrow> v = Some a"
  shows "lookup = v"
  using assms [of "the v"] assms [of "the lookup"] by (cases lookup; cases v) auto

text \<open>Without prefixes a merge that takes a package out puts the new one in.\<close>

lemma merge_keeps_nonempty:
  assumes "\<not> has_bit (pkl_merge_rules l) LCFG_MERGE_RULE_USE_PREFIX" and "nodes l \<noteq> []"
  shows "outcome_nodes target (merge_decision h l new) new (nodes l) \<noteq> []"
    and "set (outcome_nodes target (merge_decision h l new) new (nodes l)) \<subseteq> insert new (set (nodes l))"
proof -
  obtain rem app acc where flags: "merge_decision h l new = (rem, app, acc)" by (metis prod.exhaust)
  have "app" if "rem" "acc"
    using assms(1) flags that
    by (auto simp: merge_decision_def merge_actions_def Let_def split: if_splits option.splits)
  then show "outcome_nodes target (merge_decision h l new) new (nodes l) \<noteq> []"
    using assms(2) by (auto simp: flags outcome_nodes_def split: option.splits)
  show "set (outcome_nodes target (merge_decision h l new) new (nodes l)) \<subseteq> insert new (set (nodes l))"
    by (auto simp: flags outcome_nodes_def dest: in_set_takeD in_set_dropD split: option.splits)
qed


definition plain_rules :: "bits \<Rightarrow> bool" where
  "plain_rules rules \<longleftrightarrow>
     \<not> has_bit rules LCFG_MERGE_RULE_KEEP_ALL \<and> \<not> has_bit rules LCFG_MERGE_RULE_USE_PREFIX"

lemma list_in_set:
  assumes "pkgset_sound h s" and "Some l \<in> set (pks_packages s)"
  shows "pkglist_ok h l" and "bucket_ok h (pks_primary_key s) (pks_merge_rules s) l"
proof -
  show b: "bucket_ok h (pks_primary_key s) (pks_merge_rules s) l" using assms by (simp add: pkgset_sound_def)
  have "count (mset (nodes l)) p \<le> pkg_refs h p" for p
  proof -
    have "count (mset (nodes l)) p \<le> count (set_nodes (pks_packages s)) p"
      by (rule mset_subset_eq_count [OF bucket_subset [OF assms(2)]])
    also have "\<dots> \<le> pkg_refs h p" using assms(1) by (simp add: pkgset_sound_def)
    finally show ?thesis .
  qed
  with b show "pkglist_ok h l" by (simp add: pkglist_ok_def bucket_ok_def)
qed

text \<open>The new package goes to the list of its name.\<close>

lemma merge_into_list:
  assumes "heap_ok h" and "pkgset_ok h s" and "plain_rules (pks_merge_rules s)"
    and "lcfgpackage_is_valid (h new)" and "or_default (pkg_name (deref h new)) [] = name"
    and "count (set_nodes (pks_packages s)) new < pkg_refs h new"
    and "i < length (pks_packages s)" and "pks_packages s ! i = Some l" and "list_name h l = name"
    and "lcfgpkglist_merge_package h l new msg = (change, h', l', msg')"
  defines "s' \<equiv> s\<lparr>pks_packages := (pks_packages s)[i := Some l']\<rparr>"
  shows "heap_ok h'" and "heap_step h h'" and "pkgset_ok h' s'" and "nodes l' \<noteq> []" and "slist_ok l'"
    and "Some a \<in> set (pks_packages s') \<and> list_name h' a = k \<longleftrightarrow>
      (if k = name then a = l' else Some a \<in> set (pks_packages s) \<and> list_name h a = k)"
    and "pkg_refs h' p + count (set_nodes (pks_packages s)) p = pkg_refs h p + count (set_nodes (pks_packages s')) p"
proof -
  let ?xs = "pks_packages s" and ?ys = "(pks_packages s)[i := Some l']"
  have sound: "pkgset_sound h s" using assms(2) by (simp add: pkgset_ok_def)
  have mem: "Some l \<in> set ?xs" using assms(7,8) nth_mem by metis
  note l = list_in_set [OF sound mem]
  have "count (mset (nodes l)) new \<le> count (set_nodes ?xs) new"
    by (rule mset_subset_eq_count [OF bucket_subset [OF mem]])
  with assms(6) have room: "count (mset (nodes l)) new < pkg_refs h new" by linarith
  have rules: "pkl_merge_rules l = pks_merge_rules s" "pkl_primary_key l = pks_primary_key s" "pkl_refcount l = 1"
    "nodes l \<noteq> []" "pkglist_unique h l" "no_nul (list_name h l)"
    "\<And>p. p \<in> set (nodes l) \<Longrightarrow> or_default (pkg_name (deref h p)) [] = name"
    using l(2) assms(9) by (auto simp: bucket_ok_def)
  note r = merge_package_result [OF assms(1) l(1) assms(4) room assms(10)]
  have unique: "pkglist_unique h' l'"
    using merge_package_map [OF assms(1) l(1) assms(4) room assms(10) rules(5)] assms(3) rules(1)
    by (simp add: plain_rules_def)
  have ns: "nodes l' = outcome_nodes (merge_target h l new) (merge_decision h l new) new (nodes l)"
    using arg_cong [OF r(2), of nodes] by simp
  have ne: "nodes l' \<noteq> []" and sub: "set (nodes l') \<subseteq> insert new (set (nodes l))"
    unfolding ns using merge_keeps_nonempty [OF _ rules(4), of "merge_target h l new" h new] assms(3) rules(1)
    by (simp_all add: plain_rules_def)
  show "heap_ok h'" "heap_step h h'" by (rule r(3), rule r(4))
  show "nodes l' \<noteq> []" by (rule ne)
  show "slist_ok l'" using r(5) by (simp add: pkglist_ok_def)
  have name_h: "or_default (pkg_name (deref h p)) [] = name" if "p \<in> set (nodes l')" for p
    using sub that rules(7) assms(5) by blast
  have hd: "hd (nodes l') \<in> set (nodes l')" using ne by simp
  have n_h: "list_name h l' = name" unfolding list_name_def by (rule name_h [OF hd])
  have live: "h' p \<noteq> None" if "p \<in> set (nodes l')" for p by (rule pkglist_live [OF r(5) that])
  have name: "or_default (pkg_name (deref h' p)) [] = name" if "p \<in> set (nodes l')" for p
    using name_h [OF that] core_fields(1) [OF heap_step_core [OF r(4) live [OF that]]] by simp
  have n_h': "list_name h' l' = name" unfolding list_name_def by (rule name [OF hd])
  note same = arg_cong [OF r(2), of pkl_primary_key] arg_cong [OF r(2), of pkl_merge_rules]
    arg_cong [OF r(2), of pkl_refcount]
  have l': "bucket_ok h' (pks_primary_key s) (pks_merge_rules s) l'"
    using r(5) ne unique same rules(1-3,6) name n_h' assms(9) by (simp add: bucket_ok_def pkglist_ok_def)
  have upd: "count (set_nodes ?ys) p + count (mset (nodes l)) p = count (set_nodes ?xs) p + count (mset (nodes l')) p" for p
    using arg_cong [OF set_nodes_update [OF assms(7), of "Some l'"], of "\<lambda>M. count M p"] assms(8) by simp
  have refs: "pkg_refs h' p + count (set_nodes ?xs) p = pkg_refs h p + count (set_nodes ?ys) p" for p
    using upd [of p] r(6) [of p] by linarith
  then show "pkg_refs h' p + count (set_nodes ?xs) p = pkg_refs h p + count (set_nodes (pks_packages s')) p"
    by (simp add: s'_def)
  have "count (set_nodes ?xs) p \<le> pkg_refs h p" for p using sound by (simp add: pkgset_sound_def)
  then have cnt: "count (set_nodes ?ys) p \<le> pkg_refs h' p" for p
    using refs [of p] by (metis add_le_cancel_left add.commute add_le_cancel_right)
  have tab: "pkg_table.table_ok h ?xs" using sound by (simp add: pkgset_sound_def)
  note rep = pkg_table.table_replace [OF tab assms(7,8), of l']
  have mem': "Some a \<in> set ?ys \<longleftrightarrow> a = l' \<or> Some a \<in> set ?xs \<and> list_name h a \<noteq> name" for a
    using rep(2) n_h assms(9) by simp
  have other: "bucket_ok h' (pks_primary_key s) (pks_merge_rules s) a \<and> list_name h' a = list_name h a"
    if "Some a \<in> set ?ys" "a \<noteq> l'" for a
  proof -
    have "Some a \<in> set ?xs" using mem' that by simp
    moreover have "h' p \<noteq> None" if "p \<in> set (nodes a)" for p
    proof -
      have "0 < count (mset (nodes a)) p" using that by simp
      also have "\<dots> \<le> count (set_nodes ?ys) p"
        by (rule mset_subset_eq_count [OF bucket_subset]) (rule \<open>Some a \<in> set ?ys\<close>)
      also have "\<dots> \<le> pkg_refs h' p" by (rule cnt)
      finally show ?thesis by (rule refs_live)
    qed
    ultimately show ?thesis using bucket_ok_step [OF list_in_set(2) [OF sound] r(4)] by blast
  qed
  then have names: "list_name h' a = list_name h a" if "Some a \<in> set ?ys" for a
    using that n_h n_h' by (cases "a = l'") auto
  have "pkg_table.table_ok h' ?ys"
    by (rule pkg_table.table_ok_cong [OF names rep(1)]) (simp_all add: n_h assms(9))
  moreover have "used ?ys = used ?xs" using used_update [OF assms(7), of "Some l'"] assms(8) by simp
  moreover have "bucket_ok h' (pks_primary_key s) (pks_merge_rules s) a" if "Some a \<in> set ?ys" for a
    using other [OF that] l' by (cases "a = l'") auto
  ultimately show "pkgset_ok h' s'"
    using assms(2) cnt by (simp add: pkgset_ok_def pkgset_sound_def s'_def)
  show "Some a \<in> set (pks_packages s') \<and> list_name h' a = k \<longleftrightarrow>
      (if k = name then a = l' else Some a \<in> set ?xs \<and> list_name h a = k)"
    using mem' [of a] names [of a] n_h' other [of a] by (cases "a = l'") (auto simp: s'_def)
qed


lemma merge_into_new:
  assumes "heap_ok h" and "pkgset_ok h s" and "plain_rules (pks_merge_rules s)"
    and "lcfgpackage_is_valid (h new)" and "or_default (pkg_name (deref h new)) [] = name" and "no_nul name"
    and "count (set_nodes (pks_packages s)) new < pkg_refs h new"
    and "pkg_table.slot_of h (pks_packages s) name = Some i" and "pks_packages s ! i = None"
  defines "l' \<equiv> pkgset_new_list s\<lparr>nodes := [new], list_size := 1\<rparr>" and "h' \<equiv> acquire_at new h"
  defines "s1 \<equiv> s\<lparr>pks_packages := (pks_packages s)[i := Some l'], pks_entries := pks_entries s + 1\<rparr>"
  shows "lcfgpkglist_merge_package h (pkgset_new_list s) new msg = (LCFG_CHANGE_ADDED, h', l', msg)"
    and "heap_ok h'" and "heap_step h h'" and "pkgset_sound h' s1"
    and "list_name h' = list_name h" and "list_name h l' = name"
    and "Some a \<in> set (pks_packages s1) \<longleftrightarrow> a = l' \<or> Some a \<in> set (pks_packages s)"
    and "pkg_table.lookup h (pks_packages s) name = None"
    and "pkg_refs h' p + count (set_nodes (pks_packages s)) p = pkg_refs h p + count (set_nodes (pks_packages s1)) p"
proof -
  let ?xs = "pks_packages s"
  have sound: "pkgset_sound h s" using assms(2) by (simp add: pkgset_ok_def)
  then have s: "pkg_table.table_ok h ?xs" "pks_buckets s = length ?xs" "pks_entries s = used ?xs"
    "\<And>p. count (set_nodes ?xs) p \<le> pkg_refs h p" by (simp_all add: pkgset_sound_def)
  have ne: "?xs \<noteq> []" using s(1) by (simp add: pkg_table.table_ok_def)
  have i: "i < length ?xs" using pkg_table.slot_of_SomeD(1) [OF assms(8) ne] .
  have live: "h new \<noteq> None" by (rule valid_live [of h, OF assms(4)])
  have bump: "h' = bump {#new#} h" using bump_acquire [of h new "{#}"] live by (simp add: h'_def)
  note facts = acquire_at_facts [OF assms(1) live]
  show "heap_ok h'" "heap_step h h'" using facts(1,2) by (simp_all add: h'_def)
  show names: "list_name h' = list_name h" by (simp add: bump)
  have l: "nodes l' = [new]" "pkl_merge_rules l' = pks_merge_rules s" "pkl_primary_key l' = pks_primary_key s"
    "list_size l' = 1" "pkl_refcount l' = 1"
    by (simp_all add: l'_def pkgset_new_list_def lcfgpkglist_new_def)
  show n: "list_name h l' = name" using l(1) assms(5) by (simp add: list_name_def)
  show "lcfgpkglist_merge_package h (pkgset_new_list s) new msg = (LCFG_CHANGE_ADDED, h', l', msg)"
    by (subst merge_new_key)
      (use assms(3,4) in \<open>simp_all add: plain_rules_def l'_def h'_def pkgset_new_list_def lcfgpkglist_new_def\<close>)
  note ins = pkg_table.table_insert [OF s(1), of l' i, unfolded n, OF assms(8,9)]
  show "pkg_table.lookup h ?xs name = None" by (rule ins(3))
  show "Some a \<in> set (pks_packages s1) \<longleftrightarrow> a = l' \<or> Some a \<in> set ?xs" using ins(2) by (simp add: s1_def)
  have nodes: "set_nodes (?xs[i := Some l']) = set_nodes ?xs + {#new#}"
    using set_nodes_update [OF i, of "Some l'"] assms(9) l(1) by simp
  show refs: "pkg_refs h' p + count (set_nodes ?xs) p = pkg_refs h p + count (set_nodes (pks_packages s1)) p" for p
    using facts(3) [of p] nodes by (simp add: s1_def h'_def)
  have "count (set_nodes (pks_packages s1)) p \<le> pkg_refs h' p" for p
    using refs [of p] s(4) [of p] by linarith
  moreover have "bucket_ok h' (pks_primary_key s) (pks_merge_rules s) l'"
    using l n assms(4,5,6) facts(4) [of new]
    by (simp add: bucket_ok_def slist_ok_def pkglist_unique_def names) (simp add: bump h'_def [symmetric])
  moreover have "bucket_ok h' (pks_primary_key s) (pks_merge_rules s) a" if "Some a \<in> set ?xs" for a
    unfolding bump by (rule bucket_ok_bump [OF list_in_set(2) [OF sound that]])
  moreover have "used (?xs[i := Some l']) = used ?xs + 1" using used_update [OF i, of "Some l'"] assms(9) by simp
  ultimately show "pkgset_sound h' s1"
    using ins(1,2) s(2,3) by (auto simp: pkgset_sound_def s1_def names)
qed

text \<open>Both cases together.\<close>

lemma set_merge_package:
  assumes "heap_ok h" and "pkgset_ok h s" and "plain_rules (pks_merge_rules s)"
    and "lcfgpackage_is_valid (h new)" and "or_default (pkg_name (deref h new)) [] = name" and "no_nul name"
    and "count (set_nodes (pks_packages s)) new < pkg_refs h new"
    and "lcfgpkglist_merge_package h
        (case pkg_table.lookup h (pks_packages s) name of None \<Rightarrow> pkgset_new_list s | Some l \<Rightarrow> l) new msg =
      (change, h', l', msg')"
  shows "\<exists>s'. lcfgpkgset_merge_package h s new msg = Inr (change, h', s', msg') \<and>
    heap_ok h' \<and> heap_step h h' \<and> pkgset_ok h' s' \<and>
    pks_merge_rules s' = pks_merge_rules s \<and> pks_primary_key s' = pks_primary_key s \<and>
    (\<forall>k. pkg_table.lookup h' (pks_packages s') k =
       (if k = name then Some l' else pkg_table.lookup h (pks_packages s) k)) \<and>
    (\<forall>p. pkg_refs h' p + count (set_nodes (pks_packages s)) p = pkg_refs h p + count (set_nodes (pks_packages s')) p)"
proof -
  let ?xs = "pks_packages s"
  have sound: "pkgset_sound h s" using assms(2) by (simp add: pkgset_ok_def)
  then have s: "pkg_table.table_ok h ?xs" "pks_buckets s = length ?xs" "pks_entries s = used ?xs"
    by (simp_all add: pkgset_sound_def)
  have ne: "?xs \<noteq> []" using s(1) by (simp add: pkg_table.table_ok_def)
  note slot = slot_search [OF s(2) ne list_in_set(2) [OF sound] assms(6)]
  show ?thesis
  proof (cases "pkg_table.lookup h ?xs name")
    case (Some l)
    then have l: "Some l \<in> set ?xs" "list_name h l = name" using pkg_table.lookup_iff [OF s(1)] by simp_all
    then obtain i where i: "i < length ?xs" "?xs ! i = Some l" by (auto simp: in_set_conv_nth)
    have merge: "lcfgpkglist_merge_package h l new msg = (change, h', l', msg')" using assms(8) Some by simp
    note r = merge_into_list [OF assms(1-5,7) i l(2) merge]
    let ?s' = "s\<lparr>pks_packages := ?xs[i := Some l']\<rparr>"
    have at: "find_slot (slot_done h name) ?xs (lcfgpkgset_hash_string s name) = Some i"
      using slot pkg_table.slot_of_key [OF s(1) i] l(2) by simp
    have "\<not> lcfgslist_is_empty l'" using r(4,5) by (simp add: slist_ok_def)
    then have "lcfgpkgset_merge_package h s new msg = Inr (change, h', ?s', msg')"
      unfolding lcfgpkgset_merge_package_def pkgset_merge_package_def assms(5)
      using assms(4) at i(2) merge by simp
    moreover have "pkg_table.lookup h' (pks_packages ?s') k = (if k = name then Some l' else pkg_table.lookup h ?xs k)"
      for k
    proof (rule lookup_unique)
      fix a
      have "pkg_table.table_ok h' (pks_packages ?s')" using r(3) by (simp add: pkgset_ok_def pkgset_sound_def)
      from pkg_table.lookup_iff [OF this, of k a] r(6) [of a k]
      show "pkg_table.lookup h' (pks_packages ?s') k = Some a \<longleftrightarrow>
          (if k = name then Some l' else pkg_table.lookup h ?xs k) = Some a"
        using pkg_table.lookup_iff [OF s(1), of k a] by auto
    qed
    ultimately show ?thesis using r(1-3,7) by (intro exI [of _ ?s']) simp
  next
    case None
    have "used ?xs < length ?xs" using assms(2) s(2,3) unfolding pkgset_ok_def by linarith
    from pkg_table.slot_of_free [OF s(1) None used_free [OF this]]
    obtain i where i: "pkg_table.slot_of h ?xs name = Some i" "?xs ! i = None" by blast
    note r = merge_into_new [OF assms(1-7) i]
    have m: "change = LCFG_CHANGE_ADDED" "h' = acquire_at new h"
      "l' = pkgset_new_list s\<lparr>nodes := [new], list_size := 1\<rparr>" "msg' = msg"
      using r(1) [of msg] assms(8) None by simp_all
    let ?s1 = "s\<lparr>pks_packages := ?xs[i := Some l'], pks_entries := pks_entries s + 1\<rparr>"
    have s1: "heap_ok h'" "pkgset_sound h' ?s1" using r(2,4) unfolding m(2,3) by simp_all
    have "\<not> has_bit (pks_merge_rules ?s1) LCFG_MERGE_RULE_USE_PREFIX" using assms(3) by (simp add: plain_rules_def)
    from resize_depth [OF s1 this]
    obtain s' where s': "lcfgpkgset_resize h' ?s1 = Inr (h', s')" "pkgset_ok h' s'"
      "pks_merge_rules s' = pks_merge_rules s" "pks_primary_key s' = pks_primary_key s"
      "set_nodes (pks_packages s') = set_nodes (pks_packages ?s1)"
      "\<And>l. Some l \<in> set (pks_packages s') \<longleftrightarrow> Some l \<in> set (pks_packages ?s1)"
      unfolding lcfgpkgset_resize_def numeral_2_eq_2 by (force simp del: pkgset_resize.simps)
    have "lcfgpkgset_merge_package h s new msg = Inr (change, h', s', msg')"
      unfolding lcfgpkgset_merge_package_def pkgset_merge_package_def assms(5)
      using assms(4) slot i r(1) [of msg] s'(1) m by (simp add: LCFGChangeOK_def)
    moreover have "pkg_table.lookup h' (pks_packages s') k = (if k = name then Some l' else pkg_table.lookup h ?xs k)" for k
    proof (rule lookup_unique)
      fix a
      have "pkg_table.table_ok h' (pks_packages s')" using s'(2) by (simp add: pkgset_ok_def pkgset_sound_def)
      moreover have "Some a \<in> set ?xs \<Longrightarrow> list_name h a \<noteq> name"
        using pkg_table.lookup_iff [OF s(1), of name a] None by simp
      ultimately show "pkg_table.lookup h' (pks_packages s') k = Some a \<longleftrightarrow>
          (if k = name then Some l' else pkg_table.lookup h ?xs k) = Some a"
        using pkg_table.lookup_iff [OF s(1), of k a] r(5,6,7) s'(6) [of a] m(2,3)
        by (auto simp: pkg_table.lookup_iff)
    qed
    ultimately show ?thesis
      using r(2,3,9) s'(2-5) m(2,3) by (intro exI [of _ s']) simp
  qed
qed


text \<open>
  The invariant holds in every later heap that keeps the references of the set, and in a heap
  with one more package.
\<close>

lemma pkgset_ok_step:
  assumes "heap_step h h'" and "\<And>p. count (set_nodes (pks_packages s)) p \<le> pkg_refs h' p" and "pkgset_ok h s"
  shows "pkgset_ok h' s"
proof -
  have sound: "pkgset_sound h s" using assms(3) by (simp add: pkgset_ok_def)
  have b: "bucket_ok h' (pks_primary_key s) (pks_merge_rules s) l" "list_name h' l = list_name h l"
    if "Some l \<in> set (pks_packages s)" for l
  proof -
    have "h' p \<noteq> None" if "p \<in> set (nodes l)" for p
    proof (rule refs_live)
      have "p \<in># set_nodes (pks_packages s)"
        using that \<open>Some l \<in> set (pks_packages s)\<close> in_set_nodes by blast
      then have "0 < count (set_nodes (pks_packages s)) p" by simp
      also have "\<dots> \<le> pkg_refs h' p" by (rule assms(2))
      finally show "0 < pkg_refs h' p" .
    qed
    with bucket_ok_step [OF list_in_set(2) [OF sound that] assms(1)]
    show "bucket_ok h' (pks_primary_key s) (pks_merge_rules s) l" "list_name h' l = list_name h l" by blast+
  qed
  have "pkg_table.table_ok h (pks_packages s)" using sound by (simp add: pkgset_sound_def)
  with b(2) have "pkg_table.table_ok h' (pks_packages s)" by (rule pkg_table.table_ok_cong)
  with assms(2,3) b(1) show ?thesis by (simp add: pkgset_ok_def pkgset_sound_def)
qed

lemma pkgset_ok_same:
  assumes "same_heap h h'" and "heap_ok h'" and "pkgset_ok h s"
  shows "pkgset_ok h' s"
  by (rule pkgset_ok_step [OF same_heap_step [OF assms(1)] _ assms(3)])
     (use assms(3) same_heap_refs [OF assms(1)] in \<open>simp add: pkgset_ok_def pkgset_sound_def\<close>)

lemma pkgset_ok_fresh:
  assumes "pkgset_ok h s" and "h q = None"
  shows "pkgset_ok (h(q \<mapsto> pkg)) s"
proof -
  let ?h = "h(q \<mapsto> pkg)"
  have sound: "pkgset_sound h s" using assms(1) by (simp add: pkgset_ok_def)
  have same: "?h p = h p" if "Some l \<in> set (pks_packages s)" "p \<in> set (nodes l)" for l p
    using pkglist_live [OF list_in_set(1) [OF sound that(1)] that(2)] assms(2) by auto
  have name: "list_name ?h l = list_name h l" if "Some l \<in> set (pks_packages s)" for l
  proof -
    have "hd (nodes l) \<in> set (nodes l)" using list_in_set(2) [OF sound that] by (simp add: bucket_ok_def)
    from same [OF that this] show ?thesis by (simp add: list_name_def deref_def)
  qed
  have "bucket_ok ?h (pks_primary_key s) (pks_merge_rules s) l" if l: "Some l \<in> set (pks_packages s)" for l
  proof -
    note b = list_in_set(2) [OF sound l]
    have d: "deref ?h p = deref h p" if "p \<in> set (nodes l)" for p using same [OF l that] by (simp add: deref_def)
    have "pkglist_unique ?h l"
      using b d unfolding bucket_ok_def pkglist_unique_def by (auto intro: sorted_wrt_mono_rel [rotated])
    moreover have "\<forall>p\<in>set (nodes l). lcfgpackage_is_valid (?h p) \<and> or_default (pkg_name (deref ?h p)) [] = list_name h l"
      using b d same [OF l] unfolding bucket_ok_def by metis
    ultimately show ?thesis using b name [OF l] by (simp add: bucket_ok_def)
  qed
  moreover have "pkg_table.table_ok ?h (pks_packages s)"
    by (rule pkg_table.table_ok_cong [OF name]) (use sound in \<open>simp_all add: pkgset_sound_def\<close>)
  moreover have "count (set_nodes (pks_packages s)) p \<le> pkg_refs ?h p" for p
  proof -
    have "count (set_nodes (pks_packages s)) p \<le> pkg_refs h p" using sound by (simp add: pkgset_sound_def)
    also have "\<dots> \<le> pkg_refs ?h p" using assms(2) by (simp add: pkg_refs_def)
    finally show ?thesis .
  qed
  ultimately show ?thesis using assms(1) by (simp add: pkgset_ok_def pkgset_sound_def)
qed

definition c_names :: "pkg_heap \<Rightarrow> nat list \<Rightarrow> bool" where
  "c_names h ps \<longleftrightarrow> (\<forall>p\<in>set ps. no_nul (or_default (pkg_name (deref h p)) []))"

lemma c_names_step:
  assumes "c_names h ps" and "heap_step h h'" and "\<And>p. p \<in> set ps \<Longrightarrow> h' p \<noteq> None"
  shows "c_names h' ps"
  unfolding c_names_def
proof
  fix p assume p: "p \<in> set ps"
  have "pkg_name (deref h' p) = pkg_name (deref h p)"
    by (rule core_fields(1) [OF heap_step_core [OF assms(2) assms(3) [OF p]]])
  with assms(1) p show "no_nul (or_default (pkg_name (deref h' p)) [])" by (simp add: c_names_def)
qed

text \<open>What the merges of several packages keep, whatever conflicts they run into.\<close>

definition set_step :: "pkg_heap \<Rightarrow> LCFGPackageSet \<Rightarrow> pkg_heap \<Rightarrow> LCFGPackageSet \<Rightarrow> bool" where
  "set_step h s h' s' \<longleftrightarrow> heap_ok h' \<and> heap_step h h' \<and> pkgset_ok h' s' \<and>
     pks_merge_rules s' = pks_merge_rules s \<and> pks_primary_key s' = pks_primary_key s \<and>
     (\<forall>p. pkg_refs h' p + count (set_nodes (pks_packages s)) p = pkg_refs h p + count (set_nodes (pks_packages s')) p)"

lemma set_step_refl: "heap_ok h \<Longrightarrow> pkgset_ok h s \<Longrightarrow> set_step h s h s"
  by (simp add: set_step_def)

lemma set_step_trans:
  assumes "set_step h s h1 s1" and "set_step h1 s1 h2 s2"
  shows "set_step h s h2 s2"
proof -
  have "pkg_refs h2 p + count (set_nodes (pks_packages s)) p = pkg_refs h p + count (set_nodes (pks_packages s2)) p" for p
  proof (rule refs_chain)
    show "pkg_refs h1 p + count (set_nodes (pks_packages s)) p = pkg_refs h p + count (set_nodes (pks_packages s1)) p"
      using assms(1) by (simp add: set_step_def)
    show "pkg_refs h2 p + count (set_nodes (pks_packages s1)) p = pkg_refs h1 p + count (set_nodes (pks_packages s2)) p"
      using assms(2) by (simp add: set_step_def)
  qed
  with assms heap_step_trans show ?thesis unfolding set_step_def by metis
qed

lemma set_step_same:
  assumes "set_step h s h1 s1" and "same_heap h1 h2" and "heap_ok h2"
  shows "set_step h s h2 s1"
  using assms same_heap_refs [OF assms(2)] pkgset_ok_same [OF assms(2,3)]
    heap_step_trans [OF _ same_heap_step [OF assms(2)], of h]
  by (simp add: set_step_def)

lemma set_step_room:
  assumes "set_step h s h' s'" and "count (set_nodes (pks_packages s)) p + n < pkg_refs h p"
  shows "count (set_nodes (pks_packages s')) p + n < pkg_refs h' p"
proof -
  have "pkg_refs h' p + count (set_nodes (pks_packages s)) p = pkg_refs h p + count (set_nodes (pks_packages s')) p"
    using assms(1) by (simp add: set_step_def)
  with assms(2) show ?thesis by linarith
qed

text \<open>Packages on which there is a reference beside those of the set.\<close>

definition spare :: "pkg_heap \<Rightarrow> LCFGPackageSet \<Rightarrow> nat list \<Rightarrow> bool" where
  "spare h s ps \<longleftrightarrow> c_names h ps \<and> (\<forall>p\<in>set ps. count (set_nodes (pks_packages s)) p < pkg_refs h p)"

lemma spare_step:
  assumes "set_step h s h' s'" and "spare h s ps"
  shows "spare h' s' ps"
proof -
  have room: "count (set_nodes (pks_packages s')) p < pkg_refs h' p" if "p \<in> set ps" for p
    using set_step_room [OF assms(1), of p 0] assms(2) that by (simp add: spare_def)
  have "c_names h' ps"
  proof (rule c_names_step)
    show "c_names h ps" using assms(2) by (simp add: spare_def)
    show "heap_step h h'" using assms(1) by (simp add: set_step_def)
    show "h' p \<noteq> None" if "p \<in> set ps" for p by (rule refs_live [OF room [OF that]])
  qed
  with room show ?thesis by (simp add: spare_def)
qed

lemma set_merge_loop:
  assumes "heap_ok h" and "pkgset_ok h s" and "plain_rules (pks_merge_rules s)" and "spare h s ps"
  shows "\<exists>change' h' s' msg'.
    pkgset_merge_loop lcfgpkgset_merge_package h s ps change msg = Inr (change', h', s', msg') \<and> set_step h s h' s'"
  using assms
proof (induction ps arbitrary: h s change msg)
  case Nil
  then show ?case using set_step_refl by simp
next
  case (Cons p ps)
  show ?case
  proof (cases "change = LCFG_CHANGE_ERROR \<or> \<not> lcfgpackage_is_valid (h p)")
    case True
    have "spare h s ps" using Cons.prems(4) by (simp add: c_names_def spare_def)
    with Cons.IH [OF Cons.prems(1-3) this] set_step_refl [OF Cons.prems(1,2)] True show ?thesis by auto
  next
    case False
    let ?name = "or_default (pkg_name (deref h p)) []"
    have p: "lcfgpackage_is_valid (h p)" "no_nul ?name" "count (set_nodes (pks_packages s)) p < pkg_refs h p"
      using False Cons.prems(4) by (simp_all add: c_names_def spare_def)
    obtain rc h1 l1 m1 where m: "lcfgpkglist_merge_package h
        (case pkg_table.lookup h (pks_packages s) ?name of None \<Rightarrow> pkgset_new_list s | Some l \<Rightarrow> l) p None =
      (rc, h1, l1, m1)" by (metis prod.exhaust)
    from set_merge_package [OF Cons.prems(1-3) p(1) refl p(2,3) m]
    obtain s1 where s1: "lcfgpkgset_merge_package h s p None = Inr (rc, h1, s1, m1)" "set_step h s h1 s1"
      unfolding set_step_def by blast
    have rest: "\<exists>change' h' s' msg'. pkgset_merge_loop lcfgpkgset_merge_package h2 s1 ps change2 msg2 =
        Inr (change', h', s', msg') \<and> set_step h s h' s'" if h2: "set_step h s h2 s1" for h2 change2 msg2
    proof -
      have "spare h s ps" using Cons.prems(4) by (simp add: c_names_def spare_def)
      then have "spare h2 s1 ps" by (rule spare_step [OF h2])
      then obtain change' h' s' msg' where
        "pkgset_merge_loop lcfgpkgset_merge_package h2 s1 ps change2 msg2 = Inr (change', h', s', msg')"
        "set_step h2 s1 h' s'"
        using Cons.IH [of h2 s1 change2 msg2] h2 Cons.prems(3) by (auto simp: set_step_def)
      with set_step_trans [OF h2] show ?thesis by blast
    qed
    show ?thesis
    proof (cases "rc = LCFG_CHANGE_ERROR")
      case True
      obtain t h2 where t: "message_at (Some p) (''Failed to merge package: '' @ or_default m1 ''(null)'') h1 = (t, h2)"
        by fastforce
      have "h1 p \<noteq> None" by (rule refs_live [OF set_step_room [OF s1(2), of _ 0, simplified, OF p(3)]])
      then have "\<forall>a. Some p = Some a \<longrightarrow> h1 a \<noteq> None" by simp
      from message_at_heap [OF _ this t] s1(2) have "same_heap h1 h2" "heap_ok h2" by (auto simp: set_step_def)
      from rest [OF set_step_same [OF s1(2) this]] s1(1) True t p(1) False show ?thesis by simp
    next
      case rc: False
      with rest [OF s1(2)] s1(1) p(1) False show ?thesis by simp
    qed
  qed
qed

text \<open>The lists of another set, one after the other.\<close>

lemma set_merge_set_loop:
  assumes "heap_ok h" and "pkgset_ok h s" and "plain_rules (pks_merge_rules s)"
    and "\<And>l. Some l \<in> set bs \<Longrightarrow> spare h s (nodes l)"
  shows "\<exists>change' h' s' msg'.
    merge_set_loop h s bs change msg = Inr (change', h', s', msg') \<and> set_step h s h' s'"
  using assms
proof (induction bs arbitrary: h s change msg)
  case Nil
  then show ?case using set_step_refl by simp
next
  case (Cons b bs)
  show ?case
  proof (cases "change = LCFG_CHANGE_ERROR \<or> b = None")
    case True
    have "\<And>l. Some l \<in> set bs \<Longrightarrow> spare h s (nodes l)" using Cons.prems(4) by simp
    with Cons.IH [OF Cons.prems(1-3)] set_step_refl [OF Cons.prems(1,2)] True show ?thesis by auto
  next
    case False
    then obtain l where l: "b = Some l" by blast
    have "\<exists>rc h1 s1 m1. lcfgpkgset_merge_list h s (Some l) msg = Inr (rc, h1, s1, m1) \<and> set_step h s h1 s1"
      using set_merge_loop [OF Cons.prems(1-3), of "nodes l" LCFG_CHANGE_NONE msg] Cons.prems(4) [of l] l
        set_step_refl [OF Cons.prems(1,2)]
      by (simp add: lcfgpkgset_merge_list_def pkgset_merge_list_def)
    then obtain rc h1 s1 m1 where m: "lcfgpkgset_merge_list h s (Some l) msg = Inr (rc, h1, s1, m1)"
      "set_step h s h1 s1" by blast
    have pre: "heap_ok h1" "pkgset_ok h1 s1" "plain_rules (pks_merge_rules s1)"
      using m(2) Cons.prems(3) by (simp_all add: set_step_def)
    have spare: "spare h1 s1 (nodes l')" if "Some l' \<in> set bs" for l'
      by (rule spare_step [OF m(2)]) (use Cons.prems(4) that in simp)
    obtain change' h' s' msg' where
      "merge_set_loop h1 s1 bs (if LCFGChangeOK rc \<and> rc \<noteq> LCFG_CHANGE_NONE then LCFG_CHANGE_MODIFIED else change) m1 =
        Inr (change', h', s', msg')" "set_step h1 s1 h' s'"
      using Cons.IH [OF pre spare] by blast
    with m l False set_step_trans [OF m(2)] show ?thesis by auto
  qed
qed


section \<open>Properties\<close>

definition empty_set :: LCFGPackageSet where
  "empty_set = \<lparr>pks_packages = replicate LCFG_PKGSET_DEFAULT_SIZE None,
     pks_primary_key = LCFG_PKGLIST_PK_NAME OR LCFG_PKGLIST_PK_ARCH, pks_merge_rules = LCFG_MERGE_RULE_NONE,
     pks_buckets = LCFG_PKGSET_DEFAULT_SIZE, pks_entries = 0, pks_refcount = 1\<rparr>"

lemma pkgset_new: "lcfgpkgset_new = Inr empty_set"
  by (simp add: lcfgpkgset_new_def lcfgpkgset_resize_def numeral_2_eq_2 want_buckets_def empty_set_def
      LCFG_PKGSET_DEFAULT_SIZE_def del: replicate.simps)

lemma set_nodes_replicate [simp]: "set_nodes (replicate n None) = {#}"
  by (induction n) auto

lemma empty_set_facts [simp]:
  "set_nodes (pks_packages empty_set) = {#}" "pkgset_ok h empty_set" "pks_merge_rules empty_set = LCFG_MERGE_RULE_NONE"
  "plain_rules LCFG_MERGE_RULE_NONE"
proof -
  have "pkg_table.table_ok h (replicate LCFG_PKGSET_DEFAULT_SIZE None)"
    by (rule pkg_table.table_empty) (simp add: LCFG_PKGSET_DEFAULT_SIZE_def)
  then show "pkgset_ok h empty_set"
    by (simp add: pkgset_ok_def pkgset_sound_def empty_set_def LCFG_PKGSET_DEFAULT_SIZE_def del: replicate.simps)
qed (simp_all add: empty_set_def plain_rules_def lcfg_flag)

text \<open>
  C10: a package set refines a map from names to package lists. With rules that neither keep
  all packages nor use prefixes, \<open>lcfgpkgset_merge_package\<close> on a set that satisfies its
  invariant does not end the process; it does to the list of the package's name, a new empty
  list when there is none, exactly what \<open>lcfgpkglist_merge_package\<close> does to it, with the same
  change code and message, and every other name leads to the list it led to before, also
  when the set was resized. The invariant is kept: buckets reachable by probing, the number of
  entries, a load below 0.7, the references.
\<close>
theorem pkgset_merge_package_refines:
  assumes "heap_ok h" and "pkgset_ok h s" and "plain_rules (pks_merge_rules s)"
    and "lcfgpackage_is_valid (h new)" and "or_default (pkg_name (deref h new)) [] = name" and "no_nul name"
    and "count (set_nodes (pks_packages s)) new < pkg_refs h new"
    and "lcfgpkglist_merge_package h
        (case lcfgpkgset_find_list h (Some s) name of None \<Rightarrow> pkgset_new_list s | Some l \<Rightarrow> l) new msg =
      (change, h', l', msg')"
  shows "\<exists>s'. lcfgpkgset_merge_package h s new msg = Inr (change, h', s', msg') \<and> heap_ok h' \<and> pkgset_ok h' s' \<and>
    (\<forall>k. no_nul k \<longrightarrow> lcfgpkgset_find_list h' (Some s') k =
       (if k = name then Some l' else lcfgpkgset_find_list h (Some s) k))"
proof -
  have sound: "pkgset_sound h s" using assms(2) by (simp add: pkgset_ok_def)
  note find = find_list_lookup [OF sound]
  obtain s' where s': "lcfgpkgset_merge_package h s new msg = Inr (change, h', s', msg')" "heap_ok h'" "pkgset_ok h' s'"
    "\<And>k. pkg_table.lookup h' (pks_packages s') k =
       (if k = name then Some l' else pkg_table.lookup h (pks_packages s) k)"
    using set_merge_package [OF assms(1-7) assms(8) [unfolded find [OF assms(6)]]] by blast
  have "pkgset_sound h' s'" using s'(3) by (simp add: pkgset_ok_def)
  from find_list_lookup [OF this] find s' show ?thesis by simp
qed

theorem pkgset_merge_package_refines_witness:
  "\<exists>change h' s' msg'. lcfgpkgset_merge_package priority_heap empty_set 1 None = Inr (change, h', s', msg') \<and>
    lcfgpkgset_find_list h' (Some s') ''foo'' \<noteq> None \<and> lcfgpkgset_find_list h' (Some s') ''bar'' = None"
proof -
  have new: "lcfgpackage_is_valid (priority_heap 1)" "or_default (pkg_name (deref priority_heap 1)) [] = ''foo''"
    "pkg_refs priority_heap 1 = 1"
    by (simp_all add: priority_heap_def sample_package_def lcfgpackage_is_valid_def deref_def pkg_refs_def
        lcfgpackage_new_def)
  have empty: "lcfgpkgset_find_list priority_heap (Some empty_set) k = None" for k
    by (simp add: lcfgpkgset_find_list_def lcfgpkgset_is_empty_def lcfgpkgset_size_def empty_set_def)
  obtain change h' l' msg' where m: "lcfgpkglist_merge_package priority_heap
      (case lcfgpkgset_find_list priority_heap (Some empty_set) ''foo'' of None \<Rightarrow> pkgset_new_list empty_set | Some l \<Rightarrow> l)
      1 None = (change, h', l', msg')" by (metis prod.exhaust)
  have "no_nul ''foo''" "no_nul ''bar''" by (simp_all add: nul_def)
  with pkgset_merge_package_refines [OF priority_list_facts(1) _ _ new(1,2) _ _ m] new(3)
  obtain s' where s': "lcfgpkgset_merge_package priority_heap empty_set 1 None = Inr (change, h', s', msg')"
    "\<And>k. no_nul k \<Longrightarrow> lcfgpkgset_find_list h' (Some s') k =
       (if k = ''foo'' then Some l' else lcfgpkgset_find_list priority_heap (Some empty_set) k)" by auto
  have "lcfgpkgset_find_list h' (Some s') ''foo'' = Some l'" "lcfgpkgset_find_list h' (Some s') ''bar'' = None"
    using s'(2) [OF \<open>no_nul ''foo''\<close>] s'(2) [OF \<open>no_nul ''bar''\<close>] empty by simp_all
  with s'(1) show ?thesis by blast
qed

text \<open>
  C17: merging a set into another is safe. With rules that neither keep all packages nor use
  prefixes, and as long as the caller holds references on the packages of the second set,
  \<open>lcfgpkgset_merge_set\<close> never ends the process: the exit of a failed resize is not reached,
  whatever conflicts the merges report. The invariants of heap and set are kept, no
  package is lost or changed other than in its derivation, and the count of every package
  changes by exactly the change of its occurrences in the set.
\<close>
theorem pkgset_merge_set_safe:
  assumes "heap_ok h" and "pkgset_ok h s1" and "plain_rules (pks_merge_rules s1)"
    and "\<And>l. Some l \<in> set (pks_packages s2) \<Longrightarrow> spare h s1 (nodes l)"
  shows "\<exists>change h' s' msg'. lcfgpkgset_merge_set h s1 (Some s2) msg = Inr (change, h', s', msg') \<and>
    heap_ok h' \<and> heap_step h h' \<and> pkgset_ok h' s' \<and>
    (\<forall>p. pkg_refs h' p + count (set_nodes (pks_packages s1)) p = pkg_refs h p + count (set_nodes (pks_packages s')) p)"
proof (cases "lcfgpkgset_is_empty (Some s2)")
  case True
  with assms(1,2) show ?thesis by (simp add: lcfgpkgset_merge_set_def)
next
  case False
  then have "lcfgpkgset_merge_set h s1 (Some s2) msg =
      merge_set_loop h s1 (pks_packages s2) LCFG_CHANGE_NONE msg"
    by (simp add: lcfgpkgset_merge_set_def)
  moreover obtain change h' s' msg' where "merge_set_loop h s1 (pks_packages s2) LCFG_CHANGE_NONE msg =
      Inr (change, h', s', msg')" "set_step h s1 h' s'"
    using set_merge_set_loop [OF assms(1-3), where bs = "pks_packages s2" and change = LCFG_CHANGE_NONE
        and msg = msg] assms(4) by blast
  ultimately show ?thesis unfolding set_step_def by simp
qed

theorem pkgset_merge_set_safe_witness:
  "\<exists>change h' s' msg'. lcfgpkgset_merge_set priority_heap empty_set
      (Some (empty_set\<lparr>pks_packages := [Some (lcfgpkglist_new\<lparr>nodes := [0, 1], list_size := 2\<rparr>)],
                       pks_buckets := 1, pks_entries := 1\<rparr>)) None = Inr (change, h', s', msg') \<and> pkgset_ok h' s'"
proof -
  have "spare priority_heap empty_set [0, 1]"
    by (simp add: spare_def c_names_def priority_heap_def sample_package_def deref_def pkg_refs_def
        lcfgpackage_new_def nul_def)
  then have "\<And>l. Some l \<in> set (pks_packages (empty_set\<lparr>pks_packages :=
        [Some (lcfgpkglist_new\<lparr>nodes := [0, 1], list_size := 2\<rparr>)], pks_buckets := 1, pks_entries := 1\<rparr>)) \<Longrightarrow>
      spare priority_heap empty_set (nodes l)" by simp
  note safe = pkgset_merge_set_safe [OF priority_list_facts(1) _ _ this]
  have "plain_rules (pks_merge_rules empty_set)" "pkgset_ok priority_heap empty_set" by simp_all
  from safe [OF this(2,1)] show ?thesis by blast
qed

text \<open>
  a search in a set that satisfies its invariant finds a package exactly when the set
  holds one that matches the name and architecture, and what it finds is such a package.
\<close>
theorem pkgset_find_package_spec:
  assumes "pkgset_ok h s" and "no_nul name"
  shows "case lcfgpkgset_find_package h (Some s) name arch of
      None \<Rightarrow> \<not> (\<exists>p. p \<in># set_nodes (pks_packages s) \<and> lcfgpackage_match (deref h p) name arch)
    | Some p \<Rightarrow> p \<in># set_nodes (pks_packages s) \<and> lcfgpackage_match (deref h p) name arch"
proof -
  let ?xs = "pks_packages s"
  have sound: "pkgset_sound h s" using assms(1) by (simp add: pkgset_ok_def)
  then have tab: "pkg_table.table_ok h ?xs" by (simp add: pkgset_sound_def)
  have elsewhere: "Some l \<in> set ?xs \<and> list_name h l = name"
    if "Some l \<in> set ?xs" "p \<in> set (nodes l)" "lcfgpackage_match (deref h p) name arch" for l p
  proof -
    have b: "bucket_ok h (pks_primary_key s) (pks_merge_rules s) l" by (rule list_in_set(2) [OF sound that(1)])
    then have "or_default (pkg_name (deref h p)) [] = list_name h l" "no_nul (list_name h l)"
      using that(2) by (simp_all add: bucket_ok_def)
    moreover have "strcmp (or_default (pkg_name (deref h p)) []) name = 0"
      using that(3) unfolding lcfgpackage_match_def Let_def by blast
    ultimately show ?thesis using that(1) assms(2) by (simp add: strcmp_eq_0)
  qed
  show ?thesis
  proof (cases "pkg_table.lookup h ?xs name")
    case None
    then have "\<not> (Some l \<in> set ?xs \<and> list_name h l = name)" for l
      using pkg_table.lookup_iff [OF tab, of name l] by simp
    then have "\<not> lcfgpackage_match (deref h p) name arch" if "p \<in># set_nodes ?xs" for p
      using elsewhere that by (auto simp: in_set_nodes)
    with None show ?thesis
      by (auto simp: lcfgpkgset_find_package_def find_list_lookup [OF sound assms(2)])
  next
    case (Some l)
    then have l: "Some l \<in> set ?xs" "list_name h l = name" using pkg_table.lookup_iff [OF tab] by simp_all
    have b: "bucket_ok h (pks_primary_key s) (pks_merge_rules s) l" by (rule list_in_set(2) [OF sound l(1)])
    then have "\<not> lcfgslist_is_empty l" and valid: "\<And>p. p \<in> set (nodes l) \<Longrightarrow> lcfgpackage_is_valid (h p)"
      by (simp_all add: bucket_ok_def slist_ok_def)
    then have found: "lcfgpkgset_find_package h (Some s) name arch = lcfgpkglist_find_package h (Some l) name arch"
      using Some by (simp add: lcfgpkgset_find_package_def find_list_lookup [OF sound assms(2)])
    have only: "l' = l" if "Some l' \<in> set ?xs" "list_name h l' = name" for l'
      using pkg_table.lookup_iff [OF tab, of name l'] Some that by simp
    show ?thesis
    proof (cases "lcfgpkglist_find_node h (Some l) name arch")
      case None
      then have "\<forall>p\<in>set (nodes l). \<not> lcfgpackage_match (deref h p) name arch"
        using \<open>\<not> lcfgslist_is_empty l\<close> valid by (auto simp: lcfgpkglist_find_node_def first_node_None_iff)
      then have "\<not> lcfgpackage_match (deref h p) name arch" if "p \<in># set_nodes ?xs" for p
        using elsewhere only that by (auto simp: in_set_nodes)
      with None found show ?thesis by (auto simp: lcfgpkglist_find_package_def)
    next
      case (Some i)
      then have "i < length (nodes l)" "lcfgpackage_match (deref h (nodes l ! i)) name arch"
        using first_node_SomeD \<open>\<not> lcfgslist_is_empty l\<close> by (fastforce simp: lcfgpkglist_find_node_def)+
      with Some found l(1) show ?thesis by (auto simp: lcfgpkglist_find_package_def in_set_nodes)
    qed
  qed
qed

theorem pkgset_find_package_spec_witness:
  "lcfgpkgset_find_package priority_heap (Some empty_set) ''foo'' None = None"
proof -
  have "no_nul ''foo''" by (simp add: nul_def)
  from pkgset_find_package_spec [OF empty_set_facts(2) this, of priority_heap None]
  show ?thesis by (cases "lcfgpkgset_find_package priority_heap (Some empty_set) ''foo'' None") simp_all
qed


section \<open>A removal that loses a list\<close>

text \<open>
  With prefixes a list can become empty, and its bucket is then set to null although other
  lists may have been put behind it: \<open>fg\<close>, of the same hash as \<open>a\<close>, is not found any more when
  \<open>-a\<close> has been merged, but its list is still in the set.
\<close>

definition lost_heap :: pkg_heap where
  "lost_heap = [0 \<mapsto> lcfgpackage_new\<lparr>pkg_name := Some ''a''\<rparr>, 1 \<mapsto> lcfgpackage_new\<lparr>pkg_name := Some ''fg''\<rparr>,
     2 \<mapsto> lcfgpackage_new\<lparr>pkg_name := Some ''a'', pkg_prefix := LCFG_PKG_PREFIX_REMOVE\<rparr>]"

definition lost_list :: "nat \<Rightarrow> LCFGPackageList" where
  "lost_list p = lcfgpkglist_new\<lparr>nodes := [p], list_size := 1, pkl_merge_rules := LCFG_MERGE_RULE_USE_PREFIX\<rparr>"

definition lost_set :: LCFGPackageSet where
  "lost_set = empty_set\<lparr>pks_packages := (replicate 113 None)[34 := Some (lost_list 0), 35 := Some (lost_list 1)],
     pks_entries := 2, pks_merge_rules := LCFG_MERGE_RULE_USE_PREFIX\<rparr>"

lemma lost_homes: "unat (lcfgutils_string_djbhash ''a'' []) mod 113 = 34" "unat (lcfgutils_string_djbhash ''fg'' []) mod 113 = 34"
  by (simp_all add: lcfgutils_string_djbhash_def djb_step_def sbyte_def byte_def push_bit_eq_mult)

lemma slot_loop_step: "i < length xs \<Longrightarrow> P (xs ! i) \<Longrightarrow> slot_loop P xs i (length xs) = Some i"
  "i < length xs \<Longrightarrow> \<not> P (xs ! i) \<Longrightarrow> slot_loop P xs i (length xs) = slot_loop P xs (i + 1) (length xs)"
  by (simp_all add: slot_loop.simps [of P xs i])

lemma prefix_removal_loses:
  "lcfgpkgset_find_list lost_heap (Some lost_set) ''fg'' = Some (lost_list 1) \<and>
   (\<exists>h' s' msg. lcfgpkgset_merge_package lost_heap lost_set 2 None = Inr (LCFG_CHANGE_REMOVED, h', s', msg) \<and>
     Some (lost_list 1) \<in> set (pks_packages s') \<and> lcfgpkgset_find_list h' (Some s') ''fg'' = None)"
proof -
  have m: "head_matches lost_heap ''a'' (lost_list 0)" "\<not> head_matches lost_heap ''fg'' (lost_list 0)"
    "head_matches lost_heap ''fg'' (lost_list 1)"
    by (simp_all add: head_matches_def lcfgpkglist_first_package_def lost_list_def lcfgpackage_match_def
        lost_heap_def deref_def lcfgpackage_new_def strcmp_eq_0 LCFG_PKG_WILDCARD_def nul_def)
  have sets: "pks_buckets lost_set = 113" "length (pks_packages lost_set) = 113"
     "pks_packages lost_set ! 34 = Some (lost_list 0)"  "pks_packages lost_set ! 35 = Some (lost_list 1)"
    by (simp_all add: lost_set_def empty_set_def LCFG_PKGSET_DEFAULT_SIZE_def del: replicate.simps)
  have used: "\<not> lcfgpkgset_is_empty (Some lost_set)"
  proof -
    have "Some (lost_list 1) \<in> set (pks_packages lost_set)"
      using nth_mem [of 35 "pks_packages lost_set"] sets(2,4) by simp
    moreover have "bucket_size (Some (lost_list 1)) = 1" by (simp add: bucket_size_def lost_list_def)
    moreover have "pks_entries lost_set = 2" by (simp add: lost_set_def)
    ultimately show ?thesis
      by (force simp: lcfgpkgset_is_empty_def lcfgpkgset_size_def sum_list_eq_0_iff)
  qed
  then have find: "lcfgpkgset_find_list lost_heap (Some lost_set) ''fg'' = Some (lost_list 1)"
    using slot_loop_step [of 34 "pks_packages lost_set" "probe_ends (head_matches lost_heap ''fg'')"]
      slot_loop_step [of 35 "pks_packages lost_set" "probe_ends (head_matches lost_heap ''fg'')"] m sets
    by (simp add: lcfgpkgset_find_list_def lost_homes find_entry_slot find_slot_def probe_ends_def)
  have "lcfgpkgset_hash_string lost_set ''a'' = 34" by (simp add: lcfgpkgset_hash_string_def sets lost_homes)
  then have "find_slot (slot_done lost_heap ''a'') (pks_packages lost_set) (lcfgpkgset_hash_string lost_set ''a'') = Some 34"
    using slot_loop_step(1) [of 34 "pks_packages lost_set" "slot_done lost_heap ''a''"] m sets
    by (simp add: find_slot_def slot_done_def lost_list_def lcfgslist_is_empty_def)
  note slot = this
  let ?h = "relinquish_at 0 lost_heap" and ?l = "(lost_list 0)\<lparr>nodes := [], list_size := 0\<rparr>"
  let ?s = "lost_set\<lparr>pks_packages := (pks_packages lost_set)[34 := None], pks_entries := 1\<rparr>"
  have "lcfgpkglist_merge_package lost_heap (lost_list 0) 2 None = (LCFG_CHANGE_REMOVED, ?h, ?l, None)"
    by (simp add: lcfgpkglist_merge_package_def lost_list_def merge_match_def lost_heap_def deref_def
        lcfgpackage_match_def lcfgpackage_new_def lcfgpkglist_new_def strcmp_eq_0 nul_def lcfgpackage_is_valid_def
        LCFG_PKG_WILDCARD_def merge_actions_def lcfgpkglist_get_merge_rules_def lcfg_flag prefix_plan_def
        prefix_actions_def merge_apply_def lcfgpkglist_remove_next_def lcfgslist_remove_next_def
        LCFG_PKG_PREFIX_REMOVE_def LCFG_PKG_PREFIX_NONE_def LCFG_PKG_PREFIX_PIN_def
        lcfgslist_is_empty_def)
  moreover have rel: "fst (lcfgpkglist_relinquish ?h (Some ?l)) = ?h" and entries: "pks_entries lost_set = 2"
    by (simp_all add: lcfgpkglist_relinquish_def lcfgpkglist_destroy_def lost_list_def lcfgpkglist_new_def lost_set_def)
  moreover have "lcfgpackage_is_valid (lost_heap 2)" "or_default (pkg_name (deref lost_heap 2)) [] = ''a''"
    by (simp_all add: lost_heap_def deref_def lcfgpackage_is_valid_def lcfgpackage_new_def)
  ultimately have "lcfgpkgset_merge_package lost_heap lost_set 2 None = Inr (LCFG_CHANGE_REMOVED, ?h, ?s, None)"
    using slot sets rel entries
    by (simp add: lcfgpkgset_merge_package_def pkgset_merge_package_def lcfgslist_is_empty_def)
  moreover have "Some (lost_list 1) \<in> set (pks_packages ?s)"
    using sets(2,4) nth_mem [of 35 "pks_packages ?s"] by simp
  moreover have "lcfgpkgset_find_list ?h (Some ?s) ''fg'' = None"
    using slot_loop_step(1) [of 34 "pks_packages ?s" "probe_ends (head_matches ?h ''fg'')"] sets(2)
    by (simp add: lcfgpkgset_find_list_def lost_homes find_entry_slot find_slot_def probe_ends_def sets)
  ultimately show ?thesis using find by blast
qed

end
