(* ===== verification/Lcfg_Package_Iter.thy ===== *)
theory Lcfg_Package_Iter
  imports Lcfg_Package_Set
begin

text \<open>
  The iterators over package lists and sets (\<open>packages/iterator.c\<close>, \<open>packages/setiter.c\<close>).
  An iterator keeps the list or set it was made for, with the reference it holds on it; the
  list is taken as it was when the iterator was made.
\<close>

section \<open>Lists\<close>

record LCFGPackageIterator =
  iter_list :: LCFGPackageList
  iter_current :: "nat option"

definition lcfgpkgiter_new :: "LCFGPackageList \<Rightarrow> LCFGPackageIterator" where
  "lcfgpkgiter_new list = \<lparr>iter_list = lcfgpkglist_acquire list, iter_current = None\<rparr>"

definition lcfgpkgiter_destroy ::
    "pkg_heap \<Rightarrow> LCFGPackageIterator option \<Rightarrow> pkg_heap \<times> LCFGPackageList option" where
  "lcfgpkgiter_destroy h iterator =
     (case iterator of None \<Rightarrow> (h, None) | Some it \<Rightarrow> lcfgpkglist_relinquish h (Some (iter_list it)))"

definition lcfgpkgiter_reset :: "LCFGPackageIterator \<Rightarrow> LCFGPackageIterator" where
  "lcfgpkgiter_reset iterator = iterator\<lparr>iter_current := None\<rparr>"

definition lcfgpkgiter_has_next :: "LCFGPackageIterator \<Rightarrow> bool" where
  "lcfgpkgiter_has_next iterator \<longleftrightarrow>
     (case iter_current iterator of
        None \<Rightarrow> \<not> lcfgslist_is_empty (iter_list iterator)
      | Some i \<Rightarrow> i + 1 < length (nodes (iter_list iterator)))"

definition lcfgpkgiter_next :: "LCFGPackageIterator \<Rightarrow> nat option \<times> LCFGPackageIterator" where
  "lcfgpkgiter_next iterator =
     (if \<not> lcfgpkgiter_has_next iterator then (None, iterator)
      else let i = (case iter_current iterator of None \<Rightarrow> 0 | Some j \<Rightarrow> j + 1)
           in (Some (nodes (iter_list iterator) ! i), iterator\<lparr>iter_current := Some i\<rparr>))"

section \<open>Sets\<close>

record LCFGPkgSetIterator =
  siter_set :: LCFGPackageSet
  siter_listiter :: "LCFGPackageIterator option"
  siter_current :: int

definition lcfgpkgsetiter_new :: "LCFGPackageSet \<Rightarrow> LCFGPkgSetIterator" where
  "lcfgpkgsetiter_new pkgset =
     \<lparr>siter_set = lcfgpkgset_acquire pkgset, siter_listiter = None, siter_current = - 1\<rparr>"

definition lcfgpkgsetiter_destroy ::
    "pkg_heap \<Rightarrow> LCFGPkgSetIterator option \<Rightarrow> pkg_heap \<times> LCFGPackageSet option" where
  "lcfgpkgsetiter_destroy h iterator =
     (case iterator of
        None \<Rightarrow> (h, None)
      | Some it \<Rightarrow>
          (case lcfgpkgset_relinquish h (Some (siter_set it)) of (h', pkgset) \<Rightarrow>
             (fst (lcfgpkgiter_destroy h' (siter_listiter it)), pkgset)))"

definition lcfgpkgsetiter_reset :: "pkg_heap \<Rightarrow> LCFGPkgSetIterator \<Rightarrow> pkg_heap \<times> LCFGPkgSetIterator" where
  "lcfgpkgsetiter_reset h iterator =
     (fst (lcfgpkgiter_destroy h (siter_listiter iterator)),
      iterator\<lparr>siter_listiter := None, siter_current := - 1\<rparr>)"

fun has_next_loop :: "LCFGPackageList option list \<Rightarrow> bool \<Rightarrow> bool" where
  "has_next_loop [] has_next = has_next"
| "has_next_loop (b # bs) has_next =
     (if has_next then has_next
      else has_next_loop bs (case b of None \<Rightarrow> has_next | Some l \<Rightarrow> \<not> lcfgslist_is_empty l))"

definition lcfgpkgsetiter_has_next :: "LCFGPkgSetIterator \<Rightarrow> bool" where
  "lcfgpkgsetiter_has_next iterator \<longleftrightarrow>
     has_next_loop (drop (nat (siter_current iterator + 1)) (pks_packages (siter_set iterator)))
       (case siter_listiter iterator of None \<Rightarrow> False | Some it \<Rightarrow> lcfgpkgiter_has_next it)"

text \<open>
  The loop that looks for the next list. The bound casts the position to 32 bits, so the
  loop would not end for a set of 2 to the 32 buckets: the value is \<open>None\<close> then.
\<close>

partial_function (option) setiter_loop ::
    "nat option \<Rightarrow> LCFGPkgSetIterator \<Rightarrow> (nat option \<times> LCFGPkgSetIterator) option" where
  "setiter_loop next_pkg iterator =
     (if next_pkg = None \<and> (siter_current iterator + 1) mod 2 ^ 32 < int (pks_buckets (siter_set iterator))
      then let cur_pos = siter_current iterator + 1;
               it = iterator\<lparr>siter_current := cur_pos\<rparr>
           in case pks_packages (siter_set iterator) ! nat cur_pos of
                None \<Rightarrow> setiter_loop next_pkg it
              | Some l \<Rightarrow>
                  if lcfgslist_is_empty l then setiter_loop next_pkg it
                  else (case lcfgpkgiter_next (lcfgpkgiter_new l) of (n, listiter) \<Rightarrow>
                    setiter_loop n (it\<lparr>siter_listiter := Some listiter\<rparr>))
      else Some (next_pkg, iterator))"

definition lcfgpkgsetiter_next :: "LCFGPkgSetIterator \<Rightarrow> (nat option \<times> LCFGPkgSetIterator) option" where
  "lcfgpkgsetiter_next iterator =
     (case siter_listiter iterator of
        None \<Rightarrow> setiter_loop None iterator
      | Some it \<Rightarrow>
          (case lcfgpkgiter_next it of (n, it') \<Rightarrow> setiter_loop n (iterator\<lparr>siter_listiter := Some it'\<rparr>)))"

section \<open>What is still to come\<close>

definition list_rest :: "LCFGPackageIterator \<Rightarrow> nat list" where
  "list_rest it = (case iter_current it of None \<Rightarrow> nodes (iter_list it) | Some i \<Rightarrow> drop (i + 1) (nodes (iter_list it)))"

definition bucket_list :: "LCFGPackageList option \<Rightarrow> nat list" where
  "bucket_list b = (case b of None \<Rightarrow> [] | Some l \<Rightarrow> nodes l)"

definition set_rest :: "LCFGPkgSetIterator \<Rightarrow> nat list" where
  "set_rest it = (case siter_listiter it of None \<Rightarrow> [] | Some li \<Rightarrow> list_rest li) @
     concat (map bucket_list (drop (nat (siter_current it + 1)) (pks_packages (siter_set it))))"

definition list_iter_ok :: "LCFGPackageIterator \<Rightarrow> bool" where
  "list_iter_ok it \<longleftrightarrow> slist_ok (iter_list it)"

lemma list_next:
  assumes "list_iter_ok it"
  shows "lcfgpkgiter_has_next it \<longleftrightarrow> list_rest it \<noteq> []"
    and "list_rest it = [] \<Longrightarrow> lcfgpkgiter_next it = (None, it)"
    and "list_rest it = p # ps \<Longrightarrow>
      \<exists>it'. lcfgpkgiter_next it = (Some p, it') \<and> list_rest it' = ps \<and> list_iter_ok it'"
proof -
  show has: "lcfgpkgiter_has_next it \<longleftrightarrow> list_rest it \<noteq> []"
    using assms by (auto simp: lcfgpkgiter_has_next_def list_rest_def list_iter_ok_def slist_ok_def split: option.splits)
  then show "list_rest it = [] \<Longrightarrow> lcfgpkgiter_next it = (None, it)" by (simp add: lcfgpkgiter_next_def)
  assume rest: "list_rest it = p # ps"
  let ?i = "case iter_current it of None \<Rightarrow> 0 | Some j \<Rightarrow> j + 1"
  have drop: "drop ?i (nodes (iter_list it)) = p # ps" using rest by (simp add: list_rest_def split: option.splits)
  then have "nodes (iter_list it) ! ?i = p" by (metis nth_via_drop)
  moreover have "drop (?i + 1) (nodes (iter_list it)) = ps" using drop by (metis Suc_eq_plus1 drop_Suc list.sel(3) tl_drop)
  ultimately show "\<exists>it'. lcfgpkgiter_next it = (Some p, it') \<and> list_rest it' = ps \<and> list_iter_ok it'"
    using has rest assms by (simp add: lcfgpkgiter_next_def list_rest_def list_iter_ok_def)
qed

definition set_iter_ok :: "LCFGPkgSetIterator \<Rightarrow> bool" where
  "set_iter_ok it \<longleftrightarrow> - 1 \<le> siter_current it \<and> siter_current it < int (pks_buckets (siter_set it)) \<and>
     pks_buckets (siter_set it) = length (pks_packages (siter_set it)) \<and> pks_buckets (siter_set it) < 2 ^ 32 \<and>
     (\<forall>l. Some l \<in> set (pks_packages (siter_set it)) \<longrightarrow> slist_ok l) \<and>
     (\<forall>li. siter_listiter it = Some li \<longrightarrow> list_iter_ok li)"

lemma setiter_loop_next:
  assumes "set_iter_ok it" and "siter_listiter it = None \<or> (\<exists>li. siter_listiter it = Some li \<and> list_rest li = [])"
  shows "\<exists>it'. setiter_loop None it = Some (if set_rest it = [] then None else Some (hd (set_rest it)), it') \<and>
    set_rest it' = tl (set_rest it) \<and> set_iter_ok it'"
  using assms
proof (induction "pks_buckets (siter_set it) - nat (siter_current it + 1)" arbitrary: it rule: less_induct)
  case less
  let ?s = "siter_set it" and ?pos = "siter_current it + 1"
  note ok = less.prems(1) [unfolded set_iter_ok_def]
  have here: "set_rest it = concat (map bucket_list (drop (nat ?pos) (pks_packages ?s)))"
    using less.prems(2) by (auto simp: set_rest_def)
  show ?case
  proof (cases "?pos < int (pks_buckets ?s)")
    case False
    then have "set_rest it = []" "?pos mod 2 ^ 32 = ?pos" using ok here by auto
    with False less.prems(1) show ?thesis by (subst setiter_loop.simps) auto
  next
    case True
    then have pos: "?pos mod 2 ^ 32 < int (pks_buckets ?s)" "nat ?pos < length (pks_packages ?s)" using ok by auto
    let ?it = "it\<lparr>siter_current := ?pos\<rparr>"
    have split: "drop (nat ?pos) (pks_packages ?s) =
        pks_packages ?s ! nat ?pos # drop (nat (?pos + 1)) (pks_packages ?s)"
    proof -
      have "nat (?pos + 1) = Suc (nat ?pos)" using ok by linarith
      then show ?thesis using Cons_nth_drop_Suc [OF pos(2)] by simp
    qed
    have ok': "set_iter_ok ?it" using less.prems(1) True by (simp add: set_iter_ok_def)
    have smaller: "pks_buckets (siter_set ?it) - nat (siter_current ?it + 1) < pks_buckets ?s - nat ?pos"
      using True ok by auto
    note IH = less.hyps [OF smaller ok']
    show ?thesis
    proof (cases "bucket_list (pks_packages ?s ! nat ?pos) = []")
      case True
      then have r: "set_rest ?it = set_rest it" using here split less.prems(2) by (auto simp: set_rest_def)
      have s: "setiter_loop None it = setiter_loop None ?it"
      proof (cases "pks_packages ?s ! nat ?pos")
        case None
        then show ?thesis using pos(1) by (subst setiter_loop.simps) (simp add: Let_def)
      next
        case (Some l)
        then have "slist_ok l" using ok nth_mem [OF pos(2)] by simp
        then have "lcfgslist_is_empty l" using True Some by (simp add: bucket_list_def slist_ok_def)
        with Some pos(1) show ?thesis by (subst setiter_loop.simps) (simp add: Let_def)
      qed
      have "siter_listiter ?it = None \<or> (\<exists>li. siter_listiter ?it = Some li \<and> list_rest li = [])"
        using less.prems(2) by simp
      from IH [OF this] show ?thesis unfolding s r .
    next
      case False
      then obtain l where l: "pks_packages ?s ! nat ?pos = Some l" "nodes l \<noteq> []"
        by (auto simp: bucket_list_def split: option.splits)
      have "slist_ok l" using ok l(1) nth_mem [OF pos(2)] by simp
      let ?li = "lcfgpkgiter_new l"
      have li: "list_iter_ok ?li" "list_rest ?li = nodes l"
        using \<open>slist_ok l\<close> by (simp_all add: lcfgpkgiter_new_def list_iter_ok_def list_rest_def
            lcfgpkglist_acquire_def slist_ok_def)
      obtain p ps where ps: "nodes l = p # ps" using l(2) by (cases "nodes l") auto
      obtain li' where li': "lcfgpkgiter_next ?li = (Some p, li')" "list_rest li' = ps" "list_iter_ok li'"
        using list_next(3) [OF li(1)] li(2) ps by metis
      have "\<not> lcfgslist_is_empty l" using \<open>slist_ok l\<close> l(2) by (simp add: slist_ok_def)
      then have "setiter_loop None it = Some (Some p, ?it\<lparr>siter_listiter := Some li'\<rparr>)"
        using pos(1) l(1) li'(1) by (subst setiter_loop.simps, subst setiter_loop.simps) (simp add: Let_def)
      moreover have "set_rest it = p # set_rest (?it\<lparr>siter_listiter := Some li'\<rparr>)"
        using here split l(1) ps li'(2) by (simp add: set_rest_def bucket_list_def)
      moreover have "set_iter_ok (?it\<lparr>siter_listiter := Some li'\<rparr>)"
        using ok' li'(3) by (simp add: set_iter_ok_def)
      ultimately show ?thesis by simp
    qed
  qed
qed

lemma setiter_next:
  assumes "set_iter_ok it"
  shows "\<exists>it'. lcfgpkgsetiter_next it = Some (if set_rest it = [] then None else Some (hd (set_rest it)), it') \<and>
    set_rest it' = tl (set_rest it) \<and> set_iter_ok it'"
proof (cases "siter_listiter it")
  case None
  with setiter_loop_next [OF assms] show ?thesis by (simp add: lcfgpkgsetiter_next_def)
next
  case (Some li)
  then have li: "list_iter_ok li" using assms by (simp add: set_iter_ok_def)
  show ?thesis
  proof (cases "list_rest li")
    case Nil
    have same: "it\<lparr>siter_listiter := Some li\<rparr> = it" using Some by (cases it) simp
    have "lcfgpkgsetiter_next it = setiter_loop None (it\<lparr>siter_listiter := Some li\<rparr>)"
      using Some list_next(2) [OF li Nil] by (simp add: lcfgpkgsetiter_next_def)
    then have "lcfgpkgsetiter_next it = setiter_loop None it" unfolding same .
    with setiter_loop_next [OF assms] Some Nil show ?thesis by simp
  next
    case (Cons p ps)
    obtain li' where li': "lcfgpkgiter_next li = (Some p, li')" "list_rest li' = ps" "list_iter_ok li'"
      using list_next(3) [OF li Cons] by blast
    let ?it = "it\<lparr>siter_listiter := Some li'\<rparr>"
    have "lcfgpkgsetiter_next it = Some (Some p, ?it)"
      using Some li'(1) by (subst lcfgpkgsetiter_next_def) (simp, subst setiter_loop.simps, simp)
    moreover have "set_rest it = p # set_rest ?it" using Some Cons li'(2) by (simp add: set_rest_def)
    moreover have "set_iter_ok ?it" using assms li'(3) by (simp add: set_iter_ok_def)
    ultimately show ?thesis by simp
  qed
qed

lemma has_next_loop_iff:
  "\<forall>l. Some l \<in> set bs \<longrightarrow> slist_ok l \<Longrightarrow> has_next_loop bs f \<longleftrightarrow> f \<or> concat (map bucket_list bs) \<noteq> []"
proof (induction bs arbitrary: f)
  case (Cons b bs)
  have bs: "\<forall>l. Some l \<in> set bs \<longrightarrow> slist_ok l" using Cons.prems by auto
  have "(case b of None \<Rightarrow> False | Some l \<Rightarrow> \<not> lcfgslist_is_empty l) \<longleftrightarrow> bucket_list b \<noteq> []"
  proof (cases b)
    case (Some l)
    then have "slist_ok l" using Cons.prems by auto
    with Some show ?thesis by (simp add: bucket_list_def slist_ok_def)
  qed (simp add: bucket_list_def)
  with Cons.IH [OF bs] show ?case by (cases f) (cases "bucket_list b", auto)
qed simp

lemma setiter_has_next:
  assumes "set_iter_ok it"
  shows "lcfgpkgsetiter_has_next it \<longleftrightarrow> set_rest it \<noteq> []"
proof -
  have "\<forall>l. Some l \<in> set (drop (nat (siter_current it + 1)) (pks_packages (siter_set it))) \<longrightarrow> slist_ok l"
    using assms by (auto simp: set_iter_ok_def dest: in_set_dropD)
  note loop = has_next_loop_iff [OF this]
  have "(case siter_listiter it of None \<Rightarrow> False | Some li \<Rightarrow> lcfgpkgiter_has_next li) \<longleftrightarrow>
      (case siter_listiter it of None \<Rightarrow> [] | Some li \<Rightarrow> list_rest li) \<noteq> []"
  proof (cases "siter_listiter it")
    case (Some li)
    then have "list_iter_ok li" using assms by (simp add: set_iter_ok_def)
    from list_next(1) [OF this] Some show ?thesis by simp
  qed simp
  then show ?thesis unfolding lcfgpkgsetiter_has_next_def loop set_rest_def append_is_Nil_conv by blast
qed

text \<open>The packages that the first \<open>n\<close> calls return.\<close>

fun drain :: "nat \<Rightarrow> LCFGPkgSetIterator \<Rightarrow> nat list option" where
  "drain 0 it = Some []"
| "drain (Suc n) it =
     (if lcfgpkgsetiter_has_next it
      then (case lcfgpkgsetiter_next it of
              Some (Some p, it') \<Rightarrow> map_option ((#) p) (drain n it')
            | _ \<Rightarrow> None)
      else Some [])"

lemma drain_rest: "set_iter_ok it \<Longrightarrow> drain n it = Some (take n (set_rest it))"
proof (induction n arbitrary: it)
  case (Suc n)
  obtain it' where it': "lcfgpkgsetiter_next it =
      Some (if set_rest it = [] then None else Some (hd (set_rest it)), it')"
    "set_rest it' = tl (set_rest it)" "set_iter_ok it'"
    using setiter_next [OF Suc.prems] by blast
  show ?case
  proof (cases "set_rest it")
    case Nil
    then show ?thesis using setiter_has_next [OF Suc.prems] by simp
  next
    case (Cons p ps)
    then show ?thesis using setiter_has_next [OF Suc.prems] it' Suc.IH [OF it'(3)] by simp
  qed
qed simp

text \<open>
  C23: iterating over a package set visits each package of each list once, bucket by bucket and
  in the order of the lists: as long as the set has fewer than 2 to the 32 buckets, every call
  of \<open>lcfgpkgsetiter_next\<close> returns, \<open>lcfgpkgsetiter_has_next\<close> says whether there is a package to
  come, and the calls made while it does return exactly the packages of the set.
\<close>
theorem pkgset_iteration_complete:
  assumes "pkgset_ok h s" and "pks_buckets s < 2 ^ 32" and "size (set_nodes (pks_packages s)) \<le> n"
  shows "\<exists>ps. drain n (lcfgpkgsetiter_new s) = Some ps \<and> ps = concat (map bucket_list (pks_packages s)) \<and>
    mset ps = set_nodes (pks_packages s)"
proof -
  let ?it = "lcfgpkgsetiter_new s" and ?all = "concat (map bucket_list (pks_packages s))"
  have ok: "set_iter_ok ?it"
    using assms(1,2) by (auto simp: set_iter_ok_def lcfgpkgsetiter_new_def lcfgpkgset_acquire_def pkgset_ok_def
        pkgset_sound_def bucket_ok_def)
  have all: "mset (concat (map bucket_list xs)) = set_nodes xs" for xs
    by (induction xs) (auto simp: bucket_list_def split: option.splits)
  have "set_rest ?it = ?all" by (simp add: set_rest_def lcfgpkgsetiter_new_def lcfgpkgset_acquire_def)
  moreover have "length ?all \<le> n" using assms(3) all [of "pks_packages s"] by (metis size_mset)
  ultimately show ?thesis using drain_rest [OF ok, of n] all by simp
qed

theorem pkgset_iteration_complete_witness:
  "drain 3 (lcfgpkgsetiter_new empty_set) = Some []"
proof -
  have "pks_buckets empty_set < 2 ^ 32" "size (set_nodes (pks_packages empty_set)) \<le> 3"
    by (simp_all add: empty_set_def LCFG_PKGSET_DEFAULT_SIZE_def del: replicate.simps)
  from pkgset_iteration_complete [OF empty_set_facts(2) this] show ?thesis by auto
qed

end
