(* ===== verification/Lcfg_Derivation_Map.thy ===== *)
theory Lcfg_Derivation_Map
  imports Lcfg_Probe Lcfg_Derivation
begin

text \<open>
  The derivation map (\<open>common/derivation/map.c\<close>): a hash table of derivation lists under the
  hash of the text they were parsed from, so that equal texts share a list. The hash
  \<open>farmhash64\<close> is third-party code and a parameter. Lists are values here; the sharing shows
  as equality.
\<close>

section \<open>The map\<close>

record LCFGDerivationMap =
  dm_derivations :: "LCFGDerivationList option list"
  dm_buckets :: nat
  dm_entries :: nat
  dm_refcount :: nat

definition LCFG_DRVMAP_DEFAULT_SIZE :: nat where "LCFG_DRVMAP_DEFAULT_SIZE = 1999"

text \<open>A resize that fails ends the process with a message.\<close>

type_synonym 'a drv_run = "string option + 'a"

definition lcfgderivmap_acquire :: "LCFGDerivationMap \<Rightarrow> LCFGDerivationMap" where
  "lcfgderivmap_acquire drvmap = drvmap\<lparr>dm_refcount := dm_refcount drvmap + 1\<rparr>"

definition lcfgderivmap_relinquish :: "LCFGDerivationMap option \<Rightarrow> LCFGDerivationMap option" where
  "lcfgderivmap_relinquish drvmap =
     (case drvmap of
        None \<Rightarrow> None
      | Some m \<Rightarrow>
          let m' = (if 0 < dm_refcount m then m\<lparr>dm_refcount := dm_refcount m - 1\<rparr> else m)
          in if dm_refcount m' = 0 then None else Some m')"

definition lcfgderivmap_is_shared :: "LCFGDerivationMap \<Rightarrow> bool" where
  "lcfgderivmap_is_shared drvmap \<longleftrightarrow> 1 < dm_refcount drvmap"

definition drv_slot_done :: "64 word \<Rightarrow> LCFGDerivationList option \<Rightarrow> bool" where
  "drv_slot_done list_id b \<longleftrightarrow> (case b of None \<Rightarrow> True | Some l \<Rightarrow> drvlist_id l = list_id)"

text \<open>
  \<open>lcfgdrvmap_insert_list\<close>, with the function that resizes as an argument: the two call each
  other, and the depth of the nesting is bounded as for package sets.
\<close>

definition drvmap_insert_list ::
    "(LCFGDerivationMap \<Rightarrow> LCFGDerivationMap drv_run) \<Rightarrow> LCFGDerivationMap \<Rightarrow> LCFGDerivationList option \<Rightarrow> cstr \<Rightarrow>
     (LCFGChange \<times> LCFGDerivationMap \<times> cstr) drv_run" where
  "drvmap_insert_list resize drvmap drvlist msg =
     (if lcfgderivlist_is_empty drvlist then Inr (LCFG_CHANGE_NONE, drvmap, msg)
      else let list_id = drvlist_id (the drvlist);
               hash = unat list_id mod dm_buckets drvmap;
               derivations = dm_derivations drvmap
           in case find_slot (drv_slot_done list_id) derivations hash of
        None \<Rightarrow> Inr (LCFG_CHANGE_ERROR, drvmap, Some ''No free space for new entries in derivation map'')
      | Some slot \<Rightarrow>
          if derivations ! slot \<noteq> None
          then Inr (LCFG_CHANGE_REPLACED, drvmap\<lparr>dm_derivations := derivations[slot := drvlist]\<rparr>, msg)
          else map_sum (\<lambda>stop. stop) (\<lambda>drvmap'. (LCFG_CHANGE_ADDED, drvmap', msg))
            (resize (drvmap\<lparr>dm_derivations := derivations[slot := drvlist], dm_entries := dm_entries drvmap + 1\<rparr>)))"

fun drv_rehash_loop ::
    "(LCFGDerivationMap \<Rightarrow> LCFGDerivationList option \<Rightarrow> cstr \<Rightarrow> (LCFGChange \<times> LCFGDerivationMap \<times> cstr) drv_run) \<Rightarrow>
     LCFGDerivationList option list \<Rightarrow> LCFGDerivationMap \<Rightarrow> LCFGDerivationMap drv_run" where
  "drv_rehash_loop insert_list [] drvmap = Inr drvmap"
| "drv_rehash_loop insert_list (b # bs) drvmap =
     (if lcfgderivlist_is_empty b then drv_rehash_loop insert_list bs drvmap
      else case insert_list drvmap b None of
        Inl stop \<Rightarrow> Inl stop
      | Inr (insert_rc, drvmap', insert_msg) \<Rightarrow>
          if insert_rc = LCFG_CHANGE_ERROR
          then Inl (Some (''Failed to resize derivation map: '' @ or_default insert_msg ''(null)'' @ [CHR 0x0A]))
          else drv_rehash_loop insert_list bs drvmap')"

fun drvmap_resize :: "nat \<Rightarrow> LCFGDerivationMap \<Rightarrow> LCFGDerivationMap drv_run" where
  "drvmap_resize 0 drvmap = Inl None"
| "drvmap_resize (Suc depth) drvmap =
     (let want = want_buckets (dm_entries drvmap) (dm_buckets drvmap);
          cur_set = dm_derivations drvmap
      in if cur_set \<noteq> [] \<and> want \<le> dm_buckets drvmap then Inr drvmap
         else drv_rehash_loop (drvmap_insert_list (drvmap_resize depth)) cur_set
           (drvmap\<lparr>dm_derivations := replicate want None, dm_entries := 0, dm_buckets := want\<rparr>))"

definition lcfgderivmap_resize :: "LCFGDerivationMap \<Rightarrow> LCFGDerivationMap drv_run" where
  "lcfgderivmap_resize = drvmap_resize 2"

definition lcfgderivmap_new :: "LCFGDerivationMap drv_run" where
  "lcfgderivmap_new =
     lcfgderivmap_resize \<lparr>dm_derivations = [], dm_buckets = LCFG_DRVMAP_DEFAULT_SIZE, dm_entries = 0, dm_refcount = 1\<rparr>"

definition lcfgdrvmap_insert_list ::
    "LCFGDerivationMap \<Rightarrow> LCFGDerivationList option \<Rightarrow> cstr \<Rightarrow> (LCFGChange \<times> LCFGDerivationMap \<times> cstr) drv_run" where
  "lcfgdrvmap_insert_list = drvmap_insert_list lcfgderivmap_resize"

definition lcfgderivmap_find_or_insert_string ::
    "(string \<Rightarrow> 64 word) \<Rightarrow> LCFGDerivationMap \<Rightarrow> cstr \<Rightarrow> cstr \<Rightarrow>
     (LCFGDerivationList option \<times> LCFGDerivationMap \<times> cstr) drv_run" where
  "lcfgderivmap_find_or_insert_string farmhash64 drvmap deriv_as_str msg =
     (if isempty deriv_as_str then Inr (None, drvmap, Some ''Empty derivation'')
      else let str = or_default deriv_as_str [];
               list_id = farmhash64 str;
               hash = unat list_id mod dm_buckets drvmap;
               derivations = dm_derivations drvmap
           in case find_slot (drv_slot_done list_id) derivations hash of
        None \<Rightarrow> Inr (None, drvmap, Some ''No free space for new entries in derivation map'')
      | Some slot \<Rightarrow>
          (case derivations ! slot of
             Some l \<Rightarrow> Inr (Some l, drvmap, msg)
           | None \<Rightarrow>
               (case lcfgderivlist_from_string deriv_as_str of
                  Inl parse_msg \<Rightarrow> Inr (None, drvmap, Some parse_msg)
                | Inr drvlist \<Rightarrow>
                    if lcfgderivlist_is_empty (Some drvlist) then Inr (None, drvmap, msg)
                    else let drvlist' = drvlist\<lparr>drvlist_id := list_id\<rparr> in
                      map_sum (\<lambda>stop. stop) (\<lambda>drvmap'. (Some drvlist', drvmap', msg))
                        (lcfgderivmap_resize (drvmap\<lparr>dm_derivations := derivations[slot := Some drvlist'],
                          dm_entries := dm_entries drvmap + 1\<rparr>)))))"


section \<open>The table of a map\<close>

definition drv_home :: "64 word \<Rightarrow> nat \<Rightarrow> nat" where
  "drv_home list_id n = unat list_id mod n"

interpretation drv_table: probing drv_home drvlist_id
  by unfold_locales (simp add: drv_home_def)

definition drvmap_sound :: "LCFGDerivationMap \<Rightarrow> bool" where
  "drvmap_sound m \<longleftrightarrow> dm_buckets m = length (dm_derivations m) \<and> dm_entries m = used (dm_derivations m) \<and>
     drv_table.table_ok (dm_derivations m) \<and>
     (\<forall>l. Some l \<in> set (dm_derivations m) \<longrightarrow> \<not> lcfgderivlist_is_empty (Some l))"

definition drvmap_ok :: "LCFGDerivationMap \<Rightarrow> bool" where
  "drvmap_ok m \<longleftrightarrow> drvmap_sound m \<and> 10 * dm_entries m < 7 * dm_buckets m"

definition drvmap_lookup :: "LCFGDerivationMap \<Rightarrow> 64 word \<Rightarrow> LCFGDerivationList option" where
  "drvmap_lookup m list_id = drv_table.lookup (dm_derivations m) list_id"

lemma drv_slot_search:
  assumes "drvmap_sound m"
  shows "find_slot (drv_slot_done list_id) (dm_derivations m) (unat list_id mod dm_buckets m) =
    drv_table.slot_of (dm_derivations m) list_id"
proof -
  have "drv_slot_done list_id = drv_table.stop_at list_id"
    by (rule ext) (simp add: drv_slot_done_def drv_table.stop_at_def probe_ends_def split: option.splits)
  then show ?thesis using assms by (simp add: drv_table.slot_of_def drv_home_def drvmap_sound_def)
qed

lemma drv_no_resize:
  assumes "10 * dm_entries m < 7 * dm_buckets m" and "dm_derivations m \<noteq> []"
  shows "drvmap_resize (Suc depth) m = Inr m"
  using assms by (simp add: want_buckets_def)

text \<open>A list put back into a map that has room for it.\<close>

lemma reinsert_list:
  assumes "drvmap_sound m" and "\<not> lcfgderivlist_is_empty (Some l)"
    and "\<And>l'. Some l' \<in> set (dm_derivations m) \<Longrightarrow> drvlist_id l' \<noteq> drvlist_id l"
    and "10 * (dm_entries m + 1) < 7 * dm_buckets m"
  defines "m' \<equiv> m\<lparr>dm_derivations := drv_table.store l (dm_derivations m), dm_entries := dm_entries m + 1\<rparr>"
  shows "drvmap_insert_list (drvmap_resize (Suc depth)) m (Some l) msg = Inr (LCFG_CHANGE_ADDED, m', msg)"
    and "drvmap_sound m'" and "Some a \<in> set (dm_derivations m') \<longleftrightarrow> a = l \<or> Some a \<in> set (dm_derivations m)"
proof -
  let ?xs = "dm_derivations m"
  have m: "dm_buckets m = length ?xs" "dm_entries m = used ?xs" "drv_table.table_ok ?xs"
    using assms(1) by (simp_all add: drvmap_sound_def)
  have room: "used ?xs < length ?xs" using assms(4) unfolding m(1,2) by simp
  have "drv_table.lookup ?xs (drvlist_id l) = None"
    using drv_table.lookup_iff [OF m(3), of "drvlist_id l"] assms(3) by (metis not_None_eq)
  then obtain i where i: "drv_table.slot_of ?xs (drvlist_id l) = Some i" "i < length ?xs" "?xs ! i = None"
    using drv_table.slot_of_free [OF m(3) _ used_free [OF room]] by blast
  have store: "drv_table.store l ?xs = ?xs[i := Some l]" using i(1) by (simp add: drv_table.store_def)
  have "dm_derivations m' \<noteq> []" using i(2) by (auto simp: m'_def store)
  then have "drvmap_resize (Suc depth) m' = Inr m'"
    by (intro drv_no_resize) (use assms(4) in \<open>simp_all add: m'_def\<close>)
  then show "drvmap_insert_list (drvmap_resize (Suc depth)) m (Some l) msg = Inr (LCFG_CHANGE_ADDED, m', msg)"
    using assms(2) i drv_slot_search [OF assms(1)] store
    by (simp add: drvmap_insert_list_def m'_def del: drvmap_resize.simps)
  have new: "\<forall>b. Some b \<in> set ?xs \<longrightarrow> drvlist_id b \<noteq> drvlist_id l" using assms(3) by blast
  note st = drv_table.store_new [OF m(3) new room]
  show "Some a \<in> set (dm_derivations m') \<longleftrightarrow> a = l \<or> Some a \<in> set ?xs" using st(2) by (simp add: m'_def)
  show "drvmap_sound m'"
    using st assms(1,2) m(1,2) by (auto simp: drvmap_sound_def m'_def)
qed

lemma drv_rehash:
  assumes "drvmap_sound m" and "\<And>l. Some l \<in> set bs \<Longrightarrow> \<not> lcfgderivlist_is_empty (Some l)"
    and "\<And>l l'. Some l \<in> set bs \<Longrightarrow> Some l' \<in> set (dm_derivations m) \<Longrightarrow> drvlist_id l' \<noteq> drvlist_id l"
    and "distinct (map drvlist_id (entries_of bs))"
    and "10 * (dm_entries m + used bs) < 7 * dm_buckets m"
  shows "drv_rehash_loop (drvmap_insert_list (drvmap_resize (Suc depth))) bs m =
    Inr (m\<lparr>dm_derivations := fold drv_table.store (entries_of bs) (dm_derivations m),
          dm_entries := dm_entries m + used bs\<rparr>)"
  using assms
proof (induction bs arbitrary: m)
  case (Cons b bs)
  show ?case
  proof (cases b)
    case None
    then show ?thesis using Cons.IH [of m] Cons.prems by (simp add: lcfgderivlist_is_empty_def)
  next
    case (Some l)
    let ?m = "m\<lparr>dm_derivations := drv_table.store l (dm_derivations m), dm_entries := dm_entries m + 1\<rparr>"
    have l: "\<not> lcfgderivlist_is_empty (Some l)" using Cons.prems(2) Some by simp
    have new: "\<And>l'. Some l' \<in> set (dm_derivations m) \<Longrightarrow> drvlist_id l' \<noteq> drvlist_id l"
      using Cons.prems(3) Some by simp
    have room: "10 * (dm_entries m + 1) < 7 * dm_buckets m" using Cons.prems(5) Some by simp
    note r = reinsert_list [OF Cons.prems(1) l new room]
    have "drv_rehash_loop (drvmap_insert_list (drvmap_resize (Suc depth))) bs ?m =
      Inr (?m\<lparr>dm_derivations := fold drv_table.store (entries_of bs) (dm_derivations ?m),
            dm_entries := dm_entries ?m + used bs\<rparr>)"
    proof (rule Cons.IH [OF r(2)])
      fix l1 l2 assume "Some l1 \<in> set bs" "Some l2 \<in> set (dm_derivations ?m)"
      then show "drvlist_id l2 \<noteq> drvlist_id l1"
        using r(3) [of l2] Cons.prems(3,4) Some by auto
    qed (use Cons.prems Some in auto)
    then show ?thesis using r(1) Some l by (simp del: drvmap_resize.simps)
  qed
qed simp

lemma drv_resize:
  assumes "drvmap_sound m"
  shows "\<exists>m'. lcfgderivmap_resize m = Inr m' \<and> drvmap_ok m' \<and>
    (\<forall>l. Some l \<in> set (dm_derivations m') \<longleftrightarrow> Some l \<in> set (dm_derivations m))"
proof (cases "10 * dm_entries m < 7 * dm_buckets m")
  case True
  have "dm_derivations m \<noteq> []" using assms by (simp add: drvmap_sound_def drv_table.table_ok_def)
  from drv_no_resize [OF True this, of 1] True assms show ?thesis
    by (simp add: lcfgderivmap_resize_def numeral_2_eq_2 drvmap_ok_def del: drvmap_resize.simps)
next
  case False
  let ?xs = "dm_derivations m" and ?n = "2 * dm_entries m + 1"
  let ?m = "m\<lparr>dm_derivations := replicate ?n None, dm_entries := 0, dm_buckets := ?n\<rparr>"
  let ?ys = "fold drv_table.store (entries_of ?xs) (replicate ?n None)"
  have m: "dm_entries m = used ?xs" "drv_table.table_ok ?xs"
    "\<And>l. Some l \<in> set ?xs \<Longrightarrow> \<not> lcfgderivlist_is_empty (Some l)"
    using assms by (simp_all add: drvmap_sound_def)
  note dist = drv_table.table_distinct [OF m(2)]
  have tab0: "drv_table.table_ok (replicate ?n None)" by (rule drv_table.table_empty) simp
  have "used (replicate ?n None) + length (entries_of ?xs) < length (replicate ?n None)" using m(1) by simp
  note st = drv_table.fold_store [OF tab0 dist this]
  have ys: "drv_table.table_ok ?ys" "used ?ys = used ?xs" "length ?ys = ?n"
    "\<And>l. Some l \<in> set ?ys \<longleftrightarrow> Some l \<in> set ?xs" using st by auto
  let ?m' = "?m\<lparr>dm_derivations := ?ys, dm_entries := used ?xs\<rparr>"
  have "drvmap_sound ?m" using tab0 by (simp add: drvmap_sound_def)
  then have "drv_rehash_loop (drvmap_insert_list (drvmap_resize (Suc 0))) ?xs ?m =
      Inr (?m\<lparr>dm_derivations := fold drv_table.store (entries_of ?xs) (dm_derivations ?m),
            dm_entries := dm_entries ?m + used ?xs\<rparr>)"
    by (rule drv_rehash) (use m dist in \<open>auto simp del: replicate.simps\<close>)
  moreover have "want_buckets (dm_entries m) (dm_buckets m) = ?n" "\<not> ?n \<le> dm_buckets m"
    using False by (simp_all add: want_buckets_def)
  ultimately have "lcfgderivmap_resize m = Inr ?m'"
    unfolding lcfgderivmap_resize_def numeral_2_eq_2
    by (subst drvmap_resize.simps) (simp add: Let_def del: drvmap_resize.simps replicate.simps)
  moreover have "drvmap_ok ?m'" using m(1,3) ys by (simp add: drvmap_ok_def drvmap_sound_def)
  ultimately show ?thesis using ys(4) by (intro exI [of _ ?m']) simp
qed

text \<open>A new list stored in the free slot its search ends at, and the resize that follows.\<close>

lemma drv_add_entry:
  assumes "drvmap_ok m" and "\<not> lcfgderivlist_is_empty (Some l)"
    and "drv_table.slot_of (dm_derivations m) list_id = Some i" "i < length (dm_derivations m)"
    "dm_derivations m ! i = None"
    and "drv_table.lookup (dm_derivations m) list_id = None" and "drvlist_id l = list_id"
  shows "\<exists>m'. lcfgderivmap_resize (m\<lparr>dm_derivations := (dm_derivations m)[i := Some l],
        dm_entries := dm_entries m + 1\<rparr>) = Inr m' \<and> drvmap_ok m' \<and>
    (\<forall>k. drvmap_lookup m' k = (if k = list_id then Some l else drvmap_lookup m k))"
proof -
  let ?xs = "dm_derivations m" and ?m = "m\<lparr>dm_derivations := (dm_derivations m)[i := Some l], dm_entries := dm_entries m + 1\<rparr>"
  have sound: "drvmap_sound m" using assms(1) by (simp add: drvmap_ok_def)
  then have m: "dm_buckets m = length ?xs" "dm_entries m = used ?xs" "drv_table.table_ok ?xs"
    by (simp_all add: drvmap_sound_def)
  note ins = drv_table.table_insert [OF m(3), of l i, unfolded assms(7), OF assms(3,5)]
  have "drvmap_sound ?m"
    using sound assms(2) ins(1,2) used_update [OF assms(4), of "Some l"] assms(5) m(1,2) by (auto simp: drvmap_sound_def)
  from drv_resize [OF this] obtain m' where m': "lcfgderivmap_resize ?m = Inr m'" "drvmap_ok m'"
    "\<And>a. Some a \<in> set (dm_derivations m') \<longleftrightarrow> Some a \<in> set (dm_derivations ?m)" by blast
  have tab': "drv_table.table_ok (dm_derivations m')" using m'(2) by (simp add: drvmap_ok_def drvmap_sound_def)
  have "drv_table.lookup (dm_derivations m') k = Some a \<longleftrightarrow>
      (if k = list_id then Some l else drv_table.lookup ?xs k) = Some a" for k a
  proof -
    have "Some a \<in> set ?xs \<Longrightarrow> drvlist_id a \<noteq> list_id"
      using drv_table.lookup_iff [OF m(3), of list_id a] assms(6) by simp
    then show ?thesis
      using drv_table.lookup_iff [OF tab', of k a] drv_table.lookup_iff [OF m(3), of k a] m'(3) [of a] ins(2) [of a] assms(7)
      by auto
  qed
  then have "drvmap_lookup m' k = (if k = list_id then Some l else drvmap_lookup m k)" for k
    unfolding drvmap_lookup_def by (metis not_None_eq)
  with m'(1,2) show ?thesis by blast
qed

lemma find_or_insert_result:
  assumes "drvmap_ok m" and "\<not> isempty (Some str)"
  shows "\<exists>result m' msg'. lcfgderivmap_find_or_insert_string farmhash64 m (Some str) msg = Inr (result, m', msg') \<and>
    drvmap_ok m' \<and>
    (case drvmap_lookup m (farmhash64 str) of
       Some l \<Rightarrow> result = Some l \<and> m' = m
     | None \<Rightarrow>
         (case lcfgderivlist_from_string (Some str) of
            Inl parse_msg \<Rightarrow> result = None \<and> m' = m \<and> msg' = Some parse_msg
          | Inr l \<Rightarrow>
              if lcfgderivlist_is_empty (Some l) then result = None \<and> m' = m
              else result = Some (l\<lparr>drvlist_id := farmhash64 str\<rparr>) \<and>
                (\<forall>list_id. drvmap_lookup m' list_id = (if list_id = farmhash64 str then result else drvmap_lookup m list_id))))"
proof -
  let ?xs = "dm_derivations m" and ?id = "farmhash64 str"
  have sound: "drvmap_sound m" using assms(1) by (simp add: drvmap_ok_def)
  then have m: "dm_buckets m = length ?xs" "dm_entries m = used ?xs" "drv_table.table_ok ?xs"
    by (simp_all add: drvmap_sound_def)
  note slot = drv_slot_search [OF sound, of ?id]
  have str: "or_default (Some str) [] = str" using assms(2) by (auto elim: not_isemptyE)
  show ?thesis
  proof (cases "drv_table.lookup ?xs ?id")
    case (Some l)
    then obtain i where "drv_table.slot_of ?xs ?id = Some i" "?xs ! i = Some l"
      by (auto simp: drv_table.lookup_slot split: option.splits)
    with slot Some assms show ?thesis
      by (simp add: lcfgderivmap_find_or_insert_string_def str drvmap_lookup_def)
  next
    case None
    have "used ?xs < length ?xs" using assms(1) m(1,2) unfolding drvmap_ok_def by linarith
    from drv_table.slot_of_free [OF m(3) None used_free [OF this]]
    obtain i where i: "drv_table.slot_of ?xs ?id = Some i" "i < length ?xs" "?xs ! i = None" by blast
    show ?thesis
    proof (cases "\<exists>l. lcfgderivlist_from_string (Some str) = Inr l \<and> \<not> lcfgderivlist_is_empty (Some l)")
      case False
      with i slot None assms show ?thesis
        by (auto simp: lcfgderivmap_find_or_insert_string_def str drvmap_lookup_def split: sum.splits)
    next
      case True
      then obtain l where l: "lcfgderivlist_from_string (Some str) = Inr l" "\<not> lcfgderivlist_is_empty (Some l)"
        by blast
      have "\<not> lcfgderivlist_is_empty (Some (l\<lparr>drvlist_id := ?id\<rparr>))"
        using l(2) by (simp add: lcfgderivlist_is_empty_def lcfgslist_is_empty_def)
      from drv_add_entry [OF assms(1) this i] None obtain m' where
        m': "lcfgderivmap_resize (m\<lparr>dm_derivations := ?xs[i := Some (l\<lparr>drvlist_id := ?id\<rparr>)],
            dm_entries := dm_entries m + 1\<rparr>) = Inr m'" "drvmap_ok m'"
        "\<And>k. drvmap_lookup m' k = (if k = ?id then Some (l\<lparr>drvlist_id := ?id\<rparr>) else drvmap_lookup m k)"
        by (auto simp: drvmap_lookup_def)
      moreover have "lcfgderivmap_find_or_insert_string farmhash64 m (Some str) msg =
          Inr (Some (l\<lparr>drvlist_id := ?id\<rparr>), m', msg)"
        using assms(2) slot i l m'(1) by (simp add: lcfgderivmap_find_or_insert_string_def str)
      ultimately show ?thesis using None l by (simp add: drvmap_lookup_def)
    qed
  qed
qed

text \<open>
  C18: a derivation map is a cache of parsed texts. On a map that satisfies its invariant
  \<open>lcfgderivmap_find_or_insert_string\<close> always returns; for a text whose hash is in the map it
  gives the list stored there and changes nothing; otherwise it gives the parsed list under
  its hash, and from then on the map leads from this hash to it and from every other hash to
  the same list as before, also when the map was resized; a text that cannot be parsed
  leaves the map as it was.
\<close>
theorem derivmap_find_or_insert_spec:
  assumes "drvmap_ok m" and "\<not> isempty (Some str)"
  shows "\<exists>result m' msg'. lcfgderivmap_find_or_insert_string farmhash64 m (Some str) msg = Inr (result, m', msg') \<and>
    drvmap_ok m' \<and>
    (case drvmap_lookup m (farmhash64 str) of
       Some l \<Rightarrow> result = Some l \<and> m' = m
     | None \<Rightarrow>
         (case lcfgderivlist_from_string (Some str) of
            Inl parse_msg \<Rightarrow> result = None \<and> m' = m \<and> msg' = Some parse_msg
          | Inr l \<Rightarrow>
              if lcfgderivlist_is_empty (Some l) then result = None \<and> m' = m
              else result = Some (l\<lparr>drvlist_id := farmhash64 str\<rparr>) \<and>
                (\<forall>list_id. drvmap_lookup m' list_id = (if list_id = farmhash64 str then result else drvmap_lookup m list_id))))"
  by (rule find_or_insert_result [OF assms])

definition empty_map :: LCFGDerivationMap where
  "empty_map = \<lparr>dm_derivations = replicate LCFG_DRVMAP_DEFAULT_SIZE None, dm_buckets = LCFG_DRVMAP_DEFAULT_SIZE,
     dm_entries = 0, dm_refcount = 1\<rparr>"

lemma derivmap_new: "lcfgderivmap_new = Inr empty_map"
  by (simp add: lcfgderivmap_new_def lcfgderivmap_resize_def numeral_2_eq_2 want_buckets_def empty_map_def
      LCFG_DRVMAP_DEFAULT_SIZE_def del: replicate.simps)

lemma empty_map_ok: "drvmap_ok empty_map"
proof -
  have "drv_table.table_ok (replicate LCFG_DRVMAP_DEFAULT_SIZE None)"
    by (rule drv_table.table_empty) (simp add: LCFG_DRVMAP_DEFAULT_SIZE_def)
  then show ?thesis
    by (simp add: drvmap_ok_def drvmap_sound_def empty_map_def LCFG_DRVMAP_DEFAULT_SIZE_def del: replicate.simps)
qed

theorem derivmap_find_or_insert_spec_witness:
  "\<exists>result m' msg'. lcfgderivmap_find_or_insert_string (\<lambda>s. of_nat (length s)) empty_map (Some ''a.h:5'') None =
     Inr (result, m', msg') \<and> drvmap_ok m'"
proof -
  have "\<not> isempty (Some ''a.h:5'')" by (simp add: isempty_def)
  from derivmap_find_or_insert_spec [OF empty_map_ok this, of "\<lambda>s. of_nat (length s)" None] show ?thesis by blast
qed

end
