(* ===== verification/Lcfg_Package_Text.thy ===== *)
theory Lcfg_Package_Text
  imports Lcfg_Package_Spec
begin

text \<open>
  The texts written for a package (\<open>packages/package.c\<close>, \<open>packages/rpm.c\<close>, \<open>packages/deb.c\<close>):
  summaries, metadata pragmas, cpp blocks, XML blocks and file names. Every function first
  computes the length of its buffer and asserts it at the end; the models return this length
  beside the text. Printing a derivation fills its caches, so the package is returned too.
\<close>

section \<open>Derivations\<close>

definition lcfgpackage_get_derivation_length :: "LCFGPackage \<Rightarrow> int \<times> LCFGPackage" where
  "lcfgpackage_get_derivation_length pkg =
     (if \<not> lcfgpackage_has_derivation pkg then (0, pkg)
      else case lcfgderivlist_get_string_length (lcfgpackage_get_derivation pkg) of
        (len, drvlist) \<Rightarrow> (len, pkg\<lparr>pkg_derivation := drvlist\<rparr>))"

text \<open>The text of the derivation, without a newline, and the package afterwards.\<close>

definition derivation_text :: "LCFGPackage \<Rightarrow> string \<times> LCFGPackage" where
  "derivation_text pkg =
     (case lcfgpackage_get_derivation_as_string pkg LCFG_OPT_NONE of
        (deriv_as_str, drvlist) \<Rightarrow> (deriv_as_str, pkg\<lparr>pkg_derivation := drvlist\<rparr>))"

section \<open>Specifications\<close>

text \<open>The length \<open>lcfgpackage_to_spec\<close> computes for its buffer.\<close>

definition spec_length :: "LCFGPackage \<Rightarrow> cstr \<Rightarrow> bits \<Rightarrow> nat" where
  "spec_length pkg defarch options =
     (let pkgnamlen = length (or_default (pkg_name pkg) []);
          pkgverlen = length (or_default (pkg_version pkg) LCFG_PKG_WILDCARD);
          pkgrel = (if isempty (pkg_release pkg) \<and> (lcfgpackage_has_epoch pkg \<or> \<not> has_bit options LCFG_OPT_NEW)
                    then Some LCFG_PKG_WILDCARD else pkg_release pkg)
      in pkgnamlen + pkgverlen + 1 +
         (if \<not> isempty pkgrel then length (or_default pkgrel []) + 1 else 0) +
         (if \<not> has_bit options LCFG_OPT_NOPREFIX \<and> lcfgpackage_has_prefix pkg then 1 else 0) +
         (if lcfgpackage_has_arch pkg \<and>
             (isempty defarch \<or> strcmp (or_default (pkg_arch pkg) []) (or_default defarch []) \<noteq> 0)
          then length (or_default (pkg_arch pkg) []) + 1 else 0) +
         (if \<not> isempty (pkg_flags pkg) then length (or_default (pkg_flags pkg) []) + 1 else 0) +
         (if \<not> has_bit options LCFG_OPT_NOCONTEXT \<and> \<not> isempty (pkg_context pkg)
          then length (or_default (pkg_context pkg) []) + 2 else 0) +
         (if has_bit options LCFG_OPT_NEWLINE then 1 else 0))"

text \<open>A text function gives the computed length and the text, or \<open>None\<close> for the code's -1.\<close>

type_synonym pkg_text = "(int \<times> string) option \<times> LCFGPackage"

definition spec_text :: "LCFGPackage \<Rightarrow> cstr \<Rightarrow> bits \<Rightarrow> pkg_text" where
  "spec_text pkg defarch options =
     (map_option (\<lambda>s. (int (spec_length pkg defarch options), s)) (lcfgpackage_to_spec pkg defarch options), pkg)"

section \<open>Summaries\<close>

text \<open>The format \<open>" %7s=%s\n"\<close>.\<close>

definition summary_line :: "string \<Rightarrow> string \<Rightarrow> string" where
  "summary_line key value =
     '' '' @ replicate (7 - length key) (CHR '' '') @ key @ ''='' @ value @ [CHR 0x0A]"

definition lcfgpackage_to_summary :: "LCFGPackage \<Rightarrow> cstr \<Rightarrow> bits \<Rightarrow> pkg_text" where
  "lcfgpackage_to_summary pkg defarch options =
     (if \<not> lcfgpackage_is_valid (Some pkg) then (None, pkg)
      else let base_len = 10;
               pkgnam = or_default (pkg_name pkg) [];
               pkgver = lcfgpackage_full_version pkg;
               pkgarch = (if \<not> isempty (pkg_arch pkg) then pkg_arch pkg else defarch);
               (deriv_as_str, pkg') = (if has_bit options LCFG_OPT_USE_META \<and> lcfgpackage_has_derivation pkg
                                       then derivation_text pkg else ([], pkg));
               context = (if has_bit options LCFG_OPT_USE_META then or_default (pkg_context pkg) [] else []);
               new_len = length pkgnam + 2 + (length pkgver + base_len) +
                         (if \<not> isempty pkgarch then length (or_default pkgarch []) + base_len else 0) +
                         (if 0 < length deriv_as_str then length deriv_as_str + base_len else 0) +
                         (if context \<noteq> [] then length context + base_len else 0)
           in (Some (int new_len,
                 pkgnam @ '':'' @ [CHR 0x0A] @
                 summary_line ''version'' pkgver @
                 (if \<not> isempty pkgarch then summary_line ''arch'' (or_default pkgarch []) else []) @
                 (if 0 < length deriv_as_str then summary_line ''derive'' deriv_as_str else []) @
                 (if context \<noteq> [] then summary_line ''context'' context else [])), pkg'))"

section \<open>Metadata pragmas\<close>

datatype LCFGPkgPragma = LCFG_PKG_PRAGMA_CATEGORY | LCFG_PKG_PRAGMA_CONTEXT | LCFG_PKG_PRAGMA_DERIVE

definition pragma :: string where "pragma = ''#pragma LCFG''"

definition lcfgpackage_pragma_length :: "LCFGPackage \<Rightarrow> LCFGPkgPragma \<Rightarrow> bits \<Rightarrow> int \<times> LCFGPackage" where
  "lcfgpackage_pragma_length pkg key options =
     (let (key_len, value_len, pkg') =
        (case key of
           LCFG_PKG_PRAGMA_CATEGORY \<Rightarrow>
             (8, if lcfgpackage_has_category pkg then int (length (or_default (pkg_category pkg) [])) else 0, pkg)
         | LCFG_PKG_PRAGMA_CONTEXT \<Rightarrow>
             (7, if lcfgpackage_has_context pkg then int (length (or_default (pkg_context pkg) [])) else 0, pkg)
         | LCFG_PKG_PRAGMA_DERIVE \<Rightarrow> (6, lcfgpackage_get_derivation_length pkg))
      in (int (length pragma) + key_len + value_len + 4 + (if has_bit options LCFG_OPT_NEWLINE then 1 else 0), pkg'))"

definition lcfgpackage_build_pragma :: "LCFGPackage \<Rightarrow> LCFGPkgPragma \<Rightarrow> bits \<Rightarrow> (int \<times> string) \<times> LCFGPackage" where
  "lcfgpackage_build_pragma pkg key options =
     (let (new_len, pkg1) = lcfgpackage_pragma_length pkg key options;
          (entry, pkg2) =
            (case key of
               LCFG_PKG_PRAGMA_CATEGORY \<Rightarrow>
                 ('' category '' @ [CHR 0x22] @
                  (if lcfgpackage_has_category pkg1 then or_default (pkg_category pkg1) [] else []), pkg1)
             | LCFG_PKG_PRAGMA_CONTEXT \<Rightarrow>
                 ('' context '' @ [CHR 0x22] @
                  (if lcfgpackage_has_context pkg1 then or_default (pkg_context pkg1) [] else []), pkg1)
             | LCFG_PKG_PRAGMA_DERIVE \<Rightarrow>
                 (if lcfgpackage_has_derivation pkg1
                  then case derivation_text (snd (lcfgpackage_get_derivation_length pkg1)) of
                         (s, p) \<Rightarrow> ('' derive '' @ [CHR 0x22] @ s, p)
                  else ('' derive '' @ [CHR 0x22], pkg1)))
      in ((new_len, pragma @ entry @ [CHR 0x22] @ (if has_bit options LCFG_OPT_NEWLINE then [CHR 0x0A] else [])), pkg2))"

text \<open>The key and the value of a pragma; \<open>None\<close> where the code returns false.\<close>

definition lcfgpackage_parse_pragma :: "cstr \<Rightarrow> (LCFGPkgPragma \<times> string) option" where
  "lcfgpackage_parse_pragma line =
     (if isempty line \<or> \<not> starts_with (or_default line []) pragma then None
      else let key_start = skip_space (drop (length pragma) (or_default line []));
               found = (if starts_with key_start ''category'' then Some (LCFG_PKG_PRAGMA_CATEGORY, drop 8 key_start)
                        else if starts_with key_start ''context'' then Some (LCFG_PKG_PRAGMA_CONTEXT, drop 7 key_start)
                        else if starts_with key_start ''derive'' then Some (LCFG_PKG_PRAGMA_DERIVE, drop 6 key_start)
                        else None)
           in case found of
                None \<Rightarrow> None
              | Some (key, rest) \<Rightarrow>
                  let value_start = skip_space rest in
                  if cur value_start \<noteq> CHR 0x22 then None
                  else map_option (\<lambda>(value, _). (key, value)) (strrchr_split (tl value_start) (CHR 0x22)))"

section \<open>Blocks for cpp\<close>

definition meta_start :: string where "meta_start = ''#ifdef INCLUDE_META'' @ [CHR 0x0A]"
definition meta_end :: string where "meta_end = ''#endif'' @ [CHR 0x0A]"

text \<open>
  The code moves the specification up in its buffer and writes the metadata before it; the
  text before the specification is as long as the space made for it when the lengths of the
  pragmas are right.
\<close>

definition lcfgpackage_to_cpp :: "LCFGPackage \<Rightarrow> cstr \<Rightarrow> bits \<Rightarrow> pkg_text" where
  "lcfgpackage_to_cpp pkg defarch options =
     (let spec_options = options OR LCFG_OPT_NOCONTEXT OR LCFG_OPT_NOPREFIX OR LCFG_OPT_NEWLINE
      in case spec_text pkg defarch spec_options of
        (None, _) \<Rightarrow> (None, pkg)
      | (Some (spec_len, spec), _) \<Rightarrow>
          if \<not> has_bit options LCFG_OPT_USE_META then (Some (spec_len, spec), pkg)
          else let (deriv_len, pkg1) = lcfgpackage_pragma_length pkg LCFG_PKG_PRAGMA_DERIVE LCFG_OPT_NEWLINE;
                   (ctx_len, pkg2) = (if lcfgpackage_has_context pkg1
                                      then lcfgpackage_pragma_length pkg1 LCFG_PKG_PRAGMA_CONTEXT LCFG_OPT_NEWLINE
                                      else (0, pkg1));
                   meta_len = deriv_len + ctx_len
               in if meta_len = 0 then (Some (spec_len, spec), pkg2)
                  else let (derive, pkg3) = (if 0 < deriv_len
                             then (case lcfgpackage_build_pragma pkg2 LCFG_PKG_PRAGMA_DERIVE LCFG_OPT_NEWLINE of
                                     ((_, s), p) \<Rightarrow> (s, p))
                             else ([], pkg2));
                           (context, pkg4) = (if 0 < ctx_len
                             then (case lcfgpackage_build_pragma pkg3 LCFG_PKG_PRAGMA_CONTEXT LCFG_OPT_NEWLINE of
                                     ((_, s), p) \<Rightarrow> (s, p))
                             else ([], pkg3))
                       in (Some (spec_len + (meta_len + int (length meta_start) + int (length meta_end)),
                             meta_start @ derive @ context @ meta_end @ spec), pkg4))"

section \<open>XML\<close>

definition lcfgpackage_to_xml :: "LCFGPackage \<Rightarrow> cstr \<Rightarrow> bits \<Rightarrow> pkg_text" where
  "lcfgpackage_to_xml pkg defarch options =
     (if \<not> lcfgpackage_is_valid (Some pkg) then (None, pkg)
      else let indent = ''   '';
               name = or_default (pkg_name pkg) [];
               version = or_default (pkg_version pkg) LCFG_PKG_WILDCARD;
               release = or_default (pkg_release pkg) LCFG_PKG_WILDCARD;
               arch = (if \<not> isempty (pkg_arch pkg) \<and>
                          (isempty defarch \<or> strcmp (or_default (pkg_arch pkg) []) (or_default defarch []) \<noteq> 0)
                       then or_default (pkg_arch pkg) [] else []);
               flags = or_default (pkg_flags pkg) [];
               use_meta = has_bit options LCFG_OPT_USE_META;
               context = (if use_meta then or_default (pkg_context pkg) [] else []);
               (deriv_len, pkg1) = (if use_meta \<and> lcfgpackage_has_derivation pkg
                                    then lcfgpackage_get_derivation_length pkg else (0, pkg));
               (deriv_as_str, pkg2) = (if 0 < deriv_len then derivation_text pkg1 else ([], pkg1));
               new_len = int (length indent + 20 + (length name + 13) + (length version + 7) + (length release + 7)) +
                         (if arch \<noteq> [] then int (length arch) + 1 else 0) +
                         (if flags \<noteq> [] then int (length flags) + 19 else 0) +
                         (if context \<noteq> [] then int (length context) + 15 else 0) +
                         (if 0 < deriv_len then deriv_len + 18 else 0)
           in (Some (new_len,
                 indent @ ''<package'' @
                 (if context \<noteq> [] then '' cfg:context='' @ [CHR 0x22] @ context @ [CHR 0x22] else []) @
                 (if 0 < deriv_len then '' cfg:derivation='' @ [CHR 0x22] @ deriv_as_str @ [CHR 0x22] else []) @
                 ''>'' @
                 ''<name>'' @ name @ ''</name>'' @
                 ''<v>'' @ version @ ''</v>'' @
                 ''<r>'' @ release @ (if arch \<noteq> [] then ''/'' @ arch else []) @ ''</r>'' @
                 (if flags \<noteq> [] then ''<options>'' @ flags @ ''</options>'' else []) @
                 ''</package>'' @ [CHR 0x0A]), pkg2))"

section \<open>File names\<close>

text \<open>
  \<open>default_architecture\<close>: the name of the machine that \<open>uname\<close> gives, a parameter, cut to the
  seven characters its array has room for.
\<close>

definition ARCH_MAXLEN :: nat where "ARCH_MAXLEN = 8"

definition default_architecture :: "string \<Rightarrow> string" where
  "default_architecture machine = take (ARCH_MAXLEN - 1) machine"

text \<open>The version after its epoch.\<close>

definition skip_epoch :: "string \<Rightarrow> string" where
  "skip_epoch pkgver = (case strchr_split pkgver (CHR '':'') of None \<Rightarrow> pkgver | Some (_, rest) \<Rightarrow> rest)"

definition lcfgpackage_to_rpm_filename :: "string \<Rightarrow> LCFGPackage \<Rightarrow> cstr \<Rightarrow> bits \<Rightarrow> pkg_text" where
  "lcfgpackage_to_rpm_filename machine pkg defarch options =
     (if \<not> lcfgpackage_is_valid (Some pkg) \<or> \<not> lcfgpackage_has_version pkg \<or> \<not> lcfgpackage_has_release pkg
      then (None, pkg)
      else let pkgnam = or_default (pkg_name pkg) [];
               pkgver = skip_epoch (or_default (pkg_version pkg) []);
               pkgrel = or_default (pkg_release pkg) [];
               pkgarch = (if lcfgpackage_has_arch pkg then or_default (pkg_arch pkg) []
                          else case defarch of Some a \<Rightarrow> a | None \<Rightarrow> default_architecture machine)
           in (Some (int (length pkgnam + length pkgver + length pkgrel + length pkgarch + 4 + 3 +
                       (if has_bit options LCFG_OPT_NEWLINE then 1 else 0)),
                 pkgnam @ ''-'' @ pkgver @ ''-'' @ pkgrel @ ''.'' @ pkgarch @ ''.rpm'' @
                 (if has_bit options LCFG_OPT_NEWLINE then [CHR 0x0A] else [])), pkg))"

definition lcfgpackage_to_deb_filename :: "string \<Rightarrow> LCFGPackage \<Rightarrow> cstr \<Rightarrow> bits \<Rightarrow> pkg_text" where
  "lcfgpackage_to_deb_filename machine pkg defarch options =
     (if \<not> lcfgpackage_is_valid (Some pkg) \<or> \<not> lcfgpackage_has_version pkg then (None, pkg)
      else let pkgnam = or_default (pkg_name pkg) [];
               pkgver = skip_epoch (or_default (pkg_version pkg) []);
               arch = (if lcfgpackage_has_arch pkg then or_default (pkg_arch pkg) []
                       else if \<not> isempty defarch then or_default defarch []
                       else default_architecture machine);
               pkgarch = (if strcmp arch ''x86_64'' = 0 then ''amd64''
                          else if strcmp arch ''noarch'' = 0 then ''all'' else arch);
               pkgrel = (if lcfgpackage_has_release pkg then Some (or_default (pkg_release pkg) []) else None)
           in (Some (int (length pkgnam + length pkgver + length pkgarch + 4 + 2 +
                       (case pkgrel of Some r \<Rightarrow> length r + 1 | None \<Rightarrow> 0) +
                       (if has_bit options LCFG_OPT_NEWLINE then 1 else 0)),
                 pkgnam @ ''_'' @ pkgver @ (case pkgrel of Some r \<Rightarrow> ''-'' @ r | None \<Rightarrow> []) @
                 ''_'' @ pkgarch @ ''.deb'' @
                 (if has_bit options LCFG_OPT_NEWLINE then [CHR 0x0A] else [])), pkg))"

definition invalid_rpm :: "string \<Rightarrow> string" where
  "invalid_rpm reason = ''Invalid RPM ('' @ reason @ '')''"

text \<open>The backwards search below a position, and the field between the two.\<close>

fun search_below :: "string \<Rightarrow> char \<Rightarrow> nat \<Rightarrow> nat option" where
  "search_below filename c 0 = None"
| "search_below filename c (Suc i) = (if filename ! i = c then Some i else search_below filename c i)"

definition rpm_field :: "string \<Rightarrow> char \<Rightarrow> nat \<Rightarrow> (nat \<times> string) option" where
  "rpm_field filename c i =
     (if i = 0 then None
      else let offset = i - 1 in
        map_option (\<lambda>j. (j, take (offset - j) (drop (j + 1) filename))) (search_below filename c offset))"

definition rpm_store ::
    "(LCFGPackage \<Rightarrow> cstr \<Rightarrow> bool \<times> LCFGPackage) \<Rightarrow> string \<Rightarrow> string \<Rightarrow> LCFGPackage \<Rightarrow> string + LCFGPackage" where
  "rpm_store setter what value pkg =
     (case setter pkg (Some value) of (ok, pkg') \<Rightarrow>
        if ok then Inr pkg'
        else Inl (invalid_rpm (''bad '' @ what @ '' '' @ [CHR 0x27] @ value @ [CHR 0x27])))"

definition lcfgpackage_from_rpm_filename :: "cstr \<Rightarrow> string + LCFGPackage" where
  "lcfgpackage_from_rpm_filename input =
     (if isempty input then Inl (invalid_rpm ''bad filename'')
      else let inp = or_default input [];
               filename = (case strrchr_split inp (CHR ''/'') of None \<Rightarrow> inp | Some (_, f) \<Rightarrow> f);
               filename_len = length filename
           in if filename_len \<le> 4 then Inl (invalid_rpm ''bad filename'')
              else if \<not> lcfgutils_string_endswith (Some filename) (Some ''.rpm'')
              then Inl (invalid_rpm (''lacks '' @ [CHR 0x27] @ ''.rpm'' @ [CHR 0x27] @ '' suffix''))
              else case rpm_field filename (CHR ''.'') (filename_len - 4) of
                None \<Rightarrow> Inl (invalid_rpm ''failed to extract architecture'')
              | Some (i, arch) \<Rightarrow>
                  or_fail (rpm_store lcfgpackage_set_arch ''package architecture'' arch lcfgpackage_new) (\<lambda>pkg.
                  case rpm_field filename (CHR ''-'') i of
                    None \<Rightarrow> Inl (invalid_rpm ''failed to extract release'')
                  | Some (i, release) \<Rightarrow>
                      or_fail (rpm_store lcfgpackage_set_release ''release'' release pkg) (\<lambda>pkg.
                      case rpm_field filename (CHR ''-'') i of
                        None \<Rightarrow> Inl (invalid_rpm ''failed to extract version'')
                      | Some (i, version) \<Rightarrow>
                          or_fail (rpm_store lcfgpackage_set_version ''version'' version pkg) (\<lambda>pkg.
                          if i = 0 then Inl (invalid_rpm ''failed to find name'')
                          else rpm_store lcfgpackage_set_name ''name'' (take i filename) pkg))))"

section \<open>Every style\<close>

datatype LCFGPkgStyle =
    LCFG_PKG_STYLE_SPEC | LCFG_PKG_STYLE_RPM | LCFG_PKG_STYLE_CPP | LCFG_PKG_STYLE_XML
  | LCFG_PKG_STYLE_SUMMARY | LCFG_PKG_STYLE_EVAL | LCFG_PKG_STYLE_DEB

definition lcfgpackage_to_string :: "string \<Rightarrow> LCFGPackage \<Rightarrow> cstr \<Rightarrow> LCFGPkgStyle \<Rightarrow> bits \<Rightarrow> pkg_text" where
  "lcfgpackage_to_string machine pkg defarch style options =
     (case style of
        LCFG_PKG_STYLE_XML \<Rightarrow> lcfgpackage_to_xml pkg defarch options
      | LCFG_PKG_STYLE_CPP \<Rightarrow> lcfgpackage_to_cpp pkg defarch options
      | LCFG_PKG_STYLE_SUMMARY \<Rightarrow> lcfgpackage_to_summary pkg defarch options
      | LCFG_PKG_STYLE_RPM \<Rightarrow> lcfgpackage_to_rpm_filename machine pkg defarch options
      | LCFG_PKG_STYLE_DEB \<Rightarrow> lcfgpackage_to_deb_filename machine pkg defarch options
      | _ \<Rightarrow> spec_text pkg defarch options)"

text \<open>The text written to a stream that accepts everything; \<open>None\<close> where the result is false.\<close>

definition lcfgpackage_print :: "string \<Rightarrow> LCFGPackage \<Rightarrow> cstr \<Rightarrow> LCFGPkgStyle \<Rightarrow> bits \<Rightarrow> string option \<times> LCFGPackage"
where
  "lcfgpackage_print machine pkg defarch style options =
     (let options' = (if style = LCFG_PKG_STYLE_RPM \<or> style = LCFG_PKG_STYLE_DEB \<or> style = LCFG_PKG_STYLE_SPEC
                      then options OR LCFG_OPT_NEWLINE else options)
      in case lcfgpackage_to_string machine pkg defarch style options' of
           (r, pkg') \<Rightarrow> (map_option snd r, pkg'))"

definition lcfgpackage_hash :: "LCFGPackage \<Rightarrow> 64 word" where
  "lcfgpackage_hash pkg = lcfgutils_string_djbhash (or_default (pkg_name pkg) []) [pkg_arch pkg]"

section \<open>Package options for cpp\<close>

definition valid_cpp_identifier :: "string \<Rightarrow> bool" where
  "valid_cpp_identifier name \<longleftrightarrow>
     name \<noteq> [] \<and> (isalpha (cur name) \<or> cur name = CHR ''_'') \<and> list_all isword (tl name)"

definition valid_cpp_simple_value :: "string \<Rightarrow> bool" where
  "valid_cpp_simple_value v \<longleftrightarrow> list_all (\<lambda>c. isword c \<or> c = CHR ''.'') v"

text \<open>One option: the lines for the file, and the warnings.\<close>

definition store_option :: "string \<Rightarrow> string \<times> string list" where
  "store_option defn =
     (let entry = (if starts_with defn ''-D'' then drop 2 defn else defn)
      in if entry = [] then ([], [])
         else let (key, v) = (case strchr_split entry (CHR ''='') of None \<Rightarrow> (entry, []) | Some (a, b) \<Rightarrow> (a, b))
              in if \<not> valid_cpp_identifier key
                 then ([], [''Ignoring invalid CPP identifier '' @ [CHR 0x27] @ key @ [CHR 0x27, CHR 0x0A]])
                 else if v = [] then (''#define '' @ key @ [CHR 0x0A], [])
                 else if \<not> valid_cpp_simple_value v
                 then ([], [''Ignoring unsafe CPP value '' @ [CHR 0x27] @ v @ [CHR 0x27, CHR 0x0A]])
                 else (''#define '' @ key @ '' '' @ v @ [CHR 0x0A], []))"

text \<open>
  The file written by \<open>lcfgpackage_store_options\<close> for a list of option strings, and the
  warnings; \<open>None\<close> where the split of an empty string gives a null pointer that the loop
  reads from.
\<close>

fun lcfgpackage_store_options :: "string list \<Rightarrow> (string \<times> string list) option" where
  "lcfgpackage_store_options [] = Some ([], [])"
| "lcfgpackage_store_options (defs # rest) =
     (case lcfgutils_string_split (Some defs) '' '' 0 of
        Some (Some defs_parts) \<Rightarrow>
          map_option (\<lambda>(text, warnings).
            (concat (map (\<lambda>d. fst (store_option d)) defs_parts) @ text,
             concat (map (\<lambda>d. snd (store_option d)) defs_parts) @ warnings))
            (lcfgpackage_store_options rest)
      | _ \<Rightarrow> None)"

section \<open>The buffers are exactly as long as the texts\<close>

definition deriv_ok :: "LCFGPackage \<Rightarrow> bool" where
  "deriv_ok pkg \<longleftrightarrow> (\<forall>l. pkg_derivation pkg = Some l \<longrightarrow> drvlist_ok l)"

lemma no_derivation [simp]:
  "\<not> lcfgpackage_has_derivation pkg \<Longrightarrow> lcfgpackage_get_derivation_length pkg = (0, pkg)"
  by (simp add: lcfgpackage_get_derivation_length_def)

lemma derivation_length_again:
  assumes "deriv_ok pkg" and "lcfgpackage_get_derivation_length pkg = (n, pkg')"
  shows "\<exists>d. pkg' = pkg\<lparr>pkg_derivation := d\<rparr>" and "deriv_ok pkg'"
    and "lcfgpackage_has_derivation pkg' = lcfgpackage_has_derivation pkg"
    and "lcfgpackage_get_derivation_length pkg' = (n, pkg')"
    and "fst (derivation_text pkg') = fst (derivation_text pkg)"
    and "lcfgpackage_has_derivation pkg \<Longrightarrow> int (length (fst (derivation_text pkg))) = n"
proof -
  have "(\<exists>d. pkg' = pkg\<lparr>pkg_derivation := d\<rparr>) \<and> deriv_ok pkg' \<and>
      lcfgpackage_has_derivation pkg' = lcfgpackage_has_derivation pkg \<and>
      lcfgpackage_get_derivation_length pkg' = (n, pkg') \<and>
      fst (derivation_text pkg') = fst (derivation_text pkg) \<and>
      (lcfgpackage_has_derivation pkg \<longrightarrow> int (length (fst (derivation_text pkg))) = n)"
  proof (cases "lcfgpackage_has_derivation pkg")
    case False
    then show ?thesis using assms by (auto intro: exI [of _ "pkg_derivation pkg"])
  next
    case True
    then obtain l where l: "pkg_derivation pkg = Some l" "\<not> lcfgderivlist_is_empty (Some l)"
      by (auto simp: lcfgpackage_has_derivation_def)
    have ok: "drvlist_ok l" using assms(1) l(1) by (simp add: deriv_ok_def)
    from derivlist_length_again [OF ok, of LCFG_OPT_NONE] obtain l' where
      l': "snd (lcfgderivlist_get_string_length (Some l)) = Some l'" "drvlist_ok l'" "\<not> lcfgderivlist_is_empty (Some l')"
        "lcfgderivlist_get_string_length (Some l') = (fst (lcfgderivlist_get_string_length (Some l)), Some l')"
        "lcfgderivlist_to_string (Some l') LCFG_OPT_NONE = lcfgderivlist_to_string (Some l) LCFG_OPT_NONE"
      using l(2) by auto
    have p: "pkg' = pkg\<lparr>pkg_derivation := Some l'\<rparr>" "n = fst (lcfgderivlist_get_string_length (Some l))"
      using assms(2) True l(1) l'(1)
      by (auto simp: lcfgpackage_get_derivation_length_def lcfgpackage_get_derivation_def split_def)
    have "int (length (fst (derivation_text pkg))) = n"
      using derivlist_text_length [OF ok, of LCFG_OPT_NONE] l(1) p(2)
      by (simp add: derivation_text_def lcfgpackage_get_derivation_as_string_def lcfgpackage_get_derivation_def
          split_def has_bit_def LCFG_OPT_NONE_def)
    with p l l' True show ?thesis
      by (auto simp: deriv_ok_def lcfgpackage_has_derivation_def lcfgpackage_get_derivation_length_def
          lcfgpackage_get_derivation_def derivation_text_def lcfgpackage_get_derivation_as_string_def split_def)
  qed
  then show "\<exists>d. pkg' = pkg\<lparr>pkg_derivation := d\<rparr>" and "deriv_ok pkg'"
    and "lcfgpackage_has_derivation pkg' = lcfgpackage_has_derivation pkg"
    and "lcfgpackage_get_derivation_length pkg' = (n, pkg')"
    and "fst (derivation_text pkg') = fst (derivation_text pkg)"
    and "lcfgpackage_has_derivation pkg \<Longrightarrow> int (length (fst (derivation_text pkg))) = n" by blast+
qed

text \<open>The name and the value of an entry, and the line made of them.\<close>

fun pragma_name :: "LCFGPkgPragma \<Rightarrow> string" where
  "pragma_name LCFG_PKG_PRAGMA_CATEGORY = ''category''"
| "pragma_name LCFG_PKG_PRAGMA_CONTEXT = ''context''"
| "pragma_name LCFG_PKG_PRAGMA_DERIVE = ''derive''"

definition deriv_value :: "LCFGPackage \<Rightarrow> string" where
  "deriv_value pkg = (if lcfgpackage_has_derivation pkg then fst (derivation_text pkg) else [])"

fun pragma_value :: "LCFGPackage \<Rightarrow> LCFGPkgPragma \<Rightarrow> string" where
  "pragma_value pkg LCFG_PKG_PRAGMA_CATEGORY = or_default (pkg_category pkg) []"
| "pragma_value pkg LCFG_PKG_PRAGMA_CONTEXT = or_default (pkg_context pkg) []"
| "pragma_value pkg LCFG_PKG_PRAGMA_DERIVE = deriv_value pkg"

definition newline :: "bits \<Rightarrow> string" where
  "newline options = (if has_bit options LCFG_OPT_NEWLINE then [CHR 0x0A] else [])"

definition pragma_line :: "LCFGPkgPragma \<Rightarrow> string \<Rightarrow> bits \<Rightarrow> string" where
  "pragma_line key v options =
     pragma @ '' '' @ pragma_name key @ '' '' @ [CHR 0x22] @ v @ [CHR 0x22] @ newline options"

lemma deriv_value_length:
  assumes "deriv_ok pkg"
  shows "fst (lcfgpackage_get_derivation_length pkg) = int (length (deriv_value pkg))"
proof (cases "lcfgpackage_has_derivation pkg")
  case True
  then show ?thesis
    using derivation_length_again(6) [OF assms prod.collapse [symmetric]]
    by (simp add: deriv_value_def)
qed (simp add: deriv_value_def)

lemma pragma_length_value:
  assumes "deriv_ok pkg"
  shows "fst (lcfgpackage_pragma_length pkg key options) = int (length (pragma_line key (pragma_value pkg key) options))"
  using deriv_value_length [OF assms]
  by (cases key) (auto simp: lcfgpackage_pragma_length_def pragma_line_def newline_def lcfgpackage_has_category_def
      lcfgpackage_has_context_def split_def or_default_empty)

text \<open>The package after a pragma was measured: only the caches of its derivation differ.\<close>

lemma pragma_length_package:
  assumes "deriv_ok pkg"
  shows "\<exists>d. snd (lcfgpackage_pragma_length pkg key options) = pkg\<lparr>pkg_derivation := d\<rparr>"
    and "deriv_ok (snd (lcfgpackage_pragma_length pkg key options))"
    and "deriv_value (snd (lcfgpackage_pragma_length pkg key options)) = deriv_value pkg"
proof -
  note again = derivation_length_again [OF assms prod.collapse [symmetric]]
  have "\<exists>d. pkg = pkg\<lparr>pkg_derivation := d\<rparr>" by (rule exI [of _ "pkg_derivation pkg"]) simp
  then show "\<exists>d. snd (lcfgpackage_pragma_length pkg key options) = pkg\<lparr>pkg_derivation := d\<rparr>"
    using again(1) by (cases key) (simp_all add: lcfgpackage_pragma_length_def split_def)
  show "deriv_ok (snd (lcfgpackage_pragma_length pkg key options))"
    using again(2) assms by (cases key) (simp_all add: lcfgpackage_pragma_length_def split_def)
  show "deriv_value (snd (lcfgpackage_pragma_length pkg key options)) = deriv_value pkg"
    using again(3,5) by (cases key) (simp_all add: lcfgpackage_pragma_length_def split_def deriv_value_def)
qed

lemma build_pragma_text:
  assumes "deriv_ok pkg"
  shows "fst (lcfgpackage_build_pragma pkg key options) =
    (int (length (pragma_line key (pragma_value pkg key) options)), pragma_line key (pragma_value pkg key) options)"
proof -
  note len = pragma_length_value [OF assms, of key options] and p = pragma_length_package [OF assms, of key options]
  obtain n p1 where l: "lcfgpackage_pragma_length pkg key options = (n, p1)" by (cases "lcfgpackage_pragma_length pkg key options")
  then obtain d where d: "p1 = pkg\<lparr>pkg_derivation := d\<rparr>" "deriv_ok p1" "deriv_value p1 = deriv_value pkg"
    using p by auto
  have "fst (derivation_text (snd (lcfgpackage_get_derivation_length p1))) = fst (derivation_text p1)"
    by (rule derivation_length_again(5) [OF d(2) prod.collapse [symmetric]])
  moreover have "lcfgpackage_has_derivation p1 \<Longrightarrow> fst (derivation_text p1) = deriv_value pkg"
    "\<not> lcfgpackage_has_derivation p1 \<Longrightarrow> deriv_value pkg = []"
    using d(3) by (auto simp: deriv_value_def)
  moreover have "n = int (length (pragma_line key (pragma_value pkg key) options))" using len l by simp
  ultimately show ?thesis using d(1)
    unfolding lcfgpackage_build_pragma_def l
    by (cases key) (auto simp: Let_def split_def pragma_line_def newline_def
        lcfgpackage_has_category_def lcfgpackage_has_context_def or_default_empty)
qed

lemma to_spec_length:
  assumes "spec_text pkg defarch options = (Some (len, text), pkg')"
  shows "len = int (length text)"
proof -
  have to: "lcfgpackage_to_spec pkg defarch options = Some text" and len: "len = int (spec_length pkg defarch options)"
    using assms by (auto simp: spec_text_def)
  from to have "lcfgpackage_is_valid (Some pkg)" by (simp add: lcfgpackage_to_spec_def split: if_split_asm)
  moreover have "length (if p then s else []) = (if p then length s else 0)" for p and s :: string by simp
  moreover have "length (case a of Some x \<Rightarrow> if c then x @ ''/'' else [] | None \<Rightarrow> []) +
      length (case a of Some x \<Rightarrow> if \<not> c then ''/'' @ x else [] | None \<Rightarrow> []) =
      (case a of Some x \<Rightarrow> length x + 1 | None \<Rightarrow> 0)" for a :: cstr and c
    by (cases a) auto
  moreover have "or_default v [] = [] \<longleftrightarrow> isempty v" for v by (auto simp: or_default_empty elim: not_isemptyE)
  ultimately have "length (the (lcfgpackage_to_spec pkg defarch options)) = spec_length pkg defarch options"
    by (cases "isempty defarch \<or> strcmp (or_default (pkg_arch pkg) []) (or_default defarch []) \<noteq> 0";
        cases "isempty (pkg_release pkg)"; cases "isempty (pkg_flags pkg)"; cases "isempty (pkg_context pkg)";
        simp add: lcfgpackage_to_spec_def spec_length_def Let_def lcfgpackage_has_prefix_def LCFG_PKG_WILDCARD_def)
  with to have "spec_length pkg defarch options = length text" by simp
  with len show ?thesis by simp
qed

lemma summary_line_length: "length key \<le> 7 \<Longrightarrow> length (summary_line key v) = length v + 10"
  by (simp add: summary_line_def)

lemma to_summary_length:
  assumes "lcfgpackage_to_summary pkg defarch options = (Some (len, text), pkg')"
  shows "len = int (length text)"
  using assms
  by (auto simp: lcfgpackage_to_summary_def Let_def split_def summary_line_length split: if_split_asm)

lemma derivation_text_package:
  assumes "deriv_ok pkg" and "lcfgpackage_has_derivation pkg"
  shows "\<exists>d. snd (derivation_text pkg) = pkg\<lparr>pkg_derivation := d\<rparr>" and "deriv_ok (snd (derivation_text pkg))"
proof -
  obtain l where l: "pkg_derivation pkg = Some l" "drvlist_ok l"
    using assms by (auto simp: deriv_ok_def lcfgpackage_has_derivation_def)
  obtain l' where l': "snd (lcfgderivlist_to_string (Some l) LCFG_OPT_NONE) = Some l'" "drvlist_ok l'"
    using to_string_keeps_ok [OF l(2)] by blast
  have snd: "snd (derivation_text pkg) = pkg\<lparr>pkg_derivation := Some l'\<rparr>"
    using l(1) l'(1) by (simp add: derivation_text_def lcfgpackage_get_derivation_as_string_def
        lcfgpackage_get_derivation_def split_def)
  then show "\<exists>d. snd (derivation_text pkg) = pkg\<lparr>pkg_derivation := d\<rparr>" by blast
  show "deriv_ok (snd (derivation_text pkg))" unfolding snd using l'(2) by (simp add: deriv_ok_def)
qed

lemma build_pragma_package:
  assumes "deriv_ok pkg"
  shows "(\<exists>d. snd (lcfgpackage_build_pragma pkg LCFG_PKG_PRAGMA_DERIVE options) = pkg\<lparr>pkg_derivation := d\<rparr>) \<and>
    deriv_ok (snd (lcfgpackage_build_pragma pkg LCFG_PKG_PRAGMA_DERIVE options))"
proof -
  obtain n p1 where l: "lcfgpackage_pragma_length pkg LCFG_PKG_PRAGMA_DERIVE options = (n, p1)" by fastforce
  have p1: "\<exists>d. p1 = pkg\<lparr>pkg_derivation := d\<rparr>" "deriv_ok p1"
    using pragma_length_package [OF assms, of LCFG_PKG_PRAGMA_DERIVE options] l by simp_all
  let ?p2 = "snd (lcfgpackage_get_derivation_length p1)"
  note p2 = derivation_length_again(1-3) [OF p1(2) prod.collapse [symmetric]]
  show ?thesis
  proof (cases "lcfgpackage_has_derivation p1")
    case True
    then have "snd (lcfgpackage_build_pragma pkg LCFG_PKG_PRAGMA_DERIVE options) = snd (derivation_text ?p2)"
      unfolding lcfgpackage_build_pragma_def l by (simp add: split_def)
    moreover have "\<exists>d. snd (derivation_text ?p2) = ?p2\<lparr>pkg_derivation := d\<rparr>" "deriv_ok (snd (derivation_text ?p2))"
      using derivation_text_package [OF p2(2)] p2(3) True by simp_all
    ultimately show ?thesis using p1(1) p2(1) by auto
  next
    case False
    then have "snd (lcfgpackage_build_pragma pkg LCFG_PKG_PRAGMA_DERIVE options) = p1"
      unfolding lcfgpackage_build_pragma_def l by simp
    with p1 show ?thesis by simp
  qed
qed

lemma to_cpp_text:
  assumes "deriv_ok pkg"
  shows "fst (lcfgpackage_to_cpp pkg defarch options) =
    (case lcfgpackage_to_spec pkg defarch (options OR LCFG_OPT_NOCONTEXT OR LCFG_OPT_NOPREFIX OR LCFG_OPT_NEWLINE) of
       None \<Rightarrow> None
     | Some spec \<Rightarrow>
         let block = (if has_bit options LCFG_OPT_USE_META
               then meta_start @ pragma_line LCFG_PKG_PRAGMA_DERIVE (deriv_value pkg) LCFG_OPT_NEWLINE @
                    (if lcfgpackage_has_context pkg
                     then pragma_line LCFG_PKG_PRAGMA_CONTEXT (or_default (pkg_context pkg) []) LCFG_OPT_NEWLINE else []) @
                    meta_end @ spec
               else spec)
         in Some (int (length block), block))"
proof -
  let ?opts = "options OR LCFG_OPT_NOCONTEXT OR LCFG_OPT_NOPREFIX OR LCFG_OPT_NEWLINE"
  let ?D = LCFG_PKG_PRAGMA_DERIVE and ?C = LCFG_PKG_PRAGMA_CONTEXT and ?nl = LCFG_OPT_NEWLINE
  show ?thesis
  proof (cases "lcfgpackage_to_spec pkg defarch ?opts")
    case None
    then show ?thesis by (simp add: lcfgpackage_to_cpp_def spec_text_def)
  next
    case (Some spec)
    have spec: "spec_text pkg defarch ?opts = (Some (int (length spec), spec), pkg)"
      using to_spec_length [of pkg defarch ?opts] Some by (simp add: spec_text_def)
    obtain n p1 where D: "lcfgpackage_pragma_length pkg ?D ?nl = (n, p1)" by fastforce
    have n: "n = int (length (pragma_line ?D (deriv_value pkg) ?nl))"
      using pragma_length_value [OF assms, of ?D ?nl] D by simp
    have p1: "\<exists>d. p1 = pkg\<lparr>pkg_derivation := d\<rparr>" "deriv_ok p1" "deriv_value p1 = deriv_value pkg"
      using pragma_length_package [OF assms, of ?D ?nl] D by simp_all
    have C: "lcfgpackage_pragma_length p1 ?C ?nl = (int (length (pragma_line ?C (or_default (pkg_context pkg) []) ?nl)), p1)"
      using pragma_length_value [OF p1(2), of ?C ?nl] p1(1)
      by (auto simp: lcfgpackage_pragma_length_def split_def)
    define p3 where "p3 = snd (lcfgpackage_build_pragma p1 ?D ?nl)"
    have B: "lcfgpackage_build_pragma p1 ?D ?nl = ((n, pragma_line ?D (deriv_value pkg) ?nl), p3)"
      using build_pragma_text [OF p1(2), of ?D ?nl] p1(3) n by (simp add: p3_def prod_eq_iff)
    have p3: "\<exists>d. p3 = pkg\<lparr>pkg_derivation := d\<rparr>" "deriv_ok p3"
      using build_pragma_package [OF p1(2), of ?nl] p1(1) by (auto simp: p3_def)
    have B': "fst (lcfgpackage_build_pragma p3 ?C ?nl) =
        (int (length (pragma_line ?C (or_default (pkg_context pkg) []) ?nl)), pragma_line ?C (or_default (pkg_context pkg) []) ?nl)"
      using build_pragma_text [OF p3(2), of ?C ?nl] p3(1) by auto
    have ctx: "lcfgpackage_has_context p1 = lcfgpackage_has_context pkg" using p1(1) by (auto simp: lcfgpackage_has_context_def)
    have pos: "0 < int (length (pragma_line k v ?nl))" for k v by (simp add: pragma_line_def)
    show ?thesis
      using pos [of ?D "deriv_value pkg"] pos [of ?C "or_default (pkg_context pkg) []"]
      by (simp add: lcfgpackage_to_cpp_def spec Some D n [symmetric] C B ctx B' split_def Let_def)
  qed
qed

lemma to_xml_length:
  assumes "deriv_ok pkg" and "lcfgpackage_to_xml pkg defarch options = (Some (len, xml), pkg')"
  shows "len = int (length xml)"
proof -
  obtain n p1 where l: "lcfgpackage_get_derivation_length pkg = (n, p1)" by fastforce
  note d = derivation_length_again [OF assms(1) l]
  show ?thesis
    using assms(2) l d(5,6)
    by (auto simp: lcfgpackage_to_xml_def Let_def split_def split: if_split_asm)
qed

text \<open>
  What a style needs: a name, and for the file names of RPM and Debian packages a version, with a
  release for RPM.
\<close>

definition style_attributes :: "LCFGPackage \<Rightarrow> LCFGPkgStyle \<Rightarrow> bool" where
  "style_attributes pkg style \<longleftrightarrow> lcfgpackage_has_name pkg \<and>
     (style = LCFG_PKG_STYLE_RPM \<longrightarrow> lcfgpackage_has_version pkg \<and> lcfgpackage_has_release pkg) \<and>
     (style = LCFG_PKG_STYLE_DEB \<longrightarrow> lcfgpackage_has_version pkg)"

text \<open>
  C19: the buffers of all styles. Whatever style a package is printed in, the print fails if and
  only if the package lacks an attribute that the style needs: the name and, for file names, the
  version and the release; and when it does not fail, the length computed beforehand for the
  buffer is exactly the length of the text written into it, so that the assertions of the code
  hold.
\<close>
theorem package_text_lengths:
  assumes "deriv_ok pkg"
  shows "(fst (lcfgpackage_to_string machine pkg defarch style options) = None \<longleftrightarrow> \<not> style_attributes pkg style) \<and>
    (\<forall>len result. fst (lcfgpackage_to_string machine pkg defarch style options) = Some (len, result) \<longrightarrow>
       len = int (length result))"
proof -
  have valid: "lcfgpackage_is_valid (Some pkg) = lcfgpackage_has_name pkg"
    by (simp add: lcfgpackage_is_valid_def lcfgpackage_has_name_def)
  have spec: "lcfgpackage_to_spec pkg defarch opts = None \<longleftrightarrow> \<not> lcfgpackage_has_name pkg" for opts
    by (simp add: lcfgpackage_to_spec_def Let_def valid)
  have plain: "case fst (spec_text pkg defarch options) of None \<Rightarrow> \<not> lcfgpackage_has_name pkg
      | Some (len, result) \<Rightarrow> len = int (length result) \<and> lcfgpackage_has_name pkg"
    using spec [of options] to_spec_length [of pkg defarch options]
    by (auto simp: spec_text_def split: option.splits)
  have cpp: "case fst (lcfgpackage_to_cpp pkg defarch options) of None \<Rightarrow> \<not> lcfgpackage_has_name pkg
      | Some (len, result) \<Rightarrow> len = int (length result) \<and> lcfgpackage_has_name pkg"
    using spec [of "options OR LCFG_OPT_NOCONTEXT OR LCFG_OPT_NOPREFIX OR LCFG_OPT_NEWLINE"]
    by (auto simp: to_cpp_text [OF assms] Let_def split: option.splits)
  have summary: "case fst (lcfgpackage_to_summary pkg defarch options) of None \<Rightarrow> \<not> lcfgpackage_has_name pkg
      | Some (len, result) \<Rightarrow> len = int (length result) \<and> lcfgpackage_has_name pkg"
    using to_summary_length [of pkg defarch options]
    by (cases "lcfgpackage_to_summary pkg defarch options")
       (auto simp: lcfgpackage_to_summary_def Let_def split_def valid split: option.splits if_split_asm)
  have xml: "case fst (lcfgpackage_to_xml pkg defarch options) of None \<Rightarrow> \<not> lcfgpackage_has_name pkg
      | Some (len, result) \<Rightarrow> len = int (length result) \<and> lcfgpackage_has_name pkg"
    using to_xml_length [OF assms, of defarch options]
    by (cases "lcfgpackage_to_xml pkg defarch options")
       (auto simp: lcfgpackage_to_xml_def Let_def split_def valid split: option.splits if_split_asm)
  show ?thesis
    using plain cpp summary xml
    by (cases style) (auto simp: style_attributes_def lcfgpackage_to_string_def lcfgpackage_to_rpm_filename_def
        lcfgpackage_to_deb_filename_def Let_def valid split: option.splits if_splits)
qed

definition derived_package :: LCFGPackage where
  "derived_package = snd (lcfgpackage_set_derivation_as_string sample_package (Some ''a.h:5,7 b.h:3''))"

lemma derived_package_ok: "deriv_ok derived_package" "lcfgpackage_has_name derived_package"
  by (auto simp: derived_package_def lcfgpackage_set_derivation_as_string_def lcfgpackage_set_derivation_def
      deriv_ok_def sample_package_def lcfgpackage_new_def lcfgpackage_has_name_def
      dest: derivlist_from_string_ok split: sum.splits)

theorem package_text_lengths_witness:
  "\<exists>len result. fst (lcfgpackage_to_string [] derived_package None LCFG_PKG_STYLE_XML LCFG_OPT_USE_META) =
     Some (len, result) \<and> len = int (length result)"
  using package_text_lengths [OF derived_package_ok(1), where machine = "[]" and defarch = None and
      style = LCFG_PKG_STYLE_XML and options = LCFG_OPT_USE_META] derived_package_ok(2)
  by (auto simp: style_attributes_def)

section \<open>Pragmas can be read back\<close>

lemma skip_space_blank [simp]: "skip_space (CHR '' '' # s) = skip_space s"
  by (simp add: skip_space_def isspace_def lcfg_chr byte_def)

text \<open>
  C26: a pragma is read back as it was built: \<open>lcfgpackage_parse_pragma\<close> finds the key, and as
  value the category, the context or the whole text of the derivation, whatever characters
  (quotes included) it has, with and without the newline.
\<close>
theorem pragma_roundtrip:
  assumes "deriv_ok pkg"
  shows "lcfgpackage_parse_pragma (Some (snd (fst (lcfgpackage_build_pragma pkg key options)))) =
    Some (key, pragma_value pkg key)"
proof -
  let ?v = "pragma_value pkg key"
  have "CHR 0x22 \<notin> set (newline options)" by (simp add: newline_def)
  then have v: "strrchr_split (?v @ CHR 0x22 # newline options) (CHR 0x22) = Some (?v, newline options)"
    by (rule strrchr_split_last)
  have key: "skip_space (CHR ''c'' # s) = CHR ''c'' # s" "skip_space (CHR ''d'' # s) = CHR ''d'' # s"
    "skip_space (CHR 0x22 # s) = CHR 0x22 # s" for s
    by (simp_all add: skip_space_def isspace_def lcfg_chr byte_def)
  have "lcfgpackage_parse_pragma (Some (pragma_line key ?v options)) = Some (key, ?v)"
    using v by (cases key) (simp_all add: lcfgpackage_parse_pragma_def pragma_line_def pragma_def starts_with_def key Let_def)
  then show ?thesis by (simp add: build_pragma_text [OF assms])
qed

theorem pragma_roundtrip_witness:
  "lcfgpackage_parse_pragma (Some (snd (fst (lcfgpackage_build_pragma derived_package LCFG_PKG_PRAGMA_DERIVE LCFG_OPT_NEWLINE)))) =
    Some (LCFG_PKG_PRAGMA_DERIVE, deriv_value derived_package)"
  using pragma_roundtrip [OF derived_package_ok(1), of LCFG_PKG_PRAGMA_DERIVE LCFG_OPT_NEWLINE] by simp

section \<open>RPM file names can be read back\<close>

lemma search_below_found:
  assumes "f = a @ c # b @ r" and "c \<notin> set b"
  shows "search_below f c (length a + 1 + length b) = Some (length a)"
proof -
  have "n \<le> length b \<Longrightarrow> search_below f c (length a + 1 + n) = Some (length a)" for n
  proof (induction n)
    case (Suc n)
    then have "b ! n \<in> set b" by simp
    with Suc.prems have "f ! (length a + 1 + n) \<noteq> c" using assms by (auto simp: nth_append)
    with Suc show ?case by simp
  qed (simp add: assms(1))
  then show ?thesis by blast
qed

lemma rpm_field_found:
  assumes "f = a @ c # b @ r" and "b \<noteq> []" and "c \<notin> set b" and "i = length a + 1 + length b"
  shows "rpm_field f c i = Some (length a, b)"
proof -
  obtain b' x where b: "b = b' @ [x]" using assms(2) by (cases b rule: rev_cases) auto
  have "search_below f c (length a + 1 + length b') = Some (length a)"
    by (rule search_below_found [of _ _ _ _ "x # r"]) (use assms b in auto)
  then show ?thesis using assms b by (simp add: rpm_field_def)
qed

text \<open>The architecture in the file name.\<close>

definition rpm_arch :: "string \<Rightarrow> LCFGPackage \<Rightarrow> cstr \<Rightarrow> string" where
  "rpm_arch machine pkg defarch =
     (if lcfgpackage_has_arch pkg then or_default (pkg_arch pkg) []
      else case defarch of Some a \<Rightarrow> a | None \<Rightarrow> default_architecture machine)"

lemma no_slash:
  "lcfgpackage_valid_name (Some n) \<Longrightarrow> CHR ''/'' \<notin> set n"
  "lcfgpackage_valid_version (Some v) \<Longrightarrow> CHR ''/'' \<notin> set v"
  "lcfgpackage_valid_release (Some r) \<Longrightarrow> CHR ''/'' \<notin> set r \<and> CHR ''-'' \<notin> set r"
  "lcfgpackage_valid_arch (Some a) \<Longrightarrow> CHR ''/'' \<notin> set a \<and> CHR ''.'' \<notin> set a"
  by (cases n; auto simp: lcfgpackage_valid_name_def lcfgpackage_valid_version_def lcfgpackage_valid_release_def
      lcfgpackage_valid_arch_def list_all_iff isnamechr_def isverchr_def isrelchr_def isword_def isalnum_def isalpha_def
      isupper_def islower_def isdigit_def strchr_in_def lcfg_chr byte_def nul_def)+

lemma skip_epoch_suffix: "\<exists>e. v = e @ skip_epoch v"
proof -
  have "strchr_split v c = Some (a, b) \<Longrightarrow> v = a @ c # b" for a b c
    by (induction v arbitrary: a) (auto split: if_splits)
  then have "strchr_split v (CHR '':'') = Some (a, b) \<Longrightarrow> v = (a @ [CHR '':'']) @ b" for a b by simp
  then show ?thesis
    unfolding skip_epoch_def by (cases "strchr_split v (CHR '':'')") (simp, fastforce simp del: append_assoc)
qed

lemma from_rpm_fields:
  assumes "lcfgpackage_valid_name (Some n)" and "lcfgpackage_valid_version (Some v)" and "CHR ''-'' \<notin> set v"
    and "lcfgpackage_valid_release (Some r)" and "lcfgpackage_valid_arch (Some a)" and "dir = [] \<or> last dir = CHR ''/''"
  shows "lcfgpackage_from_rpm_filename (Some (dir @ n @ ''-'' @ v @ ''-'' @ r @ ''.'' @ a @ ''.rpm'')) =
    Inr (lcfgpackage_new\<lparr>pkg_name := Some n, pkg_version := Some v, pkg_release := Some r, pkg_arch := Some a\<rparr>)"
proof -
  let ?f = "n @ ''-'' @ v @ ''-'' @ r @ ''.'' @ a @ ''.rpm''"
  have ne: "n \<noteq> []" "v \<noteq> []" "r \<noteq> []" "a \<noteq> []"
    using assms by (auto simp: lcfgpackage_valid_name_def lcfgpackage_valid_version_def lcfgpackage_valid_release_def
        lcfgpackage_valid_arch_def)
  have slash: "CHR ''/'' \<notin> set ?f" and dash: "CHR ''-'' \<notin> set r" and dot: "CHR ''.'' \<notin> set a"
    using no_slash(1) [OF assms(1)] no_slash(2) [OF assms(2)] no_slash(3) [OF assms(4)] no_slash(4) [OF assms(5)] by simp_all
  have fname: "(case strrchr_split (dir @ ?f) (CHR ''/'') of None \<Rightarrow> dir @ ?f | Some (_, x) \<Rightarrow> x) = ?f"
  proof (cases "dir = []")
    case True
    then show ?thesis using strrchr_split_none [OF slash] by simp
  next
    case False
    then obtain d where "dir = d @ [CHR ''/'']" using assms(6) by (cases dir rule: rev_cases) auto
    then show ?thesis using strrchr_split_last [OF slash, of d] by simp
  qed
  have "x \<noteq> [] \<Longrightarrow> lcfgutils_string_endswith (Some (s @ x)) (Some x)" for s x
    by (simp add: lcfgutils_string_endswith_def)
  note suffix = this [of "''.rpm''" "n @ ''-'' @ v @ ''-'' @ r @ ''.'' @ a"]
  have inp: "or_default (Some (dir @ ?f)) [] = dir @ ?f" by (simp add: or_default_empty)
  have ends: "lcfgutils_string_endswith (Some ?f) (Some ''.rpm'')" using suffix by simp
  have F1: "rpm_field ?f (CHR ''.'') (length ?f - 4) = Some (length (n @ ''-'' @ v @ ''-'' @ r), a)"
    by (rule rpm_field_found [of _ _ _ _ "''.rpm''"]) (use ne dot in simp_all)
  have F2: "rpm_field ?f (CHR ''-'') (length (n @ ''-'' @ v @ ''-'' @ r)) = Some (length (n @ ''-'' @ v), r)"
    by (rule rpm_field_found [of _ _ _ _ "''.'' @ a @ ''.rpm''"]) (use ne dash in simp_all)
  have F3: "rpm_field ?f (CHR ''-'') (length (n @ ''-'' @ v)) = Some (length n, v)"
    by (rule rpm_field_found [of _ _ _ _ "''-'' @ r @ ''.'' @ a @ ''.rpm''"]) (use ne assms(3) in simp_all)
  have store: "rpm_store lcfgpackage_set_arch w a p = Inr (p\<lparr>pkg_arch := Some a\<rparr>)"
    "rpm_store lcfgpackage_set_release w r p = Inr (p\<lparr>pkg_release := Some r\<rparr>)"
    "rpm_store lcfgpackage_set_version w v p = Inr (p\<lparr>pkg_version := Some v\<rparr>)"
    "rpm_store lcfgpackage_set_name w n p = Inr (p\<lparr>pkg_name := Some n\<rparr>)" for w p
    using assms by (simp_all add: rpm_store_def pkg_setters)
  have "lcfgpackage_from_rpm_filename (Some (dir @ ?f)) =
      Inr (lcfgpackage_new\<lparr>pkg_arch := Some a, pkg_release := Some r, pkg_version := Some v, pkg_name := Some n\<rparr>)"
    unfolding lcfgpackage_from_rpm_filename_def Let_def inp fname F1
    using ne ends F2 F3 by (simp add: store or_fail_def)
  then show ?thesis by simp
qed

text \<open>
  C23: RPM file names can be read back. For a package with valid attributes whose version has
  no hyphen after its epoch, \<open>lcfgpackage_from_rpm_filename\<close> accepts the file name that
  \<open>lcfgpackage_to_rpm_filename\<close> gives, below any directory, and finds the name, the version
  without its epoch, the release and the architecture (the default one where the package
  has none).
\<close>
theorem rpm_filename_roundtrip:
  assumes "pkg_ok pkg" and "lcfgpackage_has_name pkg" "lcfgpackage_has_version pkg" "lcfgpackage_has_release pkg"
    and "CHR ''-'' \<notin> set (skip_epoch (or_default (pkg_version pkg) []))"
    and "skip_epoch (or_default (pkg_version pkg) []) \<noteq> []"
    and "lcfgpackage_valid_arch (Some (rpm_arch machine pkg defarch))"
    and "\<not> has_bit options LCFG_OPT_NEWLINE" and "dir = [] \<or> last dir = CHR ''/''"
  shows "\<exists>len file. fst (lcfgpackage_to_rpm_filename machine pkg defarch options) = Some (len, file) \<and>
    lcfgpackage_from_rpm_filename (Some (dir @ file)) =
      Inr (lcfgpackage_new\<lparr>pkg_name := pkg_name pkg,
             pkg_version := Some (skip_epoch (or_default (pkg_version pkg) [])),
             pkg_release := pkg_release pkg, pkg_arch := Some (rpm_arch machine pkg defarch)\<rparr>)"
proof -
  obtain n v r where nvr: "pkg_name pkg = Some n" "pkg_version pkg = Some v" "pkg_release pkg = Some r"
    and ne: "n \<noteq> []" "v \<noteq> []" "r \<noteq> []"
    using assms(2-4) not_isemptyE
    unfolding lcfgpackage_has_name_def lcfgpackage_has_version_def lcfgpackage_has_release_def by metis
  have valid: "lcfgpackage_valid_name (Some n)" "lcfgpackage_valid_version (Some v)" "lcfgpackage_valid_release (Some r)"
    using assms(1) nvr ne by (simp_all add: pkg_ok_def attr_ok_def)
  have "lcfgpackage_valid_version (Some (skip_epoch v))"
    using skip_epoch_suffix [of v] valid(2) assms(6) nvr(2)
    by (auto simp: lcfgpackage_valid_version_def list_all_iff) (metis Un_iff set_append)
  from from_rpm_fields [OF valid(1) this _ valid(3) assms(7,9)] assms(5,8) nvr ne
  show ?thesis
    using assms(2-4) by (simp add: lcfgpackage_to_rpm_filename_def lcfgpackage_is_valid_def lcfgpackage_has_name_def
        rpm_arch_def Let_def or_default_empty ne)
qed

theorem rpm_filename_roundtrip_witness:
  "\<exists>len file. fst (lcfgpackage_to_rpm_filename ''x86_64'' sample_package None LCFG_OPT_NONE) = Some (len, file) \<and>
    lcfgpackage_from_rpm_filename (Some (''rpms/'' @ file)) =
      Inr (lcfgpackage_new\<lparr>pkg_name := Some ''foo'', pkg_version := Some ''1.0'', pkg_release := Some ''2'',
             pkg_arch := Some ''x86_64''\<rparr>)"
proof -
  have p: "pkg_name sample_package = Some ''foo''" "pkg_version sample_package = Some ''1.0''"
    "pkg_release sample_package = Some ''2''" "pkg_arch sample_package = None"
    by (simp_all add: sample_package_def lcfgpackage_new_def)
  have a: "rpm_arch ''x86_64'' sample_package None = ''x86_64''"
    by (simp add: rpm_arch_def lcfgpackage_has_arch_def p default_architecture_def ARCH_MAXLEN_def)
  have v: "skip_epoch ''1.0'' = ''1.0''" by (simp add: skip_epoch_def)
  have "lcfgpackage_valid_arch (Some ''x86_64'')"
    by (simp add: lcfgpackage_valid_arch_def isword_def isalnum_def isalpha_def isupper_def islower_def isdigit_def lcfg_chr byte_def)
  then show ?thesis
    using rpm_filename_roundtrip [OF sample_package_facts(1), where machine = "''x86_64''" and defarch = None and
        options = LCFG_OPT_NONE and dir = "''rpms/''", unfolded a p or_default_simps v]
    by (simp add: lcfgpackage_has_name_def lcfgpackage_has_version_def lcfgpackage_has_release_def p v
        has_bit_def LCFG_OPT_NONE_def)
qed

section \<open>Stored options are safe\<close>

text \<open>A line that defines a macro, with or without a value.\<close>

definition define_line :: "string \<times> string option \<Rightarrow> string" where
  "define_line d =
     (case d of (key, None) \<Rightarrow> ''#define '' @ key @ [CHR 0x0A]
      | (key, Some v) \<Rightarrow> ''#define '' @ key @ '' '' @ v @ [CHR 0x0A])"

definition safe_define :: "string \<times> string option \<Rightarrow> bool" where
  "safe_define d \<longleftrightarrow> valid_cpp_identifier (fst d) \<and> (\<forall>v. snd d = Some v \<longrightarrow> v \<noteq> [] \<and> valid_cpp_simple_value v)"

lemma store_option_safe: "\<exists>ds. fst (store_option defn) = concat (map define_line ds) \<and> list_all safe_define ds"
proof -
  let ?P = "\<lambda>s. \<exists>ds. s = concat (map define_line ds) \<and> list_all safe_define ds"
  have none: "?P []" by (rule exI [of _ "[]"]) simp
  have one: "valid_cpp_identifier key \<Longrightarrow> ?P (''#define '' @ key @ [CHR 0x0A])" for key
    by (rule exI [of _ "[(key, None)]"]) (simp add: define_line_def safe_define_def)
  have two: "valid_cpp_identifier key \<Longrightarrow> v \<noteq> [] \<Longrightarrow> valid_cpp_simple_value v \<Longrightarrow>
      ?P (''#define '' @ key @ '' '' @ v @ [CHR 0x0A])" for key v
    by (rule exI [of _ "[(key, Some v)]"]) (simp add: define_line_def safe_define_def)
  show ?thesis
    using none one two by (simp add: store_option_def Let_def split_def del: append.simps)
qed

text \<open>
  C20: package options cannot inject anything into the preprocessor. Whatever strings are
  given, as long as none is empty \<open>lcfgpackage_store_options\<close> returns, and the file it writes
  consists of complete lines that each define one C identifier, without a value or with one
  made of letters, digits, underscores and dots.
\<close>
theorem store_options_safe:
  assumes "[] \<notin> set options"
  shows "\<exists>defs warnings. lcfgpackage_store_options options = Some (concat (map define_line defs), warnings) \<and>
    list_all safe_define defs"
  using assms
proof (induction options)
  case Nil
  then show ?case by (auto intro: exI [of _ "[]"])
next
  case (Cons s options)
  then obtain defs warnings where rest: "lcfgpackage_store_options options = Some (concat (map define_line defs), warnings)"
    "list_all safe_define defs" by auto
  obtain parts where parts: "lcfgutils_string_split (Some s) '' '' 0 = Some (Some parts)"
    using split_count_loop_bound [of "'' ''" s 1 INT_MAX 0] Cons.prems
    by (auto simp: lcfgutils_string_split_def split_size_def)
  have "\<exists>ds. concat (map (\<lambda>d. fst (store_option d)) parts) = concat (map define_line ds) \<and> list_all safe_define ds"
  proof (induction parts)
    case (Cons d parts)
    then obtain ds where "concat (map (\<lambda>d. fst (store_option d)) parts) = concat (map define_line ds)" "list_all safe_define ds"
      by blast
    moreover obtain ds' where "fst (store_option d) = concat (map define_line ds')" "list_all safe_define ds'"
      using store_option_safe by blast
    ultimately show ?case by (intro exI [of _ "ds' @ ds"]) simp
  qed (simp add: exI [of _ "[]"])
  then obtain ds where "concat (map (\<lambda>d. fst (store_option d)) parts) = concat (map define_line ds)" "list_all safe_define ds"
    by blast
  with rest parts show ?case by (intro exI [of _ "ds @ defs"]) simp
qed

theorem store_options_safe_witness:
  "\<exists>defs warnings. lcfgpackage_store_options [''-DA=1 B x;y=2''] = Some (concat (map define_line defs), warnings) \<and>
    list_all safe_define defs"
  by (rule store_options_safe) simp

text \<open>An empty option string makes the loop read through a null pointer.\<close>

lemma store_options_empty: "lcfgpackage_store_options [[]] = None"
  by (simp add: lcfgutils_string_split_def)

end
