(* ===== verification/Lcfg_Package_Reader.thy ===== *)
theory Lcfg_Package_Reader
  imports Lcfg_Package_Set Lcfg_Package_Text Lcfg_Derivation_Map
begin

text \<open>
  Reading packages into lists and sets (\<open>packages/container.c\<close>, the readers of
  \<open>packages/list.c\<close>) and printing them. The program \<open>cpp\<close> and the files are parameters: a
  reader gets the lines of its input. A new package gets the next free address of the heap.
\<close>

section \<open>Reading the output of cpp\<close>

text \<open>
  The ways to end that are not a return: an exit of the derivation map or of a set, the
  reallocation of a pointer that was not allocated, the read through a null pointer.
\<close>

datatype reader_stop = Map_Stop "string option" | Set_Stop set_stop | Bad_Realloc | Null_Pointer

type_synonym 'a reading = "reader_stop + 'a"

text \<open>What \<open>lcfgpackages_from_cpp\<close> keeps between lines.\<close>

record cpp_reader =
  rd_deriv :: cstr
  rd_context :: cstr
  rd_category :: cstr
  rd_file :: cstr
  rd_line :: "32 word"
  rd_deps :: "string list"
  rd_drvmap :: "LCFGDerivationMap option"

definition cpp_deps_size :: nat where "cpp_deps_size = 64"

text \<open>A line that starts with a hash: a marker of the preprocessor, or a pragma.\<close>

definition store_pragma :: "LCFGPkgPragma \<Rightarrow> string \<Rightarrow> cpp_reader \<Rightarrow> cpp_reader" where
  "store_pragma meta_key meta_value rd =
     (case meta_key of
        LCFG_PKG_PRAGMA_DERIVE \<Rightarrow> rd\<lparr>rd_deriv := Some meta_value\<rparr>
      | LCFG_PKG_PRAGMA_CONTEXT \<Rightarrow> rd\<lparr>rd_context := Some meta_value\<rparr>
      | LCFG_PKG_PRAGMA_CATEGORY \<Rightarrow> rd\<lparr>rd_category := Some meta_value\<rparr>)"

definition cpp_hash_line :: "bool \<Rightarrow> string \<Rightarrow> cpp_reader \<Rightarrow> cpp_reader reading" where
  "cpp_hash_line include_meta line rd =
     (case lcfgutils_parse_cpp_derivation line (rd_file rd) of
        Some (new_file, new_line, cpp_flags) \<Rightarrow>
          let rd' = rd\<lparr>rd_file := new_file, rd_line := new_line - 1\<rparr> in
          if has_bit cpp_flags LCFG_CPP_FLAG_ENTRY
          then let name = or_default new_file [];
                   deps = (if \<exists>d\<in>set (rd_deps rd). strcmp d name = 0 then rd_deps rd else rd_deps rd @ [name])
               in if length deps = cpp_deps_size then Inl Bad_Realloc else Inr (rd'\<lparr>rd_deps := deps\<rparr>)
          else Inr rd'
      | None \<Rightarrow>
          if include_meta
          then (case lcfgpackage_parse_pragma (Some line) of
                  Some (meta_key, meta_value) \<Rightarrow>
                    Inr (if meta_value \<noteq> [] then store_pragma meta_key meta_value rd else rd)
                | None \<Rightarrow> Inr rd)
          else Inr rd)"

text \<open>
  The steps that make a package of a line. A step fails with the error message, which may
  be missing.
\<close>

definition quoted_text :: "string \<Rightarrow> string" where
  "quoted_text s = [CHR 0x27] @ s @ [CHR 0x27]"

definition cpp_arch :: "cstr \<Rightarrow> LCFGPackage \<Rightarrow> cstr + LCFGPackage" where
  "cpp_arch defarch pkg =
     (if \<not> lcfgpackage_has_arch pkg \<and> \<not> isempty defarch
      then (case lcfgpackage_set_arch pkg defarch of (ok, pkg') \<Rightarrow>
              if ok then Inr pkg'
              else Inl (Some (''Failed to set package architecture to '' @ quoted_text (or_default defarch []))))
      else Inr pkg)"

definition cpp_derivation ::
    "(string \<Rightarrow> 64 word) \<Rightarrow> bool \<Rightarrow> cpp_reader \<Rightarrow> LCFGPackage \<Rightarrow> (cstr + LCFGPackage \<times> cpp_reader) reading" where
  "cpp_derivation farmhash64 include_meta rd pkg =
     (if include_meta \<and> \<not> isempty (rd_deriv rd)
      then (case lcfgderivmap_find_or_insert_string farmhash64 (the (rd_drvmap rd)) (rd_deriv rd) None of
              Inl stop \<Rightarrow> Inl (Map_Stop stop)
            | Inr (drvlist, drvmap, drvmsg) \<Rightarrow>
                let (ok, pkg') = (if drvlist \<noteq> None then lcfgpackage_set_derivation pkg drvlist else (False, pkg))
                in if ok then Inr (Inr (pkg', rd\<lparr>rd_drvmap := Some drvmap\<rparr>))
                   else Inr (Inl (Some (''Invalid derivation '' @ quoted_text (or_default (rd_deriv rd) []) @ '': '' @
                                        or_default drvmsg ''(null)''))))
      else Inr (Inr (snd (lcfgpackage_add_derivation_file_line pkg (rd_file rd) (sint (rd_line rd))), rd)))"

definition cpp_metadata :: "bool \<Rightarrow> cpp_reader \<Rightarrow> LCFGPackage \<Rightarrow> cstr + LCFGPackage \<times> cpp_reader" where
  "cpp_metadata include_meta rd pkg =
     (if \<not> include_meta then Inr (pkg, rd)
      else or_fail
        (if isempty (rd_context rd) then Inr (pkg, rd)
         else case lcfgpackage_set_context pkg (rd_context rd) of (ok, pkg') \<Rightarrow>
           if ok then Inr (pkg', rd\<lparr>rd_context := None\<rparr>)
           else Inl (Some (''Invalid context '' @ quoted_text (or_default (rd_context rd) []))))
        (\<lambda>(pkg, rd).
         if isempty (rd_category rd) then Inr (pkg, rd)
         else case lcfgpackage_set_category pkg (rd_category rd) of (ok, pkg') \<Rightarrow>
           if ok then Inr (pkg', rd)
           else Inl (Some (''Invalid category '' @ quoted_text (or_default (rd_category rd) [])))))"

definition cpp_package ::
    "(string \<Rightarrow> 64 word) \<Rightarrow> bool \<Rightarrow> cstr \<Rightarrow> string \<Rightarrow> cpp_reader \<Rightarrow> (cstr + LCFGPackage \<times> cpp_reader) reading" where
  "cpp_package farmhash64 include_meta defarch line rd =
     (case or_fail (case lcfgpackage_from_spec (Some line) of Inl e \<Rightarrow> Inl (Some e) | Inr pkg \<Rightarrow> Inr pkg)
             (cpp_arch defarch) of
        Inl error_msg \<Rightarrow> Inr (Inl error_msg)
      | Inr pkg \<Rightarrow>
          or_fail (cpp_derivation farmhash64 include_meta rd pkg) (\<lambda>r.
            Inr (or_fail r (\<lambda>(pkg, rd). cpp_metadata include_meta rd pkg))))"

text \<open>The loop over the lines; \<open>merge_fn\<close> is the merge of a list or a set.\<close>

type_synonym 'c merge_fn = "pkg_heap \<Rightarrow> 'c \<Rightarrow> nat \<Rightarrow> cstr \<Rightarrow> (LCFGChange \<times> pkg_heap \<times> 'c \<times> cstr) run"

definition error_at :: "string \<Rightarrow> 32 word \<Rightarrow> cstr \<Rightarrow> string" where
  "error_at name line_num error_msg =
     ''Error in '' @ quoted_text name @ '' at line '' @ decimal (unat line_num) @
     (case error_msg of None \<Rightarrow> [] | Some m \<Rightarrow> '': '' @ m)"

definition after_merge :: "LCFGChange \<Rightarrow> LCFGChange \<Rightarrow> LCFGChange" where
  "after_merge change merge_status =
     (if LCFGChangeError merge_status then LCFG_CHANGE_ERROR
      else if merge_status \<noteq> LCFG_CHANGE_NONE then LCFG_CHANGE_MODIFIED else change)"

fun cpp_loop ::
    "'c merge_fn \<Rightarrow> (string \<Rightarrow> 64 word) \<Rightarrow> bool \<Rightarrow> cstr \<Rightarrow> string list \<Rightarrow> pkg_heap \<Rightarrow> nat \<Rightarrow> 'c \<Rightarrow> cpp_reader \<Rightarrow>
     LCFGChange \<Rightarrow> cstr \<Rightarrow> (LCFGChange \<times> pkg_heap \<times> nat \<times> 'c \<times> cpp_reader \<times> cstr) reading" where
  "cpp_loop merge_fn farmhash64 include_meta defarch [] h free c rd change msg = Inr (change, h, free, c, rd, msg)"
| "cpp_loop merge_fn farmhash64 include_meta defarch (l # rest) h free c rd0 change msg =
     (if \<not> LCFGChangeOK change then Inr (change, h, free, c, rd0, msg)
      else let rd = rd0\<lparr>rd_line := rd_line rd0 + 1\<rparr>;
               line = lcfgutils_string_trim l
           in if line = [] then cpp_loop merge_fn farmhash64 include_meta defarch rest h free c rd change msg
              else if hd line = CHR ''#''
              then (case cpp_hash_line include_meta line rd of
                      Inl stop \<Rightarrow> Inl stop
                    | Inr rd' \<Rightarrow> cpp_loop merge_fn farmhash64 include_meta defarch rest h free c rd' change msg)
              else (case cpp_package farmhash64 include_meta defarch line rd of
                      Inl stop \<Rightarrow> Inl stop
                    | Inr (Inl error_msg) \<Rightarrow>
                        Inr (LCFG_CHANGE_ERROR, h, free, c, rd,
                             Some (error_at (or_default (rd_file rd) ''(null)'') (rd_line rd) error_msg))
                    | Inr (Inr (pkg, rd')) \<Rightarrow>
                        (case merge_fn (h(free \<mapsto> pkg)) c free None of
                           Inl stop \<Rightarrow> Inl (Set_Stop stop)
                         | Inr (merge_status, h', c', error_msg) \<Rightarrow>
                             cpp_loop merge_fn farmhash64 include_meta defarch rest
                               (relinquish_at free h') (free + 1) c' rd' (after_merge change merge_status)
                               (if LCFGChangeError merge_status
                                then Some (error_at (or_default (rd_file rd) ''(null)'') (rd_line rd) error_msg)
                                else msg))))"

text \<open>
  \<open>lcfgpackages_from_cpp\<close>: \<open>readable\<close> is the test of the file, \<open>cpp\<close> the lines the
  preprocessor writes or \<open>None\<close> when it fails. The dependencies are a null pointer when the
  function returns before it allocates them.
\<close>

definition cpp_start :: "LCFGDerivationMap option \<Rightarrow> cpp_reader" where
  "cpp_start drvmap =
     \<lparr>rd_deriv = None, rd_context = None, rd_category = None, rd_file = None, rd_line = 0, rd_deps = [], rd_drvmap = drvmap\<rparr>"

definition lcfgpackages_from_cpp ::
    "'c merge_fn \<Rightarrow> (string \<Rightarrow> 64 word) \<Rightarrow> (string \<Rightarrow> bool) \<Rightarrow> (string \<Rightarrow> string list option) \<Rightarrow>
     pkg_heap \<Rightarrow> nat \<Rightarrow> cstr \<Rightarrow> 'c \<Rightarrow> cstr \<Rightarrow> bits \<Rightarrow> cstr \<Rightarrow>
     (LCFGChange \<times> pkg_heap \<times> nat \<times> 'c \<times> string list option \<times> cstr) reading" where
  "lcfgpackages_from_cpp merge_fn farmhash64 readable cpp h free filename c defarch options msg =
     (if isempty filename then Inr (LCFG_CHANGE_ERROR, h, free, c, None, Some ''Invalid CPP filename'')
      else let name = or_default filename [] in
      if \<not> readable name
      then Inr (LCFG_CHANGE_ERROR, h, free, c, None,
                Some (''File '' @ quoted_text name @ '' does not exist or is not readable''))
      else let include_meta = has_bit options LCFG_OPT_USE_META in
      case cpp name of
        None \<Rightarrow> Inr (LCFG_CHANGE_ERROR, h, free, c, None, Some (''Failed to process '' @ quoted_text name @ '' using cpp''))
      | Some lines \<Rightarrow>
          (case (if include_meta then map_sum Map_Stop Some lcfgderivmap_new else Inr None) of
             Inl stop \<Rightarrow> Inl stop
           | Inr drvmap \<Rightarrow>
               (case cpp_loop merge_fn farmhash64 include_meta defarch lines h free c (cpp_start drvmap) LCFG_CHANGE_NONE msg of
                  Inl stop \<Rightarrow> Inl stop
                | Inr (change, h', free', c', rd, msg') \<Rightarrow>
                    Inr (change, h', free', c', Some (rd_deps rd),
                         if LCFGChangeError change \<and> msg' = None then Some ''Failed to process package list file'' else msg'))))"

section \<open>Reading lists\<close>

definition list_merge :: "LCFGPackageList merge_fn" where
  "list_merge h pkglist new msg = Inr (lcfgpkglist_merge_package h pkglist new msg)"

text \<open>The end of the readers: what was read becomes the result, or is merged into it.\<close>

definition give_list ::
    "LCFGChange \<Rightarrow> pkg_heap \<Rightarrow> LCFGPackageList \<Rightarrow> LCFGPackageList option \<Rightarrow> cstr \<Rightarrow>
     LCFGChange \<times> pkg_heap \<times> LCFGPackageList option \<times> cstr" where
  "give_list change h pkgs result msg =
     (if LCFGChangeOK change
      then (case result of
              None \<Rightarrow> (change, h, Some pkgs, msg)
            | Some r \<Rightarrow> (case lcfgpkglist_merge_list h r (Some pkgs) msg of (change', h', r', msg') \<Rightarrow>
                (change', fst (lcfgpkglist_relinquish h' (Some pkgs)), Some r', msg')))
      else (change, fst (lcfgpkglist_relinquish h (Some pkgs)), result, msg))"

definition lcfgpkglist_from_rpmcfg ::
    "(string \<Rightarrow> 64 word) \<Rightarrow> (string \<Rightarrow> bool) \<Rightarrow> (string \<Rightarrow> string list option) \<Rightarrow> pkg_heap \<Rightarrow> nat \<Rightarrow>
     cstr \<Rightarrow> LCFGPackageList option \<Rightarrow> cstr \<Rightarrow> bits \<Rightarrow> cstr \<Rightarrow>
     (LCFGChange \<times> pkg_heap \<times> nat \<times> LCFGPackageList option \<times> cstr) reading" where
  "lcfgpkglist_from_rpmcfg farmhash64 readable cpp h free filename result defarch options msg =
     (let merge_rules = (if has_bit options LCFG_OPT_ALL_CONTEXTS
                         then LCFG_MERGE_RULE_SQUASH_IDENTICAL OR LCFG_MERGE_RULE_KEEP_ALL
                         else LCFG_MERGE_RULE_SQUASH_IDENTICAL);
          (ok, pkgs) = lcfgpkglist_set_merge_rules lcfgpkglist_new merge_rules
      in case lcfgpackages_from_cpp list_merge farmhash64 readable cpp h free filename pkgs defarch options msg of
           Inl stop \<Rightarrow> Inl stop
         | Inr (change, h', free', pkgs', deps, msg') \<Rightarrow>
             (case give_list change h' pkgs' result msg' of (change', h'', result', msg'') \<Rightarrow>
                if deps = None then Inl Null_Pointer else Inr (change', h'', free', result', msg'')))"

definition lcfgpkglist_from_pkgsfile ::
    "(string \<Rightarrow> 64 word) \<Rightarrow> (string \<Rightarrow> bool) \<Rightarrow> (string \<Rightarrow> string list option) \<Rightarrow> pkg_heap \<Rightarrow> nat \<Rightarrow>
     cstr \<Rightarrow> LCFGPackageList option \<Rightarrow> cstr \<Rightarrow> bits \<Rightarrow> cstr \<Rightarrow>
     (LCFGChange \<times> pkg_heap \<times> nat \<times> LCFGPackageList option \<times> string list option \<times> cstr) reading" where
  "lcfgpkglist_from_pkgsfile farmhash64 readable cpp h free filename result defarch options msg =
     (let (ok, pkgs) = lcfgpkglist_set_merge_rules
            (lcfgpkglist_new\<lparr>pkl_primary_key := LCFG_PKGLIST_PK_NAME OR LCFG_PKGLIST_PK_ARCH OR LCFG_PKGLIST_PK_CTX\<rparr>)
            (LCFG_MERGE_RULE_SQUASH_IDENTICAL OR LCFG_MERGE_RULE_USE_PREFIX)
      in case lcfgpackages_from_cpp list_merge farmhash64 readable cpp h free filename pkgs defarch options msg of
           Inl stop \<Rightarrow> Inl stop
         | Inr (change, h', free', pkgs', deps, msg') \<Rightarrow>
             (case give_list change h' pkgs' result msg' of (change', h'', result', msg'') \<Rightarrow>
                Inr (change', h'', free', result', deps, msg'')))"

section \<open>Reading a Debian index\<close>

text \<open>One field of a package: whether it was accepted, the package and the error message.\<close>

definition deb_error :: "string \<Rightarrow> string \<Rightarrow> LCFGPackage \<Rightarrow> cstr" where
  "deb_error what v pkg =
     Some (fst (lcfgpackage_build_message (Some pkg) (''Invalid '' @ what @ '' '' @ quoted_text v) False))"

definition deb_set ::
    "(LCFGPackage \<Rightarrow> cstr \<Rightarrow> bool \<times> LCFGPackage) \<Rightarrow> string \<Rightarrow> string \<Rightarrow> LCFGPackage \<Rightarrow> cstr \<Rightarrow> bool \<times> LCFGPackage \<times> cstr"
where
  "deb_set setter what v pkg error_msg =
     (case setter pkg (Some v) of (ok, pkg') \<Rightarrow> (ok, pkg', if ok then error_msg else deb_error what v pkg'))"

definition deb_field :: "string \<Rightarrow> LCFGPackage \<Rightarrow> cstr \<Rightarrow> bool \<times> LCFGPackage \<times> cstr" where
  "deb_field line pkg error_msg =
     (if starts_with line ''Package: '' then deb_set lcfgpackage_set_name ''name'' (drop 9 line) pkg error_msg
      else if starts_with line ''Version: ''
      then (case strrchr_split (drop 9 line) (CHR ''-'') of
              None \<Rightarrow> deb_set lcfgpackage_set_version ''version'' (drop 9 line) pkg error_msg
            | Some (ver, rel) \<Rightarrow>
                (case deb_set lcfgpackage_set_version ''version'' ver pkg error_msg of
                   (_, pkg', error_msg') \<Rightarrow> deb_set lcfgpackage_set_release ''release'' rel pkg' error_msg'))
      else if starts_with line ''Architecture: ''
      then deb_set lcfgpackage_set_arch ''architecture'' (drop 14 line) pkg error_msg
      else if starts_with line ''Filename: ''
      then deb_set lcfgpackage_set_derivation_as_string ''filename'' (drop 10 line) pkg error_msg
      else (True, pkg, error_msg))"

definition deb_merge ::
    "'c merge_fn \<Rightarrow> pkg_heap \<Rightarrow> nat \<Rightarrow> 'c \<Rightarrow> LCFGPackage \<Rightarrow> LCFGChange \<Rightarrow> cstr \<Rightarrow>
     (LCFGChange \<times> pkg_heap \<times> nat \<times> 'c \<times> cstr) reading" where
  "deb_merge merge_fn h free c pkg change error_msg =
     (case merge_fn (h(free \<mapsto> pkg)) c free error_msg of
        Inl stop \<Rightarrow> Inl (Set_Stop stop)
      | Inr (merge_status, h', c', error_msg') \<Rightarrow>
          Inr (after_merge change merge_status, relinquish_at free h', free + 1, c', error_msg'))"

fun deb_loop ::
    "'c merge_fn \<Rightarrow> string list \<Rightarrow> pkg_heap \<Rightarrow> nat \<Rightarrow> 'c \<Rightarrow> LCFGPackage option \<Rightarrow> 32 word \<Rightarrow> LCFGChange \<Rightarrow> cstr \<Rightarrow>
     (LCFGChange \<times> pkg_heap \<times> nat \<times> 'c \<times> LCFGPackage option \<times> 32 word \<times> cstr) reading" where
  "deb_loop merge_fn [] h free c pkg cur_line change error_msg = Inr (change, h, free, c, pkg, cur_line, error_msg)"
| "deb_loop merge_fn (l # rest) h free c pkg cur_line change error_msg =
     (if \<not> LCFGChangeOK change then Inr (change, h, free, c, pkg, cur_line, error_msg)
      else let line = lcfgutils_string_trim l in
        if line = []
        then (case pkg of
                None \<Rightarrow> deb_loop merge_fn rest h free c None (cur_line + 1) change error_msg
              | Some p \<Rightarrow>
                  (case deb_merge merge_fn h free c p change error_msg of
                     Inl stop \<Rightarrow> Inl stop
                   | Inr (change', h', free', c', error_msg') \<Rightarrow>
                       deb_loop merge_fn rest h' free' c' None (cur_line + 1) change' error_msg'))
        else (case deb_field line (case pkg of None \<Rightarrow> lcfgpackage_new | Some p \<Rightarrow> p) error_msg of
                (ok, p, error_msg') \<Rightarrow>
                  deb_loop merge_fn rest h free c (if ok then Some p else None) (cur_line + 1)
                    (if ok then change else LCFG_CHANGE_ERROR) error_msg'))"

text \<open>The file is a parameter: its lines, or whether it is missing or cannot be read.\<close>

datatype file_contents = No_Entry | Unreadable | Lines "string list"

definition lcfgpackages_from_debian_index ::
    "'c merge_fn \<Rightarrow> (string \<Rightarrow> file_contents) \<Rightarrow> pkg_heap \<Rightarrow> nat \<Rightarrow> cstr \<Rightarrow> 'c \<Rightarrow> bits \<Rightarrow> cstr \<Rightarrow>
     (LCFGChange \<times> pkg_heap \<times> nat \<times> 'c \<times> cstr) reading" where
  "lcfgpackages_from_debian_index merge_fn fopen h free filename c options msg =
     (if isempty filename then Inr (LCFG_CHANGE_ERROR, h, free, c, Some ''Invalid filename'')
      else case fopen (or_default filename []) of
        No_Entry \<Rightarrow>
          Inr (if has_bit options LCFG_OPT_ALLOW_NOEXIST then (LCFG_CHANGE_NONE, h, free, c, msg)
               else (LCFG_CHANGE_ERROR, h, free, c, Some ''File does not exist''))
      | Unreadable \<Rightarrow> Inr (LCFG_CHANGE_ERROR, h, free, c, Some ''File is not readable'')
      | Lines lines \<Rightarrow>
          or_fail (deb_loop merge_fn lines h free c None 0 LCFG_CHANGE_NONE None)
            (\<lambda>(change, h', free', c', pkg, cur_line, error_msg).
               or_fail (case pkg of
                          None \<Rightarrow> Inr (change, h', free', c', error_msg)
                        | Some p \<Rightarrow> deb_merge merge_fn h' free' c' p change error_msg)
                 (\<lambda>(change, h', free', c', error_msg).
                    Inr (change, h', free', c',
                         if LCFGChangeError change then Some (error_at (or_default filename []) cur_line error_msg) else msg))))"

definition lcfgpkglist_from_debian_index ::
    "(string \<Rightarrow> file_contents) \<Rightarrow> pkg_heap \<Rightarrow> nat \<Rightarrow> cstr \<Rightarrow> LCFGPackageList option \<Rightarrow> bits \<Rightarrow> cstr \<Rightarrow>
     (LCFGChange \<times> pkg_heap \<times> nat \<times> LCFGPackageList option \<times> cstr) reading" where
  "lcfgpkglist_from_debian_index fopen h free filename result options msg =
     (let (ok, pkgs) = lcfgpkglist_set_merge_rules
            (lcfgpkglist_new\<lparr>pkl_primary_key := LCFG_PKGLIST_PK_NAME OR LCFG_PKGLIST_PK_ARCH\<rparr>)
            (LCFG_MERGE_RULE_SQUASH_IDENTICAL OR LCFG_MERGE_RULE_KEEP_ALL)
      in or_fail (lcfgpackages_from_debian_index list_merge fopen h free filename pkgs options msg)
           (\<lambda>(change, h', free', pkgs', msg').
              case give_list change h' pkgs' result msg' of (change', h'', result', msg'') \<Rightarrow>
                Inr (change', h'', free', result', msg'')))"

section \<open>Reading sets\<close>

definition give_set ::
    "LCFGChange \<Rightarrow> pkg_heap \<Rightarrow> LCFGPackageSet \<Rightarrow> LCFGPackageSet option \<Rightarrow> cstr \<Rightarrow>
     (LCFGChange \<times> pkg_heap \<times> LCFGPackageSet option \<times> cstr) reading" where
  "give_set change h pkgs result msg =
     (if LCFGChangeOK change
      then (case result of
              None \<Rightarrow> Inr (change, h, Some pkgs, msg)
            | Some r \<Rightarrow> (case lcfgpkgset_merge_set h r (Some pkgs) msg of
                Inl stop \<Rightarrow> Inl (Set_Stop stop)
              | Inr (change', h', r', msg') \<Rightarrow>
                  Inr (change', fst (lcfgpkgset_relinquish h' (Some pkgs)), Some r', msg')))
      else Inr (change, fst (lcfgpkgset_relinquish h (Some pkgs)), result, msg))"

definition lcfgpkgset_from_rpmcfg ::
    "(string \<Rightarrow> 64 word) \<Rightarrow> (string \<Rightarrow> bool) \<Rightarrow> (string \<Rightarrow> string list option) \<Rightarrow> pkg_heap \<Rightarrow> nat \<Rightarrow>
     cstr \<Rightarrow> LCFGPackageSet option \<Rightarrow> cstr \<Rightarrow> bits \<Rightarrow> cstr \<Rightarrow>
     (LCFGChange \<times> pkg_heap \<times> nat \<times> LCFGPackageSet option \<times> cstr) reading" where
  "lcfgpkgset_from_rpmcfg farmhash64 readable cpp h free filename result defarch options msg =
     or_fail (map_sum Set_Stop id lcfgpkgset_new) (\<lambda>new.
       let merge_rules = (if has_bit options LCFG_OPT_ALL_CONTEXTS
                          then LCFG_MERGE_RULE_SQUASH_IDENTICAL OR LCFG_MERGE_RULE_KEEP_ALL
                          else LCFG_MERGE_RULE_SQUASH_IDENTICAL);
           (ok, pkgs) = lcfgpkgset_set_merge_rules new merge_rules
       in or_fail (lcfgpackages_from_cpp lcfgpkgset_merge_package farmhash64 readable cpp h free filename pkgs defarch options msg)
            (\<lambda>(change, h', free', pkgs', deps, msg').
               or_fail (give_set change h' pkgs' result msg') (\<lambda>(change', h'', result', msg'').
                 if deps = None then Inl Null_Pointer else Inr (change', h'', free', result', msg''))))"

definition lcfgpkgset_from_pkgsfile ::
    "(string \<Rightarrow> 64 word) \<Rightarrow> (string \<Rightarrow> bool) \<Rightarrow> (string \<Rightarrow> string list option) \<Rightarrow> pkg_heap \<Rightarrow> nat \<Rightarrow>
     cstr \<Rightarrow> LCFGPackageSet option \<Rightarrow> cstr \<Rightarrow> bits \<Rightarrow> cstr \<Rightarrow>
     (LCFGChange \<times> pkg_heap \<times> nat \<times> LCFGPackageSet option \<times> string list option \<times> cstr) reading" where
  "lcfgpkgset_from_pkgsfile farmhash64 readable cpp h free filename result defarch options msg =
     or_fail (map_sum Set_Stop id lcfgpkgset_new) (\<lambda>new.
       let (ok, pkgs) = lcfgpkgset_set_merge_rules
             (new\<lparr>pks_primary_key := LCFG_PKGLIST_PK_NAME OR LCFG_PKGLIST_PK_ARCH OR LCFG_PKGLIST_PK_CTX\<rparr>)
             (LCFG_MERGE_RULE_SQUASH_IDENTICAL OR LCFG_MERGE_RULE_KEEP_ALL)
       in or_fail (lcfgpackages_from_cpp lcfgpkgset_merge_package farmhash64 readable cpp h free filename pkgs defarch options msg)
            (\<lambda>(change, h', free', pkgs', deps, msg').
               or_fail (give_set change h' pkgs' result msg') (\<lambda>(change', h'', result', msg'').
                 Inr (change', h'', free', result', deps, msg''))))"

definition lcfgpkgset_from_debian_index ::
    "(string \<Rightarrow> file_contents) \<Rightarrow> pkg_heap \<Rightarrow> nat \<Rightarrow> cstr \<Rightarrow> LCFGPackageSet option \<Rightarrow> bits \<Rightarrow> cstr \<Rightarrow>
     (LCFGChange \<times> pkg_heap \<times> nat \<times> LCFGPackageSet option \<times> cstr) reading" where
  "lcfgpkgset_from_debian_index fopen h free filename result options msg =
     or_fail (map_sum Set_Stop id lcfgpkgset_new) (\<lambda>new.
       let (ok, pkgs) = lcfgpkgset_set_merge_rules
             (new\<lparr>pks_primary_key := LCFG_PKGLIST_PK_NAME OR LCFG_PKGLIST_PK_ARCH\<rparr>)
             (LCFG_MERGE_RULE_SQUASH_IDENTICAL OR LCFG_MERGE_RULE_KEEP_ALL)
       in or_fail (lcfgpackages_from_debian_index lcfgpkgset_merge_package fopen h free filename pkgs options msg)
            (\<lambda>(change, h', free', pkgs', msg').
               or_fail (give_set change h' pkgs' result msg') (\<lambda>(change', h'', result', msg'').
                 Inr (change', h'', free', result', msg''))))"

text \<open>
  An invalid version is forgotten when the release after it is valid: the flag of the first
  setter is overwritten.
\<close>

lemma debian_version_masked:
  "deb_field ''Version: 1!0-2'' lcfgpackage_new None =
     (True, lcfgpackage_new\<lparr>pkg_release := Some ''2''\<rparr>, Some ''Invalid version '1!0' for package'')"
  by (simp add: deb_field_def starts_with_def deb_set_def lcfgpackage_set_version_def lcfgpackage_valid_version_def
      isverchr_def isalnum_def isalpha_def isupper_def islower_def isdigit_def strchr_in_def lcfg_chr byte_def nul_def
      lcfgpackage_set_release_def lcfgpackage_valid_release_def isrelchr_def deb_error_def lcfgpackage_build_message_def
      lcfgpackage_is_valid_def lcfgpackage_new_def lcfgpackage_has_derivation_def quoted_text_def)

section \<open>What a read package satisfies\<close>

definition drvmap_lists :: "LCFGDerivationMap \<Rightarrow> bool" where
  "drvmap_lists m \<longleftrightarrow> (\<forall>l. Some l \<in> set (dm_derivations m) \<longrightarrow> drvlist_ok l)"

definition reader_ok :: "bool \<Rightarrow> cpp_reader \<Rightarrow> bool" where
  "reader_ok include_meta rd \<longleftrightarrow>
     (include_meta \<longrightarrow> (\<exists>m. rd_drvmap rd = Some m \<and> drvmap_ok m \<and> drvmap_lists m))"

text \<open>A package that is ready to be merged.\<close>

definition read_ok :: "LCFGPackage \<Rightarrow> bool" where
  "read_ok pkg \<longleftrightarrow> fresh_ok pkg \<and> no_nul (or_default (pkg_name pkg) [])"

lemma from_spec_name:
  assumes "lcfgpackage_from_spec (Some s) = Inr pkg"
  shows "set (or_default (pkg_name pkg) []) \<subseteq> set s"
proof -
  obtain start0 p0 where p0: "spec_prefix (skip_space s) lcfgpackage_new = Inr (start0, p0)"
    using assms by (auto simp: lcfgpackage_from_spec_def split: if_splits)
  obtain b start arch where w: "walk_forwards_until start0 (CHR ''/'') (Some ''-='') = (b, start, arch)"
    by (metis prod.exhaust)
  from assms p0 w obtain n p where "spec_name start n p = Inr pkg"
    by (auto simp: lcfgpackage_from_spec_def split: if_splits)
  then have "pkg_name pkg = Some (take n start)"
    by (auto simp: spec_name_def store_field_def lcfgpackage_set_name_def split: if_splits prod.splits)
  moreover have skip: "set (skip_space t) \<subseteq> set t" for t by (auto simp: skip_space_def dest: set_dropWhileD)
  have "set (tl t) \<subseteq> set t" for t :: string by (cases t) auto
  then have "set start0 \<subseteq> set (skip_space s)" using p0 by (auto simp: spec_prefix_def split: if_splits prod.splits)
  with skip [of s] have "set start0 \<subseteq> set s" by blast
  moreover have "set start \<subseteq> set start0"
    using w skip [of start0]
    by (auto simp: walk_forwards_until_def Let_def dest: in_set_dropD split: option.splits)
  ultimately show ?thesis by (auto simp: or_default_empty dest: in_set_takeD)
qed

lemma setters_read_ok:
  assumes "read_ok pkg"
  shows "read_ok (snd (lcfgpackage_set_arch pkg v))" "read_ok (snd (lcfgpackage_set_context pkg v))"
    "read_ok (snd (lcfgpackage_set_category pkg v))"
    "read_ok (snd (lcfgpackage_add_derivation_file_line pkg f n))"
    "(\<forall>x. l = Some x \<longrightarrow> drvlist_ok x) \<Longrightarrow> read_ok (snd (lcfgpackage_set_derivation pkg l))"
  using assms add_derivation_ok(2) [of pkg f n]
  by (auto simp: read_ok_def fresh_ok_def lcfgpackage_is_valid_def pkg_setters pkg_ok_def attr_ok_def
      lcfgpackage_add_derivation_file_line_def split: option.splits prod.splits)

lemma find_or_insert_lists:
  assumes "drvmap_ok m" and "drvmap_lists m"
  shows "\<exists>result m' msg'. lcfgderivmap_find_or_insert_string farmhash64 m str msg = Inr (result, m', msg') \<and>
    drvmap_ok m' \<and> drvmap_lists m' \<and> (\<forall>l. result = Some l \<longrightarrow> drvlist_ok l)"
proof (cases "isempty str")
  case True
  with assms show ?thesis by (simp add: lcfgderivmap_find_or_insert_string_def)
next
  case False
  then obtain s where s: "str = Some s" "s \<noteq> []" by (auto elim: not_isemptyE)
  have lookup: "drvmap_lookup m k = Some l \<Longrightarrow> drvlist_ok l" for k l
    using assms drv_table.lookup_iff [of "dm_derivations m" k l]
    by (simp add: drvmap_lookup_def drvmap_lists_def drvmap_ok_def drvmap_sound_def)
  have lists: "drvmap_lists m'" if "drvmap_ok m'"
    and "\<And>k l. drvmap_lookup m' k = Some l \<Longrightarrow> drvlist_ok l" for m'
    using that drv_table.lookup_iff [of "dm_derivations m'"]
    by (simp add: drvmap_lookup_def drvmap_lists_def drvmap_ok_def drvmap_sound_def)
  have cached: "drvlist_ok l \<Longrightarrow> drvlist_ok (l\<lparr>drvlist_id := i\<rparr>)" for l i
    by (simp add: drvlist_ok_def slist_ok_def)
  obtain result m' msg' where r: "lcfgderivmap_find_or_insert_string farmhash64 m str msg = Inr (result, m', msg')"
    "drvmap_ok m'" "case drvmap_lookup m (farmhash64 s) of
       Some l \<Rightarrow> result = Some l \<and> m' = m
     | None \<Rightarrow>
         (case lcfgderivlist_from_string (Some s) of
            Inl parse_msg \<Rightarrow> result = None \<and> m' = m \<and> msg' = Some parse_msg
          | Inr l \<Rightarrow>
              if lcfgderivlist_is_empty (Some l) then result = None \<and> m' = m
              else result = Some (l\<lparr>drvlist_id := farmhash64 s\<rparr>) \<and>
                (\<forall>list_id. drvmap_lookup m' list_id = (if list_id = farmhash64 s then result else drvmap_lookup m list_id)))"
    using find_or_insert_result [OF assms(1), of s farmhash64 msg] s by auto
  have parsed: "lcfgderivlist_from_string (Some s) = Inr l \<Longrightarrow> drvlist_ok l" for l
    by (rule derivlist_from_string_ok)
  have result: "result = Some l \<Longrightarrow> drvlist_ok l" for l
    using r(3) lookup [of "farmhash64 s" l] parsed cached by (auto split: option.splits sum.splits if_splits)
  have "drvmap_lookup m' k = Some l \<Longrightarrow> drvlist_ok l" for k l
    using r(3) result [of l] lookup [of k l]
    by (cases "k = farmhash64 s") (auto split: option.splits sum.splits if_splits)
  then have "drvmap_lists m'" by (rule lists [OF r(2)])
  with result have "drvmap_lists m' \<and> (\<forall>l. result = Some l \<longrightarrow> drvlist_ok l)" by blast
  with r show ?thesis by blast
qed

lemma reader_ok_update [simp]:
  "reader_ok include_meta (rd\<lparr>rd_context := v\<rparr>) = reader_ok include_meta rd"
  "reader_ok include_meta (rd\<lparr>rd_deriv := v\<rparr>) = reader_ok include_meta rd"
  "reader_ok include_meta (rd\<lparr>rd_category := v\<rparr>) = reader_ok include_meta rd"
  "reader_ok include_meta (rd\<lparr>rd_file := v\<rparr>) = reader_ok include_meta rd"
  "reader_ok include_meta (rd\<lparr>rd_line := n\<rparr>) = reader_ok include_meta rd"
  "reader_ok include_meta (rd\<lparr>rd_deps := ds\<rparr>) = reader_ok include_meta rd"
  by (simp_all add: reader_ok_def)

lemma cpp_arch_ok: "read_ok pkg \<Longrightarrow> cpp_arch defarch pkg = Inr pkg' \<Longrightarrow> read_ok pkg'"
  using setters_read_ok(1) [of pkg defarch]
  by (auto simp: cpp_arch_def split: prod.splits if_splits)

lemma cpp_derivation_ok:
  assumes "reader_ok include_meta rd" and "read_ok pkg"
  shows "\<exists>r. cpp_derivation farmhash64 include_meta rd pkg = Inr r \<and>
    (\<forall>pkg' rd'. r = Inr (pkg', rd') \<longrightarrow> read_ok pkg' \<and> reader_ok include_meta rd' \<and> rd_deps rd' = rd_deps rd)"
proof (cases "include_meta \<and> \<not> isempty (rd_deriv rd)")
  case False
  then show ?thesis using assms setters_read_ok(4) [OF assms(2)] by (auto simp: cpp_derivation_def)
next
  case True
  then obtain m where m: "rd_drvmap rd = Some m" "drvmap_ok m" "drvmap_lists m" using assms(1) by (auto simp: reader_ok_def)
  obtain l m' msg' where r: "lcfgderivmap_find_or_insert_string farmhash64 m (rd_deriv rd) None = Inr (l, m', msg')"
    "drvmap_ok m'" "drvmap_lists m'" "\<forall>x. l = Some x \<longrightarrow> drvlist_ok x"
    using find_or_insert_lists [OF m(2,3)] by blast
  have set_l: "read_ok (snd (lcfgpackage_set_derivation pkg l))" using setters_read_ok(5) [OF assms(2) r(4)] .
  have "reader_ok include_meta (rd\<lparr>rd_drvmap := Some m'\<rparr>)" using r by (simp add: reader_ok_def)
  with True m r set_l show ?thesis by (auto simp: cpp_derivation_def Let_def split_def)
qed

lemma cpp_metadata_ok:
  assumes "reader_ok include_meta rd" and "read_ok pkg" and "cpp_metadata include_meta rd pkg = Inr (pkg', rd')"
  shows "read_ok pkg' \<and> reader_ok include_meta rd' \<and> rd_deps rd' = rd_deps rd"
proof -
  have ctx: "read_ok p \<Longrightarrow> lcfgpackage_set_context p v = (b, q) \<Longrightarrow> read_ok q" for p v b q
    using setters_read_ok(2) by (metis snd_conv)
  have cat: "read_ok p \<Longrightarrow> lcfgpackage_set_category p v = (b, q) \<Longrightarrow> read_ok q" for p v b q
    using setters_read_ok(3) by (metis snd_conv)
  show ?thesis
  proof (cases include_meta)
    case True
    obtain p1 b1 where p1: "lcfgpackage_set_context pkg (rd_context rd) = (b1, p1)" by fastforce
    define p2 rd2 where "p2 = (if isempty (rd_context rd) then pkg else p1)"
      and "rd2 = (if isempty (rd_context rd) then rd else rd\<lparr>rd_context := None\<rparr>)"
    have ok2: "read_ok p2" "reader_ok include_meta rd2" "rd_deps rd2 = rd_deps rd" using assms(1,2) ctx [OF assms(2) p1] by (simp_all add: p2_def rd2_def)
    have cat2: "rd_category rd2 = rd_category rd" by (simp add: rd2_def)
    obtain p3 b3 where p3: "lcfgpackage_set_category p2 (rd_category rd) = (b3, p3)" by fastforce
    have "(pkg', rd') = (p2, rd2) \<or> (pkg', rd') = (p3, rd2)"
      using assms(3) True p1 p3 cat2
      by (auto simp: cpp_metadata_def p2_def rd2_def or_fail_def split: if_splits)
    with ok2 cat [OF ok2(1) p3] show ?thesis by auto
  qed (use assms in \<open>simp add: cpp_metadata_def\<close>)
qed

lemma cpp_package_ok:
  assumes "reader_ok include_meta rd" and "no_nul line"
  shows "\<exists>r. cpp_package farmhash64 include_meta defarch line rd = Inr r \<and>
    (\<forall>pkg rd'. r = Inr (pkg, rd') \<longrightarrow> read_ok pkg \<and> reader_ok include_meta rd' \<and> rd_deps rd' = rd_deps rd)"
proof (cases "lcfgpackage_from_spec (Some line)")
  case (Inl e)
  then show ?thesis by (simp add: cpp_package_def or_fail_def)
next
  case (Inr pkg0)
  then have ok0: "read_ok pkg0"
    using from_spec_ok from_spec_name [OF Inr] assms(2) by (auto simp: read_ok_def fresh_ok_def no_nul_def)
  show ?thesis
  proof (cases "cpp_arch defarch pkg0")
    case (Inl e)
    with Inr show ?thesis by (simp add: cpp_package_def or_fail_def)
  next
    case arch: (Inr pkg1)
    note ok1 = cpp_arch_ok [OF ok0 arch]
    obtain r where r: "cpp_derivation farmhash64 include_meta rd pkg1 = Inr r"
      "\<And>pkg' rd'. r = Inr (pkg', rd') \<Longrightarrow> read_ok pkg' \<and> reader_ok include_meta rd' \<and> rd_deps rd' = rd_deps rd"
      using cpp_derivation_ok [OF assms(1) ok1] by blast
    show ?thesis
    proof (cases r)
      case (Inl e)
      with Inr arch r(1) show ?thesis by (simp add: cpp_package_def or_fail_def)
    next
      case read: (Inr pr)
      obtain pkg2 rd2 where pr: "pr = (pkg2, rd2)" by fastforce
      have "read_ok pkg2" "reader_ok include_meta rd2" "rd_deps rd2 = rd_deps rd" using r(2) [of pkg2 rd2] read pr by simp_all
      then have "\<forall>pkg' rd'. cpp_metadata include_meta rd2 pkg2 = Inr (pkg', rd') \<longrightarrow>
          read_ok pkg' \<and> reader_ok include_meta rd' \<and> rd_deps rd' = rd_deps rd"
        using cpp_metadata_ok by metis
      moreover have "cpp_package farmhash64 include_meta defarch line rd = Inr (cpp_metadata include_meta rd2 pkg2)"
        using Inr arch r(1) read pr by (simp add: cpp_package_def or_fail_def)
      ultimately show ?thesis by simp
    qed
  qed
qed

lemma cpp_hash_line_ok:
  assumes "reader_ok include_meta rd" and "cpp_hash_line include_meta line rd = Inr rd'"
  shows "reader_ok include_meta rd' \<and> length (rd_deps rd') \<le> length (rd_deps rd) + 1"
proof (cases "lcfgutils_parse_cpp_derivation line (rd_file rd)")
  case None
  have "reader_ok include_meta (store_pragma key v rd)" "rd_deps (store_pragma key v rd) = rd_deps rd" for key v
    using assms(1) by (cases key; simp add: store_pragma_def)+
  with assms None show ?thesis by (auto simp: cpp_hash_line_def split: option.splits if_splits)
next
  case (Some m)
  obtain f n fl where m: "m = (f, n, fl)" by (metis prod.exhaust)
  define base where "base = rd\<lparr>rd_file := f, rd_line := n - 1\<rparr>"
  have base: "reader_ok include_meta base" "rd_deps base = rd_deps rd" using assms(1) by (simp_all add: base_def)
  define deps where "deps = (if \<exists>d\<in>set (rd_deps rd). strcmp d (or_default f []) = 0 then rd_deps rd
    else rd_deps rd @ [or_default f []])"
  have "cpp_hash_line include_meta line rd =
      (if has_bit fl LCFG_CPP_FLAG_ENTRY
       then if length deps = cpp_deps_size then Inl Bad_Realloc else Inr (base\<lparr>rd_deps := deps\<rparr>) else Inr base)"
    unfolding cpp_hash_line_def Some m by (simp add: Let_def base_def deps_def)
  moreover have "length deps \<le> length (rd_deps rd) + 1" by (simp add: deps_def)
  ultimately show ?thesis using assms(2) base by (auto split: if_split_asm)
qed

lemma cpp_hash_line_stop:
  assumes "cpp_hash_line include_meta line rd = Inl stop"
  shows "stop = Bad_Realloc \<and> cpp_deps_size \<le> length (rd_deps rd) + 1"
proof (cases "lcfgutils_parse_cpp_derivation line (rd_file rd)")
  case None
  with assms show ?thesis by (auto simp: cpp_hash_line_def split: option.splits if_splits)
next
  case (Some m)
  obtain f n fl where m: "m = (f, n, fl)" by (metis prod.exhaust)
  show ?thesis
    using assms unfolding cpp_hash_line_def Some m option.case prod.case Let_def
    by (simp split: if_split_asm)
qed

lemma trim_no_nul: "no_nul s \<Longrightarrow> no_nul (lcfgutils_string_trim s)"
proof -
  have "set (skip_space s) \<subseteq> set s" by (auto simp: skip_space_def dest: set_dropWhileD)
  then have "set (lcfgutils_string_trim s) \<subseteq> set s"
    by (cases "skip_space s") (auto simp: lcfgutils_string_trim_def dest!: set_dropWhileD)
  then show "no_nul s \<Longrightarrow> no_nul (lcfgutils_string_trim s)" by (auto simp: no_nul_def)
qed

lemma deb_set_ok:
  assumes "deb_set setter what v pkg e = (ok, pkg', e')" and "read_ok (snd (setter pkg (Some v)))"
  shows "read_ok pkg'"
  using assms by (auto simp: deb_set_def split: prod.splits)

lemma deb_setters_ok:
  assumes "read_ok pkg"
  shows "no_nul v \<Longrightarrow> read_ok (snd (lcfgpackage_set_name pkg (Some v)))"
    and "read_ok (snd (lcfgpackage_set_version pkg w))" and "read_ok (snd (lcfgpackage_set_release pkg w))"
  using assms by (auto simp: read_ok_def fresh_ok_def pkg_setters pkg_ok_def attr_ok_def or_default_empty)

lemma set_derivation_read_ok:
  assumes "read_ok pkg"
  shows "read_ok (snd (lcfgpackage_set_derivation_as_string pkg w))"
proof -
  have "pkg_ok (snd (lcfgpackage_set_derivation_as_string pkg w))"
    using assms add_derivation_ok(3) by (simp add: read_ok_def fresh_ok_def)
  moreover have "\<exists>d. snd (lcfgpackage_set_derivation_as_string pkg w) = pkg\<lparr>pkg_derivation := d\<rparr>"
    unfolding lcfgpackage_set_derivation_as_string_def lcfgpackage_set_derivation_def
    by (auto split: option.splits sum.splits intro: exI [of _ "pkg_derivation pkg"])
  ultimately show ?thesis using assms by (auto simp: read_ok_def fresh_ok_def)
qed

lemma deb_set_read_ok:
  assumes "read_ok pkg"
  shows "deb_set lcfgpackage_set_name what v pkg e = (ok, pkg', e') \<Longrightarrow> no_nul v \<Longrightarrow> read_ok pkg'"
    and "deb_set lcfgpackage_set_version what v pkg e = (ok, pkg', e') \<Longrightarrow> read_ok pkg'"
    and "deb_set lcfgpackage_set_release what v pkg e = (ok, pkg', e') \<Longrightarrow> read_ok pkg'"
    and "deb_set lcfgpackage_set_arch what v pkg e = (ok, pkg', e') \<Longrightarrow> read_ok pkg'"
    and "deb_set lcfgpackage_set_derivation_as_string what v pkg e = (ok, pkg', e') \<Longrightarrow> read_ok pkg'"
  using deb_set_ok deb_setters_ok [OF assms] setters_read_ok(1) [OF assms] set_derivation_read_ok [OF assms] by metis+

lemma deb_field_ok:
  assumes "deb_field line pkg e = (ok, pkg', e')" and "read_ok pkg" and "no_nul line"
  shows "read_ok pkg'"
proof -
  have drop: "no_nul (drop n line)" for n using assms(3) by (auto simp: no_nul_def dest: in_set_dropD)
  note set_ok = deb_set_read_ok [OF assms(2)]
  show ?thesis
  proof (cases "\<not> starts_with line ''Package: '' \<and> starts_with line ''Version: ''")
    case True
    show ?thesis
    proof (cases "strrchr_split (drop 9 line) (CHR ''-'')")
      case None
      with True assms(1,2) show ?thesis by (auto simp: deb_field_def dest: set_ok(2))
    next
      case (Some vr)
      obtain ver rel where vr: "vr = (ver, rel)" by fastforce
      obtain ok1 p1 e1 where 1: "deb_set lcfgpackage_set_version ''version'' ver pkg e = (ok1, p1, e1)"
        by (metis prod.exhaust)
      have "read_ok p1" by (rule set_ok(2) [OF 1])
      with 1 Some vr True assms(1) deb_set_read_ok(3) show ?thesis by (auto simp: deb_field_def)
    qed
  next
    case False
    with assms(1,2) drop show ?thesis by (auto simp: deb_field_def dest: set_ok split: if_splits)
  qed
qed

lemma read_ok_new: "read_ok lcfgpackage_new"
  by (simp add: read_ok_def) (simp add: lcfgpackage_new_def)

section \<open>Containers\<close>

text \<open>A line that the preprocessor or a pragma wrote.\<close>

definition hash_line :: "string \<Rightarrow> bool" where
  "hash_line l \<longleftrightarrow> lcfgutils_string_trim l \<noteq> [] \<and> hd (lcfgutils_string_trim l) = CHR ''#''"

lemma reader_ok_start:
  "(case (if include_meta then map_sum Map_Stop Some lcfgderivmap_new else Inr None) of
      Inl stop \<Rightarrow> False | Inr drvmap \<Rightarrow> reader_ok include_meta (cpp_start drvmap) \<and> rd_deps (cpp_start drvmap) = [])"
  using empty_map_ok
  by (auto simp: derivmap_new reader_ok_def cpp_start_def drvmap_lists_def empty_map_def set_replicate_conv_if simp del: replicate.simps)

text \<open>
  What the readers rely on, of a container with its merge function: the merge of a
  package on which there is one reference more than the container holds returns, keeps the
  invariant, and changes the counts of references with what the container holds; the
  invariant does not depend on new packages, nor on references the container does not hold.
\<close>

locale package_container =
  fixes merge_fn :: "'c merge_fn" and sound :: "pkg_heap \<Rightarrow> 'c \<Rightarrow> bool" and held :: "'c \<Rightarrow> nat multiset"
  assumes merge_keeps: "heap_ok h \<Longrightarrow> sound h c \<Longrightarrow>
      no_nul (or_default (pkg_name (deref h p)) []) \<Longrightarrow> count (held c) p < pkg_refs h p \<Longrightarrow>
      \<exists>change h' c' msg'. merge_fn h c p msg = Inr (change, h', c', msg') \<and> heap_ok h' \<and> heap_step h h' \<and> sound h' c' \<and>
        (\<forall>q. pkg_refs h' q + count (held c) q = pkg_refs h q + count (held c') q)"
    and sound_refs: "sound h c \<Longrightarrow> count (held c) q \<le> pkg_refs h q"
    and sound_fresh: "sound h c \<Longrightarrow> h q = None \<Longrightarrow> sound (h(q \<mapsto> pkg)) c"
    and sound_step: "sound h c \<Longrightarrow> heap_step h h' \<Longrightarrow> (\<And>q. count (held c) q \<le> pkg_refs h' q) \<Longrightarrow> sound h' c"
begin

text \<open>Between two lines: no package of an address from \<open>free\<close> on, and no reference lost.\<close>

definition between :: "pkg_heap \<Rightarrow> nat \<Rightarrow> 'c \<Rightarrow> pkg_heap \<Rightarrow> nat \<Rightarrow> 'c \<Rightarrow> bool" where
  "between h free c h' free' c' \<longleftrightarrow> heap_ok h' \<and> sound h' c' \<and> free \<le> free' \<and> (\<forall>q\<ge>free'. h' q = None) \<and>
     (\<forall>q. pkg_refs h' q + count (held c) q = pkg_refs h q + count (held c') q)"

lemma between_refl: "heap_ok h \<Longrightarrow> sound h c \<Longrightarrow> \<forall>q\<ge>free. h q = None \<Longrightarrow> between h free c h free c"
  by (simp add: between_def)

lemma between_trans:
  assumes "between h f c h1 f1 c1" and "between h1 f1 c1 h2 f2 c2"
  shows "between h f c h2 f2 c2"
proof -
  have "pkg_refs h2 q + count (held c) q = pkg_refs h q + count (held c2) q" for q
    by (rule refs_chain [of "pkg_refs h1 q" "count (held c) q" _ "count (held c1) q"]) (use assms in \<open>simp_all add: between_def\<close>)
  with assms show ?thesis by (auto simp: between_def)
qed

text \<open>A package is allocated, merged and released.\<close>

lemma merge_new:
  assumes "heap_ok h" and "sound h c" and "\<forall>q\<ge>free. h q = None" and "read_ok pkg"
  shows "\<exists>change h' c' msg'. merge_fn (h(free \<mapsto> pkg)) c free msg = Inr (change, h', c', msg') \<and>
    between h free c (relinquish_at free h') (free + 1) c'"
proof -
  let ?h = "h(free \<mapsto> pkg)"
  have pkg: "pkg_ok pkg" "pkg_refcount pkg = 1" "no_nul (or_default (pkg_name pkg) [])"
    using assms(4) by (simp_all add: read_ok_def fresh_ok_def)
  have free: "h free = None" using assms(3) by simp
  have "count (held c) free \<le> pkg_refs h free" by (rule sound_refs [OF assms(2)])
  then have none: "count (held c) free = 0" using free by (simp add: pkg_refs_def)
  have heap: "heap_ok ?h" using assms(1) pkg by (auto simp: heap_ok_def)
  obtain change h1 c1 msg1 where m: "merge_fn ?h c free msg = Inr (change, h1, c1, msg1)"
    "heap_ok h1" "heap_step ?h h1" "sound h1 c1"
    "\<And>q. pkg_refs h1 q + count (held c) q = pkg_refs ?h q + count (held c1) q"
    using merge_keeps [OF heap sound_fresh [OF assms(2) free], of free msg] pkg none
    by (auto simp: deref_def pkg_refs_def)
  have live: "h1 free \<noteq> None"
  proof (rule refs_live)
    show "0 < pkg_refs h1 free" using m(5) [of free] none pkg(2) by (simp add: pkg_refs_def)
  qed
  note r = relinquish_at_facts [OF m(2) live]
  let ?h1 = "relinquish_at free h1"
  have refs: "pkg_refs ?h1 q + count (held c) q = pkg_refs h q + count (held c1) q" for q
    using r(3) [of q] m(5) [of q] none free pkg(2) by (auto simp: pkg_refs_def)
  have le: "count (held c) q \<le> pkg_refs h q" for q by (rule sound_refs [OF assms(2)])
  have "sound ?h1 c1"
  proof (rule sound_step [OF m(4) r(2)])
    fix q show "count (held c1) q \<le> pkg_refs ?h1 q" using refs [of q] le [of q] by linarith
  qed
  moreover have "?h1 q = None" if "free + 1 \<le> q" for q
  proof -
    have "heap_step ?h ?h1" using m(3) r(2) by (rule heap_step_trans)
    moreover have "?h q = None" using assms(3) that by simp
    ultimately show ?thesis unfolding heap_step_def by (metis not_None_eq)
  qed
  ultimately show ?thesis using m(1) r(1) refs by (auto simp: between_def)
qed

text \<open>The loop over the output of cpp. It can only fail at the 64th file that was included.\<close>

lemma cpp_loop_keeps:
  assumes "heap_ok h" and "sound h c" and "\<forall>q\<ge>free. h q = None" and "reader_ok include_meta rd"
    and "\<forall>l\<in>set lines. no_nul l"
  shows "cpp_loop merge_fn farmhash64 include_meta defarch lines h free c rd change msg = Inl Bad_Realloc \<and>
      cpp_deps_size \<le> length (rd_deps rd) + length (filter hash_line lines) \<or>
    (\<exists>change' h' free' c' rd' msg'.
      cpp_loop merge_fn farmhash64 include_meta defarch lines h free c rd change msg =
        Inr (change', h', free', c', rd', msg') \<and> between h free c h' free' c')"
  using assms
proof (induction lines arbitrary: h free c rd change msg)
  case Nil
  then show ?case by (simp add: between_refl)
next
  case (Cons l rest)
  note [simp] = between_refl [OF Cons.prems(1-3)]
  let ?rd = "rd\<lparr>rd_line := rd_line rd + 1\<rparr>" and ?line = "lcfgutils_string_trim l"
  have rd: "reader_ok include_meta ?rd" using Cons.prems(4) by simp
  have rest: "\<forall>l\<in>set rest. no_nul l" using Cons.prems(5) by simp
  note IH = Cons.IH [OF Cons.prems(1-3) _ rest]
  show ?case
  proof (cases "\<not> LCFGChangeOK change \<or> ?line = []")
    case True
    then have "\<not> hash_line l \<or> \<not> LCFGChangeOK change" by (auto simp: hash_line_def)
    with True IH [OF rd, of change msg] show ?thesis by (auto simp: Let_def)
  next
    case False
    show ?thesis
    proof (cases "hd ?line = CHR ''#''")
      case True
      show ?thesis
      proof (cases "cpp_hash_line include_meta ?line ?rd")
        case (Inl stop)
        with True False cpp_hash_line_stop [OF Inl] show ?thesis by (simp add: Let_def hash_line_def)
      next
        case (Inr rd')
        note ok = cpp_hash_line_ok [OF rd Inr]
        have "hash_line l" using True False by (simp add: hash_line_def)
        with IH [of rd' change msg] ok True False Inr show ?thesis by (auto simp: Let_def)
      qed
    next
      case package: False
      have "no_nul ?line" using Cons.prems(5) trim_no_nul by simp
      from cpp_package_ok [OF rd this] obtain r where
        r: "cpp_package farmhash64 include_meta defarch ?line ?rd = Inr r"
          "\<And>pkg rd'. r = Inr (pkg, rd') \<Longrightarrow> read_ok pkg \<and> reader_ok include_meta rd' \<and> rd_deps rd' = rd_deps ?rd"
        by blast
      show ?thesis
      proof (cases r)
        case (Inl e)
        with r package False show ?thesis by (simp add: Let_def)
      next
        case (Inr pr)
        then obtain pkg rd' where pr: "r = Inr (pkg, rd')" by (metis prod.exhaust)
        note ok = r(2) [OF pr]
        obtain change1 h1 c1 msg1 where m: "merge_fn (h(free \<mapsto> pkg)) c free None = Inr (change1, h1, c1, msg1)"
          "between h free c (relinquish_at free h1) (free + 1) c1"
          using merge_new [OF Cons.prems(1-3), of pkg None] ok by blast
        let ?h1 = "relinquish_at free h1"
        from m(2) have ok1: "heap_ok ?h1" "sound ?h1 c1" "\<forall>q\<ge>free + 1. ?h1 q = None" by (simp_all add: between_def)
        obtain change2 msg2 where step: "cpp_loop merge_fn farmhash64 include_meta defarch (l # rest) h free c rd change msg =
            cpp_loop merge_fn farmhash64 include_meta defarch rest ?h1 (free + 1) c1 rd' change2 msg2"
          using False package r(1) pr m(1) by (simp add: Let_def)
        have "\<not> hash_line l" using False package by (simp add: hash_line_def)
        moreover have "reader_ok include_meta rd'" "rd_deps rd' = rd_deps rd" using ok by simp_all
        ultimately show ?thesis
          using Cons.IH [OF ok1 _ rest, of rd' change2 msg2] between_trans [OF m(2)] unfolding step
          by (simp del: cpp_loop.simps) blast
      qed
    qed
  qed
qed

text \<open>Reading an index always returns.\<close>

lemma deb_merge_keeps:
  assumes "heap_ok h" and "sound h c" and "\<forall>q\<ge>free. h q = None" and "read_ok pkg"
  shows "\<exists>change' h' free' c' e'. deb_merge merge_fn h free c pkg change e = Inr (change', h', free', c', e') \<and>
    between h free c h' free' c'"
  using merge_new [OF assms, of e] by (auto simp: deb_merge_def)

lemma deb_loop_keeps:
  assumes "heap_ok h" and "sound h c" and "\<forall>q\<ge>free. h q = None" and "\<forall>l\<in>set lines. no_nul l"
    and "\<forall>p. pkg = Some p \<longrightarrow> read_ok p"
  shows "\<exists>change' h' free' c' pkg' n' e'. deb_loop merge_fn lines h free c pkg n change e =
      Inr (change', h', free', c', pkg', n', e') \<and> between h free c h' free' c' \<and> (\<forall>p. pkg' = Some p \<longrightarrow> read_ok p)"
  using assms
proof (induction lines arbitrary: h free c pkg n change e)
  case Nil
  then show ?case by (simp add: between_refl)
next
  case (Cons l rest)
  let ?line = "lcfgutils_string_trim l"
  have rest: "\<forall>l\<in>set rest. no_nul l" using Cons.prems(4) by simp
  note IH = Cons.IH [OF Cons.prems(1-3) rest]
  show ?case
  proof (cases "\<not> LCFGChangeOK change")
    case True
    with between_refl [OF Cons.prems(1-3)] Cons.prems(5) show ?thesis by auto
  next
    case ok: False
    show ?thesis
    proof (cases "?line = []")
      case empty: True
      show ?thesis
      proof (cases pkg)
        case None
        with IH [of None "n + 1" change e] ok empty show ?thesis by simp
      next
        case (Some p)
        obtain change1 h1 free1 c1 e1 where m: "deb_merge merge_fn h free c p change e = Inr (change1, h1, free1, c1, e1)"
          "between h free c h1 free1 c1"
          using deb_merge_keeps [OF Cons.prems(1-3)] Cons.prems(5) Some by blast
        then have ok1: "heap_ok h1" "sound h1 c1" "\<forall>q\<ge>free1. h1 q = None" by (simp_all add: between_def)
        from Cons.IH [OF ok1 rest, of None "n + 1" change1 e1] between_trans [OF m(2)] ok empty Some m(1)
        show ?thesis by (simp add: Let_def) blast
      qed
    next
      case False
      let ?p = "case pkg of None \<Rightarrow> lcfgpackage_new | Some p \<Rightarrow> p"
      obtain b p1 e1 where f: "deb_field ?line ?p e = (b, p1, e1)" by (metis prod.exhaust)
      have "read_ok ?p" using Cons.prems(5) read_ok_new by (simp split: option.splits)
      then have "read_ok p1" using deb_field_ok [OF f] Cons.prems(4) trim_no_nul by simp
      with IH [of "if b then Some p1 else None" "n + 1" "if b then change else LCFG_CHANGE_ERROR" e1] ok False f
      show ?thesis by (simp add: Let_def)
    qed
  qed
qed

text \<open>Without a limit on the markers: reading stops the program at the 64th file that was included.\<close>

lemma from_cpp_outcome:
  assumes "heap_ok h" and "sound h c" and "\<forall>q\<ge>free. h q = None"
    and "name \<noteq> []" and "readable name" and "cpp name = Some lines" and "\<forall>l\<in>set lines. no_nul l"
  shows "lcfgpackages_from_cpp merge_fn farmhash64 readable cpp h free (Some name) c defarch options msg = Inl Bad_Realloc \<and>
      cpp_deps_size \<le> length (filter hash_line lines) \<or>
    (\<exists>change h' free' c' deps msg'.
      lcfgpackages_from_cpp merge_fn farmhash64 readable cpp h free (Some name) c defarch options msg =
        Inr (change, h', free', c', Some deps, msg') \<and> between h free c h' free' c')"
proof -
  let ?meta = "has_bit options LCFG_OPT_USE_META"
  obtain drvmap where d: "(if ?meta then map_sum Map_Stop Some lcfgderivmap_new else Inr None) = Inr drvmap"
    and rd: "reader_ok ?meta (cpp_start drvmap)" "rd_deps (cpp_start drvmap) = []"
    using reader_ok_start [of ?meta] by (auto split: sum.splits)
  from cpp_loop_keeps [OF assms(1,2,3) rd(1) assms(7), of farmhash64 defarch LCFG_CHANGE_NONE msg] rd(2)
  consider (stop) "cpp_loop merge_fn farmhash64 ?meta defarch lines h free c (cpp_start drvmap) LCFG_CHANGE_NONE msg = Inl Bad_Realloc"
      "cpp_deps_size \<le> length (filter hash_line lines)"
    | (read) change h' free' c' rd' msg' where
      "cpp_loop merge_fn farmhash64 ?meta defarch lines h free c (cpp_start drvmap) LCFG_CHANGE_NONE msg =
        Inr (change, h', free', c', rd', msg')" "between h free c h' free' c'" by auto
  then show ?thesis
  proof cases
    case stop
    with d assms(4-6) show ?thesis by (auto simp: lcfgpackages_from_cpp_def Let_def simp del: cpp_loop.simps)
  next
    case read
    with d assms(4-6) show ?thesis by (auto simp: lcfgpackages_from_cpp_def Let_def simp del: cpp_loop.simps)
  qed
qed

lemma from_cpp_keeps:
  assumes "heap_ok h" and "sound h c" and "\<forall>q\<ge>free. h q = None"
    and "name \<noteq> []" and "readable name" and "cpp name = Some lines" and "\<forall>l\<in>set lines. no_nul l"
    and "length (filter hash_line lines) < cpp_deps_size"
  shows "\<exists>change h' free' c' deps msg'.
    lcfgpackages_from_cpp merge_fn farmhash64 readable cpp h free (Some name) c defarch options msg =
      Inr (change, h', free', c', Some deps, msg') \<and> between h free c h' free' c'"
  using from_cpp_outcome [where cpp = cpp and readable = readable, OF assms(1-7), of farmhash64 defarch options msg] assms(8) by auto

lemma from_debian_keeps:
  assumes "heap_ok h" and "sound h c" and "\<forall>q\<ge>free. h q = None"
    and "\<And>lines. fopen (or_default filename []) = Lines lines \<Longrightarrow> \<forall>l\<in>set lines. no_nul l"
  shows "\<exists>change h' free' c' msg'.
    lcfgpackages_from_debian_index merge_fn fopen h free filename c options msg = Inr (change, h', free', c', msg') \<and>
    between h free c h' free' c'"
proof (cases "isempty filename \<or> (\<forall>lines. fopen (or_default filename []) \<noteq> Lines lines)")
  case True
  then show ?thesis using between_refl [OF assms(1-3)]
    by (auto simp: lcfgpackages_from_debian_index_def split: file_contents.splits)
next
  case False
  then obtain lines where lines: "\<not> isempty filename" "fopen (or_default filename []) = Lines lines" by blast
  obtain change h1 free1 c1 pkg n e where l: "deb_loop merge_fn lines h free c None 0 LCFG_CHANGE_NONE None =
      Inr (change, h1, free1, c1, pkg, n, e)" "between h free c h1 free1 c1" "\<forall>p. pkg = Some p \<longrightarrow> read_ok p"
    using deb_loop_keeps [OF assms(1-3) assms(4) [OF lines(2)], of None 0 LCFG_CHANGE_NONE None] by auto
  show ?thesis
  proof (cases pkg)
    case None
    with lines l show ?thesis by (auto simp: lcfgpackages_from_debian_index_def simp del: deb_loop.simps)
  next
    case (Some p)
    have b: "heap_ok h1" "sound h1 c1" "\<forall>q\<ge>free1. h1 q = None" using l(2) by (simp_all add: between_def)
    obtain change2 h2 free2 c2 e2 where m: "deb_merge merge_fn h1 free1 c1 p change e = Inr (change2, h2, free2, c2, e2)"
      "between h1 free1 c1 h2 free2 c2"
      using deb_merge_keeps [OF b] l(3) Some by blast
    from lines l(1) Some m(1) between_trans [OF l(2) m(2)] show ?thesis
      by (auto simp: lcfgpackages_from_debian_index_def simp del: deb_loop.simps)
  qed
qed

end

text \<open>The two containers. A list that is read into has one reference.\<close>

definition own_list :: "pkg_heap \<Rightarrow> LCFGPackageList \<Rightarrow> bool" where
  "own_list h l \<longleftrightarrow> pkglist_ok h l \<and> pkl_refcount l = 1"

lemma pkglist_ok_fresh:
  assumes "pkglist_ok h l" and "h q = None"
  shows "pkglist_ok (h(q \<mapsto> pkg)) l"
proof -
  have "q \<notin> set (nodes l)" using assms pkglist_live by blast
  then have "count (mset (nodes l)) p \<le> pkg_refs (h(q \<mapsto> pkg)) p" for p
  proof (cases "p = q")
    case True
    with \<open>q \<notin> set (nodes l)\<close> have "count (mset (nodes l)) p = 0" by simp
    then show ?thesis by linarith
  qed (use assms in \<open>simp add: pkglist_ok_def pkg_refs_def\<close>)
  with \<open>q \<notin> set (nodes l)\<close> show ?thesis using assms(1) by (auto simp: pkglist_ok_def)
qed

lemma pkglist_ok_step:
  assumes "pkglist_ok h l" and "heap_step h h'" and "\<And>q. count (mset (nodes l)) q \<le> pkg_refs h' q"
  shows "pkglist_ok h' l"
proof -
  have "lcfgpackage_is_valid (h' p)" if "p \<in> set (nodes l)" for p
  proof -
    have "0 < count (mset (nodes l)) p" using that by simp
    then have live: "h' p \<noteq> None" using assms(3) [of p] by (intro refs_live [of 0]) linarith
    have "lcfgpackage_is_valid (Some (deref h p))"
      using assms(1) that by (auto simp: pkglist_ok_def lcfgpackage_is_valid_def deref_def split: option.splits)
    with core_valid [OF heap_step_core [OF assms(2) live]] live show ?thesis by (auto simp: deref_def)
  qed
  with assms show ?thesis by (simp add: pkglist_ok_def)
qed

interpretation list_container: package_container list_merge own_list "\<lambda>l. mset (nodes l)"
proof
  fix h l p msg
  assume asm: "heap_ok h" "own_list h l" "count (mset (nodes l)) p < pkg_refs h p"
  then have l: "pkglist_ok h l" by (simp add: own_list_def)
  obtain change h' l' msg' where m: "lcfgpkglist_merge_package h l p msg = (change, h', l', msg')" by (metis prod.exhaust)
  show "\<exists>change h' l' msg'. list_merge h l p msg = Inr (change, h', l', msg') \<and> heap_ok h' \<and> heap_step h h' \<and>
      own_list h' l' \<and> (\<forall>q. pkg_refs h' q + count (mset (nodes l)) q = pkg_refs h q + count (mset (nodes l')) q)"
  proof (cases "lcfgpackage_is_valid (h p)")
    case True
    note r = merge_package_result [OF asm(1) l True asm(3) m]
    have "pkl_refcount l' = pkl_refcount l" by (subst r(2)) simp
    with r(3-6) m asm(2) show ?thesis by (auto simp: list_merge_def own_list_def)
  next
    case False
    with m asm show ?thesis by (auto simp: list_merge_def lcfgpkglist_merge_package_def)
  qed
next
  fix h h' l assume "own_list h l" "heap_step h h'" "\<And>q. count (mset (nodes l)) q \<le> pkg_refs h' q"
  then show "own_list h' l" using pkglist_ok_step unfolding own_list_def by blast
qed (auto simp: own_list_def intro: pkglist_ok_fresh, simp add: pkglist_ok_def)

interpretation set_container: package_container lcfgpkgset_merge_package
  "\<lambda>h s. pkgset_ok h s \<and> plain_rules (pks_merge_rules s)" "\<lambda>s. set_nodes (pks_packages s)"
proof
  fix h s p msg
  assume asm: "heap_ok h" "pkgset_ok h s \<and> plain_rules (pks_merge_rules s)"
    "no_nul (or_default (pkg_name (deref h p)) [])" "count (set_nodes (pks_packages s)) p < pkg_refs h p"
  show "\<exists>change h' s' msg'. lcfgpkgset_merge_package h s p msg = Inr (change, h', s', msg') \<and> heap_ok h' \<and> heap_step h h' \<and>
      (pkgset_ok h' s' \<and> plain_rules (pks_merge_rules s')) \<and>
      (\<forall>q. pkg_refs h' q + count (set_nodes (pks_packages s)) q = pkg_refs h q + count (set_nodes (pks_packages s')) q)"
  proof (cases "lcfgpackage_is_valid (h p)")
    case True
    let ?name = "or_default (pkg_name (deref h p)) []"
    obtain change h' l' msg' where m: "lcfgpkglist_merge_package h
        (case pkg_table.lookup h (pks_packages s) ?name of None \<Rightarrow> pkgset_new_list s | Some l \<Rightarrow> l) p msg =
      (change, h', l', msg')" by (metis prod.exhaust)
    from set_merge_package [OF asm(1) _ _ True refl asm(3,4) m] asm(2) show ?thesis by auto
  next
    case False
    with asm show ?thesis by (auto simp: lcfgpkgset_merge_package_def pkgset_merge_package_def)
  qed
next
  fix h h' s
  assume "pkgset_ok h s \<and> plain_rules (pks_merge_rules s)" "heap_step h h'"
    "\<And>q. count (set_nodes (pks_packages s)) q \<le> pkg_refs h' q"
  then show "pkgset_ok h' s \<and> plain_rules (pks_merge_rules s)" using pkgset_ok_step by blast
next
  show "pkgset_ok h s \<and> plain_rules (pks_merge_rules s) \<Longrightarrow> count (set_nodes (pks_packages s)) q \<le> pkg_refs h q" for h s q
    by (simp add: pkgset_ok_def pkgset_sound_def)
qed (use pkgset_ok_fresh in blast)

section \<open>What the readers guarantee\<close>

lemma relinquish_nodes:
  assumes "heap_ok h" and "\<forall>p. count (mset ps) p \<le> pkg_refs h p"
  shows "heap_ok (fold relinquish_at ps h) \<and>
    (\<forall>q. pkg_refs (fold relinquish_at ps h) q + count (mset ps) q = pkg_refs h q)"
  using assms
proof (induction ps arbitrary: h)
  case (Cons p ps)
  have "count (mset (p # ps)) p \<le> pkg_refs h p" using Cons.prems(2) by blast
  then have pos: "0 < pkg_refs h p" by simp
  note r = relinquish_at_facts [OF Cons.prems(1) refs_live [OF pos]]
  have refs: "pkg_refs (relinquish_at p h) q + (if q = p then 1 else 0) = pkg_refs h q" for q
    using r(3) [of q] pos by simp
  have "count (mset ps) q \<le> pkg_refs (relinquish_at p h) q" for q
  proof -
    have "count (mset (p # ps)) q \<le> pkg_refs h q" using Cons.prems(2) by blast
    with refs [of q] show ?thesis by (auto split: if_splits)
  qed
  then have all: "\<forall>q. count (mset ps) q \<le> pkg_refs (relinquish_at p h) q" by blast
  from Cons.IH [OF r(1) all] have ok: "heap_ok (fold relinquish_at ps (relinquish_at p h))"
    and sum: "\<And>q. pkg_refs (fold relinquish_at ps (relinquish_at p h)) q + count (mset ps) q = pkg_refs (relinquish_at p h) q"
    by blast+
  have "pkg_refs (fold relinquish_at (p # ps) h) q + count (mset (p # ps)) q = pkg_refs h q" for q
    using sum [of q] refs [of q] by (auto split: if_splits)
  with ok show ?case by simp
qed simp

lemma relinquish_own_list:
  assumes "heap_ok h" and "own_list h l"
  shows "heap_ok (fst (lcfgpkglist_relinquish h (Some l)))"
    and "pkg_refs (fst (lcfgpkglist_relinquish h (Some l))) q + count (mset (nodes l)) q = pkg_refs h q"
proof -
  have l: "list_size l = length (nodes l)" "pkl_refcount l = 1" "\<forall>p. count (mset (nodes l)) p \<le> pkg_refs h p"
    using assms(2) by (simp_all add: own_list_def pkglist_ok_def slist_ok_def)
  then have "fst (lcfgpkglist_relinquish h (Some l)) = fold relinquish_at (nodes l) h"
    by (simp add: lcfgpkglist_relinquish_def lcfgpkglist_destroy_def Let_def)
  with relinquish_nodes [OF assms(1) l(3)]
  show "heap_ok (fst (lcfgpkglist_relinquish h (Some l)))"
    and "pkg_refs (fst (lcfgpkglist_relinquish h (Some l))) q + count (mset (nodes l)) q = pkg_refs h q" by simp_all
qed

text \<open>What a reader without an earlier list returns: a sound list that holds all new references, or none.\<close>

definition read_result :: "pkg_heap \<Rightarrow> LCFGChange \<Rightarrow> pkg_heap \<Rightarrow> LCFGPackageList option \<Rightarrow> bool" where
  "read_result h change h' result \<longleftrightarrow> heap_ok h' \<and>
     (case result of
        None \<Rightarrow> change = LCFG_CHANGE_ERROR \<and> (\<forall>q. pkg_refs h' q = pkg_refs h q)
      | Some l \<Rightarrow> change \<noteq> LCFG_CHANGE_ERROR \<and> own_list h' l \<and>
          (\<forall>q. pkg_refs h' q = pkg_refs h q + count (mset (nodes l)) q))"

lemma give_list_result:
  assumes "list_container.between h free l0 h' free' l" and "nodes l0 = []"
    and "give_list change h' l None msg = (change', h'', result, msg')"
  shows "read_result h change' h'' result"
proof -
  have b: "heap_ok h'" "own_list h' l" "\<And>q. pkg_refs h' q = pkg_refs h q + count (mset (nodes l)) q"
    using assms(1,2) by (simp_all add: list_container.between_def)
  note r = relinquish_own_list [OF b(1,2)]
  have "pkg_refs (fst (lcfgpkglist_relinquish h' (Some l))) q = pkg_refs h q" for q
    using r(2) [of q] b(3) [of q] by simp
  with b r(1) assms(3) show ?thesis by (auto simp: give_list_def read_result_def split: if_splits)
qed


lemma new_own_list:
  assumes "snd (lcfgpkglist_set_merge_rules (lcfgpkglist_new\<lparr>pkl_primary_key := key\<rparr>) rules) = l"
  shows "own_list h l" and "nodes l = []"
  using assms by (auto simp: own_list_def pkglist_ok_def slist_ok_def lcfgpkglist_set_merge_rules_def lcfgpkglist_new_def)



text \<open>
  C22: Reading a Debian package index into a new list always returns, whether the file is
  missing, unreadable, malformed or complete: the result is a sound list that no other owner
  shares and that holds exactly the references the reader took, or no list and every package
  as it was referenced before.
\<close>

theorem list_from_debian_index_safe:
  assumes "heap_ok h" and "\<forall>q\<ge>free. h q = None"
    and "\<And>lines. fopen (or_default filename []) = Lines lines \<Longrightarrow> \<forall>l\<in>set lines. no_nul l"
  shows "\<exists>change h' free' result msg'.
    lcfgpkglist_from_debian_index fopen h free filename None options msg = Inr (change, h', free', result, msg') \<and>
    read_result h change h' result"
proof -
  define key where "key = LCFG_PKGLIST_PK_NAME OR LCFG_PKGLIST_PK_ARCH"
  define rules where "rules = LCFG_MERGE_RULE_SQUASH_IDENTICAL OR LCFG_MERGE_RULE_KEEP_ALL"
  define l where "l = snd (lcfgpkglist_set_merge_rules (lcfgpkglist_new\<lparr>pkl_primary_key := key\<rparr>) rules)"
  have set_rules: "lcfgpkglist_set_merge_rules (lcfgpkglist_new\<lparr>pkl_primary_key := key\<rparr>) rules = (True, l)"
    by (simp add: l_def lcfgpkglist_set_merge_rules_def)
  have l: "own_list h l" "nodes l = []" using new_own_list(1) [of key rules l h] new_own_list(2) [of key rules l] by (simp_all add: l_def)
  obtain change h1 free1 l1 msg1 where r:
    "lcfgpackages_from_debian_index list_merge fopen h free filename l options msg = Inr (change, h1, free1, l1, msg1)"
    "list_container.between h free l h1 free1 l1"
    using list_container.from_debian_keeps [where fopen = fopen and filename = filename, OF assms(1) l(1) assms(2,3)] by blast
  obtain change' h' result msg' where g: "give_list change h1 l1 None msg1 = (change', h', result, msg')"
    by (metis prod.exhaust)
  from r(1) g set_rules give_list_result [OF r(2) l(2) g] show ?thesis
    by (simp add: lcfgpkglist_from_debian_index_def Let_def flip: rules_def key_def)
qed

lemma list_from_debian_index_safe_witness:
  "\<exists>change h' free' result msg'.
    lcfgpkglist_from_debian_index (\<lambda>_. Lines [''Package: foo'', ''Version: 1-2'', '''', ''Package: bar''])
      Map.empty 0 (Some ''a'') None LCFG_OPT_NONE None = Inr (change, h', free', result, msg') \<and>
    read_result Map.empty change h' result"
  by (rule list_from_debian_index_safe) (auto simp: heap_ok_def no_nul_def nul_def)


lemma set_rules_empty:
  "lcfgpkgset_set_merge_rules empty_set rules = (True, empty_set\<lparr>pks_merge_rules := rules\<rparr>)"
proof -
  have "set_rules_loop rules (replicate n None) = (True, replicate n None)" for n by (induction n) auto
  then show ?thesis by (simp add: lcfgpkgset_set_merge_rules_def empty_set_def del: replicate.simps)
qed

text \<open>
  Reading an rpmcfg file for the active contexts into a new set always returns when the
  file can be read, no line holds a null character and fewer than 64 lines are markers. When
  it succeeds the result is a sound set that holds exactly the references the reader took.
\<close>

theorem set_from_rpmcfg_safe:
  assumes "heap_ok h" and "\<forall>q\<ge>free. h q = None"
    and "name \<noteq> []" and "readable name" and "cpp name = Some lines" and "\<forall>l\<in>set lines. no_nul l"
    and "length (filter hash_line lines) < cpp_deps_size" and "\<not> has_bit options LCFG_OPT_ALL_CONTEXTS"
  shows "\<exists>change h' free' result msg'.
    lcfgpkgset_from_rpmcfg farmhash64 readable cpp h free (Some name) None defarch options msg =
      Inr (change, h', free', result, msg') \<and>
    (if LCFGChangeOK change
     then \<exists>s. result = Some s \<and> heap_ok h' \<and> pkgset_ok h' s \<and>
       (\<forall>q. pkg_refs h' q = pkg_refs h q + count (set_nodes (pks_packages s)) q)
     else result = None)"
proof -
  define s where "s = empty_set\<lparr>pks_merge_rules := LCFG_MERGE_RULE_SQUASH_IDENTICAL\<rparr>"
  have set_rules: "lcfgpkgset_set_merge_rules empty_set LCFG_MERGE_RULE_SQUASH_IDENTICAL = (True, s)"
    by (simp add: s_def set_rules_empty)
  have "plain_rules LCFG_MERGE_RULE_SQUASH_IDENTICAL" by (simp add: plain_rules_def lcfg_flag)
  then have s: "pkgset_ok h s \<and> plain_rules (pks_merge_rules s)" "set_nodes (pks_packages s) = {#}"
    using empty_set_facts(1) empty_set_facts(2) [of h]
    by (auto simp: s_def pkgset_ok_def pkgset_sound_def empty_set_def simp del: replicate.simps empty_set_facts)
  obtain change h1 free1 s1 deps msg1 where r:
    "lcfgpackages_from_cpp lcfgpkgset_merge_package farmhash64 readable cpp h free (Some name) s defarch options msg =
       Inr (change, h1, free1, s1, Some deps, msg1)" "set_container.between h free s h1 free1 s1"
    using set_container.from_cpp_keeps [where readable = readable and cpp = cpp, OF assms(1) s(1) assms(2-7)] by blast
  have "lcfgpkgset_from_rpmcfg farmhash64 readable cpp h free (Some name) None defarch options msg =
      Inr (change, if LCFGChangeOK change then h1 else fst (lcfgpkgset_relinquish h1 (Some s1)), free1,
        if LCFGChangeOK change then Some s1 else None, msg1)"
    using r(1) assms(8) by (simp add: lcfgpkgset_from_rpmcfg_def pkgset_new set_rules give_set_def)
  with r(2) s(2) show ?thesis by (simp add: set_container.between_def)
qed

lemma set_from_rpmcfg_safe_witness:
  "\<exists>change h' free' result msg'.
    lcfgpkgset_from_rpmcfg (\<lambda>_. 0) (\<lambda>f. f = ''a'') (\<lambda>_. Some [''foo-1.2-3/noarch'', '''', ''-bar-*-*''])
      Map.empty 0 (Some ''a'') None None LCFG_OPT_NONE None = Inr (change, h', free', result, msg') \<and>
    (if LCFGChangeOK change
     then \<exists>s. result = Some s \<and> heap_ok h' \<and> pkgset_ok h' s \<and>
       (\<forall>q. pkg_refs h' q = pkg_refs Map.empty q + count (set_nodes (pks_packages s)) q)
     else result = None)"
proof (rule set_from_rpmcfg_safe)
  show "length (filter hash_line [''foo-1.2-3/noarch'', '''', ''-bar-*-*'']) < cpp_deps_size"
    using length_filter_le [of hash_line "[''foo-1.2-3/noarch'', '''', ''-bar-*-*'']"] by (simp add: cpp_deps_size_def)
qed (auto simp: heap_ok_def no_nul_def nul_def lcfg_flag LCFG_OPT_NONE_def)

section \<open>An entry of a Debian index\<close>

lemma trim_line:
  assumes "k \<noteq> []" "\<not> isspace (hd k)" "v \<noteq> []" "\<not> isspace (last v)" "\<forall>c\<in>set nl. isspace c"
  shows "lcfgutils_string_trim (k @ v @ nl) = k @ v"
  using string_trim_middle [of "[]" nl "k @ v"] assms by simp

lemma deb_field_values:
  assumes "lcfgpackage_valid_name (Some n)" and "lcfgpackage_valid_version (Some v)" and "lcfgpackage_valid_release (Some r)"
    and "lcfgpackage_valid_arch (Some a)"
  shows "deb_field (''Package: '' @ n) pkg e = (True, pkg\<lparr>pkg_name := Some n\<rparr>, e)"
    and "deb_field (''Version: '' @ v @ CHR ''-'' # r) pkg e = (True, pkg\<lparr>pkg_version := Some v, pkg_release := Some r\<rparr>, e)"
    and "deb_field (''Architecture: '' @ a) pkg e = (True, pkg\<lparr>pkg_arch := Some a\<rparr>, e)"
proof -
  have "CHR ''-'' \<notin> set r" 
    using assms(3) field_chars(2) [of "CHR ''-''"] by (auto simp: lcfgpackage_valid_release_def list_all_iff)
  then have split: "strrchr_split (v @ CHR ''-'' # r) (CHR ''-'') = Some (v, r)" by (rule strrchr_split_last)
  note simps = deb_field_def starts_with_def deb_set_def pkg_setters
  show "deb_field (''Package: '' @ n) pkg e = (True, pkg\<lparr>pkg_name := Some n\<rparr>, e)"
    using assms(1) by (simp add: simps)
  show "deb_field (''Version: '' @ v @ CHR ''-'' # r) pkg e = (True, pkg\<lparr>pkg_version := Some v, pkg_release := Some r\<rparr>, e)"
    using assms(2,3) split by (simp add: simps)
  show "deb_field (''Architecture: '' @ a) pkg e = (True, pkg\<lparr>pkg_arch := Some a\<rparr>, e)"
    using assms(4) by (simp add: simps)
qed




end
