(* ===== verification/Lcfg_Tag.thy ===== *)
theory Lcfg_Tag
  imports Lcfg_Utils Lcfg_SList "HOL-Library.Monad_Syntax"
begin

text \<open>
  Resource tags (\<open>resources/tags/tag.c\<close>) and the doubly linked lists of tags
  (\<open>resources/tags/list.c\<close>, \<open>iterator.c\<close>) with their nodes, pointers and reference counts.

  The memory has the tags and the nodes that are allocated. An operation is \<open>None\<close> when it
  reads through a null pointer or an address that is not allocated, or when a loop over the
  nodes does not end.
\<close>

section \<open>Tags\<close>

record LCFGTag =
  tag_name :: cstr
  tag_name_len :: nat
  tag_hash :: "64 word"
  tag_refcount :: nat

record LCFGTagNode =
  tn_tag :: nat
  tn_prev :: "nat option"
  tn_next :: "nat option"

record tag_mem =
  tm_tags :: "nat \<rightharpoonup> LCFGTag"
  tm_nodes :: "nat \<rightharpoonup> LCFGTagNode"
  tm_free :: nat

definition lcfgtag_new :: LCFGTag where
  "lcfgtag_new = \<lparr>tag_name = None, tag_name_len = 0, tag_hash = 1, tag_refcount = 1\<rparr>"

definition alloc_tag :: "LCFGTag \<Rightarrow> tag_mem \<Rightarrow> nat \<times> tag_mem" where
  "alloc_tag tag m =
     (tm_free m, m\<lparr>tm_tags := (tm_tags m)(tm_free m \<mapsto> tag), tm_free := tm_free m + 1\<rparr>)"

definition lcfgtag_destroy :: "tag_mem \<Rightarrow> nat \<Rightarrow> tag_mem" where
  "lcfgtag_destroy m tag = m\<lparr>tm_tags := (tm_tags m)(tag := None)\<rparr>"

definition lcfgtag_acquire :: "tag_mem \<Rightarrow> nat \<Rightarrow> tag_mem option" where
  "lcfgtag_acquire m tag = do {
     t \<leftarrow> tm_tags m tag;
     Some (m\<lparr>tm_tags := (tm_tags m)(tag \<mapsto> t\<lparr>tag_refcount := tag_refcount t + 1\<rparr>)\<rparr>)
   }"

definition lcfgtag_relinquish :: "tag_mem \<Rightarrow> nat option \<Rightarrow> tag_mem option" where
  "lcfgtag_relinquish m tag =
     (case tag of
        None \<Rightarrow> Some m
      | Some a \<Rightarrow> do {
          t \<leftarrow> tm_tags m a;
          let n = (if 0 < tag_refcount t then tag_refcount t - 1 else tag_refcount t);
          Some (if n = 0 then lcfgtag_destroy m a
                else m\<lparr>tm_tags := (tm_tags m)(a \<mapsto> t\<lparr>tag_refcount := n\<rparr>)\<rparr>)
        })"

definition lcfgresource_valid_tag :: "cstr \<Rightarrow> bool" where
  "lcfgresource_valid_tag name \<longleftrightarrow> \<not> isempty name \<and> list_all isword (or_default name [])"

definition lcfgtag_has_name :: "LCFGTag \<Rightarrow> bool" where
  "lcfgtag_has_name tag \<longleftrightarrow> \<not> isempty (tag_name tag)"

definition lcfgtag_is_valid :: "LCFGTag option \<Rightarrow> bool" where
  "lcfgtag_is_valid tag \<longleftrightarrow> (case tag of None \<Rightarrow> False | Some t \<Rightarrow> lcfgtag_has_name t)"

definition lcfgtag_set_name :: "LCFGTag \<Rightarrow> cstr \<Rightarrow> bool \<times> LCFGTag" where
  "lcfgtag_set_name tag new_name =
     (if lcfgresource_valid_tag new_name
      then let name = or_default new_name [] in
        (True, tag\<lparr>tag_name := new_name, tag_name_len := length name,
                   tag_hash := lcfgutils_string_djbhash name []\<rparr>)
      else (False, tag))"

definition lcfgtag_get_name :: "LCFGTag \<Rightarrow> cstr" where "lcfgtag_get_name tag = tag_name tag"

definition lcfgtag_get_length :: "LCFGTag \<Rightarrow> nat" where "lcfgtag_get_length tag = tag_name_len tag"

text \<open>The hash is returned as an \<open>unsigned int\<close>.\<close>

definition lcfgtag_get_hash :: "LCFGTag \<Rightarrow> 32 word" where "lcfgtag_get_hash tag = ucast (tag_hash tag)"

definition lcfgtag_from_string :: "cstr \<Rightarrow> string + LCFGTag" where
  "lcfgtag_from_string input =
     (if isempty input then Inl ''Empty tag''
      else let start = skip_space (or_default input []) in
        if start = [] then Inl ''Empty tag''
        else case lcfgtag_set_name lcfgtag_new (Some start) of (ok, tag) \<Rightarrow>
          if ok then Inr tag else Inl (''Invalid tag name '' @ [CHR 0x27] @ start @ [CHR 0x27]))"

definition lcfgtag_compare :: "LCFGTag \<Rightarrow> LCFGTag \<Rightarrow> int" where
  "lcfgtag_compare tag other = strcmp (or_default (tag_name tag) []) (or_default (tag_name other) [])"

definition lcfgtag_match :: "LCFGTag \<Rightarrow> string \<Rightarrow> bool" where
  "lcfgtag_match tag name \<longleftrightarrow> length name = tag_name_len tag \<and>
     take (tag_name_len tag) (or_default (tag_name tag) []) = take (tag_name_len tag) name"

section \<open>Nodes and lists\<close>

record LCFGTagList =
  tl_head :: "nat option"
  tl_tail :: "nat option"
  tl_size :: nat
  tl_refcount :: nat

definition lcfgtagnode_new :: "nat \<Rightarrow> tag_mem \<Rightarrow> nat \<times> tag_mem" where
  "lcfgtagnode_new tag m =
     (tm_free m, m\<lparr>tm_nodes := (tm_nodes m)(tm_free m \<mapsto> \<lparr>tn_tag = tag, tn_prev = None, tn_next = None\<rparr>),
                   tm_free := tm_free m + 1\<rparr>)"

definition lcfgtagnode_destroy :: "nat \<Rightarrow> tag_mem \<Rightarrow> tag_mem" where
  "lcfgtagnode_destroy node m = m\<lparr>tm_nodes := (tm_nodes m)(node := None)\<rparr>"

definition change_node :: "(LCFGTagNode \<Rightarrow> LCFGTagNode) \<Rightarrow> nat \<Rightarrow> tag_mem \<Rightarrow> tag_mem option" where
  "change_node f a m = do {
     n \<leftarrow> tm_nodes m a;
     Some (m\<lparr>tm_nodes := (tm_nodes m)(a \<mapsto> f n)\<rparr>)
   }"

abbreviation set_prev :: "nat \<Rightarrow> nat option \<Rightarrow> tag_mem \<Rightarrow> tag_mem option" where
  "set_prev a p \<equiv> change_node (\<lambda>n. n\<lparr>tn_prev := p\<rparr>) a"

abbreviation set_next :: "nat \<Rightarrow> nat option \<Rightarrow> tag_mem \<Rightarrow> tag_mem option" where
  "set_next a q \<equiv> change_node (\<lambda>n. n\<lparr>tn_next := q\<rparr>) a"

abbreviation set_tag :: "nat \<Rightarrow> nat \<Rightarrow> tag_mem \<Rightarrow> tag_mem option" where
  "set_tag a t \<equiv> change_node (\<lambda>n. n\<lparr>tn_tag := t\<rparr>) a"

definition lcfgtaglist_new :: LCFGTagList where
  "lcfgtaglist_new = \<lparr>tl_head = None, tl_tail = None, tl_size = 0, tl_refcount = 1\<rparr>"

definition lcfgtaglist_is_empty :: "LCFGTagList option \<Rightarrow> bool" where
  "lcfgtaglist_is_empty taglist \<longleftrightarrow> (case taglist of None \<Rightarrow> True | Some l \<Rightarrow> tl_size l = 0)"

definition lcfgtaglist_acquire :: "LCFGTagList \<Rightarrow> LCFGTagList" where
  "lcfgtaglist_acquire taglist = taglist\<lparr>tl_refcount := tl_refcount taglist + 1\<rparr>"

text \<open>The node a tag is inserted after; \<open>None\<close> is the position before the head.\<close>

definition lcfgtaglist_insert_next ::
    "tag_mem \<Rightarrow> LCFGTagList \<Rightarrow> nat option \<Rightarrow> nat option \<Rightarrow> (LCFGChange \<times> LCFGTagList \<times> tag_mem) option" where
  "lcfgtaglist_insert_next m taglist tagnode tag =
     (case tag of
        None \<Rightarrow> Some (LCFG_CHANGE_ERROR, taglist, m)
      | Some tag \<Rightarrow> do {
          t \<leftarrow> tm_tags m tag;
          if \<not> lcfgtag_is_valid (Some t) then Some (LCFG_CHANGE_ERROR, taglist, m)
          else do {
            let (new_node, m1) = lcfgtagnode_new tag m;
            m2 \<leftarrow> lcfgtag_acquire m1 tag;
            case tagnode of
              None \<Rightarrow> do {
                let cur_head = tl_head taglist;
                m3 \<leftarrow> set_prev new_node None m2;
                m4 \<leftarrow> set_next new_node cur_head m3;
                m5 \<leftarrow> (case cur_head of None \<Rightarrow> Some m4 | Some b \<Rightarrow> set_prev b (Some new_node) m4);
                let l1 = taglist\<lparr>tl_head := Some new_node\<rparr>;
                let l2 = (if lcfgtaglist_is_empty (Some l1) then l1\<lparr>tl_tail := Some new_node\<rparr> else l1);
                Some (LCFG_CHANGE_ADDED, l2\<lparr>tl_size := tl_size l2 + 1\<rparr>, m5)
              }
            | Some a \<Rightarrow> do {
                n \<leftarrow> tm_nodes m2 a;
                m3 \<leftarrow> set_prev new_node (Some a) m2;
                m4 \<leftarrow> set_next new_node (tn_next n) m3;
                (l1, m5) \<leftarrow> (case tn_next n of
                     None \<Rightarrow> Some (taglist\<lparr>tl_tail := Some new_node\<rparr>, m4)
                   | Some b \<Rightarrow> do {m5 \<leftarrow> set_prev b (Some new_node) m4; Some (taglist, m5)});
                m6 \<leftarrow> set_next a (Some new_node) m5;
                Some (LCFG_CHANGE_ADDED, l1\<lparr>tl_size := tl_size l1 + 1\<rparr>, m6)
              }
          }
        })"

definition lcfgtaglist_append_tag :: "tag_mem \<Rightarrow> LCFGTagList \<Rightarrow> nat option \<Rightarrow> (LCFGChange \<times> LCFGTagList \<times> tag_mem) option" where
  "lcfgtaglist_append_tag m taglist tag = lcfgtaglist_insert_next m taglist (tl_tail taglist) tag"

definition lcfgtaglist_prepend_tag :: "tag_mem \<Rightarrow> LCFGTagList \<Rightarrow> nat option \<Rightarrow> (LCFGChange \<times> LCFGTagList \<times> tag_mem) option" where
  "lcfgtaglist_prepend_tag m taglist tag = lcfgtaglist_insert_next m taglist None tag"

text \<open>The removed tag is \<open>None\<close> where the code does not set it.\<close>

definition lcfgtaglist_remove_tag ::
    "tag_mem \<Rightarrow> LCFGTagList \<Rightarrow> nat option \<Rightarrow> (LCFGChange \<times> LCFGTagList \<times> nat option \<times> tag_mem) option" where
  "lcfgtaglist_remove_tag m taglist tagnode =
     (if lcfgtaglist_is_empty (Some taglist) then Some (LCFG_CHANGE_NONE, taglist, None, m)
      else do {
        let cur_head = tl_head taglist;
        a \<leftarrow> (case tagnode of None \<Rightarrow> cur_head | Some a \<Rightarrow> Some a);
        n \<leftarrow> tm_nodes m a;
        (l1, m1) \<leftarrow>
          (if Some a = cur_head
           then (case tn_next n of
                   None \<Rightarrow> Some (taglist\<lparr>tl_head := None, tl_tail := None\<rparr>, m)
                 | Some b \<Rightarrow> do {
                     m1 \<leftarrow> set_prev b None m;
                     Some (taglist\<lparr>tl_head := Some b\<rparr>, m1)
                   })
           else do {
             p \<leftarrow> tn_prev n;
             m1 \<leftarrow> set_next p (tn_next n) m;
             case tn_next n of
               None \<Rightarrow> Some (taglist\<lparr>tl_tail := Some p\<rparr>, m1)
             | Some b \<Rightarrow> do {
                 m2 \<leftarrow> set_prev b (Some p) m1;
                 Some (taglist, m2)
               }
           });
        Some (LCFG_CHANGE_REMOVED, l1\<lparr>tl_size := tl_size l1 - 1\<rparr>, Some (tn_tag n), lcfgtagnode_destroy a m1)
      })"

text \<open>
  Removing tags from the end until the size is 0. The size is the fuel: each round either
  takes a node away or finds the list broken.
\<close>

fun destroy_loop :: "nat \<Rightarrow> tag_mem \<Rightarrow> LCFGTagList \<Rightarrow> (LCFGTagList \<times> tag_mem) option" where
  "destroy_loop 0 m taglist = Some (taglist, m)"
| "destroy_loop (Suc n) m taglist = do {
     (change, l1, tag, m1) \<leftarrow> lcfgtaglist_remove_tag m taglist (tl_tail taglist);
     m2 \<leftarrow> (if change = LCFG_CHANGE_REMOVED then lcfgtag_relinquish m1 tag else Some m1);
     destroy_loop n m2 l1
   }"

definition lcfgtaglist_destroy :: "tag_mem \<Rightarrow> LCFGTagList option \<Rightarrow> tag_mem option" where
  "lcfgtaglist_destroy m taglist =
     (case taglist of
        None \<Rightarrow> Some m
      | Some l \<Rightarrow> map_option snd (destroy_loop (tl_size l) m l))"

definition lcfgtaglist_relinquish :: "tag_mem \<Rightarrow> LCFGTagList option \<Rightarrow> (LCFGTagList option \<times> tag_mem) option" where
  "lcfgtaglist_relinquish m taglist =
     (case taglist of
        None \<Rightarrow> Some (None, m)
      | Some l \<Rightarrow>
          let l' = (if 0 < tl_refcount l then l\<lparr>tl_refcount := tl_refcount l - 1\<rparr> else l)
          in if tl_refcount l' = 0 then map_option (Pair None) (lcfgtaglist_destroy m (Some l'))
             else Some (Some l', m))"

text \<open>
  A loop over the nodes: the body gets the node, a state and the memory and says whether to
  go on; the link to the next node is read after the body has run.
\<close>

partial_function (option) for_nodes ::
    "(nat \<Rightarrow> 's \<Rightarrow> tag_mem \<Rightarrow> ('s \<times> tag_mem \<times> bool) option) \<Rightarrow> nat option \<Rightarrow> 's \<Rightarrow> tag_mem \<Rightarrow>
     ('s \<times> tag_mem) option" where
  "for_nodes body node s m =
     (case node of
        None \<Rightarrow> Some (s, m)
      | Some a \<Rightarrow> do {
          (s', m', continue) \<leftarrow> body a s m;
          if continue then do {n \<leftarrow> tm_nodes m' a; for_nodes body (tn_next n) s' m'}
          else Some (s', m')
        })"

definition node_tag :: "tag_mem \<Rightarrow> nat \<Rightarrow> (nat \<times> LCFGTag) option" where
  "node_tag m a = do {n \<leftarrow> tm_nodes m a; t \<leftarrow> tm_tags m (tn_tag n); Some (tn_tag n, t)}"

definition lcfgtaglist_find_node :: "tag_mem \<Rightarrow> LCFGTagList option \<Rightarrow> string \<Rightarrow> nat option option" where
  "lcfgtaglist_find_node m taglist want_name =
     (if lcfgtaglist_is_empty taglist then Some None
      else map_option fst (for_nodes (\<lambda>a result m. do {
               (_, t) \<leftarrow> node_tag m a;
               if lcfgtag_match t want_name then Some (Some a, m, False) else Some (result, m, True)
             }) (tl_head (the taglist)) None m))"

definition lcfgtaglist_find_tag :: "tag_mem \<Rightarrow> LCFGTagList option \<Rightarrow> string \<Rightarrow> nat option option" where
  "lcfgtaglist_find_tag m taglist name = do {
     node \<leftarrow> lcfgtaglist_find_node m taglist name;
     case node of None \<Rightarrow> Some None | Some a \<Rightarrow> map_option (\<lambda>n. Some (tn_tag n)) (tm_nodes m a)
   }"

definition lcfgtaglist_contains :: "tag_mem \<Rightarrow> LCFGTagList option \<Rightarrow> string \<Rightarrow> bool option" where
  "lcfgtaglist_contains m taglist name = map_option (\<lambda>node. node \<noteq> None) (lcfgtaglist_find_node m taglist name)"

section \<open>Copies and sets\<close>

text \<open>
  The loop of the clone and of the four set operations: a valid tag that \<open>wanted\<close> accepts is
  appended to the result; an error ends the loop.
\<close>

definition collect_tags ::
    "(tag_mem \<Rightarrow> LCFGTagList \<Rightarrow> string \<Rightarrow> bool option) \<Rightarrow> LCFGTagList \<Rightarrow> LCFGTagList \<Rightarrow> tag_mem \<Rightarrow>
     ((LCFGChange \<times> LCFGTagList) \<times> tag_mem) option" where
  "collect_tags wanted taglist result =
     for_nodes (\<lambda>a (change, result) m. do {
         (tag, t) \<leftarrow> node_tag m a;
         ok \<leftarrow> (if lcfgtag_is_valid (Some t) then wanted m result (or_default (lcfgtag_get_name t) []) else Some False);
         if ok then do {
           (change', result', m') \<leftarrow> lcfgtaglist_append_tag m result (Some tag);
           Some ((change', result'), m', change' \<noteq> LCFG_CHANGE_ERROR)
         }
         else Some ((change, result), m, True)
       }) (tl_head taglist) (LCFG_CHANGE_NONE, result)"

text \<open>The end of these functions: the result, or nothing after an error.\<close>

definition give_tags :: "(LCFGChange \<times> LCFGTagList) \<times> tag_mem \<Rightarrow> (LCFGTagList option \<times> tag_mem) option" where
  "give_tags r =
     (case r of ((change, result), m) \<Rightarrow>
        if change = LCFG_CHANGE_ERROR then lcfgtaglist_relinquish m (Some result) else Some (Some result, m))"

definition lcfgtaglist_clone :: "tag_mem \<Rightarrow> LCFGTagList \<Rightarrow> (LCFGTagList option \<times> tag_mem) option" where
  "lcfgtaglist_clone m taglist = do {
     ((change, new_taglist), m') \<leftarrow> collect_tags (\<lambda>m result name. Some True) taglist lcfgtaglist_new m;
     if change = LCFG_CHANGE_ERROR then map_option (Pair None) (lcfgtaglist_destroy m' (Some new_taglist))
     else Some (Some new_taglist, m')
   }"

definition absent :: "tag_mem \<Rightarrow> LCFGTagList \<Rightarrow> string \<Rightarrow> bool option" where
  "absent m result name = map_option Not (lcfgtaglist_contains m (Some result) name)"

definition lcfgtaglist_set_unique :: "tag_mem \<Rightarrow> LCFGTagList \<Rightarrow> (LCFGTagList option \<times> tag_mem) option" where
  "lcfgtaglist_set_unique m taglist = do {
     r \<leftarrow> collect_tags absent taglist lcfgtaglist_new m;
     give_tags r
   }"

definition lcfgtaglist_set_union ::
    "tag_mem \<Rightarrow> LCFGTagList \<Rightarrow> LCFGTagList \<Rightarrow> (LCFGTagList option \<times> tag_mem) option" where
  "lcfgtaglist_set_union m taglist1 taglist2 = do {
     (start, m1) \<leftarrow> (if lcfgtaglist_is_empty (Some taglist1) then Some (Some lcfgtaglist_new, m)
                     else lcfgtaglist_set_unique m taglist1);
     result \<leftarrow> start;
     r \<leftarrow> collect_tags absent taglist2 result m1;
     give_tags r
   }"

text \<open>The test of an intersection or a difference reads the second list first.\<close>

definition both :: "(tag_mem \<Rightarrow> LCFGTagList \<Rightarrow> string \<Rightarrow> bool option) \<Rightarrow> LCFGTagList \<Rightarrow> tag_mem \<Rightarrow> LCFGTagList \<Rightarrow> string \<Rightarrow> bool option" where
  "both test taglist2 m result name = do {
     first \<leftarrow> test m taglist2 name;
     if first then absent m result name else Some False
   }"

definition lcfgtaglist_set_intersection ::
    "tag_mem \<Rightarrow> LCFGTagList \<Rightarrow> LCFGTagList \<Rightarrow> (LCFGTagList option \<times> tag_mem) option" where
  "lcfgtaglist_set_intersection m taglist1 taglist2 = do {
     r \<leftarrow> collect_tags (both (\<lambda>m l. lcfgtaglist_contains m (Some l)) taglist2) taglist1 lcfgtaglist_new m;
     give_tags r
   }"

definition lcfgtaglist_set_subtract ::
    "tag_mem \<Rightarrow> LCFGTagList \<Rightarrow> LCFGTagList \<Rightarrow> (LCFGTagList option \<times> tag_mem) option" where
  "lcfgtaglist_set_subtract m taglist1 taglist2 = do {
     r \<leftarrow> collect_tags (both absent taglist2) taglist1 lcfgtaglist_new m;
     give_tags r
   }"

section \<open>Changing lists\<close>

definition mutate_insert ::
    "(tag_mem \<Rightarrow> LCFGTagList \<Rightarrow> nat option \<Rightarrow> (LCFGChange \<times> LCFGTagList \<times> tag_mem) option) \<Rightarrow>
     tag_mem \<Rightarrow> LCFGTagList \<Rightarrow> cstr \<Rightarrow> cstr \<Rightarrow> (LCFGChange \<times> LCFGTagList \<times> cstr \<times> tag_mem) option" where
  "mutate_insert insert_tag m taglist tagname msg =
     (case lcfgtag_from_string tagname of
        Inl e \<Rightarrow> Some (LCFG_CHANGE_ERROR, taglist, Some e, m)
      | Inr t \<Rightarrow> do {
          let (new_tag, m1) = alloc_tag t m;
          (change, taglist', m2) \<leftarrow> insert_tag m1 taglist (Some new_tag);
          m3 \<leftarrow> lcfgtag_relinquish m2 (Some new_tag);
          Some (change, taglist', msg, m3)
        })"

definition lcfgtaglist_mutate_append ::
    "tag_mem \<Rightarrow> LCFGTagList \<Rightarrow> cstr \<Rightarrow> cstr \<Rightarrow> (LCFGChange \<times> LCFGTagList \<times> cstr \<times> tag_mem) option" where
  "lcfgtaglist_mutate_append = mutate_insert lcfgtaglist_append_tag"

definition lcfgtaglist_mutate_prepend ::
    "tag_mem \<Rightarrow> LCFGTagList \<Rightarrow> cstr \<Rightarrow> cstr \<Rightarrow> (LCFGChange \<times> LCFGTagList \<times> cstr \<times> tag_mem) option" where
  "lcfgtaglist_mutate_prepend = mutate_insert lcfgtaglist_prepend_tag"

definition lcfgtaglist_mutate_add ::
    "tag_mem \<Rightarrow> LCFGTagList \<Rightarrow> string \<Rightarrow> cstr \<Rightarrow> (LCFGChange \<times> LCFGTagList \<times> cstr \<times> tag_mem) option" where
  "lcfgtaglist_mutate_add m taglist tagname msg = do {
     found \<leftarrow> lcfgtaglist_contains m (Some taglist) tagname;
     if found then Some (LCFG_CHANGE_NONE, taglist, msg, m)
     else lcfgtaglist_mutate_append m taglist (Some tagname) msg
   }"

text \<open>
  The replacement: the new tag gets a reference, the node is changed, the old tag loses one.
  The new tag is made at the first match; the state of the loop is the change, the new tag
  and the message.
\<close>

definition retag :: "nat \<Rightarrow> nat \<Rightarrow> nat \<Rightarrow> tag_mem \<Rightarrow> tag_mem option" where
  "retag a b cur_tag m = do {
     m1 \<leftarrow> lcfgtag_acquire m b;
     m2 \<leftarrow> set_tag a b m1;
     lcfgtag_relinquish m2 (Some cur_tag)
   }"

definition replace_step ::
    "string \<Rightarrow> string \<Rightarrow> bool \<Rightarrow> nat \<Rightarrow> LCFGChange \<times> nat option \<times> cstr \<Rightarrow> tag_mem \<Rightarrow>
     ((LCFGChange \<times> nat option \<times> cstr) \<times> tag_mem \<times> bool) option" where
  "replace_step match replace global a = (\<lambda>(change, new_tag, msg) m. do {
     (cur_tag, t) \<leftarrow> node_tag m a;
     if lcfgtag_match t match then do {
       let (change, new_tag, msg, m) =
         (case new_tag of
            Some b \<Rightarrow> (change, Some b, msg, m)
          | None \<Rightarrow>
              (case lcfgtag_from_string (Some replace) of
                 Inl e \<Rightarrow> (LCFG_CHANGE_ERROR, None, Some e, m)
               | Inr t \<Rightarrow> (case alloc_tag t m of (b, m') \<Rightarrow> (change, Some b, msg, m'))));
       (change, m) \<leftarrow>
         (if change \<noteq> LCFG_CHANGE_ERROR then do {
            b \<leftarrow> new_tag;
            m3 \<leftarrow> retag a b cur_tag m;
            Some (LCFG_CHANGE_REPLACED, m3)
          }
          else Some (change, m));
       Some ((change, new_tag, msg), m, global \<and> change \<noteq> LCFG_CHANGE_ERROR)
     }
     else Some ((change, new_tag, msg), m, True)
   })"

definition lcfgtaglist_mutate_replace ::
    "tag_mem \<Rightarrow> LCFGTagList \<Rightarrow> string \<Rightarrow> string \<Rightarrow> bool \<Rightarrow> cstr \<Rightarrow> (LCFGChange \<times> cstr \<times> tag_mem) option" where
  "lcfgtaglist_mutate_replace m taglist match replace global msg =
     (if lcfgtaglist_is_empty (Some taglist) then Some (LCFG_CHANGE_NONE, msg, m)
      else if \<not> lcfgresource_valid_tag (Some replace)
      then Some (LCFG_CHANGE_ERROR, Some (''Invalid replacement tag '' @ [CHR 0x27] @ replace @ [CHR 0x27]), m)
      else do {
        ((change, new_tag, msg'), m') \<leftarrow>
          for_nodes (replace_step match replace global) (tl_head taglist) (LCFG_CHANGE_NONE, None, msg) m;
        m'' \<leftarrow> lcfgtag_relinquish m' new_tag;
        Some (change, msg', m'')
      })"

section \<open>Strings\<close>

fun append_names ::
    "tag_mem \<Rightarrow> LCFGTagList \<Rightarrow> string list \<Rightarrow> cstr \<Rightarrow> (bool \<times> LCFGTagList \<times> cstr \<times> tag_mem) option" where
  "append_names m taglist [] msg = Some (True, taglist, msg, m)"
| "append_names m taglist (token # rest) msg = do {
     (change, taglist', msg', m') \<leftarrow> lcfgtaglist_mutate_append m taglist (Some token) msg;
     if change = LCFG_CHANGE_ERROR then Some (False, taglist', msg', m')
     else append_names m' taglist' rest msg'
   }"

definition lcfgtaglist_from_array ::
    "tag_mem \<Rightarrow> string list \<Rightarrow> cstr \<Rightarrow> (LCFGStatus \<times> LCFGTagList option \<times> cstr \<times> tag_mem) option" where
  "lcfgtaglist_from_array m input msg = do {
     (ok, new_taglist, msg', m') \<leftarrow> append_names m lcfgtaglist_new input msg;
     if ok then Some (LCFG_STATUS_OK, Some new_taglist, msg', m')
     else do {
       (_, m'') \<leftarrow> lcfgtaglist_relinquish m' (Some new_taglist);
       Some (LCFG_STATUS_ERROR, None, msg', m'')
     }
   }"

definition tag_seps :: "char \<Rightarrow> bool" where
  "tag_seps c \<longleftrightarrow> c = CHR '' '' \<or> c = CHR 0x09 \<or> c = CHR 0x0D \<or> c = CHR 0x0A"


definition lcfgtaglist_from_string ::
    "tag_mem \<Rightarrow> string \<Rightarrow> cstr \<Rightarrow> (LCFGStatus \<times> LCFGTagList option \<times> cstr \<times> tag_mem) option" where
  "lcfgtaglist_from_string m input msg = do {
     (ok, new_taglist, msg', m') \<leftarrow> append_names m lcfgtaglist_new (strtok tag_seps input) msg;
     if ok then Some (LCFG_STATUS_OK, Some new_taglist, msg', m')
     else do {
       (_, m'') \<leftarrow> lcfgtaglist_relinquish m' (Some new_taglist);
       Some (LCFG_STATUS_ERROR, None, msg', m'')
     }
   }"

text \<open>
  The length that is computed for the buffer and the text that is written into it. A name is
  copied up to its recorded length.
\<close>

definition copied_name :: "LCFGTag \<Rightarrow> string" where
  "copied_name t = take (lcfgtag_get_length t) (or_default (lcfgtag_get_name t) [])"

definition over_names ::
    "tag_mem \<Rightarrow> LCFGTagList \<Rightarrow> (LCFGTag \<Rightarrow> 's) \<Rightarrow> ('s \<Rightarrow> LCFGTag \<Rightarrow> 's) \<Rightarrow> 's \<Rightarrow> 's option" where
  "over_names m taglist first_step next_step none =
     (if 0 < tl_size taglist then do {
        head_node \<leftarrow> tl_head taglist;
        (_, t) \<leftarrow> node_tag m head_node;
        n \<leftarrow> tm_nodes m head_node;
        map_option fst (for_nodes (\<lambda>a s m. do {
            (_, t) \<leftarrow> node_tag m a;
            Some (next_step s t, m, True)
          }) (tn_next n) (first_step t) m)
      }
      else Some none)"

definition lcfgtaglist_to_string :: "tag_mem \<Rightarrow> LCFGTagList \<Rightarrow> bits \<Rightarrow> (nat \<times> string) option" where
  "lcfgtaglist_to_string m taglist options = do {
     len \<leftarrow> over_names m taglist lcfgtag_get_length (\<lambda>len t. len + (lcfgtag_get_length t + 1)) 0;
     names \<leftarrow> over_names m taglist copied_name (\<lambda>s t. s @ '' '' @ copied_name t) [];
     let nl = has_bit options LCFG_OPT_NEWLINE;
     Some (if nl then len + 1 else len, if nl then names @ [CHR 0x0A] else names)
   }"

definition lcfgtaglist_print :: "tag_mem \<Rightarrow> LCFGTagList \<Rightarrow> string option" where
  "lcfgtaglist_print m taglist = map_option snd (lcfgtaglist_to_string m taglist LCFG_OPT_NEWLINE)"

section \<open>Sorting\<close>

definition sort_step :: "nat \<Rightarrow> bool \<Rightarrow> tag_mem \<Rightarrow> (bool \<times> tag_mem \<times> bool) option" where
  "sort_step a swapped m = do {
     n \<leftarrow> tm_nodes m a;
     case tn_next n of
       None \<Rightarrow> Some (swapped, m, False)
     | Some b \<Rightarrow> do {
         (cur_tag, t) \<leftarrow> node_tag m a;
         (next_tag, u) \<leftarrow> node_tag m b;
         if 0 < lcfgtag_compare t u then do {
           m1 \<leftarrow> set_tag a next_tag m;
           m2 \<leftarrow> set_tag b cur_tag m1;
           Some (True, m2, True)
         }
         else Some (swapped, m, True)
       }
   }"

partial_function (option) sort_rounds :: "nat option \<Rightarrow> tag_mem \<Rightarrow> tag_mem option" where
  "sort_rounds head_node m = do {
     (swapped, m') \<leftarrow> for_nodes sort_step head_node False m;
     if swapped then sort_rounds head_node m' else Some m'
   }"

definition lcfgtaglist_sort :: "tag_mem \<Rightarrow> LCFGTagList \<Rightarrow> tag_mem option" where
  "lcfgtaglist_sort m taglist = (if tl_size taglist < 2 then Some m else sort_rounds (tl_head taglist) m)"

section \<open>Iterators\<close>

text \<open>An iterator shares its list; the field is the list as it is while the iterator runs.\<close>

record LCFGTagIterator =
  ti_list :: LCFGTagList
  ti_current :: "nat option"

definition lcfgtagiter_new :: "LCFGTagList \<Rightarrow> LCFGTagIterator" where
  "lcfgtagiter_new list = \<lparr>ti_list = lcfgtaglist_acquire list, ti_current = None\<rparr>"

definition lcfgtagiter_reset :: "LCFGTagIterator \<Rightarrow> LCFGTagIterator" where
  "lcfgtagiter_reset it = it\<lparr>ti_current := None\<rparr>"

definition lcfgtagiter_destroy :: "tag_mem \<Rightarrow> LCFGTagIterator option \<Rightarrow> (LCFGTagList option \<times> tag_mem) option" where
  "lcfgtagiter_destroy m it =
     (case it of None \<Rightarrow> Some (None, m) | Some i \<Rightarrow> lcfgtaglist_relinquish m (Some (ti_list i)))"

definition lcfgtagiter_has_next :: "tag_mem \<Rightarrow> LCFGTagIterator \<Rightarrow> bool option" where
  "lcfgtagiter_has_next m it =
     (case ti_current it of
        None \<Rightarrow> Some (\<not> lcfgtaglist_is_empty (Some (ti_list it)))
      | Some a \<Rightarrow> map_option (\<lambda>n. tn_next n \<noteq> None) (tm_nodes m a))"

definition lcfgtagiter_has_prev :: "tag_mem \<Rightarrow> LCFGTagIterator \<Rightarrow> bool option" where
  "lcfgtagiter_has_prev m it =
     (case ti_current it of
        None \<Rightarrow> Some (\<not> lcfgtaglist_is_empty (Some (ti_list it)))
      | Some a \<Rightarrow> map_option (\<lambda>n. tn_prev n \<noteq> None) (tm_nodes m a))"

text \<open>A step to a node: the tag it holds, or none when there is no node.\<close>

definition iter_tag :: "tag_mem \<Rightarrow> LCFGTagIterator \<Rightarrow> (nat option \<times> LCFGTagIterator) option" where
  "iter_tag m it =
     (case ti_current it of
        None \<Rightarrow> Some (None, it)
      | Some a \<Rightarrow> map_option (\<lambda>n. (Some (tn_tag n), it)) (tm_nodes m a))"

definition lcfgtagiter_next :: "tag_mem \<Rightarrow> LCFGTagIterator \<Rightarrow> (nat option \<times> LCFGTagIterator) option" where
  "lcfgtagiter_next m it = do {
     more \<leftarrow> lcfgtagiter_has_next m it;
     if \<not> more then Some (None, it)
     else do {
       new \<leftarrow> (case ti_current it of
           None \<Rightarrow> Some (tl_head (ti_list it))
         | Some a \<Rightarrow> map_option tn_next (tm_nodes m a));
       iter_tag m (it\<lparr>ti_current := new\<rparr>)
     }
   }"

definition lcfgtagiter_prev :: "tag_mem \<Rightarrow> LCFGTagIterator \<Rightarrow> (nat option \<times> LCFGTagIterator) option" where
  "lcfgtagiter_prev m it = do {
     more \<leftarrow> lcfgtagiter_has_prev m it;
     if \<not> more then Some (None, it)
     else do {
       new \<leftarrow> (case ti_current it of
           None \<Rightarrow> Some (tl_tail (ti_list it))
         | Some a \<Rightarrow> map_option tn_prev (tm_nodes m a));
       iter_tag m (it\<lparr>ti_current := new\<rparr>)
     }
   }"

section \<open>Chains of nodes\<close>

text \<open>
  What a list means: a chain of nodes, each with its tag and both its links. An entry of the
  chain is the address of a node and the address of its tag.
\<close>

definition first_of :: "nat option \<Rightarrow> (nat \<times> nat) list \<Rightarrow> nat option" where
  "first_of q ps = (case ps of [] \<Rightarrow> q | x # _ \<Rightarrow> Some (fst x))"

definition last_of :: "nat option \<Rightarrow> (nat \<times> nat) list \<Rightarrow> nat option" where
  "last_of p ps = (if ps = [] then p else Some (fst (last ps)))"

fun dll :: "(nat \<rightharpoonup> LCFGTagNode) \<Rightarrow> nat option \<Rightarrow> (nat \<times> nat) list \<Rightarrow> nat option \<Rightarrow> bool" where
  "dll ns p [] q \<longleftrightarrow> True"
| "dll ns p ((a, t) # ps) q \<longleftrightarrow>
     ns a = Some \<lparr>tn_tag = t, tn_prev = p, tn_next = first_of q ps\<rparr> \<and> dll ns (Some a) ps q"

lemma ends_simps [simp]:
  "first_of q [] = q" "first_of q ((a, t) # ps) = Some a" "first_of q (ps @ qs) = first_of (first_of q qs) ps"
  "last_of p [] = p" "last_of p (ps @ [(a, t)]) = Some a" "last_of p ((a, t) # ps) = last_of (Some a) ps"
  "last_of p (ps @ qs) = last_of (last_of p ps) qs"
  by (simp_all add: first_of_def last_of_def split: list.split)

lemma dll_append: "dll ns p (ps @ qs) q \<longleftrightarrow> dll ns p ps (first_of q qs) \<and> dll ns (last_of p ps) qs q"
  by (induction ns p ps q rule: dll.induct) auto

lemma dll_frame: "(\<And>a. a \<in> fst ` set ps \<Longrightarrow> ns' a = ns a) \<Longrightarrow> dll ns p ps q \<Longrightarrow> dll ns' p ps q"
  by (induction ns p ps q rule: dll.induct) auto

lemma dll_update [simp]: "a \<notin> fst ` set ps \<Longrightarrow> dll (ns(a := v)) p ps q \<longleftrightarrow> dll ns p ps q"
  by (induction ns p ps q rule: dll.induct) auto

text \<open>The tag memory, and a list in it that holds a reference to each tag in its chain.\<close>

definition tag_ok :: "LCFGTag \<Rightarrow> bool" where
  "tag_ok t \<longleftrightarrow> 0 < tag_refcount t \<and> lcfgresource_valid_tag (tag_name t) \<and>
     tag_name_len t = length (or_default (tag_name t) [])"

definition mem_ok :: "tag_mem \<Rightarrow> bool" where
  "mem_ok m \<longleftrightarrow> (\<forall>a t. tm_tags m a = Some t \<longrightarrow> tag_ok t) \<and>
     (\<forall>a\<ge>tm_free m. tm_tags m a = None \<and> tm_nodes m a = None)"

definition tag_refs :: "tag_mem \<Rightarrow> nat \<Rightarrow> nat" where
  "tag_refs m a = (case tm_tags m a of None \<Rightarrow> 0 | Some t \<Rightarrow> tag_refcount t)"

definition tag_text :: "tag_mem \<Rightarrow> nat \<Rightarrow> string" where
  "tag_text m a = (case tm_tags m a of None \<Rightarrow> [] | Some t \<Rightarrow> or_default (tag_name t) [])"

definition chain_in :: "tag_mem \<Rightarrow> LCFGTagList \<Rightarrow> (nat \<times> nat) list \<Rightarrow> bool" where
  "chain_in m l ps \<longleftrightarrow> dll (tm_nodes m) None ps None \<and> distinct (map fst ps) \<and>
     tl_head l = first_of None ps \<and> tl_tail l = last_of None ps \<and> tl_size l = length ps"

definition held :: "(nat \<times> nat) list \<Rightarrow> nat multiset" where "held ps = mset (map snd ps)"

definition taglist_in :: "tag_mem \<Rightarrow> LCFGTagList \<Rightarrow> (nat \<times> nat) list \<Rightarrow> bool" where
  "taglist_in m l ps \<longleftrightarrow> chain_in m l ps \<and> (\<forall>a. count (held ps) a \<le> tag_refs m a)"

definition names_in :: "tag_mem \<Rightarrow> (nat \<times> nat) list \<Rightarrow> string list" where
  "names_in m ps = map (tag_text m \<circ> snd) ps"


section \<open>Insertion and removal\<close>


text \<open>A node that is not in the chain is linked in after the head or after a node.\<close>

lemma dll_insert_head:
  assumes "dll ns None ps None" and "distinct (map fst ps)" and "new \<notin> fst ` set ps"
    and "ns' new = Some \<lparr>tn_tag = t, tn_prev = None, tn_next = first_of None ps\<rparr>"
    and "\<And>b u qs. ps = (b, u) # qs \<Longrightarrow> ns' b = map_option (\<lambda>n. n\<lparr>tn_prev := Some new\<rparr>) (ns b)"
    and "\<And>a. a \<in> fst ` set (tl ps) \<Longrightarrow> ns' a = ns a"
  shows "dll ns' None ((new, t) # ps) None"
proof (cases ps)
  case Nil
  with assms(4) show ?thesis by simp
next
  case (Cons x qs)
  obtain b u where x: "x = (b, u)" by force
  have "dll ns' (Some b) qs None"
    using assms(1,6) Cons x by (intro dll_frame [of qs ns' ns]) auto
  with assms(1,4) assms(5) [of b u qs] Cons x show ?thesis by simp
qed

lemma dll_insert_after:
  assumes "dll ns None (us @ (a, s) # vs) None" and "distinct (map fst (us @ (a, s) # vs))"
    and "new \<notin> fst ` set (us @ (a, s) # vs)"
    and "ns' new = Some \<lparr>tn_tag = t, tn_prev = Some a, tn_next = first_of None vs\<rparr>"
    and "ns' a = map_option (\<lambda>n. n\<lparr>tn_next := Some new\<rparr>) (ns a)"
    and "\<And>b u ws. vs = (b, u) # ws \<Longrightarrow> ns' b = map_option (\<lambda>n. n\<lparr>tn_prev := Some new\<rparr>) (ns b)"
    and "\<And>x. x \<in> fst ` set us \<union> fst ` set (tl vs) \<Longrightarrow> ns' x = ns x"
  shows "dll ns' None (us @ (a, s) # (new, t) # vs) None"
proof -
  have d: "dll ns None us (Some a)" "ns a = Some \<lparr>tn_tag = s, tn_prev = last_of None us, tn_next = first_of None vs\<rparr>"
    "dll ns (Some a) vs None"
    using assms(1) by (auto simp: dll_append)
  have us: "dll ns' None us (Some a)" using d(1) assms(7) by (intro dll_frame [of us ns' ns]) auto
  have vs: "dll ns' (Some new) vs None"
  proof (cases vs)
    case (Cons x ws)
    obtain b u where x: "x = (b, u)" by force
    have "dll ns' (Some b) ws None" using d(3) assms(7) Cons x by (intro dll_frame [of ws ns' ns]) auto
    with d(3) assms(6) [of b u ws] Cons x show ?thesis by simp
  qed simp
  from us vs d(2) assms(4,5) show ?thesis by (simp add: dll_append)
qed

lemma dll_remove:
  assumes "dll ns None (us @ (a, s) # vs) None" and "distinct (map fst (us @ (a, s) # vs))"
    and "\<And>ws b u. us = ws @ [(b, u)] \<Longrightarrow> ns' b = map_option (\<lambda>n. n\<lparr>tn_next := first_of None vs\<rparr>) (ns b)"
    and "\<And>b u ws. vs = (b, u) # ws \<Longrightarrow> ns' b = map_option (\<lambda>n. n\<lparr>tn_prev := last_of None us\<rparr>) (ns b)"
    and "\<And>x. x \<in> fst ` set (butlast us) \<union> fst ` set (tl vs) \<Longrightarrow> ns' x = ns x"
  shows "dll ns' None (us @ vs) None"
proof -
  have d: "dll ns None us (Some a)" "dll ns (Some a) vs None" using assms(1) by (auto simp: dll_append)
  have us: "dll ns' None us (first_of None vs)"
  proof (cases us rule: rev_cases)
    case (snoc ws x)
    obtain b u where x: "x = (b, u)" by force
    have "dll ns' None ws (Some b)" using d(1) assms(5) snoc x by (intro dll_frame [of ws ns' ns]) (auto simp: dll_append)
    with d(1) assms(3) [of ws b u] snoc x show ?thesis by (simp add: dll_append)
  qed simp
  have vs: "dll ns' (last_of None us) vs None"
  proof (cases vs)
    case (Cons x ws)
    obtain b u where x: "x = (b, u)" by force
    have "dll ns' (Some b) ws None" using d(2) assms(5) Cons x by (intro dll_frame [of ws ns' ns]) auto
    with d(2) assms(4) [of b u ws] Cons x show ?thesis by simp
  qed simp
  from us vs show ?thesis by (simp add: dll_append)
qed


text \<open>What every operation on a list does to the rest of the memory.\<close>

definition node_frame :: "tag_mem \<Rightarrow> (nat \<times> nat) list \<Rightarrow> tag_mem \<Rightarrow> bool" where
  "node_frame m ps m' \<longleftrightarrow> tm_free m \<le> tm_free m' \<and>
     (\<forall>a. a \<notin> fst ` set ps \<longrightarrow> a < tm_free m \<longrightarrow> tm_nodes m' a = tm_nodes m a)"

text \<open>One more reference to a tag.\<close>

definition acquired :: "nat \<Rightarrow> (nat \<rightharpoonup> LCFGTag) \<Rightarrow> (nat \<rightharpoonup> LCFGTag)" where
  "acquired a tags = tags(a := map_option (\<lambda>t. t\<lparr>tag_refcount := tag_refcount t + 1\<rparr>) (tags a))"

lemma tag_refs_live: "0 < tag_refs m a \<Longrightarrow> \<exists>t. tm_tags m a = Some t"
  by (auto simp: tag_refs_def split: option.splits)

lemma tag_ok_valid: "tag_ok t \<Longrightarrow> lcfgtag_is_valid (Some t)"
  by (simp add: tag_ok_def lcfgtag_is_valid_def lcfgtag_has_name_def lcfgresource_valid_tag_def)

lemma chain_below:
  assumes "mem_ok m" and "dll (tm_nodes m) p ps q" and "a \<in> fst ` set ps"
  shows "a < tm_free m" and "\<exists>n. tm_nodes m a = Some n"
proof -
  show "\<exists>n. tm_nodes m a = Some n" using assms(2,3) by (induction "tm_nodes m" p ps q rule: dll.induct) auto
  with assms(1) show "a < tm_free m" by (metis mem_ok_def not_le option.distinct(1))
qed

lemma insert_head:
  assumes "mem_ok m" and "chain_in m l ps" and "tm_tags m tag = Some t"
  shows "\<exists>l' m'. lcfgtaglist_insert_next m l None (Some tag) = Some (LCFG_CHANGE_ADDED, l', m') \<and>
    chain_in m' l' ((tm_free m, tag) # ps) \<and> tm_tags m' = acquired tag (tm_tags m) \<and> node_frame m ps m' \<and>
    tm_free m' = tm_free m + 1 \<and> (\<forall>a>tm_free m. tm_nodes m' a = None) \<and> tl_refcount l' = tl_refcount l"
proof -
  have valid: "lcfgtag_is_valid (Some t)" using assms(1,3) tag_ok_valid by (auto simp: mem_ok_def)
  have below: "a < tm_free m \<and> (\<exists>n. tm_nodes m a = Some n)" if "a \<in> fst ` set ps" for a
    using chain_below [OF assms(1) _ that] assms(2) by (auto simp: chain_in_def)
  have above: "\<forall>a>tm_free m. tm_nodes m a = None" using assms(1) by (auto simp: mem_ok_def)
  have tags: "(tm_tags m)(tag \<mapsto> t\<lparr>tag_refcount := tag_refcount t + 1\<rparr>) = acquired tag (tm_tags m)"
    using assms(3) by (simp add: acquired_def)
  define f where "f = tm_free m"
  note simps = lcfgtaglist_insert_next_def lcfgtagnode_new_def lcfgtag_acquire_def change_node_def lcfgtaglist_is_empty_def
  show ?thesis
  proof (cases ps)
    case Nil
    with assms valid above tags show ?thesis by (simp add: simps chain_in_def node_frame_def)
  next
    case (Cons x qs)
    obtain b u where x: "x = (b, u)" by force
    obtain n where n: "tm_nodes m b = Some n" and b: "b < f" using below [of b] Cons x by (auto simp: f_def)
    let ?ns = "(tm_nodes m)(f \<mapsto> \<lparr>tn_tag = tag, tn_prev = None, tn_next = Some b\<rparr>, b \<mapsto> n\<lparr>tn_prev := Some f\<rparr>)"
    let ?m = "m\<lparr>tm_nodes := ?ns, tm_free := f + 1, tm_tags := acquired tag (tm_tags m)\<rparr>"
    have run: "lcfgtaglist_insert_next m l None (Some tag) =
        Some (LCFG_CHANGE_ADDED, l\<lparr>tl_head := Some f, tl_size := tl_size l + 1\<rparr>, ?m)"
      using assms valid n b Cons x tags by (simp add: simps chain_in_def fun_upd_twist flip: f_def)
    have d: "dll (tm_nodes m) None ps None" "distinct (map fst ps)" using assms(2) by (simp_all add: chain_in_def)
    have fresh: "f \<notin> fst ` set ps" using below by (force simp: f_def)
    have "dll ?ns None ((f, tag) # ps) None"
      by (rule dll_insert_head [OF d fresh]) (use Cons x n b d(2) fresh in auto)
    with run assms(2) d fresh Cons x above b show ?thesis
      by (auto simp: chain_in_def node_frame_def f_def)
  qed
qed


lemma insert_after:
  assumes "mem_ok m" and "chain_in m l ps" and "tm_tags m tag = Some t" and "ps = us @ (a, s) # vs"
  shows "\<exists>l' m'. lcfgtaglist_insert_next m l (Some a) (Some tag) = Some (LCFG_CHANGE_ADDED, l', m') \<and>
    chain_in m' l' (us @ (a, s) # (tm_free m, tag) # vs) \<and> tm_tags m' = acquired tag (tm_tags m) \<and> node_frame m ps m' \<and>
    tm_free m' = tm_free m + 1 \<and> (\<forall>x>tm_free m. tm_nodes m' x = None) \<and> tl_refcount l' = tl_refcount l"
proof -
  have valid: "lcfgtag_is_valid (Some t)" using assms(1,3) tag_ok_valid by (auto simp: mem_ok_def)
  have d: "dll (tm_nodes m) None ps None" "distinct (map fst ps)" using assms(2) by (simp_all add: chain_in_def)
  have below: "x < tm_free m \<and> (\<exists>n. tm_nodes m x = Some n)" if "x \<in> fst ` set ps" for x
    using chain_below [OF assms(1) d(1) that] by blast
  have above: "\<forall>x>tm_free m. tm_nodes m x = None" using assms(1) by (auto simp: mem_ok_def)
  have tags: "(tm_tags m)(tag \<mapsto> t\<lparr>tag_refcount := tag_refcount t + 1\<rparr>) = acquired tag (tm_tags m)"
    using assms(3) by (simp add: acquired_def)
  define f where "f = tm_free m"
  have fresh: "f \<notin> fst ` set ps" using below by (force simp: f_def)
  define n where "n = \<lparr>tn_tag = s, tn_prev = last_of None us, tn_next = first_of None vs\<rparr>"
  have n: "tm_nodes m a = Some n" "a < f" using d(1) assms(4) below [of a] by (auto simp: dll_append n_def f_def)
  note simps = lcfgtaglist_insert_next_def lcfgtagnode_new_def lcfgtag_acquire_def change_node_def lcfgtaglist_is_empty_def
  let ?new = "\<lparr>tn_tag = tag, tn_prev = Some a, tn_next = first_of None vs\<rparr>"
  show ?thesis
  proof (cases vs)
    case Nil
    let ?ns = "(tm_nodes m)(f \<mapsto> ?new, a \<mapsto> n\<lparr>tn_next := Some f\<rparr>)"
    let ?m = "m\<lparr>tm_nodes := ?ns, tm_free := f + 1, tm_tags := acquired tag (tm_tags m)\<rparr>"
    have run: "lcfgtaglist_insert_next m l (Some a) (Some tag) =
        Some (LCFG_CHANGE_ADDED, l\<lparr>tl_tail := Some f, tl_size := tl_size l + 1\<rparr>, ?m)"
      using assms(3) valid n Nil tags by (simp add: simps n_def flip: f_def)
    have "dll ?ns None (us @ (a, s) # (f, tag) # vs) None"
      by (rule dll_insert_after [OF d [unfolded assms(4)]]) (use Nil n d(2) fresh assms(4) in auto)
    with run assms(2,4) d fresh Nil above n(2) show ?thesis by (auto simp: chain_in_def node_frame_def f_def)
  next
    case (Cons x ws)
    obtain b u where x: "x = (b, u)" by force
    obtain k where k: "tm_nodes m b = Some k" and b: "b < f" using below [of b] assms(4) Cons x by (auto simp: f_def)
    have ab: "a \<noteq> b" using d(2) assms(4) Cons x by auto
    let ?ns = "(tm_nodes m)(f \<mapsto> ?new, b \<mapsto> k\<lparr>tn_prev := Some f\<rparr>, a \<mapsto> n\<lparr>tn_next := Some f\<rparr>)"
    let ?m = "m\<lparr>tm_nodes := ?ns, tm_free := f + 1, tm_tags := acquired tag (tm_tags m)\<rparr>"
    have run: "lcfgtaglist_insert_next m l (Some a) (Some tag) =
        Some (LCFG_CHANGE_ADDED, l\<lparr>tl_size := tl_size l + 1\<rparr>, ?m)"
      using assms(3) valid n k b ab Cons x tags by (simp add: simps n_def flip: f_def)
    have "dll ?ns None (us @ (a, s) # (f, tag) # vs) None"
      by (rule dll_insert_after [OF d [unfolded assms(4)]]) (use Cons x n k b ab d(2) fresh assms(4) in auto)
    with run assms(2,4) d fresh Cons x above n(2) b ab show ?thesis by (auto simp: chain_in_def node_frame_def f_def)
  qed
qed

lemma fst_in: "(x, b) \<in> set ys \<Longrightarrow> x \<in> fst ` set ys"
  by force

text \<open>Removing a node gives its tag and takes the node out of the chain and of the memory.\<close>

lemma remove_tag:
  assumes "mem_ok m" and "chain_in m l ps" and "ps = us @ (a, s) # vs" and "node = Some a \<or> node = None \<and> us = []"
  shows "\<exists>l' m'. lcfgtaglist_remove_tag m l node = Some (LCFG_CHANGE_REMOVED, l', Some s, m') \<and>
    chain_in m' l' (us @ vs) \<and> tm_tags m' = tm_tags m \<and> node_frame m ps m' \<and> tm_free m' = tm_free m \<and>
    tm_nodes m' a = None \<and> (\<forall>x\<ge>tm_free m. tm_nodes m' x = None) \<and> tl_refcount l' = tl_refcount l"
proof -
  have d: "dll (tm_nodes m) None ps None" "distinct (map fst ps)" using assms(2) by (simp_all add: chain_in_def)
  have below: "x < tm_free m \<and> (\<exists>n. tm_nodes m x = Some n)" if "x \<in> fst ` set ps" for x
    using chain_below [OF assms(1) d(1) that] by blast
  have above: "\<forall>x\<ge>tm_free m. tm_nodes m x = None" using assms(1) by (auto simp: mem_ok_def)
  define n where "n = \<lparr>tn_tag = s, tn_prev = last_of None us, tn_next = first_of None vs\<rparr>"
  have n: "tm_nodes m a = Some n" using d(1) assms(3) by (auto simp: dll_append n_def)
  have size: "tl_size l = length ps" "tl_head l = first_of None ps" "tl_tail l = last_of None ps"
    using assms(2) by (simp_all add: chain_in_def)
  have at: "lcfgtaglist_remove_tag m l node = lcfgtaglist_remove_tag m l (Some a)"
    using assms(3,4) size(2) by (auto simp: lcfgtaglist_remove_tag_def)
  note simps = lcfgtaglist_remove_tag_def lcfgtagnode_destroy_def change_node_def lcfgtaglist_is_empty_def
  define before where "before = (case us of [] \<Rightarrow> None | _ \<Rightarrow> Some (fst (last us)))"
  have before: "last_of None us = before" by (cases us) (simp_all add: before_def last_of_def)
  have head: "Some a = tl_head l \<longleftrightarrow> us = []" using d(2) assms(3) size(2) by (cases us) (auto simp: first_of_def)
  let ?g = "\<lambda>ns. case before of None \<Rightarrow> ns | Some p \<Rightarrow> ns(p := map_option (\<lambda>n. n\<lparr>tn_next := first_of None vs\<rparr>) (ns p))"
  let ?h = "\<lambda>ns. case first_of None vs of None \<Rightarrow> ns | Some b \<Rightarrow> ns(b := map_option (\<lambda>n. n\<lparr>tn_prev := before\<rparr>) (ns b))"
  define ns' where "ns' = (?h (?g (tm_nodes m)))(a := None)"
  let ?m = "m\<lparr>tm_nodes := ns'\<rparr>"
  let ?l = "l\<lparr>tl_head := first_of None (us @ vs), tl_tail := last_of None (us @ vs), tl_size := tl_size l - 1\<rparr>"
  have run: "lcfgtaglist_remove_tag m l (Some a) = Some (LCFG_CHANGE_REMOVED, ?l, Some s, ?m)"
  proof (cases us rule: rev_cases)
    case Nil
    then show ?thesis
    proof (cases vs)
      case (Cons x ws)
      obtain b u where "x = (b, u)" by force
      with Nil Cons n head size assms(3) below [of b] show ?thesis
        by (auto simp: simps n_def before_def ns'_def last_of_def)
    qed (use Nil n head size assms(3) in \<open>simp add: simps n_def before_def ns'_def\<close>)
  next
    case (snoc ws y)
    obtain p w where y: "y = (p, w)" by force
    obtain k where k: "tm_nodes m p = Some k" using below [of p] assms(3) snoc y by auto
    have "before = Some p" using before snoc y by simp
    with snoc y k show ?thesis
    proof (cases vs)
      case (Cons x zs)
      obtain b u where x: "x = (b, u)" by force
      obtain j where j: "tm_nodes m b = Some j" using below [of b] assms(3) Cons x by auto
      have "p \<noteq> b" using d(2) assms(3) snoc y Cons x by auto
      have "first_of None (us @ vs) = tl_head l" "last_of None (us @ vs) = tl_tail l"
        using snoc y x Cons size assms(3) by (cases ws; force)+
      then have "?l = l\<lparr>tl_size := tl_size l - 1\<rparr>" by (cases l) simp
      with snoc y x k j Cons n head size assms(3) \<open>before = Some p\<close> \<open>p \<noteq> b\<close> show ?thesis
        by (simp add: simps n_def ns'_def)
    next
      case Nil
      have "first_of None (us @ vs) = tl_head l" using snoc y size assms(3) by (cases ws; force)
      then have "?l = l\<lparr>tl_tail := Some p, tl_size := tl_size l - 1\<rparr>" using snoc y Nil by (cases l) simp
      with snoc y k Nil n head size assms(3) \<open>before = Some p\<close> show ?thesis by (simp add: simps n_def ns'_def)
    qed
  qed
  have "dll ns' None (us @ vs) None"
  proof (rule dll_remove [OF d [unfolded assms(3)]])
    show "ns' b = map_option (\<lambda>n. n\<lparr>tn_next := first_of None vs\<rparr>) (tm_nodes m b)" if "us = ws @ [(b, u)]" for ws b u
      using that before d(2) assms(3) by (cases vs) (auto simp: ns'_def)
    show "ns' b = map_option (\<lambda>n. n\<lparr>tn_prev := last_of None us\<rparr>) (tm_nodes m b)" if "vs = (b, u) # ws" for b u ws
      using that before d(2) assms(3) by (cases us rule: rev_cases) (auto simp: ns'_def)
    show "ns' x = tm_nodes m x" if "x \<in> fst ` set (butlast us) \<union> fst ` set (tl vs)" for x
      using that before d(2) assms(3) by (cases us rule: rev_cases; cases vs) (auto simp: ns'_def, (blast dest: fst_in)+)
  qed
  moreover have "\<forall>x. x \<notin> fst ` set ps \<longrightarrow> ns' x = tm_nodes m x"
    using assms(3) before by (cases us rule: rev_cases; cases vs) (auto simp: ns'_def)
  moreover from this have "\<forall>x\<ge>tm_free m. ns' x = None" using above below by (metis less_le_not_le)
  moreover have "ns' a = None" by (simp add: ns'_def)
  ultimately show ?thesis using run at d(2) assms(3) size by (auto simp: chain_in_def node_frame_def)
qed


section \<open>References\<close>

text \<open>
  A step from one state of the memory with a list to another: the list and the memory stay
  sound, the nodes outside the chain are not touched and those that left it are freed, every
  reference that was taken or given back belongs to the chain, and no live tag is renamed.
\<close>

definition tag_step :: "tag_mem \<Rightarrow> (nat \<times> nat) list \<Rightarrow> tag_mem \<Rightarrow> (nat \<times> nat) list \<Rightarrow> bool" where
  "tag_step m ps m' ps' \<longleftrightarrow> mem_ok m' \<and> tm_free m \<le> tm_free m' \<and>
     (\<forall>a\<in>fst ` set ps'. a \<in> fst ` set ps \<or> tm_free m \<le> a) \<and>
     (\<forall>a. a \<notin> fst ` set ps' \<longrightarrow>
        tm_nodes m' a = (if a \<in> fst ` set ps \<or> tm_free m \<le> a then None else tm_nodes m a)) \<and>
     (\<forall>a. tag_refs m' a + count (held ps) a = tag_refs m a + count (held ps') a) \<and>
     (\<forall>a<tm_free m. 0 < tag_refs m' a \<longrightarrow> 0 < tag_refs m a \<and> tag_text m' a = tag_text m a)"

lemma count_sum: "a2 + h1 = a1 + h2 \<Longrightarrow> a1 + h0 = a0 + h1 \<Longrightarrow> a2 + h0 = a0 + (h2 :: nat)"
  by linarith

lemma tag_step_trans:
  assumes "tag_step m ps m1 ps1" and "tag_step m1 ps1 m2 ps2"
  shows "tag_step m ps m2 ps2"
proof -
  have "tag_refs m2 a + count (held ps) a = tag_refs m a + count (held ps2) a" for a
    by (rule count_sum [of "tag_refs m2 a" "count (held ps1) a" "tag_refs m1 a"]) (use assms in \<open>auto simp: tag_step_def\<close>)
  moreover have "0 < tag_refs m a \<and> tag_text m2 a = tag_text m a" if "a < tm_free m" "0 < tag_refs m2 a" for a
    using assms that by (auto simp: tag_step_def)
  moreover have "tm_nodes m2 a = (if a \<in> fst ` set ps \<or> tm_free m \<le> a then None else tm_nodes m a)"
    if "a \<notin> fst ` set ps2" for a
  proof (cases "a \<in> fst ` set ps1")
    case True
    with assms(1,2) that show ?thesis by (auto simp: tag_step_def)
  next
    case False
    with assms(1,2) that show ?thesis by (simp add: tag_step_def)
  qed
  ultimately show ?thesis using assms(1,2) unfolding tag_step_def by (meson le_trans)
qed


lemma refs_acquired [simp]:
  "tm_tags m' = acquired a (tm_tags m) \<Longrightarrow> tm_tags m a = Some t \<Longrightarrow>
     tag_refs m' b = (if b = a then tag_refs m b + 1 else tag_refs m b)"
  by (simp add: tag_refs_def acquired_def)

lemma text_acquired: "tm_tags m' = acquired a (tm_tags m) \<Longrightarrow> tag_text m' b = tag_text m b"
  by (cases "tm_tags m a") (auto simp: tag_text_def acquired_def)

lemma mem_ok_acquired:
  assumes "mem_ok m" and "tm_tags m' = acquired a (tm_tags m)" and "tm_tags m a = Some t"
    and "tm_free m \<le> tm_free m'" and "\<forall>a\<ge>tm_free m'. tm_nodes m' a = None"
  shows "mem_ok m'"
proof -
  have "a < tm_free m" using assms(1,3) by (metis mem_ok_def not_le option.distinct(1))
  with assms show ?thesis by (auto simp: mem_ok_def acquired_def tag_ok_def split: if_splits)
qed

lemma lcfgtag_acquire_result:
  "tm_tags m a = Some t \<Longrightarrow> lcfgtag_acquire m a = Some (m\<lparr>tm_tags := acquired a (tm_tags m)\<rparr>)"
  by (simp add: lcfgtag_acquire_def acquired_def)

lemma lcfgtag_relinquish_result:
  assumes "mem_ok m" and "0 < tag_refs m a"
  shows "\<exists>m'. lcfgtag_relinquish m (Some a) = Some m' \<and> mem_ok m' \<and> tm_nodes m' = tm_nodes m \<and> tm_free m' = tm_free m \<and>
    (\<forall>b. tag_refs m' b = (if b = a then tag_refs m b - 1 else tag_refs m b)) \<and>
    (\<forall>b. 0 < tag_refs m' b \<longrightarrow> tag_text m' b = tag_text m b)"
proof -
  obtain t where t: "tm_tags m a = Some t" using tag_refs_live [OF assms(2)] by blast
  then have pos: "0 < tag_refcount t" using assms(2) by (simp add: tag_refs_def)
  have below: "a < tm_free m" using assms(1) t by (metis mem_ok_def not_le option.distinct(1))
  show ?thesis
  proof (cases "tag_refcount t = 1")
    case True
    with t pos assms(1) show ?thesis
      by (auto simp: lcfgtag_relinquish_def lcfgtag_destroy_def mem_ok_def tag_refs_def tag_text_def)
  next
    case False
    with pos have "1 < tag_refcount t" by simp
    with t assms(1) below show ?thesis
      by (auto simp: lcfgtag_relinquish_def mem_ok_def tag_refs_def tag_text_def tag_ok_def)
  qed
qed

lemma held_simps [simp]:
  "held [] = {#}" "held (x # ps) = add_mset (snd x) (held ps)" "held (ps @ qs) = held ps + held qs"
  by (simp_all add: held_def)

lemma held_live:
  assumes "taglist_in m l ps" and "(a, t) \<in> set ps"
  shows "0 < tag_refs m t"
proof -
  have "t \<in># held ps" using assms(2) by (force simp: held_def)
  then have "0 < count (held ps) t" by simp
  moreover have "count (held ps) t \<le> tag_refs m t" using assms(1) by (simp add: taglist_in_def)
  ultimately show ?thesis by linarith
qed


lemma insert_step:
  assumes "mem_ok m" and "taglist_in m l (us @ vs)" and "tm_tags m tag = Some t"
  shows "\<exists>l' m'. lcfgtaglist_insert_next m l (last_of None us) (Some tag) = Some (LCFG_CHANGE_ADDED, l', m') \<and>
    taglist_in m' l' (us @ (tm_free m, tag) # vs) \<and> tag_step m (us @ vs) m' (us @ (tm_free m, tag) # vs) \<and>
    (\<forall>a. tag_text m' a = tag_text m a) \<and> tl_refcount l' = tl_refcount l"
proof -
  let ?qs = "us @ (tm_free m, tag) # vs"
  have c: "chain_in m l (us @ vs)" using assms(2) by (simp add: taglist_in_def)
  obtain l' m' where r: "lcfgtaglist_insert_next m l (last_of None us) (Some tag) = Some (LCFG_CHANGE_ADDED, l', m')"
    "chain_in m' l' ?qs" "tm_tags m' = acquired tag (tm_tags m)" "node_frame m (us @ vs) m'"
    "tm_free m' = tm_free m + 1" "\<forall>a>tm_free m. tm_nodes m' a = None" "tl_refcount l' = tl_refcount l"
  proof (cases us rule: rev_cases)
    case Nil
    with insert_head [OF assms(1) c assms(3)] that show ?thesis by auto
  next
    case (snoc ws x)
    obtain a s where x: "x = (a, s)" by force
    with insert_after [OF assms(1) c assms(3), of ws a s vs] snoc that show ?thesis by auto
  qed
  have ok: "mem_ok m'" by (rule mem_ok_acquired [OF assms(1) r(3) assms(3)]) (use r(5,6) in auto)
  note refs = refs_acquired [OF r(3) assms(3)] and text_same = text_acquired [OF r(3)]
  have live: "0 < tag_refs m tag" using assms(1,3) by (auto simp: tag_refs_def mem_ok_def tag_ok_def)
  have count: "count (held (us @ vs)) a \<le> tag_refs m a" for a using assms(2) by (auto simp: taglist_in_def)
  have "count (held ?qs) a \<le> tag_refs m' a" for a using refs [of a] count [of a] by auto
  then have "taglist_in m' l' ?qs" using r(2) by (simp add: taglist_in_def)
  moreover have "tag_step m (us @ vs) m' ?qs"
    using ok r(2,4,5,6) refs live text_same chain_below [OF assms(1)] c
    by (auto simp: tag_step_def node_frame_def chain_in_def le_less split: if_splits)
  ultimately show ?thesis using r(1,7) text_same by blast
qed


text \<open>A list whose nodes are not in the chain of another list is left as it is.\<close>

lemma other_chain:
  assumes "tag_step m ps m' ps'" and "mem_ok m" and "chain_in m l qs" and "fst ` set qs \<inter> fst ` set ps = {}"
  shows "chain_in m' l qs" and "fst ` set qs \<inter> fst ` set ps' = {}"
proof -
  have below: "a < tm_free m" if "a \<in> fst ` set qs" for a
    using chain_below [OF assms(2) _ that] assms(3) by (auto simp: chain_in_def)
  then show disj: "fst ` set qs \<inter> fst ` set ps' = {}"
    using assms(1,4) unfolding tag_step_def by (metis disjoint_iff not_le)
  have "dll (tm_nodes m') None qs None"
  proof (rule dll_frame)
    show "tm_nodes m' a = tm_nodes m a" if "a \<in> fst ` set qs" for a
      using assms(1,4) that below [OF that] disj unfolding tag_step_def by (metis disjoint_iff not_le)
  qed (use assms(3) in \<open>simp add: chain_in_def\<close>)
  with assms(3) show "chain_in m' l qs" by (simp add: chain_in_def)
qed

lemma names_step:
  assumes "tag_step m ps m' ps'" and "\<And>t. t \<in># held qs \<Longrightarrow> t < tm_free m \<and> 0 < tag_refs m' t"
  shows "names_in m' qs = names_in m qs"
  using assms by (auto simp: names_in_def held_def tag_step_def)

lemma live_below: "mem_ok m \<Longrightarrow> 0 < tag_refs m a \<Longrightarrow> a < tm_free m"
  by (metis mem_ok_def not_le option.distinct(1) tag_refs_live)

text \<open>A tag made from a string, and its insertion.\<close>

lemma or_default_Some [simp]: "or_default (Some s) [] = s"
  by (simp add: or_default_empty)

lemma tag_from_string:
  assumes "lcfgresource_valid_tag (Some (skip_space s))"
  shows "\<exists>t. lcfgtag_from_string (Some s) = Inr t \<and> tag_ok t \<and> tag_refcount t = 1 \<and> tag_name t = Some (skip_space s)"
proof -
  have ne: "skip_space s \<noteq> []" using assms by (simp add: lcfgresource_valid_tag_def)
  then have "s \<noteq> []" by auto
  with assms ne show ?thesis
    by (simp add: lcfgtag_from_string_def lcfgtag_set_name_def lcfgtag_new_def tag_ok_def Let_def)
qed

lemma tag_from_string_invalid:
  assumes "\<not> lcfgresource_valid_tag (Some (skip_space s))"
  shows "\<exists>e. lcfgtag_from_string (Some s) = Inl e"
proof (cases "skip_space s = []")
  case True
  then show ?thesis by (simp add: lcfgtag_from_string_def)
next
  case False
  then have "s \<noteq> []" by auto
  with assms False show ?thesis by (simp add: lcfgtag_from_string_def lcfgtag_set_name_def)
qed

lemma mutate_insert_step:
  assumes "mem_ok m" and "taglist_in m l (us @ vs)" and "lcfgresource_valid_tag (Some (skip_space s))"
    and "\<And>m tag. insert_tag m l tag = lcfgtaglist_insert_next m l (last_of None us) tag"
  shows "\<exists>l' m' node tag. mutate_insert insert_tag m l (Some s) msg = Some (LCFG_CHANGE_ADDED, l', msg, m') \<and>
    taglist_in m' l' (us @ (node, tag) # vs) \<and> tag_step m (us @ vs) m' (us @ (node, tag) # vs) \<and>
    names_in m' (us @ (node, tag) # vs) = names_in m us @ skip_space s # names_in m vs \<and> tl_refcount l' = tl_refcount l"
proof -
  let ?new = "tm_free m" and ?ps = "us @ vs"
  obtain t where t: "lcfgtag_from_string (Some s) = Inr t" "tag_ok t" "tag_refcount t = 1" "tag_name t = Some (skip_space s)"
    using tag_from_string [OF assms(3)] by blast
  let ?m1 = "m\<lparr>tm_tags := (tm_tags m)(?new \<mapsto> t), tm_free := ?new + 1\<rparr>"
  have none: "tm_tags m ?new = None" "tag_refs m ?new = 0" using assms(1) by (simp_all add: mem_ok_def tag_refs_def)
  have m1: "mem_ok ?m1" using assms(1) t(2) by (auto simp: mem_ok_def)
  have refs1: "tag_refs ?m1 a = (if a = ?new then 1 else tag_refs m a)" for a using t(3) by (simp add: tag_refs_def)
  have text1: "tag_text ?m1 a = (if a = ?new then skip_space s else tag_text m a)" for a
    using t(4) by (auto simp: tag_text_def)
  have count: "count (held ?ps) a \<le> tag_refs m a" for a using assms(2) by (simp add: taglist_in_def)
  then have none_held: "count (held ?ps) ?new = 0" using none by (metis le_0_eq)
  have "taglist_in ?m1 l ?ps" using assms(2) refs1 none(2) none_held by (auto simp: taglist_in_def chain_in_def)
  then obtain l' m2 where r: "lcfgtaglist_insert_next ?m1 l (last_of None us) (Some ?new) = Some (LCFG_CHANGE_ADDED, l', m2)"
    "taglist_in m2 l' (us @ (?new + 1, ?new) # vs)" "tag_step ?m1 ?ps m2 (us @ (?new + 1, ?new) # vs)"
    "\<And>a. tag_text m2 a = tag_text ?m1 a" "tl_refcount l' = tl_refcount l"
    using insert_step [OF m1, of l us vs ?new t] by auto
  let ?qs = "us @ (?new + 1, ?new) # vs"
  have refs2: "tag_refs m2 a + count (held ?ps) a = tag_refs ?m1 a + count (held ?qs) a" for a
    using r(3) by (simp add: tag_step_def)
  have two: "tag_refs m2 ?new = 2" using refs2 [of ?new] refs1 none_held by simp
  have ok2: "mem_ok m2" using r(3) by (simp add: tag_step_def)
  obtain m3 where q: "lcfgtag_relinquish m2 (Some ?new) = Some m3" "mem_ok m3" "tm_nodes m3 = tm_nodes m2" "tm_free m3 = tm_free m2"
    "\<And>b. tag_refs m3 b = (if b = ?new then tag_refs m2 b - 1 else tag_refs m2 b)"
    "\<And>b. 0 < tag_refs m3 b \<Longrightarrow> tag_text m3 b = tag_text m2 b"
    using lcfgtag_relinquish_result [OF ok2, of ?new] two by auto
  have refs3: "tag_refs m3 a + count (held ?ps) a = tag_refs m a + count (held ?qs) a" for a
    using refs2 [of a] q(5) [of a] refs1 [of a] none two none_held by (auto split: if_splits)
  have run: "mutate_insert insert_tag m l (Some s) msg = Some (LCFG_CHANGE_ADDED, l', msg, m3)"
    using t(1) r(1) q(1) by (simp add: mutate_insert_def alloc_tag_def assms(4))
  have le3: "count (held ?qs) a \<le> tag_refs m3 a" for a using refs3 [of a] count [of a] by linarith
  have live3: "0 < tag_refs m3 a" if "a \<in># held ?qs" for a
  proof -
    have "0 < count (held ?qs) a" using that by (simp only: count_greater_zero_iff)
    with le3 [of a] show ?thesis by linarith
  qed
  have list3: "taglist_in m3 l' ?qs" using r(2) q(3) le3 by (simp add: taglist_in_def chain_in_def)
  have nodes3: "tm_nodes m3 a = (if a \<in> fst ` set ?ps \<or> ?new \<le> a then None else tm_nodes m a)" if "a \<notin> fst ` set ?qs" for a
  proof -
    have "tm_nodes m2 a = (if a \<in> fst ` set ?ps \<or> ?new + 1 \<le> a then None else tm_nodes m a)"
      using r(3) that by (simp add: tag_step_def)
    moreover have "tm_nodes m ?new = None" using assms(1) by (simp add: mem_ok_def)
    ultimately show ?thesis using q(3) by (cases "a = ?new") auto
  qed
  have text3: "0 < tag_refs m a \<and> tag_text m3 a = tag_text m a" if "a < ?new" "0 < tag_refs m3 a" for a
  proof -
    have "0 < tag_refs m2 a" using that(2) q(5) [of a] by (simp split: if_splits)
    then have "0 < tag_refs ?m1 a" using r(3) that(1) by (simp add: tag_step_def)
    with that q(6) [of a] r(4) [of a] refs1 [of a] text1 [of a] show ?thesis by simp
  qed
  have "?new \<le> tm_free m3" "\<forall>a\<in>fst ` set ?qs. a \<in> fst ` set ?ps \<or> ?new \<le> a" using r(3) q(4) by (auto simp: tag_step_def)
  with q(2) nodes3 text3 refs3 have step: "tag_step m ?ps m3 ?qs" unfolding tag_step_def by blast
  have "names_in m3 ?qs = names_in m us @ skip_space s # names_in m vs"
  proof -
    have other: "tag_text m3 (snd x) = tag_text m (snd x)" if "x \<in> set ?ps" for x
    proof -
      have in_held: "snd x \<in># held ?ps" using that by (auto simp: held_def)
      then have "snd x \<noteq> ?new" using none_held by (metis count_eq_zero_iff)
      moreover have "0 < tag_refs m3 (snd x)" by (rule live3) (use in_held in auto)
      ultimately show ?thesis using q(6) r(4) text1 by simp
    qed
    have "tag_text m3 ?new = skip_space s" using q(6) r(4) text1 live3 [of ?new] by simp
    with other show ?thesis by (auto simp: names_in_def)
  qed
  with run list3 step r(5) show ?thesis by blast
qed

end
