(* ===== verification/Lcfg_Tag_List.thy ===== *)
theory Lcfg_Tag_List
  imports Lcfg_Tag
begin

text \<open>
  What the operations on tag lists do: the loops over the nodes (searches, sets, strings,
  sorting, replacement, destruction) on a chain of nodes, and the properties of tag lists.
\<close>

section \<open>Loops\<close>

lemma for_nodes_None [simp]: "for_nodes body None s m = Some (s, m)"
  by (simp add: for_nodes.simps)

lemma for_nodes_Some:
  "for_nodes body (Some a) s m = do {
     (s', m', continue) \<leftarrow> body a s m;
     if continue then do {n \<leftarrow> tm_nodes m' a; for_nodes body (tn_next n) s' m'} else Some (s', m')
   }"
  by (subst for_nodes.simps) simp

text \<open>A loop that only reads: one step over the first entry of the chain.\<close>

lemma for_nodes_step:
  assumes "dll (tm_nodes m') p ((a, t) # ps) q" and "body a s m = Some (s', m', True)"
  shows "for_nodes body (Some a) s m = for_nodes body (first_of q ps) s' m'"
  using assms by (simp add: for_nodes_Some)

lemma node_tag_live:
  assumes "tm_nodes m a = Some n" and "0 < tag_refs m (tn_tag n)"
  shows "\<exists>t. node_tag m a = Some (tn_tag n, t) \<and> tm_tags m (tn_tag n) = Some t"
  using assms tag_refs_live [of m "tn_tag n"] by (auto simp: node_tag_def)

text \<open>The live tags of a chain.\<close>

definition live_chain :: "tag_mem \<Rightarrow> (nat \<times> nat) list \<Rightarrow> bool" where
  "live_chain m ps \<longleftrightarrow> (\<forall>t\<in>snd ` set ps. 0 < tag_refs m t)"

lemma taglist_live: "taglist_in m l ps \<Longrightarrow> live_chain m ps"
  using held_live by (fastforce simp: live_chain_def)

lemma live_node:
  assumes "mem_ok m" and "dll (tm_nodes m) p ((a, t) # ps) q" and "live_chain m ((a, t) # ps)"
  shows "\<exists>x. node_tag m a = Some (t, x) \<and> tag_ok x \<and> tag_name x = Some (tag_text m t)"
proof -
  obtain x where x: "tm_tags m t = Some x" using assms(3) tag_refs_live [of m t] by (auto simp: live_chain_def)
  moreover have "tag_ok x" using assms(1) x by (auto simp: mem_ok_def)
  moreover from this obtain s where "tag_name x = Some s"
    by (auto simp: tag_ok_def lcfgresource_valid_tag_def elim: not_isemptyE)
  ultimately show ?thesis using assms(2) by (auto simp: node_tag_def tag_text_def)
qed

lemma match_text: "tag_ok x \<Longrightarrow> tag_name x = Some s \<Longrightarrow> lcfgtag_match x name \<longleftrightarrow> s = name"
  unfolding lcfgtag_match_def tag_ok_def by (metis or_default_Some order_refl take_all)

section \<open>Searches\<close>

definition match_step :: "string \<Rightarrow> nat \<Rightarrow> nat option \<Rightarrow> tag_mem \<Rightarrow> (nat option \<times> tag_mem \<times> bool) option" where
  "match_step want_name a result m = do {
     (_, t) \<leftarrow> node_tag m a;
     if lcfgtag_match t want_name then Some (Some a, m, False) else Some (result, m, True)
   }"

lemma find_loop:
  assumes "mem_ok m" and "dll (tm_nodes m) p ps None" and "live_chain m ps"
  shows "for_nodes (match_step name) (first_of None ps) None m =
    Some (map_option fst (find (\<lambda>x. tag_text m (snd x) = name) ps), m)"
  using assms(2,3)
proof (induction ps arbitrary: p)
  case (Cons x ps)
  obtain a t where x: "x = (a, t)" by force
  obtain u where u: "node_tag m a = Some (t, u)" "tag_ok u" "tag_name u = Some (tag_text m t)"
    using live_node [OF assms(1)] Cons.prems x by blast
  have rest: "dll (tm_nodes m) (Some a) ps None" "live_chain m ps" using Cons.prems x by (auto simp: live_chain_def)
  note match = match_text [OF u(2,3)]
  show ?case
  proof (cases "tag_text m t = name")
    case True
    with u match x show ?thesis by (simp add: for_nodes_Some match_step_def)
  next
    case False
    with u match have step: "match_step name a None m = Some (None, m, True)" by (simp add: match_step_def)
    from for_nodes_step [OF Cons.prems(1) [unfolded x], of "match_step name", OF step] Cons.IH [OF rest] False x show ?thesis by simp
  qed
qed simp

lemma find_node_result:
  assumes "mem_ok m" and "taglist_in m l ps"
  shows "lcfgtaglist_find_node m (Some l) name = Some (map_option fst (find (\<lambda>x. tag_text m (snd x) = name) ps))"
proof -
  have c: "chain_in m l ps" using assms(2) by (simp add: taglist_in_def)
  then have d: "dll (tm_nodes m) None ps None" and s: "tl_head l = first_of None ps" "tl_size l = length ps"
    by (simp_all add: chain_in_def)
  show ?thesis
    using find_loop [OF assms(1) d taglist_live [OF assms(2)], of name] s
    by (auto simp: lcfgtaglist_find_node_def lcfgtaglist_is_empty_def match_step_def [abs_def])
qed

lemma contains_result:
  assumes "mem_ok m" and "taglist_in m l ps"
  shows "lcfgtaglist_contains m (Some l) name = Some (name \<in> set (names_in m ps))"
proof -
  have "map_option fst (find (\<lambda>x. tag_text m (snd x) = name) ps) \<noteq> None \<longleftrightarrow> name \<in> set (names_in m ps)"
    by (simp add: find_None_iff names_in_def image_iff del: not_None_eq) force
  then show ?thesis by (simp add: lcfgtaglist_contains_def find_node_result [OF assms] del: not_None_eq)
qed


section \<open>Copies and sets\<close>

text \<open>A step that only adds: no reference is given back and no tag is renamed.\<close>

definition tag_grow :: "tag_mem \<Rightarrow> (nat \<times> nat) list \<Rightarrow> tag_mem \<Rightarrow> (nat \<times> nat) list \<Rightarrow> bool" where
  "tag_grow m ps m' ps' \<longleftrightarrow> tag_step m ps m' ps' \<and> (\<forall>a. tag_refs m a \<le> tag_refs m' a) \<and> (\<forall>a. tag_text m' a = tag_text m a)"

lemma tag_step_refl: "mem_ok m \<Longrightarrow> tag_step m ps m ps"
  by (auto simp: tag_step_def mem_ok_def)

lemma tag_grow_refl: "mem_ok m \<Longrightarrow> tag_grow m ps m ps"
  by (simp add: tag_grow_def tag_step_refl)

lemma tag_grow_trans: "tag_grow m ps m1 ps1 \<Longrightarrow> tag_grow m1 ps1 m2 ps2 \<Longrightarrow> tag_grow m ps m2 ps2"
  using tag_step_trans le_trans unfolding tag_grow_def by metis

lemma append_grow:
  assumes "mem_ok m" and "taglist_in m l ps" and "tm_tags m tag = Some t"
  shows "\<exists>l' m'. lcfgtaglist_append_tag m l (Some tag) = Some (LCFG_CHANGE_ADDED, l', m') \<and>
    taglist_in m' l' (ps @ [(tm_free m, tag)]) \<and> tag_grow m ps m' (ps @ [(tm_free m, tag)]) \<and> tl_refcount l' = tl_refcount l"
proof -
  have tail: "tl_tail l = last_of None ps" using assms(2) by (simp add: taglist_in_def chain_in_def)
  obtain l' m' where r: "lcfgtaglist_append_tag m l (Some tag) = Some (LCFG_CHANGE_ADDED, l', m')"
    "taglist_in m' l' (ps @ [(tm_free m, tag)])" "tag_step m ps m' (ps @ [(tm_free m, tag)])"
    "\<And>a. tag_text m' a = tag_text m a" "tl_refcount l' = tl_refcount l"
    using insert_step [OF assms(1), of l ps "[]" tag t] assms(2,3) by (auto simp: lcfgtaglist_append_tag_def tail)
  have "tag_refs m a \<le> tag_refs m' a" for a
  proof -
    have "tag_refs m' a + count (held ps) a = tag_refs m a + count (held (ps @ [(tm_free m, tag)])) a"
      using r(3) by (simp add: tag_step_def)
    then show ?thesis by (auto split: if_splits)
  qed
  with r show ?thesis by (auto simp: tag_grow_def)
qed

text \<open>A list apart from the one that grows stays the same list with the same names.\<close>

lemma other_list:
  assumes "tag_grow m ps m' ps'" and "mem_ok m" and "taglist_in m l qs" and "fst ` set qs \<inter> fst ` set ps = {}"
  shows "taglist_in m' l qs" and "fst ` set qs \<inter> fst ` set ps' = {}" and "names_in m' qs = names_in m qs"
proof -
  have step: "tag_step m ps m' ps'" and refs: "\<And>a. tag_refs m a \<le> tag_refs m' a" and same: "\<And>a. tag_text m' a = tag_text m a"
    using assms(1) by (auto simp: tag_grow_def)
  have c: "chain_in m l qs" "\<And>a. count (held qs) a \<le> tag_refs m a" using assms(3) by (auto simp: taglist_in_def)
  show "taglist_in m' l qs" "fst ` set qs \<inter> fst ` set ps' = {}"
    using other_chain [OF step assms(2) c(1) assms(4)] le_trans [OF c(2) refs] by (auto simp: taglist_in_def)
  show "names_in m' qs = names_in m qs" using same by (simp add: names_in_def)
qed

text \<open>The loop of the copies and set operations, and what it collects.\<close>

fun collect_names :: "(string \<Rightarrow> string list \<Rightarrow> bool) \<Rightarrow> string list \<Rightarrow> string list \<Rightarrow> string list" where
  "collect_names P [] rs = rs"
| "collect_names P (n # ns) rs = collect_names P ns (if P n rs then rs @ [n] else rs)"

definition collect_step ::
    "(tag_mem \<Rightarrow> LCFGTagList \<Rightarrow> string \<Rightarrow> bool option) \<Rightarrow> nat \<Rightarrow> LCFGChange \<times> LCFGTagList \<Rightarrow> tag_mem \<Rightarrow>
     ((LCFGChange \<times> LCFGTagList) \<times> tag_mem \<times> bool) option" where
  "collect_step wanted a = (\<lambda>(change, result) m. do {
     (tag, t) \<leftarrow> node_tag m a;
     ok \<leftarrow> (if lcfgtag_is_valid (Some t) then wanted m result (or_default (lcfgtag_get_name t) []) else Some False);
     if ok then do {
       (change', result', m') \<leftarrow> lcfgtaglist_append_tag m result (Some tag);
       Some ((change', result'), m', change' \<noteq> LCFG_CHANGE_ERROR)
     }
     else Some ((change, result), m, True)
   })"

text \<open>The test depends on the names only, under an invariant that survives additions.\<close>

definition tests_names ::
    "(tag_mem \<Rightarrow> (nat \<times> nat) list \<Rightarrow> bool) \<Rightarrow> (tag_mem \<Rightarrow> LCFGTagList \<Rightarrow> string \<Rightarrow> bool option) \<Rightarrow>
     (string \<Rightarrow> string list \<Rightarrow> bool) \<Rightarrow> bool" where
  "tests_names I wanted P \<longleftrightarrow>
     (\<forall>m result rs name. mem_ok m \<longrightarrow> taglist_in m result rs \<longrightarrow> I m rs \<longrightarrow>
        wanted m result name = Some (P name (names_in m rs))) \<and>
     (\<forall>m rs m' rs'. I m rs \<longrightarrow> mem_ok m \<longrightarrow> tag_grow m rs m' rs' \<longrightarrow> I m' rs')"

lemma collect_loop:
  assumes "tests_names I wanted P"
    and "mem_ok m" and "taglist_in m result rs" and "I m rs" and "change \<noteq> LCFG_CHANGE_ERROR"
    and "dll (tm_nodes m) p ps None" and "live_chain m ps" and "fst ` set ps \<inter> fst ` set rs = {}"
  shows "\<exists>change' result' m' rs'.
    for_nodes (collect_step wanted) (first_of None ps) (change, result) m = Some ((change', result'), m') \<and>
    change' \<noteq> LCFG_CHANGE_ERROR \<and> taglist_in m' result' rs' \<and> tag_grow m rs m' rs' \<and>
    names_in m' rs' = collect_names P (names_in m ps) (names_in m rs) \<and> tl_refcount result' = tl_refcount result"
  using assms(2-8)
proof (induction ps arbitrary: p m result rs change)
  case Nil
  then show ?case using tag_grow_refl by (fastforce simp: names_in_def)
next
  case (Cons x ps)
  obtain a t where x: "x = (a, t)" by force
  obtain u where u: "node_tag m a = Some (t, u)" "tag_ok u" "tag_name u = Some (tag_text m t)"
    using live_node [OF Cons.prems(1)] Cons.prems(5,6) x by blast
  have d: "dll (tm_nodes m) p ((a, t) # ps) None" using Cons.prems(5) x by simp
  have rest: "dll (tm_nodes m) (Some a) ps None" "live_chain m ps" "fst ` set ps \<inter> fst ` set rs = {}"
    using Cons.prems x by (auto simp: live_chain_def)
  have w: "wanted m result (tag_text m t) = Some (P (tag_text m t) (names_in m rs))"
    using assms(1) Cons.prems(1-3) by (simp add: tests_names_def)
  have valid: "lcfgtag_is_valid (Some u)" using u(2) by (rule tag_ok_valid)
  have names: "names_in m ((a, t) # ps) = tag_text m t # names_in m ps" by (simp add: names_in_def)
  show ?case
  proof (cases "P (tag_text m t) (names_in m rs)")
    case False
    with u w valid have step: "collect_step wanted a (change, result) m = Some ((change, result), m, True)"
      by (simp add: collect_step_def lcfgtag_get_name_def)
    from for_nodes_step [OF d, of "collect_step wanted", OF step] Cons.IH [OF Cons.prems(1-4) rest] False x names
    show ?thesis by simp
  next
    case True
    have tag: "tm_tags m t = Some u" using u(1) by (auto simp: node_tag_def split: bind_splits)
    obtain result1 m1 where r: "lcfgtaglist_append_tag m result (Some t) = Some (LCFG_CHANGE_ADDED, result1, m1)"
      "taglist_in m1 result1 (rs @ [(tm_free m, t)])" "tag_grow m rs m1 (rs @ [(tm_free m, t)])"
      "tl_refcount result1 = tl_refcount result"
      using append_grow [OF Cons.prems(1,2) tag] by blast
    let ?rs = "rs @ [(tm_free m, t)]"
    have ok1: "mem_ok m1" using r(3) by (simp add: tag_grow_def tag_step_def)
    have I1: "I m1 ?rs" using assms(1) Cons.prems(1,3) r(3) unfolding tests_names_def by blast
    from u w valid True r(1) have step: "collect_step wanted a (change, result) m = Some ((LCFG_CHANGE_ADDED, result1), m1, True)"
      by (simp add: collect_step_def lcfgtag_get_name_def)
    have below: "b < tm_free m \<and> b \<notin> fst ` set rs" if "b \<in> insert a (fst ` set ps)" for b
      using chain_below(1) [OF Cons.prems(1) d] that Cons.prems(7) x by auto
    have same_node: "tm_nodes m1 b = tm_nodes m b" if "b \<in> insert a (fst ` set ps)" for b
      using below [OF that] r(3) by (auto simp: tag_grow_def tag_step_def)
    have d1: "dll (tm_nodes m1) p ((a, t) # ps) None" by (rule dll_frame [OF _ d]) (use same_node in auto)
    have rest1: "dll (tm_nodes m1) (Some a) ps None" "live_chain m1 ps" "fst ` set ps \<inter> fst ` set ?rs = {}"
      using d1 rest(2) r(3) below by (auto simp: live_chain_def tag_grow_def intro: less_le_trans)
    have texts: "\<And>b. tag_text m1 b = tag_text m b" using r(3) by (simp add: tag_grow_def)
    have names1: "names_in m1 ps = names_in m ps" "names_in m1 ?rs = names_in m rs @ [tag_text m t]"
      using texts by (simp_all add: names_in_def)
    have added: "LCFG_CHANGE_ADDED \<noteq> LCFG_CHANGE_ERROR" by simp
    from Cons.IH [OF ok1 r(2) I1 added rest1] obtain change' result' m' rs' where
      "for_nodes (collect_step wanted) (first_of None ps) (LCFG_CHANGE_ADDED, result1) m1 = Some ((change', result'), m')"
      "change' \<noteq> LCFG_CHANGE_ERROR" "taglist_in m' result' rs'" "tag_grow m1 ?rs m' rs'"
      "names_in m' rs' = collect_names P (names_in m1 ps) (names_in m1 ?rs)" "tl_refcount result' = tl_refcount result1" by blast
    with for_nodes_step [OF d1, of "collect_step wanted", OF step] tag_grow_trans [OF r(3)] True x names names1 r(4)
    show ?thesis by auto
  qed
qed

lemma collect_result:
  assumes "tests_names I wanted P" and "mem_ok m" and "taglist_in m result rs" and "I m rs" and "taglist_in m l ps" and "fst ` set ps \<inter> fst ` set rs = {}"
  shows "\<exists>change' result' m' rs'. collect_tags wanted l result m = Some ((change', result'), m') \<and>
    change' \<noteq> LCFG_CHANGE_ERROR \<and> taglist_in m' result' rs' \<and> tag_grow m rs m' rs' \<and>
    names_in m' rs' = collect_names P (names_in m ps) (names_in m rs) \<and> tl_refcount result' = tl_refcount result"
proof -
  have d: "dll (tm_nodes m) None ps None" "tl_head l = first_of None ps"
    using assms(5) by (simp_all add: taglist_in_def chain_in_def)
  show ?thesis
    using collect_loop [OF assms(1-4) _ d(1) taglist_live [OF assms(5)] assms(6), of LCFG_CHANGE_NONE] d(2)
    by (simp add: collect_tags_def collect_step_def [abs_def])
qed


definition first_occurrences :: "string list \<Rightarrow> string list" where
  "first_occurrences ns = rev (remdups (rev ns))"

lemma remdups_skip: "x \<in> set ys \<Longrightarrow> remdups (xs @ x # ys) = remdups (xs @ ys)"
  by (induction xs) auto

lemma collect_all: "collect_names (\<lambda>_ _. True) ns rs = rs @ ns"
  by (induction ns arbitrary: rs) auto

lemma collect_first:
  "distinct rs \<Longrightarrow> collect_names (\<lambda>n rs. Q n \<and> n \<notin> set rs) ns rs = first_occurrences (rs @ filter Q ns)"
proof (induction ns arbitrary: rs)
  case (Cons n ns)
  then show ?case
    by (auto simp: first_occurrences_def remdups_skip)
qed (simp add: first_occurrences_def distinct_remdups_id)

lemma first_occurrences_twice: "first_occurrences (first_occurrences ns @ ms) = first_occurrences (ns @ ms)"
proof -
  have "remdups (xs @ remdups ys) = remdups (xs @ ys)" for xs ys :: "string list"
    by (metis remdups_append2)
  then show ?thesis by (simp add: first_occurrences_def)
qed

lemma distinct_first_occurrences: "distinct (first_occurrences ns)"
  by (simp add: first_occurrences_def)

lemma new_list: "taglist_in m lcfgtaglist_new []" "tl_refcount lcfgtaglist_new = 1"
  by (simp_all add: taglist_in_def chain_in_def lcfgtaglist_new_def)

lemma absent_result:
  "mem_ok m \<Longrightarrow> taglist_in m result rs \<Longrightarrow> absent m result name = Some (name \<notin> set (names_in m rs))"
  by (simp add: absent_def contains_result)

lemma absent_tests: "tests_names (\<lambda>_ _. True) absent (\<lambda>n rs. n \<notin> set rs)"
  by (simp add: tests_names_def absent_result)

lemma set_unique_result:
  assumes "mem_ok m" and "taglist_in m l ps"
  shows "\<exists>result m' rs. lcfgtaglist_set_unique m l = Some (Some result, m') \<and> taglist_in m' result rs \<and>
    tag_grow m [] m' rs \<and> names_in m' rs = first_occurrences (names_in m ps) \<and> tl_refcount result = 1"
proof -
  have keep: "collect_names (\<lambda>n rs. n \<notin> set rs) ns [] = first_occurrences ns" for ns
    using collect_first [of "[]" "\<lambda>_. True" ns] by simp
  from collect_result [OF absent_tests assms(1) new_list(1) _ assms(2)]
  obtain change result m' rs where r: "collect_tags absent l lcfgtaglist_new m = Some ((change, result), m')"
    "change \<noteq> LCFG_CHANGE_ERROR" "taglist_in m' result rs" "tag_grow m [] m' rs"
    "names_in m' rs = first_occurrences (names_in m ps)" "tl_refcount result = 1"
    by (auto simp: keep names_in_def new_list(2))
  then show ?thesis by (auto simp: lcfgtaglist_set_unique_def give_tags_def)
qed

text \<open>The loops of the set operations, with a second list that is read.\<close>

lemma both_result:
  assumes "\<And>m l ps name. mem_ok m \<Longrightarrow> taglist_in m l ps \<Longrightarrow> test m l name = Some (Q name (names_in m ps))"
    and "mem_ok m" and "taglist_in m l1 ps" and "taglist_in m l2 qs"
  shows "\<exists>result m' rs. (do {r \<leftarrow> collect_tags (both test l2) l1 lcfgtaglist_new m; give_tags r}) = Some (Some result, m') \<and>
    taglist_in m' result rs \<and> tag_grow m [] m' rs \<and>
    names_in m' rs = first_occurrences (filter (\<lambda>n. Q n (names_in m qs)) (names_in m ps)) \<and> tl_refcount result = 1"
proof -
  define I where "I = (\<lambda>m' (rs :: (nat \<times> nat) list). taglist_in m' l2 qs \<and> fst ` set qs \<inter> fst ` set rs = {} \<and> names_in m' qs = names_in m qs)"
  let ?P = "\<lambda>n rs. Q n (names_in m qs) \<and> n \<notin> set rs"
  have "both test l2 m' result name = Some (?P name (names_in m' rs))"
    if "mem_ok m'" "taglist_in m' result rs" "I m' rs" for m' result rs name
    using that assms(1) [of m' l2 qs] absent_result by (auto simp: both_def I_def)
  moreover have "I m2 rs2" if "I m1 rs1" "mem_ok m1" "tag_grow m1 rs1 m2 rs2" for m1 rs1 m2 rs2
    using that other_list [OF that(3,2), of l2 qs] by (simp add: I_def)
  ultimately have tests: "tests_names I (both test l2) ?P" unfolding tests_names_def by blast
  have start: "I m []" using assms(4) by (simp add: I_def)
  from collect_result [OF tests assms(2) new_list(1) start assms(3)]
  obtain change result m' rs where r: "collect_tags (both test l2) l1 lcfgtaglist_new m = Some ((change, result), m')"
    "change \<noteq> LCFG_CHANGE_ERROR" "taglist_in m' result rs" "tag_grow m [] m' rs"
    "names_in m' rs = collect_names ?P (names_in m ps) []" "tl_refcount result = 1"
    by (auto simp: names_in_def new_list(2))
  then show ?thesis by (auto simp: give_tags_def collect_first)
qed

lemma union_result:
  assumes "mem_ok m" and "taglist_in m l1 ps" and "taglist_in m l2 qs"
  shows "\<exists>result m' rs. lcfgtaglist_set_union m l1 l2 = Some (Some result, m') \<and> taglist_in m' result rs \<and>
    tag_grow m [] m' rs \<and> names_in m' rs = first_occurrences (names_in m ps @ names_in m qs) \<and> tl_refcount result = 1"
proof -
  obtain result m1 rs where r: "(if lcfgtaglist_is_empty (Some l1) then Some (Some lcfgtaglist_new, m)
       else lcfgtaglist_set_unique m l1) = Some (Some result, m1)"
    "taglist_in m1 result rs" "tag_grow m [] m1 rs" "names_in m1 rs = first_occurrences (names_in m ps)" "tl_refcount result = 1"
  proof (cases "lcfgtaglist_is_empty (Some l1)")
    case True
    then have "ps = []" using assms(2) by (simp add: lcfgtaglist_is_empty_def taglist_in_def chain_in_def)
    with that [of lcfgtaglist_new m "[]"] True show thesis
      by (simp add: new_list tag_grow_refl [OF assms(1)] names_in_def first_occurrences_def)
  next
    case False
    with set_unique_result [OF assms(1,2)] that show thesis by auto
  qed
  have ok1: "mem_ok m1" using r(3) by (simp add: tag_grow_def tag_step_def)
  have qs: "taglist_in m1 l2 qs" "fst ` set qs \<inter> fst ` set rs = {}" "names_in m1 qs = names_in m qs"
    using other_list [OF r(3) assms(1,3)] by simp_all
  from collect_result [OF absent_tests ok1 r(2) _ qs(1,2)]
  obtain change result' m' rs' where u: "collect_tags absent l2 result m1 = Some ((change, result'), m')"
    "change \<noteq> LCFG_CHANGE_ERROR" "taglist_in m' result' rs'" "tag_grow m1 rs m' rs'"
    "names_in m' rs' = collect_names (\<lambda>n rs. n \<notin> set rs) (names_in m qs) (names_in m1 rs)" "tl_refcount result' = 1"
    using r(5) qs(3) by auto
  have "names_in m' rs' = first_occurrences (names_in m ps @ names_in m qs)"
    using u(5) collect_first [OF distinct_first_occurrences, of "\<lambda>_. True" "names_in m qs" "names_in m ps"]
    by (simp add: r(4) first_occurrences_twice)
  with r(1) u(1-4,6) tag_grow_trans [OF r(3) u(4)] show ?thesis
    by (auto simp: lcfgtaglist_set_union_def give_tags_def)
qed


section \<open>Destroying lists\<close>

text \<open>A node is removed and its reference given back.\<close>

lemma tag_remove_step:
  assumes "mem_ok m" and "taglist_in m l ps" and "ps = us @ (a, s) # vs"
  shows "\<exists>l1 m1 m2. lcfgtaglist_remove_tag m l (Some a) = Some (LCFG_CHANGE_REMOVED, l1, Some s, m1) \<and>
    lcfgtag_relinquish m1 (Some s) = Some m2 \<and> taglist_in m2 l1 (us @ vs) \<and> tag_step m ps m2 (us @ vs) \<and>
    tl_refcount l1 = tl_refcount l"
proof -
  have c: "chain_in m l ps" and count: "\<And>t. count (held ps) t \<le> tag_refs m t" using assms(2) by (auto simp: taglist_in_def)
  obtain l1 m1 where r: "lcfgtaglist_remove_tag m l (Some a) = Some (LCFG_CHANGE_REMOVED, l1, Some s, m1)"
    "chain_in m1 l1 (us @ vs)" "tm_tags m1 = tm_tags m" "node_frame m ps m1" "tm_free m1 = tm_free m" "tm_nodes m1 a = None"
    "\<forall>x\<ge>tm_free m. tm_nodes m1 x = None" "tl_refcount l1 = tl_refcount l"
    using remove_tag [OF assms(1) c assms(3)] by blast
  have ok1: "mem_ok m1" using assms(1) r(3,5,7) by (simp add: mem_ok_def)
  have refs1: "tag_refs m1 t = tag_refs m t" "tag_text m1 t = tag_text m t" for t using r(3) by (simp_all add: tag_refs_def tag_text_def)
  have live: "0 < tag_refs m1 s" using held_live [OF assms(2), of a s] assms(3) refs1 by simp
  obtain m2 where q: "lcfgtag_relinquish m1 (Some s) = Some m2" "mem_ok m2" "tm_nodes m2 = tm_nodes m1" "tm_free m2 = tm_free m1"
    "\<And>b. tag_refs m2 b = (if b = s then tag_refs m1 b - 1 else tag_refs m1 b)"
    "\<And>b. 0 < tag_refs m2 b \<Longrightarrow> tag_text m2 b = tag_text m1 b"
    using lcfgtag_relinquish_result [OF ok1 live] by auto
  have refs2: "tag_refs m2 t + count (held ps) t = tag_refs m t + count (held (us @ vs)) t" for t
    using q(5) [of t] refs1 live assms(3) by auto
  have "count (held (us @ vs)) t \<le> tag_refs m2 t" for t using refs2 [of t] count [of t] by linarith
  then have list2: "taglist_in m2 l1 (us @ vs)" using r(2) q(3) by (simp add: taglist_in_def chain_in_def)
  have text2: "0 < tag_refs m b \<and> tag_text m2 b = tag_text m b" if "0 < tag_refs m2 b" for b
    using that q(5) [of b] q(6) [OF that] refs1 [of b] by (auto split: if_splits)
  have nodes2: "tm_nodes m2 x = (if x \<in> fst ` set ps \<or> tm_free m \<le> x then None else tm_nodes m x)"
    if "x \<notin> fst ` set (us @ vs)" for x
    using that r(4,6,7) q(3) assms(3) by (auto simp: node_frame_def)
  have "tm_free m \<le> tm_free m2" "\<forall>x\<in>fst ` set (us @ vs). x \<in> fst ` set ps \<or> tm_free m \<le> x"
    using r(5) q(4) assms(3) by auto
  then have "tag_step m ps m2 (us @ vs)" using q(2) refs2 text2 nodes2 unfolding tag_step_def by blast
  with r(1,8) q(1) list2 show ?thesis by blast
qed

lemma destroy_loop_result:
  "mem_ok m \<Longrightarrow> taglist_in m l ps \<Longrightarrow> \<exists>l' m'. destroy_loop (length ps) m l = Some (l', m') \<and> tag_step m ps m' []"
proof (induction ps arbitrary: m l rule: rev_induct)
  case Nil
  then show ?case by (simp add: tag_step_refl)
next
  case (snoc x ps)
  obtain a s where x: "x = (a, s)" by force
  have tail: "tl_tail l = Some a" using snoc.prems(2) x by (simp add: taglist_in_def chain_in_def)
  obtain l1 m1 m2 where r: "lcfgtaglist_remove_tag m l (Some a) = Some (LCFG_CHANGE_REMOVED, l1, Some s, m1)"
    "lcfgtag_relinquish m1 (Some s) = Some m2" "taglist_in m2 l1 ps" "tag_step m (ps @ [x]) m2 ps"
    using tag_remove_step [OF snoc.prems, of ps a s "[]"] x by auto
  have "mem_ok m2" using r(4) by (simp add: tag_step_def)
  from snoc.IH [OF this r(3)] obtain l' m' where "destroy_loop (length ps) m2 l1 = Some (l', m')" "tag_step m2 ps m' []" by blast
  with r tail tag_step_trans [OF r(4)] show ?case by auto
qed

lemma relinquish_result:
  assumes "mem_ok m" and "taglist_in m l ps" and "tl_refcount l = 1"
  shows "\<exists>m'. lcfgtaglist_relinquish m (Some l) = Some (None, m') \<and> tag_step m ps m' []"
proof -
  have l: "taglist_in m (l\<lparr>tl_refcount := 0\<rparr>) ps" using assms(2) by (simp add: taglist_in_def chain_in_def)
  have "tl_size l = length ps" using assms(2) by (simp add: taglist_in_def chain_in_def)
  with destroy_loop_result [OF assms(1) l] assms(3) show ?thesis
    by (auto simp: lcfgtaglist_relinquish_def lcfgtaglist_destroy_def)
qed

section \<open>Strings\<close>

lemma append_names_result:
  assumes "mem_ok m" and "taglist_in m l ps"
  shows "\<exists>ok l' msg' m' ps'. append_names m l ts msg = Some (ok, l', msg', m') \<and> taglist_in m' l' ps' \<and> tag_step m ps m' ps' \<and>
    tl_refcount l' = tl_refcount l \<and> (ok \<longleftrightarrow> (\<forall>t\<in>set ts. lcfgresource_valid_tag (Some (skip_space t)))) \<and>
    (ok \<longrightarrow> names_in m' ps' = names_in m ps @ map skip_space ts \<and> msg' = msg)"
  using assms
proof (induction ts arbitrary: m l ps)
  case Nil
  then show ?case by (auto intro: tag_step_refl)
next
  case (Cons t ts)
  show ?case
  proof (cases "lcfgresource_valid_tag (Some (skip_space t))")
    case False
    then obtain e where "lcfgtag_from_string (Some t) = Inl e" using tag_from_string_invalid by blast
    with Cons.prems False tag_step_refl [OF Cons.prems(1)] show ?thesis
      by (auto simp: lcfgtaglist_mutate_append_def mutate_insert_def)
  next
    case True
    have tail: "lcfgtaglist_append_tag m l tag = lcfgtaglist_insert_next m l (last_of None ps) tag" for m tag
      using Cons.prems(2) by (simp add: lcfgtaglist_append_tag_def taglist_in_def chain_in_def)
    have here: "taglist_in m l (ps @ [])" using Cons.prems(2) by simp
    obtain l1 m1 node tag where r: "lcfgtaglist_mutate_append m l (Some t) msg = Some (LCFG_CHANGE_ADDED, l1, msg, m1)"
      "taglist_in m1 l1 (ps @ [(node, tag)])" "tag_step m ps m1 (ps @ [(node, tag)])"
      "names_in m1 (ps @ [(node, tag)]) = names_in m ps @ [skip_space t]" "tl_refcount l1 = tl_refcount l"
      using mutate_insert_step [OF Cons.prems(1) here True, of lcfgtaglist_append_tag, OF tail, where msg = msg]
      by (simp add: lcfgtaglist_mutate_append_def names_in_def) blast
    have ok1: "mem_ok m1" using r(3) by (simp add: tag_step_def)
    from Cons.IH [OF ok1 r(2)] obtain ok l' msg' m' ps' where
      "append_names m1 l1 ts msg = Some (ok, l', msg', m')" "taglist_in m' l' ps'" "tag_step m1 (ps @ [(node, tag)]) m' ps'"
      "tl_refcount l' = tl_refcount l1" "ok \<longleftrightarrow> (\<forall>t\<in>set ts. lcfgresource_valid_tag (Some (skip_space t)))"
      "ok \<longrightarrow> names_in m' ps' = names_in m1 (ps @ [(node, tag)]) @ map skip_space ts \<and> msg' = msg" by blast
    with r True tag_step_trans [OF r(3)] show ?thesis by auto
  qed
qed

text \<open>
  Reading a list from names: either all are valid and the list has them in order, or the
  error leaves every node and every reference as it was.
\<close>

definition read_names :: "string list \<Rightarrow> tag_mem \<Rightarrow> (LCFGStatus \<times> LCFGTagList option \<times> cstr \<times> tag_mem) option \<Rightarrow> bool" where
  "read_names ts m result \<longleftrightarrow>
     (if \<forall>t\<in>set ts. lcfgresource_valid_tag (Some (skip_space t))
      then \<exists>l msg m' ps. result = Some (LCFG_STATUS_OK, Some l, msg, m') \<and> taglist_in m' l ps \<and> tag_step m [] m' ps \<and>
        names_in m' ps = map skip_space ts \<and> tl_refcount l = 1
      else \<exists>msg m'. result = Some (LCFG_STATUS_ERROR, None, msg, m') \<and> tag_step m [] m' [])"

lemma from_array_result:
  assumes "mem_ok m"
  shows "read_names ts m (lcfgtaglist_from_array m ts msg)"
proof -
  obtain ok l' msg' m' ps' where r: "append_names m lcfgtaglist_new ts msg = Some (ok, l', msg', m')"
    "taglist_in m' l' ps'" "tag_step m [] m' ps'" "tl_refcount l' = 1"
    "ok \<longleftrightarrow> (\<forall>t\<in>set ts. lcfgresource_valid_tag (Some (skip_space t)))"
    "ok \<longrightarrow> names_in m' ps' = map skip_space ts \<and> msg' = msg"
    using append_names_result [OF assms new_list(1), of ts msg] unfolding new_list(2) by (simp add: names_in_def) blast
  show ?thesis
  proof (cases ok)
    case True
    with r show ?thesis by (auto simp: read_names_def lcfgtaglist_from_array_def)
  next
    case False
    have "mem_ok m'" using r(3) by (simp add: tag_step_def)
    from relinquish_result [OF this r(2,4)] obtain m2 where "lcfgtaglist_relinquish m' (Some l') = Some (None, m2)" "tag_step m' ps' m2 []"
      by blast
    with r False tag_step_trans [OF r(3)] show ?thesis by (auto simp: read_names_def lcfgtaglist_from_array_def)
  qed
qed

lemma from_string_array: "lcfgtaglist_from_string m input msg = lcfgtaglist_from_array m (strtok tag_seps input) msg"
  by (simp add: lcfgtaglist_from_string_def lcfgtaglist_from_array_def)


text \<open>The tags of a chain in order, and what a fold over them computes.\<close>

definition tags_in :: "tag_mem \<Rightarrow> (nat \<times> nat) list \<Rightarrow> LCFGTag list" where
  "tags_in m ps = map (\<lambda>x. the (tm_tags m (snd x))) ps"

definition fold_tags :: "(LCFGTag \<Rightarrow> 's) \<Rightarrow> ('s \<Rightarrow> LCFGTag \<Rightarrow> 's) \<Rightarrow> 's \<Rightarrow> LCFGTag list \<Rightarrow> 's" where
  "fold_tags f g none ts = (case ts of [] \<Rightarrow> none | t # rest \<Rightarrow> foldl g (f t) rest)"

lemma live_tag: "mem_ok m \<Longrightarrow> dll (tm_nodes m) p ((a, t) # ps) q \<Longrightarrow> live_chain m ((a, t) # ps) \<Longrightarrow>
    node_tag m a = Some (t, the (tm_tags m t))"
  using live_node [of m p a t ps q] by (auto simp: node_tag_def split: bind_splits)

lemma fold_loop:
  assumes "mem_ok m" and "dll (tm_nodes m) p ps None" and "live_chain m ps"
  shows "for_nodes (\<lambda>a s m. do {(_, t) \<leftarrow> node_tag m a; Some (g s t, m, True)}) (first_of None ps) s m =
    Some (foldl g s (tags_in m ps), m)"
  using assms(2,3)
proof (induction ps arbitrary: p s)
  case (Cons x ps)
  obtain a t where x: "x = (a, t)" by force
  have d: "dll (tm_nodes m) p ((a, t) # ps) None" and lc: "live_chain m ((a, t) # ps)" using Cons.prems x by simp_all
  note u = live_tag [OF assms(1) d lc]
  have rest: "dll (tm_nodes m) (Some a) ps None" "live_chain m ps" using d lc by (auto simp: live_chain_def)
  let ?body = "\<lambda>a s m. do {(_, t) \<leftarrow> node_tag m a; Some (g s t, m, True)}"
  have step: "?body a s m = Some (g s (the (tm_tags m t)), m, True)" by (simp add: u)
  from for_nodes_step [OF d, of ?body, OF step] Cons.IH [OF rest] x show ?case by (simp add: tags_in_def)
qed (simp add: tags_in_def)

lemma over_names_result:
  assumes "mem_ok m" and "taglist_in m l ps"
  shows "over_names m l f g none = Some (fold_tags f g none (tags_in m ps))"
proof (cases ps)
  case Nil
  then show ?thesis using assms(2) by (simp add: over_names_def fold_tags_def tags_in_def taglist_in_def chain_in_def)
next
  case (Cons x qs)
  obtain a t where x: "x = (a, t)" by force
  have d: "dll (tm_nodes m) None ((a, t) # qs) None" and l: "tl_head l = Some a" "0 < tl_size l"
    using assms(2) Cons x by (simp_all add: taglist_in_def chain_in_def)
  have lc: "live_chain m ((a, t) # qs)" using taglist_live [OF assms(2)] Cons x by simp
  have rest: "dll (tm_nodes m) (Some a) qs None" "live_chain m qs" using d lc by (auto simp: live_chain_def)
  show ?thesis using l d live_tag [OF assms(1) d lc] fold_loop [OF assms(1) rest, of g] Cons x
    by (simp add: over_names_def fold_tags_def tags_in_def)
qed

lemma copied_names:
  assumes "mem_ok m" and "live_chain m ps"
  shows "map copied_name (tags_in m ps) = names_in m ps"
    and "map lcfgtag_get_length (tags_in m ps) = map length (names_in m ps)"
proof -
  have "copied_name (the (tm_tags m t)) = tag_text m t \<and> lcfgtag_get_length (the (tm_tags m t)) = length (tag_text m t)"
    if "t \<in> snd ` set ps" for t
  proof -
    have "0 < tag_refs m t" using assms(2) that unfolding live_chain_def by blast
    then obtain u where u: "tm_tags m t = Some u" using tag_refs_live by blast
    then have "tag_ok u" using assms(1) by (auto simp: mem_ok_def)
    with u show ?thesis
      by (simp add: copied_name_def tag_text_def lcfgtag_get_length_def lcfgtag_get_name_def tag_ok_def)
  qed
  then show "map copied_name (tags_in m ps) = names_in m ps"
    and "map lcfgtag_get_length (tags_in m ps) = map length (names_in m ps)" by (auto simp: tags_in_def names_in_def)
qed

lemma fold_join:
  "fold_tags f (\<lambda>s t. s @ '' '' @ f t) [] ts = join_texts (map f ts)"
proof -
  have "foldl (\<lambda>s t. s @ '' '' @ f t) s ts = (if ts = [] then s else s @ '' '' @ join_texts (map f ts))" for s ts
  proof (induction ts arbitrary: s)
    case (Cons t ts)
    from Cons.IH [of "s @ '' '' @ f t"] show ?case by (cases ts) auto
  qed simp
  note step = this
  show ?thesis
  proof (cases ts)
    case (Cons t rest)
    with step [of "f t" rest] show ?thesis by (cases rest) (auto simp: fold_tags_def)
  qed (simp add: fold_tags_def)
qed

lemma fold_length:
  "fold_tags f (\<lambda>n t. n + (f t + 1)) 0 ts = sum_list (map f ts) + (length ts - 1)"
proof -
  have "foldl (\<lambda>n t. Suc (n + f t)) n ts = n + sum_list (map f ts) + length ts" for n ts
    by (induction ts arbitrary: n) auto
  then show ?thesis by (cases ts) (simp_all add: fold_tags_def)
qed

lemma join_length: "length (join_texts ns) = sum_list (map length ns) + (length ns - 1)"
  by (induction ns rule: join_texts.induct) auto

definition tags_text :: "string list \<Rightarrow> bits \<Rightarrow> string" where
  "tags_text ns options = join_texts ns @ (if has_bit options LCFG_OPT_NEWLINE then [CHR 0x0A] else [])"

lemma to_string_result:
  assumes "mem_ok m" and "taglist_in m l ps"
  shows "lcfgtaglist_to_string m l options = Some (length (tags_text (names_in m ps) options), tags_text (names_in m ps) options)"
proof -
  note names = copied_names [OF assms(1) taglist_live [OF assms(2)]]
  have n: "length (tags_in m ps) = length ps" "length (names_in m ps) = length ps" by (simp_all add: tags_in_def names_in_def)
  show ?thesis
    using names n by (simp add: lcfgtaglist_to_string_def over_names_result [OF assms] fold_join [simplified] fold_length [simplified]
        tags_text_def join_length Let_def)
qed

section \<open>Sorting\<close>

definition text_gt :: "tag_mem \<Rightarrow> nat \<Rightarrow> nat \<Rightarrow> bool" where
  "text_gt m t u \<longleftrightarrow> 0 < strcmp (tag_text m t) (tag_text m u)"

text \<open>One pass over the chain is one pass of the bubble sort over its tags.\<close>

definition retagged :: "tag_mem \<Rightarrow> (nat \<times> nat) list \<Rightarrow> tag_mem \<Rightarrow> (nat \<times> nat) list \<Rightarrow> bool" where
  "retagged m ps m' ps' \<longleftrightarrow> map fst ps' = map fst ps \<and> tm_tags m' = tm_tags m \<and> tm_free m' = tm_free m \<and>
     (\<forall>a. a \<notin> fst ` set ps \<longrightarrow> tm_nodes m' a = tm_nodes m a)"

lemma sort_pass:
  assumes "mem_ok m" and "dll (tm_nodes m) p ps None" and "live_chain m ps" and "distinct (map fst ps)"
  shows "\<exists>m' ps'. for_nodes sort_step (first_of None ps) swapped m =
      Some (swapped \<or> snd (bubble_pass (text_gt m) (map snd ps)), m') \<and>
    dll (tm_nodes m') p ps' None \<and> map snd ps' = fst (bubble_pass (text_gt m) (map snd ps)) \<and> retagged m ps m' ps'"
  using assms
proof (induction "length ps" arbitrary: p ps m swapped rule: less_induct)
  case less
  show ?case
  proof (cases ps)
    case Nil
    then show ?thesis by (auto simp: retagged_def)
  next
    case one: (Cons x rest)
    obtain a t where x: "x = (a, t)" by force
    show ?thesis
    proof (cases rest)
      case Nil
      with one x less.prems show ?thesis
        by (intro exI [of _ m] exI [of _ ps]) (auto simp: for_nodes_Some sort_step_def retagged_def)
    next
      case (Cons y qs)
      obtain b u where y: "y = (b, u)" by force
      have ps: "ps = (a, t) # (b, u) # qs" using one x Cons y by simp
      have d: "dll (tm_nodes m) p ((a, t) # (b, u) # qs) None" "dll (tm_nodes m) (Some a) ((b, u) # qs) None"
        using less.prems(2) ps by auto
      have lc: "live_chain m ((a, t) # (b, u) # qs)" "live_chain m ((b, u) # qs)" using less.prems(3) ps by (auto simp: live_chain_def)
      obtain v where v: "node_tag m a = Some (t, v)" "tag_name v = Some (tag_text m t)" using live_node [OF less.prems(1) d(1) lc(1)] by blast
      obtain w where w: "node_tag m b = Some (u, w)" "tag_name w = Some (tag_text m u)" using live_node [OF less.prems(1) d(2) lc(2)] by blast
      have cmp: "0 < lcfgtag_compare v w \<longleftrightarrow> text_gt m t u" using v w by (simp add: lcfgtag_compare_def text_gt_def)
      have ab: "a \<noteq> b" "distinct (map fst ((b, u) # qs))" "a \<notin> fst ` set qs" "b \<notin> fst ` set qs" using less.prems(4) ps by auto
      have na: "tm_nodes m a = Some \<lparr>tn_tag = t, tn_prev = p, tn_next = Some b\<rparr>" using d(1) by simp
      have nb: "tm_nodes m b = Some \<lparr>tn_tag = u, tn_prev = Some a, tn_next = first_of None qs\<rparr>" using d(2) by simp
      show ?thesis
      proof (cases "text_gt m t u")
        case False
        have step: "sort_step a swapped m = Some (swapped, m, True)" using na v w cmp False by (simp add: sort_step_def)
        have len: "length ((b, u) # qs) < length ps" using ps by simp
        from less.hyps [OF len less.prems(1) d(2) lc(2) ab(2), of swapped] obtain m' ps' where
          "for_nodes sort_step (Some b) swapped m = Some (swapped \<or> snd (bubble_pass (text_gt m) (u # map snd qs)), m')"
          "dll (tm_nodes m') (Some a) ps' None" "map snd ps' = fst (bubble_pass (text_gt m) (u # map snd qs))"
          "retagged m ((b, u) # qs) m' ps'" by auto
        with for_nodes_step [OF d(1), of sort_step, OF step] False ps ab na show ?thesis
          by (intro exI [of _ m'] exI [of _ "(a, t) # ps'"]) (auto simp: retagged_def first_of_def split: list.splits)
      next
        case True
        let ?m = "m\<lparr>tm_nodes := (tm_nodes m)(a \<mapsto> \<lparr>tn_tag = u, tn_prev = p, tn_next = Some b\<rparr>,
          b \<mapsto> \<lparr>tn_tag = t, tn_prev = Some a, tn_next = first_of None qs\<rparr>)\<rparr>"
        have step: "sort_step a swapped m = Some (True, ?m, True)"
          using na nb v w cmp True ab by (simp add: sort_step_def change_node_def)
        have d': "dll (tm_nodes ?m) p ((a, u) # (b, t) # qs) None" using d ab by simp
        have text_same: "text_gt ?m = text_gt m" by (simp add: text_gt_def [abs_def] tag_text_def)
        have lc': "live_chain ?m ((b, t) # qs)" using lc by (auto simp: live_chain_def tag_refs_def)
        have "a < tm_free m" "b < tm_free m" using chain_below(1) [OF less.prems(1) d(1)] by simp_all
        then have ok': "mem_ok ?m" using less.prems(1) by (simp add: mem_ok_def)
        have len: "length ((b, t) # qs) < length ps" using ps by simp
        have db: "dll (tm_nodes ?m) (Some a) ((b, t) # qs) None" "distinct (map fst ((b, t) # qs))" using d' ab by auto
        from less.hyps [OF len ok' db(1) lc' db(2), of True] text_same obtain m' ps' where
          "for_nodes sort_step (Some b) True ?m = Some (True, m')"
          "dll (tm_nodes m') (Some a) ps' None" "map snd ps' = fst (bubble_pass (text_gt m) (t # map snd qs))"
          "retagged ?m ((b, t) # qs) m' ps'" by auto
        with for_nodes_step [OF d', of sort_step, OF step] True ps ab show ?thesis
          by (intro exI [of _ m'] exI [of _ "(a, u) # ps'"]) (auto simp: retagged_def first_of_def split: list.splits)
      qed
    qed
  qed
qed


lemma retagged_ok:
  assumes "retagged m ps m' ps'" and "mem_ok m" and "dll (tm_nodes m) None ps None"
  shows "mem_ok m'" and "tm_free m \<le> a \<Longrightarrow> tm_nodes m' a = None"
proof -
  have above: "tm_nodes m' a = None" if "tm_free m \<le> a" for a
  proof -
    have "a \<notin> fst ` set ps" using chain_below(1) [OF assms(2,3)] that leD by blast
    then have "tm_nodes m' a = tm_nodes m a" using assms(1) by (simp add: retagged_def)
    with assms(2) that show ?thesis by (simp add: mem_ok_def)
  qed
  then show "tm_free m \<le> a \<Longrightarrow> tm_nodes m' a = None" .
  from above show "mem_ok m'" using assms(1,2) by (simp add: mem_ok_def retagged_def)
qed

lemma same_ends:
  assumes "map fst ps' = map fst ps"
  shows "length ps' = length ps" "first_of q ps' = first_of q ps" "last_of p ps' = last_of p ps" "fst ` set ps' = fst ` set ps"
proof -
  show "length ps' = length ps" using assms by (metis length_map)
  show "first_of q ps' = first_of q ps" using assms by (cases ps; cases ps') (auto simp: first_of_def)
  show "last_of p ps' = last_of p ps" using assms by (cases ps rule: rev_cases; cases ps' rule: rev_cases) (auto simp: last_of_def)
  show "fst ` set ps' = fst ` set ps" using assms by (metis list.set_map)
qed

lemma retagged_trans: "retagged m ps m1 ps1 \<Longrightarrow> retagged m1 ps1 m2 ps2 \<Longrightarrow> retagged m ps m2 ps2"
  unfolding retagged_def by (metis list.set_map)

lemma text_gt_asym: "text_gt m t u \<Longrightarrow> \<not> text_gt m u t"
  using lexcmp_flip [of byte "tag_text m u" "tag_text m t"] by (simp add: text_gt_def strcmp_def)

lemma sort_rounds_result:
  assumes "mem_ok m" and "dll (tm_nodes m) None ps None" and "live_chain m ps" and "distinct (map fst ps)"
  shows "\<exists>m' ps'. sort_rounds (first_of None ps) m = Some m' \<and> dll (tm_nodes m') None ps' None \<and>
    bubble_loop (text_gt m) (map snd ps) = Some (map snd ps') \<and> retagged m ps m' ps'"
  using assms
proof (induction "inversions (text_gt m) (map snd ps)" arbitrary: m ps rule: less_induct)
  case less
  obtain m1 ps1 where r: "for_nodes sort_step (first_of None ps) False m = Some (snd (bubble_pass (text_gt m) (map snd ps)), m1)"
    "dll (tm_nodes m1) None ps1 None" "map snd ps1 = fst (bubble_pass (text_gt m) (map snd ps))" "retagged m ps m1 ps1"
    using sort_pass [OF less.prems, of False] by auto
  have "map fst ps1 = map fst ps" using r(4) by (simp add: retagged_def)
  note first = same_ends(2) [OF this, of None]
  show ?case
  proof (cases "snd (bubble_pass (text_gt m) (map snd ps))")
    case False
    have "sort_rounds (first_of None ps) m = Some m1" using r(1) False by (subst sort_rounds.simps) simp
    moreover have "bubble_loop (text_gt m) (map snd ps) = Some (map snd ps1)"
      using r(3) False by (subst bubble_loop.simps) simp
    ultimately show ?thesis using r(2,4) by blast
  next
    case True
    have same: "text_gt m1 = text_gt m" "\<And>t. tag_refs m1 t = tag_refs m t"
      using r(4) by (simp_all add: retagged_def text_gt_def [abs_def] tag_text_def tag_refs_def)
    have fewer: "inversions (text_gt m1) (map snd ps1) < inversions (text_gt m) (map snd ps)"
      using bubble_pass_inversions [of "text_gt m" "map snd ps", OF text_gt_asym] True by (simp add: same r(3))
    have ok1: "mem_ok m1" by (rule retagged_ok(1) [OF r(4) less.prems(1,2)])
    have "mset (map snd ps1) = mset (map snd ps)" using r(3) mset_bubble_pass by metis
    then have "snd ` set ps1 = snd ` set ps" by (metis mset_eq_setD set_map)
    then have lc1: "live_chain m1 ps1" using less.prems(3) same(2) by (simp add: live_chain_def)
    have d1: "distinct (map fst ps1)" using r(4) less.prems(4) by (simp add: retagged_def)
    obtain m' ps' where q: "sort_rounds (first_of None ps1) m1 = Some m'" "dll (tm_nodes m') None ps' None"
      "bubble_loop (text_gt m1) (map snd ps1) = Some (map snd ps')" "retagged m1 ps1 m' ps'"
      using less.hyps [OF fewer ok1 r(2) lc1 d1] by blast
    have "sort_rounds (first_of None ps) m = Some m'" using r(1) True first q(1) by (subst sort_rounds.simps) simp
    moreover have "bubble_loop (text_gt m) (map snd ps) = Some (map snd ps')"
      using r(3) True q(3) same(1) by (subst bubble_loop.simps) simp
    ultimately show ?thesis using q(2) retagged_trans [OF r(4) q(4)] by blast
  qed
qed

lemma sort_result:
  assumes "mem_ok m" and "taglist_in m l ps"
  shows "\<exists>m' ps'. lcfgtaglist_sort m l = Some m' \<and> taglist_in m' l ps' \<and> tag_step m ps m' ps' \<and>
    mset (map snd ps') = mset (map snd ps) \<and> sorted_wrt (\<lambda>a b. strcmp a b \<le> 0) (names_in m' ps')"
proof (cases "tl_size l < 2")
  case True
  then have "length ps < 2" using assms(2) by (simp add: taglist_in_def chain_in_def)
  then have "sorted_wrt (\<lambda>a b. strcmp a b \<le> 0) (names_in m ps)" by (cases ps; cases "tl ps") (auto simp: names_in_def)
  with True assms tag_step_refl show ?thesis by (auto simp: lcfgtaglist_sort_def)
next
  case False
  have c: "dll (tm_nodes m) None ps None" "distinct (map fst ps)" "tl_head l = first_of None ps" "tl_size l = length ps"
    "tl_tail l = last_of None ps" and count: "\<And>t. count (held ps) t \<le> tag_refs m t"
    using assms(2) by (auto simp: taglist_in_def chain_in_def)
  obtain m' ps' where r: "sort_rounds (first_of None ps) m = Some m'" "dll (tm_nodes m') None ps' None"
    "bubble_loop (text_gt m) (map snd ps) = Some (map snd ps')" "retagged m ps m' ps'"
    using sort_rounds_result [OF assms(1) c(1) taglist_live [OF assms(2)] c(2)] by blast
  have m: "mset (map snd ps') = mset (map snd ps)" by (rule mset_bubble_loop [OF r(3)])
  then have h: "held ps' = held ps" by (simp add: held_def)
  have fsts: "map fst ps' = map fst ps" using r(4) by (simp add: retagged_def)
  note ends = same_ends [OF fsts]
  have same: "tag_refs m' = tag_refs m" "tag_text m' = tag_text m" "tm_free m' = tm_free m"
    using r(4) by (simp_all add: retagged_def tag_refs_def [abs_def] tag_text_def [abs_def])
  have nodes: "tm_nodes m' a = tm_nodes m a" if "a \<notin> fst ` set ps" for a using r(4) that by (simp add: retagged_def)
  note ok' = retagged_ok(1) [OF r(4) assms(1) c(1)] and above = retagged_ok(2) [OF r(4) assms(1) c(1)]
  have list': "taglist_in m' l ps'" using r(2) fsts ends c count h same by (simp add: taglist_in_def chain_in_def)
  have step: "tag_step m ps m' ps'" using ok' h same ends nodes above assms(1) by (auto simp: tag_step_def mem_ok_def)
  have "successively (\<lambda>x y. \<not> text_gt m x y) (map snd ps')" by (rule bubble_loop_successive [OF r(3)])
  then have "successively (\<lambda>a b. strcmp a b \<le> 0) (names_in m' ps')"
    by (simp add: names_in_def same successively_map text_gt_def not_less comp_def)
  moreover have "transp (\<lambda>a b. strcmp a b \<le> 0)"
    unfolding strcmp_def by (intro transpI) (metis byte_bounds(1) lexcmp_le_trans)
  ultimately have "sorted_wrt (\<lambda>a b. strcmp a b \<le> 0) (names_in m' ps')"
    by (simp add: successively_conv_sorted_wrt)
  with r(1) False c(3) list' step m show ?thesis by (auto simp: lcfgtaglist_sort_def)
qed


section \<open>Replacing a tag\<close>

fun replace_names :: "string \<Rightarrow> string \<Rightarrow> bool \<Rightarrow> string list \<Rightarrow> string list" where
  "replace_names old new global [] = []"
| "replace_names old new global (n # ns) =
     (if n = old then new # (if global then replace_names old new global ns else ns)
      else n # replace_names old new global ns)"

lemma retag_result:
  assumes "mem_ok m" and "dll (tm_nodes m) None (ds @ (a, t) # ps) None" and "distinct (map fst (ds @ (a, t) # ps))"
    and "tm_tags m b = Some u" and "0 < tag_refs m t"
  shows "\<exists>m'. retag a b t m = Some m' \<and> mem_ok m' \<and> dll (tm_nodes m') None (ds @ (a, b) # ps) None \<and>
    tm_free m' = tm_free m \<and> (\<forall>x. x \<noteq> a \<longrightarrow> tm_nodes m' x = tm_nodes m x) \<and>
    (\<forall>x. tag_refs m' x + count {#t#} x = tag_refs m x + count {#b#} x) \<and>
    (\<forall>x. 0 < tag_refs m' x \<longrightarrow> tag_text m' x = tag_text m x)"
proof -
  let ?n = "\<lparr>tn_tag = t, tn_prev = last_of None ds, tn_next = first_of None ps\<rparr>"
  have n: "tm_nodes m a = Some ?n" using assms(2) by (simp add: dll_append)
  let ?m2 = "m\<lparr>tm_tags := acquired b (tm_tags m), tm_nodes := (tm_nodes m)(a \<mapsto> ?n\<lparr>tn_tag := b\<rparr>)\<rparr>"
  have "a < tm_free m" using chain_below(1) [OF assms(1,2)] by simp
  then have ok2: "mem_ok ?m2" using assms(1) by (intro mem_ok_acquired [OF assms(1) _ assms(4)]) (auto simp: mem_ok_def)
  have refs2: "tag_refs ?m2 x = tag_refs m x + count {#b#} x" for x
    using refs_acquired [of ?m2 b m u x] assms(4) by simp
  have text2: "tag_text ?m2 x = tag_text m x" for x using text_acquired [of ?m2 b m] by simp
  have d2: "dll (tm_nodes ?m2) None (ds @ (a, b) # ps) None" using assms(2,3) by (simp add: dll_append)
  have "0 < tag_refs ?m2 t" using refs2 [of t] assms(5) by simp
  then obtain m3 where q: "lcfgtag_relinquish ?m2 (Some t) = Some m3" "mem_ok m3" "tm_nodes m3 = tm_nodes ?m2" "tm_free m3 = tm_free ?m2"
    "\<And>x. tag_refs m3 x = (if x = t then tag_refs ?m2 x - 1 else tag_refs ?m2 x)"
    "\<And>x. 0 < tag_refs m3 x \<Longrightarrow> tag_text m3 x = tag_text ?m2 x"
    using lcfgtag_relinquish_result [OF ok2] by blast
  have "retag a b t m = Some m3"
    using q(1) n assms(4) by (simp add: retag_def lcfgtag_acquire_result change_node_def)
  moreover have "tag_refs m3 x + count {#t#} x = tag_refs m x + count {#b#} x" for x
    using q(5) [of x] refs2 [of x] assms(5) by auto
  ultimately show ?thesis using q(2-4,6) d2 text2 by auto
qed

definition own_tag :: "nat option \<Rightarrow> nat multiset" where
  "own_tag new_tag = (case new_tag of None \<Rightarrow> {#} | Some b \<Rightarrow> {#b#})"

text \<open>Between two nodes: the chain and the loop hold their references, and a new tag has its name.\<close>

definition replacing :: "string \<Rightarrow> tag_mem \<Rightarrow> (nat \<times> nat) list \<Rightarrow> nat option \<Rightarrow> bool" where
  "replacing replace m ps new_tag \<longleftrightarrow> mem_ok m \<and> dll (tm_nodes m) None ps None \<and> distinct (map fst ps) \<and>
     (\<forall>x. count (held ps) x + count (own_tag new_tag) x \<le> tag_refs m x) \<and>
     (\<forall>b. new_tag = Some b \<longrightarrow> tag_text m b = replace)"

definition replaced :: "tag_mem \<Rightarrow> (nat \<times> nat) list \<Rightarrow> nat option \<Rightarrow> tag_mem \<Rightarrow> (nat \<times> nat) list \<Rightarrow> nat option \<Rightarrow> bool" where
  "replaced m ps new_tag m' ps' new_tag' \<longleftrightarrow> tm_free m \<le> tm_free m' \<and> map fst ps' = map fst ps \<and>
     (\<forall>a. a \<notin> fst ` set ps \<longrightarrow> tm_nodes m' a = tm_nodes m a) \<and>
     (\<forall>x. tag_refs m' x + count (held ps) x + count (own_tag new_tag) x =
          tag_refs m x + count (held ps') x + count (own_tag new_tag') x) \<and>
     (\<forall>x<tm_free m. 0 < tag_refs m' x \<longrightarrow> 0 < tag_refs m x \<and> tag_text m' x = tag_text m x)"

text \<open>The new tag is there at the first match.\<close>

lemma new_tag_ready:
  assumes "replacing replace m ps new_tag" and "lcfgresource_valid_tag (Some replace)" and "change \<noteq> LCFG_CHANGE_ERROR"
  shows "\<exists>b u m1. (case new_tag of
       Some b \<Rightarrow> (change, Some b, msg, m)
     | None \<Rightarrow>
         (case lcfgtag_from_string (Some replace) of
            Inl e \<Rightarrow> (LCFG_CHANGE_ERROR, None, Some e, m)
          | Inr t \<Rightarrow> (case alloc_tag t m of (b, m') \<Rightarrow> (change, Some b, msg, m')))) = (change, Some b, msg, m1) \<and>
    tm_tags m1 b = Some u \<and> replacing replace m1 ps (Some b) \<and> replaced m ps new_tag m1 ps (Some b)"
proof (cases new_tag)
  case (Some b)
  have "count (own_tag (Some b)) b \<le> tag_refs m b" using assms(1) Some by (metis add_leD2 replacing_def)
  then obtain u where "tm_tags m b = Some u" using tag_refs_live [of m b] by (auto simp: own_tag_def)
  with assms(1) Some show ?thesis by (auto simp: replaced_def replacing_def)
next
  case None
  have "\<forall>c\<in>set replace. isword c" using assms(2) by (simp add: lcfgresource_valid_tag_def list_all_iff)
  then have "skip_space replace = replace" by (intro skip_space_id) (cases replace; auto dest: isword_not_isspace)
  with assms(2) obtain t where t: "lcfgtag_from_string (Some replace) = Inr t" "tag_ok t" "tag_refcount t = 1" "tag_name t = Some replace"
    using tag_from_string [of replace] by auto
  let ?b = "tm_free m" and ?m1 = "m\<lparr>tm_tags := (tm_tags m)(tm_free m \<mapsto> t), tm_free := tm_free m + 1\<rparr>"
  have ok: "mem_ok m" and count: "\<And>x. count (held ps) x \<le> tag_refs m x"
    using assms(1) None by (auto simp: replacing_def own_tag_def)
  have none: "tm_tags m ?b = None" "tag_refs m ?b = 0" using ok by (simp_all add: mem_ok_def tag_refs_def)
  have none_held: "count (held ps) ?b = 0" using count [of ?b] none by simp
  have refs1: "tag_refs ?m1 x = (if x = ?b then 1 else tag_refs m x)" for x using t(3) by (simp add: tag_refs_def)
  have text1: "tag_text ?m1 x = (if x = ?b then replace else tag_text m x)" for x using t(4) by (auto simp: tag_text_def)
  have "mem_ok ?m1" using ok t(2) by (auto simp: mem_ok_def)
  then have "replacing replace ?m1 ps (Some ?b)" using assms(1) count refs1 text1 none_held by (auto simp: replacing_def own_tag_def)
  moreover have "replaced m ps None ?m1 ps (Some ?b)"
    using refs1 text1 none none_held by (auto simp: replaced_def own_tag_def)
  ultimately show ?thesis using None t(1) by (auto simp: alloc_tag_def)
qed

lemma replaced_trans:
  assumes "replaced m ps n m1 ps1 n1" and "replaced m1 ps1 n1 m2 ps2 n2"
  shows "replaced m ps n m2 ps2 n2"
proof -
  have "tag_refs m2 x + count (held ps) x + count (own_tag n) x = tag_refs m x + count (held ps2) x + count (own_tag n2) x" for x
  proof -
    have "tag_refs m1 x + count (held ps) x + count (own_tag n) x = tag_refs m x + count (held ps1) x + count (own_tag n1) x"
      "tag_refs m2 x + count (held ps1) x + count (own_tag n1) x = tag_refs m1 x + count (held ps2) x + count (own_tag n2) x"
      using assms unfolding replaced_def by blast+
    then show ?thesis by linarith
  qed
  moreover have "fst ` set ps1 = fst ` set ps" by (rule same_ends(4)) (use assms(1) in \<open>simp add: replaced_def\<close>)
  moreover have "0 < tag_refs m x \<and> tag_text m2 x = tag_text m x" if "x < tm_free m" "0 < tag_refs m2 x" for x
    using assms that unfolding replaced_def by (metis order_less_le_trans)
  ultimately show ?thesis using assms unfolding replaced_def by (metis le_trans)
qed


lemma names_parts: "names_in m (us @ vs) = names_in m us @ names_in m vs" "names_in m ((a, t) # vs) = tag_text m t # names_in m vs"
    "names_in m [] = []"
  by (simp_all add: names_in_def)

lemma replaced_names:
  assumes "replaced m ps n m' ps' n'" and "mem_ok m" and "replacing r m (us @ qs @ vs) k" and "replacing r m' (us' @ qs @ vs') k'"
  shows "names_in m' qs = names_in m qs"
proof -
  have "tag_text m' t = tag_text m t" if "t \<in> snd ` set qs" for t
  proof -
    have "0 < count (held qs) t" using that by (simp add: held_def)
    moreover have "count (held (us @ qs @ vs)) t \<le> tag_refs m t" "count (held (us' @ qs @ vs')) t \<le> tag_refs m' t"
      using assms(3,4) unfolding replacing_def by (metis add_leD1)+
    moreover have "count (held (us @ qs @ vs)) t = count (held us) t + count (held qs) t + count (held vs) t"
      "count (held (us' @ qs @ vs')) t = count (held us') t + count (held qs) t + count (held vs') t" by simp_all
    ultimately have "0 < tag_refs m t" "0 < tag_refs m' t" by linarith+
    with assms(1) live_below [OF assms(2)] show ?thesis by (simp add: replaced_def)
  qed
  then show ?thesis by (simp add: names_in_def)
qed

lemma replace_match:
  assumes "replacing r m (ds @ (a, t) # ps) nt" and "lcfgresource_valid_tag (Some r)" and "change \<noteq> LCFG_CHANGE_ERROR"
    and "tag_text m t = old"
  shows "\<exists>b m2. replace_step old r global a (change, nt, msg) m = Some ((LCFG_CHANGE_REPLACED, Some b, msg), m2, global) \<and>
    replacing r m2 (ds @ (a, b) # ps) (Some b) \<and> replaced m (ds @ (a, t) # ps) nt m2 (ds @ (a, b) # ps) (Some b) \<and>
    tag_text m2 b = r"
proof -
  let ?ps = "ds @ (a, t) # ps" and ?qs = "\<lambda>b. ds @ (a, b) # ps"
  obtain b u m1 where n: "(case nt of
       Some b \<Rightarrow> (change, Some b, msg, m)
     | None \<Rightarrow>
         (case lcfgtag_from_string (Some r) of
            Inl e \<Rightarrow> (LCFG_CHANGE_ERROR, None, Some e, m)
          | Inr t \<Rightarrow> (case alloc_tag t m of (b, m') \<Rightarrow> (change, Some b, msg, m')))) = (change, Some b, msg, m1)"
    "tm_tags m1 b = Some u" "replacing r m1 ?ps (Some b)" "replaced m ?ps nt m1 ?ps (Some b)"
    using new_tag_ready [OF assms(1-3), of msg] by blast
  have live: "0 < tag_refs m' t" if "replacing r m' ?ps k" for m' k
  proof -
    have "count (held ?ps) t \<le> tag_refs m' t" using that unfolding replacing_def by (metis add_leD1)
    then show ?thesis by simp
  qed
  have d: "mem_ok m" "dll (tm_nodes m) (last_of None ds) ((a, t) # ps) None" using assms(1) by (simp_all add: replacing_def dll_append)
  have one: "live_chain m [(a, t)]" using live [OF assms(1)] by (simp add: live_chain_def)
  have "dll (tm_nodes m) (last_of None ds) [(a, t)] (first_of None ps)" using d(2) by simp
  then obtain v where v: "node_tag m a = Some (t, v)" "lcfgtag_match v old"
    using live_node [OF d(1) _ one] match_text assms(4) by blast
  have d1: "mem_ok m1" "dll (tm_nodes m1) None ?ps None" "distinct (map fst ?ps)" using n(3) by (simp_all add: replacing_def)
  obtain m2 where r: "retag a b t m1 = Some m2" "mem_ok m2" "dll (tm_nodes m2) None (?qs b) None" "tm_free m2 = tm_free m1"
    "\<And>x. x \<noteq> a \<Longrightarrow> tm_nodes m2 x = tm_nodes m1 x" "\<And>x. tag_refs m2 x + count {#t#} x = tag_refs m1 x + count {#b#} x"
    "\<And>x. 0 < tag_refs m2 x \<Longrightarrow> tag_text m2 x = tag_text m1 x"
    using retag_result [OF d1 n(2) live [OF n(3)]] by blast
  have step: "replace_step old r global a (change, nt, msg) m = Some ((LCFG_CHANGE_REPLACED, Some b, msg), m2, global)"
    using v n(1) r(1) assms(3) by (simp add: replace_step_def)
  have held2: "count (held (?qs b)) x + count {#t#} x = count (held ?ps) x + count {#b#} x" for x by simp
  have count2: "count (held (?qs b)) x + count (own_tag (Some b)) x \<le> tag_refs m2 x" for x
  proof -
    have "count (held ?ps) x + count (own_tag (Some b)) x \<le> tag_refs m1 x" using n(3) by (simp only: replacing_def)
    with held2 [of x] r(6) [of x] show ?thesis by linarith
  qed
  have "0 < tag_refs m2 b" using count2 [of b] by (simp add: own_tag_def)
  then have text_b: "tag_text m2 b = r" using r(7) n(3) by (simp add: replacing_def)
  have "replacing r m2 (?qs b) (Some b)" using r(2,3) count2 text_b d1(3) by (simp add: replacing_def)
  moreover have "replaced m1 ?ps (Some b) m2 (?qs b) (Some b)"
  proof -
    have "tag_refs m2 x + count (held ?ps) x = tag_refs m1 x + count (held (?qs b)) x" for x
      using held2 [of x] r(6) [of x] by linarith
    moreover have "0 < tag_refs m1 x \<and> tag_text m2 x = tag_text m1 x" if "0 < tag_refs m2 x" for x
    proof -
      have "0 < tag_refs m1 x"
      proof (cases "x = b")
        case True
        have "count (own_tag (Some b)) b \<le> tag_refs m1 b" using n(3) unfolding replacing_def by (metis add_leD2)
        with True show ?thesis by (simp add: own_tag_def)
      next
        case False
        with r(6) [of x] that show ?thesis by simp
      qed
      with r(7) [OF that] show ?thesis by simp
    qed
    ultimately show ?thesis using r(4,5) by (simp add: replaced_def)
  qed
  ultimately show ?thesis using step text_b replaced_trans [OF n(4)] by blast
qed

lemma replace_loop:
  assumes "replacing r m (ds @ ps) nt" and "lcfgresource_valid_tag (Some r)" and "change \<noteq> LCFG_CHANGE_ERROR"
  shows "\<exists>nt' m' ps'. for_nodes (replace_step old r global) (first_of None ps) (change, nt, msg) m =
      Some ((if old \<in> set (names_in m ps) then LCFG_CHANGE_REPLACED else change, nt', msg), m') \<and>
    replacing r m' (ds @ ps') nt' \<and> replaced m (ds @ ps) nt m' (ds @ ps') nt' \<and>
    names_in m' (ds @ ps') = names_in m ds @ replace_names old r global (names_in m ps)"
  using assms(1,3)
proof (induction ps arbitrary: ds m nt change)
  case Nil
  then show ?case by (auto simp: replaced_def names_in_def replacing_def)
next
  case (Cons x ps)
  obtain a t where x: "x = (a, t)" by force
  have rep: "replacing r m (ds @ (a, t) # ps) nt" using Cons.prems(1) x by simp
  have ok: "mem_ok m" and d: "dll (tm_nodes m) (last_of None ds) ((a, t) # ps) None"
    using rep by (simp_all add: replacing_def dll_append)
  have names: "names_in m ((a, t) # ps) = tag_text m t # names_in m ps" by (simp add: names_in_def)
  show ?case
  proof (cases "tag_text m t = old")
    case False
    have "count (held (ds @ (a, t) # ps)) t \<le> tag_refs m t" using rep unfolding replacing_def by (metis add_leD1)
    then have one: "live_chain m [(a, t)]" by (simp add: live_chain_def)
    have "dll (tm_nodes m) (last_of None ds) [(a, t)] (first_of None ps)" using d by simp
    then obtain v where v: "node_tag m a = Some (t, v)" "\<not> lcfgtag_match v old"
      using live_node [OF ok _ one] match_text False by blast
    then have step: "replace_step old r global a (change, nt, msg) m = Some ((change, nt, msg), m, True)"
      by (simp add: replace_step_def)
    have "replacing r m ((ds @ [(a, t)]) @ ps) nt" using rep by simp
    from Cons.IH [OF this Cons.prems(2)] obtain nt' m' ps' where
      "for_nodes (replace_step old r global) (first_of None ps) (change, nt, msg) m =
        Some ((if old \<in> set (names_in m ps) then LCFG_CHANGE_REPLACED else change, nt', msg), m')"
      "replacing r m' (ds @ (a, t) # ps') nt'" "replaced m (ds @ (a, t) # ps) nt m' (ds @ (a, t) # ps') nt'"
      "names_in m' (ds @ (a, t) # ps') = names_in m (ds @ [(a, t)]) @ replace_names old r global (names_in m ps)" by auto
    with for_nodes_step [OF d, of "replace_step old r global", OF step] x names False show ?thesis
      by (intro exI [of _ nt'] exI [of _ m'] exI [of _ "(a, t) # ps'"]) (auto simp: names_in_def)
  next
    case True
    obtain b m2 where r: "replace_step old r global a (change, nt, msg) m = Some ((LCFG_CHANGE_REPLACED, Some b, msg), m2, global)"
      "replacing r m2 (ds @ (a, b) # ps) (Some b)" "replaced m (ds @ (a, t) # ps) nt m2 (ds @ (a, b) # ps) (Some b)"
      "tag_text m2 b = r" using replace_match [OF rep assms(2) Cons.prems(2) True] by blast
    have d2: "dll (tm_nodes m2) (last_of None ds) ((a, b) # ps) None" using r(2) by (simp add: replacing_def dll_append)
    have same: "names_in m2 ds = names_in m ds" "names_in m2 ps = names_in m ps"
      using replaced_names [OF r(3) ok, of r "[]" ds "(a, t) # ps" nt "[]" "(a, b) # ps" "Some b"]
        replaced_names [OF r(3) ok, of r "ds @ [(a, t)]" ps "[]" nt "ds @ [(a, b)]" "[]" "Some b"] rep r(2) by simp_all
    show ?thesis
    proof (cases global)
      case False
      with r True x names same show ?thesis
        by (intro exI [of _ "Some b"] exI [of _ m2] exI [of _ "(a, b) # ps"]) (simp add: for_nodes_Some names_in_def)
    next
      case glob: True
      have rep2: "replacing r m2 ((ds @ [(a, b)]) @ ps) (Some b)" using r(2) by simp
      have run: "for_nodes (replace_step old r global) (Some a) (change, nt, msg) m =
          for_nodes (replace_step old r global) (first_of None ps) (LCFG_CHANGE_REPLACED, Some b, msg) m2"
        using r(1) glob d2 by (simp add: for_nodes_Some)
      have changed: "LCFG_CHANGE_REPLACED \<noteq> LCFG_CHANGE_ERROR" by simp
      obtain nt' m' ps' where q: "for_nodes (replace_step old r global) (first_of None ps) (LCFG_CHANGE_REPLACED, Some b, msg) m2 =
          Some ((LCFG_CHANGE_REPLACED, nt', msg), m')" "replacing r m' (ds @ (a, b) # ps') nt'"
        "replaced m2 (ds @ (a, b) # ps) (Some b) m' (ds @ (a, b) # ps') nt'"
        "names_in m' (ds @ (a, b) # ps') = names_in m2 (ds @ [(a, b)]) @ replace_names old r global (names_in m2 ps)"
        using Cons.IH [OF rep2 changed] by auto
      have "names_in m' (ds @ (a, b) # ps') = names_in m ds @ replace_names old r global (names_in m (x # ps))"
        using q(4) same r(4) True x names glob by (simp add: names_parts)
      with run q(1,2) replaced_trans [OF r(3) q(3)] True x names show ?thesis
        by (intro exI [of _ nt'] exI [of _ m'] exI [of _ "(a, b) # ps'"]) simp
    qed
  qed
qed


lemma replace_result:
  assumes "mem_ok m" and "taglist_in m l ps" and "lcfgresource_valid_tag (Some r)"
  shows "\<exists>m' ps'. lcfgtaglist_mutate_replace m l old r global msg =
      Some (if old \<in> set (names_in m ps) then LCFG_CHANGE_REPLACED else LCFG_CHANGE_NONE, msg, m') \<and>
    taglist_in m' l ps' \<and> tag_step m ps m' ps' \<and> names_in m' ps' = replace_names old r global (names_in m ps)"
proof (cases "ps = []")
  case True
  then have "lcfgtaglist_is_empty (Some l)" using assms(2) by (simp add: lcfgtaglist_is_empty_def taglist_in_def chain_in_def)
  with True assms tag_step_refl show ?thesis by (auto simp: lcfgtaglist_mutate_replace_def names_in_def)
next
  case False
  have c: "dll (tm_nodes m) None ps None" "distinct (map fst ps)" "tl_head l = first_of None ps" "tl_size l = length ps"
    "tl_tail l = last_of None ps" and count: "\<And>t. count (held ps) t \<le> tag_refs m t"
    using assms(2) by (auto simp: taglist_in_def chain_in_def)
  have start: "replacing r m ([] @ ps) None" using assms(1) c count by (simp add: replacing_def own_tag_def)
  obtain nt' m' ps' where q: "for_nodes (replace_step old r global) (first_of None ps) (LCFG_CHANGE_NONE, None, msg) m =
      Some ((if old \<in> set (names_in m ps) then LCFG_CHANGE_REPLACED else LCFG_CHANGE_NONE, nt', msg), m')"
    "replacing r m' ps' nt'" "replaced m ps None m' ps' nt'" "names_in m' ps' = replace_names old r global (names_in m ps)"
    using replace_loop [OF start assms(3), of LCFG_CHANGE_NONE old global msg] by (auto simp: names_in_def)
  have ok': "mem_ok m'" and d': "dll (tm_nodes m') None ps' None"
    and count': "\<And>x. count (held ps') x + count (own_tag nt') x \<le> tag_refs m' x"
    using q(2) by (simp_all add: replacing_def)
  have fsts: "map fst ps' = map fst ps" using q(3) by (simp add: replaced_def)
  note ends = same_ends [OF fsts]
  obtain m2 where r: "lcfgtag_relinquish m' nt' = Some m2" "mem_ok m2" "tm_nodes m2 = tm_nodes m'" "tm_free m2 = tm_free m'"
    "\<And>x. tag_refs m2 x + count (own_tag nt') x = tag_refs m' x" "\<And>x. 0 < tag_refs m2 x \<Longrightarrow> tag_text m2 x = tag_text m' x"
  proof (cases nt')
    case None
    with that [of m'] ok' show thesis by (simp add: lcfgtag_relinquish_def own_tag_def)
  next
    case (Some b)
    have live: "0 < tag_refs m' b" using count' [of b] Some by (simp add: own_tag_def)
    obtain k where k: "lcfgtag_relinquish m' (Some b) = Some k" "mem_ok k" "tm_nodes k = tm_nodes m'" "tm_free k = tm_free m'"
      "\<And>x. tag_refs k x = (if x = b then tag_refs m' x - 1 else tag_refs m' x)" "\<And>x. 0 < tag_refs k x \<Longrightarrow> tag_text k x = tag_text m' x"
      using lcfgtag_relinquish_result [OF ok' live] by blast
    have "tag_refs k x + count (own_tag nt') x = tag_refs m' x" for x using k(5) [of x] live Some by (cases "x = b") (simp_all add: own_tag_def)
    with that [of k] k Some show thesis by blast
  qed
  have run: "lcfgtaglist_mutate_replace m l old r global msg =
      Some (if old \<in> set (names_in m ps) then LCFG_CHANGE_REPLACED else LCFG_CHANGE_NONE, msg, m2)"
    using q(1) r(1) c(3,4) False assms(3)
    by (simp add: lcfgtaglist_mutate_replace_def lcfgtaglist_is_empty_def)
  have count2: "count (held ps') x \<le> tag_refs m2 x" for x using count' [of x] r(5) [of x] by linarith
  have list2: "taglist_in m2 l ps'" using d' r(3) fsts ends c count2 by (simp add: taglist_in_def chain_in_def)
  have refs2: "tag_refs m2 x + count (held ps) x = tag_refs m x + count (held ps') x" for x
  proof -
    have "tag_refs m' x + count (held ps) x = tag_refs m x + count (held ps') x + count (own_tag nt') x"
      using q(3) by (simp add: replaced_def own_tag_def)
    with r(5) [of x] show ?thesis by linarith
  qed
  have text2: "0 < tag_refs m x \<and> tag_text m2 x = tag_text m x" if "x < tm_free m" "0 < tag_refs m2 x" for x
  proof -
    have "0 < tag_refs m' x" using r(5) [of x] that(2) by linarith
    with q(3) r(6) [OF that(2)] that(1) show ?thesis by (simp add: replaced_def)
  qed
  have nodes2: "tm_nodes m2 x = (if x \<in> fst ` set ps \<or> tm_free m \<le> x then None else tm_nodes m x)"
    if "x \<notin> fst ` set ps'" for x
    using that q(3) r(3) ends(4) assms(1) by (auto simp: replaced_def mem_ok_def)
  have "tm_free m \<le> tm_free m2" "\<forall>x\<in>fst ` set ps'. x \<in> fst ` set ps \<or> tm_free m \<le> x"
    using q(3) r(4) ends(4) by (auto simp: replaced_def)
  then have step: "tag_step m ps m2 ps'" using r(2) refs2 text2 nodes2 unfolding tag_step_def by blast
  have "tag_text m2 t = tag_text m' t" if "t \<in> snd ` set ps'" for t
  proof -
    have "0 < count (held ps') t" using that by (simp add: held_def)
    then have "0 < tag_refs m2 t" using count2 [of t] by linarith
    then show ?thesis by (rule r(6))
  qed
  then have "names_in m2 ps' = names_in m' ps'" by (simp add: names_in_def)
  with run list2 step q(4) show ?thesis by auto
qed

section \<open>Iterators\<close>

text \<open>
  The position of an iterator in a chain: \<open>None\<close> before the first step, otherwise an index.
\<close>

definition iter_at :: "(nat \<times> nat) list \<Rightarrow> LCFGTagIterator \<Rightarrow> nat option \<Rightarrow> bool" where
  "iter_at ps it i \<longleftrightarrow> (case i of None \<Rightarrow> ti_current it = None | Some k \<Rightarrow> k < length ps \<and> ti_current it = Some (fst (ps ! k)))"

lemma dll_nth:
  assumes "dll ns None ps None" and "k < length ps"
  shows "ns (fst (ps ! k)) = Some \<lparr>tn_tag = snd (ps ! k), tn_prev = (if k = 0 then None else Some (fst (ps ! (k - 1)))),
    tn_next = (if Suc k < length ps then Some (fst (ps ! Suc k)) else None)\<rparr>"
proof -
  obtain a t where at: "ps ! k = (a, t)" by force
  have split: "ps = take k ps @ (a, t) # drop (Suc k) ps" using assms(2) at by (metis id_take_nth_drop)
  have "dll ns None (take k ps @ (a, t) # drop (Suc k) ps) None" using assms(1) split by metis
  then have "ns a = Some \<lparr>tn_tag = t, tn_prev = last_of None (take k ps), tn_next = first_of None (drop (Suc k) ps)\<rparr>"
    by (simp add: dll_append)
  moreover have "last_of None (take k ps) = (if k = 0 then None else Some (fst (ps ! (k - 1))))"
    using assms(2) by (auto simp: last_of_def last_conv_nth min_def)
  moreover have "first_of None (drop (Suc k) ps) = (if Suc k < length ps then Some (fst (ps ! Suc k)) else None)"
  proof (cases "Suc k < length ps")
    case True
    then have "drop (Suc k) ps = ps ! Suc k # drop (Suc (Suc k)) ps" by (rule Cons_nth_drop_Suc [symmetric])
    with True show ?thesis by (simp add: first_of_def)
  qed simp
  ultimately show ?thesis using at by simp
qed

lemma iter_next_result:
  assumes "chain_in m (ti_list it) ps" and "iter_at ps it i"
  shows "lcfgtagiter_next m it =
    (let k = (case i of None \<Rightarrow> 0 | Some k \<Rightarrow> Suc k)
     in if k < length ps then Some (Some (snd (ps ! k)), it\<lparr>ti_current := Some (fst (ps ! k))\<rparr>) else Some (None, it))"
proof -
  have c: "dll (tm_nodes m) None ps None" "tl_head (ti_list it) = first_of None ps" "tl_size (ti_list it) = length ps"
    using assms(1) by (simp_all add: chain_in_def)
  note at = dll_nth [OF c(1)]
  have head: "0 < length ps \<Longrightarrow> first_of None ps = Some (fst (ps ! 0))" by (cases ps) (simp_all add: first_of_def)
  show ?thesis
    using assms(2) c(2,3) at [of 0] head
    by (cases i) (auto simp: Let_def lcfgtagiter_next_def lcfgtagiter_has_next_def iter_at_def lcfgtaglist_is_empty_def iter_tag_def at)
qed

lemma iter_prev_result:
  assumes "chain_in m (ti_list it) ps" and "iter_at ps it i"
  shows "lcfgtagiter_prev m it =
    (let k = (case i of None \<Rightarrow> length ps | Some k \<Rightarrow> k)
     in if 0 < k then Some (Some (snd (ps ! (k - 1))), it\<lparr>ti_current := Some (fst (ps ! (k - 1)))\<rparr>) else Some (None, it))"
proof -
  have c: "dll (tm_nodes m) None ps None" "tl_tail (ti_list it) = last_of None ps" "tl_size (ti_list it) = length ps"
    using assms(1) by (simp_all add: chain_in_def)
  note at = dll_nth [OF c(1)]
  have tail: "0 < length ps \<Longrightarrow> last_of None ps = Some (fst (ps ! (length ps - 1)))" by (simp add: last_of_def last_conv_nth)
  show ?thesis
    using assms(2) c(2,3) at [of "length ps - 1"] tail
    by (cases i) (auto simp: Let_def lcfgtagiter_prev_def lcfgtagiter_has_prev_def iter_at_def lcfgtaglist_is_empty_def iter_tag_def at)
qed


section \<open>Properties\<close>

definition sample_tag :: "string \<Rightarrow> LCFGTag" where
  "sample_tag s = \<lparr>tag_name = Some s, tag_name_len = length s, tag_hash = 0, tag_refcount = 1\<rparr>"

text \<open>A list with the tags \<open>b\<close> and \<open>a\<close>.\<close>

definition sample_mem :: tag_mem where
  "sample_mem = \<lparr>tm_tags = [0 \<mapsto> sample_tag ''b'', 1 \<mapsto> sample_tag ''a''],
     tm_nodes = [2 \<mapsto> \<lparr>tn_tag = 0, tn_prev = None, tn_next = Some 3\<rparr>, 3 \<mapsto> \<lparr>tn_tag = 1, tn_prev = Some 2, tn_next = None\<rparr>],
     tm_free = 4\<rparr>"

definition sample_tags :: LCFGTagList where
  "sample_tags = \<lparr>tl_head = Some 2, tl_tail = Some 3, tl_size = 2, tl_refcount = 1\<rparr>"

lemma sample_list:
  "mem_ok sample_mem" "taglist_in sample_mem sample_tags [(2, 0), (3, 1)]"
  "names_in sample_mem [(2, 0), (3, 1)] = [''b'', ''a'']"
  by (auto simp: mem_ok_def sample_mem_def sample_tag_def tag_ok_def lcfgresource_valid_tag_def isword_def isalnum_def
      lcfg_chr byte_def taglist_in_def chain_in_def sample_tags_def held_def tag_refs_def names_in_def tag_text_def)

text \<open>
  C24: Insertion after a node (or at the head) and removal of a node refine insertion into and
  removal from a sequence. Both links of every node, the head, the tail and the size agree
  with the sequence afterwards, no other node of the memory changes, the tag inserted gains
  one reference, and a removal whose tag is released gives back its reference and its node.
\<close>

theorem taglist_refines_sequence:
  assumes "mem_ok m" and "taglist_in m l (us @ vs)"
  shows "(\<forall>tag. tm_tags m tag \<noteq> None \<longrightarrow>
      (\<exists>l' m'. lcfgtaglist_insert_next m l (last_of None us) (Some tag) = Some (LCFG_CHANGE_ADDED, l', m') \<and>
        taglist_in m' l' (us @ (tm_free m, tag) # vs) \<and> tag_step m (us @ vs) m' (us @ (tm_free m, tag) # vs))) \<and>
    (\<forall>a s ws. vs = (a, s) # ws \<longrightarrow>
      (\<exists>l' m1 m'. lcfgtaglist_remove_tag m l (Some a) = Some (LCFG_CHANGE_REMOVED, l', Some s, m1) \<and>
        lcfgtag_relinquish m1 (Some s) = Some m' \<and> taglist_in m' l' (us @ ws) \<and> tag_step m (us @ vs) m' (us @ ws)))"
  using insert_step [OF assms] tag_remove_step [OF assms] by blast

lemma taglist_refines_sequence_witness:
  "(\<exists>l' m'. lcfgtaglist_insert_next sample_mem sample_tags (last_of None [(2, 0)]) (Some 1) = Some (LCFG_CHANGE_ADDED, l', m') \<and>
     taglist_in m' l' ([(2, 0)] @ (tm_free sample_mem, 1) # [(3, 1)]) \<and>
     tag_step sample_mem ([(2, 0)] @ [(3, 1)]) m' ([(2, 0)] @ (tm_free sample_mem, 1) # [(3, 1)])) \<and>
   (\<exists>l' m1 m'. lcfgtaglist_remove_tag sample_mem sample_tags (Some 3) = Some (LCFG_CHANGE_REMOVED, l', Some 1, m1) \<and>
     lcfgtag_relinquish m1 (Some 1) = Some m' \<and> taglist_in m' l' ([(2, 0)] @ []) \<and>
     tag_step sample_mem ([(2, 0)] @ [(3, 1)]) m' ([(2, 0)] @ []))"
proof -
  have l: "taglist_in sample_mem sample_tags ([(2, 0)] @ [(3, 1)])" using sample_list(2) by simp
  have "tm_tags sample_mem 1 \<noteq> None" by (simp add: sample_mem_def)
  with taglist_refines_sequence [OF sample_list(1) l] show ?thesis by blast
qed

text \<open>
  The set operations on two tag lists give a new list with the names of the union, the
  intersection and the difference, each once and in the order of its first occurrence; both
  lists stay as they were and each tag of the result has gained exactly one reference.
\<close>

theorem taglist_set_operations:
  assumes "mem_ok m" and "taglist_in m l1 ps" and "taglist_in m l2 qs"
  shows "(\<exists>l m' rs. lcfgtaglist_set_union m l1 l2 = Some (Some l, m') \<and> taglist_in m' l rs \<and> tag_grow m [] m' rs \<and>
      names_in m' rs = first_occurrences (names_in m ps @ names_in m qs)) \<and>
    (\<exists>l m' rs. lcfgtaglist_set_intersection m l1 l2 = Some (Some l, m') \<and> taglist_in m' l rs \<and> tag_grow m [] m' rs \<and>
      names_in m' rs = first_occurrences (filter (\<lambda>n. n \<in> set (names_in m qs)) (names_in m ps))) \<and>
    (\<exists>l m' rs. lcfgtaglist_set_subtract m l1 l2 = Some (Some l, m') \<and> taglist_in m' l rs \<and> tag_grow m [] m' rs \<and>
      names_in m' rs = first_occurrences (filter (\<lambda>n. n \<notin> set (names_in m qs)) (names_in m ps))) \<and>
    (\<forall>m' rs. tag_grow m [] m' rs \<longrightarrow> taglist_in m' l1 ps \<and> taglist_in m' l2 qs)"
proof (intro conjI allI impI)
  show "\<exists>l m' rs. lcfgtaglist_set_union m l1 l2 = Some (Some l, m') \<and> taglist_in m' l rs \<and> tag_grow m [] m' rs \<and>
      names_in m' rs = first_occurrences (names_in m ps @ names_in m qs)"
    using union_result [OF assms] by blast
  show "\<exists>l m' rs. lcfgtaglist_set_intersection m l1 l2 = Some (Some l, m') \<and> taglist_in m' l rs \<and> tag_grow m [] m' rs \<and>
      names_in m' rs = first_occurrences (filter (\<lambda>n. n \<in> set (names_in m qs)) (names_in m ps))"
    unfolding lcfgtaglist_set_intersection_def
    using both_result [of "\<lambda>m l. lcfgtaglist_contains m (Some l)" "\<lambda>n ns. n \<in> set ns", OF contains_result assms] by blast
  show "\<exists>l m' rs. lcfgtaglist_set_subtract m l1 l2 = Some (Some l, m') \<and> taglist_in m' l rs \<and> tag_grow m [] m' rs \<and>
      names_in m' rs = first_occurrences (filter (\<lambda>n. n \<notin> set (names_in m qs)) (names_in m ps))"
    unfolding lcfgtaglist_set_subtract_def
    using both_result [of absent "\<lambda>n ns. n \<notin> set ns", OF absent_result assms] by blast
  show "taglist_in m' l1 ps" "taglist_in m' l2 qs" if "tag_grow m [] m' rs" for m' rs
    using other_list(1) [OF that assms(1)] assms(2,3) by simp_all
qed

lemma taglist_set_operations_witness:
  "\<exists>l m' rs. lcfgtaglist_set_union sample_mem sample_tags sample_tags = Some (Some l, m') \<and> taglist_in m' l rs \<and>
     tag_grow sample_mem [] m' rs \<and> names_in m' rs = [''b'', ''a'']"
  using taglist_set_operations [OF sample_list(1,2,2)] unfolding sample_list(3) by (simp add: first_occurrences_def)

text \<open>
  C25: Reading a tag list from a string splits it at white space and accepts it exactly when
  every part is a valid tag. The list then has the tags in order; otherwise the error leaves
  every node of the memory and every reference as it was.
\<close>

theorem taglist_from_string_spec:
  assumes "mem_ok m"
  shows "read_names (strtok tag_seps input) m (lcfgtaglist_from_string m input msg)"
  using from_array_result [OF assms] by (simp add: from_string_array)

lemma taglist_from_string_spec_witness:
  "read_names (strtok tag_seps ''foo -'') \<lparr>tm_tags = Map.empty, tm_nodes = Map.empty, tm_free = 0\<rparr>
     (lcfgtaglist_from_string \<lparr>tm_tags = Map.empty, tm_nodes = Map.empty, tm_free = 0\<rparr> ''foo -'' None)"
  by (rule taglist_from_string_spec) (simp add: mem_ok_def)

text \<open>
  The text of a tag list is as long as the length computed for its buffer, and reading it
  back, with or without its newline, gives a new list with the same tags in the same order.
\<close>

theorem taglist_string_roundtrip:
  assumes "mem_ok m" and "taglist_in m l ps"
  shows "\<exists>s. lcfgtaglist_to_string m l options = Some (length s, s) \<and>
    (\<exists>l' msg' m' qs. lcfgtaglist_from_string m s msg = Some (LCFG_STATUS_OK, Some l', msg', m') \<and> taglist_in m' l' qs \<and>
      names_in m' qs = names_in m ps)"
proof -
  let ?nl = "if has_bit options LCFG_OPT_NEWLINE then [CHR 0x0A] else []"
  have names: "n \<noteq> [] \<and> (\<forall>c\<in>set n. isword c)" if "n \<in> set (names_in m ps)" for n
  proof -
    obtain a t where at: "(a, t) \<in> set ps" "n = tag_text m t" using \<open>n \<in> set (names_in m ps)\<close> by (auto simp: names_in_def)
    obtain u where u: "tm_tags m t = Some u" using held_live [OF assms(2) at(1)] tag_refs_live by blast
    then have "tag_ok u" using assms(1) by (auto simp: mem_ok_def)
    with u at(2) show ?thesis
      by (auto simp: tag_ok_def tag_text_def lcfgresource_valid_tag_def list_all_iff or_default_empty elim!: not_isemptyE)
  qed
  have sep: "\<not> tag_seps c" "\<not> isspace c" if "isword c" for c
    using that isword_not_isspace [OF that] by (auto simp: tag_seps_def lcfg_chr byte_def)
  have tokens: "strtok tag_seps (tags_text (names_in m ps) options) = names_in m ps"
    unfolding tags_text_def
  proof (rule strtok_join)
    show "\<forall>t\<in>set (names_in m ps). t \<noteq> [] \<and> (\<forall>c\<in>set t. \<not> tag_seps c)" using names sep by blast
    show "strtok tag_seps ?nl = []" by (auto simp: strtok_space tag_seps_def strtok.simps)
  qed (auto simp: tag_seps_def)
  have valid: "lcfgresource_valid_tag (Some (skip_space n)) \<and> skip_space n = n" if "n \<in> set (names_in m ps)" for n
  proof -
    have "skip_space n = n" using names [OF that] sep(2) by (intro skip_space_id) (cases n; auto)
    with names [OF that] show ?thesis by (simp add: lcfgresource_valid_tag_def list_all_iff)
  qed
  have same: "map skip_space (names_in m ps) = names_in m ps" using valid by (simp add: map_idI)
  have "read_names (names_in m ps) m (lcfgtaglist_from_string m (tags_text (names_in m ps) options) msg)"
    using from_array_result [OF assms(1), of "names_in m ps" msg] by (simp add: from_string_array tokens)
  moreover have "\<forall>n\<in>set (names_in m ps). lcfgresource_valid_tag (Some (skip_space n))" using valid by blast
  ultimately have "\<exists>l' msg' m' qs. lcfgtaglist_from_string m (tags_text (names_in m ps) options) msg =
      Some (LCFG_STATUS_OK, Some l', msg', m') \<and> taglist_in m' l' qs \<and> names_in m' qs = names_in m ps"
    unfolding read_names_def same by (auto split: if_splits)
  then show ?thesis unfolding to_string_result [OF assms] by blast
qed

lemma taglist_string_roundtrip_witness:
  "\<exists>s. lcfgtaglist_to_string sample_mem sample_tags LCFG_OPT_NEWLINE = Some (length s, s) \<and>
    (\<exists>l' msg' m' qs. lcfgtaglist_from_string sample_mem s None = Some (LCFG_STATUS_OK, Some l', msg', m') \<and> taglist_in m' l' qs \<and>
      names_in m' qs = names_in sample_mem [(2, 0), (3, 1)])"
  by (rule taglist_string_roundtrip [OF sample_list(1,2)])


text \<open>
  C26: Sorting a tag list terminates. The tags of the list are the same with their references,
  in the order of their names.
\<close>

theorem taglist_sort_spec:
  assumes "mem_ok m" and "taglist_in m l ps"
  shows "\<exists>m' ps'. lcfgtaglist_sort m l = Some m' \<and> taglist_in m' l ps' \<and> tag_step m ps m' ps' \<and>
    mset (map snd ps') = mset (map snd ps) \<and> sorted_wrt (\<lambda>a b. strcmp a b \<le> 0) (names_in m' ps')"
  by (rule sort_result [OF assms])

lemma taglist_sort_spec_witness:
  "\<exists>m' ps'. lcfgtaglist_sort sample_mem sample_tags = Some m' \<and> taglist_in m' sample_tags ps' \<and>
    tag_step sample_mem [(2, 0), (3, 1)] m' ps' \<and> mset (map snd ps') = mset (map snd [(2 :: nat, 0), (3, 1)]) \<and>
    sorted_wrt (\<lambda>a b. strcmp a b \<le> 0) (names_in m' ps')"
  by (rule taglist_sort_spec [OF sample_list(1,2)])

text \<open>
  Replacing a tag puts the new name in the place of the first match, or of every match when
  it is global. The change code tells whether there was one, and every replaced tag is released.
\<close>

theorem taglist_replace_spec:
  assumes "mem_ok m" and "taglist_in m l ps" and "lcfgresource_valid_tag (Some r)"
  shows "\<exists>m' ps'. lcfgtaglist_mutate_replace m l old r global msg =
      Some (if old \<in> set (names_in m ps) then LCFG_CHANGE_REPLACED else LCFG_CHANGE_NONE, msg, m') \<and>
    taglist_in m' l ps' \<and> tag_step m ps m' ps' \<and> names_in m' ps' = replace_names old r global (names_in m ps)"
  by (rule replace_result [OF assms])

lemma taglist_replace_spec_witness:
  "\<exists>m' ps'. lcfgtaglist_mutate_replace sample_mem sample_tags ''b'' ''c'' True None =
      Some (if ''b'' \<in> set (names_in sample_mem [(2, 0), (3, 1)]) then LCFG_CHANGE_REPLACED else LCFG_CHANGE_NONE, None, m') \<and>
    taglist_in m' sample_tags ps' \<and> tag_step sample_mem [(2, 0), (3, 1)] m' ps' \<and>
    names_in m' ps' = replace_names ''b'' ''c'' True (names_in sample_mem [(2, 0), (3, 1)])"
  by (rule taglist_replace_spec [OF sample_list(1,2)])
    (simp add: lcfgresource_valid_tag_def isword_def isalnum_def lcfg_chr byte_def)

text \<open>The results of \<open>n\<close> steps of an iterator.\<close>

fun iterate ::
    "(tag_mem \<Rightarrow> LCFGTagIterator \<Rightarrow> (nat option \<times> LCFGTagIterator) option) \<Rightarrow> nat \<Rightarrow> tag_mem \<Rightarrow> LCFGTagIterator \<Rightarrow>
     nat option list option" where
  "iterate step 0 m it = Some []"
| "iterate step (Suc n) m it = do {
     (tag, it') \<leftarrow> step m it;
     rest \<leftarrow> iterate step n m it';
     Some (tag # rest)
   }"

lemma iterate_next:
  assumes "chain_in m (ti_list it) ps" and "iter_at ps it i"
  shows "iterate lcfgtagiter_next (length ps + 1 - (case i of None \<Rightarrow> 0 | Some k \<Rightarrow> Suc k)) m it =
    Some (map (Some \<circ> snd) (drop (case i of None \<Rightarrow> 0 | Some k \<Rightarrow> Suc k) ps) @ [None])"
  using assms
proof (induction "length ps - (case i of None \<Rightarrow> 0 | Some k \<Rightarrow> Suc k)" arbitrary: it i)
  case 0
  let ?k = "case i of None \<Rightarrow> 0 | Some k \<Rightarrow> Suc k"
  have k: "?k = length ps" using 0 by (auto simp: iter_at_def split: option.splits)
  then show ?case using iter_next_result [OF 0(2,3)] by (simp add: k)
next
  case (Suc n)
  let ?k = "case i of None \<Rightarrow> 0 | Some k \<Rightarrow> Suc k"
  have k: "?k < length ps" using Suc(2) by linarith
  let ?it = "it\<lparr>ti_current := Some (fst (ps ! ?k))\<rparr>"
  have "chain_in m (ti_list ?it) ps" "iter_at ps ?it (Some ?k)" using Suc(3) k by (simp_all add: iter_at_def)
  from Suc(1) [OF _ this] Suc(2)
  have IH: "iterate lcfgtagiter_next (length ps - ?k) m ?it = Some (map (Some \<circ> snd) (drop (Suc ?k) ps) @ [None])" by simp
  have "lcfgtagiter_next m it = Some (Some (snd (ps ! ?k)), ?it)" using iter_next_result [OF Suc(3,4)] k by (simp add: Let_def)
  moreover have "length ps + 1 - ?k = Suc (length ps - ?k)" using k by simp
  moreover have "drop ?k ps = ps ! ?k # drop (Suc ?k) ps" using k by (simp add: Cons_nth_drop_Suc)
  ultimately show ?case using IH by simp
qed

lemma iterate_prev:
  assumes "chain_in m (ti_list it) ps" and "iter_at ps it i"
  shows "iterate lcfgtagiter_prev ((case i of None \<Rightarrow> length ps | Some k \<Rightarrow> k) + 1) m it =
    Some (map (Some \<circ> snd) (rev (take (case i of None \<Rightarrow> length ps | Some k \<Rightarrow> k) ps)) @ [None])"
  using assms
proof (induction "case i of None \<Rightarrow> length ps | Some k \<Rightarrow> k" arbitrary: it i)
  case 0
  then show ?case using iter_prev_result [OF 0(2,3)] by simp
next
  case (Suc n)
  let ?k = "case i of None \<Rightarrow> length ps | Some k \<Rightarrow> k"
  have k: "?k = Suc n" "n < length ps" using Suc(2,4) by (auto simp: iter_at_def split: option.splits)
  let ?it = "it\<lparr>ti_current := Some (fst (ps ! n))\<rparr>"
  have "chain_in m (ti_list ?it) ps" "iter_at ps ?it (Some n)" using Suc(3) k by (simp_all add: iter_at_def)
  from Suc(1) [OF _ this]
  have IH: "iterate lcfgtagiter_prev (n + 1) m ?it = Some (map (Some \<circ> snd) (rev (take n ps)) @ [None])" by simp
  have "lcfgtagiter_prev m it = Some (Some (snd (ps ! n)), ?it)" using iter_prev_result [OF Suc(3,4)] k by simp
  then have "iterate lcfgtagiter_prev (Suc (n + 1)) m it = Some (Some (snd (ps ! n)) # map (Some \<circ> snd) (rev (take n ps)) @ [None])"
    by (subst iterate.simps(2)) (simp add: IH [folded Suc_eq_plus1] del: iterate.simps)
  moreover have "take (Suc n) ps = take n ps @ [ps ! n]" using k(2) by (simp add: take_Suc_conv_app_nth)
  ultimately show ?case using k(1) by (simp del: iterate.simps)
qed

text \<open>
  A new iterator over a tag list gives each tag once from the head to the tail and then
  nothing, and in the other direction each tag once from the tail to the head.
\<close>

theorem taglist_iteration_complete:
  assumes "taglist_in m l ps"
  shows "iterate lcfgtagiter_next (length ps + 1) m (lcfgtagiter_new l) = Some (map (Some \<circ> snd) ps @ [None])"
    and "iterate lcfgtagiter_prev (length ps + 1) m (lcfgtagiter_new l) = Some (map (Some \<circ> snd) (rev ps) @ [None])"
proof -
  have "chain_in m (ti_list (lcfgtagiter_new l)) ps" "iter_at ps (lcfgtagiter_new l) None"
    using assms by (simp_all add: lcfgtagiter_new_def lcfgtaglist_acquire_def taglist_in_def chain_in_def iter_at_def)
  from iterate_next [OF this] iterate_prev [OF this]
  show "iterate lcfgtagiter_next (length ps + 1) m (lcfgtagiter_new l) = Some (map (Some \<circ> snd) ps @ [None])"
    and "iterate lcfgtagiter_prev (length ps + 1) m (lcfgtagiter_new l) = Some (map (Some \<circ> snd) (rev ps) @ [None])" by simp_all
qed

lemma taglist_iteration_complete_witness:
  "iterate lcfgtagiter_next (length [(2::nat, 0::nat), (3, 1)] + 1) sample_mem (lcfgtagiter_new sample_tags) =
     Some (map (Some \<circ> snd) [(2 :: nat, 0), (3, 1)] @ [None])"
  by (rule taglist_iteration_complete(1) [OF sample_list(2)])

end
