(* ===== verification/Lcfg_Entities.thy ===== *)
theory Lcfg_Entities
  imports Lcfg_Utils Lcfg_SList "HOL-Library.Monad_Syntax"
begin

text \<open>
  Decoding of HTML entities (\<open>utils/entities.c\<close>), which the values of resources go through
  when they are read. The code decodes a string in place: the model has the buffer and the
  two positions in it, and \<open>None\<close> stands for a write outside of the buffer. Only the call
  without a separate source is modelled, the one the libraries use.
\<close>

section \<open>Named entities\<close>

text \<open>The names and the bytes of the characters, in the order of \<open>strcmp\<close>.\<close>

definition NAMED_ENTITIES :: "(string \<times> string) list" where
  "NAMED_ENTITIES = [
    (''AElig;'', [CHR 0xC3, CHR 0x86]), (''Aacute;'', [CHR 0xC3, CHR 0x81]),
    (''Acirc;'', [CHR 0xC3, CHR 0x82]), (''Agrave;'', [CHR 0xC3, CHR 0x80]),
    (''Alpha;'', [CHR 0xCE, CHR 0x91]), (''Aring;'', [CHR 0xC3, CHR 0x85]),
    (''Atilde;'', [CHR 0xC3, CHR 0x83]), (''Auml;'', [CHR 0xC3, CHR 0x84]),
    (''Beta;'', [CHR 0xCE, CHR 0x92]), (''Ccedil;'', [CHR 0xC3, CHR 0x87]),
    (''Chi;'', [CHR 0xCE, CHR 0xA7]), (''Dagger;'', [CHR 0xE2, CHR 0x80, CHR 0xA1]),
    (''Delta;'', [CHR 0xCE, CHR 0x94]), (''ETH;'', [CHR 0xC3, CHR 0x90]),
    (''Eacute;'', [CHR 0xC3, CHR 0x89]), (''Ecirc;'', [CHR 0xC3, CHR 0x8A]),
    (''Egrave;'', [CHR 0xC3, CHR 0x88]), (''Epsilon;'', [CHR 0xCE, CHR 0x95]),
    (''Eta;'', [CHR 0xCE, CHR 0x97]), (''Euml;'', [CHR 0xC3, CHR 0x8B]),
    (''Gamma;'', [CHR 0xCE, CHR 0x93]), (''Iacute;'', [CHR 0xC3, CHR 0x8D]),
    (''Icirc;'', [CHR 0xC3, CHR 0x8E]), (''Igrave;'', [CHR 0xC3, CHR 0x8C]),
    (''Iota;'', [CHR 0xCE, CHR 0x99]), (''Iuml;'', [CHR 0xC3, CHR 0x8F]),
    (''Kappa;'', [CHR 0xCE, CHR 0x9A]), (''Lambda;'', [CHR 0xCE, CHR 0x9B]),
    (''Mu;'', [CHR 0xCE, CHR 0x9C]), (''Ntilde;'', [CHR 0xC3, CHR 0x91]),
    (''Nu;'', [CHR 0xCE, CHR 0x9D]), (''OElig;'', [CHR 0xC5, CHR 0x92]),
    (''Oacute;'', [CHR 0xC3, CHR 0x93]), (''Ocirc;'', [CHR 0xC3, CHR 0x94]),
    (''Ograve;'', [CHR 0xC3, CHR 0x92]), (''Omega;'', [CHR 0xCE, CHR 0xA9]),
    (''Omicron;'', [CHR 0xCE, CHR 0x9F]), (''Oslash;'', [CHR 0xC3, CHR 0x98]),
    (''Otilde;'', [CHR 0xC3, CHR 0x95]), (''Ouml;'', [CHR 0xC3, CHR 0x96]),
    (''Phi;'', [CHR 0xCE, CHR 0xA6]), (''Pi;'', [CHR 0xCE, CHR 0xA0]),
    (''Prime;'', [CHR 0xE2, CHR 0x80, CHR 0xB3]), (''Psi;'', [CHR 0xCE, CHR 0xA8]),
    (''Rho;'', [CHR 0xCE, CHR 0xA1]), (''Scaron;'', [CHR 0xC5, CHR 0xA0]),
    (''Sigma;'', [CHR 0xCE, CHR 0xA3]), (''THORN;'', [CHR 0xC3, CHR 0x9E]),
    (''Tau;'', [CHR 0xCE, CHR 0xA4]), (''Theta;'', [CHR 0xCE, CHR 0x98]),
    (''Uacute;'', [CHR 0xC3, CHR 0x9A]), (''Ucirc;'', [CHR 0xC3, CHR 0x9B]),
    (''Ugrave;'', [CHR 0xC3, CHR 0x99]), (''Upsilon;'', [CHR 0xCE, CHR 0xA5]),
    (''Uuml;'', [CHR 0xC3, CHR 0x9C]), (''Xi;'', [CHR 0xCE, CHR 0x9E]),
    (''Yacute;'', [CHR 0xC3, CHR 0x9D]), (''Yuml;'', [CHR 0xC5, CHR 0xB8]),
    (''Zeta;'', [CHR 0xCE, CHR 0x96]), (''aacute;'', [CHR 0xC3, CHR 0xA1]),
    (''acirc;'', [CHR 0xC3, CHR 0xA2]), (''acute;'', [CHR 0xC2, CHR 0xB4]),
    (''aelig;'', [CHR 0xC3, CHR 0xA6]), (''agrave;'', [CHR 0xC3, CHR 0xA0]),
    (''alefsym;'', [CHR 0xE2, CHR 0x84, CHR 0xB5]), (''alpha;'', [CHR 0xCE, CHR 0xB1]),
    (''amp;'', [CHR 0x26]), (''and;'', [CHR 0xE2, CHR 0x88, CHR 0xA7]),
    (''ang;'', [CHR 0xE2, CHR 0x88, CHR 0xA0]), (''apos;'', [CHR 0x27]),
    (''aring;'', [CHR 0xC3, CHR 0xA5]), (''asymp;'', [CHR 0xE2, CHR 0x89, CHR 0x88]),
    (''atilde;'', [CHR 0xC3, CHR 0xA3]), (''auml;'', [CHR 0xC3, CHR 0xA4]),
    (''bdquo;'', [CHR 0xE2, CHR 0x80, CHR 0x9E]), (''beta;'', [CHR 0xCE, CHR 0xB2]),
    (''brvbar;'', [CHR 0xC2, CHR 0xA6]), (''bull;'', [CHR 0xE2, CHR 0x80, CHR 0xA2]),
    (''cap;'', [CHR 0xE2, CHR 0x88, CHR 0xA9]), (''ccedil;'', [CHR 0xC3, CHR 0xA7]),
    (''cedil;'', [CHR 0xC2, CHR 0xB8]), (''cent;'', [CHR 0xC2, CHR 0xA2]),
    (''chi;'', [CHR 0xCF, CHR 0x87]), (''circ;'', [CHR 0xCB, CHR 0x86]),
    (''clubs;'', [CHR 0xE2, CHR 0x99, CHR 0xA3]), (''cong;'', [CHR 0xE2, CHR 0x89, CHR 0x85]),
    (''copy;'', [CHR 0xC2, CHR 0xA9]), (''crarr;'', [CHR 0xE2, CHR 0x86, CHR 0xB5]),
    (''cup;'', [CHR 0xE2, CHR 0x88, CHR 0xAA]), (''curren;'', [CHR 0xC2, CHR 0xA4]),
    (''dArr;'', [CHR 0xE2, CHR 0x87, CHR 0x93]), (''dagger;'', [CHR 0xE2, CHR 0x80, CHR 0xA0]),
    (''darr;'', [CHR 0xE2, CHR 0x86, CHR 0x93]), (''deg;'', [CHR 0xC2, CHR 0xB0]),
    (''delta;'', [CHR 0xCE, CHR 0xB4]), (''diams;'', [CHR 0xE2, CHR 0x99, CHR 0xA6]),
    (''divide;'', [CHR 0xC3, CHR 0xB7]), (''eacute;'', [CHR 0xC3, CHR 0xA9]),
    (''ecirc;'', [CHR 0xC3, CHR 0xAA]), (''egrave;'', [CHR 0xC3, CHR 0xA8]),
    (''empty;'', [CHR 0xE2, CHR 0x88, CHR 0x85]), (''emsp;'', [CHR 0xE2, CHR 0x80, CHR 0x83]),
    (''ensp;'', [CHR 0xE2, CHR 0x80, CHR 0x82]), (''epsilon;'', [CHR 0xCE, CHR 0xB5]),
    (''equiv;'', [CHR 0xE2, CHR 0x89, CHR 0xA1]), (''eta;'', [CHR 0xCE, CHR 0xB7]),
    (''eth;'', [CHR 0xC3, CHR 0xB0]), (''euml;'', [CHR 0xC3, CHR 0xAB]),
    (''euro;'', [CHR 0xE2, CHR 0x82, CHR 0xAC]), (''exist;'', [CHR 0xE2, CHR 0x88, CHR 0x83]),
    (''fnof;'', [CHR 0xC6, CHR 0x92]), (''forall;'', [CHR 0xE2, CHR 0x88, CHR 0x80]),
    (''frac12;'', [CHR 0xC2, CHR 0xBD]), (''frac14;'', [CHR 0xC2, CHR 0xBC]),
    (''frac34;'', [CHR 0xC2, CHR 0xBE]), (''frasl;'', [CHR 0xE2, CHR 0x81, CHR 0x84]),
    (''gamma;'', [CHR 0xCE, CHR 0xB3]), (''ge;'', [CHR 0xE2, CHR 0x89, CHR 0xA5]), (''gt;'', [CHR 0x3E]),
    (''hArr;'', [CHR 0xE2, CHR 0x87, CHR 0x94]), (''harr;'', [CHR 0xE2, CHR 0x86, CHR 0x94]),
    (''hearts;'', [CHR 0xE2, CHR 0x99, CHR 0xA5]), (''hellip;'', [CHR 0xE2, CHR 0x80, CHR 0xA6]),
    (''iacute;'', [CHR 0xC3, CHR 0xAD]), (''icirc;'', [CHR 0xC3, CHR 0xAE]),
    (''iexcl;'', [CHR 0xC2, CHR 0xA1]), (''igrave;'', [CHR 0xC3, CHR 0xAC]),
    (''image;'', [CHR 0xE2, CHR 0x84, CHR 0x91]), (''infin;'', [CHR 0xE2, CHR 0x88, CHR 0x9E]),
    (''int;'', [CHR 0xE2, CHR 0x88, CHR 0xAB]), (''iota;'', [CHR 0xCE, CHR 0xB9]),
    (''iquest;'', [CHR 0xC2, CHR 0xBF]), (''isin;'', [CHR 0xE2, CHR 0x88, CHR 0x88]),
    (''iuml;'', [CHR 0xC3, CHR 0xAF]), (''kappa;'', [CHR 0xCE, CHR 0xBA]),
    (''lArr;'', [CHR 0xE2, CHR 0x87, CHR 0x90]), (''lambda;'', [CHR 0xCE, CHR 0xBB]),
    (''lang;'', [CHR 0xE3, CHR 0x80, CHR 0x88]), (''laquo;'', [CHR 0xC2, CHR 0xAB]),
    (''larr;'', [CHR 0xE2, CHR 0x86, CHR 0x90]), (''lceil;'', [CHR 0xE2, CHR 0x8C, CHR 0x88]),
    (''ldquo;'', [CHR 0xE2, CHR 0x80, CHR 0x9C]), (''le;'', [CHR 0xE2, CHR 0x89, CHR 0xA4]),
    (''lfloor;'', [CHR 0xE2, CHR 0x8C, CHR 0x8A]), (''lowast;'', [CHR 0xE2, CHR 0x88, CHR 0x97]),
    (''loz;'', [CHR 0xE2, CHR 0x97, CHR 0x8A]), (''lrm;'', [CHR 0xE2, CHR 0x80, CHR 0x8E]),
    (''lsaquo;'', [CHR 0xE2, CHR 0x80, CHR 0xB9]), (''lsquo;'', [CHR 0xE2, CHR 0x80, CHR 0x98]),
    (''lt;'', [CHR 0x3C]), (''macr;'', [CHR 0xC2, CHR 0xAF]),
    (''mdash;'', [CHR 0xE2, CHR 0x80, CHR 0x94]), (''micro;'', [CHR 0xC2, CHR 0xB5]),
    (''middot;'', [CHR 0xC2, CHR 0xB7]), (''minus;'', [CHR 0xE2, CHR 0x88, CHR 0x92]),
    (''mu;'', [CHR 0xCE, CHR 0xBC]), (''nabla;'', [CHR 0xE2, CHR 0x88, CHR 0x87]),
    (''nbsp;'', [CHR 0xC2, CHR 0xA0]), (''ndash;'', [CHR 0xE2, CHR 0x80, CHR 0x93]),
    (''ne;'', [CHR 0xE2, CHR 0x89, CHR 0xA0]), (''ni;'', [CHR 0xE2, CHR 0x88, CHR 0x8B]),
    (''not;'', [CHR 0xC2, CHR 0xAC]), (''notin;'', [CHR 0xE2, CHR 0x88, CHR 0x89]),
    (''nsub;'', [CHR 0xE2, CHR 0x8A, CHR 0x84]), (''ntilde;'', [CHR 0xC3, CHR 0xB1]),
    (''nu;'', [CHR 0xCE, CHR 0xBD]), (''oacute;'', [CHR 0xC3, CHR 0xB3]),
    (''ocirc;'', [CHR 0xC3, CHR 0xB4]), (''oelig;'', [CHR 0xC5, CHR 0x93]),
    (''ograve;'', [CHR 0xC3, CHR 0xB2]), (''oline;'', [CHR 0xE2, CHR 0x80, CHR 0xBE]),
    (''omega;'', [CHR 0xCF, CHR 0x89]), (''omicron;'', [CHR 0xCE, CHR 0xBF]),
    (''oplus;'', [CHR 0xE2, CHR 0x8A, CHR 0x95]), (''or;'', [CHR 0xE2, CHR 0x88, CHR 0xA8]),
    (''ordf;'', [CHR 0xC2, CHR 0xAA]), (''ordm;'', [CHR 0xC2, CHR 0xBA]),
    (''oslash;'', [CHR 0xC3, CHR 0xB8]), (''otilde;'', [CHR 0xC3, CHR 0xB5]),
    (''otimes;'', [CHR 0xE2, CHR 0x8A, CHR 0x97]), (''ouml;'', [CHR 0xC3, CHR 0xB6]),
    (''para;'', [CHR 0xC2, CHR 0xB6]), (''part;'', [CHR 0xE2, CHR 0x88, CHR 0x82]),
    (''permil;'', [CHR 0xE2, CHR 0x80, CHR 0xB0]), (''perp;'', [CHR 0xE2, CHR 0x8A, CHR 0xA5]),
    (''phi;'', [CHR 0xCF, CHR 0x86]), (''pi;'', [CHR 0xCF, CHR 0x80]), (''piv;'', [CHR 0xCF, CHR 0x96]),
    (''plusmn;'', [CHR 0xC2, CHR 0xB1]), (''pound;'', [CHR 0xC2, CHR 0xA3]),
    (''prime;'', [CHR 0xE2, CHR 0x80, CHR 0xB2]), (''prod;'', [CHR 0xE2, CHR 0x88, CHR 0x8F]),
    (''prop;'', [CHR 0xE2, CHR 0x88, CHR 0x9D]), (''psi;'', [CHR 0xCF, CHR 0x88]),
    (''quot;'', [CHR 0x22]), (''rArr;'', [CHR 0xE2, CHR 0x87, CHR 0x92]),
    (''radic;'', [CHR 0xE2, CHR 0x88, CHR 0x9A]), (''rang;'', [CHR 0xE3, CHR 0x80, CHR 0x89]),
    (''raquo;'', [CHR 0xC2, CHR 0xBB]), (''rarr;'', [CHR 0xE2, CHR 0x86, CHR 0x92]),
    (''rceil;'', [CHR 0xE2, CHR 0x8C, CHR 0x89]), (''rdquo;'', [CHR 0xE2, CHR 0x80, CHR 0x9D]),
    (''real;'', [CHR 0xE2, CHR 0x84, CHR 0x9C]), (''reg;'', [CHR 0xC2, CHR 0xAE]),
    (''rfloor;'', [CHR 0xE2, CHR 0x8C, CHR 0x8B]), (''rho;'', [CHR 0xCF, CHR 0x81]),
    (''rlm;'', [CHR 0xE2, CHR 0x80, CHR 0x8F]), (''rsaquo;'', [CHR 0xE2, CHR 0x80, CHR 0xBA]),
    (''rsquo;'', [CHR 0xE2, CHR 0x80, CHR 0x99]), (''sbquo;'', [CHR 0xE2, CHR 0x80, CHR 0x9A]),
    (''scaron;'', [CHR 0xC5, CHR 0xA1]), (''sdot;'', [CHR 0xE2, CHR 0x8B, CHR 0x85]),
    (''sect;'', [CHR 0xC2, CHR 0xA7]), (''shy;'', [CHR 0xC2, CHR 0xAD]),
    (''sigma;'', [CHR 0xCF, CHR 0x83]), (''sigmaf;'', [CHR 0xCF, CHR 0x82]),
    (''sim;'', [CHR 0xE2, CHR 0x88, CHR 0xBC]), (''spades;'', [CHR 0xE2, CHR 0x99, CHR 0xA0]),
    (''sub;'', [CHR 0xE2, CHR 0x8A, CHR 0x82]), (''sube;'', [CHR 0xE2, CHR 0x8A, CHR 0x86]),
    (''sum;'', [CHR 0xE2, CHR 0x88, CHR 0x91]), (''sup1;'', [CHR 0xC2, CHR 0xB9]),
    (''sup2;'', [CHR 0xC2, CHR 0xB2]), (''sup3;'', [CHR 0xC2, CHR 0xB3]),
    (''sup;'', [CHR 0xE2, CHR 0x8A, CHR 0x83]), (''supe;'', [CHR 0xE2, CHR 0x8A, CHR 0x87]),
    (''szlig;'', [CHR 0xC3, CHR 0x9F]), (''tau;'', [CHR 0xCF, CHR 0x84]),
    (''there4;'', [CHR 0xE2, CHR 0x88, CHR 0xB4]), (''theta;'', [CHR 0xCE, CHR 0xB8]),
    (''thetasym;'', [CHR 0xCF, CHR 0x91]), (''thinsp;'', [CHR 0xE2, CHR 0x80, CHR 0x89]),
    (''thorn;'', [CHR 0xC3, CHR 0xBE]), (''tilde;'', [CHR 0xCB, CHR 0x9C]),
    (''times;'', [CHR 0xC3, CHR 0x97]), (''trade;'', [CHR 0xE2, CHR 0x84, CHR 0xA2]),
    (''uArr;'', [CHR 0xE2, CHR 0x87, CHR 0x91]), (''uacute;'', [CHR 0xC3, CHR 0xBA]),
    (''uarr;'', [CHR 0xE2, CHR 0x86, CHR 0x91]), (''ucirc;'', [CHR 0xC3, CHR 0xBB]),
    (''ugrave;'', [CHR 0xC3, CHR 0xB9]), (''uml;'', [CHR 0xC2, CHR 0xA8]),
    (''upsih;'', [CHR 0xCF, CHR 0x92]), (''upsilon;'', [CHR 0xCF, CHR 0x85]),
    (''uuml;'', [CHR 0xC3, CHR 0xBC]), (''weierp;'', [CHR 0xE2, CHR 0x84, CHR 0x98]),
    (''xi;'', [CHR 0xCE, CHR 0xBE]), (''yacute;'', [CHR 0xC3, CHR 0xBD]),
    (''yen;'', [CHR 0xC2, CHR 0xA5]), (''yuml;'', [CHR 0xC3, CHR 0xBF]),
    (''zeta;'', [CHR 0xCE, CHR 0xB6]), (''zwj;'', [CHR 0xE2, CHR 0x80, CHR 0x8D]),
    (''zwnj;'', [CHR 0xE2, CHR 0x80, CHR 0x8C])]"

text \<open>\<open>strncmp\<close>, and \<open>bsearch\<close> of the C library as the GNU library has it.\<close>

definition strncmp :: "string \<Rightarrow> string \<Rightarrow> nat \<Rightarrow> int" where
  "strncmp a b n = lexcmp byte (take n a) (take n b)"

function bsearch :: "('a \<Rightarrow> int) \<Rightarrow> 'a list \<Rightarrow> nat \<Rightarrow> nat \<Rightarrow> nat option" where
  "bsearch cmp xs l u =
     (if l < u then
        let i = (l + u) div 2; c = cmp (xs ! i) in
        if c < 0 then bsearch cmp xs l i
        else if 0 < c then bsearch cmp xs (i + 1) u
        else Some i
      else None)"
  by pat_completeness auto
termination by (relation "measure (\<lambda>(cmp, xs, l, u). u - l)") auto

declare bsearch.simps [simp del]

definition entity_cmp :: "string \<Rightarrow> string \<times> string \<Rightarrow> int" where
  "entity_cmp name entity = strncmp name (fst entity) (length (fst entity))"

definition get_named_entity :: "string \<Rightarrow> string option" where
  "get_named_entity name =
     map_option (\<lambda>i. snd (NAMED_ENTITIES ! i)) (bsearch (entity_cmp name) NAMED_ENTITIES 0 (length NAMED_ENTITIES))"

section \<open>Decoding\<close>

definition UNICODE_MAX :: "64 word" where "UNICODE_MAX = 0x10FFFF"

definition uchar :: "64 word \<Rightarrow> char" where "uchar w = char_of (unat w)"

definition low6 :: "64 word \<Rightarrow> 64 word" where "low6 w = (push_bit 6 2) OR (w AND 0x3F)"

definition putc_utf8 :: "64 word \<Rightarrow> string" where
  "putc_utf8 cp =
     (if cp \<le> 0x7F then [uchar cp]
      else if cp \<le> 0x7FF then [uchar (push_bit 5 6 OR drop_bit 6 cp), uchar (low6 cp)]
      else if cp \<le> 0xFFFF then
        [uchar (push_bit 4 14 OR drop_bit 12 cp), uchar (low6 (drop_bit 6 cp)), uchar (low6 cp)]
      else if cp \<le> 0x10FFFF then
        [uchar (push_bit 3 30 OR drop_bit 18 cp), uchar (low6 (drop_bit 12 cp)), uchar (low6 (drop_bit 6 cp)),
         uchar (low6 cp)]
      else [])"

text \<open>
  The entity at the start of a text: the bytes for it and what follows. An error of
  \<open>strtoul\<close> is a number beyond \<open>UNICODE_MAX\<close>.
\<close>

definition parse_entity :: "string \<Rightarrow> (string \<times> string) option" where
  "parse_entity current =
     (case strchr_split current (CHR '';'') of
        None \<Rightarrow> None
      | Some (before, after) \<Rightarrow>
          if cur (tl current) = CHR ''#'' then
            let hex = cur (tl (tl current)) \<in> {CHR ''x'', CHR ''X''};
                (cp, tail) = strtoul (drop (if hex then 3 else 2) current) (if hex then 16 else 10)
            in if tail \<noteq> CHR '';'' # after \<or> UNICODE_MAX < cp then None else Some (putc_utf8 cp, after)
          else map_option (\<lambda>entity. (entity, after)) (get_named_entity (tl current)))"

definition write_at :: "string \<Rightarrow> nat \<Rightarrow> string \<Rightarrow> string option" where
  "write_at buf pos s =
     (if pos + length s \<le> length buf then Some (take pos buf @ s @ drop (pos + length s) buf) else None)"

text \<open>The loop: the buffer, the position of \<open>to\<close> and that of \<open>from\<close>.\<close>

partial_function (option) decode_loop :: "string \<Rightarrow> nat \<Rightarrow> nat \<Rightarrow> (string \<times> nat) option" where
  "decode_loop buf to_pos from_pos =
     (case strchr_split (drop from_pos buf) (CHR ''&'') of
        None \<Rightarrow> do {
          let remaining = drop from_pos buf;
          buf' \<leftarrow> write_at buf to_pos remaining;
          Some (buf', to_pos + length remaining)
        }
      | Some (before, after) \<Rightarrow> do {
          buf1 \<leftarrow> write_at buf to_pos before;
          let to1 = to_pos + length before;
          let current = from_pos + length before;
          case parse_entity (drop current buf1) of
            Some (entity, rest) \<Rightarrow> do {
              buf2 \<leftarrow> write_at buf1 to1 entity;
              decode_loop buf2 (to1 + length entity) (length buf - length rest)
            }
          | None \<Rightarrow> do {
              buf2 \<leftarrow> write_at buf1 to1 [buf1 ! current];
              decode_loop buf2 (to1 + 1) (current + 1)
            }
        })"

text \<open>The string that is in the buffer after the call.\<close>

definition lcfgutils_decode_html_entities_utf8 :: "string \<Rightarrow> string option" where
  "lcfgutils_decode_html_entities_utf8 dest =
     map_option (\<lambda>(buf, to_pos). takeWhile (\<lambda>c. c \<noteq> nul) (take to_pos buf)) (decode_loop dest 0 0)"


section \<open>The search\<close>

text \<open>Adjacent names in ascending order, which is what the binary search relies on.\<close>

fun ascending :: "string list \<Rightarrow> bool" where
  "ascending (a # b # s) \<longleftrightarrow> strcmp a b < 0 \<and> ascending (b # s)"
| "ascending _ \<longleftrightarrow> True"

lemma strcmp_less_trans: "strcmp a b < 0 \<Longrightarrow> strcmp b c < 0 \<Longrightarrow> strcmp a c < 0"
  by (rule str_order.cmp_less_le_trans, assumption, simp)

lemma ascending_sorted: "ascending xs \<Longrightarrow> sorted_wrt (\<lambda>a b. strcmp a b < 0) xs"
  by (induction xs rule: ascending.induct) (auto intro: strcmp_less_trans)

definition entity_name :: "string \<Rightarrow> bool" where
  "entity_name n \<longleftrightarrow> n \<noteq> [] \<and> last n = CHR '';'' \<and> CHR '';'' \<notin> set (butlast n) \<and> no_nul n"

lemma table_ascending: "ascending (map fst NAMED_ENTITIES)"
  by code_simp

lemma table_names: "list_all (\<lambda>e. entity_name (fst e)) NAMED_ENTITIES"
  by code_simp

lemma table_bytes: "list_all (\<lambda>e. length (snd e) \<le> length (fst e)) NAMED_ENTITIES"
  by code_simp

text \<open>A name ends with the first semicolon, so a text starts with one name at most.\<close>

lemma name_of_text:
  assumes "entity_name n" and "starts_with k n"
  shows "n = takeWhile (\<lambda>c. c \<noteq> CHR '';'') k @ [CHR '';'']"
proof -
  obtain m where m: "n = m @ [CHR '';'']" "CHR '';'' \<notin> set m"
    using assms(1) by (cases n rule: rev_cases) (auto simp: entity_name_def)
  have "k = m @ CHR '';'' # drop (length n) k"
    using assms(2) m(1) append_take_drop_id [of "length n" k] by (simp add: starts_with_def del: append_take_drop_id)
  moreover have "takeWhile (\<lambda>c. c \<noteq> CHR '';'') (m @ CHR '';'' # r) = m" for r
    using m(2) by (auto simp: takeWhile_append)
  ultimately show ?thesis using m(1) by metis
qed

lemma strncmp_starts: "starts_with k n \<Longrightarrow> strncmp k n (length n) = 0"
  by (simp add: strncmp_def starts_with_def flip: strcmp_def)

lemma strncmp_differs: "\<not> starts_with k n \<Longrightarrow> no_nul n \<Longrightarrow> strncmp k n (length n) = strcmp k n"
  unfolding strncmp_def strcmp_def starts_with_def
proof (induction k arbitrary: n)
  case (Cons c k)
  then show ?case by (cases n) auto
qed simp

lemma strncmp_zero:
  assumes "no_nul n" and "strncmp k n (length n) = 0"
  shows "starts_with k n"
proof (rule ccontr)
  assume not: "\<not> starts_with k n"
  then have "strcmp k n = 0" using strncmp_differs assms by metis
  then have "take (length n) k = n" using assms(1) unfolding strcmp_def
  proof (induction k arbitrary: n)
    case Nil
    then show ?case by (cases n) (simp_all add: byte_nul_iff)
  next
    case (Cons c k)
    then show ?case by (cases n) (auto simp: byte_nul_iff split: if_splits)
  qed
  with not show False by (simp add: starts_with_def)
qed

lemma strcmp_append_right: "\<not> starts_with y x \<Longrightarrow> no_nul x \<Longrightarrow> strcmp x y < 0 \<Longrightarrow> strcmp (x @ r) y < 0"
  unfolding strcmp_def starts_with_def
proof (induction x arbitrary: y)
  case (Cons c x)
  then show ?case by (cases y) (auto simp: byte_nul_iff split: if_splits)
qed simp

lemma strcmp_prefix: "no_nul x \<Longrightarrow> strcmp x (x @ r) \<le> 0"
  unfolding strcmp_def by (induction x) (cases r, simp_all)

text \<open>The search finds the entry with comparison 0 when the entries before it are below and those after it above.\<close>

lemma bsearch_finds:
  assumes "i < length xs" and "cmp (xs ! i) = 0" and "\<And>j. j < i \<Longrightarrow> 0 < cmp (xs ! j)"
    and "\<And>j. i < j \<Longrightarrow> j < length xs \<Longrightarrow> cmp (xs ! j) < 0" and "l \<le> i" and "i < u" and "u \<le> length xs"
  shows "bsearch cmp xs l u = Some i"
  using assms
proof (induction cmp xs l u rule: bsearch.induct)
  case (1 cmp xs l u)
  let ?k = "(l + u) div 2"
  consider "?k < i" | "?k = i" | "i < ?k" by linarith
  then show ?case
  proof cases
    case 1
    then have "0 < cmp (xs ! ?k)" using "1.prems"(3) by blast
    then have "0 < cmp (xs ! ?k)" "\<not> cmp (xs ! ?k) < 0" by simp_all
    with 1 "1.IH"(2) [OF _ refl refl] "1.prems" show ?thesis by (subst bsearch.simps) (simp add: Let_def)
  next
    case 2
    with "1.prems" show ?thesis by (subst bsearch.simps) (simp add: Let_def)
  next
    case 3
    moreover have "?k < length xs" using "1.prems"(5-7) by linarith
    ultimately have "cmp (xs ! ?k) < 0" using "1.prems"(4) by blast
    with 3 "1.IH"(1) [OF _ refl refl] "1.prems" show ?thesis by (subst bsearch.simps) (simp add: Let_def)
  qed
qed

lemma bsearch_sound: "bsearch cmp xs l u = Some i \<Longrightarrow> cmp (xs ! i) = 0 \<and> i < u"
proof (induction cmp xs l u rule: bsearch.induct)
  case (1 cmp xs l u)
  from 1(3) show ?case
    by (subst (asm) bsearch.simps)
      (use 1(1) [OF _ refl refl] 1(2) [OF _ refl refl] in \<open>auto simp: Let_def split: if_splits\<close>)
qed

lemma entity_search:
  assumes "i < length NAMED_ENTITIES" and "starts_with k (fst (NAMED_ENTITIES ! i))"
  shows "bsearch (entity_cmp k) NAMED_ENTITIES 0 (length NAMED_ENTITIES) = Some i"
proof (rule bsearch_finds)
  let ?n = "\<lambda>j. fst (NAMED_ENTITIES ! j)"
  have names: "entity_name (?n j)" if "j < length NAMED_ENTITIES" for j
    using table_names that by (simp add: list_all_length)
  then have nul: "no_nul (?n j)" if "j < length NAMED_ENTITIES" for j using that by (simp add: entity_name_def)
  have less: "strcmp (?n a) (?n b) < 0" if "a < b" "b < length NAMED_ENTITIES" for a b
    using sorted_wrt_nth_less [OF ascending_sorted [OF table_ascending], of a b] that by simp
  have distinct: "?n a \<noteq> ?n b" if "a < b" "b < length NAMED_ENTITIES" for a b
    using less [OF that] str_order.cmp_refl [of "?n b"] by fastforce
  have k: "k = ?n i @ drop (length (?n i)) k"
    using assms(2) append_take_drop_id [of "length (?n i)" k] by (simp add: starts_with_def)
  have other: "\<not> starts_with k (?n j)" if "j \<noteq> i" "j < length NAMED_ENTITIES" for j
    using name_of_text [OF names [OF that(2)], of k] name_of_text [OF names [OF assms(1)] assms(2)] distinct [of i j] distinct [of j i] that assms(1)
    by (metis linorder_neq_iff)
  show "0 < entity_cmp k (NAMED_ENTITIES ! j)" if "j < i" for j
  proof -
    have "strcmp (?n j) k < 0"
      using str_order.cmp_less_le_trans [OF less [OF that assms(1)]] strcmp_prefix [OF nul [OF assms(1)]] k by metis
    then show ?thesis
      using strncmp_differs [OF other [of j] nul [of j]] that assms(1) str_order.cmp_gt_iff by (simp add: entity_cmp_def)
  qed
  show "entity_cmp k (NAMED_ENTITIES ! j) < 0" if "i < j" "j < length NAMED_ENTITIES" for j
  proof -
    have "\<not> starts_with (?n j) (?n i)"
      using name_of_text [OF names [OF assms(1)], of "?n j"] name_of_text [OF names [OF that(2)], of "?n j"] distinct [OF that]
      by (auto simp: starts_with_def)
    from strcmp_append_right [OF this nul [OF assms(1)] less [OF that]] have "strcmp k (?n j) < 0" using k by metis
    then show ?thesis using strncmp_differs [OF other [of j] nul [OF that(2)]] that by (simp add: entity_cmp_def)
  qed
qed (use assms strncmp_starts in \<open>simp_all add: entity_cmp_def\<close>)

lemma named_entity_found:
  "get_named_entity name = map_option snd (find (\<lambda>e. starts_with name (fst e)) NAMED_ENTITIES)"
proof (cases "find (\<lambda>e. starts_with name (fst e)) NAMED_ENTITIES")
  case None
  then have "\<not> starts_with name (fst (NAMED_ENTITIES ! i))" if "i < length NAMED_ENTITIES" for i
    using nth_mem [OF that] unfolding find_None_iff by blast
  moreover have "no_nul (fst (NAMED_ENTITIES ! i))" if "i < length NAMED_ENTITIES" for i
    using table_names that by (simp add: list_all_length entity_name_def)
  ultimately have "entity_cmp name (NAMED_ENTITIES ! i) \<noteq> 0" if "i < length NAMED_ENTITIES" for i
    using strncmp_zero [of "fst (NAMED_ENTITIES ! i)" name] that unfolding entity_cmp_def by blast
  then have "bsearch (entity_cmp name) NAMED_ENTITIES 0 (length NAMED_ENTITIES) = None"
    using bsearch_sound [of "entity_cmp name" NAMED_ENTITIES 0 "length NAMED_ENTITIES"] by (cases "bsearch (entity_cmp name) NAMED_ENTITIES 0 (length NAMED_ENTITIES)") auto
  then show ?thesis using None by (simp add: get_named_entity_def)
next
  case (Some e)
  then obtain i where "i < length NAMED_ENTITIES" "e = NAMED_ENTITIES ! i" "starts_with name (fst e)"
    by (auto simp: find_Some_iff)
  then show ?thesis using Some entity_search [of i name] by (simp add: get_named_entity_def)
qed

text \<open>
  The binary search with the three-way comparison finds the entity that a text starts with,
  as a scan of the whole table does: the table is in the order the search needs, and no two
  names are prefixes of one text.
\<close>

theorem named_entity_lookup:
  "get_named_entity name = map_option snd (find (\<lambda>e. starts_with name (fst e)) NAMED_ENTITIES)"
  by (rule named_entity_found)


section \<open>Decoding a text\<close>

lemma putc_length: "length (putc_utf8 cp) \<le> 4" "cp \<le> 0x7F \<Longrightarrow> length (putc_utf8 cp) = 1"
  by (simp_all add: putc_utf8_def)

text \<open>An entity is not longer when it is decoded, which is what decoding in place needs.\<close>

lemma entity_length:
  assumes "parse_entity (CHR ''&'' # s) = Some (e, rest)"
  shows "\<exists>u. s = u @ rest \<and> length e \<le> length u + 1"
proof -
  obtain b where split: "strchr_split (CHR ''&'' # s) (CHR '';'') = Some (CHR ''&'' # b, rest)"
    using assms(1) by (auto simp: parse_entity_def Let_def split: option.splits if_splits prod.splits)
  then have s: "s = (b @ '';'') @ rest" "CHR '';'' \<notin> set b" using strchr_split_Some [OF split] by simp_all
  show ?thesis
  proof (cases "cur s = CHR ''#''")
    case False
    then have "get_named_entity s = Some e" using assms(1) split by (auto simp: parse_entity_def)
    then obtain a where "find (\<lambda>e. starts_with s (fst e)) NAMED_ENTITIES = Some a" "e = snd a"
      unfolding named_entity_found map_option_eq_Some by blast
    then have a: "a \<in> set NAMED_ENTITIES" "starts_with s (fst a)" "e = snd a" using find_SomeD by fastforce+
    then have "entity_name (fst a)" "length e \<le> length (fst a)" using table_names table_bytes by (auto simp: list_all_iff)
    moreover have "takeWhile (\<lambda>c. c \<noteq> CHR '';'') s = b" using s by (auto simp: takeWhile_append)
    ultimately have "length e \<le> length b + 1" using name_of_text [OF _ a(2)] by simp
    with s(1) show ?thesis by (intro exI [of _ "b @ '';''"]) simp
  next
    case True
    then obtain d where d: "b = CHR ''#'' # d" using s by (cases b) auto
    let ?hex = "cur (tl s) \<in> {CHR ''x'', CHR ''X''}"
    obtain cp tail where st: "strtoul (drop (if ?hex then 3 else 2) (CHR ''&'' # s)) (if ?hex then 16 else 10) = (cp, tail)"
      by force
    have "e = putc_utf8 cp" using assms(1) True split st by (auto simp: parse_entity_def Let_def split: if_splits)
    moreover have "cp = 0" if "d = []"
      using st that d s(1) by (simp add: strtoul_def strtoul_start_def digit_val_def isdigit_def isalpha_def isupper_def
          islower_def isspace_def byte_def)
    ultimately have cp: "e = putc_utf8 cp" "d = [] \<Longrightarrow> cp = 0" by simp_all
    have "length e \<le> length d + 3" using putc_length [of cp] cp by (cases d) auto
    with d s(1) show ?thesis by (intro exI [of _ "b @ '';''"]) simp
  qed
qed

text \<open>What the loop computes, without the buffer.\<close>

function decoded :: "string \<Rightarrow> string" where
  "decoded s =
     (case strchr_split s (CHR ''&'') of
        None \<Rightarrow> s
      | Some (a, b) \<Rightarrow>
          (case parse_entity (CHR ''&'' # b) of
             Some (e, rest) \<Rightarrow> a @ e @ decoded rest
           | None \<Rightarrow> a @ CHR ''&'' # decoded b))"
  by pat_completeness auto
termination
  by (relation "measure length") (auto dest!: strchr_split_Some entity_length)

declare decoded.simps [simp del]

lemma write_at_prefix:
  "length s \<le> length x \<Longrightarrow> write_at (w @ x @ y) (length w) s = Some (w @ s @ drop (length s) x @ y)"
  by (simp add: write_at_def)

text \<open>
  The loop on a buffer with the decoded part, a gap that grows, and what is left.
\<close>

lemma decode_loop_result:
  "(\<exists>t. decode_loop (w @ gap @ s) (length w) (length w + length gap) = Some (w @ decoded s @ t, length w + length (decoded s))) \<and>
   length (decoded s) \<le> length s"
proof (induction s arbitrary: w gap rule: decoded.induct)
  case (1 s)
  have drop: "drop (length w + length gap) (w @ gap @ s) = s" by simp
  show ?case
  proof (cases "strchr_split s (CHR ''&'')")
    case None
    then have "decoded s = s" by (subst decoded.simps) simp
    moreover have "write_at (w @ gap @ s) (length w) s = Some (w @ s @ drop (length s) (gap @ s))" by (simp add: write_at_def)
    ultimately show ?thesis by (subst decode_loop.simps) (simp add: None)
  next
    case (Some p)
    then obtain a b where p: "strchr_split s (CHR ''&'') = Some (a, b)" by (cases p) simp
    then have s: "s = a @ CHR ''&'' # b" using strchr_split_Some by blast
    define gap' where "gap' = drop (length a) (gap @ a)"
    have gap': "length gap' = length gap" by (simp add: gap'_def)
    have w1: "write_at (w @ gap @ s) (length w) a = Some ((w @ a) @ gap' @ CHR ''&'' # b)"
      using write_at_prefix [of a "gap @ a" w "CHR ''&'' # b"] s by (simp add: gap'_def)
    have at: "length w + length a = length (w @ a)" "length w + length gap + length a = length (w @ a) + length gap'"
      using gap' by simp_all
    have cur: "drop (length (w @ a) + length gap') ((w @ a) @ gap' @ CHR ''&'' # b) = CHR ''&'' # b"
      "((w @ a) @ gap' @ CHR ''&'' # b) ! (length (w @ a) + length gap') = CHR ''&''" by (simp_all add: nth_append)
    note step = drop p w1 at bind.bind_lunit option.case prod.case Let_def cur
    show ?thesis
    proof (cases "parse_entity (CHR ''&'' # b)")
      case None
      let ?w = "w @ a @ ''&''"
      define gap2 where "gap2 = drop 1 (gap' @ ''&'')"
      have w2: "write_at ((w @ a) @ gap' @ CHR ''&'' # b) (length (w @ a)) ''&'' = Some (?w @ gap2 @ b)"
        using write_at_prefix [of "''&''" "gap' @ ''&''" "w @ a" b] by (simp add: gap2_def)
      have pos: "length (w @ a) + 1 = length ?w" "length (w @ a) + length gap' + 1 = length ?w + length gap2"
        by (simp_all add: gap2_def)
      have dec: "decoded s = a @ ''&'' @ decoded b" using p None by (subst decoded.simps) simp
      have loop: "decode_loop (w @ gap @ s) (length w) (length w + length gap) =
          decode_loop (?w @ gap2 @ b) (length ?w) (length ?w + length gap2)"
        by (subst decode_loop.simps) (simp only: step None w2 pos)
      show ?thesis unfolding loop dec using 1(1) [OF p refl None, of ?w gap2] s by auto
    next
      case (Some q)
      then obtain e r where q: "parse_entity (CHR ''&'' # b) = Some (e, r)" by (cases q) simp
      obtain u where u: "b = u @ r" "length e \<le> length u + 1" using entity_length [OF q] by blast
      let ?w = "w @ a @ e"
      define gap2 where "gap2 = drop (length e) (gap' @ CHR ''&'' # u)"
      have w2: "write_at ((w @ a) @ gap' @ CHR ''&'' # b) (length (w @ a)) e = Some (?w @ gap2 @ r)"
        using write_at_prefix [of e "gap' @ CHR ''&'' # u" "w @ a" r] u by (simp add: gap2_def)
      have pos: "length (w @ a) + length e = length ?w" "length (w @ gap @ s) - length r = length ?w + length gap2"
        using s u by (simp_all add: gap2_def gap')
      have dec: "decoded s = a @ e @ decoded r" using p q by (subst decoded.simps) simp
      have loop: "decode_loop (w @ gap @ s) (length w) (length w + length gap) =
          decode_loop (?w @ gap2 @ r) (length ?w) (length ?w + length gap2)"
        by (subst decode_loop.simps) (simp only: step q w2 pos)
      show ?thesis unfolding loop dec using 1(2) [OF p refl q refl, of ?w gap2] s u by auto
    qed
  qed
qed

lemma decode_result:
  "lcfgutils_decode_html_entities_utf8 s = Some (takeWhile (\<lambda>c. c \<noteq> nul) (decoded s))" "length (decoded s) \<le> length s"
  using decode_loop_result [of "[]" "[]" s] by (auto simp: lcfgutils_decode_html_entities_utf8_def)

lemma decoded_plain: "c \<noteq> CHR ''&'' \<Longrightarrow> decoded (c # s) = c # decoded s"
  by (subst (1 2) decoded.simps) (simp split: option.split)

lemma decoded_entity: "parse_entity (CHR ''&'' # s) = Some (e, rest) \<Longrightarrow> decoded (CHR ''&'' # s) = e @ decoded rest"
  by (subst decoded.simps) simp

section \<open>The characters of entities\<close>

text \<open>UTF-8 in arithmetic, and the value of a sequence of digits.\<close>

definition utf8 :: "nat \<Rightarrow> string" where
  "utf8 n = map char_of
     (if n < 128 then [n]
      else if n < 2048 then [192 + n div 64, 128 + n mod 64]
      else if n < 65536 then [224 + n div 4096, 128 + n div 64 mod 64, 128 + n mod 64]
      else [240 + n div 262144, 128 + n div 4096 mod 64, 128 + n div 64 mod 64, 128 + n mod 64])"

definition digits_value :: "nat \<Rightarrow> string \<Rightarrow> nat" where
  "digits_value base ds = foldl (\<lambda>n c. n * base + digit_val c) 0 ds"

lemma push_or:
  assumes "w < 2 ^ k"
  shows "push_bit k c OR w = c * 2 ^ k + (w :: nat)"
proof -
  have "take_bit k w = w" using assms by (simp add: take_bit_nat_eq_self_iff)
  then have "\<not> bit w n" if "k \<le> n" for n using that by (metis bit_take_bit_iff linorder_not_le)
  then have "push_bit k c AND w = 0" by (intro bit_eqI) (auto simp: bit_and_iff bit_push_bit_iff)
  then show ?thesis by (simp add: disjunctive_add_eq_or [symmetric] push_bit_eq_mult)
qed

lemma unat_drop:
  assumes "n < 2 ^ 64"
  shows "unat (drop_bit d (of_nat n :: 64 word)) = n div 2 ^ d"
proof -
  have "unat (of_nat n :: 64 word) = n" using assms by (intro of_nat_inverse [OF refl]) simp
  then show ?thesis unfolding unat_drop_bit_eq by (simp add: drop_bit_eq_div)
qed

lemma unat_push:
  assumes "c * 2 ^ k < 2 ^ 64"
  shows "unat (push_bit k (of_nat c :: 64 word)) = push_bit k c"
proof -
  have "push_bit k (of_nat c :: 64 word) = of_nat (c * 2 ^ k)" by (simp add: push_bit_eq_mult)
  moreover have "unat (of_nat (c * 2 ^ k) :: 64 word) = c * 2 ^ k" using assms by (intro of_nat_inverse [OF refl]) simp
  ultimately show ?thesis by (simp only: push_bit_eq_mult)
qed

lemma uchar_lead:
  assumes "n < 2 ^ 64" and "n div 2 ^ d < 2 ^ k" and "c * 2 ^ k < 2 ^ 64"
  shows "uchar (push_bit k (of_nat c) OR drop_bit d (of_nat n)) = char_of (c * 2 ^ k + n div 2 ^ d)"
  unfolding uchar_def unsigned_or_eq unat_drop [OF assms(1)] unat_push [OF assms(3)] push_or [OF assms(2)] ..

lemma uchar_low6:
  assumes "n < 2 ^ 64"
  shows "uchar (low6 (drop_bit d (of_nat n))) = char_of (128 + n div 2 ^ d mod 64)"
proof -
  have "(0x3F :: 64 word) = mask 6" by (simp add: mask_eq_exp_minus_1)
  then have "drop_bit d (of_nat n :: 64 word) AND 0x3F = take_bit 6 (drop_bit d (of_nat n))" by (simp add: take_bit_eq_mask)
  moreover have "unat (take_bit 6 (drop_bit d (of_nat n :: 64 word))) = n div 2 ^ d mod 64"
    unfolding unsigned_take_bit_eq unat_drop [OF assms] by (simp add: take_bit_eq_mod)
  moreover have "unat (push_bit 6 2 :: 64 word) = push_bit 6 2" using unat_push [of 2 6] by simp
  ultimately show ?thesis using push_or [of "n div 2 ^ d mod 64" 6 2]
    by (simp only: uchar_def low6_def unsigned_or_eq) simp
qed

lemma putc_utf8_spec:
  assumes "n \<le> 0x10FFFF"
  shows "putc_utf8 (of_nat n) = utf8 n"
proof -
  have n: "n < 2 ^ 64" using assms by simp
  have le: "(of_nat n :: 64 word) \<le> of_nat k \<longleftrightarrow> n \<le> k" if "k < 2 ^ 64" for k
    using n that by (simp add: word_le_nat_alt of_nat_inverse [OF refl])
  have cond: "(of_nat n :: 64 word) \<le> 0x7F \<longleftrightarrow> n < 128" "(of_nat n :: 64 word) \<le> 0x7FF \<longleftrightarrow> n < 2048"
    "(of_nat n :: 64 word) \<le> 0xFFFF \<longleftrightarrow> n < 65536" "(of_nat n :: 64 word) \<le> 0x10FFFF"
    using le [where k = 127] le [where k = 2047] le [where k = 65535] le [where k = 1114111] assms by auto
  have u: "uchar (of_nat n) = char_of n" using unat_drop [OF n, of 0] by (simp add: uchar_def)
  have low: "uchar (low6 (of_nat n)) = char_of (128 + n mod 64)" using uchar_low6 [OF n, of 0] by simp
  note lead = uchar_lead [OF n]
  show ?thesis
    using assms cond u low uchar_low6 [OF n, of 6] uchar_low6 [OF n, of 12] lead [of 6 5 6] lead [of 12 4 14] lead [of 18 3 30]
    by (auto simp: putc_utf8_def utf8_def)
qed

lemma read_digits_value:
  assumes "list_all (\<lambda>c. digit_val c < base) ds" and "base \<le> digit_val e"
  shows "read_digits base acc (ds @ e # r) = (foldl (\<lambda>n c. n * base + digit_val c) acc ds, e # r)"
  using assms by (induction ds arbitrary: acc) auto

lemma digit_char_facts:
  assumes "digit_val c < base" and "base \<le> 16"
  shows "\<not> isspace c" "c \<noteq> CHR ''-''" "c \<noteq> CHR ''+''" "c \<noteq> CHR ''x''" "c \<noteq> CHR ''X''" "c \<noteq> CHR '';''"
proof -
  have "isdigit c \<or> isalpha c" using assms by (auto simp: digit_val_def split: if_splits)
  then show "\<not> isspace c" "c \<noteq> CHR ''-''" "c \<noteq> CHR ''+''" "c \<noteq> CHR '';''" by (auto simp: lcfg_chr byte_def)
  show "c \<noteq> CHR ''x''" "c \<noteq> CHR ''X''" using assms by (auto simp: digit_val_def lcfg_chr byte_def tolower_def)
qed

lemma strtoul_digits:
  assumes ds: "ds \<noteq> []" "list_all (\<lambda>c. digit_val c < base) ds" and base: "base = 10 \<or> base = 16" and "digits_value base ds < 2 ^ 64"
  shows "strtoul (ds @ CHR '';'' # r) base = (of_nat (digits_value base ds), CHR '';'' # r)"
proof -
  obtain c cs where c: "ds = c # cs" using ds(1) by (cases ds) auto
  have "base \<le> 16" using base by auto
  then have digit: "digit_val d < base \<Longrightarrow> \<not> isspace d \<and> d \<noteq> CHR ''-'' \<and> d \<noteq> CHR ''+'' \<and> d \<noteq> CHR ''x'' \<and> d \<noteq> CHR ''X''" for d
    using digit_char_facts [of d base] by blast
  have "digit_val c < base" using ds(2) c by simp
  note first = digit [OF this]
  have second: "cur (cs @ CHR '';'' # r) \<noteq> CHR ''x''" "cur (cs @ CHR '';'' # r) \<noteq> CHR ''X''"
    using ds(2) digit c by (cases cs; simp)+
  have "strtoul_start (ds @ CHR '';'' # r) base = (False, base, ds @ CHR '';'' # r)"
    using first second base by (auto simp: strtoul_start_def Let_def skip_space_def c)
  moreover have "base \<le> digit_val (CHR '';'')" using base by (auto simp: digit_val_def lcfg_chr byte_def)
  ultimately show ?thesis
    using read_digits_value [OF ds(2), of "CHR '';''" 0 r] assms(4) \<open>digit_val c < base\<close>
    by (simp add: strtoul_def digits_value_def c)
qed

text \<open>A number between \<open>&#\<close> or \<open>&#x\<close> and a semicolon, and a name of the table.\<close>

lemma decoded_number:
  assumes ds: "ds \<noteq> []" "list_all (\<lambda>c. digit_val c < base) ds" "digits_value base ds \<le> 0x10FFFF"
    and mark: "base = 10 \<and> mark = ''#'' \<or> base = 16 \<and> mark \<in> {''#x'', ''#X''}"
  shows "decoded (''&'' @ mark @ ds @ '';'' @ rest) = utf8 (digits_value base ds) @ decoded rest"
proof -
  let ?n = "digits_value base ds"
  have base: "base = 10 \<or> base = 16" "base \<le> 16" using mark by auto
  have semi: "CHR '';'' \<notin> set (''&'' @ mark @ ds)"
  proof -
    have "\<not> digit_val (CHR '';'') < base" using digit_char_facts(6) [of "CHR '';''" base] base(2) by blast
    then have "CHR '';'' \<notin> set ds" using ds(2) by (auto simp: list_all_iff)
    then show ?thesis using mark by (elim disjE conjE insertE emptyE) simp_all
  qed
  have split: "strchr_split (''&'' @ mark @ ds @ '';'' @ rest) (CHR '';'') = Some (''&'' @ mark @ ds, rest)"
    using strchr_split_app [OF semi, of rest] by simp
  obtain c cs where c: "ds = c # cs" "digit_val c < base" using ds(1,2) by (cases ds) auto
  have "c \<noteq> CHR ''x''" "c \<noteq> CHR ''X''" using digit_char_facts [OF c(2) base(2)] by auto
  then have hex: "cur (tl (tl (''&'' @ mark @ ds @ '';'' @ rest))) \<in> {CHR ''x'', CHR ''X''} \<longleftrightarrow> base = 16"
    "cur (tl (''&'' @ mark @ ds @ '';'' @ rest)) = CHR ''#''"
    "drop (if base = 16 then 3 else 2) (''&'' @ mark @ ds @ '';'' @ rest) = ds @ CHR '';'' # rest"
    using mark c(1) by (elim disjE conjE insertE emptyE; simp)+
  have "strtoul (ds @ CHR '';'' # rest) base = (of_nat ?n, CHR '';'' # rest)"
    using ds by (intro strtoul_digits base(1)) simp_all
  moreover have "(if base = 16 then 16 else 10) = base" using base(1) by auto
  moreover have "\<not> UNICODE_MAX < of_nat ?n"
    using ds(3) by (simp add: UNICODE_MAX_def not_less word_le_nat_alt of_nat_inverse [OF refl])
  moreover have "parse_entity t = Some (utf8 ?n, rest)"
    if "strchr_split t (CHR '';'') = Some (''&'' @ mark @ ds, rest)" "cur (tl (tl t)) \<in> {CHR ''x'', CHR ''X''} \<longleftrightarrow> base = 16"
      "cur (tl t) = CHR ''#''" "drop (if base = 16 then 3 else 2) t = ds @ CHR '';'' # rest"
      "strtoul (ds @ CHR '';'' # rest) base = (of_nat ?n, CHR '';'' # rest)" "(if base = 16 then 16 else 10) = base"
      "\<not> UNICODE_MAX < of_nat ?n" for t
    unfolding parse_entity_def that(2) using that(1,3-7) putc_utf8_spec [OF ds(3)] by (simp add: Let_def)
  ultimately have "parse_entity (''&'' @ mark @ ds @ '';'' @ rest) = Some (utf8 ?n, rest)" using split hex by blast
  then show ?thesis using decoded_entity [of "mark @ ds @ '';'' @ rest"] by simp
qed

lemma table_marks: "list_all (\<lambda>e. cur (fst e) \<noteq> CHR ''#'') NAMED_ENTITIES"
  by code_simp

lemma decoded_name:
  assumes "(name, bytes) \<in> set NAMED_ENTITIES"
  shows "decoded (''&'' @ name @ rest) = bytes @ decoded rest"
proof -
  obtain i where i: "i < length NAMED_ENTITIES" "NAMED_ENTITIES ! i = (name, bytes)" using assms by (auto simp: in_set_conv_nth)
  have name: "entity_name name" using table_names assms by (auto simp: list_all_iff)
  then obtain m where m: "name = m @ '';''" "CHR '';'' \<notin> set m" by (cases name rule: rev_cases) (auto simp: entity_name_def)
  have "starts_with (name @ rest) (fst (NAMED_ENTITIES ! i))" using i(2) by (simp add: starts_with_def)
  from entity_search [OF i(1) this] have "get_named_entity (name @ rest) = Some bytes" using i(2) by (simp add: get_named_entity_def)
  moreover have "strchr_split (''&'' @ name @ rest) (CHR '';'') = Some (''&'' @ m, rest)"
    using strchr_split_app [of "CHR '';''" "''&'' @ m" rest] m by simp
  moreover have "cur (name @ rest) \<noteq> CHR ''#''"
    using table_marks assms name by (cases name) (auto simp: list_all_iff entity_name_def)
  ultimately show ?thesis using decoded_entity [of "name @ rest" bytes rest] by (simp add: parse_entity_def)
qed

text \<open>
  C37: Decoding in place never writes outside of the buffer nor over text it has still to read,
  and the buffer then holds the text with each entity replaced, up to the first null character:
  a decimal or hexadecimal number of a Unicode character by the bytes that UTF-8 has for it, a name
  by what the table has for it, while other characters stay as they are.
\<close>

theorem decode_in_place:
  "lcfgutils_decode_html_entities_utf8 s = Some (takeWhile (\<lambda>c. c \<noteq> nul) (decoded s)) \<and> length (decoded s) \<le> length s \<and>
   (\<forall>ds rest. ds \<noteq> [] \<and> list_all (\<lambda>c. digit_val c < 10) ds \<and> digits_value 10 ds \<le> 0x10FFFF \<longrightarrow>
      decoded (''&#'' @ ds @ '';'' @ rest) = utf8 (digits_value 10 ds) @ decoded rest) \<and>
   (\<forall>x ds rest. x \<in> {CHR ''x'', CHR ''X''} \<and> ds \<noteq> [] \<and> list_all (\<lambda>c. digit_val c < 16) ds \<and> digits_value 16 ds \<le> 0x10FFFF \<longrightarrow>
      decoded (''&#'' @ x # ds @ '';'' @ rest) = utf8 (digits_value 16 ds) @ decoded rest) \<and>
   (\<forall>name bytes rest. (name, bytes) \<in> set NAMED_ENTITIES \<longrightarrow> decoded (''&'' @ name @ rest) = bytes @ decoded rest) \<and>
   (\<forall>c rest. c \<noteq> CHR ''&'' \<longrightarrow> decoded (c # rest) = c # decoded rest)"
proof (intro conjI allI impI)
  fix ds rest
  assume "ds \<noteq> [] \<and> list_all (\<lambda>c. digit_val c < 10) ds \<and> digits_value 10 ds \<le> 0x10FFFF"
  then show "decoded (''&#'' @ ds @ '';'' @ rest) = utf8 (digits_value 10 ds) @ decoded rest"
    using decoded_number [of ds 10 "''#''" rest] by simp
next
  fix x ds rest
  assume "x \<in> {CHR ''x'', CHR ''X''} \<and> ds \<noteq> [] \<and> list_all (\<lambda>c. digit_val c < 16) ds \<and> digits_value 16 ds \<le> 0x10FFFF"
  then show "decoded (''&#'' @ x # ds @ '';'' @ rest) = utf8 (digits_value 16 ds) @ decoded rest"
    using decoded_number [of ds 16 "''#'' @ [x]" rest] by auto
qed (use decoded_name in \<open>simp_all add: decode_result decoded_plain\<close>)

theorem decode_in_place_witness:
  "lcfgutils_decode_html_entities_utf8 ''&#233;&#xE9;&amp;b'' = Some [CHR 0xC3, CHR 0xA9, CHR 0xC3, CHR 0xA9, CHR ''&'', CHR ''b'']"
proof -
  note d = decode_in_place [of "''&#233;&#xE9;&amp;b''"]
  have ds: "list_all (\<lambda>c. digit_val c < 10) ''233''" "digits_value 10 ''233'' = 233"
    "list_all (\<lambda>c. digit_val c < 16) ''E9''" "digits_value 16 ''E9'' = 233" "utf8 233 = [CHR 0xC3, CHR 0xA9]"
    "(''amp;'', ''&'') \<in> set NAMED_ENTITIES" by code_simp+
  have "decoded ''&#233;&#xE9;&amp;b'' = utf8 233 @ decoded ''&#xE9;&amp;b''"
    using d [THEN conjunct2, THEN conjunct2, THEN conjunct1, rule_format, of "''233''" "''&#xE9;&amp;b''"] ds(1,2) by simp
  moreover have "decoded ''&#xE9;&amp;b'' = utf8 233 @ decoded ''&amp;b''"
    using d [THEN conjunct2, THEN conjunct2, THEN conjunct2, THEN conjunct1, rule_format, of "CHR ''x''" "''E9''" "''&amp;b''"] ds(3,4)
    by simp
  moreover have "decoded ''&amp;b'' = ''&'' @ decoded ''b''"
    using d [THEN conjunct2, THEN conjunct2, THEN conjunct2, THEN conjunct2, THEN conjunct1, rule_format, of "''amp;''" "''&''" "''b''"] ds(6)
    by simp
  moreover have "decoded ''b'' = ''b''"
    using d [THEN conjunct2, THEN conjunct2, THEN conjunct2, THEN conjunct2, THEN conjunct2, rule_format, of "CHR ''b''" "[]"]
    by (simp add: decoded.simps [of "[]"])
  ultimately show ?thesis using d [THEN conjunct1] ds(5) by (simp add: nul_def)
qed

text \<open>An empty number is read as the character 0, which ends the string.\<close>

lemma empty_number: "lcfgutils_decode_html_entities_utf8 ''a&#;b'' = Some ''a''"
  unfolding decode_result by code_simp

end
