(* ===== verification/Lcfg_Template.thy ===== *)
theory Lcfg_Template
  imports Lcfg_Tag_List
begin

text \<open>
  Resource templates (\<open>resources/templates.c\<close>, \<open>include/templates.h\<close>): a template such as
  \<open>user_$_$\<close> gives the name of a resource for the tags of its ancestors. The linked list of
  templates is a list; \<open>NULL\<close> is the empty one. A buffer is a list of characters of its
  length, and \<open>None\<close> stands for a write outside of a buffer or an array.
\<close>

named_theorems tmpl_simps "what holds of the parts of a template"

section \<open>Templates\<close>

definition LCFG_TEMPLATE_PLACEHOLDER :: char where "LCFG_TEMPLATE_PLACEHOLDER = CHR ''$''"

definition LCFG_TAGS_MAX_DEPTH :: nat where "LCFG_TAGS_MAX_DEPTH = 5"

record LCFGTemplate =
  tmpl_text :: cstr
  tmpl_places :: "int list"
  tmpl_name_len :: nat
  tmpl_len :: nat
  tmpl_pcount :: nat

definition lcfgtemplate_new :: LCFGTemplate where
  "lcfgtemplate_new =
     \<lparr>tmpl_text = None, tmpl_places = replicate LCFG_TAGS_MAX_DEPTH (- 1), tmpl_name_len = 0,
      tmpl_len = 0, tmpl_pcount = 0\<rparr>"

definition lcfgtemplate_is_valid :: "LCFGTemplate option \<Rightarrow> bool" where
  "lcfgtemplate_is_valid template \<longleftrightarrow>
     (case template of None \<Rightarrow> False | Some t \<Rightarrow> tmpl_text t \<noteq> None)"

text \<open>The loop over the characters: whether they are valid, and the placeholders so far.\<close>

fun valid_template_loop :: "string \<Rightarrow> nat \<Rightarrow> bool \<times> nat" where
  "valid_template_loop [] pcount = (True, pcount)"
| "valid_template_loop (c # s) pcount =
     (if c = LCFG_TEMPLATE_PLACEHOLDER then
        (if LCFG_TAGS_MAX_DEPTH < pcount + 1 then (False, pcount + 1)
         else valid_template_loop s (pcount + 1))
      else if isword c then valid_template_loop s pcount
      else (False, pcount))"

definition lcfgresource_valid_template :: "cstr \<Rightarrow> bool" where
  "lcfgresource_valid_template tmpl =
     (let s = or_default tmpl [];
          start = \<not> isempty tmpl \<and> isalpha (cur s);
          (valid, pcount) = (if start then valid_template_loop (tl s) 0 else (False, 0))
      in valid \<and> 1 \<le> pcount)"

definition lcfgtemplate_get_tmpl :: "LCFGTemplate \<Rightarrow> cstr" where
  "lcfgtemplate_get_tmpl template = tmpl_text template"

text \<open>The places of the placeholders, from the last one to the first.\<close>

fun mark_places :: "string \<Rightarrow> nat \<Rightarrow> int list \<Rightarrow> nat \<Rightarrow> (int list \<times> nat) option" where
  "mark_places s 0 places pcount = Some (places, pcount)"
| "mark_places s (Suc i) places pcount =
     (if s ! i = LCFG_TEMPLATE_PLACEHOLDER then
        (if pcount < length places then mark_places s i (places[pcount := int i]) (pcount + 1)
         else None)
      else mark_places s i places pcount)"

definition lcfgtemplate_set_tmpl :: "LCFGTemplate \<Rightarrow> cstr \<Rightarrow> (bool \<times> LCFGTemplate) option" where
  "lcfgtemplate_set_tmpl template new_tmpl =
     (if \<not> lcfgresource_valid_template new_tmpl then Some (False, template)
      else let s = or_default new_tmpl [] in
        case strstr s ''_$'' of
          None \<Rightarrow> Some (False, template)
        | Some new_name_len \<Rightarrow> do {
            (places, pcount) \<leftarrow> mark_places s (length s) (tmpl_places template) (tmpl_pcount template);
            Some (True, template\<lparr>tmpl_text := new_tmpl, tmpl_places := places, tmpl_name_len := new_name_len,
                                 tmpl_len := length s, tmpl_pcount := pcount\<rparr>)
          })"

section \<open>Texts\<close>

text \<open>The length computed for the buffer, and the text written into it.\<close>

fun templates_length :: "LCFGTemplate list \<Rightarrow> nat" where
  "templates_length [] = 0"
| "templates_length (head # rest) = tmpl_len head + sum_list (map (\<lambda>t. 1 + tmpl_len t) rest)"

definition template_text :: "LCFGTemplate \<Rightarrow> string" where
  "template_text t = take (tmpl_len t) (or_default (tmpl_text t) [])"

definition lcfgtemplate_to_string :: "LCFGTemplate list \<Rightarrow> cstr \<Rightarrow> bits \<Rightarrow> nat \<times> string" where
  "lcfgtemplate_to_string templates prefix options =
     (let newline = has_bit options LCFG_OPT_NEWLINE;
          new_len = length (or_default prefix []) + templates_length templates + (if newline then 1 else 0)
      in (new_len,
          or_default prefix [] @
          (case templates of
             [] \<Rightarrow> []
           | head # rest \<Rightarrow> template_text head @ concat (map (\<lambda>t. CHR '' '' # template_text t) rest)) @
          (if newline then [CHR 0x0A] else [])))"

definition tmpl_space :: "char \<Rightarrow> bool" where
  "tmpl_space c \<longleftrightarrow> c \<in> {CHR '' '', CHR 0x0A, CHR 0x0D, CHR 0x09}"

definition bad_template :: "string \<Rightarrow> string" where
  "bad_template s = ''bad resource template '' @ [CHR 0x27] @ s @ [CHR 0x27]"

fun template_tokens :: "string list \<Rightarrow> LCFGTemplate list \<Rightarrow> (string + LCFGTemplate list) option" where
  "template_tokens [] result = Some (Inr result)"
| "template_tokens (token # tokens) result = do {
     (ok, new_template) \<leftarrow> lcfgtemplate_set_tmpl lcfgtemplate_new (Some token);
     if ok then template_tokens tokens (result @ [new_template]) else Some (Inl (bad_template token))
   }"

definition lcfgtemplate_from_string :: "cstr \<Rightarrow> (string + LCFGTemplate list) option" where
  "lcfgtemplate_from_string input =
     (if isempty input then Some (Inl ''empty string'')
      else template_tokens (strtok tmpl_space (or_default input [])) [])"

section \<open>Names of resources\<close>

text \<open>\<open>strncmp(field_name, tmpl, n) == 0\<close> for a field name of length \<open>n\<close>.\<close>

definition template_named :: "string \<Rightarrow> LCFGTemplate \<Rightarrow> bool" where
  "template_named field_name t \<longleftrightarrow>
     lcfgtemplate_is_valid (Some t) \<and> length field_name = tmpl_name_len t \<and>
     take (length field_name) (or_default (tmpl_text t) []) = field_name"

definition lcfgtemplate_find :: "LCFGTemplate list \<Rightarrow> string \<Rightarrow> LCFGTemplate option" where
  "lcfgtemplate_find templates field_name = find (template_named field_name) templates"

text \<open>\<open>memcpy(buf + offset, s, strlen(s))\<close>.\<close>

definition copy_at :: "string \<Rightarrow> int \<Rightarrow> string \<Rightarrow> string option" where
  "copy_at buf offset s =
     (if 0 \<le> offset \<and> nat offset + length s \<le> length buf
      then Some (take (nat offset) buf @ s @ drop (nat offset + length s) buf) else None)"

text \<open>The pass that computes the length, and the pass that fills the buffer from its end.\<close>

definition tag_at :: "tag_mem \<Rightarrow> nat option \<Rightarrow> LCFGTag option" where
  "tag_at m tag = (case tag of None \<Rightarrow> None | Some a \<Rightarrow> tm_tags m a)"

fun substitute_length :: "tag_mem \<Rightarrow> nat \<Rightarrow> LCFGTagIterator \<Rightarrow> int \<Rightarrow> (int \<times> LCFGTagIterator) option" where
  "substitute_length m 0 tagiter new_len = Some (new_len, tagiter)"
| "substitute_length m (Suc n) tagiter new_len = do {
     (cur_tag, tagiter') \<leftarrow> lcfgtagiter_prev m tagiter;
     tag \<leftarrow> tag_at m cur_tag;
     substitute_length m n tagiter' (new_len + int (lcfgtag_get_length tag) - 1)
   }"

fun substitute_loop ::
    "tag_mem \<Rightarrow> LCFGTemplate \<Rightarrow> nat list \<Rightarrow> LCFGTagIterator \<Rightarrow> int \<Rightarrow> int \<Rightarrow> string \<Rightarrow>
     (int \<times> string \<times> LCFGTagIterator) option"
where
  "substitute_loop m t [] tagiter end_at offset buf = Some (offset, buf, tagiter)"
| "substitute_loop m t (i # is) tagiter end_at offset buf = do {
     let place = tmpl_places t ! i;
     let after = place + 1;
     let after_len = end_at - after;
     let offset1 = (if 0 < after_len then offset - after_len else offset);
     buf1 \<leftarrow> (if 0 < after_len
       then copy_at buf offset1 (take (nat after_len) (drop (nat after) (or_default (tmpl_text t) [])))
       else Some buf);
     (cur_tag, tagiter') \<leftarrow> lcfgtagiter_prev m tagiter;
     tag \<leftarrow> tag_at m cur_tag;
     let taglen = lcfgtag_get_length tag;
     let offset2 = offset1 - int taglen;
     buf2 \<leftarrow> copy_at buf1 offset2 (take taglen (or_default (lcfgtag_get_name tag) []));
     substitute_loop m t is tagiter' place offset2 buf2
   }"

definition insufficient_tags :: "LCFGTemplate \<Rightarrow> string" where
  "insufficient_tags t =
     ''Insufficient tags for template '' @ [CHR 0x27] @ or_default (lcfgtemplate_get_tmpl t) [] @ [CHR 0x27, CHR 0x0A]"

text \<open>The message, or the text in the buffer; and the list and the memory after the iterator is released.\<close>

definition lcfgtemplate_substitute ::
    "tag_mem \<Rightarrow> LCFGTemplate \<Rightarrow> LCFGTagList option \<Rightarrow> ((string + string) \<times> LCFGTagList option \<times> tag_mem) option"
where
  "lcfgtemplate_substitute m res_tmpl taglist =
     (case taglist of
        None \<Rightarrow> Some (Inl (insufficient_tags res_tmpl), None, m)
      | Some tags \<Rightarrow>
          if tl_size tags < tmpl_pcount res_tmpl then Some (Inl (insufficient_tags res_tmpl), taglist, m)
          else do {
            (new_len, tagiter) \<leftarrow> substitute_length m (tmpl_pcount res_tmpl) (lcfgtagiter_new tags) (int (tmpl_len res_tmpl));
            (offset, buf, tagiter') \<leftarrow> substitute_loop m res_tmpl [0..<tmpl_pcount res_tmpl] (lcfgtagiter_reset tagiter)
              (int (tmpl_len res_tmpl) - 1) new_len (replicate (nat new_len) nul);
            (taglist', m') \<leftarrow> lcfgtagiter_destroy m (Some tagiter');
            buf' \<leftarrow> copy_at buf 0 (take (nat offset) (or_default (lcfgtemplate_get_tmpl res_tmpl) []));
            Some (Inr buf', taglist', m')
          })"

definition lcfgresource_build_name ::
    "tag_mem \<Rightarrow> LCFGTemplate list \<Rightarrow> LCFGTagList option \<Rightarrow> string \<Rightarrow>
     ((string + string) \<times> LCFGTagList option \<times> tag_mem) option"
where
  "lcfgresource_build_name m templates taglist field_name =
     (case lcfgtemplate_find templates field_name of
        None \<Rightarrow> Some (Inl (''Failed to find template for field '' @ [CHR 0x27] @ field_name @ [CHR 0x27, CHR 0x0A]), taglist, m)
      | Some res_tmpl \<Rightarrow> lcfgtemplate_substitute m res_tmpl taglist)"


section \<open>What a template is made of\<close>

text \<open>The indices of the placeholders, in order.\<close>

definition placeholders :: "string \<Rightarrow> nat \<Rightarrow> nat list" where
  "placeholders s n = filter (\<lambda>i. s ! i = LCFG_TEMPLATE_PLACEHOLDER) [0..<n]"

lemma placeholders_simps [simp]:
  "placeholders s 0 = []"
  "placeholders s (Suc n) = placeholders s n @ (if s ! n = LCFG_TEMPLATE_PLACEHOLDER then [n] else [])"
  by (simp_all add: placeholders_def)

lemma mark_places_result:
  "pcount + length (placeholders s n) \<le> length places \<Longrightarrow>
   mark_places s n places pcount =
     Some (take pcount places @ map int (rev (placeholders s n)) @ drop (pcount + length (placeholders s n)) places,
       pcount + length (placeholders s n))"
proof (induction n arbitrary: places pcount)
  case (Suc n)
  show ?case
  proof (cases "s ! n = LCFG_TEMPLATE_PLACEHOLDER")
    case True
    with Suc.prems have p: "pcount < length places" by simp
    have "take (Suc pcount) (places[pcount := int n]) = take pcount places @ [int n]"
      using p by (simp add: take_Suc_conv_app_nth)
    with True Suc.prems p show ?thesis by (simp add: Suc.IH)
  qed (use Suc in simp)
qed simp

lemma placeholders_length:
  "length (placeholders s (length s)) = length (filter (\<lambda>c. c = LCFG_TEMPLATE_PLACEHOLDER) s)"
  unfolding placeholders_def by (simp add: length_filter_conv_card cong: conj_cong)

lemma valid_template_loop_result:
  assumes "valid_template_loop s pcount = (valid, n)" and "pcount \<le> LCFG_TAGS_MAX_DEPTH"
  shows "valid \<longleftrightarrow> list_all (\<lambda>c. isword c \<or> c = LCFG_TEMPLATE_PLACEHOLDER) s \<and>
      pcount + length (filter (\<lambda>c. c = LCFG_TEMPLATE_PLACEHOLDER) s) \<le> LCFG_TAGS_MAX_DEPTH"
    and "valid \<Longrightarrow> n = pcount + length (filter (\<lambda>c. c = LCFG_TEMPLATE_PLACEHOLDER) s)"
  using assms by (induction s pcount rule: valid_template_loop.induct) (auto split: if_splits)

lemma valid_template_iff:
  "lcfgresource_valid_template (Some s) \<longleftrightarrow>
     s \<noteq> [] \<and> isalpha (hd s) \<and> list_all (\<lambda>c. isword c \<or> c = LCFG_TEMPLATE_PLACEHOLDER) s \<and>
     1 \<le> length (filter (\<lambda>c. c = LCFG_TEMPLATE_PLACEHOLDER) s) \<and>
     length (filter (\<lambda>c. c = LCFG_TEMPLATE_PLACEHOLDER) s) \<le> LCFG_TAGS_MAX_DEPTH"
proof (cases s)
  case (Cons c s')
  have c: "isalpha c \<Longrightarrow> c \<noteq> LCFG_TEMPLATE_PLACEHOLDER \<and> isword c"
    by (auto simp: lcfg_chr LCFG_TEMPLATE_PLACEHOLDER_def byte_def)
  obtain v n where vn: "valid_template_loop s' 0 = (v, n)" by force
  show ?thesis
    using valid_template_loop_result [OF vn] c Cons vn
    by (cases v) (auto simp: lcfgresource_valid_template_def)
qed (simp add: lcfgresource_valid_template_def)

text \<open>The template that a string makes, and the strings that make one.\<close>

definition good_template :: "string \<Rightarrow> bool" where
  "good_template s \<longleftrightarrow> lcfgresource_valid_template (Some s) \<and> strstr s ''_$'' \<noteq> None"

definition template_of :: "string \<Rightarrow> LCFGTemplate" where
  "template_of s =
     (let ps = placeholders s (length s) in
      \<lparr>tmpl_text = Some s, tmpl_places = map int (rev ps) @ replicate (LCFG_TAGS_MAX_DEPTH - length ps) (- 1),
       tmpl_name_len = the (strstr s ''_$''), tmpl_len = length s, tmpl_pcount = length ps\<rparr>)"

lemma set_tmpl_new:
  "lcfgtemplate_set_tmpl lcfgtemplate_new (Some s) =
     Some (if good_template s then (True, template_of s) else (False, lcfgtemplate_new))"
proof (cases "good_template s")
  case True
  then have v: "lcfgresource_valid_template (Some s)" and n: "s \<noteq> []" "\<exists>i. strstr s ''_$'' = Some i"
    by (auto simp: good_template_def valid_template_iff)
  then have "length (placeholders s (length s)) \<le> LCFG_TAGS_MAX_DEPTH"
    by (simp add: placeholders_length valid_template_iff)
  with True v n show ?thesis
    by (auto simp: lcfgtemplate_set_tmpl_def lcfgtemplate_new_def mark_places_result template_of_def Let_def)
qed (auto simp: lcfgtemplate_set_tmpl_def good_template_def Let_def or_default_empty valid_template_iff)

lemma template_tokens_result:
  "template_tokens tokens result =
     Some (case find (\<lambda>s. \<not> good_template s) tokens of
        None \<Rightarrow> Inr (result @ map template_of tokens) | Some s \<Rightarrow> Inl (bad_template s))"
  by (induction tokens arbitrary: result) (simp_all add: set_tmpl_new split: option.split)

lemma from_string_result:
  "s \<noteq> [] \<Longrightarrow> lcfgtemplate_from_string (Some s) =
     Some (case find (\<lambda>s. \<not> good_template s) (strtok tmpl_space s) of
        None \<Rightarrow> Inr (map template_of (strtok tmpl_space s)) | Some t \<Rightarrow> Inl (bad_template t))"
  by (simp add: lcfgtemplate_from_string_def template_tokens_result split: option.split)

lemma to_string_templates:
  assumes "isempty prefix"
  shows "lcfgtemplate_to_string (map template_of ss) prefix options =
     (let s = join_texts ss @ (if has_bit options LCFG_OPT_NEWLINE then [CHR 0x0A] else []) in (length s, s))"
proof -
  have "template_text (template_of s) = s" "tmpl_len (template_of s) = length s" for s
    by (cases "s = []"; simp add: template_text_def template_of_def Let_def)+
  moreover have "templates_length (map template_of ss) = length (join_texts ss)"
    by (induction ss rule: join_texts.induct) (simp_all add: template_of_def Let_def)
  moreover have "join_texts (s # ss) = s @ concat (map (\<lambda>t. CHR '' '' # t) ss)" for s ss
    by (induction ss arbitrary: s) simp_all
  ultimately show ?thesis using assms
    by (cases ss) (simp_all add: lcfgtemplate_to_string_def or_default_empty comp_def Let_def)
qed

lemma good_template_chars: "good_template s \<Longrightarrow> s \<noteq> [] \<and> (\<forall>c\<in>set s. \<not> tmpl_space c)"
  by (auto simp: good_template_def valid_template_iff list_all_iff tmpl_space_def LCFG_TEMPLATE_PLACEHOLDER_def lcfg_chr byte_def
      dest!: bspec)

section \<open>Filling in the tags\<close>

fun fill_template :: "string \<Rightarrow> string list \<Rightarrow> string" where
  "fill_template [] ts = []"
| "fill_template (c # s) ts =
     (if c = LCFG_TEMPLATE_PLACEHOLDER then (case ts of [] \<Rightarrow> fill_template s [] | t # ts' \<Rightarrow> t @ fill_template s ts')
      else c # fill_template s ts)"

text \<open>A template as the text before the first placeholder and the texts after each one.\<close>

definition plain :: "string \<Rightarrow> bool" where "plain s \<longleftrightarrow> LCFG_TEMPLATE_PLACEHOLDER \<notin> set s"

definition after_holes :: "string list \<Rightarrow> string" where
  "after_holes qs = concat (map (Cons LCFG_TEMPLATE_PLACEHOLDER) qs)"

definition filled :: "string list \<Rightarrow> string list \<Rightarrow> string" where
  "filled ns qs = concat (map2 (@) ns qs)"

lemma after_holes_simps [simp]:
  "after_holes [] = []" "after_holes (qs @ [q]) = after_holes qs @ LCFG_TEMPLATE_PLACEHOLDER # q"
  by (simp_all add: after_holes_def)

lemma filled_snoc: "length ns = length qs \<Longrightarrow> filled (ns @ [n]) (qs @ [q]) = filled ns qs @ n @ q"
  by (simp add: filled_def)

lemma template_split:
  obtains a qs where "s = a @ after_holes qs" "plain a" "\<forall>q\<in>set qs. plain q"
    "qs \<noteq> [] \<Longrightarrow> last s = LCFG_TEMPLATE_PLACEHOLDER \<Longrightarrow> last qs = []"
proof -
  have "\<exists>a qs. s = a @ after_holes qs \<and> plain a \<and> (\<forall>q\<in>set qs. plain q)"
  proof (induction s rule: rev_induct)
    case Nil
    then show ?case by (intro exI [of _ "[]"]) (simp add: plain_def)
  next
    case (snoc c s)
    then obtain a qs where IH: "s = a @ after_holes qs" "plain a" "\<forall>q\<in>set qs. plain q" by blast
    consider "c = LCFG_TEMPLATE_PLACEHOLDER" | "c \<noteq> LCFG_TEMPLATE_PLACEHOLDER" "qs = []"
      | q qs' where "c \<noteq> LCFG_TEMPLATE_PLACEHOLDER" "qs = qs' @ [q]" by (cases qs rule: rev_cases) auto
    then show ?case
    proof cases
      case 1
      with IH show ?thesis by (intro exI [of _ a] exI [of _ "qs @ [[]]"]) (simp add: plain_def)
    next
      case 2
      with IH show ?thesis by (intro exI [of _ "a @ [c]"] exI [of _ "[]"]) (simp add: plain_def)
    next
      case 3
      with IH show ?thesis by (intro exI [of _ a] exI [of _ "qs' @ [q @ [c]]"]) (simp add: plain_def)
    qed
  qed
  then obtain a qs where *: "s = a @ after_holes qs" "plain a" "\<forall>q\<in>set qs. plain q" by blast
  have ends: "last qs = []" if ne: "qs \<noteq> []" and hole: "last s = LCFG_TEMPLATE_PLACEHOLDER"
  proof -
    obtain qs' q where q: "qs = qs' @ [q]" using ne by (cases qs rule: rev_cases) auto
    have "LCFG_TEMPLATE_PLACEHOLDER \<in> set q" if "q \<noteq> []" using last_in_set [OF that] hole *(1) q by (simp split: if_splits)
    with q *(3) show ?thesis by (auto simp: plain_def)
  qed
  from that [OF *] ends show thesis by blast
qed

lemma fill_plain: "plain a \<Longrightarrow> fill_template (a @ s) ts = a @ fill_template s ts"
  by (induction a) (auto simp: plain_def)

lemma fill_split:
  assumes "\<forall>q\<in>set qs. plain q" and "plain a" and "length ns = length qs"
  shows "fill_template (a @ after_holes qs) ns = a @ filled ns qs"
  using assms
proof (induction qs arbitrary: a ns)
  case Nil
  then show ?case using fill_plain [of a "[]" ns] by (simp add: filled_def)
next
  case (Cons q qs)
  then obtain n ns' where n: "ns = n # ns'" by (cases ns) auto
  then show ?case using Cons.IH [of q ns'] Cons.prems fill_plain [of a]
    by (simp add: after_holes_def filled_def)
qed

lemma placeholders_split:
  assumes "\<forall>q\<in>set qs. plain q" and "plain a"
  shows "placeholders (a @ after_holes qs) (length (a @ after_holes qs)) =
    map (\<lambda>i. length (a @ after_holes (take i qs))) [0..<length qs]"
  using assms(1)
proof (induction qs rule: rev_induct)
  case Nil
  then show ?case using assms(2) by (auto simp: placeholders_def plain_def filter_empty_conv) (metis nth_mem)
next
  case (snoc q qs)
  let ?s = "a @ after_holes qs"
  let ?t = "?s @ LCFG_TEMPLATE_PLACEHOLDER # q"
  have "[0..<length ?t] = [0..<length ?s] @ [length ?s] @ [Suc (length ?s)..<length ?t]"
    using upt_add_eq_append [of 0 "length ?s" "Suc (length q)"] upt_conv_Cons [of "length ?s" "length ?t"]
    by (simp del: upt_Suc add: add.assoc)
  moreover have "filter (\<lambda>i. ?t ! i = LCFG_TEMPLATE_PLACEHOLDER) [0..<length ?s] = placeholders ?s (length ?s)"
    unfolding placeholders_def by (rule filter_cong) (auto simp: nth_append)
  moreover have "filter (\<lambda>i. ?t ! i = LCFG_TEMPLATE_PLACEHOLDER) [Suc (length ?s)..<length ?t] = []"
  proof -
    have inq: "?t ! i \<in> set q" if "Suc (length ?s) \<le> i" "i < length ?t" for i
    proof -
      have "?t ! i = q ! (i - length ?s - 1)" using that by (simp add: nth_append [of ?s] del: append_assoc)
      with that show ?thesis by simp
    qed
    have "plain q" using snoc.prems by simp
    then have "?t ! i \<noteq> LCFG_TEMPLATE_PLACEHOLDER" if "i \<in> set [Suc (length ?s)..<length ?t]" for i
      using inq [of i] that unfolding plain_def set_upt atLeastLessThan_iff by metis
    then show ?thesis by (intro filter_False ballI)
  qed
  ultimately have "placeholders ?t (length ?t) = placeholders ?s (length ?s) @ [length ?s]"
    by (simp add: placeholders_def)
  with snoc show ?case by simp
qed


section \<open>Substitution\<close>

text \<open>How many tags an iterator has before it.\<close>

definition tags_left :: "(nat \<times> nat) list \<Rightarrow> nat option \<Rightarrow> nat" where
  "tags_left ps i = (case i of None \<Rightarrow> length ps | Some k \<Rightarrow> k)"

lemma tag_step_back:
  assumes "mem_ok m" and "taglist_in m l ps" and "chain_in m (ti_list it) ps" and "iter_at ps it i" and "tags_left ps i = Suc k"
  obtains a t it' where "lcfgtagiter_prev m it = Some (Some a, it')" "ti_list it' = ti_list it" "iter_at ps it' (Some k)"
    "tm_tags m a = Some t" "lcfgtag_get_length t = length (names_in m ps ! k)"
    "or_default (lcfgtag_get_name t) [] = names_in m ps ! k" "k < length ps"
proof -
  have k: "k < length ps" using assms(4,5) by (auto simp: tags_left_def iter_at_def split: option.splits)
  obtain a s where as: "ps ! k = (a, s)" by force
  then have "(a, s) \<in> set ps" using k nth_mem by metis
  then obtain t where t: "tm_tags m s = Some t" using held_live [OF assms(2)] tag_refs_live by blast
  then have "tag_ok t" using assms(1) by (auto simp: mem_ok_def)
  then show ?thesis
    using that [of s "it\<lparr>ti_current := Some a\<rparr>" t] iter_prev_result [OF assms(3,4)] assms(5) as k t
    by (simp add: tags_left_def iter_at_def names_in_def tag_text_def tag_ok_def lcfgtag_get_length_def lcfgtag_get_name_def)
qed

lemma last_names:
  assumes "Suc k \<le> length ns" and "n \<le> k"
  shows "drop (k - n) (take (Suc k) ns) = drop (k - n) (take k ns) @ [ns ! k]"
  using assms by (simp add: take_Suc_conv_app_nth)

lemma substitute_length_result:
  assumes "mem_ok m" and "taglist_in m l ps" and "chain_in m (ti_list it) ps" and "iter_at ps it i" and "n \<le> tags_left ps i"
  shows "\<exists>it'. substitute_length m n it len =
      Some (len + int (length (concat (drop (tags_left ps i - n) (take (tags_left ps i) (names_in m ps))))) - int n, it') \<and>
    ti_list it' = ti_list it"
  using assms(3-)
proof (induction n arbitrary: it i len)
  case (Suc n)
  then obtain k where k: "tags_left ps i = Suc k" "n \<le> k" by (cases "tags_left ps i") auto
  obtain a t it' where step: "lcfgtagiter_prev m it = Some (Some a, it')" "ti_list it' = ti_list it" "iter_at ps it' (Some k)"
    "tm_tags m a = Some t" "lcfgtag_get_length t = length (names_in m ps ! k)" "k < length ps"
    using tag_step_back [OF assms(1,2) Suc.prems(1,2) k(1)] by metis
  have "chain_in m (ti_list it') ps" "n \<le> tags_left ps (Some k)" using Suc.prems(1) step(2) k(2) by (simp_all add: tags_left_def)
  from Suc.IH [OF this(1) step(3) this(2), of "len + int (length (names_in m ps ! k)) - 1"] show ?case
    using step k last_names [of k "names_in m ps" n] by (auto simp: tag_at_def tags_left_def names_in_def)
qed simp

lemma copy_at_parts:
  "length x = n + length s \<Longrightarrow> copy_at (x @ y) (int n) s = Some (take n x @ s @ y)"
  by (simp add: copy_at_def)

lemma copy_at_end:
  assumes "length x = n" and "length s \<le> n"
  shows "copy_at (x @ y) (int n - int (length s)) s = Some (take (n - length s) x @ s @ y)"
  using assms copy_at_parts [of x "n - length s" s y] by (simp add: of_nat_diff)

text \<open>
  The loop on the holes that are left: it works from the last one to the first, and what it
  has written is the end of the result.
\<close>

lemma substitute_loop_result:
  assumes ok: "mem_ok m" "taglist_in m l ps" and tm: "tmpl_text t = Some (a @ after_holes qs @ r)"
    and places: "\<And>i. i < length qs \<Longrightarrow> tmpl_places t ! (j + (length qs - 1 - i)) = int (length (a @ after_holes (take i qs)))"
    and at: "chain_in m (ti_list it) ps" "iter_at ps it i" "length qs \<le> tags_left ps i"
    and end_at: "e = int (length (a @ after_holes qs)) \<or>
      qs \<noteq> [] \<and> last qs = [] \<and> e = int (length (a @ after_holes qs)) - 1"
    and ns: "ns = drop (tags_left ps i - length qs) (take (tags_left ps i) (names_in m ps))"
    and space: "length (filled ns qs) \<le> length x"
  shows "\<exists>it'. substitute_loop m t [j..<j + length qs] it e (int (length x)) (x @ y) =
      Some (int (length x - length (filled ns qs)), take (length x - length (filled ns qs)) x @ filled ns qs @ y, it') \<and>
    ti_list it' = ti_list it"
  using tm places at end_at ns space
proof (induction qs arbitrary: j it i e ns x y r rule: rev_induct)
  case Nil
  then show ?case by (simp add: filled_def)
next
  case (snoc q qs)
  obtain k where k: "tags_left ps i = Suc k" "length qs \<le> k" using snoc.prems(5) by (cases "tags_left ps i") auto
  obtain b u it' where step: "lcfgtagiter_prev m it = Some (Some b, it')" "ti_list it' = ti_list it" "iter_at ps it' (Some k)"
    "tm_tags m b = Some u" "lcfgtag_get_length u = length (names_in m ps ! k)"
    "or_default (lcfgtag_get_name u) [] = names_in m ps ! k" "k < length ps"
    using tag_step_back [OF ok snoc.prems(3,4) k(1)] by metis
  let ?n = "names_in m ps ! k"
  define ns' where "ns' = drop (k - length qs) (take k (names_in m ps))"
  have ns: "ns = ns' @ [?n]" "length ns' = length qs"
    using snoc.prems(7) k last_names [of k "names_in m ps" "length qs"] step(7) by (simp_all add: ns'_def names_in_def)
  let ?p = "length (a @ after_holes qs)"
  have place: "tmpl_places t ! j = int ?p" using snoc.prems(2) [of "length qs"] by simp
  have after: "0 < e - (int ?p + 1) \<longleftrightarrow> q \<noteq> []" "q \<noteq> [] \<Longrightarrow> e - (int ?p + 1) = int (length q)"
    using snoc.prems(6) by auto
  have filled: "filled ns (qs @ [q]) = filled ns' qs @ ?n @ q" using ns by (simp add: filled_snoc)
  have room: "length ?n + length q \<le> length x" "length q \<le> length x" using snoc.prems(8) filled by simp_all
  define x1 where "x1 = take (length x - length q) x"
  define x2 where "x2 = take (length x - length q - length ?n) x"
  have x: "length x1 = length x - length q" "length x2 = length x - length q - length ?n" "take (length x2) x1 = x2"
    using room by (simp_all add: x1_def x2_def)
  have tm: "or_default (tmpl_text t) [] = a @ after_holes qs @ LCFG_TEMPLATE_PLACEHOLDER # q @ r"
    using snoc.prems(1) by (auto simp: or_default_empty)
  have off: "(if 0 < e - (int ?p + 1) then int (length x) - (e - (int ?p + 1)) else int (length x)) = int (length x1)"
    using after room x by (cases "q = []") simp_all
  have mid: "(if 0 < e - (int ?p + 1) then copy_at (x @ y) (int (length x1))
        (take (nat (e - (int ?p + 1))) (drop (nat (int ?p + 1)) (or_default (tmpl_text t) []))) else Some (x @ y)) = Some (x1 @ q @ y)"
    using after room x copy_at_end [of x "length x" q y] by (cases "q = []") (simp_all add: tm x1_def nat_add_distrib of_nat_diff)
  have name: "copy_at (x1 @ q @ y) (int (length x1) - int (length ?n)) ?n = Some (x2 @ ?n @ q @ y)"
    using copy_at_end [of x1 "length x1" ?n "q @ y"] room x by simp
  have hyps: "tmpl_text t = Some (a @ after_holes qs @ (LCFG_TEMPLATE_PLACEHOLDER # q @ r))"
    "chain_in m (ti_list it') ps" "length qs \<le> tags_left ps (Some k)" "length (filled ns' qs) \<le> length x2"
    using snoc.prems(1,3,8) step(2) k x room filled by (simp_all add: tags_left_def)
  have places: "tmpl_places t ! (Suc j + (length qs - 1 - i)) = int (length (a @ after_holes (take i qs)))"
    if "i < length qs" for i using snoc.prems(2) [of i] that by (simp add: Suc_diff_Suc)
  obtain it'' where rest: "substitute_loop m t [Suc j..<Suc j + length qs] it' (int ?p) (int (length x2)) (x2 @ ?n @ q @ y) =
      Some (int (length x2 - length (filled ns' qs)),
        take (length x2 - length (filled ns' qs)) x2 @ filled ns' qs @ ?n @ q @ y, it'')" "ti_list it'' = ti_list it'"
    using snoc.IH [OF hyps(1) places hyps(2) step(3) hyps(3) disjI1 _ hyps(4)] ns'_def by (force simp: tags_left_def)
  have ups: "[j..<j + length (qs @ [q])] = j # [Suc j..<Suc j + length qs]"
    using upt_conv_Cons [of j "j + length (qs @ [q])"] by (simp del: upt_Suc)
  have off2: "int (length x1) - int (length ?n) = int (length x2)" using x room by simp
  have loop: "substitute_loop m t (j # js) it e (int (length x)) (x @ y) =
      substitute_loop m t js it' (int ?p) (int (length x2)) (x2 @ ?n @ q @ y)" for js
    unfolding substitute_loop.simps Let_def place off mid step(1) bind.bind_lunit prod.case tag_at_def option.case step(4-6) off2
    by (simp add: name [unfolded off2] del: length_append)
  let ?w = "length x - length (filled ns (qs @ [q]))"
  have left: "length x2 - length (filled ns' qs) = ?w" "take ?w x2 = take ?w x"
    using filled x by (simp_all add: x2_def min_def add_ac)
  show ?case
    unfolding ups loop rest(1) left using rest(2) step(2) by (simp add: filled)
qed


lemma substitute_result:
  assumes ok: "mem_ok m" "taglist_in m l ps" "0 < tl_refcount l" and s: "s = a @ after_holes qs" "last qs = []" "qs \<noteq> []"
    and plain: "\<forall>q\<in>set qs. plain q" "plain a" and size: "length qs \<le> length ps"
  shows "lcfgtemplate_substitute m (template_of s) (Some l) =
    Some (Inr (a @ filled (drop (length ps - length qs) (names_in m ps)) qs), Some l, m)"
proof -
  let ?t = "template_of s"
  let ?ns = "drop (length ps - length qs) (names_in m ps)"
  let ?it = "lcfgtagiter_new l"
  have pl: "placeholders s (length s) = map (\<lambda>i. length (a @ after_holes (take i qs))) [0..<length qs]"
    using placeholders_split [OF plain] s(1) by simp
  then have t: "tmpl_pcount ?t = length qs" "tmpl_text ?t = Some (a @ after_holes qs @ [])" "tmpl_len ?t = length s"
    using s(1) by (simp_all add: template_of_def Let_def)
  have places: "tmpl_places ?t ! (0 + (length qs - 1 - i)) = int (length (a @ after_holes (take i qs)))" if "i < length qs" for i
  proof -
    have "length qs - 1 - i < length qs" "length qs - Suc (length qs - 1 - i) = i" using that by simp_all
    with that pl show ?thesis by (simp add: template_of_def Let_def nth_append rev_nth del: length_append)
  qed
  have new: "chain_in m (ti_list ?it) ps" "iter_at ps ?it None" "ti_list ?it = l\<lparr>tl_refcount := tl_refcount l + 1\<rparr>"
    using ok(2) by (simp_all add: lcfgtagiter_new_def lcfgtaglist_acquire_def taglist_in_def chain_in_def iter_at_def)
  have left: "tags_left ps None = length ps" by (simp add: tags_left_def)
  have all: "take (length ps) (names_in m ps) = names_in m ps" by (simp add: names_in_def)
  have ns: "length ?ns = length qs" using size by (simp add: names_in_def)
  have len: "length (filled ns qs') = length (concat ns) + length (concat qs')" if "length ns = length qs'" for ns qs'
    using that by (induction ns qs' rule: list_induct2) (simp_all add: filled_def)
  have holes: "length (after_holes qs) = length qs + length (concat qs)"
    by (induction qs) (simp_all add: after_holes_def)
  let ?len = "length a + length (filled ?ns qs)"
  obtain it1 where it1: "substitute_length m (length qs) ?it (int (length s)) = Some (int ?len, it1)" "ti_list it1 = ti_list ?it"
    using substitute_length_result [OF ok(1,2) new(1,2), of "length qs" "int (length s)"] size left all s(1) len [OF ns] holes
    by (auto simp: algebra_simps)
  have reset: "chain_in m (ti_list (lcfgtagiter_reset it1)) ps" "iter_at ps (lcfgtagiter_reset it1) None"
    "length qs \<le> tags_left ps None" using new(1) it1(2) size left by (simp_all add: lcfgtagiter_reset_def iter_at_def)
  have e: "int (length s) - 1 = int (length (a @ after_holes qs)) \<or>
    qs \<noteq> [] \<and> last qs = [] \<and> int (length s) - 1 = int (length (a @ after_holes qs)) - 1" using s by simp
  obtain it2 where it2: "substitute_loop m ?t [0..<length qs] (lcfgtagiter_reset it1) (int (length s) - 1) (int ?len) (replicate ?len nul) =
      Some (int (length a), replicate (length a) nul @ filled ?ns qs, it2)" "ti_list it2 = ti_list it1"
    using substitute_loop_result [OF ok(1,2) t(2) places reset e, of ?ns "replicate ?len nul" "[]"] left all
    by (auto simp: lcfgtagiter_reset_def)
  have dest: "lcfgtagiter_destroy m (Some it2) = Some (Some l, m)"
    using it2(2) it1(2) new(3) ok(3) by (simp add: lcfgtagiter_destroy_def lcfgtaglist_relinquish_def)
  have "copy_at (replicate (length a) nul @ filled ?ns qs) 0 (take (length a) s) = Some (a @ filled ?ns qs)"
    using copy_at_parts [of "replicate (length a) nul" 0 a] s(1) by simp
  moreover have "lcfgtemplate_get_tmpl ?t = Some s" "s \<noteq> []" using t(2) s by (simp_all add: lcfgtemplate_get_tmpl_def after_holes_def)
  moreover have "\<not> tl_size l < length qs" using ok(2) size by (simp add: taglist_in_def chain_in_def)
  moreover have "nat (int ?len) = ?len" "nat (int (length a)) = length a" by simp_all
  ultimately show ?thesis
    using it1(1) it2(1) dest unfolding lcfgtemplate_substitute_def t(1,3) by (simp del: length_append nat_int)
qed

section \<open>Properties\<close>

text \<open>
  C38: Substituting in a template that ends with a placeholder gives the template with its
  placeholders replaced, from left to right, by the last tags of the list; with fewer tags
  than placeholders it is an error, and the tag list and the memory are as before.
\<close>

theorem template_substitute_spec:
  assumes "mem_ok m" and "taglist_in m l ps" and "0 < tl_refcount l"
    and "lcfgtemplate_set_tmpl lcfgtemplate_new (Some s) = Some (True, t)" and "last s = LCFG_TEMPLATE_PLACEHOLDER"
  shows "lcfgtemplate_substitute m t (Some l) =
    Some (if length ps < tmpl_pcount t then Inl (insufficient_tags t)
          else Inr (fill_template s (drop (length ps - tmpl_pcount t) (names_in m ps))), Some l, m)"
proof -
  have t: "t = template_of s" "good_template s" using assms(4) by (auto simp: set_tmpl_new split: if_splits)
  obtain a qs where s: "s = a @ after_holes qs" "plain a" "\<forall>q\<in>set qs. plain q"
    "qs \<noteq> [] \<Longrightarrow> last s = LCFG_TEMPLATE_PLACEHOLDER \<Longrightarrow> last qs = []" using template_split by blast
  have n: "tmpl_pcount t = length qs"
    using t(1) placeholders_split [OF s(3,2)] s(1) by (simp add: template_of_def Let_def)
  have "a = [] \<or> last a \<noteq> LCFG_TEMPLATE_PLACEHOLDER" using s(2) by (metis last_in_set plain_def)
  then have qs: "qs \<noteq> []" using assms(5) s(1) t(2) by (auto simp: good_template_def valid_template_iff)
  have size: "tl_size l = length ps" using assms(2) by (simp add: taglist_in_def chain_in_def)
  show ?thesis
  proof (cases "length ps < length qs")
    case True
    then show ?thesis using n size by (simp add: lcfgtemplate_substitute_def)
  next
    case False
    then have "length (drop (length ps - length qs) (names_in m ps)) = length qs" by (simp add: names_in_def)
    then show ?thesis
      using False n substitute_result [OF assms(1-3) s(1) s(4) [OF qs assms(5)] qs s(3,2)] fill_split [OF s(3,2)] t(1) s(1) by simp
  qed
qed

lemma template_substitute_spec_witness:
  "lcfgtemplate_substitute sample_mem (template_of ''r_$_$'') (Some sample_tags) = Some (Inr ''r_b_a'', Some sample_tags, sample_mem)"
proof -
  have good: "good_template ''r_$_$''"
    by (simp add: good_template_def valid_template_iff lcfg_chr byte_def LCFG_TEMPLATE_PLACEHOLDER_def LCFG_TAGS_MAX_DEPTH_def
        starts_with_def)
  have "0 < tl_refcount sample_tags" by (simp add: sample_tags_def)
  from template_substitute_spec [OF sample_list(1,2) this, of "''r_$_$''" "template_of ''r_$_$''"] good
  show ?thesis
    by (simp add: set_tmpl_new LCFG_TEMPLATE_PLACEHOLDER_def template_of_def placeholders_def Let_def names_in_def tag_text_def
        sample_mem_def sample_tag_def upt_rec)
qed

text \<open>A template with text after its last placeholder loses a character of it.\<close>

lemma substitute_drops_end:
  "map_option fst (lcfgtemplate_substitute sample_mem (template_of ''r_$_b'') (Some sample_tags)) = Some (Inr ''r_$a_'')"
  by code_simp

text \<open>
  The text of a list of templates is as long as computed for its buffer, and a list that was
  read from a text is read back from its own text, with or without its newline.
\<close>

theorem template_string_roundtrip:
  assumes "lcfgtemplate_from_string input = Some (Inr ts)" and "ts \<noteq> []"
  shows "case lcfgtemplate_to_string ts None options of (n, s) \<Rightarrow>
    n = length s \<and> lcfgtemplate_from_string (Some s) = Some (Inr ts)"
proof -
  obtain t where t: "input = Some t" "t \<noteq> []" using assms(1) by (cases input) (auto simp: lcfgtemplate_from_string_def split: if_splits)
  let ?ss = "strtok tmpl_space t"
  have ts: "ts = map template_of ?ss" "\<forall>s\<in>set ?ss. good_template s"
    using assms(1) t by (auto simp: from_string_result find_None_iff split: option.splits)
  then have "?ss \<noteq> []" using assms(2) by auto
  let ?e = "if has_bit options LCFG_OPT_NEWLINE then [CHR 0x0A] else []"
  have "strtok tmpl_space (join_texts ?ss @ ?e) = ?ss"
  proof (rule strtok_join)
    show "\<forall>t\<in>set ?ss. t \<noteq> [] \<and> (\<forall>c\<in>set t. \<not> tmpl_space c)" using ts(2) good_template_chars by blast
    show "strtok tmpl_space ?e = []" by (simp add: tmpl_space_def strtok.simps)
  qed (simp_all add: tmpl_space_def)
  moreover have "join_texts ?ss \<noteq> []"
    using \<open>?ss \<noteq> []\<close> ts(2) good_template_chars by (cases ?ss rule: join_texts.cases) auto
  moreover have "find (\<lambda>s. \<not> good_template s) ?ss = None" using ts(2) by (auto simp: find_None_iff)
  ultimately show ?thesis by (simp add: ts(1) to_string_templates from_string_result Let_def)
qed

lemma template_string_roundtrip_witness:
  "case lcfgtemplate_to_string [template_of ''a_$'', template_of ''b_$''] None LCFG_OPT_NEWLINE of (n, s) \<Rightarrow>
     n = length s \<and> lcfgtemplate_from_string (Some s) = Some (Inr [template_of ''a_$'', template_of ''b_$''])"
proof (rule template_string_roundtrip)
  show "lcfgtemplate_from_string (Some ''a_$  b_$'') = Some (Inr [template_of ''a_$'', template_of ''b_$''])" by code_simp
qed simp

end
