(* ===== verification/Lcfg_Resource.thy ===== *)
theory Lcfg_Resource
  imports Lcfg_Context_Expr Lcfg_Derivation Lcfg_Entities Lcfg_Template
begin

text \<open>
  Resources (\<open>resources/resource.c\<close>, \<open>include/resources.h\<close>): the record, the validators and
  setters of each attribute, types, and the comparison of resources. A setter returns whether
  it accepted the value, and the resource. What goes through the templates of a resource is an
  option, as in \<open>Lcfg_Template\<close>.
\<close>

section \<open>The record\<close>

datatype LCFGResourceType =
    LCFG_RESOURCE_TYPE_STRING | LCFG_RESOURCE_TYPE_INTEGER | LCFG_RESOURCE_TYPE_BOOLEAN
  | LCFG_RESOURCE_TYPE_LIST | LCFG_RESOURCE_TYPE_PUBLISH | LCFG_RESOURCE_TYPE_SUBSCRIBE

record LCFGResource =
  res_name :: cstr
  res_value :: cstr
  res_template :: "LCFGTemplate list"
  res_context :: cstr
  res_derivation :: "LCFGDerivationList option"
  res_comment :: cstr
  res_type :: LCFGResourceType
  res_priority :: int
  res_refcount :: nat

definition LCFG_RESOURCE_DEFAULT_TYPE :: LCFGResourceType where
  "LCFG_RESOURCE_DEFAULT_TYPE = LCFG_RESOURCE_TYPE_STRING"

definition LCFG_RESOURCE_DEFAULT_PRIORITY :: int where "LCFG_RESOURCE_DEFAULT_PRIORITY = 0"

definition LCFG_RESOURCE_SYMBOL_DERIVATION :: char where "LCFG_RESOURCE_SYMBOL_DERIVATION = CHR ''#''"
definition LCFG_RESOURCE_SYMBOL_TYPE :: char where "LCFG_RESOURCE_SYMBOL_TYPE = CHR ''%''"
definition LCFG_RESOURCE_SYMBOL_CONTEXT :: char where "LCFG_RESOURCE_SYMBOL_CONTEXT = CHR ''=''"
definition LCFG_RESOURCE_SYMBOL_PRIORITY :: char where "LCFG_RESOURCE_SYMBOL_PRIORITY = CHR ''^''"
definition LCFG_RESOURCE_SYMBOL_VALUE :: char where "LCFG_RESOURCE_SYMBOL_VALUE = nul"

fun lcfgresource_type_names :: "LCFGResourceType \<Rightarrow> string" where
  "lcfgresource_type_names LCFG_RESOURCE_TYPE_STRING = ''string''"
| "lcfgresource_type_names LCFG_RESOURCE_TYPE_INTEGER = ''integer''"
| "lcfgresource_type_names LCFG_RESOURCE_TYPE_BOOLEAN = ''boolean''"
| "lcfgresource_type_names LCFG_RESOURCE_TYPE_LIST = ''list''"
| "lcfgresource_type_names LCFG_RESOURCE_TYPE_PUBLISH = ''publish''"
| "lcfgresource_type_names LCFG_RESOURCE_TYPE_SUBSCRIBE = ''subscribe''"

definition lcfgresource_new :: LCFGResource where
  "lcfgresource_new =
     \<lparr>res_name = None, res_value = None, res_template = [], res_context = None, res_derivation = None,
      res_comment = None, res_type = LCFG_RESOURCE_DEFAULT_TYPE,
      res_priority = LCFG_RESOURCE_DEFAULT_PRIORITY, res_refcount = 1\<rparr>"

section \<open>Names\<close>

definition lcfgresource_valid_name :: "cstr \<Rightarrow> bool" where
  "lcfgresource_valid_name name \<longleftrightarrow>
     \<not> isempty name \<and> isalpha (cur (or_default name [])) \<and> list_all isword (tl (or_default name []))"

definition lcfgresource_is_valid :: "LCFGResource option \<Rightarrow> bool" where
  "lcfgresource_is_valid res \<longleftrightarrow> (case res of None \<Rightarrow> False | Some r \<Rightarrow> \<not> isempty (res_name r))"

definition lcfgresource_has_name :: "LCFGResource \<Rightarrow> bool" where
  "lcfgresource_has_name res \<longleftrightarrow> \<not> isempty (res_name res)"

definition lcfgresource_get_name :: "LCFGResource \<Rightarrow> cstr" where "lcfgresource_get_name res = res_name res"

definition lcfgresource_set_name :: "LCFGResource \<Rightarrow> cstr \<Rightarrow> bool \<times> LCFGResource" where
  "lcfgresource_set_name res new_name =
     (if lcfgresource_valid_name new_name then (True, res\<lparr>res_name := new_name\<rparr>) else (False, res))"

section \<open>Values\<close>

definition lcfgresource_get_type :: "LCFGResource \<Rightarrow> LCFGResourceType" where
  "lcfgresource_get_type res = res_type res"

definition lcfgresource_valid_boolean :: "cstr \<Rightarrow> bool" where
  "lcfgresource_valid_boolean value \<longleftrightarrow>
     (case value of None \<Rightarrow> False | Some v \<Rightarrow> v = [] \<or> strcmp v ''yes'' = 0)"

definition canon_false_values :: "string list" where "canon_false_values = [''false'', ''no'', ''off'', ''0'', '''']"

definition canon_true_values :: "string list" where "canon_true_values = [''true'', ''yes'', ''on'', ''1'']"

definition lcfgresource_canon_boolean :: "cstr \<Rightarrow> cstr" where
  "lcfgresource_canon_boolean value =
     (if lcfgresource_valid_boolean value then value
      else let value2 = map (\<lambda>c. char_of (nat (tolower c))) (or_default value []) in
        if list_ex (\<lambda>v. strcmp value2 v = 0) canon_true_values then Some ''yes''
        else if list_ex (\<lambda>v. strcmp value2 v = 0) canon_false_values then Some []
        else None)"

definition lcfgresource_valid_integer :: "cstr \<Rightarrow> bool" where
  "lcfgresource_valid_integer value \<longleftrightarrow>
     (case value of
        None \<Rightarrow> False
      | Some v \<Rightarrow>
          let ptr = (if cur v = CHR ''-'' then tl v else v)
          in ptr \<noteq> [] \<and> (cur ptr \<noteq> CHR ''0'' \<or> strcmp ptr ''0'' = 0) \<and> list_all isdigit ptr)"

definition lcfgresource_valid_list :: "cstr \<Rightarrow> bool" where
  "lcfgresource_valid_list value \<longleftrightarrow>
     (case value of None \<Rightarrow> False | Some v \<Rightarrow> list_all (\<lambda>c. isword c \<or> c = CHR '' '') v)"

fun lcfgresource_valid_value_for_type :: "LCFGResourceType \<Rightarrow> cstr \<Rightarrow> bool" where
  "lcfgresource_valid_value_for_type _ None \<longleftrightarrow> False"
| "lcfgresource_valid_value_for_type LCFG_RESOURCE_TYPE_INTEGER value \<longleftrightarrow> lcfgresource_valid_integer value"
| "lcfgresource_valid_value_for_type LCFG_RESOURCE_TYPE_BOOLEAN value \<longleftrightarrow> lcfgresource_valid_boolean value"
| "lcfgresource_valid_value_for_type LCFG_RESOURCE_TYPE_LIST value \<longleftrightarrow> lcfgresource_valid_list value"
| "lcfgresource_valid_value_for_type _ value \<longleftrightarrow> True"

definition lcfgresource_valid_value :: "LCFGResource \<Rightarrow> cstr \<Rightarrow> bool" where
  "lcfgresource_valid_value res value \<longleftrightarrow> lcfgresource_valid_value_for_type (lcfgresource_get_type res) value"

definition lcfgresource_has_value :: "LCFGResource \<Rightarrow> bool" where
  "lcfgresource_has_value res \<longleftrightarrow> \<not> isempty (res_value res)"

definition lcfgresource_get_value :: "LCFGResource \<Rightarrow> cstr" where "lcfgresource_get_value res = res_value res"

definition lcfgresource_set_value :: "LCFGResource \<Rightarrow> cstr \<Rightarrow> bool \<times> LCFGResource" where
  "lcfgresource_set_value res new_value =
     (if lcfgresource_valid_value res new_value then (True, res\<lparr>res_value := new_value\<rparr>) else (False, res))"

definition lcfgresource_unset_value :: "LCFGResource \<Rightarrow> bool \<times> LCFGResource" where
  "lcfgresource_unset_value res = (True, res\<lparr>res_value := None\<rparr>)"

section \<open>Templates and comments\<close>

definition lcfgresource_has_template :: "LCFGResource \<Rightarrow> bool" where
  "lcfgresource_has_template res \<longleftrightarrow> res_template res \<noteq> []"

definition lcfgresource_get_template :: "LCFGResource \<Rightarrow> LCFGTemplate list" where
  "lcfgresource_get_template res = res_template res"

definition lcfgresource_get_template_as_string :: "LCFGResource \<Rightarrow> bits \<Rightarrow> nat \<times> string" where
  "lcfgresource_get_template_as_string res options =
     (if lcfgresource_has_template res
      then lcfgtemplate_to_string (lcfgresource_get_template res) None options else (0, []))"

definition lcfgresource_set_template :: "LCFGResource \<Rightarrow> LCFGTemplate list \<Rightarrow> bool \<times> LCFGResource" where
  "lcfgresource_set_template res new_tmpl =
     (if new_tmpl = [] \<or> lcfgtemplate_is_valid (Some (hd new_tmpl)) then (True, res\<lparr>res_template := new_tmpl\<rparr>)
      else (False, res))"

text \<open>Whether it was set, the resource, and the message.\<close>

definition invalid_template_message :: "string \<Rightarrow> string \<Rightarrow> string" where
  "invalid_template_message s parse_msg =
     ''Invalid template '' @ [CHR 0x27] @ s @ [CHR 0x27] @ '': '' @ parse_msg"

definition lcfgresource_set_template_as_string ::
    "LCFGResource \<Rightarrow> cstr \<Rightarrow> (bool \<times> LCFGResource \<times> cstr) option" where
  "lcfgresource_set_template_as_string res new_tmpl_str =
     (case new_tmpl_str of
        None \<Rightarrow> Some (False, res, None)
      | Some s \<Rightarrow>
          if s = [] then (case lcfgresource_set_template res [] of (ok, res') \<Rightarrow> Some (ok, res', None))
          else do {
            rc \<leftarrow> lcfgtemplate_from_string (Some s);
            case rc of
              Inl parse_msg \<Rightarrow> Some (False, res, Some (invalid_template_message s parse_msg))
            | Inr new_template \<Rightarrow>
                (case if new_template = [] then (False, res) else lcfgresource_set_template res new_template of
                   (ok, res') \<Rightarrow>
                     if ok then Some (True, res', None)
                     else Some (False, res', Some (invalid_template_message s ''unknown error'')))
          })"

definition lcfgresource_has_comment :: "LCFGResource \<Rightarrow> bool" where
  "lcfgresource_has_comment res \<longleftrightarrow> \<not> isempty (res_comment res)"

definition lcfgresource_get_comment :: "LCFGResource \<Rightarrow> cstr" where "lcfgresource_get_comment res = res_comment res"

definition lcfgresource_set_comment :: "LCFGResource \<Rightarrow> cstr \<Rightarrow> bool \<times> LCFGResource" where
  "lcfgresource_set_comment res new_comment = (True, res\<lparr>res_comment := new_comment\<rparr>)"

section \<open>Types\<close>

definition lcfgresource_set_type :: "LCFGResource \<Rightarrow> LCFGResourceType \<Rightarrow> bool \<times> LCFGResource" where
  "lcfgresource_set_type res new_type =
     (if res_type res = new_type then (True, res)
      else if res_value res = None \<or> lcfgresource_valid_value_for_type new_type (res_value res)
      then (True, res\<lparr>res_type := new_type\<rparr>) else (False, res))"

definition lcfgresource_set_type_default :: "LCFGResource \<Rightarrow> bool \<times> LCFGResource" where
  "lcfgresource_set_type_default res =
     (if lcfgresource_get_type res = LCFG_RESOURCE_DEFAULT_TYPE then (True, res)
      else let (ok, res1) = lcfgresource_set_type res LCFG_RESOURCE_DEFAULT_TYPE in
        if \<not> ok then (False, res1)
        else let (tmpl_ok, res2) = lcfgresource_set_template res1 [];
                 (cmt_ok, res3) = lcfgresource_set_comment res2 None
             in (tmpl_ok \<and> cmt_ok, res3))"

text \<open>The type whose name starts the text.\<close>

definition type_by_name :: "string \<Rightarrow> LCFGResourceType option" where
  "type_by_name type_str =
     (if starts_with type_str ''integer'' then Some LCFG_RESOURCE_TYPE_INTEGER
      else if starts_with type_str ''boolean'' then Some LCFG_RESOURCE_TYPE_BOOLEAN
      else if starts_with type_str ''list'' then Some LCFG_RESOURCE_TYPE_LIST
      else if starts_with type_str ''publish'' then Some LCFG_RESOURCE_TYPE_PUBLISH
      else if starts_with type_str ''subscribe'' then Some LCFG_RESOURCE_TYPE_SUBSCRIBE
      else if starts_with type_str ''string'' then Some LCFG_RESOURCE_DEFAULT_TYPE
      else None)"

text \<open>The comment in brackets, if there is one, and what follows it.\<close>

definition type_comment :: "string \<Rightarrow> cstr \<times> string" where
  "type_comment type_str =
     (case strchr_split type_str (CHR ''('') of
        None \<Rightarrow> (None, type_str)
      | Some (_, s) \<Rightarrow>
          (case strchr_split s (CHR '')'') of
             None \<Rightarrow> (None, type_str)
           | Some (comment, posn) \<Rightarrow> (if 0 < length comment then Some comment else None, posn)))"

definition invalid_type :: "string \<Rightarrow> string" where
  "invalid_type s = ''invalid resource type '' @ [CHR 0x27] @ s @ [CHR 0x27]"

text \<open>The text without its leading symbol, and the type it names.\<close>

definition parse_type :: "cstr \<Rightarrow> string \<times> LCFGResourceType option" where
  "parse_type type_str =
     (let s0 = skip_space (or_default type_str []);
          s = (if s0 \<noteq> [] \<and> cur s0 = LCFG_RESOURCE_SYMBOL_TYPE then tl s0 else s0)
      in (s, if s0 = [] then Some LCFG_RESOURCE_DEFAULT_TYPE else type_by_name s))"

text \<open>The template of a list type is what follows a colon and a space.\<close>

definition set_type_template :: "LCFGResource \<Rightarrow> string \<Rightarrow> (bool \<times> LCFGResource \<times> cstr) option" where
  "set_type_template res posn =
     (case strstr posn '': '' of
        None \<Rightarrow> Some (True, res, None)
      | Some i \<Rightarrow>
          let tmpl_start = skip_space (drop (i + 2) posn) in
          if tmpl_start = [] then Some (True, res, None)
          else lcfgresource_set_template_as_string res (Some tmpl_start))"

text \<open>Whether it was set, the resource, and the message.\<close>

definition lcfgresource_set_type_as_string ::
    "LCFGResource \<Rightarrow> cstr \<Rightarrow> (bool \<times> LCFGResource \<times> cstr) option" where
  "lcfgresource_set_type_as_string res type_str =
     (case parse_type type_str of
        (s, None) \<Rightarrow> Some (False, res, Some (invalid_type s))
      | (s, Some new_type) \<Rightarrow>
          let (ok, res1) = lcfgresource_set_type res new_type in
          if \<not> ok then Some (False, res1, None)
          else let (comment, posn) = type_comment s;
                   (ok2, res2) = (case comment of None \<Rightarrow> (True, res1) | Some _ \<Rightarrow> lcfgresource_set_comment res1 comment)
            in if ok2 \<and> new_type = LCFG_RESOURCE_TYPE_LIST then set_type_template res2 posn
               else Some (ok2, res2, None))"

definition lcfgresource_is_string :: "LCFGResource \<Rightarrow> bool" where
  "lcfgresource_is_string res \<longleftrightarrow>
     res_type res = LCFG_RESOURCE_TYPE_STRING \<or> res_type res = LCFG_RESOURCE_TYPE_SUBSCRIBE \<or>
     res_type res = LCFG_RESOURCE_TYPE_PUBLISH"

definition lcfgresource_is_integer :: "LCFGResource \<Rightarrow> bool" where
  "lcfgresource_is_integer res \<longleftrightarrow> lcfgresource_get_type res = LCFG_RESOURCE_TYPE_INTEGER"

definition lcfgresource_is_boolean :: "LCFGResource \<Rightarrow> bool" where
  "lcfgresource_is_boolean res \<longleftrightarrow> lcfgresource_get_type res = LCFG_RESOURCE_TYPE_BOOLEAN"

definition lcfgresource_is_list :: "LCFGResource \<Rightarrow> bool" where
  "lcfgresource_is_list res \<longleftrightarrow> lcfgresource_get_type res = LCFG_RESOURCE_TYPE_LIST"

definition lcfgresource_is_true :: "LCFGResource \<Rightarrow> bool" where
  "lcfgresource_is_true res \<longleftrightarrow>
     \<not> isempty (res_value res) \<and>
     (if lcfgresource_is_boolean res then strcmp (or_default (res_value res) []) ''yes'' = 0
      else strcmp (or_default (res_value res) []) ''0'' \<noteq> 0)"

text \<open>The length computed for the buffer, and the text.\<close>

definition lcfgresource_get_type_as_string :: "LCFGResource \<Rightarrow> bits \<Rightarrow> nat \<times> string" where
  "lcfgresource_get_type_as_string res options =
     (let type_string = lcfgresource_type_names (res_type res);
          comment = or_default (res_comment res) [];
          with_template = (lcfgresource_is_list res \<and> \<not> has_bit options LCFG_OPT_NOTEMPLATES);
          (text_len, tmpl_as_str) = (if with_template \<and> lcfgresource_has_template res
             then lcfgresource_get_template_as_string res LCFG_OPT_NONE else (0, []));
          newline = has_bit options LCFG_OPT_NEWLINE
      in (length type_string + (if comment \<noteq> [] then length comment + 2 else 0) +
            (if with_template then 2 + text_len else 0) + (if newline then 1 else 0),
          type_string @ (if comment \<noteq> [] then ''('' @ comment @ '')'' else []) @
            (if with_template then '': '' @ (if 0 < text_len then tmpl_as_str else []) else []) @
            (if newline then [CHR 0x0A] else [])))"


section \<open>Derivations\<close>

definition lcfgresource_get_derivation :: "LCFGResource \<Rightarrow> LCFGDerivationList option" where
  "lcfgresource_get_derivation res = res_derivation res"

definition lcfgresource_has_derivation :: "LCFGResource \<Rightarrow> bool" where
  "lcfgresource_has_derivation res \<longleftrightarrow>
     res_derivation res \<noteq> None \<and> \<not> lcfgderivlist_is_empty (res_derivation res)"

definition lcfgresource_get_derivation_as_string ::
    "LCFGResource \<Rightarrow> bits \<Rightarrow> string \<times> LCFGDerivationList option" where
  "lcfgresource_get_derivation_as_string res options =
     lcfgderivlist_to_string (lcfgresource_get_derivation res) options"

definition lcfgresource_get_derivation_length :: "LCFGResource \<Rightarrow> int \<times> LCFGResource" where
  "lcfgresource_get_derivation_length res =
     (if \<not> lcfgresource_has_derivation res then (0, res)
      else case lcfgderivlist_get_string_length (lcfgresource_get_derivation res) of
        (len, drvlist) \<Rightarrow> (len, res\<lparr>res_derivation := drvlist\<rparr>))"

definition lcfgresource_set_derivation ::
    "LCFGResource \<Rightarrow> LCFGDerivationList option \<Rightarrow> bool \<times> LCFGResource" where
  "lcfgresource_set_derivation res new_deriv = (True, res\<lparr>res_derivation := new_deriv\<rparr>)"

definition lcfgresource_set_derivation_as_string :: "LCFGResource \<Rightarrow> cstr \<Rightarrow> bool \<times> LCFGResource" where
  "lcfgresource_set_derivation_as_string res new_deriv =
     (case new_deriv of
        None \<Rightarrow> lcfgresource_set_derivation res None
      | Some _ \<Rightarrow>
          (case lcfgderivlist_from_string new_deriv of
             Inl _ \<Rightarrow> (False, res)
           | Inr new_drvlist \<Rightarrow> lcfgresource_set_derivation res (Some new_drvlist)))"

text \<open>What is done with a clone that was merged with: it is kept when it was modified.\<close>

definition keep_merged ::
    "LCFGResource \<Rightarrow> bool \<Rightarrow> (LCFGChange \<times> LCFGDerivationList) option \<Rightarrow> bool \<times> LCFGResource" where
  "keep_merged res failed merged =
     (case merged of
        None \<Rightarrow> (failed, res)
      | Some (merge_rc, clone) \<Rightarrow>
          if \<not> LCFGChangeOK merge_rc then (failed, res)
          else if merge_rc = LCFG_CHANGE_NONE then (True, res)
          else lcfgresource_set_derivation res (Some clone))"

definition lcfgresource_merge_derivation :: "LCFGResource \<Rightarrow> LCFGResource option \<Rightarrow> bool \<times> LCFGResource" where
  "lcfgresource_merge_derivation res1 res2 =
     (case res2 of
        None \<Rightarrow> (True, res1)
      | Some r2 \<Rightarrow>
          if \<not> lcfgresource_has_derivation r2 then (True, res1)
          else if lcfgderivlist_is_empty (lcfgresource_get_derivation res1)
          then lcfgresource_set_derivation res1 (lcfgresource_get_derivation r2)
          else keep_merged res1 False
            (map_option (\<lambda>clone. lcfgderivlist_merge_list clone (lcfgresource_get_derivation r2))
              (lcfgderivlist_clone (lcfgresource_get_derivation res1))))"

definition lcfgresource_add_derivation_string :: "LCFGResource \<Rightarrow> cstr \<Rightarrow> bool \<times> LCFGResource" where
  "lcfgresource_add_derivation_string res extra_deriv =
     (if isempty extra_deriv then (True, res)
      else keep_merged res True
        (map_option (\<lambda>clone. lcfgderivlist_merge_string_list clone extra_deriv)
          (lcfgderivlist_clone (lcfgresource_get_derivation res))))"

definition lcfgresource_add_derivation_file_line :: "LCFGResource \<Rightarrow> cstr \<Rightarrow> int \<Rightarrow> bool \<times> LCFGResource" where
  "lcfgresource_add_derivation_file_line res filename line =
     (if isempty filename then (True, res)
      else keep_merged res True
        (map_option (\<lambda>clone. lcfgderivlist_merge_file_line clone filename line)
          (lcfgderivlist_clone (lcfgresource_get_derivation res))))"

section \<open>Contexts and priorities\<close>

definition lcfgresource_valid_context :: "cstr \<Rightarrow> bool" where
  "lcfgresource_valid_context ctx \<longleftrightarrow> lcfgcontext_valid_expression ctx"

definition lcfgresource_has_context :: "LCFGResource \<Rightarrow> bool" where
  "lcfgresource_has_context res \<longleftrightarrow> \<not> isempty (res_context res)"

definition lcfgresource_get_context :: "LCFGResource \<Rightarrow> cstr" where "lcfgresource_get_context res = res_context res"

definition lcfgresource_set_context :: "LCFGResource \<Rightarrow> cstr \<Rightarrow> bool \<times> LCFGResource" where
  "lcfgresource_set_context res new_ctx =
     (if new_ctx = None \<or> lcfgresource_valid_context new_ctx then (True, res\<lparr>res_context := new_ctx\<rparr>)
      else (False, res))"

definition lcfgresource_add_context ::
    "(string \<Rightarrow> string \<Rightarrow> int) \<Rightarrow> LCFGResource \<Rightarrow> cstr \<Rightarrow> bool \<times> LCFGResource" where
  "lcfgresource_add_context scmp res extra_context =
     (if isempty extra_context then (True, res)
      else lcfgresource_set_context res
        (if \<not> lcfgresource_has_context res then extra_context
         else lcfgcontext_combine_expressions scmp (res_context res) extra_context))"

definition lcfgresource_get_priority :: "LCFGResource \<Rightarrow> int" where
  "lcfgresource_get_priority res = res_priority res"

text \<open>
  The negation of \<open>INT_MIN\<close> overflows: then the length is 1 with a sign, and the assertion on
  what \<open>snprintf\<close> returns fails, which is the value \<open>None\<close>.
\<close>

definition INT_MIN :: int where "INT_MIN = - 2147483648"

definition lcfgresource_get_priority_as_string :: "LCFGResource \<Rightarrow> (nat \<times> string) option" where
  "lcfgresource_get_priority_as_string res =
     (let priority = lcfgresource_get_priority res in
      if priority = INT_MIN then None
      else Some ((if priority < 0 then 1 else 0) + digit_count (nat \<bar>priority\<bar>),
                 (if priority < 0 then ''-'' else []) @ decimal (nat \<bar>priority\<bar>)))"

definition lcfgresource_set_priority :: "LCFGResource \<Rightarrow> int \<Rightarrow> bool \<times> LCFGResource" where
  "lcfgresource_set_priority res new_prio = (True, res\<lparr>res_priority := new_prio\<rparr>)"

definition lcfgresource_set_priority_default :: "LCFGResource \<Rightarrow> bool \<times> LCFGResource" where
  "lcfgresource_set_priority_default res = lcfgresource_set_priority res LCFG_RESOURCE_DEFAULT_PRIORITY"

text \<open>Whether it succeeded, the resource, and the message of an expression that does not evaluate.\<close>

definition lcfgresource_eval_priority ::
    "LCFGResource \<Rightarrow> LCFGContextList option \<Rightarrow> bool \<times> LCFGResource \<times> cstr" where
  "lcfgresource_eval_priority res ctxlist =
     (case if lcfgresource_has_context res
           then lcfgctxlist_eval_expression ctxlist (or_default (lcfgresource_get_context res) [])
           else Inr LCFG_RESOURCE_DEFAULT_PRIORITY of
        Inl msg \<Rightarrow> (False, res, Some msg)
      | Inr priority \<Rightarrow> (case lcfgresource_set_priority res priority of (ok, res') \<Rightarrow> (ok, res', None)))"

definition lcfgresource_is_active :: "LCFGResource \<Rightarrow> bool" where
  "lcfgresource_is_active res \<longleftrightarrow> 0 \<le> lcfgresource_get_priority res"

section \<open>Copies\<close>

definition clone_attr ::
    "(LCFGResource \<Rightarrow> cstr \<Rightarrow> bool \<times> LCFGResource) \<Rightarrow> cstr \<Rightarrow> bool \<times> LCFGResource \<Rightarrow> bool \<times> LCFGResource" where
  "clone_attr setter value st =
     (case st of (ok, clone) \<Rightarrow> if ok \<and> \<not> isempty value then setter clone value else (ok, clone))"

definition clone_template :: "LCFGResource \<Rightarrow> LCFGResource \<Rightarrow> (bool \<times> LCFGResource) option" where
  "clone_template res clone =
     (case lcfgresource_get_template_as_string res LCFG_OPT_NONE of
        (text_len, tmpl_as_str) \<Rightarrow>
          if 0 < text_len
          then map_option (\<lambda>(ok, r, _). (ok, r)) (lcfgresource_set_template_as_string clone (Some tmpl_as_str))
          else Some (True, clone))"

text \<open>\<open>Some None\<close> when a setter refuses the value of the attribute.\<close>

definition lcfgresource_clone :: "LCFGResource \<Rightarrow> LCFGResource option option" where
  "lcfgresource_clone res =
     (let (ok1, clone1) = clone_attr lcfgresource_set_name (res_name res) (True, lcfgresource_new);
          (ok2, clone2) = clone_attr lcfgresource_set_value (res_value res) (ok1, clone1\<lparr>res_type := res_type res\<rparr>)
      in do {
        (ok3, clone3) \<leftarrow> (if ok2 \<and> lcfgresource_has_template res then clone_template res clone2 else Some (ok2, clone2));
        let st4 = clone_attr lcfgresource_set_comment (res_comment res) (ok3, clone3\<lparr>res_priority := res_priority res\<rparr>);
        let st5 = clone_attr lcfgresource_set_context (res_context res) st4;
        let (ok, clone) = (if fst st5 \<and> lcfgresource_has_derivation res
           then lcfgresource_set_derivation (snd st5) (lcfgresource_get_derivation res) else st5);
        Some (if ok then Some clone else None)
      })"

section \<open>Comparison\<close>

definition lcfgresource_compare_names :: "LCFGResource \<Rightarrow> LCFGResource \<Rightarrow> int" where
  "lcfgresource_compare_names res1 res2 =
     strcmp (or_default (res_name res1) []) (or_default (res_name res2) [])"

definition lcfgresource_same_name :: "LCFGResource \<Rightarrow> LCFGResource \<Rightarrow> bool" where
  "lcfgresource_same_name res1 res2 \<longleftrightarrow> lcfgresource_compare_names res1 res2 = 0"

definition lcfgresource_same_type :: "LCFGResource \<Rightarrow> LCFGResource \<Rightarrow> bool" where
  "lcfgresource_same_type res1 res2 \<longleftrightarrow> lcfgresource_get_type res1 = lcfgresource_get_type res2"

text \<open>\<open>strtol\<close> in base 10 with a \<open>long\<close> of 64 bits, and \<open>atoi\<close>, which cuts its result to 32 bits.\<close>

definition strtol :: "string \<Rightarrow> int" where
  "strtol str =
     (let s = skip_space str;
          s1 = (if cur s = CHR ''-'' \<or> cur s = CHR ''+'' then tl s else s);
          n = int (fst (read_digits 10 0 s1))
      in if cur s = CHR ''-'' then max (- (2 ^ 63)) (- n) else min (2 ^ 63 - 1) n)"

definition atoi :: "string \<Rightarrow> int" where "atoi str = sint (word_of_int (strtol str) :: 32 word)"

definition lcfgresource_compare_values :: "LCFGResource \<Rightarrow> LCFGResource \<Rightarrow> int" where
  "lcfgresource_compare_values res1 res2 =
     (let value1_str = or_default (res_value res1) []; value2_str = or_default (res_value res2) [] in
      if lcfgresource_is_boolean res1 \<and> lcfgresource_same_type res1 res2 then
        let value1_istrue = (strcmp value1_str ''yes'' = 0); value2_istrue = (strcmp value2_str ''yes'' = 0)
        in if value1_istrue then (if \<not> value2_istrue then 1 else 0) else if value2_istrue then - 1 else 0
      else if lcfgresource_is_integer res1 \<and> lcfgresource_same_type res1 res2 then
        let value1 = strtol value1_str; value2 = strtol value2_str
        in if value1 = value2 then 0 else if value2 < value1 then 1 else - 1
      else strcmp value1_str value2_str)"

definition lcfgresource_match :: "LCFGResource \<Rightarrow> string \<Rightarrow> bool" where
  "lcfgresource_match res name \<longleftrightarrow> strcmp (or_default (res_name res) []) name = 0"

text \<open>The last comparison is of the values again, not of the contexts, as in the code.\<close>

definition lcfgresource_compare :: "LCFGResource \<Rightarrow> LCFGResource \<Rightarrow> int" where
  "lcfgresource_compare res1 res2 =
     (let result = lcfgresource_compare_names res1 res2;
          result1 = (if result = 0
            then (if res_priority res1 = res_priority res2 then 0 else if res_priority res1 < res_priority res2 then - 1 else 1)
            else result);
          result2 = (if result1 = 0 then strcmp (or_default (res_value res1) []) (or_default (res_value res2) []) else result1)
      in if result2 = 0 then strcmp (or_default (res_value res1) []) (or_default (res_value res2) []) else result2)"

definition lcfgresource_same_value :: "LCFGResource \<Rightarrow> LCFGResource \<Rightarrow> bool" where
  "lcfgresource_same_value res1 res2 \<longleftrightarrow> lcfgresource_compare_values res1 res2 = 0"

definition lcfgresource_same_context :: "LCFGResource \<Rightarrow> LCFGResource \<Rightarrow> bool" where
  "lcfgresource_same_context res1 res2 \<longleftrightarrow>
     lcfgcontext_compare_expressions (res_context res1) (res_context res2) = 0"

definition lcfgresource_equals :: "LCFGResource \<Rightarrow> LCFGResource \<Rightarrow> bool" where
  "lcfgresource_equals res1 res2 \<longleftrightarrow> lcfgresource_compare res1 res2 = 0"

definition lcfgresource_hash :: "LCFGResource \<Rightarrow> 64 word" where
  "lcfgresource_hash res = lcfgutils_string_djbhash (or_default (res_name res) []) []"


section \<open>The invariant\<close>

definition tmpl_good :: "LCFGTemplate \<Rightarrow> bool" where
  "tmpl_good t \<longleftrightarrow> (\<exists>s. good_template s \<and> t = template_of s)"

definition res_ok :: "LCFGResource \<Rightarrow> bool" where
  "res_ok res \<longleftrightarrow>
     (res_name res = None \<or> lcfgresource_valid_name (res_name res)) \<and>
     (res_value res = None \<or> lcfgresource_valid_value res (res_value res)) \<and>
     (res_context res = None \<or> lcfgresource_valid_context (res_context res)) \<and>
     list_all tmpl_good (res_template res)"

lemma valid_value_cong [simp]:
  "lcfgresource_valid_value (r\<lparr>res_name := n\<rparr>) v = lcfgresource_valid_value r v"
  "lcfgresource_valid_value (r\<lparr>res_value := n\<rparr>) v = lcfgresource_valid_value r v"
  "lcfgresource_valid_value (r\<lparr>res_context := n\<rparr>) v = lcfgresource_valid_value r v"
  "lcfgresource_valid_value (r\<lparr>res_comment := n\<rparr>) v = lcfgresource_valid_value r v"
  "lcfgresource_valid_value (r\<lparr>res_template := ts\<rparr>) v = lcfgresource_valid_value r v"
  "lcfgresource_valid_value (r\<lparr>res_derivation := d\<rparr>) v = lcfgresource_valid_value r v"
  "lcfgresource_valid_value (r\<lparr>res_priority := p\<rparr>) v = lcfgresource_valid_value r v"
  "lcfgresource_valid_value (r\<lparr>res_type := ty\<rparr>) v = lcfgresource_valid_value_for_type ty v"
  by (simp_all add: lcfgresource_valid_value_def lcfgresource_get_type_def)

lemma string_type_valid: "v \<noteq> None \<Longrightarrow> lcfgresource_valid_value_for_type LCFG_RESOURCE_TYPE_STRING v"
  by (cases v) simp_all

lemma from_string_good:
  assumes "lcfgtemplate_from_string s = Some (Inr ts)"
  shows "list_all tmpl_good ts"
proof -
  obtain t where t: "s = Some t" "t \<noteq> []" using assms by (cases s) (auto simp: lcfgtemplate_from_string_def split: if_splits)
  with assms have "ts = map template_of (strtok tmpl_space t)" "\<forall>s\<in>set (strtok tmpl_space t). good_template s"
    by (auto simp: from_string_result find_None_iff split: option.splits)
  then show ?thesis by (auto simp: list_all_iff tmpl_good_def)
qed

lemma from_string_total: "lcfgtemplate_from_string s \<noteq> None"
  by (cases s) (auto simp: lcfgtemplate_from_string_def template_tokens_result)

lemma valid_templates: "list_all tmpl_good ts \<Longrightarrow> ts = [] \<or> lcfgtemplate_is_valid (Some (hd ts))"
  by (cases ts) (auto simp: tmpl_good_def lcfgtemplate_is_valid_def template_of_def Let_def)

text \<open>The setters that parse always return, and change at most their own attributes.\<close>

lemma set_template_string:
  obtains ok ts msg where "lcfgresource_set_template_as_string res s = Some (ok, res\<lparr>res_template := ts\<rparr>, msg)"
    "list_all tmpl_good ts \<or> ts = res_template res" "\<not> ok \<Longrightarrow> ts = res_template res"
proof -
  have keep: "res\<lparr>res_template := res_template res\<rparr> = res" by simp
  have "\<exists>ok ts msg. lcfgresource_set_template_as_string res s = Some (ok, res\<lparr>res_template := ts\<rparr>, msg) \<and>
      (list_all tmpl_good ts \<or> ts = res_template res) \<and> (\<not> ok \<longrightarrow> ts = res_template res)"
  proof (cases "isempty s")
    case True
    then consider "s = None" | "s = Some []" by (cases s) auto
    then show ?thesis
    proof cases
      case 1
      with keep show ?thesis
        by (intro exI [of _ False] exI [of _ "res_template res"]) (simp add: lcfgresource_set_template_as_string_def)
    next
      case 2
      then show ?thesis
        by (intro exI [of _ True] exI [of _ "[]"])
          (simp add: lcfgresource_set_template_as_string_def lcfgresource_set_template_def)
    qed
  next
    case False
    then obtain t where t: "s = Some t" "t \<noteq> []" by (auto elim: not_isemptyE)
    obtain rc where rc: "lcfgtemplate_from_string (Some t) = Some rc" using from_string_total by blast
    show ?thesis
    proof (cases rc)
      case (Inl m)
      with t rc keep show ?thesis by (auto simp: lcfgresource_set_template_as_string_def)
    next
      case (Inr ts)
      with rc have "list_all tmpl_good ts" using from_string_good by blast
      with t rc Inr keep valid_templates [OF this] show ?thesis
        by (cases "ts = []") (auto simp: lcfgresource_set_template_as_string_def lcfgresource_set_template_def)
    qed
  qed
  then show thesis using that by blast
qed

lemma type_template:
  obtains ok ts msg where "set_type_template res s = Some (ok, res\<lparr>res_template := ts\<rparr>, msg)"
    "list_all tmpl_good ts \<or> ts = res_template res"
proof -
  have keep: "res\<lparr>res_template := res_template res\<rparr> = res" by simp
  show thesis
  proof (cases "\<exists>u. set_type_template res s = lcfgresource_set_template_as_string res u")
    case True
    then show thesis using set_template_string that by metis
  next
    case False
    then have "set_type_template res s = Some (True, res, None)"
      by (auto simp: set_type_template_def Let_def split: option.splits if_splits)
    then show thesis using that keep by metis
  qed
qed

lemma set_type_string:
  "\<exists>ok ty c ts msg. lcfgresource_set_type_as_string res s = Some (ok, res\<lparr>res_type := ty, res_comment := c, res_template := ts\<rparr>, msg) \<and>
    (list_all tmpl_good ts \<or> ts = res_template res) \<and>
    (ty = res_type res \<or> res_value res = None \<or> lcfgresource_valid_value_for_type ty (res_value res))"
proof -
  have keep: "res = res\<lparr>res_type := res_type res, res_comment := res_comment res, res_template := res_template res\<rparr>" by simp
  obtain t wanted where p: "parse_type s = (t, wanted)" by force
  show ?thesis
  proof (cases wanted)
    case None
    then have "lcfgresource_set_type_as_string res s = Some (False, res, Some (invalid_type t))"
      using p by (simp add: lcfgresource_set_type_as_string_def)
    with keep show ?thesis by metis
  next
    case (Some ty)
    show ?thesis
    proof (cases "fst (lcfgresource_set_type res ty)")
      case False
      then have "lcfgresource_set_type res ty = (False, res)" by (auto simp: lcfgresource_set_type_def split: if_splits)
      then have "lcfgresource_set_type_as_string res s = Some (False, res, None)"
        using p Some by (simp add: lcfgresource_set_type_as_string_def)
      with keep show ?thesis by metis
    next
      case True
      then have type: "lcfgresource_set_type res ty = (True, res\<lparr>res_type := ty\<rparr>)"
        "ty = res_type res \<or> res_value res = None \<or> lcfgresource_valid_value_for_type ty (res_value res)"
        by (auto simp: lcfgresource_set_type_def split: if_splits)
      obtain comment posn where comment: "type_comment t = (comment, posn)" by force
      define c where "c = (case comment of None \<Rightarrow> res_comment res | Some _ \<Rightarrow> comment)"
      define r2 where "r2 = res\<lparr>res_type := ty, res_comment := c\<rparr>"
      have eq: "lcfgresource_set_type_as_string res s =
          (if ty = LCFG_RESOURCE_TYPE_LIST then set_type_template r2 posn else Some (True, r2, None))"
        using p Some type(1) comment
        by (cases comment) (simp_all add: lcfgresource_set_type_as_string_def c_def r2_def lcfgresource_set_comment_def)
      have r2: "r2\<lparr>res_template := ts\<rparr> = res\<lparr>res_type := ty, res_comment := c, res_template := ts\<rparr>" "res_template r2 = res_template res"
        "r2\<lparr>res_template := res_template r2\<rparr> = r2" for ts
        by (simp_all add: r2_def)
      obtain ok ts msg where "lcfgresource_set_type_as_string res s = Some (ok, r2\<lparr>res_template := ts\<rparr>, msg)"
          "list_all tmpl_good ts \<or> ts = res_template res"
        using type_template [of r2 posn] eq r2(2,3) by metis
      then show ?thesis using type(2) unfolding r2(1) by blast
    qed
  qed
qed

text \<open>
  The setters of a resource, with any arguments; templates are set from strings. Cloning copies a
  resource, and the changes of values in \<open>Lcfg_Resource_Value\<close> set or unset the value.
\<close>

inductive res_step :: "LCFGResource \<Rightarrow> LCFGResource \<Rightarrow> bool" where
  name: "res_step r (snd (lcfgresource_set_name r v))"
| set_value: "res_step r (snd (lcfgresource_set_value r v))"
| unset: "res_step r (snd (lcfgresource_unset_value r))"
| type: "res_step r (snd (lcfgresource_set_type r ty))"
| type_default: "res_step r (snd (lcfgresource_set_type_default r))"
| type_string: "lcfgresource_set_type_as_string r v = Some (ok, r', msg) \<Longrightarrow> res_step r r'"
| template: "lcfgtemplate_from_string v = Some (Inr ts) \<Longrightarrow> res_step r (snd (lcfgresource_set_template r ts))"
| template_string: "lcfgresource_set_template_as_string r v = Some (ok, r', msg) \<Longrightarrow> res_step r r'"
| comment: "res_step r (snd (lcfgresource_set_comment r v))"
| set_context: "res_step r (snd (lcfgresource_set_context r v))"
| add_context: "res_step r (snd (lcfgresource_add_context scmp r v))"
| derivation: "res_step r (snd (lcfgresource_set_derivation r d))"
| derivation_string: "res_step r (snd (lcfgresource_set_derivation_as_string r v))"
| merge_derivation: "res_step r (snd (lcfgresource_merge_derivation r r2))"
| add_derivation: "res_step r (snd (lcfgresource_add_derivation_string r v))"
| add_file_line: "res_step r (snd (lcfgresource_add_derivation_file_line r v n))"
| priority: "res_step r (snd (lcfgresource_set_priority r n))"
| eval_priority: "lcfgresource_eval_priority r ctxs = (ok, r', msg) \<Longrightarrow> res_step r r'"

inductive res_reachable :: "LCFGResource \<Rightarrow> bool" where
  new: "res_reachable lcfgresource_new"
| step: "res_reachable r \<Longrightarrow> res_step r r' \<Longrightarrow> res_reachable r'"

lemma keep_merged_ok: "res_ok r \<Longrightarrow> res_ok (snd (keep_merged r b m))"
  by (auto simp: keep_merged_def lcfgresource_set_derivation_def res_ok_def split: option.split prod.split)

lemma type_string_ok:
  assumes "res_ok r" and "lcfgresource_set_type_as_string r v = Some (ok, r', msg)"
  shows "res_ok r'"
  using assms set_type_string [of r v] by (auto simp: res_ok_def lcfgresource_valid_value_def lcfgresource_get_type_def)

lemma template_string_ok:
  assumes "res_ok r" and "lcfgresource_set_template_as_string r v = Some (ok, r', msg)"
  shows "res_ok r'"
  using assms by (cases rule: set_template_string [of r v]) (auto simp: res_ok_def)

lemma setters_ok:
  assumes "res_ok r"
  shows "res_ok (snd (lcfgresource_set_name r v))" "res_ok (snd (lcfgresource_set_value r v))"
    "res_ok (snd (lcfgresource_unset_value r))" "res_ok (snd (lcfgresource_set_type r ty))"
    "res_ok (snd (lcfgresource_set_comment r v))" "res_ok (snd (lcfgresource_set_context r v))"
    "res_ok (snd (lcfgresource_set_derivation r d))" "res_ok (snd (lcfgresource_set_priority r n))"
  using assms
  by (simp_all add: res_ok_def lcfgresource_set_name_def lcfgresource_set_value_def lcfgresource_unset_value_def
      lcfgresource_set_type_def lcfgresource_set_comment_def lcfgresource_set_context_def lcfgresource_set_derivation_def
      lcfgresource_set_priority_def)

lemma type_default_ok: "res_ok r \<Longrightarrow> res_ok (snd (lcfgresource_set_type_default r))"
  by (auto simp: res_ok_def lcfgresource_set_type_default_def lcfgresource_set_type_def lcfgresource_set_template_def
      lcfgresource_set_comment_def LCFG_RESOURCE_DEFAULT_TYPE_def string_type_valid)

lemma res_step_ok:
  assumes "res_step r r'" and "res_ok r"
  shows "res_ok r'"
  using assms(1)
proof cases
  case (template v ts)
  with from_string_good [OF template(2)] assms(2) show ?thesis by (simp add: res_ok_def lcfgresource_set_template_def)
next
  case (derivation_string v)
  with setters_ok(7) [OF assms(2)] assms(2) show ?thesis
    by (simp add: lcfgresource_set_derivation_as_string_def split: option.split sum.split)
next
  case (merge_derivation r2)
  with setters_ok(7) keep_merged_ok assms(2) show ?thesis by (simp add: lcfgresource_merge_derivation_def split: option.split)
next
  case (eval_priority ctxs ok msg)
  then show ?thesis using assms(2) setters_ok(8) [OF assms(2)]
    by (auto simp: lcfgresource_eval_priority_def split: sum.splits prod.splits) (metis snd_conv)+
next
  case (add_context scmp v)
  then show ?thesis using assms(2) setters_ok(6) [OF assms(2)] by (simp add: lcfgresource_add_context_def)
next
  case (type_string v ok msg)
  then show ?thesis using type_string_ok assms(2) by blast
next
  case (template_string v ok msg)
  then show ?thesis using template_string_ok assms(2) by blast
qed (use assms(2) setters_ok type_default_ok keep_merged_ok in
    \<open>simp_all add: lcfgresource_add_derivation_string_def lcfgresource_add_derivation_file_line_def\<close>)

lemma new_ok: "res_ok lcfgresource_new"
  by (simp add: res_ok_def lcfgresource_new_def)

text \<open>
  C39: Whatever the setters do to a new resource, its name, its context and its templates stay valid and
  its value stays valid for its type, although the type can change after the value was set; and
  setting a type or a template from a string always returns.
\<close>

theorem resource_stays_valid:
  assumes "res_reachable r"
  shows "res_ok r \<and> lcfgresource_set_type_as_string r s \<noteq> None \<and> lcfgresource_set_template_as_string r s \<noteq> None"
proof -
  have "res_ok r" using assms by (induction rule: res_reachable.induct) (use new_ok res_step_ok in blast)+
  moreover have "lcfgresource_set_type_as_string r s \<noteq> None" using set_type_string [of r s] by auto
  moreover have "lcfgresource_set_template_as_string r s \<noteq> None" by (cases rule: set_template_string [of r s]) simp
  ultimately show ?thesis by blast
qed

lemma resource_stays_valid_witness:
  "res_ok (snd (lcfgresource_set_value lcfgresource_new (Some ''v''))) \<and>
   lcfgresource_set_type_as_string (snd (lcfgresource_set_value lcfgresource_new (Some ''v''))) (Some ''integer'') \<noteq> None \<and>
   lcfgresource_set_template_as_string (snd (lcfgresource_set_value lcfgresource_new (Some ''v''))) (Some ''integer'') \<noteq> None"
  by (rule resource_stays_valid) (rule res_reachable.step [OF res_reachable.new res_step.set_value])


section \<open>What the operations do\<close>

text \<open>The comment and the template of a printed type are found again.\<close>

lemma type_comment_none: "CHR ''('' \<notin> set s \<Longrightarrow> type_comment s = (None, s)"
  by (simp add: type_comment_def strchr_split_None [THEN iffD2])

lemma type_comment_some:
  "CHR ''('' \<notin> set s \<Longrightarrow> CHR '')'' \<notin> set c \<Longrightarrow> c \<noteq> [] \<Longrightarrow> type_comment (s @ ''('' @ c @ '')'' @ r) = (Some c, r)"
  using strchr_split_app [of "CHR ''(''" s "c @ '')'' @ r"] strchr_split_app [of "CHR '')''" c r]
  by (simp add: type_comment_def)

lemma parse_type_printed:
  "parse_type (Some (lcfgresource_type_names ty @ r)) = (lcfgresource_type_names ty @ r, Some ty)"
  by (cases ty) (simp_all add: parse_type_def Let_def type_by_name_def starts_with_def LCFG_RESOURCE_DEFAULT_TYPE_def
    LCFG_RESOURCE_SYMBOL_TYPE_def isspace_def byte_def)

lemma tmpl_good_list: "list_all tmpl_good ts \<Longrightarrow> \<exists>ss. ts = map template_of ss \<and> (\<forall>s\<in>set ss. good_template s)"
proof (induction ts)
  case (Cons t ts)
  then obtain s ss where "t = template_of s" "good_template s" "ts = map template_of ss" "\<forall>s\<in>set ss. good_template s"
    by (auto simp: tmpl_good_def)
  then show ?case by (intro exI [of _ "s # ss"]) simp
qed simp

lemma templates_text_length:
  assumes "list_all tmpl_good ts"
  shows "length (snd (lcfgtemplate_to_string ts None options)) = fst (lcfgtemplate_to_string ts None options)"
  using tmpl_good_list [OF assms] by (auto simp: to_string_templates Let_def)

text \<open>Setting the template from the text of good templates gives them back.\<close>

lemma set_template_printed:
  assumes "list_all tmpl_good ts" and "ts \<noteq> []" and "e = [] \<or> e = [CHR 0x0A]"
  shows "lcfgresource_set_template_as_string r (Some (snd (lcfgtemplate_to_string ts None LCFG_OPT_NONE) @ e)) =
      Some (True, r\<lparr>res_template := ts\<rparr>, None)"
    and "snd (lcfgtemplate_to_string ts None LCFG_OPT_NONE) \<noteq> []"
    and "skip_space (snd (lcfgtemplate_to_string ts None LCFG_OPT_NONE) @ e) = snd (lcfgtemplate_to_string ts None LCFG_OPT_NONE) @ e"
    and "0 < fst (lcfgtemplate_to_string ts None LCFG_OPT_NONE)"
    and "\<forall>c\<in>set (snd (lcfgtemplate_to_string ts None LCFG_OPT_NONE)). c \<notin> {CHR ''('', CHR '')''}"
proof -
  obtain ss where ss: "ts = map template_of ss" "\<forall>s\<in>set ss. good_template s"
    using tmpl_good_list [OF assms(1)] by blast
  then have shown: "lcfgtemplate_to_string ts None LCFG_OPT_NONE = (length (join_texts ss), join_texts ss)"
    by (simp add: to_string_templates has_bit_def LCFG_OPT_NONE_def Let_def)
  note good = good_template_chars
  obtain s ss' where cons: "ss = s # ss'" "good_template s" using assms(2) ss by (cases ss) auto
  then have join: "\<exists>u. join_texts ss = s @ u" by (cases ss') auto
  have s: "s \<noteq> []" "isalpha (hd s)" using cons(2) by (auto simp: good_template_def valid_template_iff)
  have tokens: "strtok tmpl_space (join_texts ss @ e) = ss"
  proof (rule strtok_join)
    show "\<forall>t\<in>set ss. t \<noteq> [] \<and> (\<forall>c\<in>set t. \<not> tmpl_space c)" using ss(2) good by blast
    show "strtok tmpl_space e = []" "e = [] \<or> tmpl_space (hd e)" using assms(3) by (auto simp: tmpl_space_def strtok.simps)
  qed (simp add: tmpl_space_def)
  have ne: "join_texts ss \<noteq> []" using join s(1) by auto
  have "find (\<lambda>s. \<not> good_template s) ss = None" using ss(2) by (auto simp: find_None_iff)
  then have "lcfgtemplate_from_string (Some (join_texts ss @ e)) = Some (Inr ts)"
    using ne by (simp add: from_string_result tokens ss(1))
  then show "lcfgresource_set_template_as_string r (Some (snd (lcfgtemplate_to_string ts None LCFG_OPT_NONE) @ e)) =
      Some (True, r\<lparr>res_template := ts\<rparr>, None)"
    using ne shown assms(2) valid_templates [OF assms(1)]
    by (simp add: lcfgresource_set_template_as_string_def lcfgresource_set_template_def)
  show "snd (lcfgtemplate_to_string ts None LCFG_OPT_NONE) \<noteq> []" "0 < fst (lcfgtemplate_to_string ts None LCFG_OPT_NONE)"
    using ne shown by simp_all
  have "\<not> isspace (hd s)" using s(2) by (auto simp: lcfg_chr)
  then show "skip_space (snd (lcfgtemplate_to_string ts None LCFG_OPT_NONE) @ e) = snd (lcfgtemplate_to_string ts None LCFG_OPT_NONE) @ e"
    using join s(1) shown by (cases s) auto
  have "c \<in> set (join_texts ss) \<Longrightarrow> c = CHR '' '' \<or> (\<exists>s\<in>set ss. c \<in> set s)" for c
    by (induction ss rule: join_texts.induct) auto
  moreover have "c \<notin> {CHR ''('', CHR '')''}" if "good_template s" "c \<in> set s" for s c
  proof -
    have "isword c \<or> c = LCFG_TEMPLATE_PLACEHOLDER" using that by (auto simp: good_template_def valid_template_iff list_all_iff)
    then show ?thesis by (auto simp: LCFG_TEMPLATE_PLACEHOLDER_def lcfg_chr byte_def)
  qed
  ultimately show "\<forall>c\<in>set (snd (lcfgtemplate_to_string ts None LCFG_OPT_NONE)). c \<notin> {CHR ''('', CHR '')''}"
    using ss(2) shown by fastforce
qed

lemma type_names_plain: "CHR ''('' \<notin> set (lcfgresource_type_names ty)"
  by (cases ty) simp_all

text \<open>The text of a type and the length computed for it.\<close>

definition type_tail :: "LCFGResource \<Rightarrow> bits \<Rightarrow> string" where
  "type_tail res options =
     (if lcfgresource_is_list res
      then '': '' @ (if res_template res \<noteq> [] then snd (lcfgtemplate_to_string (res_template res) None LCFG_OPT_NONE) else [])
      else []) @ (if has_bit options LCFG_OPT_NEWLINE then [CHR 0x0A] else [])"

definition type_text :: "LCFGResource \<Rightarrow> bits \<Rightarrow> string" where
  "type_text res options =
     (let c = or_default (res_comment res) [] in
      lcfgresource_type_names (res_type res) @ (if c \<noteq> [] then ''('' @ c @ '')'' else []) @ type_tail res options)"

lemma type_text_shown:
  assumes "res_ok res" and "\<not> has_bit options LCFG_OPT_NOTEMPLATES"
  shows "lcfgresource_get_type_as_string res options = (length (type_text res options), type_text res options)"
proof -
  have good: "list_all tmpl_good (res_template res)" using assms(1) by (simp add: res_ok_def)
  note len = templates_text_length [OF good, of LCFG_OPT_NONE]
  note printed = set_template_printed [OF good, of "[]"]
  show ?thesis
    using assms(2) len printed(2,4)
    by (cases "res_template res = []")
      (simp_all add: lcfgresource_get_type_as_string_def type_text_def type_tail_def Let_def lcfgresource_has_template_def
        lcfgresource_get_template_as_string_def lcfgresource_get_template_def case_prod_beta)
qed

lemma type_tail_parts:
  assumes "res_ok res"
  shows "CHR ''('' \<notin> set (type_tail res options)"
proof -
  have good: "list_all tmpl_good (res_template res)" using assms by (simp add: res_ok_def)
  show ?thesis using set_template_printed(5) [OF good, of "[]"] by (auto simp: type_tail_def)
qed

text \<open>The templates of a list are read from what follows its name and comment.\<close>

lemma set_tail_template:
  assumes "res_ok res" and "lcfgresource_is_list res" and "res_template r = []" and "p = [] \<or> p = ''list''"
  shows "set_type_template r (p @ type_tail res options) = Some (True, r\<lparr>res_template := res_template res\<rparr>, None)"
proof -
  let ?e = "if has_bit options LCFG_OPT_NEWLINE then [CHR 0x0A] else []"
  let ?ts = "snd (lcfgtemplate_to_string (res_template res) None LCFG_OPT_NONE)"
  have good: "list_all tmpl_good (res_template res)" using assms(1) by (simp add: res_ok_def)
  have e: "?e = [] \<or> ?e = [CHR 0x0A]" by simp
  have at: "strstr (p @ type_tail res options) '': '' = Some (length p)"
    "drop (length p + 2) (p @ type_tail res options) = (if res_template res \<noteq> [] then ?ts else []) @ ?e"
    using assms(2,4) by (auto simp: type_tail_def starts_with_def)
  show ?thesis
  proof (cases "res_template res = []")
    case True
    with at assms(3) show ?thesis by (simp add: set_type_template_def isspace_def byte_def)
  next
    case False
    with at set_template_printed [OF good _ e] show ?thesis by (simp add: set_type_template_def)
  qed
qed

lemma type_text_read:
  assumes "res_ok res" and "CHR '')'' \<notin> set (or_default (res_comment res) [])"
    and "res_value r = None" and "res_template r = []"
  shows "lcfgresource_set_type_as_string r (Some (type_text res options)) =
      Some (True, r\<lparr>res_type := res_type res, res_comment := if isempty (res_comment res) then res_comment r else res_comment res,
                    res_template := if lcfgresource_is_list res then res_template res else []\<rparr>, None)"
proof -
  let ?ty = "res_type res"
  let ?c = "or_default (res_comment res) []"
  let ?list = "lcfgresource_is_list res"
  let ?tail = "type_tail res options"
  let ?r2 = "r\<lparr>res_type := ?ty, res_comment := if ?c \<noteq> [] then Some ?c else res_comment r\<rparr>"
  let ?posn = "if ?c \<noteq> [] then ?tail else lcfgresource_type_names ?ty @ ?tail"
  note tail_plain = type_tail_parts [OF assms(1), of options]
  have comment: "type_comment (type_text res options) = (if ?c \<noteq> [] then Some ?c else None, ?posn)"
    using type_comment_some [OF type_names_plain assms(2), of ?ty ?tail] type_comment_none [of "lcfgresource_type_names ?ty @ ?tail"]
      tail_plain type_names_plain [of ?ty] by (simp add: type_text_def)
  have type: "lcfgresource_set_type r ?ty = (True, r\<lparr>res_type := ?ty\<rparr>)"
    using assms(3) by (simp add: lcfgresource_set_type_def)
  have parsed: "parse_type (Some (type_text res options)) = (type_text res options, Some ?ty)"
    by (simp only: type_text_def Let_def parse_type_printed)
  have step: "lcfgresource_set_type_as_string r (Some (type_text res options)) =
      (if ?ty = LCFG_RESOURCE_TYPE_LIST then set_type_template ?r2 ?posn else Some (True, ?r2, None))"
    unfolding lcfgresource_set_type_as_string_def parsed prod.case option.case type Let_def comment
    by (simp add: lcfgresource_set_comment_def)
  have list: "?list \<longleftrightarrow> ?ty = LCFG_RESOURCE_TYPE_LIST" by (simp add: lcfgresource_is_list_def lcfgresource_get_type_def)
  have "lcfgresource_set_type_as_string r (Some (type_text res options)) =
      Some (True, ?r2\<lparr>res_template := if ?list then res_template res else []\<rparr>, None)"
  proof (cases ?list)
    case True
    with set_tail_template [OF assms(1) True, of ?r2 "[]" options] set_tail_template [OF assms(1) True, of ?r2 "''list''" options]
      step list assms(4) show ?thesis by (cases "?c = []") simp_all
  next
    case False
    then show ?thesis using step assms(4) list by simp
  qed
  moreover have "(if ?c \<noteq> [] then Some ?c else res_comment r) = (if isempty (res_comment res) then res_comment r else res_comment res)"
    by (cases "res_comment res") auto
  ultimately show ?thesis by simp
qed

text \<open>
  C40: The text of a type is as long as computed for its buffer, and setting the type of a
  resource without a value from it, newline or not, gives back the type, the comment and, for
  a list, the templates, provided the comment has no closing bracket.
\<close>

theorem type_string_roundtrip:
  assumes "res_ok res" and "CHR '')'' \<notin> set (or_default (res_comment res) [])" and "\<not> has_bit options LCFG_OPT_NOTEMPLATES"
    and "res_value r = None" and "res_template r = []"
  shows "case lcfgresource_get_type_as_string res options of (n, s) \<Rightarrow>
    n = length s \<and>
    lcfgresource_set_type_as_string r (Some s) =
      Some (True, r\<lparr>res_type := res_type res, res_comment := if isempty (res_comment res) then res_comment r else res_comment res,
                    res_template := if lcfgresource_is_list res then res_template res else []\<rparr>, None)"
  using type_text_shown [OF assms(1,3)] type_text_read [OF assms(1,2,4,5), of options] by simp

lemma type_string_roundtrip_witness:
  "case lcfgresource_get_type_as_string
      (lcfgresource_new\<lparr>res_type := LCFG_RESOURCE_TYPE_LIST, res_template := [template_of ''a_$''], res_comment := Some ''x''\<rparr>) LCFG_OPT_NONE of (n, s) \<Rightarrow>
    n = length s \<and>
    lcfgresource_set_type_as_string lcfgresource_new (Some s) =
      Some (True, lcfgresource_new\<lparr>res_type := LCFG_RESOURCE_TYPE_LIST, res_comment := Some ''x'', res_template := [template_of ''a_$'']\<rparr>, None)"
proof -
  have "good_template ''a_$''"
    by (simp add: good_template_def valid_template_iff lcfg_chr byte_def LCFG_TEMPLATE_PLACEHOLDER_def LCFG_TAGS_MAX_DEPTH_def starts_with_def)
  then have "res_ok (lcfgresource_new\<lparr>res_type := LCFG_RESOURCE_TYPE_LIST, res_template := [template_of ''a_$''], res_comment := Some ''x''\<rparr>)"
    by (auto simp: res_ok_def lcfgresource_new_def tmpl_good_def)
  from type_string_roundtrip [OF this, of LCFG_OPT_NONE lcfgresource_new] show ?thesis
    by (simp add: lcfgresource_new_def lcfg_flag lcfgresource_is_list_def lcfgresource_get_type_def)
qed

section \<open>Integers\<close>

text \<open>The digits of a number, and the number they stand for.\<close>

lemma isdigit_digit_char: "isdigit c \<Longrightarrow> \<exists>d<10. c = digit_char d"
proof -
  assume "isdigit c"
  then have d: "nat (byte c - 48) < 10" "byte c = 48 + int (nat (byte c - 48))" by (auto simp: isdigit_def)
  have "d < 10 \<Longrightarrow> byte (digit_char d) = 48 + int d" for d
    by (auto simp: digit_char_def byte_def less_Suc_eq numeral_eq_Suc)
  from this [OF d(1)] d show ?thesis by (metis byte_eq_iff)
qed

lemma digits_decimal:
  assumes "s \<noteq> []" and "list_all isdigit s" and "hd s \<noteq> CHR ''0'' \<or> s = ''0''"
  shows "\<exists>n. s = decimal n"
  using assms
proof (induction s rule: rev_induct)
  case (snoc c s)
  obtain d where d: "d < 10" "c = digit_char d" using isdigit_digit_char snoc.prems(2) by auto
  show ?case
  proof (cases "s = []")
    case True
    with d show ?thesis by (intro exI [of _ d]) (simp add: decimal.simps)
  next
    case False
    with snoc.prems have "hd s \<noteq> CHR ''0''" "list_all isdigit s" by auto
    with False snoc.IH obtain n where n: "s = decimal n" by auto
    with \<open>hd s \<noteq> _\<close> have "n \<noteq> 0" using decimal_hd by auto
    then have "decimal (10 * n + d) = decimal n @ [digit_char d]" using d(1) by (subst decimal.simps) simp
    with n d show ?thesis by metis
  qed
qed simp

text \<open>The text of an integer.\<close>

definition int_text :: "int \<Rightarrow> string" where
  "int_text i = (if i < 0 then ''-'' else []) @ decimal (nat \<bar>i\<bar>)"

lemma hd_decimal_plain: "cur (decimal n @ r) \<notin> {CHR ''-'', CHR ''+''} \<and> \<not> isspace (cur (decimal n @ r))"
proof -
  obtain c s where cs: "decimal n = c # s" using decimal_hd [of n] by (cases "decimal n") auto
  then have "isdigit c" using decimal_hd_digit [of n] by simp
  then show ?thesis using cs by (auto simp: lcfg_chr byte_def)
qed

lemma strtol_int_text: "- (2 ^ 63) \<le> i \<Longrightarrow> i < 2 ^ 63 \<Longrightarrow> strtol (int_text i) = i"
proof -
  assume i: "- (2 ^ 63) \<le> i" "i < 2 ^ 63"
  have read: "read_digits 10 0 (decimal n) = (n, [])" for n using read_digits_decimal [of 0 n "[]"] by simp
  have plain: "skip_space (decimal n) = decimal n" "cur (decimal n) \<noteq> CHR ''-''" "cur (decimal n) \<noteq> CHR ''+''" for n
    using hd_decimal_plain [of n "[]"] decimal_hd [of n] by (cases "decimal n"; simp)+
  show ?thesis
    using i by (simp add: strtol_def int_text_def Let_def plain read isspace_def byte_def)
qed

text \<open>
  C: The values a resource of type integer accepts are the texts of the integers without
  superfluous zeros, and the text \<open>C39: -0\<close>; and in the range of \<open>long\<close> two of them compare as their
  numbers do.
\<close>

theorem valid_integer_spec:
  "(lcfgresource_valid_integer (Some s) \<longleftrightarrow> s = ''-0'' \<or> (\<exists>i. s = int_text i)) \<and>
   (lcfgresource_is_integer r1 \<and> lcfgresource_same_type r1 r2 \<and> res_value r1 = Some (int_text i) \<and> res_value r2 = Some (int_text j) \<and>
     {i, j} \<subseteq> {- (2 ^ 63)..<2 ^ 63} \<longrightarrow> lcfgresource_compare_values r1 r2 = sgn (i - j))"
proof (intro conjI impI)
  have minus: "cur (decimal n) \<noteq> CHR ''-''" for n using hd_decimal_plain [of n "[]"] by simp
  have valid: "decimal n \<noteq> [] \<and> (cur (decimal n) \<noteq> CHR ''0'' \<or> strcmp (decimal n) ''0'' = 0) \<and> list_all isdigit (decimal n)" for n
  proof -
    have "strcmp (decimal 0) ''0'' = 0" by (simp add: decimal.simps [of 0] digit_char_def)
    moreover have "list_all isdigit (decimal n)" by (auto simp: list_all_iff decimal_digits)
    moreover have "cur (decimal n) = hd (decimal n)" using decimal_hd [of n] by (cases "decimal n") simp_all
    ultimately show ?thesis using decimal_hd [of n] by metis
  qed
  show "lcfgresource_valid_integer (Some s) \<longleftrightarrow> s = ''-0'' \<or> (\<exists>i. s = int_text i)"
  proof
    assume v: "lcfgresource_valid_integer (Some s)"
    let ?p = "if cur s = CHR ''-'' then tl s else s"
    have p: "?p \<noteq> []" "cur ?p \<noteq> CHR ''0'' \<or> strcmp ?p ''0'' = 0" "list_all isdigit ?p"
      using v by (simp_all add: lcfgresource_valid_integer_def Let_def)
    moreover have "\<not> isdigit nul" by (simp add: nul_def isdigit_def byte_def)
    ultimately have "no_nul ?p" unfolding no_nul_def list_all_iff by metis
    then have "hd ?p \<noteq> CHR ''0'' \<or> ?p = ''0''" using p(1,2) strcmp_eq_0 [of ?p "''0''"] by (cases ?p) (auto simp: nul_def)
    then obtain n where n: "?p = decimal n" using digits_decimal p by blast
    show "s = ''-0'' \<or> (\<exists>i. s = int_text i)"
    proof (cases "cur s = CHR ''-''")
      case True
      then have s: "s = CHR ''-'' # decimal n" using n by (cases s) (auto simp: nul_def)
      then show ?thesis
      proof (cases "n = 0")
        case True
        with s show ?thesis by (simp add: decimal.simps digit_char_def)
      next
        case False
        with s have "s = int_text (- int n)" by (simp add: int_text_def)
        then show ?thesis by blast
      qed
    next
      case False
      with n have "s = int_text (int n)" by (simp add: int_text_def)
      then show ?thesis by blast
    qed
  next
    assume "s = ''-0'' \<or> (\<exists>i. s = int_text i)"
    then consider "s = ''-0''" | i where "s = int_text i" "i < 0" | i where "s = int_text i" "\<not> i < 0" by blast
    then show "lcfgresource_valid_integer (Some s)"
      using valid minus
      by cases (simp_all add: lcfgresource_valid_integer_def int_text_def Let_def isdigit_def byte_def)
  qed
next
  assume a: "lcfgresource_is_integer r1 \<and> lcfgresource_same_type r1 r2 \<and> res_value r1 = Some (int_text i) \<and>
    res_value r2 = Some (int_text j) \<and> {i, j} \<subseteq> {- (2 ^ 63)..<2 ^ 63}"
  have "int_text k \<noteq> []" for k using decimal_hd by (simp add: int_text_def)
  with a have "or_default (res_value r1) [] = int_text i" "or_default (res_value r2) [] = int_text j" by simp_all
  moreover have "strtol (int_text i) = i" "strtol (int_text j) = j" using a strtol_int_text by auto
  ultimately show "lcfgresource_compare_values r1 r2 = sgn (i - j)"
    using a by (auto simp: lcfgresource_compare_values_def lcfgresource_is_boolean_def lcfgresource_is_integer_def Let_def sgn_if)
qed

lemma valid_integer_spec_witness:
  "lcfgresource_valid_integer (Some ''-0'') \<and>
   lcfgresource_compare_values
     (lcfgresource_new\<lparr>res_type := LCFG_RESOURCE_TYPE_INTEGER, res_value := Some (int_text 9)\<rparr>)
     (lcfgresource_new\<lparr>res_type := LCFG_RESOURCE_TYPE_INTEGER, res_value := Some (int_text 10)\<rparr>) = - 1"
  using valid_integer_spec [of "''-0''"] 
    valid_integer_spec [of _ "lcfgresource_new\<lparr>res_type := LCFG_RESOURCE_TYPE_INTEGER, res_value := Some (int_text 9)\<rparr>"
      "lcfgresource_new\<lparr>res_type := LCFG_RESOURCE_TYPE_INTEGER, res_value := Some (int_text 10)\<rparr>" 9 10]
  by (simp add: lcfgresource_is_integer_def lcfgresource_same_type_def lcfgresource_get_type_def)

section \<open>Comparison and copies\<close>

interpretation resources: comparator lcfgresource_compare
proof -
  let ?name = "\<lambda>(a :: LCFGResource) (b :: LCFGResource). strcmp (or_default (res_name a) []) (or_default (res_name b) [])"
  let ?prio = "\<lambda>(a :: LCFGResource) (b :: LCFGResource). sgn (res_priority a - res_priority b)"
  let ?val = "\<lambda>(a :: LCFGResource) (b :: LCFGResource). strcmp (or_default (res_value a) []) (or_default (res_value b) [])"
  have key: "comparator (\<lambda>a b. strcmp (f a) (f b))" for f :: "LCFGResource \<Rightarrow> string"
    by (rule comparator.comparator_image [OF str_order.comparator_axioms])
  have "comparator ?prio" by (rule comparator.comparator_sgn [OF comparator_diff])
  from comparator_then [OF comparator_then [OF key [of "\<lambda>r :: LCFGResource. or_default (res_name r) []"] this] key [of "\<lambda>r :: LCFGResource. or_default (res_value r) []"]]
  have "comparator (\<lambda>a b. if (if ?name a b = 0 then ?prio a b else ?name a b) = 0 then ?val a b
      else if ?name a b = 0 then ?prio a b else ?name a b)" .
  moreover have "lcfgresource_compare = (\<lambda>a b. if (if ?name a b = 0 then ?prio a b else ?name a b) = 0 then ?val a b
      else if ?name a b = 0 then ?prio a b else ?name a b)"
    by (intro ext) (auto simp: lcfgresource_compare_def lcfgresource_compare_names_def Let_def sgn_if)
  ultimately show "comparator lcfgresource_compare" by simp
qed

text \<open>Resources that differ in their contexts only are equal for \<open>lcfgresource_equals\<close>.\<close>

lemma context_not_compared: "lcfgresource_equals r (r\<lparr>res_context := c\<rparr>)"
  by (simp add: lcfgresource_equals_def lcfgresource_compare_def lcfgresource_compare_names_def)

text \<open>
  A valid resource can be cloned, and the clone is the resource with one reference: no
  setter refuses what the resource has, and the templates come back from their text. Attributes
  that are empty strings are not set in the clone.
\<close>

theorem resource_clone_faithful:
  assumes "res_ok res"
  shows "lcfgresource_clone res =
    Some (Some (let opt = (\<lambda>v. if isempty v then None else v) in
      res\<lparr>res_name := opt (res_name res), res_value := opt (res_value res), res_comment := opt (res_comment res),
          res_context := opt (res_context res),
          res_derivation := if lcfgresource_has_derivation res then res_derivation res else None, res_refcount := 1\<rparr>))"
proof -
  have good: "list_all tmpl_good (res_template res)" using assms by (simp add: res_ok_def)
  have nonempty: "\<not> isempty v \<Longrightarrow> v \<noteq> None" for v by (auto elim: not_isemptyE)
  note printed = set_template_printed [OF good, of "[]", simplified]
  have name: "clone_attr lcfgresource_set_name (res_name res) (True, r) = (True, r\<lparr>res_name := if isempty (res_name res) then None else res_name res\<rparr>)"
    if "res_name r = None" for r
    using that assms nonempty [of "res_name res"] by (auto simp: clone_attr_def lcfgresource_set_name_def res_ok_def)
  have val: "clone_attr lcfgresource_set_value (res_value res) (True, r) = (True, r\<lparr>res_value := if isempty (res_value res) then None else res_value res\<rparr>)"
    if "res_value r = None" "res_type r = res_type res" for r
    using that assms nonempty [of "res_value res"]
    by (auto simp: clone_attr_def lcfgresource_set_value_def res_ok_def lcfgresource_valid_value_def lcfgresource_get_type_def)
  have com: "clone_attr lcfgresource_set_comment (res_comment res) (True, r) =
      (True, r\<lparr>res_comment := if isempty (res_comment res) then None else res_comment res\<rparr>)"
    if "res_comment r = None" for r
    using that by (auto simp: clone_attr_def lcfgresource_set_comment_def)
  have ctx: "clone_attr lcfgresource_set_context (res_context res) (True, r) =
      (True, r\<lparr>res_context := if isempty (res_context res) then None else res_context res\<rparr>)"
    if "res_context r = None" for r
    using that assms nonempty [of "res_context res"] by (auto simp: clone_attr_def lcfgresource_set_context_def res_ok_def)
  have tmpl: "clone_template res r = Some (True, r\<lparr>res_template := res_template res\<rparr>)" if "lcfgresource_has_template res" for r
    using that printed(1) [of r] printed(4)
    by (auto simp: clone_template_def lcfgresource_has_template_def lcfgresource_get_template_as_string_def
        lcfgresource_get_template_def case_prod_beta)
  show ?thesis
    by (cases "lcfgresource_has_template res"; cases "lcfgresource_has_derivation res")
      (simp_all add: lcfgresource_clone_def name val com ctx tmpl lcfgresource_new_def lcfgresource_has_template_def
        lcfgresource_set_derivation_def lcfgresource_get_derivation_def)
qed

lemma resource_clone_faithful_witness:
  "lcfgresource_clone (lcfgresource_new\<lparr>res_comment := Some ''c''\<rparr>) = Some (Some (lcfgresource_new\<lparr>res_comment := Some ''c''\<rparr>))"
proof -
  have "res_ok (lcfgresource_new\<lparr>res_comment := Some ''c''\<rparr>)" by (simp add: res_ok_def lcfgresource_new_def)
  from resource_clone_faithful [OF this] show ?thesis
    by (simp add: lcfgresource_new_def lcfgresource_has_derivation_def)
qed

end
