(* ===== verification/Lcfg_Resource_Value.thy ===== *)
theory Lcfg_Resource_Value
  imports Lcfg_Resource
begin

text \<open>
  Changing the value of a resource (\<open>resources/mutate.c\<close>): as a string, and as a list of tags
  between separators. A result \<open>None\<close> is a call of \<open>strcmp\<close> with a null pointer, or a search
  that does not end.
\<close>

section \<open>Operations\<close>

definition allowed_separators :: string where "allowed_separators = [CHR '' '', CHR 0x09, CHR 0x0D, CHR 0x0A]"

definition standard_separator :: string where "standard_separator = '' ''"

definition takes_tags :: "LCFGResource \<Rightarrow> bool" where
  "takes_tags res \<longleftrightarrow> lcfgresource_is_string res \<or> lcfgresource_is_list res"

type_synonym changed = "(bool \<times> LCFGResource) option"

fun map_tags :: "(LCFGResource \<Rightarrow> cstr \<Rightarrow> changed) \<Rightarrow> LCFGResource \<Rightarrow> string list \<Rightarrow> changed" where
  "map_tags fn res [] = Some (True, res)"
| "map_tags fn res (tag # tags) = do {
     (ok, res') \<leftarrow> fn res (Some tag);
     if ok then map_tags fn res' tags else Some (False, res')
   }"

definition lcfgresource_value_map_tagstring ::
    "LCFGResource \<Rightarrow> string \<Rightarrow> (LCFGResource \<Rightarrow> cstr \<Rightarrow> changed) \<Rightarrow> changed" where
  "lcfgresource_value_map_tagstring res tagstring fn =
     (if \<not> takes_tags res then Some (False, res)
      else map_tags fn res (strtok (\<lambda>c. c \<in> set allowed_separators) tagstring))"

definition lcfgresource_value_find_tag :: "LCFGResource \<Rightarrow> string \<Rightarrow> nat option option" where
  "lcfgresource_value_find_tag res tag =
     (if \<not> lcfgresource_has_value res then Some None
      else lcfgutils_string_finditem (lcfgresource_get_value res) tag (Some allowed_separators))"

definition lcfgresource_value_has_tag :: "LCFGResource \<Rightarrow> cstr \<Rightarrow> bool option" where
  "lcfgresource_value_has_tag res tag =
     (case tag of None \<Rightarrow> Some False | Some t \<Rightarrow> map_option (\<lambda>r. r \<noteq> None) (lcfgresource_value_find_tag res t))"

text \<open>The text with a part of it, at an offset and of a length, replaced; no text is no value.\<close>

definition splice_value :: "LCFGResource \<Rightarrow> nat \<Rightarrow> nat \<Rightarrow> string \<Rightarrow> bool \<times> LCFGResource" where
  "splice_value res location old_len new_text =
     (let cur_value = or_default (lcfgresource_get_value res) [];
          result = take location cur_value @ new_text @ drop (location + old_len) cur_value
      in if result = [] then lcfgresource_unset_value res else lcfgresource_set_value res (Some result))"

definition lcfgresource_value_replace_tag :: "LCFGResource \<Rightarrow> cstr \<Rightarrow> cstr \<Rightarrow> changed" where
  "lcfgresource_value_replace_tag res old_tag new_tag =
     (if \<not> takes_tags res then Some (False, res)
      else if isempty old_tag then Some (False, res)
      else do {
        new \<leftarrow> new_tag;
        let old = or_default old_tag [];
        if strcmp old new = 0 then Some (True, res)
        else if lcfgresource_is_list res \<and> \<not> lcfgresource_valid_list new_tag then Some (False, res)
        else do {
          let removal = isempty new_tag;
          if \<not> lcfgresource_has_value res then Some (removal, res)
          else do {
            location \<leftarrow> lcfgresource_value_find_tag res old;
            case location of
              None \<Rightarrow> Some (removal, res)
            | Some at \<Rightarrow>
                let cur_value = or_default (lcfgresource_get_value res) [];
                    sepcount = (if removal
                      then length (takeWhile (\<lambda>c. c \<in> set allowed_separators) (drop (at + length old) cur_value)) else 0)
                in Some (splice_value res at (length old + sepcount) new)
          }
        }
      })"

definition lcfgresource_value_remove_tag :: "LCFGResource \<Rightarrow> cstr \<Rightarrow> changed" where
  "lcfgresource_value_remove_tag res unwanted_tag = lcfgresource_value_replace_tag res unwanted_tag None"

definition lcfgresource_value_remove_tags :: "LCFGResource \<Rightarrow> string \<Rightarrow> changed" where
  "lcfgresource_value_remove_tags res unwanted_tags =
     lcfgresource_value_map_tagstring res unwanted_tags lcfgresource_value_remove_tag"

definition lcfgresource_value_append :: "LCFGResource \<Rightarrow> cstr \<Rightarrow> bool \<times> LCFGResource" where
  "lcfgresource_value_append res extra_value =
     (if \<not> takes_tags res then (False, res)
      else if isempty extra_value then (True, res)
      else if lcfgresource_is_list res \<and> \<not> lcfgresource_valid_list extra_value then (False, res)
      else lcfgresource_set_value res (Some (or_default (lcfgresource_get_value res) [] @ or_default extra_value [])))"

definition lcfgresource_value_append_tag :: "LCFGResource \<Rightarrow> cstr \<Rightarrow> bool \<times> LCFGResource" where
  "lcfgresource_value_append_tag res extra_tag =
     (if \<not> takes_tags res then (False, res)
      else if isempty extra_tag then (True, res)
      else if lcfgresource_is_list res \<and> \<not> lcfgresource_valid_list extra_tag then (False, res)
      else let cur_value = or_default (lcfgresource_get_value res) [];
               add_sep = (cur_value \<noteq> [] \<and> last cur_value \<notin> set allowed_separators)
           in lcfgresource_set_value res
                (Some (cur_value @ (if add_sep then standard_separator else []) @ or_default extra_tag [])))"

definition lcfgresource_value_prepend :: "LCFGResource \<Rightarrow> cstr \<Rightarrow> bool \<times> LCFGResource" where
  "lcfgresource_value_prepend res extra_value =
     (if \<not> takes_tags res then (False, res)
      else if isempty extra_value then (True, res)
      else if lcfgresource_is_list res \<and> \<not> lcfgresource_valid_list extra_value then (False, res)
      else lcfgresource_set_value res (Some (or_default extra_value [] @ or_default (lcfgresource_get_value res) [])))"

definition lcfgresource_value_prepend_tag :: "LCFGResource \<Rightarrow> cstr \<Rightarrow> bool \<times> LCFGResource" where
  "lcfgresource_value_prepend_tag res extra_tag =
     (if \<not> takes_tags res then (False, res)
      else if isempty extra_tag then (True, res)
      else if lcfgresource_is_list res \<and> \<not> lcfgresource_valid_list extra_tag then (False, res)
      else let cur_value = or_default (lcfgresource_get_value res) [];
               add_sep = (cur_value \<noteq> [] \<and> hd cur_value \<notin> set allowed_separators)
           in lcfgresource_set_value res
                (Some (or_default extra_tag [] @ (if add_sep then standard_separator else []) @ cur_value)))"

definition lcfgresource_value_add_tag :: "LCFGResource \<Rightarrow> cstr \<Rightarrow> changed" where
  "lcfgresource_value_add_tag res extra_tag =
     (if \<not> takes_tags res then Some (False, res)
      else if isempty extra_tag then Some (True, res)
      else do {
        has \<leftarrow> lcfgresource_value_has_tag res extra_tag;
        Some (if has then (True, res) else lcfgresource_value_append_tag res extra_tag)
      })"

definition lcfgresource_value_add_tags :: "LCFGResource \<Rightarrow> string \<Rightarrow> changed" where
  "lcfgresource_value_add_tags res extra_tags =
     lcfgresource_value_map_tagstring res extra_tags lcfgresource_value_add_tag"

definition lcfgresource_value_replace :: "LCFGResource \<Rightarrow> cstr \<Rightarrow> cstr \<Rightarrow> changed" where
  "lcfgresource_value_replace res old_string new_string =
     (if \<not> takes_tags res then Some (False, res)
      else if isempty old_string then Some (False, res)
      else do {
        new \<leftarrow> new_string;
        let old = or_default old_string [];
        if strcmp old new = 0 then Some (True, res)
        else if lcfgresource_is_list res \<and> \<not> lcfgresource_valid_list new_string then Some (False, res)
        else do {
          let removal = isempty new_string;
          if \<not> lcfgresource_has_value res then Some (removal, res)
          else case strstr (or_default (lcfgresource_get_value res) []) old of
            None \<Rightarrow> Some (removal, res)
          | Some location \<Rightarrow> Some (splice_value res location (length old) new)
        }
      })"

definition lcfgresource_value_remove :: "LCFGResource \<Rightarrow> cstr \<Rightarrow> changed" where
  "lcfgresource_value_remove res unwanted_string = lcfgresource_value_replace res unwanted_string None"

text \<open>Both ways of removing compare with a null pointer before they do anything.\<close>

lemma remove_undefined:
  assumes "takes_tags res" and "\<not> isempty tag"
  shows "lcfgresource_value_remove_tag res tag = None" and "lcfgresource_value_remove res tag = None"
  using assms by (simp_all add: lcfgresource_value_remove_tag_def lcfgresource_value_replace_tag_def
      lcfgresource_value_remove_def lcfgresource_value_replace_def)

section \<open>Tags as tokens\<close>

abbreviation tag_sep :: "char \<Rightarrow> bool" where "tag_sep c \<equiv> c \<in> set allowed_separators"

definition item_text :: "string \<Rightarrow> bool" where
  "item_text t \<longleftrightarrow> t \<noteq> [] \<and> no_nul t \<and> set t \<inter> set allowed_separators = {}"

lemma item_textD:
  assumes "item_text t"
  shows "t \<noteq> []" "set t \<inter> set allowed_separators = {}" "\<forall>c\<in>set t. \<not> tag_sep c"
    "\<not> tag_sep (hd t)" "\<not> tag_sep (last t)"
  using assms hd_in_set [of t] last_in_set [of t] unfolding item_text_def by blast+

lemma item_tokens:
  assumes "item_text t" and "a = [] \<or> tag_sep (last a)" and "b = [] \<or> tag_sep (hd b)"
  shows "strtok tag_sep (a @ t @ b) = strtok tag_sep a @ t # strtok tag_sep b"
proof -
  have "strtok tag_sep (a @ t @ b) = strtok tag_sep a @ strtok tag_sep (t @ b)"
    using assms(2) by (intro strtok_append) auto
  with strtok_token [OF item_textD(1,3) [OF assms(1)] assms(3)] show ?thesis by simp
qed

lemma strtok_cases:
  assumes "t \<in> set (strtok sep s)"
  shows "dropWhile sep s \<noteq> []" "t = takeWhile (\<lambda>c. \<not> sep c) (dropWhile sep s) \<or>
     t \<in> set (strtok sep (dropWhile (\<lambda>c. \<not> sep c) (dropWhile sep s)))"
proof -
  have "strtok sep s = (if dropWhile sep s = [] then [] else takeWhile (\<lambda>c. \<not> sep c) (dropWhile sep s) #
     strtok sep (dropWhile (\<lambda>c. \<not> sep c) (dropWhile sep s)))"
    by (subst strtok.simps) (simp only: Let_def)
  with assms have t: "t \<in> set (if dropWhile sep s = [] then [] else takeWhile (\<lambda>c. \<not> sep c) (dropWhile sep s) #
     strtok sep (dropWhile (\<lambda>c. \<not> sep c) (dropWhile sep s)))" by (simp only:)
  then show "dropWhile sep s \<noteq> []" by (metis empty_iff empty_set)
  with t show "t = takeWhile (\<lambda>c. \<not> sep c) (dropWhile sep s) \<or>
     t \<in> set (strtok sep (dropWhile (\<lambda>c. \<not> sep c) (dropWhile sep s)))" by (simp only: if_False set_simps insert_iff)
qed

lemma list_all_takeWhile: "list_all P (takeWhile P xs)"
  by (auto simp: list_all_iff dest: set_takeWhileD)

lemma token_plain: "t \<in> set (strtok sep s) \<Longrightarrow> t \<noteq> [] \<and> (\<forall>c\<in>set t. \<not> sep c)"
proof (induction sep s rule: strtok.induct)
  case (1 sep s)
  let ?t = "dropWhile sep s"
  note ne = strtok_cases(1) [OF "1.prems"]
  have "takeWhile (\<lambda>c. \<not> sep c) ?t \<noteq> []" using hd_dropWhile [OF ne] ne by (cases ?t) auto
  moreover have "\<forall>c\<in>set (takeWhile (\<lambda>c. \<not> sep c) ?t). \<not> sep c" by (auto dest: set_takeWhileD)
  ultimately show ?case using strtok_cases(2) [OF "1.prems"] "1.IH" [OF refl ne] by metis
qed

lemma token_item:
  "t \<in> set (strtok sep s) \<Longrightarrow> \<exists>a b. s = a @ t @ b \<and> (a = [] \<or> sep (last a)) \<and> (b = [] \<or> sep (hd b))"
proof (induction sep s rule: strtok.induct)
  case (1 sep s)
  let ?w = "takeWhile sep s" and ?t = "dropWhile sep s"
  let ?u = "takeWhile (\<lambda>c. \<not> sep c) ?t" and ?r = "dropWhile (\<lambda>c. \<not> sep c) ?t"
  have s: "s = ?w @ ?u @ ?r" by simp
  have w: "?w = [] \<or> sep (last ?w)" using last_in_set [of ?w] set_takeWhileD [of "last ?w" sep s] by blast
  have r: "?r = [] \<or> sep (hd ?r)" using hd_dropWhile [of "\<lambda>c. \<not> sep c" ?t] by blast
  note ne = strtok_cases(1) [OF "1.prems"]
  consider "t = ?u" | "t \<in> set (strtok sep ?r)" using strtok_cases(2) [OF "1.prems"] by blast
  then show ?case
  proof cases
    case 1
    with s w r show ?thesis by blast
  next
    case 2
    then obtain a b where ab: "?r = a @ t @ b" "a = [] \<or> sep (last a)" "b = [] \<or> sep (hd b)"
      using "1.IH" [OF refl ne] by blast
    have "a \<noteq> []" using r ab(1) token_plain [OF 2] hd_in_set [of t] by auto
    with ab have "s = (?w @ ?u @ a) @ t @ b" "sep (last (?w @ ?u @ a))"
      using s by (simp_all add: last_append)
    with ab(3) show ?thesis by blast
  qed
qed

text \<open>The search finds the first token.\<close>

lemma find_token:
  assumes "no_nul h" and "item_text t"
  obtains
    (absent) "lcfgutils_string_finditem (Some h) t (Some allowed_separators) = Some None"
      "t \<notin> set (strtok tag_sep h)"
  | (present) a b where "lcfgutils_string_finditem (Some h) t (Some allowed_separators) = Some (Some (length a))"
      "h = a @ t @ b" "a = [] \<or> tag_sep (last a)" "b = [] \<or> tag_sep (hd b)" "t \<notin> set (strtok tag_sep a)"
proof (cases "h = []")
  case True
  then show ?thesis using absent by (simp add: lcfgutils_string_finditem_def)
next
  case False
  let ?find = "finditem_loop h t allowed_separators (map_option ((+) 0) (strstr (drop 0 h) t))"
  obtain r where r: "?find = Some r"
    using finditem_loop_total [OF item_textD(1) [OF assms(2)], of 0 h allowed_separators] by blast
  have f: "first_from (needle_at h t allowed_separators) 0 (length h) r"
    using finditem_loop_first [OF assms(1) item_textD(1,2) [OF assms(2)] _ r] by simp
  have res: "lcfgutils_string_finditem (Some h) t (Some allowed_separators) = Some r"
  proof -
    have "map_option ((+) 0) x = x" for x :: "nat option" by (cases x) simp_all
    with r False show ?thesis by (simp add: lcfgutils_string_finditem_def allowed_separators_def)
  qed
  have at: "needle_at h t allowed_separators (length a)"
    if "h = a @ t @ b" "a = [] \<or> tag_sep (last a)" "b = [] \<or> tag_sep (hd b)" for a b
  proof -
    have "starts_with (drop (length a) h) t" using that(1) by (simp add: starts_with_iff)
    then show ?thesis using that item_at_iff [OF assms(1), of "length a" t allowed_separators]
      by (simp add: needle_at_def)
  qed
  show ?thesis
  proof (cases r)
    case None
    have "t \<notin> set (strtok tag_sep h)"
    proof
      assume "t \<in> set (strtok tag_sep h)"
      from token_item [OF this] obtain a b where
        "h = a @ t @ b" "a = [] \<or> tag_sep (last a)" "b = [] \<or> tag_sep (hd b)" by blast
      from at [OF this] this(1) f None show False by (auto simp: first_from_def)
    qed
    with res None show ?thesis using absent by simp
  next
    case (Some m)
    with f have m: "m \<le> length h" "starts_with (drop m h) t" "item_at h t allowed_separators m"
      and first: "\<And>k. k < m \<Longrightarrow> \<not> needle_at h t allowed_separators k"
      by (auto simp: first_from_def needle_at_def)
    have h: "h = take m h @ t @ drop (m + length t) h"
      using m(2) by (metis starts_with_iff append_eq_conv_conj append_take_drop_id drop_drop add.commute)
    have ends: "take m h = [] \<or> tag_sep (last (take m h))"
        "drop (m + length t) h = [] \<or> tag_sep (hd (drop (m + length t) h))"
      using item_at_iff [OF assms(1) m(2,1), of allowed_separators] m(3) by blast+
    have "t \<notin> set (strtok tag_sep (take m h))"
    proof
      assume "t \<in> set (strtok tag_sep (take m h))"
      from token_item [OF this] obtain a b where
        ab: "take m h = a @ t @ b" "a = [] \<or> tag_sep (last a)" "b = [] \<or> tag_sep (hd b)" by blast
      have "b \<noteq> []" using ends(1) ab(1) item_textD(1,5) [OF assms(2)] by auto
      moreover have "h = a @ t @ (b @ t @ drop (m + length t) h)" using h ab(1) by simp
      moreover have "length a < m"
        using ab(1) m(1) item_textD(1) [OF assms(2)] by (metis length_append length_take min_absorb2
            less_add_same_cancel1 length_greater_0_conv add_pos_nonneg zero_le)
      ultimately show False using at [of a "b @ t @ drop (m + length t) h"] ab(2,3) first by auto
    qed
    with res Some h ends m(1) show ?thesis using present [of "take m h"] by simp
  qed
qed

section \<open>Operations on the list of tags\<close>

definition value_tags :: "LCFGResource \<Rightarrow> string list" where
  "value_tags res = strtok tag_sep (or_default (res_value res) [])"

text \<open>A resource that takes tags, with a text the C code can hold that its type allows.\<close>

definition tags_ok :: "LCFGResource \<Rightarrow> bool" where
  "tags_ok res \<longleftrightarrow> takes_tags res \<and>
     (case res_value res of None \<Rightarrow> True | Some v \<Rightarrow> no_nul v \<and> lcfgresource_valid_value res (Some v))"

fun replace_first :: "string \<Rightarrow> string list \<Rightarrow> string list \<Rightarrow> string list" where
  "replace_first t new [] = []"
| "replace_first t new (x # xs) = (if x = t then new @ xs else x # replace_first t new xs)"

lemma replace_first_absent [simp]: "t \<notin> set xs \<Longrightarrow> replace_first t new xs = xs"
  by (induction xs) auto

lemma replace_first_same: "replace_first t [t] xs = xs"
  by (induction xs) auto

lemma replace_first_append: "t \<notin> set xs \<Longrightarrow> replace_first t new (xs @ t # ys) = xs @ new @ ys"
  by (induction xs) auto

lemma valid_list_append:
  "lcfgresource_valid_list (Some (a @ b)) \<longleftrightarrow> lcfgresource_valid_list (Some a) \<and> lcfgresource_valid_list (Some b)"
  by (auto simp: lcfgresource_valid_list_def)

text \<open>A string takes any text; a list takes texts of valid parts.\<close>

lemma takes_tags_cases:
  assumes "takes_tags res"
  obtains (str) "\<not> lcfgresource_is_list res" "\<And>v. lcfgresource_valid_value res (Some v)"
  | (list) "lcfgresource_is_list res" "\<And>v. lcfgresource_valid_value res (Some v) = lcfgresource_valid_list (Some v)"
  using assms
  by (cases "res_type res")
    (auto simp: takes_tags_def lcfgresource_is_string_def lcfgresource_is_list_def lcfgresource_valid_value_def
      lcfgresource_get_type_def)

lemma tags_okD:
  assumes "tags_ok res"
  shows "takes_tags res" "no_nul (or_default (res_value res) [])"
    "lcfgresource_is_list res \<Longrightarrow> lcfgresource_valid_list (Some (or_default (res_value res) []))"
proof -
  show t: "takes_tags res" using assms by (simp add: tags_ok_def)
  show "no_nul (or_default (res_value res) [])" using assms by (auto simp: tags_ok_def split: option.splits)
  show "lcfgresource_valid_list (Some (or_default (res_value res) []))" if "lcfgresource_is_list res"
  proof (cases "res_value res")
    case None
    then show ?thesis by (simp add: lcfgresource_valid_list_def)
  next
    case (Some v)
    with assms that show ?thesis by (cases rule: takes_tags_cases [OF t]) (auto simp: tags_ok_def)
  qed
qed

lemma set_value_tags:
  assumes "takes_tags res" and "lcfgresource_is_list res \<Longrightarrow> lcfgresource_valid_list (Some v)"
  shows "lcfgresource_set_value res (Some v) = (True, res\<lparr>res_value := Some v\<rparr>)"
  using assms(2) by (cases rule: takes_tags_cases [OF assms(1)]) (simp_all add: lcfgresource_set_value_def)

text \<open>A part between separators gives way to another text.\<close>

lemma splice_tags:
  assumes "tags_ok res" and "or_default (res_value res) [] = a @ t @ b" and "a = [] \<or> tag_sep (last a)"
    and "b = [] \<or> tag_sep (hd b)" and "n = [] \<or> item_text n"
    and "lcfgresource_is_list res \<Longrightarrow> lcfgresource_valid_list (Some n)"
    and "k = (if n = [] then length (takeWhile tag_sep b) else 0)"
  obtains v where "splice_value res (length a) (length t + k) n = (True, res\<lparr>res_value := v\<rparr>)"
    "strtok tag_sep (or_default v []) = strtok tag_sep a @ (if n = [] then [] else [n]) @ strtok tag_sep b"
proof -
  let ?v = "a @ n @ drop k b"
  have "strtok tag_sep (dropWhile tag_sep b) = strtok tag_sep b"
    using strtok_skip [of tag_sep "takeWhile tag_sep b" "dropWhile tag_sep b"]
    using list_all_takeWhile [of tag_sep b] by simp
  then have tags: "strtok tag_sep ?v = strtok tag_sep a @ (if n = [] then [] else [n]) @ strtok tag_sep b"
    using item_tokens [of n a b] assms(3-5,7) strtok_append [of a tag_sep "dropWhile tag_sep b"]
    by (auto simp: dropWhile_eq_drop [symmetric])
  have "lcfgresource_valid_list (Some ?v)" if "lcfgresource_is_list res"
    using tags_okD(3) [OF assms(1) that] assms(2) assms(6) [OF that]
      valid_list_append [of "take k b" "drop k b"] by (simp add: valid_list_append)
  note set = set_value_tags [OF tags_okD(1) [OF assms(1)] this]
  have splice: "splice_value res (length a) (length t + k) n =
      (if ?v = [] then lcfgresource_unset_value res else lcfgresource_set_value res (Some ?v))"
  proof -
    have "take (length a) (a @ t @ b) @ n @ drop (length a + (length t + k)) (a @ t @ b) = ?v" by simp
    then show ?thesis by (simp only: splice_value_def lcfgresource_get_value_def Let_def assms(2))
  qed
  show ?thesis
  proof (cases "?v = []")
    case True
    then show ?thesis using that [of None] splice tags by (simp add: lcfgresource_unset_value_def)
  next
    case False
    show ?thesis
    proof (rule that [of "Some ?v"])
      show "splice_value res (length a) (length t + k) n = (True, res\<lparr>res_value := Some ?v\<rparr>)"
        using splice set False by metis
      show "strtok tag_sep (or_default (Some ?v) []) =
          strtok tag_sep a @ (if n = [] then [] else [n]) @ strtok tag_sep b"
        using tags by simp
    qed
  qed
qed

lemma has_tag:
  assumes "tags_ok res" and "item_text t"
  shows "lcfgresource_value_has_tag res (Some t) = Some (t \<in> set (value_tags res))"
proof (cases "res_value res = None \<or> res_value res = Some []")
  case True
  then show ?thesis by (auto simp: lcfgresource_value_has_tag_def lcfgresource_value_find_tag_def
      lcfgresource_has_value_def value_tags_def)
next
  case False
  then obtain v where v: "res_value res = Some v" "v \<noteq> []" by auto
  with tags_okD(2) [OF assms(1)] have "no_nul v" by simp
  from find_token [OF this assms(2)] show ?thesis
  proof cases
    case 1
    with v show ?thesis by (simp add: lcfgresource_value_has_tag_def lcfgresource_value_find_tag_def
      lcfgresource_has_value_def lcfgresource_get_value_def value_tags_def)
  next
    case (2 a b)
    with v item_tokens [OF assms(2), of a b] show ?thesis
      by (simp add: lcfgresource_value_has_tag_def lcfgresource_value_find_tag_def
        lcfgresource_has_value_def lcfgresource_get_value_def value_tags_def)
  qed
qed

lemma append_tag:
  assumes "tags_ok res" and "item_text t" and "lcfgresource_is_list res \<Longrightarrow> lcfgresource_valid_list (Some t)"
  obtains v where "lcfgresource_value_append_tag res (Some t) = (True, res\<lparr>res_value := Some v\<rparr>)"
    "strtok tag_sep v = value_tags res @ [t]" "tags_ok (res\<lparr>res_value := Some v\<rparr>)"
proof -
  let ?c = "or_default (res_value res) []"
  let ?a = "?c @ (if ?c \<noteq> [] \<and> \<not> tag_sep (last ?c) then standard_separator else [])"
  note t = item_textD [OF assms(2)]
  have sep: "list_all tag_sep standard_separator" by (simp add: standard_separator_def allowed_separators_def)
  have a: "?a = [] \<or> tag_sep (last ?a)" by (auto simp: standard_separator_def allowed_separators_def)
  have "strtok tag_sep (?a @ t @ []) = strtok tag_sep ?a @ [t]" using item_tokens [OF assms(2) a, of "[]"] by simp
  also have "strtok tag_sep ?a = strtok tag_sep ?c"
    using strtok_append [of ?c tag_sep standard_separator] strtok_skip [OF sep, of "[]"] sep
    by (auto simp: standard_separator_def)
  finally have "strtok tag_sep (?a @ t) = value_tags res @ [t]" by (simp add: value_tags_def)
  moreover have valid: "lcfgresource_valid_list (Some (?a @ t))" if "lcfgresource_is_list res"
    using tags_okD(3) [OF assms(1)] assms(3) that
    by (simp add: valid_list_append) (simp add: standard_separator_def lcfgresource_valid_list_def)
  moreover have "tags_ok (res\<lparr>res_value := Some (?a @ t)\<rparr>)"
  proof -
    have "no_nul (?a @ t)" using tags_okD(2) [OF assms(1)] assms(2)
      by (auto simp: item_text_def no_nul_def standard_separator_def nul_def)
    moreover have "lcfgresource_valid_value res (Some (?a @ t))"
      using valid by (cases rule: takes_tags_cases [OF tags_okD(1) [OF assms(1)]]) simp_all
    ultimately show ?thesis using tags_okD(1) [OF assms(1)]
      by (simp add: tags_ok_def takes_tags_def lcfgresource_is_string_def lcfgresource_is_list_def
          lcfgresource_get_type_def)
  qed
  ultimately show ?thesis
    using that [of "?a @ t"] set_value_tags [OF tags_okD(1) [OF assms(1)], of "?a @ t"]
      assms(3) tags_okD(1) [OF assms(1)] t(1)
    by (auto simp: lcfgresource_value_append_tag_def lcfgresource_get_value_def)
qed

text \<open>A tag goes to the end unless it is there.\<close>

definition with_tag :: "string \<Rightarrow> string list \<Rightarrow> string list" where
  "with_tag t ts = (if t \<in> set ts then ts else ts @ [t])"

lemma add_tag:
  assumes "tags_ok res" and "item_text t" and "lcfgresource_is_list res \<Longrightarrow> lcfgresource_valid_list (Some t)"
  obtains v where "lcfgresource_value_add_tag res (Some t) = Some (True, res\<lparr>res_value := v\<rparr>)"
    "value_tags (res\<lparr>res_value := v\<rparr>) = with_tag t (value_tags res)" "tags_ok (res\<lparr>res_value := v\<rparr>)"
proof (cases "t \<in> set (value_tags res)")
  case True
  then show ?thesis using has_tag [OF assms(1,2)] tags_okD(1) [OF assms(1)] item_textD(1) [OF assms(2)] assms(1)
    by (intro that [of "res_value res"]) (simp_all add: lcfgresource_value_add_tag_def with_tag_def)
next
  case False
  obtain v where "lcfgresource_value_append_tag res (Some t) = (True, res\<lparr>res_value := Some v\<rparr>)"
    "strtok tag_sep v = value_tags res @ [t]" "tags_ok (res\<lparr>res_value := Some v\<rparr>)" using append_tag [OF assms] .
  with False show ?thesis using has_tag [OF assms(1,2)] tags_okD(1) [OF assms(1)] item_textD(1) [OF assms(2)]
    by (intro that [of "Some v"]) (simp_all add: lcfgresource_value_add_tag_def value_tags_def with_tag_def)
qed

lemma map_add_tags:
  "tags_ok res \<Longrightarrow> \<forall>t\<in>set ts. item_text t \<and> (lcfgresource_is_list res \<longrightarrow> lcfgresource_valid_list (Some t)) \<Longrightarrow>
   \<exists>v. map_tags lcfgresource_value_add_tag res ts = Some (True, res\<lparr>res_value := v\<rparr>) \<and>
     value_tags (res\<lparr>res_value := v\<rparr>) = fold with_tag ts (value_tags res)"
proof (induction ts arbitrary: res)
  case Nil
  then show ?case by (intro exI [of _ "res_value res"]) simp
next
  case (Cons t ts)
  obtain v where v: "lcfgresource_value_add_tag res (Some t) = Some (True, res\<lparr>res_value := v\<rparr>)"
    "value_tags (res\<lparr>res_value := v\<rparr>) = with_tag t (value_tags res)" "tags_ok (res\<lparr>res_value := v\<rparr>)"
    using Cons.prems by (auto intro: add_tag [of res t])
  from Cons.IH [OF v(3)] Cons.prems(2) v show ?case
    by (simp add: lcfgresource_is_list_def lcfgresource_get_type_def)
qed

text \<open>
  C36: adding a string of tags to a string or list resource leaves everything but the value alone,
  and makes the tags of the value (its tokens between separators) the old ones followed by the
  tokens of the string in order, each of them only where it is not among the tags before it.
\<close>

theorem add_tags_refine_list:
  assumes "tags_ok res" and "no_nul s" and "lcfgresource_is_list res \<Longrightarrow> lcfgresource_valid_list (Some s)"
  shows "\<exists>v. lcfgresource_value_add_tags res s = Some (True, res\<lparr>res_value := v\<rparr>) \<and>
     value_tags (res\<lparr>res_value := v\<rparr>) = fold with_tag (strtok tag_sep s) (value_tags res)"
proof -
  have "item_text t \<and> (lcfgresource_is_list res \<longrightarrow> lcfgresource_valid_list (Some t))"
    if t: "t \<in> set (strtok tag_sep s)" for t
  proof -
    obtain a b where "s = a @ t @ b" using token_item [OF t] by blast
    with assms(2,3) token_plain [OF t] show ?thesis by (auto simp: item_text_def no_nul_def valid_list_append)
  qed
  with map_add_tags [OF assms(1)] tags_okD(1) [OF assms(1)] show ?thesis
    by (simp add: lcfgresource_value_add_tags_def lcfgresource_value_map_tagstring_def)
qed

text \<open>
  replacing a tag of a string or list resource replaces the first occurrence of it among the
  tags of the value, by nothing when the new tag is the empty string, and leaves every other tag
  and everything but the value alone; it succeeds unless there is nothing to replace by a new tag.
\<close>

theorem replace_tag_refines_list:
  assumes "tags_ok res" and "item_text t" and "n = [] \<or> item_text n"
    and "lcfgresource_is_list res \<Longrightarrow> lcfgresource_valid_list (Some n)"
  shows "\<exists>v. lcfgresource_value_replace_tag res (Some t) (Some n) =
       Some (t = n \<or> n = [] \<or> t \<in> set (value_tags res), res\<lparr>res_value := v\<rparr>) \<and>
     value_tags (res\<lparr>res_value := v\<rparr>) = replace_first t (if n = [] then [] else [n]) (value_tags res)"
proof -
  note t = item_textD [OF assms(2)]
  let ?h = "or_default (res_value res) []"
  let ?r = "t = n \<or> n = [] \<or> t \<in> set (value_tags res)"
  let ?ts = "replace_first t (if n = [] then [] else [n]) (value_tags res)"
  note defs = lcfgresource_value_replace_tag_def lcfgresource_value_find_tag_def lcfgresource_get_value_def
    lcfgresource_has_value_def
  note takes = tags_okD(1) [OF assms(1)]
  consider (same) "t = n" | (absent) "t \<noteq> n" "?h = [] \<or>
      lcfgutils_string_finditem (Some ?h) t (Some allowed_separators) = Some None" "t \<notin> set (value_tags res)"
    | (at) a b where "t \<noteq> n" "?h = a @ t @ b" "a = [] \<or> tag_sep (last a)" "b = [] \<or> tag_sep (hd b)"
        "lcfgutils_string_finditem (Some ?h) t (Some allowed_separators) = Some (Some (length a))"
        "t \<notin> set (strtok tag_sep a)"
    using find_token [OF tags_okD(2) [OF assms(1)] assms(2)] unfolding value_tags_def by metis
  then show ?thesis
  proof cases
    case same
    then show ?thesis using takes t(1) replace_first_same [of t "value_tags res"]
      by (intro exI [of _ "res_value res"]) (simp add: defs)
  next
    case absent
    have "no_nul n" "no_nul t" using assms(2,3) by (auto simp: item_text_def)
    then have stays: "strcmp t n \<noteq> 0" using absent(1) by (simp add: strcmp_eq_0)
    then have "lcfgresource_value_replace_tag res (Some t) (Some n) = Some (n = [], res)"
      using absent(1,2) takes t(1) assms(4) stays by (cases "res_value res") (auto simp: defs Let_def)
    with absent show ?thesis by (intro exI [of _ "res_value res"]) simp
  next
    case at
    let ?k = "if n = [] then length (takeWhile tag_sep b) else 0"
    obtain v where v: "splice_value res (length a) (length t + ?k) n = (True, res\<lparr>res_value := v\<rparr>)"
        "strtok tag_sep (or_default v []) = strtok tag_sep a @ (if n = [] then [] else [n]) @ strtok tag_sep b"
      using splice_tags [OF assms(1) at(2-4) assms(3,4) refl] .
    have tags: "value_tags res = strtok tag_sep a @ t # strtok tag_sep b"
      using item_tokens [OF assms(2) at(3,4)] at(2) by (simp add: value_tags_def)
    have "no_nul n" "no_nul t" using assms(2,3) by (auto simp: item_text_def)
    then have "strcmp t n \<noteq> 0" using at(1) by (simp add: strcmp_eq_0)
    moreover obtain h where h: "res_value res = Some h" "h = a @ t @ b" "h \<noteq> []"
      using at(2) t(1) by (cases "res_value res") auto
    ultimately have "lcfgresource_value_replace_tag res (Some t) (Some n) = Some (True, res\<lparr>res_value := v\<rparr>)"
      using v(1) takes t(1) assms(4) at(5) by (auto simp: defs Let_def)
    moreover have "value_tags (res\<lparr>res_value := v\<rparr>) = ?ts"
      using v(2) tags replace_first_append [OF at(6)] by (simp add: value_tags_def)
    ultimately show ?thesis using tags by (intro exI [of _ v]) simp
  qed
qed

definition tags_demo :: LCFGResource where
  "tags_demo = lcfgresource_new\<lparr>res_name := Some ''r'', res_type := LCFG_RESOURCE_TYPE_LIST, res_value := Some ''a b a''\<rparr>"

lemma tags_demo_ok: "tags_ok tags_demo" "item_text ''a''" "item_text ''c''" "value_tags tags_demo = [''a'', ''b'', ''a'']"
  "lcfgresource_valid_list (Some ''c'')"
  by code_simp+

lemma add_tags_refine_list_witness:
  "\<exists>v. lcfgresource_value_add_tags tags_demo ''c a d'' = Some (True, tags_demo\<lparr>res_value := v\<rparr>) \<and>
     value_tags (tags_demo\<lparr>res_value := v\<rparr>) = [''a'', ''b'', ''a'', ''c'', ''d'']"
proof -
  have "no_nul ''c a d''" "lcfgresource_valid_list (Some ''c a d'')" "strtok tag_sep ''c a d'' = [''c'', ''a'', ''d'']"
    by code_simp+
  with add_tags_refine_list [OF tags_demo_ok(1), of "''c a d''"] tags_demo_ok(4) show ?thesis
    by (simp add: with_tag_def)
qed

lemma replace_tag_refines_list_witness:
  "\<exists>v. lcfgresource_value_replace_tag tags_demo (Some ''a'') (Some ''c'') = Some (True, tags_demo\<lparr>res_value := v\<rparr>) \<and>
     value_tags (tags_demo\<lparr>res_value := v\<rparr>) = [''c'', ''b'', ''a'']"
  using replace_tag_refines_list [OF tags_demo_ok(1,2), of "''c''"] tags_demo_ok(3-5) by simp

end
