(* ===== verification/Lcfg_Resource_Text.thy ===== *)
theory Lcfg_Resource_Text
  imports Lcfg_Resource
begin

text \<open>
  The texts of resources (the second half of \<open>resources/resource.c\<close>): keys, encoded values,
  the styles a resource is printed in, and the specifications it is read from. A printing
  function gives the length it computes for the buffer and the text it writes there, and
  nothing where it returns \<open>-1\<close>. Those that print a derivation also give the resource, where
  the lengths of the derivations have been cached.
\<close>

section \<open>Encoding\<close>

definition unsafe_chars :: string where "unsafe_chars = [CHR 0x0D, CHR 0x0A, CHR ''&'']"

definition lcfgresource_value_needs_encode :: "LCFGResource \<Rightarrow> bool" where
  "lcfgresource_value_needs_encode res \<longleftrightarrow>
     lcfgresource_has_value res \<and>
     list_ex (\<lambda>c. c \<in> set unsafe_chars) (or_default (lcfgresource_get_value res) [])"

definition enc_cr :: string where "enc_cr = ''&#xD;''"
definition enc_lf :: string where "enc_lf = ''&#xA;''"
definition enc_amp :: string where "enc_amp = ''&#x26;''"

definition enc_extend :: "char \<Rightarrow> nat" where
  "enc_extend c =
     (if c = CHR 0x0D then length enc_cr - 1 else if c = CHR 0x0A then length enc_lf - 1
      else if c = CHR ''&'' then length enc_amp - 1 else 0)"

definition enc_char :: "char \<Rightarrow> string" where
  "enc_char c =
     (if c = CHR 0x0D then enc_cr else if c = CHR 0x0A then enc_lf else if c = CHR ''&'' then enc_amp else [c])"

text \<open>The length computed for the new text, and the text.\<close>

definition enc_text :: "string \<Rightarrow> nat \<times> string" where
  "enc_text v =
     (let extend = sum_list (map enc_extend v) in
      if extend = 0 then (length v, v) else (length v + extend, concat (map enc_char v)))"

definition lcfgresource_enc_value :: "LCFGResource \<Rightarrow> cstr" where
  "lcfgresource_enc_value res = map_option (\<lambda>v. snd (enc_text v)) (lcfgresource_get_value res)"

section \<open>Keys\<close>

definition lcfgresource_compute_key_length :: "cstr \<Rightarrow> cstr \<Rightarrow> cstr \<Rightarrow> char \<Rightarrow> nat option" where
  "lcfgresource_compute_key_length resource component namespace type_symbol =
     (if isempty resource then None
      else Some ((if type_symbol \<noteq> nul then 1 else 0) +
        (if \<not> isempty namespace then length (or_default namespace []) + 1 else 0) +
        (if \<not> isempty component then length (or_default component []) + 1 else 0) +
        length (or_default resource [])))"

definition lcfgresource_insert_key :: "cstr \<Rightarrow> cstr \<Rightarrow> cstr \<Rightarrow> char \<Rightarrow> string option" where
  "lcfgresource_insert_key resource component namespace type_symbol =
     (if isempty resource then None
      else Some ((if type_symbol \<noteq> nul then [type_symbol] else []) @
        (if \<not> isempty namespace then or_default namespace [] @ ''.'' else []) @
        (if \<not> isempty component then or_default component [] @ ''.'' else []) @
        or_default resource []))"

definition lcfgresource_build_key :: "cstr \<Rightarrow> cstr \<Rightarrow> cstr \<Rightarrow> char \<Rightarrow> string option" where
  "lcfgresource_build_key resource component namespace type_symbol =
     (if isempty resource then None
      else do {
        need_len \<leftarrow> lcfgresource_compute_key_length resource component namespace type_symbol;
        key \<leftarrow> lcfgresource_insert_key resource component namespace type_symbol;
        if length key = need_len then Some key else None
      })"

section \<open>Styles\<close>

datatype LCFGResourceStyle =
  LCFG_RESOURCE_STYLE_SPEC | LCFG_RESOURCE_STYLE_STATUS | LCFG_RESOURCE_STYLE_SUMMARY |
  LCFG_RESOURCE_STYLE_EXPORT | LCFG_RESOURCE_STYLE_VALUE

definition shown_value :: "LCFGResource \<Rightarrow> bits \<Rightarrow> string" where
  "shown_value res options =
     or_default (if has_bit options LCFG_OPT_ENCODE \<and> lcfgresource_value_needs_encode res
                 then lcfgresource_enc_value res else lcfgresource_get_value res) []"

definition lcfgresource_to_value :: "LCFGResource \<Rightarrow> cstr \<Rightarrow> bits \<Rightarrow> (nat \<times> string) option" where
  "lcfgresource_to_value res prefix options =
     (let val = shown_value res options;
          newline = has_bit options LCFG_OPT_NEWLINE
      in Some (length val + (if newline then 1 else 0), val @ (if newline then [CHR 0x0A] else [])))"

definition lcfgresource_to_spec :: "LCFGResource \<Rightarrow> cstr \<Rightarrow> bits \<Rightarrow> (nat \<times> string) option" where
  "lcfgresource_to_spec res prefix0 options =
     (let prefix = (if has_bit options LCFG_OPT_NOPREFIX then None else prefix0);
          with_value = (\<not> has_bit options LCFG_OPT_NOVALUE);
          val = (if with_value then shown_value res options else []);
          ctx = (if \<not> has_bit options LCFG_OPT_NOCONTEXT \<and> lcfgresource_has_context res
                 then or_default (lcfgresource_get_context res) [] else []);
          newline = has_bit options LCFG_OPT_NEWLINE
      in do {
        key_len \<leftarrow> lcfgresource_compute_key_length (res_name res) prefix None LCFG_RESOURCE_SYMBOL_VALUE;
        let new_len = key_len + (if with_value then 1 + length val else 0) +
          (if 0 < length ctx then 2 + length ctx else 0) + (if newline then 1 else 0);
        key \<leftarrow> lcfgresource_insert_key (res_name res) prefix None LCFG_RESOURCE_SYMBOL_VALUE;
        if length key \<noteq> key_len then None
        else Some (new_len, key @ (if 0 < length ctx then ''['' @ ctx @ '']'' else []) @
          (if with_value then ''='' @ val else []) @ (if newline then [CHR 0x0A] else []))
      })"

definition needs_type :: "LCFGResource \<Rightarrow> bool" where
  "needs_type res \<longleftrightarrow> lcfgresource_get_type res \<noteq> LCFG_RESOURCE_TYPE_STRING \<or> lcfgresource_has_comment res"

definition shown_type :: "LCFGResource \<Rightarrow> cstr" where
  "shown_type res =
     (if needs_type res
      then case lcfgresource_get_type_as_string res LCFG_OPT_NONE of (len, s) \<Rightarrow> if 0 < len then Some s else None
      else None)"

text \<open>A line for an attribute; nothing is written when there is no key for it.\<close>

definition status_line :: "LCFGResource \<Rightarrow> cstr \<Rightarrow> char \<Rightarrow> string \<Rightarrow> string" where
  "status_line res prefix type_symbol s =
     (case lcfgresource_insert_key (res_name res) prefix None type_symbol of
        None \<Rightarrow> []
      | Some key \<Rightarrow> if 0 < length key then key @ ''='' @ s @ [CHR 0x0A] else [])"

definition status_len :: "LCFGResource \<Rightarrow> cstr \<Rightarrow> char \<Rightarrow> int \<Rightarrow> int" where
  "status_len res prefix type_symbol n =
     (case lcfgresource_compute_key_length (res_name res) prefix None type_symbol of
        None \<Rightarrow> -1 | Some key_len \<Rightarrow> int key_len) + n + 2"

definition lcfgresource_to_status ::
    "LCFGResource \<Rightarrow> cstr \<Rightarrow> bits \<Rightarrow> (int \<times> string \<times> LCFGResource) option" where
  "lcfgresource_to_status res prefix options = do {
     (value_len, spec) \<leftarrow> lcfgresource_to_spec res prefix (options OR LCFG_OPT_NEWLINE OR LCFG_OPT_ENCODE);
     let (type_extra, type_text) = (case shown_type res of
       None \<Rightarrow> (0, [])
     | Some s \<Rightarrow> (status_len res prefix LCFG_RESOURCE_SYMBOL_TYPE (int (fst (lcfgresource_get_type_as_string res LCFG_OPT_NONE))),
                 status_line res prefix LCFG_RESOURCE_SYMBOL_TYPE s));
     let (deriv_len, res1) = (if has_bit options LCFG_OPT_USE_META \<and> lcfgresource_has_derivation res
       then lcfgresource_get_derivation_length res else (0, res));
     if 0 < deriv_len then
       (case lcfgresource_get_derivation_as_string res1 LCFG_OPT_NONE of
          (s, drvlist) \<Rightarrow>
            Some (int value_len + type_extra + status_len res prefix LCFG_RESOURCE_SYMBOL_DERIVATION deriv_len,
              spec @ type_text @ status_line res prefix LCFG_RESOURCE_SYMBOL_DERIVATION s,
              res1\<lparr>res_derivation := drvlist\<rparr>))
     else Some (int value_len + type_extra, spec @ type_text, res1)
   }"

text \<open>The format \<open>" %7s=%s\n"\<close>.\<close>

definition res_summary_line :: "string \<Rightarrow> string \<Rightarrow> string" where
  "res_summary_line name v = '' '' @ replicate (7 - length name) (CHR '' '') @ name @ ''='' @ v @ [CHR 0x0A]"

definition lcfgresource_to_summary ::
    "LCFGResource \<Rightarrow> cstr \<Rightarrow> bits \<Rightarrow> (nat \<times> string \<times> LCFGResource) option" where
  "lcfgresource_to_summary res prefix options = do {
     (key_len, key) \<leftarrow> lcfgresource_to_spec res prefix (LCFG_OPT_NOVALUE OR LCFG_OPT_NOCONTEXT);
     let val = or_default (res_value res) [];
     let (type_len, type) = (if needs_type res then lcfgresource_get_type_as_string res LCFG_OPT_NONE else (7, ''default''));
     let meta = has_bit options LCFG_OPT_USE_META;
     let (deriv, res1) = (if meta \<and> lcfgresource_has_derivation res
       then case lcfgresource_get_derivation_as_string res LCFG_OPT_NONE of (s, drvlist) \<Rightarrow> (s, res\<lparr>res_derivation := drvlist\<rparr>)
       else ([], res));
     let ctx = (if meta \<and> lcfgresource_has_context res then or_default (lcfgresource_get_context res) [] else []);
     Some (key_len + 2 + (10 + length val) + (10 + type_len) +
         (if 0 < length deriv then 10 + length deriv else 0) + (if 0 < length ctx then 10 + length ctx else 0),
       key @ '':'' @ [CHR 0x0A] @ res_summary_line ''value'' val @ res_summary_line ''type'' type @
         (if 0 < length deriv then res_summary_line ''derive'' deriv else []) @
         (if 0 < length ctx then res_summary_line ''context'' ctx else []),
       res1)
   }"

definition lcfgresource_to_string ::
    "LCFGResource \<Rightarrow> cstr \<Rightarrow> LCFGResourceStyle \<Rightarrow> bits \<Rightarrow> (int \<times> string \<times> LCFGResource) option" where
  "lcfgresource_to_string res prefix style options =
     (case style of
        LCFG_RESOURCE_STYLE_VALUE \<Rightarrow> map_option (\<lambda>(n, s). (int n, s, res)) (lcfgresource_to_value res prefix options)
      | LCFG_RESOURCE_STYLE_SUMMARY \<Rightarrow> map_option (\<lambda>(n, s, r). (int n, s, r)) (lcfgresource_to_summary res prefix options)
      | LCFG_RESOURCE_STYLE_STATUS \<Rightarrow> lcfgresource_to_status res prefix options
      | _ \<Rightarrow> map_option (\<lambda>(n, s). (int n, s, res)) (lcfgresource_to_spec res prefix options))"

text \<open>Whether it was printed, what was printed, and the resource.\<close>

definition lcfgresource_print ::
    "LCFGResource \<Rightarrow> cstr \<Rightarrow> LCFGResourceStyle \<Rightarrow> bits \<Rightarrow> bool \<times> string \<times> LCFGResource" where
  "lcfgresource_print res prefix style options =
     (case lcfgresource_to_string res prefix style (options OR LCFG_OPT_NEWLINE) of
        None \<Rightarrow> (False, [], res)
      | Some (rc, s, res') \<Rightarrow> if 0 < rc then (True, s, res') else (False, [], res'))"

section \<open>Reading\<close>

text \<open>
  The parts of a key: what is left of the key where it is not one, or the host, the
  component and the resource.
\<close>

definition key_parts :: "string \<Rightarrow> string + (cstr \<times> cstr \<times> string)" where
  "key_parts start =
     (case strrchr_split start (CHR ''.'') of
        None \<Rightarrow> Inr (None, None, start)
      | Some (before, resname) \<Rightarrow>
          if resname = [] then Inl start
          else (case strrchr_split before (CHR ''.'') of
             None \<Rightarrow> Inr (None, Some before, resname)
           | Some (hostname, compname) \<Rightarrow>
               if compname = [] then Inl before else Inr (Some hostname, Some compname, resname)))"

definition lcfgresource_parse_key :: "string \<Rightarrow> string + (cstr \<times> cstr \<times> string \<times> char)" where
  "lcfgresource_parse_key key =
     (let start = skip_space key;
          spaces = takeWhile isspace key
      in if start = [] then Inl key
         else
           let marked = (cur start \<in> {LCFG_RESOURCE_SYMBOL_DERIVATION, LCFG_RESOURCE_SYMBOL_TYPE, LCFG_RESOURCE_SYMBOL_PRIORITY});
               type_symbol = (if marked then cur start else LCFG_RESOURCE_SYMBOL_VALUE)
           in (case key_parts (if marked then tl start else start) of
                 Inl rest \<Rightarrow> Inl (spaces @ (if marked then [cur start] else []) @ rest)
               | Inr (hostname, compname, resname) \<Rightarrow> Inr (hostname, compname, resname, type_symbol)))"

definition in_quotes :: "string \<Rightarrow> string" where "in_quotes s = [CHR 0x27] @ s @ [CHR 0x27]"

text \<open>The message, or the host, the component, the resource, the value and the symbol.\<close>

definition lcfgresource_parse_spec :: "string \<Rightarrow> string + (cstr \<times> cstr \<times> string \<times> string \<times> char)" where
  "lcfgresource_parse_spec input =
     (let spec = skip_space input in
      if spec = [] then Inl ''empty resource specification''
      else case strchr_split spec (CHR ''='') of
        None \<Rightarrow> Inl (''missing '' @ in_quotes ''='' @ '' character'')
      | Some (key, val) \<Rightarrow>
          (case lcfgresource_parse_key key of
             Inl rest \<Rightarrow> Inl (''invalid resource key '' @ in_quotes rest)
           | Inr (hostname, compname, resname, type_symbol) \<Rightarrow>
               if \<not> lcfgresource_valid_name (Some resname) then Inl (''invalid resource name '' @ in_quotes resname)
               else Inr (hostname, compname, resname, val, type_symbol)))"

text \<open>The message where no other is set.\<close>

definition invalid_attr :: "string \<Rightarrow> nat \<Rightarrow> string \<Rightarrow> string" where
  "invalid_attr attr_name value_len value_copy =
     ''Invalid '' @ attr_name @ '' '' @ in_quotes (if 0 < value_len then value_copy else ''(empty string)'')"

definition lcfgresource_set_attribute ::
    "LCFGResource \<Rightarrow> char \<Rightarrow> string \<Rightarrow> nat \<Rightarrow> (bool \<times> LCFGResource \<times> cstr) option" where
  "lcfgresource_set_attribute res type_symbol val value_len = (
     let copy = take value_len val;
         arg = (if 0 < value_len then Some copy else None);
         report = (\<lambda>attr_name copy (ok, res' :: LCFGResource).
           (ok, res', if ok then None else Some (invalid_attr attr_name value_len copy)))
     in if type_symbol = LCFG_RESOURCE_SYMBOL_DERIVATION
        then Some (report ''derivation'' copy (lcfgresource_set_derivation_as_string res arg))
        else if type_symbol = LCFG_RESOURCE_SYMBOL_TYPE then
          (if 0 < value_len
           then map_option (\<lambda>(ok, res', msg). (ok, res',
                  if \<not> ok \<and> msg = None then Some (invalid_attr ''type'' value_len copy) else msg))
                (lcfgresource_set_type_as_string res arg)
           else Some (report ''type'' copy (lcfgresource_set_type_default res)))
        else if type_symbol = LCFG_RESOURCE_SYMBOL_CONTEXT
        then Some (report ''context'' copy (lcfgresource_set_context res arg))
        else if type_symbol = LCFG_RESOURCE_SYMBOL_PRIORITY
        then Some (report ''priority'' copy
               (if 0 < value_len
                then (if lcfgresource_valid_integer arg then lcfgresource_set_priority res (atoi copy) else (False, res))
                else lcfgresource_set_priority_default res))
        else do {
          decoded_copy \<leftarrow> (if 0 < value_len then lcfgutils_decode_html_entities_utf8 copy else Some []);
          Some (report ''value'' decoded_copy (lcfgresource_set_value res (Some decoded_copy)))
        })"

text \<open>The message, or the resource, the host and the component.\<close>

definition lcfgresource_from_spec :: "string \<Rightarrow> (string + (LCFGResource \<times> cstr \<times> cstr)) option" where
  "lcfgresource_from_spec spec =
     (case lcfgresource_parse_spec spec of
        Inl msg \<Rightarrow> Some (Inl msg)
      | Inr (spec_host, spec_comp, spec_res, spec_val, spec_type) \<Rightarrow>
          (case lcfgresource_set_name lcfgresource_new (Some spec_res) of
             (False, _) \<Rightarrow> Some (Inl (''invalid resource name '' @ in_quotes spec_res))
           | (True, res) \<Rightarrow> do {
               (ok, res', set_msg) \<leftarrow> lcfgresource_set_attribute res spec_type spec_val (length spec_val);
               Some (if ok then Inr (res', if isempty spec_host then None else spec_host,
                                     if isempty spec_comp then None else spec_comp)
                     else Inl (''bad value for resource attribute ('' @ or_default set_msg [] @ '')''))
             }))"

section \<open>Counting\<close>

text \<open>A resource whose last reference is given back is freed.\<close>

definition lcfgresource_acquire :: "LCFGResource \<Rightarrow> LCFGResource" where
  "lcfgresource_acquire res = res\<lparr>res_refcount := res_refcount res + 1\<rparr>"

definition lcfgresource_relinquish :: "LCFGResource option \<Rightarrow> LCFGResource option" where
  "lcfgresource_relinquish res =
     (case res of
        None \<Rightarrow> None
      | Some r \<Rightarrow>
          let r' = (if 0 < res_refcount r then r\<lparr>res_refcount := res_refcount r - 1\<rparr> else r)
          in if res_refcount r' = 0 then None else Some r')"

section \<open>Names of children\<close>

text \<open>Whether all names were built, the list of them, the tags, the message and the memory.\<close>

fun child_names_loop ::
    "LCFGTemplate list \<Rightarrow> tag_mem \<Rightarrow> LCFGTagList option \<Rightarrow> LCFGTagList \<Rightarrow> cstr \<Rightarrow>
     (bool \<times> LCFGTagList \<times> LCFGTagList option \<times> cstr \<times> tag_mem) option" where
  "child_names_loop [] m tags child_list msg = Some (True, child_list, tags, msg, m)"
| "child_names_loop (cur_tmpl # rest) m tags child_list msg = do {
     (built, tags', m1) \<leftarrow> lcfgtemplate_substitute m cur_tmpl tags;
     case built of
       Inl tmpl_msg \<Rightarrow> Some (False, child_list, tags', Some tmpl_msg, m1)
     | Inr child_name \<Rightarrow>
         if child_name = [] then Some (False, child_list, tags', msg, m1)
         else do {
           (rc, child_list', msg', m2) \<leftarrow> lcfgtaglist_mutate_append m1 child_list (Some child_name) msg;
           if rc = LCFG_CHANGE_ERROR then Some (False, child_list', tags', msg', m2)
           else child_names_loop rest m2 tags' child_list' msg'
         }
   }"

definition lcfgresource_child_names ::
    "tag_mem \<Rightarrow> LCFGResource \<Rightarrow> LCFGTagList option \<Rightarrow> cstr \<Rightarrow>
     (LCFGStatus \<times> LCFGTagList option \<times> LCFGTagList option \<times> cstr \<times> tag_mem) option"
where
  "lcfgresource_child_names m res tags msg = do {
     (ok, child_list, tags', msg', m') \<leftarrow> child_names_loop (lcfgresource_get_template res) m tags lcfgtaglist_new msg;
     if ok then Some (LCFG_STATUS_OK, Some child_list, tags', msg', m')
     else do {
       (_, m'') \<leftarrow> lcfgtaglist_relinquish m' (Some child_list);
       Some (LCFG_STATUS_ERROR, None, tags', msg', m'')
     }
   }"

section \<open>Encoded values\<close>

lemma enc_char_length: "length (enc_char c) = 1 + enc_extend c"
  by (simp add: enc_char_def enc_extend_def enc_cr_def enc_lf_def enc_amp_def)

lemma enc_char_nonempty [simp]: "enc_char c \<noteq> []"
  using enc_char_length [of c] by auto

lemma enc_extend_plain: "enc_extend c = 0 \<longleftrightarrow> c \<notin> set unsafe_chars"
  by (auto simp: enc_extend_def unsafe_chars_def enc_cr_def enc_lf_def enc_amp_def)

lemma enc_text_result: "enc_text v = (length (concat (map enc_char v)), concat (map enc_char v))"
proof -
  have len: "length (concat (map enc_char v)) = length v + sum_list (map enc_extend v)"
    by (induction v) (simp_all add: enc_char_length)
  have "concat (map enc_char v) = v" if "\<forall>c\<in>set v. c \<notin> set unsafe_chars"
    using that by (induction v) (auto simp: enc_char_def unsafe_chars_def)
  with len show ?thesis by (auto simp: enc_text_def Let_def sum_list_eq_0_iff enc_extend_plain)
qed

lemma enc_digits: "digit_val (CHR ''D'') = 13" "digit_val (CHR ''A'') = 10" "digit_val (CHR ''2'') = 2"
  "digit_val (CHR ''6'') = 6" "36 \<le> digit_val (CHR '';'')"
  by code_simp+

lemma enc_bytes: "uchar 13 = CHR 0x0D" "uchar 10 = CHR 0x0A" "uchar 38 = CHR ''&''"
  by code_simp+

lemma parse_encoded:
  "parse_entity (enc_cr @ s) = Some ([CHR 0x0D], s)" "parse_entity (enc_lf @ s) = Some ([CHR 0x0A], s)"
  "parse_entity (enc_amp @ s) = Some (''&'', s)"
  using enc_digits enc_bytes
  by (simp_all add: parse_entity_def enc_cr_def enc_lf_def enc_amp_def strtoul_def strtoul_start_def
      isspace_def byte_def UNICODE_MAX_def putc_utf8_def)

lemma decoded_enc_char: "decoded (enc_char c @ t) = c # decoded t"
proof -
  have "decoded (e @ t) = x # decoded t" if "parse_entity (e @ t) = Some ([x], t)" "hd e = CHR ''&''" "e \<noteq> []" for e x
    using that decoded_entity [of "tl e @ t" "[x]" t] by (cases e) simp_all
  from this [OF parse_encoded(1)] this [OF parse_encoded(2)] this [OF parse_encoded(3)] show ?thesis
    by (simp add: enc_char_def decoded_plain) (simp add: enc_cr_def enc_lf_def enc_amp_def)
qed

lemma decoded_encoded: "decoded (concat (map enc_char v) @ s) = v @ decoded s"
  by (induction v) (simp_all add: decoded_enc_char)

lemma decode_encoded:
  assumes "no_nul v"
  shows "lcfgutils_decode_html_entities_utf8 (snd (enc_text v)) = Some v"
proof -
  have "decoded (concat (map enc_char v)) = v" using decoded_encoded [of v "[]"] by (simp add: decoded.simps)
  moreover have "takeWhile (\<lambda>c. c \<noteq> nul) v = v" using assms by (auto simp: no_nul_def takeWhile_eq_all_conv)
  ultimately show ?thesis by (simp add: decode_result(1) enc_text_result)
qed

lemma shown_encoded:
  assumes "has_bit options LCFG_OPT_ENCODE"
  shows "shown_value res options = snd (enc_text (or_default (res_value res) []))"
proof (cases "lcfgresource_value_needs_encode res")
  case True
  then show ?thesis using assms
    by (cases "res_value res") (simp_all add: shown_value_def lcfgresource_enc_value_def lcfgresource_get_value_def
      lcfgresource_value_needs_encode_def lcfgresource_has_value_def)
next
  case False
  then have "\<forall>c\<in>set (or_default (res_value res) []). enc_extend c = 0"
    by (cases "res_value res") (auto simp: lcfgresource_value_needs_encode_def lcfgresource_has_value_def
      lcfgresource_get_value_def list_ex_iff enc_extend_plain)
  then have "snd (enc_text (or_default (res_value res) [])) = or_default (res_value res) []"
    by (simp add: enc_text_def Let_def sum_list_eq_0_iff)
  with False show ?thesis by (simp add: shown_value_def lcfgresource_get_value_def)
qed

section \<open>Keys and specifications\<close>

text \<open>Texts that a key can start with, and components.\<close>

definition key_start :: "string \<Rightarrow> bool" where
  "key_start s \<longleftrightarrow> s \<noteq> [] \<and> \<not> isspace (hd s) \<and>
     hd s \<notin> {LCFG_RESOURCE_SYMBOL_DERIVATION, LCFG_RESOURCE_SYMBOL_TYPE, LCFG_RESOURCE_SYMBOL_PRIORITY}"

definition key_component :: "string \<Rightarrow> bool" where
  "key_component s \<longleftrightarrow> key_start s \<and> CHR ''.'' \<notin> set s \<and> CHR ''='' \<notin> set s"

lemma valid_name_component: "lcfgresource_valid_name (Some n) \<Longrightarrow> key_component n"
proof -
  assume n: "lcfgresource_valid_name (Some n)"
  then obtain c t where t: "n = c # t" "isalpha c" "list_all isword t"
    by (cases n) (auto simp: lcfgresource_valid_name_def)
  have "\<forall>d\<in>set n. isword d" using t by (auto simp: list_all_iff lcfg_chr)
  moreover have "\<not> isword (CHR ''.'')" "\<not> isword (CHR ''='')" by (simp_all add: lcfg_chr byte_def)
  moreover have "key_start n" using t
    by (auto simp: key_start_def lcfg_chr byte_def LCFG_RESOURCE_SYMBOL_DERIVATION_def LCFG_RESOURCE_SYMBOL_TYPE_def LCFG_RESOURCE_SYMBOL_PRIORITY_def)
  ultimately show ?thesis by (auto simp: key_component_def)
qed

text \<open>The text before the resource: nothing, a component, or a host and a component.\<close>

definition key_prefix :: "cstr \<Rightarrow> cstr \<Rightarrow> string" where
  "key_prefix hostname compname =
     (case compname of None \<Rightarrow> [] | Some c \<Rightarrow> (case hostname of None \<Rightarrow> [] | Some h \<Rightarrow> h @ ''.'') @ c @ ''.'')"

definition key_owner :: "cstr \<Rightarrow> cstr \<Rightarrow> bool" where
  "key_owner hostname compname \<longleftrightarrow>
     (case compname of None \<Rightarrow> hostname = None
      | Some c \<Rightarrow> key_component c \<and> (case hostname of None \<Rightarrow> True | Some h \<Rightarrow> key_start h \<and> CHR ''='' \<notin> set h))"

lemma key_parts_built:
  assumes "key_owner hostname compname" and "key_component n"
  shows "key_parts (key_prefix hostname compname @ n) = Inr (hostname, compname, n)"
proof -
  have n: "CHR ''.'' \<notin> set n" "n \<noteq> []" using assms(2) by (auto simp: key_component_def key_start_def)
  show ?thesis
  proof (cases compname)
    case None
    with assms(1) n show ?thesis by (simp add: key_prefix_def key_owner_def key_parts_def strrchr_split_none)
  next
    case (Some c)
    then have c: "CHR ''.'' \<notin> set c" "c \<noteq> []"
      using assms(1) by (auto simp: key_owner_def key_component_def key_start_def)
    show ?thesis
      using Some n c strrchr_split_last [OF n(1), of c] strrchr_split_last [OF n(1), of "h @ CHR ''.'' # c" for h]
      by (cases hostname) (simp_all add: key_prefix_def key_parts_def strrchr_split_none strrchr_split_last)
  qed
qed

definition key_symbol :: "char \<Rightarrow> bool" where
  "key_symbol c \<longleftrightarrow> c \<in> {nul, LCFG_RESOURCE_SYMBOL_DERIVATION, LCFG_RESOURCE_SYMBOL_TYPE, LCFG_RESOURCE_SYMBOL_PRIORITY}"

lemma key_built:
  assumes "key_owner hostname compname" and "key_component n"
  shows "lcfgresource_insert_key (Some n) compname hostname mark =
      Some ((if mark \<noteq> nul then [mark] else []) @ key_prefix hostname compname @ n)"
    and "key_start (key_prefix hostname compname @ n)" and "CHR ''='' \<notin> set (key_prefix hostname compname @ n)"
  using assms
  by (auto simp: lcfgresource_insert_key_def key_prefix_def key_owner_def key_component_def key_start_def
      split: option.splits)

lemma key_read:
  assumes "key_owner hostname compname" and "key_component n" and "key_symbol mark"
  shows "lcfgresource_parse_key ((if mark \<noteq> nul then [mark] else []) @ key_prefix hostname compname @ n) =
    Inr (hostname, compname, n, mark)"
proof -
  let ?k = "key_prefix hostname compname @ n"
  have k: "?k \<noteq> []" "\<not> isspace (hd ?k)" "hd ?k \<notin> {LCFG_RESOURCE_SYMBOL_DERIVATION, LCFG_RESOURCE_SYMBOL_TYPE, LCFG_RESOURCE_SYMBOL_PRIORITY}"
    using key_built(2) [OF assms(1,2)] by (simp_all add: key_start_def)
  have cur: "cur ?k = hd ?k" using k(1) by (cases ?k) auto
  show ?thesis
  proof (cases "mark = nul")
    case True
    have "lcfgresource_parse_key ?k = Inr (hostname, compname, n, LCFG_RESOURCE_SYMBOL_VALUE)"
      using k cur key_parts_built [OF assms(1,2)] skip_space_id [of ?k] by (simp add: lcfgresource_parse_key_def Let_def)
    with True show ?thesis by (simp add: LCFG_RESOURCE_SYMBOL_VALUE_def)
  next
    case False
    then have "\<not> isspace mark" "mark \<in> {LCFG_RESOURCE_SYMBOL_DERIVATION, LCFG_RESOURCE_SYMBOL_TYPE, LCFG_RESOURCE_SYMBOL_PRIORITY}"
      using assms(3) by (auto simp: key_symbol_def LCFG_RESOURCE_SYMBOL_DERIVATION_def LCFG_RESOURCE_SYMBOL_TYPE_def
        LCFG_RESOURCE_SYMBOL_PRIORITY_def isspace_def byte_def)
    with False key_parts_built [OF assms(1,2)] skip_space_id [of "mark # ?k"] show ?thesis
      by (simp add: lcfgresource_parse_key_def Let_def)
  qed
qed

text \<open>
  the key that is built from a resource, a component, a host and a symbol is read back as the
  same host, component, resource and symbol, and is as long as computed for it.
\<close>

theorem key_roundtrip:
  assumes "lcfgresource_valid_name (Some n)" and "key_owner hostname compname" and "key_symbol mark"
  shows "\<exists>key. lcfgresource_build_key (Some n) compname hostname mark = Some key \<and>
    lcfgresource_compute_key_length (Some n) compname hostname mark = Some (length key) \<and>
    lcfgresource_parse_key key = Inr (hostname, compname, n, mark)"
proof -
  note n = valid_name_component [OF assms(1)]
  have "n \<noteq> []" using n by (auto simp: key_component_def key_start_def)
  moreover from this have "lcfgresource_compute_key_length (Some n) compname hostname mark =
      map_option length (lcfgresource_insert_key (Some n) compname hostname mark)"
    by (simp add: lcfgresource_compute_key_length_def lcfgresource_insert_key_def)
  ultimately show ?thesis
    using key_built(1) [OF assms(2) n, of mark] key_read [OF assms(2) n assms(3)]
    by (simp add: lcfgresource_build_key_def)
qed

lemma key_roundtrip_witness:
  "\<exists>key. lcfgresource_build_key (Some ''port'') (Some ''ssh'') (Some ''a.b'') (CHR ''%'') = Some key \<and>
    lcfgresource_compute_key_length (Some ''port'') (Some ''ssh'') (Some ''a.b'') (CHR ''%'') = Some (length key) \<and>
    lcfgresource_parse_key key = Inr (Some ''a.b'', Some ''ssh'', ''port'', CHR ''%'')"
proof -
  have "lcfgresource_valid_name (Some ''port'')" "key_owner (Some ''a.b'') (Some ''ssh'')" "key_symbol (CHR ''%'')"
    by code_simp+
  then show ?thesis by (rule key_roundtrip)
qed

text \<open>A specification is read from a key, an equals sign and a text.\<close>

lemma spec_read:
  assumes "key_owner hostname compname" and "lcfgresource_valid_name (Some n)" and "key_symbol mark"
  shows "lcfgresource_from_spec ((if mark \<noteq> nul then [mark] else []) @ key_prefix hostname compname @ n @ ''='' @ v) =
    map_option (\<lambda>(ok, r, msg). if ok then Inr (r, hostname, compname)
        else Inl (''bad value for resource attribute ('' @ or_default msg [] @ '')''))
      (lcfgresource_set_attribute (lcfgresource_new\<lparr>res_name := Some n\<rparr>) mark v (length v))"
proof -
  note n = valid_name_component [OF assms(2)]
  let ?k = "(if mark \<noteq> nul then [mark] else []) @ key_prefix hostname compname @ n"
  have k: "?k \<noteq> []" "\<not> isspace (hd ?k)" "CHR ''='' \<notin> set ?k"
    using key_built(2,3) [OF assms(1) n] assms(3)
    by (auto simp: key_start_def key_symbol_def LCFG_RESOURCE_SYMBOL_DERIVATION_def LCFG_RESOURCE_SYMBOL_TYPE_def
        LCFG_RESOURCE_SYMBOL_PRIORITY_def isspace_def byte_def hd_append)
  have skip: "skip_space (?k @ CHR ''='' # v) = ?k @ CHR ''='' # v"
    using k(2) hd_append2 [OF k(1), of "CHR ''='' # v"] by (intro skip_space_id) presburger
  have parsed: "lcfgresource_parse_spec (?k @ CHR ''='' # v) = Inr (hostname, compname, n, v, mark)"
    unfolding lcfgresource_parse_spec_def skip strchr_split_app [OF k(3)] Let_def
    using key_read [OF assms(1) n assms(3)] assms(2) by simp
  have owner: "(if isempty hostname then None else hostname) = hostname" "(if isempty compname then None else compname) = compname"
    using assms(1) by (auto simp: key_owner_def key_component_def key_start_def split: option.splits)
  have "lcfgresource_from_spec (?k @ CHR ''='' # v) =
    map_option (\<lambda>(ok, r, msg). if ok then Inr (r, hostname, compname)
        else Inl (''bad value for resource attribute ('' @ or_default msg [] @ '')''))
      (lcfgresource_set_attribute (lcfgresource_new\<lparr>res_name := Some n\<rparr>) mark v (length v))"
    using assms(2) owner unfolding lcfgresource_from_spec_def parsed
    by (cases "lcfgresource_set_attribute (lcfgresource_new\<lparr>res_name := Some n\<rparr>) mark v (length v)")
      (auto simp: lcfgresource_set_name_def)
  then show ?thesis by simp
qed

text \<open>
  C32: the specification that is printed for a resource with a component and encoded, without its
  context and on no line of its own, is read back as the component and a resource of the same
  name and value, whatever characters the value has.
\<close>

theorem spec_text_roundtrip:
  assumes "lcfgresource_valid_name (res_name res)" and "key_owner None prefix"
    and "no_nul (or_default (res_value res) [])" and "has_bit options LCFG_OPT_ENCODE" and "\<not> has_bit options LCFG_OPT_NOPREFIX"
    and "\<not> has_bit options LCFG_OPT_NOVALUE" and "\<not> has_bit options LCFG_OPT_NEWLINE"
    and "has_bit options LCFG_OPT_NOCONTEXT \<or> res_context res = None"
  shows "\<exists>s. lcfgresource_to_spec res prefix options = Some (length s, s) \<and>
    lcfgresource_from_spec s = Some (Inr
      (lcfgresource_new\<lparr>res_name := res_name res, res_value := Some (or_default (res_value res) [])\<rparr>, None, prefix))"
proof -
  obtain n where n: "res_name res = Some n" "lcfgresource_valid_name (Some n)"
    using assms(1) by (cases "res_name res") (auto simp: lcfgresource_valid_name_def)
  note comp = valid_name_component [OF n(2)]
  have ne: "n \<noteq> []" using comp by (auto simp: key_component_def key_start_def)
  let ?v = "or_default (res_value res) []"
  let ?e = "shown_value res options"
  let ?s = "key_prefix None prefix @ n @ ''='' @ ?e"
  have len: "lcfgresource_compute_key_length (Some n) prefix None nul = Some (length (key_prefix None prefix @ n))"
    using ne assms(2) by (auto simp: lcfgresource_compute_key_length_def key_prefix_def key_owner_def key_component_def
        key_start_def split: option.splits)
  have ctx: "has_bit options LCFG_OPT_NOCONTEXT \<or> \<not> lcfgresource_has_context res"
    using assms(8) by (auto simp: lcfgresource_has_context_def)
  have shown: "lcfgresource_to_spec res prefix options = Some (length ?s, ?s)"
    using assms(5-7) ctx len key_built(1) [OF assms(2) comp, of nul] n(1)
    by (auto simp: lcfgresource_to_spec_def Let_def LCFG_RESOURCE_SYMBOL_VALUE_def)
  have decoded: "lcfgutils_decode_html_entities_utf8 ?e = Some ?v" and empty: "?e = [] \<Longrightarrow> ?v = []"
    using decode_encoded [OF assms(3)] enc_text_result [of ?v] unfolding shown_encoded [OF assms(4)]
    using enc_char_nonempty by (cases ?v; simp)+
  have "lcfgresource_set_attribute (lcfgresource_new\<lparr>res_name := Some n\<rparr>) nul ?e (length ?e) =
      Some (True, lcfgresource_new\<lparr>res_name := Some n, res_value := Some ?v\<rparr>, None)"
    using decoded empty
    by (auto simp: lcfgresource_set_attribute_def Let_def LCFG_RESOURCE_SYMBOL_DERIVATION_def LCFG_RESOURCE_SYMBOL_TYPE_def
        LCFG_RESOURCE_SYMBOL_PRIORITY_def LCFG_RESOURCE_SYMBOL_CONTEXT_def nul_def lcfgresource_set_value_def
        lcfgresource_valid_value_def lcfgresource_get_type_def lcfgresource_new_def LCFG_RESOURCE_DEFAULT_TYPE_def)
  with spec_read [OF assms(2) n(2), of nul ?e] shown n(1) show ?thesis
    by (intro exI [of _ ?s]) (simp add: key_symbol_def)
qed

lemma spec_text_roundtrip_witness:
  "\<exists>s. lcfgresource_to_spec (lcfgresource_new\<lparr>res_name := Some ''x'', res_value := Some [CHR 0x0A, CHR ''&'']\<rparr>)
      (Some ''c'') LCFG_OPT_ENCODE = Some (length s, s) \<and>
    lcfgresource_from_spec s = Some (Inr
      (lcfgresource_new\<lparr>res_name := Some ''x'', res_value := Some [CHR 0x0A, CHR ''&'']\<rparr>, None, Some ''c''))"
proof -
  have "lcfgresource_valid_name (Some ''x'')" "key_owner None (Some ''c'')" "no_nul [CHR 0x0A, CHR ''&'']"
    by code_simp+
  then show ?thesis
    using spec_text_roundtrip [of "lcfgresource_new\<lparr>res_name := Some ''x'', res_value := Some [CHR 0x0A, CHR ''&'']\<rparr>"
        "Some ''c''" LCFG_OPT_ENCODE]
    by (simp add: lcfg_flag lcfgresource_new_def)
qed

section \<open>Lengths\<close>

definition res_deriv_ok :: "LCFGResource \<Rightarrow> bool" where
  "res_deriv_ok res \<longleftrightarrow> (case res_derivation res of None \<Rightarrow> True | Some l \<Rightarrow> drvlist_ok l)"

lemma res_spec_length: "lcfgresource_to_spec res prefix options = Some (n, s) \<Longrightarrow> n = length s"
  by (auto simp: lcfgresource_to_spec_def Let_def split: bind_splits if_splits)

lemma value_length: "lcfgresource_to_value res prefix options = Some (n, s) \<Longrightarrow> n = length s"
  by (auto simp: lcfgresource_to_value_def Let_def)

lemma status_line_length:
  assumes "\<not> isempty (res_name res)" and "mark \<noteq> nul"
  shows "int (length (status_line res prefix mark s)) = status_len res prefix mark (int (length s))"
  using assms by (auto simp: status_line_def status_len_def lcfgresource_insert_key_def lcfgresource_compute_key_length_def)

lemma spec_named: "lcfgresource_to_spec res prefix options = Some r \<Longrightarrow> \<not> isempty (res_name res)"
  by (auto simp: lcfgresource_to_spec_def Let_def lcfgresource_compute_key_length_def split: if_splits)

lemma res_summary_line_length: "length name \<le> 7 \<Longrightarrow> length (res_summary_line name v) = 10 + length v"
  by (simp add: res_summary_line_def)

lemma no_templates_none: "\<not> has_bit LCFG_OPT_NONE LCFG_OPT_NOTEMPLATES"
  by (simp add: lcfg_flag)

lemma shown_type_length:
  assumes "res_ok res"
  shows "case shown_type res of None \<Rightarrow> True | Some s \<Rightarrow> fst (lcfgresource_get_type_as_string res LCFG_OPT_NONE) = length s"
  using type_text_shown [OF assms no_templates_none] by (auto simp: shown_type_def split: option.splits if_splits)

lemma summary_length:
  assumes "res_ok res" and "lcfgresource_to_summary res prefix options = Some (n, s, r)"
  shows "n = length s"
  using assms(2) res_spec_length [of res prefix] type_text_shown [OF assms(1) no_templates_none]
  by (auto simp: lcfgresource_to_summary_def Let_def res_summary_line_length split: bind_splits if_splits prod.splits)

lemma status_length:
  assumes "res_ok res" and "res_deriv_ok res" and "lcfgresource_to_status res prefix options = Some (n, s, r)"
  shows "n = int (length s)"
proof -
  obtain spec where spec: "lcfgresource_to_spec res prefix (options OR LCFG_OPT_NEWLINE OR LCFG_OPT_ENCODE) = Some (length spec, spec)"
    using assms(3) res_spec_length by (auto simp: lcfgresource_to_status_def split: bind_splits)
  note name = spec_named [OF spec]
  let ?type = "case shown_type res of None \<Rightarrow> (0, []) | Some t \<Rightarrow>
      (status_len res prefix LCFG_RESOURCE_SYMBOL_TYPE (int (fst (lcfgresource_get_type_as_string res LCFG_OPT_NONE))),
       status_line res prefix LCFG_RESOURCE_SYMBOL_TYPE t)"
  have type: "fst ?type = int (length (snd ?type))"
    using shown_type_length [OF assms(1)] status_line_length [OF name, of LCFG_RESOURCE_SYMBOL_TYPE]
    by (simp add: LCFG_RESOURCE_SYMBOL_TYPE_def nul_def split: option.splits)
  show ?thesis
  proof (cases "has_bit options LCFG_OPT_USE_META \<and> lcfgresource_has_derivation res")
    case False
    with assms(3) spec type show ?thesis by (auto simp: lcfgresource_to_status_def split: prod.splits)
  next
    case True
    then obtain l where l: "res_derivation res = Some l" "\<not> lcfgderivlist_is_empty (Some l)"
      by (auto simp: lcfgresource_has_derivation_def)
    with assms(2) have ok: "drvlist_ok l" by (simp add: res_deriv_ok_def)
    obtain l' where l': "snd (lcfgderivlist_get_string_length (Some l)) = Some l'"
        "lcfgderivlist_to_string (Some l') LCFG_OPT_NONE = lcfgderivlist_to_string (Some l) LCFG_OPT_NONE"
      using derivlist_length_again [OF ok] by blast
    obtain len where len: "lcfgderivlist_get_string_length (Some l) = (len, Some l')" using l'(1) by (metis prod.collapse)
    let ?d = "fst (lcfgderivlist_to_string (Some l) LCFG_OPT_NONE)"
    let ?r = "res\<lparr>res_derivation := Some l'\<rparr>"
    have d: "len = int (length ?d)" using derivlist_text_length [OF ok, of LCFG_OPT_NONE] len by (simp add: lcfg_flag)
    have "lcfgresource_get_derivation_length res = (len, ?r)"
      "fst (lcfgresource_get_derivation_as_string ?r LCFG_OPT_NONE) = ?d"
      using True l l' len by (simp_all add: lcfgresource_get_derivation_length_def lcfgresource_get_derivation_def
          lcfgresource_get_derivation_as_string_def)
    with assms(3) spec type True d status_line_length [OF name, of LCFG_RESOURCE_SYMBOL_DERIVATION prefix ?d] show ?thesis
      by (auto simp: lcfgresource_to_status_def LCFG_RESOURCE_SYMBOL_DERIVATION_def nul_def split: prod.splits if_splits)
  qed
qed

text \<open>
  C33: in every style the length that is computed for the buffer of a resource is the length of
  the text written into it, for a resource with valid templates and a derivation list as the
  library keeps it. (The code asserts it after the text has been written.)
\<close>

theorem styles_fill_buffer:
  assumes "res_ok res" and "res_deriv_ok res" and "lcfgresource_to_string res prefix style options = Some (n, s, r)"
  shows "n = int (length s)"
  using assms res_spec_length [of res prefix options] value_length [of res prefix options] summary_length [of res prefix options]
    status_length [of res prefix options n s r]
  by (cases style) (auto simp: lcfgresource_to_string_def)

lemma styles_fill_buffer_witness:
  "case lcfgresource_to_string (lcfgresource_new\<lparr>res_name := Some ''x''\<rparr>) (Some ''c'') LCFG_RESOURCE_STYLE_SUMMARY LCFG_OPT_NONE of
     Some (n, s, _) \<Rightarrow> n = int (length s) | None \<Rightarrow> False"
proof -
  let ?r = "lcfgresource_new\<lparr>res_name := Some ''x''\<rparr>"
  have ok: "res_ok ?r" "res_deriv_ok ?r"
    by (simp_all add: res_ok_def res_deriv_ok_def lcfgresource_new_def lcfgresource_valid_name_def lcfg_chr byte_def)
  have "\<not> Option.is_none (lcfgresource_to_string ?r (Some ''c'') LCFG_RESOURCE_STYLE_SUMMARY LCFG_OPT_NONE)"
    by code_simp
  then obtain n s r where r: "lcfgresource_to_string ?r (Some ''c'') LCFG_RESOURCE_STYLE_SUMMARY LCFG_OPT_NONE = Some (n, s, r)"
    by (cases "lcfgresource_to_string ?r (Some ''c'') LCFG_RESOURCE_STYLE_SUMMARY LCFG_OPT_NONE") auto
  from styles_fill_buffer [OF ok r] r show ?thesis by simp
qed

text \<open>
  the line a status block has for the type of a resource is read back, as a specification,
  as a resource of the same name, type, comment and, for a list, templates.
\<close>

theorem status_type_read:
  assumes "res_ok res" and "res_name res = Some n" and "CHR '')'' \<notin> set (or_default (res_comment res) [])"
    and "key_owner None prefix" and "shown_type res = Some t"
  shows "\<exists>spec. status_line res prefix LCFG_RESOURCE_SYMBOL_TYPE t = spec @ [CHR 0x0A] \<and>
    lcfgresource_from_spec spec = Some (Inr
      (lcfgresource_new\<lparr>res_name := Some n, res_type := res_type res,
         res_comment := if isempty (res_comment res) then None else res_comment res,
         res_template := if lcfgresource_is_list res then res_template res else []\<rparr>, None, prefix))"
proof -
  let ?m = LCFG_RESOURCE_SYMBOL_TYPE
  have m: "?m \<noteq> nul" "key_symbol ?m" by (simp_all add: LCFG_RESOURCE_SYMBOL_TYPE_def nul_def key_symbol_def)
  have n: "lcfgresource_valid_name (Some n)" using assms(1,2) by (simp add: res_ok_def)
  note key = key_built(1) [OF assms(4) valid_name_component [OF n], of ?m]
  have t: "t = type_text res LCFG_OPT_NONE" "t \<noteq> []"
    using assms(5) type_text_shown [OF assms(1) no_templates_none] by (auto simp: shown_type_def split: if_splits)
  let ?r = "lcfgresource_new\<lparr>res_name := Some n\<rparr>"
  have "lcfgresource_set_attribute ?r ?m t (length t) = lcfgresource_set_type_as_string ?r (Some t)"
    using type_text_read [OF assms(1,3), of ?r LCFG_OPT_NONE] t
    by (simp add: lcfgresource_set_attribute_def Let_def LCFG_RESOURCE_SYMBOL_TYPE_def LCFG_RESOURCE_SYMBOL_DERIVATION_def lcfgresource_new_def)
  with spec_read [OF assms(4) n m(2), of t] type_text_read [OF assms(1,3), of ?r LCFG_OPT_NONE] t(1) m(1)
  have "lcfgresource_from_spec ([?m] @ key_prefix None prefix @ n @ ''='' @ t) = Some (Inr
      (lcfgresource_new\<lparr>res_name := Some n, res_type := res_type res,
         res_comment := if isempty (res_comment res) then None else res_comment res,
         res_template := if lcfgresource_is_list res then res_template res else []\<rparr>, None, prefix))"
    by (simp add: lcfgresource_new_def)
  moreover have "status_line res prefix ?m t = ([?m] @ key_prefix None prefix @ n @ ''='' @ t) @ [CHR 0x0A]"
    using key assms(2) m(1) by (simp add: status_line_def)
  ultimately show ?thesis by blast
qed

lemma status_type_read_witness:
  "\<exists>spec. status_line (lcfgresource_new\<lparr>res_name := Some ''x'', res_type := LCFG_RESOURCE_TYPE_INTEGER\<rparr>) (Some ''c'')
      LCFG_RESOURCE_SYMBOL_TYPE ''integer'' = spec @ [CHR 0x0A] \<and>
    lcfgresource_from_spec spec = Some (Inr
      (lcfgresource_new\<lparr>res_name := Some ''x'', res_type := LCFG_RESOURCE_TYPE_INTEGER\<rparr>, None, Some ''c''))"
proof -
  let ?r = "lcfgresource_new\<lparr>res_name := Some ''x'', res_type := LCFG_RESOURCE_TYPE_INTEGER\<rparr>"
  have "res_ok ?r" by (simp add: res_ok_def lcfgresource_new_def lcfgresource_valid_name_def lcfg_chr byte_def)
  moreover have "key_owner None (Some ''c'')" "shown_type ?r = Some ''integer''" by code_simp+
  ultimately show ?thesis
    using status_type_read [of ?r "''x''" "Some ''c''" "''integer''"]
    by (simp add: lcfgresource_new_def lcfgresource_is_list_def lcfgresource_get_type_def)
qed

end
