(* ===== verification/Lcfg_Resource_Env.thy ===== *)
theory Lcfg_Resource_Env
  imports Lcfg_Resource_Text
begin

text \<open>
  Resources and the environment of a process (\<open>lcfgresource_from_env\<close>, \<open>lcfgresource_to_env\<close>
  and \<open>lcfgresource_to_export\<close> of \<open>resources/resource.c\<close>), with the messages on resources. The
  environment is a map from names to texts, which \<open>setenv\<close> updates (it has no reason to fail for
  the names that are checked before). An outer \<open>None\<close> is a replacement that does not end. The
  lengths that are cached in a derivation when a message shows it are not carried along.
\<close>

section \<open>Messages\<close>

definition lcfgresource_build_message :: "LCFGResource option \<Rightarrow> cstr \<Rightarrow> string \<Rightarrow> string" where
  "lcfgresource_build_message res component msg_base =
     (let type_as_str = (case res of
            None \<Rightarrow> None
          | Some r \<Rightarrow>
              if lcfgresource_get_type r \<noteq> LCFG_RESOURCE_TYPE_STRING
              then (case lcfgresource_get_type_as_string r LCFG_OPT_NOTEMPLATES of (n, s) \<Rightarrow> if 0 < n then Some s else None)
              else None);
          res_as_str = (case res of
            None \<Rightarrow> None
          | Some r \<Rightarrow> if lcfgresource_has_name r then map_option snd (lcfgresource_to_spec r component LCFG_OPT_NOVALUE) else None);
          in_component = (case component of None \<Rightarrow> [] | Some c \<Rightarrow> '' in component '' @ in_quotes c);
          msg_mid = ''for '' @ (case type_as_str of None \<Rightarrow> [] | Some t \<Rightarrow> t @ '' '') @ ''resource'' @
            (case res_as_str of None \<Rightarrow> in_component | Some s \<Rightarrow> '' '' @ in_quotes s);
          deriv_as_str = (case res of
            None \<Rightarrow> []
          | Some r \<Rightarrow> if lcfgresource_has_derivation r then fst (lcfgresource_get_derivation_as_string r LCFG_OPT_NONE) else [])
      in msg_base @ '' '' @ msg_mid @ (if deriv_as_str \<noteq> [] then '' at '' @ deriv_as_str else []))"

section \<open>Names of variables\<close>

definition LCFG_RESOURCE_ENV_VAL_PFX :: string where "LCFG_RESOURCE_ENV_VAL_PFX = ''LCFG_%s_''"
definition LCFG_RESOURCE_ENV_TYPE_PFX :: string where "LCFG_RESOURCE_ENV_TYPE_PFX = ''LCFGTYPE_%s_''"
definition LCFG_RESOURCE_ENV_PHOLDER :: string where "LCFG_RESOURCE_ENV_PHOLDER = ''%s''"

definition lcfgresource_build_env_var :: "cstr \<Rightarrow> cstr \<Rightarrow> string \<Rightarrow> cstr \<Rightarrow> string option" where
  "lcfgresource_build_env_var resname compname default_base base0 = do {
     let base1 = (case base0 of None \<Rightarrow> default_base | Some b \<Rightarrow> b);
     base \<leftarrow> (if compname \<noteq> None \<and> strstr base1 LCFG_RESOURCE_ENV_PHOLDER \<noteq> None
             then lcfgutils_string_replace base1 LCFG_RESOURCE_ENV_PHOLDER compname else Some base1);
     Some (base @ or_default resname [])
   }"

definition lcfgresource_valid_env_var :: "string \<Rightarrow> bool" where
  "lcfgresource_valid_env_var name \<longleftrightarrow>
     name \<noteq> [] \<and>
     (isalpha (cur name) \<or> cur name = CHR ''_'' \<and> tl name \<noteq> []) \<and>
     list_all (\<lambda>c. isalnum c \<or> c = CHR ''_'') (tl name) \<and>
     (isalpha (cur name) \<or> list_ex isalnum (tl name))"

definition built_from :: "string \<Rightarrow> cstr \<Rightarrow> string" where
  "built_from default_pfx pfx =
     ''Failed to build environment variable name from '' @ in_quotes (case pfx of None \<Rightarrow> default_pfx | Some p \<Rightarrow> p)"

definition bad_variable :: "string \<Rightarrow> string" where
  "bad_variable key = ''Invalid environment variable name '' @ in_quotes key"

text \<open>The message, or the name of a variable that can be set.\<close>

definition checked_env_var ::
    "LCFGResource \<Rightarrow> cstr \<Rightarrow> string \<Rightarrow> cstr \<Rightarrow> (string + string) option" where
  "checked_env_var res compname default_pfx pfx = do {
     env_key \<leftarrow> lcfgresource_build_env_var (res_name res) compname default_pfx pfx;
     Some (if env_key = [] then Inl (lcfgresource_build_message (Some res) compname (built_from default_pfx pfx))
           else if \<not> lcfgresource_valid_env_var env_key
           then Inl (lcfgresource_build_message (Some res) compname (bad_variable env_key))
           else Inr env_key)
   }"

section \<open>The environment\<close>

type_synonym environment = "string \<Rightarrow> cstr"

text \<open>The type that is set from the environment, or the message.\<close>

definition type_from_env :: "environment \<Rightarrow> LCFGResource \<Rightarrow> cstr \<Rightarrow> string \<Rightarrow> (string + LCFGResource) option" where
  "type_from_env env res compname env_key =
     (case env env_key of
        None \<Rightarrow> Some (Inr res)
      | Some type \<Rightarrow>
          if type = [] then Some (Inr res)
          else do {
            (ok, res', type_msg) \<leftarrow> lcfgresource_set_type_as_string res (Some type);
            Some (if ok then Inr res'
                  else Inl (lcfgresource_build_message (Some res') compname
                    (''Invalid type '' @ in_quotes type @ '': '' @ (case type_msg of None \<Rightarrow> ''(null)'' | Some m \<Rightarrow> m))))
          })"

definition value_from_env :: "environment \<Rightarrow> LCFGResource \<Rightarrow> cstr \<Rightarrow> bits \<Rightarrow> string \<Rightarrow> string + LCFGResource" where
  "value_from_env env res compname options env_key =
     (case (if env env_key = None \<and> has_bit options LCFG_OPT_ALLOW_NOEXIST then Some [] else env env_key) of
        None \<Rightarrow> Inl (lcfgresource_build_message (Some res) compname ''Could not find value in environment'')
      | Some v \<Rightarrow>
          (case lcfgresource_set_value res (Some v) of
             (True, res') \<Rightarrow> Inr res'
           | (False, res') \<Rightarrow> Inl (lcfgresource_build_message (Some res') None (''Invalid value '' @ in_quotes v))))"

text \<open>The message, with the status \<open>LCFG_STATUS_ERROR\<close>, or the resource.\<close>

definition lcfgresource_from_env ::
    "environment \<Rightarrow> string \<Rightarrow> cstr \<Rightarrow> cstr \<Rightarrow> cstr \<Rightarrow> bits \<Rightarrow> (string + LCFGResource) option" where
  "lcfgresource_from_env env name compname val_pfx type_pfx options =
     (case lcfgresource_set_name lcfgresource_new (Some name) of
        (False, res) \<Rightarrow> Some (Inl (lcfgresource_build_message (Some res) compname (''Invalid name '' @ in_quotes name)))
      | (True, res) \<Rightarrow> do {
          type_key \<leftarrow> lcfgresource_build_env_var (Some name) compname LCFG_RESOURCE_ENV_TYPE_PFX type_pfx;
          if type_key = []
          then Some (Inl (lcfgresource_build_message (Some res) compname (built_from LCFG_RESOURCE_ENV_TYPE_PFX type_pfx)))
          else do {
            typed \<leftarrow> type_from_env env res compname type_key;
            case typed of
              Inl msg \<Rightarrow> Some (Inl msg)
            | Inr res1 \<Rightarrow> do {
                val_key \<leftarrow> lcfgresource_build_env_var (Some name) compname LCFG_RESOURCE_ENV_VAL_PFX val_pfx;
                Some (if val_key = []
                  then Inl (lcfgresource_build_message (Some res1) compname (built_from LCFG_RESOURCE_ENV_VAL_PFX val_pfx))
                  else value_from_env env res1 compname options val_key)
              }
          }
        })"

text \<open>The status, the environment, and what is printed on the error stream.\<close>

definition lcfgresource_to_env ::
    "environment \<Rightarrow> LCFGResource \<Rightarrow> cstr \<Rightarrow> cstr \<Rightarrow> cstr \<Rightarrow> bits \<Rightarrow> (LCFGStatus \<times> environment \<times> cstr) option" where
  "lcfgresource_to_env env res compname val_pfx type_pfx options =
     (if \<not> lcfgresource_is_valid (Some res) then Some (LCFG_STATUS_ERROR, env, None)
      else do {
        val_key \<leftarrow> checked_env_var res compname LCFG_RESOURCE_ENV_VAL_PFX val_pfx;
        case val_key of
          Inl msg \<Rightarrow> Some (LCFG_STATUS_ERROR, env, Some msg)
        | Inr key \<Rightarrow>
            let env1 = env(key := Some (or_default (res_value res) [])) in
            (case (if has_bit options LCFG_OPT_USE_META then shown_type res else None) of
               None \<Rightarrow> Some (LCFG_STATUS_OK, env1, None)
             | Some type \<Rightarrow>
                 if type = [] then Some (LCFG_STATUS_OK, env1, None)
                 else do {
                   type_key \<leftarrow> checked_env_var res compname LCFG_RESOURCE_ENV_TYPE_PFX type_pfx;
                   Some (case type_key of
                     Inl msg \<Rightarrow> (LCFG_STATUS_ERROR, env1, Some msg)
                   | Inr key2 \<Rightarrow> (LCFG_STATUS_OK, env1(key2 := Some type), None))
                 })
      })"

section \<open>Export\<close>

definition env_fn_name :: string where "env_fn_name = ''export''"

definition escaped :: string where "escaped = [CHR 0x27, CHR 0x22, CHR 0x27, CHR 0x22, CHR 0x27]"

definition esc_len :: "string \<Rightarrow> nat" where
  "esc_len s = length s + sum_list (map (\<lambda>c. if c = CHR 0x27 then length escaped - 1 else 0) s)"

definition esc_text :: "string \<Rightarrow> string" where
  "esc_text s = concat (map (\<lambda>c. if c = CHR 0x27 then escaped else [c]) s)"

definition export_line :: "string \<Rightarrow> string \<Rightarrow> string" where
  "export_line key s = env_fn_name @ '' '' @ key @ [CHR ''='', CHR 0x27] @ esc_text s @ [CHR 0x27, CHR 0x0A]"

definition export_len :: "string \<Rightarrow> nat \<Rightarrow> nat" where
  "export_len key n = length env_fn_name + length key + n + 5"

definition identical_variables :: string where
  "identical_variables = ''Must not have identical environment variables for value and type information''"

text \<open>What is printed on the error stream, or the length that is computed and the text.\<close>

definition lcfgresource_to_export ::
    "LCFGResource \<Rightarrow> cstr \<Rightarrow> cstr \<Rightarrow> cstr \<Rightarrow> bits \<Rightarrow> (cstr + (nat \<times> string)) option" where
  "lcfgresource_to_export res compname val_pfx type_pfx options =
     (if \<not> lcfgresource_is_valid (Some res) then Some (Inl None)
      else do {
        val_var \<leftarrow> checked_env_var res compname LCFG_RESOURCE_ENV_VAL_PFX val_pfx;
        case val_var of
          Inl msg \<Rightarrow> Some (Inl (Some msg))
        | Inr val_key \<Rightarrow>
            let val = or_default (lcfgresource_get_value res) [];
                val_line = export_line val_key val;
                new_len = export_len val_key (esc_len val)
            in (case (if has_bit options LCFG_OPT_USE_META then shown_type res else None) of
                  None \<Rightarrow> Some (Inr (new_len, val_line))
                | Some type \<Rightarrow>
                    if type = [] then Some (Inr (new_len, val_line))
                    else do {
                      type_var \<leftarrow> checked_env_var res compname LCFG_RESOURCE_ENV_TYPE_PFX type_pfx;
                      Some (case type_var of
                        Inl msg \<Rightarrow> Inl (Some msg)
                      | Inr type_key \<Rightarrow>
                          if strcmp val_key type_key = 0
                          then Inl (Some (lcfgresource_build_message (Some res) compname identical_variables))
                          else Inr (new_len + export_len type_key (esc_len type), export_line type_key type @ val_line))
                    })
      })"

section \<open>Names\<close>

lemma placeholder_replaced:
  "lcfgutils_string_replace s LCFG_RESOURCE_ENV_PHOLDER r = Some (replace_ref LCFG_RESOURCE_ENV_PHOLDER (or_default r []) s)"
  unfolding lcfgutils_string_replace_def replace_size_def
  by (subst replace_size_loop_ref, simp add: LCFG_RESOURCE_ENV_PHOLDER_def)
    (simp add: replace_loop_ref LCFG_RESOURCE_ENV_PHOLDER_def)

lemma env_var_total: "lcfgresource_build_env_var n c d b \<noteq> None"
  by (simp add: lcfgresource_build_env_var_def Let_def placeholder_replaced)

section \<open>The round trip\<close>

text \<open>
  C34: a resource that is put into the environment with its type is read from it as a resource
  with the same name, value, type, comment and templates, when its two variables are different,
  the one for the type is not left over from before, and the comment has no closing bracket,
  which would end it.
\<close>

theorem env_roundtrip:
  assumes "lcfgresource_to_env env res compname val_pfx type_pfx options = Some (LCFG_STATUS_OK, env', msg)"
    and "has_bit options LCFG_OPT_USE_META" and "res_ok res" and "res_name res = Some n" and "res_value res = Some v"
    and "CHR '')'' \<notin> set (or_default (res_comment res) [])"
    and "lcfgresource_build_env_var (Some n) compname LCFG_RESOURCE_ENV_TYPE_PFX type_pfx = Some tkey"
    and "lcfgresource_build_env_var (Some n) compname LCFG_RESOURCE_ENV_VAL_PFX val_pfx \<noteq> Some tkey" and "tkey \<noteq> []"
    and "needs_type res \<or> isempty (env tkey)"
  shows "lcfgresource_from_env env' n compname val_pfx type_pfx options2 = Some (Inr
    (lcfgresource_new\<lparr>res_name := Some n, res_type := res_type res, res_value := Some v,
       res_comment := if isempty (res_comment res) then None else res_comment res,
       res_template := if lcfgresource_is_list res then res_template res else []\<rparr>))"
proof -
  have name: "lcfgresource_valid_name (Some n)" using assms(3,4) by (simp add: res_ok_def)
  have val: "lcfgresource_valid_value_for_type (res_type res) (Some v)"
    using assms(3,5) by (simp add: res_ok_def lcfgresource_valid_value_def lcfgresource_get_type_def)
  obtain vkey where vkey: "lcfgresource_build_env_var (Some n) compname LCFG_RESOURCE_ENV_VAL_PFX val_pfx = Some vkey"
    using env_var_total by blast
  let ?t = "type_text res LCFG_OPT_NONE"
  have t: "?t \<noteq> []" by (cases "res_type res") (simp_all add: type_text_def Let_def)
  note shown = type_text_shown [OF assms(3) no_templates_none]
  have type: "shown_type res = (if needs_type res then Some ?t else None)" using shown t by (simp add: shown_type_def)
  have env': "env' = (if needs_type res then (env(vkey := Some v))(tkey := Some ?t) else env(vkey := Some v))" "vkey \<noteq> []"
    using assms(1,2,4,5,7) vkey type t
    by (auto simp: lcfgresource_to_env_def checked_env_var_def Let_def split: if_splits bind_splits sum.splits)
  let ?r = "lcfgresource_new\<lparr>res_name := Some n\<rparr>"
  let ?r2 = "?r\<lparr>res_type := res_type res, res_comment := if isempty (res_comment res) then None else res_comment res,
       res_template := if lcfgresource_is_list res then res_template res else []\<rparr>"
  have typed: "type_from_env env' ?r compname tkey = Some (Inr ?r2)"
  proof (cases "needs_type res")
    case True
    then have "env' tkey = Some ?t" using env'(1) by simp
    with t type_text_read [OF assms(3,6), of ?r LCFG_OPT_NONE] show ?thesis
      by (simp add: type_from_env_def lcfgresource_new_def)
  next
    case False
    then have "isempty (env' tkey)" using env' assms(8,10) vkey by auto
    moreover have "?r2 = ?r" using False
      by (auto simp: needs_type_def lcfgresource_get_type_def lcfgresource_has_comment_def lcfgresource_is_list_def
        lcfgresource_new_def LCFG_RESOURCE_DEFAULT_TYPE_def)
    ultimately show ?thesis by (cases "env' tkey") (auto simp: type_from_env_def)
  qed
  have "value_from_env env' ?r2 compname options2 vkey = Inr (?r2\<lparr>res_value := Some v\<rparr>)"
    using env' assms(8) vkey val by (auto simp: value_from_env_def lcfgresource_set_value_def)
  with typed vkey env'(2) assms(7,9) name show ?thesis
    by (simp add: lcfgresource_from_env_def lcfgresource_set_name_def)
qed

lemma env_roundtrip_witness:
  "\<exists>env' msg. lcfgresource_to_env (\<lambda>_. None)
      (lcfgresource_new\<lparr>res_name := Some ''x'', res_type := LCFG_RESOURCE_TYPE_BOOLEAN, res_value := Some ''yes''\<rparr>)
      (Some ''c'') (Some ''V_'') (Some ''T_'') LCFG_OPT_USE_META = Some (LCFG_STATUS_OK, env', msg) \<and>
    lcfgresource_from_env env' ''x'' (Some ''c'') (Some ''V_'') (Some ''T_'') LCFG_OPT_NONE =
      Some (Inr (lcfgresource_new\<lparr>res_name := Some ''x'', res_type := LCFG_RESOURCE_TYPE_BOOLEAN, res_value := Some ''yes''\<rparr>))"
proof -
  let ?r = "lcfgresource_new\<lparr>res_name := Some ''x'', res_type := LCFG_RESOURCE_TYPE_BOOLEAN, res_value := Some ''yes''\<rparr>"
  let ?to = "lcfgresource_to_env (\<lambda>_. None) ?r (Some ''c'') (Some ''V_'') (Some ''T_'') LCFG_OPT_USE_META"
  have ok: "res_ok ?r"
    by (simp add: res_ok_def lcfgresource_new_def lcfgresource_valid_name_def lcfg_chr byte_def
        lcfgresource_valid_value_def lcfgresource_get_type_def lcfgresource_valid_boolean_def strcmp_def)
  have keys: "lcfgresource_build_env_var (Some ''x'') (Some ''c'') d (Some ''V_'') = Some ''V_x''"
      "lcfgresource_build_env_var (Some ''x'') (Some ''c'') d (Some ''T_'') = Some ''T_x''" for d
    by (simp_all add: lcfgresource_build_env_var_def LCFG_RESOURCE_ENV_PHOLDER_def starts_with_def)
  have valid: "lcfgresource_valid_env_var ''V_x''" "lcfgresource_valid_env_var ''T_x''" by code_simp+
  have type: "needs_type ?r" "shown_type ?r = Some ''boolean''" by code_simp+
  have "has_bit LCFG_OPT_USE_META LCFG_OPT_USE_META" by (simp add: lcfg_flag)
  with keys valid type have to_env: "?to = Some (LCFG_STATUS_OK, (Map.empty(''V_x'' := Some ''yes''))(''T_x'' := Some ''boolean''), None)"
    by (simp add: lcfgresource_to_env_def checked_env_var_def lcfgresource_is_valid_def)
  from env_roundtrip [OF to_env _ ok, of "''x''" "''yes''" "''T_x''" LCFG_OPT_NONE] keys type(1) to_env show ?thesis
    by (simp add: lcfgresource_new_def lcfg_flag lcfgresource_is_list_def lcfgresource_get_type_def)
qed

text \<open>Unlike an export, this does not refuse one variable for both: the type replaces the value.\<close>

lemma same_variable_replaced:
  "\<exists>env'. lcfgresource_to_env (\<lambda>_. None)
      (lcfgresource_new\<lparr>res_name := Some ''x'', res_type := LCFG_RESOURCE_TYPE_BOOLEAN, res_value := Some ''yes''\<rparr>)
      None (Some ''V_'') (Some ''V_'') LCFG_OPT_USE_META = Some (LCFG_STATUS_OK, env', None) \<and> env' ''V_x'' = Some ''boolean''"
proof -
  let ?r = "lcfgresource_new\<lparr>res_name := Some ''x'', res_type := LCFG_RESOURCE_TYPE_BOOLEAN, res_value := Some ''yes''\<rparr>"
  have "lcfgresource_build_env_var (Some ''x'') None d (Some ''V_'') = Some ''V_x''" for d
    by (simp add: lcfgresource_build_env_var_def)
  moreover have "lcfgresource_valid_env_var ''V_x''" "needs_type ?r" "shown_type ?r = Some ''boolean''" by code_simp+
  moreover have "has_bit LCFG_OPT_USE_META LCFG_OPT_USE_META" by (simp add: lcfg_flag)
  ultimately show ?thesis
    by (simp add: lcfgresource_to_env_def checked_env_var_def lcfgresource_is_valid_def)
qed

section \<open>The shell\<close>

text \<open>A reference: how a shell reads a word of bare, single in_quotes and double in_quotes parts.\<close>

datatype quoting = BARE | SINGLE | DOUBLE

fun sh_read :: "quoting \<Rightarrow> string \<Rightarrow> string option" where
  "sh_read q [] = (if q = BARE then Some [] else None)"
| "sh_read BARE (c # s) =
     (if c = CHR 0x27 then sh_read SINGLE s else if c = CHR 0x22 then sh_read DOUBLE s
      else if isword c then map_option ((#) c) (sh_read BARE s) else None)"
| "sh_read SINGLE (c # s) = (if c = CHR 0x27 then sh_read BARE s else map_option ((#) c) (sh_read SINGLE s))"
| "sh_read DOUBLE (c # s) =
     (if c = CHR 0x22 then sh_read BARE s else if c \<in> {CHR ''$'', CHR ''`'', CHR 0x5C} then None
      else map_option ((#) c) (sh_read DOUBLE s))"

lemma sh_read_escaped: "sh_read SINGLE (esc_text s @ r) = map_option ((@) s) (sh_read SINGLE r)"
  by (induction s) (auto simp: esc_text_def escaped_def option.map_comp comp_def option.map_ident)

definition sh_quote :: "string \<Rightarrow> string" where "sh_quote s = [CHR 0x27] @ esc_text s @ [CHR 0x27]"

lemma sh_read_quote: "sh_read BARE (sh_quote s) = Some s"
  by (simp add: sh_quote_def sh_read_escaped)

lemma esc_text_length: "length (esc_text s) = esc_len s"
  by (induction s) (simp_all add: esc_text_def esc_len_def escaped_def)

lemma export_line_length: "length (export_line key s) = export_len key (esc_len s)"
  by (simp add: export_line_def export_len_def esc_text_length)

text \<open>A line that a shell reads as setting a variable to a text.\<close>

definition sets_variable :: "string \<Rightarrow> string \<Rightarrow> string \<Rightarrow> bool" where
  "sets_variable line key s \<longleftrightarrow>
     (\<exists>word. line = ''export '' @ key @ ''='' @ word @ [CHR 0x0A] \<and> sh_read BARE word = Some s)"

lemma export_line_sets: "sets_variable (export_line key s) key s"
  unfolding sets_variable_def
  by (intro exI [of _ "sh_quote s"] conjI sh_read_quote) (simp add: sh_quote_def export_line_def env_fn_name_def)

text \<open>
  C35: what is exported for a resource is as long as computed for the buffer, and consists of a
  line that a shell reads as setting the variable of the value to the value, whatever quotes it
  has, after one for the variable of the type where that is asked for and there is a type to show.
\<close>

theorem export_sets_variables:
  assumes "lcfgresource_to_export res compname val_pfx type_pfx options = Some (Inr (n, s))"
  shows "n = length s \<and> (\<exists>vkey tkey tline vline. s = tline @ vline \<and>
    lcfgresource_build_env_var (res_name res) compname LCFG_RESOURCE_ENV_VAL_PFX val_pfx = Some vkey \<and>
    lcfgresource_valid_env_var vkey \<and> sets_variable vline vkey (or_default (res_value res) []) \<and>
    (case (if has_bit options LCFG_OPT_USE_META then shown_type res else None) of
       None \<Rightarrow> tline = []
     | Some t \<Rightarrow> if t = [] then tline = []
         else lcfgresource_build_env_var (res_name res) compname LCFG_RESOURCE_ENV_TYPE_PFX type_pfx = Some tkey \<and>
              lcfgresource_valid_env_var tkey \<and> tkey \<noteq> vkey \<and> sets_variable tline tkey t))"
proof -
  obtain vkey where v: "lcfgresource_build_env_var (res_name res) compname LCFG_RESOURCE_ENV_VAL_PFX val_pfx = Some vkey"
    using env_var_total by blast
  obtain tkey where t: "lcfgresource_build_env_var (res_name res) compname LCFG_RESOURCE_ENV_TYPE_PFX type_pfx = Some tkey"
    using env_var_total by blast
  let ?type = "if has_bit options LCFG_OPT_USE_META then shown_type res else None"
  let ?val = "or_default (res_value res) []"
  have valid: "lcfgresource_valid_env_var vkey"
    using assms v by (auto simp: lcfgresource_to_export_def checked_env_var_def split: if_splits sum.splits)
  show ?thesis
  proof (cases "?type = None \<or> ?type = Some []")
    case True
    with assms v valid have "s = export_line vkey ?val" "n = export_len vkey (esc_len ?val)"
      by (auto simp: lcfgresource_to_export_def checked_env_var_def Let_def lcfgresource_get_value_def split: if_splits sum.splits)
    with True v valid export_line_sets export_line_length show ?thesis
      by (intro conjI exI [of _ vkey] exI [of _ "[]"] exI [of _ "export_line vkey ?val"]) auto
  next
    case False
    then obtain ty where ty: "?type = Some ty" "ty \<noteq> []" by auto
    with assms v t have "s = export_line tkey ty @ export_line vkey ?val" "lcfgresource_valid_env_var tkey"
      "n = export_len vkey (esc_len ?val) + export_len tkey (esc_len ty)" "strcmp vkey tkey \<noteq> 0"
      by (auto simp: lcfgresource_to_export_def checked_env_var_def Let_def lcfgresource_get_value_def
          split: if_splits sum.splits)
    moreover from this(4) have "tkey \<noteq> vkey" by auto
    ultimately show ?thesis using ty v t valid export_line_sets
      by (intro conjI exI [of _ vkey] exI [of _ tkey] exI [of _ "export_line tkey ty"] exI [of _ "export_line vkey ?val"])
        (auto simp: export_line_length)
  qed
qed

lemma export_sets_variables_witness:
  "\<exists>n s tline vline. lcfgresource_to_export (lcfgresource_new\<lparr>res_name := Some ''x'', res_value := Some [CHR 0x27]\<rparr>)
      (Some ''c'') (Some ''V_'') (Some ''T_'') LCFG_OPT_NONE = Some (Inr (n, s)) \<and> n = length s \<and>
    s = tline @ vline \<and> tline = [] \<and> sets_variable vline ''V_x'' [CHR 0x27]"
proof -
  let ?r = "lcfgresource_new\<lparr>res_name := Some ''x'', res_value := Some [CHR 0x27]\<rparr>"
  have key: "lcfgresource_build_env_var (Some ''x'') (Some ''c'') d (Some ''V_'') = Some ''V_x''" for d
    by (simp add: lcfgresource_build_env_var_def LCFG_RESOURCE_ENV_PHOLDER_def starts_with_def)
  have valid: "lcfgresource_valid_env_var ''V_x''" by code_simp
  have none: "\<not> has_bit LCFG_OPT_NONE LCFG_OPT_USE_META" by (simp add: lcfg_flag)
  with key valid obtain n s where
    e: "lcfgresource_to_export ?r (Some ''c'') (Some ''V_'') (Some ''T_'') LCFG_OPT_NONE = Some (Inr (n, s))"
    by (simp add: lcfgresource_to_export_def checked_env_var_def lcfgresource_is_valid_def Let_def)
  from export_sets_variables [OF e] key none e show ?thesis by auto
qed

end
