(* ===== verification/Lcfg_Reslist.thy ===== *)
theory Lcfg_Reslist
  imports Lcfg_Resource_Env
begin

text \<open>
  Lists of resources (\<open>resources/components/reslist.c\<close>), the buckets of components. Resources
  are counted and shared by lists, and lists are counted and shared by components, so both live
  in a memory from addresses; an address is defined until what it holds has been destroyed. A
  result \<open>None\<close> is a read through a freed pointer.
\<close>

section \<open>The memory\<close>

record LCFGResourceList = "nat slist" +
  rl_primary_key :: bits
  rl_merge_rules :: bits
  rl_refcount :: nat

record res_mem =
  rm_res :: "nat \<rightharpoonup> LCFGResource"
  rm_lists :: "nat \<rightharpoonup> LCFGResourceList"
  rm_free :: nat

definition LCFG_COMP_PK_NAME :: bits where [lcfg_flag]: "LCFG_COMP_PK_NAME = 1"
definition LCFG_COMP_PK_CTX :: bits where [lcfg_flag]: "LCFG_COMP_PK_CTX = 2"
definition LCFG_OPT_ALL_PRIORITIES :: bits where [lcfg_flag]: "LCFG_OPT_ALL_PRIORITIES = 256"
definition LCFG_OPT_ALL_VALUES :: bits where [lcfg_flag]: "LCFG_OPT_ALL_VALUES = 1024"

definition put_res :: "nat \<Rightarrow> LCFGResource option \<Rightarrow> res_mem \<Rightarrow> res_mem" where
  "put_res p r m = m\<lparr>rm_res := (rm_res m)(p := r)\<rparr>"

definition put_list :: "nat \<Rightarrow> LCFGResourceList option \<Rightarrow> res_mem \<Rightarrow> res_mem" where
  "put_list a l m = m\<lparr>rm_lists := (rm_lists m)(a := l)\<rparr>"

text \<open>Changing what is stored at an address.\<close>

definition on_res :: "(LCFGResource \<Rightarrow> LCFGResource option) \<Rightarrow> nat \<Rightarrow> res_mem \<Rightarrow> res_mem option" where
  "on_res f p m = map_option (\<lambda>r. put_res p (f r) m) (rm_res m p)"

definition on_list :: "(LCFGResourceList \<Rightarrow> LCFGResourceList) \<Rightarrow> nat \<Rightarrow> res_mem \<Rightarrow> res_mem option" where
  "on_list f a m = map_option (\<lambda>l. put_list a (Some (f l)) m) (rm_lists m a)"

definition acquire_res :: "nat \<Rightarrow> res_mem \<Rightarrow> res_mem option" where
  "acquire_res = on_res (\<lambda>r. Some (lcfgresource_acquire r))"

definition relinquish_res :: "nat \<Rightarrow> res_mem \<Rightarrow> res_mem option" where
  "relinquish_res = on_res (\<lambda>r. lcfgresource_relinquish (Some r))"

text \<open>A new resource, and a new list.\<close>

definition alloc_res :: "LCFGResource \<Rightarrow> res_mem \<Rightarrow> nat \<times> res_mem" where
  "alloc_res r m = (rm_free m, put_res (rm_free m) (Some r) m\<lparr>rm_free := rm_free m + 1\<rparr>)"

definition alloc_list :: "LCFGResourceList \<Rightarrow> res_mem \<Rightarrow> nat \<times> res_mem" where
  "alloc_list l m = (rm_free m, put_list (rm_free m) (Some l) m\<lparr>rm_free := rm_free m + 1\<rparr>)"

section \<open>Lists\<close>

definition reslist_init :: LCFGResourceList where
  "reslist_init = \<lparr>nodes = [], list_size = 0, rl_primary_key = LCFG_COMP_PK_NAME,
     rl_merge_rules = LCFG_MERGE_RULE_NONE, rl_refcount = 1\<rparr>"

definition lcfgreslist_new :: "res_mem \<Rightarrow> nat \<times> res_mem" where
  "lcfgreslist_new = alloc_list reslist_init"

definition lcfgreslist_acquire :: "nat \<Rightarrow> res_mem \<Rightarrow> res_mem option" where
  "lcfgreslist_acquire = on_list (\<lambda>l. l\<lparr>rl_refcount := rl_refcount l + 1\<rparr>)"

definition lcfgreslist_is_empty :: "res_mem \<Rightarrow> nat option \<Rightarrow> bool option" where
  "lcfgreslist_is_empty m a =
     (case a of None \<Rightarrow> Some True | Some a \<Rightarrow> map_option lcfgslist_is_empty (rm_lists m a))"

definition lcfgreslist_is_shared :: "res_mem \<Rightarrow> nat \<Rightarrow> bool option" where
  "lcfgreslist_is_shared m a = map_option (\<lambda>l. 1 < rl_refcount l) (rm_lists m a)"

definition lcfgreslist_set_merge_rules :: "nat \<Rightarrow> bits \<Rightarrow> res_mem \<Rightarrow> (bool \<times> res_mem) option" where
  "lcfgreslist_set_merge_rules a new_rules m =
     map_option (Pair True) (on_list (\<lambda>l. l\<lparr>rl_merge_rules := new_rules\<rparr>) a m)"

definition lcfgreslist_insert_next ::
    "nat \<Rightarrow> nat option \<Rightarrow> nat \<Rightarrow> res_mem \<Rightarrow> (LCFGChange \<times> res_mem) option" where
  "lcfgreslist_insert_next a node item m = do {
     m1 \<leftarrow> acquire_res item m;
     l \<leftarrow> rm_lists m1 a;
     (case lcfgslist_insert_next (\<lambda>_. True) l node item of
        (change, l') \<Rightarrow> Some (change, put_list a (Some l') m1))
   }"

definition lcfgreslist_append :: "nat \<Rightarrow> nat \<Rightarrow> res_mem \<Rightarrow> (LCFGChange \<times> res_mem) option" where
  "lcfgreslist_append a item m = do {
     l \<leftarrow> rm_lists m a;
     lcfgreslist_insert_next a (lcfgslist_tail l) item m
   }"

definition lcfgreslist_remove_next ::
    "nat \<Rightarrow> nat option \<Rightarrow> res_mem \<Rightarrow> (LCFGChange \<times> nat option \<times> res_mem) option" where
  "lcfgreslist_remove_next a node m = do {
     l \<leftarrow> rm_lists m a;
     (case lcfgslist_remove_next l node of
        (change, l', item) \<Rightarrow> Some (change, item, put_list a (Some l') m))
   }"

text \<open>Destroying a list relinquishes its resources from the head.\<close>

fun relinquish_all :: "nat list \<Rightarrow> res_mem \<Rightarrow> res_mem option" where
  "relinquish_all [] m = Some m"
| "relinquish_all (p # ps) m = do { m1 \<leftarrow> relinquish_res p m; relinquish_all ps m1 }"

definition lcfgreslist_destroy :: "nat \<Rightarrow> res_mem \<Rightarrow> res_mem option" where
  "lcfgreslist_destroy a m = do {
     l \<leftarrow> rm_lists m a;
     m1 \<leftarrow> relinquish_all (take (list_size l) (nodes l)) m;
     Some (put_list a None m1)
   }"

definition lcfgreslist_relinquish :: "nat option \<Rightarrow> res_mem \<Rightarrow> res_mem option" where
  "lcfgreslist_relinquish list m =
     (case list of
        None \<Rightarrow> Some m
      | Some a \<Rightarrow> do {
          l \<leftarrow> rm_lists m a;
          let l' = (if 0 < rl_refcount l then l\<lparr>rl_refcount := rl_refcount l - 1\<rparr> else l);
          let m1 = put_list a (Some l') m;
          if rl_refcount l' = 0 then lcfgreslist_destroy a m1 else Some m1
        })"

fun res_clone_loop :: "nat list \<Rightarrow> nat \<Rightarrow> LCFGChange \<Rightarrow> res_mem \<Rightarrow> (LCFGChange \<times> res_mem) option" where
  "res_clone_loop [] clone change m = Some (change, m)"
| "res_clone_loop (p # ps) clone change m =
     (if \<not> LCFGChangeOK change then Some (change, m)
      else do {
        (change', m') \<leftarrow> lcfgreslist_append clone p m;
        res_clone_loop ps clone change' m'
      })"

definition lcfgreslist_clone :: "nat \<Rightarrow> res_mem \<Rightarrow> (nat option \<times> res_mem) option" where
  "lcfgreslist_clone a m = do {
     l \<leftarrow> rm_lists m a;
     let (clone, m1) = alloc_list (reslist_init\<lparr>rl_merge_rules := rl_merge_rules l, rl_primary_key := rl_primary_key l\<rparr>) m;
     (change, m2) \<leftarrow> res_clone_loop (nodes l) clone LCFG_CHANGE_NONE m1;
     if LCFGChangeError change then map_option (Pair None) (lcfgreslist_relinquish (Some clone) m2)
     else Some (Some clone, m2)
   }"

definition first_resource :: "LCFGResourceList \<Rightarrow> nat option" where
  "first_resource l = (case nodes l of [] \<Rightarrow> None | p # _ \<Rightarrow> Some p)"

definition lcfgreslist_first_resource :: "res_mem \<Rightarrow> nat \<Rightarrow> nat option option" where
  "lcfgreslist_first_resource m a = map_option first_resource (rm_lists m a)"

definition lcfgreslist_get_name :: "res_mem \<Rightarrow> nat \<Rightarrow> cstr option" where
  "lcfgreslist_get_name m a = do {
     first \<leftarrow> lcfgreslist_first_resource m a;
     (case first of None \<Rightarrow> Some None | Some p \<Rightarrow> map_option lcfgresource_get_name (rm_res m p))
   }"

section \<open>Merging\<close>

definition same_res_key :: "bits \<Rightarrow> LCFGResource \<Rightarrow> LCFGResource \<Rightarrow> bool" where
  "same_res_key primary_key res new_res \<longleftrightarrow>
     lcfgresource_same_name res new_res \<and>
     (\<not> has_bit primary_key LCFG_COMP_PK_CTX \<or> lcfgresource_same_context res new_res)"

text \<open>The search: the index of the node found.\<close>

fun merge_find :: "res_mem \<Rightarrow> bits \<Rightarrow> nat list \<Rightarrow> nat \<Rightarrow> LCFGResource \<Rightarrow> nat option option" where
  "merge_find m primary_key [] i new_res = Some None"
| "merge_find m primary_key (p # ps) i new_res = do {
     res \<leftarrow> rm_res m p;
     if same_res_key primary_key res new_res then Some (Some i) else merge_find m primary_key ps (i + 1) new_res
   }"

text \<open>What is to be done: remove the old resource, append the new one, accept.\<close>

definition res_merge_plan :: "bits \<Rightarrow> (nat \<times> LCFGResource) option \<Rightarrow> nat \<Rightarrow> LCFGResource \<Rightarrow> bool \<times> bool \<times> bool" where
  "res_merge_plan merge_rules found_res new_p new_res =
     (case found_res of
        None \<Rightarrow> (False, True, True)
      | Some (cur_p, cur_res) \<Rightarrow>
          if cur_p = new_p then (False, False, True)
          else if has_bit merge_rules LCFG_MERGE_RULE_SQUASH_IDENTICAL \<and> lcfgresource_equals cur_res new_res
          then (True, True, True)
          else if has_bit merge_rules LCFG_MERGE_RULE_KEEP_ALL then (False, True, True)
          else if has_bit merge_rules LCFG_MERGE_RULE_REPLACE then (True, True, True)
          else if has_bit merge_rules LCFG_MERGE_RULE_USE_PRIORITY then
            (let priority = lcfgresource_get_priority new_res;
                 opriority = lcfgresource_get_priority cur_res
             in if opriority < priority then (True, True, True)
                else if priority < opriority then (False, False, True)
                else (False, False, False))
          else (False, False, False))"

text \<open>The removal of the old resource at a node, and the result code.\<close>

definition remove_old :: "nat \<Rightarrow> nat \<Rightarrow> cstr \<Rightarrow> res_mem \<Rightarrow> (LCFGChange \<times> cstr \<times> res_mem) option" where
  "remove_old a i msg m = do {
     (remove_rc, old_res, m1) \<leftarrow> lcfgreslist_remove_next a (prev_of i) m;
     if remove_rc = LCFG_CHANGE_REMOVED then do {
       m2 \<leftarrow> (case old_res of None \<Rightarrow> Some m1 | Some p \<Rightarrow> relinquish_res p m1);
       Some (LCFG_CHANGE_REMOVED, msg, m2)
     } else Some (LCFG_CHANGE_ERROR, Some ''Failed to remove old resource'', m1)
   }"

definition append_new :: "nat \<Rightarrow> nat \<Rightarrow> LCFGChange \<Rightarrow> cstr \<Rightarrow> res_mem \<Rightarrow> (LCFGChange \<times> cstr \<times> res_mem) option" where
  "append_new a new_p result msg m = do {
     (append_rc, m1) \<leftarrow> lcfgreslist_append a new_p m;
     Some (if append_rc = LCFG_CHANGE_ADDED
           then (if result = LCFG_CHANGE_REMOVED then LCFG_CHANGE_REPLACED else LCFG_CHANGE_ADDED, msg, m1)
           else (LCFG_CHANGE_ERROR, Some ''Failed to append new resource'', m1))
   }"

definition lcfgreslist_merge_resource ::
    "nat \<Rightarrow> nat \<Rightarrow> cstr \<Rightarrow> res_mem \<Rightarrow> (LCFGChange \<times> cstr \<times> res_mem) option" where
  "lcfgreslist_merge_resource a new_p msg m = do {
     new_res \<leftarrow> rm_res m new_p;
     if \<not> lcfgresource_is_valid (Some new_res) then Some (LCFG_CHANGE_ERROR, Some ''Resource is invalid'', m)
     else do {
       l \<leftarrow> rm_lists m a;
       found \<leftarrow> merge_find m (rl_primary_key l) (nodes l) 0 new_res;
       found_res \<leftarrow> (case found of
                None \<Rightarrow> Some None
              | Some i \<Rightarrow> map_option (\<lambda>r. Some (nodes l ! i, r)) (rm_res m (nodes l ! i)));
       (case res_merge_plan (rl_merge_rules l) found_res new_p new_res of (to_remove, to_append, accept) \<Rightarrow>
          if accept then do {
            (result, msg1, m1) \<leftarrow> (case found of
                Some i \<Rightarrow> if to_remove then remove_old a i msg m else Some (LCFG_CHANGE_NONE, msg, m)
              | None \<Rightarrow> Some (LCFG_CHANGE_NONE, msg, m));
            if to_append \<and> LCFGChangeOK result then append_new a new_p result msg1 m1
            else Some (result, msg1, m1)
          } else Some (LCFG_CHANGE_ERROR,
                   if msg = None then Some (lcfgresource_build_message (map_option snd found_res) None ''conflict'') else msg, m))
     }
   }"

fun merge_nodes :: "nat \<Rightarrow> nat list \<Rightarrow> LCFGChange \<Rightarrow> cstr \<Rightarrow> res_mem \<Rightarrow> (LCFGChange \<times> cstr \<times> res_mem) option" where
  "merge_nodes a [] change msg m = Some (change, msg, m)"
| "merge_nodes a (p # ps) change msg m =
     (if \<not> LCFGChangeOK change then Some (change, msg, m)
      else do {
        (merge_rc, msg', m') \<leftarrow> lcfgreslist_merge_resource a p msg m;
        merge_nodes a ps (if LCFGChangeError merge_rc then merge_rc
                          else if merge_rc \<noteq> LCFG_CHANGE_NONE then LCFG_CHANGE_MODIFIED else change) msg' m'
      })"

text \<open>The second list is not changed while it is read, since a component never merges a list into itself.\<close>

definition lcfgreslist_merge_list :: "nat \<Rightarrow> nat \<Rightarrow> cstr \<Rightarrow> res_mem \<Rightarrow> (LCFGChange \<times> cstr \<times> res_mem) option" where
  "lcfgreslist_merge_list a b msg m = do {
     l2 \<leftarrow> rm_lists m b;
     merge_nodes a (nodes l2) LCFG_CHANGE_NONE msg m
   }"

section \<open>Sorting and printing\<close>

definition priority_at :: "res_mem \<Rightarrow> nat \<Rightarrow> int" where
  "priority_at m p = (case rm_res m p of None \<Rightarrow> 0 | Some r \<Rightarrow> res_priority r)"

definition lcfgreslist_sort_by_priority :: "nat \<Rightarrow> res_mem \<Rightarrow> res_mem option" where
  "lcfgreslist_sort_by_priority a m = do {
     l \<leftarrow> rm_lists m a;
     if list_size l < 2 then Some m
     else if \<not> list_all (\<lambda>p. rm_res m p \<noteq> None) (nodes l) then None
     else do {
       ps \<leftarrow> bubble_loop (\<lambda>p q. priority_at m p < priority_at m q) (nodes l);
       Some (put_list a (Some (l\<lparr>nodes := ps\<rparr>)) m)
     }
   }"

text \<open>Whether all was printed, and what was printed.\<close>

fun res_print_loop ::
    "nat list \<Rightarrow> cstr \<Rightarrow> LCFGResourceStyle \<Rightarrow> bits \<Rightarrow> res_mem \<Rightarrow> (bool \<times> string \<times> res_mem) option" where
  "res_print_loop [] compname style options m = Some (True, [], m)"
| "res_print_loop (p # ps) compname style options m = do {
     res \<leftarrow> rm_res m p;
     let (ok, s, m') = (if has_bit options LCFG_OPT_ALL_VALUES \<or> lcfgresource_has_value res
        then (case lcfgresource_to_string res compname style options of
                None \<Rightarrow> (False, [], m)
              | Some (rc, s, res') \<Rightarrow> if rc < 0 then (False, [], put_res p (Some res') m) else (True, s, put_res p (Some res') m))
        else (True, [], m));
     if \<not> ok \<or> \<not> has_bit options LCFG_OPT_ALL_PRIORITIES then Some (ok, s, m')
     else do {
       (ok', s', m'') \<leftarrow> res_print_loop ps compname style options m';
       Some (ok', s @ s', m'')
     }
   }"

definition lcfgreslist_print ::
    "nat option \<Rightarrow> cstr \<Rightarrow> LCFGResourceStyle \<Rightarrow> bits \<Rightarrow> res_mem \<Rightarrow> (bool \<times> string \<times> res_mem) option" where
  "lcfgreslist_print list compname style options m = do {
     empty \<leftarrow> lcfgreslist_is_empty m list;
     (case list of
        None \<Rightarrow> Some (True, [], m)
      | Some a \<Rightarrow>
          if empty then Some (True, [], m)
          else do { l \<leftarrow> rm_lists m a; res_print_loop (nodes l) compname style (options OR LCFG_OPT_NEWLINE) m })
   }"

section \<open>References\<close>

text \<open>
  The invariant of a memory, for the references \<open>K\<close> to lists and \<open>P\<close> to resources that are held
  outside of it (by components, and by callers): every count is that of the references there are.
\<close>

definition nodes_at :: "res_mem \<Rightarrow> nat \<Rightarrow> nat list" where
  "nodes_at m a = (case rm_lists m a of None \<Rightarrow> [] | Some l \<Rightarrow> nodes l)"

definition res_held :: "res_mem \<Rightarrow> nat \<Rightarrow> nat" where
  "res_held m p = (\<Sum>a\<in>dom (rm_lists m). count (mset (nodes_at m a)) p)"

definition res_refs :: "res_mem \<Rightarrow> nat \<Rightarrow> nat" where
  "res_refs m p = (case rm_res m p of None \<Rightarrow> 0 | Some r \<Rightarrow> res_refcount r)"

definition list_refs :: "res_mem \<Rightarrow> nat \<Rightarrow> nat" where
  "list_refs m a = (case rm_lists m a of None \<Rightarrow> 0 | Some l \<Rightarrow> rl_refcount l)"

definition res_mem_ok :: "(nat \<Rightarrow> nat) \<Rightarrow> (nat \<Rightarrow> nat) \<Rightarrow> res_mem \<Rightarrow> bool" where
  "res_mem_ok K P m \<longleftrightarrow> finite (dom (rm_lists m)) \<and>
     (\<forall>a l. rm_lists m a = Some l \<longrightarrow> a < rm_free m \<and> slist_ok l \<and> 0 < rl_refcount l) \<and>
     (\<forall>p r. rm_res m p = Some r \<longrightarrow> p < rm_free m \<and> 0 < res_refcount r) \<and>
     (\<forall>p. res_held m p + P p = res_refs m p) \<and> (\<forall>a. K a = list_refs m a)"

text \<open>The contents of resources stay as they are, other than their counts, until they are destroyed.\<close>

definition content :: "LCFGResource \<Rightarrow> LCFGResource" where
  "content r = r\<lparr>res_refcount := 0\<rparr>"

definition evolves :: "res_mem \<Rightarrow> res_mem \<Rightarrow> bool" where
  "evolves m m' \<longleftrightarrow> rm_free m \<le> rm_free m' \<and>
     (\<forall>p<rm_free m. rm_res m' p = None \<or> map_option content (rm_res m' p) = map_option content (rm_res m p))"

lemma evolves_refl [simp]: "evolves m m"
  by (simp add: evolves_def)

lemma evolves_trans [trans]: "evolves m1 m2 \<Longrightarrow> evolves m2 m3 \<Longrightarrow> evolves m1 m3"
  unfolding evolves_def by (metis (no_types, lifting) less_le_trans map_option_is_None order_trans)

lemma rm_put [simp]:
  "rm_res (put_res p r m) = (rm_res m)(p := r)" "rm_lists (put_res p r m) = rm_lists m" "rm_free (put_res p r m) = rm_free m"
  "rm_lists (put_list a l m) = (rm_lists m)(a := l)" "rm_res (put_list a l m) = rm_res m" "rm_free (put_list a l m) = rm_free m"
  by (simp_all add: put_res_def put_list_def)

lemma nodes_at_put [simp]:
  "nodes_at (put_res p r m) = nodes_at m" "nodes_at (put_list a (Some l) m) = (nodes_at m)(a := nodes l)"
  "nodes_at (put_list a None m) = (nodes_at m)(a := [])"
  "list_refs (put_res p r m) = list_refs m" "res_refs (put_list a l' m) = res_refs m"
  by (auto simp: nodes_at_def list_refs_def res_refs_def fun_eq_iff)

lemma res_held_put_res [simp]: "res_held (put_res p r m) = res_held m"
  by (simp add: res_held_def fun_eq_iff)

lemma res_held_put_list:
  assumes "finite (dom (rm_lists m))"
  shows "res_held (put_list a l m) p + count (mset (nodes_at m a)) p =
    res_held m p + (case l of None \<Rightarrow> 0 | Some l \<Rightarrow> count (mset (nodes l)) p)"
proof -
  let ?D = "dom (rm_lists m) - {a}"
  let ?f = "\<lambda>m b. count (mset (nodes_at m b)) p"
  have fin: "finite ?D" using assms by simp
  have rest: "sum (?f (put_list a l m)) ?D = sum (?f m) ?D"
    by (rule sum.cong) (auto simp: nodes_at_def)
  have old: "res_held m p = sum (?f m) ?D + ?f m a"
  proof (cases "rm_lists m a")
    case None
    then have "?D = dom (rm_lists m)" "nodes_at m a = []" by (auto simp: nodes_at_def)
    then show ?thesis by (simp add: res_held_def)
  next
    case (Some k)
    then have "dom (rm_lists m) = insert a ?D" by auto
    then show ?thesis unfolding res_held_def using sum.insert [OF fin, of a "?f m"] by simp
  qed
  have new: "res_held (put_list a l m) p = sum (?f (put_list a l m)) ?D + (case l of None \<Rightarrow> 0 | Some l \<Rightarrow> count (mset (nodes l)) p)"
  proof (cases l)
    case None
    then have "dom (rm_lists (put_list a l m)) = ?D" by auto
    with None show ?thesis by (simp add: res_held_def)
  next
    case (Some k)
    then have "dom (rm_lists (put_list a l m)) = insert a ?D" by auto
    with Some show ?thesis unfolding res_held_def using sum.insert [OF fin, of a "?f (put_list a l m)"] by simp
  qed
  show ?thesis using old new rest by simp
qed

lemma res_held_node: "finite (dom (rm_lists m)) \<Longrightarrow> p \<in> set (nodes_at m a) \<Longrightarrow> 0 < res_held m p"
proof -
  assume fin: "finite (dom (rm_lists m))" and p: "p \<in> set (nodes_at m a)"
  then have a: "a \<in> dom (rm_lists m)" by (cases "rm_lists m a") (auto simp: nodes_at_def)
  have "0 < count (mset (nodes_at m a)) p" using p by (metis count_greater_zero_iff set_mset_mset)
  also have "\<dots> \<le> res_held m p" unfolding res_held_def using member_le_sum [OF a, of "\<lambda>a. count (mset (nodes_at m a)) p"] fin by simp
  finally show ?thesis .
qed

lemma res_mem_okD:
  assumes "res_mem_ok K P m"
  shows "finite (dom (rm_lists m))" "rm_lists m a = Some l \<Longrightarrow> a < rm_free m \<and> slist_ok l \<and> 0 < rl_refcount l"
    "rm_res m p = Some r \<Longrightarrow> p < rm_free m \<and> 0 < res_refcount r" "res_held m p + P p = res_refs m p" "K a = list_refs m a"
  using assms unfolding res_mem_ok_def by blast+

lemma node_defined:
  assumes "res_mem_ok K P m" and "p \<in> set (nodes_at m a)"
  shows "\<exists>r. rm_res m p = Some r \<and> p < rm_free m"
proof -
  have "0 < res_refs m p" using res_held_node [OF res_mem_okD(1) [OF assms(1)] assms(2)] res_mem_okD(4) [OF assms(1), of p] by simp
  then show ?thesis using res_mem_okD(3) [OF assms(1)] by (auto simp: res_refs_def split: option.splits)
qed

section \<open>What the operations do to the memory\<close>

lemma put_res_ok:
  assumes "res_mem_ok K P m" and "rm_res m p = Some r" and "\<And>x. r' = Some x \<Longrightarrow> 0 < res_refcount x \<and> content x = content r"
    and "res_held m p + P' p = (case r' of None \<Rightarrow> 0 | Some x \<Rightarrow> res_refcount x)" and "\<And>q. q \<noteq> p \<Longrightarrow> P' q = P q"
  shows "res_mem_ok K P' (put_res p r' m)" and "evolves m (put_res p r' m)"
proof -
  have "res_held m q + P' q = res_refs (put_res p r' m) q" for q
  proof (cases "q = p")
    case True
    with assms(4) show ?thesis by (simp add: res_refs_def split: option.splits)
  next
    case False
    with res_mem_okD(4) [OF assms(1), of q] assms(5) [OF False] show ?thesis by (simp add: res_refs_def)
  qed
  then show "res_mem_ok K P' (put_res p r' m)"
    using res_mem_okD(1-3,5) [OF assms(1)] assms(2,3) by (auto simp: res_mem_ok_def)
  show "evolves m (put_res p r' m)" using assms(2,3) by (cases r') (auto simp: evolves_def)
qed

lemma acquire_res_ok:
  assumes "res_mem_ok K P m" and "rm_res m p = Some r"
  defines "m' \<equiv> put_res p (Some (lcfgresource_acquire r)) m"
  shows "acquire_res p m = Some m'" and "res_mem_ok K (P(p := P p + 1)) m'" and "evolves m m'"
proof -
  show "acquire_res p m = Some m'" using assms(2) by (simp add: acquire_res_def on_res_def m'_def)
  have ge: "res_held m p + P p = res_refcount r" using res_mem_okD(4) [OF assms(1), of p] assms(2) by (simp add: res_refs_def)
  note p = put_res_ok [OF assms(1,2), of "Some (lcfgresource_acquire r)" "P(p := P p + 1)"]
  show "res_mem_ok K (P(p := P p + 1)) m'" "evolves m m'"
    unfolding m'_def by (rule p; use ge in \<open>simp add: lcfgresource_acquire_def content_def\<close>)+
qed

lemma relinquish_res_ok:
  assumes "res_mem_ok K P m" and "0 < P p"
  shows "\<exists>r'. relinquish_res p m = Some (put_res p r' m) \<and> res_mem_ok K (P(p := P p - 1)) (put_res p r' m) \<and>
    evolves m (put_res p r' m)"
proof -
  have ge: "res_held m p + P p = res_refs m p" by (rule res_mem_okD(4) [OF assms(1)])
  then obtain r where r: "rm_res m p = Some r" "res_held m p + P p = res_refcount r"
    using assms(2) by (cases "rm_res m p") (auto simp: res_refs_def)
  let ?r' = "lcfgresource_relinquish (Some r)"
  have r': "?r' = (if res_refcount r = 1 then None else Some (r\<lparr>res_refcount := res_refcount r - 1\<rparr>))"
    using r(2) assms(2) by (auto simp: lcfgresource_relinquish_def Let_def)
  have "res_mem_ok K (P(p := P p - 1)) (put_res p ?r' m)" "evolves m (put_res p ?r' m)"
    by (rule put_res_ok [OF assms(1) r(1), of _ "P(p := P p - 1)"]; use r(2) assms(2) in \<open>auto simp: r' content_def split: if_splits\<close>)+
  moreover have "relinquish_res p m = Some (put_res p ?r' m)" using r(1) by (simp add: relinquish_res_def on_res_def)
  ultimately show ?thesis by blast
qed

text \<open>Another sequence of nodes in a list, with the references moved to or from the outside.\<close>

lemma put_nodes_ok:
  assumes "res_mem_ok K P m" and "rm_lists m a = Some l" and "slist_ok l'" and "rl_refcount l' = rl_refcount l"
    and "\<And>p. count (mset (nodes l')) p + P' p = count (mset (nodes l)) p + P p"
  shows "res_mem_ok K P' (put_list a (Some l') m)"
proof -
  have "res_held (put_list a (Some l') m) p + P' p = res_refs m p" for p
  proof -
    have "res_held (put_list a (Some l') m) p + count (mset (nodes l)) p = res_held m p + count (mset (nodes l')) p"
      using res_held_put_list [OF res_mem_okD(1) [OF assms(1)], of a "Some l'" p] assms(2) by (simp add: nodes_at_def)
    then show ?thesis using assms(5) [of p] res_mem_okD(4) [OF assms(1), of p] by linarith
  qed
  moreover have "list_refs (put_list a (Some l') m) = list_refs m"
    using assms(2,4) by (auto simp: list_refs_def fun_eq_iff)
  ultimately show ?thesis
    using res_mem_okD(1-3,5) [OF assms(1)] assms(2-4) by (auto simp: res_mem_ok_def)
qed

section \<open>Merging a resource into a list\<close>

text \<open>The first node with the key of the new resource.\<close>

definition key_node :: "res_mem \<Rightarrow> bits \<Rightarrow> nat list \<Rightarrow> LCFGResource \<Rightarrow> nat option" where
  "key_node m pk ps new_res = first_node (\<lambda>p. case rm_res m p of None \<Rightarrow> False | Some r \<Rightarrow> same_res_key pk r new_res) ps"

lemma merge_find_first:
  "\<forall>p\<in>set ps. rm_res m p \<noteq> None \<Longrightarrow> merge_find m pk ps i new_res = Some (map_option ((+) i) (key_node m pk ps new_res))"
proof (induction ps arbitrary: i)
  case (Cons p ps)
  then obtain r where "rm_res m p = Some r" by auto
  with Cons show ?case
    by (cases "first_node (\<lambda>p. case rm_res m p of None \<Rightarrow> False | Some r \<Rightarrow> same_res_key pk r new_res) ps") (auto simp: key_node_def)
qed (simp add: key_node_def)

text \<open>The nodes after a merge that is accepted, and its result code.\<close>

definition merged_nodes :: "nat list \<Rightarrow> nat option \<Rightarrow> bool \<times> bool \<times> bool \<Rightarrow> nat \<Rightarrow> nat list" where
  "merged_nodes ps found plan p =
     (case plan of (remove, add, accept) \<Rightarrow>
        (case found of Some i \<Rightarrow> if remove then take i ps @ drop (Suc i) ps else ps | None \<Rightarrow> ps) @ (if add then [p] else []))"

definition merge_code :: "nat option \<Rightarrow> bool \<times> bool \<times> bool \<Rightarrow> LCFGChange" where
  "merge_code found plan =
     (case plan of (remove, add, accept) \<Rightarrow>
        if \<not> accept then LCFG_CHANGE_ERROR
        else if remove \<and> found \<noteq> None then (if add then LCFG_CHANGE_REPLACED else LCFG_CHANGE_REMOVED)
        else if add then LCFG_CHANGE_ADDED else LCFG_CHANGE_NONE)"

definition plan_for :: "res_mem \<Rightarrow> LCFGResourceList \<Rightarrow> nat \<Rightarrow> LCFGResource \<Rightarrow> nat option \<times> bool \<times> bool \<times> bool" where
  "plan_for m l p new_res =
     (let found = key_node m (rl_primary_key l) (nodes l) new_res
      in (found, res_merge_plan (rl_merge_rules l) (map_option (\<lambda>i. (nodes l ! i, the (rm_res m (nodes l ! i)))) found) p new_res))"

text \<open>Appending a resource, with a reference of its own.\<close>

lemma append_ok:
  assumes "res_mem_ok K P m" and "rm_lists m a = Some l" and "rm_res m p = Some r"
  defines "m' \<equiv> put_list a (Some (l\<lparr>nodes := nodes l @ [p], list_size := list_size l + 1\<rparr>)) (put_res p (Some (lcfgresource_acquire r)) m)"
  shows "lcfgreslist_append a p m = Some (LCFG_CHANGE_ADDED, m')" and "res_mem_ok K P m'" and "evolves m m'"
proof -
  note acq = acquire_res_ok [OF assms(1,3)]
  have "lcfgslist_insert_next (\<lambda>_. True) l (lcfgslist_tail l) p =
      (LCFG_CHANGE_ADDED, l\<lparr>nodes := nodes l @ [p], list_size := list_size l + 1\<rparr>)"
    using lcfgslist_append_simp [of "\<lambda>_. True" l p] by (simp add: lcfgslist_append_def)
  with assms(2) acq(1) show "lcfgreslist_append a p m = Some (LCFG_CHANGE_ADDED, m')"
    by (simp add: lcfgreslist_append_def lcfgreslist_insert_next_def m'_def)
  have l: "slist_ok l" using res_mem_okD(2) [OF assms(1,2)] by simp
  show "res_mem_ok K P m'" unfolding m'_def
    by (rule put_nodes_ok [OF acq(2)]) (use assms(2) l in \<open>auto simp: slist_ok_def\<close>)
  show "evolves m m'" using acq(3) by (simp add: evolves_def m'_def)
qed

text \<open>Removing the node at an index gives its reference to the caller, who gives it back.\<close>

lemma remove_old_ok:
  assumes "res_mem_ok K P m" and "rm_lists m a = Some l" and "i < length (nodes l)"
  shows "\<exists>m'. remove_old a i msg m = Some (LCFG_CHANGE_REMOVED, msg, m') \<and> res_mem_ok K P m' \<and> evolves m m' \<and>
    rm_free m' = rm_free m \<and> (\<forall>q. q \<noteq> nodes l ! i \<longrightarrow> rm_res m' q = rm_res m q) \<and>
    rm_lists m' = (rm_lists m)(a \<mapsto> l\<lparr>nodes := take i (nodes l) @ drop (Suc i) (nodes l), list_size := list_size l - 1\<rparr>)"
proof -
  let ?p = "nodes l ! i"
  let ?l = "l\<lparr>nodes := take i (nodes l) @ drop (Suc i) (nodes l), list_size := list_size l - 1\<rparr>"
  have ok: "slist_ok l" using res_mem_okD(2) [OF assms(1,2)] by simp
  note removed = lcfgslist_remove_at [OF ok assms(3)]
  have split: "nodes l = take i (nodes l) @ ?p # drop (Suc i) (nodes l)" by (rule id_take_nth_drop [OF assms(3)])
  have "mset (nodes l) = add_mset ?p (mset (take i (nodes l) @ drop (Suc i) (nodes l)))"
    by (subst split) simp
  then have count: "count (mset (nodes ?l)) q + (P(?p := P ?p + 1)) q = count (mset (nodes l)) q + P q" for q by simp
  have "slist_ok ?l" using ok assms(3) by (auto simp: slist_ok_def min_def)
  from put_nodes_ok [OF assms(1,2) this, of "P(?p := P ?p + 1)"] count
  have m1: "res_mem_ok K (P(?p := P ?p + 1)) (put_list a (Some ?l) m)" by simp
  from relinquish_res_ok [OF m1, of ?p] obtain r' where
    r': "relinquish_res ?p (put_list a (Some ?l) m) = Some (put_res ?p r' (put_list a (Some ?l) m))"
      "res_mem_ok K P (put_res ?p r' (put_list a (Some ?l) m))"
      "evolves (put_list a (Some ?l) m) (put_res ?p r' (put_list a (Some ?l) m))" by auto
  let ?m = "put_res ?p r' (put_list a (Some ?l) m)"
  have "remove_old a i msg m = Some (LCFG_CHANGE_REMOVED, msg, ?m)"
    using assms(2) removed r'(1) by (simp add: remove_old_def lcfgreslist_remove_next_def)
  moreover have "evolves m ?m" using r'(3) by (simp add: evolves_def)
  ultimately show ?thesis using r'(2) by (intro exI [of _ ?m]) simp
qed

text \<open>The whole merge: the list has the nodes of the plan, and nothing else has changed.\<close>

lemma merge_plan_removes:
  "res_merge_plan rules found_res p r = (remove, add, accept) \<Longrightarrow>
    (remove \<longrightarrow> add \<and> accept \<and> (\<exists>q x. found_res = Some (q, x) \<and> q \<noteq> p)) \<and> (add \<longrightarrow> accept)"
  by (auto simp: res_merge_plan_def Let_def split: option.splits prod.splits if_splits)

lemma put_same_list: "rm_lists m a = Some l \<Longrightarrow> slist_ok l \<Longrightarrow>
    rm_lists m = (rm_lists m)(a \<mapsto> l\<lparr>nodes := nodes l, list_size := length (nodes l)\<rparr>)"
  by (auto simp: slist_ok_def fun_eq_iff)

lemma merge_resource_result:
  assumes ok: "res_mem_ok K P m" and l: "rm_lists m a = Some l" and r: "rm_res m p = Some r"
    and valid: "lcfgresource_is_valid (Some r)" and plan: "plan_for m l p r = (found, plan)"
  shows "\<exists>msg' m'. lcfgreslist_merge_resource a p msg m = Some (merge_code found plan, msg', m') \<and>
    res_mem_ok K P m' \<and> evolves m m' \<and> rm_free m' = rm_free m \<and>
    (let ns = merged_nodes (nodes l) found plan p
     in rm_lists m' = (rm_lists m)(a \<mapsto> l\<lparr>nodes := ns, list_size := length ns\<rparr>))"
proof -
  obtain remove add accept where p3: "plan = (remove, add, accept)" by (cases plan) auto
  have sl: "slist_ok l" using res_mem_okD(2) [OF ok l] by simp
  then have size: "list_size l = length (nodes l)" by (simp add: slist_ok_def)
  have nodes: "\<forall>q\<in>set (nodes l). rm_res m q \<noteq> None"
    using node_defined [OF ok, of _ a] l by (force simp: nodes_at_def)
  have found: "merge_find m (rl_primary_key l) (nodes l) 0 r = Some found"
    using merge_find_first [OF nodes, of "rl_primary_key l" 0 r] plan by (cases "key_node m (rl_primary_key l) (nodes l) r") (auto simp: plan_for_def Let_def)
  define fr where "fr = map_option (\<lambda>i. (nodes l ! i, the (rm_res m (nodes l ! i)))) found"
  have mp: "res_merge_plan (rl_merge_rules l) fr p r = (remove, add, accept)"
    using plan p3 by (auto simp: plan_for_def Let_def fr_def)
  note rem = merge_plan_removes [OF mp]
  have bound: "i < length (nodes l)" if "found = Some i" for i
    using plan that first_node_SomeD by (auto simp: plan_for_def Let_def key_node_def)
  have fr': "(case found of None \<Rightarrow> Some None
              | Some i \<Rightarrow> map_option (\<lambda>r. Some (nodes l ! i, r)) (rm_res m (nodes l ! i))) = Some fr"
  proof (cases found)
    case (Some i)
    with bound nodes obtain x where "rm_res m (nodes l ! i) = Some x" by (metis nth_mem option.exhaust)
    with Some show ?thesis by (simp add: fr_def)
  qed (simp add: fr_def)
  have run: "lcfgreslist_merge_resource a p msg m =
      (if accept then do {
         (result, msg1, m1) \<leftarrow> (case found of
             Some i \<Rightarrow> if remove then remove_old a i msg m else Some (LCFG_CHANGE_NONE, msg, m)
           | None \<Rightarrow> Some (LCFG_CHANGE_NONE, msg, m));
         if add \<and> LCFGChangeOK result then append_new a p result msg1 m1 else Some (result, msg1, m1)
       } else Some (LCFG_CHANGE_ERROR,
         if msg = None then Some (lcfgresource_build_message (map_option snd fr) None ''conflict'') else msg, m))"
    by (simp add: lcfgreslist_merge_resource_def r valid l found fr' mp)
  consider (remove) i where "remove" "found = Some i" "add" "accept" "nodes l ! i \<noteq> p" | (add) "\<not> remove" "add" "accept"
    | (none) "\<not> remove" "\<not> add"
    using rem by (cases found) (auto simp: fr_def)
  then show ?thesis
  proof cases
    case remove
    let ?ns = "take i (nodes l) @ drop (Suc i) (nodes l)"
    from remove_old_ok [OF ok l bound [OF remove(2)], of msg] obtain m1 where m1:
      "remove_old a i msg m = Some (LCFG_CHANGE_REMOVED, msg, m1)" "res_mem_ok K P m1" "evolves m m1" "rm_free m1 = rm_free m"
      "\<forall>q. q \<noteq> nodes l ! i \<longrightarrow> rm_res m1 q = rm_res m q"
      "rm_lists m1 = (rm_lists m)(a \<mapsto> l\<lparr>nodes := ?ns, list_size := list_size l - 1\<rparr>)" by blast
    have r1: "rm_res m1 p = Some r" using m1(5) remove(5) r by simp
    have l1: "rm_lists m1 a = Some (l\<lparr>nodes := ?ns, list_size := list_size l - 1\<rparr>)" using m1(6) by simp
    note app = append_ok [OF m1(2) l1 r1]
    have "LCFGChangeOK LCFG_CHANGE_REMOVED" by (simp add: LCFGChangeOK_def)
    with app(1) remove m1(1) show ?thesis
      by (simp add: run append_new_def merge_code_def merged_nodes_def p3)
        (use app(2,3) m1 size bound [OF remove(2)] in \<open>auto intro: evolves_trans\<close>)
  next
    case add
    note app = append_ok [OF ok l r]
    have "LCFGChangeOK LCFG_CHANGE_NONE" by (simp add: LCFGChangeOK_def)
    with app(1) add show ?thesis
      by (cases found) (use app(2,3) size in \<open>simp_all add: run append_new_def merge_code_def merged_nodes_def p3\<close>)
  next
    case none
    have same: "rm_lists m = (rm_lists m)(a \<mapsto> l\<lparr>nodes := nodes l, list_size := length (nodes l)\<rparr>)"
      by (rule put_same_list [OF l sl])
    show ?thesis
      using none same ok by (cases found; cases accept) (simp_all add: run merge_code_def merged_nodes_def p3 LCFGChangeOK_def)
  qed
qed

lemma merge_resource_invalid:
  assumes "rm_res m p = Some r" and "\<not> lcfgresource_is_valid (Some r)"
  shows "lcfgreslist_merge_resource a p msg m = Some (LCFG_CHANGE_ERROR, Some ''Resource is invalid'', m)"
  using assms by (simp add: lcfgreslist_merge_resource_def)

section \<open>References to lists\<close>

text \<open>Lists that are the same up to their counts, and the lists that callers hold.\<close>

definition list_content :: "LCFGResourceList \<Rightarrow> LCFGResourceList" where
  "list_content l = l\<lparr>rl_refcount := 0\<rparr>"

definition same_lists :: "nat set \<Rightarrow> res_mem \<Rightarrow> res_mem \<Rightarrow> bool" where
  "same_lists A m m' \<longleftrightarrow> (\<forall>a\<in>A. map_option list_content (rm_lists m' a) = map_option list_content (rm_lists m a))"

lemma same_lists_refl [simp]: "same_lists A m m"
  by (simp add: same_lists_def)

lemma same_lists_trans: "same_lists A m1 m2 \<Longrightarrow> same_lists A m2 m3 \<Longrightarrow> same_lists A m1 m3"
  by (simp add: same_lists_def)

lemma list_content_eq:
  "list_content l = list_content l' \<Longrightarrow> nodes l = nodes l' \<and> list_size l = list_size l' \<and>
    rl_primary_key l = rl_primary_key l' \<and> rl_merge_rules l = rl_merge_rules l'"
  by (cases l; cases l') (simp add: list_content_def)

lemma same_listsD:
  assumes "same_lists A m m'" and "a \<in> A"
  shows "nodes_at m' a = nodes_at m a" and "rm_lists m' a = None \<longleftrightarrow> rm_lists m a = None"
proof -
  from assms have "map_option list_content (rm_lists m' a) = map_option list_content (rm_lists m a)"
    by (simp add: same_lists_def)
  then show "nodes_at m' a = nodes_at m a" and "rm_lists m' a = None \<longleftrightarrow> rm_lists m a = None"
    by (cases "rm_lists m a"; cases "rm_lists m' a"; auto simp: nodes_at_def dest: list_content_eq)+
qed

lemma list_defined: "res_mem_ok K P m \<Longrightarrow> 0 < K a \<Longrightarrow> \<exists>l. rm_lists m a = Some l \<and> slist_ok l \<and> K a = rl_refcount l \<and> 0 < rl_refcount l"
  using res_mem_okD(5) [of K P m a] res_mem_okD(2) [of K P m a] by (auto simp: list_refs_def split: option.splits)

lemma fresh_claim: "res_mem_ok K P m \<Longrightarrow> rm_free m \<le> a \<Longrightarrow> K a = 0 \<and> rm_lists m a = None"
  using list_defined [of K P m a] res_mem_okD(2) [of K P m a] by (cases "rm_lists m a") force+

text \<open>Another count of a list.\<close>

lemma put_refs_ok:
  assumes "res_mem_ok K P m" and "rm_lists m a = Some l" and "0 < n" and "K' a = n" and "\<And>b. b \<noteq> a \<Longrightarrow> K' b = K b"
  shows "res_mem_ok K' P (put_list a (Some (l\<lparr>rl_refcount := n\<rparr>)) m)"
proof -
  let ?l = "l\<lparr>rl_refcount := n\<rparr>"
  have "res_held (put_list a (Some ?l) m) p = res_held m p" for p
    using res_held_put_list [OF res_mem_okD(1) [OF assms(1)], of a "Some ?l" p] assms(2) by (simp add: nodes_at_def)
  moreover have "slist_ok ?l" using res_mem_okD(2) [OF assms(1,2)] by (simp add: slist_ok_def)
  moreover have "K' b = list_refs (put_list a (Some ?l) m) b" for b
    using res_mem_okD(5) [OF assms(1), of b] assms(4,5) by (cases "b = a") (auto simp: list_refs_def)
  ultimately show ?thesis
    using res_mem_okD(1-4) [OF assms(1)] assms(2,3) by (auto simp: res_mem_ok_def)
qed

lemma acquire_list_ok:
  assumes "res_mem_ok K P m" and "rm_lists m a = Some l"
  defines "m' \<equiv> put_list a (Some (l\<lparr>rl_refcount := rl_refcount l + 1\<rparr>)) m"
  shows "lcfgreslist_acquire a m = Some m'" and "res_mem_ok (K(a := K a + 1)) P m'"
proof -
  show "lcfgreslist_acquire a m = Some m'" using assms(2) by (simp add: lcfgreslist_acquire_def on_list_def m'_def)
  have "K a = rl_refcount l" using res_mem_okD(5) [OF assms(1), of a] assms(2) by (simp add: list_refs_def)
  then show "res_mem_ok (K(a := K a + 1)) P m'" unfolding m'_def
    by (intro put_refs_ok [OF assms(1,2)]) auto
qed

lemma relinquish_all_ok:
  assumes "res_mem_ok K P m" and "\<And>p. count (mset ps) p \<le> P p"
  shows "\<exists>m'. relinquish_all ps m = Some m' \<and> res_mem_ok K (\<lambda>p. P p - count (mset ps) p) m' \<and> evolves m m' \<and>
    rm_lists m' = rm_lists m \<and> rm_free m' = rm_free m"
  using assms
proof (induction ps arbitrary: P m)
  case (Cons p ps)
  have "0 < P p" using Cons.prems(2) [of p] by simp
  from relinquish_res_ok [OF Cons.prems(1) this] obtain r' where
    r': "relinquish_res p m = Some (put_res p r' m)" "res_mem_ok K (P(p := P p - 1)) (put_res p r' m)" "evolves m (put_res p r' m)"
    by blast
  have "count (mset ps) q \<le> (P(p := P p - 1)) q" for q using Cons.prems(2) [of q] by (cases "q = p") auto
  from Cons.IH [OF r'(2) this] obtain m' where m': "relinquish_all ps (put_res p r' m) = Some m'"
    "res_mem_ok K (\<lambda>q. (P(p := P p - 1)) q - count (mset ps) q) m'" "evolves (put_res p r' m) m'"
    "rm_lists m' = rm_lists m" "rm_free m' = rm_free m" by auto
  have "(\<lambda>q. (P(p := P p - 1)) q - count (mset ps) q) = (\<lambda>q. P q - count (mset (p # ps)) q)" by auto
  with m' r' show ?case by (auto intro: evolves_trans)
qed simp

lemma relinquish_all_put: "relinquish_all ps (put_list a x m) = map_option (put_list a x) (relinquish_all ps m)"
proof (induction ps arbitrary: m)
  case (Cons p ps)
  have "relinquish_res p (put_list a x m) = map_option (put_list a x) (relinquish_res p m)"
    by (cases "rm_res m p") (simp_all add: relinquish_res_def on_res_def put_res_def put_list_def)
  with Cons show ?case by (cases "relinquish_res p m") auto
qed simp

text \<open>A reference to a list is given back: the list is destroyed with the last one, and its resources are relinquished.\<close>

lemma drop_list_ok:
  assumes "res_mem_ok K P m" and "rm_lists m a = Some l" and "K' a = 0" and "\<And>b. b \<noteq> a \<Longrightarrow> K' b = K b"
  shows "res_mem_ok K' (\<lambda>p. P p + count (mset (nodes l)) p) (put_list a None m)"
proof -
  have "res_held (put_list a None m) p + (P p + count (mset (nodes l)) p) = res_refs (put_list a None m) p" for p
    using res_held_put_list [OF res_mem_okD(1) [OF assms(1)], of a None p] assms(2) res_mem_okD(4) [OF assms(1), of p]
    by (simp add: nodes_at_def)
  moreover have "K' b = list_refs (put_list a None m) b" for b
    using res_mem_okD(5) [OF assms(1), of b] assms(3,4) by (cases "b = a") (auto simp: list_refs_def)
  ultimately show ?thesis using res_mem_okD(1-3) [OF assms(1)] by (auto simp: res_mem_ok_def)
qed

lemma relinquish_list_ok:
  assumes ok: "res_mem_ok K P m" and "0 < K a" and l: "rm_lists m a = Some l"
  shows "\<exists>m'. lcfgreslist_relinquish (Some a) m = Some m' \<and> res_mem_ok (K(a := K a - 1)) P m' \<and> evolves m m' \<and>
    rm_free m' = rm_free m \<and>
    rm_lists m' = (rm_lists m)(a := if rl_refcount l = 1 then None else Some (l\<lparr>rl_refcount := rl_refcount l - 1\<rparr>))"
proof -
  have ge: "K a = rl_refcount l" "0 < rl_refcount l" using list_defined [OF ok assms(2)] l by auto
  show ?thesis
  proof (cases "rl_refcount l = 1")
    case False
    let ?m = "put_list a (Some (l\<lparr>rl_refcount := rl_refcount l - 1\<rparr>)) m"
    have "res_mem_ok (K(a := K a - 1)) P ?m" by (rule put_refs_ok [OF ok l]) (use False ge in auto)
    moreover have "lcfgreslist_relinquish (Some a) m = Some ?m" using l False ge by (simp add: lcfgreslist_relinquish_def Let_def)
    moreover have "evolves m ?m" by (simp add: evolves_def)
    ultimately show ?thesis using False by (intro exI [of _ ?m]) simp
  next
    case True
    then have K: "K a = 1" using ge assms(2) by simp
    have sl: "list_size l = length (nodes l)" using res_mem_okD(2) [OF ok l] by (simp add: slist_ok_def)
    have "res_mem_ok (K(a := 0)) (\<lambda>p. P p + count (mset (nodes l)) p) (put_list a None m)"
      by (rule drop_list_ok [OF ok l]) auto
    from relinquish_all_ok [OF this, of "nodes l"] obtain m' where m': "relinquish_all (nodes l) (put_list a None m) = Some m'"
      "res_mem_ok (K(a := 0)) P m'" "evolves (put_list a None m) m'" "rm_lists m' = (rm_lists m)(a := None)" "rm_free m' = rm_free m" by auto
    then obtain m0 where m0: "relinquish_all (nodes l) m = Some m0" "m' = put_list a None m0"
      by (auto simp: relinquish_all_put)
    have "lcfgreslist_relinquish (Some a) m = Some m'"
      using l True sl m0 by (simp add: lcfgreslist_relinquish_def Let_def lcfgreslist_destroy_def relinquish_all_put)
    moreover have "evolves m m'" using m'(3) by (simp add: evolves_def)
    ultimately show ?thesis using m' K True by (intro exI [of _ m']) simp
  qed
qed

text \<open>A new list, and a clone.\<close>

lemma res_held_lists: "rm_lists m = rm_lists m' \<Longrightarrow> res_held m p = res_held m' p"
  by (simp add: res_held_def nodes_at_def)

lemma alloc_list_ok:
  assumes "res_mem_ok K P m" and "nodes l = []" and "list_size l = 0" and "rl_refcount l = 1"
  defines "m' \<equiv> snd (alloc_list l m)"
  shows "alloc_list l m = (rm_free m, m')" and "res_mem_ok (K(rm_free m := 1)) P m'" and "evolves m m'"
    and "rm_lists m' = (rm_lists m)(rm_free m \<mapsto> l)" and "rm_res m' = rm_res m" and "rm_free m' = rm_free m + 1"
proof -
  show new: "alloc_list l m = (rm_free m, m')" "rm_lists m' = (rm_lists m)(rm_free m \<mapsto> l)" "rm_res m' = rm_res m" "rm_free m' = rm_free m + 1"
    by (simp_all add: m'_def alloc_list_def)
  then show "evolves m m'" by (simp add: evolves_def)
  note fresh = fresh_claim [OF assms(1), of "rm_free m"]
  have "res_held m' p = res_held (put_list (rm_free m) (Some l) m) p" for p
    by (rule res_held_lists) (simp add: new)
  then have "res_held m' p = res_held m p" for p
    using res_held_put_list [OF res_mem_okD(1) [OF assms(1)], of "rm_free m" "Some l" p] assms(2) fresh by (simp add: nodes_at_def)
  moreover have "res_refs m' = res_refs m" using new by (simp add: res_refs_def fun_eq_iff)
  moreover have "(K(rm_free m := 1)) b = list_refs m' b" for b
    using res_mem_okD(5) [OF assms(1), of b] new(2) assms(4) by (auto simp: list_refs_def)
  ultimately show "res_mem_ok (K(rm_free m := 1)) P m'"
    using res_mem_okD [OF assms(1)] new assms(2-4) by (fastforce simp: res_mem_ok_def slist_ok_def less_Suc_eq split: if_splits)
qed


lemma clone_loop_ok:
  assumes "res_mem_ok K P m" and "rm_lists m a = Some l" and "\<forall>p\<in>set ps. rm_res m p \<noteq> None" and "LCFGChangeOK change"
  shows "\<exists>ch m'. res_clone_loop ps a change m = Some (ch, m') \<and> LCFGChangeOK ch \<and> res_mem_ok K P m' \<and> evolves m m' \<and>
    rm_free m' = rm_free m \<and>
    rm_lists m' = (rm_lists m)(a \<mapsto> l\<lparr>nodes := nodes l @ ps, list_size := list_size l + length ps\<rparr>) \<and>
    (\<forall>p. rm_res m' p = None \<longleftrightarrow> rm_res m p = None)"
  using assms
proof (induction ps arbitrary: m l change)
  case Nil
  then show ?case by (simp add: fun_upd_idem)
next
  case (Cons p ps)
  then obtain r where r: "rm_res m p = Some r" by auto
  let ?l = "l\<lparr>nodes := nodes l @ [p], list_size := list_size l + 1\<rparr>"
  let ?m = "put_list a (Some ?l) (put_res p (Some (lcfgresource_acquire r)) m)"
  note app = append_ok [OF Cons.prems(1,2) r]
  have "\<forall>q\<in>set ps. rm_res ?m q \<noteq> None" using Cons.prems(3) by simp
  moreover have "rm_lists ?m a = Some ?l" "LCFGChangeOK LCFG_CHANGE_ADDED" by (simp_all add: LCFGChangeOK_def)
  ultimately obtain ch m' where
    m': "res_clone_loop ps a LCFG_CHANGE_ADDED ?m = Some (ch, m')" "LCFGChangeOK ch" "res_mem_ok K P m'" "evolves ?m m'"
    "rm_free m' = rm_free ?m"
    "rm_lists m' = (rm_lists ?m)(a \<mapsto> ?l\<lparr>nodes := nodes ?l @ ps, list_size := list_size ?l + length ps\<rparr>)"
    "\<forall>q. rm_res m' q = None \<longleftrightarrow> rm_res ?m q = None" using Cons.IH [OF app(2)] by blast
  have "rm_lists m' = (rm_lists m)(a \<mapsto> l\<lparr>nodes := nodes l @ p # ps, list_size := list_size l + length (p # ps)\<rparr>)"
    using m'(6) by (simp add: fun_eq_iff)
  moreover have "\<forall>q. rm_res m' q = None \<longleftrightarrow> rm_res m q = None" using m'(7) r by auto
  moreover have "res_clone_loop (p # ps) a change m = Some (ch, m')" using app(1) m'(1) Cons.prems(4) by simp
  ultimately show ?case using m'(2,3,5) evolves_trans [OF app(3) m'(4)] by (intro exI [of _ ch] exI [of _ m']) simp
qed

lemma clone_list_ok:
  assumes ok: "res_mem_ok K P m" and l: "rm_lists m a = Some l"
  shows "\<exists>m'. lcfgreslist_clone a m = Some (Some (rm_free m), m') \<and> res_mem_ok (K(rm_free m := 1)) P m' \<and> evolves m m' \<and>
    rm_lists m' = (rm_lists m)(rm_free m \<mapsto> l\<lparr>rl_refcount := 1\<rparr>) \<and> rm_free m' = rm_free m + 1 \<and>
    (\<forall>p. rm_res m' p = None \<longleftrightarrow> rm_res m p = None)"
proof -
  let ?l = "reslist_init\<lparr>rl_merge_rules := rl_merge_rules l, rl_primary_key := rl_primary_key l\<rparr>"
  let ?m = "snd (alloc_list ?l m)"
  have init: "nodes ?l = []" "list_size ?l = 0" "rl_refcount ?l = 1" by (simp_all add: reslist_init_def)
  note new = alloc_list_ok [OF ok init]
  have "\<forall>p\<in>set (nodes l). rm_res ?m p \<noteq> None"
    using node_defined [OF ok, of _ a] l new(5) by (force simp: nodes_at_def)
  moreover have "rm_lists ?m (rm_free m) = Some ?l" "LCFGChangeOK LCFG_CHANGE_NONE" using new(4) by (simp_all add: LCFGChangeOK_def)
  ultimately obtain ch m' where
    run: "res_clone_loop (nodes l) (rm_free m) LCFG_CHANGE_NONE ?m = Some (ch, m')" "LCFGChangeOK ch"
    "res_mem_ok (K(rm_free m := 1)) P m'" "evolves ?m m'" "rm_free m' = rm_free ?m"
    "rm_lists m' = (rm_lists ?m)(rm_free m \<mapsto> ?l\<lparr>nodes := nodes ?l @ nodes l, list_size := list_size ?l + length (nodes l)\<rparr>)"
    "\<forall>p. rm_res m' p = None \<longleftrightarrow> rm_res ?m p = None" using clone_loop_ok [OF new(2)] by blast
  have "?l\<lparr>nodes := nodes ?l @ nodes l, list_size := list_size ?l + length (nodes l)\<rparr> = l\<lparr>rl_refcount := 1\<rparr>"
    using res_mem_okD(2) [OF ok l] by (cases l) (simp add: reslist_init_def slist_ok_def)
  then have "rm_lists m' = (rm_lists m)(rm_free m \<mapsto> l\<lparr>rl_refcount := 1\<rparr>)" using run(6) new(4) by simp
  moreover obtain m0 where m0: "alloc_list ?l m = (rm_free m, m0)" using new(1) by blast
  moreover from m0 have "lcfgreslist_clone a m = Some (Some (rm_free m), m')"
    using run(1,2) l by (simp add: lcfgreslist_clone_def Let_def LCFGChangeError_def LCFGChangeOK_def)
  moreover have "evolves m m'" by (rule evolves_trans [OF new(3) run(4)])
  ultimately show ?thesis using run new(5,6) by auto
qed

end
