(* ===== verification/Lcfg_Component.thy ===== *)
theory Lcfg_Component
  imports Lcfg_Reslist Lcfg_Probe
begin

text \<open>
  Components (\<open>resources/components/component.c\<close>): hash tables of resource lists, one list for
  each name, that other components may share until they are merged into. A component is a value
  with the addresses of its lists; lists and resources are in the memory of \<open>Lcfg_Reslist\<close>. The
  hash \<open>farmhash64\<close> is third-party code and a parameter. A result \<open>None\<close> is a read through a
  freed pointer or outside of the array of buckets, or a search for tags that does not end.
\<close>

section \<open>The table\<close>

record LCFGComponent =
  comp_name :: cstr
  comp_resources :: "nat option list"
  comp_buckets :: nat
  comp_entries :: nat
  comp_primary_key :: bits
  comp_merge_rules :: bits
  comp_refcount :: nat

definition LCFG_COMP_DEFAULT_SIZE :: nat where "LCFG_COMP_DEFAULT_SIZE = 113"

text \<open>\<open>entries / 0.5\<close> as a double is exact for counts that are met.\<close>

definition comp_want_buckets :: "nat \<Rightarrow> nat" where "comp_want_buckets entries = 2 * entries + 1"

definition lcfgcomponent_hash_string :: "(string \<Rightarrow> 64 word) \<Rightarrow> LCFGComponent \<Rightarrow> string \<Rightarrow> nat" where
  "lcfgcomponent_hash_string farmhash64 cmpt str = unat (farmhash64 str) mod comp_buckets cmpt"

definition bucket_at :: "LCFGComponent \<Rightarrow> nat \<Rightarrow> nat option option" where
  "bucket_at cmpt i = (if i < length (comp_resources cmpt) then Some (comp_resources cmpt ! i) else None)"

definition lcfgcomponent_empty_list :: "LCFGComponent \<Rightarrow> res_mem \<Rightarrow> nat \<times> res_mem" where
  "lcfgcomponent_empty_list cmpt =
     alloc_list (reslist_init\<lparr>rl_merge_rules := comp_merge_rules cmpt, rl_primary_key := comp_primary_key cmpt\<rparr>)"

text \<open>Whether a search ends at a bucket: it is free, or its list has the name.\<close>

definition bucket_found :: "res_mem \<Rightarrow> string \<Rightarrow> nat option \<Rightarrow> bool option" where
  "bucket_found m want_name b =
     (case b of
        None \<Rightarrow> Some True
      | Some a \<Rightarrow> do {
          head \<leftarrow> lcfgreslist_first_resource m a;
          (case head of
             None \<Rightarrow> Some False
           | Some p \<Rightarrow> map_option (\<lambda>r. lcfgresource_match r want_name) (rm_res m p))
        })"

text \<open>\<open>for ( i = from; !found && i < to; i++ )\<close>.\<close>

function bucket_search :: "(nat option \<Rightarrow> bool option) \<Rightarrow> LCFGComponent \<Rightarrow> nat \<Rightarrow> nat \<Rightarrow> nat option option" where
  "bucket_search found cmpt i to =
     (if i < to then do {
        b \<leftarrow> bucket_at cmpt i;
        stop \<leftarrow> found b;
        if stop then Some (Some i) else bucket_search found cmpt (i + 1) to
      } else Some None)"
  by pat_completeness auto

termination bucket_search by (relation "measure (\<lambda>(_, _, i, to). to - i)") auto

declare bucket_search.simps [simp del]

definition lcfgcomponent_find_bucket ::
    "(string \<Rightarrow> 64 word) \<Rightarrow> res_mem \<Rightarrow> LCFGComponent \<Rightarrow> string \<Rightarrow> nat option option" where
  "lcfgcomponent_find_bucket farmhash64 m cmpt want_name = do {
     let hash = lcfgcomponent_hash_string farmhash64 cmpt want_name;
     r \<leftarrow> bucket_search (bucket_found m want_name) cmpt hash (comp_buckets cmpt);
     (case r of Some i \<Rightarrow> Some (Some i) | None \<Rightarrow> bucket_search (bucket_found m want_name) cmpt 0 hash)
   }"

section \<open>Sizes\<close>

fun sum_sizes :: "res_mem \<Rightarrow> LCFGComponent \<Rightarrow> nat list \<Rightarrow> nat option" where
  "sum_sizes m cmpt [] = Some 0"
| "sum_sizes m cmpt (i # js) = do {
     b \<leftarrow> bucket_at cmpt i;
     n \<leftarrow> (case b of None \<Rightarrow> Some 0 | Some a \<Rightarrow> map_option list_size (rm_lists m a));
     rest \<leftarrow> sum_sizes m cmpt js;
     Some (n + rest)
   }"

definition lcfgcomponent_size :: "res_mem \<Rightarrow> LCFGComponent option \<Rightarrow> nat option" where
  "lcfgcomponent_size m cmpt =
     (case cmpt of
        None \<Rightarrow> Some 0
      | Some c \<Rightarrow>
          if comp_entries c = 0 then Some 0
          else if comp_primary_key c = LCFG_COMP_PK_NAME then Some (comp_entries c)
          else sum_sizes m c [0..<comp_buckets c])"

definition lcfgcomponent_is_empty :: "res_mem \<Rightarrow> LCFGComponent option \<Rightarrow> bool option" where
  "lcfgcomponent_is_empty m cmpt = map_option (\<lambda>n. n = 0) (lcfgcomponent_size m cmpt)"

section \<open>Buckets\<close>

definition lcfgcomponent_find_list ::
    "(string \<Rightarrow> 64 word) \<Rightarrow> res_mem \<Rightarrow> LCFGComponent option \<Rightarrow> string \<Rightarrow> nat option option" where
  "lcfgcomponent_find_list farmhash64 m cmpt want_name = do {
     empty \<leftarrow> lcfgcomponent_is_empty m cmpt;
     (case cmpt of
        None \<Rightarrow> Some None
      | Some c \<Rightarrow>
          if empty then Some None
          else do {
            bucket \<leftarrow> lcfgcomponent_find_bucket farmhash64 m c want_name;
            (case bucket of None \<Rightarrow> Some None | Some i \<Rightarrow> bucket_at c i)
          })
   }"

definition lcfgcomponent_set_bucket ::
    "LCFGComponent \<Rightarrow> nat \<Rightarrow> nat option \<Rightarrow> res_mem \<Rightarrow> (LCFGChange \<times> LCFGComponent \<times> res_mem) option" where
  "lcfgcomponent_set_bucket cmpt bucket new m = do {
     old \<leftarrow> bucket_at cmpt bucket;
     if old = new then Some (LCFG_CHANGE_NONE, cmpt, m)
     else do {
       let comp1 = cmpt\<lparr>comp_resources := (comp_resources cmpt)[bucket := new]\<rparr>;
       m1 \<leftarrow> (case new of None \<Rightarrow> Some m | Some a \<Rightarrow> lcfgreslist_acquire a m);
       let (change, comp2) =
         (case new of
            Some _ \<Rightarrow>
              if old = None then (LCFG_CHANGE_ADDED, comp1\<lparr>comp_entries := comp_entries cmpt + 1\<rparr>)
              else (LCFG_CHANGE_REPLACED, comp1)
          | None \<Rightarrow> (LCFG_CHANGE_REMOVED, comp1\<lparr>comp_entries := comp_entries cmpt - 1\<rparr>));
       m2 \<leftarrow> lcfgreslist_relinquish old m1;
       Some (change, comp2, m2)
     }
   }"

definition lcfgcomponent_insert_list ::
    "(string \<Rightarrow> 64 word) \<Rightarrow> LCFGComponent \<Rightarrow> nat option \<Rightarrow> res_mem \<Rightarrow> (LCFGChange \<times> LCFGComponent \<times> res_mem) option" where
  "lcfgcomponent_insert_list farmhash64 cmpt list m = do {
     empty \<leftarrow> lcfgreslist_is_empty m list;
     (case list of
        None \<Rightarrow> Some (LCFG_CHANGE_NONE, cmpt, m)
      | Some a \<Rightarrow>
          if empty then Some (LCFG_CHANGE_NONE, cmpt, m)
          else do {
            name \<leftarrow> lcfgreslist_get_name m a;
            want_name \<leftarrow> name;
            bucket \<leftarrow> lcfgcomponent_find_bucket farmhash64 m cmpt want_name;
            (case bucket of
               None \<Rightarrow> Some (LCFG_CHANGE_ERROR, cmpt, m)
             | Some i \<Rightarrow> lcfgcomponent_set_bucket cmpt i list m)
          })
   }"

text \<open>The loop of a resize over the buckets of the old array.\<close>

fun rehash_buckets ::
    "(string \<Rightarrow> 64 word) \<Rightarrow> nat option list \<Rightarrow> nat list \<Rightarrow> LCFGChange \<Rightarrow> LCFGComponent \<Rightarrow> res_mem \<Rightarrow>
     (LCFGChange \<times> LCFGComponent \<times> res_mem) option" where
  "rehash_buckets farmhash64 cur_set [] change cmpt m = Some (change, cmpt, m)"
| "rehash_buckets farmhash64 cur_set (i # js) change cmpt m =
     (if \<not> LCFGChangeOK change then Some (change, cmpt, m)
      else if length cur_set \<le> i then None
      else do {
        (change', cmpt', m1) \<leftarrow> lcfgcomponent_insert_list farmhash64 cmpt (cur_set ! i) m;
        m2 \<leftarrow> lcfgreslist_relinquish (cur_set ! i) m1;
        rehash_buckets farmhash64 cur_set js change' cmpt' m2
      })"

text \<open>The load factor is at least 0.7: as for the other tables, in integers.\<close>

definition lcfgcomponent_resize ::
    "(string \<Rightarrow> 64 word) \<Rightarrow> LCFGComponent \<Rightarrow> res_mem \<Rightarrow> (LCFGComponent \<times> res_mem) option" where
  "lcfgcomponent_resize farmhash64 cmpt m =
     (let cur_set = comp_resources cmpt;
          cur_buckets = comp_buckets cmpt;
          cur_entries = comp_entries cmpt;
          new_buckets = (if 7 * cur_buckets \<le> 10 * cur_entries then comp_want_buckets cur_entries else cur_buckets);
          comp1 = cmpt\<lparr>comp_resources := replicate new_buckets None, comp_entries := 0, comp_buckets := new_buckets\<rparr>
      in if cur_set \<noteq> [] \<and> new_buckets \<le> cur_buckets then Some (cmpt, m)
         else if cur_set = [] then Some (comp1, m)
         else do {
           (change, comp2, m2) \<leftarrow> rehash_buckets farmhash64 cur_set [0..<cur_buckets] LCFG_CHANGE_NONE comp1 m;
           Some (if LCFGChangeOK change then comp2
                 else comp2\<lparr>comp_resources := cur_set, comp_entries := cur_entries, comp_buckets := cur_buckets\<rparr>, m2)
         })"

definition comp_start :: LCFGComponent where
  "comp_start = \<lparr>comp_name = None, comp_resources = [], comp_buckets = LCFG_COMP_DEFAULT_SIZE, comp_entries = 0,
     comp_primary_key = LCFG_COMP_PK_NAME, comp_merge_rules = LCFG_MERGE_RULE_NONE, comp_refcount = 1\<rparr>"

definition lcfgcomponent_new :: "(string \<Rightarrow> 64 word) \<Rightarrow> res_mem \<Rightarrow> (LCFGComponent \<times> res_mem) option" where
  "lcfgcomponent_new farmhash64 = lcfgcomponent_resize farmhash64 comp_start"

fun remove_loop :: "nat list \<Rightarrow> LCFGComponent \<Rightarrow> res_mem \<Rightarrow> (LCFGComponent \<times> res_mem) option" where
  "remove_loop [] cmpt m = Some (cmpt, m)"
| "remove_loop (i # js) cmpt m = do {
     (_, cmpt', m') \<leftarrow> lcfgcomponent_set_bucket cmpt i None m;
     remove_loop js cmpt' m'
   }"

definition lcfgcomponent_remove_all_resources :: "LCFGComponent \<Rightarrow> res_mem \<Rightarrow> (LCFGComponent \<times> res_mem) option" where
  "lcfgcomponent_remove_all_resources cmpt = remove_loop [0..<comp_buckets cmpt] cmpt"

definition lcfgcomponent_destroy :: "LCFGComponent \<Rightarrow> res_mem \<Rightarrow> res_mem option" where
  "lcfgcomponent_destroy cmpt m = map_option snd (lcfgcomponent_remove_all_resources cmpt m)"

definition lcfgcomponent_acquire :: "LCFGComponent \<Rightarrow> LCFGComponent" where
  "lcfgcomponent_acquire cmpt = cmpt\<lparr>comp_refcount := comp_refcount cmpt + 1\<rparr>"

definition lcfgcomponent_relinquish :: "LCFGComponent option \<Rightarrow> res_mem \<Rightarrow> (LCFGComponent option \<times> res_mem) option" where
  "lcfgcomponent_relinquish cmpt m =
     (case cmpt of
        None \<Rightarrow> Some (None, m)
      | Some c \<Rightarrow>
          let c' = (if 0 < comp_refcount c then c\<lparr>comp_refcount := comp_refcount c - 1\<rparr> else c)
          in if comp_refcount c' = 0 then map_option (Pair None) (lcfgcomponent_destroy c' m) else Some (Some c', m))"

definition lcfgcomponent_is_shared :: "LCFGComponent \<Rightarrow> bool" where
  "lcfgcomponent_is_shared cmpt \<longleftrightarrow> 1 < comp_refcount cmpt"

fun rules_loop :: "bits \<Rightarrow> nat list \<Rightarrow> LCFGComponent \<Rightarrow> bool \<Rightarrow> res_mem \<Rightarrow> (bool \<times> res_mem) option" where
  "rules_loop new_rules [] cmpt ok m = Some (ok, m)"
| "rules_loop new_rules (i # js) cmpt ok m =
     (if \<not> ok then Some (ok, m)
      else do {
        b \<leftarrow> bucket_at cmpt i;
        (ok', m') \<leftarrow> (case b of None \<Rightarrow> Some (ok, m) | Some a \<Rightarrow> lcfgreslist_set_merge_rules a new_rules m);
        rules_loop new_rules js cmpt ok' m'
      })"

definition lcfgcomponent_set_merge_rules ::
    "LCFGComponent \<Rightarrow> bits \<Rightarrow> res_mem \<Rightarrow> (bool \<times> LCFGComponent \<times> res_mem) option" where
  "lcfgcomponent_set_merge_rules cmpt new_rules m =
     (let comp1 = cmpt\<lparr>comp_merge_rules := new_rules\<rparr>
      in map_option (\<lambda>(ok, m'). (ok, comp1, m')) (rules_loop new_rules [0..<comp_buckets cmpt] comp1 True m))"

definition lcfgcomponent_get_merge_rules :: "LCFGComponent \<Rightarrow> bits" where
  "lcfgcomponent_get_merge_rules cmpt = comp_merge_rules cmpt"

section \<open>Names\<close>

definition lcfgcomponent_valid_name :: "cstr \<Rightarrow> bool" where
  "lcfgcomponent_valid_name name \<longleftrightarrow> lcfgresource_valid_name name"

definition lcfgcomponent_has_name :: "LCFGComponent \<Rightarrow> bool" where
  "lcfgcomponent_has_name cmpt \<longleftrightarrow> \<not> isempty (comp_name cmpt)"

definition lcfgcomponent_is_valid :: "LCFGComponent option \<Rightarrow> bool" where
  "lcfgcomponent_is_valid cmpt \<longleftrightarrow> (case cmpt of None \<Rightarrow> False | Some c \<Rightarrow> lcfgcomponent_has_name c)"

definition lcfgcomponent_get_name :: "LCFGComponent \<Rightarrow> cstr" where
  "lcfgcomponent_get_name cmpt = comp_name cmpt"

definition lcfgcomponent_set_name :: "LCFGComponent \<Rightarrow> cstr \<Rightarrow> bool \<times> LCFGComponent" where
  "lcfgcomponent_set_name cmpt new_name =
     (if lcfgcomponent_valid_name new_name then (True, cmpt\<lparr>comp_name := new_name\<rparr>) else (False, cmpt))"

definition lcfgcomponent_hash :: "(string \<Rightarrow> 64 word) \<Rightarrow> LCFGComponent \<Rightarrow> 64 word option" where
  "lcfgcomponent_hash farmhash64 cmpt = map_option farmhash64 (comp_name cmpt)"

definition lcfgcomponent_compare :: "LCFGComponent \<Rightarrow> LCFGComponent \<Rightarrow> int" where
  "lcfgcomponent_compare comp1 comp2 = strcmp (or_default (comp_name comp1) []) (or_default (comp_name comp2) [])"

definition lcfgcomponent_match :: "LCFGComponent \<Rightarrow> string \<Rightarrow> bool" where
  "lcfgcomponent_match cmpt name \<longleftrightarrow> strcmp (or_default (comp_name cmpt) []) name = 0"

definition lcfgcomponent_same_name :: "LCFGComponent \<Rightarrow> LCFGComponent \<Rightarrow> bool" where
  "lcfgcomponent_same_name comp1 comp2 \<longleftrightarrow>
     strcmp (or_default (comp_name comp1) []) (or_default (comp_name comp2) []) = 0"

section \<open>Cloning\<close>

fun insert_buckets ::
    "(string \<Rightarrow> 64 word) \<Rightarrow> LCFGComponent \<Rightarrow> nat list \<Rightarrow> LCFGChange \<Rightarrow> LCFGComponent \<Rightarrow> res_mem \<Rightarrow>
     (LCFGChange \<times> LCFGComponent \<times> res_mem) option" where
  "insert_buckets farmhash64 cmpt [] change clone m = Some (change, clone, m)"
| "insert_buckets farmhash64 cmpt (i # js) change clone m =
     (if \<not> LCFGChangeOK change then Some (change, clone, m)
      else do {
        b \<leftarrow> bucket_at cmpt i;
        (change', clone', m') \<leftarrow> lcfgcomponent_insert_list farmhash64 clone b m;
        insert_buckets farmhash64 cmpt js change' clone' m'
      })"

text \<open>A new count of buckets, and a resize that is meant to grow the array.\<close>

definition presize :: "(string \<Rightarrow> 64 word) \<Rightarrow> nat \<Rightarrow> LCFGComponent \<Rightarrow> res_mem \<Rightarrow> (LCFGComponent \<times> res_mem) option" where
  "presize farmhash64 entries cmpt m =
     (let new_buckets = comp_want_buckets entries
      in if comp_buckets cmpt < new_buckets then lcfgcomponent_resize farmhash64 (cmpt\<lparr>comp_buckets := new_buckets\<rparr>) m
         else Some (cmpt, m))"

definition lcfgcomponent_clone ::
    "(string \<Rightarrow> 64 word) \<Rightarrow> LCFGComponent \<Rightarrow> res_mem \<Rightarrow> (LCFGComponent option \<times> res_mem) option" where
  "lcfgcomponent_clone farmhash64 cmpt m = do {
     (clone, m1) \<leftarrow> lcfgcomponent_new farmhash64 m;
     let (ok, clone1) = (if lcfgcomponent_has_name cmpt then lcfgcomponent_set_name clone (lcfgcomponent_get_name cmpt)
                         else (True, clone));
     if \<not> ok then lcfgcomponent_relinquish (Some clone1) m1
     else do {
       (clone2, m2) \<leftarrow> presize farmhash64 (comp_entries cmpt)
         (clone1\<lparr>comp_primary_key := comp_primary_key cmpt, comp_merge_rules := comp_merge_rules cmpt\<rparr>) m1;
       (insert_rc, clone3, m3) \<leftarrow> insert_buckets farmhash64 cmpt [0..<comp_buckets cmpt] LCFG_CHANGE_NONE clone2 m2;
       if LCFGChangeOK insert_rc then Some (Some clone3, m3)
       else lcfgcomponent_relinquish (Some clone3) m3
     }
   }"

section \<open>Finding and merging\<close>

definition lcfgcomponent_find_resource ::
    "(string \<Rightarrow> 64 word) \<Rightarrow> res_mem \<Rightarrow> LCFGComponent option \<Rightarrow> string \<Rightarrow> nat option option" where
  "lcfgcomponent_find_resource farmhash64 m cmpt want_name = do {
     list \<leftarrow> lcfgcomponent_find_list farmhash64 m cmpt want_name;
     empty \<leftarrow> lcfgreslist_is_empty m list;
     (case list of
        None \<Rightarrow> Some None
      | Some a \<Rightarrow> if empty then Some None else lcfgreslist_first_resource m a)
   }"

definition lcfgcomponent_has_resource ::
    "(string \<Rightarrow> 64 word) \<Rightarrow> res_mem \<Rightarrow> LCFGComponent option \<Rightarrow> string \<Rightarrow> bool option" where
  "lcfgcomponent_has_resource farmhash64 m cmpt want_name =
     map_option (\<lambda>r. r \<noteq> None) (lcfgcomponent_find_resource farmhash64 m cmpt want_name)"

text \<open>The list to merge into: a new one for a free bucket, a clone of a shared one. The flag says that it is new.\<close>

definition writable_list :: "LCFGComponent \<Rightarrow> nat option \<Rightarrow> res_mem \<Rightarrow> (nat \<times> bool \<times> res_mem) option" where
  "writable_list cmpt b m =
     (case b of
        None \<Rightarrow> (case lcfgcomponent_empty_list cmpt m of (a, m1) \<Rightarrow> Some (a, True, m1))
      | Some a \<Rightarrow> do {
          shared \<leftarrow> lcfgreslist_is_shared m a;
          if shared then do {
            (clone, m1) \<leftarrow> lcfgreslist_clone a m;
            a' \<leftarrow> clone;
            Some (a', True, m1)
          } else Some (a, False, m)
        })"

text \<open>The list after a merge goes into the bucket.\<close>

definition store_merged ::
    "(string \<Rightarrow> 64 word) \<Rightarrow> LCFGComponent \<Rightarrow> nat \<Rightarrow> nat \<Rightarrow> bool \<Rightarrow> LCFGChange \<Rightarrow> res_mem \<Rightarrow>
     (LCFGChange \<times> LCFGComponent \<times> res_mem) option" where
  "store_merged farmhash64 cmpt bucket a new change m = do {
     empty \<leftarrow> lcfgreslist_is_empty m (Some a);
     (set_rc, comp1, m1) \<leftarrow>
       (if \<not> LCFGChangeOK change then Some (LCFG_CHANGE_NONE, cmpt, m)
        else if empty then lcfgcomponent_set_bucket cmpt bucket None m
        else if change \<noteq> LCFG_CHANGE_NONE then do {
          (set_rc, comp1, m1) \<leftarrow> lcfgcomponent_set_bucket cmpt bucket (Some a) m;
          (comp2, m2) \<leftarrow> (if set_rc = LCFG_CHANGE_ADDED then lcfgcomponent_resize farmhash64 comp1 m1 else Some (comp1, m1));
          Some (set_rc, comp2, m2)
        } else Some (LCFG_CHANGE_NONE, cmpt, m));
     m2 \<leftarrow> (if new then lcfgreslist_relinquish (Some a) m1 else Some m1);
     Some (if LCFGChangeError set_rc then set_rc else change, comp1, m2)
   }"

definition no_free_space :: string where "no_free_space = ''No free space for new entries in component''"

definition lcfgcomponent_merge_resource ::
    "(string \<Rightarrow> 64 word) \<Rightarrow> LCFGComponent \<Rightarrow> nat \<Rightarrow> cstr \<Rightarrow> res_mem \<Rightarrow>
     (LCFGChange \<times> LCFGComponent \<times> cstr \<times> res_mem) option" where
  "lcfgcomponent_merge_resource farmhash64 cmpt resource msg m = do {
     res \<leftarrow> rm_res m resource;
     if \<not> lcfgresource_is_valid (Some res) then Some (LCFG_CHANGE_ERROR, cmpt, msg, m)
     else do {
       bucket \<leftarrow> lcfgcomponent_find_bucket farmhash64 m cmpt (or_default (lcfgresource_get_name res) []);
       (case bucket of
          None \<Rightarrow> Some (LCFG_CHANGE_ERROR, cmpt, Some no_free_space, m)
        | Some i \<Rightarrow> do {
            b \<leftarrow> bucket_at cmpt i;
            (a, new, m1) \<leftarrow> writable_list cmpt b m;
            (change, msg', m2) \<leftarrow> lcfgreslist_merge_resource a resource msg m1;
            (change', cmpt', m3) \<leftarrow> store_merged farmhash64 cmpt i a new change m2;
            Some (change', cmpt', msg', m3)
          })
     }
   }"

fun merge_buckets ::
    "(string \<Rightarrow> 64 word) \<Rightarrow> LCFGComponent \<Rightarrow> nat list \<Rightarrow> LCFGChange \<Rightarrow> LCFGComponent \<Rightarrow> cstr \<Rightarrow> res_mem \<Rightarrow>
     (LCFGChange \<times> LCFGComponent \<times> cstr \<times> res_mem) option" where
  "merge_buckets farmhash64 comp2 [] change comp1 msg m = Some (change, comp1, msg, m)"
| "merge_buckets farmhash64 comp2 (i # js) change comp1 msg m =
     (if \<not> LCFGChangeOK change then Some (change, comp1, msg, m)
      else do {
        list2 \<leftarrow> bucket_at comp2 i;
        empty \<leftarrow> lcfgreslist_is_empty m list2;
        (case list2 of
           None \<Rightarrow> merge_buckets farmhash64 comp2 js change comp1 msg m
         | Some b \<Rightarrow>
             if empty then merge_buckets farmhash64 comp2 js change comp1 msg m
             else do {
               name \<leftarrow> lcfgreslist_get_name m b;
               want_name \<leftarrow> name;
               bucket \<leftarrow> lcfgcomponent_find_bucket farmhash64 m comp1 want_name;
               (case bucket of
                  None \<Rightarrow> merge_buckets farmhash64 comp2 js LCFG_CHANGE_ERROR comp1 (Some no_free_space) m
                | Some j \<Rightarrow> do {
                    list1 \<leftarrow> bucket_at comp1 j;
                    (a, new, m1) \<leftarrow> writable_list comp1 list1 m;
                    (change', msg', m2) \<leftarrow> lcfgreslist_merge_list a b msg m1;
                    (change'', comp1', m3) \<leftarrow> store_merged farmhash64 comp1 j a new change' m2;
                    merge_buckets farmhash64 comp2 js change'' comp1' msg' m3
                  })
             })
      })"

text \<open>The flag says that both are the same component.\<close>

definition lcfgcomponent_merge_component ::
    "(string \<Rightarrow> 64 word) \<Rightarrow> LCFGComponent \<Rightarrow> LCFGComponent option \<Rightarrow> bool \<Rightarrow> cstr \<Rightarrow> res_mem \<Rightarrow>
     (LCFGChange \<times> LCFGComponent \<times> cstr \<times> res_mem) option" where
  "lcfgcomponent_merge_component farmhash64 comp1 comp2 same msg m = do {
     empty \<leftarrow> lcfgcomponent_is_empty m comp2;
     (case comp2 of
        None \<Rightarrow> Some (LCFG_CHANGE_NONE, comp1, msg, m)
      | Some c2 \<Rightarrow>
          if empty \<or> same then Some (LCFG_CHANGE_NONE, comp1, msg, m)
          else merge_buckets farmhash64 c2 [0..<comp_buckets c2] LCFG_CHANGE_NONE comp1 msg m)
   }"

definition failed_create :: "string \<Rightarrow> string" where
  "failed_create name = ''Failed to create new resource named '' @ in_quotes name"

text \<open>The change, the resource, the component, the message and the memory.\<close>

definition lcfgcomponent_find_or_create_resource ::
    "(string \<Rightarrow> 64 word) \<Rightarrow> LCFGComponent \<Rightarrow> string \<Rightarrow> cstr \<Rightarrow> res_mem \<Rightarrow>
     (LCFGChange \<times> nat option \<times> LCFGComponent \<times> cstr \<times> res_mem) option" where
  "lcfgcomponent_find_or_create_resource farmhash64 cmpt name msg m = do {
     found \<leftarrow> lcfgcomponent_find_resource farmhash64 m (Some cmpt) name;
     (case found of
        Some p \<Rightarrow> Some (LCFG_CHANGE_NONE, Some p, cmpt, msg, m)
      | None \<Rightarrow>
          (case lcfgresource_set_name lcfgresource_new (Some name) of (ok, res) \<Rightarrow>
             (case alloc_res res m of (new_res, m1) \<Rightarrow>
                if \<not> ok then map_option (\<lambda>m2. (LCFG_CHANGE_ERROR, None, cmpt, Some (failed_create name), m2))
                  (relinquish_res new_res m1)
                else do {
                  (change, cmpt', msg', m2) \<leftarrow> lcfgcomponent_merge_resource farmhash64 cmpt new_res msg m1;
                  m3 \<leftarrow> relinquish_res new_res m2;
                  Some (change, if LCFGChangeOK change then Some new_res else None, cmpt', msg', m3)
                })))
   }"

definition lcfgcomponent_is_ngeneric :: "(string \<Rightarrow> 64 word) \<Rightarrow> res_mem \<Rightarrow> LCFGComponent option \<Rightarrow> bool option" where
  "lcfgcomponent_is_ngeneric farmhash64 m cmpt = do {
     ng_schema \<leftarrow> lcfgcomponent_find_resource farmhash64 m cmpt ''ng_schema'';
     (case ng_schema of None \<Rightarrow> Some False | Some p \<Rightarrow> map_option lcfgresource_has_value (rm_res m p))
   }"

section \<open>Names of lists\<close>

text \<open>
  The bucket where a search starts, and the name of a list: that of its first resource. A table
  of buckets is the interface \<open>probing\<close> for them.
\<close>

definition comp_home :: "(string \<Rightarrow> 64 word) \<Rightarrow> string \<Rightarrow> nat \<Rightarrow> nat" where
  "comp_home farmhash64 name n = unat (farmhash64 name) mod n"

definition reslist_name :: "res_mem \<Rightarrow> nat \<Rightarrow> string" where
  "reslist_name m a =
     (case nodes_at m a of [] \<Rightarrow> []
      | p # _ \<Rightarrow> (case rm_res m p of None \<Rightarrow> [] | Some r \<Rightarrow> or_default (lcfgresource_get_name r) []))"

interpretation comp_table: probing "comp_home farmhash64" "reslist_name m" for farmhash64 m
  by unfold_locales (simp add: comp_home_def)

text \<open>A list of a component: not empty, and its resources have the name of the list.\<close>

definition has_res_name :: "res_mem \<Rightarrow> string \<Rightarrow> nat \<Rightarrow> bool" where
  "has_res_name m name p \<longleftrightarrow> map_option lcfgresource_get_name (rm_res m p) = Some (Some name)"

definition named_list :: "res_mem \<Rightarrow> string \<Rightarrow> nat \<Rightarrow> bool" where
  "named_list m name a \<longleftrightarrow> name \<noteq> [] \<and> no_nul name \<and> nodes_at m a \<noteq> [] \<and> list_all (has_res_name m name) (nodes_at m a)"

lemma reslist_named: "named_list m name a \<Longrightarrow> reslist_name m a = name"
  by (cases "nodes_at m a") (auto simp: named_list_def has_res_name_def reslist_name_def)

lemma nodes_at_SomeD: "nodes_at m a \<noteq> [] \<Longrightarrow> \<exists>l. rm_lists m a = Some l \<and> nodes l = nodes_at m a"
  by (cases "rm_lists m a") (auto simp: nodes_at_def)

lemma named_first:
  assumes "named_list m name a"
  obtains p r where "lcfgreslist_first_resource m a = Some (Some p)" "nodes_at m a = p # tl (nodes_at m a)"
    "rm_res m p = Some r" "lcfgresource_get_name r = Some name"
proof -
  from assms obtain p ps where ps: "nodes_at m a = p # ps" by (cases "nodes_at m a") (auto simp: named_list_def)
  with nodes_at_SomeD [of m a] obtain l where "rm_lists m a = Some l" "nodes l = p # ps" by auto
  moreover from assms ps obtain r where "rm_res m p = Some r" "lcfgresource_get_name r = Some name"
    by (auto simp: named_list_def has_res_name_def)
  ultimately show thesis using that ps by (simp add: lcfgreslist_first_resource_def first_resource_def)
qed

lemma named_get_name: "named_list m name a \<Longrightarrow> lcfgreslist_get_name m a = Some (Some name)"
  by (erule named_first) (simp add: lcfgreslist_get_name_def)

lemma bucket_found_named:
  assumes "named_list m name a" and "no_nul want_name"
  shows "bucket_found m want_name (Some a) = Some (name = want_name)"
proof -
  have "no_nul name" using assms(1) by (simp add: named_list_def)
  with assms show ?thesis
    by (elim named_first) (simp add: bucket_found_def lcfgresource_match_def lcfgresource_get_name_def strcmp_eq_0)
qed

section \<open>Searches\<close>

text \<open>The search that checks its bounds and its pointers is the search of \<open>Lcfg_Probe\<close> where both are right.\<close>

lemma bucket_search_slot:
  assumes "to \<le> length (comp_resources c)" and "\<And>b. b \<in> set (comp_resources c) \<Longrightarrow> found b = Some (P b)"
  shows "bucket_search found c i to = Some (slot_loop P (comp_resources c) i to)"
proof (induction "to - i" arbitrary: i)
  case 0
  then show ?case by (simp add: bucket_search.simps [of found c i] slot_loop.simps [of P _ i])
next
  case (Suc d)
  then have i: "i < to" by simp
  with assms have "found (comp_resources c ! i) = Some (P (comp_resources c ! i))" by simp
  with i assms(1) Suc(1) [of "i + 1"] Suc(2) show ?case
    by (simp add: bucket_search.simps [of found c i] slot_loop.simps [of P _ i] bucket_at_def)
qed

text \<open>
  The invariant of a component: its lists are named, every name has one bucket at most that its
  search reaches, and a bucket is free.
\<close>

definition comp_lists :: "LCFGComponent \<Rightarrow> nat set" where
  "comp_lists c = {a. Some a \<in> set (comp_resources c)}"

definition lists_named :: "res_mem \<Rightarrow> LCFGComponent \<Rightarrow> bool" where
  "lists_named m c \<longleftrightarrow> (\<forall>a\<in>comp_lists c. named_list m (reslist_name m a) a)"

definition table_good :: "(string \<Rightarrow> 64 word) \<Rightarrow> res_mem \<Rightarrow> LCFGComponent \<Rightarrow> bool" where
  "table_good farmhash64 m c \<longleftrightarrow> comp_buckets c = length (comp_resources c) \<and>
     comp_table.table_ok farmhash64 m (comp_resources c) \<and> lists_named m c \<and>
     comp_entries c = used (comp_resources c) \<and> comp_entries c < comp_buckets c"

lemma table_goodD:
  assumes "table_good farm m c"
  shows "comp_buckets c = length (comp_resources c)" "comp_table.table_ok farm m (comp_resources c)"
    "Some a \<in> set (comp_resources c) \<Longrightarrow> named_list m (reslist_name m a) a"
    "comp_entries c = used (comp_resources c)" "used (comp_resources c) < length (comp_resources c)"
    "comp_resources c \<noteq> []"
  using assms by (auto simp: table_good_def lists_named_def comp_lists_def comp_table.table_ok_def)

definition comp_slot :: "(string \<Rightarrow> 64 word) \<Rightarrow> res_mem \<Rightarrow> LCFGComponent \<Rightarrow> string \<Rightarrow> nat option" where
  "comp_slot farm m c = comp_table.slot_of farm m (comp_resources c)"

lemma find_bucket_slot:
  assumes "comp_buckets c = length (comp_resources c)" and "comp_resources c \<noteq> []"
    and "\<And>a. Some a \<in> set (comp_resources c) \<Longrightarrow> named_list m (reslist_name m a) a" and "no_nul name"
  shows "lcfgcomponent_find_bucket farm m c name = Some (comp_slot farm m c name)"
proof -
  let ?P = "comp_table.stop_at m name"
  let ?h = "lcfgcomponent_hash_string farm c name"
  have h: "?h = comp_home farm name (length (comp_resources c))"
    by (simp add: lcfgcomponent_hash_string_def comp_home_def assms(1))
  then have lt: "?h < length (comp_resources c)" using assms(2) by (simp add: comp_home_def)
  have P: "bucket_found m name b = Some (?P b)" if "b \<in> set (comp_resources c)" for b
  proof (cases b)
    case (Some a)
    with bucket_found_named [OF assms(3,4), of a] that show ?thesis
      by (simp add: comp_table.stop_at_def probe_ends_def)
  qed (simp add: bucket_found_def comp_table.stop_at_def probe_ends_def)
  note search = bucket_search_slot [where P = ?P and found = "bucket_found m name", OF _ P]
  show ?thesis
    using search [where i = ?h and to = "length (comp_resources c)"] search [where i = 0 and to = ?h] lt
    by (simp add: lcfgcomponent_find_bucket_def Let_def assms(1) comp_slot_def comp_table.slot_of_def find_slot_def h [symmetric]
        split: option.splits)
qed

text \<open>The resources with a name, and the lookup of them.\<close>

definition comp_nodes :: "(string \<Rightarrow> 64 word) \<Rightarrow> res_mem \<Rightarrow> LCFGComponent \<Rightarrow> string \<Rightarrow> nat list" where
  "comp_nodes farm m c name =
     (case comp_table.lookup farm m (comp_resources c) name of None \<Rightarrow> [] | Some a \<Rightarrow> nodes_at m a)"

lemma slot_list:
  assumes "table_good farm m c"
  shows "\<exists>i<length (comp_resources c). comp_slot farm m c name = Some i \<and>
    comp_resources c ! i = comp_table.lookup farm m (comp_resources c) name"
proof (cases "comp_table.lookup farm m (comp_resources c) name")
  case None
  with comp_table.slot_of_free [OF table_goodD(2) [OF assms] None used_free [OF table_goodD(5) [OF assms]]]
  show ?thesis by (auto simp: comp_slot_def)
next
  case (Some a)
  then obtain i where "comp_slot farm m c name = Some i" "comp_resources c ! i = Some a"
    by (auto simp: comp_table.lookup_slot comp_slot_def split: option.splits)
  with comp_table.slot_of_SomeD(1) [of farm m _ name i] table_goodD(6) [OF assms] Some show ?thesis
    by (auto simp: comp_slot_def)
qed

lemma lookup_named:
  assumes "table_good farm m c"
  shows "comp_table.lookup farm m (comp_resources c) name = Some a \<longleftrightarrow> Some a \<in> set (comp_resources c) \<and> named_list m name a"
  using comp_table.lookup_iff [OF table_goodD(2) [OF assms], of name a] table_goodD(3) [OF assms, of a] reslist_named [of m name a]
  by auto


lemma named_live:
  assumes "res_mem_ok K P m" and "named_list m name a"
  obtains l where "rm_lists m a = Some l" "slist_ok l" "0 < rl_refcount l" "nodes l = nodes_at m a" "nodes l \<noteq> []"
proof -
  from assms(2) nodes_at_SomeD [of m a] obtain l where l: "rm_lists m a = Some l" "nodes l = nodes_at m a" "nodes l \<noteq> []"
    by (auto simp: named_list_def)
  with res_mem_okD(2) [OF assms(1) l(1)] that show thesis by simp
qed

text \<open>Sizes, where all lists are there.\<close>

definition res_bucket_size :: "res_mem \<Rightarrow> nat option \<Rightarrow> nat" where
  "res_bucket_size m b = (case b of None \<Rightarrow> 0 | Some a \<Rightarrow> length (nodes_at m a))"

lemma sum_sizes_buckets:
  assumes "res_mem_ok K P m" and "table_good farm m c" and "\<forall>i\<in>set js. i < length (comp_resources c)"
  shows "sum_sizes m c js = Some (sum_list (map (\<lambda>i. res_bucket_size m (comp_resources c ! i)) js))"
  using assms(3)
proof (induction js)
  case (Cons i js)
  show ?case
  proof (cases "comp_resources c ! i")
    case None
    with Cons show ?thesis by (simp add: bucket_at_def res_bucket_size_def)
  next
    case (Some a)
    with Cons.prems have "named_list m (reslist_name m a) a"
      using table_goodD(3) [OF assms(2), of a] nth_mem [of i "comp_resources c"] by simp
    from named_live [OF assms(1) this] obtain l where "rm_lists m a = Some l" "slist_ok l" "nodes l = nodes_at m a" .
    with Cons Some show ?thesis by (simp add: bucket_at_def res_bucket_size_def slist_ok_def)
  qed
qed simp

lemma comp_is_empty:
  assumes "res_mem_ok K P m" and "table_good farm m c"
  shows "lcfgcomponent_is_empty m (Some c) = Some (comp_entries c = 0)"
proof (cases "comp_entries c = 0 \<or> comp_primary_key c = LCFG_COMP_PK_NAME")
  case True
  then show ?thesis by (auto simp: lcfgcomponent_is_empty_def lcfgcomponent_size_def)
next
  case False
  then have "used (comp_resources c) \<noteq> 0" using table_goodD(4) [OF assms(2)] by simp
  then have "entries_of (comp_resources c) \<noteq> []" by (metis entries_of_facts(2) list.size(3))
  then obtain a where a: "Some a \<in> set (comp_resources c)" by (metis entries_of_facts(1) list.set_intros(1) mem_Collect_eq neq_Nil_conv)
  then obtain i where i: "i < length (comp_resources c)" "comp_resources c ! i = Some a" by (auto simp: in_set_conv_nth)
  from table_goodD(3) [OF assms(2) a] i have "0 < res_bucket_size m (comp_resources c ! i)" by (simp add: res_bucket_size_def named_list_def)
  with i have "0 < sum_list (map (\<lambda>i. res_bucket_size m (comp_resources c ! i)) [0..<length (comp_resources c)])"
    by (intro neq0_conv [THEN iffD1]) (auto simp: sum_list_eq_0_iff intro!: bexI [of _ i])
  with False sum_sizes_buckets [OF assms, of "[0..<length (comp_resources c)]"] table_goodD(1) [OF assms(2)] show ?thesis
    by (simp add: lcfgcomponent_is_empty_def lcfgcomponent_size_def del: sum_list_eq_0_iff)
qed

lemma find_list_table:
  assumes "res_mem_ok K P m" and "table_good farm m c" and "no_nul name"
  shows "lcfgcomponent_find_list farm m (Some c) name = Some (comp_table.lookup farm m (comp_resources c) name)"
proof (cases "comp_entries c = 0")
  case True
  then have "Some a \<notin> set (comp_resources c)" for a
    using table_goodD(4) [OF assms(2)] entries_of_facts [of "comp_resources c"] by (metis empty_iff length_0_conv mem_Collect_eq set_empty)
  then have "comp_table.lookup farm m (comp_resources c) name = None"
    using lookup_named [OF assms(2), of name] by (cases "comp_table.lookup farm m (comp_resources c) name") auto
  with True comp_is_empty [OF assms(1,2)] show ?thesis by (simp add: lcfgcomponent_find_list_def)
next
  case False
  from slot_list [OF assms(2), of name] obtain i where "i < length (comp_resources c)" "comp_slot farm m c name = Some i"
    "comp_resources c ! i = comp_table.lookup farm m (comp_resources c) name" by blast
  with False comp_is_empty [OF assms(1,2)] find_bucket_slot [OF table_goodD(1,6,3) [OF assms(2)] assms(3)]
  show ?thesis by (simp add: lcfgcomponent_find_list_def bucket_at_def)
qed

lemma find_resource_nodes:
  assumes "res_mem_ok K P m" and "table_good farm m c" and "no_nul name"
  shows "lcfgcomponent_find_resource farm m (Some c) name =
    Some (case comp_nodes farm m c name of [] \<Rightarrow> None | p # _ \<Rightarrow> Some p)"
proof (cases "comp_table.lookup farm m (comp_resources c) name")
  case None
  with find_list_table [OF assms] show ?thesis
    by (simp add: lcfgcomponent_find_resource_def comp_nodes_def lcfgreslist_is_empty_def)
next
  case (Some a)
  then have n: "named_list m name a" using lookup_named [OF assms(2)] by simp
  from named_live [OF assms(1) n] obtain l where "rm_lists m a = Some l" "slist_ok l" "nodes l = nodes_at m a" "nodes l \<noteq> []" .
  with Some find_list_table [OF assms] show ?thesis
    by (cases "nodes l")
      (auto simp: lcfgcomponent_find_resource_def comp_nodes_def lcfgreslist_is_empty_def lcfgreslist_first_resource_def first_resource_def)
qed

section \<open>Growing the table\<close>

text \<open>A list that goes into a free bucket gets a reference; with the reference of the old array gone, memory is as before.\<close>

lemma insert_list_free:
  assumes ok: "res_mem_ok K P m" and c: "comp_buckets c = length (comp_resources c)" "comp_table.table_ok farm m (comp_resources c)"
      "\<And>b. Some b \<in> set (comp_resources c) \<Longrightarrow> named_list m (reslist_name m b) b"
      "\<forall>b. Some b \<in> set (comp_resources c) \<longrightarrow> reslist_name m b \<noteq> reslist_name m a" "used (comp_resources c) < length (comp_resources c)"
    and a: "named_list m (reslist_name m a) a" and l: "rm_lists m a = Some l"
  shows "lcfgcomponent_insert_list farm c (Some a) m =
      Some (LCFG_CHANGE_ADDED,
        c\<lparr>comp_resources := comp_table.store farm m a (comp_resources c), comp_entries := comp_entries c + 1\<rparr>,
        put_list a (Some (l\<lparr>rl_refcount := rl_refcount l + 1\<rparr>)) m)"
proof -
  let ?n = "reslist_name m a"
  have ne: "comp_resources c \<noteq> []" using c(5) by auto
  have "comp_table.lookup farm m (comp_resources c) ?n = None"
    using comp_table.lookup_iff [OF c(2), of ?n] c(4) by (cases "comp_table.lookup farm m (comp_resources c) ?n") auto
  then obtain i where i: "comp_slot farm m c ?n = Some i" "i < length (comp_resources c)" "comp_resources c ! i = None"
    using comp_table.slot_of_free [OF c(2) _ used_free [OF c(5)]] unfolding comp_slot_def by blast
  have nn: "no_nul ?n" using a by (simp add: named_list_def)
  have st: "comp_table.store farm m a (comp_resources c) = (comp_resources c)[i := Some a]"
    using i(1) by (simp add: comp_table.store_def comp_slot_def)
  have "nodes l \<noteq> []" "slist_ok l" using a l res_mem_okD(2) [OF ok l] by (auto simp: named_list_def nodes_at_def)
  then show ?thesis
    using find_bucket_slot [OF c(1) ne c(3) nn] i l named_get_name [OF a]
    by (simp add: lcfgcomponent_insert_list_def lcfgreslist_is_empty_def lcfgcomponent_set_bucket_def bucket_at_def st
        lcfgreslist_acquire_def on_list_def lcfgreslist_relinquish_def)
qed

lemma relinquish_after_acquire:
  assumes "rm_lists m a = Some l" and "0 < rl_refcount l"
  shows "lcfgreslist_relinquish (Some a) (put_list a (Some (l\<lparr>rl_refcount := rl_refcount l + 1\<rparr>)) m) = Some m"
proof -
  have "(rm_lists m)(a \<mapsto> l) = rm_lists m" using assms(1) by (simp add: fun_upd_idem)
  with assms show ?thesis by (simp add: lcfgreslist_relinquish_def put_list_def)
qed


lemma rehash_lists_stored:
  assumes ok: "res_mem_ok K P m" and bounds: "\<forall>i\<in>set js. i < length bs" and "LCFGChangeOK change"
    and "comp_buckets c = length (comp_resources c)" "comp_table.table_ok farm m (comp_resources c)"
    and "\<And>b. Some b \<in> set (comp_resources c) \<Longrightarrow> named_list m (reslist_name m b) b"
    and "\<And>b. b \<in> set (entries_of (map ((!) bs) js)) \<Longrightarrow> named_list m (reslist_name m b) b"
    and "distinct (map (reslist_name m) (entries_of (map ((!) bs) js)))"
    and "\<forall>a\<in>set (entries_of (map ((!) bs) js)). \<forall>b. Some b \<in> set (comp_resources c) \<longrightarrow> reslist_name m b \<noteq> reslist_name m a"
    and "used (comp_resources c) + length (entries_of (map ((!) bs) js)) < length (comp_resources c)"
  shows "\<exists>ch. LCFGChangeOK ch \<and> rehash_buckets farm bs js change c m =
    Some (ch, c\<lparr>comp_resources := fold (comp_table.store farm m) (entries_of (map ((!) bs) js)) (comp_resources c),
                comp_entries := comp_entries c + length (entries_of (map ((!) bs) js))\<rparr>, m)"
  using assms(2-10)
proof (induction js arbitrary: change c)
  case (Cons i js)
  show ?case
  proof (cases "bs ! i")
    case None
    have "LCFGChangeOK LCFG_CHANGE_NONE" by (simp add: LCFGChangeOK_def)
    with Cons.IH [of LCFG_CHANGE_NONE c] Cons.prems None show ?thesis
      by (simp add: lcfgcomponent_insert_list_def lcfgreslist_is_empty_def lcfgreslist_relinquish_def)
  next
    case (Some a)
    let ?es = "entries_of (map ((!) bs) js)"
    let ?c = "c\<lparr>comp_resources := comp_table.store farm m a (comp_resources c), comp_entries := comp_entries c + 1\<rparr>"
    have es: "entries_of (map ((!) bs) (i # js)) = a # ?es" using Some by simp
    note prems = Cons.prems [unfolded es]
    have a: "named_list m (reslist_name m a) a" using prems(6) [of a] by simp
    from named_live [OF ok a] obtain l where l: "rm_lists m a = Some l" "0 < rl_refcount l" .
    have lt: "used (comp_resources c) < length (comp_resources c)" using prems(9) by simp
    have new: "\<forall>b. Some b \<in> set (comp_resources c) \<longrightarrow> reslist_name m b \<noteq> reslist_name m a" using prems(8) by simp
    note ins = insert_list_free [OF ok prems(3-5) new lt a l(1)]
    note st = comp_table.store_new [OF prems(4) new lt]
    have "LCFGChangeOK LCFG_CHANGE_ADDED" by (simp add: LCFGChangeOK_def)
    moreover have "\<exists>ch. LCFGChangeOK ch \<and> rehash_buckets farm bs js LCFG_CHANGE_ADDED ?c m =
      Some (ch, ?c\<lparr>comp_resources := fold (comp_table.store farm m) ?es (comp_resources ?c),
                   comp_entries := comp_entries ?c + length ?es\<rparr>, m)"
      by (rule Cons.IH) (use prems st a \<open>LCFGChangeOK LCFG_CHANGE_ADDED\<close> in \<open>auto simp: image_iff\<close>)
    ultimately show ?thesis
      using prems(1,2) Some ins relinquish_after_acquire [OF l] es by simp
  qed
qed simp

lemma resize_good:
  assumes ok: "res_mem_ok K P m" and c: "comp_buckets c = length (comp_resources c)" "comp_table.table_ok farm m (comp_resources c)"
      "lists_named m c" "comp_entries c = used (comp_resources c)"
  shows "\<exists>c'. lcfgcomponent_resize farm c m = Some (c', m) \<and> table_good farm m c' \<and> comp_lists c' = comp_lists c \<and>
    c' = c\<lparr>comp_resources := comp_resources c', comp_buckets := comp_buckets c'\<rparr>"
proof (cases "7 * comp_buckets c \<le> 10 * comp_entries c")
  case False
  have "comp_resources c \<noteq> []" using c(2) by (simp add: comp_table.table_ok_def)
  with False have "lcfgcomponent_resize farm c m = Some (c, m)" by (simp add: lcfgcomponent_resize_def)
  moreover have "table_good farm m c" using c False by (simp add: table_good_def)
  ultimately show ?thesis by (intro exI [of _ c]) simp
next
  case True
  let ?xs = "comp_resources c"
  let ?n = "comp_want_buckets (comp_entries c)"
  let ?c = "c\<lparr>comp_resources := replicate ?n None, comp_entries := 0, comp_buckets := ?n\<rparr>"
  have es: "map ((!) ?xs) [0..<length ?xs] = ?xs" by (rule map_nth)
  have n: "0 < ?n" "used ?xs < ?n" "comp_buckets c < ?n" using c(4) True by (simp_all add: comp_want_buckets_def)
  have named: "named_list m (reslist_name m b) b" if "Some b \<in> set ?xs" for b
    using c(3) that by (simp add: lists_named_def comp_lists_def)
  have tab0: "comp_table.table_ok farm m (replicate ?n None)" by (rule comp_table.table_empty [OF n(1)])
  note dist = comp_table.table_distinct [OF c(2)]
  have "LCFGChangeOK LCFG_CHANGE_NONE" by (simp add: LCFGChangeOK_def)
  note r = rehash_lists_stored [of K P m "[0..<length ?xs]" ?xs LCFG_CHANGE_NONE ?c farm, unfolded es]
  have "\<exists>ch. LCFGChangeOK ch \<and> rehash_buckets farm ?xs [0..<length ?xs] LCFG_CHANGE_NONE ?c m =
    Some (ch, ?c\<lparr>comp_resources := fold (comp_table.store farm m) (entries_of ?xs) (comp_resources ?c),
                comp_entries := comp_entries ?c + length (entries_of ?xs)\<rparr>, m)"
    by (rule r) (use ok tab0 dist named n \<open>LCFGChangeOK LCFG_CHANGE_NONE\<close> in auto)
  then obtain ch where run: "LCFGChangeOK ch" "rehash_buckets farm ?xs [0..<length ?xs] LCFG_CHANGE_NONE ?c m =
    Some (ch, ?c\<lparr>comp_resources := fold (comp_table.store farm m) (entries_of ?xs) (replicate ?n None),
                comp_entries := used ?xs\<rparr>, m)" by auto
  let ?c' = "c\<lparr>comp_resources := fold (comp_table.store farm m) (entries_of ?xs) (replicate ?n None), comp_buckets := ?n\<rparr>"
  have ne: "?xs \<noteq> []" using c(2) by (simp add: comp_table.table_ok_def)
  then have "lcfgcomponent_resize farm c m = Some (?c', m)"
    using run True n(3) c(1,4) by (simp add: lcfgcomponent_resize_def Let_def)
  moreover have f: "comp_table.table_ok farm m (comp_resources ?c')" "used (comp_resources ?c') = used ?xs"
    "length (comp_resources ?c') = ?n" "\<And>b. Some b \<in> set (comp_resources ?c') \<longleftrightarrow> Some b \<in> set ?xs"
    using comp_table.fold_store [OF tab0 dist] n(2) by auto
  moreover have "comp_lists ?c' = comp_lists c" using f(4) by (simp add: comp_lists_def)
  moreover from this f have "table_good farm m ?c'" using c(3,4) n(2) by (simp add: table_good_def lists_named_def)
  ultimately show ?thesis by (intro exI [of _ ?c']) simp
qed

text \<open>A new component is empty.\<close>

lemma new_component_good:
  "\<exists>c. lcfgcomponent_new farm m = Some (c, m) \<and> table_good farm m c \<and> comp_lists c = {} \<and> comp_buckets c = LCFG_COMP_DEFAULT_SIZE \<and>
    comp_entries c = 0"
proof -
  let ?c = "comp_start\<lparr>comp_resources := replicate LCFG_COMP_DEFAULT_SIZE None\<rparr>"
  have "lcfgcomponent_new farm m = Some (?c, m)"
    by (simp add: lcfgcomponent_new_def lcfgcomponent_resize_def comp_start_def LCFG_COMP_DEFAULT_SIZE_def Let_def)
  moreover have "comp_table.table_ok farm m (replicate LCFG_COMP_DEFAULT_SIZE None)"
    by (rule comp_table.table_empty) (simp add: LCFG_COMP_DEFAULT_SIZE_def)
  ultimately show ?thesis
    by (intro exI [of _ ?c]) (auto simp: table_good_def lists_named_def comp_lists_def comp_start_def LCFG_COMP_DEFAULT_SIZE_def)
qed


section \<open>The memory of a component\<close>

text \<open>The references to a list: those of others, and one of a component that has it.\<close>

definition claims :: "(nat \<Rightarrow> nat) \<Rightarrow> LCFGComponent \<Rightarrow> nat \<Rightarrow> nat" where
  "claims K c a = K a + (if a \<in> comp_lists c then 1 else 0)"

definition comp_ok ::
    "(string \<Rightarrow> 64 word) \<Rightarrow> (nat \<Rightarrow> nat) \<Rightarrow> (nat \<Rightarrow> nat) \<Rightarrow> res_mem \<Rightarrow> LCFGComponent \<Rightarrow> bool" where
  "comp_ok farmhash64 K P m c \<longleftrightarrow> table_good farmhash64 m c \<and> res_mem_ok (claims K c) P m"

definition others :: "(nat \<Rightarrow> nat) \<Rightarrow> nat set" where
  "others K = {a. 0 < K a}"

lemma comp_nodes_some:
  "table_good farm m c \<Longrightarrow> a \<in> comp_lists c \<Longrightarrow> named_list m name a \<Longrightarrow> comp_nodes farm m c name = nodes_at m a"
  using lookup_named [of farm m c name a] by (simp add: comp_nodes_def comp_lists_def)

lemma comp_nodes_none:
  "table_good farm m c \<Longrightarrow> (\<And>a. a \<in> comp_lists c \<Longrightarrow> \<not> named_list m name a) \<Longrightarrow> comp_nodes farm m c name = []"
  using lookup_named [of farm m c name]
  by (cases "comp_table.lookup farm m (comp_resources c) name") (auto simp: comp_nodes_def comp_lists_def)

lemma name_kept:
  assumes "res_mem_ok K P m" and "evolves m m'" and "rm_res m' p \<noteq> None" and "has_res_name m name p"
  shows "has_res_name m' name p"
proof -
  from assms(4) obtain r where r: "rm_res m p = Some r" "lcfgresource_get_name r = Some name" by (auto simp: has_res_name_def)
  with res_mem_okD(3) [OF assms(1)] assms(2,3) obtain r' where "rm_res m' p = Some r'" "content r' = content r"
    unfolding evolves_def by fastforce
  then show ?thesis
    using r by (cases r; cases r') (simp add: has_res_name_def content_def lcfgresource_get_name_def)
qed

lemma named_kept:
  assumes "res_mem_ok K P m" and "res_mem_ok K' P' m'" and "evolves m m'" and "nodes_at m' a = nodes_at m a" and "named_list m name a"
  shows "named_list m' name a"
proof -
  have "has_res_name m' name p" if "p \<in> set (nodes_at m a)" for p
    using name_kept [OF assms(1,3)] node_defined [OF assms(2), of p a] that assms(4,5) by (auto simp: named_list_def list_all_iff)
  with assms(4,5) show ?thesis by (auto simp: named_list_def list_all_iff)
qed

text \<open>The table depends on the names of its lists only.\<close>

lemma table_good_kept:
  assumes "table_good farm m c" and "\<And>a. a \<in> comp_lists c \<Longrightarrow> named_list m' (reslist_name m a) a"
  shows "table_good farm m' c" and "comp_slot farm m' c name = comp_slot farm m c name"
proof -
  have name: "reslist_name m' a = reslist_name m a" if "Some a \<in> set (comp_resources c)" for a
    using assms(2) [of a] that by (auto simp: comp_lists_def intro: reslist_named)
  note tab = table_goodD(2) [OF assms(1)]
  have "comp_table.table_ok farm m' (comp_resources c)" by (rule comp_table.table_ok_cong [OF name tab])
  then show "table_good farm m' c"
    using assms name by (auto simp: table_good_def lists_named_def comp_lists_def)
  have "find_slot (comp_table.stop_at m' name) (comp_resources c) h = find_slot (comp_table.stop_at m name) (comp_resources c) h"
    if "h \<le> length (comp_resources c)" for h
    by (rule find_slot_cong [OF _ that]) (auto simp: comp_table.stop_at_def probe_ends_def name split: option.splits)
  moreover have "comp_home farm name (length (comp_resources c)) \<le> length (comp_resources c)"
    using table_goodD(6) [OF assms(1)] by (simp add: comp_home_def less_imp_le)
  ultimately show "comp_slot farm m' c name = comp_slot farm m c name"
    by (simp add: comp_slot_def comp_table.slot_of_def)
qed

section \<open>Another list in a bucket\<close>

text \<open>The table with another list in the bucket of a name.\<close>

definition with_list :: "LCFGComponent \<Rightarrow> nat \<Rightarrow> nat \<Rightarrow> LCFGComponent" where
  "with_list c i a = c\<lparr>comp_resources := (comp_resources c)[i := Some a],
     comp_entries := comp_entries c + (if comp_resources c ! i = None then 1 else 0)\<rparr>"

lemma with_list_table:
  assumes c: "table_good farm m c" and i: "comp_slot farm m c name = Some i" and a: "named_list m name a"
  shows "comp_lists (with_list c i a) = insert a {x \<in> comp_lists c. reslist_name m x \<noteq> name}"
    and "comp_table.table_ok farm m (comp_resources (with_list c i a))"
    and "comp_buckets (with_list c i a) = length (comp_resources (with_list c i a))"
    and "comp_entries (with_list c i a) = used (comp_resources (with_list c i a))"
    and "comp_resources c ! i \<noteq> None \<Longrightarrow> comp_entries (with_list c i a) < comp_buckets (with_list c i a)"
    and "i < length (comp_resources c)"
    and "comp_resources c ! i = Some x \<longleftrightarrow> x \<in> comp_lists c \<and> reslist_name m x = name"
proof -
  note key = reslist_named [OF a]
  note tab = table_goodD(2) [OF c]
  note slot = comp_table.slot_of_SomeD [OF i [unfolded comp_slot_def] table_goodD(6) [OF c]]
  from slot(1) show i_lt: "i < length (comp_resources c)" .
  have look: "comp_table.lookup farm m (comp_resources c) name = comp_resources c ! i"
    using i by (simp add: comp_table.lookup_slot comp_slot_def)
  with comp_table.lookup_iff [OF tab, of name x]
  show "comp_resources c ! i = Some x \<longleftrightarrow> x \<in> comp_lists c \<and> reslist_name m x = name" by (simp add: comp_lists_def)
  show "comp_buckets (with_list c i a) = length (comp_resources (with_list c i a))"
    using table_goodD(1) [OF c] by (simp add: with_list_def)
  show ent: "comp_entries (with_list c i a) = used (comp_resources (with_list c i a))"
    using used_update [OF i_lt, of "Some a"] table_goodD(4) [OF c] by (simp add: with_list_def split: if_splits)
  show "comp_resources c ! i \<noteq> None \<Longrightarrow> comp_entries (with_list c i a) < comp_buckets (with_list c i a)"
    using c by (auto simp: with_list_def table_good_def)
  have "comp_table.table_ok farm m ((comp_resources c)[i := Some a]) \<and>
    (\<forall>b. Some b \<in> set ((comp_resources c)[i := Some a]) \<longleftrightarrow> b = a \<or> Some b \<in> set (comp_resources c) \<and> reslist_name m b \<noteq> name)"
  proof (cases "comp_resources c ! i")
    case None
    note ins = comp_table.table_insert [OF tab, of a i]
    from None look comp_table.lookup_iff [OF tab, of name] have "Some b \<in> set (comp_resources c) \<Longrightarrow> reslist_name m b \<noteq> name" for b by auto
    with ins None i key show ?thesis by (auto simp: comp_slot_def)
  next
    case (Some x)
    with look comp_table.lookup_iff [OF tab, of name x] have x: "reslist_name m x = name" by simp
    from comp_table.table_replace [OF tab i_lt Some, of a] x key show ?thesis by simp
  qed
  then show "comp_lists (with_list c i a) = insert a {x \<in> comp_lists c. reslist_name m x \<noteq> name}"
    "comp_table.table_ok farm m (comp_resources (with_list c i a))"
    by (auto simp: comp_lists_def with_list_def)
qed


lemma nodes_kept:
  assumes "res_mem_ok K P m" and "res_mem_ok K' P' m'" and "evolves m m'" and "same_lists A m m'" and "a \<in> A" and "named_list m name a"
  shows "named_list m' name a"
  by (rule named_kept [OF assms(1-3) same_listsD(1) [OF assms(4,5)] assms(6)])

lemma set_bucket_new:
  assumes ok: "res_mem_ok ((claims K c)(a := 1)) P m" and a: "a \<notin> comp_lists c" "K a = 0"
    and c: "table_good farm m c" and i: "comp_slot farm m c name = Some i" and n: "named_list m name a"
  defines "c1 \<equiv> with_list c i a"
  shows "\<exists>m1. lcfgcomponent_set_bucket c i (Some a) m =
      Some (if comp_resources c ! i = None then LCFG_CHANGE_ADDED else LCFG_CHANGE_REPLACED, c1, m1) \<and>
    res_mem_ok ((claims K c1)(a := 2)) P m1 \<and> evolves m m1 \<and> same_lists (others K \<union> comp_lists c1) m m1"
proof -
  note t = with_list_table [OF c i n, folded c1_def]
  from named_live [OF ok n] obtain l where l: "rm_lists m a = Some l" "0 < rl_refcount l" .
  let ?m = "put_list a (Some (l\<lparr>rl_refcount := rl_refcount l + 1\<rparr>)) m"
  note acq = acquire_list_ok [OF ok l(1)]
  have K0: "((claims K c)(a := 1))(a := ((claims K c)(a := 1)) a + 1) = (claims K c)(a := 2)" by auto
  note ok1 = acq(2) [unfolded K0]
  have at: "bucket_at c i = Some (comp_resources c ! i)" using t(6) by (simp add: bucket_at_def)
  have ne: "comp_resources c ! i \<noteq> Some a" using t(7) a(1) by blast
  have same_a: "same_lists A m ?m" for A using l by (simp add: same_lists_def list_content_def)
  show ?thesis
  proof (cases "comp_resources c ! i")
    case None
    then have "comp_lists c1 = insert a (comp_lists c)" using t(1,7) by auto
    then have "(claims K c1)(a := 2) = (claims K c)(a := 2)" by (auto simp: claims_def)
    with None at acq(1) ok1 same_a show ?thesis
      by (intro exI [of _ ?m])
        (simp add: lcfgcomponent_set_bucket_def lcfgreslist_relinquish_def c1_def with_list_def evolves_def)
  next
    case (Some b)
    then have b: "b \<in> comp_lists c" "reslist_name m b = name" "b \<noteq> a" using t(7) ne by auto
    then have Kb: "((claims K c)(a := 2)) b = K b + 1" by (simp add: claims_def)
    from list_defined [OF ok1, of b] Kb obtain k where k: "rm_lists ?m b = Some k" "K b + 1 \<le> rl_refcount k" by auto
    from relinquish_list_ok [OF ok1 _ k(1)] Kb obtain m1 where m1: "lcfgreslist_relinquish (Some b) ?m = Some m1"
      "res_mem_ok (((claims K c)(a := 2))(b := K b)) P m1" "evolves ?m m1"
      "rm_lists m1 = (rm_lists ?m)(b := if rl_refcount k = 1 then None else Some (k\<lparr>rl_refcount := rl_refcount k - 1\<rparr>))" by auto
    have only: "x = b" if "x \<in> comp_lists c" "reslist_name m x = name" for x using t(7) [of x] that Some by auto
    have lists: "comp_lists c1 = insert a (comp_lists c - {b})" unfolding t(1) using only b(2) by blast
    have "(claims K c1)(a := 2) = ((claims K c)(a := 2))(b := K b)"
      using b by (auto simp: claims_def lists fun_eq_iff)
    moreover have "same_lists (others K \<union> comp_lists c1) ?m m1"
    proof -
      have "x = b \<Longrightarrow> x \<in> others K \<union> comp_lists c1 \<Longrightarrow> rl_refcount k \<noteq> 1" for x
        using k(2) b(3) lists by (auto simp: others_def)
      with m1(4) k(1) show ?thesis by (auto simp: same_lists_def list_content_def)
    qed
    ultimately have "res_mem_ok ((claims K c1)(a := 2)) P m1" "same_lists (others K \<union> comp_lists c1) m m1"
      using m1(2) same_lists_trans [OF same_a] by auto
    moreover have "evolves m m1" using m1(3) by (simp add: evolves_def)
    moreover have "lcfgcomponent_set_bucket c i (Some a) m = Some (LCFG_CHANGE_REPLACED, c1, m1)"
      using Some at acq(1) m1(1) b(3) by (simp add: lcfgcomponent_set_bucket_def c1_def with_list_def Let_def)
    ultimately show ?thesis using Some by auto
  qed
qed


text \<open>The other attributes of a component stay as they are.\<close>

definition same_attrs :: "LCFGComponent \<Rightarrow> LCFGComponent \<Rightarrow> bool" where
  "same_attrs c c' \<longleftrightarrow>
     c' = c\<lparr>comp_resources := comp_resources c', comp_buckets := comp_buckets c', comp_entries := comp_entries c'\<rparr>"

lemma same_attrs_refl [simp]: "same_attrs c c"
  by (simp add: same_attrs_def)

lemma same_attrs_update: "c' = c\<lparr>comp_resources := r, comp_buckets := b\<rparr> \<Longrightarrow> same_attrs c c'"
  by (cases c) (simp add: same_attrs_def)

lemma same_attrs_with [simp]: "same_attrs c (with_list c i a)"
  by (cases c) (simp add: same_attrs_def with_list_def)

lemma same_attrs_trans: "same_attrs c1 c2 \<Longrightarrow> same_attrs c2 c3 \<Longrightarrow> same_attrs c1 c3"
  unfolding same_attrs_def by (cases c1; cases c2; cases c3) simp

lemma same_attrsD: "same_attrs c c' \<Longrightarrow> comp_merge_rules c' = comp_merge_rules c \<and> comp_primary_key c' = comp_primary_key c"
  unfolding same_attrs_def by (cases c; cases c') simp

text \<open>The list after a merge is stored; a list that is new is given back to its only holder, the component.\<close>

lemma relinquish_new:
  assumes ok: "res_mem_ok ((claims K c)(a := n)) P m" and "K a = 0" and n: "n = claims K c a + 1"
  shows "\<exists>m'. lcfgreslist_relinquish (Some a) m = Some m' \<and> res_mem_ok (claims K c) P m' \<and> evolves m m' \<and>
    same_lists (others K \<union> comp_lists c) m m'"
proof -
  from list_defined [OF ok, of a] n obtain l where l: "rm_lists m a = Some l" "n \<le> rl_refcount l" by auto
  from relinquish_list_ok [OF ok _ l(1)] n obtain m' where m': "lcfgreslist_relinquish (Some a) m = Some m'"
    "res_mem_ok (((claims K c)(a := n))(a := n - 1)) P m'" "evolves m m'"
    "rm_lists m' = (rm_lists m)(a := if rl_refcount l = 1 then None else Some (l\<lparr>rl_refcount := rl_refcount l - 1\<rparr>))" by auto
  have "((claims K c)(a := n))(a := n - 1) = claims K c" using n by auto
  moreover have "a \<in> others K \<union> comp_lists c \<Longrightarrow> rl_refcount l \<noteq> 1" using l(2) n assms(2) by (auto simp: others_def claims_def)
  then have "same_lists (others K \<union> comp_lists c) m m'" using m'(4) l(1) by (auto simp: same_lists_def list_content_def)
  ultimately show ?thesis using m' by auto
qed

lemma comp_nodes_kept:
  assumes "table_good farm m c" and "table_good farm m' c'" and "comp_lists c' = comp_lists c"
    and "\<And>x. x \<in> comp_lists c \<Longrightarrow> named_list m' (reslist_name m x) x \<and> nodes_at m' x = nodes_at m x"
  shows "comp_nodes farm m' c' = comp_nodes farm m c"
proof
  fix name
  show "comp_nodes farm m' c' name = comp_nodes farm m c name"
  proof (cases "\<exists>x\<in>comp_lists c. reslist_name m x = name")
    case True
    then obtain x where x: "x \<in> comp_lists c" "reslist_name m x = name" by blast
    have "named_list m name x" using table_goodD(3) [OF assms(1), of x] x by (simp add: comp_lists_def)
    with x assms(3,4) comp_nodes_some [OF assms(1)] comp_nodes_some [OF assms(2)] show ?thesis by metis
  next
    case False
    have "comp_nodes farm m c name = []"
      by (rule comp_nodes_none [OF assms(1)]) (use False reslist_named in blast)
    moreover have "comp_nodes farm m' c' name = []"
      by (rule comp_nodes_none [OF assms(2)]) (use False assms(3,4) reslist_named in metis)
    ultimately show ?thesis by simp
  qed
qed

text \<open>One name has another list.\<close>

lemma comp_nodes_update:
  assumes c: "table_good farm m c" and good: "table_good farm m' c'"
    and lists: "comp_lists c' = insert a {x \<in> comp_lists c. reslist_name m x \<noteq> name}" and a: "named_list m' name a"
    and rest: "\<And>x. x \<in> comp_lists c \<Longrightarrow> reslist_name m x \<noteq> name \<Longrightarrow>
      named_list m' (reslist_name m x) x \<and> nodes_at m' x = nodes_at m x"
  shows "comp_nodes farm m' c' = (comp_nodes farm m c)(name := nodes_at m' a)"
proof
  fix nm
  show "comp_nodes farm m' c' nm = ((comp_nodes farm m c)(name := nodes_at m' a)) nm"
  proof (cases "nm = name")
    case True
    from comp_nodes_some [OF good _ a] lists True show ?thesis by simp
  next
    case False
    show ?thesis
    proof (cases "\<exists>x\<in>comp_lists c. reslist_name m x = nm")
      case True
      then obtain x where x: "x \<in> comp_lists c" "reslist_name m x = nm" by blast
      with False have x2: "x \<in> comp_lists c'" using lists by auto
      have "named_list m nm x" using table_goodD(3) [OF c, of x] x by (simp add: comp_lists_def)
      from comp_nodes_some [OF c x(1) this] comp_nodes_some [OF good x2] rest [OF x(1)] x(2) False show ?thesis by simp
    next
      case none: False
      have "comp_nodes farm m c nm = []" by (rule comp_nodes_none [OF c]) (use none reslist_named in blast)
      moreover have "comp_nodes farm m' c' nm = []"
      proof (rule comp_nodes_none [OF good])
        fix x assume "x \<in> comp_lists c'"
        then consider "x = a" | "x \<in> comp_lists c" "reslist_name m x \<noteq> name" using lists by blast
        then show "\<not> named_list m' nm x" using a rest [of x] none False reslist_named by cases metis+
      qed
      ultimately show ?thesis using False by simp
    qed
  qed
qed

lemma store_merged_new:
  assumes ok: "res_mem_ok ((claims K c)(a := 1)) P m" and a: "a \<notin> comp_lists c" "K a = 0"
    and c: "table_good farm m c" and i: "comp_slot farm m c name = Some i" and n: "named_list m name a"
    and change: "LCFGChangeOK change" "change \<noteq> LCFG_CHANGE_NONE"
  shows "\<exists>c' m'. store_merged farm c i a True change m = Some (change, c', m') \<and> comp_ok farm K P m' c' \<and>
    evolves m m' \<and> same_lists (others K) m m' \<and> same_attrs c c' \<and>
    comp_nodes farm m' c' = (comp_nodes farm m c)(name := nodes_at m a)"
proof -
  let ?c1 = "with_list c i a"
  note t = with_list_table [OF c i n]
  from set_bucket_new [OF ok a c i n] obtain m1 where
    m1: "lcfgcomponent_set_bucket c i (Some a) m =
      Some (if comp_resources c ! i = None then LCFG_CHANGE_ADDED else LCFG_CHANGE_REPLACED, ?c1, m1)"
      "res_mem_ok ((claims K ?c1)(a := 2)) P m1" "evolves m m1" "same_lists (others K \<union> comp_lists ?c1) m m1" by blast
  have named: "named_list m (reslist_name m x) x" if "x \<in> comp_lists ?c1" for x
  proof -
    have "x = a \<or> x \<in> comp_lists c" using that t(1) by auto
    then show ?thesis using table_goodD(3) [OF c, of x] n reslist_named [OF n] by (auto simp: comp_lists_def)
  qed
  have named1: "named_list m1 (reslist_name m x) x" if "x \<in> comp_lists ?c1" for x
    by (rule nodes_kept [OF ok m1(2,3,4) _ named [OF that]]) (use that in simp)
  then have lists1: "lists_named m1 ?c1" unfolding lists_named_def by (metis reslist_named)
  have tab1: "comp_table.table_ok farm m1 (comp_resources ?c1)"
    by (rule comp_table.table_ok_cong [OF _ t(2)]) (use named1 reslist_named in \<open>auto simp: comp_lists_def\<close>)
  define rs where "rs = (if comp_resources c ! i = None then lcfgcomponent_resize farm ?c1 m1 else Some (?c1, m1))"
  obtain c2 where c2: "rs = Some (c2, m1)" "table_good farm m1 c2" "comp_lists c2 = comp_lists ?c1" "same_attrs c c2"
  proof (cases "comp_resources c ! i")
    case None
    from resize_good [OF m1(2) t(3) tab1 lists1 t(4), of] obtain c' where c': "lcfgcomponent_resize farm ?c1 m1 = Some (c', m1)"
      "table_good farm m1 c'" "comp_lists c' = comp_lists ?c1" "c' = ?c1\<lparr>comp_resources := comp_resources c', comp_buckets := comp_buckets c'\<rparr>"
      by blast
    moreover have "same_attrs c c'" by (rule same_attrs_trans [OF same_attrs_with same_attrs_update [OF c'(4)]])
    ultimately show thesis using that [of c'] None rs_def by simp
  next
    case (Some b)
    then have "table_good farm m1 ?c1" using t(3-5) tab1 lists1 by (simp add: table_good_def)
    then show thesis using that [of ?c1] Some rs_def by simp
  qed
  have a2: "a \<in> comp_lists c2" using c2(3) t(1) by simp
  have "claims K ?c1 = claims K c2" using c2(3) by (simp add: claims_def fun_eq_iff)
  then have ok2: "res_mem_ok ((claims K c2)(a := 2)) P m1" using m1(2) by simp
  from relinquish_new [OF ok2 a(2)] a2 a(2) obtain m' where m': "lcfgreslist_relinquish (Some a) m1 = Some m'"
    "res_mem_ok (claims K c2) P m'" "evolves m1 m'" "same_lists (others K \<union> comp_lists c2) m1 m'" by (auto simp: claims_def)
  have ev: "evolves m m'" by (rule evolves_trans [OF m1(3) m'(3)])
  have same: "same_lists (others K \<union> comp_lists c2) m m'"
    using m1(4) m'(4) c2(3) by (auto intro: same_lists_trans)
  have namedx: "named_list m' (reslist_name m x) x" if "x \<in> comp_lists c2" for x
    by (rule nodes_kept [OF ok m'(2) ev same _ named]) (use that c2(3) in auto)
  then have good: "table_good farm m' c2"
    by (intro table_good_kept(1) [OF c2(2)]) (metis named1 c2(3) reslist_named)
  have name_a: "named_list m' name a" using namedx [OF a2] reslist_named [OF n] by simp
  have "comp_nodes farm m' c2 = (comp_nodes farm m c)(name := nodes_at m' a)"
    by (rule comp_nodes_update [OF c good _ name_a])
      (use c2(3) t(1) namedx same_listsD(1) [OF same] in auto)
  then have "comp_nodes farm m' c2 = (comp_nodes farm m c)(name := nodes_at m a)" using same_listsD(1) [OF same, of a] a2 by simp
  moreover have "store_merged farm c i a True change m = Some (change, c2, m')"
  proof -
    from named_live [OF ok n] obtain l where "rm_lists m a = Some l" "slist_ok l" "nodes l \<noteq> []" .
    with change m1(1) c2(1) m'(1) show ?thesis
      by (auto simp: store_merged_def lcfgreslist_is_empty_def rs_def LCFGChangeError_def split: if_splits)
  qed
  moreover have "same_lists (others K) m m'" using same by (simp add: same_lists_def)
  ultimately show ?thesis
    using good m'(2) ev c2(4) unfolding comp_ok_def by (intro exI [of _ c2] exI [of _ m']) auto
qed


text \<open>A list that was not used goes, and a list that is in its bucket stays.\<close>

lemma store_merged_unused:
  assumes ok: "res_mem_ok ((claims K c)(a := 1)) P m" and a: "a \<notin> comp_lists c" "K a = 0"
    and c: "table_good farm m c" and n: "named_list m name a"
    and change: "change = LCFG_CHANGE_NONE \<or> change = LCFG_CHANGE_ERROR"
  shows "\<exists>m'. store_merged farm c i a True change m = Some (change, c, m') \<and> comp_ok farm K P m' c \<and>
    evolves m m' \<and> same_lists (others K) m m' \<and> comp_nodes farm m' c = comp_nodes farm m c"
proof -
  from relinquish_new [OF ok a(2)] a obtain m' where m': "lcfgreslist_relinquish (Some a) m = Some m'"
    "res_mem_ok (claims K c) P m'" "evolves m m'" "same_lists (others K \<union> comp_lists c) m m'" by (auto simp: claims_def)
  have kept: "named_list m' (reslist_name m x) x \<and> nodes_at m' x = nodes_at m x" if "x \<in> comp_lists c" for x
    using nodes_kept [OF ok m'(2-4), of x] same_listsD(1) [OF m'(4), of x] table_goodD(3) [OF c, of x] that
    by (simp add: comp_lists_def)
  then have good: "table_good farm m' c" by (intro table_good_kept(1) [OF c]) blast
  from named_live [OF ok n] obtain l where "rm_lists m a = Some l" "slist_ok l" "nodes l \<noteq> []" .
  then have "store_merged farm c i a True change m = Some (change, c, m')"
    using change m'(1) by (auto simp: store_merged_def lcfgreslist_is_empty_def LCFGChangeOK_def LCFGChangeError_def)
  moreover have "same_lists (others K) m m'" using m'(4) by (simp add: same_lists_def)
  ultimately show ?thesis
    using good m' comp_nodes_kept [OF c good _ kept] by (auto simp: comp_ok_def)
qed

lemma store_merged_own:
  assumes "res_mem_ok K P m" and "named_list m name a" and "bucket_at c i = Some (Some a)"
  shows "store_merged farm c i a False change m = Some (change, c, m)"
proof -
  from named_live [OF assms(1,2)] obtain l where "rm_lists m a = Some l" "slist_ok l" "nodes l \<noteq> []" .
  with assms(3) show ?thesis
    by (auto simp: store_merged_def lcfgreslist_is_empty_def lcfgcomponent_set_bucket_def LCFGChangeOK_def LCFGChangeError_def)
qed

section \<open>The list to merge into\<close>

definition start_list :: "LCFGComponent \<Rightarrow> LCFGResourceList" where
  "start_list c = reslist_init\<lparr>rl_merge_rules := comp_merge_rules c, rl_primary_key := comp_primary_key c\<rparr>"

definition res_bucket_list :: "LCFGComponent \<Rightarrow> res_mem \<Rightarrow> nat option \<Rightarrow> LCFGResourceList" where
  "res_bucket_list c m b = (case b of None \<Rightarrow> start_list c | Some a \<Rightarrow> the (rm_lists m a))"

lemma writable_list_ok:
  assumes ok: "res_mem_ok (claims K c) P m" and b: "\<And>x. b = Some x \<Longrightarrow> x \<in> comp_lists c"
  shows "\<exists>a new m1 l. writable_list c b m = Some (a, new, m1) \<and> rm_lists m1 a = Some l \<and>
    list_content l = list_content (res_bucket_list c m b) \<and> evolves m m1 \<and> same_lists (others K \<union> comp_lists c) m m1 \<and>
    (\<forall>p. rm_res m1 p = None \<longleftrightarrow> rm_res m p = None) \<and> K a = 0 \<and>
    (if new then a \<notin> comp_lists c \<and> res_mem_ok ((claims K c)(a := 1)) P m1 else b = Some a \<and> m1 = m)"
proof -
  let ?a = "rm_free m"
  have fresh: "K ?a = 0" "?a \<notin> comp_lists c" "rm_lists m ?a = None"
    using fresh_claim [OF ok, of ?a] by (auto simp: claims_def split: if_splits)
  have frame: "same_lists A m m1" if "rm_lists m1 = (rm_lists m)(?a \<mapsto> l)" "?a \<notin> A" for m1 l A
    using that by (auto simp: same_lists_def)
  have out: "?a \<notin> others K \<union> comp_lists c" using fresh by (simp add: others_def)
  show ?thesis
  proof (cases b)
    case None
    have init: "nodes (start_list c) = []" "list_size (start_list c) = 0" "rl_refcount (start_list c) = 1"
      by (simp_all add: start_list_def reslist_init_def)
    note new = alloc_list_ok [OF ok init]
    let ?m1 = "snd (alloc_list (start_list c) m)"
    have "writable_list c b m = Some (?a, True, ?m1)"
      using new(1) None by (auto simp: writable_list_def lcfgcomponent_empty_list_def start_list_def split: prod.splits)
    moreover have "rm_lists ?m1 ?a = Some (start_list c)" using new(4) by simp
    moreover have "list_content (start_list c) = list_content (res_bucket_list c m b)" using None by (simp add: res_bucket_list_def)
    moreover have "\<forall>p. rm_res ?m1 p = None \<longleftrightarrow> rm_res m p = None" using new(5) by simp
    ultimately show ?thesis using new(2,3) frame [OF new(4) out] fresh(1,2)
      by (intro exI [of _ ?a] exI [of _ True] exI [of _ ?m1] exI [of _ "start_list c"]) simp
  next
    case (Some x)
    then have x: "x \<in> comp_lists c" using b by blast
    then obtain l where l: "rm_lists m x = Some l" "claims K c x \<le> rl_refcount l" "0 < rl_refcount l"
      using list_defined [OF ok, of x] by (auto simp: claims_def)
    show ?thesis
    proof (cases "1 < rl_refcount l")
      case True
      from clone_list_ok [OF ok l(1)] obtain m1 where m1: "lcfgreslist_clone x m = Some (Some ?a, m1)"
        "res_mem_ok ((claims K c)(?a := 1)) P m1" "evolves m m1" "rm_lists m1 = (rm_lists m)(?a \<mapsto> l\<lparr>rl_refcount := 1\<rparr>)"
        "\<forall>p. rm_res m1 p = None \<longleftrightarrow> rm_res m p = None" by blast
      have "writable_list c b m = Some (?a, True, m1)"
        using True Some l(1) m1(1) by (simp add: writable_list_def lcfgreslist_is_shared_def)
      moreover have "list_content (l\<lparr>rl_refcount := 1\<rparr>) = list_content (res_bucket_list c m b)"
        using Some l(1) by (simp add: res_bucket_list_def list_content_def)
      moreover have "rm_lists m1 ?a = Some (l\<lparr>rl_refcount := 1\<rparr>)" using m1(4) by simp
      ultimately show ?thesis using m1(2,3,5) frame [OF m1(4) out] fresh(1,2)
        by (intro exI [of _ ?a] exI [of _ True] exI [of _ m1] exI [of _ "l\<lparr>rl_refcount := 1\<rparr>"]) simp
    next
      case False
      then have "K x = 0" using l x by (simp add: claims_def)
      moreover have "writable_list c b m = Some (x, False, m)"
        using False Some l(1) by (simp add: writable_list_def lcfgreslist_is_shared_def)
      ultimately show ?thesis using l(1) Some
        by (intro exI [of _ x] exI [of _ False] exI [of _ m] exI [of _ l]) (simp add: res_bucket_list_def)
    qed
  qed
qed


section \<open>Merging a resource\<close>

text \<open>What a merge does depends on the contents of resources, not on their counts.\<close>

lemma content_eq: "content r' = content r \<Longrightarrow> r' = r\<lparr>res_refcount := res_refcount r'\<rparr>"
  by (cases r; cases r') (simp add: content_def)

lemma count_ignored [simp]:
  "lcfgresource_equals (x\<lparr>res_refcount := i\<rparr>) y = lcfgresource_equals x y"
  "lcfgresource_equals x (y\<lparr>res_refcount := i\<rparr>) = lcfgresource_equals x y"
  "lcfgresource_get_priority (x\<lparr>res_refcount := i\<rparr>) = lcfgresource_get_priority x"
  "same_res_key pk (x\<lparr>res_refcount := i\<rparr>) y = same_res_key pk x y"
  "same_res_key pk x (y\<lparr>res_refcount := i\<rparr>) = same_res_key pk x y"
  by (simp_all add: lcfgresource_equals_def lcfgresource_compare_def lcfgresource_compare_names_def
      lcfgresource_get_priority_def same_res_key_def lcfgresource_same_name_def lcfgresource_same_context_def Let_def)

lemma merge_plan_content:
  assumes "map_option (map_prod id content) fr' = map_option (map_prod id content) fr" and "content r' = content r"
  shows "res_merge_plan rules fr' p r' = res_merge_plan rules fr p r"
proof -
  from content_eq [OF assms(2)] obtain i where r': "r' = r\<lparr>res_refcount := i\<rparr>" by blast
  show ?thesis
  proof (cases fr)
    case None
    with assms(1) show ?thesis by (simp add: res_merge_plan_def)
  next
    case (Some qx)
    with assms(1) obtain q x x' where q: "fr = Some (q, x)" "fr' = Some (q, x')" "content x' = content x"
      by (cases qx) auto
    then obtain j where "x' = x\<lparr>res_refcount := j\<rparr>" using content_eq by blast
    then show ?thesis using q r' by (simp add: res_merge_plan_def Let_def)
  qed
qed

lemma evolved:
  assumes "res_mem_ok K P m" and "evolves m m'" and "rm_res m q = Some x" and "rm_res m' q \<noteq> None"
  shows "\<exists>x'. rm_res m' q = Some x' \<and> content x' = content x"
  using assms res_mem_okD(3) [OF assms(1,3)] unfolding evolves_def by fastforce

lemma key_node_kept:
  assumes ok: "res_mem_ok K P m" and ev: "evolves m m'" and r: "content r' = content r"
    and "\<forall>q\<in>set ps. rm_res m q \<noteq> None \<and> rm_res m' q \<noteq> None"
  shows "key_node m' pk ps r' = key_node m pk ps r"
  using assms(4)
proof (induction ps)
  case (Cons q qs)
  then obtain x where x: "rm_res m q = Some x" by auto
  with Cons evolved [OF ok ev x] obtain x' where x': "rm_res m' q = Some x'" "content x' = content x" by auto
  have "same_res_key pk x' r' = same_res_key pk x r" using content_eq [OF x'(2)] content_eq [OF r] count_ignored(4,5) by metis
  with Cons x x'(1) show ?case by (simp add: key_node_def)
qed (simp add: key_node_def)

lemma plan_for_kept:
  assumes ok: "res_mem_ok K P m" and ev: "evolves m m'" and "rm_res m p = Some r" and "rm_res m' p = Some r'"
    and nodes: "\<forall>q\<in>set (nodes l). rm_res m q \<noteq> None \<and> rm_res m' q \<noteq> None" and l: "list_content l' = list_content l"
  shows "plan_for m' l' p r' = plan_for m l p r"
proof -
  have r: "content r' = content r" using evolved [OF ok ev assms(3)] assms(4) by auto
  note key = key_node_kept [OF ok ev r nodes]
  define f where "f = key_node m (rl_primary_key l) (nodes l) r"
  have "map_option (map_prod id content) (map_option (\<lambda>i. (nodes l ! i, the (rm_res m' (nodes l ! i)))) f) =
    map_option (map_prod id content) (map_option (\<lambda>i. (nodes l ! i, the (rm_res m (nodes l ! i)))) f)"
  proof (cases f)
    case (Some i)
    then have "i < length (nodes l)" using first_node_SomeD unfolding f_def key_node_def by blast
    then have "rm_res m (nodes l ! i) \<noteq> None" "rm_res m' (nodes l ! i) \<noteq> None" using nodes by simp_all
    with evolved [OF ok ev, of "nodes l ! i"] Some show ?thesis by auto
  qed simp
  note plan = merge_plan_content [OF this r]
  show ?thesis
    using list_content_eq [OF l] plan key by (simp add: plan_for_def Let_def f_def)
qed


text \<open>After the merge: the bucket of the name has the merged list.\<close>

lemma slot_unique:
  assumes c: "table_good farm m c" and i: "comp_slot farm m c name = Some i" and "comp_resources c ! i = Some a"
  shows "i < length (comp_resources c)" and "a \<in> comp_lists c" and "reslist_name m a = name"
    and "comp_lists c = insert a {x \<in> comp_lists c. reslist_name m x \<noteq> name}"
proof -
  note slot = comp_table.slot_of_SomeD [OF i [unfolded comp_slot_def] table_goodD(6) [OF c]]
  from slot(1) show "i < length (comp_resources c)" .
  have "comp_table.lookup farm m (comp_resources c) name = Some a"
    using i assms(3) by (simp add: comp_table.lookup_slot comp_slot_def)
  then have *: "x = a \<longleftrightarrow> x \<in> comp_lists c \<and> reslist_name m x = name" for x
    using comp_table.lookup_iff [OF table_goodD(2) [OF c], of name x] by (auto simp: comp_lists_def)
  then show "a \<in> comp_lists c" "reslist_name m a = name" by (simp_all add: * [of a, THEN iffD1, OF refl])
  then show "comp_lists c = insert a {x \<in> comp_lists c. reslist_name m x \<noteq> name}" using * by blast
qed

definition unused_list :: "bool \<Rightarrow> LCFGChange \<Rightarrow> bool" where
  "unused_list new change \<longleftrightarrow> new \<and> (change = LCFG_CHANGE_NONE \<or> change = LCFG_CHANGE_ERROR)"

lemma store_step:
  assumes c: "comp_ok farm K P m c" and i: "comp_slot farm m c name = Some i"
    and K: "K a = 0" and new: "if new then a \<notin> comp_lists c else comp_resources c ! i = Some a"
    and ok: "res_mem_ok (if new then (claims K c)(a := 1) else claims K c) P m2" and ev: "evolves m m2"
    and same: "same_lists (others K \<union> (comp_lists c - {a})) m m2" and n: "named_list m2 name a"
  shows "\<exists>c' m'. store_merged farm c i a new change m2 = Some (change, c', m') \<and> comp_ok farm K P m' c' \<and>
    evolves m m' \<and> same_lists (others K) m m' \<and> same_attrs c c' \<and>
    comp_nodes farm m' c' =
      (comp_nodes farm m c)(name := if unused_list new change then comp_nodes farm m c name else nodes_at m2 a)"
proof -
  have good: "table_good farm m c" and okm: "res_mem_ok (claims K c) P m" using c by (simp_all add: comp_ok_def)
  have kept: "named_list m2 (reslist_name m x) x \<and> nodes_at m2 x = nodes_at m x" if "x \<in> comp_lists c" "x \<noteq> a" for x
    using nodes_kept [OF okm ok ev same, of x] same_listsD(1) [OF same, of x] table_goodD(3) [OF good, of x] that
    by (simp add: comp_lists_def)
  have others: "same_lists (others K) m m2" using same by (simp add: same_lists_def)
  show ?thesis
  proof (cases new)
    case True
    with new have a: "a \<notin> comp_lists c" by simp
    with kept have kept2: "x \<in> comp_lists c \<Longrightarrow> named_list m2 (reslist_name m x) x \<and> nodes_at m2 x = nodes_at m x" for x by metis
    have good2: "table_good farm m2 c" and slot2: "comp_slot farm m2 c name = Some i"
      using table_good_kept [OF good, of m2] kept2 i by simp_all
    have same2: "comp_nodes farm m2 c = comp_nodes farm m c" by (rule comp_nodes_kept [OF good good2 refl kept2])
    have ok2: "res_mem_ok ((claims K c)(a := 1)) P m2" using ok True by simp
    show ?thesis
    proof (cases "unused_list new change")
      case unused: True
      then have "change = LCFG_CHANGE_NONE \<or> change = LCFG_CHANGE_ERROR" by (simp add: unused_list_def)
      from store_merged_unused [OF ok2 a K good2 n this, of i] obtain m' where
        "store_merged farm c i a True change m2 = Some (change, c, m')" "comp_ok farm K P m' c" "evolves m2 m'"
        "same_lists (others K) m2 m'" "comp_nodes farm m' c = comp_nodes farm m2 c" by blast
      with True unused same2 ev others show ?thesis
        by (intro exI [of _ c] exI [of _ m']) (auto intro: evolves_trans same_lists_trans)
    next
      case False
      with True have "LCFGChangeOK change" "change \<noteq> LCFG_CHANGE_NONE" by (auto simp: unused_list_def LCFGChangeOK_def)
      from store_merged_new [OF ok2 a K good2 slot2 n this] obtain c' m' where
        "store_merged farm c i a True change m2 = Some (change, c', m')" "comp_ok farm K P m' c'" "evolves m2 m'"
        "same_lists (others K) m2 m'" "same_attrs c c'" "comp_nodes farm m' c' = (comp_nodes farm m2 c)(name := nodes_at m2 a)" by blast
      with True False same2 ev others show ?thesis
        by (intro exI [of _ c'] exI [of _ m']) (auto intro: evolves_trans same_lists_trans)
    qed
  next
    case False
    with new have b: "comp_resources c ! i = Some a" by simp
    note u = slot_unique [OF good i b]
    have named2: "named_list m2 (reslist_name m x) x" if "x \<in> comp_lists c" for x
      using kept [OF that] n u(3) by (cases "x = a") simp_all
    have good2: "table_good farm m2 c" by (rule table_good_kept(1) [OF good named2])
    have ok2: "res_mem_ok (claims K c) P m2" using ok False by simp
    have "store_merged farm c i a False change m2 = Some (change, c, m2)"
      by (rule store_merged_own [OF ok2 n]) (use u(1) b in \<open>simp add: bucket_at_def\<close>)
    moreover have "comp_nodes farm m2 c = (comp_nodes farm m c)(name := nodes_at m2 a)"
      by (rule comp_nodes_update [OF good good2 u(4) n]) (use kept u(3) in blast)
    ultimately show ?thesis
      using good2 ok2 False ev others by (intro exI [of _ c] exI [of _ m2]) (simp add: comp_ok_def unused_list_def)
  qed
qed

text \<open>A merged list has the name, as the first of its resources has.\<close>

lemma merged_named:
  assumes ok: "res_mem_ok K P m" and ok': "res_mem_ok K' P' m'" and ev: "evolves m m'"
    and l: "nodes_at m' a = merged_nodes ps found (res_merge_plan rules fr p r) p" and plan: "found = None \<longleftrightarrow> fr = None"
    and ps: "list_all (has_res_name m name) ps" "has_res_name m name p" and found: "\<And>i. found = Some i \<Longrightarrow> i < length ps"
    and name: "name \<noteq> []" "no_nul name"
  shows "named_list m' name a"
proof -
  obtain remove add accept where p: "res_merge_plan rules fr p r = (remove, add, accept)" by (metis prod_cases3)
  note rem = merge_plan_removes [OF p]
  have "set (nodes_at m' a) \<subseteq> insert p (set ps)"
    using l p by (auto simp: merged_nodes_def split: option.splits if_splits dest: in_set_takeD in_set_dropD)
  then have "has_res_name m name q" if "q \<in> set (nodes_at m' a)" for q using ps that by (auto simp: list_all_iff)
  then have "list_all (has_res_name m' name) (nodes_at m' a)"
    using name_kept [OF ok ev] node_defined [OF ok', of _ a] by (auto simp: list_all_iff)
  moreover have "nodes_at m' a \<noteq> []"
  proof (cases found)
    case None
    then have "add" using plan p by (simp add: res_merge_plan_def)
    then show ?thesis using l p by (simp add: merged_nodes_def)
  next
    case (Some i')
    then have "ps \<noteq> []" using found [of i'] by auto
    then show ?thesis using l p rem Some by (auto simp: merged_nodes_def)
  qed
  ultimately show ?thesis using name by (simp add: named_list_def)
qed


lemma merge_code_same:
  assumes "res_merge_plan rules fr p r = plan" and "merge_code found plan = LCFG_CHANGE_NONE \<or> merge_code found plan = LCFG_CHANGE_ERROR"
  shows "merged_nodes ps found plan p = ps"
proof -
  obtain remove add accept where "plan = (remove, add, accept)" by (metis prod_cases3)
  with merge_plan_removes [OF assms(1) [unfolded this]] assms(2) show ?thesis
    by (auto simp: merge_code_def merged_nodes_def split: if_splits option.splits)
qed

text \<open>The list that a merge starts from: the list of the name, or an empty one with the rules of the component.\<close>

definition comp_merge_target :: "(string \<Rightarrow> 64 word) \<Rightarrow> res_mem \<Rightarrow> LCFGComponent \<Rightarrow> string \<Rightarrow> LCFGResourceList" where
  "comp_merge_target farmhash64 m c name = res_bucket_list c m (comp_table.lookup farmhash64 m (comp_resources c) name)"

lemma merge_target_nodes:
  assumes "comp_ok farm K P m c"
  shows "nodes (comp_merge_target farm m c name) = comp_nodes farm m c name"
    and "list_all (has_res_name m name) (comp_nodes farm m c name)"
    and "\<forall>q\<in>set (comp_nodes farm m c name). rm_res m q \<noteq> None"
proof -
  have good: "table_good farm m c" and ok: "res_mem_ok (claims K c) P m" using assms by (simp_all add: comp_ok_def)
  show "nodes (comp_merge_target farm m c name) = comp_nodes farm m c name"
  proof (cases "comp_table.lookup farm m (comp_resources c) name")
    case (Some a)
    then have "named_list m name a" using lookup_named [OF good] by simp
    from named_live [OF ok this] obtain l where "rm_lists m a = Some l" "nodes l = nodes_at m a" .
    with Some show ?thesis by (simp add: comp_merge_target_def res_bucket_list_def comp_nodes_def)
  qed (simp add: comp_merge_target_def res_bucket_list_def comp_nodes_def start_list_def reslist_init_def)
  show all: "list_all (has_res_name m name) (comp_nodes farm m c name)"
    using lookup_named [OF good, of name] by (auto simp: comp_nodes_def named_list_def split: option.splits)
  then show "\<forall>q\<in>set (comp_nodes farm m c name). rm_res m q \<noteq> None" by (auto simp: list_all_iff has_res_name_def)
qed

lemma merge_resource_step:
  assumes c: "comp_ok farm K P m c" and r: "rm_res m p = Some r" and name: "lcfgresource_get_name r = Some name" "name \<noteq> []" "no_nul name"
    and plan: "plan_for m (comp_merge_target farm m c name) p r = (found, plan)"
  shows "\<exists>c' msg' m'. lcfgcomponent_merge_resource farm c p msg m = Some (merge_code found plan, c', msg', m') \<and>
    comp_ok farm K P m' c' \<and> evolves m m' \<and> same_lists (others K) m m' \<and> same_attrs c c' \<and>
    comp_nodes farm m' c' = (comp_nodes farm m c)(name := merged_nodes (comp_nodes farm m c name) found plan p)"
proof -
  have good: "table_good farm m c" and ok: "res_mem_ok (claims K c) P m" using c by (simp_all add: comp_ok_def)
  note target = merge_target_nodes [OF c, of name]
  let ?ps = "comp_nodes farm m c name"
  from slot_list [OF good, of name] obtain i where i: "i < length (comp_resources c)" "comp_slot farm m c name = Some i"
    "comp_resources c ! i = comp_table.lookup farm m (comp_resources c) name" by blast
  note bucket = find_bucket_slot [OF table_goodD(1,6,3) [OF good] name(3), of farm]
  have "x \<in> comp_lists c" if "comp_resources c ! i = Some x" for x using slot_unique(2) [OF good i(2) that] .
  from writable_list_ok [OF ok this] obtain a new m1 l where w: "writable_list c (comp_resources c ! i) m = Some (a, new, m1)"
    "rm_lists m1 a = Some l" "list_content l = list_content (comp_merge_target farm m c name)" "evolves m m1"
    "same_lists (others K \<union> comp_lists c) m m1" "\<forall>q. rm_res m1 q = None \<longleftrightarrow> rm_res m q = None" "K a = 0"
    "if new then a \<notin> comp_lists c \<and> res_mem_ok ((claims K c)(a := 1)) P m1 else comp_resources c ! i = Some a \<and> m1 = m"
    unfolding comp_merge_target_def i(3) [symmetric] by blast
  have ok1: "res_mem_ok (if new then (claims K c)(a := 1) else claims K c) P m1" using w(8) ok by (auto split: if_splits)
  have ps: "nodes l = ?ps" using list_content_eq [OF w(3)] target(1) by simp
  obtain r1 where r1: "rm_res m1 p = Some r1" "content r1 = content r" using evolved [OF ok w(4) r] w(6) r by auto
  then have "lcfgresource_get_name r1 = Some name" using name(1) content_eq [OF r1(2)]
    by (metis lcfgresource_get_name_def LCFGResource.select_convs(1) LCFGResource.surjective LCFGResource.update_convs(9))
  then have valid: "lcfgresource_is_valid (Some r1)" using name(2) by (simp add: lcfgresource_is_valid_def lcfgresource_get_name_def isempty_def)
  have "plan_for m1 l p r1 = (found, plan)"
    using plan_for_kept [OF ok w(4) r r1(1) _ w(3)] plan target(1,3) w(6) by auto
  from merge_resource_result [OF ok1 w(2) r1(1) valid this, of msg] obtain msg' m2 where
    m2: "lcfgreslist_merge_resource a p msg m1 = Some (merge_code found plan, msg', m2)"
    "res_mem_ok (if new then (claims K c)(a := 1) else claims K c) P m2" "evolves m1 m2"
    "rm_lists m2 = (rm_lists m1)(a \<mapsto> l\<lparr>nodes := merged_nodes ?ps found plan p, list_size := length (merged_nodes ?ps found plan p)\<rparr>)"
    unfolding ps Let_def by blast
  have nodes_a: "nodes_at m2 a = merged_nodes ?ps found plan p" using m2(4) by (simp add: nodes_at_def)
  have ev: "evolves m m2" by (rule evolves_trans [OF w(4) m2(3)])
  have same: "same_lists (others K \<union> (comp_lists c - {a})) m m2"
    using w(5,7) m2(4) by (auto simp: same_lists_def others_def)
  obtain fr where fr: "plan = res_merge_plan (rl_merge_rules (comp_merge_target farm m c name)) fr p r" "found = None \<longleftrightarrow> fr = None"
    "\<And>j. found = Some j \<Longrightarrow> j < length ?ps"
    using plan first_node_SomeD target(1) by (auto simp: plan_for_def Let_def key_node_def)
  have p_named: "has_res_name m name p" using r name(1) by (simp add: has_res_name_def)
  have named: "named_list m2 name a"
    by (rule merged_named [OF ok m2(2) ev nodes_a [unfolded fr(1)] fr(2) target(2) p_named fr(3) name(2,3)])
  have "if new then a \<notin> comp_lists c else comp_resources c ! i = Some a" using w(8) by (auto split: if_splits)
  from store_step [OF c i(2) w(7) this m2(2) ev same named, of "merge_code found plan"] obtain c' m' where
    m': "store_merged farm c i a new (merge_code found plan) m2 = Some (merge_code found plan, c', m')" "comp_ok farm K P m' c'"
    "evolves m m'" "same_lists (others K) m m'" "same_attrs c c'"
    "comp_nodes farm m' c' = (comp_nodes farm m c)(name := if unused_list new (merge_code found plan) then ?ps else nodes_at m2 a)" by blast
  have "unused_list new (merge_code found plan) \<Longrightarrow> ?ps = merged_nodes ?ps found plan p"
    using merge_code_same [OF fr(1) [symmetric]] by (auto simp: unused_list_def)
  then have "comp_nodes farm m' c' = (comp_nodes farm m c)(name := merged_nodes ?ps found plan p)"
    using m'(6) nodes_a by auto
  moreover have "lcfgcomponent_merge_resource farm c p msg m = Some (merge_code found plan, c', msg', m')"
  proof -
    have "lcfgresource_is_valid (Some r)" using name(1,2) by (simp add: lcfgresource_is_valid_def lcfgresource_get_name_def isempty_def)
    then show ?thesis
      using r name(1) bucket i(1,2) w(1) m2(1) m'(1) by (simp add: lcfgcomponent_merge_resource_def bucket_at_def)
  qed
  ultimately show ?thesis using m' by blast
qed


section \<open>Merging a component\<close>

text \<open>Merging the nodes of a list of another holder, which keeps its list.\<close>

lemma merge_one_ok:
  assumes ok: "res_mem_ok K P m" and l: "rm_lists m a = Some l" and named: "list_all (has_res_name m name) (nodes l)"
    and p: "has_res_name m name p" and name: "name \<noteq> []" "no_nul name"
  shows "\<exists>ch msg' m' l'. lcfgreslist_merge_resource a p msg m = Some (ch, msg', m') \<and> res_mem_ok K P m' \<and> evolves m m' \<and>
    rm_lists m' = (rm_lists m)(a \<mapsto> l') \<and> named_list m' name a \<and> (nodes l = [] \<longrightarrow> ch = LCFG_CHANGE_ADDED)"
proof -
  obtain r where r: "rm_res m p = Some r" "lcfgresource_get_name r = Some name" using p by (auto simp: has_res_name_def)
  then have valid: "lcfgresource_is_valid (Some r)" using name(1) by (simp add: lcfgresource_is_valid_def lcfgresource_get_name_def isempty_def)
  obtain found plan where plan: "plan_for m l p r = (found, plan)" by (cases "plan_for m l p r")
  from merge_resource_result [OF ok l r(1) valid plan, of msg] obtain msg' m' where m':
    "lcfgreslist_merge_resource a p msg m = Some (merge_code found plan, msg', m')" "res_mem_ok K P m'" "evolves m m'"
    "rm_lists m' = (rm_lists m)(a \<mapsto> l\<lparr>nodes := merged_nodes (nodes l) found plan p,
       list_size := length (merged_nodes (nodes l) found plan p)\<rparr>)" unfolding Let_def by blast
  obtain fr where fr: "plan = res_merge_plan (rl_merge_rules l) fr p r" "found = None \<longleftrightarrow> fr = None"
    "\<And>j. found = Some j \<Longrightarrow> j < length (nodes l)"
    using plan first_node_SomeD by (auto simp: plan_for_def Let_def key_node_def)
  have "nodes_at m' a = merged_nodes (nodes l) found plan p" using m'(4) by (simp add: nodes_at_def)
  then have "named_list m' name a"
    by (intro merged_named [OF ok m'(2,3) _ fr(2) named p fr(3) name]) (simp add: fr(1))
  moreover have "nodes l = [] \<Longrightarrow> merge_code found plan = LCFG_CHANGE_ADDED"
    using plan by (auto simp: plan_for_def Let_def key_node_def res_merge_plan_def merge_code_def)
  ultimately show ?thesis using m' by blast
qed

lemma merge_nodes_ok:
  assumes "res_mem_ok K P m" and "rm_lists m a = Some l" and "list_all (has_res_name m name) (nodes l)"
    and "named_list m name b" and "set ps \<subseteq> set (nodes_at m b)" and "b \<noteq> a"
    and "ps = [] \<Longrightarrow> named_list m name a" and "LCFGChangeOK change"
  shows "\<exists>ch msg' m' l'. merge_nodes a ps change msg m = Some (ch, msg', m') \<and> res_mem_ok K P m' \<and> evolves m m' \<and>
    rm_lists m' = (rm_lists m)(a \<mapsto> l') \<and> named_list m' name a \<and>
    (change \<noteq> LCFG_CHANGE_NONE \<or> nodes l = [] \<longrightarrow> ch \<noteq> LCFG_CHANGE_NONE)"
  using assms
proof (induction ps arbitrary: m l change msg)
  case Nil
  then have "nodes l \<noteq> []" by (auto simp: named_list_def nodes_at_def)
  with Nil show ?case by (intro exI [of _ change] exI [of _ msg] exI [of _ m] exI [of _ l]) (simp add: fun_upd_idem)
next
  case (Cons p ps)
  have name: "name \<noteq> []" "no_nul name" "has_res_name m name p"
    using Cons.prems(4,5) by (auto simp: named_list_def list_all_iff)
  from merge_one_ok [OF Cons.prems(1-3) name(3,1,2), of msg] obtain ch1 msg1 m1 l1 where
    m1: "lcfgreslist_merge_resource a p msg m = Some (ch1, msg1, m1)" "res_mem_ok K P m1" "evolves m m1"
    "rm_lists m1 = (rm_lists m)(a \<mapsto> l1)" "named_list m1 name a" "nodes l = [] \<Longrightarrow> ch1 = LCFG_CHANGE_ADDED" by blast
  let ?ch = "if LCFGChangeError ch1 then ch1 else if ch1 \<noteq> LCFG_CHANGE_NONE then LCFG_CHANGE_MODIFIED else change"
  have run: "merge_nodes a (p # ps) change msg m = merge_nodes a ps ?ch msg1 m1" using m1(1) Cons.prems(8) by simp
  have b: "nodes_at m1 b = nodes_at m b" using m1(4) Cons.prems(6) by (simp add: nodes_at_def)
  have l1: "rm_lists m1 a = Some l1" "nodes l1 = nodes_at m1 a" using m1(4) by (simp_all add: nodes_at_def)
  show ?case
  proof (cases "LCFGChangeOK ?ch")
    case True
    have "list_all (has_res_name m1 name) (nodes l1)" using m1(5) l1(2) by (simp add: named_list_def)
    moreover have "set ps \<subseteq> set (nodes_at m1 b)" using Cons.prems(5) b by simp
    ultimately obtain ch msg' m' l' where m': "merge_nodes a ps ?ch msg1 m1 = Some (ch, msg', m')" "res_mem_ok K P m'" "evolves m1 m'"
      "rm_lists m' = (rm_lists m1)(a \<mapsto> l')" "named_list m' name a"
      "?ch \<noteq> LCFG_CHANGE_NONE \<or> nodes l1 = [] \<longrightarrow> ch \<noteq> LCFG_CHANGE_NONE"
      using Cons.IH [OF m1(2) l1(1) _ named_kept [OF Cons.prems(1) m1(2,3) b Cons.prems(4)] _ Cons.prems(6) m1(5) True, of msg1] by blast
    have "rm_lists m' = (rm_lists m)(a \<mapsto> l')" using m'(4) m1(4) by (simp add: fun_eq_iff)
    moreover have "change \<noteq> LCFG_CHANGE_NONE \<or> nodes l = [] \<longrightarrow> ch \<noteq> LCFG_CHANGE_NONE"
      using m'(6) m1(6) by (auto simp: LCFGChangeError_def split: if_splits)
    moreover have "merge_nodes a (p # ps) change msg m = Some (ch, msg', m')" using run m'(1) by simp
    ultimately show ?thesis using m'(2,5) evolves_trans [OF m1(3) m'(3)] by blast
  next
    case False
    then have "merge_nodes a ps ?ch msg1 m1 = Some (?ch, msg1, m1)" by (cases ps) auto
    moreover have "?ch \<noteq> LCFG_CHANGE_NONE" using False by (auto simp: LCFGChangeOK_def)
    ultimately show ?thesis using run m1(2-5) by (intro exI [of _ ?ch] exI [of _ msg1] exI [of _ m1] exI [of _ l1]) simp
  qed
qed

text \<open>One bucket of the second component.\<close>

definition bucket_named :: "res_mem \<Rightarrow> LCFGComponent \<Rightarrow> string \<Rightarrow> nat \<Rightarrow> bool" where
  "bucket_named m c name i \<longleftrightarrow> (\<exists>b. comp_resources c ! i = Some b \<and> named_list m name b)"

lemma merge_bucket_ok:
  assumes c: "comp_ok farm K P m c" and b: "b \<in> others K" "named_list m name b"
  shows "\<exists>i a new m1 ch msg' m2 c' m'. lcfgcomponent_find_bucket farm m c name = Some (Some i) \<and>
    bucket_at c i = Some (comp_resources c ! i) \<and> writable_list c (comp_resources c ! i) m = Some (a, new, m1) \<and>
    lcfgreslist_merge_list a b msg m1 = Some (ch, msg', m2) \<and> store_merged farm c i a new ch m2 = Some (ch, c', m') \<and>
    comp_ok farm K P m' c' \<and> evolves m m' \<and> same_lists (others K) m m' \<and> same_attrs c c' \<and>
    (\<exists>ns. comp_nodes farm m' c' = (comp_nodes farm m c)(name := ns) \<and>
      (LCFGChangeOK ch \<or> comp_nodes farm m c name \<noteq> [] \<longrightarrow> ns \<noteq> []))"
proof -
  have good: "table_good farm m c" and ok: "res_mem_ok (claims K c) P m" using c by (simp_all add: comp_ok_def)
  have name: "no_nul name" using b(2) by (simp add: named_list_def)
  note target = merge_target_nodes [OF c, of name]
  from slot_list [OF good, of name] obtain i where i: "i < length (comp_resources c)" "comp_slot farm m c name = Some i"
    "comp_resources c ! i = comp_table.lookup farm m (comp_resources c) name" by blast
  have "x \<in> comp_lists c" if "comp_resources c ! i = Some x" for x using slot_unique(2) [OF good i(2) that] .
  from writable_list_ok [OF ok this] obtain a new m1 l where w: "writable_list c (comp_resources c ! i) m = Some (a, new, m1)"
    "rm_lists m1 a = Some l" "list_content l = list_content (comp_merge_target farm m c name)" "evolves m m1"
    "same_lists (others K \<union> comp_lists c) m m1" "\<forall>q. rm_res m1 q = None \<longleftrightarrow> rm_res m q = None" "K a = 0"
    "if new then a \<notin> comp_lists c \<and> res_mem_ok ((claims K c)(a := 1)) P m1 else comp_resources c ! i = Some a \<and> m1 = m"
    unfolding comp_merge_target_def i(3) [symmetric] by blast
  have ok1: "res_mem_ok (if new then (claims K c)(a := 1) else claims K c) P m1" using w(8) ok by (auto split: if_splits)
  have ne: "b \<noteq> a" using b(1) w(7) by (auto simp: others_def)
  have b1: "named_list m1 name b" by (rule nodes_kept [OF ok ok1 w(4,5) _ b(2)]) (simp add: b(1))
  have ps: "nodes l = comp_nodes farm m c name" using list_content_eq [OF w(3)] target(1) by simp
  have "list_all (has_res_name m1 name) (nodes l)"
    using target(2,3) name_kept [OF ok w(4)] w(6) unfolding ps by (auto simp: list_all_iff)
  from merge_nodes_ok [OF ok1 w(2) this b1 subset_refl ne _, of LCFG_CHANGE_NONE msg] obtain ch msg' m2 l' where
    m2: "merge_nodes a (nodes_at m1 b) LCFG_CHANGE_NONE msg m1 = Some (ch, msg', m2)"
    "res_mem_ok (if new then (claims K c)(a := 1) else claims K c) P m2" "evolves m1 m2"
    "rm_lists m2 = (rm_lists m1)(a \<mapsto> l')" "named_list m2 name a" "nodes l = [] \<longrightarrow> ch \<noteq> LCFG_CHANGE_NONE"
    using b1 unfolding named_list_def LCFGChangeOK_def by blast
  have merge: "lcfgreslist_merge_list a b msg m1 = Some (ch, msg', m2)"
    using m2(1) nodes_at_SomeD [of m1 b] b1 by (auto simp: lcfgreslist_merge_list_def named_list_def)
  have ev: "evolves m m2" by (rule evolves_trans [OF w(4) m2(3)])
  have same: "same_lists (others K \<union> (comp_lists c - {a})) m m2" using w(5,7) m2(4) by (auto simp: same_lists_def others_def)
  have "if new then a \<notin> comp_lists c else comp_resources c ! i = Some a" using w(8) by (auto split: if_splits)
  from store_step [OF c i(2) w(7) this m2(2) ev same m2(5), of ch] obtain c' m' where
    m': "store_merged farm c i a new ch m2 = Some (ch, c', m')" "comp_ok farm K P m' c'"
    "evolves m m'" "same_lists (others K) m m'" "same_attrs c c'"
    "comp_nodes farm m' c' = (comp_nodes farm m c)(name := if unused_list new ch then comp_nodes farm m c name else nodes_at m2 a)" by blast
  have "nodes_at m2 a \<noteq> []" using m2(5) by (simp add: named_list_def)
  then have "LCFGChangeOK ch \<or> comp_nodes farm m c name \<noteq> [] \<longrightarrow>
      (if unused_list new ch then comp_nodes farm m c name else nodes_at m2 a) \<noteq> []"
    using m2(6) ps by (auto simp: unused_list_def LCFGChangeOK_def)
  moreover have "lcfgcomponent_find_bucket farm m c name = Some (Some i)"
    using find_bucket_slot [OF table_goodD(1,6,3) [OF good] name] i(2) by simp
  moreover have "bucket_at c i = Some (comp_resources c ! i)" using i(1) by (simp add: bucket_at_def)
  ultimately show ?thesis using w(1) merge m' by blast
qed


text \<open>All buckets of the second component, whose lists have other holders.\<close>

lemma merge_buckets_ok:
  assumes "comp_ok farm K P m c" and "comp_lists c2 \<subseteq> others K" and "lists_named m c2"
    and "\<forall>i\<in>set js. i < length (comp_resources c2)" and "LCFGChangeOK change"
  shows "\<exists>ch c' msg' m'. merge_buckets farm c2 js change c msg m = Some (ch, c', msg', m') \<and>
    comp_ok farm K P m' c' \<and> evolves m m' \<and> same_lists (others K) m m' \<and> same_attrs c c' \<and>
    (\<forall>name. (\<forall>i\<in>set js. \<not> bucket_named m c2 name i) \<longrightarrow> comp_nodes farm m' c' name = comp_nodes farm m c name) \<and>
    (\<forall>name. comp_nodes farm m c name \<noteq> [] \<longrightarrow> comp_nodes farm m' c' name \<noteq> []) \<and>
    (LCFGChangeOK ch \<longrightarrow> (\<forall>name. (\<exists>i\<in>set js. bucket_named m c2 name i) \<longrightarrow> comp_nodes farm m' c' name \<noteq> []))"
  using assms
proof (induction js arbitrary: m c change msg)
  case Nil
  then show ?case by (intro exI [of _ change] exI [of _ c] exI [of _ msg] exI [of _ m]) simp
next
  case (Cons i js)
  show ?case
  proof (cases "comp_resources c2 ! i")
    case None
    from Cons.IH [OF Cons.prems(1-3) _ Cons.prems(5), of msg] Cons.prems(4) obtain ch c' msg' m' where
      m': "merge_buckets farm c2 js change c msg m = Some (ch, c', msg', m')"
      "comp_ok farm K P m' c'" "evolves m m'" "same_lists (others K) m m'" "same_attrs c c'"
      "\<forall>name. (\<forall>i\<in>set js. \<not> bucket_named m c2 name i) \<longrightarrow> comp_nodes farm m' c' name = comp_nodes farm m c name"
      "\<forall>name. comp_nodes farm m c name \<noteq> [] \<longrightarrow> comp_nodes farm m' c' name \<noteq> []"
      "LCFGChangeOK ch \<longrightarrow> (\<forall>name. (\<exists>i\<in>set js. bucket_named m c2 name i) \<longrightarrow> comp_nodes farm m' c' name \<noteq> [])"
      by (metis list.set_intros(2))
    have "\<not> bucket_named m c2 name i" for name using None by (simp add: bucket_named_def)
    moreover have "merge_buckets farm c2 (i # js) change c msg m = Some (ch, c', msg', m')"
      using m'(1) None Cons.prems(4,5) by (simp add: bucket_at_def lcfgreslist_is_empty_def)
    ultimately show ?thesis using m' by auto
  next
    case (Some b)
    let ?n = "reslist_name m b"
    have "b \<in> comp_lists c2" using Some Cons.prems(4) nth_mem [of i "comp_resources c2"] by (simp add: comp_lists_def)
    then have b: "b \<in> others K" "named_list m ?n b" using Cons.prems(2,3) by (auto simp: lists_named_def)
    from merge_bucket_ok [OF Cons.prems(1) b, of msg] obtain j a new m1 ch1 msg1 m2 c1 m3 ns where step:
      "lcfgcomponent_find_bucket farm m c ?n = Some (Some j)" "bucket_at c j = Some (comp_resources c ! j)"
      "writable_list c (comp_resources c ! j) m = Some (a, new, m1)" "lcfgreslist_merge_list a b msg m1 = Some (ch1, msg1, m2)"
      "store_merged farm c j a new ch1 m2 = Some (ch1, c1, m3)" "comp_ok farm K P m3 c1" "evolves m m3"
      "same_lists (others K) m m3" "same_attrs c c1" "comp_nodes farm m3 c1 = (comp_nodes farm m c)(?n := ns)"
      "LCFGChangeOK ch1 \<or> comp_nodes farm m c ?n \<noteq> [] \<longrightarrow> ns \<noteq> []" by blast
    have ok: "res_mem_ok (claims K c) P m" "res_mem_ok (claims K c1) P m3" using Cons.prems(1) step(6) by (simp_all add: comp_ok_def)
    from named_live [OF ok(1) b(2)] obtain l where l: "rm_lists m b = Some l" "slist_ok l" "nodes l \<noteq> []" .
    have run: "merge_buckets farm c2 (i # js) change c msg m = merge_buckets farm c2 js ch1 c1 msg1 m3"
      using Cons.prems(4,5) Some step(1-5) l named_get_name [OF b(2)] by (simp add: bucket_at_def lcfgreslist_is_empty_def)
    have named3: "named_list m3 (reslist_name m x) x" if "x \<in> comp_lists c2" for x
      using nodes_kept [OF ok step(7,8), of x] Cons.prems(2,3) that by (auto simp: lists_named_def)
    have iff: "bucket_named m3 c2 name k \<longleftrightarrow> bucket_named m c2 name k" if "k \<in> set js" for name k
    proof (cases "comp_resources c2 ! k")
      case (Some x)
      then have "x \<in> comp_lists c2" using that Cons.prems(4) nth_mem [of k "comp_resources c2"] by (simp add: comp_lists_def)
      then show ?thesis using named3 Cons.prems(3) reslist_named Some unfolding bucket_named_def lists_named_def
        by (metis option.inject)
    qed (simp add: bucket_named_def)
    have here: "bucket_named m c2 name i \<longleftrightarrow> name = ?n" for name
      unfolding bucket_named_def Some using b(2) by (metis option.inject reslist_named)
    show ?thesis
    proof (cases "LCFGChangeOK ch1")
      case True
      have "lists_named m3 c2" unfolding lists_named_def using named3 reslist_named by metis
      moreover have "\<forall>i\<in>set js. i < length (comp_resources c2)" using Cons.prems(4) by simp
      ultimately obtain ch c' msg' m' where
        m': "merge_buckets farm c2 js ch1 c1 msg1 m3 = Some (ch, c', msg', m')"
        "comp_ok farm K P m' c'" "evolves m3 m'" "same_lists (others K) m3 m'" "same_attrs c1 c'"
        "\<forall>name. (\<forall>i\<in>set js. \<not> bucket_named m3 c2 name i) \<longrightarrow> comp_nodes farm m' c' name = comp_nodes farm m3 c1 name"
        "\<forall>name. comp_nodes farm m3 c1 name \<noteq> [] \<longrightarrow> comp_nodes farm m' c' name \<noteq> []"
        "LCFGChangeOK ch \<longrightarrow> (\<forall>name. (\<exists>i\<in>set js. bucket_named m3 c2 name i) \<longrightarrow> comp_nodes farm m' c' name \<noteq> [])"
        using Cons.IH [OF step(6) Cons.prems(2) _ _ True, of msg1] by blast
      have "\<forall>name. (\<forall>k\<in>set (i # js). \<not> bucket_named m c2 name k) \<longrightarrow> comp_nodes farm m' c' name = comp_nodes farm m c name"
        using m'(6) iff here step(10) by simp
      moreover have "\<forall>name. comp_nodes farm m c name \<noteq> [] \<longrightarrow> comp_nodes farm m' c' name \<noteq> []"
        using m'(7) step(10,11) by (metis fun_upd_apply)
      moreover have "LCFGChangeOK ch \<longrightarrow> (\<forall>name. (\<exists>k\<in>set (i # js). bucket_named m c2 name k) \<longrightarrow> comp_nodes farm m' c' name \<noteq> [])"
        using m'(7,8) iff here step(10,11) True by auto
      moreover have "evolves m m'" "same_lists (others K) m m'" "same_attrs c c'"
        using step(7-9) m'(3-5) by (auto intro: evolves_trans same_lists_trans same_attrs_trans)
      moreover have "merge_buckets farm c2 (i # js) change c msg m = Some (ch, c', msg', m')" using run m'(1) by simp
      ultimately show ?thesis using m'(2) by (intro exI [of _ ch] exI [of _ c'] exI [of _ msg'] exI [of _ m'] conjI)
    next
      case False
      then have "merge_buckets farm c2 js ch1 c1 msg1 m3 = Some (ch1, c1, msg1, m3)" by (cases js) auto
      moreover have "\<forall>name. comp_nodes farm m c name \<noteq> [] \<longrightarrow> comp_nodes farm m3 c1 name \<noteq> []"
        using step(10,11) by simp
      ultimately show ?thesis using run step(6-10) here False
        by (intro exI [of _ ch1] exI [of _ c1] exI [of _ msg1] exI [of _ m3]) simp
    qed
  qed
qed


section \<open>Destroying a component\<close>

definition one_bucket_each :: "LCFGComponent \<Rightarrow> bool" where
  "one_bucket_each c \<longleftrightarrow> distinct (entries_of (comp_resources c))"

lemma entries_update_none:
  "i < length xs \<Longrightarrow> xs ! i = Some a \<Longrightarrow> distinct (entries_of xs) \<Longrightarrow>
    distinct (entries_of (xs[i := None])) \<and> set (entries_of (xs[i := None])) = set (entries_of xs) - {a}"
proof (induction xs arbitrary: i)
  case (Cons x xs)
  have keep: "b \<in> set (entries_of (xs[k := None])) \<Longrightarrow> b \<in> set (entries_of xs)" for b k
    using set_update_subset_insert [of xs k None] by auto
  show ?case
  proof (cases i)
    case 0
    with Cons.prems show ?thesis by (auto simp del: entries_of_facts)
  next
    case (Suc k)
    with Cons.prems have k: "k < length xs" "xs ! k = Some a" "distinct (entries_of xs)" by (auto split: option.splits simp del: entries_of_facts)
    then have "a \<in> set (entries_of xs)" by (metis entries_of_facts(1) mem_Collect_eq nth_mem)
    with Cons.IH [OF k] Suc Cons.prems(3) keep show ?thesis by (cases x) (auto simp del: entries_of_facts)
  qed
qed simp

lemma comp_lists_entries: "comp_lists c = set (entries_of (comp_resources c))"
  by (simp add: comp_lists_def)

lemma remove_loop_ok:
  assumes "res_mem_ok (claims K c) P m" and "one_bucket_each c" and "\<forall>i\<in>set js. i < length (comp_resources c)"
  shows "\<exists>c' m'. remove_loop js c m = Some (c', m') \<and> res_mem_ok (claims K c') P m' \<and> evolves m m' \<and>
    same_lists (others K) m m' \<and> length (comp_resources c') = length (comp_resources c) \<and>
    (\<forall>i<length (comp_resources c). comp_resources c' ! i = (if i \<in> set js then None else comp_resources c ! i))"
  using assms
proof (induction js arbitrary: m c)
  case (Cons i js)
  have i: "i < length (comp_resources c)" using Cons.prems(3) by simp
  show ?case
  proof (cases "comp_resources c ! i")
    case None
    with i have "lcfgcomponent_set_bucket c i None m = Some (LCFG_CHANGE_NONE, c, m)"
      by (simp add: lcfgcomponent_set_bucket_def bucket_at_def)
    with Cons.IH [OF Cons.prems(1,2)] Cons.prems(3) None show ?thesis by fastforce
  next
    case (Some a)
    let ?c = "c\<lparr>comp_resources := (comp_resources c)[i := None], comp_entries := comp_entries c - 1\<rparr>"
    note e = entries_update_none [OF i Some Cons.prems(2) [unfolded one_bucket_each_def]]
    have c1: "one_bucket_each ?c" "comp_lists ?c = comp_lists c - {a}"
      using e by (simp_all add: one_bucket_each_def comp_lists_entries del: entries_of_facts)
    have a: "a \<in> comp_lists c" using i Some nth_mem [of i "comp_resources c"] by (simp add: comp_lists_def)
    then obtain l where l: "rm_lists m a = Some l" "rl_refcount l = K a + 1"
      using list_defined [OF Cons.prems(1), of a] by (auto simp: claims_def)
    have Ka: "0 < claims K c a" using a by (simp add: claims_def)
    from relinquish_list_ok [OF Cons.prems(1) Ka l(1)] obtain m1 where
      m1: "lcfgreslist_relinquish (Some a) m = Some m1" "res_mem_ok ((claims K c)(a := claims K c a - 1)) P m1" "evolves m m1"
      "rm_lists m1 = (rm_lists m)(a := if rl_refcount l = 1 then None else Some (l\<lparr>rl_refcount := rl_refcount l - 1\<rparr>))" by blast
    have "(claims K c)(a := claims K c a - 1) = claims K ?c" using a c1(2) by (simp add: claims_def fun_eq_iff)
    with m1(2) have ok1: "res_mem_ok (claims K ?c) P m1" by simp
    have "same_lists (others K) m m1" using m1(4) l by (auto simp: same_lists_def others_def list_content_def)
    moreover have "lcfgcomponent_set_bucket c i None m = Some (LCFG_CHANGE_REMOVED, ?c, m1)"
      using i Some m1(1) by (simp add: lcfgcomponent_set_bucket_def bucket_at_def Let_def)
    moreover have "\<forall>k\<in>set js. k < length (comp_resources ?c)" using Cons.prems(3) by simp
    from Cons.IH [OF ok1 c1(1) this] obtain c' m' where "remove_loop js ?c m1 = Some (c', m')" "res_mem_ok (claims K c') P m'"
      "evolves m1 m'" "same_lists (others K) m1 m'" "length (comp_resources c') = length (comp_resources c)"
      "\<forall>k<length (comp_resources c). comp_resources c' ! k = (if k \<in> set js then None else (comp_resources c)[i := None] ! k)" by auto
    ultimately show ?thesis
      using m1(3) by (intro exI [of _ c'] exI [of _ m']) (auto intro: evolves_trans same_lists_trans simp: nth_list_update)
  qed
qed simp

lemma destroy_ok:
  assumes "comp_ok farm K P m c"
  shows "\<exists>m'. lcfgcomponent_destroy c m = Some m' \<and> res_mem_ok K P m' \<and> evolves m m' \<and> same_lists (others K) m m'"
proof -
  have good: "table_good farm m c" and ok: "res_mem_ok (claims K c) P m" using assms by (simp_all add: comp_ok_def)
  have "distinct (map (reslist_name m) (entries_of (comp_resources c)))" by (rule comp_table.table_distinct [OF table_goodD(2) [OF good]])
  then have one: "one_bucket_each c" by (simp add: one_bucket_each_def distinct_map)
  from remove_loop_ok [OF ok one, of "[0..<length (comp_resources c)]"] obtain c' m' where
    m': "remove_loop [0..<length (comp_resources c)] c m = Some (c', m')" "res_mem_ok (claims K c') P m'" "evolves m m'"
    "same_lists (others K) m m'" "length (comp_resources c') = length (comp_resources c)"
    "\<forall>i<length (comp_resources c). comp_resources c' ! i = None" by auto
  then have "comp_lists c' = {}" by (auto simp: comp_lists_def in_set_conv_nth)
  then have "claims K c' = K" by (simp add: claims_def fun_eq_iff)
  with m' table_goodD(1) [OF good] show ?thesis
    by (auto simp: lcfgcomponent_destroy_def lcfgcomponent_remove_all_resources_def)
qed

text \<open>Memory that nobody has a reference to is empty.\<close>

lemma no_refs_empty:
  assumes "res_mem_ok (\<lambda>_. 0) (\<lambda>_. 0) m"
  shows "rm_lists m = Map.empty" and "rm_res m = Map.empty"
proof -
  have "rm_lists m a = None" for a
    using res_mem_okD(5) [OF assms, of a] res_mem_okD(2) [OF assms, of a] by (cases "rm_lists m a") (auto simp: list_refs_def)
  then show lists: "rm_lists m = Map.empty" by auto
  have "rm_res m p = None" for p
    using res_mem_okD(4) [OF assms, of p] res_mem_okD(3) [OF assms, of p] lists
    by (cases "rm_res m p") (auto simp: res_refs_def res_held_def)
  then show "rm_res m = Map.empty" by auto
qed


section \<open>Clones that are too large\<close>

text \<open>A search that leaves the array finds a bucket, or is an access outside of it.\<close>

lemma bucket_search_beyond:
  assumes "length (comp_resources c) < to"
  shows "i < to \<Longrightarrow> bucket_search found c i to \<noteq> Some None"
    and "bucket_search found c i to = Some (Some k) \<Longrightarrow> k < length (comp_resources c) \<and> found (comp_resources c ! k) = Some True"
proof -
  have "bucket_search found c i to \<noteq> Some None \<and>
    (bucket_search found c i to = Some (Some k) \<longrightarrow> k < length (comp_resources c) \<and> found (comp_resources c ! k) = Some True)"
    if "i < to" for i
    using that
  proof (induction "to - i" arbitrary: i)
    case (Suc d)
    note step = bucket_search.simps [of found c i, unfolded if_P [OF Suc.prems]]
    show ?case
    proof (cases "i < length (comp_resources c)")
      case True
      with assms have "Suc i < to" by simp
      with True Suc.hyps(1) [of "Suc i"] Suc.hyps(2) show ?thesis
        by (cases "found (comp_resources c ! i)") (auto simp: step bucket_at_def split: if_splits)
    qed (use Suc.prems in \<open>simp add: step bucket_at_def\<close>)
  qed simp
  note search = this
  have out: "bucket_search found c i to = Some None" if "\<not> i < to" using that by (simp add: bucket_search.simps [of found c i])
  from search show "i < to \<Longrightarrow> bucket_search found c i to \<noteq> Some None"
by blast
  from search [of i] out show "bucket_search found c i to = Some (Some k) \<Longrightarrow> k < length (comp_resources c) \<and> found (comp_resources c ! k) = Some True"
    by (cases "i < to") auto
qed

text \<open>Memory with other counts of lists.\<close>

definition recounted :: "res_mem \<Rightarrow> res_mem \<Rightarrow> bool" where
  "recounted m m' \<longleftrightarrow> rm_res m' = rm_res m \<and> (\<forall>a. map_option list_content (rm_lists m' a) = map_option list_content (rm_lists m a))"

lemma recounted_named:
  assumes "recounted m m'"
  shows "nodes_at m' = nodes_at m" and "named_list m' = named_list m" and "reslist_name m' = reslist_name m"
proof -
  have "nodes_at m' a = nodes_at m a" for a
    using assms same_listsD(1) [of UNIV m m' a] by (simp add: recounted_def same_lists_def)
  then show nodes: "nodes_at m' = nodes_at m" by auto
  have "has_res_name m' = has_res_name m" using assms by (simp add: recounted_def has_res_name_def fun_eq_iff)
  with nodes show "named_list m' = named_list m" by (intro ext) (simp add: named_list_def)
  show "reslist_name m' = reslist_name m" using assms nodes by (intro ext) (simp add: recounted_def reslist_name_def split: list.split)
qed

lemma recounted_live:
  assumes "recounted m m'" and "res_mem_ok K P m" and "named_list m name a"
  obtains l where "rm_lists m' a = Some l" "lcfgreslist_is_empty m' (Some a) = Some False" "lcfgreslist_get_name m' a = Some (Some name)"
proof -
  from named_live [OF assms(2,3)] obtain l where l: "rm_lists m a = Some l" "slist_ok l" "nodes l \<noteq> []" .
  then have "map_option list_content (rm_lists m' a) = Some (list_content l)" using assms(1) by (simp add: recounted_def)
  then obtain l' where l': "rm_lists m' a = Some l'" "list_content l' = list_content l" by (cases "rm_lists m' a") auto
  with l list_content_eq [OF l'(2)] have "\<not> lcfgslist_is_empty l'" by (simp add: slist_ok_def lcfgslist_is_empty_def)
  moreover have "named_list m' name a" using assms(3) recounted_named(2) [OF assms(1)] by simp
  ultimately show thesis using that l'(1) named_get_name by (simp add: lcfgreslist_is_empty_def)
qed

text \<open>The clone while lists are inserted: the array is too short, and has lists of the buckets that were read.\<close>

definition clone_short :: "LCFGComponent \<Rightarrow> nat set \<Rightarrow> LCFGComponent \<Rightarrow> bool" where
  "clone_short c seen clone \<longleftrightarrow> length (comp_resources clone) < comp_buckets clone \<and>
     (\<forall>b\<in>comp_lists clone. \<exists>j\<in>seen. j < length (comp_resources c) \<and> comp_resources c ! j = Some b)"

lemma find_bucket_beyond:
  assumes "length (comp_resources c) < comp_buckets c"
  shows "lcfgcomponent_find_bucket farm m c name \<noteq> Some None"
    and "lcfgcomponent_find_bucket farm m c name = Some (Some k) \<Longrightarrow>
      k < length (comp_resources c) \<and> bucket_found m name (comp_resources c ! k) = Some True"
    and "length (comp_resources c) \<le> lcfgcomponent_hash_string farm c name \<Longrightarrow> lcfgcomponent_find_bucket farm m c name = None"
proof -
  let ?h = "lcfgcomponent_hash_string farm c name"
  have lt: "?h < comp_buckets c" using assms by (simp add: lcfgcomponent_hash_string_def)
  note s = bucket_search_beyond [OF assms, where i = ?h and found = "bucket_found m name"]
  show "lcfgcomponent_find_bucket farm m c name \<noteq> Some None"
    using s(1) [OF lt] by (auto simp: lcfgcomponent_find_bucket_def Let_def split: option.splits bind_splits)
  show "k < length (comp_resources c) \<and> bucket_found m name (comp_resources c ! k) = Some True"
    if "lcfgcomponent_find_bucket farm m c name = Some (Some k)"
    using that s(1) [OF lt] s(2) [where k = k] by (auto simp: lcfgcomponent_find_bucket_def Let_def split: option.splits bind_splits)
  show "lcfgcomponent_find_bucket farm m c name = None" if "length (comp_resources c) \<le> ?h"
    using that lt by (simp add: lcfgcomponent_find_bucket_def Let_def bucket_search.simps [of _ c ?h] bucket_at_def)
qed

lemma clone_insert_beyond:
  assumes ok: "res_mem_ok K P m" and m': "recounted m m'" and a: "named_list m name a"
    and short: "length (comp_resources clone) < comp_buckets clone"
    and h: "length (comp_resources clone) \<le> lcfgcomponent_hash_string farm clone name"
  shows "lcfgcomponent_insert_list farm clone (Some a) m' = None"
proof -
  from recounted_live [OF m' ok a] obtain l where "lcfgreslist_is_empty m' (Some a) = Some False"
    "lcfgreslist_get_name m' a = Some (Some name)" .
  with find_bucket_beyond(3) [OF short h, of m'] show ?thesis by (simp add: lcfgcomponent_insert_list_def)
qed

text \<open>
  An insertion that returns has put the list in a free bucket: the names of the lists that the clone
  has already are others.
\<close>

lemma clone_insert_step:
  assumes c: "table_good farm m c" and ok: "res_mem_ok K P m" and m': "recounted m m'" and short: "clone_short c seen clone"
    and i: "i < length (comp_resources c)" "i \<notin> seen"
    and run: "lcfgcomponent_insert_list farm clone (comp_resources c ! i) m' = Some (ch, clone', m2)"
  shows "LCFGChangeOK ch \<and> recounted m m2 \<and> clone_short c (insert i seen) clone' \<and>
    length (comp_resources clone') = length (comp_resources clone) \<and> comp_buckets clone' = comp_buckets clone"
proof (cases "comp_resources c ! i")
  case None
  with run have "ch = LCFG_CHANGE_NONE" "clone' = clone" "m2 = m'"
    by (simp_all add: lcfgcomponent_insert_list_def lcfgreslist_is_empty_def)
  with m' short show ?thesis by (auto simp: clone_short_def LCFGChangeOK_def)
next
  case (Some a)
  let ?n = "reslist_name m a"
  have a: "named_list m ?n a" using table_goodD(3) [OF c, of a] Some i(1) nth_mem [of i "comp_resources c"] by simp
  from recounted_live [OF m' ok a] obtain l where l: "rm_lists m' a = Some l" "lcfgreslist_is_empty m' (Some a) = Some False"
    "lcfgreslist_get_name m' a = Some (Some ?n)" .
  have lt: "length (comp_resources clone) < comp_buckets clone" using short by (simp add: clone_short_def)
  note find = find_bucket_beyond [OF lt, where farm = farm and m = m' and name = ?n]
  from run Some l find(1) obtain k where k: "lcfgcomponent_find_bucket farm m' clone ?n = Some (Some k)"
    and set: "lcfgcomponent_set_bucket clone k (Some a) m' = Some (ch, clone', m2)"
    by (auto simp: lcfgcomponent_insert_list_def split: bind_splits option.splits)
  note found = find(2) [OF k]
  have free: "comp_resources clone ! k = None"
  proof (rule ccontr)
    assume "comp_resources clone ! k \<noteq> None"
    then obtain b where b: "comp_resources clone ! k = Some b" by auto
    with found nth_mem [of k "comp_resources clone"] have "b \<in> comp_lists clone" by (simp add: comp_lists_def)
    with short obtain j where j: "j \<in> seen" "j < length (comp_resources c)" "comp_resources c ! j = Some b"
      by (auto simp: clone_short_def)
    then have "named_list m (reslist_name m b) b" using table_goodD(3) [OF c, of b] nth_mem [of j "comp_resources c"] by simp
    then have "named_list m' (reslist_name m b) b" by (simp add: recounted_named(2) [OF m'])
    moreover have "no_nul ?n" using a by (simp add: named_list_def)
    ultimately have "reslist_name m b = ?n" using found b bucket_found_named [of m' _ b ?n] by simp
    then have "i = j" using table_goodD(2) [OF c] i(1) j(2,3) Some unfolding comp_table.table_ok_def by metis
    with i(2) j(1) show False by simp
  qed
  with set found l(1) have res: "ch = LCFG_CHANGE_ADDED"
    "clone' = clone\<lparr>comp_resources := (comp_resources clone)[k := Some a], comp_entries := comp_entries clone + 1\<rparr>"
    "m2 = put_list a (Some (l\<lparr>rl_refcount := rl_refcount l + 1\<rparr>)) m'"
    by (simp_all add: lcfgcomponent_set_bucket_def bucket_at_def lcfgreslist_acquire_def on_list_def lcfgreslist_relinquish_def)
  from m' have "map_option list_content (rm_lists m' a) = map_option list_content (rm_lists m a)" by (simp add: recounted_def)
  with m' l(1) have "recounted m m2" by (auto simp: res(3) recounted_def put_list_def list_content_def)
  moreover have "comp_lists clone' \<subseteq> insert a (comp_lists clone)"
    using set_update_subset_insert [of "comp_resources clone" k "Some a"] by (auto simp: comp_lists_def res(2))
  ultimately show ?thesis using short Some i(1) by (auto simp: res(1,2) clone_short_def LCFGChangeOK_def)
qed

lemma clone_insert_loop:
  assumes c: "table_good farm m c" and ok: "res_mem_ok K P m" and a: "named_list m name a"
    and h: "N \<le> unat (farm name) mod B" and m': "recounted m m'" and short: "clone_short c seen clone"
    and size: "length (comp_resources clone) = N" "comp_buckets clone = B"
    and js: "distinct js" "set js \<inter> seen = {}" "\<forall>i\<in>set js. i < length (comp_resources c)" "\<exists>i\<in>set js. comp_resources c ! i = Some a"
    and "LCFGChangeOK ch"
  shows "insert_buckets farm c js ch clone m' = None"
  using m' short size js \<open>LCFGChangeOK ch\<close>
proof (induction js arbitrary: seen ch clone m')
  case (Cons i js)
  have lt: "length (comp_resources clone) < comp_buckets clone" using Cons.prems(2) by (simp add: clone_short_def)
  show ?case
  proof (cases "lcfgcomponent_insert_list farm clone (comp_resources c ! i) m'")
    case None
    with Cons.prems show ?thesis by (simp add: bucket_at_def)
  next
    case (Some r)
    obtain ch' clone' m2 where r: "r = (ch', clone', m2)" by (cases r)
    note run = Some [unfolded r]
    have "comp_resources c ! i \<noteq> Some a"
      using clone_insert_beyond [OF ok Cons.prems(1) a lt, of farm] run h Cons.prems(3,4)
      by (auto simp: lcfgcomponent_hash_string_def)
    moreover from clone_insert_step [OF c ok Cons.prems(1,2) _ _ run] Cons.prems(5-7)
    have "LCFGChangeOK ch' \<and> recounted m m2 \<and> clone_short c (insert i seen) clone' \<and>
      length (comp_resources clone') = length (comp_resources clone) \<and> comp_buckets clone' = comp_buckets clone" by simp
    ultimately have "insert_buckets farm c js ch' clone' m2 = None"
      using Cons.prems(3-8) by (intro Cons.IH [where seen = "insert i seen"]) auto
    with run Cons.prems show ?thesis by (simp add: bucket_at_def)
  qed
qed simp

text \<open>Where the array is large enough, the clone gets a reference to every list.\<close>

lemma recounted_table: "recounted m m' \<Longrightarrow> table_good farm m' c = table_good farm m c"
  by (simp add: table_good_def lists_named_def recounted_named)

lemma clone_shares_lists:
  assumes c: "table_good farm m c"
  defines "es js \<equiv> entries_of (map ((!) (comp_resources c)) js)"
  assumes "res_mem_ok K P m'" and "recounted m m'" and "table_good farm m clone" and "LCFGChangeOK ch"
    and "\<forall>i\<in>set js. i < length (comp_resources c)" and "distinct (map (reslist_name m) (es js))"
    and "\<forall>a\<in>set (es js). \<forall>b\<in>comp_lists clone. reslist_name m b \<noteq> reslist_name m a"
    and "comp_entries clone + length (es js) < comp_buckets clone"
  shows "\<exists>ch' clone' m2. insert_buckets farm c js ch clone m' = Some (ch', clone', m2) \<and> LCFGChangeOK ch' \<and> recounted m m2 \<and>
    table_good farm m clone' \<and> comp_lists clone' = comp_lists clone \<union> set (es js) \<and>
    res_mem_ok (\<lambda>a. K a + (if a \<in> set (es js) then 1 else 0)) P m2 \<and>
    clone' = clone\<lparr>comp_resources := comp_resources clone', comp_entries := comp_entries clone'\<rparr>"
  using assms(3-10)
proof (induction js arbitrary: K ch clone m')
  case Nil
  then show ?case by (simp add: es_def)
next
  case (Cons i js)
  show ?case
  proof (cases "comp_resources c ! i")
    case None
    then have es: "es (i # js) = es js" by (simp add: es_def)
    have "LCFGChangeOK LCFG_CHANGE_NONE" by (simp add: LCFGChangeOK_def)
    with Cons.IH [of K m' clone LCFG_CHANGE_NONE] Cons.prems None show ?thesis
      by (simp add: bucket_at_def lcfgcomponent_insert_list_def lcfgreslist_is_empty_def es)
  next
    case (Some a)
    then have es: "es (i # js) = a # es js" by (simp add: es_def)
    note prems = Cons.prems [unfolded es]
    have a: "named_list m (reslist_name m a) a" using table_goodD(3) [OF c, of a] Some prems(5) nth_mem [of i "comp_resources c"] by simp
    note t = table_goodD [OF prems(3)]
    have t': "table_good farm m' clone" using prems(2,3) by (simp add: recounted_table)
    have a': "named_list m' (reslist_name m' a) a" using a prems(2) by (simp add: recounted_named)
    from named_live [OF prems(1) a'] obtain l where l: "rm_lists m' a = Some l" .
    have new: "\<forall>b. Some b \<in> set (comp_resources clone) \<longrightarrow> reslist_name m b \<noteq> reslist_name m a" using prems(7) by (simp add: comp_lists_def)
    let ?c = "clone\<lparr>comp_resources := comp_table.store farm m a (comp_resources clone), comp_entries := comp_entries clone + 1\<rparr>"
    let ?m = "put_list a (Some (l\<lparr>rl_refcount := rl_refcount l + 1\<rparr>)) m'"
    have ins: "lcfgcomponent_insert_list farm clone (Some a) m' = Some (LCFG_CHANGE_ADDED, ?c, ?m)"
      using insert_list_free [OF prems(1) table_goodD(1,2,3) [OF t'] _ table_goodD(5) [OF t'] a' l] new
      by (simp add: recounted_named [OF prems(2)])
    note st = comp_table.store_new [OF t(2) new t(5)]
    have good: "table_good farm m ?c" using prems(3,8) st a by (auto simp: table_good_def lists_named_def comp_lists_def)
    have lists: "comp_lists ?c = insert a (comp_lists clone)" using st(2) by (auto simp: comp_lists_def)
    have "\<forall>b\<in>set (es js). \<forall>x\<in>comp_lists ?c. reslist_name m x \<noteq> reslist_name m b"
      unfolding lists using prems(6,7) by (auto simp: image_iff)
    moreover have "recounted m ?m"
    proof -
      from prems(2) have "map_option list_content (rm_lists m' a) = map_option list_content (rm_lists m a)" by (simp add: recounted_def)
      with prems(2) l show ?thesis by (auto simp: recounted_def put_list_def list_content_def)
    qed
    moreover have "LCFGChangeOK LCFG_CHANGE_ADDED" by (simp add: LCFGChangeOK_def)
    ultimately have "\<exists>ch' clone' m2. insert_buckets farm c js LCFG_CHANGE_ADDED ?c ?m = Some (ch', clone', m2) \<and> LCFGChangeOK ch' \<and>
      recounted m m2 \<and> table_good farm m clone' \<and> comp_lists clone' = comp_lists ?c \<union> set (es js) \<and>
      res_mem_ok (\<lambda>x. (K(a := K a + 1)) x + (if x \<in> set (es js) then 1 else 0)) P m2 \<and>
      clone' = ?c\<lparr>comp_resources := comp_resources clone', comp_entries := comp_entries clone'\<rparr>"
      by (intro Cons.IH [OF acquire_list_ok(2) [OF prems(1) l] _ good]) (use prems(5,6,8) in auto)
    then obtain ch' clone' m2 where r: "insert_buckets farm c js LCFG_CHANGE_ADDED ?c ?m = Some (ch', clone', m2)" "LCFGChangeOK ch'"
      "recounted m m2" "table_good farm m clone'" "comp_lists clone' = comp_lists ?c \<union> set (es js)"
      "res_mem_ok (\<lambda>x. (K(a := K a + 1)) x + (if x \<in> set (es js) then 1 else 0)) P m2"
      "clone' = ?c\<lparr>comp_resources := comp_resources clone', comp_entries := comp_entries clone'\<rparr>"
      by blast
    have "a \<notin> set (es js)" using prems(6) by auto
    then have "(\<lambda>x. (K(a := K a + 1)) x + (if x \<in> set (es js) then 1 else 0)) = (\<lambda>x. K x + (if x \<in> set (a # es js) then 1 else 0))"
      by auto
    with r have "res_mem_ok (\<lambda>x. K x + (if x \<in> set (a # es js) then 1 else 0)) P m2" by simp
    moreover have "clone' = clone\<lparr>comp_resources := comp_resources clone', comp_entries := comp_entries clone'\<rparr>" using r(7) by simp
    moreover have "insert_buckets farm c (i # js) ch clone m' = Some (ch', clone', m2)"
      using r(1) ins Some prems(4,5) by (simp add: bucket_at_def)
    moreover have "comp_lists clone' = comp_lists clone \<union> set (a # es js)" using r(5) unfolding lists by simp
    ultimately show ?thesis using r(2-4) unfolding es by blast
  qed
qed

lemma recounted_nodes:
  assumes "recounted m m'" and "table_good farm m c" and "table_good farm m clone" and "comp_lists clone = comp_lists c"
  shows "comp_nodes farm m' clone name = comp_nodes farm m c name"
proof (cases "\<exists>a\<in>comp_lists c. named_list m name a")
  case True
  then obtain a where a: "a \<in> comp_lists c" "named_list m name a" by blast
  moreover have "named_list m' name a" using a(2) by (simp add: recounted_named(2) [OF assms(1)])
  ultimately show ?thesis
    using assms comp_nodes_some [of farm m' clone a name] comp_nodes_some [of farm m c a name]
    by (simp add: recounted_table recounted_named(1) [OF assms(1)])
next
  case False
  then show ?thesis using assms comp_nodes_none [of farm m' clone name] comp_nodes_none [of farm m c name]
    by (simp add: recounted_table recounted_named(2) [OF assms(1)])
qed

section \<open>What a component promises\<close>

text \<open>
  C27: A component is a map from names to lists of resources. Merging a resource (by its name, with
  the key and the rules of its list, or of the component when the name is new) changes the list of
  that name as the plan of the merge says, and no other; the result code is that of the plan. The
  table stays well formed, all counts stay exact, resources keep their contents, the lists that
  other components share are as before (copy on write), and a lookup of any name then gives the
  first resource of its list.
\<close>

theorem component_merge_refines:
  assumes "comp_ok farmhash64 K P m c" and "rm_res m p = Some r" and "lcfgresource_get_name r = Some name"
    and "name \<noteq> []" and "no_nul name" and "plan_for m (comp_merge_target farmhash64 m c name) p r = (found, plan)"
  shows "\<exists>c' msg' m'. lcfgcomponent_merge_resource farmhash64 c p msg m = Some (merge_code found plan, c', msg', m') \<and>
    comp_ok farmhash64 K P m' c' \<and> evolves m m' \<and> same_lists (others K) m m' \<and>
    comp_nodes farmhash64 m' c' =
      (comp_nodes farmhash64 m c)(name := merged_nodes (comp_nodes farmhash64 m c name) found plan p) \<and>
    (\<forall>nm. no_nul nm \<longrightarrow> lcfgcomponent_find_resource farmhash64 m' (Some c') nm =
      Some (case comp_nodes farmhash64 m' c' nm of [] \<Rightarrow> None | q # _ \<Rightarrow> Some q))"
proof -
  from merge_resource_step [OF assms] obtain c' msg' m' where
    "lcfgcomponent_merge_resource farmhash64 c p msg m = Some (merge_code found plan, c', msg', m')"
    "comp_ok farmhash64 K P m' c'" "evolves m m'" "same_lists (others K) m m'"
    "comp_nodes farmhash64 m' c' = (comp_nodes farmhash64 m c)(name := merged_nodes (comp_nodes farmhash64 m c name) found plan p)"
    by blast
  moreover from this(2) have "res_mem_ok (claims K c') P m'" "table_good farmhash64 m' c'" by (simp_all add: comp_ok_def)
  ultimately show ?thesis using find_resource_nodes by blast
qed

text \<open>A memory with one resource, and a component with one bucket.\<close>

definition sample_res :: LCFGResource where
  "sample_res = lcfgresource_new\<lparr>res_name := Some ''x''\<rparr>"

definition sample_res_mem :: res_mem where
  "sample_res_mem = \<lparr>rm_res = Map.empty(0 \<mapsto> sample_res), rm_lists = Map.empty, rm_free = 1\<rparr>"

definition sample_comp :: LCFGComponent where
  "sample_comp = comp_start\<lparr>comp_resources := [None], comp_buckets := 1\<rparr>"

lemma sample_comp_ok: "comp_ok farm (\<lambda>_. 0) ((\<lambda>_. 0)(0 := 1)) sample_res_mem sample_comp"
proof -
  have "comp_table.table_ok farm sample_res_mem [None]" using comp_table.table_empty [of 1] by simp
  moreover have "res_mem_ok (\<lambda>_. 0) ((\<lambda>_. 0)(0 := 1)) sample_res_mem"
    by (simp add: res_mem_ok_def sample_res_mem_def sample_res_def lcfgresource_new_def res_held_def res_refs_def list_refs_def)
  moreover have "claims (\<lambda>_. 0) sample_comp = (\<lambda>_. 0)"
    by (simp add: claims_def comp_lists_def sample_comp_def fun_eq_iff)
  ultimately show ?thesis
    by (simp add: comp_ok_def table_good_def lists_named_def comp_lists_def sample_comp_def comp_start_def)
qed

lemma sample_comp_nodes: "comp_nodes farm sample_res_mem sample_comp name = []"
proof (rule comp_nodes_none)
  show "table_good farm sample_res_mem sample_comp" using sample_comp_ok by (simp add: comp_ok_def)
qed (simp add: comp_lists_def sample_comp_def)

lemma sample_plan: "plan_for sample_res_mem (comp_merge_target farm sample_res_mem sample_comp ''x'') 0 sample_res = (None, False, True, True)"
proof -
  have "comp_table.lookup farm sample_res_mem [None] ''x'' = None"
    by (simp add: comp_table.lookup_slot comp_table.slot_of_def find_slot_find split: option.splits)
      (auto dest!: find_SomeD simp: comp_home_def probe_seq_def)
  then show ?thesis
    by (simp add: plan_for_def comp_merge_target_def sample_comp_def res_bucket_list_def start_list_def reslist_init_def key_node_def res_merge_plan_def)
qed

theorem component_merge_refines_witness:
  "\<exists>c' msg' m'. lcfgcomponent_merge_resource (\<lambda>_. 0) sample_comp 0 None sample_res_mem = Some (LCFG_CHANGE_ADDED, c', msg', m') \<and>
    lcfgcomponent_find_resource (\<lambda>_. 0) m' (Some c') ''x'' = Some (Some 0)"
proof -
  have r: "rm_res sample_res_mem 0 = Some sample_res" "lcfgresource_get_name sample_res = Some ''x''" "''x'' \<noteq> []" "no_nul ''x''"
    by (simp_all add: sample_res_mem_def sample_res_def lcfgresource_get_name_def no_nul_def nul_def)
  from component_merge_refines [OF sample_comp_ok [of "\<lambda>_. 0"] r sample_plan, where msg = None] r(4) sample_comp_nodes show ?thesis
    by (auto simp: merge_code_def merged_nodes_def)
qed

text \<open>
  C28: Merging a component into another succeeds or reports an error without a read through a freed
  pointer. The second component is as before, and so are the lists of all others; in the first,
  names that the second does not have keep their lists, no name is lost, and after a merge that
  succeeds it has every name of the second.
\<close>

theorem component_merge_component_safe:
  assumes "comp_ok farmhash64 K P m c1" and "table_good farmhash64 m c2" and "comp_lists c2 \<subseteq> others K"
  shows "\<exists>ch c' msg' m'. lcfgcomponent_merge_component farmhash64 c1 (Some c2) False msg m = Some (ch, c', msg', m') \<and>
    comp_ok farmhash64 K P m' c' \<and> evolves m m' \<and> same_lists (others K) m m' \<and>
    comp_nodes farmhash64 m' c2 = comp_nodes farmhash64 m c2 \<and>
    (\<forall>name. comp_nodes farmhash64 m c2 name = [] \<longrightarrow> comp_nodes farmhash64 m' c' name = comp_nodes farmhash64 m c1 name) \<and>
    (\<forall>name. comp_nodes farmhash64 m c1 name \<noteq> [] \<longrightarrow> comp_nodes farmhash64 m' c' name \<noteq> []) \<and>
    (LCFGChangeOK ch \<longrightarrow> (\<forall>name. comp_nodes farmhash64 m c2 name \<noteq> [] \<longrightarrow> comp_nodes farmhash64 m' c' name \<noteq> []))"
proof -
  have ok: "res_mem_ok (claims K c1) P m" using assms(1) by (simp add: comp_ok_def)
  note empty = comp_is_empty [OF ok assms(2)]
  have named: "lists_named m c2" using assms(2) by (simp add: table_good_def)
  have bucket: "comp_nodes farmhash64 m c2 name \<noteq> [] \<longleftrightarrow> (\<exists>i<comp_buckets c2. bucket_named m c2 name i)" for name
  proof -
    have "comp_nodes farmhash64 m c2 name \<noteq> [] \<longleftrightarrow> (\<exists>b\<in>comp_lists c2. named_list m name b)"
      using comp_nodes_some [OF assms(2)] comp_nodes_none [OF assms(2), of name] by (metis named_list_def)
    also have "\<dots> \<longleftrightarrow> (\<exists>i<comp_buckets c2. bucket_named m c2 name i)"
      using table_goodD(1) [OF assms(2)] by (auto simp: comp_lists_def bucket_named_def in_set_conv_nth)
    finally show ?thesis .
  qed
  show ?thesis
  proof (cases "comp_entries c2 = 0")
    case True
    then have "entries_of (comp_resources c2) = []" using table_goodD(4) [OF assms(2)] by (metis entries_of_facts(2) length_0_conv)
    then have "comp_lists c2 = {}" by (simp add: comp_lists_entries)
    then have "comp_nodes farmhash64 m c2 name = []" for name using comp_nodes_none [OF assms(2), of name] by simp
    with True empty assms(1) show ?thesis
      by (intro exI [of _ LCFG_CHANGE_NONE] exI [of _ c1] exI [of _ msg] exI [of _ m]) (simp add: lcfgcomponent_merge_component_def)
  next
    case False
    have len: "\<forall>i\<in>set [0..<comp_buckets c2]. i < length (comp_resources c2)" using table_goodD(1) [OF assms(2)] by simp
    have "LCFGChangeOK LCFG_CHANGE_NONE" by (simp add: LCFGChangeOK_def)
    from merge_buckets_ok [OF assms(1,3) named len this, of msg] obtain ch c' msg' m' where
      m': "merge_buckets farmhash64 c2 [0..<comp_buckets c2] LCFG_CHANGE_NONE c1 msg m = Some (ch, c', msg', m')"
      "comp_ok farmhash64 K P m' c'" "evolves m m'" "same_lists (others K) m m'"
      "\<forall>name. (\<forall>i\<in>set [0..<comp_buckets c2]. \<not> bucket_named m c2 name i) \<longrightarrow> comp_nodes farmhash64 m' c' name = comp_nodes farmhash64 m c1 name"
      "\<forall>name. comp_nodes farmhash64 m c1 name \<noteq> [] \<longrightarrow> comp_nodes farmhash64 m' c' name \<noteq> []"
      "LCFGChangeOK ch \<longrightarrow> (\<forall>name. (\<exists>i\<in>set [0..<comp_buckets c2]. bucket_named m c2 name i) \<longrightarrow> comp_nodes farmhash64 m' c' name \<noteq> [])"
      by blast
    have ok': "res_mem_ok (claims K c') P m'" using m'(2) by (simp add: comp_ok_def)
    have kept: "named_list m' (reslist_name m x) x \<and> nodes_at m' x = nodes_at m x" if "x \<in> comp_lists c2" for x
      using nodes_kept [OF ok ok' m'(3,4), of x] same_listsD(1) [OF m'(4), of x] named assms(3) that by (auto simp: lists_named_def)
    have "table_good farmhash64 m' c2" by (rule table_good_kept(1) [OF assms(2)]) (use kept in blast)
    then have "comp_nodes farmhash64 m' c2 = comp_nodes farmhash64 m c2" by (rule comp_nodes_kept [OF assms(2) _ refl kept])
    moreover have "lcfgcomponent_merge_component farmhash64 c1 (Some c2) False msg m = Some (ch, c', msg', m')"
      using m'(1) False empty by (simp add: lcfgcomponent_merge_component_def)
    moreover have "\<forall>name. comp_nodes farmhash64 m c2 name = [] \<longrightarrow> comp_nodes farmhash64 m' c' name = comp_nodes farmhash64 m c1 name"
      using m'(5) bucket by (metis atLeast_upt lessThan_iff)
    moreover have "LCFGChangeOK ch \<longrightarrow> (\<forall>name. comp_nodes farmhash64 m c2 name \<noteq> [] \<longrightarrow> comp_nodes farmhash64 m' c' name \<noteq> [])"
      using m'(7) bucket by (metis atLeast_upt lessThan_iff)
    ultimately show ?thesis using m'(2,3,4,6) by blast
  qed
qed


text \<open>The resource in a list of its own, in a component with two buckets.\<close>

definition sample_mem2 :: res_mem where
  "sample_mem2 = \<lparr>rm_res = Map.empty(0 \<mapsto> sample_res),
     rm_lists = Map.empty(1 \<mapsto> reslist_init\<lparr>nodes := [0], list_size := 1\<rparr>), rm_free = 2\<rparr>"

definition sample_comp2 :: LCFGComponent where
  "sample_comp2 = comp_start\<lparr>comp_resources := [Some 1, None], comp_buckets := 2, comp_entries := 1\<rparr>"

lemma sample_mem2_ok: "res_mem_ok ((\<lambda>_. 0)(1 := 1)) (\<lambda>_. 0) sample_mem2"
proof -
  have held: "res_held sample_mem2 p = res_refs sample_mem2 p" for p
    by (simp add: sample_mem2_def res_held_def res_refs_def nodes_at_def reslist_init_def sample_res_def lcfgresource_new_def)
  then show ?thesis
    by (auto simp: res_mem_ok_def held) (auto simp: sample_mem2_def sample_res_def lcfgresource_new_def list_refs_def slist_ok_def
        reslist_init_def split: if_splits)
qed

lemma sample_comp2_good: "table_good (\<lambda>_. 0) sample_mem2 sample_comp2" "comp_lists sample_comp2 = {1}"
proof -
  show lists: "comp_lists sample_comp2 = {1}" by (auto simp: comp_lists_def sample_comp2_def)
  have "comp_table.table_ok (\<lambda>_. 0) sample_mem2 [Some 1, None]"
    by (auto simp: comp_table.table_ok_def comp_home_def probe_seq_def less_Suc_eq nth_Cons' split: if_splits)
  moreover have "reslist_name sample_mem2 1 = ''x''" "named_list sample_mem2 ''x'' 1"
    by (simp_all add: reslist_name_def named_list_def nodes_at_def sample_mem2_def reslist_init_def has_res_name_def sample_res_def
        lcfgresource_get_name_def no_nul_def nul_def)
  ultimately show "table_good (\<lambda>_. 0) sample_mem2 sample_comp2"
    by (simp add: table_good_def lists_named_def lists) (simp add: sample_comp2_def)
qed

theorem component_merge_component_safe_witness:
  "\<exists>ch c' msg' m'. lcfgcomponent_merge_component (\<lambda>_. 0) sample_comp (Some sample_comp2) False None sample_mem2 = Some (ch, c', msg', m') \<and>
    (LCFGChangeOK ch \<longrightarrow> comp_nodes (\<lambda>_. 0) m' c' ''x'' \<noteq> [])"
proof -
  have "comp_table.table_ok (\<lambda>_. 0) sample_mem2 [None]" using comp_table.table_empty [of 1] by simp
  moreover have "claims ((\<lambda>_. 0)(1 := 1)) sample_comp = (\<lambda>_. 0)(1 := 1)"
    by (simp add: claims_def comp_lists_def sample_comp_def fun_eq_iff)
  ultimately have ok: "comp_ok (\<lambda>_. 0) ((\<lambda>_. 0)(1 := 1)) (\<lambda>_. 0) sample_mem2 sample_comp"
    using sample_mem2_ok by (simp add: comp_ok_def table_good_def lists_named_def comp_lists_def sample_comp_def comp_start_def)
  have sub: "comp_lists sample_comp2 \<subseteq> others ((\<lambda>_. 0)(1 := 1))" by (simp add: sample_comp2_good others_def)
  have "named_list sample_mem2 ''x'' 1"
    by (simp add: named_list_def nodes_at_def sample_mem2_def reslist_init_def has_res_name_def sample_res_def
        lcfgresource_get_name_def no_nul_def nul_def)
  then have "comp_nodes (\<lambda>_. 0) sample_mem2 sample_comp2 ''x'' \<noteq> []"
    using comp_nodes_some [OF sample_comp2_good(1), of 1 "''x''"] by (simp add: sample_comp2_good(2) named_list_def)
  with component_merge_component_safe [OF ok sample_comp2_good(1) sub, of None] show ?thesis by blast
qed

text \<open>
  C29: Destroying a component gives back every reference that it has: nothing is read after it was
  freed, the lists of other holders are as before, all counts stay exact, and when nobody else
  has a reference all lists and resources are gone.
\<close>

theorem component_destroy_releases:
  assumes "comp_ok farmhash64 K P m c"
  shows "\<exists>m'. lcfgcomponent_destroy c m = Some m' \<and> res_mem_ok K P m' \<and> evolves m m' \<and> same_lists (others K) m m' \<and>
    (K = (\<lambda>_. 0) \<and> P = (\<lambda>_. 0) \<longrightarrow> rm_lists m' = Map.empty \<and> rm_res m' = Map.empty)"
proof -
  from destroy_ok [OF assms] obtain m' where
    "lcfgcomponent_destroy c m = Some m'" "res_mem_ok K P m'" "evolves m m'" "same_lists (others K) m m'" by blast
  then show ?thesis using no_refs_empty [of m'] by blast
qed

theorem component_destroy_releases_witness:
  "\<exists>m'. lcfgcomponent_destroy sample_comp2 sample_mem2 = Some m' \<and> rm_lists m' = Map.empty \<and> rm_res m' = Map.empty"
proof -
  have "claims (\<lambda>_. 0) sample_comp2 = (\<lambda>_. 0)(1 := 1)" by (simp add: claims_def sample_comp2_good(2) fun_eq_iff)
  then have "comp_ok (\<lambda>_. 0) (\<lambda>_. 0) (\<lambda>_. 0) sample_mem2 sample_comp2"
    using sample_mem2_ok sample_comp2_good(1) by (simp add: comp_ok_def)
  from component_destroy_releases [OF this] show ?thesis by auto
qed

text \<open>The clone when its lists are inserted.\<close>

definition clone_begun :: "LCFGComponent \<Rightarrow> LCFGComponent" where
  "clone_begun c = comp_start\<lparr>comp_resources := replicate 113 None, comp_name := (if isempty (comp_name c) then None else comp_name c),
     comp_primary_key := comp_primary_key c, comp_merge_rules := comp_merge_rules c,
     comp_buckets := max 113 (2 * comp_entries c + 1)\<rparr>"

lemma clone_begin:
  assumes "isempty (comp_name c) \<or> lcfgcomponent_valid_name (comp_name c)"
  shows "lcfgcomponent_clone farm c m = do {
     (insert_rc, clone3, m3) \<leftarrow> insert_buckets farm c [0..<comp_buckets c] LCFG_CHANGE_NONE (clone_begun c) m;
     if LCFGChangeOK insert_rc then Some (Some clone3, m3)
     else lcfgcomponent_relinquish (Some clone3) m3
   }"
proof -
  let ?c = "comp_start\<lparr>comp_resources := replicate 113 None\<rparr>"
  let ?c1 = "?c\<lparr>comp_name := (if isempty (comp_name c) then None else comp_name c)\<rparr>"
  have "lcfgcomponent_new farm m = Some (?c, m)"
    by (simp add: lcfgcomponent_new_def lcfgcomponent_resize_def comp_start_def LCFG_COMP_DEFAULT_SIZE_def Let_def)
  moreover have "(if lcfgcomponent_has_name c then lcfgcomponent_set_name ?c (lcfgcomponent_get_name c) else (True, ?c)) = (True, ?c1)"
    using assms by (auto simp: lcfgcomponent_has_name_def lcfgcomponent_set_name_def lcfgcomponent_get_name_def comp_start_def)
  moreover have "presize farm (comp_entries c) (?c1\<lparr>comp_primary_key := comp_primary_key c, comp_merge_rules := comp_merge_rules c\<rparr>) m =
      Some (clone_begun c, m)"
    by (simp add: presize_def comp_want_buckets_def comp_start_def LCFG_COMP_DEFAULT_SIZE_def lcfgcomponent_resize_def Let_def
        clone_begun_def max_def)
  ultimately show ?thesis by (simp add: lcfgcomponent_clone_def)
qed

lemma clone_begun_good:
  assumes "comp_entries c \<le> 56"
  shows "table_good farm m (clone_begun c)" and "comp_lists (clone_begun c) = {}"
  using comp_table.table_empty [of 113 farm m] assms
  by (simp_all add: table_good_def lists_named_def comp_lists_def clone_begun_def comp_start_def)

text \<open>
  C30: A clone of a component with at most 56 lists is a component with the same attributes and, for
  every name, the same resources: it shares the lists of the first component, with one more reference
  to each of them, so that both components are well formed and either can be merged into or destroyed.
  With more than 56 lists the clone is given a count of buckets that its array does not have, since
  the count is set before the resize, which then sees a table that need not grow. The array keeps
  the 113 buckets of a new component, and the clone of a component with a list whose name hashes beyond
  them always ends in an access outside of the array, never in a clone or an error.
\<close>

theorem component_clone_outcomes:
  assumes "comp_ok farmhash64 K P m c" and "isempty (comp_name c) \<or> lcfgcomponent_valid_name (comp_name c)"
  shows "(comp_entries c \<le> 56 \<longrightarrow>
      (\<exists>clone m'. lcfgcomponent_clone farmhash64 c m = Some (Some clone, m') \<and>
         comp_ok farmhash64 (claims K c) P m' clone \<and> comp_ok farmhash64 (claims K clone) P m' c \<and>
         (\<forall>name. comp_nodes farmhash64 m' clone name = comp_nodes farmhash64 m c name) \<and> comp_lists clone = comp_lists c \<and>
         comp_name clone = (if isempty (comp_name c) then None else comp_name c) \<and> comp_primary_key clone = comp_primary_key c \<and>
         comp_merge_rules clone = comp_merge_rules c \<and>
         comp_refcount clone = 1 \<and> rm_res m' = rm_res m)) \<and>
    (56 < comp_entries c \<longrightarrow>
      (\<forall>name. \<forall>a\<in>comp_lists c. named_list m name a \<longrightarrow> 113 \<le> unat (farmhash64 name) mod (2 * comp_entries c + 1) \<longrightarrow>
         lcfgcomponent_clone farmhash64 c m = None))"
proof (intro conjI impI allI ballI)
  note run = clone_begin [OF assms(2), of farmhash64 m]
  have good: "table_good farmhash64 m c" "res_mem_ok (claims K c) P m" using assms(1) by (simp_all add: comp_ok_def)
  note t = table_goodD [OF good(1)]
  have es: "map ((!) (comp_resources c)) [0..<comp_buckets c] = comp_resources c" by (simp add: t(1) map_nth)
  {
    assume few: "comp_entries c \<le> 56"
    note b = clone_begun_good(1) [OF few, where farm = farmhash64 and m = m] clone_begun_good(2) [OF few]
    have "\<exists>ch' clone' m2. insert_buckets farmhash64 c [0..<comp_buckets c] LCFG_CHANGE_NONE (clone_begun c) m = Some (ch', clone', m2) \<and>
      LCFGChangeOK ch' \<and> recounted m m2 \<and> table_good farmhash64 m clone' \<and>
      comp_lists clone' = comp_lists (clone_begun c) \<union> set (entries_of (map ((!) (comp_resources c)) [0..<comp_buckets c])) \<and>
      res_mem_ok (\<lambda>a. claims K c a + (if a \<in> set (entries_of (map ((!) (comp_resources c)) [0..<comp_buckets c])) then 1 else 0)) P m2 \<and>
      clone' = (clone_begun c)\<lparr>comp_resources := comp_resources clone', comp_entries := comp_entries clone'\<rparr>"
      using few b comp_table.table_distinct [OF t(2)] t(1,4)
      by (intro clone_shares_lists [OF good]) (auto simp: map_nth recounted_def LCFGChangeOK_def clone_begun_def comp_start_def)
    then obtain ch clone m' where r: "insert_buckets farmhash64 c [0..<comp_buckets c] LCFG_CHANGE_NONE (clone_begun c) m = Some (ch, clone, m')"
      "LCFGChangeOK ch" "recounted m m'" "table_good farmhash64 m clone" "comp_lists clone = comp_lists c"
      "res_mem_ok (\<lambda>a. claims K c a + (if a \<in> comp_lists c then 1 else 0)) P m'"
      "clone = (clone_begun c)\<lparr>comp_resources := comp_resources clone, comp_entries := comp_entries clone\<rparr>"
      unfolding es b(2) comp_lists_entries [symmetric] by auto
    have "claims (claims K c) clone = (\<lambda>a. claims K c a + (if a \<in> comp_lists c then 1 else 0))"
      "claims (claims K clone) c = (\<lambda>a. claims K c a + (if a \<in> comp_lists c then 1 else 0))"
      using r(5) by (simp_all add: claims_def fun_eq_iff)
    then have "comp_ok farmhash64 (claims K c) P m' clone" "comp_ok farmhash64 (claims K clone) P m' c"
      using r(3,4,6) good(1) by (simp_all add: comp_ok_def recounted_table)
    moreover have "lcfgcomponent_clone farmhash64 c m = Some (Some clone, m')" using run r(1,2) by simp
    moreover have "rm_res m' = rm_res m" using r(3) by (simp add: recounted_def)
    moreover have "comp_name clone = (if isempty (comp_name c) then None else comp_name c)" "comp_primary_key clone = comp_primary_key c"
      "comp_merge_rules clone = comp_merge_rules c" "comp_refcount clone = 1"
      by (simp_all add: r(7) [THEN arg_cong [where f = comp_name]] r(7) [THEN arg_cong [where f = comp_refcount]]
          r(7) [THEN arg_cong [where f = comp_merge_rules]] r(7) [THEN arg_cong [where f = comp_primary_key]]
          clone_begun_def comp_start_def)
    ultimately show "\<exists>clone m'. lcfgcomponent_clone farmhash64 c m = Some (Some clone, m') \<and>
         comp_ok farmhash64 (claims K c) P m' clone \<and> comp_ok farmhash64 (claims K clone) P m' c \<and>
         (\<forall>name. comp_nodes farmhash64 m' clone name = comp_nodes farmhash64 m c name) \<and> comp_lists clone = comp_lists c \<and>
         comp_name clone = (if isempty (comp_name c) then None else comp_name c) \<and> comp_primary_key clone = comp_primary_key c \<and>
         comp_merge_rules clone = comp_merge_rules c \<and>
         comp_refcount clone = 1 \<and> rm_res m' = rm_res m"
      using recounted_nodes [OF r(3) good(1) r(4,5)] r(5) by blast
  }
  fix name a
  assume many: "56 < comp_entries c" and a: "a \<in> comp_lists c" "named_list m name a"
    "113 \<le> unat (farmhash64 name) mod (2 * comp_entries c + 1)"
  have short: "clone_short c {} (clone_begun c)" using many by (simp add: clone_short_def comp_lists_def clone_begun_def)
  have "\<exists>i\<in>set [0..<comp_buckets c]. comp_resources c ! i = Some a"
    using a(1) t(1) by (auto simp: comp_lists_def in_set_conv_nth)
  then have "insert_buckets farmhash64 c [0..<comp_buckets c] LCFG_CHANGE_NONE (clone_begun c) m = None"
    using t(1) a(3) many
    by (intro clone_insert_loop [OF good a(2) _ _ short]) (simp_all add: recounted_def LCFGChangeOK_def clone_begun_def)
  with run show "lcfgcomponent_clone farmhash64 c m = None" by simp
qed

text \<open>A component of 57 lists, with names of different lengths.\<close>

definition crowd_res :: "nat \<Rightarrow> LCFGResource" where
  "crowd_res i = lcfgresource_new\<lparr>res_name := Some (replicate (Suc i) (CHR ''x''))\<rparr>"

definition crowd_mem :: res_mem where
  "crowd_mem = \<lparr>rm_res = (\<lambda>p. if p < 57 then Some (crowd_res p) else None),
     rm_lists = (\<lambda>a. if a < 57 then Some (reslist_init\<lparr>nodes := [a], list_size := 1\<rparr>) else None), rm_free = 57\<rparr>"

definition crowd :: LCFGComponent where
  "crowd = comp_start\<lparr>comp_resources := map Some [0..<57] @ replicate 56 None, comp_buckets := 113, comp_entries := 57\<rparr>"

lemma crowd_named: "a < 57 \<Longrightarrow> named_list crowd_mem (replicate (Suc a) (CHR ''x'')) a"
  by (simp add: named_list_def has_res_name_def nodes_at_def crowd_mem_def crowd_res_def lcfgresource_get_name_def no_nul_def nul_def)

lemma crowd_lists: "comp_lists crowd = {..<57}"
  by (auto simp: comp_lists_def crowd_def)

lemma takeWhile_probe_seq:
  assumes "j < n"
  shows "takeWhile (\<lambda>i. i \<noteq> j) (probe_seq n 0) = [0..<j]"
proof -
  from assms have "probe_seq n 0 = [0..<j] @ j # [Suc j..<n]"
    using upt_add_eq_append [of 0 j "n - j"] by (simp add: probe_seq_def upt_conv_Cons)
  then show ?thesis by (simp add: takeWhile_tail)
qed

lemma crowd_ok: "comp_ok (\<lambda>_. 113) (\<lambda>_. 0) (\<lambda>_. 0) crowd_mem crowd"
proof -
  have dom: "dom (rm_lists crowd_mem) = {..<57}" by (auto simp: crowd_mem_def dom_def split: if_splits)
  have "nodes_at crowd_mem a = [a]" if "a < 57" for a using that by (simp add: nodes_at_def crowd_mem_def)
  then have "count (mset (nodes_at crowd_mem a)) p = (if a = p then 1 else 0)" if "a \<in> {..<57}" for a p using that by simp
  then have "res_held crowd_mem p = (\<Sum>a\<in>{..<57}. if a = p then 1 else 0)" for p by (simp add: res_held_def dom)
  then have held: "res_held crowd_mem p = res_refs crowd_mem p" for p
    by (simp add: res_refs_def crowd_mem_def crowd_res_def lcfgresource_new_def)
  have mem: "res_mem_ok (claims (\<lambda>_. 0) crowd) (\<lambda>_. 0) crowd_mem"
    unfolding res_mem_ok_def by (auto simp: held claims_def crowd_lists dom)
      (auto simp: crowd_mem_def crowd_res_def lcfgresource_new_def list_refs_def slist_ok_def reslist_init_def split: if_splits)
  have at: "comp_resources crowd ! i = (if i < 57 then Some i else None)" if "i < 113" for i
    using that by (simp add: crowd_def nth_append)
  have len: "length (comp_resources crowd) = 113" by (simp add: crowd_def)
  have names: "reslist_name crowd_mem a = replicate (Suc a) (CHR ''x'')" if "a < 57" for a
    using reslist_named [OF crowd_named [OF that]] .
  have home: "comp_home (\<lambda>_. 113) name 113 = 0" for name by (simp add: comp_home_def)
  have "comp_table.table_ok (\<lambda>_. 113) crowd_mem (comp_resources crowd)"
    unfolding comp_table.table_ok_def len home
  proof (intro conjI allI impI ballI)
    show "comp_resources crowd \<noteq> []" using len by auto
  next
    fix i j a b
    assume "i < 113" "j < 113" "comp_resources crowd ! i = Some a" "comp_resources crowd ! j = Some b"
      "reslist_name crowd_mem a = reslist_name crowd_mem b"
    then show "i = j" by (auto simp: at names split: if_splits dest: arg_cong [where f = length])
  next
    fix j a i
    assume "j < 113" "comp_resources crowd ! j = Some a" and i: "i \<in> set (takeWhile (\<lambda>i. i \<noteq> j) (probe_seq 113 0))"
    then have j: "j < 57" by (simp add: at split: if_splits)
    then have "takeWhile (\<lambda>i. i \<noteq> j) (probe_seq 113 0) = [0..<j]" by (intro takeWhile_probe_seq) simp
    with i j show "comp_resources crowd ! i \<noteq> None" by (simp add: at)
  qed
  moreover have "used (comp_resources crowd) = 57" by (simp add: used_def crowd_def)
  moreover have "lists_named crowd_mem crowd" using crowd_named names by (simp add: lists_named_def crowd_lists)
  ultimately show ?thesis using mem by (simp add: comp_ok_def table_good_def len) (simp add: crowd_def)
qed

theorem component_clone_outcomes_witness:
  "(\<exists>clone m'. lcfgcomponent_clone (\<lambda>_. 0) sample_comp2 sample_mem2 = Some (Some clone, m') \<and>
      comp_nodes (\<lambda>_. 0) m' clone ''x'' = comp_nodes (\<lambda>_. 0) sample_mem2 sample_comp2 ''x'' \<and> comp_lists clone = {1}) \<and>
   lcfgcomponent_clone (\<lambda>_. 113) crowd crowd_mem = None"
proof
  have "claims (\<lambda>_. 0) sample_comp2 = (\<lambda>_. 0)(1 := 1)" by (simp add: claims_def sample_comp2_good(2) fun_eq_iff)
  then have "comp_ok (\<lambda>_. 0) (\<lambda>_. 0) (\<lambda>_. 0) sample_mem2 sample_comp2"
    using sample_mem2_ok sample_comp2_good(1) by (simp add: comp_ok_def)
  moreover have "isempty (comp_name sample_comp2) \<or> lcfgcomponent_valid_name (comp_name sample_comp2)" "comp_entries sample_comp2 \<le> 56"
    by (simp_all add: sample_comp2_def comp_start_def isempty_def)
  ultimately show "\<exists>clone m'. lcfgcomponent_clone (\<lambda>_. 0) sample_comp2 sample_mem2 = Some (Some clone, m') \<and>
      comp_nodes (\<lambda>_. 0) m' clone ''x'' = comp_nodes (\<lambda>_. 0) sample_mem2 sample_comp2 ''x'' \<and> comp_lists clone = {1}"
    using component_clone_outcomes [of "\<lambda>_. 0" "\<lambda>_. 0" "\<lambda>_. 0" sample_mem2 sample_comp2] sample_comp2_good(2) by blast
  have name: "isempty (comp_name crowd) \<or> lcfgcomponent_valid_name (comp_name crowd)" and "56 < comp_entries crowd"
    by (simp_all add: crowd_def comp_start_def isempty_def)
  moreover have "113 \<le> unat (113 :: 64 word) mod (2 * comp_entries crowd + 1)" by (simp add: crowd_def)
  moreover have "0 \<in> comp_lists crowd" "named_list crowd_mem ''x'' 0" using crowd_named [of 0] by (simp_all add: crowd_lists)
  ultimately show "lcfgcomponent_clone (\<lambda>_. 113) crowd crowd_mem = None"
    using component_clone_outcomes [OF crowd_ok name] by blast
qed

end
