(* ===== verification/Lcfg_Component_IO.thy ===== *)
theory Lcfg_Component_IO
  imports Lcfg_Component
begin

text \<open>
  Components as text (\<open>resources/components/component.c\<close>): printing, the variables of the shell
  and of the environment, status files, the signature, and the selection of resources. \<open>qsort\<close>
  and \<open>farmhash64\<close> are parameters, the tags that the functions use for themselves are in a tag
  memory, and what is written is a result. A failure of a write is not modelled.
\<close>

section \<open>Printing\<close>

text \<open>The entries to print: name and bucket, in the order \<open>qsort\<close> gives for names that ignore case.\<close>

definition lcfgcomponent_entry_cmp :: "string \<times> nat \<Rightarrow> string \<times> nat \<Rightarrow> int" where
  "lcfgcomponent_entry_cmp a b = strcasecmp (fst a) (fst b)"

type_synonym entry_sort = "(string \<times> nat \<Rightarrow> string \<times> nat \<Rightarrow> int) \<Rightarrow> (string \<times> nat) list \<Rightarrow> (string \<times> nat) list"

fun entries_loop :: "res_mem \<Rightarrow> LCFGComponent \<Rightarrow> nat list \<Rightarrow> (string \<times> nat) list option" where
  "entries_loop m cmpt [] = Some []"
| "entries_loop m cmpt (i # js) = do {
     list \<leftarrow> bucket_at cmpt i;
     empty \<leftarrow> lcfgreslist_is_empty m list;
     (case list of
        None \<Rightarrow> entries_loop m cmpt js
      | Some a \<Rightarrow>
          if empty then entries_loop m cmpt js
          else do {
            name \<leftarrow> lcfgreslist_get_name m a;
            n \<leftarrow> name;
            map_option ((#) (n, i)) (entries_loop m cmpt js)
          })
   }"

definition lcfgcomponent_sorted_entries :: "entry_sort \<Rightarrow> res_mem \<Rightarrow> LCFGComponent \<Rightarrow> (string \<times> nat) list option" where
  "lcfgcomponent_sorted_entries qsort m cmpt =
     map_option (\<lambda>entries. if 0 < length entries then qsort lcfgcomponent_entry_cmp entries else [])
       (entries_loop m cmpt [0..<comp_buckets cmpt])"

text \<open>The prefixes of the names of variables, and the name of the variable with the list of resources.\<close>

definition LCFG_RESOURCE_ENV_LISTKEY :: string where "LCFG_RESOURCE_ENV_LISTKEY = ''_RESOURCES''"

text \<open>
  The loop of an export over the buckets: whether all went well, the names that were exported,
  and what was written.
\<close>

fun export_loop ::
    "LCFGComponent \<Rightarrow> cstr \<Rightarrow> cstr \<Rightarrow> bits \<Rightarrow> res_mem \<Rightarrow> nat list \<Rightarrow> bool \<Rightarrow> LCFGTagList \<Rightarrow> tag_mem \<Rightarrow>
     (bool \<times> string \<times> LCFGTagList \<times> tag_mem) option" where
  "export_loop cmpt val_pfx2 type_pfx2 options m [] ok export_res t = Some (ok, [], export_res, t)"
| "export_loop cmpt val_pfx2 type_pfx2 options m (i # js) ok export_res t = do {
     list \<leftarrow> bucket_at cmpt i;
     empty \<leftarrow> lcfgreslist_is_empty m list;
     (case list of
        None \<Rightarrow> export_loop cmpt val_pfx2 type_pfx2 options m js ok export_res t
      | Some a \<Rightarrow>
          if empty then export_loop cmpt val_pfx2 type_pfx2 options m js ok export_res t
          else do {
            first \<leftarrow> lcfgreslist_first_resource m a;
            p \<leftarrow> first;
            res \<leftarrow> rm_res m p;
            if \<not> (has_bit options LCFG_OPT_ALL_VALUES \<or> lcfgresource_has_value res)
            then export_loop cmpt val_pfx2 type_pfx2 options m js ok export_res t
            else do {
              rc \<leftarrow> lcfgresource_to_export res None val_pfx2 type_pfx2 options;
              (ok1, export_res1, t1) \<leftarrow> (case rc of
                  Inl _ \<Rightarrow> Some (False, export_res, t)
                | Inr _ \<Rightarrow> do {
                    res_name \<leftarrow> lcfgresource_get_name res;
                    (add_rc, l, _, t') \<leftarrow> lcfgtaglist_mutate_add t export_res res_name None;
                    Some (ok \<and> \<not> LCFGChangeError add_rc, l, t')
                  });
              let line = (case rc of Inr (_, s) \<Rightarrow> if ok1 then s else [] | Inl _ \<Rightarrow> []);
              (ok2, s, export_res2, t2) \<leftarrow> export_loop cmpt val_pfx2 type_pfx2 options m js ok1 export_res1 t1;
              Some (ok2, line @ s, export_res2, t2)
            }
          })
   }"

definition export_names :: "string \<Rightarrow> string \<Rightarrow> string" where
  "export_names reslist_key names = ''export '' @ reslist_key @ [CHR ''='', CHR 0x27] @ names @ [CHR 0x27, CHR 0x0A]"

text \<open>The text of a name of a variable is never negative in length, so those branches are left out.\<close>

definition lcfgcomponent_to_export ::
    "res_mem \<Rightarrow> tag_mem \<Rightarrow> LCFGComponent \<Rightarrow> cstr \<Rightarrow> cstr \<Rightarrow> bits \<Rightarrow> (LCFGStatus \<times> string \<times> tag_mem) option" where
  "lcfgcomponent_to_export m t cmpt val_pfx type_pfx options = do {
     empty \<leftarrow> lcfgcomponent_is_empty m (Some cmpt);
     if \<not> lcfgcomponent_is_valid (Some cmpt) then Some (LCFG_STATUS_ERROR, [], t)
     else if empty then Some (LCFG_STATUS_OK, [], t)
     else do {
       let compname = lcfgcomponent_get_name cmpt;
       val_pfx2 \<leftarrow> lcfgresource_build_env_var None compname LCFG_RESOURCE_ENV_VAL_PFX val_pfx;
       type_pfx2 \<leftarrow> (if has_bit options LCFG_OPT_USE_META
         then map_option Some (lcfgresource_build_env_var None compname LCFG_RESOURCE_ENV_TYPE_PFX type_pfx)
         else Some None);
       (ok, s, export_res, t1) \<leftarrow> export_loop cmpt (Some val_pfx2) type_pfx2 options m [0..<comp_buckets cmpt] True lcfgtaglist_new t;
       (s', t2) \<leftarrow> (if ok \<and> \<not> lcfgtaglist_is_empty (Some export_res)
         then do {
           t' \<leftarrow> lcfgtaglist_sort t1 export_res;
           (_, names) \<leftarrow> lcfgtaglist_to_string t' export_res LCFG_OPT_NONE;
           reslist_key \<leftarrow> lcfgresource_build_env_var (Some LCFG_RESOURCE_ENV_LISTKEY) compname LCFG_RESOURCE_ENV_VAL_PFX (Some val_pfx2);
           Some (s @ export_names reslist_key names, t')
         } else Some (s, t1));
       (_, t3) \<leftarrow> lcfgtaglist_relinquish t2 (Some export_res);
       Some (if ok then LCFG_STATUS_OK else LCFG_STATUS_ERROR, s', t3)
     }
   }"

fun print_entries ::
    "LCFGComponent \<Rightarrow> LCFGResourceStyle \<Rightarrow> bits \<Rightarrow> (string \<times> nat) list \<Rightarrow> res_mem \<Rightarrow> (bool \<times> string \<times> res_mem) option" where
  "print_entries cmpt style options [] m = Some (True, [], m)"
| "print_entries cmpt style options ((_, bucket) # es) m = do {
     list \<leftarrow> bucket_at cmpt bucket;
     (ok, s, m1) \<leftarrow> lcfgreslist_print list (lcfgcomponent_get_name cmpt) style options m;
     if \<not> ok then Some (False, s, m1)
     else do {
       (ok', s', m2) \<leftarrow> print_entries cmpt style options es m1;
       Some (ok', s @ s', m2)
     }
   }"

definition lcfgcomponent_print ::
    "entry_sort \<Rightarrow> res_mem \<Rightarrow> tag_mem \<Rightarrow> LCFGComponent \<Rightarrow> LCFGResourceStyle \<Rightarrow> bits \<Rightarrow>
     (bool \<times> string \<times> res_mem \<times> tag_mem) option" where
  "lcfgcomponent_print qsort m t cmpt style options =
     (if style = LCFG_RESOURCE_STYLE_EXPORT
      then map_option (\<lambda>(rc, s, t'). (rc \<noteq> LCFG_STATUS_ERROR, s, m, t')) (lcfgcomponent_to_export m t cmpt None None options)
      else do {
        empty \<leftarrow> lcfgcomponent_is_empty m (Some cmpt);
        if empty then Some (True, [], m, t)
        else do {
          entries \<leftarrow> lcfgcomponent_sorted_entries qsort m cmpt;
          (ok, s, m') \<leftarrow> print_entries cmpt style (options OR LCFG_OPT_NEWLINE) entries m;
          Some (ok, s, m', t)
        }
      })"

text \<open>The bytes that are added to the signature.\<close>

fun signature_entries :: "LCFGComponent \<Rightarrow> (string \<times> nat) list \<Rightarrow> res_mem \<Rightarrow> (bool \<times> string \<times> res_mem) option" where
  "signature_entries cmpt [] m = Some (True, [], m)"
| "signature_entries cmpt ((_, bucket) # es) m = do {
     list \<leftarrow> bucket_at cmpt bucket;
     empty \<leftarrow> lcfgreslist_is_empty m list;
     (case list of
        None \<Rightarrow> signature_entries cmpt es m
      | Some a \<Rightarrow>
          if empty then signature_entries cmpt es m
          else do {
            first \<leftarrow> lcfgreslist_first_resource m a;
            p \<leftarrow> first;
            res \<leftarrow> rm_res m p;
            (case lcfgresource_to_status res (lcfgcomponent_get_name cmpt) LCFG_OPT_USE_META of
               None \<Rightarrow> Some (False, [], m)
             | Some (rc, s, res') \<Rightarrow>
                 if 0 < rc then do {
                   (ok, s', m') \<leftarrow> signature_entries cmpt es (put_res p (Some res') m);
                   Some (ok, s @ s', m')
                 } else Some (False, [], put_res p (Some res') m))
          })
   }"

definition lcfgcomponent_update_signature ::
    "entry_sort \<Rightarrow> res_mem \<Rightarrow> LCFGComponent \<Rightarrow> string \<Rightarrow> (bool \<times> string \<times> res_mem) option" where
  "lcfgcomponent_update_signature qsort m cmpt md5state = do {
     entries \<leftarrow> lcfgcomponent_sorted_entries qsort m cmpt;
     (ok, s, m') \<leftarrow> signature_entries cmpt entries m;
     Some (ok, md5state @ s, m')
   }"

section \<open>Names of resources\<close>

fun names_loop ::
    "LCFGComponent \<Rightarrow> res_mem \<Rightarrow> nat list \<Rightarrow> bool \<Rightarrow> LCFGTagList \<Rightarrow> tag_mem \<Rightarrow> (bool \<times> LCFGTagList \<times> tag_mem) option" where
  "names_loop cmpt m [] ok reslist t = Some (ok, reslist, t)"
| "names_loop cmpt m (i # js) ok reslist t = do {
     list \<leftarrow> bucket_at cmpt i;
     empty \<leftarrow> lcfgreslist_is_empty m list;
     (case list of
        None \<Rightarrow> names_loop cmpt m js ok reslist t
      | Some a \<Rightarrow>
          if empty then names_loop cmpt m js ok reslist t
          else do {
            name \<leftarrow> lcfgreslist_get_name m a;
            res_name \<leftarrow> name;
            (change, reslist', _, t') \<leftarrow> lcfgtaglist_mutate_add t reslist res_name None;
            names_loop cmpt m js (ok \<and> \<not> LCFGChangeError change) reslist' t'
          })
   }"

definition lcfgcomponent_get_resources_as_taglist ::
    "res_mem \<Rightarrow> tag_mem \<Rightarrow> LCFGComponent option \<Rightarrow> (LCFGTagList option \<times> tag_mem) option" where
  "lcfgcomponent_get_resources_as_taglist m t cmpt = do {
     empty \<leftarrow> lcfgcomponent_is_empty m cmpt;
     (ok, reslist, t1) \<leftarrow> (case cmpt of
         None \<Rightarrow> Some (True, lcfgtaglist_new, t)
       | Some c \<Rightarrow> if empty then Some (True, lcfgtaglist_new, t)
                   else names_loop c m [0..<comp_buckets c] True lcfgtaglist_new t);
     if ok then Some (Some reslist, t1) else map_option (\<lambda>(_, t2). (None, t2)) (lcfgtaglist_relinquish t1 (Some reslist))
   }"

definition lcfgcomponent_get_resources_as_string ::
    "res_mem \<Rightarrow> tag_mem \<Rightarrow> LCFGComponent \<Rightarrow> (cstr \<times> tag_mem) option" where
  "lcfgcomponent_get_resources_as_string m t cmpt = do {
     empty \<leftarrow> lcfgcomponent_is_empty m (Some cmpt);
     if empty then Some (Some [], t)
     else do {
       (reslist, t1) \<leftarrow> lcfgcomponent_get_resources_as_taglist m t (Some cmpt);
       (case reslist of
          None \<Rightarrow> Some (None, t1)
        | Some l \<Rightarrow> do {
            t2 \<leftarrow> lcfgtaglist_sort t1 l;
            (_, s) \<leftarrow> lcfgtaglist_to_string t2 l LCFG_OPT_NONE;
            (_, t3) \<leftarrow> lcfgtaglist_relinquish t2 (Some l);
            Some (Some s, t3)
          })
     }
   }"

section \<open>The environment\<close>

definition prefix_failed :: string where "prefix_failed = ''Failed to set environment variable for resource''"

text \<open>The status is that of the last resource, as in the code.\<close>

fun to_env_loop ::
    "LCFGComponent \<Rightarrow> cstr \<Rightarrow> cstr \<Rightarrow> bits \<Rightarrow> res_mem \<Rightarrow> nat list \<Rightarrow> LCFGStatus \<Rightarrow> environment \<Rightarrow> LCFGTagList \<Rightarrow> tag_mem \<Rightarrow>
     cstr \<Rightarrow> (LCFGStatus \<times> environment \<times> LCFGTagList \<times> tag_mem \<times> cstr) option" where
  "to_env_loop cmpt val_pfx2 type_pfx2 options m [] status env export_res t msg = Some (status, env, export_res, t, msg)"
| "to_env_loop cmpt val_pfx2 type_pfx2 options m (i # js) status env export_res t msg = do {
     list \<leftarrow> bucket_at cmpt i;
     empty \<leftarrow> lcfgreslist_is_empty m list;
     (case list of
        None \<Rightarrow> to_env_loop cmpt val_pfx2 type_pfx2 options m js status env export_res t msg
      | Some a \<Rightarrow>
          if empty then to_env_loop cmpt val_pfx2 type_pfx2 options m js status env export_res t msg
          else do {
            first \<leftarrow> lcfgreslist_first_resource m a;
            p \<leftarrow> first;
            res \<leftarrow> rm_res m p;
            if \<not> (has_bit options LCFG_OPT_ALL_VALUES \<or> lcfgresource_has_value res)
            then to_env_loop cmpt val_pfx2 type_pfx2 options m js status env export_res t msg
            else do {
              (rc, env1, _) \<leftarrow> lcfgresource_to_env env res None val_pfx2 type_pfx2 options;
              if rc = LCFG_STATUS_ERROR
              then to_env_loop cmpt val_pfx2 type_pfx2 options m js rc env1 export_res t
                (Some (lcfgresource_build_message (Some res) (lcfgcomponent_get_name cmpt) prefix_failed))
              else do {
                res_name \<leftarrow> lcfgresource_get_name res;
                (add_rc, l, _, t') \<leftarrow> lcfgtaglist_mutate_add t export_res res_name None;
                to_env_loop cmpt val_pfx2 type_pfx2 options m js (if LCFGChangeError add_rc then LCFG_STATUS_ERROR else rc)
                  env1 l t' msg
              }
            }
          })
   }"

definition lcfgcomponent_to_env ::
    "environment \<Rightarrow> res_mem \<Rightarrow> tag_mem \<Rightarrow> LCFGComponent option \<Rightarrow> cstr \<Rightarrow> cstr \<Rightarrow> bits \<Rightarrow> cstr \<Rightarrow>
     (LCFGStatus \<times> environment \<times> tag_mem \<times> cstr) option" where
  "lcfgcomponent_to_env env m t cmpt val_pfx type_pfx options msg =
     (case cmpt of
        None \<Rightarrow> Some (LCFG_STATUS_ERROR, env, t, msg)
      | Some c \<Rightarrow>
          if \<not> lcfgcomponent_is_valid (Some c) then Some (LCFG_STATUS_ERROR, env, t, msg)
          else do {
            empty \<leftarrow> lcfgcomponent_is_empty m (Some c);
            if empty then Some (LCFG_STATUS_OK, env, t, msg)
            else do {
              let compname = lcfgcomponent_get_name c;
              val_pfx2 \<leftarrow> lcfgresource_build_env_var None compname LCFG_RESOURCE_ENV_VAL_PFX val_pfx;
              type_pfx2 \<leftarrow> (if has_bit options LCFG_OPT_USE_META
                then map_option Some (lcfgresource_build_env_var None compname LCFG_RESOURCE_ENV_TYPE_PFX type_pfx)
                else Some None);
              (status, env1, export_res, t1, msg1) \<leftarrow>
                to_env_loop c (Some val_pfx2) type_pfx2 options m [0..<comp_buckets c] LCFG_STATUS_OK env lcfgtaglist_new t msg;
              (env2, t2) \<leftarrow> (if status = LCFG_STATUS_ERROR then Some (env1, t1)
                else do {
                  reslist_key \<leftarrow> lcfgresource_build_env_var (Some LCFG_RESOURCE_ENV_LISTKEY) None LCFG_RESOURCE_ENV_VAL_PFX (Some val_pfx2);
                  t' \<leftarrow> lcfgtaglist_sort t1 export_res;
                  (_, names) \<leftarrow> lcfgtaglist_to_string t' export_res LCFG_OPT_NONE;
                  Some (env1(reslist_key := Some names), t')
                });
              (_, t3) \<leftarrow> lcfgtaglist_relinquish t2 (Some export_res);
              Some (status, env2, t3, msg1)
            }
          })"

definition invalid_res_name :: "string \<Rightarrow> string" where
  "invalid_res_name resname = ''Invalid resource name '' @ in_quotes resname"

partial_function (option) from_env_loop ::
    "(string \<Rightarrow> 64 word) \<Rightarrow> environment \<Rightarrow> cstr \<Rightarrow> cstr \<Rightarrow> tag_mem \<Rightarrow> LCFGTagIterator \<Rightarrow> LCFGStatus \<Rightarrow> LCFGComponent \<Rightarrow> cstr \<Rightarrow>
     res_mem \<Rightarrow> (LCFGStatus \<times> LCFGTagIterator \<times> LCFGComponent \<times> cstr \<times> res_mem) option" where
  "from_env_loop farmhash64 env val_pfx2 type_pfx2 t tagiter status cmpt msg m =
     (if status = LCFG_STATUS_ERROR then Some (status, tagiter, cmpt, msg, m)
      else do {
        (restag, tagiter') \<leftarrow> lcfgtagiter_next t tagiter;
        (case restag of
           None \<Rightarrow> Some (status, tagiter', cmpt, msg, m)
         | Some q \<Rightarrow> do {
             tag \<leftarrow> tm_tags t q;
             resname \<leftarrow> lcfgtag_get_name tag;
             if \<not> lcfgresource_valid_name (Some resname)
             then Some (LCFG_STATUS_ERROR, tagiter', cmpt, Some (invalid_res_name resname), m)
             else do {
               read \<leftarrow> lcfgresource_from_env env resname None val_pfx2 type_pfx2 LCFG_OPT_NONE;
               (case read of
                  Inl msg' \<Rightarrow> from_env_loop farmhash64 env val_pfx2 type_pfx2 t tagiter' LCFG_STATUS_ERROR cmpt (Some msg') m
                | Inr res \<Rightarrow>
                    (case alloc_res res m of (p, m1) \<Rightarrow> do {
                       (change, cmpt', merge_msg, m2) \<leftarrow> lcfgcomponent_merge_resource farmhash64 cmpt p None m1;
                       m3 \<leftarrow> relinquish_res p m2;
                       if LCFGChangeError change
                       then from_env_loop farmhash64 env val_pfx2 type_pfx2 t tagiter' LCFG_STATUS_ERROR cmpt'
                         (Some (''Failed to import resource '' @ in_quotes resname @ '': '' @ or_default merge_msg ''(null)'')) m3
                       else from_env_loop farmhash64 env val_pfx2 type_pfx2 t tagiter' LCFG_STATUS_OK cmpt' msg m3
                     }))
             }
           })
      })"

text \<open>The status, the component, the message and both memories. An iterator for no list is an assertion that fails.\<close>

definition lcfgcomponent_from_env ::
    "(string \<Rightarrow> 64 word) \<Rightarrow> environment \<Rightarrow> string \<Rightarrow> cstr \<Rightarrow> cstr \<Rightarrow> bits \<Rightarrow> cstr \<Rightarrow> res_mem \<Rightarrow> tag_mem \<Rightarrow>
     (LCFGStatus \<times> LCFGComponent option \<times> cstr \<times> res_mem \<times> tag_mem) option" where
  "lcfgcomponent_from_env farmhash64 env compname_in val_pfx type_pfx options msg m t =
     (if \<not> lcfgcomponent_valid_name (Some compname_in)
      then Some (LCFG_STATUS_ERROR, None, Some (''Invalid component name '' @ in_quotes compname_in), m, t)
      else do {
        val_pfx2 \<leftarrow> lcfgresource_build_env_var None (Some compname_in) LCFG_RESOURCE_ENV_VAL_PFX val_pfx;
        type_pfx2 \<leftarrow> lcfgresource_build_env_var None (Some compname_in) LCFG_RESOURCE_ENV_TYPE_PFX type_pfx;
        reslist_key \<leftarrow> lcfgresource_build_env_var (Some LCFG_RESOURCE_ENV_LISTKEY) (Some compname_in) LCFG_RESOURCE_ENV_VAL_PFX
          (Some val_pfx2);
        let reslist = env reslist_key;
        (status, import_res, msg1, t1) \<leftarrow>
          (if \<not> isempty reslist then lcfgtaglist_from_string t (or_default reslist []) msg
           else if \<not> has_bit options LCFG_OPT_ALLOW_NOEXIST
           then Some (LCFG_STATUS_ERROR, None,
             Some (''No resources found in environment for '' @ in_quotes compname_in @ '' component''), t)
           else Some (LCFG_STATUS_OK, None, msg, t));
        if status = LCFG_STATUS_ERROR \<or> \<not> isempty reslist \<and> lcfgtaglist_is_empty import_res
        then map_option (\<lambda>(_, t2). (status, None, msg1, m, t2)) (lcfgtaglist_relinquish t1 import_res)
        else do {
          (cmpt, m1) \<leftarrow> lcfgcomponent_new farmhash64 m;
          let (_, cmpt1) = lcfgcomponent_set_name cmpt (Some compname_in);
          l \<leftarrow> import_res;
          (status', tagiter, cmpt2, msg2, m2) \<leftarrow>
            from_env_loop farmhash64 env (Some val_pfx2) (Some type_pfx2) t1 (lcfgtagiter_new l) status cmpt1 msg1 m1;
          (l', t2) \<leftarrow> lcfgtagiter_destroy t1 (Some tagiter);
          (_, t3) \<leftarrow> lcfgtaglist_relinquish t2 l';
          if status' = LCFG_STATUS_ERROR
          then map_option (\<lambda>(_, m3). (status', None, msg2, m3, t3)) (lcfgcomponent_relinquish (Some cmpt2) m2)
          else Some (status', Some cmpt2, msg2, m2, t3)
        }
      })"


section \<open>Status files\<close>

text \<open>
  The loop over the lines: whether all could be used, the component and the message; \<open>recent\<close> is
  the resource of the last line. Numbers of lines count from 1.
\<close>

definition failed_line :: "string \<Rightarrow> nat \<Rightarrow> string \<Rightarrow> string" where
  "failed_line what linenum reason = ''Failed to '' @ what @ '' line '' @ decimal linenum @ reason"

definition in_parens :: "string \<Rightarrow> string" where "in_parens s = '' ('' @ s @ '')''"

fun status_loop ::
    "(string \<Rightarrow> 64 word) \<Rightarrow> string \<Rightarrow> bool \<Rightarrow> string \<Rightarrow> string list \<Rightarrow> nat \<Rightarrow> nat option \<Rightarrow> LCFGComponent \<Rightarrow> cstr \<Rightarrow> res_mem \<Rightarrow>
     (bool \<times> LCFGComponent \<times> cstr \<times> res_mem) option" where
  "status_loop farmhash64 compname ignore_meta statusfile [] linenum recent cmpt msg m = Some (True, cmpt, msg, m)"
| "status_loop farmhash64 compname ignore_meta statusfile (line # rest) linenum recent cmpt msg m =
     (case lcfgresource_parse_spec (lcfgutils_string_chomp line) of
        Inl parse_msg \<Rightarrow> Some (False, cmpt, Some (failed_line ''parse'' linenum (in_parens parse_msg)), m)
      | Inr (this_hostname, this_compname, this_resname, status_value, this_type) \<Rightarrow>
          if ignore_meta \<and> this_type \<noteq> LCFG_RESOURCE_SYMBOL_VALUE \<and> this_type \<noteq> LCFG_RESOURCE_SYMBOL_TYPE
          then status_loop farmhash64 compname ignore_meta statusfile rest (linenum + 1) recent cmpt msg m
          else if this_compname \<noteq> None \<and>
                  (\<not> lcfgcomponent_valid_name this_compname \<or> strcmp (or_default this_compname []) compname \<noteq> 0)
          then Some (False, cmpt, Some (failed_line ''parse'' linenum
                 (in_parens (''invalid component name '' @ in_quotes (or_default this_compname [])))), m)
          else do {
            again \<leftarrow> (case recent of None \<Rightarrow> Some False
                     | Some p \<Rightarrow> map_option (\<lambda>r. lcfgresource_match r this_resname) (rm_res m p));
            (find_rc, res, cmpt1, msg1, m1) \<leftarrow>
              (if again then Some (LCFG_CHANGE_NONE, recent, cmpt, msg, m)
               else lcfgcomponent_find_or_create_resource farmhash64 cmpt this_resname msg m);
            (case res of
               None \<Rightarrow> Some (False, cmpt1,
                 Some (failed_line ''parse'' linenum ('' of status file '' @ in_quotes statusfile)), m1)
             | Some p \<Rightarrow>
                 if LCFGChangeError find_rc
                 then Some (False, cmpt1,
                   Some (failed_line ''parse'' linenum ('' of status file '' @ in_quotes statusfile)), m1)
                 else do {
                   r \<leftarrow> rm_res m1 p;
                   (ok, r', set_msg) \<leftarrow> lcfgresource_set_attribute r this_type status_value (length status_value);
                   let m2 = put_res p (Some r') m1;
                   if \<not> ok
                   then Some (False, cmpt1, Some (failed_line ''process'' linenum (in_parens (case set_msg of
                            Some s \<Rightarrow> s
                          | None \<Rightarrow> ''bad value '' @ in_quotes status_value @ '' for type '' @ in_quotes [this_type]))), m2)
                   else status_loop farmhash64 compname ignore_meta statusfile rest (linenum + 1) (Some p) cmpt1 msg1 m2
                 })
          })"

text \<open>What is done at the end, under \<open>cleanup\<close>.\<close>

definition status_result ::
    "bool \<times> LCFGComponent \<times> cstr \<times> res_mem \<Rightarrow> (LCFGStatus \<times> LCFGComponent option \<times> cstr \<times> res_mem) option" where
  "status_result r =
     (case r of (ok, cmpt, msg, m) \<Rightarrow>
        if ok then Some (LCFG_STATUS_OK, Some cmpt, msg, m)
        else map_option (\<lambda>(_, m'). (LCFG_STATUS_ERROR, None, msg, m')) (lcfgcomponent_relinquish (Some cmpt) m))"

text \<open>What \<open>fopen\<close> reports for a name, and the lines, are a parameter.\<close>

definition lcfgcomponent_from_status_file ::
    "(string \<Rightarrow> 64 word) \<Rightarrow> (string \<Rightarrow> file_read) \<Rightarrow> string \<Rightarrow> cstr \<Rightarrow> bits \<Rightarrow> cstr \<Rightarrow> res_mem \<Rightarrow>
     (LCFGStatus \<times> LCFGComponent option \<times> cstr \<times> res_mem) option" where
  "lcfgcomponent_from_status_file farmhash64 fopen filename compname_in options msg m = do {
     let ignore_meta = (\<not> has_bit options LCFG_OPT_USE_META);
     let compname = (case compname_in of Some n \<Rightarrow> Some n | None \<Rightarrow> lcfgutils_basename (Some filename) None);
     (cmpt, m1) \<leftarrow> lcfgcomponent_new farmhash64 m;
     (case lcfgcomponent_set_name cmpt compname of
        (False, _) \<Rightarrow> status_result (False, cmpt, Some (''Invalid name for component '' @ in_quotes (or_default compname [])), m1)
      | (True, cmpt1) \<Rightarrow>
          (case fopen filename of
             FileMissing \<Rightarrow>
               if has_bit options LCFG_OPT_ALLOW_NOEXIST then status_result (True, cmpt1, msg, m1)
               else status_result (False, cmpt1, Some (''Component status file '' @ in_quotes filename @ '' does not exist''), m1)
           | FileUnreadable \<Rightarrow> status_result (False, cmpt1, Some (''Component status file '' @ in_quotes filename @ '' is not readable''), m1)
           | FileLines _ ls \<Rightarrow> do {
               r \<leftarrow> status_loop farmhash64 (or_default compname []) ignore_meta filename ls 1 None cmpt1 msg m1;
               status_result r
             }))
   }"

section \<open>Selection\<close>

text \<open>The lists that are selected are shared by both components.\<close>

partial_function (option) select_loop ::
    "(string \<Rightarrow> 64 word) \<Rightarrow> LCFGComponent \<Rightarrow> bool \<Rightarrow> tag_mem \<Rightarrow> LCFGTagIterator \<Rightarrow> LCFGStatus \<Rightarrow> LCFGComponent \<Rightarrow> cstr \<Rightarrow>
     res_mem \<Rightarrow> (LCFGStatus \<times> LCFGTagIterator \<times> LCFGComponent \<times> cstr \<times> res_mem) option" where
  "select_loop farmhash64 cmpt allow_noexist t tagiter status new_comp msg m =
     (if status = LCFG_STATUS_ERROR then Some (status, tagiter, new_comp, msg, m)
      else do {
        (restag, tagiter') \<leftarrow> lcfgtagiter_next t tagiter;
        (case restag of
           None \<Rightarrow> Some (status, tagiter', new_comp, msg, m)
         | Some q \<Rightarrow> do {
             tag \<leftarrow> tm_tags t q;
             resname \<leftarrow> lcfgtag_get_name tag;
             if \<not> lcfgresource_valid_name (Some resname)
             then Some (LCFG_STATUS_ERROR, tagiter', new_comp, Some (invalid_res_name resname), m)
             else do {
               list \<leftarrow> lcfgcomponent_find_list farmhash64 m (Some cmpt) resname;
               empty \<leftarrow> lcfgreslist_is_empty m list;
               if \<not> empty then do {
                 (insert_rc, comp1, m1) \<leftarrow> lcfgcomponent_insert_list farmhash64 new_comp list m;
                 if LCFGChangeError insert_rc
                 then select_loop farmhash64 cmpt allow_noexist t tagiter' LCFG_STATUS_ERROR comp1
                   (Some (''Failed to select resource named '' @ in_quotes resname)) m1
                 else do {
                   (comp2, m2) \<leftarrow> (if insert_rc = LCFG_CHANGE_ADDED then lcfgcomponent_resize farmhash64 comp1 m1 else Some (comp1, m1));
                   select_loop farmhash64 cmpt allow_noexist t tagiter' status comp2 msg m2
                 }
               }
               else if allow_noexist then select_loop farmhash64 cmpt allow_noexist t tagiter' status new_comp msg m
               else select_loop farmhash64 cmpt allow_noexist t tagiter' LCFG_STATUS_ERROR new_comp
                 (Some (resname @ '' resource does not exist'')) m
             }
           })
      })"

definition lcfgcomponent_select ::
    "(string \<Rightarrow> 64 word) \<Rightarrow> LCFGComponent \<Rightarrow> LCFGTagList \<Rightarrow> bits \<Rightarrow> cstr \<Rightarrow> tag_mem \<Rightarrow> res_mem \<Rightarrow>
     (LCFGStatus \<times> LCFGComponent option \<times> cstr \<times> tag_mem \<times> res_mem) option" where
  "lcfgcomponent_select farmhash64 cmpt res_wanted options msg t m = do {
     (new_comp, m1) \<leftarrow> lcfgcomponent_new farmhash64 m;
     let (ok, comp1) = (if \<not> isempty (comp_name cmpt) then lcfgcomponent_set_name new_comp (comp_name cmpt) else (True, new_comp));
     if \<not> ok
     then map_option (\<lambda>(_, m2). (LCFG_STATUS_ERROR, None,
              Some (''Invalid component name '' @ in_quotes (or_default (comp_name cmpt) [])), t, m2))
            (lcfgcomponent_relinquish (Some comp1) m1)
     else do {
       (comp2, m2) \<leftarrow> presize farmhash64 (tl_size res_wanted)
         (comp1\<lparr>comp_primary_key := comp_primary_key cmpt, comp_merge_rules := comp_merge_rules cmpt\<rparr>) m1;
       (status, tagiter, comp3, msg', m3) \<leftarrow>
         select_loop farmhash64 cmpt (has_bit options LCFG_OPT_ALLOW_NOEXIST) t (lcfgtagiter_new res_wanted) LCFG_STATUS_OK comp2 msg m2;
       (_, t') \<leftarrow> lcfgtagiter_destroy t (Some tagiter);
       if status = LCFG_STATUS_ERROR
       then map_option (\<lambda>(_, m4). (status, None, msg', t', m4)) (lcfgcomponent_relinquish (Some comp3) m3)
       else Some (status, Some comp3, msg', t', m3)
     }
   }"


section \<open>Other resources in the memory\<close>

text \<open>The setters of attributes return, and leave name and count as they are.\<close>

lemma set_attribute_frame:
  "\<exists>ok r' msg. lcfgresource_set_attribute r c v n = Some (ok, r', msg) \<and> res_name r' = res_name r \<and>
    res_refcount r' = res_refcount r \<and> (res_ok r \<longrightarrow> res_ok r')"
proof -
  let ?arg = "if 0 < n then Some (take n v) else None"
  consider (deriv) "c = LCFG_RESOURCE_SYMBOL_DERIVATION" | (type) "c = LCFG_RESOURCE_SYMBOL_TYPE" | (ctx) "c = LCFG_RESOURCE_SYMBOL_CONTEXT"
    | (priority) "c = LCFG_RESOURCE_SYMBOL_PRIORITY"
    | (val) "c \<notin> {LCFG_RESOURCE_SYMBOL_DERIVATION, LCFG_RESOURCE_SYMBOL_TYPE, LCFG_RESOURCE_SYMBOL_CONTEXT, LCFG_RESOURCE_SYMBOL_PRIORITY}"
    by blast
  then show ?thesis
  proof cases
    case deriv
    obtain ok r' where r': "lcfgresource_set_derivation_as_string r ?arg = (ok, r')" by force
    then have "\<exists>d. r' = r\<lparr>res_derivation := d\<rparr>"
      by (auto simp: lcfgresource_set_derivation_as_string_def lcfgresource_set_derivation_def split: option.splits sum.splits if_splits
          intro: exI [of _ "res_derivation r"])
    with r' deriv show ?thesis by (auto simp: lcfgresource_set_attribute_def Let_def res_ok_def)
  next
    case type
    have sym: "LCFG_RESOURCE_SYMBOL_TYPE \<noteq> LCFG_RESOURCE_SYMBOL_DERIVATION"
      by (simp add: LCFG_RESOURCE_SYMBOL_TYPE_def LCFG_RESOURCE_SYMBOL_DERIVATION_def)
    show ?thesis
    proof (cases "0 < n")
      case True
      from set_type_string [of r ?arg] obtain ok ty co ts msg where
        s: "lcfgresource_set_type_as_string r ?arg = Some (ok, r\<lparr>res_type := ty, res_comment := co, res_template := ts\<rparr>, msg)" by blast
      from type_string_ok [OF _ s] s type sym True show ?thesis by (auto simp: lcfgresource_set_attribute_def Let_def)
    next
      case False
      obtain ok r' where r': "lcfgresource_set_type_default r = (ok, r')" by force
      then have "res_name r' = res_name r \<and> res_refcount r' = res_refcount r"
        by (auto simp: lcfgresource_set_type_default_def lcfgresource_set_type_def lcfgresource_set_template_def
            lcfgresource_set_comment_def split: if_splits)
      moreover have "res_ok r \<longrightarrow> res_ok r'" using type_default_ok [of r] r' by simp
      ultimately show ?thesis using r' type sym False by (auto simp: lcfgresource_set_attribute_def Let_def)
    qed
  next
    case ctx
    have sym: "LCFG_RESOURCE_SYMBOL_CONTEXT \<noteq> LCFG_RESOURCE_SYMBOL_DERIVATION" "LCFG_RESOURCE_SYMBOL_CONTEXT \<noteq> LCFG_RESOURCE_SYMBOL_TYPE"
      by (simp_all add: LCFG_RESOURCE_SYMBOL_TYPE_def LCFG_RESOURCE_SYMBOL_DERIVATION_def LCFG_RESOURCE_SYMBOL_CONTEXT_def)
    obtain ok r' where r': "lcfgresource_set_context r ?arg = (ok, r')" by force
    then have "res_name r' = res_name r \<and> res_refcount r' = res_refcount r" by (auto simp: lcfgresource_set_context_def split: if_splits)
    moreover have "res_ok r \<longrightarrow> res_ok r'" using setters_ok(6) [of r ?arg] r' by simp
    ultimately show ?thesis using r' ctx sym by (auto simp: lcfgresource_set_attribute_def Let_def)
  next
    case priority
    have sym: "LCFG_RESOURCE_SYMBOL_PRIORITY \<noteq> LCFG_RESOURCE_SYMBOL_DERIVATION" "LCFG_RESOURCE_SYMBOL_PRIORITY \<noteq> LCFG_RESOURCE_SYMBOL_TYPE"
      "LCFG_RESOURCE_SYMBOL_PRIORITY \<noteq> LCFG_RESOURCE_SYMBOL_CONTEXT"
      by (simp_all add: LCFG_RESOURCE_SYMBOL_TYPE_def LCFG_RESOURCE_SYMBOL_DERIVATION_def LCFG_RESOURCE_SYMBOL_CONTEXT_def LCFG_RESOURCE_SYMBOL_PRIORITY_def)
    then show ?thesis using priority
      by (auto simp: lcfgresource_set_attribute_def Let_def lcfgresource_set_priority_def lcfgresource_set_priority_default_def res_ok_def)
  next
    case val
    have total: "\<exists>copy. (if 0 < n then lcfgutils_decode_html_entities_utf8 (take n v) else Some []) = Some copy"
      using decode_result(1) [of "take n v"] by auto
    then obtain copy where copy: "(if 0 < n then lcfgutils_decode_html_entities_utf8 (take n v) else Some []) = Some copy" by blast
    obtain ok r' where r': "lcfgresource_set_value r (Some copy) = (ok, r')" by force
    then have "res_name r' = res_name r \<and> res_refcount r' = res_refcount r" by (auto simp: lcfgresource_set_value_def split: if_splits)
    moreover have "res_ok r \<longrightarrow> res_ok r'" using setters_ok(2) [of r "Some copy"] r' by simp
    moreover have "lcfgresource_set_attribute r c v n =
      Some (ok, r', if ok then None else Some (invalid_attr ''value'' n copy))"
      using val copy r' by (simp add: lcfgresource_set_attribute_def Let_def split: if_splits)
    ultimately show ?thesis by blast
  qed
qed

text \<open>A resource that keeps its name and count leaves the component as it is.\<close>

lemma put_same_name:
  assumes "rm_res m p = Some r" and "res_name r' = res_name r" and "res_refcount r' = res_refcount r"
  defines "m' \<equiv> put_res p (Some r') m"
  shows "res_mem_ok K P m \<Longrightarrow> res_mem_ok K P m'" and "comp_ok farm K P m c \<Longrightarrow> comp_ok farm K P m' c"
    and "comp_nodes farm m' c = comp_nodes farm m c"
proof -
  have refs: "res_refs m' = res_refs m" using assms(1,3) by (auto simp: m'_def res_refs_def fun_eq_iff)
  then show ok: "res_mem_ok K P m'" if "res_mem_ok K P m" for K P
    using that assms(1,3) by (auto simp: res_mem_ok_def m'_def)
  have nodes: "nodes_at m' = nodes_at m" by (simp add: m'_def)
  have res: "has_res_name m' = has_res_name m"
    using assms(1,2) by (auto simp: fun_eq_iff has_res_name_def m'_def lcfgresource_get_name_def)
  have named: "named_list m' = named_list m" by (intro ext) (simp only: named_list_def nodes res)
  have name: "reslist_name m' = reslist_name m"
    using assms(1,2) nodes by (auto simp: fun_eq_iff reslist_name_def m'_def lcfgresource_get_name_def split: list.splits)
  show "comp_nodes farm m' c = comp_nodes farm m c" by (intro ext) (simp only: comp_nodes_def nodes name)
  show "comp_ok farm K P m c \<Longrightarrow> comp_ok farm K P m' c"
    using ok by (simp add: comp_ok_def table_good_def lists_named_def named name)
qed

text \<open>A new resource, which its creator holds.\<close>

lemma alloc_res_ok:
  assumes "res_mem_ok K P m" and "res_refcount r = 1"
  shows "\<exists>m'. alloc_res r m = (rm_free m, m') \<and> res_mem_ok K (P(rm_free m := 1)) m' \<and> evolves m m' \<and> rm_lists m' = rm_lists m \<and>
    rm_res m' = (rm_res m)(rm_free m \<mapsto> r) \<and> P (rm_free m) = 0 \<and> rm_free m' = rm_free m + 1"
proof -
  let ?p = "rm_free m"
  let ?m = "snd (alloc_res r m)"
  have m': "alloc_res r m = (?p, ?m)" "rm_lists ?m = rm_lists m" "rm_res ?m = (rm_res m)(?p \<mapsto> r)" "rm_free ?m = ?p + 1"
    by (simp_all add: alloc_res_def)
  have "rm_res m ?p = None" using res_mem_okD(3) [OF assms(1), of ?p] by (cases "rm_res m ?p") auto
  then have free: "res_held m ?p = 0" "P ?p = 0" using res_mem_okD(4) [OF assms(1), of ?p] by (simp_all add: res_refs_def)
  have held: "res_held ?m = res_held m" using res_held_lists [OF m'(2)] by auto
  have "res_held ?m q + (P(?p := 1)) q = res_refs ?m q" for q
    using res_mem_okD(4) [OF assms(1), of q] free assms(2) m'(3) by (simp add: held res_refs_def)
  moreover have "list_refs ?m = list_refs m" by (simp add: list_refs_def m'(2) fun_eq_iff)
  ultimately have "res_mem_ok K (P(?p := 1)) ?m"
    using res_mem_okD [OF assms(1)] m'(2-4) assms(2) by (fastforce simp: res_mem_ok_def less_Suc_eq split: if_splits)
  moreover have "evolves m ?m" using m'(3,4) by (simp add: evolves_def)
  ultimately show ?thesis using m' free by blast
qed


section \<open>Finding or creating a resource\<close>

lemma valid_name_chars: "lcfgresource_valid_name (Some name) \<Longrightarrow> name \<noteq> [] \<and> no_nul name"
proof -
  assume "lcfgresource_valid_name (Some name)"
  then obtain c t where t: "name = c # t" "isalpha c" "list_all isword t"
    by (cases name) (auto simp: lcfgresource_valid_name_def)
  have "\<not> isalpha nul" "\<not> isword nul" by (simp_all add: nul_def lcfg_chr byte_def)
  with t show ?thesis by (auto simp: no_nul_def list_all_iff)
qed

lemma lists_frame:
  assumes c: "comp_ok farm K P m c" and ok: "res_mem_ok (claims K c) P' m'" and ev: "evolves m m'" and same: "same_lists (comp_lists c) m m'"
  shows "comp_ok farm K P' m' c" and "comp_nodes farm m' c = comp_nodes farm m c"
proof -
  have good: "table_good farm m c" and okm: "res_mem_ok (claims K c) P m" using c by (simp_all add: comp_ok_def)
  have kept: "named_list m' (reslist_name m x) x \<and> nodes_at m' x = nodes_at m x" if "x \<in> comp_lists c" for x
    using nodes_kept [OF okm ok ev same that] same_listsD(1) [OF same that] table_goodD(3) [OF good, of x] that
    by (simp add: comp_lists_def)
  then have good': "table_good farm m' c" by (intro table_good_kept(1) [OF good]) blast
  then show "comp_ok farm K P' m' c" using ok by (simp add: comp_ok_def)
  show "comp_nodes farm m' c = comp_nodes farm m c" by (rule comp_nodes_kept [OF good good' refl kept])
qed

lemma find_or_create_ok:
  assumes c: "comp_ok farm K P m c" and valid: "lcfgresource_valid_name (Some name)"
  shows "\<exists>ch p c' msg' m'. lcfgcomponent_find_or_create_resource farm c name msg m = Some (ch, Some p, c', msg', m') \<and>
    \<not> LCFGChangeError ch \<and> comp_ok farm K P m' c' \<and> evolves m m' \<and> same_lists (others K) m m' \<and> same_attrs c c' \<and>
    comp_nodes farm m' c' = (comp_nodes farm m c)(name := if comp_nodes farm m c name = [] then [p] else comp_nodes farm m c name) \<and>
    p \<in> set (comp_nodes farm m' c' name) \<and>
    (comp_nodes farm m c name = [] \<longrightarrow> p = rm_free m \<and>
      map_option content (rm_res m' p) = Some (content (lcfgresource_new\<lparr>res_name := Some name\<rparr>)))"
proof -
  have good: "table_good farm m c" and ok: "res_mem_ok (claims K c) P m" using c by (simp_all add: comp_ok_def)
  have name: "name \<noteq> []" "no_nul name" using valid_name_chars [OF valid] by simp_all
  note find = find_resource_nodes [OF ok good name(2)]
  show ?thesis
  proof (cases "comp_nodes farm m c name")
    case (Cons p ps)
    then show ?thesis
      using find c by (intro exI [of _ LCFG_CHANGE_NONE] exI [of _ p] exI [of _ c] exI [of _ msg] exI [of _ m])
        (simp add: lcfgcomponent_find_or_create_resource_def LCFGChangeError_def fun_upd_idem)
  next
    case Nil
    let ?r = "lcfgresource_new\<lparr>res_name := Some name\<rparr>"
    have "res_refcount ?r = 1" by (simp add: lcfgresource_new_def)
    from alloc_res_ok [OF ok this] obtain m1 where m1: "alloc_res ?r m = (rm_free m, m1)"
      "res_mem_ok (claims K c) (P(rm_free m := 1)) m1" "evolves m m1" "rm_lists m1 = rm_lists m" "rm_res m1 = (rm_res m)(rm_free m \<mapsto> ?r)"
      "P (rm_free m) = 0" "rm_free m1 = rm_free m + 1" by blast
    have "same_lists (comp_lists c) m m1" using m1(4) by (simp add: same_lists_def)
    note frame = lists_frame [OF c m1(2,3) this]
    have r: "rm_res m1 (rm_free m) = Some ?r" "lcfgresource_get_name ?r = Some name" using m1(5) by (simp_all add: lcfgresource_get_name_def)
    have empty: "nodes (comp_merge_target farm m1 c name) = []" using merge_target_nodes(1) [OF frame(1)] frame(2) Nil by simp
    then have plan: "plan_for m1 (comp_merge_target farm m1 c name) (rm_free m) ?r = (None, False, True, True)"
      by (simp add: plan_for_def Let_def key_node_def res_merge_plan_def)
    from merge_resource_step [OF frame(1) r name plan, of msg] obtain c' msg' m2 where m2:
      "lcfgcomponent_merge_resource farm c (rm_free m) msg m1 = Some (LCFG_CHANGE_ADDED, c', msg', m2)"
      "comp_ok farm K (P(rm_free m := 1)) m2 c'" "evolves m1 m2" "same_lists (others K) m1 m2" "same_attrs c c'"
      "comp_nodes farm m2 c' = (comp_nodes farm m c)(name := [rm_free m])"
      using frame(2) Nil by (auto simp: merge_code_def merged_nodes_def)
    have ok2: "res_mem_ok (claims K c') (P(rm_free m := 1)) m2" using m2(2) by (simp add: comp_ok_def)
    from relinquish_res_ok [OF ok2, of "rm_free m"] obtain r' where m3: "relinquish_res (rm_free m) m2 = Some (put_res (rm_free m) r' m2)"
      "res_mem_ok (claims K c') P (put_res (rm_free m) r' m2)" "evolves m2 (put_res (rm_free m) r' m2)"
      using m1(6) by (auto simp: fun_upd_idem)
    let ?m3 = "put_res (rm_free m) r' m2"
    have "same_lists (comp_lists c') m2 ?m3" by (simp add: same_lists_def)
    note frame3 = lists_frame [OF m2(2) m3(2,3) this]
    have ev: "evolves m1 ?m3" by (rule evolves_trans [OF m2(3) m3(3)])
    have held: "rm_free m \<in> set (comp_nodes farm ?m3 c' name)" using frame3(2) m2(6) by simp
    then have "rm_res ?m3 (rm_free m) \<noteq> None" using merge_target_nodes(3) [OF frame3(1)] by blast
    with evolved [OF m1(2) ev r(1)] have "map_option content (rm_res ?m3 (rm_free m)) = Some (content ?r)" by auto
    moreover have "same_lists (others K) m ?m3" using m1(4) m2(4) by (simp add: same_lists_def)
    moreover have "evolves m ?m3" by (rule evolves_trans [OF m1(3) ev])
    moreover have "lcfgresource_set_name lcfgresource_new (Some name) = (True, ?r)" using valid by (simp add: lcfgresource_set_name_def)
    then have "lcfgcomponent_find_or_create_resource farm c name msg m = Some (LCFG_CHANGE_ADDED, Some (rm_free m), c', msg', ?m3)"
      using find Nil m1(1) m2(1) m3(1) by (simp add: lcfgcomponent_find_or_create_resource_def LCFGChangeOK_def)
    ultimately show ?thesis
      using frame3 m2(5,6) held Nil by (intro exI [of _ LCFG_CHANGE_ADDED] exI [of _ "rm_free m"] exI [of _ c'] exI [of _ msg'] exI [of _ ?m3])
        (simp add: LCFGChangeError_def)
  qed
qed


section \<open>Reading a status file\<close>

text \<open>
  What holds between the lines, from the memory at the start: the component is well formed, its
  resources are valid and were created since, and nothing else has changed.
\<close>

definition status_inv ::
    "(string \<Rightarrow> 64 word) \<Rightarrow> (nat \<Rightarrow> nat) \<Rightarrow> (nat \<Rightarrow> nat) \<Rightarrow> res_mem \<Rightarrow> res_mem \<Rightarrow> LCFGComponent \<Rightarrow> bool" where
  "status_inv farm K P m0 m c \<longleftrightarrow> comp_ok farm K P m c \<and> evolves m0 m \<and> same_lists (others K) m0 m \<and> comp_refcount c = 1 \<and>
     (\<forall>name. \<forall>p\<in>set (comp_nodes farm m c name). rm_free m0 \<le> p \<and> (\<forall>r. rm_res m p = Some r \<longrightarrow> res_ok r))"

lemma res_ok_content: "content r' = content r \<Longrightarrow> res_ok r' \<longleftrightarrow> res_ok r"
proof -
  assume "content r' = content r"
  then obtain i where "r' = r\<lparr>res_refcount := i\<rparr>" using content_eq by blast
  moreover have "lcfgresource_valid_value (r\<lparr>res_refcount := i\<rparr>) v = lcfgresource_valid_value r v" for v
    by (simp add: lcfgresource_valid_value_def lcfgresource_get_type_def)
  ultimately show ?thesis by (simp add: res_ok_def)
qed

lemma same_attrs_refcount: "same_attrs c c' \<Longrightarrow> comp_refcount c' = comp_refcount c"
  unfolding same_attrs_def by (cases c; cases c') simp

lemma status_find:
  assumes inv: "status_inv farm K P m0 m c" and valid: "lcfgresource_valid_name (Some name)"
  shows "\<exists>ch p c' msg' m'. lcfgcomponent_find_or_create_resource farm c name msg m = Some (ch, Some p, c', msg', m') \<and>
    \<not> LCFGChangeError ch \<and> status_inv farm K P m0 m' c' \<and> (\<exists>nm. p \<in> set (comp_nodes farm m' c' nm))"
proof -
  have c: "comp_ok farm K P m c" and ev0: "evolves m0 m" and old: "\<And>nm q. q \<in> set (comp_nodes farm m c nm) \<Longrightarrow>
      rm_free m0 \<le> q \<and> (\<forall>r. rm_res m q = Some r \<longrightarrow> res_ok r)"
    using inv by (auto simp: status_inv_def)
  from find_or_create_ok [OF c valid, of msg] obtain ch p c' msg' m' where s:
    "lcfgcomponent_find_or_create_resource farm c name msg m = Some (ch, Some p, c', msg', m')" "\<not> LCFGChangeError ch"
    "comp_ok farm K P m' c'" "evolves m m'" "same_lists (others K) m m'" "same_attrs c c'"
    "comp_nodes farm m' c' = (comp_nodes farm m c)(name := if comp_nodes farm m c name = [] then [p] else comp_nodes farm m c name)"
    "p \<in> set (comp_nodes farm m' c' name)"
    "comp_nodes farm m c name = [] \<Longrightarrow> p = rm_free m \<and>
       map_option content (rm_res m' p) = Some (content (lcfgresource_new\<lparr>res_name := Some name\<rparr>))" by blast
  have ok: "res_mem_ok (claims K c) P m" using c by (simp add: comp_ok_def)
  have new: "res_ok (lcfgresource_new\<lparr>res_name := Some name\<rparr>)"
    using setters_ok(1) [OF new_ok, of "Some name"] valid by (simp add: lcfgresource_set_name_def)
  have "rm_free m0 \<le> q \<and> (\<forall>r. rm_res m' q = Some r \<longrightarrow> res_ok r)" if q: "q \<in> set (comp_nodes farm m' c' nm)" for q nm
  proof (cases "q \<in> set (comp_nodes farm m c nm)")
    case True
    then obtain r where r: "rm_res m q = Some r" using merge_target_nodes(3) [OF c, of nm] by auto
    from q merge_target_nodes(3) [OF s(3), of nm] have "rm_res m' q \<noteq> None" by blast
    with evolved [OF ok s(4) r] obtain r' where "rm_res m' q = Some r'" "content r' = content r" by blast
    with old [OF True] r res_ok_content [of r' r] show ?thesis by simp
  next
    case False
    with q s(7) have "comp_nodes farm m c name = []" "q = p" by (auto split: if_splits)
    moreover have "rm_free m0 \<le> rm_free m" using ev0 by (simp add: evolves_def)
    moreover have "res_ok r" if "rm_res m' p = Some r" for r
      using s(9) \<open>comp_nodes farm m c name = []\<close> that new res_ok_content [of r] by simp
    ultimately show ?thesis using s(9) by simp
  qed
  then have "status_inv farm K P m0 m' c'"
    using inv s(3-6) same_attrs_refcount [OF s(6)]
    by (auto simp: status_inv_def intro: evolves_trans same_lists_trans)
  with s show ?thesis by blast
qed

lemma status_attribute:
  assumes inv: "status_inv farm K P m0 m c" and p: "p \<in> set (comp_nodes farm m c nm)"
  shows "\<exists>r ok r' msg. rm_res m p = Some r \<and> lcfgresource_set_attribute r s v n = Some (ok, r', msg) \<and>
    status_inv farm K P m0 (put_res p (Some r') m) c \<and> (\<exists>nm. p \<in> set (comp_nodes farm (put_res p (Some r') m) c nm))"
proof -
  have c: "comp_ok farm K P m c" and old: "\<And>nm q. q \<in> set (comp_nodes farm m c nm) \<Longrightarrow>
      rm_free m0 \<le> q \<and> (\<forall>r. rm_res m q = Some r \<longrightarrow> res_ok r)"
    using inv by (auto simp: status_inv_def)
  from p merge_target_nodes(3) [OF c, of nm] obtain r where r: "rm_res m p = Some r" by auto
  from set_attribute_frame [of r s v n] obtain ok r' msg where r': "lcfgresource_set_attribute r s v n = Some (ok, r', msg)"
    "res_name r' = res_name r" "res_refcount r' = res_refcount r" "res_ok r'" using old [OF p] r by blast
  note put = put_same_name [OF r r'(2,3)]
  have "evolves m0 (put_res p (Some r') m)" using inv old [OF p] by (auto simp: status_inv_def evolves_def)
  then have "status_inv farm K P m0 (put_res p (Some r') m) c"
    using inv put(2) [OF c] put(3) r'(4) by (auto simp: status_inv_def same_lists_def)
  with r r' p put(3) show ?thesis by auto
qed

lemma parse_spec_name: "lcfgresource_parse_spec s = Inr (h, c, n, v, t) \<Longrightarrow> lcfgresource_valid_name (Some n)"
  by (auto simp: lcfgresource_parse_spec_def Let_def split: if_splits option.splits sum.splits prod.splits)

text \<open>A line that is used.\<close>

lemma status_loop_use:
  assumes "lcfgresource_parse_spec (lcfgutils_string_chomp line) = Inr (h, cn, resname, v, ty)"
    and "\<not> (ignore_meta \<and> ty \<noteq> LCFG_RESOURCE_SYMBOL_VALUE \<and> ty \<noteq> LCFG_RESOURCE_SYMBOL_TYPE)"
    and "\<not> (cn \<noteq> None \<and> (\<not> lcfgcomponent_valid_name cn \<or> strcmp (or_default cn []) compname \<noteq> 0))"
  shows "status_loop farm compname ignore_meta statusfile (line # ls) n recent c msg m = do {
     again \<leftarrow> (case recent of None \<Rightarrow> Some False | Some p \<Rightarrow> map_option (\<lambda>r. lcfgresource_match r resname) (rm_res m p));
     (find_rc, res, c1, msg1, m1) \<leftarrow>
       (if again then Some (LCFG_CHANGE_NONE, recent, c, msg, m) else lcfgcomponent_find_or_create_resource farm c resname msg m);
     (case res of
        None \<Rightarrow> Some (False, c1, Some (failed_line ''parse'' n ('' of status file '' @ in_quotes statusfile)), m1)
      | Some p \<Rightarrow>
          if LCFGChangeError find_rc
          then Some (False, c1, Some (failed_line ''parse'' n ('' of status file '' @ in_quotes statusfile)), m1)
          else do {
            r \<leftarrow> rm_res m1 p;
            (ok, r', set_msg) \<leftarrow> lcfgresource_set_attribute r ty v (length v);
            let m2 = put_res p (Some r') m1;
            if \<not> ok
            then Some (False, c1, Some (failed_line ''process'' n (in_parens (case set_msg of
                     Some s \<Rightarrow> s
                   | None \<Rightarrow> ''bad value '' @ in_quotes v @ '' for type '' @ in_quotes [ty]))), m2)
            else status_loop farm compname ignore_meta statusfile ls (n + 1) (Some p) c1 msg1 m2
          })
   }"
  unfolding status_loop.simps assms(1) sum.case prod.case if_not_P [OF assms(2)] if_not_P [OF assms(3)] by (rule refl)

lemma status_loop_ok:
  assumes "status_inv farm K P m0 m c" and "\<And>p. recent = Some p \<Longrightarrow> \<exists>nm. p \<in> set (comp_nodes farm m c nm)"
  shows "\<exists>ok c' msg' m'. status_loop farm compname ignore_meta statusfile ls n recent c msg m = Some (ok, c', msg', m') \<and>
    status_inv farm K P m0 m' c'"
  using assms
proof (induction ls arbitrary: n recent c msg m)
  case (Cons line ls)
  note inv = Cons.prems(1)
  show ?case
  proof (cases "lcfgresource_parse_spec (lcfgutils_string_chomp line)")
    case (Inl e)
    with inv show ?thesis by auto
  next
    case (Inr parts)
    obtain h cn resname v ty where parts: "parts = (h, cn, resname, v, ty)" by (cases parts) auto
    have valid: "lcfgresource_valid_name (Some resname)" using parse_spec_name Inr parts by blast
    let ?skip = "ignore_meta \<and> ty \<noteq> LCFG_RESOURCE_SYMBOL_VALUE \<and> ty \<noteq> LCFG_RESOURCE_SYMBOL_TYPE"
    let ?bad = "cn \<noteq> None \<and> (\<not> lcfgcomponent_valid_name cn \<or> strcmp (or_default cn []) compname \<noteq> 0)"
    consider (skip) ?skip | (bad) "\<not> ?skip" ?bad | (use) "\<not> ?skip" "\<not> ?bad" by blast
    then show ?thesis
    proof cases
      case skip
      then have "status_loop farm compname ignore_meta statusfile (line # ls) n recent c msg m =
          status_loop farm compname ignore_meta statusfile ls (n + 1) recent c msg m"
        using Inr parts by simp
      with Cons.IH [OF Cons.prems, of recent] show ?thesis by simp
    next
      case bad
      with Inr parts inv show ?thesis by auto
    next
      case use
      have c: "comp_ok farm K P m c" using inv by (simp add: status_inv_def)
      define again where "again = (case recent of None \<Rightarrow> Some False
        | Some p \<Rightarrow> map_option (\<lambda>r. lcfgresource_match r resname) (rm_res m p))"
      have "again \<noteq> None"
        using Cons.prems(2) merge_target_nodes(3) [OF c] by (auto simp: again_def split: option.splits)
      then obtain g where g: "again = Some g" by blast
      have "\<exists>ch p c1 msg1 m1. (if g then Some (LCFG_CHANGE_NONE, recent, c, msg, m)
          else lcfgcomponent_find_or_create_resource farm c resname msg m) = Some (ch, Some p, c1, msg1, m1) \<and>
        \<not> LCFGChangeError ch \<and> status_inv farm K P m0 m1 c1 \<and> (\<exists>nm. p \<in> set (comp_nodes farm m1 c1 nm))"
      proof (cases g)
        case True
        then obtain p where "recent = Some p" using g by (cases recent) (auto simp: again_def)
        with True Cons.prems show ?thesis by (simp add: LCFGChangeError_def)
      next
        case False
        with status_find [OF inv valid, of msg] show ?thesis by simp
      qed
      then obtain ch p c1 msg1 m1 nm where s: "(if g then Some (LCFG_CHANGE_NONE, recent, c, msg, m)
          else lcfgcomponent_find_or_create_resource farm c resname msg m) = Some (ch, Some p, c1, msg1, m1)"
        "\<not> LCFGChangeError ch" "status_inv farm K P m0 m1 c1" "p \<in> set (comp_nodes farm m1 c1 nm)" by blast
      from status_attribute [OF s(3,4), of ty v "length v"] obtain r ok r' set_msg where a: "rm_res m1 p = Some r"
        "lcfgresource_set_attribute r ty v (length v) = Some (ok, r', set_msg)"
        "status_inv farm K P m0 (put_res p (Some r') m1) c1" "\<exists>nm. p \<in> set (comp_nodes farm (put_res p (Some r') m1) c1 nm)" by blast
      have run: "status_loop farm compname ignore_meta statusfile (line # ls) n recent c msg m =
          (if \<not> ok then Some (False, c1, Some (failed_line ''process'' n (in_parens (case set_msg of
                 Some s \<Rightarrow> s | None \<Rightarrow> ''bad value '' @ in_quotes v @ '' for type '' @ in_quotes [ty]))), put_res p (Some r') m1)
           else status_loop farm compname ignore_meta statusfile ls (n + 1) (Some p) c1 msg1 (put_res p (Some r') m1))"
        unfolding status_loop_use [OF Inr [unfolded parts] use] again_def [symmetric] g
        using s(1,2) a(1,2) by (simp add: Let_def)
      from Cons.IH [OF a(3), of "Some p" "n + 1" msg1] a(4) obtain x where
        "status_loop farm compname ignore_meta statusfile ls (n + 1) (Some p) c1 msg1 (put_res p (Some r') m1) = Some x \<and>
         (case x of (ok, c', msg', m') \<Rightarrow> status_inv farm K P m0 m' c')" by fastforce
      with run a(3) show ?thesis by (cases ok) auto
    qed
  qed
qed (rule exI [of _ True], simp)


text \<open>A component that only its creator has is destroyed when it is relinquished.\<close>

lemma claims_attrs [simp]: "claims K (c\<lparr>comp_name := n\<rparr>) = claims K c" "claims K (c\<lparr>comp_refcount := i\<rparr>) = claims K c"
  by (simp_all add: claims_def comp_lists_def fun_eq_iff)

lemma relinquish_only:
  assumes "status_inv farm K P m0 m c"
  shows "\<exists>m'. lcfgcomponent_relinquish (Some c) m = Some (None, m') \<and> res_mem_ok K P m' \<and> evolves m0 m' \<and> same_lists (others K) m0 m'"
proof -
  let ?c = "c\<lparr>comp_refcount := 0\<rparr>"
  have "comp_ok farm K P m ?c"
    using assms by (simp add: status_inv_def comp_ok_def table_good_def lists_named_def comp_lists_def)
  from destroy_ok [OF this] obtain m' where "lcfgcomponent_destroy ?c m = Some m'" "res_mem_ok K P m'" "evolves m m'"
    "same_lists (others K) m m'" by blast
  with assms show ?thesis
    by (auto simp: status_inv_def lcfgcomponent_relinquish_def Let_def intro: evolves_trans same_lists_trans)
qed

lemma new_status_inv:
  assumes "res_mem_ok K P m"
  obtains c where "lcfgcomponent_new farm m = Some (c, m)" "status_inv farm K P m m c"
    "\<And>n. status_inv farm K P m m (c\<lparr>comp_name := n\<rparr>)"
proof -
  from new_component_good [of farm m] obtain c where c: "lcfgcomponent_new farm m = Some (c, m)" "table_good farm m c" "comp_lists c = {}"
    by blast
  have "comp_refcount c = 1" using c(1) by (auto simp: lcfgcomponent_new_def lcfgcomponent_resize_def comp_start_def Let_def split: if_splits)
  moreover have "claims K c = K" using c(3) by (simp add: claims_def fun_eq_iff)
  moreover have "comp_nodes farm m c name = []" for name by (rule comp_nodes_none [OF c(2)]) (simp add: c(3))
  ultimately have inv: "status_inv farm K P m m c" using assms c(2) by (simp add: status_inv_def comp_ok_def)
  then have "status_inv farm K P m m (c\<lparr>comp_name := n\<rparr>)" for n
    by (simp add: status_inv_def comp_ok_def table_good_def lists_named_def comp_lists_def comp_nodes_def)
  with that c(1) inv show thesis by blast
qed

text \<open>
  C31: Reading a status file always returns, whatever the file has. Either there is an error and
  every list and resource that was made is given back, so that all counts are as they were; or
  there is a component that is well formed, whose resources are valid, and that is the only holder
  of them. No freed resource is used, the lists of others stay as they were, and so do the
  contents of the resources that were there.
\<close>

theorem status_file_read_safe:
  assumes "res_mem_ok K P m"
  shows "\<exists>status result msg' m'.
    lcfgcomponent_from_status_file farmhash64 fopen filename compname_in options msg m = Some (status, result, msg', m') \<and>
    evolves m m' \<and> same_lists (others K) m m' \<and>
    (case result of
       None \<Rightarrow> status = LCFG_STATUS_ERROR \<and> res_mem_ok K P m'
     | Some c \<Rightarrow> status = LCFG_STATUS_OK \<and> comp_ok farmhash64 K P m' c \<and>
         (\<forall>name. \<forall>p\<in>set (comp_nodes farmhash64 m' c name). \<forall>r. rm_res m' p = Some r \<longrightarrow> res_ok r))"
proof -
  from new_status_inv [OF assms, of farmhash64] obtain c where new: "lcfgcomponent_new farmhash64 m = Some (c, m)"
    "status_inv farmhash64 K P m m c" "\<And>n. status_inv farmhash64 K P m m (c\<lparr>comp_name := n\<rparr>)" by blast
  let ?name = "case compname_in of Some n \<Rightarrow> Some n | None \<Rightarrow> lcfgutils_basename (Some filename) None"
  let ?Q = "\<lambda>(status, result, msg', m'). evolves m m' \<and> same_lists (others K) m m' \<and>
    (case result of
       None \<Rightarrow> status = LCFG_STATUS_ERROR \<and> res_mem_ok K P m'
     | Some c \<Rightarrow> status = LCFG_STATUS_OK \<and> comp_ok farmhash64 K P m' c \<and>
         (\<forall>name. \<forall>p\<in>set (comp_nodes farmhash64 m' c name). \<forall>r. rm_res m' p = Some r \<longrightarrow> res_ok r))"
  have result: "\<exists>x. status_result (ok, c1, e, m1) = Some x \<and> ?Q x" if inv: "status_inv farmhash64 K P m m1 c1" for ok c1 e m1
  proof (cases ok)
    case True
    with inv show ?thesis by (auto simp: status_inv_def status_result_def)
  next
    case False
    with relinquish_only [OF inv] show ?thesis by (auto simp: status_result_def)
  qed
  have "\<exists>x. lcfgcomponent_from_status_file farmhash64 fopen filename compname_in options msg m = Some x \<and> ?Q x"
  proof (cases "lcfgcomponent_valid_name ?name")
    case False
    then have "lcfgcomponent_set_name c ?name = (False, c)" by (simp add: lcfgcomponent_set_name_def)
    then show ?thesis
      using result [OF new(2), of False "Some (''Invalid name for component '' @ in_quotes (or_default ?name []))"] new(1)
      by (simp add: lcfgcomponent_from_status_file_def Let_def)
  next
    case True
    let ?c = "c\<lparr>comp_name := ?name\<rparr>"
    have set: "lcfgcomponent_set_name c ?name = (True, ?c)" using True by (simp add: lcfgcomponent_set_name_def)
    note inv = new(3) [of ?name]
    show ?thesis
    proof (cases "fopen filename")
      case FileMissing
      with result [OF inv, of True msg] result [OF inv, of False] set new(1) show ?thesis
        by (cases "has_bit options LCFG_OPT_ALLOW_NOEXIST") (simp_all add: lcfgcomponent_from_status_file_def Let_def)
    next
      case FileUnreadable
      with result [OF inv, of False] set new(1) show ?thesis by (simp add: lcfgcomponent_from_status_file_def Let_def)
    next
      case (FileLines t ls)
      from status_loop_ok [OF inv, of None] obtain ok c' msg' m' where
        loop: "status_loop farmhash64 (or_default ?name []) (\<not> has_bit options LCFG_OPT_USE_META) filename ls 1 None ?c msg m =
          Some (ok, c', msg', m')" "status_inv farmhash64 K P m m' c'" by blast
      from result [OF loop(2), of ok msg'] FileLines set new(1) loop(1) show ?thesis
        by (simp add: lcfgcomponent_from_status_file_def Let_def)
    qed
  qed
  then show ?thesis by fast
qed

definition empty_res_mem :: res_mem where
  "empty_res_mem = \<lparr>rm_res = Map.empty, rm_lists = Map.empty, rm_free = 0\<rparr>"

theorem status_file_read_safe_witness:
  "\<exists>status result msg' m'.
    lcfgcomponent_from_status_file (\<lambda>_. 0) (\<lambda>_. FileLines 0 [''x=1'', ''bad'']) ''foo'' None 0 None empty_res_mem = Some (status, result, msg', m') \<and>
    (result = None \<longrightarrow> res_mem_ok (\<lambda>_. 0) (\<lambda>_. 0) m')"
proof -
  have "res_mem_ok (\<lambda>_. 0) (\<lambda>_. 0) empty_res_mem"
    by (simp add: res_mem_ok_def empty_res_mem_def res_held_def res_refs_def list_refs_def)
  from status_file_read_safe [OF this, of "\<lambda>_. 0" "\<lambda>_. FileLines 0 [''x=1'', ''bad'']" "''foo''" None 0 None] show ?thesis by fastforce
qed

end
