(* ===== verification/Lcfg_Compset.thy ===== *)
theory Lcfg_Compset
  imports Lcfg_Component_IO
begin

text \<open>
  Sets of components (\<open>resources/components/set.c\<close>) and iterators over the resources of a component
  (\<open>iterator.c\<close>). Sets share components, which are counted, so components live in a store with the
  memory of their lists and resources; a set is a value with the addresses of its components. A
  result \<open>None\<close> is a read through a freed pointer or outside of the array, or the exit of the
  program when a set cannot be resized.
\<close>

section \<open>The store\<close>

record comp_store =
  cs_mem :: res_mem
  cs_comps :: "nat \<rightharpoonup> LCFGComponent"
  cs_free :: nat

record LCFGComponentSet =
  cset_components :: "nat option list"
  cset_buckets :: nat
  cset_entries :: nat
  cset_refcount :: nat

definition LCFG_COMPSET_DEFAULT_SIZE :: nat where "LCFG_COMPSET_DEFAULT_SIZE = 113"

definition put_comp :: "nat \<Rightarrow> LCFGComponent option \<Rightarrow> comp_store \<Rightarrow> comp_store" where
  "put_comp p c st = st\<lparr>cs_comps := (cs_comps st)(p := c)\<rparr>"

definition alloc_comp :: "LCFGComponent \<Rightarrow> comp_store \<Rightarrow> nat \<times> comp_store" where
  "alloc_comp c st = (cs_free st, put_comp (cs_free st) (Some c) st\<lparr>cs_free := cs_free st + 1\<rparr>)"

definition acquire_comp :: "nat \<Rightarrow> comp_store \<Rightarrow> comp_store option" where
  "acquire_comp p st = map_option (\<lambda>c. put_comp p (Some (lcfgcomponent_acquire c)) st) (cs_comps st p)"

definition relinquish_comp :: "nat option \<Rightarrow> comp_store \<Rightarrow> comp_store option" where
  "relinquish_comp cp st =
     (case cp of
        None \<Rightarrow> Some st
      | Some p \<Rightarrow> do {
          c \<leftarrow> cs_comps st p;
          (c', m') \<leftarrow> lcfgcomponent_relinquish (Some c) (cs_mem st);
          Some (put_comp p c' (st\<lparr>cs_mem := m'\<rparr>))
        })"

section \<open>Searches\<close>

definition lcfgcompset_is_empty :: "LCFGComponentSet option \<Rightarrow> bool" where
  "lcfgcompset_is_empty compset \<longleftrightarrow> (case compset of None \<Rightarrow> True | Some s \<Rightarrow> cset_entries s = 0)"

definition cset_hash :: "LCFGComponentSet \<Rightarrow> string \<Rightarrow> nat" where
  "cset_hash compset name = unat (lcfgutils_string_djbhash name []) mod cset_buckets compset"

definition cset_at :: "LCFGComponentSet \<Rightarrow> nat \<Rightarrow> nat option option" where
  "cset_at compset i = (if i < length (cset_components compset) then Some (cset_components compset ! i) else None)"

text \<open>\<open>for ( i = from; !found && i < to; i++ )\<close>, and the two loops of a search, from the hash and from the start.\<close>

function cset_search :: "(nat option \<Rightarrow> bool option) \<Rightarrow> LCFGComponentSet \<Rightarrow> nat \<Rightarrow> nat \<Rightarrow> nat option option" where
  "cset_search found compset i to =
     (if i < to then do {
        b \<leftarrow> cset_at compset i;
        stop \<leftarrow> found b;
        if stop then Some (Some i) else cset_search found compset (i + 1) to
      } else Some None)"
  by pat_completeness auto

termination cset_search by (relation "measure (\<lambda>(_, _, i, to). to - i)") auto

declare cset_search.simps [simp del]

definition cset_probe :: "(nat option \<Rightarrow> bool option) \<Rightarrow> LCFGComponentSet \<Rightarrow> nat \<Rightarrow> nat option option" where
  "cset_probe found compset hash = do {
     r \<leftarrow> cset_search found compset hash (cset_buckets compset);
     (case r of Some i \<Rightarrow> Some (Some i) | None \<Rightarrow> cset_search found compset 0 hash)
   }"

text \<open>Where an insertion stops, and a lookup: at a free bucket, or at a component of the name.\<close>

definition insert_stop :: "comp_store \<Rightarrow> LCFGComponent \<Rightarrow> nat option \<Rightarrow> bool option" where
  "insert_stop st c b = (case b of None \<Rightarrow> Some True | Some q \<Rightarrow> map_option (lcfgcomponent_same_name c) (cs_comps st q))"

definition find_stop :: "comp_store \<Rightarrow> string \<Rightarrow> nat option \<Rightarrow> bool option" where
  "find_stop st want_name b =
     (case b of None \<Rightarrow> Some True | Some q \<Rightarrow> map_option (\<lambda>c. lcfgcomponent_match c want_name) (cs_comps st q))"

section \<open>Operations\<close>

definition lcfgcompset_insert_component ::
    "LCFGComponentSet \<Rightarrow> nat option \<Rightarrow> comp_store \<Rightarrow> (LCFGChange \<times> LCFGComponentSet \<times> comp_store) option" where
  "lcfgcompset_insert_component compset cp st =
     (case cp of
        None \<Rightarrow> Some (LCFG_CHANGE_ERROR, compset, st)
      | Some p \<Rightarrow> do {
          c \<leftarrow> cs_comps st p;
          if \<not> lcfgcomponent_is_valid (Some c) then Some (LCFG_CHANGE_ERROR, compset, st)
          else do {
            st1 \<leftarrow> acquire_comp p st;
            slot \<leftarrow> cset_probe (insert_stop st1 c) compset (cset_hash compset (or_default (comp_name c) []));
            (case slot of
               None \<Rightarrow> map_option (\<lambda>st2. (LCFG_CHANGE_ERROR, compset, st2)) (relinquish_comp (Some p) st1)
             | Some i \<Rightarrow> do {
                 old \<leftarrow> cset_at compset i;
                 st2 \<leftarrow> relinquish_comp old st1;
                 let set1 = compset\<lparr>cset_components := (cset_components compset)[i := Some p]\<rparr>;
                 Some (if old = None then (LCFG_CHANGE_ADDED, set1\<lparr>cset_entries := cset_entries compset + 1\<rparr>, st2)
                       else (LCFG_CHANGE_REPLACED, set1, st2))
               })
          }
        })"

fun cset_rehash ::
    "nat option list \<Rightarrow> nat list \<Rightarrow> LCFGComponentSet \<Rightarrow> comp_store \<Rightarrow> (LCFGComponentSet \<times> comp_store) option" where
  "cset_rehash cur_set [] compset st = Some (compset, st)"
| "cset_rehash cur_set (i # js) compset st =
     (if length cur_set \<le> i then None
      else (case cur_set ! i of
              None \<Rightarrow> cset_rehash cur_set js compset st
            | Some p \<Rightarrow> do {
                (rc, set1, st1) \<leftarrow> lcfgcompset_insert_component compset (Some p) st;
                if rc = LCFG_CHANGE_ERROR then None
                else do {
                  st2 \<leftarrow> relinquish_comp (Some p) st1;
                  cset_rehash cur_set js set1 st2
                }
              }))"

text \<open>The load factor, as for components. A null array is an array without buckets.\<close>

definition lcfgcompset_resize :: "LCFGComponentSet \<Rightarrow> comp_store \<Rightarrow> (LCFGComponentSet \<times> comp_store) option" where
  "lcfgcompset_resize compset st =
     (let cur_set = cset_components compset;
          cur_buckets = cset_buckets compset;
          want = want_buckets (cset_entries compset) cur_buckets;
          set1 = compset\<lparr>cset_components := replicate want None, cset_entries := 0, cset_buckets := want\<rparr>
      in if cur_set \<noteq> [] \<and> want \<le> cur_buckets then Some (compset, st)
         else if cur_set = [] then Some (set1, st)
         else cset_rehash cur_set [0..<cur_buckets] set1 st)"

definition cset_start :: LCFGComponentSet where
  "cset_start = \<lparr>cset_components = [], cset_buckets = LCFG_COMPSET_DEFAULT_SIZE, cset_entries = 0, cset_refcount = 1\<rparr>"

definition lcfgcompset_new :: "comp_store \<Rightarrow> (LCFGComponentSet \<times> comp_store) option" where
  "lcfgcompset_new = lcfgcompset_resize cset_start"

fun cset_drop_loop :: "LCFGComponentSet \<Rightarrow> nat list \<Rightarrow> comp_store \<Rightarrow> comp_store option" where
  "cset_drop_loop compset [] st = Some st"
| "cset_drop_loop compset (i # js) st = do {
     b \<leftarrow> cset_at compset i;
     st1 \<leftarrow> relinquish_comp b st;
     cset_drop_loop compset js st1
   }"

definition lcfgcompset_destroy :: "LCFGComponentSet \<Rightarrow> comp_store \<Rightarrow> comp_store option" where
  "lcfgcompset_destroy compset = cset_drop_loop compset [0..<cset_buckets compset]"

definition lcfgcompset_acquire :: "LCFGComponentSet \<Rightarrow> LCFGComponentSet" where
  "lcfgcompset_acquire compset = compset\<lparr>cset_refcount := cset_refcount compset + 1\<rparr>"

definition lcfgcompset_relinquish ::
    "LCFGComponentSet option \<Rightarrow> comp_store \<Rightarrow> (LCFGComponentSet option \<times> comp_store) option" where
  "lcfgcompset_relinquish compset st =
     (case compset of
        None \<Rightarrow> Some (None, st)
      | Some s \<Rightarrow>
          let s' = (if 0 < cset_refcount s then s\<lparr>cset_refcount := cset_refcount s - 1\<rparr> else s)
          in if cset_refcount s' = 0 then map_option (Pair None) (lcfgcompset_destroy s' st) else Some (Some s', st))"

definition lcfgcompset_find_component :: "comp_store \<Rightarrow> LCFGComponentSet option \<Rightarrow> string \<Rightarrow> nat option option" where
  "lcfgcompset_find_component st compset want_name =
     (case compset of
        None \<Rightarrow> Some None
      | Some s \<Rightarrow>
          if lcfgcompset_is_empty compset then Some None
          else do {
            slot \<leftarrow> cset_probe (find_stop st want_name) s (cset_hash s want_name);
            (case slot of None \<Rightarrow> Some None | Some i \<Rightarrow> cset_at s i)
          })"

definition lcfgcompset_has_component :: "comp_store \<Rightarrow> LCFGComponentSet option \<Rightarrow> string \<Rightarrow> bool option" where
  "lcfgcompset_has_component st compset want_name =
     map_option (\<lambda>r. r \<noteq> None) (lcfgcompset_find_component st compset want_name)"

definition lcfgcompset_find_or_create_component ::
    "(string \<Rightarrow> 64 word) \<Rightarrow> LCFGComponentSet \<Rightarrow> string \<Rightarrow> comp_store \<Rightarrow>
     (nat option \<times> LCFGComponentSet \<times> comp_store) option" where
  "lcfgcompset_find_or_create_component farmhash64 compset name st = do {
     found \<leftarrow> lcfgcompset_find_component st (Some compset) name;
     (case found of
        Some p \<Rightarrow> Some (Some p, compset, st)
      | None \<Rightarrow> do {
          (c, m1) \<leftarrow> lcfgcomponent_new farmhash64 (cs_mem st);
          let (ok, c1) = lcfgcomponent_set_name c (Some name);
          let (p, st1) = alloc_comp c1 (st\<lparr>cs_mem := m1\<rparr>);
          (ok', set1, st2) \<leftarrow> (if \<not> ok then Some (False, compset, st1)
            else map_option (\<lambda>(rc, s, st'). (rc \<noteq> LCFG_CHANGE_ERROR, s, st')) (lcfgcompset_insert_component compset (Some p) st1));
          st3 \<leftarrow> relinquish_comp (Some p) st2;
          Some (if ok' then Some p else None, set1, st3)
        })
   }"

section \<open>Merging and copying\<close>

text \<open>The change after a step of a loop.\<close>

definition cset_change :: "LCFGChange \<Rightarrow> LCFGChange \<Rightarrow> LCFGChange" where
  "cset_change change rc =
     (if rc = LCFG_CHANGE_ERROR then LCFG_CHANGE_ERROR
      else if rc \<noteq> LCFG_CHANGE_NONE then LCFG_CHANGE_MODIFIED else change)"

text \<open>A component of the name is changed where it is, also when other sets share it.\<close>

definition merge_into_set ::
    "(string \<Rightarrow> 64 word) \<Rightarrow> LCFGComponentSet \<Rightarrow> nat \<Rightarrow> bool \<Rightarrow> cstr \<Rightarrow> comp_store \<Rightarrow>
     (LCFGChange \<times> LCFGComponentSet \<times> cstr \<times> comp_store) option" where
  "merge_into_set farmhash64 set1 q take_new msg st = do {
     override \<leftarrow> cs_comps st q;
     comp_nm \<leftarrow> lcfgcomponent_get_name override;
     target \<leftarrow> lcfgcompset_find_component st (Some set1) comp_nm;
     (case target of
        Some p \<Rightarrow> do {
          c \<leftarrow> cs_comps st p;
          (rc, c', msg', m') \<leftarrow> lcfgcomponent_merge_component farmhash64 c (Some override) (p = q) msg (cs_mem st);
          Some (rc, set1, msg', put_comp p (Some c') (st\<lparr>cs_mem := m'\<rparr>))
        }
      | None \<Rightarrow>
          if take_new then map_option (\<lambda>(rc, s, st'). (rc, s, msg, st')) (lcfgcompset_insert_component set1 (Some q) st)
          else Some (LCFG_CHANGE_NONE, set1, msg, st))
   }"

fun merge_set_components ::
    "(string \<Rightarrow> 64 word) \<Rightarrow> LCFGComponentSet \<Rightarrow> bool \<Rightarrow> nat list \<Rightarrow> LCFGChange \<Rightarrow> LCFGComponentSet \<Rightarrow> cstr \<Rightarrow> comp_store \<Rightarrow>
     (LCFGChange \<times> LCFGComponentSet \<times> cstr \<times> comp_store) option" where
  "merge_set_components farmhash64 set2 take_new [] change set1 msg st = Some (change, set1, msg, st)"
| "merge_set_components farmhash64 set2 take_new (i # js) change set1 msg st =
     (if change = LCFG_CHANGE_ERROR then Some (change, set1, msg, st)
      else do {
        b \<leftarrow> cset_at set2 i;
        (case b of
           None \<Rightarrow> merge_set_components farmhash64 set2 take_new js change set1 msg st
         | Some q \<Rightarrow> do {
             (rc, set1', msg', st') \<leftarrow> merge_into_set farmhash64 set1 q take_new msg st;
             merge_set_components farmhash64 set2 take_new js (cset_change change rc) set1' msg' st'
           })
      })"

definition lcfgcompset_merge_components ::
    "(string \<Rightarrow> 64 word) \<Rightarrow> LCFGComponentSet \<Rightarrow> LCFGComponentSet option \<Rightarrow> bool \<Rightarrow> cstr \<Rightarrow> comp_store \<Rightarrow>
     (LCFGChange \<times> LCFGComponentSet \<times> cstr \<times> comp_store) option" where
  "lcfgcompset_merge_components farmhash64 set1 compset2 take_new msg st =
     (case compset2 of
        None \<Rightarrow> Some (LCFG_CHANGE_NONE, set1, msg, st)
      | Some set2 \<Rightarrow>
          if lcfgcompset_is_empty compset2 then Some (LCFG_CHANGE_NONE, set1, msg, st)
          else if lcfgcompset_is_empty (Some set1) \<and> \<not> take_new then Some (LCFG_CHANGE_NONE, set1, msg, st)
          else merge_set_components farmhash64 set2 take_new [0..<cset_buckets set2] LCFG_CHANGE_NONE set1 msg st)"

definition failed_copy :: "string \<Rightarrow> string" where
  "failed_copy comp_nm = ''Failed to copy '' @ in_quotes comp_nm @ '' component''"

fun transplant_loop ::
    "LCFGComponentSet \<Rightarrow> nat list \<Rightarrow> LCFGChange \<Rightarrow> LCFGComponentSet \<Rightarrow> cstr \<Rightarrow> comp_store \<Rightarrow>
     (LCFGChange \<times> LCFGComponentSet \<times> cstr \<times> comp_store) option" where
  "transplant_loop set2 [] change set1 msg st = Some (change, set1, msg, st)"
| "transplant_loop set2 (i # js) change set1 msg st =
     (if change = LCFG_CHANGE_ERROR then Some (change, set1, msg, st)
      else do {
        b \<leftarrow> cset_at set2 i;
        (case b of
           None \<Rightarrow> transplant_loop set2 js change set1 msg st
         | Some q \<Rightarrow> do {
             (rc, set1', st') \<leftarrow> lcfgcompset_insert_component set1 (Some q) st;
             msg' \<leftarrow> (if rc = LCFG_CHANGE_ERROR
               then map_option (\<lambda>c. Some (failed_copy (or_default (lcfgcomponent_get_name c) ''(null)''))) (cs_comps st' q)
               else Some msg);
             transplant_loop set2 js (cset_change change rc) set1' msg' st'
           })
      })"

definition lcfgcompset_transplant_components ::
    "LCFGComponentSet \<Rightarrow> LCFGComponentSet option \<Rightarrow> cstr \<Rightarrow> comp_store \<Rightarrow>
     (LCFGChange \<times> LCFGComponentSet \<times> cstr \<times> comp_store) option" where
  "lcfgcompset_transplant_components set1 compset2 msg st =
     (case compset2 of
        None \<Rightarrow> Some (LCFG_CHANGE_NONE, set1, msg, st)
      | Some set2 \<Rightarrow>
          if lcfgcompset_is_empty compset2 then Some (LCFG_CHANGE_NONE, set1, msg, st)
          else transplant_loop set2 [0..<cset_buckets set2] LCFG_CHANGE_NONE set1 msg st)"


section \<open>Names, text and the environment\<close>

text \<open>The names of the components that are to be kept.\<close>

fun set_names_loop ::
    "(LCFGComponent \<Rightarrow> bool option) \<Rightarrow> LCFGComponentSet \<Rightarrow> comp_store \<Rightarrow> nat list \<Rightarrow> LCFGChange \<Rightarrow> LCFGTagList \<Rightarrow> tag_mem \<Rightarrow>
     (LCFGChange \<times> LCFGTagList \<times> tag_mem) option" where
  "set_names_loop keep compset st [] change names t = Some (change, names, t)"
| "set_names_loop keep compset st (i # js) change names t =
     (if change = LCFG_CHANGE_ERROR then Some (change, names, t)
      else do {
        b \<leftarrow> cset_at compset i;
        (case b of
           None \<Rightarrow> set_names_loop keep compset st js change names t
         | Some p \<Rightarrow> do {
             c \<leftarrow> cs_comps st p;
             kept \<leftarrow> keep c;
             if \<not> kept then set_names_loop keep compset st js change names t
             else do {
               comp_nm \<leftarrow> lcfgcomponent_get_name c;
               (change', names', _, t') \<leftarrow> lcfgtaglist_mutate_add t names comp_nm None;
               set_names_loop keep compset st js change' names' t'
             }
           })
      })"

definition set_names ::
    "(LCFGComponent \<Rightarrow> bool option) \<Rightarrow> LCFGComponentSet option \<Rightarrow> comp_store \<Rightarrow> tag_mem \<Rightarrow> (LCFGTagList option \<times> tag_mem) option" where
  "set_names keep compset st t =
     (case compset of
        None \<Rightarrow> Some (Some lcfgtaglist_new, t)
      | Some s \<Rightarrow>
          if lcfgcompset_is_empty compset then Some (Some lcfgtaglist_new, t)
          else do {
            (change, names, t1) \<leftarrow> set_names_loop keep s st [0..<cset_buckets s] LCFG_CHANGE_NONE lcfgtaglist_new t;
            if change = LCFG_CHANGE_ERROR then map_option (\<lambda>(_, t2). (None, t2)) (lcfgtaglist_relinquish t1 (Some names))
            else map_option (Pair (Some names)) (lcfgtaglist_sort t1 names)
          })"

definition lcfgcompset_get_components_as_taglist ::
    "LCFGComponentSet \<Rightarrow> comp_store \<Rightarrow> tag_mem \<Rightarrow> (LCFGTagList option \<times> tag_mem) option" where
  "lcfgcompset_get_components_as_taglist compset = set_names (\<lambda>_. Some True) (Some compset)"

definition lcfgcompset_ngeneric_components ::
    "(string \<Rightarrow> 64 word) \<Rightarrow> LCFGComponentSet option \<Rightarrow> comp_store \<Rightarrow> tag_mem \<Rightarrow> (LCFGTagList option \<times> tag_mem) option" where
  "lcfgcompset_ngeneric_components farmhash64 compset st =
     set_names (\<lambda>c. lcfgcomponent_is_ngeneric farmhash64 (cs_mem st) (Some c)) compset st"

definition lcfgcompset_get_components_as_string ::
    "LCFGComponentSet \<Rightarrow> comp_store \<Rightarrow> tag_mem \<Rightarrow> (cstr \<times> tag_mem) option" where
  "lcfgcompset_get_components_as_string compset st t =
     (if lcfgcompset_is_empty (Some compset) then Some (Some [], t)
      else do {
        (names, t1) \<leftarrow> lcfgcompset_get_components_as_taglist compset st t;
        (case names of
           None \<Rightarrow> Some (None, t1)
         | Some l \<Rightarrow> do {
             (_, s) \<leftarrow> lcfgtaglist_to_string t1 l LCFG_OPT_NONE;
             (_, t2) \<leftarrow> lcfgtaglist_relinquish t1 (Some l);
             Some (Some s, t2)
           })
      })"

text \<open>The result of a print is that of the last component, as in the code.\<close>

partial_function (option) set_print_loop ::
    "entry_sort \<Rightarrow> LCFGComponentSet \<Rightarrow> LCFGResourceStyle \<Rightarrow> bits \<Rightarrow> LCFGTagIterator \<Rightarrow> bool \<Rightarrow> string \<Rightarrow> comp_store \<Rightarrow> tag_mem \<Rightarrow>
     (bool \<times> string \<times> LCFGTagIterator \<times> comp_store \<times> tag_mem) option" where
  "set_print_loop qsort compset style options tagiter ok out st t = do {
     (tag, tagiter') \<leftarrow> lcfgtagiter_next t tagiter;
     (case tag of
        None \<Rightarrow> Some (ok, out, tagiter', st, t)
      | Some q \<Rightarrow> do {
          tg \<leftarrow> tm_tags t q;
          cp \<leftarrow> (case lcfgtag_get_name tg of
                  None \<Rightarrow> Some None
                | Some comp_nm \<Rightarrow> lcfgcompset_find_component st (Some compset) comp_nm);
          (case cp of
             None \<Rightarrow> set_print_loop qsort compset style options tagiter' ok out st t
           | Some p \<Rightarrow> do {
               c \<leftarrow> cs_comps st p;
               (ok', s, m', t') \<leftarrow> lcfgcomponent_print qsort (cs_mem st) t c style options;
               set_print_loop qsort compset style options tagiter' ok' (out @ s) (st\<lparr>cs_mem := m'\<rparr>) t'
             })
        })
   }"

definition lcfgcompset_print ::
    "entry_sort \<Rightarrow> LCFGComponentSet \<Rightarrow> LCFGResourceStyle \<Rightarrow> bits \<Rightarrow> comp_store \<Rightarrow> tag_mem \<Rightarrow>
     (bool \<times> string \<times> comp_store \<times> tag_mem) option" where
  "lcfgcompset_print qsort compset style options st t =
     (if lcfgcompset_is_empty (Some compset) then Some (True, [], st, t)
      else do {
        (names, t1) \<leftarrow> lcfgcompset_get_components_as_taglist compset st t;
        l \<leftarrow> names;
        t2 \<leftarrow> lcfgtaglist_sort t1 l;
        (ok, out, tagiter, st', t3) \<leftarrow> set_print_loop qsort compset style options (lcfgtagiter_new l) True [] st t2;
        (l', t4) \<leftarrow> lcfgtagiter_destroy t3 (Some tagiter);
        (_, t5) \<leftarrow> lcfgtaglist_relinquish t4 l';
        Some (ok, out, st', t5)
      })"

text \<open>The text that is hashed; the hash itself, with its digits, is a parameter.\<close>

fun set_signature_loop ::
    "entry_sort \<Rightarrow> LCFGComponentSet \<Rightarrow> nat list \<Rightarrow> bool \<Rightarrow> string \<Rightarrow> comp_store \<Rightarrow> (bool \<times> string \<times> comp_store) option" where
  "set_signature_loop qsort compset [] ok md5state st = Some (ok, md5state, st)"
| "set_signature_loop qsort compset (i # js) ok md5state st =
     (if \<not> ok then Some (ok, md5state, st)
      else do {
        b \<leftarrow> cset_at compset i;
        (case b of
           None \<Rightarrow> set_signature_loop qsort compset js ok md5state st
         | Some p \<Rightarrow> do {
             c \<leftarrow> cs_comps st p;
             (ok', md5state', m') \<leftarrow> lcfgcomponent_update_signature qsort (cs_mem st) c md5state;
             set_signature_loop qsort compset js ok' md5state' (st\<lparr>cs_mem := m'\<rparr>)
           })
      })"

definition lcfgcompset_signature ::
    "(string \<Rightarrow> cstr) \<Rightarrow> entry_sort \<Rightarrow> LCFGComponentSet option \<Rightarrow> comp_store \<Rightarrow> (cstr \<times> comp_store) option" where
  "lcfgcompset_signature md5_hexdigest qsort compset st =
     (case compset of
        None \<Rightarrow> Some (None, st)
      | Some s \<Rightarrow>
          if lcfgcompset_is_empty compset then Some (None, st)
          else map_option (\<lambda>(ok, md5state, st'). (if ok then md5_hexdigest md5state else None, st'))
            (set_signature_loop qsort s [0..<cset_buckets s] True [] st))"

fun set_to_env_loop ::
    "LCFGComponentSet \<Rightarrow> cstr \<Rightarrow> cstr \<Rightarrow> bits \<Rightarrow> comp_store \<Rightarrow> nat list \<Rightarrow> LCFGStatus \<Rightarrow> environment \<Rightarrow> tag_mem \<Rightarrow> cstr \<Rightarrow>
     (LCFGStatus \<times> environment \<times> tag_mem \<times> cstr) option" where
  "set_to_env_loop compset val_pfx type_pfx options st [] status env t msg = Some (status, env, t, msg)"
| "set_to_env_loop compset val_pfx type_pfx options st (i # js) status env t msg =
     (if status = LCFG_STATUS_ERROR then Some (status, env, t, msg)
      else do {
        b \<leftarrow> cset_at compset i;
        (case b of
           None \<Rightarrow> set_to_env_loop compset val_pfx type_pfx options st js status env t msg
         | Some p \<Rightarrow> do {
             c \<leftarrow> cs_comps st p;
             (status', env', t', msg') \<leftarrow> lcfgcomponent_to_env env (cs_mem st) t (Some c) val_pfx type_pfx options msg;
             set_to_env_loop compset val_pfx type_pfx options st js status' env' t' msg'
           })
      })"

definition lcfgcompset_to_env ::
    "environment \<Rightarrow> LCFGComponentSet \<Rightarrow> comp_store \<Rightarrow> tag_mem \<Rightarrow> cstr \<Rightarrow> cstr \<Rightarrow> bits \<Rightarrow> cstr \<Rightarrow>
     (LCFGStatus \<times> environment \<times> tag_mem \<times> cstr) option" where
  "lcfgcompset_to_env env compset st t val_pfx type_pfx options msg =
     (if lcfgcompset_is_empty (Some compset) then Some (LCFG_STATUS_OK, env, t, msg)
      else set_to_env_loop compset val_pfx type_pfx options st [0..<cset_buckets compset] LCFG_STATUS_OK env t msg)"

text \<open>What a function that makes a component gives, in the store.\<close>

definition store_new_comp :: "LCFGComponent option \<Rightarrow> comp_store \<Rightarrow> nat option \<times> comp_store" where
  "store_new_comp c st = (case c of None \<Rightarrow> (None, st) | Some c \<Rightarrow> map_prod Some id (alloc_comp c st))"

partial_function (option) set_from_env_loop ::
    "(string \<Rightarrow> 64 word) \<Rightarrow> environment \<Rightarrow> cstr \<Rightarrow> cstr \<Rightarrow> bits \<Rightarrow> LCFGTagIterator \<Rightarrow> LCFGStatus \<Rightarrow> LCFGComponentSet \<Rightarrow> cstr \<Rightarrow>
     comp_store \<Rightarrow> tag_mem \<Rightarrow> (LCFGStatus \<times> LCFGTagIterator \<times> LCFGComponentSet \<times> cstr \<times> comp_store \<times> tag_mem) option" where
  "set_from_env_loop farmhash64 env val_pfx type_pfx options tagiter status compset msg st t =
     (if status = LCFG_STATUS_ERROR then Some (status, tagiter, compset, msg, st, t)
      else do {
        (tag, tagiter') \<leftarrow> lcfgtagiter_next t tagiter;
        (case tag of
           None \<Rightarrow> Some (status, tagiter', compset, msg, st, t)
         | Some q \<Rightarrow> do {
             tg \<leftarrow> tm_tags t q;
             comp_nm \<leftarrow> lcfgtag_get_name tg;
             (status1, new_comp, msg1, m1, t1) \<leftarrow>
               lcfgcomponent_from_env farmhash64 env comp_nm val_pfx type_pfx options msg (cs_mem st) t;
             let (cp, st1) = store_new_comp new_comp (st\<lparr>cs_mem := m1\<rparr>);
             (status2, set1, st2) \<leftarrow> (if status1 = LCFG_STATUS_ERROR then Some (status1, compset, st1)
               else map_option (\<lambda>(change, s, st'). (if change = LCFG_CHANGE_ERROR then LCFG_STATUS_ERROR else status1, s, st'))
                 (lcfgcompset_insert_component compset cp st1));
             st3 \<leftarrow> relinquish_comp cp st2;
             set_from_env_loop farmhash64 env val_pfx type_pfx options tagiter' status2 set1 msg1 st3 t1
           })
      })"

definition lcfgcompset_from_env ::
    "(string \<Rightarrow> 64 word) \<Rightarrow> environment \<Rightarrow> cstr \<Rightarrow> cstr \<Rightarrow> LCFGTagList \<Rightarrow> bits \<Rightarrow> cstr \<Rightarrow> comp_store \<Rightarrow> tag_mem \<Rightarrow>
     (LCFGStatus \<times> LCFGComponentSet option \<times> cstr \<times> comp_store \<times> tag_mem) option" where
  "lcfgcompset_from_env farmhash64 env val_pfx type_pfx comps_wanted options msg st t = do {
     (compset, st1) \<leftarrow> lcfgcompset_new st;
     (status, tagiter, set1, msg', st2, t1) \<leftarrow>
       set_from_env_loop farmhash64 env val_pfx type_pfx options (lcfgtagiter_new comps_wanted) LCFG_STATUS_OK compset msg st1 t;
     (_, t2) \<leftarrow> lcfgtagiter_destroy t1 (Some tagiter);
     if status = LCFG_STATUS_ERROR
     then map_option (\<lambda>(_, st3). (status, None, msg', st3, t2)) (lcfgcompset_relinquish (Some set1) st2)
     else Some (status, Some set1, msg', st2, t2)
   }"

section \<open>Directories of status files\<close>

text \<open>What \<open>opendir\<close> and \<open>readdir\<close> report of a directory, and whether \<open>stat\<close> shows a regular file, are parameters.\<close>

datatype dir_read = DirMissing | DirUnreadable | DirEntries "string list"

definition wanted_entry :: "LCFGTagList option \<Rightarrow> tag_mem \<Rightarrow> string \<Rightarrow> bool option" where
  "wanted_entry comps_wanted t comp_nm =
     (if cur comp_nm = CHR ''.'' then Some False
      else if \<not> lcfgcomponent_valid_name (Some comp_nm) then Some False
      else if lcfgtaglist_is_empty comps_wanted then Some True
      else lcfgtaglist_contains t comps_wanted comp_nm)"

definition failed_read :: "string \<Rightarrow> string" where
  "failed_read status_file = ''Failed to read status file '' @ in_quotes status_file"

text \<open>One status file: the status, the set, the message and the store.\<close>

definition read_status_file ::
    "(string \<Rightarrow> 64 word) \<Rightarrow> (string \<Rightarrow> file_read) \<Rightarrow> string \<Rightarrow> string \<Rightarrow> bits \<Rightarrow> LCFGComponentSet \<Rightarrow> cstr \<Rightarrow> comp_store \<Rightarrow>
     (LCFGStatus \<times> LCFGComponentSet \<times> cstr \<times> comp_store) option" where
  "read_status_file farmhash64 fopen status_file comp_nm options compset msg st = do {
     (status, cmpt, read_msg, m1) \<leftarrow>
       lcfgcomponent_from_status_file farmhash64 fopen status_file (Some comp_nm) options None (cs_mem st);
     let (cp, st1) = store_new_comp cmpt (st\<lparr>cs_mem := m1\<rparr>);
     let msg1 = (if status = LCFG_STATUS_ERROR then Some (failed_read status_file @ '': '' @ or_default read_msg ''(null)'') else msg);
     empty \<leftarrow> lcfgcomponent_is_empty m1 cmpt;
     (status', set1, msg2, st2) \<leftarrow>
       (if status \<noteq> LCFG_STATUS_ERROR \<and> \<not> empty
        then map_option (\<lambda>(rc, s, st'). if rc = LCFG_CHANGE_ERROR then (LCFG_STATUS_ERROR, s, Some (failed_read status_file), st')
                                        else (status, s, msg1, st'))
               (lcfgcompset_insert_component compset cp st1)
        else Some (status, compset, msg1, st1));
     st3 \<leftarrow> relinquish_comp cp st2;
     Some (status', set1, msg2, st3)
   }"

fun status_dir_loop ::
    "(string \<Rightarrow> 64 word) \<Rightarrow> (string \<Rightarrow> file_read) \<Rightarrow> (string \<Rightarrow> bool) \<Rightarrow> string \<Rightarrow> LCFGTagList option \<Rightarrow> tag_mem \<Rightarrow> bits \<Rightarrow>
     string list \<Rightarrow> LCFGStatus \<Rightarrow> LCFGComponentSet \<Rightarrow> cstr \<Rightarrow> comp_store \<Rightarrow>
     (LCFGStatus \<times> LCFGComponentSet \<times> cstr \<times> comp_store) option" where
  "status_dir_loop farmhash64 fopen is_reg status_dir comps_wanted t options [] status compset msg st = Some (status, compset, msg, st)"
| "status_dir_loop farmhash64 fopen is_reg status_dir comps_wanted t options (comp_nm # entries) status compset msg st = do {
     wanted \<leftarrow> wanted_entry comps_wanted t comp_nm;
     if \<not> wanted then status_dir_loop farmhash64 fopen is_reg status_dir comps_wanted t options entries status compset msg st
     else do {
       status_file \<leftarrow> lcfgutils_catfile (Some status_dir) (Some comp_nm);
       (status', set1, msg', st') \<leftarrow>
         (if is_reg status_file then read_status_file farmhash64 fopen status_file comp_nm options compset msg st
          else Some (status, compset, msg, st));
       if status' \<noteq> LCFG_STATUS_OK then Some (status', set1, msg', st')
       else status_dir_loop farmhash64 fopen is_reg status_dir comps_wanted t options entries status' set1 msg' st'
     }
   }"

definition status_dir_is :: "string \<Rightarrow> string \<Rightarrow> string" where
  "status_dir_is status_dir what = ''Status directory '' @ in_quotes status_dir @ what"

definition lcfgcompset_from_status_dir ::
    "(string \<Rightarrow> 64 word) \<Rightarrow> (string \<Rightarrow> file_read) \<Rightarrow> (string \<Rightarrow> bool) \<Rightarrow> (string \<Rightarrow> dir_read) \<Rightarrow> string \<Rightarrow> LCFGTagList option \<Rightarrow>
     tag_mem \<Rightarrow> bits \<Rightarrow> cstr \<Rightarrow> comp_store \<Rightarrow> (LCFGStatus \<times> LCFGComponentSet option \<times> cstr \<times> comp_store) option" where
  "lcfgcompset_from_status_dir farmhash64 fopen is_reg opendir status_dir comps_wanted t options msg st =
     (if status_dir = [] then Some (LCFG_STATUS_ERROR, None, Some ''Invalid status directory name'', st)
      else do {
        (compset, st1) \<leftarrow> lcfgcompset_new st;
        (status, set1, msg', st2) \<leftarrow>
          (case opendir status_dir of
             DirMissing \<Rightarrow>
               if has_bit options LCFG_OPT_ALLOW_NOEXIST then Some (LCFG_STATUS_OK, compset, msg, st1)
               else Some (LCFG_STATUS_ERROR, compset, Some (status_dir_is status_dir '' does not exist''), st1)
           | DirUnreadable \<Rightarrow> Some (LCFG_STATUS_ERROR, compset, Some (status_dir_is status_dir '' is not readable''), st1)
           | DirEntries names \<Rightarrow>
               status_dir_loop farmhash64 fopen is_reg status_dir comps_wanted t options names LCFG_STATUS_OK compset msg st1);
        if status = LCFG_STATUS_ERROR
        then map_option (\<lambda>(_, st3). (status, None, msg', st3)) (lcfgcompset_relinquish (Some set1) st2)
        else Some (status, Some set1, msg', st2)
      })"

section \<open>Iterators\<close>

text \<open>A position in a list of resources is the index of its node. The component and the list are those that were acquired.\<close>

record LCFGResourceListIterator =
  ri_list :: nat
  ri_current :: "nat option"

record LCFGComponentIterator =
  ci_comp :: nat
  ci_listiter :: "LCFGResourceListIterator option"
  ci_current :: int
  ci_all_priorities :: bool

definition lcfgreslistiter_new :: "nat \<Rightarrow> res_mem \<Rightarrow> (LCFGResourceListIterator \<times> res_mem) option" where
  "lcfgreslistiter_new list m = map_option (Pair \<lparr>ri_list = list, ri_current = None\<rparr>) (lcfgreslist_acquire list m)"

definition lcfgreslistiter_destroy :: "LCFGResourceListIterator option \<Rightarrow> res_mem \<Rightarrow> res_mem option" where
  "lcfgreslistiter_destroy it m = (case it of None \<Rightarrow> Some m | Some i \<Rightarrow> lcfgreslist_relinquish (Some (ri_list i)) m)"

definition lcfgreslistiter_has_next :: "res_mem \<Rightarrow> LCFGResourceListIterator \<Rightarrow> bool option" where
  "lcfgreslistiter_has_next m it = do {
     l \<leftarrow> rm_lists m (ri_list it);
     Some (case ri_current it of None \<Rightarrow> \<not> lcfgslist_is_empty l | Some i \<Rightarrow> i + 1 < length (nodes l))
   }"

definition lcfgreslistiter_next ::
    "res_mem \<Rightarrow> LCFGResourceListIterator \<Rightarrow> (nat option \<times> LCFGResourceListIterator) option" where
  "lcfgreslistiter_next m it = do {
     more \<leftarrow> lcfgreslistiter_has_next m it;
     if \<not> more then Some (None, it)
     else do {
       l \<leftarrow> rm_lists m (ri_list it);
       let i = (case ri_current it of None \<Rightarrow> 0 | Some i \<Rightarrow> i + 1);
       if i < length (nodes l) then Some (Some (nodes l ! i), it\<lparr>ri_current := Some i\<rparr>) else Some (None, it\<lparr>ri_current := None\<rparr>)
     }
   }"

definition lcfgcompiter_new :: "nat \<Rightarrow> bool \<Rightarrow> comp_store \<Rightarrow> (LCFGComponentIterator \<times> comp_store) option" where
  "lcfgcompiter_new p all_priorities st =
     map_option (Pair \<lparr>ci_comp = p, ci_listiter = None, ci_current = - 1, ci_all_priorities = all_priorities\<rparr>) (acquire_comp p st)"

definition lcfgcompiter_destroy :: "LCFGComponentIterator option \<Rightarrow> comp_store \<Rightarrow> comp_store option" where
  "lcfgcompiter_destroy it st =
     (case it of
        None \<Rightarrow> Some st
      | Some i \<Rightarrow> do {
          st1 \<leftarrow> relinquish_comp (Some (ci_comp i)) st;
          m' \<leftarrow> lcfgreslistiter_destroy (ci_listiter i) (cs_mem st1);
          Some (st1\<lparr>cs_mem := m'\<rparr>)
        })"

definition lcfgcompiter_reset :: "LCFGComponentIterator \<Rightarrow> comp_store \<Rightarrow> (LCFGComponentIterator \<times> comp_store) option" where
  "lcfgcompiter_reset it st =
     map_option (\<lambda>m'. (it\<lparr>ci_listiter := None, ci_current := - 1\<rparr>, st\<lparr>cs_mem := m'\<rparr>))
       (lcfgreslistiter_destroy (ci_listiter it) (cs_mem st))"

text \<open>Whether a bucket from \<open>next\<close> on has a list that is not empty.\<close>

fun list_next_loop :: "res_mem \<Rightarrow> LCFGComponent \<Rightarrow> nat list \<Rightarrow> bool \<Rightarrow> bool option" where
  "list_next_loop m c [] has_next = Some has_next"
| "list_next_loop m c (i # js) has_next =
     (if has_next then Some True
      else do {
        b \<leftarrow> bucket_at c i;
        empty \<leftarrow> lcfgreslist_is_empty m b;
        list_next_loop m c js (\<not> empty)
      })"

definition lcfgcompiter_has_next :: "comp_store \<Rightarrow> LCFGComponentIterator \<Rightarrow> bool option" where
  "lcfgcompiter_has_next st it = do {
     inside \<leftarrow> (case ci_listiter it of None \<Rightarrow> Some False | Some i \<Rightarrow> lcfgreslistiter_has_next (cs_mem st) i);
     c \<leftarrow> cs_comps st (ci_comp it);
     list_next_loop (cs_mem st) c [nat (ci_current it + 1)..<comp_buckets c] inside
   }"

text \<open>The loop over the buckets after the current one.\<close>

fun compiter_loop ::
    "LCFGComponent \<Rightarrow> nat list \<Rightarrow> nat option \<Rightarrow> LCFGComponentIterator \<Rightarrow> comp_store \<Rightarrow>
     (nat option \<times> LCFGComponentIterator \<times> comp_store) option" where
  "compiter_loop c [] next_res it st = Some (next_res, it, st)"
| "compiter_loop c (i # js) next_res it st =
     (if next_res \<noteq> None then Some (next_res, it, st)
      else do {
        let it1 = it\<lparr>ci_current := ci_current it + 1\<rparr>;
        b \<leftarrow> bucket_at c i;
        empty \<leftarrow> lcfgreslist_is_empty (cs_mem st) b;
        (case b of
           None \<Rightarrow> compiter_loop c js None it1 st
         | Some a \<Rightarrow>
             if empty then compiter_loop c js None it1 st
             else if ci_all_priorities it then do {
               m1 \<leftarrow> lcfgreslistiter_destroy (ci_listiter it) (cs_mem st);
               (listiter, m2) \<leftarrow> lcfgreslistiter_new a m1;
               (next_res', listiter') \<leftarrow> lcfgreslistiter_next m2 listiter;
               compiter_loop c js next_res' (it1\<lparr>ci_listiter := Some listiter'\<rparr>) (st\<lparr>cs_mem := m2\<rparr>)
             }
             else do {
               next_res' \<leftarrow> lcfgreslist_first_resource (cs_mem st) a;
               compiter_loop c js next_res' it1 st
             })
      })"

definition lcfgcompiter_next :: "LCFGComponentIterator \<Rightarrow> comp_store \<Rightarrow> (nat option \<times> LCFGComponentIterator \<times> comp_store) option" where
  "lcfgcompiter_next it st = do {
     (next_res, listiter) \<leftarrow> (case ci_listiter it of
         None \<Rightarrow> Some (None, None)
       | Some i \<Rightarrow> map_option (map_prod id Some) (lcfgreslistiter_next (cs_mem st) i));
     c \<leftarrow> cs_comps st (ci_comp it);
     compiter_loop c [nat (ci_current it + 1)..<comp_buckets c] next_res (it\<lparr>ci_listiter := listiter\<rparr>) st
   }"


section \<open>The invariants\<close>

text \<open>
  The store: every component that is there has as many references as its holders \<open>C\<close> say, and is
  well formed; the references to lists are those of the components and those of others, \<open>K\<close>.
\<close>

definition list_holders :: "comp_store \<Rightarrow> nat \<Rightarrow> nat set" where
  "list_holders st a = {p. \<exists>c. cs_comps st p = Some c \<and> a \<in> comp_lists c}"

definition all_claims :: "(nat \<Rightarrow> nat) \<Rightarrow> comp_store \<Rightarrow> nat \<Rightarrow> nat" where
  "all_claims K st a = K a + card (list_holders st a)"

definition store_ok ::
    "(string \<Rightarrow> 64 word) \<Rightarrow> (nat \<Rightarrow> nat) \<Rightarrow> (nat \<Rightarrow> nat) \<Rightarrow> (nat \<Rightarrow> nat) \<Rightarrow> comp_store \<Rightarrow> bool" where
  "store_ok farmhash64 K P C st \<longleftrightarrow>
     (\<forall>p c. cs_comps st p = Some c \<longrightarrow>
        p < cs_free st \<and> 0 < C p \<and> comp_refcount c = C p \<and> table_good farmhash64 (cs_mem st) c) \<and>
     (\<forall>p. cs_comps st p = None \<longrightarrow> C p = 0) \<and> res_mem_ok (all_claims K st) P (cs_mem st)"

lemma store_okD:
  assumes "store_ok farm K P C st"
  shows "cs_comps st p = Some c \<Longrightarrow> p < cs_free st \<and> 0 < C p \<and> comp_refcount c = C p"
    and "cs_comps st p = Some c \<Longrightarrow> table_good farm (cs_mem st) c" and "cs_comps st p = None \<Longrightarrow> C p = 0"
    and "res_mem_ok (all_claims K st) P (cs_mem st)" and "0 < C p \<Longrightarrow> \<exists>c. cs_comps st p = Some c"
proof -
  note a = assms [unfolded store_ok_def]
  from a show "cs_comps st p = Some c \<Longrightarrow> p < cs_free st \<and> 0 < C p \<and> comp_refcount c = C p"
    and "cs_comps st p = Some c \<Longrightarrow> table_good farm (cs_mem st) c" by blast+
  from a show none: "cs_comps st p = None \<Longrightarrow> C p = 0" by simp
  from a show "res_mem_ok (all_claims K st) P (cs_mem st)" by simp
  from none show "0 < C p \<Longrightarrow> \<exists>c. cs_comps st p = Some c" by (cases "cs_comps st p") auto
qed

lemma store_okI:
  assumes "\<And>p c. cs_comps st p = Some c \<Longrightarrow> p < cs_free st \<and> 0 < C p \<and> comp_refcount c = C p"
    and "\<And>p c. cs_comps st p = Some c \<Longrightarrow> table_good farm (cs_mem st) c" and "\<And>p. cs_comps st p = None \<Longrightarrow> C p = 0"
    and "res_mem_ok (all_claims K st) P (cs_mem st)"
  shows "store_ok farm K P C st"
  unfolding store_ok_def using assms by blast

lemma holders_finite: "store_ok farm K P C st \<Longrightarrow> finite (list_holders st a)"
proof (rule finite_subset [of _ "{..<cs_free st}"])
  assume "store_ok farm K P C st"
  note d = store_okD(1) [OF this]
  show "list_holders st a \<subseteq> {..<cs_free st}" using d unfolding list_holders_def by blast
qed simp

lemma all_claims_cong: "(\<And>p. map_option comp_lists (cs_comps st' p) = map_option comp_lists (cs_comps st p)) \<Longrightarrow> all_claims K st' = all_claims K st"
proof
  fix a
  assume same: "\<And>p. map_option comp_lists (cs_comps st' p) = map_option comp_lists (cs_comps st p)"
  have "list_holders st' a = list_holders st a"
  proof (rule set_eqI)
    show "p \<in> list_holders st' a \<longleftrightarrow> p \<in> list_holders st a" for p
      using same [of p] by (cases "cs_comps st' p"; cases "cs_comps st p") (auto simp: list_holders_def)
  qed
  then show "all_claims K st' a = all_claims K st a" by (simp add: all_claims_def)
qed

text \<open>Without a component at \<open>p\<close>, and with one.\<close>

definition without :: "nat \<Rightarrow> comp_store \<Rightarrow> comp_store" where
  "without p st = put_comp p None st"

lemma put_comp_simps [simp]:
  "cs_comps (put_comp p c st) = (cs_comps st)(p := c)" "cs_mem (put_comp p c st) = cs_mem st" "cs_free (put_comp p c st) = cs_free st"
  by (simp_all add: put_comp_def)

lemma all_claims_split:
  assumes "store_ok farm K P C st" and "cs_comps st p = Some c"
  shows "all_claims K st = claims (all_claims K (without p st)) c"
proof
  fix a
  have "list_holders st a = (if a \<in> comp_lists c then insert p (list_holders (without p st) a) else list_holders (without p st) a)"
    using assms(2) by (auto simp: list_holders_def without_def split: if_splits)
  moreover have "p \<notin> list_holders (without p st) a" by (simp add: list_holders_def without_def)
  moreover have "finite (list_holders (without p st) a)"
    by (rule finite_subset [OF _ holders_finite [OF assms(1), of a]]) (auto simp: list_holders_def without_def split: if_splits)
  ultimately show "all_claims K st a = claims (all_claims K (without p st)) c a" by (simp add: all_claims_def claims_def)
qed

lemma comp_ok_refcount [simp]:
  "table_good farm m (c\<lparr>comp_refcount := n\<rparr>) = table_good farm m c" "comp_lists (c\<lparr>comp_refcount := n\<rparr>) = comp_lists c"
  "comp_nodes farm m (c\<lparr>comp_refcount := n\<rparr>) = comp_nodes farm m c"
  by (simp_all add: table_good_def lists_named_def comp_lists_def comp_nodes_def fun_eq_iff)

text \<open>Another count of a component.\<close>

lemma put_count_ok:
  assumes "store_ok farm K P C st" and "cs_comps st p = Some c" and "0 < n"
  shows "store_ok farm K P (C(p := n)) (put_comp p (Some (c\<lparr>comp_refcount := n\<rparr>)) st)"
proof -
  have "all_claims K (put_comp p (Some (c\<lparr>comp_refcount := n\<rparr>)) st) = all_claims K st" by (rule all_claims_cong) (simp add: assms(2))
  then show ?thesis using assms store_okD [OF assms(1)] by (auto simp: store_ok_def)
qed

lemma acquire_comp_ok:
  assumes "store_ok farm K P C st" and "cs_comps st p = Some c"
  shows "\<exists>st'. acquire_comp p st = Some st' \<and> store_ok farm K P (C(p := C p + 1)) st' \<and>
    st' = put_comp p (Some (c\<lparr>comp_refcount := comp_refcount c + 1\<rparr>)) st"
  using put_count_ok [OF assms, of "C p + 1"] store_okD(1) [OF assms] assms(2)
  by (simp add: acquire_comp_def lcfgcomponent_acquire_def)

text \<open>The components that stay are as before, up to their counts.\<close>

definition comp_content :: "LCFGComponent \<Rightarrow> LCFGComponent" where
  "comp_content c = c\<lparr>comp_refcount := 0\<rparr>"

definition same_comps :: "nat set \<Rightarrow> comp_store \<Rightarrow> comp_store \<Rightarrow> bool" where
  "same_comps A st st' \<longleftrightarrow> cs_free st \<le> cs_free st' \<and>
     (\<forall>p\<in>A. map_option comp_content (cs_comps st' p) = map_option comp_content (cs_comps st p))"

lemma same_comps_trans: "same_comps A st1 st2 \<Longrightarrow> same_comps A st2 st3 \<Longrightarrow> same_comps A st1 st3"
  by (auto simp: same_comps_def)

lemma comp_content_eq:
  "comp_content c = comp_content c' \<Longrightarrow> comp_name c = comp_name c' \<and> comp_lists c = comp_lists c' \<and> comp_resources c = comp_resources c'"
  by (cases c; cases c') (simp add: comp_content_def comp_lists_def)

text \<open>The last reference destroys the component.\<close>

lemma relinquish_comp_ok:
  assumes ok: "store_ok farm K P C st" and pos: "0 < C p" and c: "cs_comps st p = Some c"
  shows "\<exists>st'. relinquish_comp (Some p) st = Some st' \<and> store_ok farm K P (C(p := C p - 1)) st' \<and>
    cs_comps st' = (cs_comps st)(p := if C p = 1 then None else Some (c\<lparr>comp_refcount := C p - 1\<rparr>)) \<and>
    cs_free st' = cs_free st \<and> evolves (cs_mem st) (cs_mem st') \<and> same_lists (others (all_claims K st')) (cs_mem st) (cs_mem st')"
proof (cases "C p = 1")
  case False
  let ?st = "put_comp p (Some (c\<lparr>comp_refcount := C p - 1\<rparr>)) st"
  have "comp_refcount c = C p" using store_okD(1) [OF ok c] by simp
  moreover have "st\<lparr>cs_mem := cs_mem st\<rparr> = st" by simp
  ultimately have "relinquish_comp (Some p) st = Some ?st"
    using c pos False by (simp add: relinquish_comp_def lcfgcomponent_relinquish_def Let_def)
  with put_count_ok [OF ok c, of "C p - 1"] pos False show ?thesis by (intro exI [of _ ?st]) simp
next
  case True
  let ?K = "all_claims K (without p st)" and ?c = "c\<lparr>comp_refcount := 0\<rparr>"
  have memok: "res_mem_ok (claims ?K c) P (cs_mem st)" using store_okD(4) [OF ok] all_claims_split [OF ok c] by simp
  then have "comp_ok farm ?K P (cs_mem st) ?c" using store_okD(2) [OF ok c] by (simp add: comp_ok_def)
  from destroy_ok [OF this] obtain m' where m': "lcfgcomponent_destroy ?c (cs_mem st) = Some m'" "res_mem_ok ?K P m'"
    "evolves (cs_mem st) m'" "same_lists (others ?K) (cs_mem st) m'" by blast
  let ?st = "put_comp p None (st\<lparr>cs_mem := m'\<rparr>)"
  have "all_claims K ?st = ?K" by (rule all_claims_cong) (simp add: without_def)
  moreover have "table_good farm (cs_mem ?st) d" if d: "cs_comps ?st q = Some d" for q d
  proof -
    from d have dq: "cs_comps st q = Some d" "q \<noteq> p" by (auto split: if_splits)
    then have good: "table_good farm (cs_mem st) d" using store_okD(2) [OF ok] by blast
    have "named_list m' (reslist_name (cs_mem st) a) a" if a: "a \<in> comp_lists d" for a
    proof -
    from a have "q \<in> list_holders (without p st) a" using dq by (simp add: list_holders_def without_def)
    moreover have "finite (list_holders (without p st) a)"
      by (rule finite_subset [OF _ holders_finite [OF ok, of a]]) (auto simp: list_holders_def without_def split: if_splits)
    ultimately have "a \<in> others ?K" by (auto simp: others_def all_claims_def card_gt_0_iff)
    then show ?thesis
      using nodes_kept [OF memok m'(2-4)] table_goodD(3) [OF good, of a] a by (simp add: comp_lists_def)
    qed
    then show ?thesis using table_good_kept(1) [OF good, of m'] by simp
  qed
  moreover have "q < cs_free ?st \<and> 0 < (C(p := 0)) q \<and> comp_refcount d = (C(p := 0)) q" if "cs_comps ?st q = Some d" for q d
    using that store_okD(1) [OF ok, of q d] by (simp split: if_splits)
  moreover have "(C(p := 0)) q = 0" if "cs_comps ?st q = None" for q
    using that store_okD(3) [OF ok, of q] by (simp split: if_splits)
  moreover have "res_mem_ok ?K P (cs_mem ?st)" using m'(2) by simp
  ultimately have "store_ok farm K P (C(p := 0)) ?st"
    by (intro store_okI) metis+
  moreover have "same_lists (others (all_claims K ?st)) (cs_mem st) m'"
    using m'(4) all_claims_cong [of ?st "without p st" K] by (simp add: without_def)
  moreover have "relinquish_comp (Some p) st = Some ?st"
    using c m'(1) store_okD(1) [OF ok c] True by (simp add: relinquish_comp_def lcfgcomponent_relinquish_def Let_def)
  ultimately show ?thesis using m'(3) True by (intro exI [of _ ?st]) simp
qed

text \<open>A set: a table of live components by their names.\<close>

definition cset_home :: "string \<Rightarrow> nat \<Rightarrow> nat" where
  "cset_home name n = unat (lcfgutils_string_djbhash name []) mod n"

definition store_name :: "comp_store \<Rightarrow> nat \<Rightarrow> string" where
  "store_name st p = (case cs_comps st p of None \<Rightarrow> [] | Some c \<Rightarrow> or_default (comp_name c) [])"

interpretation cset_table: probing cset_home "store_name st" for st
  by unfold_locales (simp add: cset_home_def)

definition comp_named :: "LCFGComponent \<Rightarrow> bool" where
  "comp_named c \<longleftrightarrow> (\<exists>n. comp_name c = Some n \<and> n \<noteq> [] \<and> no_nul n)"

definition cset_members :: "LCFGComponentSet \<Rightarrow> nat set" where
  "cset_members s = {p. Some p \<in> set (cset_components s)}"

definition cset_good :: "comp_store \<Rightarrow> LCFGComponentSet \<Rightarrow> bool" where
  "cset_good st s \<longleftrightarrow> cset_buckets s = length (cset_components s) \<and> cset_table.table_ok st (cset_components s) \<and>
     cset_entries s = used (cset_components s) \<and> (\<forall>p\<in>cset_members s. \<exists>c. cs_comps st p = Some c \<and> comp_named c)"

definition cset_lookup :: "comp_store \<Rightarrow> LCFGComponentSet \<Rightarrow> string \<Rightarrow> nat option" where
  "cset_lookup st s = cset_table.lookup st (cset_components s)"

text \<open>The holders of components: others, and a set.\<close>

definition set_claims :: "(nat \<Rightarrow> nat) \<Rightarrow> LCFGComponentSet \<Rightarrow> nat \<Rightarrow> nat" where
  "set_claims C s p = C p + (if p \<in> cset_members s then 1 else 0)"

lemma cset_goodD:
  assumes "cset_good st s"
  shows "cset_buckets s = length (cset_components s)" "cset_table.table_ok st (cset_components s)"
    "cset_entries s = used (cset_components s)" "p \<in> cset_members s \<Longrightarrow> \<exists>c. cs_comps st p = Some c \<and> comp_named c"
    "cset_components s \<noteq> []"
  using assms by (simp_all add: cset_good_def cset_table.table_ok_def)

lemma cset_lookup_iff: "cset_good st s \<Longrightarrow> cset_lookup st s name = Some p \<longleftrightarrow> p \<in> cset_members s \<and> store_name st p = name"
  by (simp add: cset_lookup_def cset_table.lookup_iff [OF cset_goodD(2)] cset_members_def)

lemma option_eqI: "(\<And>x. a = Some x \<longleftrightarrow> b = Some x) \<Longrightarrow> a = b"
  by (cases a; cases b) auto

lemma store_name_content: "map_option comp_content (cs_comps st' p) = map_option comp_content (cs_comps st p) \<Longrightarrow> store_name st' p = store_name st p"
  by (cases "cs_comps st p"; cases "cs_comps st' p") (auto simp: store_name_def dest: comp_content_eq)

lemma cset_good_kept:
  assumes "cset_good st s" and "same_comps (cset_members s) st st'"
  shows "cset_good st' s" and "cset_lookup st' s = cset_lookup st s"
proof -
  have same: "map_option comp_content (cs_comps st' p) = map_option comp_content (cs_comps st p)" if "p \<in> cset_members s" for p
    using assms(2) that by (simp add: same_comps_def)
  have name: "store_name st' p = store_name st p" if "Some p \<in> set (cset_components s)" for p
    using same [of p] that by (auto simp: cset_members_def intro: store_name_content)
  have "cset_table.table_ok st' (cset_components s)"
    by (rule cset_table.table_ok_cong [OF name cset_goodD(2) [OF assms(1)]])
  moreover have "\<exists>c. cs_comps st' p = Some c \<and> comp_named c" if "p \<in> cset_members s" for p
  proof -
    from cset_goodD(4) [OF assms(1) that] obtain c where "cs_comps st p = Some c" "comp_named c" by blast
    with same [OF that] show ?thesis by (cases "cs_comps st' p") (auto simp: comp_named_def dest: comp_content_eq)
  qed
  ultimately show good: "cset_good st' s" using assms(1) by (simp add: cset_good_def)
  show "cset_lookup st' s = cset_lookup st s"
    by (rule ext, rule option_eqI) (use name in \<open>auto simp: cset_lookup_iff [OF good] cset_lookup_iff [OF assms(1)] cset_members_def\<close>)
qed

section \<open>Searches of a set\<close>

lemma cset_search_slot:
  assumes "to \<le> length (cset_components s)" and "\<And>b. b \<in> set (cset_components s) \<Longrightarrow> found b = Some (P b)"
  shows "cset_search found s i to = Some (slot_loop P (cset_components s) i to)"
proof (induction "to - i" arbitrary: i)
  case 0
  then show ?case by (simp add: cset_search.simps [of found s i] slot_loop.simps [of P _ i])
next
  case (Suc d)
  then have i: "i < to" by simp
  with assms have "found (cset_components s ! i) = Some (P (cset_components s ! i))" by simp
  with i assms(1) Suc(1) [of "i + 1"] Suc(2) show ?case
    by (simp add: cset_search.simps [of found s i] slot_loop.simps [of P _ i] cset_at_def)
qed

lemma cset_probe_slot:
  assumes "cset_good st s" and "\<And>b. b \<in> set (cset_components s) \<Longrightarrow> found b = Some (cset_table.stop_at st name b)"
  shows "cset_probe found s (cset_hash s name) = Some (cset_table.slot_of st (cset_components s) name)"
proof -
  have h: "cset_hash s name = cset_home name (length (cset_components s))"
    using cset_goodD(1) [OF assms(1)] by (simp add: cset_hash_def cset_home_def)
  moreover have "cset_home name (length (cset_components s)) < length (cset_components s)"
    using cset_goodD(5) [OF assms(1)] by (simp add: cset_home_def)
  ultimately show ?thesis
    using cset_search_slot [where found = found and P = "cset_table.stop_at st name" and s = s] assms(2) cset_goodD(1) [OF assms(1)]
    by (simp add: cset_probe_def cset_table.slot_of_def find_slot_def split: option.splits)
qed

lemma member_name:
  assumes "cset_good st s" and "b \<in> set (cset_components s)" and "b = Some q"
  obtains d where "cs_comps st q = Some d" "or_default (comp_name d) [] = store_name st q" "no_nul (store_name st q)"
  using cset_goodD(4) [OF assms(1), of q] assms(2,3) by (force simp: cset_members_def store_name_def comp_named_def)

lemma find_component_lookup:
  assumes "cset_good st s" and "no_nul name"
  shows "lcfgcompset_find_component st (Some s) name = Some (cset_lookup st s name)"
proof (cases "cset_entries s = 0")
  case True
  then have "entries_of (cset_components s) = []" using cset_goodD(3) [OF assms(1)] by (metis entries_of_facts(2) length_0_conv)
  then have "cset_members s = {}" by (metis cset_members_def empty_set entries_of_facts(1))
  with cset_lookup_iff [OF assms(1), of name] have "cset_lookup st s name = None" by (cases "cset_lookup st s name") auto
  with True show ?thesis by (simp add: lcfgcompset_find_component_def lcfgcompset_is_empty_def)
next
  case False
  have "find_stop st name b = Some (cset_table.stop_at st name b)" if "b \<in> set (cset_components s)" for b
  proof (cases b)
    case (Some q)
    from member_name [OF assms(1) that Some] obtain d where "cs_comps st q = Some d" "or_default (comp_name d) [] = store_name st q"
      "no_nul (store_name st q)" .
    with Some assms(2) show ?thesis
      by (simp add: find_stop_def cset_table.stop_at_def probe_ends_def lcfgcomponent_match_def strcmp_eq_0)
  qed (simp add: find_stop_def cset_table.stop_at_def probe_ends_def)
  note probe = cset_probe_slot [OF assms(1) this]
  have "i < length (cset_components s)" if "cset_table.slot_of st (cset_components s) name = Some i" for i
    using cset_table.slot_of_SomeD(1) [OF that cset_goodD(5) [OF assms(1)]] .
  with False probe show ?thesis
    by (simp add: lcfgcompset_find_component_def lcfgcompset_is_empty_def cset_lookup_def cset_table.lookup_slot cset_at_def
        split: option.splits)
qed


section \<open>Insertion\<close>

text \<open>A component in the bucket where the search for its name ends.\<close>

lemma cset_store_slot:
  assumes s: "cset_good st s" and slot: "cset_table.slot_of st (cset_components s) (store_name st p) = Some i"
    and p: "cs_comps st p = Some c" "comp_named c"
  defines "s' \<equiv> s\<lparr>cset_components := (cset_components s)[i := Some p],
    cset_entries := cset_entries s + (if cset_components s ! i = None then 1 else 0)\<rparr>"
  shows "cset_members s' = insert p {q \<in> cset_members s. store_name st q \<noteq> store_name st p}" and "cset_good st s'"
    and "cset_lookup st s' = (cset_lookup st s)(store_name st p := Some p)" and "i < length (cset_components s)"
    and "cset_lookup st s (store_name st p) = cset_components s ! i"
proof -
  note tab = cset_goodD(2) [OF s]
  show i: "i < length (cset_components s)" using cset_table.slot_of_SomeD(1) [OF slot cset_goodD(5) [OF s]] .
  show at: "cset_lookup st s (store_name st p) = cset_components s ! i"
    using slot by (simp add: cset_lookup_def cset_table.lookup_slot)
  have "cset_table.table_ok st (cset_components s') \<and>
    cset_members s' = insert p {q \<in> cset_members s. store_name st q \<noteq> store_name st p}"
  proof (cases "cset_components s ! i")
    case None
    note t = cset_table.table_insert [OF tab slot None]
    have "store_name st q \<noteq> store_name st p" if "q \<in> cset_members s" for q
      using at None that cset_lookup_iff [OF s, of "store_name st p" q] by auto
    with t(1,2) show ?thesis by (auto simp: s'_def cset_members_def)
  next
    case (Some q)
    then have "store_name st p = store_name st q" using at cset_lookup_iff [OF s] by metis
    from cset_table.table_replace [OF tab i Some this] this show ?thesis by (auto simp: s'_def cset_members_def)
  qed
  then show mem: "cset_members s' = insert p {q \<in> cset_members s. store_name st q \<noteq> store_name st p}"
    and good: "cset_good st s'"
    using cset_goodD(1,3) [OF s] cset_goodD(4) [OF s] p used_update [OF i, of "Some p"]
    by (auto simp: cset_good_def s'_def split: if_splits)
  show "cset_lookup st s' = (cset_lookup st s)(store_name st p := Some p)"
    by (rule ext, rule option_eqI) (auto simp: cset_lookup_iff [OF good] cset_lookup_iff [OF s] mem)
qed

lemma named_valid: "comp_named c \<Longrightarrow> lcfgcomponent_is_valid (Some c)"
  by (auto simp: comp_named_def lcfgcomponent_is_valid_def lcfgcomponent_has_name_def isempty_def)

text \<open>
  Insertion: the component is the one of its name afterwards, and the set holds one reference to it
  instead of one to the component that had the name before. A set without a free bucket refuses a
  new name, since an insertion never resizes the set.
\<close>

lemma insert_component_ok:
  assumes ok: "store_ok farm K P (set_claims C s) st" and s: "cset_good st s" and p: "cs_comps st p = Some c" "comp_named c"
  shows "cset_lookup st s (store_name st p) = None \<Longrightarrow> None \<notin> set (cset_components s) \<Longrightarrow>
      lcfgcompset_insert_component s (Some p) st = Some (LCFG_CHANGE_ERROR, s, st)"
    and "cset_lookup st s (store_name st p) \<noteq> None \<or> None \<in> set (cset_components s) \<Longrightarrow>
      \<exists>s' st'. lcfgcompset_insert_component s (Some p) st =
          Some (if cset_lookup st s (store_name st p) = None then LCFG_CHANGE_ADDED else LCFG_CHANGE_REPLACED, s', st') \<and>
        store_ok farm K P (set_claims C s') st' \<and> cset_good st' s' \<and>
        cset_lookup st' s' = (cset_lookup st s)(store_name st p := Some p) \<and> same_comps (others C \<union> cset_members s') st st'"
proof -
  let ?n = "store_name st p"
  let ?c = "c\<lparr>comp_refcount := comp_refcount c + 1\<rparr>"
  let ?st = "put_comp p (Some ?c) st"
  let ?C = "(set_claims C s)(p := set_claims C s p + 1)"
  have acq: "acquire_comp p st = Some ?st" and ok1: "store_ok farm K P ?C ?st" using acquire_comp_ok [OF ok p(1)] by auto
  have name: "or_default (comp_name c) [] = ?n" "no_nul ?n" using p by (auto simp: store_name_def comp_named_def)
  have same1: "same_comps A st ?st" for A using p(1) by (simp add: same_comps_def comp_content_def)
  have stop: "insert_stop ?st c b = Some (cset_table.stop_at st ?n b)" if "b \<in> set (cset_components s)" for b
  proof (cases b)
    case (Some q)
    from member_name [OF s that Some] obtain d where d: "cs_comps st q = Some d" "or_default (comp_name d) [] = store_name st q"
      "no_nul (store_name st q)" .
    then show ?thesis using Some name p(1)
      by (auto simp: insert_stop_def cset_table.stop_at_def probe_ends_def lcfgcomponent_same_name_def strcmp_eq_0)
  qed (simp add: insert_stop_def cset_table.stop_at_def probe_ends_def)
  note probe = cset_probe_slot [OF s stop]
  have run: "lcfgcompset_insert_component s (Some p) st =
    (case cset_table.slot_of st (cset_components s) ?n of
       None \<Rightarrow> map_option (\<lambda>st2. (LCFG_CHANGE_ERROR, s, st2)) (relinquish_comp (Some p) ?st)
     | Some i \<Rightarrow> do {
         old \<leftarrow> cset_at s i;
         st2 \<leftarrow> relinquish_comp old ?st;
         let set1 = s\<lparr>cset_components := (cset_components s)[i := Some p]\<rparr>;
         Some (if old = None then (LCFG_CHANGE_ADDED, set1\<lparr>cset_entries := cset_entries s + 1\<rparr>, st2)
               else (LCFG_CHANGE_REPLACED, set1, st2))
       })"
    using p acq probe named_valid [OF p(2)] by (simp add: lcfgcompset_insert_component_def name cong: option.case_cong)
  show "lcfgcompset_insert_component s (Some p) st = Some (LCFG_CHANGE_ERROR, s, st)"
    if full: "cset_lookup st s ?n = None" "None \<notin> set (cset_components s)"
  proof -
    have "cset_table.slot_of st (cset_components s) ?n = None"
    proof (rule ccontr)
      assume "cset_table.slot_of st (cset_components s) ?n \<noteq> None"
      then obtain i where i: "cset_table.slot_of st (cset_components s) ?n = Some i" by blast
      from cset_store_slot(4,5) [OF s i p] full nth_mem [of i "cset_components s"] show False by simp
    qed
    moreover have "relinquish_comp (Some p) ?st = Some st"
      using p(1) store_okD(1) [OF ok p(1)]
      by (cases st) (simp add: relinquish_comp_def lcfgcomponent_relinquish_def put_comp_def fun_upd_idem)
    ultimately show ?thesis using run by simp
  qed
  assume room: "cset_lookup st s ?n \<noteq> None \<or> None \<in> set (cset_components s)"
  have "\<exists>i. cset_table.slot_of st (cset_components s) ?n = Some i"
    using room cset_table.slot_of_free [OF cset_goodD(2) [OF s], of ?n]
    by (cases "cset_lookup st s ?n") (auto simp: cset_lookup_def cset_table.lookup_slot split: option.splits)
  then obtain i where i: "cset_table.slot_of st (cset_components s) ?n = Some i" by blast
  let ?s = "s\<lparr>cset_components := (cset_components s)[i := Some p],
    cset_entries := cset_entries s + (if cset_components s ! i = None then 1 else 0)\<rparr>"
  note slot = cset_store_slot [OF s i p]
  have at: "cset_at s i = Some (cset_components s ! i)" using slot(4) by (simp add: cset_at_def)
  have "\<exists>st'. relinquish_comp (cset_components s ! i) ?st = Some st' \<and> store_ok farm K P (set_claims C ?s) st' \<and>
    same_comps (others C \<union> cset_members ?s) st st'"
  proof (cases "cset_components s ! i")
    case None
    then have "cset_lookup st s ?n = None" using slot(5) by simp
    then have free: "q \<in> cset_members s \<Longrightarrow> store_name st q \<noteq> ?n" for q using cset_lookup_iff [OF s, of ?n q] by auto
    then have "?C = set_claims C ?s" using slot(1) by (auto simp: set_claims_def fun_eq_iff)
    with ok1 same1 None show ?thesis by (simp add: relinquish_comp_def)
  next
    case (Some q)
    then have q: "q \<in> cset_members s" "store_name st q = ?n" using slot(5) cset_lookup_iff [OF s, of ?n q] by simp_all
    have only: "r = q" if "r \<in> cset_members s" "store_name st r = ?n" for r
      using that cset_lookup_iff [OF s, of ?n r] slot(5) Some by simp
    from cset_goodD(4) [OF s q(1)] obtain d where "cs_comps ?st q = Some d" by (cases "q = p") auto
    moreover have pos: "0 < ?C q" using q(1) by (simp add: set_claims_def)
    ultimately obtain st' where st': "relinquish_comp (Some q) ?st = Some st'" "store_ok farm K P (?C(q := ?C q - 1)) st'"
      "cs_comps st' = (cs_comps ?st)(q := if ?C q = 1 then None else Some (d\<lparr>comp_refcount := ?C q - 1\<rparr>))" "cs_free st' = cs_free ?st"
      using relinquish_comp_ok [OF ok1, of q d] by blast
    have mem: "cset_members ?s = insert p (cset_members s - {q})" using slot(1) q(2) only by auto
    have "?C(q := ?C q - 1) = set_claims C ?s" using q(1) only [of p] by (auto simp: set_claims_def mem fun_eq_iff)
    moreover have "same_comps (others C \<union> cset_members ?s) ?st st'"
    proof -
      have "?C q \<noteq> 1" if "q \<in> others C \<union> cset_members ?s" using that q(1) by (auto simp: set_claims_def others_def mem)
      with \<open>cs_comps ?st q = Some d\<close> st'(3,4) show ?thesis by (auto simp: same_comps_def comp_content_def)
    qed
    ultimately show ?thesis using st'(1,2) Some same_comps_trans [OF same1] by auto
  qed
  then obtain st' where st': "relinquish_comp (cset_components s ! i) ?st = Some st'" "store_ok farm K P (set_claims C ?s) st'"
    "same_comps (others C \<union> cset_members ?s) st st'" by blast
  have members: "same_comps (cset_members ?s) st st'" using st'(3) by (simp add: same_comps_def)
  have "lcfgcompset_insert_component s (Some p) st =
      Some (if cset_lookup st s ?n = None then LCFG_CHANGE_ADDED else LCFG_CHANGE_REPLACED, ?s, st')"
    using run i at st'(1) slot(5) by (auto simp: Let_def)
  then show "\<exists>s' st'. lcfgcompset_insert_component s (Some p) st =
        Some (if cset_lookup st s ?n = None then LCFG_CHANGE_ADDED else LCFG_CHANGE_REPLACED, s', st') \<and>
      store_ok farm K P (set_claims C s') st' \<and> cset_good st' s' \<and>
      cset_lookup st' s' = (cset_lookup st s)(?n := Some p) \<and> same_comps (others C \<union> cset_members s') st st'"
    using st'(2,3) cset_good_kept [OF slot(2) members] slot(3) by auto
qed

end
