(* ===== verification/Spec2Isabelle.thy ===== *)
theory Spec2Isabelle
  imports Lcfg_Prelude Lcfg_Utils Lcfg_SList Lcfg_Context Lcfg_Context_Expr Lcfg_Version
    Lcfg_Derivation Lcfg_Package Lcfg_Package_Spec Lcfg_Package_List
    Lcfg_Probe Lcfg_Package_Set Lcfg_Package_Iter Lcfg_Derivation_Map Lcfg_Package_Text Lcfg_Package_Reader Lcfg_Tag Lcfg_Tag_List Lcfg_Entities Lcfg_Template Lcfg_Resource
    Lcfg_Resource_Value Lcfg_Resource_Text Lcfg_Resource_Env Lcfg_Reslist Lcfg_Component Lcfg_Component_IO Lcfg_Compset
begin

text \<open>
  A verification library for the LCFG core libraries: the C code that parses, stores, merges,
  queries and prints the configuration data (contexts, derivations, packages, resources and
  components) from which an LCFG client is configured.

  \<^bold>\<open>The program\<close>. A package or a resource is a record of string attributes. One of them is a
  context expression that decides, for a list of contexts with priorities, whether the record
  is active; another one is a list of derivations, the files and lines it comes from. Packages
  are collected in lists and in sets (hash tables of lists, one for each name), with rules that
  say what happens when two of them have the same key. Resources have a typed value, and a list
  of templates that gives the names of other resources for a list of tags. Every kind of data
  is read from and printed to strings, specification files and files of other tools.

  \<^bold>\<open>Theories and sources\<close> (paths under \<open>src/\<close>, definitions have the names of the C functions):
  \<^item> \<open>Lcfg_Prelude\<close>: C strings, character classes, \<open>strcmp\<close>, status codes and option bits
    (\<open>include/common.h\<close>), and the locale of three-way comparisons; \<open>Lcfg_Utils\<close>:
    \<open>utils/utils.c\<close> and what it uses of the C library; \<open>Lcfg_SList\<close>: \<open>utils/slist.c\<close> and the
    bubble sort; \<open>Lcfg_Entities\<close>: \<open>utils/entities.c\<close>, decoding in place.
  \<^item> \<open>Lcfg_Context\<close>, \<open>Lcfg_Context_Expr\<close>: \<open>common/context/\<close> (contexts, lists, lexer, parser,
    evaluation, combination of expressions).
  \<^item> \<open>Lcfg_Derivation\<close>, \<open>Lcfg_Derivation_Map\<close>: \<open>common/derivation/\<close>.
  \<^item> \<open>Lcfg_Version\<close>, \<open>Lcfg_Package\<close>, \<open>Lcfg_Package_Spec\<close>, \<open>Lcfg_Package_Text\<close>:
    \<open>packages/package.c\<close>, \<open>rpm.c\<close>, \<open>deb.c\<close>; \<open>Lcfg_Package_List\<close>: \<open>packages/list.c\<close>;
    \<open>Lcfg_Probe\<close> (the probing of all hash tables) and \<open>Lcfg_Package_Set\<close>: \<open>packages/set.c\<close>;
    \<open>Lcfg_Package_Iter\<close>: the iterators; \<open>Lcfg_Package_Reader\<close>: \<open>packages/container.c\<close> and the
    readers built on it.
  \<^item> \<open>Lcfg_Tag\<close>, \<open>Lcfg_Tag_List\<close>: \<open>resources/tags/\<close>; \<open>Lcfg_Template\<close>: \<open>resources/templates.c\<close>;
    \<open>Lcfg_Resource\<close> (the record and its attributes), \<open>Lcfg_Resource_Text\<close> (keys, styles and
    specifications) and \<open>Lcfg_Resource_Env\<close> (messages, environment, exports):
    \<open>resources/resource.c\<close>; \<open>Lcfg_Resource_Value\<close>: \<open>resources/mutate.c\<close>.
  \<^item> \<open>Lcfg_Reslist\<close>: \<open>resources/components/reslist.c\<close>, the lists of resources with one name and the
    memory they share; \<open>Lcfg_Component\<close>, \<open>Lcfg_Component_IO\<close>: \<open>resources/components/component.c\<close>,
    the hash tables of those lists, and how they are read and printed; \<open>Lcfg_Compset\<close>:
    \<open>set.c\<close> and \<open>iterator.c\<close> there, sets of components over a store that shares them.

  \<^bold>\<open>State\<close>. A struct is a record with a field for each of its members. Contexts, derivations,
  derivation lists and templates are values; the caches that printing fills are part of them,
  and operations return the changed value. Packages that several lists share live in a heap
  from addresses to packages with their reference counts; an address is defined until the
  package is destroyed, and a new package gets a fresh address. Tags and the nodes of their
  doubly linked lists live in a memory of both (\<open>tag_mem\<close>), resources that are in components and
  the lists that components share in another (\<open>res_mem\<close>, whose invariant \<open>res_mem_ok\<close> says that
  every count is exactly that of the references there are); components that sets share live in a
  store around it (\<open>store_ok\<close>). The single-linked lists of packages,
  contexts and derivations are sequences with the size field. A hash table is the array of its
  buckets.

  \<^bold>\<open>Errors\<close>. \<open>LCFGStatus\<close> and \<open>LCFGChange\<close> are data types; a function that gives a message is a
  sum, or returns it beside the result. What C leaves undefined (a read through a null or freed
  pointer, a write outside of a buffer) and a loop that does not return is \<open>None\<close>, so that a
  result \<open>Some\<close> says that neither happens. Buffers that are grown to a computed length are
  modelled by the length and the text, and the lemmas on lengths are the assertions of the code.

  \<^bold>\<open>Parameters\<close> of the model: \<open>fnmatch\<close>, \<open>qsort\<close>, \<open>farmhash64\<close>, the value (beyond its sign) of
  \<open>strcmp\<close>, the machine name, the output of \<open>cpp\<close> and the lines of files.

  \<^bold>\<open>Lemmas\<close>. Each theory has the invariant of its data and that every operation keeps it, what
  each operation does to the abstract view (a map from keys, a sequence, a union of lines), and
  the round trips of its texts. Loops that the code repeats are proved once: insertion and
  removal, the sort, the probing, the walk over the nodes of a tag list. The main locales are
  \<open>comparator\<close> (comparison functions, interpreted on every one of them), \<open>probing\<close> (open
  addressing, interpreted on the tables of packages, derivations, lists of resources and
  components) and \<open>package_container\<close> (the collection a reader merges into, interpreted on lists
  and sets).

  \<^bold>\<open>References\<close>. What the code computes is compared with definitions that do not use it: the
  grammar of context expressions and their truth, the order of Debian versions as alternating
  texts and numbers (\<open>version_parts\<close>), UTF-8 in arithmetic (\<open>utf8\<close>), a reader of shell text, the
  left-to-right filling of a template, maps and sequences for the containers.

  \<^bold>\<open>Bounds and fuel\<close>. Loops that may not end are partial functions into the option type, and
  their lemmas show that they return. A resize of a hash table inserts again into the new table,
  which could resize it once more: two levels are enough, since the load of the new table is
  low enough, and the lemmas show that the exit of a failed resize is not reached. The nodes of a
  tag list are destroyed one by one, at most as often as the size of the list. Reference counts,
  sizes and priorities have no wrap-around in the model; hash values, line numbers and option bits
  are words.

  \<^bold>\<open>Not modelled\<close>: writing to streams and files, temporary files and locks, Berkeley DB and
  libxml2, librpm, the vendored hash functions, message output and the command line tools, which
  are input and output around the modelled operations, or third-party code; nor the differences
  of resources, components and profiles.
\<close>

end
